(* ===== verification/Prelude.thy ===== *)
theory Prelude
  imports "HOL-Library.Word" "HOL-Library.Sublist" "HOL-Library.Multiset"
begin

text \<open>
  Shared vocabulary of the development.

  C integers are read as HOL integers together with the predicate in_int32, the range of
  the C type int; their memory image is the little-endian list of four bytes of the LP64
  target. Bytes are 8-bit words, floats are kept as their 32-bit patterns and pointers as
  64-bit words. A C function that returns 0 on success and -1 on error, and that leaves
  its effects in place when it fails, is a function from a state to a return code and a
  state; seq_rc runs a chain of such calls, each guarded by an early return of -1, and
  bind_c does so for calls that also deliver a value.
\<close>

section \<open>Collections\<close>

named_theorems emit_intros \<open>what a writer appends to a packet\<close>
named_theorems take_intros \<open>what a reader takes from a packet\<close>
named_theorems codec_simps \<open>decoding of an encoded value\<close>

section \<open>Bytes and C integers\<close>

type_synonym byte = "8 word"
type_synonym bytes = "8 word list"
type_synonym cfloat = "32 word"
type_synonym cptr = "64 word"

definition in_int32 :: "int \<Rightarrow> bool" where
  "in_int32 i \<longleftrightarrow> - (2 ^ 31) \<le> i \<and> i < 2 ^ 31"

definition int_bytes :: "int \<Rightarrow> bytes" where
  "int_bytes i = map (\<lambda>k. word_of_int (i div 2 ^ (8 * k))) [0, 1, 2, 3]"

definition bytes_nat :: "bytes \<Rightarrow> nat" where
  "bytes_nat bs = foldr (\<lambda>b n. unat b + 256 * n) bs 0"

definition bytes_int :: "bytes \<Rightarrow> int" where
  "bytes_int bs = (let n = int (bytes_nat bs) in if n < 2 ^ 31 then n else n - 2 ^ 32)"

definition word32_bytes :: "32 word \<Rightarrow> bytes" where
  "word32_bytes w = map (\<lambda>k. word_of_nat (unat w div 2 ^ (8 * k))) [0, 1, 2, 3]"

definition bytes_word32 :: "bytes \<Rightarrow> 32 word" where
  "bytes_word32 bs = word_of_nat (bytes_nat bs)"

definition word64_bytes :: "64 word \<Rightarrow> bytes" where
  "word64_bytes w = map (\<lambda>k. word_of_nat (unat w div 2 ^ (8 * k))) [0, 1, 2, 3, 4, 5, 6, 7]"

definition bytes_word64 :: "bytes \<Rightarrow> 64 word" where
  "bytes_word64 bs = word_of_nat (bytes_nat bs)"

text \<open>The value a C int takes when it is given x: sums and products of ints wrap at 32 bits.\<close>

definition int_cast :: "int \<Rightarrow> int" where
  "int_cast x = sint (word_of_int x :: 32 word)"

text \<open>C division truncates towards zero.\<close>

definition cdiv :: "int \<Rightarrow> int \<Rightarrow> int" where
  "cdiv a b = sgn a * sgn b * (\<bar>a\<bar> div \<bar>b\<bar>)"

definition crem :: "int \<Rightarrow> int \<Rightarrow> int" where
  "crem a b = a - cdiv a b * b"

text \<open>The operations of C on values of type float that the program uses, on bit patterns.\<close>

record float_ops =
  f_of_int :: "int \<Rightarrow> cfloat"
  f_add :: "cfloat \<Rightarrow> cfloat \<Rightarrow> cfloat"
  f_sub :: "cfloat \<Rightarrow> cfloat \<Rightarrow> cfloat"
  f_mul :: "cfloat \<Rightarrow> cfloat \<Rightarrow> cfloat"
  f_div :: "cfloat \<Rightarrow> cfloat \<Rightarrow> cfloat"
  f_less :: "cfloat \<Rightarrow> cfloat \<Rightarrow> bool"
  f_eq :: "cfloat \<Rightarrow> cfloat \<Rightarrow> bool"

text \<open>struct timeval, which rtdal.h calls time_t.\<close>

record timeval =
  tv_sec :: int
  tv_usec :: int

text \<open>The C string held in a character array: the bytes before the first zero.\<close>

definition c_str :: "bytes \<Rightarrow> bytes" where
  "c_str bs = takeWhile (\<lambda>b. b \<noteq> 0) bs"

section \<open>Calls with a return code\<close>

type_synonym 's rc_fun = "'s \<Rightarrow> int \<times> 's"

text \<open>A chain of calls, each one as in "if (f(s)) return -1;", ending in "return 0".\<close>

fun seq_rc :: "'s rc_fun list \<Rightarrow> 's rc_fun" where
  "seq_rc [] s = (0, s)"
| "seq_rc (f # fs) s = (let (r, s') = f s in if r \<noteq> 0 then (-1, s') else seq_rc fs s')"

text \<open>A call that delivers a value on success and ends the caller on failure.\<close>

definition bind_c :: "('s \<Rightarrow> 'a option \<times> 's) \<Rightarrow> ('a \<Rightarrow> 's \<Rightarrow> 'b option \<times> 's) \<Rightarrow> 's \<Rightarrow> 'b option \<times> 's" where
  "bind_c f g s = (case f s of (None, s') \<Rightarrow> (None, s') | (Some x, s') \<Rightarrow> g x s')"

definition ret_c :: "'a \<Rightarrow> 's \<Rightarrow> 'a option \<times> 's" where
  "ret_c x s = (Some x, s)"

fun map_c :: "('a \<Rightarrow> 's \<Rightarrow> 'b option \<times> 's) \<Rightarrow> 'a list \<Rightarrow> 's \<Rightarrow> 'b list option \<times> 's" where
  "map_c f [] s = (Some [], s)"
| "map_c f (x # xs) s = bind_c (f x) (\<lambda>y. bind_c (map_c f xs) (\<lambda>ys. ret_c (y # ys))) s"

section \<open>Lemmas on bytes and integers\<close>

lemma length_int_bytes [simp]: "length (int_bytes i) = 4"
  by (simp add: int_bytes_def)

lemma length_word32_bytes [simp]: "length (word32_bytes w) = 4"
  by (simp add: word32_bytes_def)

lemma length_word64_bytes [simp]: "length (word64_bytes w) = 8"
  by (simp add: word64_bytes_def)

lemma unat_byte_of_nat: "unat (word_of_nat n :: byte) = n mod 256"
  by (simp add: unat_of_nat)

lemma bytes_nat_Cons: "bytes_nat (b # bs) = unat b + 256 * bytes_nat bs"
  by (simp add: bytes_nat_def)

lemma bytes_nat_Nil: "bytes_nat [] = 0"
  by (simp add: bytes_nat_def)

lemma bytes_nat_map_div:
  "bytes_nat (map (\<lambda>k. word_of_nat (n div 2 ^ (8 * k))) [a..<a + m]) = n div 2 ^ (8 * a) mod 2 ^ (8 * m)"
proof (induction m arbitrary: a)
  case 0
  show ?case by (simp add: bytes_nat_Nil)
next
  case (Suc m)
  have up: "[a..<a + Suc m] = a # [Suc a..<Suc a + m]"
    by (simp add: upt_conv_Cons del: upt_Suc)
  let ?q = "n div 2 ^ (8 * a)"
  have q1: "n div 2 ^ (8 * Suc a) = ?q div 256"
    by (simp add: div_mult2_eq [symmetric] power_add mult.commute)
  have "?q mod 2 ^ (8 * Suc m) = ?q mod (256 * 2 ^ (8 * m))"
    by (simp add: power_add)
  also have "\<dots> = 256 * (?q div 256 mod 2 ^ (8 * m)) + ?q mod 256"
    by (rule mod_mult2_eq)
  finally show ?case
    by (simp only: up list.map bytes_nat_Cons Suc.IH q1 unat_byte_of_nat)
qed

lemma upt_0_4: "[0, 1, 2, 3] = [0..<0 + (4::nat)]"
  by (simp add: upt_rec)

lemma upt_0_8: "[0, 1, 2, 3, 4, 5, 6, 7] = [0..<0 + (8::nat)]"
  by (simp add: upt_rec)

lemma bytes_word32_inverse [codec_simps, simp]: "bytes_word32 (word32_bytes w) = w"
proof -
  have "unat w < 2 ^ 32" using unsigned_less [of w] by simp
  then show ?thesis
    unfolding bytes_word32_def word32_bytes_def upt_0_4 bytes_nat_map_div by simp
qed

lemma bytes_word64_inverse [codec_simps, simp]: "bytes_word64 (word64_bytes w) = w"
proof -
  have "unat w < 2 ^ 64" using unsigned_less [of w] by simp
  then show ?thesis
    unfolding bytes_word64_def word64_bytes_def upt_0_8 bytes_nat_map_div by simp
qed

lemma int_bytes_nat:
  "int_bytes i = map (\<lambda>k. word_of_nat (nat (i mod 2 ^ 32) div 2 ^ (8 * k))) [0, 1, 2, 3]"
proof -
  have "(word_of_int (i div 2 ^ (8 * k)) :: byte) = word_of_nat (nat (i mod 2 ^ 32) div 2 ^ (8 * k))"
    if "k \<in> {0, 1, 2, 3}" for k :: nat
  proof -
    have le: "8 \<le> 32 - 8 * k" using that by auto
    have "take_bit 8 (drop_bit (8 * k) (take_bit 32 i)) = take_bit 8 (drop_bit (8 * k) i)"
      using le by (simp add: drop_bit_take_bit min_absorb1)
    then have "(i div 2 ^ (8 * k)) mod 256 = (i mod 2 ^ 32 div 2 ^ (8 * k)) mod 256"
      by (simp add: take_bit_eq_mod drop_bit_eq_div)
    moreover have "int (nat (i mod 2 ^ 32) div 2 ^ (8 * k)) = i mod 2 ^ 32 div 2 ^ (8 * k)"
      by (simp add: zdiv_int)
    ultimately have "(word_of_int (i div 2 ^ (8 * k)) :: byte)
        = word_of_int (int (nat (i mod 2 ^ 32) div 2 ^ (8 * k)))"
      by (simp add: word_of_int_eq_iff take_bit_eq_mod)
    then show ?thesis by simp
  qed
  then show ?thesis
    unfolding int_bytes_def by (intro map_cong refl) (simp only: list.set)
qed

lemma bytes_int_inverse [codec_simps, simp]:
  assumes "in_int32 i"
  shows "bytes_int (int_bytes i) = i"
proof -
  have "bytes_nat (int_bytes i) = nat (i mod 2 ^ 32)"
  proof -
    have "nat (i mod 2 ^ 32) < 2 ^ 32" by (simp add: nat_less_iff)
    then show ?thesis
      unfolding int_bytes_nat upt_0_4 bytes_nat_map_div by simp
  qed
  then have "int (bytes_nat (int_bytes i)) = i mod 2 ^ 32" by simp
  moreover have "i mod 2 ^ 32 = (if 0 \<le> i then i else i + 2 ^ 32)"
    using assms mod_add_self2 [of i "2 ^ 32"]
    by (auto simp: in_int32_def mod_pos_pos_trivial simp del: mod_add_self2)
  ultimately show ?thesis
    using assms by (auto simp: bytes_int_def in_int32_def Let_def)
qed

lemma int_cast_id: "in_int32 x \<Longrightarrow> int_cast x = x"
  by (simp add: int_cast_def in_int32_def sint_sbintrunc' signed_take_bit_int_eq_self)

lemma int_cast_nonneg [simp]: "0 \<le> x \<Longrightarrow> x < 2 ^ 31 \<Longrightarrow> int_cast x = x"
  by (rule int_cast_id) (simp add: in_int32_def)

lemma int_cast_wrap:
  assumes "2 ^ 31 \<le> x" "x < 2 ^ 32"
  shows "int_cast x = x - 2 ^ 32"
proof -
  have "(word_of_int (x - 2 ^ 32) :: 32 word) = word_of_int x"
    by (simp add: word_of_int_eq_iff take_bit_eq_mod)
  moreover have "int_cast (x - 2 ^ 32) = x - 2 ^ 32" using assms by (intro int_cast_id) (simp add: in_int32_def)
  ultimately show ?thesis by (simp only: int_cast_def)
qed

section \<open>Lemmas on chains of calls\<close>

lemma seq_rc_append:
  "seq_rc (fs @ gs) s = (let (r, s') = seq_rc fs s in if r \<noteq> 0 then (-1, s') else seq_rc gs s')"
  by (induction fs arbitrary: s) (auto simp: Let_def split: prod.splits)

lemma seq_rc_code: "fst (seq_rc fs s) \<in> {0, -1}"
  by (induction fs arbitrary: s) (auto simp: Let_def split: prod.splits)

lemma seq_rc_invariant:
  assumes "\<And>f s. f \<in> set fs \<Longrightarrow> P s \<Longrightarrow> P (snd (f s))" and "P s"
  shows "P (snd (seq_rc fs s))"
  using assms
proof (induction fs arbitrary: s)
  case (Cons f fs)
  obtain r s' where f: "f s = (r, s')" by (cases "f s")
  with Cons.prems have "P s'" by (metis list.set_intros(1) snd_conv)
  with Cons f show ?case by (simp add: Let_def)
qed simp

section \<open>Lemmas on lists\<close>

lemma takeWhile_eq_all: "(\<And>x. x \<in> set xs \<Longrightarrow> P x) \<Longrightarrow> takeWhile P xs = xs"
  by (simp add: takeWhile_eq_all_conv)

lemma drop_nat_add: "drop (n + m) xs = drop m (drop n xs)"
  by (simp add: add.commute)

end
