(* ===== verification/Packet.thy ===== *)
theory Packet
  imports Prelude
begin

text \<open>
  Packets exchanged by the manager and the nodes: oesr/src/common/packet.c and packet.h.

  A packet is a byte buffer with a write and a read pointer, a command and a destination.
  The theory defines the operations of packet.c, the invariant packet_wf they keep, the
  abstract view of a packet as the list of its unread bytes, and the two predicates
  (emits, takes) through which the serialisation proofs read a writer or a reader.
\<close>

section \<open>Data\<close>

datatype packet_command_t = CMD_LOAD | CMD_SET | CMD_GET | CMD_CONNECT | CMD_DISCONNECT | CMD_HWINFO

record packet_dest_t =
  dst_waveform_id :: int
  dst_module_id :: int
  dst_variable_id :: int
  dst_node :: cptr

record packet_t =
  pk_cmd :: packet_command_t
  pk_dest :: packet_dest_t
  pk_ack :: int
  pk_w_ptr :: int
  pk_r_ptr :: int
  pk_size :: int
  pk_buffer :: "bytes option"

text \<open>memcpy of the block d into the buffer b at offset off.\<close>

definition memcpy_at :: "bytes \<Rightarrow> nat \<Rightarrow> bytes \<Rightarrow> bytes" where
  "memcpy_at b off d = take off b @ d @ drop (off + length d) b"

section \<open>Operations\<close>

text \<open>m is the block returned by malloc, None when the allocation fails.\<close>

definition packet_init :: "bytes option \<Rightarrow> int \<Rightarrow> packet_t rc_fun" where
  "packet_init m sz pkt = (case m of
      None \<Rightarrow> (-1, pkt\<lparr>pk_buffer := None\<rparr>)
    | Some b \<Rightarrow> (0, pkt\<lparr>pk_buffer := Some b, pk_size := sz\<rparr>))"

definition packet_dest_zero :: packet_dest_t where
  "packet_dest_zero = \<lparr>dst_waveform_id = 0, dst_module_id = 0, dst_variable_id = 0, dst_node = 0\<rparr>"

definition packet_clear :: "packet_t rc_fun" where
  "packet_clear pkt = (case pk_buffer pkt of
      None \<Rightarrow> (-1, pkt)
    | Some _ \<Rightarrow> (0, pkt\<lparr>pk_dest := packet_dest_zero, pk_r_ptr := 0, pk_w_ptr := 0\<rparr>))"

definition packet_read :: "packet_t \<Rightarrow> int" where
  "packet_read pkt = -1"

definition packet_set_cmd :: "packet_command_t \<Rightarrow> packet_t rc_fun" where
  "packet_set_cmd c pkt = (case pk_buffer pkt of
      None \<Rightarrow> (-1, pkt)
    | Some _ \<Rightarrow> (0, pkt\<lparr>pk_cmd := c\<rparr>))"

text \<open>None stands for the value -1, which is no command.\<close>

definition packet_get_cmd :: "packet_t \<Rightarrow> packet_command_t option" where
  "packet_get_cmd pkt = (case pk_buffer pkt of None \<Rightarrow> None | Some _ \<Rightarrow> Some (pk_cmd pkt))"

text \<open>The block data is None when the caller passes a null pointer. The sum of the write pointer
  and the length is a C int, which wraps; when it does, the test lets the block through and
  memcpy runs over the end of the buffer. The copy is then longer than pk_size, which the
  invariant below excludes; what the program does from there on is undefined.\<close>

definition packet_add_data :: "bytes option \<Rightarrow> int \<Rightarrow> packet_t rc_fun" where
  "packet_add_data data len pkt = (case pk_buffer pkt of
      None \<Rightarrow> (-1, pkt)
    | Some b \<Rightarrow> (case data of
        None \<Rightarrow> (-1, pkt)
      | Some d \<Rightarrow>
          if len < 0 then (-1, pkt)
          else if int_cast (pk_w_ptr pkt + len) > pk_size pkt then (-1, pkt)
          else (0, pkt\<lparr>pk_buffer := Some (memcpy_at b (nat (pk_w_ptr pkt)) (take (nat len) d)),
                      pk_w_ptr := int_cast (pk_w_ptr pkt + len)\<rparr>)))"

text \<open>The destination block data is None for a null pointer; on success it is returned with
  its first len bytes replaced.\<close>

definition packet_get_data :: "bytes option \<Rightarrow> int \<Rightarrow> packet_t \<Rightarrow> bytes option \<times> packet_t" where
  "packet_get_data data len pkt = (case pk_buffer pkt of
      None \<Rightarrow> (None, pkt)
    | Some b \<Rightarrow> (case data of
        None \<Rightarrow> (None, pkt)
      | Some d \<Rightarrow>
          if \<not> len > 0 then (None, pkt)
          else if pk_w_ptr pkt - pk_r_ptr pkt < len then (None, pkt)
          else (Some (memcpy_at d 0 (take (nat len) (drop (nat (pk_r_ptr pkt)) b))),
                pkt\<lparr>pk_r_ptr := pk_r_ptr pkt + len\<rparr>)))"

definition packet_total_size :: "packet_t \<Rightarrow> int" where
  "packet_total_size pkt = (case pk_buffer pkt of None \<Rightarrow> -1 | Some _ \<Rightarrow> pk_w_ptr pkt)"

definition packet_toread_size :: "packet_t \<Rightarrow> int" where
  "packet_toread_size pkt = (case pk_buffer pkt of
      None \<Rightarrow> -1 | Some _ \<Rightarrow> pk_w_ptr pkt - pk_r_ptr pkt)"

definition packet_set_ack :: "int \<Rightarrow> packet_t rc_fun" where
  "packet_set_ack a pkt = (case pk_buffer pkt of
      None \<Rightarrow> (-1, pkt) | Some _ \<Rightarrow> (0, pkt\<lparr>pk_ack := a\<rparr>))"

definition packet_get_ack :: "packet_t \<Rightarrow> int" where
  "packet_get_ack pkt = (case pk_buffer pkt of None \<Rightarrow> -1 | Some _ \<Rightarrow> pk_ack pkt)"

definition packet_get_dest :: "packet_t \<Rightarrow> packet_dest_t option" where
  "packet_get_dest pkt = (case pk_buffer pkt of None \<Rightarrow> None | Some _ \<Rightarrow> Some (pk_dest pkt))"

text \<open>
  packet_sendto works on the sender's packet and on the packet of the node; the receiving
  node is called in place (nod_anode_cmd_recv). Its state st is threaded through recv.
\<close>

definition packet_sendto ::
  "('n \<Rightarrow> packet_t \<Rightarrow> int \<times> 'n \<times> packet_t) \<Rightarrow> packet_dest_t \<Rightarrow> packet_t \<times> packet_t \<times> 'n
     \<Rightarrow> int \<times> packet_t \<times> packet_t \<times> 'n" where
  "packet_sendto recv dest s = (case s of (pkt, node_packet, st) \<Rightarrow>
    (case pk_buffer pkt of
      None \<Rightarrow> (-1, pkt, node_packet, st)
    | Some b \<Rightarrow>
       (let np1 = snd (packet_clear node_packet);
            np2 = (snd (packet_set_cmd (pk_cmd pkt) np1))\<lparr>pk_dest := dest\<rparr>;
            (r, np3) = packet_add_data (Some b) (packet_total_size pkt) np2
        in if r \<noteq> 0 then (-1, pkt, np3, st)
           else (let (ack, st', np4) = recv st np3;
                     pkt1 = pkt\<lparr>pk_ack := ack\<rparr>;
                     (r', pkt2) = packet_add_data (pk_buffer np4) (packet_total_size np4) pkt1
                 in (if r' \<noteq> 0 then -1 else 0, pkt2, np4, st')))))"

text \<open>The macros add_i and get_i of packet.h.\<close>

definition add_i :: "int \<Rightarrow> packet_t rc_fun" where
  "add_i i = packet_add_data (Some (int_bytes i)) 4"

definition get_i :: "packet_t \<Rightarrow> int option \<times> packet_t" where
  "get_i = bind_c (packet_get_data (Some (replicate 4 0)) 4) (\<lambda>bs. ret_c (bytes_int bs))"

section \<open>Invariant and abstract view\<close>

definition packet_wf :: "packet_t \<Rightarrow> bool" where
  "packet_wf p \<longleftrightarrow> (case pk_buffer p of None \<Rightarrow> False | Some b \<Rightarrow>
     int (length b) = pk_size p \<and> pk_size p < 2 ^ 31
     \<and> 0 \<le> pk_r_ptr p \<and> pk_r_ptr p \<le> pk_w_ptr p \<and> pk_w_ptr p \<le> pk_size p)"

definition packet_buf :: "packet_t \<Rightarrow> bytes" where
  "packet_buf p = (case pk_buffer p of None \<Rightarrow> [] | Some b \<Rightarrow> b)"

definition packet_written :: "packet_t \<Rightarrow> bytes" where
  "packet_written p = take (nat (pk_w_ptr p)) (packet_buf p)"

definition packet_unread :: "packet_t \<Rightarrow> bytes" where
  "packet_unread p = drop (nat (pk_r_ptr p)) (packet_written p)"

definition packet_room :: "packet_t \<Rightarrow> nat" where
  "packet_room p = nat (pk_size p - pk_w_ptr p)"

text \<open>The longest block whose end is still a C int.\<close>

definition packet_limit :: "packet_t \<Rightarrow> nat" where
  "packet_limit p = nat (2 ^ 31 - 1 - pk_w_ptr p)"

definition packet_append :: "bytes \<Rightarrow> packet_t \<Rightarrow> packet_t" where
  "packet_append bs p = p\<lparr>pk_buffer := Some (memcpy_at (packet_buf p) (nat (pk_w_ptr p)) bs),
                         pk_w_ptr := pk_w_ptr p + int (length bs)\<rparr>"

definition packet_skip :: "nat \<Rightarrow> packet_t \<Rightarrow> packet_t" where
  "packet_skip n p = p\<lparr>pk_r_ptr := pk_r_ptr p + int n\<rparr>"

text \<open>f appends the bytes bs when the packet has room for them and fails otherwise, for blocks
  whose end is a C int.\<close>

definition emits :: "packet_t rc_fun \<Rightarrow> bytes \<Rightarrow> bool" where
  "emits f bs \<longleftrightarrow> (\<forall>p. packet_wf p \<longrightarrow>
     (if length bs \<le> packet_room p then f p = (0, packet_append bs p)
      else pk_w_ptr p + int (length bs) < 2 ^ 31 \<longrightarrow> fst (f p) = -1 \<and> packet_wf (snd (f p))))"

text \<open>f reads the bytes bs off the unread part and delivers x.\<close>

definition takes :: "(packet_t \<Rightarrow> 'a option \<times> packet_t) \<Rightarrow> bytes \<Rightarrow> 'a \<Rightarrow> bool" where
  "takes f bs x \<longleftrightarrow> (\<forall>p rest. packet_wf p \<and> packet_unread p = bs @ rest \<longrightarrow>
     f p = (Some x, packet_skip (length bs) p))"

text \<open>Adding and getting one whole block, as the client of the byte queue calls them.\<close>

definition packet_put :: "bytes \<Rightarrow> packet_t rc_fun" where
  "packet_put bs = packet_add_data (Some bs) (int (length bs))"

definition packet_get :: "nat \<Rightarrow> packet_t \<Rightarrow> bytes option \<times> packet_t" where
  "packet_get n = packet_get_data (Some (replicate n 0)) (int n)"

section \<open>Lemmas\<close>

lemma length_memcpy_at [simp]:
  "off + length d \<le> length b \<Longrightarrow> length (memcpy_at b off d) = length b"
  by (simp add: memcpy_at_def)

lemma length_memcpy_at_int:
  "0 \<le> w \<Longrightarrow> \<not> len < 0 \<Longrightarrow> w + len \<le> int (length b)
    \<Longrightarrow> length (memcpy_at b (nat w) (take (nat len) d)) = length b"
  by (rule length_memcpy_at) simp

lemma take_memcpy_at:
  "off + length d \<le> length b \<Longrightarrow> take (off + length d) (memcpy_at b off d) = take off b @ d"
  by (simp add: memcpy_at_def)

lemma memcpy_at_all: "length b \<le> length d \<Longrightarrow> memcpy_at b 0 d = d"
  by (simp add: memcpy_at_def)

lemma memcpy_at_append:
  assumes "off + length d \<le> length b"
  shows "memcpy_at (memcpy_at b off d) (off + length d) e = memcpy_at b off (d @ e)"
  using assms by (simp add: memcpy_at_def ac_simps)

lemma packet_wfE:
  assumes "packet_wf p"
  obtains b where "pk_buffer p = Some b" "packet_buf p = b" "int (length b) = pk_size p"
    "0 \<le> pk_r_ptr p" "pk_r_ptr p \<le> pk_w_ptr p" "pk_w_ptr p \<le> pk_size p" "pk_size p < 2 ^ 31"
  using assms by (auto simp: packet_wf_def packet_buf_def split: option.splits)

lemma packet_wf_cast: "packet_wf p \<Longrightarrow> 0 \<le> x \<Longrightarrow> x \<le> pk_size p \<Longrightarrow> int_cast x = x"
  by (erule packet_wfE) simp

lemma packet_room_fits:
  assumes "packet_wf p" "n \<le> packet_room p"
  shows "nat (pk_w_ptr p) + n \<le> length (packet_buf p)"
proof -
  from assms(1) obtain b where "packet_buf p = b" "int (length b) = pk_size p"
    "0 \<le> pk_r_ptr p" "pk_r_ptr p \<le> pk_w_ptr p" "pk_w_ptr p \<le> pk_size p"
    by (rule packet_wfE)
  with assms(2) show ?thesis by (simp add: packet_room_def)
qed

lemma packet_append_Nil [simp]: "packet_wf p \<Longrightarrow> packet_append [] p = p"
  by (erule packet_wfE) (simp add: packet_append_def memcpy_at_def)

lemma packet_append_append:
  assumes "packet_wf p" "length (a @ b) \<le> packet_room p"
  shows "packet_append b (packet_append a p) = packet_append (a @ b) p"
proof -
  from assms(1) obtain c where c: "packet_buf p = c" "int (length c) = pk_size p" "0 \<le> pk_w_ptr p"
    by (auto elim!: packet_wfE)
  have off: "nat (pk_w_ptr p + int (length a)) = nat (pk_w_ptr p) + length a"
    using c by simp
  have "nat (pk_w_ptr p) + length a \<le> length c"
    using packet_room_fits [OF assms(1), of "length a"] assms(2) c by simp
  with c show ?thesis
    by (simp add: packet_append_def packet_buf_def off memcpy_at_append)
qed

lemma packet_wf_append [simp, intro]:
  "packet_wf p \<Longrightarrow> length a \<le> packet_room p \<Longrightarrow> packet_wf (packet_append a p)"
  by (erule packet_wfE) (auto simp: packet_append_def packet_room_def packet_wf_def)

lemma packet_room_append [simp]: "packet_room (packet_append a p) = packet_room p - length a"
  by (simp add: packet_append_def packet_room_def)

lemma packet_written_append:
  assumes "packet_wf p" "length a \<le> packet_room p"
  shows "packet_written (packet_append a p) = packet_written p @ a"
proof -
  from assms(1) obtain c where c: "packet_buf p = c" "int (length c) = pk_size p" "0 \<le> pk_w_ptr p"
    by (auto elim!: packet_wfE)
  have off: "nat (pk_w_ptr p + int (length a)) = nat (pk_w_ptr p) + length a"
    using c by simp
  have "nat (pk_w_ptr p) + length a \<le> length c"
    using packet_room_fits [OF assms(1), of "length a"] assms(2) c by simp
  from take_memcpy_at [OF this] show ?thesis
    using c by (simp add: packet_written_def packet_append_def packet_buf_def off)
qed

lemma length_packet_written: "packet_wf p \<Longrightarrow> length (packet_written p) = nat (pk_w_ptr p)"
  by (erule packet_wfE) (simp add: packet_written_def)

lemma packet_unread_append:
  assumes "packet_wf p" "length a \<le> packet_room p"
  shows "packet_unread (packet_append a p) = packet_unread p @ a"
proof -
  have "nat (pk_r_ptr p) \<le> length (packet_written p)"
    using assms(1) by (auto simp: length_packet_written elim!: packet_wfE)
  moreover have "pk_r_ptr (packet_append a p) = pk_r_ptr p"
    by (simp add: packet_append_def)
  ultimately show ?thesis
    using assms by (simp add: packet_unread_def packet_written_append)
qed

lemma length_packet_unread: "packet_wf p \<Longrightarrow> length (packet_unread p) = nat (pk_w_ptr p - pk_r_ptr p)"
  using length_packet_written [of p]
  by (auto simp: packet_unread_def nat_diff_distrib elim!: packet_wfE)

lemma packet_wf_skip [simp, intro]:
  "packet_wf p \<Longrightarrow> n \<le> length (packet_unread p) \<Longrightarrow> packet_wf (packet_skip n p)"
  using length_packet_unread [of p]
  by (auto simp: packet_skip_def packet_wf_def split: option.splits)

lemma packet_unread_skip [simp]:
  assumes "packet_wf p"
  shows "packet_unread (packet_skip n p) = drop n (packet_unread p)"
proof -
  have "0 \<le> pk_r_ptr p" using assms by (auto elim: packet_wfE)
  then show ?thesis
    by (simp add: packet_unread_def packet_skip_def packet_written_def packet_buf_def
        nat_add_distrib add.commute)
qed

lemma packet_skip_add [simp]: "packet_skip m (packet_skip n p) = packet_skip (n + m) p"
  by (simp add: packet_skip_def)

lemma packet_skip_0 [simp]: "packet_skip 0 p = p"
  by (simp add: packet_skip_def)

lemma emitsI:
  assumes "\<And>p. packet_wf p \<Longrightarrow> length bs \<le> packet_room p \<Longrightarrow> f p = (0, packet_append bs p)"
    and "\<And>p. packet_wf p \<Longrightarrow> packet_room p < length bs \<Longrightarrow> pk_w_ptr p + int (length bs) < 2 ^ 31 \<Longrightarrow> fst (f p) = -1 \<and> packet_wf (snd (f p))"
  shows "emits f bs"
  using assms by (auto simp: emits_def)

lemma emitsD:
  "emits f bs \<Longrightarrow> packet_wf p \<Longrightarrow> length bs \<le> packet_room p \<Longrightarrow> f p = (0, packet_append bs p)"
  by (auto simp: emits_def)

lemma emits_full:
  "emits f bs \<Longrightarrow> packet_wf p \<Longrightarrow> packet_room p < length bs \<Longrightarrow> pk_w_ptr p + int (length bs) < 2 ^ 31
    \<Longrightarrow> fst (f p) = -1 \<and> packet_wf (snd (f p))"
  by (auto simp: emits_def)

lemma emits_packet_add_data [emit_intros]:
  assumes "int (length bs) = len"
  shows "emits (packet_add_data (Some bs) len) bs"
  using assms
  by (intro emitsI)
    (auto simp: packet_add_data_def packet_room_def packet_append_def packet_wf_def packet_buf_def
      split: option.splits)

lemma emits_add_i [emit_intros]: "emits (add_i i) (int_bytes i)"
  unfolding add_i_def by (rule emits_packet_add_data) simp

lemma emits_seq_Nil [emit_intros]: "emits (seq_rc []) []"
  by (intro emitsI) simp_all

lemma emits_seq_Cons:
  assumes f: "emits f a" and fs: "emits (seq_rc fs) b"
  shows "emits (seq_rc (f # fs)) (a @ b)"
proof (rule emitsI)
  fix p assume p: "packet_wf p" "length (a @ b) \<le> packet_room p"
  then have "f p = (0, packet_append a p)" using f by (intro emitsD) auto
  moreover have "seq_rc fs (packet_append a p) = (0, packet_append b (packet_append a p))"
    using p fs by (intro emitsD) auto
  ultimately show "seq_rc (f # fs) p = (0, packet_append (a @ b) p)"
    using p by (simp add: packet_append_append)
next
  fix p assume p: "packet_wf p" "packet_room p < length (a @ b)" "pk_w_ptr p + int (length (a @ b)) < 2 ^ 31"
  have w [simp]: "pk_w_ptr (packet_append a p) = pk_w_ptr p + int (length a)" by (simp add: packet_append_def)
  show "fst (seq_rc (f # fs) p) = - 1 \<and> packet_wf (snd (seq_rc (f # fs) p))"
  proof (cases "length a \<le> packet_room p")
    case True
    with p have "f p = (0, packet_append a p)" using f by (intro emitsD) auto
    moreover have "fst (seq_rc fs (packet_append a p)) = -1 \<and> packet_wf (snd (seq_rc fs (packet_append a p)))"
      using p True fs by (intro emits_full) auto
    ultimately show ?thesis by simp
  next
    case False
    with p f have "fst (f p) = -1 \<and> packet_wf (snd (f p))" by (intro emits_full) auto
    then show ?thesis by (cases "f p") simp
  qed
qed

lemma emits_seq_map:
  assumes "\<And>x. x \<in> set xs \<Longrightarrow> emits (f x) (g x)"
  shows "emits (seq_rc (map f xs)) (concat (map g xs))"
  using assms by (induction xs) (auto intro!: emits_seq_Nil emits_seq_Cons simp del: seq_rc.simps)

lemma emits_seq_append:
  assumes "emits (seq_rc fs) a" and "emits (seq_rc gs) b"
  shows "emits (seq_rc (fs @ gs)) (a @ b)"
proof (rule emitsI)
  fix p assume p: "packet_wf p" "length (a @ b) \<le> packet_room p"
  then have "seq_rc fs p = (0, packet_append a p)" using assms(1) by (intro emitsD) auto
  moreover have "seq_rc gs (packet_append a p) = (0, packet_append b (packet_append a p))"
    using p assms(2) by (intro emitsD) auto
  ultimately show "seq_rc (fs @ gs) p = (0, packet_append (a @ b) p)"
    using p by (simp add: packet_append_append seq_rc_append)
next
  fix p assume p: "packet_wf p" "packet_room p < length (a @ b)" "pk_w_ptr p + int (length (a @ b)) < 2 ^ 31"
  have w [simp]: "pk_w_ptr (packet_append a p) = pk_w_ptr p + int (length a)" by (simp add: packet_append_def)
  show "fst (seq_rc (fs @ gs) p) = - 1 \<and> packet_wf (snd (seq_rc (fs @ gs) p))"
  proof (cases "length a \<le> packet_room p")
    case True
    with p have "seq_rc fs p = (0, packet_append a p)" using assms(1) by (intro emitsD) auto
    moreover have "fst (seq_rc gs (packet_append a p)) = -1 \<and> packet_wf (snd (seq_rc gs (packet_append a p)))"
      using p True assms(2) by (intro emits_full) auto
    ultimately show ?thesis by (simp add: seq_rc_append)
  next
    case False
    with p assms(1) have "fst (seq_rc fs p) = -1 \<and> packet_wf (snd (seq_rc fs p))"
      by (intro emits_full) auto
    then show ?thesis by (cases "seq_rc fs p") (simp add: seq_rc_append)
  qed
qed

lemma takesI:
  assumes "\<And>p rest. packet_wf p \<Longrightarrow> packet_unread p = bs @ rest \<Longrightarrow> f p = (Some x, packet_skip (length bs) p)"
  shows "takes f bs x"
  using assms by (auto simp: takes_def)

lemma takesD:
  "takes f bs x \<Longrightarrow> packet_wf p \<Longrightarrow> packet_unread p = bs @ rest
    \<Longrightarrow> f p = (Some x, packet_skip (length bs) p)"
  by (auto simp: takes_def)

lemma takes_packet_get_data [take_intros]:
  assumes len: "int (length bs) = len" and pos: "0 < len" and d: "length d \<le> length bs"
  shows "takes (packet_get_data (Some d) len) bs bs"
proof (rule takesI)
  fix p rest assume p: "packet_wf p" "packet_unread p = bs @ rest"
  obtain b where b: "pk_buffer p = Some b" "packet_buf p = b" using p(1) by (auto elim: packet_wfE)
  have le: "length bs \<le> length (packet_unread p)" using p(2) by simp
  have "take (nat len) (drop (nat (pk_r_ptr p)) b) = take (length bs) (packet_unread p)"
  proof -
    have "nat (pk_r_ptr p) + length bs \<le> nat (pk_w_ptr p)"
      using le p(1) by (auto simp: length_packet_unread elim!: packet_wfE)
    then show ?thesis
      using b len by (auto simp: packet_unread_def packet_written_def drop_take min_def)
  qed
  also have "\<dots> = bs" using p(2) by simp
  finally show "packet_get_data (Some d) len p = (Some bs, packet_skip (length bs) p)"
    using b len pos le p(1) d
    by (auto simp: packet_get_data_def packet_skip_def length_packet_unread memcpy_at_all)
qed

lemma takes_bind:
  assumes f: "takes f a x" and g: "takes (g x) b y"
  shows "takes (bind_c f g) (a @ b) y"
proof (rule takesI)
  fix p rest assume p: "packet_wf p" "packet_unread p = (a @ b) @ rest"
  then have "f p = (Some x, packet_skip (length a) p)" using takesD [OF f] by simp
  moreover have "g x (packet_skip (length a) p) = (Some y, packet_skip (length b) (packet_skip (length a) p))"
    using p by (intro takesD [OF g]) auto
  ultimately show "bind_c f g p = (Some y, packet_skip (length (a @ b)) p)"
    by (simp add: bind_c_def)
qed

lemma takes_ret [take_intros]: "takes (ret_c x) [] x"
  by (rule takesI) (simp add: ret_c_def)

lemma takes_bind_ret:
  assumes "takes f a x"
  shows "takes (bind_c f (\<lambda>v. ret_c (h v))) a (h x)"
  using takes_bind [OF assms takes_ret] by simp

lemma takes_get_i [take_intros]:
  assumes "in_int32 i"
  shows "takes get_i (int_bytes i) i"
proof -
  have "takes get_i (int_bytes i) (bytes_int (int_bytes i))"
    unfolding get_i_def by (intro takes_bind_ret takes_packet_get_data) simp_all
  then show ?thesis using assms by simp
qed

lemma takes_map_c:
  assumes "\<And>x. x \<in> set xs \<Longrightarrow> takes (f x) (g x) (h x)"
  shows "takes (map_c f xs) (concat (map g xs)) (map h xs)"
  using assms
proof (induction xs)
  case Nil
  show ?case by (rule takesI) simp
next
  case (Cons x xs)
  have "takes (bind_c (map_c f xs) (\<lambda>ys. ret_c (h x # ys))) (concat (map g xs)) (h x # map h xs)"
    using Cons by (intro takes_bind_ret) auto
  then have "takes (bind_c (f x) (\<lambda>y. bind_c (map_c f xs) (\<lambda>ys. ret_c (y # ys))))
      (g x @ concat (map g xs)) (h x # map h xs)"
    using Cons.prems by (intro takes_bind) auto
  moreover have "map_c f (x # xs) = bind_c (f x) (\<lambda>y. bind_c (map_c f xs) (\<lambda>ys. ret_c (y # ys)))"
    by (rule ext) simp
  ultimately show ?case by simp
qed

text \<open>A writer followed by the matching reader, on a cleared packet.\<close>

lemma emits_then_takes:
  assumes "emits f bs" "takes g bs x" "packet_wf p" "packet_unread p = []" "length bs \<le> packet_room p"
  shows "fst (g (snd (f p))) = Some x" and "fst (f p) = 0"
    and "packet_unread (snd (g (snd (f p)))) = []" and "packet_wf (snd (g (snd (f p))))"
proof -
  have f: "f p = (0, packet_append bs p)" using assms by (intro emitsD) auto
  have u: "packet_unread (packet_append bs p) = bs @ []"
    using assms by (simp add: packet_unread_append)
  have w: "packet_wf (packet_append bs p)" using assms by simp
  have g: "g (packet_append bs p) = (Some x, packet_skip (length bs) (packet_append bs p))"
    using takesD [OF assms(2) w u] .
  show "fst (g (snd (f p))) = Some x" "fst (f p) = 0" "packet_unread (snd (g (snd (f p)))) = []"
    "packet_wf (snd (g (snd (f p))))"
    using f g u w by simp_all
qed

section \<open>A packet is a bounded byte queue\<close>

text \<open>The contract between the packet and the serialisation code: what put and get do to the
  list of unread bytes. A block longer than limit may be refused or not.\<close>

locale byte_queue =
  fixes inv :: "'s \<Rightarrow> bool" and unread :: "'s \<Rightarrow> bytes" and room :: "'s \<Rightarrow> nat" and limit :: "'s \<Rightarrow> nat"
    and put :: "bytes \<Rightarrow> 's rc_fun" and get :: "nat \<Rightarrow> 's \<Rightarrow> bytes option \<times> 's"
  assumes put_ok: "inv s \<Longrightarrow> length bs \<le> room s \<Longrightarrow> fst (put bs s) = 0 \<and> inv (snd (put bs s))
        \<and> unread (snd (put bs s)) = unread s @ bs \<and> room (snd (put bs s)) = room s - length bs"
    and put_full: "inv s \<Longrightarrow> room s < length bs \<Longrightarrow> length bs \<le> limit s \<Longrightarrow> put bs s = (-1, s)"
    and get_ok: "inv s \<Longrightarrow> 0 < n \<Longrightarrow> n \<le> length (unread s) \<Longrightarrow> fst (get n s) = Some (take n (unread s))
        \<and> inv (snd (get n s)) \<and> unread (snd (get n s)) = drop n (unread s)"
    and get_short: "inv s \<Longrightarrow> n = 0 \<or> length (unread s) < n \<Longrightarrow> get n s = (None, s)"
begin

lemma put_blocks:
  assumes "inv s" "length (concat bss) \<le> room s"
  shows "fst (seq_rc (map put bss) s) = 0 \<and> inv (snd (seq_rc (map put bss) s))
     \<and> unread (snd (seq_rc (map put bss) s)) = unread s @ concat bss"
  using assms
proof (induction bss arbitrary: s)
  case (Cons bs bss)
  obtain s' where s': "put bs s = (0, s')" "inv s'" "unread s' = unread s @ bs" "room s' = room s - length bs"
    using put_ok [of s bs] Cons.prems by (cases "put bs s") auto
  then show ?case using Cons.IH [of s'] Cons.prems by simp
qed simp

lemma get_blocks:
  assumes "inv s" "unread s = concat bss @ rest" "[] \<notin> set bss"
  shows "fst (map_c get (map length bss) s) = Some bss \<and> inv (snd (map_c get (map length bss) s))
     \<and> unread (snd (map_c get (map length bss) s)) = rest"
  using assms
proof (induction bss arbitrary: s)
  case (Cons bs bss)
  obtain s' where s': "get (length bs) s = (Some bs, s')" "inv s'" "unread s' = concat bss @ rest"
    using get_ok [of s "length bs"] Cons.prems by (cases "get (length bs) s") auto
  obtain s'' where "map_c get (map length bss) s' = (Some bss, s'')" "inv s''" "unread s'' = rest"
    using Cons.IH [of s'] s' Cons.prems by (cases "map_c get (map length bss) s'") auto
  then show ?case using s' by (simp add: bind_c_def ret_c_def)
qed simp

lemma blocks_roundtrip:
  assumes "inv s" "unread s = []" "length (concat bss) \<le> room s" "[] \<notin> set bss"
  shows "fst (seq_rc (map put bss) s) = 0
     \<and> fst (map_c get (map length bss) (snd (seq_rc (map put bss) s))) = Some bss"
  using put_blocks [of s bss] get_blocks [of "snd (seq_rc (map put bss) s)" bss "[]"] assms by simp

end

interpretation pkt: byte_queue packet_wf packet_unread packet_room packet_limit packet_put packet_get
proof
  fix s :: packet_t and bs :: bytes
  assume s: "packet_wf s"
  note emit = emits_packet_add_data [of bs, OF refl]
  show "fst (packet_put bs s) = 0 \<and> packet_wf (snd (packet_put bs s))
        \<and> packet_unread (snd (packet_put bs s)) = packet_unread s @ bs
        \<and> packet_room (snd (packet_put bs s)) = packet_room s - length bs" if "length bs \<le> packet_room s"
    using emitsD [OF emit s that] s that by (simp add: packet_put_def packet_unread_append)
  show "packet_put bs s = (-1, s)" if "packet_room s < length bs" "length bs \<le> packet_limit s"
    using s that
    by (auto simp: packet_put_def packet_add_data_def packet_room_def packet_limit_def packet_wf_def split: option.splits)
next
  fix s :: packet_t and n :: nat
  assume s: "packet_wf s"
  show "fst (packet_get n s) = Some (take n (packet_unread s)) \<and> packet_wf (snd (packet_get n s))
      \<and> packet_unread (snd (packet_get n s)) = drop n (packet_unread s)"
    if "0 < n" "n \<le> length (packet_unread s)"
  proof -
    let ?bs = "take n (packet_unread s)"
    have "takes (packet_get_data (Some (replicate n 0)) (int n)) ?bs ?bs"
      using that by (intro takes_packet_get_data) auto
    from takesD [OF this s, of "drop n (packet_unread s)"] s that show ?thesis
      by (simp add: packet_get_def)
  qed
  show "packet_get n s = (None, s)" if "n = 0 \<or> length (packet_unread s) < n"
    using s that length_packet_unread [OF s]
    by (auto simp: packet_get_def packet_get_data_def packet_wf_def split: option.splits)
qed

section \<open>Properties\<close>

definition ex_packet :: packet_t where
  "ex_packet = \<lparr>pk_cmd = CMD_SET, pk_dest = packet_dest_zero, pk_ack = 0, pk_w_ptr = 0, pk_r_ptr = 0,
     pk_size = 2048, pk_buffer = Some (replicate 2048 0)\<rparr>"

lemma ex_packet_facts:
  "packet_wf ex_packet" "packet_unread ex_packet = []" "packet_room ex_packet = 2048"
  by (simp_all add: ex_packet_def packet_wf_def packet_unread_def packet_written_def packet_room_def)

text \<open>Blocks of bytes added to an empty packet with enough room come out of it unchanged and
  in order: every packet_add_data succeeds, and packet_get_data calls with the same
  lengths return the same blocks.\<close>

theorem packet_blocks_roundtrip:
  assumes "packet_wf p" "packet_unread p = []" "length (concat bss) \<le> packet_room p" "[] \<notin> set bss"
  shows "fst (seq_rc (map packet_put bss) p) = 0
     \<and> fst (map_c packet_get (map length bss) (snd (seq_rc (map packet_put bss) p))) = Some bss"
  using assms by (rule pkt.blocks_roundtrip)

theorem packet_blocks_roundtrip_witness:
  "fst (seq_rc (map packet_put [[1, 2], [3]]) ex_packet) = 0
   \<and> fst (map_c packet_get (map length [[1, 2], [3 :: byte]]) (snd (seq_rc (map packet_put [[1, 2], [3]]) ex_packet)))
     = Some [[1, 2], [3]]"
  by (rule packet_blocks_roundtrip) (simp_all add: ex_packet_facts)

text \<open>C35. packet_add_data and packet_get_data keep the packet well formed for every length with
  which the sum of write pointer and length is a C int, and a refused call (no room, too little
  data, null pointer or a length the code rejects) leaves the packet as it was.\<close>

theorem packet_ops_wf:
  assumes "packet_wf p" "pk_w_ptr p + len < 2 ^ 31"
  shows "packet_wf (snd (packet_add_data data len p)) \<and> packet_wf (snd (packet_get_data data len p))
     \<and> (fst (packet_add_data data len p) \<noteq> 0 \<longrightarrow> packet_add_data data len p = (-1, p))
     \<and> (fst (packet_get_data data len p) = None \<longrightarrow> snd (packet_get_data data len p) = p)"
proof -
  have "int_cast (pk_w_ptr p + len) = pk_w_ptr p + len" if "\<not> len < 0"
    using that assms by (auto elim!: packet_wfE)
  then show ?thesis using assms
    by (auto simp: packet_add_data_def packet_get_data_def packet_wf_def length_memcpy_at_int split: option.splits)
qed

theorem packet_ops_wf_witness:
  "packet_wf (snd (packet_add_data (Some [1, 2]) 2 ex_packet))"
proof -
  have "pk_w_ptr ex_packet + 2 < 2 ^ 31" by (simp add: ex_packet_def)
  then show ?thesis using packet_ops_wf [of ex_packet 2 "Some [1, 2]"] by (simp add: ex_packet_facts)
qed

text \<open>C0. The size test of packet_add_data is no guard against a huge length: on every well
  formed packet a block whose length makes the sum of write pointer and length pass INT_MAX
  is accepted although the packet has no room for it, the write pointer becomes negative, and
  the copy has gone past the end of the buffer.\<close>

theorem packet_add_wraps:
  assumes "packet_wf p" "int (length d) < 2 ^ 31" "2 ^ 31 \<le> pk_w_ptr p + int (length d)"
  shows "fst (packet_add_data (Some d) (int (length d)) p) = 0 \<and> packet_room p < length d
     \<and> pk_w_ptr (snd (packet_add_data (Some d) (int (length d)) p)) < 0
     \<and> pk_size p < int (length (packet_buf (snd (packet_add_data (Some d) (int (length d)) p))))"
proof -
  from assms(1) obtain b where b: "pk_buffer p = Some b" "int (length b) = pk_size p" "0 \<le> pk_w_ptr p"
    "pk_w_ptr p \<le> pk_size p" "pk_size p < 2 ^ 31"
    by (auto elim!: packet_wfE)
  have w: "int_cast (pk_w_ptr p + int (length d)) = pk_w_ptr p + int (length d) - 2 ^ 32"
    using assms b by (intro int_cast_wrap) auto
  show ?thesis using b assms
    by (auto simp: packet_add_data_def w packet_room_def packet_buf_def memcpy_at_def)
qed

definition ex_packet_used :: packet_t where
  "ex_packet_used = ex_packet\<lparr>pk_w_ptr := 1\<rparr>"

theorem packet_add_wraps_witness:
  "packet_wf ex_packet_used
   \<and> fst (packet_add_data (Some (replicate (nat (2 ^ 31 - 1)) 0)) (2 ^ 31 - 1) ex_packet_used) = 0
   \<and> pk_w_ptr (snd (packet_add_data (Some (replicate (nat (2 ^ 31 - 1)) 0)) (2 ^ 31 - 1) ex_packet_used)) < 0"
proof -
  have p: "packet_wf ex_packet_used" by (simp add: ex_packet_used_def ex_packet_def packet_wf_def)
  have l: "int (length (replicate (nat (2 ^ 31 - 1)) (0 :: byte))) = 2 ^ 31 - 1"
    by (simp only: length_replicate) simp
  have w: "pk_w_ptr ex_packet_used = 1" by (simp add: ex_packet_used_def)
  show ?thesis using packet_add_wraps [OF p, of "replicate (nat (2 ^ 31 - 1)) 0"] p
    unfolding l w by simp
qed

end
