(* ===== verification/Waveform.thy ===== *)
theory Waveform
  imports Prelude
begin

text \<open>
  Waveforms, modules, interfaces and variables: oesr/src/common/waveform.c, waveform.h and
  mempool.c.

  A C array reached through a pointer is an optional list (None for the null pointer); the
  counters that the structures keep beside their arrays stay separate fields, and
  waveform_wf ties them together. The back pointer from a module to its waveform is not
  stored: a module lives in the list of its waveform. The field m_node holds the id of the
  node structure that the pointer module.node refers to. calloc_ok tells whether calloc
  serves a request of n elements of a size; the theorems hold for every such predicate,
  also for calls with n = 0, whose result the C standard leaves open.
\<close>

section \<open>Data\<close>

definition STR_LEN :: nat where "STR_LEN = 64"
definition modes_MAX :: nat where "modes_MAX = 25"
definition nodes_MAX :: nat where "nodes_MAX = 10"
definition NOF_USER_VARIABLES :: int where "NOF_USER_VARIABLES = 10"

record execinfo_t =
  e_module_ts :: int
  e_node_ts :: int
  e_mean_exec_us :: cfloat
  e_max_exec_us :: int
  e_max_exec_ts :: int
  e_mean_rel_us :: cfloat
  e_max_rel_us :: int
  e_mean_start_us :: cfloat
  e_max_start_us :: int
  e_mean_mopts :: cfloat
  e_max_mopts :: cfloat
  e_t_exec :: "timeval list"
  e_last_update_ts :: int
  e_start_ts :: int

record interface_t =
  i_id :: int
  i_remote_port_idx :: int
  i_remote_module_id :: int
  i_physic_itf_id :: int
  i_total_mbpts :: cfloat
  i_use_mbpts :: cfloat
  i_delay :: int
  i_log_enable :: int
  i_hw_itf :: cptr

text \<open>The last constructor stands for an integer that is no enumerator: a C enum read from
  memory can hold one.\<close>

datatype variable_type_t = VAR_TYPE_INT | VAR_TYPE_FLOAT | VAR_TYPE_STRING | VAR_TYPE_OTHER int

record variable_t =
  v_id :: int
  v_size :: int
  v_name :: bytes
  v_window :: int
  v_period :: int
  v_periodCnt :: int
  v_init_value :: "bytes option list"
  v_cur_value :: "bytes option"
  v_nof_modes :: int
  v_type :: variable_type_t

datatype waveform_status_enum = PARSED | LOADED | INIT | RUN | STEP | PAUSE | STOP | STATUS_OTHER int

record module_mode_t =
  mm_cur_mode :: int
  mm_next_mode :: int
  mm_next_tslot :: int

record module_t =
  m_variables :: "variable_t list option"
  m_inputs :: "interface_t list option"
  m_outputs :: "interface_t list option"
  m_execinfo :: execinfo_t
  m_node :: int
  m_id :: int
  m_last_update_ts :: int
  m_name :: bytes
  m_binary :: bytes
  m_c_mopts :: "cfloat list"
  m_processor_idx :: int
  m_exec_position :: int
  m_status :: waveform_status_enum
  m_nof_reporting_vars :: int
  m_nof_variables :: int
  m_nof_inputs :: int
  m_nof_outputs :: int
  m_mode :: module_mode_t
  m_nof_modes :: int
  m_stage :: int
  m_index :: int
  m_log_enable :: int

record waveform_status_t =
  ws_cur_status :: waveform_status_enum
  ws_next_timeslot :: int

record waveform_mode_t =
  wm_name :: bytes
  wm_desc :: bytes
  wm_opts :: bytes

record waveform_t =
  w_id :: int
  w_modules :: "module_t list option"
  w_status :: waveform_status_t
  w_modes :: "waveform_mode_t list"
  w_nof_parsed_modules :: int
  w_last_update_ts :: int
  w_status_timestamp_delay :: int
  w_modules_x_node :: "int list"
  w_nof_modules :: int
  w_model_file :: bytes
  w_name :: bytes
  w_name_prefix :: bytes
  w_nof_modes :: int
  w_granularity_us :: int
  w_precach_pipeline :: int

text \<open>Zeroed structures, as calloc and memset leave them.\<close>

definition str_zero :: bytes where "str_zero = replicate STR_LEN 0"

definition timeval_zero :: timeval where "timeval_zero = \<lparr>tv_sec = 0, tv_usec = 0\<rparr>"

definition execinfo_zero :: execinfo_t where
  "execinfo_zero = \<lparr>e_module_ts = 0, e_node_ts = 0, e_mean_exec_us = 0, e_max_exec_us = 0,
     e_max_exec_ts = 0, e_mean_rel_us = 0, e_max_rel_us = 0, e_mean_start_us = 0,
     e_max_start_us = 0, e_mean_mopts = 0, e_max_mopts = 0, e_t_exec = replicate 3 timeval_zero,
     e_last_update_ts = 0, e_start_ts = 0\<rparr>"

definition interface_zero :: interface_t where
  "interface_zero = \<lparr>i_id = 0, i_remote_port_idx = 0, i_remote_module_id = 0, i_physic_itf_id = 0,
     i_total_mbpts = 0, i_use_mbpts = 0, i_delay = 0, i_log_enable = 0, i_hw_itf = 0\<rparr>"

definition variable_zero :: variable_t where
  "variable_zero = \<lparr>v_id = 0, v_size = 0, v_name = str_zero, v_window = 0, v_period = 0,
     v_periodCnt = 0, v_init_value = replicate modes_MAX None, v_cur_value = None,
     v_nof_modes = 0, v_type = VAR_TYPE_INT\<rparr>"

definition module_zero :: module_t where
  "module_zero = \<lparr>m_variables = None, m_inputs = None, m_outputs = None, m_execinfo = execinfo_zero,
     m_node = 0, m_id = 0, m_last_update_ts = 0, m_name = str_zero, m_binary = str_zero,
     m_c_mopts = replicate modes_MAX 0, m_processor_idx = 0, m_exec_position = 0,
     m_status = PARSED, m_nof_reporting_vars = 0, m_nof_variables = 0, m_nof_inputs = 0,
     m_nof_outputs = 0, m_mode = \<lparr>mm_cur_mode = 0, mm_next_mode = 0, mm_next_tslot = 0\<rparr>,
     m_nof_modes = 0, m_stage = 0, m_index = 0, m_log_enable = 0\<rparr>"

definition waveform_mode_zero :: waveform_mode_t where
  "waveform_mode_zero = \<lparr>wm_name = str_zero, wm_desc = str_zero, wm_opts = str_zero\<rparr>"

definition waveform_zero :: waveform_t where
  "waveform_zero = \<lparr>w_id = 0, w_modules = None,
     w_status = \<lparr>ws_cur_status = PARSED, ws_next_timeslot = 0\<rparr>,
     w_modes = replicate modes_MAX waveform_mode_zero, w_nof_parsed_modules = 0,
     w_last_update_ts = 0, w_status_timestamp_delay = 0, w_modules_x_node = replicate nodes_MAX 0,
     w_nof_modules = 0, w_model_file = str_zero, w_name = str_zero, w_name_prefix = str_zero,
     w_nof_modes = 0, w_granularity_us = 0, w_precach_pipeline = 0\<rparr>"

section \<open>Memory pool\<close>

type_synonym calloc_fun = "nat \<Rightarrow> nat \<Rightarrow> bool"

definition size_t :: "int \<Rightarrow> nat" where
  "size_t n = nat (n mod 2 ^ 64)"

definition pool_alloc :: "calloc_fun \<Rightarrow> int \<Rightarrow> nat \<Rightarrow> 'a \<Rightarrow> 'a list option" where
  "pool_alloc calloc_ok n sz z =
     (if calloc_ok (size_t n) sz then Some (replicate (size_t n) z) else None)"

text \<open>realloc keeps the common prefix; the bytes beyond it are unspecified (fill).\<close>

definition pool_realloc :: "calloc_fun \<Rightarrow> 'a list \<Rightarrow> int \<Rightarrow> nat \<Rightarrow> (nat \<Rightarrow> 'a) \<Rightarrow> 'a list option" where
  "pool_realloc calloc_ok xs n sz fill =
     (if calloc_ok (size_t n) sz
      then Some (take (size_t n) xs @ map fill [length xs..<size_t n]) else None)"

definition pool_free :: "'a option \<Rightarrow> int" where
  "pool_free p = 0"

definition sizeof_interface_t :: nat where "sizeof_interface_t = 40"
definition sizeof_variable_t :: nat where "sizeof_variable_t = 304"
definition sizeof_module_t :: nat where "sizeof_module_t = 440"
definition sizeof_execinfo_t :: nat where "sizeof_execinfo_t = 104"

section \<open>Operations\<close>

text \<open>The loop "while (i < n and not P(xs[i])) i++" over the first n elements.\<close>

fun find_idx :: "('a \<Rightarrow> bool) \<Rightarrow> 'a list \<Rightarrow> nat" where
  "find_idx P [] = 0"
| "find_idx P (x # xs) = (if P x then 0 else Suc (find_idx P xs))"

definition modules_of :: "waveform_t \<Rightarrow> module_t list" where
  "modules_of w = (case w_modules w of None \<Rightarrow> [] | Some ms \<Rightarrow> take (nat (w_nof_modules w)) ms)"

text \<open>The result is the index of the module whose address the code returns.\<close>

definition waveform_find_module_id :: "waveform_t \<Rightarrow> int \<Rightarrow> nat option" where
  "waveform_find_module_id w module_id =
     (let i = find_idx (\<lambda>m. m_id m = module_id) (modules_of w)
      in if i = length (modules_of w) then None else Some i)"

definition waveform_find_module_name :: "waveform_t \<Rightarrow> bytes \<Rightarrow> nat option" where
  "waveform_find_module_name w name =
     (let i = find_idx (\<lambda>m. c_str (m_name m) = c_str name) (modules_of w)
      in if i = length (modules_of w) then None else Some i)"

text \<open>Freed blocks are not tracked: variable_free leaves the structure as it is.\<close>

definition variable_free :: "variable_t rc_fun" where
  "variable_free v = (0, v)"

definition module_free :: "module_t rc_fun" where
  "module_free m = (0, m\<lparr>m_inputs := None, m_outputs := None, m_variables := None,
     m_nof_inputs := 0, m_nof_outputs := 0, m_nof_variables := 0\<rparr>)"

definition module_alloc :: "calloc_fun \<Rightarrow> int \<Rightarrow> int \<Rightarrow> int \<Rightarrow> module_t rc_fun" where
  "module_alloc calloc_ok nof_inputs nof_outputs nof_variables m =
     (if m_inputs m \<noteq> None \<or> m_outputs m \<noteq> None \<or> m_variables m \<noteq> None then (-1, m)
      else let ins = pool_alloc calloc_ok nof_inputs sizeof_interface_t interface_zero;
               outs = pool_alloc calloc_ok nof_outputs sizeof_interface_t interface_zero;
               vars = pool_alloc calloc_ok nof_variables sizeof_variable_t variable_zero;
               m' = m\<lparr>m_inputs := ins, m_outputs := outs, m_variables := vars\<rparr>
           in if ins = None \<or> outs = None \<or> vars = None then (-1, snd (module_free m'))
              else (0, m'\<lparr>m_nof_inputs := nof_inputs, m_nof_outputs := nof_outputs,
                          m_nof_variables := nof_variables\<rparr>))"

definition waveform_alloc :: "calloc_fun \<Rightarrow> int \<Rightarrow> waveform_t rc_fun" where
  "waveform_alloc calloc_ok nof_modules w =
     (let total = w_nof_modules w + nof_modules;
          ms = (case w_modules w of
                  Some xs \<Rightarrow> map_option (\<lambda>ys. take (size_t (total - nof_modules)) ys
                                  @ replicate (nat nof_modules) module_zero)
                              (pool_realloc calloc_ok xs total sizeof_module_t (\<lambda>_. module_zero))
                | None \<Rightarrow> pool_alloc calloc_ok total sizeof_module_t module_zero);
          w' = w\<lparr>w_nof_modules := total, w_modules := ms\<rparr>
      in (if ms = None then -1 else 0, w'))"

definition waveform_free :: "waveform_t rc_fun" where
  "waveform_free w = (0, w\<lparr>w_modules := None, w_nof_modules := 0\<rparr>)"

fun variable_alloc_loop :: "calloc_fun \<Rightarrow> nat list \<Rightarrow> variable_t rc_fun" where
  "variable_alloc_loop calloc_ok [] v = (0, v)"
| "variable_alloc_loop calloc_ok (i # is) v =
     (let blk = pool_alloc calloc_ok 1 (size_t (v_size v)) (replicate (size_t (v_size v)) 0);
          v' = v\<lparr>v_init_value := (v_init_value v)[i := map_option hd blk]\<rparr>
      in if blk = None then (-1, v') else variable_alloc_loop calloc_ok is v')"

definition variable_alloc :: "calloc_fun \<Rightarrow> int \<Rightarrow> variable_t rc_fun" where
  "variable_alloc calloc_ok nof_modes v =
     (let (r, v') = variable_alloc_loop calloc_ok [0..<nat nof_modes] v
      in if r \<noteq> 0 then (-1, v') else (0, v'\<lparr>v_nof_modes := nof_modes\<rparr>))"

section \<open>Invariant\<close>

definition array_ok :: "'a list option \<Rightarrow> int \<Rightarrow> bool" where
  "array_ok p n \<longleftrightarrow> (case p of None \<Rightarrow> n = 0 | Some xs \<Rightarrow> int (length xs) = n)"

definition module_wf :: "module_t \<Rightarrow> bool" where
  "module_wf m \<longleftrightarrow> array_ok (m_inputs m) (m_nof_inputs m) \<and> array_ok (m_outputs m) (m_nof_outputs m)
     \<and> array_ok (m_variables m) (m_nof_variables m)"

definition waveform_wf :: "waveform_t \<Rightarrow> bool" where
  "waveform_wf w \<longleftrightarrow> array_ok (w_modules w) (w_nof_modules w)
     \<and> (case w_modules w of None \<Rightarrow> True | Some ms \<Rightarrow> \<forall>m \<in> set ms. module_wf m)"

section \<open>Lemmas\<close>

lemma find_idx_le: "find_idx P xs \<le> length xs"
  by (induction xs) auto

lemma find_idx_hit: "find_idx P xs < length xs \<Longrightarrow> P (xs ! find_idx P xs)"
  by (induction xs) auto

lemma find_idx_miss: "j < find_idx P xs \<Longrightarrow> \<not> P (xs ! j)"
  by (induction xs arbitrary: j) (auto simp: nth_Cons split: if_splits nat.splits)

lemma find_idx_eq_length: "find_idx P xs = length xs \<longleftrightarrow> (\<forall>x \<in> set xs. \<not> P x)"
  by (induction xs) auto

lemma find_idx_unique:
  assumes "distinct (map f xs)" "i < length xs"
  shows "find_idx (\<lambda>x. f x = f (xs ! i)) xs = i"
  using assms
proof (induction xs arbitrary: i)
  case (Cons x xs)
  then show ?case by (cases i) (auto dest: nth_mem)
qed simp

lemma size_t_nat: "0 \<le> n \<Longrightarrow> n < 2 ^ 64 \<Longrightarrow> size_t n = nat n"
  by (simp add: size_t_def)

lemma module_wf_zero: "module_wf module_zero"
  by (simp add: module_wf_def module_zero_def array_ok_def)

lemma module_wf_free: "module_wf (snd (module_free m))"
  by (simp add: module_wf_def module_free_def array_ok_def)

lemma module_alloc_wf:
  assumes "module_wf m" "0 \<le> ni" "ni < 2 ^ 31" "0 \<le> no" "no < 2 ^ 31" "0 \<le> nv" "nv < 2 ^ 31"
  shows "module_wf (snd (module_alloc calloc_ok ni no nv m))"
proof (cases "m_inputs m \<noteq> None \<or> m_outputs m \<noteq> None \<or> m_variables m \<noteq> None")
  case True
  then show ?thesis using assms(1) by (simp add: module_alloc_def)
next
  case False
  show ?thesis
    using False assms(2-)
    by (simp add: module_alloc_def module_free_def Let_def pool_alloc_def module_wf_def array_ok_def
        size_t_nat)
qed

lemma variable_alloc_loop_fail:
  "\<not> calloc_ok 1 (size_t (v_size v)) \<Longrightarrow> is \<noteq> [] \<Longrightarrow> fst (variable_alloc_loop calloc_ok is v) = -1"
  by (cases "is") (simp_all add: pool_alloc_def size_t_def)

lemma variable_alloc_loop_ok:
  assumes "calloc_ok 1 (size_t (v_size v))"
  shows "variable_alloc_loop calloc_ok is v =
    (0, v\<lparr>v_init_value := fold (\<lambda>i xs. xs[i := Some (replicate (size_t (v_size v)) 0)]) is (v_init_value v)\<rparr>)"
  using assms
proof (induction "is" arbitrary: v)
  case (Cons i "is")
  have one: "size_t 1 = 1" by (simp add: size_t_def)
  show ?case
    using Cons by (simp add: pool_alloc_def one)
qed simp

lemma fold_update_prefix:
  "n \<le> length xs \<Longrightarrow> fold (\<lambda>i ys. ys[i := c]) [0..<n] xs = replicate n c @ drop n xs"
proof (induction n)
  case (Suc n)
  then have "drop n xs = xs ! n # drop (Suc n) xs" by (simp add: Cons_nth_drop_Suc)
  with Suc show ?case by (simp add: replicate_append_same [symmetric] list_update_append)
qed simp

lemma variable_alloc_ok:
  assumes "calloc_ok 1 (size_t (v_size v))" "nat n \<le> length (v_init_value v)"
  shows "variable_alloc calloc_ok n v = (0, v\<lparr>
     v_init_value := replicate (nat n) (Some (replicate (size_t (v_size v)) 0)) @ drop (nat n) (v_init_value v),
     v_nof_modes := n\<rparr>)"
  using assms by (simp add: variable_alloc_def variable_alloc_loop_ok fold_update_prefix)

end
