(* ===== verification/Serial.thy ===== *)
theory Serial
  imports Packet Waveform
begin

text \<open>
  Serialisation of waveforms, modules, variables and interfaces into packets and back:
  oesr/src/common/serializable.c.

  A writer is a chain of packet calls (seq_rc) on the packet. A reader works on the pair of
  the packet and the destination structure, so that what it stored before a failure stays
  visible. Structures that the code copies with one memcpy have an explicit LP64 memory
  image (padding written as zero); the locale struct_image holds what such an image needs
  and what follows for the copy through a packet.
\<close>

section \<open>Enumerations as integers\<close>

datatype variable_serialize_data = NONE | CP_VALUE | CP_INIT | COPY_OTHER int

datatype waveform_serialize_action = WAVEFORM_LOAD | WAVEFORM_STATUS | WAVEFORM_MODE | ACTION_OTHER int

fun copy_code :: "variable_serialize_data \<Rightarrow> int" where
  "copy_code NONE = 0"
| "copy_code CP_VALUE = 1"
| "copy_code CP_INIT = 2"
| "copy_code (COPY_OTHER i) = i"

definition copy_of :: "int \<Rightarrow> variable_serialize_data" where
  "copy_of i = (if i = 0 then NONE else if i = 1 then CP_VALUE else if i = 2 then CP_INIT else COPY_OTHER i)"

fun action_code :: "waveform_serialize_action \<Rightarrow> int" where
  "action_code WAVEFORM_LOAD = 0"
| "action_code WAVEFORM_STATUS = 1"
| "action_code WAVEFORM_MODE = 2"
| "action_code (ACTION_OTHER i) = i"

definition action_of :: "int \<Rightarrow> waveform_serialize_action" where
  "action_of i = (if i = 0 then WAVEFORM_LOAD else if i = 1 then WAVEFORM_STATUS
     else if i = 2 then WAVEFORM_MODE else ACTION_OTHER i)"

fun type_code :: "variable_type_t \<Rightarrow> int" where
  "type_code VAR_TYPE_INT = 0"
| "type_code VAR_TYPE_FLOAT = 1"
| "type_code VAR_TYPE_STRING = 2"
| "type_code (VAR_TYPE_OTHER i) = i"

definition type_of :: "int \<Rightarrow> variable_type_t" where
  "type_of i = (if i = 0 then VAR_TYPE_INT else if i = 1 then VAR_TYPE_FLOAT
     else if i = 2 then VAR_TYPE_STRING else VAR_TYPE_OTHER i)"

fun status_code :: "waveform_status_enum \<Rightarrow> int" where
  "status_code PARSED = 0"
| "status_code LOADED = 1"
| "status_code INIT = 2"
| "status_code RUN = 3"
| "status_code STEP = 4"
| "status_code PAUSE = 5"
| "status_code STOP = 6"
| "status_code (STATUS_OTHER i) = i"

definition status_of :: "int \<Rightarrow> waveform_status_enum" where
  "status_of i = (if i = 0 then PARSED else if i = 1 then LOADED else if i = 2 then INIT
     else if i = 3 then RUN else if i = 4 then STEP else if i = 5 then PAUSE
     else if i = 6 then STOP else STATUS_OTHER i)"

section \<open>Memory images of structures\<close>

definition slice :: "nat \<Rightarrow> nat \<Rightarrow> bytes \<Rightarrow> bytes" where
  "slice off len bs = take len (drop off bs)"

definition in_int64 :: "int \<Rightarrow> bool" where
  "in_int64 i \<longleftrightarrow> - (2 ^ 63) \<le> i \<and> i < 2 ^ 63"

definition long_bytes :: "int \<Rightarrow> bytes" where
  "long_bytes i = word64_bytes (word_of_int i)"

definition bytes_long :: "bytes \<Rightarrow> int" where
  "bytes_long bs = sint (bytes_word64 bs)"

definition timeval_bytes :: "timeval \<Rightarrow> bytes" where
  "timeval_bytes t = long_bytes (tv_sec t) @ long_bytes (tv_usec t)"

definition bytes_timeval :: "bytes \<Rightarrow> timeval" where
  "bytes_timeval bs = \<lparr>tv_sec = bytes_long (slice 0 8 bs), tv_usec = bytes_long (slice 8 8 bs)\<rparr>"

definition execinfo_bytes :: "execinfo_t \<Rightarrow> bytes" where
  "execinfo_bytes e = int_bytes (e_module_ts e) @ int_bytes (e_node_ts e) @ word32_bytes (e_mean_exec_us e)
     @ int_bytes (e_max_exec_us e) @ int_bytes (e_max_exec_ts e) @ word32_bytes (e_mean_rel_us e)
     @ int_bytes (e_max_rel_us e) @ word32_bytes (e_mean_start_us e) @ int_bytes (e_max_start_us e)
     @ word32_bytes (e_mean_mopts e) @ word32_bytes (e_max_mopts e) @ replicate 4 0
     @ timeval_bytes (e_t_exec e ! 0) @ timeval_bytes (e_t_exec e ! 1) @ timeval_bytes (e_t_exec e ! 2)
     @ int_bytes (e_last_update_ts e) @ int_bytes (e_start_ts e)"

definition bytes_execinfo :: "bytes \<Rightarrow> execinfo_t" where
  "bytes_execinfo bs = \<lparr>e_module_ts = bytes_int (slice 0 4 bs), e_node_ts = bytes_int (slice 4 4 bs),
     e_mean_exec_us = bytes_word32 (slice 8 4 bs), e_max_exec_us = bytes_int (slice 12 4 bs),
     e_max_exec_ts = bytes_int (slice 16 4 bs), e_mean_rel_us = bytes_word32 (slice 20 4 bs),
     e_max_rel_us = bytes_int (slice 24 4 bs), e_mean_start_us = bytes_word32 (slice 28 4 bs),
     e_max_start_us = bytes_int (slice 32 4 bs), e_mean_mopts = bytes_word32 (slice 36 4 bs),
     e_max_mopts = bytes_word32 (slice 40 4 bs),
     e_t_exec = [bytes_timeval (slice 48 16 bs), bytes_timeval (slice 64 16 bs), bytes_timeval (slice 80 16 bs)],
     e_last_update_ts = bytes_int (slice 96 4 bs), e_start_ts = bytes_int (slice 100 4 bs)\<rparr>"

definition interface_bytes :: "interface_t \<Rightarrow> bytes" where
  "interface_bytes i = int_bytes (i_id i) @ int_bytes (i_remote_port_idx i)
     @ int_bytes (i_remote_module_id i) @ int_bytes (i_physic_itf_id i) @ word32_bytes (i_total_mbpts i)
     @ word32_bytes (i_use_mbpts i) @ int_bytes (i_delay i) @ int_bytes (i_log_enable i)
     @ word64_bytes (i_hw_itf i)"

definition bytes_interface :: "bytes \<Rightarrow> interface_t" where
  "bytes_interface bs = \<lparr>i_id = bytes_int (slice 0 4 bs), i_remote_port_idx = bytes_int (slice 4 4 bs),
     i_remote_module_id = bytes_int (slice 8 4 bs), i_physic_itf_id = bytes_int (slice 12 4 bs),
     i_total_mbpts = bytes_word32 (slice 16 4 bs), i_use_mbpts = bytes_word32 (slice 20 4 bs),
     i_delay = bytes_int (slice 24 4 bs), i_log_enable = bytes_int (slice 28 4 bs),
     i_hw_itf = bytes_word64 (slice 32 8 bs)\<rparr>"

definition waveform_mode_bytes :: "waveform_mode_t \<Rightarrow> bytes" where
  "waveform_mode_bytes m = wm_name m @ wm_desc m @ wm_opts m"

definition bytes_waveform_mode :: "bytes \<Rightarrow> waveform_mode_t" where
  "bytes_waveform_mode bs = \<lparr>wm_name = slice 0 64 bs, wm_desc = slice 64 64 bs, wm_opts = slice 128 64 bs\<rparr>"

definition status_bytes :: "waveform_status_t \<Rightarrow> bytes" where
  "status_bytes s = int_bytes (status_code (ws_cur_status s)) @ int_bytes (ws_next_timeslot s)"

definition bytes_status :: "bytes \<Rightarrow> waveform_status_t" where
  "bytes_status bs = \<lparr>ws_cur_status = status_of (bytes_int (slice 0 4 bs)),
     ws_next_timeslot = bytes_int (slice 4 4 bs)\<rparr>"

definition module_mode_bytes :: "module_mode_t \<Rightarrow> bytes" where
  "module_mode_bytes m = int_bytes (mm_cur_mode m) @ int_bytes (mm_next_mode m) @ int_bytes (mm_next_tslot m)"

definition bytes_module_mode :: "bytes \<Rightarrow> module_mode_t" where
  "bytes_module_mode bs = \<lparr>mm_cur_mode = bytes_int (slice 0 4 bs), mm_next_mode = bytes_int (slice 4 4 bs),
     mm_next_tslot = bytes_int (slice 8 4 bs)\<rparr>"

section \<open>Reading into a structure\<close>

type_synonym 'd reader = "packet_t \<times> 'd \<Rightarrow> int \<times> (packet_t \<times> 'd)"

text \<open>Read a local value and go on with it; -1 when the packet has too little data.\<close>

definition read_then :: "(packet_t \<Rightarrow> 'a option \<times> packet_t) \<Rightarrow> ('a \<Rightarrow> 'd reader) \<Rightarrow> 'd reader" where
  "read_then g k s = (case s of (p, d) \<Rightarrow>
     (case g p of (None, p') \<Rightarrow> (-1, (p', d)) | (Some x, p') \<Rightarrow> k x (p', d)))"

definition get_into :: "(packet_t \<Rightarrow> 'a option \<times> packet_t) \<Rightarrow> ('a \<Rightarrow> 'd \<Rightarrow> 'd) \<Rightarrow> 'd reader" where
  "get_into g upd = read_then g (\<lambda>x s. (0, (fst s, upd x (snd s))))"

definition on_dest :: "'d rc_fun \<Rightarrow> 'd reader" where
  "on_dest f s = (let (r, d') = f (snd s) in (r, (fst s, d')))"

definition with_dest :: "('d \<Rightarrow> 'd reader) \<Rightarrow> 'd reader" where
  "with_dest k s = k (snd s) s"

definition focus :: "('d \<Rightarrow> 'e) \<Rightarrow> ('e \<Rightarrow> 'd \<Rightarrow> 'd) \<Rightarrow> 'e reader \<Rightarrow> 'd reader" where
  "focus get put f s = (let (r, (p', x')) = f (fst s, get (snd s)) in (r, (p', put x' (snd s))))"

definition get_struct :: "nat \<Rightarrow> packet_t \<Rightarrow> bytes option \<times> packet_t" where
  "get_struct sz = packet_get_data (Some (replicate sz 0)) (int sz)"

section \<open>Operations\<close>

definition nth_opt :: "'a option list \<Rightarrow> nat \<Rightarrow> 'a option" where
  "nth_opt xs i = (if i < length xs then xs ! i else None)"

definition variable_serialize :: "variable_serialize_data \<Rightarrow> int \<Rightarrow> variable_t \<Rightarrow> packet_t rc_fun" where
  "variable_serialize copy_data nof_modes src = seq_rc
     ([add_i (v_id src), add_i (v_size src), add_i (type_code (v_type src))] @
      (case copy_data of
         CP_INIT \<Rightarrow> packet_add_data (Some (v_name src)) (int STR_LEN)
           # map (\<lambda>i. packet_add_data (nth_opt (v_init_value src) i) (v_size src)) [0..<nat nof_modes]
       | CP_VALUE \<Rightarrow> [packet_add_data (v_cur_value src) (v_size src)]
       | NONE \<Rightarrow> [add_i (v_window src), add_i (v_period src)]
       | COPY_OTHER _ \<Rightarrow> []))"

definition variable_unserializeTo ::
  "calloc_fun \<Rightarrow> variable_serialize_data \<Rightarrow> int \<Rightarrow> variable_t reader" where
  "variable_unserializeTo calloc_ok copy_data nof_modes = seq_rc
     ([get_into get_i (\<lambda>i d. d\<lparr>v_id := i\<rparr>), get_into get_i (\<lambda>i d. d\<lparr>v_size := i\<rparr>),
       get_into get_i (\<lambda>i d. d\<lparr>v_type := type_of i\<rparr>),
       on_dest (\<lambda>d. (0, d\<lparr>v_nof_modes := nof_modes\<rparr>))] @
      (case copy_data of
         CP_INIT \<Rightarrow>
           [on_dest (\<lambda>d. variable_alloc calloc_ok (v_nof_modes d) d),
            get_into (get_struct STR_LEN) (\<lambda>bs d. d\<lparr>v_name := bs\<rparr>)] @
           map (\<lambda>i. with_dest (\<lambda>d. get_into (packet_get_data (nth_opt (v_init_value d) i) (v_size d))
                      (\<lambda>bs d. d\<lparr>v_init_value := (v_init_value d)[i := Some bs]\<rparr>))) [0..<nat nof_modes]
       | CP_VALUE \<Rightarrow>
           [with_dest (\<lambda>d. if v_cur_value d = None then (\<lambda>s. (-1, s))
              else get_into (packet_get_data (v_cur_value d) (v_size d)) (\<lambda>bs d. d\<lparr>v_cur_value := Some bs\<rparr>))]
       | NONE \<Rightarrow> [get_into get_i (\<lambda>i d. d\<lparr>v_window := i\<rparr>), get_into get_i (\<lambda>i d. d\<lparr>v_period := i\<rparr>)]
       | COPY_OTHER _ \<Rightarrow> []))"

definition execinfo_serialize :: "execinfo_t \<Rightarrow> packet_t rc_fun" where
  "execinfo_serialize src = seq_rc [packet_add_data (Some (execinfo_bytes src)) (int sizeof_execinfo_t)]"

definition execinfo_unserializeTo :: "execinfo_t reader" where
  "execinfo_unserializeTo = seq_rc [get_into (get_struct sizeof_execinfo_t) (\<lambda>bs d. bytes_execinfo bs)]"

definition interface_serialize :: "interface_t \<Rightarrow> packet_t rc_fun" where
  "interface_serialize src = seq_rc [packet_add_data (Some (interface_bytes src)) (int sizeof_interface_t)]"

definition interface_unserializeTo :: "interface_t reader" where
  "interface_unserializeTo = seq_rc [get_into (get_struct sizeof_interface_t) (\<lambda>bs d. bytes_interface bs)]"

definition sizeof_waveform_mode_t :: nat where "sizeof_waveform_mode_t = 192"
definition sizeof_waveform_status_t :: nat where "sizeof_waveform_status_t = 8"
definition sizeof_module_mode_t :: nat where "sizeof_module_mode_t = 12"

definition waveform_mode_serialize :: "waveform_mode_t \<Rightarrow> packet_t rc_fun" where
  "waveform_mode_serialize src =
     seq_rc [packet_add_data (Some (waveform_mode_bytes src)) (int sizeof_waveform_mode_t)]"

definition waveform_mode_unserializeTo :: "waveform_mode_t reader" where
  "waveform_mode_unserializeTo =
     seq_rc [get_into (get_struct sizeof_waveform_mode_t) (\<lambda>bs d. bytes_waveform_mode bs)]"

definition elems :: "'a list option \<Rightarrow> int \<Rightarrow> 'a list" where
  "elems p n = (case p of None \<Rightarrow> [] | Some xs \<Rightarrow> take (nat n) xs)"

definition module_serialize :: "variable_serialize_data \<Rightarrow> module_t \<Rightarrow> packet_t rc_fun" where
  "module_serialize copy_data src = seq_rc
     ([add_i (m_id src), add_i (m_processor_idx src), add_i (m_exec_position src), add_i (m_nof_modes src),
       add_i (mm_cur_mode (m_mode src)), add_i (m_log_enable src),
       packet_add_data (Some (m_name src)) (int STR_LEN),
       packet_add_data (Some (m_binary src)) (int STR_LEN),
       execinfo_serialize (m_execinfo src),
       add_i (m_nof_variables src), add_i (m_nof_inputs src), add_i (m_nof_outputs src)] @
      map (variable_serialize copy_data (m_nof_modes src)) (elems (m_variables src) (m_nof_variables src)) @
      map interface_serialize (elems (m_inputs src) (m_nof_inputs src)) @
      map interface_serialize (elems (m_outputs src) (m_nof_outputs src)))"

definition upd_elem :: "nat \<Rightarrow> 'a \<Rightarrow> 'a list option \<Rightarrow> 'a list option" where
  "upd_elem i x p = map_option (\<lambda>xs. xs[i := x]) p"

definition get_elem :: "nat \<Rightarrow> 'a list option \<Rightarrow> 'a" where
  "get_elem i p = the p ! i"

text \<open>The second half of module_unserializeTo, from the allocation of the arrays on.\<close>

definition module_unserialize_arrays ::
  "calloc_fun \<Rightarrow> variable_serialize_data \<Rightarrow> int \<Rightarrow> int \<Rightarrow> int \<Rightarrow> module_t reader" where
  "module_unserialize_arrays calloc_ok copy_data nof_variables nof_inputs nof_outputs = seq_rc
     [on_dest (module_alloc calloc_ok nof_inputs nof_outputs (nof_variables + NOF_USER_VARIABLES)),
      seq_rc (map (\<lambda>i. with_dest (\<lambda>d. focus (\<lambda>d. get_elem i (m_variables d))
          (\<lambda>x d. d\<lparr>m_variables := upd_elem i x (m_variables d)\<rparr>)
          (variable_unserializeTo calloc_ok copy_data (m_nof_modes d)))) [0..<nat nof_variables]),
      with_dest (\<lambda>d. seq_rc (map (\<lambda>i. focus (\<lambda>d. get_elem i (m_inputs d))
          (\<lambda>x d. d\<lparr>m_inputs := upd_elem i x (m_inputs d)\<rparr>) interface_unserializeTo)
          [0..<nat (m_nof_inputs d)])),
      with_dest (\<lambda>d. seq_rc (map (\<lambda>i. focus (\<lambda>d. get_elem i (m_outputs d))
          (\<lambda>x d. d\<lparr>m_outputs := upd_elem i x (m_outputs d)\<rparr>) interface_unserializeTo)
          [0..<nat (m_nof_outputs d)]))]"

definition module_unserializeTo :: "calloc_fun \<Rightarrow> variable_serialize_data \<Rightarrow> module_t reader" where
  "module_unserializeTo calloc_ok copy_data = seq_rc
     [get_into get_i (\<lambda>i d. d\<lparr>m_id := i\<rparr>),
      get_into get_i (\<lambda>i d. d\<lparr>m_processor_idx := i\<rparr>),
      get_into get_i (\<lambda>i d. d\<lparr>m_exec_position := i\<rparr>),
      get_into get_i (\<lambda>i d. d\<lparr>m_nof_modes := i\<rparr>),
      get_into get_i (\<lambda>i d. d\<lparr>m_mode := (m_mode d)\<lparr>mm_cur_mode := i\<rparr>\<rparr>),
      get_into get_i (\<lambda>i d. d\<lparr>m_log_enable := i\<rparr>),
      on_dest (\<lambda>d. (0, d\<lparr>m_mode := (m_mode d)\<lparr>mm_next_tslot := 0\<rparr>\<rparr>)),
      get_into (get_struct STR_LEN) (\<lambda>bs d. d\<lparr>m_name := bs\<rparr>),
      get_into (get_struct STR_LEN) (\<lambda>bs d. d\<lparr>m_binary := bs\<rparr>),
      focus m_execinfo (\<lambda>e d. d\<lparr>m_execinfo := e\<rparr>) execinfo_unserializeTo,
      read_then get_i (\<lambda>nof_variables. read_then get_i (\<lambda>nof_inputs. read_then get_i (\<lambda>nof_outputs.
        module_unserialize_arrays calloc_ok copy_data nof_variables nof_inputs nof_outputs)))]"

definition node_modules :: "int \<Rightarrow> waveform_t \<Rightarrow> module_t list" where
  "node_modules node_id w = filter (\<lambda>m. m_node m = node_id) (modules_of w)"

text \<open>In the mode case the result of packet_add_data is not tested by the code.\<close>

definition waveform_serialize ::
  "int \<Rightarrow> waveform_serialize_action \<Rightarrow> variable_serialize_data \<Rightarrow> waveform_t \<Rightarrow> packet_t rc_fun" where
  "waveform_serialize loading_node_id action copy_data src = seq_rc
     (add_i (action_code action) #
      (case action of
         WAVEFORM_LOAD \<Rightarrow>
           [add_i (copy_code copy_data), add_i (w_id src), add_i (w_granularity_us src),
            add_i (w_precach_pipeline src), packet_add_data (Some (w_name src)) (int STR_LEN),
            add_i (w_nof_modes src)] @
           map waveform_mode_serialize (take (nat (w_nof_modes src)) (w_modes src)) @
           [add_i (int (length (node_modules loading_node_id src)))] @
           map (module_serialize copy_data) (node_modules loading_node_id src)
       | WAVEFORM_STATUS \<Rightarrow>
           [packet_add_data (Some (status_bytes (w_status src))) (int sizeof_waveform_status_t)]
       | WAVEFORM_MODE \<Rightarrow>
           add_i (int (length (node_modules loading_node_id src))) #
           concat (map (\<lambda>m. [add_i (m_id m),
              (\<lambda>p. (0, snd (packet_add_data (Some (module_mode_bytes (m_mode m))) (int sizeof_module_mode_t) p)))])
             (node_modules loading_node_id src))
       | ACTION_OTHER _ \<Rightarrow> []))"

definition set_module :: "nat \<Rightarrow> module_t \<Rightarrow> waveform_t \<Rightarrow> waveform_t" where
  "set_module i m w = w\<lparr>w_modules := upd_elem i m (w_modules w)\<rparr>"

definition waveform_unserializeTo :: "calloc_fun \<Rightarrow> variable_serialize_data \<Rightarrow> waveform_t reader" where
  "waveform_unserializeTo calloc_ok copy_data =
     read_then get_i (\<lambda>all_module. read_then get_i (\<lambda>nof_modules. seq_rc
       (with_dest (\<lambda>d. if w_nof_modules d = 0 then on_dest (waveform_alloc calloc_ok nof_modules) else (\<lambda>s. (0, s)))
        # replicate (nat nof_modules)
           (read_then get_i (\<lambda>module_id. with_dest (\<lambda>d.
              let i = find_idx (\<lambda>m. m_id m = module_id) (modules_of d)
              in if i = length (modules_of d) then (\<lambda>s. (-1, s))
                 else if all_module \<noteq> 0
                 then focus (\<lambda>d. get_elem i (w_modules d)) (set_module i) (module_unserializeTo calloc_ok copy_data)
                 else focus (\<lambda>d. m_execinfo (get_elem i (w_modules d)))
                        (\<lambda>e d. set_module i ((get_elem i (w_modules d))\<lparr>m_execinfo := e\<rparr>) d)
                        execinfo_unserializeTo))))))"

section \<open>Encodings read back\<close>

lemma copy_of_code: "copy_of (copy_code c) = c" if "c \<in> {NONE, CP_VALUE, CP_INIT}"
  using that by (auto simp: copy_of_def)

lemma type_of_code: "t \<in> {VAR_TYPE_INT, VAR_TYPE_FLOAT, VAR_TYPE_STRING} \<Longrightarrow> type_of (type_code t) = t"
  by (auto simp: type_of_def)

lemma status_of_code: "(\<forall>i. s \<noteq> STATUS_OTHER i) \<Longrightarrow> status_of (status_code s) = s"
  by (cases s) (auto simp: status_of_def)

lemma bytes_long_inverse [codec_simps, simp]: "in_int64 i \<Longrightarrow> bytes_long (long_bytes i) = i"
  by (simp add: bytes_long_def long_bytes_def in_int64_def sint_sbintrunc' signed_take_bit_int_eq_self)

lemma length_long_bytes [simp]: "length (long_bytes i) = 8"
  by (simp add: long_bytes_def)

lemma length_timeval_bytes [simp]: "length (timeval_bytes t) = 16"
  by (simp add: timeval_bytes_def)

lemma slice_skip [simp]: "length a \<le> off \<Longrightarrow> slice off len (a @ b) = slice (off - length a) len b"
  by (simp add: slice_def)

lemma slice_here [simp]: "length a = len \<Longrightarrow> slice 0 len (a @ b) = a"
  by (simp add: slice_def)

lemma slice_last [simp]: "length a = len \<Longrightarrow> slice 0 len a = a"
  by (simp add: slice_def)

end
