(* ===== verification/Serial_Codec.thy ===== *)
theory Serial_Codec
  imports Serial
begin

text \<open>
  Correctness of the serialisation of Serial: for each structure the bytes its writer puts
  on the wire, what its reader rebuilds from them, and that the two fit together. The
  predicates *_ok say which structures the code can transfer: C integers in range, character
  arrays of STR_LEN bytes, counters that agree with the arrays, and variables of positive
  size with an initial value for each mode.
\<close>

section \<open>What can be transferred and what arrives\<close>

definition type_ok :: "variable_type_t \<Rightarrow> bool" where
  "type_ok t \<longleftrightarrow> t \<in> {VAR_TYPE_INT, VAR_TYPE_FLOAT, VAR_TYPE_STRING}"

definition timeval_ok :: "timeval \<Rightarrow> bool" where
  "timeval_ok t \<longleftrightarrow> in_int64 (tv_sec t) \<and> in_int64 (tv_usec t)"

definition execinfo_ok :: "execinfo_t \<Rightarrow> bool" where
  "execinfo_ok e \<longleftrightarrow> in_int32 (e_module_ts e) \<and> in_int32 (e_node_ts e) \<and> in_int32 (e_max_exec_us e)
     \<and> in_int32 (e_max_exec_ts e) \<and> in_int32 (e_max_rel_us e) \<and> in_int32 (e_max_start_us e)
     \<and> in_int32 (e_last_update_ts e) \<and> in_int32 (e_start_ts e)
     \<and> length (e_t_exec e) = 3 \<and> (\<forall>t \<in> set (e_t_exec e). timeval_ok t)"

definition interface_ok :: "interface_t \<Rightarrow> bool" where
  "interface_ok i \<longleftrightarrow> in_int32 (i_id i) \<and> in_int32 (i_remote_port_idx i) \<and> in_int32 (i_remote_module_id i)
     \<and> in_int32 (i_physic_itf_id i) \<and> in_int32 (i_delay i) \<and> in_int32 (i_log_enable i)"

definition waveform_mode_ok :: "waveform_mode_t \<Rightarrow> bool" where
  "waveform_mode_ok m \<longleftrightarrow> length (wm_name m) = STR_LEN \<and> length (wm_desc m) = STR_LEN \<and> length (wm_opts m) = STR_LEN"

definition status_ok :: "waveform_status_t \<Rightarrow> bool" where
  "status_ok s \<longleftrightarrow> status_of (status_code (ws_cur_status s)) = ws_cur_status s
     \<and> in_int32 (status_code (ws_cur_status s)) \<and> in_int32 (ws_next_timeslot s)"

definition module_mode_ok :: "module_mode_t \<Rightarrow> bool" where
  "module_mode_ok m \<longleftrightarrow> in_int32 (mm_cur_mode m) \<and> in_int32 (mm_next_mode m) \<and> in_int32 (mm_next_tslot m)"

definition variable_init_ok :: "int \<Rightarrow> variable_t \<Rightarrow> bool" where
  "variable_init_ok n v \<longleftrightarrow> in_int32 (v_id v) \<and> in_int32 (v_size v) \<and> type_ok (v_type v)
     \<and> length (v_name v) = STR_LEN \<and> length (v_init_value v) = modes_MAX \<and> 0 < v_size v
     \<and> (\<forall>b \<in> set (take (nat n) (v_init_value v)). \<exists>bs. b = Some bs \<and> int (length bs) = v_size v)"

definition init_block :: "variable_t \<Rightarrow> nat \<Rightarrow> bytes" where
  "init_block v i = the (v_init_value v ! i)"

definition variable_bytes :: "int \<Rightarrow> variable_t \<Rightarrow> bytes" where
  "variable_bytes n v = int_bytes (v_id v) @ int_bytes (v_size v) @ int_bytes (type_code (v_type v))
     @ v_name v @ concat (map (init_block v) [0..<nat n])"

definition variable_received :: "int \<Rightarrow> variable_t \<Rightarrow> variable_t" where
  "variable_received n v = variable_zero\<lparr>v_id := v_id v, v_size := v_size v, v_type := v_type v,
     v_nof_modes := n,
     v_init_value := take (nat n) (v_init_value v) @ replicate (modes_MAX - nat n) None,
     v_name := v_name v\<rparr>"

definition module_ok :: "module_t \<Rightarrow> bool" where
  "module_ok m \<longleftrightarrow> in_int32 (m_id m) \<and> in_int32 (m_processor_idx m) \<and> in_int32 (m_exec_position m)
     \<and> 0 \<le> m_nof_modes m \<and> m_nof_modes m \<le> int modes_MAX \<and> in_int32 (mm_cur_mode (m_mode m))
     \<and> in_int32 (m_log_enable m) \<and> length (m_name m) = STR_LEN \<and> length (m_binary m) = STR_LEN
     \<and> execinfo_ok (m_execinfo m) \<and> module_wf m \<and> in_int32 (m_nof_variables m + NOF_USER_VARIABLES)
     \<and> in_int32 (m_nof_inputs m) \<and> in_int32 (m_nof_outputs m)
     \<and> (\<forall>v \<in> set (elems (m_variables m) (m_nof_variables m)). variable_init_ok (m_nof_modes m) v)
     \<and> (\<forall>i \<in> set (elems (m_inputs m) (m_nof_inputs m)). interface_ok i)
     \<and> (\<forall>i \<in> set (elems (m_outputs m) (m_nof_outputs m)). interface_ok i)"

definition module_bytes :: "module_t \<Rightarrow> bytes" where
  "module_bytes m = int_bytes (m_id m) @ int_bytes (m_processor_idx m) @ int_bytes (m_exec_position m)
     @ int_bytes (m_nof_modes m) @ int_bytes (mm_cur_mode (m_mode m)) @ int_bytes (m_log_enable m)
     @ m_name m @ m_binary m @ execinfo_bytes (m_execinfo m)
     @ int_bytes (m_nof_variables m) @ int_bytes (m_nof_inputs m) @ int_bytes (m_nof_outputs m)
     @ concat (map (variable_bytes (m_nof_modes m)) (elems (m_variables m) (m_nof_variables m)))
     @ concat (map interface_bytes (elems (m_inputs m) (m_nof_inputs m)))
     @ concat (map interface_bytes (elems (m_outputs m) (m_nof_outputs m)))"

text \<open>The module a node holds after reading it into a zeroed structure: first the scalar fields,
  then the arrays, with NOF_USER_VARIABLES empty variables at the end. Fields that stay with
  the manager remain zero.\<close>

definition module_header :: "module_t \<Rightarrow> module_t" where
  "module_header m = module_zero\<lparr>m_id := m_id m, m_processor_idx := m_processor_idx m,
     m_exec_position := m_exec_position m, m_nof_modes := m_nof_modes m,
     m_mode := \<lparr>mm_cur_mode = mm_cur_mode (m_mode m), mm_next_mode = 0, mm_next_tslot = 0\<rparr>,
     m_log_enable := m_log_enable m, m_name := m_name m, m_binary := m_binary m,
     m_execinfo := m_execinfo m\<rparr>"

definition module_with ::
  "module_t \<Rightarrow> interface_t list option \<Rightarrow> interface_t list option \<Rightarrow> variable_t list option \<Rightarrow> module_t" where
  "module_with m ins outs vars = (module_header m)\<lparr>m_inputs := ins, m_outputs := outs, m_variables := vars,
     m_nof_inputs := m_nof_inputs m, m_nof_outputs := m_nof_outputs m,
     m_nof_variables := m_nof_variables m + NOF_USER_VARIABLES\<rparr>"

definition module_received :: "module_t \<Rightarrow> module_t" where
  "module_received m = module_with m (Some (elems (m_inputs m) (m_nof_inputs m)))
     (Some (elems (m_outputs m) (m_nof_outputs m)))
     (Some (map (variable_received (m_nof_modes m)) (elems (m_variables m) (m_nof_variables m))
        @ replicate (nat NOF_USER_VARIABLES) variable_zero))"

text \<open>A module with one integer variable, one input and one output, for concrete runs.\<close>

definition ex_variable :: variable_t where
  "ex_variable = variable_zero\<lparr>v_id := 1, v_size := 4, v_type := VAR_TYPE_INT,
     v_init_value := Some [7, 0, 0, 0] # replicate 24 None, v_nof_modes := 1\<rparr>"

definition ex_module :: module_t where
  "ex_module = module_zero\<lparr>m_id := 3, m_node := 5, m_nof_modes := 1, m_variables := Some [ex_variable],
     m_inputs := Some [interface_zero\<lparr>i_id := 2\<rparr>], m_outputs := Some [interface_zero],
     m_nof_variables := 1, m_nof_inputs := 1, m_nof_outputs := 1\<rparr>"

text \<open>The reader f consumes bs and turns the destination d into d'.\<close>

definition loads :: "'d reader \<Rightarrow> bytes \<Rightarrow> 'd \<Rightarrow> 'd \<Rightarrow> bool" where
  "loads f bs d d' \<longleftrightarrow> (\<forall>p rest. packet_wf p \<and> packet_unread p = bs @ rest \<longrightarrow>
     f (p, d) = (0, (packet_skip (length bs) p, d')))"

section \<open>Readers\<close>

lemma loadsI:
  assumes "\<And>p rest. packet_wf p \<Longrightarrow> packet_unread p = bs @ rest \<Longrightarrow> f (p, d) = (0, (packet_skip (length bs) p, d'))"
  shows "loads f bs d d'"
  using assms by (auto simp: loads_def)

lemma loadsD:
  "loads f bs d d' \<Longrightarrow> packet_wf p \<Longrightarrow> packet_unread p = bs @ rest
    \<Longrightarrow> f (p, d) = (0, (packet_skip (length bs) p, d'))"
  by (auto simp: loads_def)

lemma loads_seq_Nil: "loads (seq_rc []) [] d d"
  by (rule loadsI) simp

lemma loads_seq_Cons:
  assumes f: "loads f a d d1" and fs: "loads (seq_rc fs) b d1 d2"
  shows "loads (seq_rc (f # fs)) (a @ b) d d2"
proof (rule loadsI)
  fix p rest assume p: "packet_wf p" "packet_unread p = (a @ b) @ rest"
  then have "f (p, d) = (0, (packet_skip (length a) p, d1))" using loadsD [OF f] by simp
  moreover have "seq_rc fs (packet_skip (length a) p, d1)
      = (0, (packet_skip (length b) (packet_skip (length a) p), d2))"
    using p by (intro loadsD [OF fs]) auto
  ultimately show "seq_rc (f # fs) (p, d) = (0, (packet_skip (length (a @ b)) p, d2))"
    by simp
qed

lemma loads_seq_single: "loads f a d d1 \<Longrightarrow> loads (seq_rc [f]) a d d1"
  using loads_seq_Cons [OF _ loads_seq_Nil] by fastforce

lemma loads_seq_append:
  assumes f: "loads (seq_rc fs) a d d1" and g: "loads (seq_rc gs) b d1 d2"
  shows "loads (seq_rc (fs @ gs)) (a @ b) d d2"
proof (rule loadsI)
  fix p rest assume p: "packet_wf p" "packet_unread p = (a @ b) @ rest"
  then have "seq_rc fs (p, d) = (0, (packet_skip (length a) p, d1))" using loadsD [OF f] by simp
  moreover have "seq_rc gs (packet_skip (length a) p, d1)
      = (0, (packet_skip (length b) (packet_skip (length a) p), d2))"
    using p by (intro loadsD [OF g]) auto
  ultimately show "seq_rc (fs @ gs) (p, d) = (0, (packet_skip (length (a @ b)) p, d2))"
    by (simp add: seq_rc_append)
qed

lemma loads_loop:
  assumes "\<And>i. i < n \<Longrightarrow> loads (step i) (g i) (D i) (D (Suc i))"
  shows "loads (seq_rc (map step [0..<n])) (concat (map g [0..<n])) (D 0) (D n)"
  using assms
proof (induction n)
  case 0
  show ?case by (simp add: loads_seq_Nil del: seq_rc.simps)
next
  case (Suc n)
  have "loads (seq_rc ([step n])) (g n) (D n) (D (Suc n))"
    using Suc.prems by (intro loads_seq_single) auto
  with Suc show ?case
    by (auto intro!: loads_seq_append simp del: seq_rc.simps)
qed

lemma loads_read_then:
  assumes g: "takes g a x" and k: "loads (k x) b d d'"
  shows "loads (read_then g k) (a @ b) d d'"
proof (rule loadsI)
  fix p rest assume p: "packet_wf p" "packet_unread p = (a @ b) @ rest"
  then have "g p = (Some x, packet_skip (length a) p)" using takesD [OF g] by simp
  moreover have "k x (packet_skip (length a) p, d)
      = (0, (packet_skip (length b) (packet_skip (length a) p), d'))"
    using p by (intro loadsD [OF k]) auto
  ultimately show "read_then g k (p, d) = (0, (packet_skip (length (a @ b)) p, d'))"
    by (simp add: read_then_def)
qed

lemma loads_get_into:
  assumes "takes g a x" "d' = upd x d"
  shows "loads (get_into g upd) a d d'"
proof -
  have "loads (\<lambda>s. (0, (fst s, upd x (snd s)))) [] d d'"
    using assms(2) by (intro loadsI) simp
  from loads_read_then [where k = "\<lambda>x s. (0, (fst s, upd x (snd s)))", OF assms(1) this]
  show ?thesis by (simp add: get_into_def)
qed

lemma loads_get_i: "in_int32 i \<Longrightarrow> d' = upd i d \<Longrightarrow> loads (get_into get_i upd) (int_bytes i) d d'"
  by (rule loads_get_into [OF takes_get_i])

lemma loads_get_struct:
  assumes "length bs = sz" "0 < sz" "d' = upd bs d"
  shows "loads (get_into (get_struct sz) upd) bs d d'"
  unfolding get_struct_def by (rule loads_get_into [OF takes_packet_get_data]) (use assms in auto)

lemma loads_on_dest: "f d = (0, d') \<Longrightarrow> loads (on_dest f) [] d d'"
  by (rule loadsI) (simp add: on_dest_def)

lemma loads_with_dest: "loads (k d) a d d' \<Longrightarrow> loads (with_dest k) a d d'"
  by (auto simp: loads_def with_dest_def)

lemma loads_focus:
  assumes "loads f a (get d) x" "d' = put x d"
  shows "loads (focus get put f) a d d'"
  using assms by (auto simp: loads_def focus_def)

text \<open>One step of a chain, for each kind of step.\<close>

lemma loads_seq_get_i:
  "in_int32 i \<Longrightarrow> loads (seq_rc fs) b (upd i d) d2
    \<Longrightarrow> loads (seq_rc (get_into get_i upd # fs)) (int_bytes i @ b) d d2"
  by (rule loads_seq_Cons [OF loads_get_i [OF _ refl]])

lemma loads_seq_get_struct:
  "length bs = sz \<Longrightarrow> 0 < sz \<Longrightarrow> loads (seq_rc fs) b (upd bs d) d2
    \<Longrightarrow> loads (seq_rc (get_into (get_struct sz) upd # fs)) (bs @ b) d d2"
  by (rule loads_seq_Cons [OF loads_get_struct [OF _ _ refl]])

lemma loads_seq_on_dest:
  "f d = (0, d1) \<Longrightarrow> loads (seq_rc fs) b d1 d2 \<Longrightarrow> loads (seq_rc (on_dest f # fs)) b d d2"
  using loads_seq_Cons [OF loads_on_dest, of f d d1 fs b d2] by simp

lemmas loads_steps = loads_seq_get_i loads_seq_get_struct loads_seq_on_dest

section \<open>Structures copied as a whole\<close>

locale struct_image =
  fixes enc :: "'a \<Rightarrow> bytes" and dec :: "bytes \<Rightarrow> 'a" and ok :: "'a \<Rightarrow> bool" and sz :: nat
  assumes length_enc: "ok x \<Longrightarrow> length (enc x) = sz"
    and dec_enc: "ok x \<Longrightarrow> dec (enc x) = x"
    and sz_pos: "0 < sz"
begin

lemma emits_image: "ok x \<Longrightarrow> emits (packet_add_data (Some (enc x)) (int sz)) (enc x)"
  by (rule emits_packet_add_data) (simp add: length_enc)

lemma emits_image_seq: "ok x \<Longrightarrow> emits (seq_rc [packet_add_data (Some (enc x)) (int sz)]) (enc x)"
  using emits_seq_Cons [OF emits_image emits_seq_Nil] by simp

lemma loads_image:
  "ok x \<Longrightarrow> d' = upd x d \<Longrightarrow> loads (get_into (get_struct sz) (\<lambda>bs d. upd (dec bs) d)) (enc x) d d'"
  by (rule loads_get_struct) (simp_all add: length_enc dec_enc sz_pos)

lemma loads_image_seq: "ok x \<Longrightarrow> loads (seq_rc [get_into (get_struct sz) (\<lambda>bs d. dec bs)]) (enc x) d x"
  by (rule loads_seq_single, rule loads_image [where upd = "\<lambda>x d. x"]) simp_all

lemma image_inj: "ok x \<Longrightarrow> ok y \<Longrightarrow> enc x = enc y \<Longrightarrow> x = y"
  using dec_enc by metis

end

lemma bytes_timeval_inverse [codec_simps, simp]: "timeval_ok t \<Longrightarrow> bytes_timeval (timeval_bytes t) = t"
  by (simp add: bytes_timeval_def timeval_bytes_def timeval_ok_def)

lemma list3: "length xs = 3 \<Longrightarrow> xs = [xs ! 0, xs ! 1, xs ! 2]"
  by (intro nth_equalityI) (auto simp: less_Suc_eq numeral_3_eq_3 numeral_2_eq_2)

interpretation ex: struct_image execinfo_bytes bytes_execinfo execinfo_ok sizeof_execinfo_t
proof
  fix e assume e: "execinfo_ok e"
  show "length (execinfo_bytes e) = sizeof_execinfo_t"
    by (simp add: execinfo_bytes_def sizeof_execinfo_t_def)
  have len: "length (e_t_exec e) = 3" using e by (simp add: execinfo_ok_def)
  then have "timeval_ok (e_t_exec e ! i)" if "i < 3" for i
    using e that by (simp add: execinfo_ok_def)
  then have t: "timeval_ok (e_t_exec e ! 0)" "timeval_ok (e_t_exec e ! Suc 0)" "timeval_ok (e_t_exec e ! 2)"
    by simp_all
  have "[e_t_exec e ! 0, e_t_exec e ! Suc 0, e_t_exec e ! 2] = e_t_exec e"
    using list3 [OF len] by simp
  with e t show "bytes_execinfo (execinfo_bytes e) = e"
    by (simp add: bytes_execinfo_def execinfo_bytes_def execinfo_ok_def)
qed (simp add: sizeof_execinfo_t_def)

interpretation itf: struct_image interface_bytes bytes_interface interface_ok sizeof_interface_t
  by unfold_locales
    (simp_all add: interface_bytes_def bytes_interface_def interface_ok_def sizeof_interface_t_def)

interpretation wmode: struct_image waveform_mode_bytes bytes_waveform_mode waveform_mode_ok sizeof_waveform_mode_t
  by unfold_locales
    (simp_all add: waveform_mode_bytes_def bytes_waveform_mode_def waveform_mode_ok_def
      sizeof_waveform_mode_t_def STR_LEN_def)

interpretation wstat: struct_image status_bytes bytes_status status_ok sizeof_waveform_status_t
  by unfold_locales
    (simp_all add: status_bytes_def bytes_status_def status_ok_def sizeof_waveform_status_t_def)

interpretation mmode: struct_image module_mode_bytes bytes_module_mode module_mode_ok sizeof_module_mode_t
  by unfold_locales
    (simp_all add: module_mode_bytes_def bytes_module_mode_def module_mode_ok_def sizeof_module_mode_t_def)

section \<open>Interfaces, execution data and modes\<close>

lemma emits_execinfo [emit_intros]: "execinfo_ok e \<Longrightarrow> emits (execinfo_serialize e) (execinfo_bytes e)"
  unfolding execinfo_serialize_def by (rule ex.emits_image_seq)

lemma loads_execinfo: "execinfo_ok e \<Longrightarrow> loads execinfo_unserializeTo (execinfo_bytes e) d e"
  unfolding execinfo_unserializeTo_def by (rule ex.loads_image_seq)

lemma emits_interface [emit_intros]: "interface_ok i \<Longrightarrow> emits (interface_serialize i) (interface_bytes i)"
  unfolding interface_serialize_def by (rule itf.emits_image_seq)

lemma loads_interface: "interface_ok i \<Longrightarrow> loads interface_unserializeTo (interface_bytes i) d i"
  unfolding interface_unserializeTo_def by (rule itf.loads_image_seq)

lemma emits_waveform_mode [emit_intros]:
  "waveform_mode_ok m \<Longrightarrow> emits (waveform_mode_serialize m) (waveform_mode_bytes m)"
  unfolding waveform_mode_serialize_def by (rule wmode.emits_image_seq)

lemma loads_waveform_mode:
  "waveform_mode_ok m \<Longrightarrow> loads waveform_mode_unserializeTo (waveform_mode_bytes m) d m"
  unfolding waveform_mode_unserializeTo_def by (rule wmode.loads_image_seq)

section \<open>Variables\<close>

lemma init_block_nth:
  assumes "variable_init_ok n v" "i < nat n" "n \<le> int modes_MAX"
  shows "v_init_value v ! i = Some (init_block v i)" "int (length (init_block v i)) = v_size v"
    "nth_opt (v_init_value v) i = Some (init_block v i)"
proof -
  have i: "i < length (v_init_value v)" using assms by (simp add: variable_init_ok_def)
  then have "v_init_value v ! i \<in> set (take (nat n) (v_init_value v))"
    using assms(2) by (auto simp: in_set_conv_nth intro!: exI [of _ i])
  then obtain bs where "v_init_value v ! i = Some bs" "int (length bs) = v_size v"
    using assms(1) by (auto simp: variable_init_ok_def)
  then show "v_init_value v ! i = Some (init_block v i)" "int (length (init_block v i)) = v_size v"
    "nth_opt (v_init_value v) i = Some (init_block v i)"
    using i by (simp_all add: init_block_def nth_opt_def)
qed

lemma emits_variable:
  assumes "variable_init_ok n v" "n \<le> int modes_MAX"
  shows "emits (variable_serialize CP_INIT n v) (variable_bytes n v)"
proof -
  have blocks: "emits (seq_rc (map (\<lambda>i. packet_add_data (nth_opt (v_init_value v) i) (v_size v)) [0..<nat n]))
      (concat (map (init_block v) [0..<nat n]))"
    using assms by (intro emits_seq_map) (simp add: init_block_nth emits_packet_add_data)
  have name: "emits (packet_add_data (Some (v_name v)) (int STR_LEN)) (v_name v)"
    using assms by (intro emits_packet_add_data) (simp add: variable_init_ok_def)
  show ?thesis
    unfolding variable_serialize_def variable_bytes_def variable_serialize_data.case append_Cons append_Nil
    by (intro emits_seq_Cons emits_add_i name blocks)
qed

lemma in_int32_type: "type_ok t \<Longrightarrow> in_int32 (type_code t)"
  by (auto simp: type_ok_def in_int32_def)

lemma take_Suc_update:
  "i < length xs \<Longrightarrow> (take i xs @ c # ys) [i := xs ! i] = take (Suc i) xs @ ys"
  by (simp add: list_update_append take_Suc_conv_app_nth min_absorb2)

lemma loads_variable:
  assumes v: "variable_init_ok n v" and n: "0 \<le> n" "n \<le> int modes_MAX"
    and mem: "\<And>sz. calloc_ok 1 sz"
  shows "loads (variable_unserializeTo calloc_ok CP_INIT n) (variable_bytes n v) variable_zero (variable_received n v)"
proof -
  let ?z = "replicate (size_t (v_size v)) (0 :: byte)"
  let ?m = "nat n"
  let ?d3 = "variable_zero\<lparr>v_id := v_id v, v_size := v_size v, v_type := v_type v\<rparr>"
  let ?d4 = "?d3\<lparr>v_nof_modes := n\<rparr>"
  let ?D = "\<lambda>i. ?d4\<lparr>
     v_init_value := take i (v_init_value v) @ replicate (?m - i) (Some ?z) @ replicate (modes_MAX - ?m) None,
     v_name := v_name v\<rparr>"
  have sz: "length ?z = nat (v_size v)" "int (nat (v_size v)) = v_size v"
    using v by (simp_all add: variable_init_ok_def size_t_def in_int32_def)
  have alloc: "variable_alloc calloc_ok (v_nof_modes ?d4) ?d4
     = (0, ?d4\<lparr>v_init_value := replicate ?m (Some ?z) @ replicate (modes_MAX - ?m) None\<rparr>)"
    using n mem by (subst variable_alloc_ok) (simp_all add: variable_zero_def)
  have step: "loads (with_dest (\<lambda>d. get_into (packet_get_data (nth_opt (v_init_value d) i) (v_size d))
        (\<lambda>bs d. d\<lparr>v_init_value := (v_init_value d)[i := Some bs]\<rparr>))) (init_block v i) (?D i) (?D (Suc i))"
    if i: "i < ?m" for i
  proof -
    have len: "i < length (v_init_value v)" using v i n by (simp add: variable_init_ok_def)
    have b: "v_init_value v ! i = Some (init_block v i)" "int (length (init_block v i)) = v_size v"
      using init_block_nth [OF v i] n by simp_all
    have e: "replicate (?m - i) (Some ?z) = Some ?z # replicate (?m - Suc i) (Some ?z)"
      using i by (metis Suc_diff_Suc replicate_Suc)
    have pos: "0 < v_size v" using v by (simp add: variable_init_ok_def)
    have "nth_opt (v_init_value (?D i)) i = Some ?z"
      using len by (simp add: nth_opt_def nth_append e)
    moreover have "takes (packet_get_data (Some ?z) (v_size v)) (init_block v i) (init_block v i)"
      using b sz pos by (intro takes_packet_get_data) auto
    moreover have "(v_init_value (?D i))[i := Some (init_block v i)] = v_init_value (?D (Suc i))"
      using take_Suc_update [OF len] b by (simp add: e)
    ultimately show ?thesis
      by (intro loads_with_dest loads_get_into [where x = "init_block v i"]) simp_all
  qed
  have Dn: "?D ?m = variable_received n v"
    by (simp add: variable_received_def)
  have loop: "loads (seq_rc (map (\<lambda>i. with_dest (\<lambda>d. get_into (packet_get_data (nth_opt (v_init_value d) i) (v_size d))
        (\<lambda>bs d. d\<lparr>v_init_value := (v_init_value d)[i := Some bs]\<rparr>))) [0..<?m]))
      (concat (map (init_block v) [0..<?m])) (?D 0) (variable_received n v)"
    using loads_loop [of ?m _ "init_block v" ?D, OF step] unfolding Dn .
  have int: "in_int32 (v_id v)" "in_int32 (v_size v)" "in_int32 (type_code (v_type v))"
      "type_of (type_code (v_type v)) = v_type v" "length (v_name v) = STR_LEN" "0 < STR_LEN"
    using v by (auto simp: variable_init_ok_def in_int32_type type_of_code type_ok_def STR_LEN_def)
  show ?thesis
    unfolding variable_unserializeTo_def variable_bytes_def variable_serialize_data.case append_Cons append_Nil
    apply (rule loads_seq_get_i int)+
    apply (unfold int(4))
    apply (rule loads_seq_on_dest, rule refl)
    apply (rule loads_seq_on_dest, rule alloc)
    apply (rule loads_seq_get_struct int)+
    using loop by simp
qed

section \<open>Modules\<close>

lemma emits_module:
  assumes "module_ok m"
  shows "emits (module_serialize CP_INIT m) (module_bytes m)"
proof -
  let ?vs = "elems (m_variables m) (m_nof_variables m)"
  have name: "emits (packet_add_data (Some (m_name m)) (int STR_LEN)) (m_name m)"
    and bin: "emits (packet_add_data (Some (m_binary m)) (int STR_LEN)) (m_binary m)"
    using assms by (auto simp: module_ok_def intro!: emits_packet_add_data)
  have exec: "emits (execinfo_serialize (m_execinfo m)) (execinfo_bytes (m_execinfo m))"
    using assms by (simp add: module_ok_def emits_execinfo)
  have vars: "emits (seq_rc (map (variable_serialize CP_INIT (m_nof_modes m)) ?vs))
      (concat (map (variable_bytes (m_nof_modes m)) ?vs))"
    using assms by (intro emits_seq_map emits_variable) (auto simp: module_ok_def)
  have ins: "emits (seq_rc (map interface_serialize (elems (m_inputs m) (m_nof_inputs m))))
      (concat (map interface_bytes (elems (m_inputs m) (m_nof_inputs m))))"
    and outs: "emits (seq_rc (map interface_serialize (elems (m_outputs m) (m_nof_outputs m))))
      (concat (map interface_bytes (elems (m_outputs m) (m_nof_outputs m))))"
    using assms by (auto simp: module_ok_def intro!: emits_seq_map emits_interface)
  show ?thesis
    unfolding module_serialize_def module_bytes_def append_Cons append_Nil
    by (intro emits_seq_Cons emits_add_i name bin exec emits_seq_append vars ins outs)
qed

lemma loads_fill:
  assumes step: "\<And>i xs. i < n \<Longrightarrow> i < length xs \<Longrightarrow> xs ! i = z
      \<Longrightarrow> loads (step i) (g i) (S xs) (S (xs[i := y i]))"
  shows "loads (seq_rc (map step [0..<n])) (concat (map g [0..<n])) (S (replicate n z @ zs)) (S (map y [0..<n] @ zs))"
proof -
  let ?D = "\<lambda>i. S (map y [0..<i] @ replicate (n - i) z @ zs)"
  have "loads (step i) (g i) (?D i) (?D (Suc i))" if i: "i < n" for i
  proof -
    have e: "replicate (n - i) z = z # replicate (n - Suc i) z"
      using i by (metis Suc_diff_Suc replicate_Suc)
    have "loads (step i) (g i) (?D i) (S ((map y [0..<i] @ replicate (n - i) z @ zs)[i := y i]))"
      using i by (intro step) (auto simp: nth_append)
    moreover have "(map y [0..<i] @ replicate (n - i) z @ zs)[i := y i]
        = map y [0..<Suc i] @ replicate (n - Suc i) z @ zs"
      by (simp add: e list_update_append)
    ultimately show ?thesis by simp
  qed
  from loads_loop [of n step g ?D, OF this] show ?thesis by simp
qed

lemma elems_len: "array_ok p n \<Longrightarrow> length (elems p n) = nat n"
  by (auto simp: array_ok_def elems_def split: option.splits)

lemma array_ok_nonneg: "array_ok p n \<Longrightarrow> 0 \<le> n"
  by (auto simp: array_ok_def split: option.splits)

lemma concat_map_nth: "length xs = n \<Longrightarrow> concat (map (\<lambda>i. f (xs ! i)) [0..<n]) = concat (map f xs)"
  by (metis (no_types, lifting) comp_apply list.map_comp map_cong map_nth)

lemma map_map_nth: "length xs = n \<Longrightarrow> map (\<lambda>i. f (xs ! i)) [0..<n] = map f xs"
  by (metis (no_types, lifting) comp_apply list.map_comp map_cong map_nth)

lemma loads_variables:
  assumes vs: "\<forall>v \<in> set vs. variable_init_ok n v" and n: "0 \<le> n" "n \<le> int modes_MAX" "m_nof_modes m = n"
    and mem: "\<And>sz. calloc_ok 1 sz" and k: "k = length vs"
  shows "loads (seq_rc (map (\<lambda>i. with_dest (\<lambda>d. focus (\<lambda>d. get_elem i (m_variables d))
              (\<lambda>x d. d\<lparr>m_variables := upd_elem i x (m_variables d)\<rparr>)
              (variable_unserializeTo calloc_ok CP_INIT (m_nof_modes d)))) [0..<k]))
     (concat (map (variable_bytes n) vs))
     (m\<lparr>m_variables := Some (replicate (length vs) variable_zero @ zs)\<rparr>)
     (m\<lparr>m_variables := Some (map (variable_received n) vs @ zs)\<rparr>)"
proof -
  have "loads (with_dest (\<lambda>d. focus (\<lambda>d. get_elem i (m_variables d))
              (\<lambda>x d. d\<lparr>m_variables := upd_elem i x (m_variables d)\<rparr>)
              (variable_unserializeTo calloc_ok CP_INIT (m_nof_modes d))))
          (variable_bytes n (vs ! i)) (m\<lparr>m_variables := Some xs\<rparr>)
          (m\<lparr>m_variables := Some (xs[i := variable_received n (vs ! i)])\<rparr>)"
    if "i < length vs" "i < length xs" "xs ! i = variable_zero" for i xs
    using that vs n mem
    by (intro loads_with_dest loads_focus [where x = "variable_received n (vs ! i)"])
      (auto simp: get_elem_def upd_elem_def intro!: loads_variable)
  from loads_fill [of "length vs" variable_zero _ "\<lambda>i. variable_bytes n (vs ! i)"
      "\<lambda>xs. m\<lparr>m_variables := Some xs\<rparr>" "\<lambda>i. variable_received n (vs ! i)", OF this]
  show ?thesis
    by (simp only: k concat_map_nth [where f = "variable_bytes n" and xs = vs, OF refl]
        map_map_nth [where f = "variable_received n" and xs = vs, OF refl])
qed

lemma loads_interfaces:
  assumes "\<forall>i \<in> set is. interface_ok i"
    and get: "\<And>xs. get (S (Some xs)) = (Some xs :: interface_t list option)"
    and put: "\<And>p q. put q (S p) = S q" and k: "k = length is"
  shows "loads (seq_rc (map (\<lambda>i. focus (\<lambda>d. get_elem i (get d))
              (\<lambda>x d. put (upd_elem i x (get d)) d) interface_unserializeTo) [0..<k]))
     (concat (map interface_bytes is)) (S (Some (replicate (length is) interface_zero))) (S (Some is))"
proof -
  have "loads (focus (\<lambda>d. get_elem i (get d)) (\<lambda>x d. put (upd_elem i x (get d)) d) interface_unserializeTo)
      (interface_bytes (is ! i)) (S (Some xs)) (S (Some (xs[i := is ! i])))"
    if "i < length is" "i < length xs" "xs ! i = interface_zero" for i xs
    using that assms(1)
    by (intro loads_focus [where x = "is ! i"] loads_interface)
      (simp_all add: get put get_elem_def upd_elem_def)
  from loads_fill [of "length is" interface_zero _ "\<lambda>i. interface_bytes (is ! i)" "\<lambda>xs. S (Some xs)"
      "\<lambda>i. is ! i" "[]", OF this]
  show ?thesis
    by (simp only: k concat_map_nth [where f = interface_bytes and xs = "is", OF refl] map_nth append_Nil2)
qed

lemma module_alloc_zero:
  assumes mem: "\<And>n sz. calloc_ok n sz" and "m_inputs m = None" "m_outputs m = None" "m_variables m = None"
    and "0 \<le> ni" "ni < 2 ^ 31" "0 \<le> no" "no < 2 ^ 31" "0 \<le> nv" "nv < 2 ^ 31"
  shows "module_alloc calloc_ok ni no nv m = (0, m\<lparr>m_inputs := Some (replicate (nat ni) interface_zero),
     m_outputs := Some (replicate (nat no) interface_zero), m_variables := Some (replicate (nat nv) variable_zero),
     m_nof_inputs := ni, m_nof_outputs := no, m_nof_variables := nv\<rparr>)"
  using assms by (simp add: module_alloc_def pool_alloc_def size_t_nat Let_def)

lemma module_ok_counts:
  assumes "module_ok m"
  shows "length (elems (m_inputs m) (m_nof_inputs m)) = nat (m_nof_inputs m)"
    "length (elems (m_outputs m) (m_nof_outputs m)) = nat (m_nof_outputs m)"
    "length (elems (m_variables m) (m_nof_variables m)) = nat (m_nof_variables m)"
    "0 \<le> m_nof_inputs m" "0 \<le> m_nof_outputs m" "0 \<le> m_nof_variables m"
    "m_nof_inputs m < 2 ^ 31" "m_nof_outputs m < 2 ^ 31" "m_nof_variables m + NOF_USER_VARIABLES < 2 ^ 31"
proof -
  have arr: "array_ok (m_inputs m) (m_nof_inputs m)" "array_ok (m_outputs m) (m_nof_outputs m)"
    "array_ok (m_variables m) (m_nof_variables m)"
    using assms by (auto simp: module_ok_def module_wf_def)
  show "length (elems (m_inputs m) (m_nof_inputs m)) = nat (m_nof_inputs m)"
    "length (elems (m_outputs m) (m_nof_outputs m)) = nat (m_nof_outputs m)"
    "length (elems (m_variables m) (m_nof_variables m)) = nat (m_nof_variables m)"
    "0 \<le> m_nof_inputs m" "0 \<le> m_nof_outputs m" "0 \<le> m_nof_variables m"
    using arr by (auto intro: elems_len array_ok_nonneg)
  show "m_nof_inputs m < 2 ^ 31" "m_nof_outputs m < 2 ^ 31" "m_nof_variables m + NOF_USER_VARIABLES < 2 ^ 31"
    using assms by (auto simp: module_ok_def in_int32_def)
qed

lemma module_with_fields [simp]:
  "m_inputs (module_with m i q v) = i" "m_outputs (module_with m i q v) = q"
  "m_variables (module_with m i q v) = v" "m_nof_inputs (module_with m i q v) = m_nof_inputs m"
  "m_nof_outputs (module_with m i q v) = m_nof_outputs m" "m_nof_modes (module_with m i q v) = m_nof_modes m"
  "(module_with m i q v)\<lparr>m_inputs := i'\<rparr> = module_with m i' q v"
  "(module_with m i q v)\<lparr>m_outputs := q'\<rparr> = module_with m i q' v"
  "(module_with m i q v)\<lparr>m_variables := v'\<rparr> = module_with m i q v'"
  by (simp_all add: module_with_def module_header_def)

lemma module_alloc_header:
  assumes m: "module_ok m" and mem: "\<And>n sz. calloc_ok n sz"
  shows "module_alloc calloc_ok (m_nof_inputs m) (m_nof_outputs m) (m_nof_variables m + NOF_USER_VARIABLES)
      (module_header m)
     = (0, module_with m (Some (replicate (length (elems (m_inputs m) (m_nof_inputs m))) interface_zero))
         (Some (replicate (length (elems (m_outputs m) (m_nof_outputs m))) interface_zero))
         (Some (replicate (length (elems (m_variables m) (m_nof_variables m))) variable_zero
                @ replicate (nat NOF_USER_VARIABLES) variable_zero)))"
proof -
  note cnt = module_ok_counts [OF m]
  have none: "m_inputs (module_header m) = None" "m_outputs (module_header m) = None"
    "m_variables (module_header m) = None"
    by (simp_all add: module_header_def module_zero_def)
  have pos: "0 \<le> m_nof_variables m + NOF_USER_VARIABLES" using cnt by (simp add: NOF_USER_VARIABLES_def)
  have split: "replicate (nat (m_nof_variables m + NOF_USER_VARIABLES)) variable_zero
      = replicate (length (elems (m_variables m) (m_nof_variables m))) variable_zero
        @ replicate (nat NOF_USER_VARIABLES) variable_zero"
    using cnt by (simp add: replicate_add [symmetric] nat_add_distrib NOF_USER_VARIABLES_def)
  show ?thesis
    by (subst module_alloc_zero [OF mem none cnt(4) cnt(7) cnt(5) cnt(8) pos cnt(9)])
      (simp only: split cnt module_with_def)
qed

lemma loads_module_arrays:
  assumes m: "module_ok m" and mem: "\<And>n sz. calloc_ok n sz"
  shows "loads (module_unserialize_arrays calloc_ok CP_INIT (m_nof_variables m) (m_nof_inputs m) (m_nof_outputs m))
     (concat (map (variable_bytes (m_nof_modes m)) (elems (m_variables m) (m_nof_variables m)))
      @ concat (map interface_bytes (elems (m_inputs m) (m_nof_inputs m)))
      @ concat (map interface_bytes (elems (m_outputs m) (m_nof_outputs m))))
     (module_header m) (module_received m)"
proof -
  let ?vs = "elems (m_variables m) (m_nof_variables m)"
  let ?is = "elems (m_inputs m) (m_nof_inputs m)"
  let ?os = "elems (m_outputs m) (m_nof_outputs m)"
  let ?n = "m_nof_modes m"
  note cnt = module_ok_counts [OF m]
  let ?user = "replicate (nat NOF_USER_VARIABLES) variable_zero"
  let ?zi = "Some (replicate (length ?is) interface_zero)" and ?zo = "Some (replicate (length ?os) interface_zero)"
  let ?zv = "Some (replicate (length ?vs) variable_zero @ ?user)"
  let ?rv = "Some (map (variable_received ?n) ?vs @ ?user)"
  have oks: "\<forall>v \<in> set ?vs. variable_init_ok ?n v" "0 \<le> ?n" "?n \<le> int modes_MAX"
      "\<forall>i \<in> set ?is. interface_ok i" "\<forall>i \<in> set ?os. interface_ok i"
    using m by (auto simp: module_ok_def)
  note vars = loads_variables [OF oks(1-3), of "module_with m ?zi ?zo ?zv" calloc_ok _ ?user,
      OF module_with_fields(6) mem cnt(3) [symmetric], unfolded module_with_fields]
  note ins = loads_interfaces [OF oks(4), of m_inputs "\<lambda>p. module_with m p ?zo ?rv" "\<lambda>q d. d\<lparr>m_inputs := q\<rparr>",
      OF module_with_fields(1) module_with_fields(7) cnt(1) [symmetric]]
  note outs = loads_interfaces [OF oks(5), of m_outputs "\<lambda>p. module_with m (Some ?is) p ?rv" "\<lambda>q d. d\<lparr>m_outputs := q\<rparr>",
      OF module_with_fields(2) module_with_fields(8) cnt(2) [symmetric]]
  show ?thesis
    unfolding module_unserialize_arrays_def module_received_def
    by (rule loads_seq_on_dest, rule module_alloc_header [OF m mem], rule loads_seq_Cons [OF vars],
        rule loads_seq_Cons [OF loads_with_dest], unfold module_with_fields, rule ins,
        rule loads_seq_single, rule loads_with_dest, unfold module_with_fields, rule outs)
qed

lemma loads_module:
  assumes m: "module_ok m" and mem: "\<And>n sz. calloc_ok n sz"
  shows "loads (module_unserializeTo calloc_ok CP_INIT) (module_bytes m) module_zero (module_received m)"
proof -
  have int: "in_int32 (m_id m)" "in_int32 (m_processor_idx m)" "in_int32 (m_exec_position m)"
    "in_int32 (m_nof_modes m)" "in_int32 (mm_cur_mode (m_mode m))" "in_int32 (m_log_enable m)"
    "in_int32 (m_nof_variables m)" "in_int32 (m_nof_inputs m)" "in_int32 (m_nof_outputs m)"
    "length (m_name m) = STR_LEN" "length (m_binary m) = STR_LEN" "0 < STR_LEN" "execinfo_ok (m_execinfo m)"
    using m module_ok_counts [OF m]
    by (auto simp: module_ok_def in_int32_def modes_MAX_def NOF_USER_VARIABLES_def STR_LEN_def)
  note exec = loads_focus [OF loads_execinfo [OF int(13)] refl]
  have arrays: "loads (seq_rc [read_then get_i (\<lambda>nv. read_then get_i (\<lambda>ni. read_then get_i (\<lambda>no.
        module_unserialize_arrays calloc_ok CP_INIT nv ni no)))])
      (int_bytes (m_nof_variables m) @ int_bytes (m_nof_inputs m) @ int_bytes (m_nof_outputs m)
       @ concat (map (variable_bytes (m_nof_modes m)) (elems (m_variables m) (m_nof_variables m)))
       @ concat (map interface_bytes (elems (m_inputs m) (m_nof_inputs m)))
       @ concat (map interface_bytes (elems (m_outputs m) (m_nof_outputs m))))
      (module_header m) (module_received m)"
    by (rule loads_seq_single, (rule loads_read_then, rule takes_get_i, rule int)+,
        rule loads_module_arrays [OF m mem])
  show ?thesis
    unfolding module_unserializeTo_def module_bytes_def
    apply (rule loads_seq_get_i int)+
    apply (rule loads_seq_on_dest, rule refl)
    apply (rule loads_seq_get_struct int)+
    apply (rule loads_seq_Cons [OF exec])
    using arrays by (simp add: module_header_def module_zero_def)
qed

section \<open>Properties\<close>

lemma loads_after_emits:
  assumes "emits f bs" "loads g bs d d'" "packet_wf p" "packet_unread p = []" "length bs \<le> packet_room p"
  shows "fst (f p) = 0 \<and> fst (g (snd (f p), d)) = 0 \<and> snd (snd (g (snd (f p), d))) = d'
     \<and> packet_unread (fst (snd (g (snd (f p), d)))) = []"
proof -
  have f: "f p = (0, packet_append bs p)" using assms by (intro emitsD) auto
  have u: "packet_unread (packet_append bs p) = bs @ []"
    using assms by (simp add: packet_unread_append)
  have w: "packet_wf (packet_append bs p)" using assms by simp
  show ?thesis
    using loadsD [OF assms(2) w u] f u w by simp
qed

lemma ex_variable_ok: "variable_init_ok 1 ex_variable"
  by (simp add: variable_init_ok_def ex_variable_def variable_zero_def type_ok_def str_zero_def STR_LEN_def
      modes_MAX_def in_int32_def)

lemma ex_module_ok: "module_ok ex_module"
  using ex_variable_ok
  by (simp add: module_ok_def ex_module_def module_zero_def execinfo_ok_def execinfo_zero_def timeval_ok_def
      timeval_zero_def in_int64_def in_int32_def modes_MAX_def str_zero_def STR_LEN_def module_wf_def
      array_ok_def NOF_USER_VARIABLES_def elems_def interface_ok_def interface_zero_def)

lemma length_ex_variable_bytes: "length (variable_bytes 1 ex_variable) = 80"
  by (simp add: variable_bytes_def ex_variable_def variable_zero_def init_block_def str_zero_def STR_LEN_def)

lemma length_ex_module_bytes: "length (module_bytes ex_module) = 428"
  by (simp add: module_bytes_def ex_module_def module_zero_def str_zero_def STR_LEN_def execinfo_bytes_def
      elems_def length_ex_variable_bytes [simplified] interface_bytes_def)

text \<open>A variable with its initial values survives the transfer: variable_serialize on an empty
  packet with enough room, then variable_unserializeTo into a zeroed structure, both succeed,
  consume the packet and rebuild the id, size, type, name and one initial value per mode.\<close>

theorem variable_roundtrip:
  assumes "variable_init_ok n v" "0 \<le> n" "n \<le> int modes_MAX" "\<forall>sz. calloc_ok 1 sz"
    "packet_wf p" "packet_unread p = []" "length (variable_bytes n v) \<le> packet_room p"
  shows "fst (variable_serialize CP_INIT n v p) = 0
     \<and> fst (variable_unserializeTo calloc_ok CP_INIT n (snd (variable_serialize CP_INIT n v p), variable_zero)) = 0
     \<and> snd (snd (variable_unserializeTo calloc_ok CP_INIT n (snd (variable_serialize CP_INIT n v p), variable_zero)))
        = variable_received n v
     \<and> packet_unread (fst (snd (variable_unserializeTo calloc_ok CP_INIT n
          (snd (variable_serialize CP_INIT n v p), variable_zero)))) = []"
  using assms by (intro loads_after_emits [OF emits_variable loads_variable]) auto

theorem variable_roundtrip_witness:
  "snd (snd (variable_unserializeTo (\<lambda>_ _. True) CP_INIT 1
     (snd (variable_serialize CP_INIT 1 ex_variable ex_packet), variable_zero))) = variable_received 1 ex_variable"
  using variable_roundtrip [of 1 ex_variable "\<lambda>_ _. True" ex_packet]
  by (simp add: ex_variable_ok ex_packet_facts length_ex_variable_bytes [simplified] modes_MAX_def)

text \<open>C18. A module survives the transfer from the manager to a node: module_serialize on an empty
  packet with enough room and module_unserializeTo into a zeroed module both succeed and
  the node gets the same id, processor, position, names, execution data, variables with their
  initial values and interfaces, with NOF_USER_VARIABLES free variables added.\<close>

theorem module_roundtrip:
  assumes "module_ok m" "\<forall>n sz. calloc_ok n sz"
    "packet_wf p" "packet_unread p = []" "length (module_bytes m) \<le> packet_room p"
  shows "fst (module_serialize CP_INIT m p) = 0
     \<and> fst (module_unserializeTo calloc_ok CP_INIT (snd (module_serialize CP_INIT m p), module_zero)) = 0
     \<and> snd (snd (module_unserializeTo calloc_ok CP_INIT (snd (module_serialize CP_INIT m p), module_zero)))
        = module_received m
     \<and> packet_unread (fst (snd (module_unserializeTo calloc_ok CP_INIT
          (snd (module_serialize CP_INIT m p), module_zero)))) = []"
  using assms by (intro loads_after_emits [OF emits_module loads_module]) auto

theorem module_roundtrip_witness:
  "snd (snd (module_unserializeTo (\<lambda>_ _. True) CP_INIT (snd (module_serialize CP_INIT ex_module ex_packet), module_zero)))
     = module_received ex_module"
  using module_roundtrip [of ex_module "\<lambda>_ _. True" ex_packet]
  by (simp add: ex_module_ok ex_packet_facts length_ex_module_bytes)

text \<open>When the packet has too little room for a module, module_serialize returns -1 and the
  packet stays well formed, whatever was already written.\<close>

theorem module_serialize_full:
  assumes "module_ok m" "packet_wf p" "packet_room p < length (module_bytes m)"
    and "pk_w_ptr p + int (length (module_bytes m)) < 2 ^ 31"
  shows "fst (module_serialize CP_INIT m p) = -1 \<and> packet_wf (snd (module_serialize CP_INIT m p))"
  using assms by (intro emits_full [OF emits_module])

theorem module_serialize_full_witness:
  "fst (module_serialize CP_INIT ex_module (ex_packet\<lparr>pk_size := 0, pk_buffer := Some []\<rparr>)) = -1"
  using module_serialize_full [of ex_module "ex_packet\<lparr>pk_size := 0, pk_buffer := Some []\<rparr>"]
  by (simp add: ex_module_ok length_ex_module_bytes) (simp add: ex_packet_def packet_wf_def packet_room_def)

end
