(* ===== verification/Spscq.thy ===== *)
theory Spscq
  imports Waveform
begin

text \<open>
  The single-producer single-consumer packet queue between two modules:
  rtdal_lnx/src/rtdal_itfspscq.c, reached through rtdal_lnx/src/rtdal_itf.c.

  A queue is a ring of max_msg packet slots with a read and a write index; each slot has a
  valid flag, a length, a time stamp and its own block of max_msg_sz bytes (the region of
  itf->data its pointer refers to). An address handed out by request or pop is the index of
  its slot. A call on a blocking queue (negative delay) that waits on the semaphore is the
  outcome Block: the call has no effect and is repeated after the other side gave the
  semaphore. Handles are never null in the model; now is the value of rtdal_time_slot().

  The theorems relate the ring to the list of its messages (spscq_abs), show that it is a
  bounded first-in first-out queue with a delivery delay (locale delay_queue), and that in
  every interleaving of the two sides no message is lost, duplicated, reordered or delivered
  early.
\<close>

section \<open>State\<close>

record r_pkt_t =
  rp_valid :: int
  rp_tstamp :: int
  rp_len :: int
  rp_data :: bytes

record rtdal_itfspscq_t =
  q_id :: int
  q_delay :: int
  q_max_msg :: nat
  q_max_msg_sz :: nat
  q_read :: nat
  q_write :: nat
  q_sem_r :: bool
  q_sem_w :: bool
  q_packets :: "r_pkt_t list"

datatype 'a outcome = Ret 'a | Block

section \<open>Operations\<close>

definition r_pkt_zero :: "nat \<Rightarrow> r_pkt_t" where
  "r_pkt_zero sz = \<lparr>rp_valid = 0, rp_tstamp = 0, rp_len = 0, rp_data = replicate sz 0\<rparr>"

text \<open>The first argument is the static counter spscq_id, the second tells whether the
  allocations succeed.\<close>

definition rtdal_itfspscq_new ::
  "int \<Rightarrow> bool \<Rightarrow> nat \<Rightarrow> nat \<Rightarrow> int \<Rightarrow> rtdal_itfspscq_t option \<times> int" where
  "rtdal_itfspscq_new spscq_id mem_ok max_msg msg_sz delay =
     (if \<not> mem_ok then (None, spscq_id)
      else (Some \<lparr>q_id = spscq_id, q_delay = delay, q_max_msg = max_msg, q_max_msg_sz = msg_sz,
                  q_read = 0, q_write = 0, q_sem_r = False, q_sem_w = False,
                  q_packets = replicate max_msg (r_pkt_zero msg_sz)\<rparr>, spscq_id + 1))"

definition rtdal_itfspscq_reset :: "rtdal_itfspscq_t \<Rightarrow> int \<times> rtdal_itfspscq_t" where
  "rtdal_itfspscq_reset q = (0, q\<lparr>q_read := 0, q_write := 0,
     q_packets := map (\<lambda>s. s\<lparr>rp_valid := 0\<rparr>) (q_packets q)\<rparr>)"

text \<open>remove frees the object: nothing of it is left.\<close>

definition rtdal_itfspscq_remove :: "rtdal_itfspscq_t \<Rightarrow> int \<times> rtdal_itfspscq_t option" where
  "rtdal_itfspscq_remove q = (0, None)"

definition spscq_is_empty :: "int \<Rightarrow> rtdal_itfspscq_t \<Rightarrow> bool outcome" where
  "spscq_is_empty tstamp q = (let s = q_packets q ! q_read q in
     if q_delay q \<ge> 0 \<or> q_delay q = -2 then Ret (rp_valid s = 0)
     else if rp_valid s = 0 \<and> rp_tstamp s > tstamp then Block else Ret False)"

definition spscq_is_full :: "rtdal_itfspscq_t \<Rightarrow> bool outcome" where
  "spscq_is_full q = (let s = q_packets q ! q_write q in
     if q_delay q \<ge> 0 then Ret (rp_valid s \<noteq> 0)
     else if rp_valid s \<noteq> 0 then Block else Ret False)"

text \<open>Return code and, when it is 1, the slot whose buffer is handed out.\<close>

definition rtdal_itfspscq_request :: "rtdal_itfspscq_t \<Rightarrow> (int \<times> nat option) outcome" where
  "rtdal_itfspscq_request q = (case spscq_is_full q of
      Block \<Rightarrow> Block
    | Ret True \<Rightarrow> Ret (0, None)
    | Ret False \<Rightarrow> Ret (1, Some (q_write q)))"

definition ring_next :: "nat \<Rightarrow> nat \<Rightarrow> nat" where
  "ring_next max_msg i = (if i + 1 \<ge> max_msg then i + 1 - max_msg else i + 1)"

definition rtdal_itfspscq_push :: "int \<Rightarrow> int \<Rightarrow> rtdal_itfspscq_t \<Rightarrow> int \<times> rtdal_itfspscq_t" where
  "rtdal_itfspscq_push now len q =
     (if len = 0 then (1, q)
      else (1, q\<lparr>q_packets := (q_packets q)[q_write q :=
                    (q_packets q ! q_write q)\<lparr>rp_tstamp := now + q_delay q, rp_len := len, rp_valid := 1\<rparr>],
                 q_write := ring_next (q_max_msg q) (q_write q),
                 q_sem_r := (if q_delay q < 0 then True else q_sem_r q)\<rparr>))"

text \<open>Return code, and the slot and length of the packet when it is 1.\<close>

definition rtdal_itfspscq_pop :: "int \<Rightarrow> int \<Rightarrow> rtdal_itfspscq_t \<Rightarrow> (int \<times> (nat \<times> int) option) outcome" where
  "rtdal_itfspscq_pop now tstamp q = (case spscq_is_empty tstamp q of
      Block \<Rightarrow> Block
    | Ret True \<Rightarrow> Ret (0, None)
    | Ret False \<Rightarrow>
        if q_delay q \<ge> 0 \<and> rp_tstamp (q_packets q ! q_read q) > now then Ret (0, None)
        else Ret (1, Some (q_read q, rp_len (q_packets q ! q_read q))))"

definition rtdal_itfspscq_release :: "rtdal_itfspscq_t \<Rightarrow> int \<times> rtdal_itfspscq_t" where
  "rtdal_itfspscq_release q =
     (1, q\<lparr>q_packets := (q_packets q)[q_read q := (q_packets q ! q_read q)\<lparr>rp_valid := 0\<rparr>],
           q_read := ring_next (q_max_msg q) (q_read q),
           q_sem_w := (if q_delay q < 0 then True else q_sem_w q)\<rparr>)"

definition rtdal_itfspscq_set_delay :: "rtdal_itfspscq_t \<Rightarrow> int \<Rightarrow> int" where
  "rtdal_itfspscq_set_delay q delay = -1"

definition rtdal_itfspscq_get_delay :: "rtdal_itfspscq_t \<Rightarrow> int" where
  "rtdal_itfspscq_get_delay q = -1"

definition rtdal_itfspscq_set_blocking :: "rtdal_itfspscq_t \<Rightarrow> int \<Rightarrow> int" where
  "rtdal_itfspscq_set_blocking q block = -1"

definition rtdal_itfspscq_get_blocking :: "rtdal_itfspscq_t \<Rightarrow> int" where
  "rtdal_itfspscq_get_blocking q = -1"

text \<open>What a producer does with the buffer it got from request: overwrite its first bytes.\<close>

definition fill_slot :: "nat \<Rightarrow> bytes \<Rightarrow> rtdal_itfspscq_t \<Rightarrow> rtdal_itfspscq_t" where
  "fill_slot i bs q = q\<lparr>q_packets := (q_packets q)[i :=
     (q_packets q ! i)\<lparr>rp_data := bs @ drop (length bs) (rp_data (q_packets q ! i))\<rparr>]\<rparr>"

text \<open>The buffer has len bytes, so len is its length.\<close>

definition rtdal_itfspscq_send :: "int \<Rightarrow> bytes \<Rightarrow> rtdal_itfspscq_t \<Rightarrow> (int \<times> rtdal_itfspscq_t) outcome" where
  "rtdal_itfspscq_send now buffer q =
     (if length buffer > q_max_msg_sz q then Ret (-1, q)
      else case rtdal_itfspscq_request q of
        Block \<Rightarrow> Block
      | Ret (n, None) \<Rightarrow> Ret (n, q)
      | Ret (n, Some i) \<Rightarrow> Ret (rtdal_itfspscq_push now (int (length buffer)) (fill_slot i buffer q)))"

text \<open>Return code (the number of bytes copied) and the bytes copied to the buffer.\<close>

definition rtdal_itfspscq_recv ::
  "int \<Rightarrow> int \<Rightarrow> nat \<Rightarrow> rtdal_itfspscq_t \<Rightarrow> (int \<times> bytes \<times> rtdal_itfspscq_t) outcome" where
  "rtdal_itfspscq_recv now tstamp len q = (case rtdal_itfspscq_pop now tstamp q of
      Block \<Rightarrow> Block
    | Ret (n, None) \<Rightarrow> Ret (n, [], q)
    | Ret (n, Some (i, plen)) \<Rightarrow>
        let plen' = (if plen > int len then int len else plen)
        in Ret (plen', take (nat plen') (rp_data (q_packets q ! i)), snd (rtdal_itfspscq_release q)))"

section \<open>Abstraction and invariant\<close>

text \<open>The slots in the order the consumer meets them.\<close>

definition ring :: "'a list \<Rightarrow> nat \<Rightarrow> 'a list" where
  "ring xs r = rotate r xs"

definition is_valid :: "r_pkt_t \<Rightarrow> bool" where
  "is_valid s \<longleftrightarrow> rp_valid s \<noteq> 0"

definition slot_msg :: "r_pkt_t \<Rightarrow> int \<times> bytes" where
  "slot_msg s = (rp_tstamp s, take (nat (rp_len s)) (rp_data s))"

definition valid_slots :: "rtdal_itfspscq_t \<Rightarrow> r_pkt_t list" where
  "valid_slots q = takeWhile is_valid (ring (q_packets q) (q_read q))"

text \<open>The messages in the queue, oldest first, each with the slot from which it may be read.\<close>

definition spscq_abs :: "rtdal_itfspscq_t \<Rightarrow> (int \<times> bytes) list" where
  "spscq_abs q = map slot_msg (valid_slots q)"

definition slot_ok :: "nat \<Rightarrow> r_pkt_t \<Rightarrow> bool" where
  "slot_ok sz s \<longleftrightarrow> length (rp_data s) = sz \<and> (is_valid s \<longrightarrow> 0 < rp_len s \<and> rp_len s \<le> int sz)"

definition spscq_wf :: "rtdal_itfspscq_t \<Rightarrow> bool" where
  "spscq_wf q \<longleftrightarrow> 0 < q_max_msg q \<and> length (q_packets q) = q_max_msg q
     \<and> q_read q < q_max_msg q \<and> q_write q < q_max_msg q
     \<and> q_write q = (q_read q + length (valid_slots q)) mod q_max_msg q
     \<and> (\<forall>s \<in> set (drop (length (valid_slots q)) (ring (q_packets q) (q_read q))). \<not> is_valid s)
     \<and> (\<forall>s \<in> set (q_packets q). slot_ok (q_max_msg_sz q) s)"

definition sent_slot :: "int \<Rightarrow> bytes \<Rightarrow> rtdal_itfspscq_t \<Rightarrow> r_pkt_t" where
  "sent_slot now m q = (q_packets q ! q_write q)\<lparr>
     rp_data := m @ drop (length m) (rp_data (q_packets q ! q_write q)),
     rp_tstamp := now + q_delay q, rp_len := int (length m), rp_valid := 1\<rparr>"

text \<open>A queue in the non-blocking mode that the manager configures for data interfaces.\<close>

definition spscq_nb :: "rtdal_itfspscq_t \<Rightarrow> bool" where
  "spscq_nb q \<longleftrightarrow> spscq_wf q \<and> 0 \<le> q_delay q"

text \<open>Sending a list of messages, receiving a number of them.\<close>

fun send_all :: "(bytes \<Rightarrow> 'q \<Rightarrow> (int \<times> 'q) outcome) \<Rightarrow> bytes list \<Rightarrow> 'q \<Rightarrow> 'q option" where
  "send_all send [] q = Some q"
| "send_all send (m # ms) q = (case send m q of
      Ret (r, q') \<Rightarrow> if r = 1 then send_all send ms q' else None
    | Block \<Rightarrow> None)"

fun recv_all :: "('q \<Rightarrow> (int \<times> bytes \<times> 'q) outcome) \<Rightarrow> nat \<Rightarrow> 'q \<Rightarrow> (bytes list \<times> 'q) option" where
  "recv_all recv 0 q = Some ([], q)"
| "recv_all recv (Suc n) q = (case recv q of
      Ret (r, m, q') \<Rightarrow> if r > 0 then map_option (\<lambda>(ms, q''). (m # ms, q'')) (recv_all recv n q') else None
    | Block \<Rightarrow> None)"

text \<open>Producer and consumer side by side: each step is one call of either side or the start of
  the next time slot. A producer that got a buffer (requested) fills and pushes it; a consumer
  that got a packet (popped) releases it. The histories record the slot and the bytes of every
  message sent and received.\<close>

record spscq_sys =
  sys_q :: rtdal_itfspscq_t
  sys_now :: int
  sys_requested :: bool
  sys_popped :: bool
  sys_sent :: "(int \<times> bytes) list"
  sys_rcvd :: "(int \<times> bytes) list"

inductive spscq_step :: "spscq_sys \<Rightarrow> spscq_sys \<Rightarrow> bool" where
  step_tick: "spscq_step s (s\<lparr>sys_now := sys_now s + 1\<rparr>)"
| step_request: "\<not> sys_requested s \<Longrightarrow> rtdal_itfspscq_request (sys_q s) = Ret (1, Some i) \<Longrightarrow>
    spscq_step s (s\<lparr>sys_requested := True\<rparr>)"
| step_push: "sys_requested s \<Longrightarrow> m \<noteq> [] \<Longrightarrow> length m \<le> q_max_msg_sz (sys_q s) \<Longrightarrow>
    spscq_step s (s\<lparr>sys_q := snd (rtdal_itfspscq_push (sys_now s) (int (length m))
                                     (fill_slot (q_write (sys_q s)) m (sys_q s))),
                    sys_requested := False, sys_sent := sys_sent s @ [(sys_now s, m)]\<rparr>)"
| step_pop: "\<not> sys_popped s \<Longrightarrow> rtdal_itfspscq_pop (sys_now s) ts (sys_q s) = Ret (1, Some (i, len)) \<Longrightarrow>
    spscq_step s (s\<lparr>sys_popped := True,
      sys_rcvd := sys_rcvd s @ [(sys_now s, take (nat len) (rp_data (q_packets (sys_q s) ! i)))]\<rparr>)"
| step_release: "sys_popped s \<Longrightarrow>
    spscq_step s (s\<lparr>sys_q := snd (rtdal_itfspscq_release (sys_q s)), sys_popped := False\<rparr>)"

definition spscq_init :: "rtdal_itfspscq_t \<Rightarrow> int \<Rightarrow> spscq_sys" where
  "spscq_init q now = \<lparr>sys_q = q, sys_now = now, sys_requested = False, sys_popped = False,
     sys_sent = [], sys_rcvd = []\<rparr>"

text \<open>The messages not yet handed to the consumer.\<close>

definition sys_pending :: "spscq_sys \<Rightarrow> (int \<times> bytes) list" where
  "sys_pending s = (if sys_popped s then tl (spscq_abs (sys_q s)) else spscq_abs (sys_q s))"

definition sys_inv :: "int \<Rightarrow> spscq_sys \<Rightarrow> bool" where
  "sys_inv d s \<longleftrightarrow> spscq_wf (sys_q s) \<and> q_delay (sys_q s) = d
     \<and> (sys_requested s \<longrightarrow> length (spscq_abs (sys_q s)) < q_max_msg (sys_q s))
     \<and> (sys_popped s \<longrightarrow> spscq_abs (sys_q s) \<noteq> [])
     \<and> length (sys_rcvd s) \<le> length (sys_sent s)
     \<and> map (\<lambda>(t, m). (t + d, m)) (drop (length (sys_rcvd s)) (sys_sent s)) = sys_pending s
     \<and> (\<forall>k < length (sys_rcvd s). snd (sys_rcvd s ! k) = snd (sys_sent s ! k)
          \<and> fst (sys_sent s ! k) + d \<le> fst (sys_rcvd s ! k))"

section \<open>Ring lemmas\<close>

lemma length_ring [simp]: "length (ring xs r) = length xs"
  by (simp add: ring_def)

lemma ring_nth: "i < length xs \<Longrightarrow> ring xs r ! i = xs ! ((r + i) mod length xs)"
  by (simp add: ring_def nth_rotate add.commute)

lemma set_ring [simp]: "set (ring xs r) = set xs"
  by (simp add: ring_def)

lemma ring_index_inj:
  assumes "(r + i) mod n = (r + j) mod n" "i < n" "j < (n :: nat)"
  shows "i = j"
  using assms
proof (induction i j rule: linorder_wlog)
  case (le a b)
  then have "n dvd (r + b) - (r + a)"
    by (metis add_le_cancel_left mod_eq_dvd_iff_nat)
  then have "n dvd b - a" by simp
  then have "b - a = 0" using le nat_dvd_not_less [of "b - a" n] by fastforce
  then show ?case using le by simp
qed simp

lemma ring_update:
  assumes "j < length xs"
  shows "ring (xs[(r + j) mod length xs := x]) r = (ring xs r)[j := x]"
proof (rule nth_equalityI)
  fix i assume "i < length (ring (xs[(r + j) mod length xs := x]) r)"
  then have i: "i < length xs" by simp
  have "(r + i) mod length xs < length xs" using i by (intro mod_less_divisor) auto
  moreover have "(r + j) mod length xs \<noteq> (r + i) mod length xs" if "i \<noteq> j"
    using i assms that ring_index_inj [of r i "length xs" j] by metis
  ultimately show "ring (xs[(r + j) mod length xs := x]) r ! i = (ring xs r)[j := x] ! i"
    using i assms by (cases "i = j") (auto simp: ring_nth)
qed simp

lemma ring_next_eq:
  assumes "0 < n" "i < n"
  shows "ring_next n i = (i + 1) mod n"
  using assms by (auto simp: ring_next_def mod_if)

lemma ring_advance: "xs \<noteq> [] \<Longrightarrow> ring xs ((r + 1) mod length xs) = rotate1 (ring xs r)"
  by (simp add: ring_def rotate_conv_mod [symmetric] rotate1_rotate_swap)

lemma rotate1_update0: "xs \<noteq> [] \<Longrightarrow> rotate1 (xs[0 := x]) = tl xs @ [x]"
  by (cases xs) simp_all

section \<open>Queue lemmas\<close>

text \<open>In a well-formed queue the consumer meets the valid slots first and then the free ones.\<close>

lemma spscq_split:
  "ring (q_packets q) (q_read q) = valid_slots q @ drop (length (valid_slots q)) (ring (q_packets q) (q_read q))"
  unfolding valid_slots_def
  by (metis append_take_drop_id takeWhile_eq_take)

lemma valid_slots_le: "spscq_wf q \<Longrightarrow> length (valid_slots q) \<le> q_max_msg q"
  by (metis length_ring length_takeWhile_le spscq_wf_def valid_slots_def)

lemma length_spscq_abs [simp]: "length (spscq_abs q) = length (valid_slots q)"
  by (simp add: spscq_abs_def)

text \<open>From a split of the ring into valid and free slots to the well-formed queue.\<close>

lemma spscq_wfI:
  assumes "0 < q_max_msg q" "length (q_packets q) = q_max_msg q" "q_read q < q_max_msg q"
    and split: "ring (q_packets q) (q_read q) = vs @ fs" "\<forall>s \<in> set vs. is_valid s" "\<forall>s \<in> set fs. \<not> is_valid s"
    and w: "q_write q = (q_read q + length vs) mod q_max_msg q"
    and ok: "\<forall>s \<in> set (vs @ fs). slot_ok (q_max_msg_sz q) s"
  shows "spscq_wf q" "valid_slots q = vs"
proof -
  show vs: "valid_slots q = vs"
    unfolding valid_slots_def split(1) using split(2,3)
    by (cases fs) (simp_all add: takeWhile_append takeWhile_eq_all_conv takeWhile_tail)
  have "set (vs @ fs) = set (q_packets q)" using set_ring split(1) by metis
  then show "spscq_wf q"
    using assms vs by (simp add: spscq_wf_def)
qed

lemma spscq_wfE:
  assumes "spscq_wf q"
  obtains vs fs where "valid_slots q = vs" "ring (q_packets q) (q_read q) = vs @ fs"
    "\<forall>s \<in> set vs. is_valid s" "\<forall>s \<in> set fs. \<not> is_valid s"
    "q_write q = (q_read q + length vs) mod q_max_msg q" "0 < q_max_msg q"
    "length (q_packets q) = q_max_msg q" "length vs + length fs = q_max_msg q"
    "q_read q < q_max_msg q" "q_write q < q_max_msg q"
    "\<forall>s \<in> set (vs @ fs). slot_ok (q_max_msg_sz q) s"
proof -
  let ?fs = "drop (length (valid_slots q)) (ring (q_packets q) (q_read q))"
  have sp: "ring (q_packets q) (q_read q) = valid_slots q @ ?fs" by (rule spscq_split)
  have "set (valid_slots q @ ?fs) = set (q_packets q)" using set_ring sp by metis
  moreover have "\<forall>s \<in> set (valid_slots q). is_valid s"
    unfolding valid_slots_def by (auto dest: set_takeWhileD)
  moreover have "length (valid_slots q) + length ?fs = q_max_msg q"
    using assms sp length_ring [of "q_packets q" "q_read q"] by (metis length_append spscq_wf_def)
  ultimately show ?thesis
    using that [of "valid_slots q" ?fs] assms sp by (simp add: spscq_wf_def)
qed

lemma write_slot:
  assumes "spscq_wf q"
  shows "is_valid (q_packets q ! q_write q) \<longleftrightarrow> length (valid_slots q) = q_max_msg q"
proof -
  obtain vs fs where q: "valid_slots q = vs" "ring (q_packets q) (q_read q) = vs @ fs"
    "\<forall>s \<in> set vs. is_valid s" "\<forall>s \<in> set fs. \<not> is_valid s"
    "q_write q = (q_read q + length vs) mod q_max_msg q" "0 < q_max_msg q"
    "length (q_packets q) = q_max_msg q" "length vs + length fs = q_max_msg q" "q_read q < q_max_msg q"
    using assms by (rule spscq_wfE) blast
  show ?thesis
  proof (cases fs)
    case Nil
    then have "q_packets q ! q_write q = (vs @ fs) ! 0"
      using q by (metis add.right_neutral length_greater_0_conv list.size(3) mod_add_self2 mod_less ring_nth)
    then show ?thesis using Nil q by simp
  next
    case (Cons f fs')
    then have "q_packets q ! q_write q = (vs @ fs) ! length vs"
      using q ring_nth [of "length vs" "q_packets q" "q_read q"] by simp
    then show ?thesis using Cons q by simp
  qed
qed

lemma read_slot:
  assumes "spscq_wf q" "valid_slots q = v # vs"
  shows "q_packets q ! q_read q = v"
proof -
  have "ring (q_packets q) (q_read q) ! 0 = v"
    using spscq_split [of q] assms(2) by (metis append_Cons nth_Cons_0)
  then show ?thesis using assms(1) by (simp add: ring_nth spscq_wf_def)
qed

lemma read_slot_free:
  assumes "spscq_wf q" "valid_slots q = []"
  shows "\<not> is_valid (q_packets q ! q_read q)"
  using write_slot [OF assms(1)] assms by (simp add: spscq_wf_def)

lemma fill_push_eq:
  assumes "spscq_wf q" "m \<noteq> []"
  shows "rtdal_itfspscq_push now (int (length m)) (fill_slot (q_write q) m q)
     = (1, q\<lparr>q_packets := (q_packets q)[q_write q := sent_slot now m q],
             q_write := (q_write q + 1) mod q_max_msg q,
             q_sem_r := (if q_delay q < 0 then True else q_sem_r q)\<rparr>)"
proof -
  have w: "q_write q < length (q_packets q)" "0 < q_max_msg q" "q_write q < q_max_msg q"
    using assms(1) by (auto simp: spscq_wf_def)
  then show ?thesis
    using assms(2) by (simp add: rtdal_itfspscq_push_def fill_slot_def sent_slot_def ring_next_eq)
qed

lemma fill_push:
  assumes wf: "spscq_wf q" and room: "length (spscq_abs q) < q_max_msg q"
    and m: "m \<noteq> []" "length m \<le> q_max_msg_sz q"
    and q': "q' = snd (rtdal_itfspscq_push now (int (length m)) (fill_slot (q_write q) m q))"
  shows "spscq_wf q'" "spscq_abs q' = spscq_abs q @ [(now + q_delay q, m)]"
    "q_max_msg q' = q_max_msg q" "q_max_msg_sz q' = q_max_msg_sz q" "q_delay q' = q_delay q"
proof -
  obtain vs fs where q: "valid_slots q = vs" "ring (q_packets q) (q_read q) = vs @ fs"
    "\<forall>s \<in> set vs. is_valid s" "\<forall>s \<in> set fs. \<not> is_valid s"
    "q_write q = (q_read q + length vs) mod q_max_msg q" "0 < q_max_msg q"
    "length (q_packets q) = q_max_msg q" "length vs + length fs = q_max_msg q" "q_read q < q_max_msg q"
    "q_write q < q_max_msg q" "\<forall>s \<in> set (vs @ fs). slot_ok (q_max_msg_sz q) s"
    using wf by (rule spscq_wfE) blast
  obtain f fs' where fs: "fs = f # fs'" using room q by (cases fs) auto
  let ?s = "sent_slot now m q"
  have "q_packets q ! q_write q \<in> set (q_packets q)" using q by simp
  then have f: "length (rp_data (q_packets q ! q_write q)) = q_max_msg_sz q"
    using wf by (auto simp: spscq_wf_def slot_ok_def)
  have s: "is_valid ?s" "slot_ok (q_max_msg_sz q) ?s" "slot_msg ?s = (now + q_delay q, m)"
    using m f by (auto simp: is_valid_def slot_ok_def slot_msg_def sent_slot_def)
  have eq: "q' = q\<lparr>q_packets := (q_packets q)[q_write q := ?s],
             q_write := (q_write q + 1) mod q_max_msg q,
             q_sem_r := (if q_delay q < 0 then True else q_sem_r q)\<rparr>"
    using fill_push_eq [OF wf m(1)] q' by simp
  have "ring ((q_packets q)[(q_read q + length vs) mod length (q_packets q) := ?s]) (q_read q)
      = (ring (q_packets q) (q_read q))[length vs := ?s]"
    using q fs by (intro ring_update) simp
  then have r: "ring (q_packets q') (q_read q') = (vs @ [?s]) @ fs'"
    using eq q fs by simp
  have w: "q_write q' = (q_read q' + length (vs @ [?s])) mod q_max_msg q'"
    using eq q by (simp add: mod_Suc_eq)
  show "spscq_wf q'"
    by (rule spscq_wfI [OF _ _ _ r _ _ w]) (use eq q fs s in auto)
  have "valid_slots q' = vs @ [?s]"
    by (rule spscq_wfI [OF _ _ _ r _ _ w]) (use eq q fs s in auto)
  then show "spscq_abs q' = spscq_abs q @ [(now + q_delay q, m)]"
    using s q by (simp add: spscq_abs_def)
  show "q_max_msg q' = q_max_msg q" "q_max_msg_sz q' = q_max_msg_sz q" "q_delay q' = q_delay q"
    using eq by simp_all
qed

lemma release:
  assumes wf: "spscq_wf q" and ne: "spscq_abs q \<noteq> []" and q': "q' = snd (rtdal_itfspscq_release q)"
  shows "spscq_wf q'" "spscq_abs q' = tl (spscq_abs q)"
    "q_max_msg q' = q_max_msg q" "q_max_msg_sz q' = q_max_msg_sz q" "q_delay q' = q_delay q"
proof -
  obtain vs fs where q: "valid_slots q = vs" "ring (q_packets q) (q_read q) = vs @ fs"
    "\<forall>s \<in> set vs. is_valid s" "\<forall>s \<in> set fs. \<not> is_valid s"
    "q_write q = (q_read q + length vs) mod q_max_msg q" "0 < q_max_msg q"
    "length (q_packets q) = q_max_msg q" "length vs + length fs = q_max_msg q" "q_read q < q_max_msg q"
    "q_write q < q_max_msg q" "\<forall>s \<in> set (vs @ fs). slot_ok (q_max_msg_sz q) s"
    using wf by (rule spscq_wfE) blast
  obtain v vs' where vs: "vs = v # vs'" using ne q by (cases vs) (auto simp: spscq_abs_def)
  have v: "q_packets q ! q_read q = v" using read_slot [OF wf] q vs by simp
  let ?s = "v\<lparr>rp_valid := 0\<rparr>"
  have eq: "q' = q\<lparr>q_packets := (q_packets q)[q_read q := ?s], q_read := (q_read q + 1) mod q_max_msg q,
             q_sem_w := (if q_delay q < 0 then True else q_sem_w q)\<rparr>"
    using q' q v by (simp add: rtdal_itfspscq_release_def ring_next_eq)
  have "ring ((q_packets q)[(q_read q + 0) mod length (q_packets q) := ?s]) (q_read q)
      = (ring (q_packets q) (q_read q))[0 := ?s]"
    using q by (intro ring_update) simp
  then have u: "ring ((q_packets q)[q_read q := ?s]) (q_read q) = ?s # vs' @ fs"
    using q vs by simp
  have ne2: "(q_packets q)[q_read q := ?s] \<noteq> []" using q by auto
  have r: "ring (q_packets q') (q_read q') = vs' @ (fs @ [?s])"
    using eq q ring_advance [OF ne2, of "q_read q"] u by simp
  have s: "\<not> is_valid ?s" "slot_ok (q_max_msg_sz q) ?s"
    using q vs by (auto simp: is_valid_def slot_ok_def)
  have w: "q_write q' = (q_read q' + length vs') mod q_max_msg q'"
    using eq q vs by (simp add: mod_add_left_eq)
  show "spscq_wf q'"
    by (rule spscq_wfI [OF _ _ _ r _ _ w]) (use eq q vs s in auto)
  have "valid_slots q' = vs'"
    by (rule spscq_wfI [OF _ _ _ r _ _ w]) (use eq q vs s in auto)
  then show "spscq_abs q' = tl (spscq_abs q)"
    using q vs by (simp add: spscq_abs_def)
  show "q_max_msg q' = q_max_msg q" "q_max_msg_sz q' = q_max_msg_sz q" "q_delay q' = q_delay q"
    using eq by simp_all
qed

lemma request_cases:
  assumes "spscq_wf q" "0 \<le> q_delay q"
  shows "rtdal_itfspscq_request q =
    (if length (spscq_abs q) = q_max_msg q then Ret (0, None) else Ret (1, Some (q_write q)))"
  using write_slot [OF assms(1)] assms(2)
  by (simp add: rtdal_itfspscq_request_def spscq_is_full_def is_valid_def)

lemma pop_cases:
  assumes wf: "spscq_wf q" and d: "0 \<le> q_delay q"
  shows "rtdal_itfspscq_pop now ts q = (case spscq_abs q of
      [] \<Rightarrow> Ret (0, None)
    | (t, m) # _ \<Rightarrow> if now < t then Ret (0, None) else Ret (1, Some (q_read q, int (length m))))"
proof (cases "valid_slots q")
  case Nil
  with read_slot_free [OF wf] d show ?thesis
    by (simp add: spscq_abs_def rtdal_itfspscq_pop_def spscq_is_empty_def is_valid_def)
next
  case (Cons v vs)
  have "v \<in> set (ring (q_packets q) (q_read q))"
    using Cons by (metis list.set_intros(1) set_takeWhileD valid_slots_def)
  then have ok: "slot_ok (q_max_msg_sz q) v" using wf by (simp add: spscq_wf_def)
  have val: "is_valid v" using Cons by (metis list.set_intros(1) set_takeWhileD valid_slots_def)
  have "int (length (take (nat (rp_len v)) (rp_data v))) = rp_len v"
    using ok val by (auto simp: slot_ok_def min_def)
  then show ?thesis
    using Cons d val read_slot [OF wf Cons]
    by (simp add: spscq_abs_def slot_msg_def rtdal_itfspscq_pop_def spscq_is_empty_def is_valid_def)
qed

lemma read_data:
  assumes wf: "spscq_wf q" and "spscq_abs q = (t, m) # rest"
  shows "take (length m) (rp_data (q_packets q ! q_read q)) = m"
proof -
  obtain v vs where v: "valid_slots q = v # vs" "slot_msg v = (t, m)"
    using assms(2) by (auto simp: spscq_abs_def)
  then show ?thesis
    using read_slot [OF wf v(1)] by (auto simp: slot_msg_def min_def)
qed

lemma new_wf:
  assumes "rtdal_itfspscq_new i True n sz d = (Some q, i')" "0 < n"
  shows "spscq_wf q" "spscq_abs q = []" "q_max_msg q = n" "q_max_msg_sz q = sz" "q_delay q = d"
proof -
  have q: "q_packets q = replicate n (r_pkt_zero sz)" "q_read q = 0" "q_write q = 0"
    "q_max_msg q = n" "q_max_msg_sz q = sz" "q_delay q = d"
    using assms(1) by (auto simp: rtdal_itfspscq_new_def)
  have r: "ring (q_packets q) (q_read q) = [] @ replicate n (r_pkt_zero sz)" by (simp add: q ring_def)
  have w: "q_write q = (q_read q + length []) mod q_max_msg q" by (simp add: q)
  have wf: "spscq_wf q" and v: "valid_slots q = []"
    by (rule spscq_wfI [OF _ _ _ r _ _ w]; use q assms in \<open>simp add: is_valid_def slot_ok_def r_pkt_zero_def\<close>)+
  show "spscq_wf q" by (rule wf)
  show "spscq_abs q = []" using v by (simp add: spscq_abs_def)
  show "q_max_msg q = n" "q_max_msg_sz q = sz" "q_delay q = d" by (simp_all add: q)
qed

lemma reset_wf:
  assumes "spscq_wf q" "q' = snd (rtdal_itfspscq_reset q)"
  shows "spscq_wf q'" "spscq_abs q' = []"
proof -
  have q: "q_packets q' = map (\<lambda>s. s\<lparr>rp_valid := 0\<rparr>) (q_packets q)" "q_read q' = 0" "q_write q' = 0"
    "q_max_msg q' = q_max_msg q" "q_max_msg_sz q' = q_max_msg_sz q"
    using assms(2) by (auto simp: rtdal_itfspscq_reset_def)
  have r: "ring (q_packets q') (q_read q') = [] @ map (\<lambda>s. s\<lparr>rp_valid := 0\<rparr>) (q_packets q)"
    by (simp add: q ring_def)
  have w: "q_write q' = (q_read q' + length []) mod q_max_msg q'" by (simp add: q)
  have wf: "spscq_wf q'" and v: "valid_slots q' = []"
    by (rule spscq_wfI [OF _ _ _ r _ _ w];
        use q assms(1) in \<open>auto simp: is_valid_def slot_ok_def spscq_wf_def\<close>)+
  show "spscq_wf q'" by (rule wf)
  show "spscq_abs q' = []" using v by (simp add: spscq_abs_def)
qed

section \<open>The queue contract\<close>

text \<open>What a module may rely on when it sends and receives through an interface.\<close>

locale delay_queue =
  fixes inv :: "'q \<Rightarrow> bool" and abs :: "'q \<Rightarrow> (int \<times> bytes) list" and cap :: "'q \<Rightarrow> nat"
    and msz :: "'q \<Rightarrow> nat" and delay :: "'q \<Rightarrow> int"
    and send :: "int \<Rightarrow> bytes \<Rightarrow> 'q \<Rightarrow> (int \<times> 'q) outcome"
    and recv :: "int \<Rightarrow> nat \<Rightarrow> 'q \<Rightarrow> (int \<times> bytes \<times> 'q) outcome"
  assumes send_ok: "inv q \<Longrightarrow> m \<noteq> [] \<Longrightarrow> length m \<le> msz q \<Longrightarrow> length (abs q) < cap q \<Longrightarrow>
      \<exists>q'. send now m q = Ret (1, q') \<and> inv q' \<and> abs q' = abs q @ [(now + delay q, m)]
        \<and> cap q' = cap q \<and> msz q' = msz q \<and> delay q' = delay q"
    and send_full: "inv q \<Longrightarrow> length m \<le> msz q \<Longrightarrow> length (abs q) = cap q \<Longrightarrow> send now m q = Ret (0, q)"
    and send_large: "inv q \<Longrightarrow> msz q < length m \<Longrightarrow> send now m q = Ret (-1, q)"
    and recv_ok: "inv q \<Longrightarrow> abs q = (t, m) # rest \<Longrightarrow> t \<le> now \<Longrightarrow> length m \<le> len \<Longrightarrow>
      \<exists>q'. recv now len q = Ret (int (length m), m, q') \<and> inv q' \<and> abs q' = rest
        \<and> cap q' = cap q \<and> msz q' = msz q \<and> delay q' = delay q"
    and recv_none: "inv q \<Longrightarrow> abs q = [] \<or> now < fst (hd (abs q)) \<Longrightarrow> recv now len q = Ret (0, [], q)"
    and abs_bound: "inv q \<Longrightarrow> length (abs q) \<le> cap q"
begin

lemma send_all_ok:
  assumes "inv q" "\<forall>m \<in> set ms. m \<noteq> [] \<and> length m \<le> msz q" "length (abs q) + length ms \<le> cap q"
  shows "\<exists>q'. send_all (send now) ms q = Some q' \<and> inv q'
     \<and> abs q' = abs q @ map (\<lambda>m. (now + delay q, m)) ms \<and> msz q' = msz q"
  using assms
proof (induction ms arbitrary: q)
  case (Cons m ms)
  obtain q1 where q1: "send now m q = Ret (1, q1)" "inv q1" "abs q1 = abs q @ [(now + delay q, m)]"
    "cap q1 = cap q" "msz q1 = msz q" "delay q1 = delay q"
    using send_ok [of q m now] Cons.prems by auto
  then show ?case using Cons.IH [of q1] Cons.prems by simp
qed simp

lemma recv_all_ok:
  assumes "inv q" "abs q = map (\<lambda>m. (t, m)) ms" "\<forall>m \<in> set ms. m \<noteq> [] \<and> length m \<le> len" "t \<le> now"
  shows "\<exists>q'. recv_all (recv now len) (length ms) q = Some (ms, q') \<and> inv q' \<and> abs q' = []"
  using assms
proof (induction ms arbitrary: q)
  case (Cons m ms)
  obtain q1 where "recv now len q = Ret (int (length m), m, q1)" "inv q1" "abs q1 = map (\<lambda>m. (t, m)) ms"
    using recv_ok [of q t m "map (\<lambda>m. (t, m)) ms" now len] Cons.prems by auto
  then show ?case using Cons.IH [of q1] Cons.prems by auto
qed simp

lemma batch_roundtrip:
  assumes "inv q" "abs q = []" "\<forall>m \<in> set ms. m \<noteq> [] \<and> length m \<le> msz q" "length ms \<le> cap q"
    and "msz q \<le> len" "now + delay q \<le> later"
  shows "\<exists>q1 q2. send_all (send now) ms q = Some q1
     \<and> recv_all (recv later len) (length ms) q1 = Some (ms, q2) \<and> abs q2 = []"
proof -
  obtain q1 where q1: "send_all (send now) ms q = Some q1" "inv q1" "abs q1 = map (\<lambda>m. (now + delay q, m)) ms"
    using send_all_ok [of q ms now] assms by auto
  moreover have "\<forall>m \<in> set ms. m \<noteq> [] \<and> length m \<le> len" using assms by auto
  ultimately show ?thesis
    using recv_all_ok [of q1 "now + delay q" ms len later] assms by auto
qed

lemma early_recv_none:
  assumes "inv q" "abs q = []" "m \<noteq> []" "length m \<le> msz q" "0 < cap q" "early < now + delay q"
  shows "\<exists>q1. send now m q = Ret (1, q1) \<and> recv early len q1 = Ret (0, [], q1)"
proof -
  obtain q1 where "send now m q = Ret (1, q1)" "inv q1" "abs q1 = [(now + delay q, m)]"
    using send_ok [of q m now] assms by auto
  then show ?thesis using recv_none [of q1 early len] assms by auto
qed

end

interpretation spq: delay_queue spscq_nb spscq_abs q_max_msg q_max_msg_sz q_delay
  rtdal_itfspscq_send "\<lambda>now len q. rtdal_itfspscq_recv now now len q"
proof
  fix q and m :: bytes and now assume q: "spscq_nb q" and m: "length m \<le> q_max_msg_sz q"
  then have wf: "spscq_wf q" "0 \<le> q_delay q" by (auto simp: spscq_nb_def)
  show "\<exists>q'. rtdal_itfspscq_send now m q = Ret (1, q') \<and> spscq_nb q'
      \<and> spscq_abs q' = spscq_abs q @ [(now + q_delay q, m)]
      \<and> q_max_msg q' = q_max_msg q \<and> q_max_msg_sz q' = q_max_msg_sz q \<and> q_delay q' = q_delay q"
    if "m \<noteq> []" "length (spscq_abs q) < q_max_msg q"
    using fill_push [OF wf(1) that(2) that(1) m refl] fill_push_eq [OF wf(1) that(1)] wf m that
    by (auto simp: rtdal_itfspscq_send_def request_cases spscq_nb_def)
  show "rtdal_itfspscq_send now m q = Ret (0, q)" if "length (spscq_abs q) = q_max_msg q"
    using that wf m by (simp add: rtdal_itfspscq_send_def request_cases)
next
  fix q :: rtdal_itfspscq_t and m :: bytes and now assume "q_max_msg_sz q < length m"
  then show "rtdal_itfspscq_send now m q = Ret (-1, q)" by (simp add: rtdal_itfspscq_send_def)
next
  fix q t now len and m :: bytes and rest
  assume q: "spscq_nb q" and a: "spscq_abs q = (t, m) # rest" and "t \<le> now" "length m \<le> len"
  moreover from q have wf: "spscq_wf q" "0 \<le> q_delay q" by (auto simp: spscq_nb_def)
  ultimately show "\<exists>q'. rtdal_itfspscq_recv now now len q = Ret (int (length m), m, q') \<and> spscq_nb q' \<and> spscq_abs q' = rest
        \<and> q_max_msg q' = q_max_msg q \<and> q_max_msg_sz q' = q_max_msg_sz q \<and> q_delay q' = q_delay q"
    using release [OF wf(1) _ refl] read_data [OF wf(1) a]
    by (simp add: rtdal_itfspscq_recv_def pop_cases spscq_nb_def)
next
  fix q now len
  assume q: "spscq_nb q" and "spscq_abs q = [] \<or> now < fst (hd (spscq_abs q))"
  then show "rtdal_itfspscq_recv now now len q = Ret (0, [], q)"
    by (cases "spscq_abs q") (auto simp: rtdal_itfspscq_recv_def pop_cases spscq_nb_def)
next
  fix q assume "spscq_nb q"
  then show "length (spscq_abs q) \<le> q_max_msg q" by (simp add: spscq_nb_def valid_slots_le)
qed

section \<open>Producer and consumer\<close>

lemma sys_inv_init: "spscq_wf q \<Longrightarrow> spscq_abs q = [] \<Longrightarrow> sys_inv (q_delay q) (spscq_init q now)"
  by (simp add: sys_inv_def spscq_init_def sys_pending_def)

lemma sys_inv_push:
  assumes inv: "sys_inv d s" and r: "sys_requested s" and m: "m \<noteq> []" "length m \<le> q_max_msg_sz (sys_q s)"
  shows "sys_inv d (s\<lparr>sys_q := snd (rtdal_itfspscq_push (sys_now s) (int (length m))
                                     (fill_slot (q_write (sys_q s)) m (sys_q s))),
                    sys_requested := False, sys_sent := sys_sent s @ [(sys_now s, m)]\<rparr>)"
proof -
  have wf: "spscq_wf (sys_q s)" and room: "length (spscq_abs (sys_q s)) < q_max_msg (sys_q s)"
    using inv r by (auto simp: sys_inv_def)
  note p = fill_push [OF wf room m refl, of "sys_now s"]
  show ?thesis
    using inv p by (auto simp: sys_inv_def sys_pending_def nth_append)
qed

lemma sys_inv_pop:
  assumes inv: "sys_inv d s" and d: "0 \<le> d" and np: "\<not> sys_popped s"
    and pop: "rtdal_itfspscq_pop (sys_now s) ts (sys_q s) = Ret (1, Some (i, len))"
  shows "sys_inv d (s\<lparr>sys_popped := True,
      sys_rcvd := sys_rcvd s @ [(sys_now s, take (nat len) (rp_data (q_packets (sys_q s) ! i)))]\<rparr>)"
proof -
  have wf: "spscq_wf (sys_q s)" "0 \<le> q_delay (sys_q s)" using inv d by (auto simp: sys_inv_def)
  obtain t m rest where a: "spscq_abs (sys_q s) = (t, m) # rest" and t: "t \<le> sys_now s"
      and i: "i = q_read (sys_q s)" "len = int (length m)"
    using pop by (auto simp: pop_cases [OF wf] split: list.splits if_splits)
  have data: "take (nat len) (rp_data (q_packets (sys_q s) ! i)) = m"
    using read_data [OF wf(1) a] i by simp
  let ?n = "length (sys_rcvd s)"
  have pend: "map (\<lambda>(t, m). (t + d, m)) (drop ?n (sys_sent s)) = (t, m) # rest"
    using inv np a by (simp add: sys_inv_def sys_pending_def)
  then have lt: "?n < length (sys_sent s)" by (metis drop_eq_Nil2 list.discI list.simps(8) not_le_imp_less)
  then have dr: "drop ?n (sys_sent s) = sys_sent s ! ?n # drop (Suc ?n) (sys_sent s)"
    by (simp add: Cons_nth_drop_Suc)
  then have e: "fst (sys_sent s ! ?n) + d = t" "snd (sys_sent s ! ?n) = m"
      "map (\<lambda>(t, m). (t + d, m)) (drop (Suc ?n) (sys_sent s)) = rest"
    using pend by (auto simp: case_prod_beta)
  show ?thesis
    using inv np a t data lt e by (auto simp: sys_inv_def sys_pending_def nth_append less_Suc_eq)
qed

lemma sys_inv_step:
  assumes "spscq_step s s'" "sys_inv d s" "0 \<le> d"
  shows "sys_inv d s'"
  using assms
proof (cases rule: spscq_step.cases)
  case step_tick
  then show ?thesis using assms by (simp add: sys_inv_def sys_pending_def)
next
  case (step_request i)
  have "spscq_wf (sys_q s)" "0 \<le> q_delay (sys_q s)" using assms by (auto simp: sys_inv_def)
  moreover from this have "length (spscq_abs (sys_q s)) \<noteq> q_max_msg (sys_q s)"
    using step_request by (auto simp: request_cases split: if_splits)
  ultimately show ?thesis
    using step_request assms valid_slots_le [of "sys_q s"] by (auto simp: sys_inv_def sys_pending_def)
next
  case (step_push m)
  then show ?thesis using sys_inv_push assms by simp
next
  case (step_pop ts i len)
  then show ?thesis using sys_inv_pop assms by simp
next
  case step_release
  then have "spscq_wf (sys_q s)" "spscq_abs (sys_q s) \<noteq> []" using assms by (auto simp: sys_inv_def)
  note r = release [OF this refl]
  show ?thesis
    using step_release assms r by (auto simp: sys_inv_def sys_pending_def)
qed

lemma sys_inv_reachable:
  assumes "spscq_step\<^sup>*\<^sup>* s s'" "sys_inv d s" "0 \<le> d"
  shows "sys_inv d s'"
  using assms by (induction rule: rtranclp_induct) (auto intro: sys_inv_step)

lemma spscq_step_cap: "spscq_step s s' \<Longrightarrow> q_max_msg (sys_q s') = q_max_msg (sys_q s)"
  by (erule spscq_step.cases)
    (simp_all add: rtdal_itfspscq_push_def fill_slot_def rtdal_itfspscq_release_def)

section \<open>Properties\<close>

definition ex_queue :: rtdal_itfspscq_t where
  "ex_queue = the (fst (rtdal_itfspscq_new 1 True 2 4 3))"

lemma ex_queue_new: "rtdal_itfspscq_new 1 True 2 4 3 = (Some ex_queue, 2)"
  by (simp add: ex_queue_def rtdal_itfspscq_new_def)

lemmas ex_queue_facts = new_wf [OF ex_queue_new, simplified]

text \<open>C2. Whatever the interleaving of a producer (request, fill, push), a consumer (pop, release)
  and the clock on a queue with a non-negative delay: the messages received so far are, in order
  and byte for byte, a prefix of the messages sent, the rest are exactly the messages in the
  queue, never more than max_msg, and no message was received before its sending slot plus the
  delay.\<close>

theorem spscq_interleaving:
  assumes "rtdal_itfspscq_new i True n sz d = (Some q, i')" "0 < n" "0 \<le> d"
    and "spscq_step\<^sup>*\<^sup>* (spscq_init q t) s"
  shows "map snd (sys_sent s) = map snd (sys_rcvd s) @ map snd (sys_pending s)
     \<and> length (sys_pending s) \<le> n
     \<and> (\<forall>k < length (sys_rcvd s). fst (sys_sent s ! k) + d \<le> fst (sys_rcvd s ! k))"
proof -
  note new = new_wf [OF assms(1,2)]
  have "sys_inv (q_delay q) (spscq_init q t)" by (rule sys_inv_init) (simp_all add: new)
  then have inv: "sys_inv d s" using sys_inv_reachable [OF assms(4)] assms(3) new by simp
  have "q_max_msg (sys_q s) = q_max_msg (sys_q (spscq_init q t))"
    using assms(4) by (induction rule: rtranclp_induct) (simp_all add: spscq_step_cap)
  then have cap: "q_max_msg (sys_q s) = n" using new by (simp add: spscq_init_def)
  let ?k = "length (sys_rcvd s)"
  have "map snd (sys_rcvd s) = map snd (take ?k (sys_sent s))"
    using inv by (intro nth_equalityI) (auto simp: sys_inv_def)
  moreover have "map snd (drop ?k (sys_sent s)) = map snd (sys_pending s)"
  proof -
    have "map snd (map (\<lambda>(t, m). (t + d, m)) (drop ?k (sys_sent s))) = map snd (sys_pending s)"
      using inv by (simp add: sys_inv_def)
    then show ?thesis by (simp add: comp_def case_prod_beta)
  qed
  ultimately have "map snd (sys_sent s) = map snd (sys_rcvd s) @ map snd (sys_pending s)"
    by (metis append_take_drop_id map_append)
  moreover have "length (sys_pending s) \<le> n"
    using inv cap valid_slots_le [of "sys_q s"] by (auto simp: sys_inv_def sys_pending_def)
  ultimately show ?thesis using inv by (simp add: sys_inv_def)
qed

definition ex_run :: "spscq_sys" where
  "ex_run = (let s = (spscq_init ex_queue 0)\<lparr>sys_requested := True\<rparr> in
     s\<lparr>sys_q := snd (rtdal_itfspscq_push (sys_now s) (int (length [9 :: byte])) (fill_slot (q_write (sys_q s)) [9] (sys_q s))),
       sys_requested := False, sys_sent := sys_sent s @ [(sys_now s, [9])]\<rparr>)"

lemma ex_run_reachable: "spscq_step\<^sup>*\<^sup>* (spscq_init ex_queue 0) ex_run"
proof -
  let ?s = "(spscq_init ex_queue 0)\<lparr>sys_requested := True\<rparr>"
  have 1: "spscq_step (spscq_init ex_queue 0) ?s"
    by (rule step_request [where i = 0])
      (simp_all add: spscq_init_def ex_queue_def rtdal_itfspscq_new_def rtdal_itfspscq_request_def
        spscq_is_full_def r_pkt_zero_def)
  have 2: "spscq_step ?s ex_run"
    unfolding ex_run_def Let_def by (rule step_push) (simp_all add: spscq_init_def ex_queue_facts)
  from 1 2 show ?thesis by (meson converse_rtranclp_into_rtranclp r_into_rtranclp)
qed

theorem spscq_interleaving_witness:
  "map snd (sys_sent ex_run) = map snd (sys_rcvd ex_run) @ map snd (sys_pending ex_run)"
  using spscq_interleaving [OF ex_queue_new _ _ ex_run_reachable] by simp

text \<open>A batch of non-empty messages that fits an empty non-blocking queue is accepted whole, and
  as many receive calls, made at least the delay later, return the same messages in the same
  order and empty the queue.\<close>

theorem spscq_batch:
  assumes "spscq_nb q" "spscq_abs q = []" "\<forall>m \<in> set ms. m \<noteq> [] \<and> length m \<le> q_max_msg_sz q"
    "length ms \<le> q_max_msg q" "q_max_msg_sz q \<le> len" "now + q_delay q \<le> later"
  shows "\<exists>q1 q2. send_all (rtdal_itfspscq_send now) ms q = Some q1
     \<and> recv_all (\<lambda>q. rtdal_itfspscq_recv later later len q) (length ms) q1 = Some (ms, q2) \<and> spscq_abs q2 = []"
  using spq.batch_roundtrip [OF assms] by simp

theorem spscq_batch_witness:
  "\<exists>q1 q2. send_all (rtdal_itfspscq_send 5) [[1, 2], [3]] ex_queue = Some q1
     \<and> recv_all (\<lambda>q. rtdal_itfspscq_recv 8 8 4 q) (length [[1, 2], [3 :: byte]]) q1 = Some ([[1, 2], [3]], q2)
     \<and> spscq_abs q2 = []"
  by (rule spscq_batch) (simp_all add: spscq_nb_def ex_queue_facts)

text \<open>A call of send on a non-blocking queue has exactly three outcomes: -1 for a message larger
  than the slots, 0 when every slot is taken, both without effect, and 1 otherwise, with the
  message appended behind the others and readable from the sending slot plus the delay on.\<close>

theorem spscq_send_cases:
  assumes "spscq_nb q" "m \<noteq> []"
  shows "(q_max_msg_sz q < length m \<and> rtdal_itfspscq_send now m q = Ret (-1, q))
     \<or> (length m \<le> q_max_msg_sz q \<and> length (spscq_abs q) = q_max_msg q \<and> rtdal_itfspscq_send now m q = Ret (0, q))
     \<or> (length m \<le> q_max_msg_sz q \<and> length (spscq_abs q) < q_max_msg q
        \<and> (\<exists>q'. rtdal_itfspscq_send now m q = Ret (1, q') \<and> spscq_nb q'
               \<and> spscq_abs q' = spscq_abs q @ [(now + q_delay q, m)]))"
  using spq.send_large [OF assms(1), of m now] spq.send_full [OF assms(1), of m now] spq.send_ok [OF assms, of now]
    spq.abs_bound [OF assms(1)]
  by (meson le_neq_implies_less leI)

theorem spscq_send_cases_witness:
  "\<exists>q'. rtdal_itfspscq_send 5 [9] ex_queue = Ret (1, q') \<and> spscq_abs q' = [(8, [9])]"
  using spscq_send_cases [of ex_queue "[9]" 5] by (auto simp: spscq_nb_def ex_queue_facts)

text \<open>On a blocking queue (delay -1) that never carried a message, pop does not wait: the test of
  spscq_is_empty demands an invalid packet and a time stamp in the future together, so with any
  non-negative time stamp pop returns 1 with a packet of length 0, and releasing it leaves the
  queue ill-formed: the read index has overtaken the write index.\<close>

theorem spscq_blocking_pop_empty:
  "\<exists>q. rtdal_itfspscq_new 1 True 2 4 (-1) = (Some q, 2)
     \<and> rtdal_itfspscq_pop 0 0 q = Ret (1, Some (0, 0))
     \<and> \<not> spscq_wf (snd (rtdal_itfspscq_release q))"
  by (simp add: rtdal_itfspscq_new_def rtdal_itfspscq_pop_def spscq_is_empty_def r_pkt_zero_def
      rtdal_itfspscq_release_def ring_next_def spscq_wf_def valid_slots_def ring_def is_valid_def numeral_2_eq_2)

end
