(* ===== verification/Crc.thy ===== *)
theory Crc
  imports Prelude
begin

text \<open>
  Cyclic redundancy check of the gen_crc module: modrep_osld/gen_crc/src/crc.c.

  Unsigned integers are 32-bit words, the bit buffer is a byte per bit as in the code. The
  code consumes half a CRC length at a time; the reference crc_bits consumes one bit at a
  time. For a CRC of 16 bits, the length every application file configures, the two agree
  and a pasted CRC checks to zero.
\<close>

unbundle bit_operations_syntax

section \<open>The code\<close>

fun icrc1_loop :: "nat \<Rightarrow> nat \<Rightarrow> 32 word \<Rightarrow> 32 word \<Rightarrow> 32 word" where
  "icrc1_loop 0 long_crc poly tmp = tmp"
| "icrc1_loop (Suc n) long_crc poly tmp = icrc1_loop n long_crc poly
     (if tmp AND push_bit (long_crc - 1) 1 \<noteq> 0 then push_bit 1 tmp XOR poly else push_bit 1 tmp)"

definition icrc1 :: "32 word \<Rightarrow> 16 word \<Rightarrow> nat \<Rightarrow> nat \<Rightarrow> 32 word \<Rightarrow> 32 word" where
  "icrc1 crc onech long_crc left_shift poly =
     icrc1_loop left_shift long_crc poly (crc XOR push_bit (long_crc div 2) (ucast onech))"

text \<open>The inner loop of icrc: the next bits of the buffer, most significant first.\<close>

definition icrc_data :: "nat \<Rightarrow> bytes \<Rightarrow> 32 word" where
  "icrc_data h chunk = fold (\<lambda>i data. if chunk ! i \<noteq> 0 then data OR push_bit (h - 1 - i) 1 else data)
     [0..<length chunk] 0"

text \<open>cword<<long_crc>>long_crc\<close>

definition icrc_mask :: "nat \<Rightarrow> 32 word \<Rightarrow> 32 word" where
  "icrc_mask long_crc w = drop_bit long_crc (push_bit long_crc w)"

definition icrc_round :: "nat \<Rightarrow> 32 word \<Rightarrow> bytes \<Rightarrow> 32 word \<Rightarrow> 32 word" where
  "icrc_round long_crc poly chunk cword = icrc_mask long_crc
     (icrc1 (icrc_mask long_crc cword) (ucast (icrc_data (long_crc div 2) chunk)) long_crc (length chunk) poly)"

text \<open>The outer loop, on the bits of the buffer that are left.\<close>

function icrc_chunks :: "nat \<Rightarrow> 32 word \<Rightarrow> bytes \<Rightarrow> 32 word \<Rightarrow> 32 word" where
  "icrc_chunks long_crc poly bits cword =
     (let cword' = icrc_round long_crc poly (take (long_crc div 2) bits) cword
      in if long_crc div 2 = 0 \<or> length bits \<le> long_crc div 2 then cword'
         else icrc_chunks long_crc poly (drop (long_crc div 2) bits) cword')"
  by pat_completeness auto
termination
  by (relation "measure (\<lambda>(l, p, bits, c). length bits)") auto

declare icrc_chunks.simps [simp del]

definition icrc_paste :: "nat \<Rightarrow> 32 word \<Rightarrow> bytes" where
  "icrc_paste long_crc cword = map (\<lambda>i. if bit (push_bit (32 - long_crc + i) cword) 31 then 1 else 0) [0..<long_crc]"

text \<open>Result and buffer. With len = 0 or a CRC shorter than two bits the loop of the code has no
  exit: no result; no result either where the buffer does not hold the len bits that are read or
  the CRC that is pasted.\<close>

definition icrc :: "32 word \<Rightarrow> bytes \<Rightarrow> nat \<Rightarrow> nat \<Rightarrow> 32 word \<Rightarrow> bool \<Rightarrow> (32 word \<times> bytes) option" where
  "icrc crc bufptr len long_crc poly paste_word =
     (if len = 0 \<or> long_crc div 2 = 0 then None
      else if length bufptr < len \<or> paste_word \<and> length bufptr < len + long_crc then None
      else let cword = icrc_chunks long_crc poly (take len bufptr) crc
           in Some (cword, if paste_word
                then take len bufptr @ icrc_paste long_crc cword @ drop (len + long_crc) bufptr
                else bufptr))"

section \<open>Reference: one bit at a time\<close>

definition crc_step :: "32 word \<Rightarrow> bool \<Rightarrow> 32 word \<Rightarrow> 32 word" where
  "crc_step poly b s = take_bit 16 (push_bit 1 s XOR (if bit s 15 \<noteq> b then poly else 0))"

definition crc_bits :: "32 word \<Rightarrow> bool list \<Rightarrow> 32 word \<Rightarrow> 32 word" where
  "crc_bits poly bs s = fold (crc_step poly) bs s"

definition to_bits :: "bytes \<Rightarrow> bool list" where
  "to_bits bs = map (\<lambda>b. b \<noteq> 0) bs"

text \<open>The bits of a list placed at positions 15, 14, ...\<close>

fun align :: "bool list \<Rightarrow> 32 word" where
  "align [] = 0"
| "align (b # bs) = (if b then set_bit 15 (drop_bit 1 (align bs)) else drop_bit 1 (align bs))"

section \<open>Lemmas\<close>

lemma bit_align: "bit (align bs) k \<longleftrightarrow> k \<le> 15 \<and> 15 - k < length bs \<and> bs ! (15 - k)"
proof (induction bs arbitrary: k)
  case (Cons b bs)
  have "bit (align (b # bs)) k \<longleftrightarrow> (b \<and> k = 15) \<or> bit (align bs) (Suc k)"
    by (auto simp: bit_set_bit_iff bit_drop_bit_eq)
  also have "\<dots> \<longleftrightarrow> k \<le> 15 \<and> 15 - k < length (b # bs) \<and> (b # bs) ! (15 - k)"
  proof (cases "k = 15")
    case False
    then have "15 - k = Suc (15 - Suc k) \<or> 15 < k" by arith
    with False show ?thesis by (auto simp: Cons.IH)
  qed (simp add: Cons.IH)
  finally show ?case .
qed simp

declare align.simps(2) [simp del]

lemma and_single_bit: "(w :: 32 word) AND push_bit 15 1 \<noteq> 0 \<longleftrightarrow> bit w 15"
  by (simp add: bit_iff_and_push_bit_not_eq_0)

lemma icrc1_loop_16:
  "icrc1_loop (Suc n) 16 poly tmp =
    icrc1_loop n 16 poly (if bit tmp 15 then push_bit 1 tmp XOR poly else push_bit 1 tmp)"
proof -
  have e: "(16 :: nat) - 1 = 15" by simp
  show ?thesis by (simp only: icrc1_loop.simps e and_single_bit)
qed

lemma take_bit_crc_step [simp]: "take_bit 16 (crc_step poly b s) = crc_step poly b s"
  by (simp add: crc_step_def)

text \<open>The state of the code's loop, on the low 16 bits, is the bit-serial state with the bits still
  to come on top.\<close>

lemma icrc1_loop_serial:
  assumes "take_bit 16 tmp = take_bit 16 s XOR align bs" "length bs \<le> 16"
  shows "take_bit 16 (icrc1_loop (length bs) 16 poly tmp) = crc_bits poly bs (take_bit 16 s)"
  using assms
proof (induction bs arbitrary: tmp s)
  case Nil
  then show ?case by (simp add: crc_bits_def)
next
  case (Cons b bs)
  let ?tmp = "if bit tmp 15 then push_bit 1 tmp XOR poly else push_bit 1 tmp"
  let ?s = "crc_step poly b (take_bit 16 s)"
  have top: "bit tmp 15 \<longleftrightarrow> bit (take_bit 16 s) 15 \<noteq> b"
  proof -
    have "bit tmp 15 = bit (take_bit 16 tmp) 15" by (simp add: bit_simps)
    also have "\<dots> \<longleftrightarrow> bit (take_bit 16 s) 15 \<noteq> b"
      by (simp only: Cons.prems(1) bit_xor_iff) (simp add: bit_align)
    finally show ?thesis .
  qed
  have low: "take_bit 16 (push_bit 1 tmp) = take_bit 16 (push_bit 1 (take_bit 16 s)) XOR align bs"
  proof (rule bit_eqI)
    fix k assume k: "possible_bit TYPE(32 word) k"
    show "bit (take_bit 16 (push_bit 1 tmp)) k = bit (take_bit 16 (push_bit 1 (take_bit 16 s)) XOR align bs) k"
    proof (cases k)
      case 0
      then show ?thesis using Cons.prems(2)
        by (simp only: bit_xor_iff bit_take_bit_iff bit_push_bit_iff bit_align) simp
    next
      case (Suc j)
      have "bit (take_bit 16 tmp) j = (bit (take_bit 16 s) j \<noteq> bit (align (b # bs)) j)"
        by (simp only: Cons.prems(1) bit_xor_iff)
      moreover have "bit (align (b # bs)) j = bit (align bs) k" if "j < 15"
      proof -
        have "15 - j = Suc (15 - k)" using Suc that by simp
        then show ?thesis using that by (simp add: bit_align Suc)
      qed
      ultimately show ?thesis
        using k Suc
        by (simp only: bit_xor_iff bit_take_bit_iff bit_push_bit_iff) (auto simp: bit_align)
    qed
  qed
  have "take_bit 16 ?tmp = take_bit 16 ?s XOR align bs"
    using top low by (auto simp: crc_step_def take_bit_xor ac_simps)
  from Cons.IH [OF this] Cons.prems(2) show ?case
    by (simp only: list.size(4) add_Suc_right add_0_right icrc1_loop_16 take_bit_crc_step)
      (simp add: crc_bits_def)
qed

lemma icrc_mask_16: "icrc_mask 16 w = take_bit 16 w"
  unfolding icrc_mask_def
  by (rule bit_eqI) (auto simp only: bit_drop_bit_eq bit_push_bit_iff bit_take_bit_iff comp_def, auto)

lemma bit_icrc_data_upt:
  assumes "n \<le> length chunk" "length chunk \<le> h" "h \<le> 32"
  shows "bit (fold (\<lambda>i data. if chunk ! i \<noteq> 0 then data OR push_bit (h - 1 - i) 1 else data) [0..<n] (0 :: 32 word)) k
    \<longleftrightarrow> k < h \<and> h - 1 - k < n \<and> chunk ! (h - 1 - k) \<noteq> 0"
  using assms
proof (induction n)
  case (Suc n)
  let ?d = "fold (\<lambda>i data. if chunk ! i \<noteq> 0 then data OR push_bit (h - 1 - i) 1 else data) [0..<n] (0 :: 32 word)"
  have "bit (push_bit (h - 1 - n) (1 :: 32 word)) k \<longleftrightarrow> k = h - 1 - n"
    using Suc.prems by (simp only: bit_push_bit_iff bit_1_iff) auto
  then have "bit (if chunk ! n \<noteq> 0 then ?d OR push_bit (h - 1 - n) 1 else ?d) k
      \<longleftrightarrow> bit ?d k \<or> (chunk ! n \<noteq> 0 \<and> k = h - 1 - n)"
    by (auto simp only: bit_or_iff split: if_split)
  also have "\<dots> \<longleftrightarrow> k < h \<and> h - 1 - k < Suc n \<and> chunk ! (h - 1 - k) \<noteq> 0"
  proof -
    have "k = h - 1 - n \<longleftrightarrow> k < h \<and> h - 1 - k = n" using Suc.prems by auto
    with Suc show ?thesis by (auto simp: less_Suc_eq)
  qed
  finally show ?case by simp
qed simp

lemma icrc_data_align:
  assumes "length chunk \<le> 8"
  shows "push_bit 8 (ucast (ucast (icrc_data 8 chunk) :: 16 word)) = align (to_bits chunk)"
proof (rule bit_eqI)
  fix k assume "possible_bit TYPE(32 word) k"
  then have k: "k < 32" by simp
  have d: "bit (icrc_data 8 chunk) n \<longleftrightarrow> n < 8 \<and> 7 - n < length chunk \<and> chunk ! (7 - n) \<noteq> 0" for n
    unfolding icrc_data_def using bit_icrc_data_upt [of "length chunk" chunk 8 n] assms by simp
  have e: "15 - k = 7 - (k - 8)" if "8 \<le> k" "k \<le> 15" using that by simp
  have "bit (push_bit 8 (ucast (ucast (icrc_data 8 chunk) :: 16 word)) :: 32 word) k
     \<longleftrightarrow> 8 \<le> k \<and> k - 8 < 16 \<and> bit (icrc_data 8 chunk) (k - 8)"
    using k by (simp only: bit_push_bit_iff bit_ucast_iff) auto
  also have "\<dots> \<longleftrightarrow> bit (align (to_bits chunk)) k"
    using assms e by (auto simp: d bit_align to_bits_def)
  finally show "bit (push_bit 8 (ucast (ucast (icrc_data 8 chunk) :: 16 word)) :: 32 word) k
     = bit (align (to_bits chunk)) k" .
qed

lemma take_bit_align [simp]: "take_bit 16 (align bs) = align bs"
  by (rule bit_eqI) (auto simp: bit_take_bit_iff bit_align)

lemma icrc_round_16:
  assumes "length chunk \<le> 8"
  shows "icrc_round 16 poly chunk cword = crc_bits poly (to_bits chunk) (take_bit 16 cword)"
proof -
  have h: "(16 :: nat) div 2 = 8" by simp
  let ?t = "take_bit 16 cword XOR align (to_bits chunk)"
  have "take_bit 16 ?t = take_bit 16 cword XOR align (to_bits chunk)" by (simp add: take_bit_xor)
  from icrc1_loop_serial [OF this] assms
  have "take_bit 16 (icrc1_loop (length chunk) 16 poly ?t) = crc_bits poly (to_bits chunk) (take_bit 16 cword)"
    by (simp add: to_bits_def)
  then show ?thesis
    unfolding icrc_round_def icrc1_def h icrc_data_align [OF assms] icrc_mask_16 .
qed

lemma take_bit_crc_bits [simp]: "take_bit 16 s = s \<Longrightarrow> take_bit 16 (crc_bits poly bs s) = crc_bits poly bs s"
  by (induction bs arbitrary: s) (simp_all add: crc_bits_def)

lemma icrc_chunks_16:
  "icrc_chunks 16 poly bits cword = crc_bits poly (to_bits bits) (take_bit 16 cword)"
proof (induction bits arbitrary: cword rule: length_induct)
  case (1 bits)
  have h: "(16 :: nat) div 2 = 8" by simp
  have r: "icrc_round 16 poly (take 8 bits) cword = crc_bits poly (to_bits (take 8 bits)) (take_bit 16 cword)"
    by (rule icrc_round_16) simp
  show ?case
  proof (cases "length bits \<le> 8")
    case True
    then show ?thesis using r by (subst icrc_chunks.simps) (simp add: h)
  next
    case False
    then have "length (drop 8 bits) < length bits" by simp
    from "1.IH" [rule_format, OF this]
    have "icrc_chunks 16 poly bits cword
        = crc_bits poly (to_bits (drop 8 bits)) (crc_bits poly (to_bits (take 8 bits)) (take_bit 16 cword))"
      using False r by (subst icrc_chunks.simps) (simp add: h)
    also have "\<dots> = crc_bits poly (to_bits (take 8 bits) @ to_bits (drop 8 bits)) (take_bit 16 cword)"
      by (simp add: crc_bits_def)
    finally show ?thesis by (simp add: to_bits_def flip: map_append)
  qed
qed

text \<open>Feeding a register its own bits, most significant first, empties it.\<close>

lemma crc_bits_own_top:
  assumes s: "take_bit 16 s = s" and "j \<le> 16"
  shows "crc_bits poly (map (\<lambda>i. bit s (15 - i)) [0..<j]) s = take_bit 16 (push_bit j s)"
  using assms(2)
proof (induction j)
  case 0
  then show ?case by (simp add: crc_bits_def s)
next
  case (Suc j)
  let ?t = "take_bit 16 (push_bit j s)"
  have "bit ?t 15 = bit s (15 - j)"
    using Suc.prems by (simp only: bit_take_bit_iff bit_push_bit_iff) auto
  then have "crc_step poly (bit s (15 - j)) ?t = take_bit 16 (push_bit 1 ?t)"
    unfolding crc_step_def by (simp only: simp_thms if_False xor.right_neutral)
  also have "\<dots> = take_bit 16 (push_bit (Suc j) s)"
    by (rule bit_eqI) (simp only: bit_take_bit_iff bit_push_bit_iff, auto)
  finally show ?case
    using Suc by (simp add: crc_bits_def)
qed

lemma crc_bits_own:
  assumes "take_bit 16 s = s"
  shows "crc_bits poly (map (\<lambda>i. bit s (15 - i)) [0..<16]) s = 0"
proof -
  have "take_bit 16 (push_bit 16 s) = 0"
    by (rule bit_eqI) (simp only: bit_take_bit_iff bit_push_bit_iff, auto)
  then show ?thesis using crc_bits_own_top [OF assms, of 16 poly] by simp
qed

lemma to_bits_paste: "to_bits (icrc_paste 16 s) = map (\<lambda>i. bit s (15 - i)) [0..<16]"
proof -
  have "bit (push_bit (32 - 16 + i) s) 31 = bit s (15 - i)" if "i < 16" for i
    using that by (simp only: bit_push_bit_iff) auto
  then show ?thesis by (simp add: to_bits_def icrc_paste_def del: upt_Suc)
qed

lemma crc_bits_append: "crc_bits poly (xs @ ys) s = crc_bits poly ys (crc_bits poly xs s)"
  by (simp add: crc_bits_def)

lemma icrc_mask_24: "icrc_mask 24 w < 256"
proof -
  have "icrc_mask 24 w = take_bit 8 w"
    unfolding icrc_mask_def
    by (rule bit_eqI) (auto simp only: bit_drop_bit_eq bit_push_bit_iff bit_take_bit_iff comp_def, auto)
  moreover have "take_bit 8 (unat w) < 256"
    using take_bit_nat_less_exp [of 8 "unat w"] by simp
  ultimately show ?thesis
    by (simp only: word_less_nat_alt unsigned_take_bit_eq) simp
qed

lemma icrc_16: "0 < len \<Longrightarrow> len \<le> length buf \<Longrightarrow> (paste \<longrightarrow> len + 16 \<le> length buf) \<Longrightarrow> icrc 0 buf len 16 poly paste =
   (let c = crc_bits poly (to_bits (take len buf)) 0
    in Some (c, if paste then take len buf @ icrc_paste 16 c @ drop (len + 16) buf else buf))"
  by (auto simp: icrc_def icrc_chunks_16 Let_def)

text \<open>With an odd polynomial one step of the register loses no information.\<close>

lemma bit_crc_step: "bit (crc_step poly b u) k \<longleftrightarrow>
    k < 16 \<and> ((1 \<le> k \<and> bit u (k - 1)) \<noteq> ((bit u 15 \<noteq> b) \<and> bit poly k))"
  by (simp only: crc_step_def bit_take_bit_iff bit_xor_iff bit_push_bit_iff) auto

lemma crc_step_inj:
  assumes odd: "bit poly 0" and s: "take_bit 16 s = s" "take_bit 16 t = t"
    and eq: "crc_step poly b s = crc_step poly b t"
  shows "s = t"
proof -
  note b = bit_crc_step [of poly b]
  have top: "bit s 15 = bit t 15"
    using b [of s 0] b [of t 0] odd eq by auto
  show ?thesis
  proof (rule bit_eqI)
    fix k assume "possible_bit TYPE(32 word) k"
    show "bit s k = bit t k"
    proof (cases "k < 15")
      case True
      then show ?thesis using b [of s "Suc k"] b [of t "Suc k"] top eq by auto
    next
      case False
      then have "k = 15 \<or> 16 \<le> k" by arith
      then show ?thesis
        using top bit_take_bit_iff [of 16 s k] bit_take_bit_iff [of 16 t k] s by auto
    qed
  qed
qed

lemma crc_bits_inj:
  assumes "bit poly 0" "take_bit 16 s = s" "take_bit 16 t = t" "crc_bits poly bs s = crc_bits poly bs t"
  shows "s = t"
  using assms(2-4)
proof (induction bs arbitrary: s t)
  case (Cons b bs)
  then have "crc_step poly b s = crc_step poly b t" by (simp add: crc_bits_def)
  then show ?case using crc_step_inj [OF assms(1)] Cons.prems by blast
qed (simp add: crc_bits_def)

lemma crc_bits_flip:
  assumes odd: "bit poly 0" and s: "take_bit 16 s = s"
  shows "crc_bits poly (xs @ b # ys) s \<noteq> crc_bits poly (xs @ (\<not> b) # ys) s"
proof
  let ?u = "crc_bits poly xs s"
  assume "crc_bits poly (xs @ b # ys) s = crc_bits poly (xs @ (\<not> b) # ys) s"
  then have "crc_bits poly ys (crc_step poly b ?u) = crc_bits poly ys (crc_step poly (\<not> b) ?u)"
    by (simp add: crc_bits_def)
  then have "crc_step poly b ?u = crc_step poly (\<not> b) ?u"
    by (rule crc_bits_inj [OF odd take_bit_crc_step take_bit_crc_step])
  then show False
    using odd bit_crc_step [of poly b ?u 0] bit_crc_step [of poly "\<not> b" ?u 0] by auto
qed

section \<open>Properties\<close>

text \<open>For a 16-bit CRC the two-level loop of icrc, which consumes eight bits per round, computes
  the bit-serial shift register over the whole message, for every polynomial and start value.\<close>

theorem icrc_serial:
  assumes "0 < len" "len + 16 \<le> length buf"
  shows "map_option fst (icrc crc buf len 16 poly paste) = Some (crc_bits poly (to_bits (take len buf)) (take_bit 16 crc))"
  using assms by (simp add: icrc_def icrc_chunks_16 Let_def)

theorem icrc_serial_witness:
  "map_option fst (icrc 0 ([1, 0, 1] @ replicate 16 0) 3 16 0x11021 True) = Some (crc_bits 0x11021 (to_bits [1, 0, 1]) (take_bit 16 0))"
  using icrc_serial [where len = 3 and crc = 0 and buf = "[1, 0, 1] @ replicate 16 0" and poly = "0x11021" and paste = True] by simp

text \<open>C34. icrc pastes its 16-bit CRC into a buffer with room for it: it returns, the message is left unchanged and
  followed by the 16 bits, and icrc over message and CRC, as the receiving module runs it, gives zero.\<close>

theorem icrc_check_zero:
  assumes "0 < len" "len + 16 \<le> length buf"
  shows "\<exists>c buf'. icrc 0 buf len 16 poly True = Some (c, buf') \<and> length buf' = length buf \<and> take len buf' = take len buf
    \<and> drop (len + 16) buf' = drop (len + 16) buf \<and> (\<exists>b. icrc 0 buf' (len + 16) 16 poly False = Some (0, b))"
proof -
  define c where "c = crc_bits poly (to_bits (take len buf)) 0"
  define buf' where "buf' = take len buf @ icrc_paste 16 c @ drop (len + 16) buf"
  have ok: "icrc 0 buf len 16 poly True = Some (c, buf')" using assms by (simp add: icrc_16 Let_def c_def buf'_def)
  have len: "length (icrc_paste 16 c) = 16" by (simp add: icrc_paste_def)
  have t: "take (len + 16) buf' = take len buf @ icrc_paste 16 c"
    using assms(2) len by (simp add: buf'_def)
  have tc: "take_bit 16 c = c" by (simp add: c_def)
  have "crc_bits poly (to_bits (take (len + 16) buf')) 0 = crc_bits poly (to_bits (icrc_paste 16 c)) c"
    unfolding t by (simp add: to_bits_def crc_bits_append c_def)
  also have "\<dots> = 0" using crc_bits_own [OF tc] by (simp only: to_bits_paste)
  finally have "icrc 0 buf' (len + 16) 16 poly False = Some (0, buf')"
    using assms(2) len by (simp add: icrc_16 Let_def buf'_def)
  moreover have "length buf' = length buf" "take len buf' = take len buf" "drop (len + 16) buf' = drop (len + 16) buf"
    using assms(2) len by (simp_all add: buf'_def)
  ultimately show ?thesis using ok by blast
qed

theorem icrc_check_zero_witness:
  "\<exists>c buf'. icrc 0 ([1, 0, 1] @ replicate 16 7) 3 16 0x11021 True = Some (c, buf') \<and> take 3 buf' = [1, 0, 1]
     \<and> (\<exists>b. icrc 0 buf' (3 + 16) 16 0x11021 False = Some (0, b))"
  using icrc_check_zero [where len = 3 and buf = "[1, 0, 1] @ replicate 16 7" and poly = "0x11021"] by auto

text \<open>C33. With a 16-bit CRC and an odd polynomial, a codeword in which exactly one bit was inverted
  on the way never checks to zero.\<close>

theorem icrc_single_error:
  assumes "bit poly 0" "0 < n" "length word = n" "icrc 0 word n 16 poly False = Some (0, w')"
    "i < n" "word' = word[i := (if word ! i = 0 then 1 else 0)]"
    "icrc 0 word' n 16 poly False = Some (r, w'')"
  shows "r \<noteq> 0"
proof -
  let ?b = "word ! i \<noteq> 0"
  have sp: "to_bits word = to_bits (take i word) @ ?b # to_bits (drop (Suc i) word)"
    using assms(3,5) by (metis (no_types, lifting) id_take_nth_drop list.simps(9) map_append to_bits_def)
  have sp': "to_bits word' = to_bits (take i word) @ (\<not> ?b) # to_bits (drop (Suc i) word)"
    using assms(3,5) by (simp add: assms(6) to_bits_def upd_conv_take_nth_drop)
  have "length word' = n" using assms by simp
  then have "crc_bits poly (to_bits word) 0 = 0" "crc_bits poly (to_bits word') 0 = r"
    using assms(2-4,7) by (auto simp: icrc_16 Let_def)
  then show ?thesis
    using crc_bits_flip [OF assms(1), of 0 "to_bits (take i word)" ?b "to_bits (drop (Suc i) word)"]
    by (simp add: sp sp')
qed

theorem icrc_single_error_witness:
  "\<exists>r w. icrc 0 ((replicate 17 0)[3 := 1]) 17 16 0x11021 False = Some (r, w) \<and> r \<noteq> 0"
proof -
  have z: "icrc 0 (replicate 17 0) 17 16 0x11021 False = Some (0, replicate 17 0)"
    by code_simp
  obtain r w where r: "icrc 0 ((replicate 17 0)[3 := 1]) 17 16 0x11021 False = Some (r, w)"
    by (simp add: icrc_16 Let_def)
  from icrc_single_error [OF _ _ _ z _ _ r, of 3] r show ?thesis by simp
qed

text \<open>For the default CRC length of 24 bits the masks cword<<long_crc>>long_crc keep only 32-24
  bits of the register: every CRC that icrc returns is smaller than 256, and the check of a
  message with its own pasted CRC does not give zero.\<close>

theorem icrc_24_truncated:
  "(\<forall>crc buf len poly paste. case icrc crc buf len 24 poly paste of None \<Rightarrow> True | Some (c, _) \<Rightarrow> c < 256)
   \<and> (case icrc 0 (1 # replicate 24 0) 1 24 0x1864CFB True of None \<Rightarrow> False | Some (c, buf') \<Rightarrow>
        (case icrc 0 buf' 25 24 0x1864CFB False of None \<Rightarrow> False | Some (r, _) \<Rightarrow> r \<noteq> 0))"
proof
  have "icrc_chunks 24 poly bits c < 256" for poly bits c
    by (induction bits arbitrary: c rule: length_induct)
      (subst icrc_chunks.simps, simp add: icrc_round_def icrc_mask_24 Let_def)
  then show "\<forall>crc buf len poly paste. case icrc crc buf len 24 poly paste of None \<Rightarrow> True | Some (c, _) \<Rightarrow> c < 256"
    by (simp add: icrc_def Let_def)
  show "case icrc 0 (1 # replicate 24 0) 1 24 0x1864CFB True of None \<Rightarrow> False | Some (c, buf') \<Rightarrow>
        (case icrc 0 buf' 25 24 0x1864CFB False of None \<Rightarrow> False | Some (r, _) \<Rightarrow> r \<noteq> 0)"
    by code_simp
qed

end
