(* ===== verification/Coding.thy ===== *)
theory Coding
  imports Prelude
begin

text \<open>
  Bit packing, convolutional coding and multiplexing:
  modrep_default/gen_libs/base/pack.c, modrep_osld/gen_convcoder/src/conv_encode.c and
  modrep_default/gen_libs/utils/mux.c.

  Bit buffers hold one bit per byte, as in the code. A function that advances a pointer
  returns the rest of the buffer. The convolutional coder is related to the defining sum over
  the last constraint_len input bits, circular in the tail-biting mode.
\<close>

unbundle bit_operations_syntax

section \<open>Bit packing\<close>

definition pack_bits :: "32 word \<Rightarrow> nat \<Rightarrow> bytes" where
  "pack_bits val nof_bits = map (\<lambda>i. ucast (drop_bit (nof_bits - i - 1) val AND 1)) [0..<nof_bits]"

text \<open>The char is promoted to int before the shift.\<close>

definition unpack_bits :: "bytes \<Rightarrow> nat \<Rightarrow> 32 word \<times> bytes" where
  "unpack_bits bits nof_bits =
     (fold (\<lambda>i val. val OR push_bit (nof_bits - i - 1) (scast (bits ! i))) [0..<nof_bits] 0,
      drop nof_bits bits)"

section \<open>Convolutional coder\<close>

definition conv_init :: "bytes \<Rightarrow> nat \<Rightarrow> bool \<Rightarrow> bytes" where
  "conv_init c_bits constraint_len tail_bit =
     (if tail_bit then map (\<lambda>i. c_bits ! (length c_bits - i - 1)) [0..<constraint_len]
      else replicate constraint_len 0)"

definition conv_garray :: "nat \<Rightarrow> 32 word \<Rightarrow> bytes" where
  "conv_garray constraint_len g = map (\<lambda>j. ucast (drop_bit (constraint_len - j - 1) g AND 1)) [0..<constraint_len]"

text \<open>s_reg[j] = s_reg[j-1] from the top down, then s_reg[0] = the new bit.\<close>

definition conv_shift :: "byte \<Rightarrow> bytes \<Rightarrow> bytes" where
  "conv_shift b s_reg = (fold (\<lambda>j s. s[j := s ! (j - 1)]) (rev [1..<length s_reg]) s_reg)[0 := b]"

definition conv_out :: "bytes \<Rightarrow> bytes \<Rightarrow> byte" where
  "conv_out s_reg g_row = fold (\<lambda>k d. d + s_reg ! k * g_row ! k) [0..<length s_reg] 0 mod 2"

fun conv_loop :: "bytes list \<Rightarrow> bytes \<Rightarrow> bytes \<Rightarrow> bytes" where
  "conv_loop g_array s_reg [] = []"
| "conv_loop g_array s_reg (c # cs) =
     (let s = conv_shift c s_reg in map (conv_out s) g_array @ conv_loop g_array s cs)"

text \<open>The number of output bits is the length of the result. g has rate entries.\<close>

definition conv_encode :: "bytes \<Rightarrow> nat \<Rightarrow> 32 word list \<Rightarrow> bool \<Rightarrow> bytes" where
  "conv_encode c_bits constraint_len g tail_bit =
     conv_loop (map (conv_garray constraint_len) g) (conv_init c_bits constraint_len tail_bit) c_bits"

text \<open>The input bit k positions before position i.\<close>

definition conv_tap :: "bytes \<Rightarrow> bool \<Rightarrow> nat \<Rightarrow> nat \<Rightarrow> byte" where
  "conv_tap c_bits tail_bit i k =
     (if k \<le> i then c_bits ! (i - k) else if tail_bit then c_bits ! (length c_bits + i - k) else 0)"

definition conv_parity :: "bytes \<Rightarrow> nat \<Rightarrow> bool \<Rightarrow> 32 word \<Rightarrow> nat \<Rightarrow> bool" where
  "conv_parity c_bits constraint_len tail_bit g i =
     odd (length (filter (\<lambda>k. bit g (constraint_len - k - 1) \<and> odd (conv_tap c_bits tail_bit i k)) [0..<constraint_len]))"

section \<open>Multiplexer\<close>

text \<open>Samples of any size are list elements; the output is written one input after the other.\<close>

fun mux :: "('a list \<times> nat \<times> nat) list \<Rightarrow> 'a list" where
  "mux [] = []"
| "mux ((inp, len, padding_pre) # rest) = take len (drop padding_pre inp) @ mux rest"

text \<open>Each output is given by its length and paddings; z is the zero sample. The read position
  advances by length plus trailing padding.\<close>

fun demux :: "'a \<Rightarrow> 'a list \<Rightarrow> (nat \<times> nat \<times> nat) list \<Rightarrow> 'a list list" where
  "demux z inp [] = []"
| "demux z inp ((len, pre, post) # rest) =
     (replicate pre z @ take len inp @ replicate post z) # demux z (drop (len + post) inp) rest"

section \<open>Lemmas\<close>

lemma length_pack_bits [simp]: "length (pack_bits v n) = n"
  by (simp add: pack_bits_def)

lemma pack_bits_nth:
  assumes "i < n"
  shows "pack_bits v n ! i = of_bool (bit v (n - i - 1))"
  using assms by (simp add: pack_bits_def and_one_eq mod_2_eq_odd bit_iff_odd_drop_bit)

lemma unpack_fold:
  fixes bits :: bytes
  assumes "\<And>i. i < m \<Longrightarrow> bits ! i = of_bool (b i)" "m \<le> n" "n \<le> 32"
  shows "bit (fold (\<lambda>i v. v OR push_bit (n - i - 1) (scast (bits ! i))) [0..<m] (0 :: 32 word)) k
     \<longleftrightarrow> k < n \<and> n - k - 1 < m \<and> b (n - k - 1)"
  using assms(1,2)
proof (induction m)
  case (Suc m)
  let ?f = "fold (\<lambda>i v. v OR push_bit (n - i - 1) (scast (bits ! i))) [0..<m] (0 :: 32 word)"
  have bm: "bits ! m = of_bool (b m)" using Suc.prems by simp
  have s: "scast (bits ! m) = (of_bool (b m) :: 32 word)" unfolding bm by (cases "b m") simp_all
  have "bit (push_bit (n - m - 1) (scast (bits ! m) :: 32 word)) k \<longleftrightarrow> b m \<and> k = n - m - 1"
    using assms(3) Suc.prems
    by (cases "b m") (simp_all only: s bit_push_bit_iff of_bool_eq bit_0_eq, auto simp: bit_1_iff)
  then have "bit (?f OR push_bit (n - m - 1) (scast (bits ! m))) k \<longleftrightarrow> bit ?f k \<or> (b m \<and> k = n - m - 1)"
    by (simp only: bit_or_iff)
  also have "\<dots> \<longleftrightarrow> k < n \<and> n - k - 1 < Suc m \<and> b (n - k - 1)"
  proof -
    have "k = n - m - 1 \<longleftrightarrow> k < n \<and> n - k - 1 = m" using Suc.prems by auto
    with Suc show ?thesis by (auto simp: less_Suc_eq)
  qed
  finally show ?case by simp
qed simp

lemma unpack_pack:
  assumes "n \<le> 32"
  shows "unpack_bits (pack_bits v n @ rest) n = (take_bit n v, rest)"
proof -
  have nth: "(pack_bits v n @ rest) ! i = of_bool (bit v (n - i - 1))" if "i < n" for i
    using that by (simp add: nth_append pack_bits_nth)
  have "fold (\<lambda>i val. val OR push_bit (n - i - 1) (scast ((pack_bits v n @ rest) ! i))) [0..<n] 0 = take_bit n v"
    by (rule bit_eqI)
      (subst unpack_fold [where b = "\<lambda>i. bit v (n - i - 1)"], use nth assms in \<open>auto simp: bit_take_bit_iff\<close>)
  then show ?thesis by (simp add: unpack_bits_def)
qed

lemma conv_shift_fold:
  assumes "1 \<le> m" "m \<le> length s"
  shows "fold (\<lambda>j s. s[j := s ! (j - 1)]) (rev [m..<length s]) s = take m s @ drop (m - 1) (butlast s)"
  using assms(2,1)
proof (induction rule: inc_induct)
  case base
  then show ?case by (simp add: butlast_conv_take)
next
  case (step m)
  have up: "rev [m..<length s] = rev [Suc m..<length s] @ [m]"
    using step by (simp add: upt_conv_Cons)
  have "fold (\<lambda>j s. s[j := s ! (j - 1)]) (rev [m..<length s]) s
     = (take (Suc m) s @ drop m (butlast s))[m := (take (Suc m) s @ drop m (butlast s)) ! (m - 1)]"
    using step by (simp add: up)
  also have "\<dots> = take m s @ s ! (m - 1) # drop m (butlast s)"
    using step by (simp add: nth_append take_Suc_conv_app_nth list_update_append)
  also have "s ! (m - 1) # drop m (butlast s) = drop (m - 1) (butlast s)"
    using step Cons_nth_drop_Suc [of "m - 1" "butlast s"] by (simp add: nth_butlast)
  finally show ?case .
qed

lemma conv_shift_eq:
  assumes "s \<noteq> []"
  shows "conv_shift b s = b # butlast s"
proof -
  have "fold (\<lambda>j s. s[j := s ! (j - 1)]) (rev [1..<length s]) s = take 1 s @ butlast s"
    using conv_shift_fold [of 1 s] assms by (simp add: Suc_le_eq)
  then show ?thesis using assms by (cases s) (simp_all add: conv_shift_def)
qed

lemma conv_out_parity:
  "conv_out s (conv_garray (length s) g)
     = of_bool (odd (length (filter (\<lambda>k. bit g (length s - k - 1) \<and> odd (s ! k)) [0..<length s])))"
proof -
  have "odd (fold (\<lambda>k d. d + s ! k * conv_garray (length s) g ! k) [0..<m] (0 :: byte))
     \<longleftrightarrow> odd (length (filter (\<lambda>k. bit g (length s - k - 1) \<and> odd (s ! k)) [0..<m]))" if "m \<le> length s" for m
    using that
  proof (induction m)
    case (Suc m)
    have "odd (conv_garray (length s) g ! m) \<longleftrightarrow> bit g (length s - m - 1)"
      using Suc.prems by (simp add: conv_garray_def and_one_eq mod_2_eq_odd bit_iff_odd_drop_bit)
    with Suc show ?case by auto
  qed simp
  from this [of "length s"] show ?thesis
    by (simp add: conv_out_def mod_2_eq_odd)
qed

lemma conv_loop_parity:
  assumes K: "0 < K" "length s = K" and reg: "\<forall>k < K - 1. s ! k = conv_tap c tail i (k + 1)" and cs: "cs = drop i c"
  shows "conv_loop (map (conv_garray K) gs) s cs
     = concat (map (\<lambda>i. map (\<lambda>g. of_bool (conv_parity c K tail g i)) gs) [i..<length c])"
  using assms(2-4)
proof (induction cs arbitrary: s i)
  case Nil
  then show ?case by simp
next
  case (Cons x cs)
  let ?s = "x # butlast s"
  have i: "i < length c" using Cons.prems(3) by (metis drop_eq_Nil list.distinct(1) not_le_imp_less)
  have x: "x = c ! i" "cs = drop (Suc i) c"
    using Cons.prems(3) i by (metis Cons_nth_drop_Suc list.inject)+
  have sh: "conv_shift x s = ?s" using K Cons.prems by (intro conv_shift_eq) auto
  have len: "length ?s = K" using K Cons.prems by simp
  have tap: "?s ! k = conv_tap c tail i k" if "k < K" for k
    using that Cons.prems x by (cases k) (auto simp: conv_tap_def nth_butlast)
  have out: "conv_out ?s (conv_garray K g) = of_bool (conv_parity c K tail g i)" for g
  proof -
    have "filter (\<lambda>k. bit g (K - k - 1) \<and> odd (?s ! k)) [0..<K]
        = filter (\<lambda>k. bit g (K - k - 1) \<and> odd (conv_tap c tail i k)) [0..<K]"
      by (rule filter_cong) (simp_all add: tap del: nth_Cons_0)
    then show ?thesis
      using conv_out_parity [of ?s g] unfolding len conv_parity_def by simp
  qed
  have "\<forall>k < K - 1. ?s ! k = conv_tap c tail (Suc i) (k + 1)"
    using tap by (auto simp: conv_tap_def)
  from Cons.IH [OF len this x(2)] show ?case
    using out i by (simp add: sh upt_conv_Cons comp_def)
qed

lemma conv_encode_ref:
  assumes "0 < K"
  shows "conv_encode c K gs tail
     = concat (map (\<lambda>i. map (\<lambda>g. of_bool (conv_parity c K tail g i)) gs) [0..<length c])"
  unfolding conv_encode_def
  by (rule conv_loop_parity) (use assms in \<open>auto simp: conv_init_def conv_tap_def\<close>)

lemma conv_tap_circular:
  assumes "i < length c" "k \<le> length c"
  shows "conv_tap c True i k = c ! ((length c + i - k) mod length c)"
proof (cases "k \<le> i")
  case True
  then have "(length c + i - k) mod length c = (i - k) mod length c"
    by (metis Nat.add_diff_assoc mod_add_self1)
  then show ?thesis using assms True by (simp add: conv_tap_def)
next
  case False
  then show ?thesis using assms by (simp add: conv_tap_def)
qed

lemma conv_tap_rotate1:
  assumes "i < length c" "k \<le> length c"
  shows "conv_tap (rotate1 c) True i k = conv_tap c True (Suc i mod length c) k"
proof -
  let ?n = "length c"
  have n: "0 < ?n" using assms by auto
  have idx: "(?n + i - k) mod ?n < length c" by (rule mod_less_divisor [OF n])
  have "conv_tap (rotate1 c) True i k = rotate1 c ! ((?n + i - k) mod ?n)"
    using assms conv_tap_circular [of i "rotate1 c" k] by simp
  also have "\<dots> = c ! (Suc ((?n + i - k) mod ?n) mod ?n)"
    using idx by (simp add: nth_rotate1)
  also have "Suc ((?n + i - k) mod ?n) mod ?n = (?n + Suc i mod ?n - k) mod ?n"
  proof (cases "Suc i = ?n")
    case True
    then have "Suc (?n + i - k) = ?n + (?n - k)" using assms by simp
    then show ?thesis using True by (simp add: mod_Suc_eq)
  next
    case False
    then have "Suc i mod ?n = Suc i" "Suc (?n + i - k) = ?n + Suc i - k" using assms by auto
    then show ?thesis by (simp add: mod_Suc_eq)
  qed
  also have "c ! ((?n + Suc i mod ?n - k) mod ?n) = conv_tap c True (Suc i mod ?n) k"
    using assms n by (simp add: conv_tap_circular)
  finally show ?thesis .
qed

lemma demux_mux:
  assumes "\<forall>(i, l, p) \<in> set ins. p + l \<le> length i"
  shows "demux z (mux ins) (map (\<lambda>(i, l, p). (l, p, 0)) ins)
     = map (\<lambda>(i, l, p). replicate p z @ take l (drop p i)) ins"
  using assms
proof (induction ins)
  case (Cons a ins)
  obtain i l p where a: "a = (i, l, p)" by (cases a)
  with Cons.prems have "p + l \<le> length i" by simp
  then show ?case using Cons a by simp
qed simp

section \<open>Properties\<close>

text \<open>Unpacking the bits of a packed value of at most 32 bits returns the value, cut to the
  given number of bits, and leaves exactly the bytes behind it.\<close>

theorem unpack_pack_bits:
  assumes "n \<le> 32"
  shows "unpack_bits (pack_bits v n @ rest) n = (take_bit n v, rest)"
  using assms by (rule unpack_pack)

theorem unpack_pack_bits_witness: "unpack_bits (pack_bits 5 3 @ [7]) 3 = (take_bit 3 5, [7])"
  by (rule unpack_pack_bits) simp

text \<open>Output bit j of input position i of the convolutional coder is the parity of the input bits
  selected by the j-th generator among the constraint_len bits that end at position i; bits
  before the start are taken from the end of the block when tail biting, else zero. There are
  rate output bits per input bit.\<close>

theorem conv_encode_parity:
  assumes "0 < K"
  shows "conv_encode c K gs tail
     = concat (map (\<lambda>i. map (\<lambda>g. of_bool (conv_parity c K tail g i)) gs) [0..<length c])"
  using assms by (rule conv_encode_ref)

theorem conv_encode_parity_witness:
  "conv_encode [1, 0, 1] 3 [7, 5] False
     = concat (map (\<lambda>i. map (\<lambda>g. of_bool (conv_parity [1, 0, 1] 3 False g i)) [7, 5]) [0..<length [1, 0, 1 :: byte]])"
  by (rule conv_encode_parity) simp

text \<open>Tail biting makes the code circular: coding a block rotated by one bit gives the code of the
  block rotated by one group of rate output bits.\<close>

theorem conv_encode_tail_biting:
  assumes "0 < K" "K \<le> length c"
  shows "conv_encode (rotate1 c) K gs True = rotate (length gs) (conv_encode c K gs True)"
proof -
  let ?row = "\<lambda>i. map (\<lambda>g. of_bool (conv_parity c K True g i) :: byte) gs"
  let ?n = "length c"
  obtain m where m: "?n = Suc m" using assms by (cases ?n) auto
  have "conv_parity (rotate1 c) K True g i = conv_parity c K True g (Suc i mod ?n)" if "i < ?n" for g i
  proof -
    have "filter (\<lambda>k. bit g (K - k - 1) \<and> odd (conv_tap (rotate1 c) True i k)) [0..<K]
        = filter (\<lambda>k. bit g (K - k - 1) \<and> odd (conv_tap c True (Suc i mod ?n) k)) [0..<K]"
      using that assms by (intro filter_cong refl) (simp add: conv_tap_rotate1)
    then show ?thesis by (simp add: conv_parity_def)
  qed
  then have "map (\<lambda>i. map (\<lambda>g. of_bool (conv_parity (rotate1 c) K True g i)) gs) [0..<?n]
      = map (\<lambda>i. ?row (Suc i mod ?n)) [0..<?n]"
    by (intro map_cong refl) simp
  then have "conv_encode (rotate1 c) K gs True = concat (map (\<lambda>i. ?row (Suc i mod ?n)) [0..<?n])"
    unfolding conv_encode_ref [OF assms(1)] length_rotate1 by (rule arg_cong)
  also have "map (\<lambda>i. ?row (Suc i mod ?n)) [0..<?n] = map ?row ([1..<?n] @ [0])"
  proof (rule nth_equalityI)
    fix i assume "i < length (map (\<lambda>i. ?row (Suc i mod ?n)) [0..<?n])"
    then have i: "i < Suc m" by (simp add: m)
    then have "([1..<Suc m] @ [0]) ! i = Suc i mod Suc m"
      by (cases "i = m") (simp_all add: nth_append del: upt_Suc)
    then show "map (\<lambda>i. ?row (Suc i mod ?n)) [0..<?n] ! i = map ?row ([1..<?n] @ [0]) ! i"
      using i by (simp add: m del: upt_Suc map_append)
  qed (simp add: m)
  also have "concat (map ?row ([1..<?n] @ [0])) = rotate (length gs) (concat (map ?row [0..<?n]))"
  proof -
    have "[0..<?n] = 0 # [1..<?n]" using m by (simp add: upt_conv_Cons del: upt_Suc)
    then have "concat (map ?row [0..<?n]) = ?row 0 @ concat (map ?row [1..<?n])" by simp
    moreover have "rotate (length (?row 0)) (?row 0 @ concat (map ?row [1..<?n]))
        = concat (map ?row [1..<?n]) @ ?row 0" by (rule rotate_append)
    ultimately show ?thesis by simp
  qed
  finally show ?thesis using assms by (simp add: conv_encode_ref)
qed

theorem conv_encode_tail_biting_witness:
  "conv_encode (rotate1 [1, 0, 1, 1]) 3 [7, 5] True = rotate (length [7, 5 :: 32 word]) (conv_encode [1, 0, 1, 1] 3 [7, 5] True)"
  by (rule conv_encode_tail_biting) simp_all

text \<open>Demultiplexing a multiplexed signal with the same lengths and no trailing padding returns,
  for each interface, the samples that were taken from it, behind the given number of zeros.\<close>

theorem demux_of_mux:
  assumes "\<forall>(i, l, p) \<in> set ins. p + l \<le> length i"
  shows "demux z (mux ins) (map (\<lambda>(i, l, p). (l, p, 0)) ins)
     = map (\<lambda>(i, l, p). replicate p z @ take l (drop p i)) ins"
  using assms by (rule demux_mux)

theorem demux_of_mux_witness:
  "demux (0 :: int) (mux [([1, 2, 3], 2, 1), ([4], 1, 0)]) [(2, 1, 0), (1, 0, 0)] = [[0, 2, 3], [4]]"
  using demux_of_mux [of "[([1, 2, 3], 2, 1), ([4], 1, 0)]" "0 :: int"] by simp

end
