(* ===== verification/Turbo.thy ===== *)
theory Turbo
  imports Prelude
begin

text \<open>
  The turbo coder and its interleavers: modrep_osld/lte_turbocode/src/turbocoder.c and
  permute.c.

  The tables are copied from the source. Both interleavers are modelled as the code computes
  them: the quadratic one by its recurrence, the UMTS one with its rows, columns, powers of a
  primitive root and row permutation. The theory shows that each is a bijection with DESPER
  its inverse, for every block size that the tables serve, and that the coder is systematic
  and ends in the zero state.
\<close>

section \<open>Tables\<close>

definition MAX_LONG_CB :: nat where "MAX_LONG_CB = 6114"

definition table_p :: "nat list" where
  "table_p =
    [7, 11, 13, 17, 19, 23, 29, 31, 37, 41, 43, 47, 53, 59, 61, 67, 71, 73, 79, 83, 89, 97, 101,
     103, 107, 109, 113, 127, 131, 137, 139, 149, 151, 157, 163, 167, 173, 179, 181, 191, 193, 197,
     199, 211, 223, 227, 229, 233, 239, 241, 251, 257]"

definition table_v :: "nat list" where
  "table_v =
    [3, 2, 2, 3, 2, 5, 2, 3, 2, 6, 3, 5, 2, 2, 2, 2, 7, 5, 3, 2, 3, 5, 2, 5, 2, 6, 3, 3, 2, 3, 2,
     2, 6, 5, 2, 5, 2, 2, 2, 19, 5, 2, 3, 2, 3, 2, 6, 3, 7, 7, 6, 3]"

definition k_list :: "nat list" where
  "k_list =
    [40, 48, 56, 64, 72, 80, 88, 96, 104, 112, 120, 128, 136, 144, 152, 160, 168, 176, 184, 192,
     200, 208, 216, 224, 232, 240, 248, 256, 264, 272, 280, 288, 296, 304, 312, 320, 328, 336, 344,
     352, 360, 368, 376, 384, 392, 400, 408, 416, 424, 432, 440, 448, 456, 464, 472, 480, 488, 496,
     504, 512, 528, 544, 560, 576, 592, 608, 624, 640, 656, 672, 688, 704, 720, 736, 752, 768, 784,
     800, 816, 832, 848, 864, 880, 896, 912, 928, 944, 960, 976, 992, 1008, 1024, 1056, 1088, 1120,
     1152, 1184, 1216, 1248, 1280, 1312, 1344, 1376, 1408, 1440, 1472, 1504, 1536, 1568, 1600,
     1632, 1664, 1696, 1728, 1760, 1792, 1824, 1856, 1888, 1920, 1952, 1984, 2016, 2048, 2112,
     2176, 2240, 2304, 2368, 2432, 2496, 2560, 2624, 2688, 2752, 2816, 2880, 2944, 3008, 3072,
     3136, 3200, 3264, 3328, 3392, 3456, 3520, 3584, 3648, 3712, 3776, 3840, 3904, 3968, 4032,
     4096, 4160, 4224, 4288, 4352, 4416, 4480, 4544, 4608, 4672, 4736, 4800, 4864, 4928, 4992,
     5056, 5120, 5184, 5248, 5312, 5376, 5440, 5504, 5568, 5632, 5696, 5760, 5824, 5888, 5952,
     6016, 6080, 6144]"

definition f1_list :: "nat list" where
  "f1_list =
    [3, 7, 19, 7, 7, 11, 5, 11, 7, 41, 103, 15, 9, 17, 9, 21, 101, 21, 57, 23, 13, 27, 11, 27, 85,
     29, 33, 15, 17, 33, 103, 19, 19, 37, 19, 21, 21, 115, 193, 21, 133, 81, 45, 23, 243, 151, 155,
     25, 51, 47, 91, 29, 29, 247, 29, 89, 91, 157, 55, 31, 17, 35, 227, 65, 19, 37, 41, 39, 185,
     43, 21, 155, 79, 139, 23, 217, 25, 17, 127, 25, 239, 17, 137, 215, 29, 15, 147, 29, 59, 65,
     55, 31, 17, 171, 67, 35, 19, 39, 19, 199, 21, 211, 21, 43, 149, 45, 49, 71, 13, 17, 25, 183,
     55, 127, 27, 29, 29, 57, 45, 31, 59, 185, 113, 31, 17, 171, 209, 253, 367, 265, 181, 39, 27,
     127, 143, 43, 29, 45, 157, 47, 13, 111, 443, 51, 51, 451, 257, 57, 313, 271, 179, 331, 363,
     375, 127, 31, 33, 43, 33, 477, 35, 233, 357, 337, 37, 71, 71, 37, 39, 127, 39, 39, 31, 113,
     41, 251, 43, 21, 43, 45, 45, 161, 89, 323, 47, 23, 47, 263]"

definition f2_list :: "nat list" where
  "f2_list =
    [10, 12, 42, 16, 18, 20, 22, 24, 26, 84, 90, 32, 34, 108, 38, 120, 84, 44, 46, 48, 50, 52, 36,
     56, 58, 60, 62, 32, 198, 68, 210, 36, 74, 76, 78, 120, 82, 84, 86, 44, 90, 46, 94, 48, 98, 40,
     102, 52, 106, 72, 110, 168, 114, 58, 118, 180, 122, 62, 84, 64, 66, 68, 420, 96, 74, 76, 234,
     80, 82, 252, 86, 44, 120, 92, 94, 48, 98, 80, 102, 52, 106, 48, 110, 112, 114, 58, 118, 60,
     122, 124, 84, 64, 66, 204, 140, 72, 74, 76, 78, 240, 82, 252, 86, 88, 60, 92, 846, 48, 28, 80,
     102, 104, 954, 96, 110, 112, 114, 116, 354, 120, 610, 124, 420, 64, 66, 136, 420, 216, 444,
     456, 468, 80, 164, 504, 172, 88, 300, 92, 188, 96, 28, 240, 204, 104, 212, 192, 220, 336, 228,
     232, 236, 120, 244, 248, 168, 64, 130, 264, 134, 408, 138, 280, 142, 480, 146, 444, 120, 152,
     462, 234, 158, 80, 96, 902, 166, 336, 170, 86, 174, 176, 178, 120, 182, 184, 186, 94, 190, 480]"

section \<open>Euclid's algorithm\<close>

text \<open>The loop of mcd; it divides by y, so it is called with a positive y.\<close>

fun mcd :: "nat \<Rightarrow> nat \<Rightarrow> nat" where
  "mcd x y = (if y = 0 then x else if x mod y = 0 then y else mcd y (x mod y))"

declare mcd.simps [simp del]

section \<open>Quadratic interleaver\<close>

definition getLTEcbsize :: "nat \<Rightarrow> int" where
  "getLTEcbsize numbits = (case find (\<lambda>k. \<not> k < numbits) k_list of None \<Rightarrow> -1 | Some k \<Rightarrow> int k)"

text \<open>The loop that fills PER, from index i on; idx is the previous entry.\<close>

fun lte_per_loop :: "nat \<Rightarrow> nat \<Rightarrow> nat \<Rightarrow> nat \<Rightarrow> nat \<Rightarrow> nat \<Rightarrow> nat list" where
  "lte_per_loop 0 L f1 f2 i idx = []"
| "lte_per_loop (Suc n) L f1 f2 i idx =
     (let idx' = (idx + f1 + 2 * i * f2 - f2) mod L in idx' # lte_per_loop n L f1 f2 (i + 1) idx')"

text \<open>DESPER[PER[i]] = i, in the order of the loop.\<close>

definition desper_of :: "nat \<Rightarrow> nat list \<Rightarrow> nat list" where
  "desper_of L per = fold (\<lambda>i d. d[per ! i := i]) [0..<length per] (replicate L 0)"

fun lte_params :: "nat \<Rightarrow> (nat \<times> nat \<times> nat) list \<Rightarrow> (nat \<times> nat) option" where
  "lte_params L [] = None"
| "lte_params L ((k, f1, f2) # rest) = (if k \<ge> L then Some (f1, f2) else lte_params L rest)"

text \<open>PER and DESPER, or None for the return value -1 and for a block that does not fit into the two arrays of
  MAX_LONG_CB entries.\<close>

definition ComputeLTEPermutation :: "nat \<Rightarrow> (nat list \<times> nat list) option" where
  "ComputeLTEPermutation L = (if L > MAX_LONG_CB then None else case lte_params L (zip k_list (zip f1_list f2_list)) of
      None \<Rightarrow> None
    | Some (f1, f2) \<Rightarrow> let per = 0 # lte_per_loop (L - 1) L f1 f2 1 0 in Some (per, desper_of L per))"

section \<open>UMTS interleaver\<close>

definition MAX_ROWS :: nat where "MAX_ROWS = 20"
definition MAX_COLS :: nat where "MAX_COLS = 256"

definition umts_rows :: "nat \<Rightarrow> nat" where
  "umts_rows L = (if 40 \<le> L \<and> L \<le> 159 then 5
     else if (160 \<le> L \<and> L \<le> 200) \<or> (481 \<le> L \<and> L \<le> 530) then 10 else 20)"

text \<open>The do-while search; None when it would run past the end of the tables.\<close>

fun umts_search :: "nat \<Rightarrow> nat \<Rightarrow> (nat \<times> nat) list \<Rightarrow> (nat \<times> nat) option" where
  "umts_search L R [] = None"
| "umts_search L R ((p, v) # rest) = (if L > R * (p + 1) then umts_search L R rest else Some (p, v))"

definition umts_pv :: "nat \<Rightarrow> nat \<Rightarrow> (nat \<times> nat) option" where
  "umts_pv L R = (if 481 \<le> L \<and> L \<le> 530 then Some (53, 2) else umts_search L R (zip table_p table_v))"

definition umts_cols :: "nat \<Rightarrow> nat \<Rightarrow> nat \<Rightarrow> nat" where
  "umts_cols L R p = (if L \<le> R * (p - 1) then p - 1
     else if R * (p - 1) < L \<and> L \<le> R * p then p else p + 1)"

text \<open>The do-while loop that looks for the next number coprime to n; n steps are enough.\<close>

fun next_coprime :: "nat \<Rightarrow> nat \<Rightarrow> nat \<Rightarrow> nat" where
  "next_coprime 0 prim n = prim"
| "next_coprime (Suc fuel) prim n =
     (if mcd (prim + 1) n = 1 then prim + 1 else next_coprime fuel (prim + 1) n)"

fun umts_q :: "nat \<Rightarrow> nat \<Rightarrow> nat \<Rightarrow> nat list" where
  "umts_q 0 prim n = []"
| "umts_q (Suc k) prim n = (let x = next_coprime n prim n in x # umts_q k x n)"

fun umts_s :: "nat \<Rightarrow> nat \<Rightarrow> nat \<Rightarrow> nat \<Rightarrow> nat list" where
  "umts_s 0 p v x = []"
| "umts_s (Suc k) p v x = x # umts_s k p v (v * x mod p)"

definition umts_T :: "nat \<Rightarrow> nat list" where
  "umts_T L = (if 40 \<le> L \<and> L \<le> 159 then [4, 3, 2, 1, 0]
     else if (160 \<le> L \<and> L \<le> 200) \<or> (481 \<le> L \<and> L \<le> 530) then [9, 8, 7, 6, 5, 4, 3, 2, 1, 0]
     else if (2281 \<le> L \<and> L \<le> 2480) \<or> (3161 \<le> L \<and> L \<le> 3210)
     then [19, 9, 14, 4, 0, 2, 5, 7, 12, 18, 16, 13, 17, 15, 3, 1, 6, 11, 8, 10]
     else [19, 9, 14, 4, 0, 2, 5, 7, 12, 18, 10, 8, 13, 17, 3, 1, 16, 6, 15, 11])"

text \<open>r[T[i]] = q[i]\<close>

definition umts_r :: "nat \<Rightarrow> nat list \<Rightarrow> nat list \<Rightarrow> nat list" where
  "umts_r R T q = fold (\<lambda>i r. r[T ! i := q ! i]) [0..<R] (replicate R 0)"

text \<open>Row i of the matrix U.\<close>

definition umts_U :: "nat \<Rightarrow> nat \<Rightarrow> nat \<Rightarrow> nat \<Rightarrow> nat list \<Rightarrow> nat list \<Rightarrow> nat \<Rightarrow> nat list" where
  "umts_U L R C p s r i =
     (let base = map (\<lambda>j. s ! (j * r ! i mod (p - 1)) - (if C = p - 1 then 1 else 0)) [0..<p - 1]
      in if C = p then base @ [0]
         else if C = p + 1
         then (if L = C * R \<and> i = R - 1 then p # tl (base @ [0]) @ [hd base] else base @ [0, p])
         else base)"

definition umts_per :: "nat \<Rightarrow> nat \<Rightarrow> nat \<Rightarrow> nat list \<Rightarrow> nat list list \<Rightarrow> nat list" where
  "umts_per L R C T U = filter (\<lambda>kp. kp < L)
     (concat (map (\<lambda>j. map (\<lambda>i. T ! i * C + U ! i ! j) [0..<R]) [0..<C]))"

text \<open>PER and DESPER; None when the search leaves the tables or the matrix of R rows and C columns does not fit
  into the array U of MAX_COLS * MAX_ROWS elements.\<close>

definition ComputeUMTSPermutation :: "nat \<Rightarrow> (nat list \<times> nat list) option" where
  "ComputeUMTSPermutation L = (let R = umts_rows L in
     (case umts_pv L R of
        None \<Rightarrow> None
      | Some (p, v) \<Rightarrow>
          let C = umts_cols L R p;
              q = 1 # umts_q (R - 1) 6 (p - 1);
              s = umts_s (p - 1) p v 1;
              T = umts_T L;
              r = umts_r R T q;
              U = map (umts_U L R C p s r) [0..<R];
              per = umts_per L R C T U
          in if R * C > MAX_COLS * MAX_ROWS then None else Some (per, desper_of L per)))"

definition PER_UMTS :: int where "PER_UMTS = 0"
definition PER_LTE :: int where "PER_LTE = 1"

definition ComputePermutation :: "int \<Rightarrow> nat \<Rightarrow> (nat list \<times> nat list) option" where
  "ComputePermutation type L = (if type = PER_LTE then ComputeLTEPermutation L
     else if type = PER_UMTS then ComputeUMTSPermutation L else None)"

section \<open>Coder\<close>

type_synonym rsc = "byte \<times> byte \<times> byte"

text \<open>One step of a constituent coder on the registers (reg_0, reg_1, reg_2).\<close>

definition rsc_step :: "byte \<Rightarrow> rsc \<Rightarrow> byte \<times> rsc" where
  "rsc_step b st = (case st of (r0, r1, r2) \<Rightarrow>
     (let inn = xor b (xor r2 r1) in (xor r2 (xor r0 inn), (inn, r0, r1))))"

definition rsc_tail_bit :: "rsc \<Rightarrow> byte" where
  "rsc_tail_bit st = (case st of (r0, r1, r2) \<Rightarrow> xor r2 r1)"

fun turbo_main :: "(byte \<times> byte) list \<Rightarrow> rsc \<Rightarrow> rsc \<Rightarrow> bytes \<times> rsc \<times> rsc" where
  "turbo_main [] st1 st2 = ([], st1, st2)"
| "turbo_main ((b1, b2) # rest) st1 st2 =
     (let (o1, st1') = rsc_step b1 st1; (o2, st2') = rsc_step b2 st2;
          (os, s1, s2) = turbo_main rest st1' st2'
      in (b1 # o1 # o2 # os, s1, s2))"

fun turbo_tail :: "nat \<Rightarrow> rsc \<Rightarrow> bytes \<times> rsc" where
  "turbo_tail 0 st = ([], st)"
| "turbo_tail (Suc n) st =
     (let b = rsc_tail_bit st; (o1, st') = rsc_step b st; (os, s) = turbo_tail n st'
      in (b # o1 # os, s))"

text \<open>The whole coder, with the final register contents; None for the return value -1.\<close>

definition turbo_coder :: "bytes \<Rightarrow> (bytes \<times> rsc \<times> rsc) option" where
  "turbo_coder input = (case ComputePermutation PER_UMTS (length input) of
      None \<Rightarrow> None
    | Some (per, _) \<Rightarrow>
        let (main, st1, st2) = turbo_main (zip input (map (\<lambda>i. input ! (per ! i)) [0..<length input]))
                                 (0, 0, 0) (0, 0, 0);
            (t1, e1) = turbo_tail 3 st1;
            (t2, e2) = turbo_tail 3 st2
        in Some (main @ t1 @ t2, e1, e2))"

text \<open>None of the n powers after x is 1.\<close>

fun no_one :: "nat \<Rightarrow> nat \<Rightarrow> nat \<Rightarrow> nat \<Rightarrow> bool" where
  "no_one 0 p v x = True"
| "no_one (Suc n) p v x = (if v * x mod p = 1 then False else no_one n p v (v * x mod p))"

text \<open>A list that holds each index below n once.\<close>

definition is_perm :: "nat \<Rightarrow> nat list \<Rightarrow> bool" where
  "is_perm n xs \<longleftrightarrow> length xs = n \<and> distinct xs \<and> set xs \<subseteq> {..<n}"

section \<open>Euclid's algorithm computes the greatest common divisor\<close>

lemma mcd_gcd: "mcd x y = gcd x y"
proof (induction x y rule: mcd.induct)
  case (1 x y)
  show ?case
  proof (cases "y = 0 \<or> x mod y = 0")
    case True
    then show ?thesis by (auto simp: mcd.simps [of x y] gcd.commute intro: gcd_proj2_if_dvd_nat [symmetric])
  next
    case False
    then show ?thesis using 1 by (simp add: mcd.simps [of x y] gcd_red_nat [of x y])
  qed
qed

lemma next_coprime_spec:
  assumes "0 < n" "\<exists>d. 0 < d \<and> d \<le> fuel \<and> coprime (prim + d) n"
  shows "coprime (next_coprime fuel prim n) n \<and> prim < next_coprime fuel prim n"
  using assms(2)
proof (induction fuel arbitrary: prim)
  case (Suc fuel)
  show ?case
  proof (cases "coprime (prim + 1) n")
    case True
    then show ?thesis by (simp add: mcd_gcd coprime_iff_gcd_eq_1)
  next
    case False
    obtain d where d: "0 < d" "d \<le> Suc fuel" "coprime (prim + d) n" using Suc.prems by blast
    with False have "d \<noteq> 1" by auto
    with d have "0 < d - 1 \<and> d - 1 \<le> fuel \<and> coprime (prim + 1 + (d - 1)) n" by auto
    then have "coprime (next_coprime fuel (prim + 1) n) n \<and> prim + 1 < next_coprime fuel (prim + 1) n"
      by (intro Suc.IH) blast
    with False show ?thesis by (auto simp: mcd_gcd coprime_iff_gcd_eq_1)
  qed
qed simp

text \<open>Among n consecutive numbers one leaves the remainder 1.\<close>

lemma coprime_within:
  assumes "0 < (n :: nat)"
  shows "\<exists>d. 0 < d \<and> d \<le> n \<and> coprime (prim + d) n"
proof -
  let ?d = "n - (prim + n - 1) mod n"
  have lt: "(prim + n - 1) mod n < n" using assms by simp
  have "prim + ?d = (prim + n - 1) - (prim + n - 1) mod n + 1"
    using lt assms mod_less_eq_dividend [of "prim + n - 1" n] by linarith
  then have "prim + ?d = n * ((prim + n - 1) div n) + 1"
    by (metis minus_mod_eq_mult_div)
  then have "coprime (prim + ?d) n"
    by (metis coprimeI dvd_add_right_iff dvd_mult2)
  with lt show ?thesis by (intro exI [of _ ?d]) auto
qed

lemma umts_q_coprime:
  "0 < n \<Longrightarrow> x \<in> set (umts_q k prim n) \<Longrightarrow> coprime x n"
  by (induction k arbitrary: prim) (auto simp: Let_def next_coprime_spec coprime_within)

lemma length_umts_q [simp]: "length (umts_q k prim n) = k"
  by (induction k arbitrary: prim) (simp_all add: Let_def)

section \<open>Inverting a permutation\<close>

lemma is_perm_set: "is_perm n xs \<Longrightarrow> set xs = {..<n}"
  unfolding is_perm_def by (metis card_subset_eq card_lessThan distinct_card finite_lessThan)

lemma fold_store_nth:
  assumes "distinct xs" "length xs = n" "set xs \<subseteq> {..<length d}" "m \<le> n" "i < m"
  shows "fold (\<lambda>i d. d[xs ! i := f i]) [0..<m] d ! (xs ! i) = f i"
    and "length (fold (\<lambda>i d. d[xs ! i := f i]) [0..<m] d) = length d"
proof -
  have len: "length (fold (\<lambda>i d. d[xs ! i := f i]) [0..<m] d) = length d" for m
    by (induction m) simp_all
  show "length (fold (\<lambda>i d. d[xs ! i := f i]) [0..<m] d) = length d" by (rule len)
  show "fold (\<lambda>i d. d[xs ! i := f i]) [0..<m] d ! (xs ! i) = f i"
    using assms(4,5)
  proof (induction m)
    case (Suc m)
    have "xs ! i < length d" using assms(2,3) Suc.prems by (meson lessThan_iff nth_mem order_less_le_trans subsetD)
    moreover have "xs ! i \<noteq> xs ! m" if "i \<noteq> m"
      using assms(1,2) Suc.prems that by (simp add: nth_eq_iff_index_eq)
    ultimately show ?case using Suc len [of m] by (cases "i = m") auto
  qed simp
qed

lemma desper_inverse:
  assumes "is_perm n per" "i < n"
  shows "desper_of n per ! (per ! i) = i" "length (desper_of n per) = n"
  using assms fold_store_nth [of per n "replicate n 0" n i "\<lambda>i. i"]
  by (simp_all add: desper_of_def is_perm_def)

section \<open>The quadratic interleaver is a permutation\<close>

lemma lte_per_loop_nth:
  assumes "idx = (f1 * (i - 1) + f2 * (i - 1) ^ 2) mod L" "0 < i" "j < n"
  shows "lte_per_loop n L f1 f2 i idx ! j = (f1 * (i + j) + f2 * (i + j) ^ 2) mod L"
  using assms
proof (induction n arbitrary: i idx j)
  case (Suc n)
  obtain m where m: "i = Suc m" using Suc.prems by (cases i) auto
  let ?idx = "(idx + f1 + 2 * i * f2 - f2) mod L"
  have "?idx = (idx + (f1 + 2 * m * f2 + f2)) mod L" by (simp add: m algebra_simps)
  also have "\<dots> = ((f1 * m + f2 * m ^ 2) + (f1 + 2 * m * f2 + f2)) mod L"
    using Suc.prems m by (simp add: mod_add_left_eq)
  also have "(f1 * m + f2 * m ^ 2) + (f1 + 2 * m * f2 + f2) = f1 * i + f2 * i ^ 2"
    by (simp add: m power2_eq_square algebra_simps)
  finally have idx: "?idx = (f1 * i + f2 * i ^ 2) mod L" .
  show ?case
  proof (cases j)
    case 0
    then show ?thesis using idx by (simp add: Let_def)
  next
    case (Suc k)
    then show ?thesis
      using Suc.IH [of ?idx "i + 1" k] Suc.prems idx by (simp add: Let_def)
  qed
qed simp

lemma length_lte_per_loop [simp]: "length (lte_per_loop n L f1 f2 i idx) = n"
  by (induction n arbitrary: i idx) (simp_all add: Let_def)

lemma lte_per_quadratic:
  assumes "0 < L" "per = 0 # lte_per_loop (L - 1) L f1 f2 1 0" "i < L"
  shows "per ! i = (f1 * i + f2 * i ^ 2) mod L" "length per = L"
  using assms lte_per_loop_nth [of 0 f1 1 f2 L "i - 1" "L - 1"] by (cases i; simp)+

lemma coprime_dvd_power:
  fixes K :: nat
  assumes "coprime f1 K" "K dvd f2 ^ n"
  shows "coprime (f1 + f2 * x) K"
proof (rule coprimeI)
  fix d assume d: "d dvd f1 + f2 * x" "d dvd K"
  have "int d dvd int f1 - (- int (f2 * x))"
    using d(1) by (metis diff_minus_eq_add int_dvd_int_iff of_nat_add)
  then have "int f1 mod int d = (- int (f2 * x)) mod int d" by (simp add: mod_eq_dvd_iff)
  then have "int f1 ^ n mod int d = (- int (f2 * x)) ^ n mod int d" by (metis power_mod)
  moreover have "int d dvd (- int (f2 * x)) ^ n"
  proof -
    have "d dvd (f2 * x) ^ n" using d(2) assms(2) by (simp add: power_mult_distrib) (meson dvd_mult2 dvd_trans)
    then have "int d dvd int (f2 * x) ^ n" by (metis int_dvd_int_iff of_nat_power)
    then show ?thesis by (subst power_minus) (rule dvd_mult)
  qed
  ultimately have "int d dvd int f1 ^ n" by (metis dvd_eq_mod_eq_0)
  then have "d dvd f1 ^ n" by (metis int_dvd_int_iff of_nat_power)
  then show "is_unit d"
    using assms(1) d(2) by (metis coprime_common_divisor coprime_power_left_iff)
qed

lemma quadratic_inj:
  fixes K :: nat
  assumes co: "coprime f1 K" "K dvd f2 ^ n" and i: "i < j" "j < K"
  shows "(f1 * i + f2 * i ^ 2) mod K \<noteq> (f1 * j + f2 * j ^ 2) mod K"
proof
  let ?f = "\<lambda>i. f1 * i + f2 * i ^ 2"
  assume "?f i mod K = ?f j mod K"
  moreover have le: "?f i \<le> ?f j" using i by (intro add_mono mult_left_mono power_mono) auto
  ultimately have "K dvd ?f j - ?f i" by (metis mod_eq_dvd_iff_nat)
  moreover have "?f j - ?f i = (j - i) * (f1 + f2 * (i + j))"
  proof -
    obtain d where d: "j = i + d" using i by (metis less_imp_add_positive)
    show ?thesis by (simp add: d power2_eq_square algebra_simps)
  qed
  ultimately have "K dvd (j - i) * (f1 + f2 * (i + j))" by simp
  moreover have "coprime K (f1 + f2 * (i + j))"
    using coprime_dvd_power [OF co] by (simp add: coprime_commute)
  ultimately have "K dvd j - i" by (simp add: coprime_dvd_mult_left_iff)
  then show False using i by (auto dest: dvd_imp_le)
qed

lemma lte_table_check:
  "list_all (\<lambda>(k, f1, f2). 0 < k \<and> mcd f1 k = 1 \<and> f2 ^ 7 mod k = 0) (zip k_list (zip f1_list f2_list))"
  unfolding k_list_def f1_list_def f2_list_def by (simp add: mcd.simps)

lemma lte_params_table:
  assumes "lte_params L tab = Some (f1, f2)" "(L, f1', f2') \<in> set tab" "sorted (map fst tab)" "distinct (map fst tab)"
  shows "(L, f1, f2) \<in> set tab"
  using assms
proof (induction tab)
  case (Cons a tab)
  obtain k g1 g2 where a: "a = (k, g1, g2)" by (cases a)
  show ?case
  proof (cases "k \<ge> L")
    case True
    then have "(L, f1', f2') = a \<or> k < L"
      using Cons.prems(2,3,4) a by (force simp: image_iff)
    then show ?thesis using True Cons.prems(1) a by auto
  next
    case False
    then show ?thesis using Cons a by auto
  qed
qed simp

lemma lte_params_found: "x \<in> set tab \<Longrightarrow> L \<le> fst x \<Longrightarrow> lte_params L tab \<noteq> None"
  by (induction tab) auto

lemma k_list_sorted: "sorted_wrt (<) k_list"
  unfolding k_list_def by (simp add: sorted_wrt2 sorted_wrt1 del: sorted_wrt.simps(2))

lemma lte_tables_zip: "map fst (zip k_list (zip f1_list f2_list)) = k_list"
  by (rule map_fst_zip) (simp add: k_list_def f1_list_def f2_list_def)

lemma lte_permutation:
  assumes "L \<in> set k_list" "L \<le> MAX_LONG_CB"
  shows "\<exists>per desper. ComputeLTEPermutation L = Some (per, desper) \<and> is_perm L per
     \<and> length desper = L \<and> (\<forall>i < L. desper ! (per ! i) = i)"
proof -
  let ?tab = "zip k_list (zip f1_list f2_list)"
  obtain f1' f2' where t: "(L, f1', f2') \<in> set ?tab"
    using assms lte_tables_zip by (metis (no_types, lifting) image_iff list.set_map prod.exhaust_sel)
  have sd: "sorted (map fst ?tab)" "distinct (map fst ?tab)"
    unfolding lte_tables_zip using k_list_sorted
    by (simp_all add: strict_sorted_iff)
  have "lte_params L ?tab \<noteq> None" by (rule lte_params_found [OF t]) simp
  then obtain f1 f2 where f: "lte_params L ?tab = Some (f1, f2)" by auto
  have "(L, f1, f2) \<in> set ?tab" by (rule lte_params_table [OF f t sd])
  then have "0 < L \<and> mcd f1 L = 1 \<and> f2 ^ 7 mod L = 0"
    using lte_table_check by (auto simp: list_all_iff)
  then have L: "0 < L" and co: "coprime f1 L" "L dvd f2 ^ 7"
    by (auto simp: mcd_gcd coprime_iff_gcd_eq_1)
  let ?per = "0 # lte_per_loop (L - 1) L f1 f2 1 0"
  note q = lte_per_quadratic [OF L refl, of _ f1 f2]
  have len: "length ?per = L" using L by simp
  have "distinct ?per"
  proof (rule distinct_conv_nth [THEN iffD2], intro allI impI)
    fix i j assume "i < length ?per" "j < length ?per" "i \<noteq> j"
    then show "?per ! i \<noteq> ?per ! j"
      unfolding len using quadratic_inj [OF co, of i j] quadratic_inj [OF co, of j i]
      by (metis linorder_neqE_nat q(1))
  qed
  moreover have "set ?per \<subseteq> {..<L}"
  proof
    fix x assume "x \<in> set ?per"
    then obtain i where "i < L" "x = ?per ! i" using len by (metis in_set_conv_nth)
    then show "x \<in> {..<L}" using q(1) [of i] L by simp
  qed
  ultimately have p: "is_perm L ?per" using len by (simp add: is_perm_def)
  show ?thesis
    using f p desper_inverse [OF p] L assms(2) by (auto simp: ComputeLTEPermutation_def Let_def)
qed

section \<open>The UMTS interleaver is a permutation\<close>

lemma length_umts_s [simp]: "length (umts_s n p v x) = n"
  by (induction n arbitrary: x) simp_all

lemma umts_s_nth: "i < n \<Longrightarrow> x < p \<Longrightarrow> umts_s n p v x ! i = (v ^ i * x) mod p"
proof (induction n arbitrary: i x)
  case (Suc n)
  show ?case
  proof (cases i)
    case (Suc k)
    have "v * x mod p < p" using Suc.prems by (metis mod_less_divisor gr_zeroI less_nat_zero_code)
    then have "umts_s n p v (v * x mod p) ! k = v ^ k * (v * x mod p) mod p"
      using Suc.IH [of k "v * x mod p"] Suc.prems Suc by simp
    also have "\<dots> = (v ^ Suc k * x) mod p" by (metis mod_mult_right_eq mult.assoc power_Suc2)
    finally show ?thesis using Suc by simp
  qed (use Suc.prems in simp)
qed simp

text \<open>The powers of v are pairwise different when none of them but the first is 1.\<close>

lemma umts_s_distinct:
  assumes "1 < p" "coprime v p" "1 \<notin> set (tl (umts_s n p v 1))"
  shows "distinct (umts_s n p v 1)"
proof (rule distinct_conv_nth [THEN iffD2], intro allI impI)
  have key: "umts_s n p v 1 ! i \<noteq> umts_s n p v 1 ! j" if "i < j" "j < n" for i j
  proof
    assume "umts_s n p v 1 ! i = umts_s n p v 1 ! j"
    then have "v ^ j mod p = v ^ i mod p" using that assms(1) by (simp add: umts_s_nth)
    moreover have "v ^ i \<le> v ^ j"
      using that assms(1,2) by (intro power_increasing) (auto simp: Suc_le_eq intro: gr0I)
    ultimately have "p dvd v ^ j - v ^ i" by (metis mod_eq_dvd_iff_nat)
    moreover have "v ^ j - v ^ i = v ^ i * (v ^ (j - i) - 1)"
      using that by (simp add: algebra_simps flip: power_add)
    moreover have "coprime p (v ^ i)" using assms(2) by (simp add: coprime_commute)
    ultimately have "p dvd v ^ (j - i) - 1" by (simp add: coprime_dvd_mult_right_iff)
    moreover have "1 \<le> v ^ (j - i)" using assms(1,2) by (cases "v = 0") (auto simp: Suc_le_eq)
    ultimately have "v ^ (j - i) mod p = 1" using assms(1) by (metis mod_eq_dvd_iff_nat mod_less)
    then have "umts_s n p v 1 ! (j - i) = 1" using that assms(1) by (simp add: umts_s_nth)
    then have "tl (umts_s n p v 1) ! (j - i - 1) = 1" using that by (simp add: nth_tl Suc_diff_Suc)
    moreover have "j - i - 1 < length (tl (umts_s n p v 1))" using that by simp
    ultimately show False using assms(3) by (metis nth_mem)
  qed
  fix i j assume "i < length (umts_s n p v 1)" "j < length (umts_s n p v 1)" "i \<noteq> j"
  then show "umts_s n p v 1 ! i \<noteq> umts_s n p v 1 ! j"
    using key [of i j] key [of j i] by (metis length_umts_s linorder_neqE_nat)
qed

lemma umts_s_range:
  assumes "1 < p" "coprime v p" "x \<in> set (umts_s n p v 1)"
  shows "1 \<le> x \<and> x < p"
proof -
  obtain i where i: "i < n" "x = v ^ i mod p"
    using assms(1,3) by (auto simp: in_set_conv_nth umts_s_nth)
  have "coprime (v ^ i) p" using assms(2) by simp
  then have "\<not> p dvd v ^ i" using assms(1) by (metis coprime_common_divisor dvd_refl nat_dvd_1_iff_1 less_irrefl)
  then show ?thesis using i assms(1) by (auto simp: dvd_eq_mod_eq_0 Suc_le_eq)
qed

lemma no_one_numeral:
  "no_one (numeral k) p v x = (if v * x mod p = 1 then False else no_one (pred_numeral k) p v (v * x mod p))"
  by (simp add: numeral_eq_Suc)

lemma no_one_spec: "no_one n p v x \<Longrightarrow> 1 \<notin> set (tl (umts_s (Suc n) p v x))"
proof (induction n arbitrary: x)
  case (Suc n)
  have "umts_s (Suc n) p v (v * x mod p) = v * x mod p # tl (umts_s (Suc n) p v (v * x mod p))" by simp
  then have "set (umts_s (Suc n) p v (v * x mod p)) = insert (v * x mod p) (set (tl (umts_s (Suc n) p v (v * x mod p))))"
    by (metis list.set(2))
  then show ?case using Suc by (simp split: if_splits del: umts_s.simps(2) add: umts_s.simps(2) [of "Suc n" p v x])
qed simp

lemma umts_table_check:
  "list_all (\<lambda>(p, v). 2 < p \<and> mcd v p = 1 \<and> no_one (p - 2) p v 1) (zip table_p table_v)"
  unfolding table_p_def table_v_def by (simp add: mcd.simps no_one_numeral)

lemma umts_pv_ok:
  assumes "umts_pv L R = Some (p, v)"
  shows "2 < p" "coprime v p" "1 \<notin> set (tl (umts_s (p - 1) p v 1))"
proof -
  have search: "umts_search L R tab = Some (p, v) \<Longrightarrow> (p, v) \<in> set tab" for tab
    by (induction tab) (auto split: if_splits)
  have "(53, 2) \<in> set (zip table_p table_v)" by (simp add: table_p_def table_v_def)
  with assms have "(p, v) \<in> set (zip table_p table_v)"
    by (auto simp: umts_pv_def search split: if_splits)
  then have t: "2 < p" "mcd v p = 1" "no_one (p - 2) p v 1"
    using umts_table_check by (auto simp: list_all_iff)
  then have "Suc (p - 2) = p - 1" by simp
  with t no_one_spec [of "p - 2" p v 1] show "2 < p" "coprime v p" "1 \<notin> set (tl (umts_s (p - 1) p v 1))"
    by (simp_all add: mcd_gcd coprime_iff_gcd_eq_1)
qed

lemma umts_fits:
  assumes "umts_pv L (umts_rows L) = Some (p, v)"
  shows "L \<le> umts_rows L * umts_cols L (umts_rows L) p"
proof -
  have search: "umts_search L R tab = Some (p, v) \<Longrightarrow> L \<le> R * (p + 1)" for tab R
    by (induction tab) (auto split: if_splits)
  have "L \<le> umts_rows L * (p + 1)"
    using assms by (auto simp: umts_pv_def umts_rows_def search dest: search split: if_splits)
  then show ?thesis by (auto simp: umts_cols_def)
qed

lemma umts_T_perm: "is_perm (umts_rows L) (umts_T L)"
  by (auto simp: is_perm_def umts_T_def umts_rows_def)

lemma umts_r_coprime:
  assumes T: "is_perm R T" and q: "length q = R" "\<forall>x \<in> set q. coprime x n" and i: "i < R"
  shows "coprime (umts_r R T q ! i) n"
proof -
  obtain k where k: "k < R" "T ! k = i"
    using is_perm_set [OF T] T i by (metis in_set_conv_nth is_perm_def lessThan_iff)
  then have "umts_r R T q ! i = q ! k"
    using T fold_store_nth(1) [of T R "replicate R 0" R k "\<lambda>i. q ! i"]
    by (simp add: umts_r_def is_perm_def)
  then show ?thesis using q k by simp
qed

lemma mult_mod_inj:
  fixes r n :: nat
  assumes "coprime r n" "i < n" "j < n" "i * r mod n = j * r mod n"
  shows "i = j"
  using assms(2-4)
proof (induction i j rule: linorder_wlog)
  case (le a b)
  then have "n dvd b * r - a * r" by (metis mod_eq_dvd_iff_nat mult_le_mono1)
  then have "n dvd (b - a) * r" by (simp add: diff_mult_distrib)
  then have "n dvd b - a" using assms(1) by (simp add: coprime_dvd_mult_left_iff coprime_commute)
  then show ?case using le by (metis diff_is_0_eq dvd_imp_le le_antisym less_imp_diff_less not_less zero_less_iff_neq_zero)
qed simp

lemma umts_base:
  assumes p: "2 < p" and v: "coprime v p" "1 \<notin> set (tl (umts_s (p - 1) p v 1))" and r: "coprime r (p - 1)"
  shows "distinct (map (\<lambda>j. umts_s (p - 1) p v 1 ! (j * r mod (p - 1))) [0..<p - 1])"
    "set (map (\<lambda>j. umts_s (p - 1) p v 1 ! (j * r mod (p - 1))) [0..<p - 1]) \<subseteq> {1..<p}"
proof -
  let ?s = "umts_s (p - 1) p v 1"
  have idx: "j * r mod (p - 1) < p - 1" for j using p by simp
  have d: "distinct ?s" using umts_s_distinct p v by simp
  have "inj_on (\<lambda>j. ?s ! (j * r mod (p - 1))) {0..<p - 1}"
  proof (rule inj_onI)
    fix a b assume ab: "a \<in> {0..<p - 1}" "b \<in> {0..<p - 1}" "?s ! (a * r mod (p - 1)) = ?s ! (b * r mod (p - 1))"
    have l: "a * r mod (p - 1) < length ?s" "b * r mod (p - 1) < length ?s"
      unfolding length_umts_s by (rule idx)+
    from nth_eq_iff_index_eq [OF d l] ab(3) have "a * r mod (p - 1) = b * r mod (p - 1)" by (rule iffD1)
    moreover have "a < p - 1" "b < p - 1" using ab(1,2) by simp_all
    ultimately show "a = b" by (rule mult_mod_inj [OF r, rotated 2])
  qed
  then show "distinct (map (\<lambda>j. ?s ! (j * r mod (p - 1))) [0..<p - 1])"
    by (simp add: distinct_map)
  show "set (map (\<lambda>j. ?s ! (j * r mod (p - 1))) [0..<p - 1]) \<subseteq> {1..<p}"
  proof
    fix x assume "x \<in> set (map (\<lambda>j. ?s ! (j * r mod (p - 1))) [0..<p - 1])"
    then have "x \<in> set ?s" using idx by (auto intro!: nth_mem)
    then show "x \<in> {1..<p}" using umts_s_range [of p v x "p - 1"] p v by auto
  qed
qed

lemma is_perm_pred:
  assumes "distinct xs" "set xs \<subseteq> {1..<p}" "length xs = p - 1"
  shows "is_perm (p - 1) (map (\<lambda>x. x - 1) xs)"
proof -
  have "inj_on (\<lambda>x :: nat. x - 1) {1..<p}" by (auto simp: inj_on_def)
  then have "inj_on (\<lambda>x. x - 1) (set xs)" using assms(2) by (rule inj_on_subset)
  moreover have "x - 1 < p - 1" if "x \<in> set xs" for x
    using assms(2) that by (cases "x \<in> {1..<p}") auto
  ultimately show ?thesis using assms(1,3) by (auto simp: is_perm_def distinct_map)
qed

text \<open>Every row of U is a permutation of the columns.\<close>

lemma umts_U_perm:
  assumes p: "2 < p" "coprime v p" "1 \<notin> set (tl (umts_s (p - 1) p v 1))" and r: "coprime (r ! i) (p - 1)"
    and C: "C \<in> {p - 1, p, p + 1}"
  shows "is_perm C (umts_U L R C p (umts_s (p - 1) p v 1) r i)"
proof -
  let ?b = "map (\<lambda>j. umts_s (p - 1) p v 1 ! (j * r ! i mod (p - 1))) [0..<p - 1]"
  note b = umts_base [OF p r]
  have len: "length ?b = p - 1" by simp
  consider "C = p - 1" | "C = p" | "C = p + 1" using C by auto
  then show ?thesis
  proof cases
    case 1
    have "umts_U L R C p (umts_s (p - 1) p v 1) r i = map (\<lambda>x. x - 1) ?b"
      using 1 p(1) by (auto simp: umts_U_def Let_def)
    then show ?thesis using is_perm_pred [OF b len] 1 by simp
  next
    case 2
    have "umts_U L R C p (umts_s (p - 1) p v 1) r i = ?b @ [0]"
      using 2 p by (simp add: umts_U_def Let_def)
    moreover have "0 \<notin> set ?b" "set ?b \<subseteq> {..<p}" using b(2) by fastforce+
    ultimately show ?thesis using b(1) len 2 p by (simp add: is_perm_def)
  next
    case 3
    have z: "0 \<notin> set ?b" "p \<notin> set ?b" "set ?b \<subseteq> {..<p + 1}" using b(2) by fastforce+
    obtain x xs where x: "?b = x # xs" using p by (cases ?b) auto
    have row: "umts_U L R C p (umts_s (p - 1) p v 1) r i
        = (if L = C * R \<and> i = R - 1 then p # tl (?b @ [0]) @ [hd ?b] else ?b @ [0, p])"
      using 3 p by (simp add: umts_U_def Let_def)
    have "is_perm C (?b @ [0, p])" using z b(1) len 3 p by (simp add: is_perm_def)
    moreover have "is_perm C (p # tl (?b @ [0]) @ [hd ?b])"
      using z b(1) len 3 p unfolding x is_perm_def by auto
    moreover have "is_perm C (if Q then xs else ys)" if "is_perm C ys" "is_perm C xs" for Q xs ys
      using that by simp
    ultimately show ?thesis unfolding row by blast
  qed
qed

lemma is_perm_nth: "is_perm n xs \<Longrightarrow> i < n \<Longrightarrow> xs ! i < n"
  unfolding is_perm_def by (metis lessThan_iff nth_mem subsetD)

lemma is_perm_hit: "is_perm n xs \<Longrightarrow> x < n \<Longrightarrow> \<exists>i < n. xs ! i = x"
  by (metis in_set_conv_nth is_perm_def is_perm_set lessThan_iff)

lemma umts_per_perm:
  assumes T: "is_perm R T" and U: "length U = R" "\<forall>i < R. is_perm C (U ! i)" and L: "L \<le> R * C"
  shows "is_perm L (umts_per L R C T U)"
proof -
  let ?cells = "concat (map (\<lambda>j. map (\<lambda>i. T ! i * C + U ! i ! j) [0..<R]) [0..<C])"
  have "x \<in> set ?cells" if x: "x < R * C" for x
  proof -
    have C: "0 < C" using x by (cases C) auto
    have a: "x div C < R" using x by (simp add: less_mult_imp_div_less)
    have m: "x mod C < C" using C by simp
    from is_perm_hit [OF T a] obtain i where i: "i < R" "T ! i = x div C" by blast
    from i U(2) have "is_perm C (U ! i)" by simp
    from is_perm_hit [OF this m] obtain j where j: "j < C" "U ! i ! j = x mod C" by blast
    have "x = T ! i * C + U ! i ! j" using i j by simp
    with i(1) j(1) show ?thesis by (auto simp del: add_diff_assoc intro!: bexI [of _ j] image_eqI [of _ _ i])
  qed
  then have sup: "{..<R * C} \<subseteq> set ?cells" by auto
  have "length ?cells = C * R" by (simp add: length_concat comp_def sum_list_triv)
  then have "card (set ?cells) \<le> R * C" by (metis card_length mult.commute)
  moreover have "R * C \<le> card (set ?cells)" using card_mono [OF _ sup] by simp
  ultimately have card: "card (set ?cells) = R * C" by simp
  then have d: "distinct ?cells" using \<open>length ?cells = C * R\<close> by (metis card_distinct mult.commute)
  have set: "set ?cells = {..<R * C}" using card sup by (metis List.finite_set card_lessThan card_subset_eq)
  have "set (umts_per L R C T U) = {..<L}" using set L by (auto simp: umts_per_def)
  moreover have "distinct (umts_per L R C T U)" using d by (simp add: umts_per_def)
  ultimately show ?thesis by (metis card_lessThan distinct_card is_perm_def order_refl)
qed

lemma umts_search_found: "(p, v) \<in> set tab \<Longrightarrow> L \<le> R * (p + 1) \<Longrightarrow> umts_search L R tab \<noteq> None"
  by (induction tab) (auto split: if_splits)

lemma umts_pv_defined:
  assumes "L \<le> 5160"
  shows "umts_pv L (umts_rows L) \<noteq> None"
proof -
  have "(257, 3) \<in> set (zip table_p table_v)" by (simp add: table_p_def table_v_def)
  moreover have "L \<le> umts_rows L * (257 + 1)" using assms by (simp add: umts_rows_def)
  ultimately have "umts_search L (umts_rows L) (zip table_p table_v) \<noteq> None" by (rule umts_search_found)
  then show ?thesis by (simp add: umts_pv_def)
qed

lemma umts_pv_undefined:
  assumes "5160 < L"
  shows "umts_pv L (umts_rows L) = None"
proof -
  have "umts_search L 20 tab = None" if "\<forall>(p, v) \<in> set tab. p \<le> 257" for tab
    using that assms by (induction tab) auto
  moreover have "\<forall>(p, v) \<in> set (zip table_p table_v). p \<le> 257" by (simp add: table_p_def table_v_def)
  ultimately show ?thesis using assms by (simp add: umts_pv_def umts_rows_def)
qed

lemma table_p_le: "(p, v) \<in> set (zip table_p table_v) \<Longrightarrow> p = 257 \<or> p \<le> 251"
proof -
  have "\<forall>(p, v) \<in> set (zip table_p table_v). p = 257 \<or> p \<le> 251" by (simp add: table_p_def table_v_def)
  then show "(p, v) \<in> set (zip table_p table_v) \<Longrightarrow> p = 257 \<or> p \<le> 251" by blast
qed

lemma umts_search_in: "umts_search L R tab = Some pv \<Longrightarrow> pv \<in> set tab"
  by (induction tab) (auto split: if_splits)

text \<open>A block of at most 5120 bits never needs more than the 256 columns that U has room for.\<close>

lemma umts_matrix_fits:
  assumes "L \<le> 5120" "umts_pv L (umts_rows L) = Some (p, v)"
  shows "umts_rows L * umts_cols L (umts_rows L) p \<le> MAX_COLS * MAX_ROWS"
proof -
  have p: "p = 257 \<or> p \<le> 251"
    using assms(2) table_p_le [OF umts_search_in, of L "umts_rows L" p v] unfolding umts_pv_def by (auto split: if_splits)
  have R: "umts_rows L \<le> 20" "umts_rows L = 20 \<or> L \<le> 530" "5 \<le> umts_rows L" by (auto simp: umts_rows_def)
  have "umts_cols L (umts_rows L) p \<le> 256"
  proof (cases "p = 257")
    case True
    have "L \<le> umts_rows L * 256" using R assms(1) by auto
    then show ?thesis using True by (simp add: umts_cols_def)
  qed (use p in \<open>auto simp: umts_cols_def\<close>)
  then have "umts_rows L * umts_cols L (umts_rows L) p \<le> 20 * 256" by (rule mult_le_mono [OF R(1)])
  then show ?thesis by (simp add: MAX_COLS_def MAX_ROWS_def)
qed

text \<open>From 5121 bits on the matrix has 257 or 258 columns.\<close>

lemma umts_matrix_large:
  assumes "5120 < L" "umts_pv L (umts_rows L) = Some (p, v)"
  shows "p = 257 \<and> 257 \<le> umts_cols L (umts_rows L) p"
proof -
  have R: "umts_rows L = 20" and s: "umts_search L 20 (zip table_p table_v) = Some (p, v)"
    using assms by (simp_all add: umts_rows_def umts_pv_def)
  have "L \<le> 20 * (p + 1)" if "umts_search L 20 tab = Some (p, v)" for tab using that by (induction tab) (auto split: if_splits)
  then have "p = 257" using s assms(1) table_p_le [OF umts_search_in [OF s]] by fastforce
  then show ?thesis using R assms(1) by (simp add: umts_cols_def)
qed

lemma umts_permutation:
  assumes "L \<le> 5120"
  shows "\<exists>per desper. ComputeUMTSPermutation L = Some (per, desper) \<and> is_perm L per
     \<and> length desper = L \<and> (\<forall>i < L. desper ! (per ! i) = i)"
proof -
  let ?R = "umts_rows L"
  obtain p v where pv: "umts_pv L ?R = Some (p, v)" using umts_pv_defined [of L] assms by auto
  note ok = umts_pv_ok [OF pv]
  let ?C = "umts_cols L ?R p" and ?q = "1 # umts_q (?R - 1) 6 (p - 1)" and ?T = "umts_T L"
  let ?r = "umts_r ?R ?T ?q"
  let ?U = "map (umts_U L ?R ?C p (umts_s (p - 1) p v 1) ?r) [0..<?R]"
  have R: "0 < ?R" by (simp add: umts_rows_def)
  have q: "length ?q = ?R" "\<forall>x \<in> set ?q. coprime x (p - 1)"
    using R umts_q_coprime [of "p - 1"] ok(1) by auto
  have C: "?C \<in> {p - 1, p, p + 1}" by (simp add: umts_cols_def)
  have U: "\<forall>i < ?R. is_perm ?C (?U ! i)"
    using umts_U_perm [OF ok _ C] umts_r_coprime [OF umts_T_perm q] by simp
  have per: "is_perm L (umts_per L ?R ?C ?T ?U)"
    by (rule umts_per_perm [OF umts_T_perm _ U umts_fits [OF pv]]) simp
  have "length (desper_of L (umts_per L ?R ?C ?T ?U)) = L"
  proof (cases "L = 0")
    case False
    then show ?thesis using desper_inverse(2) [OF per, of 0] by simp
  qed (use per in \<open>simp add: is_perm_def desper_of_def\<close>)
  then show ?thesis
    using pv per desper_inverse(1) [OF per] umts_matrix_fits [OF assms pv]
    by (simp add: ComputeUMTSPermutation_def Let_def)
qed

section \<open>The coder\<close>

lemma turbo_main_systematic:
  "turbo_main ps s1 s2 = (os, e1, e2) \<Longrightarrow>
     length os = 3 * length ps \<and> (\<forall>i < length ps. os ! (3 * i) = fst (ps ! i))"
proof (induction ps arbitrary: s1 s2 os e1 e2)
  case (Cons a ps)
  obtain b1 b2 where a: "a = (b1, b2)" by (cases a)
  obtain o1 t1 where 1: "rsc_step b1 s1 = (o1, t1)" by (cases "rsc_step b1 s1")
  obtain o2 t2 where 2: "rsc_step b2 s2 = (o2, t2)" by (cases "rsc_step b2 s2")
  obtain os' u1 u2 where 3: "turbo_main ps t1 t2 = (os', u1, u2)" by (cases "turbo_main ps t1 t2")
  have os: "os = b1 # o1 # o2 # os'" using Cons.prems a 1 2 3 by simp
  have "os ! (3 * i) = fst ((a # ps) ! i)" if "i < length (a # ps)" for i
    using Cons.IH [OF 3] that a by (cases i) (simp_all add: os)
  then show ?case using Cons.IH [OF 3] by (simp add: os)
qed simp

text \<open>Three tail steps shift zeros into all three registers.\<close>

lemma turbo_tail_zero: "snd (turbo_tail 3 st) = (0, 0, 0)" "length (fst (turbo_tail 3 st)) = 6"
  by (cases st; simp add: numeral_3_eq_3 rsc_step_def rsc_tail_bit_def Let_def)+

section \<open>Properties\<close>

text \<open>C25. The UMTS interleaver is a bijection: for every block of at most 5120 bits, the largest for which the
  matrix U has room, ComputeUMTSPermutation ends without an access outside an array and returns in PER a permutation
  of the bit positions and in DESPER its inverse; for the blocks of 5121 to 5160 bits that the table of primes still
  serves, the matrix of 20 rows has at least 257 columns, more than the MAX_COLS of the array U.\<close>

theorem umts_interleaver_bijective:
  "(L \<le> 5120 \<longrightarrow> (\<exists>per desper. ComputeUMTSPermutation L = Some (per, desper) \<and> is_perm L per
     \<and> length desper = L \<and> (\<forall>i < L. desper ! (per ! i) = i)))
   \<and> (5120 < L \<and> L \<le> 5160 \<longrightarrow> (\<exists>v. umts_pv L (umts_rows L) = Some (257, v)
     \<and> MAX_COLS < umts_cols L (umts_rows L) 257 \<and> ComputeUMTSPermutation L = None))"
proof (intro conjI impI)
  assume "5120 < L \<and> L \<le> 5160"
  then have L: "5120 < L" "L \<le> 5160" by simp_all
  obtain p v where pv: "umts_pv L (umts_rows L) = Some (p, v)" using umts_pv_defined [OF L(2)] by auto
  have R: "umts_rows L = 20" using L(1) by (simp add: umts_rows_def)
  have v: "umts_pv L (umts_rows L) = Some (257, v)" "257 \<le> umts_cols L (umts_rows L) 257"
    using umts_matrix_large [OF L(1) pv] pv by auto
  then show "\<exists>v. umts_pv L (umts_rows L) = Some (257, v) \<and> MAX_COLS < umts_cols L (umts_rows L) 257
     \<and> ComputeUMTSPermutation L = None"
    using R by (simp add: ComputeUMTSPermutation_def Let_def MAX_COLS_def MAX_ROWS_def)
qed (rule umts_permutation)

theorem umts_interleaver_bijective_witness:
  "(\<exists>per desper. ComputeUMTSPermutation 5120 = Some (per, desper) \<and> is_perm 5120 per
     \<and> length desper = 5120 \<and> (\<forall>i < 5120. desper ! (per ! i) = i))
   \<and> (\<exists>v. umts_pv 5121 (umts_rows 5121) = Some (257, v) \<and> MAX_COLS < umts_cols 5121 (umts_rows 5121) 257
     \<and> ComputeUMTSPermutation 5121 = None)"
proof -
  have "(5120 :: nat) \<le> 5120" "(5120 :: nat) < 5121 \<and> (5121 :: nat) \<le> 5160" by simp_all
  then show ?thesis using umts_interleaver_bijective [of 5120] umts_interleaver_bijective [of 5121] by blast
qed

text \<open>The quadratic interleaver is a bijection for each of the block sizes of its table that fit into PER, with
  DESPER the inverse of PER.\<close>

theorem lte_interleaver_bijective:
  assumes "L \<in> set k_list" "L \<le> MAX_LONG_CB"
  shows "\<exists>per desper. ComputeLTEPermutation L = Some (per, desper) \<and> is_perm L per
     \<and> length desper = L \<and> (\<forall>i < L. desper ! (per ! i) = i)"
  using assms by (rule lte_permutation)

theorem lte_interleaver_bijective_witness:
  "\<exists>per desper. ComputeLTEPermutation 40 = Some (per, desper) \<and> is_perm 40 per
     \<and> length desper = 40 \<and> (\<forall>i < 40. desper ! (per ! i) = i)"
  by (rule lte_interleaver_bijective) (simp_all add: k_list_def MAX_LONG_CB_def)

text \<open>The turbo coder succeeds on every block of at most 5120 bits; it writes three bits per input
  bit and twelve tail bits, every third output bit is the input bit itself, and the tail bits
  bring both constituent coders back to the zero state.\<close>

theorem turbo_coder_spec:
  assumes "length input \<le> 5120"
  shows "\<exists>out. turbo_coder input = Some (out, (0, 0, 0), (0, 0, 0))
     \<and> length out = 3 * length input + 12 \<and> (\<forall>i < length input. out ! (3 * i) = input ! i)"
proof -
  let ?n = "length input"
  obtain per desper where per: "ComputeUMTSPermutation ?n = Some (per, desper)"
    using umts_permutation [OF assms] by blast
  let ?ps = "zip input (map (\<lambda>i. input ! (per ! i)) [0..<?n])"
  obtain main s1 s2 where main: "turbo_main ?ps (0, 0, 0) (0, 0, 0) = (main, s1, s2)"
    by (cases "turbo_main ?ps (0, 0, 0) (0, 0, 0)")
  obtain t1 t2 where t: "turbo_tail 3 s1 = (t1, (0, 0, 0))" "turbo_tail 3 s2 = (t2, (0, 0, 0))"
      "length t1 = 6" "length t2 = 6"
    using turbo_tail_zero [of s1] turbo_tail_zero [of s2] by (metis prod.collapse)
  have "turbo_coder input = Some (main @ t1 @ t2, (0, 0, 0), (0, 0, 0))"
    using per main t by (simp add: turbo_coder_def ComputePermutation_def PER_UMTS_def PER_LTE_def Let_def)
  moreover have "length main = 3 * ?n" "\<forall>i < ?n. main ! (3 * i) = input ! i"
    using turbo_main_systematic [OF main] by simp_all
  ultimately show ?thesis using t by (auto simp: nth_append)
qed

theorem turbo_coder_spec_witness:
  "\<exists>out. turbo_coder [1, 0, 1] = Some (out, (0, 0, 0), (0, 0, 0))
     \<and> length out = 3 * length [1, 0, 1 :: byte] + 12
     \<and> (\<forall>i < length [1, 0, 1 :: byte]. out ! (3 * i) = [1, 0, 1] ! i)"
  by (rule turbo_coder_spec) simp

text \<open>For blocks longer than 5160 bits, which the module's declared maximum of MAX_LONG_CB bits
  allows, the search for the prime p runs past the end of its table; and the table of the
  quadratic interleaver holds the size 6144, larger than the MAX_LONG_CB entries of PER.\<close>

theorem turbo_size_limits:
  "5160 < MAX_LONG_CB \<and> (\<forall>L > 5160. ComputeUMTSPermutation L = None)
   \<and> 6144 \<in> set k_list \<and> MAX_LONG_CB < 6144"
  by (auto simp: MAX_LONG_CB_def ComputeUMTSPermutation_def umts_pv_undefined k_list_def Let_def)

theorem turbo_size_limits_witness: "ComputeUMTSPermutation 6114 = None"
  using turbo_size_limits by simp

end
