(* ===== verification/Rate_Matching.thy ===== *)
theory Rate_Matching
  imports Prelude "HOL-Library.Monad_Syntax"
begin

text \<open>
  Rate matching of the LTE turbo code: modrep_osld/lte_ratematching/src/ratematching.c.

  The transmitter splits the coded block into three streams, interleaves each by columns,
  writes them to a circular buffer and reads outlen bits from it, skipping dummy bits; the
  receiver does the reverse on soft values. Bits and soft values are list elements of any
  type; d is the dummy bit and z the soft value zero. The loops run until they
  found outlen bits; they end at the latest where the int k0 + i overflows, which is the
  value None, as is an access outside an array: the local arrays of MAXCODEDSIZE or a third
  of it, and the output of room samples. The theory shows that the receiver recovers every bit when at
  least as many bits are sent as the block has.
\<close>

section \<open>Splitting and joining the three streams\<close>

fun float_wrap :: "'a list \<Rightarrow> 'a list \<Rightarrow> 'a list \<Rightarrow> 'a list" where
  "float_wrap (a # as) (b # bs) (c # cs) = a # b # c # float_wrap as bs cs"
| "float_wrap _ _ _ = []"

fun char_unwrap :: "'a list \<Rightarrow> 'a list \<times> 'a list \<times> 'a list" where
  "char_unwrap (a # b # c # xs) = (let (as, bs, cs) = char_unwrap xs in (a # as, b # bs, c # cs))"
| "char_unwrap _ = ([], [], [])"

section \<open>Sub-block interleaver\<close>

definition PERM :: "nat list" where
  "PERM = [0, 16, 8, 24, 4, 20, 12, 28, 2, 18, 10, 26, 6, 22, 14, 30,
     1, 17, 9, 25, 5, 21, 13, 29, 3, 19, 11, 27, 7, 23, 15, 31]"

definition rm_rows :: "nat \<Rightarrow> nat" where
  "rm_rows inlen = (inlen - 1) div 32 + 1"

text \<open>The index computed for position k; the subtraction loop is the remainder.\<close>

definition rm_index :: "nat \<Rightarrow> nat \<Rightarrow> nat" where
  "rm_index rows k = (PERM ! (k div rows) + 32 * (k mod rows)) mod (32 * rows)"

definition char_interleave :: "'a \<Rightarrow> 'a list \<Rightarrow> 'a list" where
  "char_interleave d inp =
     (let rows = rm_rows (length inp); blk = 32 * rows; padded = inp @ replicate (blk - length inp) d
      in map (\<lambda>k. padded ! rm_index rows k) [0..<blk])"

definition float_deinterleave :: "'a \<Rightarrow> 'a list \<Rightarrow> 'a list" where
  "float_deinterleave z inp =
     (let rows = length inp div 32
      in fold (\<lambda>k out. out[rm_index rows k := inp ! k]) [0..<length inp] (replicate (length inp) z))"

section \<open>Circular buffer\<close>

definition MAXCODEDSIZE :: nat where "MAXCODEDSIZE = 6144 * 3 + 32"
definition OUTPUT_MAX_SAMPLES :: nat where "OUTPUT_MAX_SAMPLES = 3 * 6114 + 12"

definition circ_buffer :: "'a list \<Rightarrow> 'a list \<Rightarrow> 'a list \<Rightarrow> 'a list" where
  "circ_buffer s0 s1 s2 = s0 @ concat (map (\<lambda>(a, b). [a, b]) (zip s1 s2))"

text \<open>The first position; None for an overflow of the int.\<close>

definition rm_k0 :: "nat \<Rightarrow> int \<Rightarrow> int option" where
  "rm_k0 interleaversize rvidx =
     (let R = interleaversize div 32; k0 = int R * (2 * int ((3 * interleaversize - 1) div (8 * R) + 1) * rvidx + 2)
      in if in_int32 k0 then Some k0 else None)"

text \<open>The loop of char_ratematching; None for an overflow of k0 + i and for a negative index.\<close>

function rm_loop :: "'a list \<Rightarrow> 'a \<Rightarrow> int \<Rightarrow> nat \<Rightarrow> nat \<Rightarrow> 'a list option" where
  "rm_loop buf d k0 i n = (if n = 0 then Some []
     else if k0 + int i < 0 \<or> 2 ^ 31 \<le> k0 + int i then None
     else let bit = buf ! (nat (k0 + int i) mod length buf)
          in if bit \<noteq> d then map_option (\<lambda>out. bit # out) (rm_loop buf d k0 (i + 1) (n - 1))
             else rm_loop buf d k0 (i + 1) n)"
  by pat_completeness auto

termination
  by (relation "measure (\<lambda>(buf, d, k0, i, n). nat (2 ^ 31 - (k0 + int i)))") auto

declare rm_loop.simps [simp del]

definition char_ratematching :: "'a \<Rightarrow> 'a list \<Rightarrow> 'a list \<Rightarrow> 'a list \<Rightarrow> nat \<Rightarrow> nat \<Rightarrow> int \<Rightarrow> 'a list option" where
  "char_ratematching d s0 s1 s2 room outlen rvidx =
     (if 3 * length s0 > MAXCODEDSIZE then None
      else do {
        k0 \<leftarrow> rm_k0 (length s0) rvidx;
        if outlen > room then None else rm_loop (circ_buffer s0 s1 s2) d k0 0 outlen })"

text \<open>The loop of float_unratematching; the remainder of C is negative for a negative k0 + i.\<close>

function unrm_loop :: "'a list \<Rightarrow> 'a \<Rightarrow> int \<Rightarrow> nat \<Rightarrow> 'b \<Rightarrow> 'b list \<Rightarrow> 'b list \<Rightarrow> 'b list option" where
  "unrm_loop dm d k0 i z inp circ = (if inp = [] then Some circ
     else if 2 ^ 31 \<le> k0 + int i then None
     else let p = crem (k0 + int i) (int (length dm))
          in if p < 0 then None
             else if dm ! nat p \<noteq> d then unrm_loop dm d k0 (i + 1) z (tl inp) (circ[nat p := hd inp])
             else unrm_loop dm d k0 (i + 1) z inp (circ[nat p := z]))"
  by pat_completeness auto

termination
  by (relation "measure (\<lambda>(dm, d, k0, i, z, inp, circ). nat (2 ^ 31 - (k0 + int i)))") auto

declare unrm_loop.simps [simp del]

definition circ_split :: "nat \<Rightarrow> 'a list \<Rightarrow> 'a list \<times> 'a list \<times> 'a list" where
  "circ_split n circ = (take n circ, map (\<lambda>i. circ ! (2 * i + n)) [0..<n], map (\<lambda>i. circ ! (2 * i + n + 1)) [0..<n])"

definition float_unratematching ::
  "'a \<Rightarrow> 'b \<Rightarrow> 'b list \<Rightarrow> nat \<Rightarrow> int \<Rightarrow> 'a list \<Rightarrow> ('b list \<times> 'b list \<times> 'b list) option" where
  "float_unratematching d z inp interleaversize rvidx dummyMatrix =
     (if 3 * interleaversize > MAXCODEDSIZE then None
      else do {
        k0 \<leftarrow> rm_k0 interleaversize rvidx;
        circ \<leftarrow> unrm_loop dummyMatrix d k0 0 z inp (replicate (3 * interleaversize) z);
        Some (circ_split interleaversize circ) })"

text \<open>The dummy matrix is the circular buffer of a block of zeros (the bit b0); the arrays of getDummyMatrix have
  MAXCODEDSIZE / 3 elements.\<close>

definition dummy_matrix :: "'a \<Rightarrow> 'a \<Rightarrow> nat \<Rightarrow> 'a list" where
  "dummy_matrix d b0 codewordsize =
     (let m = char_interleave d (replicate codewordsize b0) in circ_buffer m m m)"

definition getDummyMatrix :: "'a \<Rightarrow> 'a \<Rightarrow> nat \<Rightarrow> 'a list option" where
  "getDummyMatrix d b0 codewordsize =
     (if 32 * rm_rows codewordsize > MAXCODEDSIZE div 3 then None else Some (dummy_matrix d b0 codewordsize))"

definition char_RM_block :: "'a \<Rightarrow> 'a list \<Rightarrow> nat \<Rightarrow> nat \<Rightarrow> int \<Rightarrow> 'a list option" where
  "char_RM_block d input room out_len rvidx =
     (let (b0, b1, b2) = char_unwrap input
      in if 32 * rm_rows (length b0) > MAXCODEDSIZE then None
         else char_ratematching d (char_interleave d b0) (char_interleave d b1) (char_interleave d b2) room out_len rvidx)"

text \<open>The blocks of float_UNRM_block have the size of those of getDummyMatrix; float_wrap writes all of them, the
  padding too, to the output.\<close>

definition float_UNRM_block :: "'a \<Rightarrow> 'a \<Rightarrow> 'b \<Rightarrow> 'b list \<Rightarrow> nat \<Rightarrow> nat \<Rightarrow> int \<Rightarrow> 'b list option" where
  "float_UNRM_block d b0 z input room outsize rvidx = do {
     dm \<leftarrow> getDummyMatrix d b0 ((outsize - 1) div 3 + 1);
     (i0, i1, i2) \<leftarrow> float_unratematching d z input (length dm div 3) rvidx dm;
     if length dm > room then None
     else Some (float_wrap (float_deinterleave z i0) (float_deinterleave z i1) (float_deinterleave z i2)) }"

section \<open>The interleaver index is a permutation\<close>

lemma rm_rows_pos: "0 < rm_rows n"
  by (simp add: rm_rows_def)

lemma rm_rows_ge: "n \<le> 32 * rm_rows n"
  unfolding rm_rows_def by presburger

lemma PERM_facts: "length PERM = 32" "distinct PERM" "i < 32 \<Longrightarrow> PERM ! i < 32"
proof -
  show "length PERM = 32" "distinct PERM" by (simp_all add: PERM_def)
  have "\<forall>x \<in> set PERM. x < 32" by (simp add: PERM_def)
  then show "i < 32 \<Longrightarrow> PERM ! i < 32" by (simp add: \<open>length PERM = 32\<close>)
qed

lemma rm_index_eq:
  assumes "0 < rows" "k < 32 * rows"
  shows "rm_index rows k = PERM ! (k div rows) + 32 * (k mod rows)" "rm_index rows k < 32 * rows"
proof -
  have a: "k div rows < 32" using assms by (simp add: less_mult_imp_div_less mult.commute)
  have "PERM ! (k div rows) + 32 * (k mod rows) < 32 * rows"
  proof -
    have "k mod rows \<le> rows - 1" using assms by (metis Suc_pred' less_Suc_eq_le mod_less_divisor)
    then have "32 * (k mod rows) \<le> 32 * (rows - 1)" by simp
    moreover have "32 * (rows - 1) + 32 = 32 * rows" using assms by (cases rows) auto
    ultimately show ?thesis using PERM_facts(3) [OF a] by linarith
  qed
  then show "rm_index rows k = PERM ! (k div rows) + 32 * (k mod rows)" "rm_index rows k < 32 * rows"
    by (simp_all add: rm_index_def)
qed

lemma rm_index_inj:
  assumes r: "0 < rows" and ij: "i < 32 * rows" "j < 32 * rows" "rm_index rows i = rm_index rows j"
  shows "i = j"
proof -
  have a: "i div rows < 32" "j div rows < 32" using ij by (simp_all add: less_mult_imp_div_less mult.commute)
  have eq: "PERM ! (i div rows) + 32 * (i mod rows) = PERM ! (j div rows) + 32 * (j mod rows)"
    using rm_index_eq [OF r] ij by simp
  have "i mod rows = j mod rows"
    using arg_cong [OF eq, of "\<lambda>x. x div 32"] PERM_facts(3) [OF a(1)] PERM_facts(3) [OF a(2)] by simp
  moreover from this eq have "i div rows = j div rows"
    using PERM_facts a by (simp add: nth_eq_iff_index_eq)
  ultimately show ?thesis by (metis div_mult_mod_eq)
qed

lemma rm_index_surj:
  assumes "0 < rows" "j < 32 * rows"
  shows "\<exists>k < 32 * rows. rm_index rows k = j"
proof -
  have "inj_on (rm_index rows) {..<32 * rows}"
    by (rule inj_onI) (use rm_index_inj [OF assms(1)] in auto)
  moreover have "rm_index rows ` {..<32 * rows} \<subseteq> {..<32 * rows}"
    using rm_index_eq(2) [OF assms(1)] by auto
  ultimately have "rm_index rows ` {..<32 * rows} = {..<32 * rows}"
    by (simp add: endo_inj_surj)
  then show ?thesis using assms(2) by (metis imageE lessThan_iff)
qed

lemma fold_scatter:
  assumes "inj_on f {..<n}" "\<And>k. k < n \<Longrightarrow> f k < length out" "m \<le> n"
  shows "length (fold (\<lambda>k out. out[f k := g k]) [0..<m] out) = length out"
    "k < m \<Longrightarrow> fold (\<lambda>k out. out[f k := g k]) [0..<m] out ! f k = g k"
proof -
  have len: "length (fold (\<lambda>k out. out[f k := g k]) [0..<m] out) = length out" for m
    by (induction m) simp_all
  show "length (fold (\<lambda>k out. out[f k := g k]) [0..<m] out) = length out" by (rule len)
  show "k < m \<Longrightarrow> fold (\<lambda>k out. out[f k := g k]) [0..<m] out ! f k = g k"
    using assms(3)
  proof (induction m)
    case (Suc m)
    show ?case
    proof (cases "k = m")
      case True
      then show ?thesis using assms(2) [of m] Suc.prems len [of m] by simp
    next
      case False
      then have "f k \<noteq> f m" using assms(1) Suc.prems by (auto simp: inj_on_def)
      then show ?thesis using Suc False by simp
    qed
  qed simp
qed

lemma length_char_interleave: "length (char_interleave d xs) = 32 * rm_rows (length xs)"
  by (simp add: char_interleave_def Let_def)

lemma char_interleave_nth:
  assumes "k < 32 * rm_rows (length xs)"
  shows "char_interleave d xs ! k = (xs @ replicate (32 * rm_rows (length xs) - length xs) d) ! rm_index (rm_rows (length xs)) k"
  using assms by (simp add: char_interleave_def Let_def)

lemma deinterleave_nth:
  assumes "length ys = 32 * rows" "0 < rows" "k < 32 * rows"
  shows "float_deinterleave z ys ! rm_index rows k = ys ! k" "length (float_deinterleave z ys) = 32 * rows"
proof -
  have inj: "inj_on (rm_index rows) {..<32 * rows}"
    by (rule inj_onI) (use rm_index_inj [OF assms(2)] in auto)
  show "float_deinterleave z ys ! rm_index rows k = ys ! k" "length (float_deinterleave z ys) = 32 * rows"
    using fold_scatter [OF inj, where out = "replicate (32 * rows) z" and m = "32 * rows" and g = "\<lambda>k. ys ! k"]
      rm_index_eq(2) [OF assms(2)] assms
    by (simp_all add: float_deinterleave_def Let_def)
qed

text \<open>De-interleaving values that agree with the interleaved block at the data positions.\<close>

lemma deinterleave_interleave:
  assumes ys: "length ys = 32 * rm_rows (length xs)"
    and agree: "\<And>k. k < 32 * rm_rows (length xs) \<Longrightarrow> rm_index (rm_rows (length xs)) k < length xs
        \<Longrightarrow> ys ! k = g (char_interleave d xs ! k)"
  shows "take (length xs) (float_deinterleave z ys) = map g xs"
proof (rule nth_equalityI)
  let ?rows = "rm_rows (length xs)"
  have len: "length (float_deinterleave z ys) = 32 * ?rows"
    using deinterleave_nth(2) [OF ys rm_rows_pos, of 0] rm_rows_pos [of "length xs"] by simp
  show "length (take (length xs) (float_deinterleave z ys)) = length (map g xs)"
    using len rm_rows_ge [of "length xs"] by simp
  fix i assume "i < length (take (length xs) (float_deinterleave z ys))"
  then have i: "i < length xs" by simp
  then have "i < 32 * ?rows" using rm_rows_ge [of "length xs"] by linarith
  then obtain k where k: "k < 32 * ?rows" "rm_index ?rows k = i"
    using rm_index_surj [OF rm_rows_pos] by blast
  have "float_deinterleave z ys ! i = ys ! k"
    using deinterleave_nth(1) [OF ys rm_rows_pos k(1)] k(2) by simp
  also have "\<dots> = g (xs ! i)"
    using agree [OF k(1)] k i by (simp add: char_interleave_nth nth_append)
  finally show "take (length xs) (float_deinterleave z ys) ! i = map g xs ! i" using i by simp
qed

section \<open>The circular buffer\<close>

text \<open>The positions of the circular buffer that the first F iterations from iteration i on visit.\<close>

definition visits :: "nat \<Rightarrow> nat \<Rightarrow> nat \<Rightarrow> nat \<Rightarrow> nat list" where
  "visits B k0 i F = map (\<lambda>t. (k0 + i + t) mod B) [0..<F]"

lemma visits_Suc: "visits B k0 i (Suc F) = (k0 + i) mod B # visits B k0 (Suc i) F"
  by (simp add: visits_def upt_conv_Cons map_Suc_upt [symmetric] del: upt_Suc)

lemma rm_loop_eq:
  assumes "n \<le> length (filter (\<lambda>j. buf ! j \<noteq> d) (visits (length buf) k0 i F))" "k0 + i + F \<le> 2 ^ 31"
  shows "rm_loop buf d (int k0) i n
     = Some (map (\<lambda>j. buf ! j) (take n (filter (\<lambda>j. buf ! j \<noteq> d) (visits (length buf) k0 i F))))"
  using assms
proof (induction F arbitrary: i n)
  case 0
  then show ?case by (simp add: visits_def rm_loop.simps)
next
  case (Suc F)
  show ?case
  proof (cases n)
    case 0
    then show ?thesis by (simp add: rm_loop.simps)
  next
    case n: (Suc m)
    have "\<not> 2 ^ 31 \<le> int k0 + int i" using Suc.prems(2) by simp
    moreover have "nat (int k0 + int i) = k0 + i" by simp
    ultimately show ?thesis
      using Suc.IH [of _ "Suc i"] Suc.prems n by (subst rm_loop.simps) (auto simp: visits_Suc Let_def)
  qed
qed

lemma visits_round:
  assumes "0 < B"
  shows "set (visits B k0 i B) = {..<B}" "distinct (visits B k0 i B)"
proof -
  have "visits B k0 i B = rotate (k0 + i) [0..<B]"
    by (rule nth_equalityI) (simp_all add: visits_def nth_rotate add.commute)
  then show "set (visits B k0 i B) = {..<B}" "distinct (visits B k0 i B)"
    by (simp_all add: atLeast0LessThan)
qed

lemma visits_add: "visits B k0 i (F + G) = visits B k0 i F @ visits B k0 (i + F) G"
  by (induction F arbitrary: i) (simp_all add: visits_Suc, simp add: visits_def)

text \<open>One round visits every position once; the first m hits are the m data positions.\<close>

lemma hits_round:
  assumes "0 < B" "B \<le> F"
  shows "length (filter P (visits B k0 i B)) = card {j. j < B \<and> P j}"
    "card {j. j < B \<and> P j} \<le> n \<Longrightarrow> {j. j < B \<and> P j} \<subseteq> set (take n (filter P (visits B k0 i F)))"
proof -
  let ?h = "filter P (visits B k0 i B)"
  have set: "set ?h = {j. j < B \<and> P j}" using visits_round [OF assms(1), of k0 i] by auto
  show len: "length ?h = card {j. j < B \<and> P j}"
    using visits_round [OF assms(1), of k0 i] set by (metis distinct_card distinct_filter)
  assume n: "card {j. j < B \<and> P j} \<le> n"
  obtain G where F: "F = B + G" using assms(2) le_Suc_ex by blast
  have "take n (filter P (visits B k0 i F)) = ?h @ take (n - length ?h) (filter P (visits B k0 (i + B) G))"
    using n len by (simp add: F visits_add)
  then show "{j. j < B \<and> P j} \<subseteq> set (take n (filter P (visits B k0 i F)))" using set by simp
qed

text \<open>Enough fuel: with a data bit in the buffer, n rounds deliver n bits.\<close>

lemma hits_many:
  assumes "0 < B" "\<exists>j < B. P j"
  shows "n \<le> length (filter P (visits B k0 i (n * B)))"
proof (induction n arbitrary: i)
  case (Suc n)
  have "0 < card {j. j < B \<and> P j}" using assms(2) by (auto simp: card_gt_0_iff)
  then have "1 \<le> length (filter P (visits B k0 i B))" using hits_round(1) [OF assms(1) order_refl] by simp
  then show ?case using Suc [of "i + B"] by (simp add: visits_add)
qed simp

lemma crem_nat: "crem (int a) (int b) = int (a mod b)"
  by (cases "a = 0"; cases "b = 0") (simp_all add: crem_def cdiv_def sgn_if zmod_int minus_div_mult_eq_mod)

lemma unrm_loop_written:
  assumes "length dm = B" "\<forall>j < B. dm ! j = d \<longleftrightarrow> buf ! j = d" "length circ = B" "0 < B" "k0 + i + F \<le> 2 ^ 31"
    "n \<le> length (filter (\<lambda>j. buf ! j \<noteq> d) (visits B k0 i F))"
  shows "\<exists>c. unrm_loop dm d (int k0) i z (map (\<lambda>j. g (buf ! j)) (take n (filter (\<lambda>j. buf ! j \<noteq> d) (visits B k0 i F)))) circ = Some c
     \<and> length c = B
     \<and> (\<forall>j < B. buf ! j \<noteq> d \<longrightarrow> c ! j = (if j \<in> set (take n (filter (\<lambda>j. buf ! j \<noteq> d) (visits B k0 i F)))
             then g (buf ! j) else circ ! j))"
  using assms(3,6,5)
proof (induction F arbitrary: i n circ)
  case 0
  then show ?case by (simp add: visits_def unrm_loop.simps)
next
  case (Suc F)
  let ?p = "(k0 + i) mod B"
  have p: "?p < B" using assms(4) by simp
  have q: "\<not> 2 ^ 31 \<le> int k0 + int i" "nat (crem (int k0 + int i) (int B)) = ?p" "\<not> crem (int k0 + int i) (int B) < 0"
    using Suc.prems(3) assms(4) crem_nat [of "k0 + i" B] by simp_all
  let ?h = "\<lambda>i. filter (\<lambda>j. buf ! j \<noteq> d) (visits B k0 i F)"
  show ?case
  proof (cases n)
    case 0
    then show ?thesis using Suc.prems by (simp add: unrm_loop.simps)
  next
    case n: (Suc m)
    show ?thesis
    proof (cases "buf ! ?p = d")
      case True
      then have "\<exists>c. unrm_loop dm d (int k0) (Suc i) z (map (\<lambda>j. g (buf ! j)) (take n (?h (Suc i)))) (circ[?p := z]) = Some c
         \<and> length c = B \<and> (\<forall>j < B. buf ! j \<noteq> d \<longrightarrow> c ! j = (if j \<in> set (take n (?h (Suc i)))
             then g (buf ! j) else circ[?p := z] ! j))"
        using Suc.prems by (intro Suc.IH) (simp_all add: visits_Suc)
      moreover have "circ[?p := z] ! j = circ ! j" if "buf ! j \<noteq> d" for j
        using True that by (metis nth_list_update_neq)
      moreover have "map (\<lambda>j. g (buf ! j)) (take n (?h (Suc i))) \<noteq> []"
        using True Suc.prems n by (auto simp: visits_Suc)
      ultimately show ?thesis
        using True assms(1,2) p q by (subst unrm_loop.simps) (auto simp: visits_Suc Let_def)
    next
      case False
      then have "\<exists>c. unrm_loop dm d (int k0) (Suc i) z (map (\<lambda>j. g (buf ! j)) (take m (?h (Suc i)))) (circ[?p := g (buf ! ?p)]) = Some c
         \<and> length c = B \<and> (\<forall>j < B. buf ! j \<noteq> d \<longrightarrow> c ! j = (if j \<in> set (take m (?h (Suc i)))
             then g (buf ! j) else circ[?p := g (buf ! ?p)] ! j))"
        using Suc.prems n by (intro Suc.IH) (simp_all add: visits_Suc)
      then show ?thesis
        using False assms(1,2) p q n Suc.prems by (subst unrm_loop.simps) (auto simp: visits_Suc Let_def nth_list_update)
    qed
  qed
qed

section \<open>Streams and buffer layout\<close>

lemma char_unwrap_wrap:
  assumes "length xs = 3 * n" "char_unwrap xs = (b0, b1, b2)"
  shows "length b0 = n \<and> length b1 = n \<and> length b2 = n
     \<and> float_wrap (map g b0) (map g b1) (map g b2) = map g xs
     \<and> set b0 \<subseteq> set xs \<and> set b1 \<subseteq> set xs \<and> set b2 \<subseteq> set xs"
  using assms
proof (induction n arbitrary: xs b0 b1 b2)
  case (Suc n)
  obtain a b c ys where xs: "xs = a # b # c # ys" "length ys = 3 * n"
    using Suc.prems(1) by (auto simp: length_Suc_conv numeral_3_eq_3)
  obtain c0 c1 c2 where c: "char_unwrap ys = (c0, c1, c2)" by (cases "char_unwrap ys")
  show ?case using Suc.IH [OF xs(2) c] Suc.prems(2) xs(1) c by auto
qed simp

lemma take_float_wrap:
  "n \<le> length a \<Longrightarrow> n \<le> length b \<Longrightarrow> n \<le> length c
    \<Longrightarrow> take (3 * n) (float_wrap a b c) = float_wrap (take n a) (take n b) (take n c)"
proof (induction n arbitrary: a b c)
  case (Suc n)
  have e: "3 * Suc n = Suc (Suc (Suc (3 * n)))" by simp
  show ?case using Suc unfolding e by (cases a; cases b; cases c) auto
qed simp

lemma circ_buffer_nth:
  assumes "length s0 = n" "length s1 = n" "length s2 = n" "i < n"
  shows "length (circ_buffer s0 s1 s2) = 3 * n" "circ_buffer s0 s1 s2 ! i = s0 ! i"
    "circ_buffer s0 s1 s2 ! (2 * i + n) = s1 ! i" "circ_buffer s0 s1 s2 ! (2 * i + n + 1) = s2 ! i"
proof -
  have pair: "length (concat (map (\<lambda>(a, b). [a, b]) ps)) = 2 * length ps" for ps :: "('a \<times> 'a) list"
    by (induction ps) auto
  have nth: "j < length ps \<Longrightarrow> concat (map (\<lambda>(a, b). [a, b]) ps) ! (2 * j) = fst (ps ! j)
      \<and> concat (map (\<lambda>(a, b). [a, b]) ps) ! Suc (2 * j) = snd (ps ! j)" for ps :: "('a \<times> 'a) list" and j
  proof (induction ps arbitrary: j)
    case (Cons p ps)
    then show ?case by (cases j; cases p) auto
  qed simp
  show "length (circ_buffer s0 s1 s2) = 3 * n" "circ_buffer s0 s1 s2 ! i = s0 ! i"
    using assms pair [of "zip s1 s2"] by (simp_all add: circ_buffer_def nth_append)
  show "circ_buffer s0 s1 s2 ! (2 * i + n) = s1 ! i" "circ_buffer s0 s1 s2 ! (2 * i + n + 1) = s2 ! i"
    using assms nth [of i "zip s1 s2"] by (simp_all add: circ_buffer_def nth_append)
qed

lemma circ_positions:
  assumes "j < 3 * (n :: nat)"
  obtains i where "i < n" "j = i" | i where "i < n" "j = 2 * i + n" | i where "i < n" "j = 2 * i + n + 1"
proof (cases "j < n")
  case False
  let ?i = "(j - n) div 2"
  have "?i < n" using assms False by (simp add: div_less_iff_less_mult)
  moreover have "j = 2 * ?i + n \<or> j = 2 * ?i + n + 1" using False by presburger
  ultimately show ?thesis using that by blast
qed (use that in blast)

lemma mset_char_interleave:
  "mset (char_interleave d xs) = mset xs + replicate_mset (32 * rm_rows (length xs) - length xs) d"
proof -
  let ?r = "rm_rows (length xs)" and ?B = "32 * rm_rows (length xs)"
  let ?p = "xs @ replicate (?B - length xs) d"
  have len: "length ?p = ?B" using rm_rows_ge [of "length xs"] by simp
  have d: "distinct (map (rm_index ?r) [0..<?B])"
    using rm_index_inj [OF rm_rows_pos] by (auto simp: distinct_map inj_on_def)
  have "set (map (rm_index ?r) [0..<?B]) = {0..<?B}"
    using rm_index_surj [OF rm_rows_pos] rm_index_eq(2) [OF rm_rows_pos] by (fastforce simp: image_iff)
  then have perm: "mset (map (rm_index ?r) [0..<?B]) = mset [0..<?B]"
    using d set_eq_iff_mset_eq_distinct [of "map (rm_index ?r) [0..<?B]" "[0..<?B]"] by (metis distinct_upt set_upt)
  have "mset (map (\<lambda>k. ?p ! rm_index ?r k) [0..<?B]) = mset (map (\<lambda>k. ?p ! k) (map (rm_index ?r) [0..<?B]))"
    unfolding list.map_comp comp_def ..
  also have "\<dots> = image_mset (\<lambda>k. ?p ! k) (mset (map (rm_index ?r) [0..<?B]))" by (rule mset_map)
  also have "\<dots> = image_mset (\<lambda>k. ?p ! k) (mset [0..<?B])" by (simp only: perm)
  also have "\<dots> = mset (map (\<lambda>k. ?p ! k) [0..<?B])" by (rule mset_map [symmetric])
  also have "map (\<lambda>k. ?p ! k) [0..<?B] = ?p" using len map_nth by metis
  finally show ?thesis by (simp add: char_interleave_def Let_def)
qed

lemma data_count:
  assumes "d \<notin> set xs"
  shows "length (filter (\<lambda>x. x \<noteq> d) (char_interleave d xs)) = length xs"
proof -
  have "filter_mset (\<lambda>x. x \<noteq> d) (mset xs) = mset xs"
    using assms by (auto simp: filter_mset_eq_conv)
  moreover have "filter_mset (\<lambda>x. x \<noteq> d) (replicate_mset n d) = {#}" for n by (induction n) simp_all
  moreover have "mset (filter (\<lambda>x. x \<noteq> d) (char_interleave d xs)) = filter_mset (\<lambda>x. x \<noteq> d) (mset (char_interleave d xs))"
    by simp
  ultimately have "mset (filter (\<lambda>x. x \<noteq> d) (char_interleave d xs)) = mset xs"
    by (simp only: mset_char_interleave filter_union_mset add_0_right)
  then show ?thesis by (metis size_mset)
qed

lemma interleave_dummy:
  assumes "d \<notin> set xs" "k < 32 * rm_rows (length xs)"
  shows "char_interleave d xs ! k = d \<longleftrightarrow> length xs \<le> rm_index (rm_rows (length xs)) k"
proof -
  have "rm_index (rm_rows (length xs)) k < 32 * rm_rows (length xs)" by (rule rm_index_eq [OF rm_rows_pos assms(2)])
  then show ?thesis
    using assms by (auto simp: char_interleave_nth nth_append not_le dest: nth_mem)
qed

section \<open>Transmitter and receiver\<close>

text \<open>The circular buffer of three interleaved blocks, its dummy positions and their number.\<close>

lemma circ_dummy_pattern:
  assumes l: "length a = n" "length b = n" "length c = n" and d: "d \<notin> set a \<union> set b \<union> set c" "b0 \<noteq> d"
    and j: "j < 3 * (32 * rm_rows n)"
  shows "dummy_matrix d b0 n ! j = d
     \<longleftrightarrow> circ_buffer (char_interleave d a) (char_interleave d b) (char_interleave d c) ! j = d"
proof -
  let ?B = "32 * rm_rows n"
  let ?z = "char_interleave d (replicate n b0)"
  have pat: "?z ! k = d \<longleftrightarrow> char_interleave d x ! k = d" if "length x = n" "d \<notin> set x" "k < ?B" for x k
    using interleave_dummy [of d x k] interleave_dummy [of d "replicate n b0" k] that d(2) by simp
  have len: "length ?z = ?B" "length (char_interleave d a) = ?B" "length (char_interleave d b) = ?B"
      "length (char_interleave d c) = ?B"
    using l by (simp_all add: length_char_interleave)
  from j show ?thesis
  proof (cases rule: circ_positions)
    case (1 i)
    then show ?thesis
      using circ_buffer_nth(2) [OF len(1,1,1)] circ_buffer_nth(2) [OF len(2-4)] pat [of a] l d
      by (simp add: dummy_matrix_def Let_def)
  next
    case (2 i)
    then show ?thesis
      using circ_buffer_nth(3) [OF len(1,1,1)] circ_buffer_nth(3) [OF len(2-4)] pat [of b] l d
      by (simp add: dummy_matrix_def Let_def)
  next
    case (3 i)
    then show ?thesis
      using circ_buffer_nth(4) [OF len(1,1,1)] circ_buffer_nth(4) [OF len(2-4)] pat [of c] l d
      by (simp add: dummy_matrix_def Let_def)
  qed
qed

lemma circ_data_count:
  assumes "length b = length c" "d \<notin> set a \<union> set b \<union> set c"
  shows "card {j. j < length (circ_buffer (char_interleave d a) (char_interleave d b) (char_interleave d c))
      \<and> circ_buffer (char_interleave d a) (char_interleave d b) (char_interleave d c) ! j \<noteq> d}
    = length a + length b + length c"
proof -
  have pair: "length xs = length ys \<Longrightarrow> length (filter P (concat (map (\<lambda>(a, b). [a, b]) (zip xs ys))))
      = length (filter P xs) + length (filter P ys)" for P and xs ys :: "'a list"
    by (induction xs ys rule: list_induct2) auto
  have "length (filter (\<lambda>x. x \<noteq> d) (circ_buffer (char_interleave d a) (char_interleave d b) (char_interleave d c)))
      = length a + length b + length c"
    using assms data_count [of d a] data_count [of d b] data_count [of d c]
    by (simp add: circ_buffer_def pair length_char_interleave)
  then show ?thesis by (simp add: length_filter_conv_card)
qed

lemma circ_split_nth:
  assumes "length c = 3 * n" "circ_split n c = (s0, s1, s2)"
  shows "length s0 = n" "length s1 = n" "length s2 = n"
    "i < n \<Longrightarrow> s0 ! i = c ! i" "i < n \<Longrightarrow> s1 ! i = c ! (2 * i + n)" "i < n \<Longrightarrow> s2 ! i = c ! (2 * i + n + 1)"
  using assms by (auto simp: circ_split_def)

text \<open>The transmitter: what it sends, and that the receiver's circular buffer gets every data bit back.\<close>

lemma rm_circ:
  fixes a b c :: "'a list" and g :: "'a \<Rightarrow> 'b"
  assumes l: "length a = n" "length b = n" "length c = n" and nd: "d \<notin> set a \<union> set b \<union> set c"
    and b0: "b0 \<noteq> d" and n: "0 < n" and out: "3 * n \<le> outlen" and fit: "k0 + outlen * (96 * rm_rows n) \<le> 2 ^ 31"
    and buf: "buf = circ_buffer (char_interleave d a) (char_interleave d b) (char_interleave d c)"
  shows "\<exists>y cc. rm_loop buf d (int k0) 0 outlen = Some y \<and> length y = outlen
     \<and> unrm_loop (dummy_matrix d b0 n) d (int k0) 0 z (map g y) (replicate (96 * rm_rows n) z) = Some cc
     \<and> length cc = 96 * rm_rows n \<and> (\<forall>j < 96 * rm_rows n. buf ! j \<noteq> d \<longrightarrow> cc ! j = g (buf ! j))"
proof -
  let ?B = "96 * rm_rows n"
  have len: "length (char_interleave d x) = 32 * rm_rows n" if "length x = n" for x
    using that by (simp add: length_char_interleave)
  have pos: "0 < 32 * rm_rows n" "0 < ?B" using rm_rows_pos [of n] by simp_all
  have B: "length buf = ?B"
    using circ_buffer_nth(1) [OF len [OF l(1)] len [OF l(2)] len [OF l(3)] pos(1)] by (simp add: buf)
  have dm: "length (dummy_matrix d b0 n) = ?B"
    using circ_buffer_nth(1) [of "char_interleave d (replicate n b0)", OF len len len pos(1)]
    by (simp add: dummy_matrix_def Let_def)
  have pat: "\<forall>j < ?B. dummy_matrix d b0 n ! j = d \<longleftrightarrow> buf ! j = d"
    using circ_dummy_pattern [OF l nd b0] by (simp add: buf)
  have cnt: "card {j. j < ?B \<and> buf ! j \<noteq> d} = 3 * n"
    using circ_data_count [of b c d a] l nd B by (simp add: buf)
  then have ex: "\<exists>j < ?B. buf ! j \<noteq> d" using n by (metis (mono_tags, lifting) card_gt_0_iff empty_Collect_eq nat_0_less_mult_iff zero_less_numeral)
  let ?hits = "filter (\<lambda>j. buf ! j \<noteq> d) (visits ?B k0 0 (outlen * ?B))"
  have hits: "outlen \<le> length ?hits"
    by (rule hits_many [OF pos(2) ex])
  let ?y = "map (\<lambda>j. buf ! j) (take outlen ?hits)"
  have y: "rm_loop buf d (int k0) 0 outlen = Some ?y" using rm_loop_eq [of outlen buf d k0 0 "outlen * ?B"] hits fit by (simp add: B)
  have F: "?B \<le> outlen * ?B" using out n by (cases outlen) auto
  have all: "{j. j < ?B \<and> buf ! j \<noteq> d} \<subseteq> set (take outlen ?hits)"
    using hits_round(2) [OF pos(2) F, of "\<lambda>j. buf ! j \<noteq> d" outlen k0 0] cnt out by simp
  have gy: "map g ?y = map (\<lambda>j. g (buf ! j)) (take outlen ?hits)" by simp
  obtain cc where "unrm_loop (dummy_matrix d b0 n) d (int k0) 0 z (map g ?y) (replicate ?B z) = Some cc" "length cc = ?B"
      "\<forall>j < ?B. buf ! j \<noteq> d \<longrightarrow> cc ! j = (if j \<in> set (take outlen ?hits) then g (buf ! j) else replicate ?B z ! j)"
    using unrm_loop_written [OF dm pat _ pos(2) _ hits, of "replicate ?B z" z g] fit unfolding gy by auto
  then show ?thesis using y all hits by (intro exI [of _ ?y] exI [of _ cc]) auto
qed

text \<open>One stream of the receiver.\<close>

lemma stream_back:
  assumes "length xs = n" "d \<notin> set xs" "length ys = 32 * rm_rows n"
    "\<And>k. k < 32 * rm_rows n \<Longrightarrow> char_interleave d xs ! k \<noteq> d \<Longrightarrow> ys ! k = g (char_interleave d xs ! k)"
  shows "take n (float_deinterleave z ys) = map g xs" "n \<le> length (float_deinterleave z ys)"
proof -
  have "take (length xs) (float_deinterleave z ys) = map g xs"
    using assms interleave_dummy [OF assms(2)] by (intro deinterleave_interleave [where d = d]) auto
  then show "take n (float_deinterleave z ys) = map g xs" using assms(1) by simp
  then have "length (take n (float_deinterleave z ys)) = n" using assms(1) by simp
  then show "n \<le> length (float_deinterleave z ys)" by simp
qed

lemma rm_k0_bound:
  assumes "0 < R" "R \<le> 191" "0 \<le> rvidx" "rvidx \<le> 3"
  shows "\<exists>k0. rm_k0 (32 * R) rvidx = Some (int k0)
    \<and> (\<forall>outlen \<le> OUTPUT_MAX_SAMPLES. k0 + outlen * (96 * R) \<le> 2 ^ 31)"
proof -
  have "(96 * R - 1) div (8 * R) = 11" using assms(1) by (intro div_nat_eqI) simp_all
  then have k: "rm_k0 (32 * R) rvidx = (if in_int32 (int R * (24 * rvidx + 2)) then Some (int R * (24 * rvidx + 2)) else None)"
    by (simp add: rm_k0_def Let_def algebra_simps)
  have "int R * (24 * rvidx + 2) \<le> 191 * 74" using assms by (intro mult_mono) auto
  moreover have "0 \<le> int R * (24 * rvidx + 2)" using assms(3) by simp
  ultimately have b: "in_int32 (int R * (24 * rvidx + 2))" "nat (int R * (24 * rvidx + 2)) \<le> 191 * 74"
    "int (nat (int R * (24 * rvidx + 2))) = int R * (24 * rvidx + 2)"
    by (simp_all add: in_int32_def)
  have "outlen * (96 * R) \<le> 18354 * (96 * 191)" if "outlen \<le> OUTPUT_MAX_SAMPLES" for outlen
    using that assms(2) by (intro mult_le_mono) (simp_all add: OUTPUT_MAX_SAMPLES_def)
  then have "\<forall>outlen \<le> OUTPUT_MAX_SAMPLES. nat (int R * (24 * rvidx + 2)) + outlen * (96 * R) \<le> 2 ^ 31"
    using b(2) by fastforce
  then show ?thesis using k b(1,3) by (intro exI [of _ "nat (int R * (24 * rvidx + 2))"]) simp
qed

lemma rm_unrm:
  fixes x :: "'a list" and g :: "'a \<Rightarrow> 'b"
  assumes x: "length x = 3 * n" "0 < n" "d \<notin> set x" "b0 \<noteq> d" and out: "length x \<le> outlen"
    and lim: "n \<le> 6112" "outlen \<le> OUTPUT_MAX_SAMPLES" "0 \<le> rvidx" "rvidx \<le> 3"
  shows "\<exists>y w. char_RM_block d x OUTPUT_MAX_SAMPLES outlen rvidx = Some y \<and> length y = outlen
     \<and> float_UNRM_block d b0 z (map g y) OUTPUT_MAX_SAMPLES (length x) rvidx = Some w \<and> take (length x) w = map g x"
proof -
  let ?B = "32 * rm_rows n"
  have rows: "rm_rows n \<le> 191" using div_le_mono [of "n - 1" 6111 32] lim(1) by (simp add: rm_rows_def)
  obtain k0 where k0: "rm_k0 ?B rvidx = Some (int k0)" "k0 + outlen * (96 * rm_rows n) \<le> 2 ^ 31"
    using rm_k0_bound [OF rm_rows_pos rows lim(3,4)] lim(2) rows by blast
  obtain a b c where abc: "char_unwrap x = (a, b, c)" by (cases "char_unwrap x")
  note uw = char_unwrap_wrap [OF x(1) abc]
  have l: "length a = n" "length b = n" "length c = n" using uw [of id] by auto
  have nd: "d \<notin> set a \<union> set b \<union> set c" using uw [of id] x(3) by auto
  let ?A = "char_interleave d a" and ?Bb = "char_interleave d b" and ?C = "char_interleave d c"
  have len: "length ?A = ?B" "length ?Bb = ?B" "length ?C = ?B" using l by (simp_all add: length_char_interleave)
  let ?buf = "circ_buffer ?A ?Bb ?C"
  obtain y cc where y: "rm_loop ?buf d (int k0) 0 outlen = Some y" "length y = outlen"
    and cc: "unrm_loop (dummy_matrix d b0 n) d (int k0) 0 z (map g y) (replicate (96 * rm_rows n) z) = Some cc"
      "length cc = 96 * rm_rows n" "\<forall>j < 96 * rm_rows n. ?buf ! j \<noteq> d \<longrightarrow> cc ! j = g (?buf ! j)"
    using rm_circ [OF l nd x(4,2) _ k0(2) refl, of z g] out x(1) by auto
  obtain i0 i1 i2 where sp: "circ_split ?B cc = (i0, i1, i2)" by (cases "circ_split ?B cc")
  have lc: "length cc = 3 * ?B" using cc(2) by simp
  note cs = circ_split_nth [OF lc sp]
  have v0: "i0 ! k = g (?A ! k)" if "k < ?B" "?A ! k \<noteq> d" for k
    using that cs(4) [of k] circ_buffer_nth(2) [OF len that(1)] cc(3) by simp
  have v1: "i1 ! k = g (?Bb ! k)" if "k < ?B" "?Bb ! k \<noteq> d" for k
    using that cs(5) [of k] circ_buffer_nth(3) [OF len that(1)] cc(3) by simp
  have v2: "i2 ! k = g (?C ! k)" if "k < ?B" "?C ! k \<noteq> d" for k
    using that cs(6) [of k] circ_buffer_nth(4) [OF len that(1)] cc(3) by simp
  have nds: "d \<notin> set a" "d \<notin> set b" "d \<notin> set c" using nd by auto
  note s0 = stream_back [OF l(1) nds(1) cs(1) v0, of z] and s1 = stream_back [OF l(2) nds(2) cs(2) v1, of z]
    and s2 = stream_back [OF l(3) nds(3) cs(3) v2, of z]
  let ?w = "float_wrap (float_deinterleave z i0) (float_deinterleave z i1) (float_deinterleave z i2)"
  have sub: "(length x - 1) div 3 + 1 = n" using x(1,2) by presburger
  have dl: "length (dummy_matrix d b0 n) = 3 * ?B"
    using circ_buffer_nth(1) [of "char_interleave d (replicate n b0)" ?B _ _ 0] rm_rows_pos [of n]
    by (simp add: dummy_matrix_def Let_def length_char_interleave)
  have room: "?B \<le> MAXCODEDSIZE div 3" "3 * ?B \<le> MAXCODEDSIZE" "3 * ?B \<le> OUTPUT_MAX_SAMPLES"
    using rows by (simp_all add: MAXCODEDSIZE_def OUTPUT_MAX_SAMPLES_def)
  have "float_UNRM_block d b0 z (map g y) OUTPUT_MAX_SAMPLES (length x) rvidx = Some ?w"
    unfolding float_UNRM_block_def sub getDummyMatrix_def float_unratematching_def using cc(1) sp room k0(1) dl by simp
  moreover have "take (length x) ?w = map g x"
    using take_float_wrap [OF s0(2) s1(2) s2(2)] s0(1) s1(1) s2(1) uw [of g] x(1) by simp
  moreover have "char_RM_block d x OUTPUT_MAX_SAMPLES outlen rvidx = Some y"
    using abc y room k0(1) lim(2) l(1) by (simp add: char_RM_block_def char_ratematching_def len Let_def)
  ultimately show ?thesis using y(2) by blast
qed

section \<open>Properties\<close>

text \<open>C26. When at least as many bits are sent as the coded block has, the receiver recovers the block: for a block of
  3 n bits with n at most 6112, which is what the output interface of the receiver has room for with the padding, a
  redundancy version from 0 to 3 and an output of at most OUTPUT_MAX_SAMPLES bits, both routines return without an
  access outside an array or an overflow of an int, the rate matcher returns outlen bits, and de-rate-matching the
  soft values g of the sent bits gives, in the first positions, the soft value of every bit of the block in order.\<close>

theorem rate_matching_roundtrip:
  assumes "length x = 3 * n" "0 < n" "n \<le> 6112" "d \<notin> set x" "b0 \<noteq> d" "length x \<le> outlen" "outlen \<le> OUTPUT_MAX_SAMPLES"
    "0 \<le> rvidx" "rvidx \<le> 3"
  shows "\<exists>y w. char_RM_block d x OUTPUT_MAX_SAMPLES outlen rvidx = Some y \<and> length y = outlen
     \<and> float_UNRM_block d b0 z (map g y) OUTPUT_MAX_SAMPLES (length x) rvidx = Some w \<and> take (length x) w = map g x"
  using rm_unrm [OF assms(1,2,4,5,6,3,7,8,9)] .

theorem rate_matching_roundtrip_witness:
  "\<exists>y w. char_RM_block (2 :: int) [1, 0, 1] OUTPUT_MAX_SAMPLES 4 3 = Some y \<and> length y = 4
     \<and> float_UNRM_block (2 :: int) 0 (0 :: int) (map (\<lambda>b. 2 * b - 1) y) OUTPUT_MAX_SAMPLES (length [1, 0, 1 :: int]) 3 = Some w
     \<and> take (length [1, 0, 1 :: int]) w = map (\<lambda>b. 2 * b - 1) [1, 0, 1]"
  by (rule rate_matching_roundtrip [where n = 1]) (simp_all add: OUTPUT_MAX_SAMPLES_def)

text \<open>The sub-block interleaver followed by the de-interleaver returns the block, for every block
  length; the padding never displaces a data element.\<close>

theorem interleave_roundtrip:
  "take (length xs) (float_deinterleave z (char_interleave d xs)) = xs"
  using deinterleave_interleave [of "char_interleave d xs" xs "\<lambda>x. x" d z] by (simp add: length_char_interleave)

end
