(* ===== verification/Scrambling.thy ===== *)
theory Scrambling
  imports Prelude
begin

text \<open>
  LTE scrambling: modrep_osld/lte_scrambling/src/scrambling.c and lte_scrambling.c.

  The scrambling sequence is the exclusive or of two shift register sequences, which the
  code computes 32 bits at a time, one bit of a word after the other. The reference is the
  recurrence of the sequences on single bits. Bits are scrambled either one by one
  (direct_scrambling) or packed into words (int_scrambling); soft bits, IEEE single precision
  numbers kept as bit patterns, are negated. The theory relates the generator to the
  recurrences, the packed routine to the direct one, and shows that descrambling undoes
  scrambling.
\<close>

unbundle bit_operations_syntax

section \<open>Parameters\<close>

record scrambling_params =
  sc_q :: int
  sc_Nc :: nat
  sc_cell_gr :: int
  sc_cell_sec :: int
  sc_nrnti :: int
  sc_nMBSFN :: int
  sc_channel :: int

definition NOF_SUBFRAMES :: nat where "NOF_SUBFRAMES = 10"
definition MAX_c :: nat where "MAX_c = 896"
definition MAX_x :: nat where "MAX_x = 946"

text \<open>Return value and the flags pbch and direct.\<close>

definition verify_params :: "scrambling_params \<Rightarrow> bool \<Rightarrow> bool \<Rightarrow> int \<times> bool \<times> bool" where
  "verify_params p pbch direct =
     (if sc_q p < 0 \<or> sc_q p > 1 then (-1, pbch, direct)
      else if sc_nrnti p < 0 \<or> sc_nrnti p > 65535 then (-1, pbch, direct)
      else if sc_cell_gr p < 0 \<or> sc_cell_gr p > 167 then (-1, pbch, direct)
      else if sc_cell_sec p < 0 \<or> sc_cell_sec p > 2 then (-1, pbch, direct)
      else if sc_channel p < 0 \<or> sc_channel p > 5 then (-1, pbch, direct)
      else if sc_channel p = 3 then (0, True, True)
      else (0, False, direct))"

definition x2init :: "scrambling_params \<Rightarrow> 32 word list" where
  "x2init p = (let N_cell = 3 * sc_cell_gr p + sc_cell_sec p in
     map (\<lambda>n. word_of_int
       (if sc_channel p = 0 then sc_nrnti p * 2 ^ 14 + sc_q p * 2 ^ 13 + int n * 2 ^ 9 + N_cell
        else if sc_channel p = 1 then (int n + 1) * (2 * N_cell + 1) * 2 ^ 9 + N_cell
        else if sc_channel p = 2 then int n * 2 ^ 9 + N_cell
        else if sc_channel p = 3 then (if n = 0 then N_cell else 0)
        else if sc_channel p = 4 then int n * 2 ^ 9 + sc_nMBSFN p
        else if sc_channel p = 5 then (int n + 1) * (2 * N_cell + 1) * 2 ^ 16 + sc_nrnti p
        else 0)) [0..<NOF_SUBFRAMES])"

section \<open>Sequence generator\<close>

text \<open>Bit s of a word of x1, from the previous word and the bits of the word computed so far.\<close>

definition x1_bit :: "32 word \<Rightarrow> 32 word \<Rightarrow> nat \<Rightarrow> bool" where
  "x1_bit prev w s = (if s < 28 then bit prev (s + 4) \<noteq> bit prev (s + 1)
     else if s < 31 then bit w (s - 28) \<noteq> bit prev (s + 1)
     else bit w 3 \<noteq> bit w 0)"

definition odd4 :: "bool \<Rightarrow> bool \<Rightarrow> bool \<Rightarrow> bool \<Rightarrow> bool" where
  "odd4 a b c d = odd (of_bool a + of_bool b + of_bool c + of_bool d :: nat)"

definition x2_bit :: "32 word \<Rightarrow> 32 word \<Rightarrow> nat \<Rightarrow> bool" where
  "x2_bit prev w s =
     (if s < 28 then odd4 (bit prev (s + 4)) (bit prev (s + 3)) (bit prev (s + 2)) (bit prev (s + 1))
      else if s = 28 then odd4 (bit w 0) (bit prev (s + 3)) (bit prev (s + 2)) (bit prev (s + 1))
      else if s = 29 then odd4 (bit w 1) (bit w 0) (bit prev (s + 2)) (bit prev (s + 1))
      else if s = 30 then odd4 (bit w 2) (bit w 1) (bit w 0) (bit prev (s + 1))
      else odd4 (bit w 3) (bit w 2) (bit w 1) (bit w 0))"

text \<open>The loop over the bits of one word: x[j] += bit << s.\<close>

definition word_part :: "(32 word \<Rightarrow> 32 word \<Rightarrow> nat \<Rightarrow> bool) \<Rightarrow> 32 word \<Rightarrow> nat \<Rightarrow> 32 word" where
  "word_part f prev m = fold (\<lambda>s w. w + push_bit s (of_bool (f prev w s))) [0..<m] 0"

fun mseq_words :: "(32 word \<Rightarrow> 32 word \<Rightarrow> nat \<Rightarrow> bool) \<Rightarrow> nat \<Rightarrow> 32 word \<Rightarrow> 32 word list" where
  "mseq_words f 0 w = []"
| "mseq_words f (Suc n) w = w # mseq_words f n (word_part f w 32)"

definition compute_x1 :: "32 word list" where
  "compute_x1 = mseq_words x1_bit MAX_x (1 + push_bit 31 1)"

definition compute_x2 :: "32 word list \<Rightarrow> 32 word list list" where
  "compute_x2 c_init = map (\<lambda>c. mseq_words x2_bit MAX_x
     (c + push_bit 31 (of_bool (odd4 (bit c 3) (bit c 2) (bit c 1) (bit c 0))))) c_init"

definition sequence_generation :: "scrambling_params \<Rightarrow> 32 word list list" where
  "sequence_generation p = (let x1 = compute_x1; x2 = compute_x2 (x2init p) in
     map (\<lambda>n. map (\<lambda>i. x1 ! (i + sc_Nc p div 32) XOR x2 ! n ! (i + sc_Nc p div 32)) [0..<MAX_c]) [0..<NOF_SUBFRAMES])"

section \<open>Scrambling of bits\<close>

text \<open>The loop of direct_scrambling: i counts the bits, the word index j moves on when i is a
  multiple of 32, s is the bit position.\<close>

fun direct_loop :: "bytes \<Rightarrow> nat \<Rightarrow> 32 word list \<Rightarrow> nat \<Rightarrow> nat \<Rightarrow> nat \<Rightarrow> bytes" where
  "direct_loop [] i c J j s = []"
| "direct_loop (b # bs) i c J j s =
     (let (j', s') = (if i = (j - J + 1) * 32 then (j + 1, 0) else (j, s))
      in (if b = of_bool (bit (c ! j') s') then 0 else 1) # direct_loop bs (i + 1) c J j' (s' + 1))"

definition direct_scrambling :: "bytes \<Rightarrow> 32 word list \<Rightarrow> nat \<Rightarrow> nat \<Rightarrow> bytes" where
  "direct_scrambling input c j s = direct_loop input 0 c j j s"

text \<open>output[i div 32] += input[i] << (i mod 32), the char promoted to int.\<close>

definition char2int :: "bytes \<Rightarrow> 32 word list" where
  "char2int input = fold (\<lambda>i out. out[i div 32 := out ! (i div 32) + push_bit (i mod 32) (scast (input ! i))])
     [0..<length input] (replicate (length input div 32 + 1) 0)"

definition int2char :: "32 word list \<Rightarrow> nat \<Rightarrow> bytes" where
  "int2char input N =
     concat (map (\<lambda>i. map (\<lambda>j. of_bool (bit (input ! i) j)) [0..<32]) [0..<N div 32])
     @ map (\<lambda>i. of_bool (bit (input ! (N div 32)) i)) [0..<N mod 32]"

definition int_scrambling :: "bytes \<Rightarrow> 32 word list \<Rightarrow> bytes" where
  "int_scrambling input c =
     (let ints = char2int input; out_ints = map (\<lambda>i. ints ! i XOR c ! i) [0..<length input div 32 + 1]
      in int2char out_ints (length input))"

definition scramble :: "bytes \<Rightarrow> 32 word list \<Rightarrow> bool \<Rightarrow> nat \<Rightarrow> bytes" where
  "scramble input c direct sample =
     (if direct then direct_scrambling input c (sample div 32) (sample mod 32) else int_scrambling input c)"

section \<open>Scrambling of soft bits\<close>

definition f_nan :: "cfloat \<Rightarrow> bool" where
  "f_nan x \<longleftrightarrow> drop_bit 23 (take_bit 31 x) = 255 \<and> take_bit 23 x \<noteq> 0"

definition f_pos :: "cfloat \<Rightarrow> bool" where
  "f_pos x \<longleftrightarrow> \<not> f_nan x \<and> \<not> bit x 31 \<and> x \<noteq> 0"

definition f_nonpos :: "cfloat \<Rightarrow> bool" where
  "f_nonpos x \<longleftrightarrow> \<not> f_nan x \<and> (bit x 31 \<or> x = 0)"

definition f_neg :: "cfloat \<Rightarrow> cfloat" where
  "f_neg x = flip_bit 31 x"

fun soft_loop :: "cfloat list \<Rightarrow> nat \<Rightarrow> 32 word list \<Rightarrow> nat \<Rightarrow> nat \<Rightarrow> nat \<Rightarrow> cfloat list" where
  "soft_loop [] i c J j s = []"
| "soft_loop (x # xs) i c J j s =
     (let (j', s') = (if i = (j - J + 1) * 32 then (j + 1, 0) else (j, s))
      in (if (f_pos x \<and> bit (c ! j') s') \<or> (f_nonpos x \<and> bit (c ! j') s') then f_neg x else x)
         # soft_loop xs (i + 1) c J j' (s' + 1))"

definition soft_scrambling :: "cfloat list \<Rightarrow> 32 word list \<Rightarrow> nat \<Rightarrow> cfloat list" where
  "soft_scrambling input c sample = soft_loop input 0 c (sample div 32) (sample div 32) (sample mod 32)"

section \<open>Placeholder bits\<close>

text \<open>120 is the character x, 121 the character y.\<close>

definition identify_xy :: "bytes \<Rightarrow> bytes \<times> nat list \<times> nat list" where
  "identify_xy inp = (map (\<lambda>b. if b = 120 \<or> b = 121 then 0 else b) inp,
     filter (\<lambda>i. inp ! i = 120) [0..<length inp], filter (\<lambda>i. inp ! i = 121) [0..<length inp])"

definition set_xy :: "bytes \<Rightarrow> nat list \<Rightarrow> nat list \<Rightarrow> bytes" where
  "set_xy out xs ys = fold (\<lambda>i w. w[i := w ! (i - 1)]) ys (fold (\<lambda>i w. w[i := 1]) xs out)"

section \<open>The module\<close>

text \<open>
  work: the static variables of the module, the samples of one invocation, and the two control
  parameters as they are read by param_get_int (None when the parameter was not received). The
  result is the output or a failure: -1 after a refused parameter, or set_xy on an uplink
  parameter structure that identify_xy has not filled, which happens for soft bits. The
  variable hard of the module is the constructor of the samples. A shift of a word by 32 or
  more positions, which the loops make when sample is not a multiple of 32, is undefined
  in C; the theorems are about positions that are multiples of 32.
\<close>

record scrambling_state =
  scr_subframe :: int
  scr_pbch :: bool
  scr_direct :: bool
  scr_ul :: bool
  scr_c :: "32 word list list"

datatype samples = Bits bytes | Softs "cfloat list"
datatype scrambling_error = Invalid_parameter | Uninitialised_placeholders

fun nof_samples :: "samples \<Rightarrow> nat" where
  "nof_samples (Bits b) = length b"
| "nof_samples (Softs x) = length x"

definition next_subframe :: "int option \<Rightarrow> int \<Rightarrow> int" where
  "next_subframe param sub = (case param of Some v \<Rightarrow> v | None \<Rightarrow> if sub = 9 then 0 else sub + 1)"

definition scr_output :: "scrambling_state \<Rightarrow> nat \<Rightarrow> nat \<Rightarrow> samples \<Rightarrow> scrambling_error + samples" where
  "scr_output st sub sample inp = (case inp of
     Bits b \<Rightarrow> (if scr_ul st then let (b', xs, ys) = identify_xy b
         in Inr (Bits (set_xy (scramble b' (scr_c st ! sub) (scr_direct st) sample) xs ys))
       else Inr (Bits (scramble b (scr_c st ! sub) (scr_direct st) sample)))
   | Softs x \<Rightarrow> (if scr_ul st then Inl Uninitialised_placeholders
       else Inr (Softs (soft_scrambling x (scr_c st ! sub) sample))))"

definition scrambling_work ::
  "int option \<Rightarrow> int option \<Rightarrow> samples \<Rightarrow> scrambling_state \<Rightarrow> (scrambling_error + samples) \<times> scrambling_state" where
  "scrambling_work subframe_param sample_param inp st =
     (if nof_samples inp = 0 then (Inr inp, st)
      else if scr_pbch st then
        (let st' = st\<lparr>scr_subframe := 0\<rparr>; sample = (case sample_param of Some v \<Rightarrow> v | None \<Rightarrow> 0)
         in if sample < 0 \<or> sample > 32 * int MAX_c - int (nof_samples inp) then (Inl Invalid_parameter, st')
            else (scr_output st' 0 (nat sample) inp, st'))
      else
        (let sub = next_subframe subframe_param (scr_subframe st); st' = st\<lparr>scr_subframe := sub\<rparr>
         in if sub < 0 \<or> sub > 9 then (Inl Invalid_parameter, st')
            else (scr_output st' (nat sub) 0 inp, st')))"

text \<open>One invocation per packet, without control parameters.\<close>

fun scrambling_run :: "samples list \<Rightarrow> scrambling_state \<Rightarrow> (scrambling_error + samples) list" where
  "scrambling_run [] st = []"
| "scrambling_run (p # ps) st = (let (r, st') = scrambling_work None None p st in r # scrambling_run ps st')"

section \<open>Reference\<close>

text \<open>The sequences of the standard: 31 start bits, then the recurrences.\<close>

fun gold_x1 :: "nat \<Rightarrow> bool" where
  "gold_x1 n = (if n < 31 then n = 0 else gold_x1 (n - 28) \<noteq> gold_x1 (n - 31))"

fun gold_x2 :: "32 word \<Rightarrow> nat \<Rightarrow> bool" where
  "gold_x2 c n = (if n < 31 then bit c n
     else odd4 (gold_x2 c (n - 28)) (gold_x2 c (n - 29)) (gold_x2 c (n - 30)) (gold_x2 c (n - 31)))"

declare gold_x1.simps [simp del] gold_x2.simps [simp del]

text \<open>Bit i of a sequence stored 32 bits per word.\<close>

definition seq_bit :: "32 word list \<Rightarrow> nat \<Rightarrow> bool" where
  "seq_bit c i = bit (c ! (i div 32)) (i mod 32)"

section \<open>Generator lemmas\<close>

lemma bit_add_single:
  fixes w v :: "32 word"
  assumes "\<not> bit w m" and v: "\<And>n. bit v n \<longleftrightarrow> b \<and> n = m"
  shows "bit (w + v) k \<longleftrightarrow> bit w k \<or> b \<and> k = m"
proof -
  have "\<not> bit (w AND v) n" for n using assms by (auto simp only: bit_and_iff)
  then have "w AND v = 0" by (auto intro!: bit_eqI)
  then have "w + v = w OR v" by (rule disjunctive_add_eq_or)
  then show ?thesis by (simp only: bit_or_iff v)
qed

lemma bit_push_of_bool:
  "m < 32 \<Longrightarrow> bit (push_bit m (of_bool b) :: 32 word) n \<longleftrightarrow> b \<and> n = m"
  by (simp only: bit_push_bit_iff bit_of_bool_iff) auto

lemma bit_word_part:
  "m \<le> 32 \<Longrightarrow> bit (word_part f prev m) k \<longleftrightarrow> k < m \<and> f prev (word_part f prev k) k"
proof (induction m arbitrary: k)
  case 0
  then show ?case by (simp add: word_part_def)
next
  case (Suc m)
  define w where "w = word_part f prev m"
  define b where "b = f prev w m"
  have step: "word_part f prev (Suc m) = w + push_bit m (of_bool b)" by (simp add: word_part_def w_def b_def)
  have wb: "bit w n \<longleftrightarrow> n < m \<and> f prev (word_part f prev n) n" for n using Suc by (simp add: w_def)
  have pb: "bit (push_bit m (of_bool b) :: 32 word) n \<longleftrightarrow> b \<and> n = m" for n
    using Suc.prems by (simp only: bit_push_of_bool)
  have "bit (word_part f prev (Suc m)) k \<longleftrightarrow> bit w k \<or> b \<and> k = m"
    unfolding step by (rule bit_add_single [OF _ pb]) (use Suc.prems wb in auto)
  then show ?case unfolding wb by (auto simp: b_def w_def less_Suc_eq)
qed

lemma x1_word:
  assumes "\<forall>k < 32. bit prev k = gold_x1 (32 * j + k)" "s < 32"
  shows "bit (word_part x1_bit prev 32) s = gold_x1 (32 * Suc j + s)"
  using assms(2)
proof (induction s rule: less_induct)
  case (less s)
  let ?w = "word_part x1_bit prev s"
  have w: "bit ?w k = gold_x1 (32 * Suc j + k)" if "k < s" for k
    using less that bit_word_part [of s x1_bit prev k] bit_word_part [of 32 x1_bit prev k] by auto
  have "bit (word_part x1_bit prev 32) s = x1_bit prev ?w s"
    using bit_word_part [of 32 x1_bit prev s] less.prems by simp
  also have "\<dots> = (gold_x1 (32 * Suc j + s - 28) \<noteq> gold_x1 (32 * Suc j + s - 31))"
  proof -
    consider "s < 28" | "28 \<le> s" "s < 31" | "s = 31" using less.prems by arith
    then show ?thesis
    proof cases
      case 1
      then show ?thesis using assms(1) by (simp add: x1_bit_def ac_simps)
    next
      case 2
      then have "32 * Suc j + s - 28 = 32 * Suc j + (s - 28)" "32 * Suc j + s - 31 = 32 * j + (s + 1)" by simp_all
      then show ?thesis using 2 assms(1) w [of "s - 28"] by (simp add: x1_bit_def)
    next
      case 3
      then show ?thesis using w [of 3] w [of 0] by (simp add: x1_bit_def ac_simps)
    qed
  qed
  also have "\<dots> = gold_x1 (32 * Suc j + s)" by (subst gold_x1.simps) simp
  finally show ?case .
qed

lemma x2_word:
  assumes "\<forall>k < 32. bit prev k = gold_x2 c (32 * j + k)" "s < 32"
  shows "bit (word_part x2_bit prev 32) s = gold_x2 c (32 * Suc j + s)"
  using assms(2)
proof (induction s rule: less_induct)
  case (less s)
  let ?w = "word_part x2_bit prev s" and ?g = "gold_x2 c"
  have w: "bit ?w k = ?g (32 * Suc j + k)" if "k < s" for k
    using less that bit_word_part [of s x2_bit prev k] bit_word_part [of 32 x2_bit prev k] by auto
  have "bit (word_part x2_bit prev 32) s = x2_bit prev ?w s"
    using bit_word_part [of 32 x2_bit prev s] less.prems by simp
  also have "\<dots> = odd4 (?g (32 * Suc j + s - 28)) (?g (32 * Suc j + s - 29))
      (?g (32 * Suc j + s - 30)) (?g (32 * Suc j + s - 31))"
  proof -
    consider "s < 28" | "s = 28" | "s = 29" | "s = 30" | "s = 31" using less.prems by arith
    then show ?thesis
    proof cases
      case 1
      then show ?thesis using assms(1) by (simp add: x2_bit_def ac_simps)
    next
      case 2
      then show ?thesis using assms(1) w [of 0] by (simp add: x2_bit_def ac_simps)
    next
      case 3
      then show ?thesis using assms(1) w [of 1] w [of 0] by (simp add: x2_bit_def ac_simps)
    next
      case 4
      then show ?thesis using assms(1) w [of 2] w [of 1] w [of 0] by (simp add: x2_bit_def ac_simps)
    next
      case 5
      then show ?thesis using w [of 3] w [of 2] w [of 1] w [of 0] by (simp add: x2_bit_def ac_simps)
    qed
  qed
  also have "\<dots> = ?g (32 * Suc j + s)" by (subst (5) gold_x2.simps) simp
  finally show ?case .
qed

text \<open>A word generator f that continues a bit sequence g stored 32 bits per word.\<close>

locale word_generator =
  fixes f :: "32 word \<Rightarrow> 32 word \<Rightarrow> nat \<Rightarrow> bool" and g :: "nat \<Rightarrow> bool"
  assumes next_word: "\<forall>k < 32. bit prev k = g (32 * j + k) \<Longrightarrow> s < 32 \<Longrightarrow>
    bit (word_part f prev 32) s = g (32 * Suc j + s)"
begin

lemma mseq_from:
  "\<forall>k < 32. bit w k = g (32 * j + k) \<Longrightarrow> i < n \<Longrightarrow> k < 32 \<Longrightarrow>
   bit (mseq_words f n w ! i) k = g (32 * (j + i) + k)"
proof (induction n arbitrary: w j i)
  case (Suc n)
  show ?case
  proof (cases i)
    case 0
    then show ?thesis using Suc.prems by simp
  next
    case (Suc i')
    have "\<forall>k < 32. bit (word_part f w 32) k = g (32 * Suc j + k)" using next_word Suc.prems(1) by blast
    from Suc.IH [OF this, of i'] Suc.prems show ?thesis by (simp add: Suc)
  qed
qed simp

lemma mseq_bit:
  assumes "\<forall>k < 32. bit w k = g k" and "i < 32 * n"
  shows "seq_bit (mseq_words f n w) i = g i"
proof -
  have "i div 32 < n" using assms(2) by (simp add: less_mult_imp_div_less mult.commute)
  from mseq_from [of w 0 "i div 32" n "i mod 32"] assms this show ?thesis by (simp add: seq_bit_def)
qed

end

interpretation x1g: word_generator x1_bit gold_x1
  by unfold_locales (rule x1_word)

interpretation x2g: word_generator x2_bit "gold_x2 c" for c
  by unfold_locales (rule x2_word)

lemma length_mseq [simp]: "length (mseq_words f n w) = n"
  by (induction n arbitrary: w) auto

lemma x1_start: "k < 32 \<Longrightarrow> bit (1 + push_bit 31 1 :: 32 word) k = gold_x1 k"
proof -
  assume k: "k < 32"
  have "bit (1 + push_bit 31 1 :: 32 word) k \<longleftrightarrow> bit (1 :: 32 word) k \<or> True \<and> k = 31"
    using bit_push_of_bool [of 31 True] by (intro bit_add_single) (simp_all add: bit_1_iff)
  also have "\<dots> = gold_x1 k"
  proof (cases "k = 31")
    case True
    then show ?thesis by (simp add: gold_x1.simps)
  next
    case False
    then show ?thesis using k by (simp add: bit_1_iff gold_x1.simps [of k])
  qed
  finally show ?thesis .
qed

lemma compute_x1_bit: "i < 32 * MAX_x \<Longrightarrow> seq_bit compute_x1 i = gold_x1 i"
  unfolding compute_x1_def using x1_start by (intro x1g.mseq_bit) auto

lemma compute_x2_bit:
  assumes "n < length cs" "\<not> bit (cs ! n) 31" "i < 32 * MAX_x"
  shows "seq_bit (compute_x2 cs ! n) i = gold_x2 (cs ! n) i"
proof -
  let ?c = "cs ! n"
  let ?b = "odd4 (bit ?c 3) (bit ?c 2) (bit ?c 1) (bit ?c 0)"
  have "bit (?c + push_bit 31 (of_bool ?b)) k = gold_x2 ?c k" if "k < 32" for k
  proof -
    have "bit (?c + push_bit 31 (of_bool ?b)) k \<longleftrightarrow> bit ?c k \<or> ?b \<and> k = 31"
      by (rule bit_add_single [OF assms(2)]) (rule bit_push_of_bool, simp)
    also have "\<dots> = gold_x2 ?c k"
    proof (cases "k = 31")
      case True
      then show ?thesis using assms(2) by (simp add: gold_x2.simps)
    next
      case False
      then show ?thesis using that by (simp add: gold_x2.simps [of _ k])
    qed
    finally show ?thesis .
  qed
  then show ?thesis using assms unfolding compute_x2_def by (simp add: x2g.mseq_bit)
qed

text \<open>The start value of the second register fits in 31 bits.\<close>

lemma x2init_31:
  assumes "fst (verify_params p pb d) = 0" "0 \<le> sc_nMBSFN p" "sc_nMBSFN p < 2 ^ 30" "n < NOF_SUBFRAMES"
  shows "\<not> bit (x2init p ! n) 31"
proof -
  define N where "N = 3 * sc_cell_gr p + sc_cell_sec p"
  have r: "0 \<le> sc_q p" "sc_q p \<le> 1" "0 \<le> sc_nrnti p" "sc_nrnti p \<le> 65535" "0 \<le> N" "N \<le> 503"
    using assms(1) by (auto simp: verify_params_def N_def split: if_splits)
  have n: "int n \<le> 9" using assms(4) by (simp add: NOF_SUBFRAMES_def)
  have "(int n + 1) * (2 * N + 1) \<le> 10 * 1007" using r n by (intro mult_mono) auto
  moreover have "0 \<le> (int n + 1) * (2 * N + 1)" using r by simp
  moreover obtain v where v: "x2init p ! n = word_of_int v" and
    "v \<in> {sc_nrnti p * 2 ^ 14 + sc_q p * 2 ^ 13 + int n * 2 ^ 9 + N, (int n + 1) * (2 * N + 1) * 2 ^ 9 + N,
      int n * 2 ^ 9 + N, N, 0, int n * 2 ^ 9 + sc_nMBSFN p, (int n + 1) * (2 * N + 1) * 2 ^ 16 + sc_nrnti p}"
    using assms(4) by (auto simp: x2init_def Let_def N_def [symmetric])
  ultimately have "0 \<le> v" "v < 2 ^ 31" using r n assms(2,3) by auto
  then have "\<not> bit v 31" by (simp add: bit_iff_odd)
  then show ?thesis unfolding v by (simp add: bit_word_of_int_iff)
qed

lemma x2init_length [simp]: "length (x2init p) = NOF_SUBFRAMES"
  by (simp add: x2init_def Let_def)

section \<open>Scrambling lemmas\<close>

text \<open>Bit by bit exclusive or with the sequence from position k on.\<close>

definition xor_seq :: "bytes \<Rightarrow> 32 word list \<Rightarrow> nat \<Rightarrow> bytes" where
  "xor_seq input c k = map (\<lambda>i. of_bool ((input ! i = 1) \<noteq> seq_bit c (k + i))) [0..<length input]"

lemma map_upt_Cons:
  "map f [0..<length (x # xs)] = f 0 # map (\<lambda>i. f (Suc i)) [0..<length xs]"
  by (simp add: map_upt_Suc del: upt_Suc)

lemma seq_position:
  assumes "J \<le> j" "i = 32 * (j - J) + s" "s \<le> 32"
    and "(j', s') = (if i = (j - J + 1) * 32 then (j + 1, 0) else (j, s))"
  shows "J \<le> j'" "i = 32 * (j' - J) + s'" "s' < 32" "bit (c ! j') s' = seq_bit c (32 * J + i)"
proof -
  show *: "J \<le> j'" "i = 32 * (j' - J) + s'" "s' < 32" using assms by (auto split: if_splits)
  then have "32 * J + i = 32 * j' + s'" by (simp add: right_diff_distrib')
  then show "bit (c ! j') s' = seq_bit c (32 * J + i)" using *(3) by (simp add: seq_bit_def)
qed

lemma direct_loop_eq:
  "J \<le> j \<Longrightarrow> i = 32 * (j - J) + s \<Longrightarrow> s \<le> 32 \<Longrightarrow> set bs \<subseteq> {0, 1} \<Longrightarrow>
   direct_loop bs i c J j s = map (\<lambda>k. of_bool ((bs ! k = 1) \<noteq> seq_bit c (32 * J + i + k))) [0..<length bs]"
proof (induction bs arbitrary: i j s)
  case (Cons b bs)
  obtain j' s' where js: "(j', s') = (if i = (j - J + 1) * 32 then (j + 1, 0) else (j, s))" by (metis surj_pair)
  note pos = seq_position [OF Cons.prems(1-3) js]
  have "direct_loop bs (i + 1) c J j' (s' + 1)
      = map (\<lambda>k. of_bool ((bs ! k = 1) \<noteq> seq_bit c (32 * J + (i + 1) + k))) [0..<length bs]"
    using pos Cons.prems by (intro Cons.IH) auto
  moreover have "(if b = of_bool (bit (c ! j') s') then 0 else 1 :: byte) = of_bool ((b = 1) \<noteq> seq_bit c (32 * J + i))"
    using Cons.prems(4) by (auto simp: pos(4))
  ultimately show ?case
    by (simp only: direct_loop.simps js [symmetric] Let_def prod.case map_upt_Cons) simp
qed simp

lemma direct_scrambling_eq:
  "set input \<subseteq> {0, 1} \<Longrightarrow> direct_scrambling input c J 0 = xor_seq input c (32 * J)"
  unfolding direct_scrambling_def xor_seq_def by (subst direct_loop_eq) simp_all

lemma soft_loop_eq:
  "J \<le> j \<Longrightarrow> i = 32 * (j - J) + s \<Longrightarrow> s \<le> 32 \<Longrightarrow>
   soft_loop xs i c J j s
   = map (\<lambda>k. if seq_bit c (32 * J + i + k) \<and> \<not> f_nan (xs ! k) then f_neg (xs ! k) else xs ! k) [0..<length xs]"
proof (induction xs arbitrary: i j s)
  case (Cons x xs)
  obtain j' s' where js: "(j', s') = (if i = (j - J + 1) * 32 then (j + 1, 0) else (j, s))" by (metis surj_pair)
  note pos = seq_position [OF Cons.prems(1-3) js]
  have "soft_loop xs (i + 1) c J j' (s' + 1)
      = map (\<lambda>k. if seq_bit c (32 * J + (i + 1) + k) \<and> \<not> f_nan (xs ! k) then f_neg (xs ! k) else xs ! k) [0..<length xs]"
    using pos by (intro Cons.IH) auto
  moreover have "(f_pos x \<and> bit (c ! j') s' \<or> f_nonpos x \<and> bit (c ! j') s') = (seq_bit c (32 * J + i) \<and> \<not> f_nan x)"
    unfolding pos(4) by (auto simp: f_pos_def f_nonpos_def)
  ultimately show ?case
    by (simp only: soft_loop.simps js [symmetric] Let_def prod.case map_upt_Cons) simp
qed simp

lemma f_neg_neg [simp]: "f_neg (f_neg x) = x"
  by (rule bit_eqI) (auto simp: f_neg_def bit_flip_bit_iff)

lemma f_nan_neg [simp]: "f_nan (f_neg x) = f_nan x"
proof -
  have "take_bit 31 (f_neg x) = take_bit 31 x" "take_bit 23 (f_neg x) = take_bit 23 x"
    by (rule bit_eqI; auto simp: f_neg_def bit_flip_bit_iff bit_take_bit_iff)+
  then show ?thesis by (simp add: f_nan_def)
qed

lemma xor_seq_bits: "set (xor_seq input c k) \<subseteq> {0, 1}"
  by (auto simp: xor_seq_def)

lemma xor_seq_twice:
  assumes "set input \<subseteq> {0, 1}"
  shows "xor_seq (xor_seq input c k) c k = input"
proof (rule nth_equalityI)
  fix i assume "i < length (xor_seq (xor_seq input c k) c k)"
  then have i: "i < length input" by (simp add: xor_seq_def)
  then have "input ! i \<in> {0, 1}" using assms nth_mem by blast
  then show "xor_seq (xor_seq input c k) c k ! i = input ! i" using i by (auto simp: xor_seq_def)
qed (simp add: xor_seq_def)

text \<open>Packing of bits into words and back.\<close>

definition pack_upto :: "bytes \<Rightarrow> nat \<Rightarrow> 32 word list" where
  "pack_upto input n = fold (\<lambda>i out. out[i div 32 := out ! (i div 32) + push_bit (i mod 32) (scast (input ! i))])
     [0..<n] (replicate (length input div 32 + 1) 0)"

lemma pack_upto_Suc:
  "pack_upto input (Suc n) = (pack_upto input n)[n div 32 := pack_upto input n ! (n div 32)
     + push_bit (n mod 32) (scast (input ! n))]"
  by (simp add: pack_upto_def)

lemma length_pack_upto [simp]: "length (pack_upto input n) = length input div 32 + 1"
  by (induction n) (simp_all add: pack_upto_Suc, simp add: pack_upto_def)

lemma pack_upto_bit:
  assumes "set input \<subseteq> {0, 1}"
  shows "n \<le> length input \<Longrightarrow> q \<le> length input div 32 \<Longrightarrow> r < 32 \<Longrightarrow>
    bit (pack_upto input n ! q) r \<longleftrightarrow> 32 * q + r < n \<and> input ! (32 * q + r) = 1"
proof (induction n arbitrary: q r)
  case 0
  then show ?case by (simp add: pack_upto_def del: replicate_Suc)
next
  case (Suc n)
  let ?w = "pack_upto input n ! (n div 32)"
  have n: "n div 32 \<le> length input div 32" using Suc.prems by (simp add: div_le_mono)
  have "input ! n \<in> {0, 1}" using assms Suc.prems by (meson Suc_le_lessD nth_mem subsetD)
  then have sc: "(scast (input ! n) :: 32 word) = of_bool (input ! n = 1)" by auto
  have IHn: "\<not> bit ?w (n mod 32)" using Suc.IH [of "n div 32" "n mod 32"] Suc.prems n by simp
  have eq: "32 * q + r = n \<longleftrightarrow> q = n div 32 \<and> r = n mod 32" using Suc.prems by auto
  show ?case
  proof (cases "q = n div 32")
    case True
    have "bit (pack_upto input (Suc n) ! q) r \<longleftrightarrow> bit ?w r \<or> input ! n = 1 \<and> r = n mod 32"
      using True n unfolding pack_upto_Suc sc
      by (simp add: bit_add_single [OF IHn bit_push_of_bool])
    also have "\<dots> \<longleftrightarrow> 32 * q + r < Suc n \<and> input ! (32 * q + r) = 1"
      using Suc True eq by (auto simp: less_Suc_eq)
    finally show ?thesis .
  next
    case False
    then show ?thesis using Suc eq by (auto simp: pack_upto_Suc less_Suc_eq)
  qed
qed

lemma char2int_bit:
  assumes "set input \<subseteq> {0, 1}" "q \<le> length input div 32" "r < 32" "32 * q + r < length input"
  shows "bit (char2int input ! q) r \<longleftrightarrow> input ! (32 * q + r) = 1"
  using pack_upto_bit [OF assms(1) order_refl assms(2,3)] assms(4)
  by (simp add: char2int_def pack_upto_def)

lemma concat_rows: "concat (map (\<lambda>i. map (\<lambda>j. h i j) [0..<n]) [0..<k]) = map (\<lambda>i. h (i div n) (i mod n)) [0..<n * k]"
proof (induction k)
  case (Suc k)
  have "[0..<n * Suc k] = [0..<n * k] @ map (\<lambda>i. i + n * k) [0..<n]"
    using upt_add_eq_append [of 0 "n * k" n] by (simp add: map_add_upt add.commute)
  then show ?case using Suc by (simp add: comp_def)
qed simp

lemma int2char_eq: "int2char w N = map (\<lambda>i. of_bool (seq_bit w i)) [0..<N]"
proof -
  have "[0..<N] = [0..<32 * (N div 32)] @ map (\<lambda>i. i + 32 * (N div 32)) [0..<N mod 32]"
    using upt_add_eq_append [of 0 "32 * (N div 32)" "N mod 32"] by (simp add: map_add_upt add.commute)
  then show ?thesis
    by (simp add: int2char_def concat_rows seq_bit_def comp_def)
qed

lemma int_scrambling_eq:
  assumes "set input \<subseteq> {0, 1}"
  shows "int_scrambling input c = xor_seq input c 0"
proof -
  have "seq_bit (map (\<lambda>i. char2int input ! i XOR c ! i) [0..<length input div 32 + 1]) i
      = ((input ! i = 1) \<noteq> seq_bit c i)" if "i < length input" for i
  proof -
    have q: "i div 32 \<le> length input div 32" using that by (simp add: div_le_mono)
    then show ?thesis using char2int_bit [OF assms q, of "i mod 32"] that
      by (simp add: seq_bit_def bit_xor_iff nth_append del: upt_Suc)
  qed
  then show ?thesis by (simp add: int_scrambling_def int2char_eq xor_seq_def Let_def del: upt_Suc)
qed

section \<open>The generator computes the recurrences\<close>

text \<open>C29. With parameters that pass the checks of initialize, the sequence of subframe n is
  the exclusive or of the two recurrences, advanced by Nc bits.\<close>

theorem sequence_generation_gold:
  assumes "fst (verify_params p pb d) = 0" "0 \<le> sc_nMBSFN p" "sc_nMBSFN p < 2 ^ 30"
    and "sc_Nc p = 32 * q" "q \<le> MAX_x - MAX_c" "n < NOF_SUBFRAMES" "i < 32 * MAX_c"
  shows "seq_bit (sequence_generation p ! n) i
    = (gold_x1 (i + sc_Nc p) \<noteq> gold_x2 (x2init p ! n) (i + sc_Nc p))"
proof -
  have i: "i div 32 < MAX_c" using assms(7) by (simp add: less_mult_imp_div_less mult.commute)
  have lt: "i + sc_Nc p < 32 * MAX_x" using assms by (simp add: MAX_x_def MAX_c_def)
  have dm: "(i + sc_Nc p) div 32 = i div 32 + q" "(i + sc_Nc p) mod 32 = i mod 32"
    using assms(4) by simp_all
  have "seq_bit (sequence_generation p ! n) i
      = (seq_bit compute_x1 (i + sc_Nc p) \<noteq> seq_bit (compute_x2 (x2init p) ! n) (i + sc_Nc p))"
    using assms(4,6) i by (simp add: sequence_generation_def Let_def seq_bit_def dm bit_xor_iff add.commute)
  then show ?thesis
    using compute_x1_bit [OF lt] compute_x2_bit [OF _ x2init_31 lt] assms by simp
qed

theorem sequence_generation_gold_witness:
  "seq_bit (sequence_generation \<lparr>sc_q = 1, sc_Nc = 1600, sc_cell_gr = 2, sc_cell_sec = 1, sc_nrnti = 4660,
      sc_nMBSFN = 0, sc_channel = 0\<rparr> ! 3) 77
   = (gold_x1 1677 \<noteq> gold_x2 (word_of_int (4660 * 2 ^ 14 + 2 ^ 13 + 3 * 2 ^ 9 + 7)) 1677)"
proof -
  let ?p = "\<lparr>sc_q = 1, sc_Nc = 1600, sc_cell_gr = 2, sc_cell_sec = 1, sc_nrnti = 4660, sc_nMBSFN = 0, sc_channel = 0\<rparr>"
  have "fst (verify_params ?p False False) = 0" by (simp add: verify_params_def)
  from sequence_generation_gold [OF this, of 50 3 77] show ?thesis
    by (simp add: MAX_x_def MAX_c_def NOF_SUBFRAMES_def x2init_def)
qed

text \<open>The packed routine computes the same bits as the direct one, and scrambling a bit
  sequence twice with the same sequence gives it back, in either mode.\<close>

theorem scramble_involution:
  assumes "set input \<subseteq> {0, 1}" "d1 = False \<longrightarrow> J = 0" "d2 = False \<longrightarrow> J = 0"
    and "32 * J + length input < 32 * length c"
  shows "scramble input c d1 (32 * J) = scramble input c d2 (32 * J)
    \<and> scramble (scramble input c d1 (32 * J)) c d2 (32 * J) = input"
proof -
  have "scramble u c d (32 * J) = xor_seq u c (32 * J)" if "set u \<subseteq> {0, 1}" "d = False \<longrightarrow> J = 0" for u d
    using that by (cases d) (simp_all add: scramble_def direct_scrambling_eq int_scrambling_eq)
  then show ?thesis using assms xor_seq_bits xor_seq_twice by simp
qed

theorem scramble_involution_witness:
  "scramble (scramble [1, 0, 0, 1, 1] [13] False 0) [13] True 0 = [1, 0, 0, 1, 1]
   \<and> scramble [1, 0, 0, 1, 1] [13] False 0 = [0, 0, 1, 0, 1]"
proof -
  have "scramble [1, 0, 0, 1, 1] [13] True 0 = [0, 0, 1, 0, 1]" by code_simp
  then show ?thesis using scramble_involution [of "[1, 0, 0, 1, 1]" False 0 True "[13]"] by auto
qed

text \<open>Soft descrambling is its own inverse, and changes exactly the signs at the ones of the
  sequence.\<close>

theorem soft_scrambling_involution:
  "soft_scrambling (soft_scrambling xs c (32 * J)) c (32 * J) = xs
   \<and> length (soft_scrambling xs c (32 * J)) = length xs
   \<and> (\<forall>k. k < length xs \<longrightarrow> soft_scrambling xs c (32 * J) ! k
        = (if seq_bit c (32 * J + k) \<and> \<not> f_nan (xs ! k) then f_neg (xs ! k) else xs ! k))"
proof -
  have eq: "soft_scrambling xs c (32 * J)
    = map (\<lambda>k. if seq_bit c (32 * J + k) \<and> \<not> f_nan (xs ! k) then f_neg (xs ! k) else xs ! k) [0..<length xs]" for xs
    using soft_loop_eq [of J J 0 0 xs c] by (simp add: soft_scrambling_def)
  have "soft_scrambling (soft_scrambling xs c (32 * J)) c (32 * J) = xs"
    unfolding eq by (rule nth_equalityI) auto
  then show ?thesis by (simp add: eq)
qed

theorem soft_scrambling_involution_witness:
  "soft_scrambling [0x3F800000, 0xC0000000] [2] 0 = [0x3F800000, 0x40000000]
   \<and> soft_scrambling [0x3F800000, 0x40000000] [2] 0 = [0x3F800000, 0xC0000000]"
proof -
  have "soft_scrambling [0x3F800000, 0xC0000000] [2] 0 = [0x3F800000, 0x40000000]" by code_simp
  then show ?thesis using soft_scrambling_involution [of "[0x3F800000, 0xC0000000]" "[2]" 0] by simp
qed

lemma scr_output_inverse:
  assumes "\<not> scr_ul tx" "\<not> scr_ul rx" "scr_c tx = scr_c rx"
    and "case p of Bits b \<Rightarrow> set b \<subseteq> {0, 1} | Softs x \<Rightarrow> True"
  shows "\<exists>q. scr_output tx sub 0 p = Inr q \<and> scr_output rx sub 0 q = Inr p \<and> nof_samples q = nof_samples p"
proof (cases p)
  case (Bits b)
  have sc: "scramble u c d 0 = xor_seq u c 0" if "set u \<subseteq> {0, 1}" for u c d
    using that direct_scrambling_eq [of u c 0] by (cases d) (simp_all add: scramble_def int_scrambling_eq)
  show ?thesis using assms Bits sc xor_seq_bits xor_seq_twice
    by (simp add: scr_output_def) (simp add: xor_seq_def)
next
  case (Softs x)
  have eq: "soft_scrambling xs c 0
    = map (\<lambda>k. if seq_bit c k \<and> \<not> f_nan (xs ! k) then f_neg (xs ! k) else xs ! k) [0..<length xs]" for xs c
    using soft_loop_eq [of 0 0 0 0 xs c] by (simp add: soft_scrambling_def)
  have "soft_scrambling (soft_scrambling xs c 0) c 0 = xs" for xs c
    unfolding eq by (rule nth_equalityI) auto
  moreover have "length (soft_scrambling xs c 0) = length xs" for xs c by (simp add: eq)
  ultimately show ?thesis using assms Softs by (simp add: scr_output_def)
qed

text \<open>C30. A downlink transmitter and a receiver that start together, each invoked once per
  packet, stay on the same subframe: what the receiver delivers is what the transmitter was
  given, for bits and for soft bits.\<close>

theorem scrambling_link:
  assumes "\<not> scr_ul tx" "\<not> scr_ul rx" "\<not> scr_pbch tx" "\<not> scr_pbch rx" "scr_c tx = scr_c rx"
    and "scr_subframe tx = scr_subframe rx" "-1 \<le> scr_subframe tx" "scr_subframe tx \<le> 9"
    and "\<forall>p \<in> set ps. 0 < nof_samples p \<and> nof_samples p < 32 * MAX_c
      \<and> (case p of Bits b \<Rightarrow> set b \<subseteq> {0, 1} | Softs x \<Rightarrow> True)"
  shows "\<exists>qs. scrambling_run ps tx = map Inr qs \<and> scrambling_run qs rx = map Inr ps"
  using assms
proof (induction ps arbitrary: tx rx)
  case (Cons p ps)
  define sub where "sub = next_subframe None (scr_subframe tx)"
  define tx' where "tx' = tx\<lparr>scr_subframe := sub\<rparr>"
  define rx' where "rx' = rx\<lparr>scr_subframe := sub\<rparr>"
  have sub: "0 \<le> sub" "sub \<le> 9" using Cons.prems(7,8) by (auto simp: sub_def next_subframe_def)
  obtain q where q: "scr_output tx' (nat sub) 0 p = Inr q" "scr_output rx' (nat sub) 0 q = Inr p"
    "nof_samples q = nof_samples p"
    using scr_output_inverse [of tx' rx' p "nat sub"] Cons.prems by (auto simp: tx'_def rx'_def)
  have "scrambling_work None None p tx = (Inr q, tx')" "scrambling_work None None q rx = (Inr p, rx')"
    using Cons.prems sub q by (simp_all add: scrambling_work_def Let_def tx'_def rx'_def sub_def)
  moreover obtain qs where "scrambling_run ps tx' = map Inr qs" "scrambling_run qs rx' = map Inr ps"
    using Cons.IH [of tx' rx'] Cons.prems sub by (auto simp: tx'_def rx'_def)
  ultimately show ?case by (intro exI [of _ "q # qs"]) simp
qed simp

theorem scrambling_link_witness:
  "\<exists>qs. scrambling_run [Bits [1, 0, 1], Softs [0x3F800000]]
      \<lparr>scr_subframe = 8, scr_pbch = False, scr_direct = False, scr_ul = False, scr_c = replicate 10 [5]\<rparr> = map Inr qs
   \<and> scrambling_run qs
      \<lparr>scr_subframe = 8, scr_pbch = False, scr_direct = True, scr_ul = False, scr_c = replicate 10 [5]\<rparr>
     = [Inr (Bits [1, 0, 1]), Inr (Softs [0x3F800000])]"
  using scrambling_link [of
      "\<lparr>scr_subframe = 8, scr_pbch = False, scr_direct = False, scr_ul = False, scr_c = replicate 10 [5]\<rparr>"
      "\<lparr>scr_subframe = 8, scr_pbch = False, scr_direct = True, scr_ul = False, scr_c = replicate 10 [5]\<rparr>"
      "[Bits [1, 0, 1], Softs [0x3F800000]]"]
  by (simp add: MAX_c_def)

end
