(* ===== verification/Segmentation.thy ===== *)
theory Segmentation
  imports Turbo
begin

text \<open>
  Segmentation of a transport block into code blocks: modrep_osld/lte_segmentation
  (lte_segmentation_func.c and the work function of lte_segmentation.c).

  Two quotients are computed with float operands. The operands are integers, the first
  quotient is at least 1/6120 away from an integer that it does not equal, and the second
  divisor is a power of two, so for blocks below 2 ^ 23 bits the rounded results are those of
  the integer operations that the model uses.

  The theorems: the code blocks of a block that is larger than 6144 bits have sizes for which
  the turbo coder has an interleaver, they hold the block, their checksums and the filler bits
  exactly, and the outputs of the module without the filler are the input.
\<close>

section \<open>Sizes\<close>

definition SEG_Z :: int where "SEG_Z = 6144"
definition SEG_Bmin :: int where "SEG_Bmin = 40"
definition SEG_L :: int where "SEG_L = 24"

definition calculateTable5133 :: "int list \<Rightarrow> int list" where
  "calculateTable5133 table =
     fold (\<lambda>i t. t[i := 2048 + (int i - 124) * 64]) [125..<189]
      (fold (\<lambda>i t. t[i := 1024 + (int i - 92) * 32]) [93..<125]
       (fold (\<lambda>i t. t[i := 1024 + (int i - 92) * 32]) [93..<125]
        (fold (\<lambda>i t. t[i := 512 + (int i - 60) * 16]) [61..<93]
         (fold (\<lambda>i t. t[i := 40 + (int i - 1) * 8]) [1..<61] (table[0 := 0])))))"

text \<open>The loop that looks for the smallest size with which num_cb blocks hold Bp bits; it
  returns the size and the one before it.\<close>

fun cb_sizes :: "int list \<Rightarrow> int \<Rightarrow> int \<Rightarrow> nat list \<Rightarrow> int \<times> int \<Rightarrow> int \<times> int" where
  "cb_sizes table num_cb Bp [] ks = ks"
| "cb_sizes table num_cb Bp (i # is) ks =
     (let ks1 = (table ! i, table ! (i - 1))
      in if table ! i * num_cb \<ge> Bp then ks1 else cb_sizes table num_cb Bp is ks1)"

record cb_config =
  cb_num :: int
  nof_short_cb :: int
  nof_long_cb :: int
  len_short_cb :: int
  len_long_cb :: int
  nof_filler_bits :: int

text \<open>CEILING of the quotient of two positive integers.\<close>

definition ceil_div :: "int \<Rightarrow> int \<Rightarrow> int" where
  "ceil_div a b = (a + b - 1) div b"

definition get_nof_cb :: "int list \<Rightarrow> int \<Rightarrow> cb_config" where
  "get_nof_cb table recv_bits =
     (if recv_bits \<le> SEG_Z
      then \<lparr>cb_num = 1, nof_short_cb = 0, nof_long_cb = 1, len_short_cb = 0,
            len_long_cb = (if recv_bits < 40 then 40 else recv_bits),
            nof_filler_bits = (if recv_bits < 40 then SEG_Bmin - recv_bits else 0)\<rparr>
      else
        let num_cb = ceil_div recv_bits (SEG_Z - SEG_L);
            Bp = recv_bits + num_cb * SEG_L;
            (long, short) = cb_sizes table num_cb Bp [1..<189] (0, 0);
            c = (if num_cb = 1
                 then \<lparr>cb_num = num_cb, nof_short_cb = 0, nof_long_cb = 1, len_short_cb = 0, len_long_cb = long,
                       nof_filler_bits = SEG_Bmin - recv_bits\<rparr>
                 else let ns = (num_cb * long - Bp) div (long - short); nl = num_cb - ns
                      in \<lparr>cb_num = num_cb, nof_short_cb = ns, nof_long_cb = nl, len_short_cb = short, len_long_cb = long,
                          nof_filler_bits = nl * long + ns * short - Bp\<rparr>)
        in c\<lparr>len_long_cb := len_long_cb c - 24,
             len_short_cb := (if len_short_cb c > 0 then len_short_cb c - 24 else len_short_cb c)\<rparr>)"

section \<open>The module\<close>

text \<open>One pass of the loop: the block of output i and the state (filler, position in the
  input) for the next one.\<close>

fun seg_loop :: "(nat \<Rightarrow> bool) \<Rightarrow> cb_config \<Rightarrow> 'a \<Rightarrow> 'a list \<Rightarrow> nat list \<Rightarrow> nat \<Rightarrow> nat \<Rightarrow> 'a list list option" where
  "seg_loop ready c z input [] in_idx filler = Some []"
| "seg_loop ready c z input (i # is) in_idx filler =
     (if \<not> ready i then None
      else let snd_samples = nat (if int i < nof_short_cb c then len_short_cb c else len_long_cb c);
               block = replicate filler z @ take (snd_samples - filler) (drop in_idx input)
           in map_option ((#) block) (seg_loop ready c z input is (in_idx + (snd_samples - filler)) 0))"

definition segmentation_work :: "(nat \<Rightarrow> bool) \<Rightarrow> int list \<Rightarrow> 'a \<Rightarrow> 'a list \<Rightarrow> 'a list list option" where
  "segmentation_work ready table z input =
     (let c = get_nof_cb table (int (length input))
      in seg_loop ready c z input [0..<nat (cb_num c)] 0 (nat (nof_filler_bits c)))"

section \<open>The table\<close>

definition Table5133 :: "int list" where
  "Table5133 = calculateTable5133 (replicate 189 0)"

text \<open>The table is that of the sizes for which the turbo coder has an interleaver.\<close>

lemma Table5133_eq: "Table5133 = 0 # map int k_list"
  by code_simp

lemma k_list_facts: "length k_list = 188" "k_list ! 0 = 40" "k_list ! 187 = 6144" "sorted_wrt (<) k_list"
  by (simp_all add: k_list_sorted) (simp_all add: k_list_def)

lemma k_list_range: "list_all (\<lambda>k. 40 \<le> k) k_list" "list_all (\<lambda>(a, b). b \<le> a + 64) (zip k_list (tl k_list))"
  by (simp_all add: k_list_def)

lemma k_list_ge: "K \<in> set k_list \<Longrightarrow> 40 \<le> K"
  using k_list_range(1) by (simp add: list_all_iff)

lemma k_list_step: "0 < k \<Longrightarrow> k < 188 \<Longrightarrow> k_list ! k \<le> k_list ! (k - 1) + 64"
  using k_list_range(2) k_list_facts(1) by (cases k) (auto simp: list_all_length nth_tl)

lemma table_nth: "i < 188 \<Longrightarrow> Table5133 ! Suc i = int (k_list ! i)"
  by (simp add: Table5133_eq k_list_facts)

lemma cb_sizes_first:
  assumes "a \<le> j" "j < b" "Bp \<le> t ! j * n"
  shows "\<exists>k. a \<le> k \<and> k < b \<and> Bp \<le> t ! k * n \<and> (\<forall>i. a \<le> i \<and> i < k \<longrightarrow> t ! i * n < Bp)
     \<and> cb_sizes t n Bp [a..<b] ks = (t ! k, t ! (k - 1))"
  using assms
proof (induction "b - a" arbitrary: a ks)
  case (Suc d)
  then have up: "[a..<b] = a # [Suc a..<b]" by (simp add: upt_conv_Cons)
  show ?case
  proof (cases "Bp \<le> t ! a * n")
    case True
    then show ?thesis using Suc.prems by (intro exI [of _ a]) (simp add: up)
  next
    case False
    then have "Suc a \<le> j" using Suc.prems by (cases "a = j") auto
    then obtain k where k: "Suc a \<le> k" "k < b" "Bp \<le> t ! k * n" "\<forall>i. Suc a \<le> i \<and> i < k \<longrightarrow> t ! i * n < Bp"
      "cb_sizes t n Bp [Suc a..<b] (t ! a, t ! (a - 1)) = (t ! k, t ! (k - 1))"
      using Suc.hyps(1) [of "Suc a"] Suc.hyps(2) Suc.prems by fastforce
    have "\<forall>i. a \<le> i \<and> i < k \<longrightarrow> t ! i * n < Bp" using k(4) False by (metis le_eq_less_or_eq linorder_not_le Suc_leI)
    then show ?thesis using k False by (intro exI [of _ k]) (simp add: up Let_def)
  qed
qed simp

section \<open>Sizes of the code blocks\<close>

text \<open>The configuration c divides a block of B bits into blocks of the sizes K1 (long) and K2 (short).\<close>

definition cb_split :: "int \<Rightarrow> cb_config \<Rightarrow> nat \<Rightarrow> nat \<Rightarrow> bool" where
  "cb_split B c K1 K2 \<longleftrightarrow> K1 \<in> set k_list \<and> K2 \<in> set k_list \<and> K2 < K1 \<and> K1 \<le> K2 + 64 \<and> 88 \<le> K2
     \<and> len_long_cb c = int K1 - SEG_L \<and> len_short_cb c = int K2 - SEG_L
     \<and> 0 \<le> nof_short_cb c \<and> 0 < nof_long_cb c \<and> nof_short_cb c + nof_long_cb c = cb_num c
     \<and> 0 \<le> nof_filler_bits c \<and> nof_filler_bits c < int K1 - int K2
     \<and> nof_long_cb c * int K1 + nof_short_cb c * int K2 = B + SEG_L * cb_num c + nof_filler_bits c"

lemma large_sizes:
  assumes "6144 < B" "C = ceil_div B 6120"
  obtains k where "0 < k" "k < 188" "cb_sizes Table5133 C (B + C * 24) [1..<189] ks = (int (k_list ! k), int (k_list ! (k - 1)))"
    "int (k_list ! (k - 1)) * C < B + C * 24" "B + C * 24 \<le> int (k_list ! k) * C" "1 < C"
proof -
  let ?Bp = "B + C * 24"
  have C: "B \<le> 6120 * C" "6120 * (C - 1) < B" using assms(2) by (auto simp: ceil_div_def)
  then have "1 < C" using assms(1) by auto
  have "?Bp \<le> Table5133 ! 188 * C" using C(1) table_nth [of 187] k_list_facts(3) by (simp add: algebra_simps)
  then obtain j where j: "1 \<le> j" "j < 189" "?Bp \<le> Table5133 ! j * C" "\<forall>i. 1 \<le> i \<and> i < j \<longrightarrow> Table5133 ! i * C < ?Bp"
      "cb_sizes Table5133 C ?Bp [1..<189] ks = (Table5133 ! j, Table5133 ! (j - 1))"
    using cb_sizes_first [of 1 188 189 ?Bp Table5133 C ks] by auto
  have "Table5133 ! 1 * C < ?Bp" using table_nth [of 0] k_list_facts(2) C assms(1) \<open>1 < C\<close> by (simp add: algebra_simps)
  then obtain k where k: "j = Suc k" "0 < k" using j(1,3) by (cases j; cases "j - 1") auto
  moreover have "Table5133 ! j = int (k_list ! k)" "Table5133 ! (j - 1) = int (k_list ! (k - 1))"
    using k j(2) table_nth [of k] table_nth [of "k - 1"] by auto
  moreover have "Table5133 ! (j - 1) * C < ?Bp" using j(4) k by auto
  ultimately show ?thesis using that [of k] j \<open>1 < C\<close> by simp
qed

lemma split_arith:
  fixes C K1 K2 Bp :: int
  assumes "K2 < K1" "K2 * C < Bp" "Bp \<le> K1 * C" "ns = (C * K1 - Bp) div (K1 - K2)" "F = (C - ns) * K1 + ns * K2 - Bp"
  shows "0 \<le> ns" "ns < C" "0 \<le> F" "F < K1 - K2"
proof -
  let ?A = "K1 - K2"
  have A: "0 < ?A" using assms(1) by simp
  show "0 \<le> ns" using assms A by (simp add: pos_imp_zdiv_nonneg_iff mult.commute)
  have "C * K1 - Bp < C * ?A" using assms(2) by (simp add: algebra_simps)
  moreover have "ns * ?A \<le> C * K1 - Bp"
    unfolding assms(4) minus_mod_eq_div_mult [symmetric] using pos_mod_sign [OF A, of "C * K1 - Bp"] by simp
  ultimately show "ns < C" using mult_less_cancel_right_pos [OF A, of ns C] by simp
  have "F = (C * K1 - Bp) mod ?A"
    unfolding assms(4,5) minus_div_mult_eq_mod [symmetric] by (simp only: algebra_simps)
  then show "0 \<le> F" "F < ?A" using A by simp_all
qed

lemma get_nof_cb_large:
  assumes "6144 < B"
  shows "\<exists>K1 K2. cb_split B (get_nof_cb Table5133 B) K1 K2 \<and> cb_num (get_nof_cb Table5133 B) = ceil_div B 6120"
proof -
  define C where "C = ceil_div B 6120"
  obtain k where k: "0 < k" "k < 188" "cb_sizes Table5133 C (B + C * 24) [1..<189] (0, 0) = (int (k_list ! k), int (k_list ! (k - 1)))"
    "int (k_list ! (k - 1)) * C < B + C * 24" "B + C * 24 \<le> int (k_list ! k) * C" "1 < C"
    using large_sizes [OF assms C_def] by blast
  define K1 K2 where "K1 = k_list ! k" and "K2 = k_list ! (k - 1)"
  have lt: "K2 < K1" using k(1,2) k_list_facts(1,4) by (auto simp: K1_def K2_def sorted_wrt_iff_nth_less)
  have mem: "K1 \<in> set k_list" "K2 \<in> set k_list" using k(1,2) k_list_facts(1) by (simp_all add: K1_def K2_def)
  have step: "K1 \<le> K2 + 64" using k_list_step [OF k(1,2)] by (simp add: K1_def K2_def)
  have "6120 * (C - 1) + 24 * C < int K1 * C" using k(5) by (auto simp: K1_def C_def ceil_div_def)
  then have "6120 * (C - 1) < (int K1 - 24) * C" by (simp add: algebra_simps)
  moreover have "6120 * (C - 1) \<ge> 3060 * C" using k(6) by simp
  ultimately have "3060 * C < (int K1 - 24) * C" by linarith
  then have "3060 < int K1 - 24" by (rule mult_right_less_imp_less) (use k(6) in simp)
  then have pos: "88 \<le> K2" using step by simp
  define ns where "ns = (C * int K1 - (B + C * 24)) div (int K1 - int K2)"
  define F where "F = (C - ns) * int K1 + ns * int K2 - (B + C * 24)"
  note ar = split_arith [of "int K2" "int K1" C "B + C * 24" ns F]
  have a: "0 \<le> ns" "ns < C" "0 \<le> F" "F < int K1 - int K2"
    using ar lt k(4,5) ns_def F_def by (simp_all add: K1_def K2_def)
  have "get_nof_cb Table5133 B = \<lparr>cb_num = C, nof_short_cb = ns, nof_long_cb = C - ns, len_short_cb = int K2 - 24, len_long_cb = int K1 - 24,
      nof_filler_bits = F\<rparr>"
    using assms k(3) [folded K1_def K2_def] k(6) pos by (simp add: get_nof_cb_def SEG_Z_def SEG_L_def C_def [symmetric] Let_def ns_def F_def)
  then have "cb_split B (get_nof_cb Table5133 B) K1 K2 \<and> cb_num (get_nof_cb Table5133 B) = C"
    using a lt mem step pos by (simp add: cb_split_def SEG_L_def F_def algebra_simps)
  then show ?thesis unfolding C_def by blast
qed

section \<open>The outputs\<close>

definition block_len :: "cb_config \<Rightarrow> nat \<Rightarrow> nat" where
  "block_len c i = nat (if int i < nof_short_cb c then len_short_cb c else len_long_cb c)"

lemma seg_loop_rest:
  assumes "\<forall>i \<in> set is. ready i"
  shows "\<exists>bs. seg_loop ready c z input is pos 0 = Some bs \<and> length bs = length is
     \<and> concat bs = take (sum_list (map (block_len c) is)) (drop pos input)
     \<and> (pos + sum_list (map (block_len c) is) \<le> length input \<longrightarrow> map length bs = map (block_len c) is)"
  using assms
proof (induction "is" arbitrary: pos)
  case (Cons i "is")
  obtain bs where bs: "seg_loop ready c z input is (pos + block_len c i) 0 = Some bs" "length bs = length is"
    "concat bs = take (sum_list (map (block_len c) is)) (drop (pos + block_len c i) input)"
    "pos + block_len c i + sum_list (map (block_len c) is) \<le> length input \<longrightarrow> map length bs = map (block_len c) is"
    using Cons by fastforce
  then have "seg_loop ready c z input (i # is) pos 0 = Some (take (block_len c i) (drop pos input) # bs)"
    using Cons.prems by (simp add: block_len_def)
  moreover have "concat (take (block_len c i) (drop pos input) # bs) = take (sum_list (map (block_len c) (i # is))) (drop pos input)"
    using bs(3) by (simp add: take_add add.commute)
  ultimately show ?case using bs(2,4) by (auto simp: add.assoc)
qed simp

lemma seg_loop_first:
  assumes "\<forall>i \<in> set (i # is). ready i" "filler \<le> block_len c i"
    and sum: "sum_list (map (block_len c) (i # is)) = filler + length input"
  shows "\<exists>bs. seg_loop ready c z input (i # is) 0 filler = Some bs \<and> length bs = length (i # is)
     \<and> concat bs = replicate filler z @ input \<and> map length bs = map (block_len c) (i # is)"
proof -
  let ?n = "block_len c i - filler"
  obtain bs where bs: "seg_loop ready c z input is ?n 0 = Some bs" "length bs = length is"
    "concat bs = take (sum_list (map (block_len c) is)) (drop ?n input)"
    "?n + sum_list (map (block_len c) is) \<le> length input \<longrightarrow> map length bs = map (block_len c) is"
    using seg_loop_rest [of "is" ready c z input ?n] assms(1) by auto
  have s: "?n + sum_list (map (block_len c) is) = length input" using sum assms(2) by simp
  let ?b = "replicate filler z @ take ?n input"
  have "seg_loop ready c z input (i # is) 0 filler = Some (?b # bs)"
    using bs(1) assms(1) by (simp add: block_len_def)
  moreover have "concat (?b # bs) = replicate filler z @ input" using bs(3) s by simp
  moreover have "length ?b = block_len c i" using s assms(2) by simp
  ultimately show ?thesis using bs(2,4) s by auto
qed

lemma sum_two:
  assumes "\<And>i. i < a \<Longrightarrow> f i = s" "\<And>i. a \<le> i \<Longrightarrow> i < a + b \<Longrightarrow> f i = (l :: nat)"
  shows "sum_list (map f [0..<a + b]) = a * s + b * l"
proof -
  have "map f [0..<a + b] = replicate a s @ replicate b l"
    using assms by (auto simp: list_eq_iff_nth_eq nth_append)
  then show ?thesis by (simp add: sum_list_replicate)
qed

lemma block_sum:
  assumes "cb_split B c K1 K2"
  shows "int (sum_list (map (block_len c) [0..<nat (cb_num c)])) = B + nof_filler_bits c"
proof -
  define a b where "a = nat (nof_short_cb c)" and "b = nat (nof_long_cb c)"
  define L1 L2 where "L1 = K1 - 24" and "L2 = K2 - 24"
  have mem: "40 \<le> K1" "40 \<le> K2" using assms by (simp_all add: cb_split_def)
  have L: "K1 = L1 + 24" "K2 = L2 + 24" using mem by (simp_all add: L1_def L2_def)
  have c: "int a = nof_short_cb c" "int b = nof_long_cb c" "nat (cb_num c) = a + b" "len_short_cb c = int L2" "len_long_cb c = int L1"
    using assms L by (auto simp: cb_split_def a_def b_def SEG_L_def)
  have "sum_list (map (block_len c) [0..<a + b]) = a * L2 + b * L1"
    by (rule sum_two) (simp_all add: block_len_def c(1) [symmetric] c(4,5))
  moreover have "int b * int K1 + int a * int K2 = B + 24 * (int a + int b) + nof_filler_bits c"
    using assms c by (simp add: cb_split_def SEG_L_def)
  ultimately show ?thesis using c(3) by (simp add: L algebra_simps)
qed

text \<open>C24. The outputs of the segmentation module, put together, are the filler bits followed by the
  input, for inputs of every length below 2 ^ 23; each code block of an input of more than 6144 bits has, with
  its checksum, a size for which the turbo coder has an interleaver.\<close>

theorem segmentation_partition:
  assumes "c = get_nof_cb Table5133 (int (length input))" "\<forall>i < nat (cb_num c). ready i" "length input < 2 ^ 23"
  shows "\<exists>bs. segmentation_work ready Table5133 z input = Some bs \<and> length bs = nat (cb_num c)
     \<and> concat bs = replicate (nat (nof_filler_bits c)) z @ input
     \<and> (6144 < length input \<longrightarrow> (\<forall>b \<in> set bs. length b + 24 \<in> set k_list))"
proof -
  have n: "0 < nat (cb_num c) \<and> nat (nof_filler_bits c) \<le> block_len c 0
      \<and> sum_list (map (block_len c) [0..<nat (cb_num c)]) = nat (nof_filler_bits c) + length input
      \<and> (6144 < length input \<longrightarrow> (\<forall>i < nat (cb_num c). block_len c i + 24 \<in> set k_list))"
  proof (cases "6144 < length input")
    case True
    then obtain K1 K2 where k: "cb_split (int (length input)) c K1 K2" using get_nof_cb_large assms(1) by fastforce
    have num: "0 < cb_num c" "0 \<le> nof_filler_bits c" "nof_filler_bits c < 64" using k by (auto simp: cb_split_def)
    have len: "block_len c i + 24 \<in> {K1, K2}" "64 \<le> block_len c i" for i using k by (auto simp: cb_split_def block_len_def SEG_L_def nat_diff_distrib)
    have "int (sum_list (map (block_len c) [0..<nat (cb_num c)])) = int (length input) + nof_filler_bits c" by (rule block_sum [OF k])
    then have "sum_list (map (block_len c) [0..<nat (cb_num c)]) = nat (nof_filler_bits c) + length input" using num by simp
    moreover have "block_len c i + 24 \<in> set k_list" for i using len(1) [of i] k by (auto simp: cb_split_def)
    ultimately show ?thesis using num len(2) [of 0] by auto
  next
    case False
    then show ?thesis using assms(1) by (auto simp: get_nof_cb_def SEG_Z_def SEG_Bmin_def block_len_def)
  qed
  then have up: "[0..<nat (cb_num c)] = 0 # [1..<nat (cb_num c)]" by (simp add: upt_conv_Cons)
  obtain bs where bs: "seg_loop ready c z input (0 # [1..<nat (cb_num c)]) 0 (nat (nof_filler_bits c)) = Some bs" "length bs = nat (cb_num c)"
    "concat bs = replicate (nat (nof_filler_bits c)) z @ input" "map length bs = map (block_len c) [0..<nat (cb_num c)]"
    using seg_loop_first [of 0 "[1..<nat (cb_num c)]" ready "nat (nof_filler_bits c)" c input z] n assms(2) unfolding up [symmetric] by auto
  have "length b \<in> block_len c ` {0..<nat (cb_num c)}" if "b \<in> set bs" for b
    using that bs(4) by (metis atLeastLessThan_upt image_set nth_mem in_set_conv_nth length_map nth_map imageI)
  then have "\<forall>b \<in> set bs. length b + 24 \<in> set k_list" if "6144 < length input" using n that by fastforce
  then show ?thesis using bs up assms(1) by (simp add: segmentation_work_def)
qed

theorem segmentation_partition_witness:
  "\<exists>bs. segmentation_work (\<lambda>_. True) Table5133 False (replicate 6145 True) = Some bs \<and> concat bs = replicate 15 False @ replicate 6145 True"
proof -
  have f: "nof_filler_bits (get_nof_cb Table5133 (int (length (replicate 6145 True)))) = 15" by simp code_simp
  show ?thesis using segmentation_partition [OF refl, of "replicate 6145 True" "\<lambda>_. True" False] unfolding f by auto
qed

end
