(* ===== verification/Barrier.thy ===== *)
theory Barrier
  imports Prelude
begin

text \<open>
  The thread barrier of the kernel: rtdal_lnx/src/barrier.c.

  The results of the pthread calls are arguments of the operations; the condition variable is
  the set of the threads that sleep on it. The object is only touched under its mutex, so a call
  of barrier_wait is a sequence of atomic steps: barrier_enter is the code up to the return of
  the last thread or up to the first pthread_cond_wait, barrier_wake is what follows the return
  of a pthread_cond_wait: the break on an error, or the test of the loop and the next wait.
  A thread can only take the step barrier_wake when it no longer sleeps: after the broadcast,
  after a spurious wake-up, or because its pthread_cond_wait failed.

  The relation barrier_step lets n threads call barrier_wait again and again, in any
  interleaving and with failing calls of pthread. The theorems say that, as long as no
  pthread_cond_wait has failed, no thread leaves a round before all have entered it; that
  without failures the threads are never all stuck, which rests on the broadcast; and that a
  single thread whose waits fail passes the barrier alone.
\<close>

section \<open>Operations\<close>

record barrier_t =
  b_threshold :: int
  b_counter :: int
  b_cycle :: bool
  b_valid :: bool
  b_cv :: "nat set"

definition EINVAL :: int where "EINVAL = 22"
definition EBUSY :: int where "EBUSY = 16"

text \<open>The argument b is the old content of the object.\<close>

definition barrier_init :: "int \<Rightarrow> int \<Rightarrow> int \<Rightarrow> barrier_t \<Rightarrow> int \<times> barrier_t" where
  "barrier_init mutex_status cond_status cnt b =
     (let b1 = b\<lparr>b_threshold := cnt, b_counter := cnt, b_cycle := False\<rparr> in
      if mutex_status \<noteq> 0 then (mutex_status, b1)
      else if cond_status \<noteq> 0 then (cond_status, b1)
      else (0, b1\<lparr>b_cv := {}, b_valid := True\<rparr>))"

text \<open>The status values are those of locking, unlocking and destroying the mutex and of
  destroying the condition variable. The last line returns the second status only when the first
  is an error.\<close>

definition barrier_destroy :: "int \<Rightarrow> int \<Rightarrow> int \<Rightarrow> int \<Rightarrow> barrier_t \<Rightarrow> int \<times> barrier_t" where
  "barrier_destroy lock_status unlock_status mutex_status cond_status b =
     (if \<not> b_valid b then (EINVAL, b)
      else if lock_status \<noteq> 0 then (lock_status, b)
      else if b_counter b \<noteq> b_threshold b then (EBUSY, b)
      else let b1 = b\<lparr>b_valid := False\<rparr> in
        if unlock_status \<noteq> 0 then (unlock_status, b1)
        else (if mutex_status = 0 then mutex_status else cond_status, b1))"

definition pthread_cond_broadcast :: "int \<Rightarrow> barrier_t \<Rightarrow> barrier_t" where
  "pthread_cond_broadcast status b = (if status = 0 then b\<lparr>b_cv := {}\<rparr> else b)"

definition pthread_cond_wait :: "nat \<Rightarrow> barrier_t \<Rightarrow> barrier_t" where
  "pthread_cond_wait t b = b\<lparr>b_cv := insert t (b_cv b)\<rparr>"

datatype wait_outcome = Returned int | Waiting bool

definition barrier_enter :: "nat \<Rightarrow> int \<Rightarrow> int \<Rightarrow> barrier_t \<Rightarrow> wait_outcome \<times> barrier_t" where
  "barrier_enter t lock_status broadcast_status b =
     (if \<not> b_valid b then (Returned EINVAL, b)
      else if lock_status \<noteq> 0 then (Returned lock_status, b)
      else let cycle = b_cycle b; b1 = b\<lparr>b_counter := b_counter b - 1\<rparr> in
        if b_counter b1 = 0
        then (Returned (if broadcast_status = 0 then -1 else broadcast_status),
              pthread_cond_broadcast broadcast_status (b1\<lparr>b_cycle := \<not> b_cycle b1, b_counter := b_threshold b1\<rparr>))
        else (Waiting cycle, pthread_cond_wait t b1))"

text \<open>The return of pthread_cond_wait with the value wait_status.\<close>

definition barrier_wake :: "nat \<Rightarrow> int \<Rightarrow> bool \<Rightarrow> barrier_t \<Rightarrow> wait_outcome \<times> barrier_t" where
  "barrier_wake t wait_status cycle b =
     (if wait_status \<noteq> 0 then (Returned wait_status, b\<lparr>b_cv := b_cv b - {t}\<rparr>)
      else if cycle = b_cycle b then (Waiting cycle, pthread_cond_wait t b)
      else (Returned 0, b))"

section \<open>Threads\<close>

text \<open>For each thread: the cycle it waits on inside a call, and the numbers of its entries (calls
  that got the mutex) and of its returns without a failed wait; and the numbers of complete
  rounds, of returns with -1, of failed waits and of failed broadcasts.\<close>

record barrier_sys =
  bs_b :: barrier_t
  bs_wait :: "nat \<Rightarrow> bool option"
  bs_in :: "nat \<Rightarrow> nat"
  bs_out :: "nat \<Rightarrow> nat"
  bs_rounds :: nat
  bs_serial :: nat
  bs_failed :: nat
  bs_lost :: nat

inductive barrier_step :: "nat \<Rightarrow> barrier_sys \<Rightarrow> barrier_sys \<Rightarrow> bool" for n where
  lock_fails: "t < n \<Longrightarrow> bs_wait s t = None \<Longrightarrow> 0 < ls \<Longrightarrow> barrier_enter t ls bst (bs_b s) = (Returned r, b') \<Longrightarrow>
    barrier_step n s (s\<lparr>bs_b := b'\<rparr>)"
| enter_wait: "t < n \<Longrightarrow> bs_wait s t = None \<Longrightarrow> barrier_enter t 0 bst (bs_b s) = (Waiting c, b') \<Longrightarrow>
    barrier_step n s (s\<lparr>bs_b := b', bs_wait := (bs_wait s)(t := Some c), bs_in := (bs_in s)(t := bs_in s t + 1)\<rparr>)"
| enter_last: "t < n \<Longrightarrow> bs_wait s t = None \<Longrightarrow> 0 \<le> bst \<Longrightarrow> barrier_enter t 0 bst (bs_b s) = (Returned r, b') \<Longrightarrow>
    barrier_step n s (s\<lparr>bs_b := b', bs_in := (bs_in s)(t := bs_in s t + 1), bs_out := (bs_out s)(t := bs_out s t + 1),
      bs_rounds := bs_rounds s + 1, bs_serial := (if r = -1 then bs_serial s + 1 else bs_serial s),
      bs_lost := (if r = -1 then bs_lost s else bs_lost s + 1)\<rparr>)"
| spurious: "t < n \<Longrightarrow> barrier_step n s (s\<lparr>bs_b := (bs_b s)\<lparr>b_cv := b_cv (bs_b s) - {t}\<rparr>\<rparr>)"
| wake_again: "t < n \<Longrightarrow> bs_wait s t = Some c \<Longrightarrow> t \<notin> b_cv (bs_b s) \<Longrightarrow> barrier_wake t 0 c (bs_b s) = (Waiting c', b') \<Longrightarrow>
    barrier_step n s (s\<lparr>bs_b := b'\<rparr>)"
| wake_ret: "t < n \<Longrightarrow> bs_wait s t = Some c \<Longrightarrow> t \<notin> b_cv (bs_b s) \<Longrightarrow> barrier_wake t 0 c (bs_b s) = (Returned r, b') \<Longrightarrow>
    barrier_step n s (s\<lparr>bs_b := b', bs_wait := (bs_wait s)(t := None), bs_out := (bs_out s)(t := bs_out s t + 1)\<rparr>)"
| wait_fails: "t < n \<Longrightarrow> bs_wait s t = Some c \<Longrightarrow> 0 < ws \<Longrightarrow> barrier_wake t ws c (bs_b s) = (Returned r, b') \<Longrightarrow>
    barrier_step n s (s\<lparr>bs_b := b', bs_wait := (bs_wait s)(t := None), bs_failed := bs_failed s + 1\<rparr>)"

inductive_simps barrier_step_simps: "barrier_step n s s'"

definition barrier_start :: "nat \<Rightarrow> barrier_t \<Rightarrow> barrier_sys" where
  "barrier_start n b = \<lparr>bs_b = snd (barrier_init 0 0 (int n) b), bs_wait = (\<lambda>_. None), bs_in = (\<lambda>_. 0),
     bs_out = (\<lambda>_. 0), bs_rounds = 0, bs_serial = 0, bs_failed = 0, bs_lost = 0\<rparr>"

section \<open>Invariant\<close>

text \<open>The threads that wait in the round that is not yet complete.\<close>

definition waiting_now :: "nat \<Rightarrow> barrier_sys \<Rightarrow> nat set" where
  "waiting_now n s = {t. t < n \<and> bs_wait s t = Some (b_cycle (bs_b s))}"

definition thread_ok :: "barrier_sys \<Rightarrow> nat \<Rightarrow> bool" where
  "thread_ok s t \<longleftrightarrow> (let R = bs_rounds s in case bs_wait s t of
      None \<Rightarrow> bs_in s t = R \<and> bs_out s t = R
    | Some c \<Rightarrow> if c = odd R then bs_in s t = Suc R \<and> bs_out s t = R else bs_in s t = R \<and> Suc (bs_out s t) = R)"

text \<open>As long as no broadcast is lost, only threads of the running round sleep.\<close>

definition sleep_ok :: "nat \<Rightarrow> barrier_sys \<Rightarrow> bool" where
  "sleep_ok n s \<longleftrightarrow> (bs_lost s = 0 \<longrightarrow> b_cv (bs_b s) \<subseteq> waiting_now n s)"

definition barrier_inv :: "nat \<Rightarrow> barrier_sys \<Rightarrow> bool" where
  "barrier_inv n s \<longleftrightarrow> b_valid (bs_b s) \<and> b_threshold (bs_b s) = int n \<and> b_cycle (bs_b s) = odd (bs_rounds s)
     \<and> b_counter (bs_b s) = int n - int (card (waiting_now n s)) \<and> 1 \<le> b_counter (bs_b s)
     \<and> (\<forall>t < n. thread_ok s t) \<and> sleep_ok n s \<and> bs_serial s + bs_lost s = bs_rounds s"

lemma finite_waiting [simp]: "finite (waiting_now n s)"
  by (simp add: waiting_now_def)

lemma barrier_start_inv: "0 < n \<Longrightarrow> barrier_inv n (barrier_start n b)"
  by (simp add: barrier_inv_def barrier_start_def barrier_init_def waiting_now_def thread_ok_def sleep_ok_def Let_def)

lemma enter_wait_inv:
  assumes inv: "barrier_inv n s" and t: "t < n" "bs_wait s t = None" and e: "barrier_enter t 0 bst (bs_b s) = (Waiting c, b')"
  shows "barrier_inv n (s\<lparr>bs_b := b', bs_wait := (bs_wait s)(t := Some c), bs_in := (bs_in s)(t := bs_in s t + 1)\<rparr>)"
    (is "barrier_inv n ?s")
proof -
  have b: "c = b_cycle (bs_b s)" "b' = (bs_b s)\<lparr>b_counter := b_counter (bs_b s) - 1, b_cv := insert t (b_cv (bs_b s))\<rparr>" "b_counter (bs_b s) \<noteq> 1"
    using e inv by (auto simp: barrier_enter_def pthread_cond_wait_def barrier_inv_def Let_def split: if_splits)
  have w: "waiting_now n ?s = insert t (waiting_now n s)" using t b by (auto simp: waiting_now_def)
  moreover have "t \<notin> waiting_now n s" using t by (simp add: waiting_now_def)
  ultimately have "int (card (waiting_now n ?s)) = int (card (waiting_now n s)) + 1" by simp
  moreover have "thread_ok ?s u" if "u < n" for u
  proof -
    have "thread_ok s u" "c = odd (bs_rounds s)" using inv that b by (auto simp: barrier_inv_def)
    then show ?thesis using t by (cases "u = t") (auto simp: thread_ok_def Let_def split: option.splits)
  qed
  moreover have "sleep_ok n ?s" using inv w b by (auto simp: barrier_inv_def sleep_ok_def)
  ultimately show ?thesis using inv b by (simp add: barrier_inv_def)
qed

lemma enter_last_inv:
  assumes inv: "barrier_inv n s" and t: "t < n" "bs_wait s t = None" and e: "barrier_enter t 0 bst (bs_b s) = (Returned r, b')" and bst: "0 \<le> bst"
  shows "barrier_inv n (s\<lparr>bs_b := b', bs_in := (bs_in s)(t := bs_in s t + 1), bs_out := (bs_out s)(t := bs_out s t + 1),
      bs_rounds := bs_rounds s + 1, bs_serial := (if r = -1 then bs_serial s + 1 else bs_serial s),
      bs_lost := (if r = -1 then bs_lost s else bs_lost s + 1)\<rparr>)"
    (is "barrier_inv n ?s")
proof -
  have b: "r = (if bst = 0 then -1 else bst)" "b' = pthread_cond_broadcast bst ((bs_b s)\<lparr>b_cycle := \<not> b_cycle (bs_b s), b_counter := b_threshold (bs_b s)\<rparr>)"
    "b_counter (bs_b s) = 1"
    using e inv by (auto simp: barrier_enter_def barrier_inv_def Let_def split: if_splits)
  have r: "r = -1 \<longleftrightarrow> bst = 0" using b(1) bst by auto
  have b': "b_valid b' = b_valid (bs_b s)" "b_threshold b' = b_threshold (bs_b s)" "b_counter b' = b_threshold (bs_b s)"
    "b_cycle b' = (\<not> b_cycle (bs_b s))" "bst = 0 \<Longrightarrow> b_cv b' = {}"
    by (simp_all add: b(2) pthread_cond_broadcast_def)
  have "card (waiting_now n s) = n - 1" using inv b(3) by (auto simp: barrier_inv_def)
  moreover have "waiting_now n s \<subseteq> {..<n} - {t}" using t by (auto simp: waiting_now_def)
  moreover have "card ({..<n} - {t}) = n - 1" using t by simp
  ultimately have all: "waiting_now n s = {..<n} - {t}" by (simp add: card_subset_eq)
  have w: "bs_wait s u = Some (odd (bs_rounds s)) \<and> bs_in s u = Suc (bs_rounds s) \<and> bs_out s u = bs_rounds s" if "u < n" "u \<noteq> t" for u
  proof -
    have "bs_wait s u = Some (odd (bs_rounds s))" using all that inv by (auto simp: waiting_now_def barrier_inv_def)
    moreover have "thread_ok s u" using inv that by (simp add: barrier_inv_def)
    ultimately show ?thesis by (simp add: thread_ok_def Let_def)
  qed
  have tt: "bs_in s t = bs_rounds s" "bs_out s t = bs_rounds s"
    using inv t by (auto simp: barrier_inv_def thread_ok_def Let_def)
  have "waiting_now n ?s = {}" using w t b' inv by (fastforce simp: waiting_now_def barrier_inv_def)
  moreover have "thread_ok ?s u" if "u < n" for u
    using w [OF that] t tt by (cases "u = t") (auto simp: thread_ok_def Let_def)
  moreover have "sleep_ok n ?s" using b'(5) r by (auto simp: sleep_ok_def)
  ultimately show "barrier_inv n ?s" using inv b' t by (simp add: barrier_inv_def)
qed

lemma wake_ret_inv:
  assumes inv: "barrier_inv n s" and t: "t < n" "bs_wait s t = Some c" "t \<notin> b_cv (bs_b s)" and w: "barrier_wake t 0 c (bs_b s) = (Returned r, b')"
  shows "barrier_inv n (s\<lparr>bs_b := b', bs_wait := (bs_wait s)(t := None), bs_out := (bs_out s)(t := bs_out s t + 1)\<rparr>)"
    (is "barrier_inv n ?s")
proof -
  have c: "c \<noteq> b_cycle (bs_b s)" "b' = bs_b s" using w by (auto simp: barrier_wake_def split: if_splits)
  have wn: "waiting_now n ?s = waiting_now n s" using t c by (auto simp: waiting_now_def)
  moreover have "thread_ok ?s u" if "u < n" for u
  proof -
    have "thread_ok s u" using inv that by (simp add: barrier_inv_def)
    moreover have "b_cycle (bs_b s) = odd (bs_rounds s)" using inv by (simp add: barrier_inv_def)
    ultimately show ?thesis using t c by (cases "u = t") (auto simp: thread_ok_def Let_def split: option.splits)
  qed
  moreover have "sleep_ok n ?s" using inv wn c by (simp add: barrier_inv_def sleep_ok_def)
  ultimately show ?thesis using inv c by (simp add: barrier_inv_def)
qed

text \<open>Steps that only change the set of the sleepers.\<close>

lemma sleepers_inv:
  assumes inv: "barrier_inv n s" and v: "bs_lost s = 0 \<Longrightarrow> v \<subseteq> waiting_now n s"
  shows "barrier_inv n (s\<lparr>bs_b := (bs_b s)\<lparr>b_cv := v\<rparr>\<rparr>)"
proof -
  have "waiting_now n (s\<lparr>bs_b := (bs_b s)\<lparr>b_cv := v\<rparr>\<rparr>) = waiting_now n s" by (simp add: waiting_now_def)
  moreover have "thread_ok (s\<lparr>bs_b := (bs_b s)\<lparr>b_cv := v\<rparr>\<rparr>) t = thread_ok s t" for t
    by (simp add: thread_ok_def Let_def split: option.split)
  ultimately show ?thesis using inv v by (simp add: barrier_inv_def sleep_ok_def)
qed

lemma barrier_step_failed: "barrier_step n s s' \<Longrightarrow> bs_failed s \<le> bs_failed s'"
  by (induction rule: barrier_step.induct) simp_all

lemma barrier_step_inv: "barrier_step n s s' \<Longrightarrow> bs_failed s' = 0 \<Longrightarrow> barrier_inv n s \<Longrightarrow> barrier_inv n s'"
proof (induction rule: barrier_step.induct)
  case (lock_fails t s ls bst r b')
  then have "b' = bs_b s" by (auto simp: barrier_enter_def barrier_inv_def)
  then show ?case using lock_fails by simp
next
  case (enter_wait t s bst c b')
  then show ?case by (intro enter_wait_inv)
next
  case (enter_last t s bst r b')
  then show ?case by (intro enter_last_inv)
next
  case (spurious t s)
  then show ?case by (intro sleepers_inv) (auto simp: barrier_inv_def sleep_ok_def)
next
  case (wake_again t s c c' b')
  then have b': "b' = (bs_b s)\<lparr>b_cv := insert t (b_cv (bs_b s))\<rparr>" "c = b_cycle (bs_b s)"
    by (auto simp: barrier_wake_def pthread_cond_wait_def split: if_splits)
  have "t \<in> waiting_now n s" using wake_again b' by (simp add: waiting_now_def)
  then show ?case unfolding b'(1) using wake_again by (intro sleepers_inv) (auto simp: barrier_inv_def sleep_ok_def)
next
  case (wake_ret t s c r b')
  then show ?case by (intro wake_ret_inv)
next
  case (wait_fails t s c ws r b')
  then show ?case by simp
qed

lemma barrier_reach_inv:
  assumes "(barrier_step n)\<^sup>*\<^sup>* (barrier_start n b) s" "0 < n" "bs_failed s = 0"
  shows "barrier_inv n s"
  using assms(1,3)
proof (induction rule: rtranclp_induct)
  case base
  then show ?case using assms(2) barrier_start_inv by simp
next
  case (step y z)
  then show ?case using barrier_step_inv [OF step(2)] barrier_step_failed [OF step(2)] by simp
qed

section \<open>Properties\<close>

text \<open>C16. In every interleaving of n threads, with any failures of the mutex and of the broadcast,
  as long as no pthread_cond_wait has failed: a thread that has left the barrier k times finds
  that every thread has entered it k times, so none passes a round that is not complete; every
  thread has entered each of the complete rounds and left none else; and each complete round
  had one return with -1, except those whose broadcast failed.\<close>

theorem barrier_safety:
  assumes "(barrier_step n)\<^sup>*\<^sup>* (barrier_start n b) s" "bs_failed s = 0" "t < n" "u < n"
  shows "bs_out s t \<le> bs_in s u \<and> bs_out s t \<le> bs_rounds s \<and> bs_rounds s \<le> bs_in s t
    \<and> bs_serial s + bs_lost s = bs_rounds s"
proof -
  have inv: "barrier_inv n s" using barrier_reach_inv assms by simp
  then have "thread_ok s t" "thread_ok s u" using assms by (auto simp: barrier_inv_def)
  then show ?thesis using inv by (auto simp: thread_ok_def barrier_inv_def Let_def split: option.splits if_splits)
qed

definition demo_barrier :: barrier_t where
  "demo_barrier = \<lparr>b_threshold = 0, b_counter = 0, b_cycle = True, b_valid = False, b_cv = {}\<rparr>"

text \<open>Two threads: 1 enters and waits, 0 completes the round and enters the next.\<close>

definition demo_blocked :: barrier_sys where
  "demo_blocked = \<lparr>bs_b = \<lparr>b_threshold = 2, b_counter = 1, b_cycle = True, b_valid = True, b_cv = {0}\<rparr>,
     bs_wait = (\<lambda>_. None)(1 := Some False, 0 := Some True), bs_in = (\<lambda>_. 0)(1 := 1, 0 := 2),
     bs_out = (\<lambda>_. 0)(0 := 1), bs_rounds = 1, bs_serial = 1, bs_failed = 0, bs_lost = 0\<rparr>"

lemma demo_blocked_reached: "(barrier_step 2)\<^sup>*\<^sup>* (barrier_start 2 demo_barrier) demo_blocked"
proof -
  define s0 where "s0 = barrier_start 2 demo_barrier"
  define s1 where "s1 = s0\<lparr>bs_b := \<lparr>b_threshold = 2, b_counter = 1, b_cycle = False, b_valid = True, b_cv = {1}\<rparr>,
    bs_wait := (bs_wait s0)(1 := Some False), bs_in := (bs_in s0)(1 := bs_in s0 1 + 1)\<rparr>"
  define s2 where "s2 = s1\<lparr>bs_b := \<lparr>b_threshold = 2, b_counter = 2, b_cycle = True, b_valid = True, b_cv = {}\<rparr>,
    bs_in := (bs_in s1)(0 := bs_in s1 0 + 1), bs_out := (bs_out s1)(0 := bs_out s1 0 + 1), bs_rounds := bs_rounds s1 + 1,
    bs_serial := (if (-1 :: int) = -1 then bs_serial s1 + 1 else bs_serial s1),
    bs_lost := (if (-1 :: int) = -1 then bs_lost s1 else bs_lost s1 + 1)\<rparr>"
  define s3 where "s3 = s2\<lparr>bs_b := \<lparr>b_threshold = 2, b_counter = 1, b_cycle = True, b_valid = True, b_cv = {0}\<rparr>,
    bs_wait := (bs_wait s2)(0 := Some True), bs_in := (bs_in s2)(0 := bs_in s2 0 + 1)\<rparr>"
  note defs = s3_def s2_def s1_def s0_def barrier_start_def barrier_init_def barrier_enter_def demo_barrier_def
    pthread_cond_broadcast_def pthread_cond_wait_def
  have "barrier_step 2 s0 s1" unfolding s1_def by (rule enter_wait [of _ _ _ 0]) (simp_all add: defs)
  moreover have "barrier_step 2 s1 s2" unfolding s2_def by (rule enter_last [of _ _ _ 0]) (simp_all add: defs)
  moreover have "barrier_step 2 s2 s3" unfolding s3_def by (rule enter_wait [of _ _ _ 0]) (simp_all add: defs)
  ultimately have "(barrier_step 2)\<^sup>*\<^sup>* s0 s3" by (meson converse_rtranclp_into_rtranclp rtranclp.rtrancl_refl)
  moreover have "s3 = demo_blocked" by (simp add: defs demo_blocked_def numeral_2_eq_2)
  ultimately show ?thesis by (simp add: s0_def)
qed

theorem barrier_safety_witness:
  "(barrier_step 2)\<^sup>*\<^sup>* (barrier_start 2 demo_barrier) demo_blocked \<and> bs_out demo_blocked 0 = 1
    \<and> bs_out demo_blocked 0 \<le> bs_in demo_blocked 1 \<and> bs_rounds demo_blocked \<le> bs_in demo_blocked 0"
proof -
  have "bs_failed demo_blocked = 0" "bs_out demo_blocked 0 = 1" by (simp_all add: demo_blocked_def)
  then show ?thesis using barrier_safety [OF demo_blocked_reached, of 0 1] demo_blocked_reached by simp
qed

text \<open>C17. The barrier cannot block for ever: in every interleaving in which no wait and no
  broadcast has failed, whenever all n threads are inside barrier_wait at least one of them does
  not sleep on the condition variable, passes the test of its loop and returns 0.\<close>

theorem barrier_no_deadlock:
  assumes "(barrier_step n)\<^sup>*\<^sup>* (barrier_start n b) s" "0 < n" "\<forall>t < n. bs_wait s t \<noteq> None"
    and "bs_failed s = 0" "bs_lost s = 0"
  shows "\<exists>t < n. \<exists>c. bs_wait s t = Some c \<and> t \<notin> b_cv (bs_b s) \<and> fst (barrier_wake t 0 c (bs_b s)) = Returned 0"
proof -
  have inv: "barrier_inv n s" using barrier_reach_inv [OF assms(1,2,4)] .
  have "card (waiting_now n s) < n" using inv by (auto simp: barrier_inv_def)
  then have "\<not> {..<n} \<subseteq> waiting_now n s" using card_mono [OF finite_waiting, of "{..<n}" n s] by auto
  then obtain t where t: "t < n" "t \<notin> waiting_now n s" by auto
  obtain c where c: "bs_wait s t = Some c" using assms(3) t by auto
  then have "c \<noteq> b_cycle (bs_b s)" using t by (auto simp: waiting_now_def)
  moreover have "t \<notin> b_cv (bs_b s)" using inv assms(5) t by (auto simp: barrier_inv_def sleep_ok_def)
  ultimately show ?thesis using t c by (auto simp: barrier_wake_def)
qed

theorem barrier_no_deadlock_witness:
  "\<exists>t < 2. \<exists>c. bs_wait demo_blocked t = Some c \<and> t \<notin> b_cv (bs_b demo_blocked)
    \<and> fst (barrier_wake t 0 c (bs_b demo_blocked)) = Returned 0"
proof (rule barrier_no_deadlock [OF demo_blocked_reached])
  show "\<forall>t < 2. bs_wait demo_blocked t \<noteq> None" by (auto simp: demo_blocked_def less_2_cases_iff)
qed (simp_all add: demo_blocked_def)

text \<open>C0. A thread whose pthread_cond_wait fails leaves the barrier but stays counted: for every
  number of threads, thread 0 alone, calling barrier_wait n times with failing waits, completes a
  round and passes the barrier that no other thread has reached.\<close>

theorem barrier_failed_waits_pass:
  assumes "0 < n"
  shows "\<exists>s. (barrier_step n)\<^sup>*\<^sup>* (barrier_start n b) s \<and> bs_in s = (\<lambda>_. 0)(0 := n) \<and> bs_out s 0 = 1 \<and> bs_serial s = 1"
proof -
  define st where "st k = (barrier_start n b)\<lparr>bs_b := (snd (barrier_init 0 0 (int n) b))\<lparr>b_counter := int n - int k\<rparr>,
    bs_in := (\<lambda>_. 0)(0 := k), bs_failed := k\<rparr>" for k
  note defs = st_def barrier_start_def barrier_init_def barrier_enter_def barrier_wake_def
    pthread_cond_broadcast_def pthread_cond_wait_def
  have round: "(barrier_step n)\<^sup>*\<^sup>* (st k) (st (Suc k))" if "Suc k < n" for k
  proof -
    define m where "m = (st k)\<lparr>bs_b := (bs_b (st k))\<lparr>b_counter := b_counter (bs_b (st k)) - 1, b_cv := {0}\<rparr>,
      bs_wait := (bs_wait (st k))(0 := Some False), bs_in := (bs_in (st k))(0 := bs_in (st k) 0 + 1)\<rparr>"
    have "barrier_step n (st k) m" unfolding m_def by (rule enter_wait [of _ _ _ 0]) (use that in \<open>simp_all add: defs\<close>)
    moreover have "barrier_step n m (m\<lparr>bs_b := (bs_b m)\<lparr>b_cv := {}\<rparr>, bs_wait := (bs_wait m)(0 := None), bs_failed := bs_failed m + 1\<rparr>)"
      by (rule wait_fails [of _ _ _ False EINVAL EINVAL]) (use that in \<open>simp_all add: m_def defs EINVAL_def\<close>)
    moreover have "m\<lparr>bs_b := (bs_b m)\<lparr>b_cv := {}\<rparr>, bs_wait := (bs_wait m)(0 := None), bs_failed := bs_failed m + 1\<rparr> = st (Suc k)"
      by (simp add: m_def defs)
    ultimately show ?thesis by (metis converse_rtranclp_into_rtranclp rtranclp.rtrancl_refl)
  qed
  have reach: "(barrier_step n)\<^sup>*\<^sup>* (barrier_start n b) (st k)" if "k < n" for k
    using that
  proof (induction k)
    case 0
    have "st 0 = barrier_start n b" by (simp add: defs fun_eq_iff)
    then show ?case by simp
  next
    case (Suc k)
    then show ?case using rtranclp_trans [OF Suc.IH round [OF Suc.prems]] by simp
  qed
  define s where "s = st (n - 1)"
  define b' where "b' = (bs_b s)\<lparr>b_counter := int n, b_cycle := True, b_cv := {}\<rparr>"
  have e: "barrier_enter 0 0 0 (bs_b s) = (Returned (-1), b')" using assms by (simp add: s_def b'_def defs of_nat_diff)
  let ?s = "s\<lparr>bs_b := b', bs_in := (bs_in s)(0 := bs_in s 0 + 1), bs_out := (bs_out s)(0 := bs_out s 0 + 1),
      bs_rounds := bs_rounds s + 1, bs_serial := (if (-1 :: int) = -1 then bs_serial s + 1 else bs_serial s),
      bs_lost := (if (-1 :: int) = -1 then bs_lost s else bs_lost s + 1)\<rparr>"
  have "barrier_step n s ?s" by (rule enter_last [OF assms _ _ e]) (simp_all add: s_def defs)
  then have "(barrier_step n)\<^sup>*\<^sup>* (barrier_start n b) ?s" using reach [of "n - 1"] assms by (simp add: s_def)
  moreover have "bs_in ?s = (\<lambda>_. 0)(0 := n)" "bs_out ?s 0 = 1" "bs_serial ?s = 1"
    using assms by (simp_all add: s_def defs)
  ultimately show ?thesis by blast
qed

theorem barrier_failed_waits_pass_witness:
  "\<exists>s. (barrier_step 3)\<^sup>*\<^sup>* (barrier_start 3 demo_barrier) s \<and> bs_in s = (\<lambda>_. 0)(0 := 3) \<and> bs_out s 0 = 1 \<and> bs_serial s = 1"
  by (rule barrier_failed_waits_pass) simp

end
