(* ===== verification/Pipeline.thy ===== *)
theory Pipeline
  imports Prelude
begin

text \<open>
  The process pipelines of the kernel: rtdal_lnx/src/pipeline.c and the process handles of
  rtdal_lnx/src/rtdal_process.c.

  The processes live in the array context->processes; a process pointer is the index of its
  array element, the null pointer is None, and the array is a store from indices to records.
  A pipeline is a list of processes linked through their next fields. The loops follow these
  links and need not end on a cyclic list: they are partial functions to the option type. The
  code of a module (run_point) and the finish callback are parameters: functions on the whole
  state of the slot, since both may call the kernel (the callback of the node stops the
  processes of its waveform). The theorem on a time slot asks of them that they leave the
  process lists alone; a callback that removes processes is a step of its own in the theory
  Kernel. The flags of the process groups are the array pgroup_notified_failure, an access
  outside it is None.

  The theorems relate the linked list to the abstract list of its elements: insertion keeps
  the execution order, removal deletes the element, and a time slot visits the processes in
  order, up to the first whose run fails.
\<close>

section \<open>State\<close>

datatype rtdal_processerrors_t = FINISH_OK | RTFAULT | SIG_RECV | RUNERROR | USR1 | USR2

record rtdal_process_attr =
  pipeline_id :: int
  exec_position :: int
  process_group_id :: int
  finish_callback :: bool

record rtdal_process_t =
  p_pid :: nat
  p_pipeline :: "nat option"
  p_arg :: nat
  p_attributes :: rtdal_process_attr
  p_is_running :: bool
  p_runnable :: bool
  p_run_point :: bool
  p_finish_code :: rtdal_processerrors_t
  p_next :: "nat option"

type_synonym store = "nat \<Rightarrow> rtdal_process_t"

record pipeline_t =
  pl_id :: nat
  pl_first_process :: "nat option"
  pl_finished :: bool
  pl_nof_processes :: int
  pl_rtfaults :: int
  pl_ts_counter :: int
  pl_enable :: bool
  pl_running_process :: "nat option"
  pl_running_process_idx :: int

abbreviation exec_pos :: "store \<Rightarrow> nat \<Rightarrow> int" where
  "exec_pos h a \<equiv> exec_position (p_attributes (h a))"

section \<open>Insertion and removal\<close>

text \<open>while (p->next \&\& exec_pos >= p->next->exec_position): last element passed and the count.\<close>

partial_function (option) pipeline_walk :: "store \<Rightarrow> int \<Rightarrow> nat \<Rightarrow> int \<Rightarrow> (nat \<times> int) option" where
  "pipeline_walk h pos p i = (case p_next (h p) of
      None \<Rightarrow> Some (p, i)
    | Some n \<Rightarrow> if pos \<ge> exec_pos h n then pipeline_walk h pos n (i + 1) else Some (p, i))"

definition pipeline_add :: "nat \<Rightarrow> store \<Rightarrow> pipeline_t \<Rightarrow> (int \<times> store \<times> pipeline_t) option" where
  "pipeline_add a h obj =
     (let fin = (\<lambda>i h obj. Some (i, h(a := (h a)\<lparr>p_pipeline := Some (pl_id obj)\<rparr>),
                             obj\<lparr>pl_nof_processes := pl_nof_processes obj + 1\<rparr>))
      in case pl_first_process obj of
        None \<Rightarrow> fin 0 (h(a := (h a)\<lparr>p_next := None\<rparr>)) (obj\<lparr>pl_first_process := Some a\<rparr>)
      | Some f \<Rightarrow>
          if exec_pos h a < exec_pos h f
          then fin 0 (h(a := (h a)\<lparr>p_next := Some f\<rparr>)) (obj\<lparr>pl_first_process := Some a\<rparr>)
          else (case pipeline_walk h (exec_pos h a) f 0 of
              None \<Rightarrow> None
            | Some (p, i) \<Rightarrow>
                let h1 = h(a := (h a)\<lparr>p_next := p_next (h p)\<rparr>);
                    h2 = h1(p := (h1 p)\<lparr>p_next := Some a\<rparr>)
                in fin i h2 obj))"

text \<open>while (cur != proc \&\& cur): the final prev and cur.\<close>

partial_function (option) pipeline_find :: "store \<Rightarrow> nat \<Rightarrow> nat option \<Rightarrow> nat option \<Rightarrow> (nat option \<times> nat option) option" where
  "pipeline_find h a prev cur = (if cur \<noteq> Some a \<and> cur \<noteq> None
      then pipeline_find h a cur (p_next (h (the cur))) else Some (prev, cur))"

definition pipeline_remove :: "nat \<Rightarrow> store \<Rightarrow> pipeline_t \<Rightarrow> (int \<times> store \<times> pipeline_t) option" where
  "pipeline_remove a h obj = (case pipeline_find h a None (pl_first_process obj) of
      None \<Rightarrow> None
    | Some (prev, None) \<Rightarrow> Some (-1, h, obj)
    | Some (prev, Some c) \<Rightarrow>
        let (h1, obj1) = (case prev of
                Some q \<Rightarrow> (h(q := (h q)\<lparr>p_next := p_next (h c)\<rparr>), obj)
              | None \<Rightarrow> (h, obj\<lparr>pl_first_process := p_next (h c)\<rparr>))
        in Some (0, h1(a := (h1 a)\<lparr>p_next := None\<rparr>), obj1\<lparr>pl_nof_processes := pl_nof_processes obj1 - 1\<rparr>))"

section \<open>Process handles\<close>

definition rtdal_process_run :: "nat \<Rightarrow> store \<Rightarrow> int \<times> store" where
  "rtdal_process_run a h = (0, h(a := (h a)\<lparr>p_runnable := True\<rparr>))"

definition rtdal_process_stop :: "nat \<Rightarrow> store \<Rightarrow> int \<times> store" where
  "rtdal_process_stop a h = (0, h(a := (h a)\<lparr>p_runnable := False\<rparr>))"

definition rtdal_process_seterror :: "nat \<Rightarrow> rtdal_processerrors_t \<Rightarrow> store \<Rightarrow> int \<times> store" where
  "rtdal_process_seterror a code h = (0, h(a := (h a)\<lparr>p_finish_code := code\<rparr>))"

definition rtdal_process_geterror :: "nat \<Rightarrow> store \<Rightarrow> rtdal_processerrors_t" where
  "rtdal_process_geterror a h = p_finish_code (h a)"

definition rtdal_process_pid :: "nat \<Rightarrow> store \<Rightarrow> nat" where
  "rtdal_process_pid a h = p_pid (h a)"

definition rtdal_process_isrunning :: "nat \<Rightarrow> store \<Rightarrow> bool" where
  "rtdal_process_isrunning a h = p_is_running (h a)"

definition MAX_PROCESS_GROUP_ID :: int where "MAX_PROCESS_GROUP_ID = 100"

text \<open>pgroup_notified_failure has MAX_PROCESS_GROUP_ID elements; the test lets the number
  MAX_PROCESS_GROUP_ID through, which is no index of the array.\<close>

type_synonym groups = "int \<Rightarrow> bool"

definition group_ok :: "int \<Rightarrow> bool" where
  "group_ok g \<longleftrightarrow> 0 \<le> g \<and> g < MAX_PROCESS_GROUP_ID"

definition group_get :: "int \<Rightarrow> groups \<Rightarrow> bool option" where
  "group_get g grp = (if group_ok g then Some (grp g) else None)"

definition group_set :: "int \<Rightarrow> bool \<Rightarrow> groups \<Rightarrow> groups option" where
  "group_set g b grp = (if group_ok g then Some (grp(g := b)) else None)"

definition rtdal_process_group_notified :: "nat \<Rightarrow> store \<Rightarrow> groups \<Rightarrow> (int \<times> groups) option" where
  "rtdal_process_group_notified a h grp = (let g = process_group_id (p_attributes (h a)) in
     if g < 0 \<or> g > MAX_PROCESS_GROUP_ID then Some (-1, grp) else map_option (Pair 0) (group_set g False grp))"

section \<open>A time slot\<close>

record 'e slot_state =
  ss_store :: store
  ss_pipe :: pipeline_t
  ss_group :: groups
  ss_env :: 'e

text \<open>The module code and the callback, both applied to the argument of the process.\<close>

record 'e client =
  cl_run :: "nat \<Rightarrow> 'e slot_state \<Rightarrow> int \<times> 'e slot_state"
  cl_finish :: "nat \<Rightarrow> 'e slot_state \<Rightarrow> 'e slot_state"

definition check_status :: "'e client \<Rightarrow> nat \<Rightarrow> 'e slot_state \<Rightarrow> 'e slot_state option" where
  "check_status cl a st = (let p = ss_store st a; g = process_group_id (p_attributes p) in
     if p_runnable p \<and> p_finish_code p \<noteq> FINISH_OK
     then (case group_get g (ss_group st) of
         None \<Rightarrow> None
       | Some notified \<Rightarrow>
           if \<not> notified \<and> finish_callback (p_attributes p)
           then Some (cl_finish cl (p_arg p) (st\<lparr>ss_group := (ss_group st)(g := True)\<rparr>))
           else Some st)
     else Some st)"

definition set_running :: "bool \<Rightarrow> nat \<Rightarrow> 'e slot_state \<Rightarrow> 'e slot_state" where
  "set_running b a st = st\<lparr>ss_store := (ss_store st)(a := (ss_store st a)\<lparr>p_is_running := b\<rparr>)\<rparr>"

definition begin_run :: "nat \<Rightarrow> int \<Rightarrow> 'e slot_state \<Rightarrow> 'e slot_state" where
  "begin_run a idx st = set_running True a (st\<lparr>ss_pipe := (ss_pipe st)\<lparr>pl_running_process := Some a,
                     pl_running_process_idx := idx\<rparr>\<rparr>)"

definition end_run :: "nat \<Rightarrow> int \<Rightarrow> 'e slot_state \<Rightarrow> 'e slot_state option" where
  "end_run a r st = (if r \<noteq> 0
     then (case pipeline_remove a (ss_store st) (ss_pipe st) of
         None \<Rightarrow> None
       | Some (_, h, obj) \<Rightarrow> Some (set_running False a (st\<lparr>ss_store := h, ss_pipe := obj\<rparr>)))
     else Some (set_running False a st))"

definition run_module :: "'e client \<Rightarrow> nat \<Rightarrow> int \<Rightarrow> 'e slot_state \<Rightarrow> 'e slot_state option" where
  "run_module cl a idx st =
     (if \<not> p_runnable (ss_store st a) then Some st
      else
        let st1 = begin_run a idx st;
            (r, st2) = cl_run cl (p_arg (ss_store st1 a)) st1
        in end_run a r st2)"

text \<open>The loop over the processes. Inl is the end of the thread after the diagnosis of a
  corrupted list.\<close>

datatype corrupted = Corrupted int

partial_function (option) slot_loop ::
  "'e client \<Rightarrow> nat option \<Rightarrow> int \<Rightarrow> 'e slot_state \<Rightarrow> (corrupted + 'e slot_state) option" where
  "slot_loop cl run_proc idx st =
     (if run_proc = None then Some (Inr st)
      else if idx > pl_nof_processes (ss_pipe st) then Some (Inl (Corrupted idx))
      else Option.bind (Option.bind (check_status cl (the run_proc) st) (run_module cl (the run_proc) idx))
             (\<lambda>st'. slot_loop cl (p_next (ss_store st' (the run_proc))) (idx + 1) st'))"

definition pipeline_run_time_slot ::
  "'e client \<Rightarrow> int \<Rightarrow> 'e slot_state \<Rightarrow> (corrupted + 'e slot_state) option" where
  "pipeline_run_time_slot cl now st =
     (let st1 = st\<lparr>ss_pipe := (ss_pipe st)\<lparr>pl_finished := False\<rparr>\<rparr>;
          r = (if pl_enable (ss_pipe st1) then slot_loop cl (pl_first_process (ss_pipe st1)) 0 st1
               else Some (Inr st1))
      in case r of
           None \<Rightarrow> None
         | Some (Inl c) \<Rightarrow> Some (Inl c)
         | Some (Inr st2) \<Rightarrow> Some (Inr (st2\<lparr>ss_pipe := (ss_pipe st2)\<lparr>pl_ts_counter := now, pl_finished := True\<rparr>\<rparr>)))"

definition pipeline_rt_fault :: "pipeline_t \<Rightarrow> int \<times> pipeline_t" where
  "pipeline_rt_fault obj = (0, obj\<lparr>pl_finished := True, pl_rtfaults := pl_rtfaults obj + 1\<rparr>)"

text \<open>A null running_process makes rtdal_process_seterror return -1.\<close>

definition pipeline_recover_thread :: "store \<Rightarrow> pipeline_t \<Rightarrow> int \<times> store \<times> pipeline_t" where
  "pipeline_recover_thread h obj = (let obj1 = obj\<lparr>pl_finished := True\<rparr> in
     case pl_running_process obj1 of
       None \<Rightarrow> (-1, h, obj1)
     | Some a \<Rightarrow> (0, snd (rtdal_process_seterror a SIG_RECV h), obj1))"

section \<open>Abstraction\<close>

text \<open>The linked list from a pointer on.\<close>

fun chain :: "store \<Rightarrow> nat option \<Rightarrow> nat list \<Rightarrow> bool" where
  "chain h p [] \<longleftrightarrow> p = None"
| "chain h p (x # xs) \<longleftrightarrow> p = Some x \<and> chain h (p_next (h x)) xs"

definition pipe_ok :: "store \<Rightarrow> pipeline_t \<Rightarrow> nat list \<Rightarrow> bool" where
  "pipe_ok h obj xs \<longleftrightarrow> chain h (pl_first_process obj) xs \<and> distinct xs
     \<and> pl_nof_processes obj = int (length xs) \<and> sorted (map (exec_pos h) xs)"

text \<open>Insertion after the last element that is not later.\<close>

definition insert_pos :: "store \<Rightarrow> nat \<Rightarrow> nat list \<Rightarrow> nat list" where
  "insert_pos h a xs = takeWhile (\<lambda>x. exec_pos h x \<le> exec_pos h a) xs @ a
     # dropWhile (\<lambda>x. exec_pos h x \<le> exec_pos h a) xs"

text \<open>What a time slot does with the list of processes: each has its failure reported, unless its
  group has been told already; it runs if it is runnable after that, and the first whose run
  fails ends the slot. The result names the failed process.\<close>

definition slot_report :: "'e client \<Rightarrow> nat \<Rightarrow> 'e slot_state \<Rightarrow> 'e slot_state" where
  "slot_report cl a st = (let p = ss_store st a; g = process_group_id (p_attributes p) in
     if p_runnable p \<and> p_finish_code p \<noteq> FINISH_OK \<and> \<not> ss_group st g \<and> finish_callback (p_attributes p)
     then cl_finish cl (p_arg p) (st\<lparr>ss_group := (ss_group st)(g := True)\<rparr>) else st)"

fun slot_list :: "'e client \<Rightarrow> nat list \<Rightarrow> int \<Rightarrow> 'e slot_state \<Rightarrow> nat option \<times> 'e slot_state" where
  "slot_list cl [] idx st = (None, st)"
| "slot_list cl (a # as) idx st =
     (let st1 = slot_report cl a st in
      if p_runnable (ss_store st1 a)
      then (let (r, st2) = cl_run cl (p_arg (ss_store st1 a)) (begin_run a idx st1); st3 = set_running False a st2
            in if r \<noteq> 0 then (Some a, st3) else slot_list cl as (idx + 1) st3)
      else slot_list cl as (idx + 1) st1)"

text \<open>The callback and the module code may change the flags and error codes of the processes, the
  flags of the groups and their own state, but no process list: no link, no attribute, no
  identity of a process, and no head or count of the pipeline.\<close>

definition lists_kept :: "'e slot_state \<Rightarrow> 'e slot_state \<Rightarrow> bool" where
  "lists_kept st st' \<longleftrightarrow> (\<forall>b. p_next (ss_store st' b) = p_next (ss_store st b) \<and> p_attributes (ss_store st' b) = p_attributes (ss_store st b)
       \<and> p_pid (ss_store st' b) = p_pid (ss_store st b) \<and> p_pipeline (ss_store st' b) = p_pipeline (ss_store st b))
     \<and> pl_first_process (ss_pipe st') = pl_first_process (ss_pipe st)
     \<and> pl_nof_processes (ss_pipe st') = pl_nof_processes (ss_pipe st) \<and> pl_id (ss_pipe st') = pl_id (ss_pipe st)"

definition keeps_lists :: "'e client \<Rightarrow> bool" where
  "keeps_lists cl \<longleftrightarrow> (\<forall>x st. lists_kept st (cl_finish cl x st) \<and> lists_kept st (snd (cl_run cl x st)))"

section \<open>Linked list lemmas\<close>

lemma chain_fun: "chain h p xs \<Longrightarrow> chain h p ys \<Longrightarrow> xs = ys"
proof (induction xs arbitrary: p ys)
  case Nil
  then show ?case by (cases ys) auto
next
  case (Cons x xs)
  then show ?case by (cases ys) auto
qed

lemma chain_cong: "(\<And>x. x \<in> set xs \<Longrightarrow> p_next (h' x) = p_next (h x)) \<Longrightarrow> chain h' p xs = chain h p xs"
  by (induction xs arbitrary: p) auto

lemma chain_split:
  "chain h p (xs @ q # ys) \<Longrightarrow> chain h (Some q) (q # ys)"
  by (induction xs arbitrary: p) auto

text \<open>Relinking the element q: what comes before it stays, what follows is the new tail.\<close>

lemma chain_relink:
  assumes "chain h p (xs @ q # ys)" "q \<notin> set xs" "chain h' n zs"
    and "p_next (h' q) = n" "\<And>x. x \<in> set xs \<Longrightarrow> p_next (h' x) = p_next (h x)"
  shows "chain h' p (xs @ q # zs)"
  using assms by (induction xs arbitrary: p) auto

lemma pipeline_walk_chain:
  assumes "chain h (Some p) (p # xs)"
  shows "pipeline_walk h pos p i
    = Some (last (p # takeWhile (\<lambda>x. exec_pos h x \<le> pos) xs), i + int (length (takeWhile (\<lambda>x. exec_pos h x \<le> pos) xs)))"
  using assms
proof (induction xs arbitrary: p i)
  case Nil
  then show ?case by (simp add: pipeline_walk.simps)
next
  case (Cons x xs)
  then show ?case by (subst pipeline_walk.simps) (simp add: Cons.IH)
qed

lemma pipeline_find_chain:
  assumes "chain h cur xs"
  shows "pipeline_find h a prev cur = Some (if a \<in> set xs
    then (if takeWhile (\<lambda>x. x \<noteq> a) xs = [] then prev else Some (last (takeWhile (\<lambda>x. x \<noteq> a) xs)), Some a)
    else (if xs = [] then prev else Some (last xs), None))"
  using assms
proof (induction xs arbitrary: prev cur)
  case Nil
  then show ?case by (simp add: pipeline_find.simps)
next
  case (Cons x xs)
  then show ?case by (subst pipeline_find.simps) auto
qed

text \<open>The fields of a process other than its links.\<close>

definition same_data :: "store \<Rightarrow> store \<Rightarrow> bool" where
  "same_data h h' \<longleftrightarrow> (\<forall>b. h' b = (h b)\<lparr>p_next := p_next (h' b), p_pipeline := p_pipeline (h' b)\<rparr>)"

lemma same_data_fields:
  assumes "same_data h h'"
  shows "p_attributes (h' b) = p_attributes (h b)" "p_arg (h' b) = p_arg (h b)" "p_pid (h' b) = p_pid (h b)"
    "p_runnable (h' b) = p_runnable (h b)" "p_finish_code (h' b) = p_finish_code (h b)"
    "p_is_running (h' b) = p_is_running (h b)"
proof -
  obtain n p where "h' b = (h b)\<lparr>p_next := n, p_pipeline := p\<rparr>" using assms unfolding same_data_def by blast
  then show "p_attributes (h' b) = p_attributes (h b)" "p_arg (h' b) = p_arg (h b)" "p_pid (h' b) = p_pid (h b)"
    "p_runnable (h' b) = p_runnable (h b)" "p_finish_code (h' b) = p_finish_code (h b)"
    "p_is_running (h' b) = p_is_running (h b)" by simp_all
qed

lemma insert_pos_sorted:
  "sorted (map f xs) \<Longrightarrow> sorted (map f (takeWhile (\<lambda>x. f x \<le> (f a :: int)) xs @ a # dropWhile (\<lambda>x. f x \<le> f a) xs))"
proof (induction xs)
  case (Cons x xs)
  show ?case
  proof (cases "f x \<le> f a")
    case True
    have "set (takeWhile (\<lambda>x. f x \<le> f a) xs @ a # dropWhile (\<lambda>x. f x \<le> f a) xs) \<subseteq> insert a (set xs)"
      by (auto dest: set_takeWhileD set_dropWhileD)
    then show ?thesis using Cons True by auto
  next
    case False
    then show ?thesis using Cons.prems by fastforce
  qed
qed simp

lemma insert_pos_length [simp]: "length (insert_pos h a xs) = Suc (length xs)"
proof -
  have "length (takeWhile P xs) + length (dropWhile P xs) = length xs" for P :: "nat \<Rightarrow> bool"
    by (metis length_append takeWhile_dropWhile_id)
  then show ?thesis by (simp add: insert_pos_def)
qed

lemma insert_pos_set [simp]: "set (insert_pos h a xs) = insert a (set xs)"
  unfolding insert_pos_def by (metis Un_insert_right list.simps(15) set_append takeWhile_dropWhile_id)

lemma insert_pos_distinct [simp]: "distinct (insert_pos h a xs) \<longleftrightarrow> a \<notin> set xs \<and> distinct xs"
proof -
  let ?P = "\<lambda>x. exec_pos h x \<le> exec_pos h a"
  have "distinct (insert_pos h a xs) \<longleftrightarrow> a \<notin> set (takeWhile ?P xs @ dropWhile ?P xs) \<and> distinct (takeWhile ?P xs @ dropWhile ?P xs)"
    unfolding insert_pos_def by (auto simp del: takeWhile_dropWhile_id)
  then show ?thesis by simp
qed

lemma pipeline_add_ok:
  assumes ok: "pipe_ok h obj xs" and a: "a \<notin> set xs"
  obtains i h' obj' where "pipeline_add a h obj = Some (i, h', obj')" "pipe_ok h' obj' (insert_pos h a xs)"
    "same_data h h'" "\<And>b. b \<notin> insert a (set xs) \<Longrightarrow> h' b = h b"
    "\<And>b. p_pipeline (h' b) = (if b = a then Some (pl_id obj) else p_pipeline (h b))"
    "obj' = obj\<lparr>pl_first_process := pl_first_process obj', pl_nof_processes := pl_nof_processes obj'\<rparr>"
    "i = int (length (takeWhile (\<lambda>x. exec_pos h x \<le> exec_pos h a) xs) - 1)"
proof -
  let ?P = "\<lambda>x. exec_pos h x \<le> exec_pos h a"
  have c: "chain h (pl_first_process obj) xs" "distinct xs" "pl_nof_processes obj = int (length xs)" "sorted (map (exec_pos h) xs)"
    using ok by (auto simp: pipe_ok_def)
  have srt: "sorted (map (exec_pos h) (insert_pos h a xs))"
    using insert_pos_sorted [OF c(4)] by (simp add: insert_pos_def)
  show thesis
  proof (cases xs)
    case Nil
    then have "pl_first_process obj = None" using c by simp
    then show thesis using c Nil
      by (intro that [of 0 "h(a := (h a)\<lparr>p_next := None, p_pipeline := Some (pl_id obj)\<rparr>)"
            "obj\<lparr>pl_first_process := Some a, pl_nof_processes := pl_nof_processes obj + 1\<rparr>"]) (auto simp: pipeline_add_def pipe_ok_def insert_pos_def same_data_def)
  next
    case (Cons f ys)
    then have f: "pl_first_process obj = Some f" and fys: "chain h (Some f) (f # ys)" using c by auto
    show thesis
    proof (cases "exec_pos h a < exec_pos h f")
      case True
      define h' where "h' = h(a := (h a)\<lparr>p_next := Some f, p_pipeline := Some (pl_id obj)\<rparr>)"
      have "chain h' (Some f) xs" using a f c(1) by (subst chain_cong [of xs h' h]) (auto simp: h'_def)
      then have "chain h' (Some a) (a # xs)" by (simp add: h'_def)
      moreover have "exec_pos h' = exec_pos h" by (auto simp: h'_def)
      ultimately show thesis
        using c srt f Cons True a
        by (intro that [of 0 h' "obj\<lparr>pl_first_process := Some a, pl_nof_processes := pl_nof_processes obj + 1\<rparr>"])
          (auto simp: pipeline_add_def pipe_ok_def insert_pos_def same_data_def h'_def Let_def)
    next
      case False
      define tw where "tw = takeWhile ?P ys"
      define dw where "dw = dropWhile ?P ys"
      define p where "p = last (f # tw)"
      define h' where "h' = (h(a := (h a)\<lparr>p_next := p_next (h p), p_pipeline := Some (pl_id obj)\<rparr>))(p := (h p)\<lparr>p_next := Some a\<rparr>)"
      have ys: "ys = tw @ dw" by (simp add: tw_def dw_def)
      have ftw: "f # tw = butlast (f # tw) @ [p]" by (simp add: p_def)
      then have xs: "xs = butlast (f # tw) @ p # dw" using Cons ys by (metis append.assoc append_Cons append_Nil)
      have pa: "p \<noteq> a" using a xs by auto
      have pn: "p \<notin> set (butlast (f # tw))" "p \<notin> set dw" using c(2) xs by auto
      have tail: "chain h (p_next (h p)) dw" using chain_split [of h _ _ p dw] c(1) xs by simp
      have walk: "pipeline_walk h (exec_pos h a) f 0 = Some (p, int (length tw))"
        using pipeline_walk_chain [OF fys] by (simp add: tw_def p_def)
      have "chain h' (p_next (h p)) dw"
        using tail pn(2) a xs by (subst chain_cong [of dw h' h]) (auto simp: h'_def)
      then have "chain h' (Some a) (a # dw)" using pa by (simp add: h'_def)
      then have ch: "chain h' (pl_first_process obj) (butlast (f # tw) @ p # a # dw)"
        using c(1) pn(1) a unfolding xs by (rule_tac chain_relink [where h = h and ys = dw]) (auto simp: h'_def)
      have "insert_pos h a xs = butlast (f # tw) @ p # a # dw"
        using False Cons ftw unfolding insert_pos_def tw_def dw_def by simp
      with ch have "chain h' (pl_first_process obj) (insert_pos h a xs)" by (simp only:)
      moreover have "exec_pos h' = exec_pos h" using pa by (auto simp: h'_def)
      moreover have "pipeline_add a h obj = Some (int (length tw), h', obj\<lparr>pl_nof_processes := pl_nof_processes obj + 1\<rparr>)"
        using f False walk pa by (simp add: pipeline_add_def h'_def Let_def fun_upd_twist)
      ultimately have add: "pipeline_add a h obj = Some (int (length tw), h', obj\<lparr>pl_nof_processes := pl_nof_processes obj + 1\<rparr>)"
        and ok': "pipe_ok h' (obj\<lparr>pl_nof_processes := pl_nof_processes obj + 1\<rparr>) (insert_pos h a xs)"
        using c a srt by (simp_all add: pipe_ok_def)
      have "p \<in> set xs" using xs by simp
      then have "h' b = h b" if "b \<notin> insert a (set xs)" for b using that by (auto simp: h'_def)
      moreover have "same_data h h'" using pa by (auto simp: same_data_def h'_def)
      moreover have "p_pipeline (h' b) = (if b = a then Some (pl_id obj) else p_pipeline (h b))" for b
        using pa by (auto simp: h'_def)
      moreover have "takeWhile ?P xs = f # tw" using Cons False by (simp add: tw_def)
      ultimately show thesis by (intro that [OF add ok']) simp_all
    qed
  qed
qed

lemma pipeline_remove_absent:
  assumes "pipe_ok h obj xs" "a \<notin> set xs"
  shows "pipeline_remove a h obj = Some (-1, h, obj)"
  using assms pipeline_find_chain [of h "pl_first_process obj" xs a None]
  by (auto simp: pipeline_remove_def pipe_ok_def)

lemma takeWhile_remove1:
  assumes "a \<in> set xs"
  obtains ys where "xs = takeWhile (\<lambda>x. x \<noteq> a) xs @ a # ys" "remove1 a xs = takeWhile (\<lambda>x. x \<noteq> a) xs @ ys"
proof -
  obtain us ys where xs: "xs = us @ a # ys" "a \<notin> set us" using assms by (meson split_list_first)
  then have "takeWhile (\<lambda>x. x \<noteq> a) xs = us" by (subst xs(1), subst takeWhile_append2) auto
  then show thesis using xs by (intro that) (auto simp: remove1_append)
qed

lemma sorted_remove1: "sorted (map f xs) \<Longrightarrow> sorted (map f (remove1 a xs))"
proof (induction xs)
  case (Cons x xs)
  then show ?case using set_remove1_subset [of a xs] by auto
qed simp

lemma pipeline_remove_ok:
  assumes ok: "pipe_ok h obj xs" and a: "a \<in> set xs"
  obtains h' obj' where "pipeline_remove a h obj = Some (0, h', obj')" "pipe_ok h' obj' (remove1 a xs)"
    "same_data h h'" "\<And>b. b \<notin> set xs \<Longrightarrow> h' b = h b" "\<And>b. p_pipeline (h' b) = p_pipeline (h b)"
    "p_next (h' a) = None" "obj' = obj\<lparr>pl_first_process := pl_first_process obj', pl_nof_processes := pl_nof_processes obj'\<rparr>"
proof -
  have c: "chain h (pl_first_process obj) xs" "distinct xs" "pl_nof_processes obj = int (length xs)" "sorted (map (exec_pos h) xs)"
    using ok by (auto simp: pipe_ok_def)
  define us where "us = takeWhile (\<lambda>x. x \<noteq> a) xs"
  obtain ys where xs: "xs = us @ a # ys" and rem: "remove1 a xs = us @ ys"
    using takeWhile_remove1 [OF a] unfolding us_def by blast
  have an: "a \<notin> set us" "a \<notin> set ys" using c(2) xs by auto
  have find: "pipeline_find h a None (pl_first_process obj) = Some (if us = [] then None else Some (last us), Some a)"
    using pipeline_find_chain [OF c(1), of a None] a by (simp add: us_def)
  have tail: "chain h (p_next (h a)) ys" using chain_split [of h _ us a ys] c(1) xs by simp
  have len: "pl_nof_processes obj - 1 = int (length (us @ ys))" using c(3) xs by simp
  have srt: "sorted (map (exec_pos h) (us @ ys))" using sorted_remove1 [OF c(4), of a] rem by simp
  have dst: "distinct (us @ ys)" using c(2) xs by auto
  show thesis
  proof (cases "us = []")
    case True
    define h' where "h' = h(a := (h a)\<lparr>p_next := None\<rparr>)"
    have "chain h' (p_next (h a)) ys" using tail an by (subst chain_cong [of ys h' h]) (auto simp: h'_def)
    moreover have "exec_pos h' = exec_pos h" by (auto simp: h'_def)
    moreover have "pipeline_remove a h obj
        = Some (0, h', obj\<lparr>pl_first_process := p_next (h a), pl_nof_processes := pl_nof_processes obj - 1\<rparr>)"
      using find True by (simp add: pipeline_remove_def h'_def)
    ultimately show thesis using True len srt dst rem a
      by (intro that [of h' "obj\<lparr>pl_first_process := p_next (h a), pl_nof_processes := pl_nof_processes obj - 1\<rparr>"])
        (simp_all add: pipe_ok_def same_data_def, auto simp: h'_def)
  next
    case False
    define q where "q = last us"
    have us: "us = butlast us @ [q]" using False by (simp add: q_def)
    have "xs = butlast us @ q # a # ys" using xs us by (metis append.assoc append_Cons append_Nil)
    then have qa: "q \<noteq> a" "q \<notin> set ys" "q \<notin> set (butlast us)" "q \<in> set xs" using c(2) by auto
    define h' where "h' = (h(q := (h q)\<lparr>p_next := p_next (h a)\<rparr>))(a := (h a)\<lparr>p_next := None\<rparr>)"
    have t': "chain h' (p_next (h a)) ys" using tail an qa by (subst chain_cong [of ys h' h]) (auto simp: h'_def)
    have "chain h (pl_first_process obj) (butlast us @ q # a # ys)" using c(1) xs us by (metis append.assoc append_Cons append_Nil)
    then have "chain h' (pl_first_process obj) (butlast us @ q # ys)"
      using t' qa an by (rule_tac chain_relink [where h = h and ys = "a # ys"]) (auto simp: h'_def dest: in_set_butlastD)
    then have "chain h' (pl_first_process obj) (us @ ys)" using us by (metis append.assoc append_Cons append_Nil)
    moreover have "exec_pos h' = exec_pos h" by (auto simp: h'_def)
    moreover have "pipeline_remove a h obj = Some (0, h', obj\<lparr>pl_nof_processes := pl_nof_processes obj - 1\<rparr>)"
      using find False qa by (simp add: pipeline_remove_def h'_def q_def)
    ultimately show thesis using len srt dst rem a qa
      by (intro that [of h' "obj\<lparr>pl_nof_processes := pl_nof_processes obj - 1\<rparr>"])
        (simp_all add: pipe_ok_def same_data_def, auto simp: h'_def)
  qed
qed

section \<open>Time slot lemmas\<close>

text \<open>A process without its link.\<close>

definition view :: "rtdal_process_t \<Rightarrow> rtdal_process_t" where
  "view p = p\<lparr>p_next := None\<rparr>"

lemma lists_kept_refl [simp]: "lists_kept st st"
  by (simp add: lists_kept_def)

lemma lists_kept_trans [trans]: "lists_kept st st1 \<Longrightarrow> lists_kept st1 st2 \<Longrightarrow> lists_kept st st2"
  by (simp add: lists_kept_def)

lemma lists_kept_running: "lists_kept st st' \<Longrightarrow> lists_kept st (set_running b a st')"
  by (simp add: lists_kept_def set_running_def)

lemma lists_kept_begin [simp]: "lists_kept st (begin_run a idx st)"
  by (simp add: begin_run_def lists_kept_def set_running_def)

lemma lists_kept_report:
  assumes "keeps_lists cl"
  shows "lists_kept st (slot_report cl a st)"
proof -
  have "lists_kept (st\<lparr>ss_group := g\<rparr>) (cl_finish cl x (st\<lparr>ss_group := g\<rparr>))" for g x
    using assms by (simp add: keeps_lists_def)
  then have "lists_kept st (cl_finish cl x (st\<lparr>ss_group := g\<rparr>))" for g x by (simp add: lists_kept_def)
  then show ?thesis by (simp add: slot_report_def Let_def)
qed

lemma lists_kept_run:
  assumes "keeps_lists cl" "cl_run cl x (begin_run a idx st) = (r, st2)"
  shows "lists_kept st st2"
proof -
  have "lists_kept (begin_run a idx st) st2" using assms unfolding keeps_lists_def by (metis snd_conv)
  then show ?thesis using lists_kept_trans [OF lists_kept_begin] by blast
qed

lemma pipe_ok_kept:
  assumes "lists_kept st st'"
  shows "pipe_ok (ss_store st') (ss_pipe st') xs = pipe_ok (ss_store st) (ss_pipe st) xs"
    and "chain (ss_store st') p xs = chain (ss_store st) p xs"
proof -
  have "exec_pos (ss_store st') = exec_pos (ss_store st)" using assms by (auto simp: lists_kept_def)
  moreover show "chain (ss_store st') p xs = chain (ss_store st) p xs" for p
    using assms by (intro chain_cong) (simp add: lists_kept_def)
  ultimately show "pipe_ok (ss_store st') (ss_pipe st') xs = pipe_ok (ss_store st) (ss_pipe st) xs"
    using assms by (simp add: pipe_ok_def lists_kept_def)
qed

lemma check_status_report:
  "group_ok (process_group_id (p_attributes (ss_store st a))) \<Longrightarrow> check_status cl a st = Some (slot_report cl a st)"
  by (simp add: check_status_def slot_report_def group_get_def Let_def)

text \<open>The outcome of a slot on a state with the list zs: what slot_list says, and the list of what
  remains after the failed process was removed.\<close>

definition slot_result :: "nat list \<Rightarrow> nat option \<times> 'e slot_state \<Rightarrow> 'e slot_state \<Rightarrow> bool" where
  "slot_result zs r st' \<longleftrightarrow>
     pipe_ok (ss_store st') (ss_pipe st') (case fst r of None \<Rightarrow> zs | Some a \<Rightarrow> remove1 a zs)
     \<and> (\<forall>b. view (ss_store st' b) = view (ss_store (snd r) b))
     \<and> (\<forall>b. b \<notin> set zs \<longrightarrow> ss_store st' b = ss_store (snd r) b)
     \<and> ss_group st' = ss_group (snd r) \<and> ss_env st' = ss_env (snd r)
     \<and> pl_id (ss_pipe st') = pl_id (ss_pipe (snd r))"

lemma view_fields:
  assumes "view p = view q"
  shows "p_attributes p = p_attributes q" "p_pid p = p_pid q" "p_pipeline p = p_pipeline q" "p_arg p = p_arg q"
    "p_runnable p = p_runnable q" "p_finish_code p = p_finish_code q" "p_is_running p = p_is_running q"
  using assms by (cases p; cases q; simp add: view_def)+

lemma remove_failed:
  assumes ok: "pipe_ok (ss_store st) (ss_pipe st) zs" and a: "a \<in> set zs"
  obtains h obj where "pipeline_remove a (ss_store st) (ss_pipe st) = Some (0, h, obj)"
    "slot_result zs (Some a, set_running False a st) (set_running False a (st\<lparr>ss_store := h, ss_pipe := obj\<rparr>))" "p_next (h a) = None"
proof -
  obtain h obj where rem: "pipeline_remove a (ss_store st) (ss_pipe st) = Some (0, h, obj)"
    "pipe_ok h obj (remove1 a zs)" "same_data (ss_store st) h" and fr: "\<And>b. b \<notin> set zs \<Longrightarrow> h b = ss_store st b"
    and pp: "\<And>b. p_pipeline (h b) = p_pipeline (ss_store st b)" and n: "p_next (h a) = None"
    and eq: "obj = (ss_pipe st)\<lparr>pl_first_process := pl_first_process obj, pl_nof_processes := pl_nof_processes obj\<rparr>"
    by (rule pipeline_remove_ok [OF ok a]) (rule that)
  have id: "pl_id obj = pl_id (ss_pipe st)" by (subst eq) simp
  have v: "view (h b) = view (ss_store st b)" for b
  proof -
    have "h b = (ss_store st b)\<lparr>p_next := p_next (h b), p_pipeline := p_pipeline (h b)\<rparr>"
      using rem(3) unfolding same_data_def by blast
    then show ?thesis unfolding view_def using pp [of b] by (metis (no_types, lifting) rtdal_process_t.surjective rtdal_process_t.update_convs(2,9))
  qed
  let ?s = "set_running False a (st\<lparr>ss_store := h, ss_pipe := obj\<rparr>)"
  have "lists_kept (st\<lparr>ss_store := h, ss_pipe := obj\<rparr>) ?s" by (simp add: lists_kept_running)
  from pipe_ok_kept(1) [OF this] have "pipe_ok (ss_store ?s) (ss_pipe ?s) (remove1 a zs)" using rem(2) by simp
  moreover have "view (ss_store ?s b) = view (ss_store (set_running False a st) b)" for b
  proof (cases "b = a")
    case True
    then have "view (ss_store ?s b) = (view (h a))\<lparr>p_is_running := False\<rparr>" "view (ss_store (set_running False a st) b) = (view (ss_store st a))\<lparr>p_is_running := False\<rparr>"
      by (simp_all add: set_running_def view_def)
    then show ?thesis using v [of a] by simp
  qed (use v [of b] in \<open>simp add: set_running_def\<close>)
  moreover have "ss_store ?s b = ss_store (set_running False a st) b" if "b \<notin> set zs" for b
    using fr [OF that] that a by (auto simp: set_running_def)
  ultimately have "slot_result zs (Some a, set_running False a st) ?s"
    using id by (simp add: slot_result_def set_running_def)
  then show thesis using that [OF rem(1) _ n] by blast
qed

lemma slot_loop_ok:
  assumes "keeps_lists cl" "pipe_ok (ss_store st) (ss_pipe st) (ds @ xs)" "chain (ss_store st) p xs" "idx = int (length ds)"
    and "\<forall>a \<in> set xs. group_ok (process_group_id (p_attributes (ss_store st a)))"
  shows "\<exists>st'. slot_loop cl p idx st = Some (Inr st') \<and> slot_result (ds @ xs) (slot_list cl xs idx st) st'
    \<and> (fst (slot_list cl xs idx st) = None \<longrightarrow> st' = snd (slot_list cl xs idx st))"
  using assms
proof (induction xs arbitrary: ds p idx st)
  case Nil
  then show ?case by (subst slot_loop.simps) (simp add: slot_result_def)
next
  case (Cons a xs)
  let ?c = "slot_report cl a st"
  have idx: "\<not> idx > pl_nof_processes (ss_pipe st)" using Cons.prems by (simp add: pipe_ok_def)
  have kc: "lists_kept st ?c" using lists_kept_report [OF Cons.prems(1)] .
  have loop: "slot_loop cl p idx st = Option.bind (run_module cl a idx ?c)
      (\<lambda>st'. slot_loop cl (p_next (ss_store st' a)) (idx + 1) st')"
    using idx Cons.prems by (subst slot_loop.simps) (simp add: check_status_report)
  have step: "\<exists>st''. slot_loop cl (p_next (ss_store st' a)) (idx + 1) st' = Some (Inr st'')
      \<and> slot_result (ds @ a # xs) (slot_list cl xs (idx + 1) st') st''
      \<and> (fst (slot_list cl xs (idx + 1) st') = None \<longrightarrow> st'' = snd (slot_list cl xs (idx + 1) st'))"
    if k: "lists_kept st st'" for st'
  proof -
    have "p_next (ss_store st' a) = p_next (ss_store st a)" using k by (simp add: lists_kept_def)
    then have "chain (ss_store st') (p_next (ss_store st' a)) xs" using Cons.prems(3) pipe_ok_kept(2) [OF k] by simp
    moreover have "pipe_ok (ss_store st') (ss_pipe st') ((ds @ [a]) @ xs)" using Cons.prems(2) pipe_ok_kept(1) [OF k] by simp
    moreover have "\<forall>b \<in> set xs. group_ok (process_group_id (p_attributes (ss_store st' b)))"
      using Cons.prems(5) k by (simp add: lists_kept_def)
    ultimately show ?thesis
      using Cons.IH [of st' "ds @ [a]" "p_next (ss_store st' a)" "idx + 1"] Cons.prems(1,4) by simp
  qed
  show ?case
  proof (cases "p_runnable (ss_store ?c a)")
    case False
    then have "run_module cl a idx ?c = Some ?c" by (simp add: run_module_def)
    then show ?thesis using step [OF kc] False loop by (simp add: Let_def)
  next
    case True
    obtain r st2 where re: "cl_run cl (p_arg (ss_store ?c a)) (begin_run a idx ?c) = (r, st2)"
      by (cases "cl_run cl (p_arg (ss_store ?c a)) (begin_run a idx ?c)")
    have arg: "p_arg (ss_store (begin_run a idx ?c) a) = p_arg (ss_store ?c a)" by (simp add: begin_run_def set_running_def)
    have k2: "lists_kept st st2" using lists_kept_trans [OF kc lists_kept_run [OF Cons.prems(1) re]] .
    show ?thesis
    proof (cases "r = 0")
      case r: True
      then have "run_module cl a idx ?c = Some (set_running False a st2)"
        using True re arg by (simp add: run_module_def end_run_def Let_def)
      then show ?thesis using step [OF lists_kept_running [OF k2]] True re loop r by (simp add: Let_def)
    next
      case r: False
      have "pipe_ok (ss_store st2) (ss_pipe st2) (ds @ a # xs)" using Cons.prems(2) pipe_ok_kept(1) [OF k2] by simp
      then obtain h obj where rem: "pipeline_remove a (ss_store st2) (ss_pipe st2) = Some (0, h, obj)"
        "slot_result (ds @ a # xs) (Some a, set_running False a st2) (set_running False a (st2\<lparr>ss_store := h, ss_pipe := obj\<rparr>))"
        "p_next (h a) = None" by (rule remove_failed [of st2 _ a]) auto
      have "run_module cl a idx ?c = Some (set_running False a (st2\<lparr>ss_store := h, ss_pipe := obj\<rparr>))"
        using True re arg r rem(1) by (simp add: run_module_def end_run_def Let_def)
      moreover have "slot_loop cl (p_next (ss_store (set_running False a (st2\<lparr>ss_store := h, ss_pipe := obj\<rparr>)) a)) (idx + 1) x = Some (Inr x)" for x
        using rem(3) by (subst slot_loop.simps) (simp add: set_running_def)
      ultimately show ?thesis using True re r rem(2) loop by (simp add: Let_def)
    qed
  qed
qed

lemma slot_list_kept:
  assumes "keeps_lists cl"
  shows "lists_kept st (snd (slot_list cl xs idx st))"
proof (induction xs arbitrary: idx st)
  case (Cons a xs)
  let ?c = "slot_report cl a st"
  have kc: "lists_kept st ?c" using lists_kept_report [OF assms] .
  obtain r st2 where re: "cl_run cl (p_arg (ss_store ?c a)) (begin_run a idx ?c) = (r, st2)"
    by (cases "cl_run cl (p_arg (ss_store ?c a)) (begin_run a idx ?c)")
  have k2: "lists_kept st (set_running False a st2)"
    using lists_kept_running [OF lists_kept_trans [OF kc lists_kept_run [OF assms re]]] .
  show ?case using Cons.IH lists_kept_trans [OF kc] lists_kept_trans [OF k2] k2 re by (simp add: Let_def)
qed simp

section \<open>Sequences of insertions and removals\<close>

datatype pl_cmd = Add nat | Remove nat

text \<open>Commands run one after the other on a state, with given operations.\<close>

fun run_cmds :: "(nat \<Rightarrow> 's \<Rightarrow> (int \<times> 's) option) \<Rightarrow> (nat \<Rightarrow> 's \<Rightarrow> (int \<times> 's) option) \<Rightarrow> pl_cmd list \<Rightarrow> 's \<Rightarrow> 's option" where
  "run_cmds add rem [] s = Some s"
| "run_cmds add rem (Add a # cs) s = (case add a s of None \<Rightarrow> None | Some (_, s') \<Rightarrow> run_cmds add rem cs s')"
| "run_cmds add rem (Remove a # cs) s = (case rem a s of None \<Rightarrow> None | Some (_, s') \<Rightarrow> run_cmds add rem cs s')"

text \<open>A list of processes ordered by a position: what insertion and removal promise.\<close>

locale process_list =
  fixes ok :: "'s \<Rightarrow> nat list \<Rightarrow> bool" and pos :: "'s \<Rightarrow> nat \<Rightarrow> int"
    and add :: "nat \<Rightarrow> 's \<Rightarrow> (int \<times> 's) option" and rem :: "nat \<Rightarrow> 's \<Rightarrow> (int \<times> 's) option"
  assumes add_ok: "ok s xs \<Longrightarrow> a \<notin> set xs \<Longrightarrow> \<exists>i s'. add a s = Some (i, s') \<and> pos s' = pos s
      \<and> ok s' (takeWhile (\<lambda>x. pos s x \<le> pos s a) xs @ a # dropWhile (\<lambda>x. pos s x \<le> pos s a) xs)"
    and rem_ok: "ok s xs \<Longrightarrow> \<exists>i s'. rem a s = Some (i, s') \<and> pos s' = pos s \<and> ok s' (remove1 a xs)"

text \<open>The commands on the abstract list, and that only absent processes are added.\<close>

fun list_cmds :: "(nat \<Rightarrow> int) \<Rightarrow> pl_cmd list \<Rightarrow> nat list \<Rightarrow> nat list" where
  "list_cmds f [] xs = xs"
| "list_cmds f (Add a # cs) xs = list_cmds f cs (takeWhile (\<lambda>x. f x \<le> f a) xs @ a # dropWhile (\<lambda>x. f x \<le> f a) xs)"
| "list_cmds f (Remove a # cs) xs = list_cmds f cs (remove1 a xs)"

fun adds_absent :: "(nat \<Rightarrow> int) \<Rightarrow> pl_cmd list \<Rightarrow> nat list \<Rightarrow> bool" where
  "adds_absent f [] xs = True"
| "adds_absent f (Add a # cs) xs = (a \<notin> set xs
     \<and> adds_absent f cs (takeWhile (\<lambda>x. f x \<le> f a) xs @ a # dropWhile (\<lambda>x. f x \<le> f a) xs))"
| "adds_absent f (Remove a # cs) xs = adds_absent f cs (remove1 a xs)"

context process_list
begin

lemma run_cmds_ok:
  "ok s xs \<Longrightarrow> adds_absent (pos s) cs xs \<Longrightarrow>
   \<exists>s'. run_cmds add rem cs s = Some s' \<and> ok s' (list_cmds (pos s) cs xs) \<and> pos s' = pos s"
proof (induction cs arbitrary: s xs)
  case (Cons c cs)
  show ?case
  proof (cases c)
    case (Add a)
    then have "a \<notin> set xs" using Cons.prems by simp
    from add_ok [OF Cons.prems(1) this] obtain i s' where "add a s = Some (i, s')" "pos s' = pos s"
      "ok s' (takeWhile (\<lambda>x. pos s x \<le> pos s a) xs @ a # dropWhile (\<lambda>x. pos s x \<le> pos s a) xs)" by blast
    then show ?thesis using Cons.IH [of s'] Cons.prems Add by auto
  next
    case (Remove a)
    from rem_ok [OF Cons.prems(1), of a] obtain i s' where "rem a s = Some (i, s')" "pos s' = pos s" "ok s' (remove1 a xs)" by blast
    then show ?thesis using Cons.IH [of s'] Cons.prems Remove by auto
  qed
qed simp

end

text \<open>The pipeline implements the ordered list.\<close>

definition pl_add :: "nat \<Rightarrow> store \<times> pipeline_t \<Rightarrow> (int \<times> store \<times> pipeline_t) option" where
  "pl_add a s = pipeline_add a (fst s) (snd s)"

definition pl_remove :: "nat \<Rightarrow> store \<times> pipeline_t \<Rightarrow> (int \<times> store \<times> pipeline_t) option" where
  "pl_remove a s = pipeline_remove a (fst s) (snd s)"

interpretation pll: process_list "\<lambda>s. pipe_ok (fst s) (snd s)" "\<lambda>s. exec_pos (fst s)" pl_add pl_remove
proof
  fix s xs a assume ok: "pipe_ok (fst s) (snd s) xs"
  have pos: "exec_pos h' = exec_pos (fst s)" if "same_data (fst s) h'" for h'
    using same_data_fields [OF that] by auto
  show "\<exists>i s'. pl_add a s = Some (i, s') \<and> exec_pos (fst s') = exec_pos (fst s)
      \<and> pipe_ok (fst s') (snd s') (takeWhile (\<lambda>x. exec_pos (fst s) x \<le> exec_pos (fst s) a) xs @ a
          # dropWhile (\<lambda>x. exec_pos (fst s) x \<le> exec_pos (fst s) a) xs)" if na: "a \<notin> set xs"
  proof -
    obtain i h' obj' where "pipeline_add a (fst s) (snd s) = Some (i, h', obj')"
      "pipe_ok h' obj' (insert_pos (fst s) a xs)" "same_data (fst s) h'"
      by (rule pipeline_add_ok [OF ok na]) (rule that)
    then show ?thesis using pos by (auto simp: pl_add_def insert_pos_def)
  qed
  show "\<exists>i s'. pl_remove a s = Some (i, s') \<and> exec_pos (fst s') = exec_pos (fst s) \<and> pipe_ok (fst s') (snd s') (remove1 a xs)"
  proof (cases "a \<in> set xs")
    case True
    obtain h' obj' where "pipeline_remove a (fst s) (snd s) = Some (0, h', obj')"
      "pipe_ok h' obj' (remove1 a xs)" "same_data (fst s) h'"
      by (rule pipeline_remove_ok [OF ok True]) (rule that)
    then show ?thesis using pos by (auto simp: pl_remove_def)
  next
    case False
    then show ?thesis using ok pipeline_remove_absent [OF ok False] by (auto simp: pl_remove_def remove1_idem)
  qed
qed

text \<open>The slot of an enabled pipeline as the list of its processes sees it.\<close>

definition slot_spec :: "'e client \<Rightarrow> nat list \<Rightarrow> 'e slot_state \<Rightarrow> nat option \<times> 'e slot_state" where
  "slot_spec cl xs st = slot_list cl xs 0 (st\<lparr>ss_pipe := (ss_pipe st)\<lparr>pl_finished := False\<rparr>\<rparr>)"

lemma time_slot_core:
  assumes "keeps_lists cl" "pipe_ok (ss_store st) (ss_pipe st) xs" "pl_enable (ss_pipe st)"
    and "\<forall>a \<in> set xs. group_ok (process_group_id (p_attributes (ss_store st a)))"
  shows "\<exists>st'. pipeline_run_time_slot cl now st = Some (Inr st') \<and> slot_result xs (slot_spec cl xs st) st'
    \<and> pl_finished (ss_pipe st') \<and> pl_ts_counter (ss_pipe st') = now"
proof -
  define st1 where "st1 = st\<lparr>ss_pipe := (ss_pipe st)\<lparr>pl_finished := False\<rparr>\<rparr>"
  have ok1: "pipe_ok (ss_store st1) (ss_pipe st1) ([] @ xs)" using assms(2) by (simp add: st1_def pipe_ok_def)
  then have "chain (ss_store st1) (pl_first_process (ss_pipe st1)) xs" by (simp add: pipe_ok_def)
  from slot_loop_ok [OF assms(1) ok1 this, of 0] assms(4) obtain st2 where
    st2: "slot_loop cl (pl_first_process (ss_pipe st1)) 0 st1 = Some (Inr st2)" "slot_result xs (slot_list cl xs 0 st1) st2"
    by (auto simp: st1_def)
  have "pipeline_run_time_slot cl now st = Some (Inr (st2\<lparr>ss_pipe := (ss_pipe st2)\<lparr>pl_ts_counter := now, pl_finished := True\<rparr>\<rparr>))"
    using assms(3) st2(1) by (simp add: pipeline_run_time_slot_def st1_def Let_def)
  then show ?thesis using st2(2) by (auto simp: slot_result_def slot_spec_def st1_def pipe_ok_def)
qed

section \<open>Properties\<close>


definition demo_proc :: "int \<Rightarrow> nat \<Rightarrow> rtdal_process_t" where
  "demo_proc pos arg = \<lparr>p_pid = 1, p_pipeline = None, p_arg = arg,
     p_attributes = \<lparr>pipeline_id = 0, exec_position = pos, process_group_id = 0, finish_callback = True\<rparr>,
     p_is_running = False, p_runnable = True, p_run_point = True, p_finish_code = FINISH_OK, p_next = None\<rparr>"

definition demo_pipe :: pipeline_t where
  "demo_pipe = \<lparr>pl_id = 0, pl_first_process = None, pl_finished = True, pl_nof_processes = 0, pl_rtfaults = 0,
     pl_ts_counter = 0, pl_enable = True, pl_running_process = None, pl_running_process_idx = 0\<rparr>"


text \<open>The number that pipeline_add returns is the index of the process in the list only at
  the head: behind it, the call returns one less than the index of the inserted process.\<close>

theorem pipeline_add_index:
  assumes "pipe_ok h obj xs" "a \<notin> set xs"
  shows "\<exists>i h' obj' zs k. pipeline_add a h obj = Some (i, h', obj') \<and> pipe_ok h' obj' zs
    \<and> k < length zs \<and> zs ! k = a \<and> i = (if k = 0 then 0 else int k - 1)"
proof -
  define k where "k = length (takeWhile (\<lambda>x. exec_pos h x \<le> exec_pos h a) xs)"
  obtain i h' obj' where "pipeline_add a h obj = Some (i, h', obj')" "pipe_ok h' obj' (insert_pos h a xs)" "i = int (k - 1)"
    by (rule pipeline_add_ok [OF assms]) (rule that, simp_all add: k_def)
  moreover have "k < length (insert_pos h a xs)"
    using length_takeWhile_le [of "\<lambda>x. exec_pos h x \<le> exec_pos h a" xs] by (simp add: k_def le_imp_less_Suc)
  moreover have "insert_pos h a xs ! k = a" by (simp add: insert_pos_def nth_append k_def)
  moreover have "int (k - 1) = (if k = 0 then 0 else int k - 1)" by (cases k) auto
  ultimately show ?thesis by blast
qed

theorem pipeline_add_index_witness:
  "\<exists>i h' obj' zs k. pipeline_add 2 (\<lambda>a. demo_proc 0 a) demo_pipe = Some (i, h', obj') \<and> pipe_ok h' obj' zs
    \<and> k < length zs \<and> zs ! k = 2 \<and> i = (if k = 0 then 0 else int k - 1)"
  by (rule pipeline_add_index [of _ _ "[]"]) (simp_all add: pipe_ok_def demo_pipe_def)


text \<open>A client whose callback stops the process it is called for; the runs are logged.\<close>

definition stop_client :: "nat list client" where
  "stop_client = \<lparr>cl_run = \<lambda>x st. (0, st\<lparr>ss_env := ss_env st @ [x]\<rparr>),
     cl_finish = \<lambda>x st. st\<lparr>ss_store := (\<lambda>b. if p_arg (ss_store st b) = x then (ss_store st b)\<lparr>p_runnable := False\<rparr> else ss_store st b)\<rparr>\<rparr>"

definition demo_slot :: "nat list slot_state" where
  "demo_slot = \<lparr>ss_store = (\<lambda>a. demo_proc 0 a)(4 := (demo_proc 0 44)\<lparr>p_next := Some 6\<rparr>,
       6 := (demo_proc 3 66)\<lparr>p_next := Some 7, p_finish_code := RTFAULT\<rparr>, 7 := demo_proc 5 77),
     ss_pipe = demo_pipe\<lparr>pl_first_process := Some 4, pl_nof_processes := 3\<rparr>, ss_group = (\<lambda>_. False), ss_env = []\<rparr>"


end
