(* ===== verification/Kernel.thy ===== *)
theory Kernel
  imports Pipeline
begin

text \<open>
  The kernel: process creation and removal (rtdal_lnx/src/rtdal_base.c, rtdal_process.c), the
  work at the start of a time slot (rtdal_lnx/src/rtdal_kernel_thread.c), the periodic
  functions, and the time conversions of rtdal_lnx/src/rtdal_time.c.

  The context is one record; loading and unloading of the module binary (cp, dlopen, dlsym,
  rm) is a parameter that tells whether each step succeeds. A result None stands for a call
  that does not return or that uses a pipeline number outside the array. The theorems state
  an invariant of the context under every operation and every time slot.
\<close>

section \<open>State\<close>

datatype scheduling_mode = SCHEDULING_PIPELINE | SCHEDULING_BESTEFFORT

record rtfault_cfg =
  exec_correct :: bool
  miss_correct :: bool
  exec_kill :: bool
  miss_kill :: bool
  do_rtcontrol :: bool

record rtdal_periodic_t =
  pe_callback :: "nat option"
  pe_period :: int
  pe_counter :: int

record rtdal_context_t =
  c_processes :: store
  c_pipelines :: "pipeline_t list"
  c_nof_cores :: nat
  c_scheduling :: scheduling_mode
  c_rt_cfg :: rtfault_cfg
  c_periodic :: "rtdal_periodic_t list"
  c_nof_periodic :: nat
  c_ts_counter :: int
  c_group :: groups

definition rtdal_process_MAX :: nat where "rtdal_process_MAX = 200"

record loader =
  ld_launch :: "nat \<Rightarrow> bool"
  ld_unlink :: "nat \<Rightarrow> bool"

section \<open>Processes\<close>

definition rtdal_process_launch :: "loader \<Rightarrow> nat \<Rightarrow> store \<Rightarrow> int \<times> store" where
  "rtdal_process_launch ld a h =
     (if ld_launch ld (p_pid (h a)) then (0, h(a := (h a)\<lparr>p_run_point := True\<rparr>)) else (-1, h))"

definition modulethread_remove :: "nat \<Rightarrow> store \<Rightarrow> int \<times> store" where
  "modulethread_remove a h = (0, h(a := (h a)\<lparr>p_run_point := False\<rparr>))"

text \<open>The part of rtdal_process_remove that takes the process out of its scheduler.\<close>

definition process_unschedule :: "nat \<Rightarrow> rtdal_context_t \<Rightarrow> (int \<times> rtdal_context_t) option" where
  "process_unschedule a c = (case c_scheduling c of
      SCHEDULING_PIPELINE \<Rightarrow>
        (case p_pipeline (c_processes c a) of
           None \<Rightarrow> Some (-1, c)
         | Some k \<Rightarrow>
             if length (c_pipelines c) \<le> k then None
             else (case pipeline_remove a (c_processes c) (c_pipelines c ! k) of
                 None \<Rightarrow> None
               | Some (r, h, obj) \<Rightarrow> Some (r, c\<lparr>c_processes := h, c_pipelines := (c_pipelines c)[k := obj]\<rparr>)))
    | SCHEDULING_BESTEFFORT \<Rightarrow>
        (let (r, h) = modulethread_remove a (c_processes c) in Some (r, c\<lparr>c_processes := h\<rparr>)))"

definition rtdal_process_remove :: "loader \<Rightarrow> nat \<Rightarrow> rtdal_context_t \<Rightarrow> (int \<times> rtdal_context_t) option" where
  "rtdal_process_remove ld a c = (case process_unschedule a c of
      None \<Rightarrow> None
    | Some (r, c1) \<Rightarrow>
        if r \<noteq> 0 then Some (-1, c1)
        else if \<not> ld_unlink ld (p_pid (c_processes c1 a)) then Some (-1, c1)
        else Some (0, c1\<lparr>c_processes := (c_processes c1)(a := (c_processes c1 a)\<lparr>p_pid := 0\<rparr>)\<rparr>))"

definition find_free :: "store \<Rightarrow> nat option" where
  "find_free h = List.find (\<lambda>i. p_pid (h i) = 0) [0..<rtdal_process_MAX]"

definition new_process :: "nat \<Rightarrow> rtdal_process_attr \<Rightarrow> nat \<Rightarrow> rtdal_process_t" where
  "new_process i attr arg = \<lparr>p_pid = i + 1, p_pipeline = None, p_arg = arg, p_attributes = attr,
     p_is_running = False, p_runnable = False, p_run_point = False, p_finish_code = FINISH_OK, p_next = None\<rparr>"

text \<open>Scheduling of a new process. A best-effort process gets a thread; thread_ok tells whether
  it is created.\<close>

definition process_schedule :: "bool \<Rightarrow> nat \<Rightarrow> rtdal_context_t \<Rightarrow> (bool \<times> rtdal_context_t) option" where
  "process_schedule thread_ok a c = (case c_scheduling c of
      SCHEDULING_PIPELINE \<Rightarrow>
        (let k = pipeline_id (p_attributes (c_processes c a)) in
         if k < 0 \<or> int (length (c_pipelines c)) \<le> k then None
         else (case pipeline_add a (c_processes c) (c_pipelines c ! nat k) of
             None \<Rightarrow> None
           | Some (r, h, obj) \<Rightarrow> Some (r \<noteq> -1, c\<lparr>c_processes := h, c_pipelines := (c_pipelines c)[nat k := obj]\<rparr>)))
    | SCHEDULING_BESTEFFORT \<Rightarrow> Some (thread_ok, c))"

text \<open>The argument 0 is the null pointer. The result is the handle or None for NULL.\<close>

definition rtdal_process_new ::
  "loader \<Rightarrow> bool \<Rightarrow> rtdal_process_attr \<Rightarrow> nat \<Rightarrow> rtdal_context_t \<Rightarrow> (nat option \<times> rtdal_context_t) option" where
  "rtdal_process_new ld thread_ok attr arg c =
     (if arg = 0 then Some (None, c)
      else case find_free (c_processes c) of
        None \<Rightarrow> Some (None, c)
      | Some i \<Rightarrow>
          if process_group_id attr > MAX_PROCESS_GROUP_ID then Some (None, c)
          else if process_group_id attr < 0 then Some (None, c)
          else case group_set (process_group_id attr) False (c_group c) of
            None \<Rightarrow> None
          | Some grp \<Rightarrow>
            let c1 = c\<lparr>c_group := grp, c_processes := (c_processes c)(i := new_process i attr arg)\<rparr>
            in case process_schedule thread_ok i c1 of
                 None \<Rightarrow> None
               | Some (False, c2) \<Rightarrow> Some (None, c2)
               | Some (True, c2) \<Rightarrow>
                   (let (r, h) = rtdal_process_launch ld i (c_processes c2); c3 = c2\<lparr>c_processes := h\<rparr> in
                    if r \<noteq> 0
                    then (case rtdal_process_remove ld i c3 of None \<Rightarrow> None | Some (_, c4) \<Rightarrow> Some (None, c4))
                    else Some (Some i, c3)))"

section \<open>Periodic functions\<close>

definition rtdal_periodic_MAX :: nat where "rtdal_periodic_MAX = 10"

definition find_periodic :: "nat option \<Rightarrow> rtdal_context_t \<Rightarrow> nat option" where
  "find_periodic cb c = List.find (\<lambda>i. pe_callback (c_periodic c ! i) = cb) [0..<rtdal_periodic_MAX]"

definition rtdal_periodic_add :: "nat \<Rightarrow> int \<Rightarrow> rtdal_context_t \<Rightarrow> int \<times> rtdal_context_t" where
  "rtdal_periodic_add callback period c =
     (if \<not> period > 0 then (-1, c)
      else case find_periodic None c of
        None \<Rightarrow> (-1, c)
      | Some i \<Rightarrow> (0, c\<lparr>c_periodic := (c_periodic c)[i := \<lparr>pe_callback = Some callback, pe_period = period, pe_counter = 0\<rparr>]\<rparr>))"

definition rtdal_periodic_remove :: "nat \<Rightarrow> rtdal_context_t \<Rightarrow> int \<times> rtdal_context_t" where
  "rtdal_periodic_remove callback c = (case find_periodic (Some callback) c of
      None \<Rightarrow> (-1, c)
    | Some i \<Rightarrow> (0, c\<lparr>c_periodic := (c_periodic c)[i := \<lparr>pe_callback = None, pe_period = 0, pe_counter = 0\<rparr>]\<rparr>))"

text \<open>One turn of the loop over the periodic functions; the callback acts on the state e.\<close>

definition periodic_turn :: "(nat \<Rightarrow> 'e \<Rightarrow> 'e) \<Rightarrow> nat \<Rightarrow> rtdal_periodic_t list \<times> 'e \<Rightarrow> rtdal_periodic_t list \<times> 'e" where
  "periodic_turn call i s = (let (ps, e) = s; p = ps ! i in
     if pe_counter p = pe_period p
     then (ps[i := p\<lparr>pe_counter := 1\<rparr>], (case pe_callback p of Some f \<Rightarrow> call f e | None \<Rightarrow> e))
     else (ps[i := p\<lparr>pe_counter := pe_counter p + 1\<rparr>], e))"

definition kernel_tslot_run_periodic_callbacks ::
  "(nat \<Rightarrow> 'e \<Rightarrow> 'e) \<Rightarrow> rtdal_context_t \<Rightarrow> 'e \<Rightarrow> rtdal_context_t \<times> 'e" where
  "kernel_tslot_run_periodic_callbacks call c e =
     (let (ps, e') = fold (periodic_turn call) [0..<c_nof_periodic c] (c_periodic c, e)
      in (c\<lparr>c_periodic := ps\<rparr>, e'))"

section \<open>Start of a time slot\<close>

text \<open>Body of the first loop of kernel_tslot_run_rt_control for one pipeline: the new pipeline,
  the value of has_exec and whether the running process is marked with RTFAULT.\<close>

definition rt_check :: "rtfault_cfg \<Rightarrow> int \<Rightarrow> store \<Rightarrow> pipeline_t \<Rightarrow> pipeline_t \<times> nat \<times> store" where
  "rt_check cfg now h pl =
     (let pl1 = pl\<lparr>pl_enable := True\<rparr>;
          mark = (\<lambda>b. case pl_running_process pl of
              Some a \<Rightarrow> if b \<and> p_runnable (h a) then h(a := (h a)\<lparr>p_finish_code := RTFAULT\<rparr>) else h
            | None \<Rightarrow> h)
      in if \<not> pl_finished pl then (pl1\<lparr>pl_finished := True\<rparr>, 2, mark (exec_kill cfg))
         else if pl_ts_counter pl < now - 1 then (pl1, 0, mark (miss_kill cfg))
         else (pl1, 1, h))"

fun rt_check_all :: "rtfault_cfg \<Rightarrow> int \<Rightarrow> store \<Rightarrow> pipeline_t list \<Rightarrow> (pipeline_t \<times> nat) list \<times> store" where
  "rt_check_all cfg now h [] = ([], h)"
| "rt_check_all cfg now h (pl # pls) =
     (let (pl', x, h') = rt_check cfg now h pl; (r, h'') = rt_check_all cfg now h' pls in ((pl', x) # r, h''))"

definition kernel_tslot_run_rt_control :: "rtdal_context_t \<Rightarrow> bool \<times> rtdal_context_t" where
  "kernel_tslot_run_rt_control c =
     (let cfg = c_rt_cfg c; now = c_ts_counter c; n = c_nof_cores c;
          (r, h) = rt_check_all cfg now (c_processes c) (take n (c_pipelines c));
          r1 = (if miss_correct cfg \<and> (\<exists>x \<in> set r. snd x = 0)
                then map (\<lambda>(pl, x). (if x \<noteq> 0 then pl\<lparr>pl_enable := False\<rparr> else pl, x)) r else r)
      in if exec_correct cfg \<and> (\<exists>x \<in> set r. snd x = 2)
         then ((\<exists>x \<in> set r. snd x \<noteq> 2),
               c\<lparr>c_processes := h, c_pipelines := map (\<lambda>(pl, x). pl\<lparr>pl_ts_counter := now\<rparr>) r1 @ drop n (c_pipelines c)\<rparr>)
         else (False, c\<lparr>c_processes := h, c_pipelines := map fst r1 @ drop n (c_pipelines c)\<rparr>))"

definition enable_all :: "rtdal_context_t \<Rightarrow> rtdal_context_t" where
  "enable_all c = c\<lparr>c_pipelines := map (\<lambda>pl. pl\<lparr>pl_enable := True\<rparr>) (take (c_nof_cores c) (c_pipelines c))
     @ drop (c_nof_cores c) (c_pipelines c)\<rparr>"

definition kernel_tslot_run :: "(nat \<Rightarrow> 'e \<Rightarrow> 'e) \<Rightarrow> rtdal_context_t \<Rightarrow> 'e \<Rightarrow> int \<times> rtdal_context_t \<times> 'e" where
  "kernel_tslot_run call c e =
     (let c1 = c\<lparr>c_ts_counter := c_ts_counter c + 1\<rparr>;
          (skip, c2) = (if do_rtcontrol (c_rt_cfg c1) then kernel_tslot_run_rt_control c1 else (False, c1))
      in if skip then (0, c2, e)
         else (1, kernel_tslot_run_periodic_callbacks call (enable_all c2) e))"

text \<open>The part of the context that a slot of pipeline k works on.\<close>

abbreviation slot_of :: "nat \<Rightarrow> rtdal_context_t \<Rightarrow> 'e \<Rightarrow> 'e slot_state" where
  "slot_of k c e \<equiv> \<lparr>ss_store = c_processes c, ss_pipe = c_pipelines c ! k, ss_group = c_group c, ss_env = e\<rparr>"

definition with_slot :: "nat \<Rightarrow> 'e slot_state \<Rightarrow> rtdal_context_t \<Rightarrow> rtdal_context_t" where
  "with_slot k st c = c\<lparr>c_processes := ss_store st, c_pipelines := (c_pipelines c)[k := ss_pipe st], c_group := ss_group st\<rparr>"

definition context_slot :: "'e client \<Rightarrow> nat \<Rightarrow> rtdal_context_t \<Rightarrow> 'e \<Rightarrow> (corrupted + rtdal_context_t \<times> 'e) option" where
  "context_slot cl k c e = (case pipeline_run_time_slot cl (c_ts_counter c) (slot_of k c e) of
      None \<Rightarrow> None
    | Some (Inl x) \<Rightarrow> Some (Inl x)
    | Some (Inr st) \<Rightarrow> Some (Inr (with_slot k st c, ss_env st)))"

text \<open>The thread of a pipeline as a sequence of turns, between which other threads and the code
  that the thread itself calls act on the context: the top of the loop with the pointer
  run_proc and the index, the check of the status done (the finish callback runs now), inside
  the run of a module, or ended by the diagnosis of a corrupted list, which kills the program.\<close>

datatype slot_pc = Idle | Loop "nat option" int | Checked nat int | Running nat int | Killed

text \<open>The tests of check_status without the code of the callback.\<close>

definition idle_client :: "unit client" where
  "idle_client = \<lparr>cl_run = (\<lambda>_ st. (0, st)), cl_finish = (\<lambda>_ st. st)\<rparr>"

text \<open>One turn of the thread of pipeline k; r is the value that run_point returns.\<close>

fun slot_turn :: "int \<Rightarrow> nat \<Rightarrow> rtdal_context_t \<Rightarrow> slot_pc \<Rightarrow> (rtdal_context_t \<times> slot_pc) option" where
  "slot_turn r k c Idle =
     (let pl = (c_pipelines c ! k)\<lparr>pl_finished := False\<rparr> in
      Some (c\<lparr>c_pipelines := (c_pipelines c)[k := pl]\<rparr>, Loop (if pl_enable pl then pl_first_process pl else None) 0))"
| "slot_turn r k c (Loop None idx) =
     Some (c\<lparr>c_pipelines := (c_pipelines c)[k := (c_pipelines c ! k)\<lparr>pl_ts_counter := c_ts_counter c, pl_finished := True\<rparr>]\<rparr>, Idle)"
| "slot_turn r k c (Loop (Some a) idx) =
     (if idx > pl_nof_processes (c_pipelines c ! k) then Some (c, Killed)
      else map_option (\<lambda>st. (with_slot k st c, Checked a idx)) (check_status idle_client a (slot_of k c ())))"
| "slot_turn r k c (Checked a idx) =
     (if p_runnable (c_processes c a) then Some (with_slot k (begin_run a idx (slot_of k c ())) c, Running a idx)
      else Some (c, Loop (p_next (c_processes c a)) (idx + 1)))"
| "slot_turn r k c (Running a idx) =
     map_option (\<lambda>st. (with_slot k st c, Loop (p_next (ss_store st a)) (idx + 1))) (end_run a r (slot_of k c ()))"
| "slot_turn r k c Killed = None"

section \<open>Time\<close>

definition rtdal_time_interval :: "timeval \<Rightarrow> timeval \<Rightarrow> timeval" where
  "rtdal_time_interval t1 t2 = (let s = tv_sec t2 - tv_sec t1; u = tv_usec t2 - tv_usec t1 in
     if u < 0 then \<lparr>tv_sec = s - 1, tv_usec = u + 1000000\<rparr> else \<lparr>tv_sec = s, tv_usec = u\<rparr>)"

definition rtdal_time_to_tstamp :: "int \<Rightarrow> timeval \<Rightarrow> int" where
  "rtdal_time_to_tstamp ts_len_us t = int_cast (cdiv (tv_sec t * 1000000 + tv_usec t) ts_len_us)"

definition tstamp_to_time :: "int \<Rightarrow> int \<Rightarrow> timeval" where
  "tstamp_to_time ts_len_us tstamp = (let x = tstamp * ts_len_us; s = int_cast (cdiv x 1000000) in
     \<lparr>tv_sec = s, tv_usec = int_cast (x - s * 1000000)\<rparr>)"

section \<open>Invariant\<close>

text \<open>The lists xss of the processes of the pipelines; every listed process is allocated and
  knows its pipeline.\<close>

definition members_ok :: "store \<Rightarrow> nat \<Rightarrow> nat list \<Rightarrow> bool" where
  "members_ok h k xs \<longleftrightarrow> (\<forall>a \<in> set xs. p_pid (h a) = Suc a \<and> p_pipeline (h a) = Some k \<and> a < rtdal_process_MAX
     \<and> group_ok (process_group_id (p_attributes (h a))))"

definition ctx_ok :: "rtdal_context_t \<Rightarrow> nat list list \<Rightarrow> bool" where
  "ctx_ok c xss \<longleftrightarrow> c_scheduling c = SCHEDULING_PIPELINE \<and> length xss = length (c_pipelines c)
     \<and> (\<forall>k < length xss. pipe_ok (c_processes c) (c_pipelines c ! k) (xss ! k) \<and> pl_id (c_pipelines c ! k) = k
          \<and> members_ok (c_processes c) k (xss ! k))"

lemma pipe_ok_frame:
  assumes "\<And>b. b \<in> set xs \<Longrightarrow> h' b = h b" "pipe_ok h obj xs"
  shows "pipe_ok h' obj xs"
proof -
  have m: "map (exec_pos h') xs = map (exec_pos h) xs" using assms(1) by simp
  show ?thesis using assms chain_cong [of xs h' h] unfolding pipe_ok_def m by simp
qed

lemma ctx_ok_disjoint:
  assumes "ctx_ok c xss" "j < length xss" "k < length xss" "b \<in> set (xss ! j)" "b \<in> set (xss ! k)"
  shows "j = k"
proof -
  have "members_ok (c_processes c) j (xss ! j)" "members_ok (c_processes c) k (xss ! k)"
    using assms(1-3) by (simp_all add: ctx_ok_def)
  then show ?thesis using assms(4,5) unfolding members_ok_def by (metis option.inject)
qed

lemma ctx_ok_update:
  assumes c: "ctx_ok c xss" and k: "k < length xss"
    and new: "pipe_ok h' obj' xs'" "pl_id obj' = k" "members_ok h' k xs'"
    and frame: "\<And>b. b \<notin> set (xss ! k) \<Longrightarrow> b \<noteq> a \<Longrightarrow> h' b = c_processes c b"
    and fresh: "\<And>j. j < length xss \<Longrightarrow> j \<noteq> k \<Longrightarrow> a \<notin> set (xss ! j)"
  shows "ctx_ok (c\<lparr>c_processes := h', c_pipelines := (c_pipelines c)[k := obj']\<rparr>) (xss[k := xs'])"
proof -
  have "pipe_ok h' (c_pipelines c ! j) (xss ! j) \<and> members_ok h' j (xss ! j)" if "j < length xss" "j \<noteq> k" for j
  proof -
    have "h' b = c_processes c b" if "b \<in> set (xss ! j)" for b
      using ctx_ok_disjoint [OF c \<open>j < length xss\<close> k that] that fresh \<open>j < length xss\<close> \<open>j \<noteq> k\<close> by (intro frame) auto
    then show ?thesis using c that pipe_ok_frame [of "xss ! j" h'] by (auto simp: ctx_ok_def members_ok_def)
  qed
  then show ?thesis using c k new by (auto simp: ctx_ok_def nth_list_update)
qed

text \<open>Changes of fields that the invariant does not see.\<close>

lemma ctx_ok_data:
  assumes c: "ctx_ok c xss" and "c_scheduling c' = c_scheduling c" "length (c_pipelines c') = length (c_pipelines c)"
    and p: "\<And>b. p_next (c_processes c' b) = p_next (c_processes c b) \<and> p_attributes (c_processes c' b) = p_attributes (c_processes c b)
      \<and> p_pid (c_processes c' b) = p_pid (c_processes c b) \<and> p_pipeline (c_processes c' b) = p_pipeline (c_processes c b)"
    and q: "\<And>k. k < length xss \<Longrightarrow> pl_first_process (c_pipelines c' ! k) = pl_first_process (c_pipelines c ! k)
      \<and> pl_nof_processes (c_pipelines c' ! k) = pl_nof_processes (c_pipelines c ! k) \<and> pl_id (c_pipelines c' ! k) = pl_id (c_pipelines c ! k)"
  shows "ctx_ok c' xss"
proof -
  have "exec_pos (c_processes c') = exec_pos (c_processes c)" using p by auto
  then have "pipe_ok (c_processes c') (c_pipelines c' ! k) (xss ! k) = pipe_ok (c_processes c) (c_pipelines c ! k) (xss ! k)"
    if "k < length xss" for k
    using q [OF that] p chain_cong [of "xss ! k" "c_processes c'" "c_processes c"] by (simp add: pipe_ok_def)
  then show ?thesis using assms by (simp add: ctx_ok_def members_ok_def)
qed

lemma ctx_ok_not_listed:
  assumes "ctx_ok c xss" "p_pid (c_processes c a) \<noteq> Suc a \<or> p_pipeline (c_processes c a) \<noteq> Some k" "k < length xss"
  shows "a \<notin> set (xss ! k)"
  using assms by (auto simp: ctx_ok_def members_ok_def)

lemma ctx_ok_free:
  assumes c: "ctx_ok c xss" and a: "\<And>j. j < length xss \<Longrightarrow> a \<notin> set (xss ! j)"
  shows "ctx_ok (c\<lparr>c_processes := (c_processes c)(a := p)\<rparr>) xss"
proof -
  let ?h = "(c_processes c)(a := p)"
  have "pipe_ok ?h (c_pipelines c ! j) (xss ! j) \<and> members_ok ?h j (xss ! j)" if "j < length xss" for j
  proof -
    have "?h b = c_processes c b" if "b \<in> set (xss ! j)" for b using that a \<open>j < length xss\<close> by auto
    then show ?thesis using c that pipe_ok_frame [of "xss ! j" ?h "c_processes c"] by (auto simp: ctx_ok_def members_ok_def)
  qed
  then show ?thesis using c by (simp add: ctx_ok_def)
qed

section \<open>Every operation keeps the invariant\<close>

lemma process_unschedule_ok:
  assumes c: "ctx_ok c xss" and a: "p_pipeline (c_processes c a) = Some k" "k < length xss"
  obtains r c' where "process_unschedule a c = Some (r, c')" "ctx_ok c' (xss[k := remove1 a (xss ! k)])"
    "r = (if a \<in> set (xss ! k) then 0 else -1)" "a \<notin> set (xss ! k) \<Longrightarrow> c' = c"
    "p_pid (c_processes c' a) = p_pid (c_processes c a)"
proof -
  have ok: "pipe_ok (c_processes c) (c_pipelines c ! k) (xss ! k)" and sch: "c_scheduling c = SCHEDULING_PIPELINE"
    and id: "pl_id (c_pipelines c ! k) = k" and len: "length xss = length (c_pipelines c)"
    and mem: "members_ok (c_processes c) k (xss ! k)"
    using c a(2) by (auto simp: ctx_ok_def)
  show thesis
  proof (cases "a \<in> set (xss ! k)")
    case True
    obtain h' obj' where rem: "pipeline_remove a (c_processes c) (c_pipelines c ! k) = Some (0, h', obj')"
      "pipe_ok h' obj' (remove1 a (xss ! k))" "same_data (c_processes c) h'" "\<And>b. b \<notin> set (xss ! k) \<Longrightarrow> h' b = c_processes c b"
      and pp: "\<And>b. p_pipeline (h' b) = p_pipeline (c_processes c b)"
      and obj: "obj' = (c_pipelines c ! k)\<lparr>pl_first_process := pl_first_process obj', pl_nof_processes := pl_nof_processes obj'\<rparr>"
      by (rule pipeline_remove_ok [OF ok True]) (rule that)
    have "pl_id obj' = k" by (subst obj) (simp add: id)
    moreover have "members_ok h' k (remove1 a (xss ! k))"
      using mem same_data_fields [OF rem(3)] pp by (auto simp: members_ok_def dest: notin_set_remove1)
    ultimately have "ctx_ok (c\<lparr>c_processes := h', c_pipelines := (c_pipelines c)[k := obj']\<rparr>) (xss[k := remove1 a (xss ! k)])"
      using rem c a ctx_ok_not_listed [OF c] by (intro ctx_ok_update [where a = a]) auto
    then show thesis using True a len rem pp sch same_data_fields(3) [OF rem(3), of a]
      by (intro that [of 0 "c\<lparr>c_processes := h', c_pipelines := (c_pipelines c)[k := obj']\<rparr>"]) (auto simp: process_unschedule_def)
  next
    case False
    then have "xss[k := remove1 a (xss ! k)] = xss" by (simp add: remove1_idem)
    then show thesis using False a c len sch pipeline_remove_absent [OF ok False]
      by (intro that [of "-1" c]) (auto simp: process_unschedule_def)
  qed
qed

lemma rtdal_process_remove_ok:
  assumes c: "ctx_ok c xss" and a: "p_pipeline (c_processes c a) = Some k" "k < length xss"
  obtains r c' where "rtdal_process_remove ld a c = Some (r, c')" "ctx_ok c' (xss[k := remove1 a (xss ! k)])"
    "r = 0 \<Longrightarrow> p_pid (c_processes c' a) = 0" "a \<notin> set (xss ! k) \<Longrightarrow> r = -1 \<and> c' = c"
    "a \<in> set (xss ! k) \<Longrightarrow> ld_unlink ld (Suc a) \<Longrightarrow> r = 0"
proof -
  obtain r c1 where un: "process_unschedule a c = Some (r, c1)" "ctx_ok c1 (xss[k := remove1 a (xss ! k)])"
    "r = (if a \<in> set (xss ! k) then 0 else -1)" and same: "a \<notin> set (xss ! k) \<Longrightarrow> c1 = c"
    and pid1: "p_pid (c_processes c1 a) = p_pid (c_processes c a)"
    by (rule process_unschedule_ok [OF c a]) (rule that)
  let ?f = "c1\<lparr>c_processes := (c_processes c1)(a := (c_processes c1 a)\<lparr>p_pid := 0\<rparr>)\<rparr>"
  show thesis
  proof (cases "a \<in> set (xss ! k)")
    case True
    have "a \<notin> set (xss[k := remove1 a (xss ! k)] ! j)" if "j < length xss" for j
    proof (cases "j = k")
      case True
      have "distinct (xss ! k)" using c a(2) by (simp add: ctx_ok_def pipe_ok_def)
      then show ?thesis using True that by simp
    next
      case False
      then show ?thesis using ctx_ok_not_listed [OF c _ that, of a] a(1) that by simp
    qed
    then have f: "ctx_ok ?f (xss[k := remove1 a (xss ! k)])" using un(2) by (intro ctx_ok_free) auto
    have "rtdal_process_remove ld a c = Some (if ld_unlink ld (p_pid (c_processes c1 a)) then (0, ?f) else (-1, c1))"
      using un(1,3) True by (simp add: rtdal_process_remove_def)
    moreover have "p_pid (c_processes c1 a) = Suc a" using pid1 True c a(2) by (simp add: ctx_ok_def members_ok_def)
    ultimately show thesis using f un(2) True
      by (cases "ld_unlink ld (p_pid (c_processes c1 a))") (auto intro: that)
  next
    case False
    then show thesis using un same c
      by (intro that [of "-1" c]) (simp_all add: rtdal_process_remove_def)
  qed
qed

lemma find_free_SomeD: "find_free h = Some i \<Longrightarrow> i < rtdal_process_MAX \<and> p_pid (h i) = 0"
  by (auto simp: find_free_def find_Some_iff)

lemma ctx_ok_insert:
  assumes c: "ctx_ok c xss" and a: "p_pid (c_processes c a) = Suc a" "a < rtdal_process_MAX"
      "group_ok (process_group_id (p_attributes (c_processes c a)))"
    and fresh: "\<And>j. j < length xss \<Longrightarrow> a \<notin> set (xss ! j)"
    and k: "pipeline_id (p_attributes (c_processes c a)) = int k" "k < length xss"
  obtains c' where "process_schedule t a c = Some (True, c')" "ctx_ok c' (xss[k := insert_pos (c_processes c) a (xss ! k)])"
    "p_pipeline (c_processes c' a) = Some k" "same_data (c_processes c) (c_processes c')"
proof -
  have ok: "pipe_ok (c_processes c) (c_pipelines c ! k) (xss ! k)" and sch: "c_scheduling c = SCHEDULING_PIPELINE"
    and id: "pl_id (c_pipelines c ! k) = k" and len: "length xss = length (c_pipelines c)"
    and mem: "members_ok (c_processes c) k (xss ! k)"
    using c k(2) by (auto simp: ctx_ok_def)
  obtain i h' obj' where add: "pipeline_add a (c_processes c) (c_pipelines c ! k) = Some (i, h', obj')"
    "pipe_ok h' obj' (insert_pos (c_processes c) a (xss ! k))" "same_data (c_processes c) h'"
    and fr: "\<And>b. b \<notin> insert a (set (xss ! k)) \<Longrightarrow> h' b = c_processes c b"
    and pp: "\<And>b. p_pipeline (h' b) = (if b = a then Some (pl_id (c_pipelines c ! k)) else p_pipeline (c_processes c b))"
    and obj: "obj' = (c_pipelines c ! k)\<lparr>pl_first_process := pl_first_process obj', pl_nof_processes := pl_nof_processes obj'\<rparr>"
    and i: "i = int (length (takeWhile (\<lambda>x. exec_pos (c_processes c) x \<le> exec_pos (c_processes c) a) (xss ! k)) - 1)"
    by (rule pipeline_add_ok [OF ok fresh [OF k(2)]]) (rule that)
  have "pl_id obj' = k" by (subst obj) (simp add: id)
  moreover have "members_ok h' k (insert_pos (c_processes c) a (xss ! k))"
    using mem same_data_fields [OF add(3)] pp a id by (auto simp: members_ok_def)
  ultimately have "ctx_ok (c\<lparr>c_processes := h', c_pipelines := (c_pipelines c)[k := obj']\<rparr>) (xss[k := insert_pos (c_processes c) a (xss ! k)])"
    using add c k fr fresh by (intro ctx_ok_update [where a = a]) auto
  moreover have "i \<noteq> -1" using i by simp
  ultimately show thesis using k len add pp sch id
    by (intro that [of "c\<lparr>c_processes := h', c_pipelines := (c_pipelines c)[k := obj']\<rparr>"]) (auto simp: process_schedule_def)
qed

text \<open>A new process: the handle is the first free entry, the process waits at its place in the
  pipeline; when the binary cannot be loaded the pipelines are as before.\<close>

lemma rtdal_process_new_ok:
  assumes c: "ctx_ok c xss" and arg: "arg \<noteq> 0" and i: "find_free (c_processes c) = Some i"
    and g: "group_ok (process_group_id attr)"
    and k: "pipeline_id attr = int k" "k < length xss"
  obtains c' where
    "rtdal_process_new ld t attr arg c = Some (if ld_launch ld (Suc i) then Some i else None, c')"
    "ctx_ok c' (if ld_launch ld (Suc i)
       then xss[k := insert_pos ((c_processes c)(i := new_process i attr arg)) i (xss ! k)] else xss)"
    "ld_launch ld (Suc i) \<Longrightarrow> p_attributes (c_processes c' i) = attr \<and> p_arg (c_processes c' i) = arg
       \<and> \<not> p_runnable (c_processes c' i) \<and> p_finish_code (c_processes c' i) = FINISH_OK"
    "\<And>b. ld_launch ld (Suc i) \<Longrightarrow> p_pid (c_processes c' b) = (if b = i then Suc i else p_pid (c_processes c b))"
proof -
  have free: "i < rtdal_process_MAX" "p_pid (c_processes c i) = 0" using find_free_SomeD [OF i] by auto
  have fresh: "i \<notin> set (xss ! j)" if "j < length xss" for j using ctx_ok_not_listed [OF c _ that] free by simp
  define c1 where "c1 = c\<lparr>c_group := (c_group c)(process_group_id attr := False),
    c_processes := (c_processes c)(i := new_process i attr arg)\<rparr>"
  define zs where "zs = insert_pos ((c_processes c)(i := new_process i attr arg)) i (xss ! k)"
  have c1: "ctx_ok c1 xss" using ctx_ok_free [OF c fresh, of "new_process i attr arg"] by (simp add: c1_def ctx_ok_def)
  have p1: "c_processes c1 = (c_processes c)(i := new_process i attr arg)" by (simp add: c1_def)
  obtain c2 where c2: "process_schedule t i c1 = Some (True, c2)" "ctx_ok c2 (xss[k := zs])"
    "p_pipeline (c_processes c2 i) = Some k" "same_data (c_processes c1) (c_processes c2)"
    using ctx_ok_insert [OF c1, of i k t] free fresh k g unfolding zs_def p1 by (auto simp: new_process_def p1)
  have data: "p_pid (c_processes c2 i) = Suc i" "p_attributes (c_processes c2 i) = attr" "p_arg (c_processes c2 i) = arg"
    "\<not> p_runnable (c_processes c2 i)" "p_finish_code (c_processes c2 i) = FINISH_OK"
    using same_data_fields [OF c2(4), of i] by (simp_all add: p1 new_process_def)
  have new: "rtdal_process_new ld t attr arg c = (let (r, h) = rtdal_process_launch ld i (c_processes c2); c3 = c2\<lparr>c_processes := h\<rparr> in
      if r \<noteq> 0 then (case rtdal_process_remove ld i c3 of None \<Rightarrow> None | Some (_, c4) \<Rightarrow> Some (None, c4)) else Some (Some i, c3))"
    using arg i g c2(1) by (simp add: rtdal_process_new_def c1_def Let_def group_set_def group_ok_def)
  show thesis
  proof (cases "ld_launch ld (Suc i)")
    case True
    let ?c3 = "c2\<lparr>c_processes := (c_processes c2)(i := (c_processes c2 i)\<lparr>p_run_point := True\<rparr>)\<rparr>"
    have "ctx_ok ?c3 (xss[k := zs])" using c2(2) by (rule ctx_ok_data) auto
    moreover have "p_pid (c_processes c2 b) = (if b = i then Suc i else p_pid (c_processes c b))" for b
      using same_data_fields(3) [OF c2(4), of b] by (simp add: p1 new_process_def)
    ultimately show thesis using True new data
      by (intro that [of ?c3]) (auto simp: rtdal_process_launch_def zs_def)
  next
    case False
    have kl: "k < length (xss[k := zs])" using k by simp
    obtain r c4 where c4: "rtdal_process_remove ld i c2 = Some (r, c4)" "ctx_ok c4 ((xss[k := zs])[k := remove1 i (xss[k := zs] ! k)])"
      by (rule rtdal_process_remove_ok [OF c2(2,3) kl, of ld]) (rule that)
    have "remove1 i zs = xss ! k"
      using fresh [OF k(2)] unfolding zs_def insert_pos_def
      by (simp add: remove1_append) (metis set_takeWhileD)
    then have "ctx_ok c4 xss" using c4(2) k by simp
    then show thesis using False new c4 data
      by (intro that [of c4]) (auto simp: rtdal_process_launch_def)
  qed
qed

lemma ctx_ok_slot:
  assumes c: "ctx_ok c xss" and k: "k < length xss"
    and new: "pipe_ok h' obj' xs'" "pl_id obj' = k" "set xs' \<subseteq> set (xss ! k)"
    and v: "\<And>b. view (h' b) = view (h b)" "\<And>b. b \<notin> set (xss ! k) \<Longrightarrow> h' b = h b"
    and h: "lists_kept (slot_of k c e) (st\<lparr>ss_store := h\<rparr>)"
  shows "ctx_ok (c\<lparr>c_processes := h', c_pipelines := (c_pipelines c)[k := obj']\<rparr>) (xss[k := xs'])"
proof -
  have same: "p_next (h b) = p_next (c_processes c b) \<and> p_attributes (h b) = p_attributes (c_processes c b)
      \<and> p_pid (h b) = p_pid (c_processes c b) \<and> p_pipeline (h b) = p_pipeline (c_processes c b)" for b
    using h by (simp add: lists_kept_def)
  have c1: "ctx_ok (c\<lparr>c_processes := h\<rparr>) xss" using c by (rule ctx_ok_data) (simp_all add: same)
  have "members_ok h k (xss ! k)" using c1 k by (simp add: ctx_ok_def)
  then have m: "members_ok h' k xs'" using new(3) view_fields [OF v(1)] by (auto simp: members_ok_def)
  have "ctx_ok ((c\<lparr>c_processes := h\<rparr>)\<lparr>c_processes := h', c_pipelines := (c_pipelines (c\<lparr>c_processes := h\<rparr>))[k := obj']\<rparr>) (xss[k := xs'])"
  proof (rule ctx_ok_update [OF c1 k new(1,2) m, where a = "if xss ! k = [] then rtdal_process_MAX else hd (xss ! k)"])
    show "h' b = c_processes (c\<lparr>c_processes := h\<rparr>) b" if "b \<notin> set (xss ! k)" for b using v(2) [OF that] by simp
    show "(if xss ! k = [] then rtdal_process_MAX else hd (xss ! k)) \<notin> set (xss ! j)" if "j < length xss" "j \<noteq> k" for j
    proof (cases "xss ! k = []")
      case True
      then show ?thesis using c1 that(1) by (auto simp: ctx_ok_def members_ok_def)
    next
      case False
      then show ?thesis using ctx_ok_disjoint [OF c1 that(1) k _ hd_in_set] that(2) by auto
    qed
  qed
  then show ?thesis by simp
qed

lemma context_slot_ok:
  assumes cl: "keeps_lists cl" and c: "ctx_ok c xss" and k: "k < length xss" and en: "pl_enable (c_pipelines c ! k)"
  obtains c' e' fail st where "context_slot cl k c e = Some (Inr (c', e'))"
    "slot_spec cl (xss ! k) (slot_of k c e) = (fail, st)" "e' = ss_env st"
    "ctx_ok c' (case fail of None \<Rightarrow> xss | Some a \<Rightarrow> xss[k := remove1 a (xss ! k)])"
    "\<And>b. p_pid (c_processes c' b) = p_pid (c_processes c b) \<and> p_pipeline (c_processes c' b) = p_pipeline (c_processes c b)"
proof -
  let ?st = "slot_of k c e"
  have ok: "pipe_ok (ss_store ?st) (ss_pipe ?st) (xss ! k)" "pl_enable (ss_pipe ?st)"
    "\<forall>a \<in> set (xss ! k). group_ok (process_group_id (p_attributes (ss_store ?st a)))"
    and id: "pl_id (c_pipelines c ! k) = k"
    using c k en by (auto simp: ctx_ok_def members_ok_def)
  obtain fail st where sl: "slot_spec cl (xss ! k) ?st = (fail, st)" by (cases "slot_spec cl (xss ! k) ?st")
  obtain st' where st': "pipeline_run_time_slot cl (c_ts_counter c) ?st = Some (Inr st')" "slot_result (xss ! k) (fail, st) st'"
    using time_slot_core [OF cl ok, of "c_ts_counter c"] sl by auto
  define xs' where "xs' = (case fail of None \<Rightarrow> xss ! k | Some a \<Rightarrow> remove1 a (xss ! k))"
  have kept: "lists_kept ?st st"
    using slot_list_kept [OF cl, of "?st\<lparr>ss_pipe := (ss_pipe ?st)\<lparr>pl_finished := False\<rparr>\<rparr>" "xss ! k" 0] sl
    by (simp add: slot_spec_def lists_kept_def)
  then have kept': "lists_kept ?st (st\<lparr>ss_store := ss_store st\<rparr>)" by simp
  have r: "pipe_ok (ss_store st') (ss_pipe st') xs'" "pl_id (ss_pipe st') = k" "ss_env st' = ss_env st"
    "\<And>b. view (ss_store st' b) = view (ss_store st b)" "\<And>b. b \<notin> set (xss ! k) \<Longrightarrow> ss_store st' b = ss_store st b"
    using st'(2) id kept by (auto simp: slot_result_def xs'_def lists_kept_def)
  have sub: "set xs' \<subseteq> set (xss ! k)"
    using set_remove1_subset [of _ "xss ! k"] by (simp add: xs'_def split: option.splits)
  have "ctx_ok (c\<lparr>c_processes := ss_store st', c_pipelines := (c_pipelines c)[k := ss_pipe st']\<rparr>) (xss[k := xs'])"
    by (rule ctx_ok_slot [OF c k r(1,2) sub r(4,5) kept'])
  moreover have "xss[k := xs'] = (case fail of None \<Rightarrow> xss | Some a \<Rightarrow> xss[k := remove1 a (xss ! k)])"
    by (auto simp: xs'_def split: option.splits)
  moreover have "p_pid (ss_store st' b) = p_pid (c_processes c b) \<and> p_pipeline (ss_store st' b) = p_pipeline (c_processes c b)" for b
    using view_fields [OF r(4), of b] kept by (simp add: lists_kept_def)
  ultimately show thesis using st' sl r
    by (intro that [of "c\<lparr>c_processes := ss_store st', c_pipelines := (c_pipelines c)[k := ss_pipe st'], c_group := ss_group st'\<rparr>" "ss_env st" fail st])
      (auto simp: context_slot_def with_slot_def ctx_ok_def)
qed

text \<open>The start of a slot changes no list.\<close>

lemma rt_check_all_same:
  "rt_check_all cfg now h pls = (r, h') \<Longrightarrow>
   map (\<lambda>x. (pl_first_process (fst x), pl_nof_processes (fst x), pl_id (fst x))) r
      = map (\<lambda>x. (pl_first_process x, pl_nof_processes x, pl_id x)) pls
   \<and> (\<forall>b. p_next (h' b) = p_next (h b) \<and> p_attributes (h' b) = p_attributes (h b) \<and> p_pid (h' b) = p_pid (h b)
      \<and> p_pipeline (h' b) = p_pipeline (h b))"
proof (induction pls arbitrary: h r h')
  case (Cons pl pls)
  obtain pl' x h1 where c: "rt_check cfg now h pl = (pl', x, h1)" by (cases "rt_check cfg now h pl")
  obtain r2 h2 where d: "rt_check_all cfg now h1 pls = (r2, h2)" by (cases "rt_check_all cfg now h1 pls")
  have c1: "(pl_first_process pl', pl_nof_processes pl', pl_id pl') = (pl_first_process pl, pl_nof_processes pl, pl_id pl)"
    "p_next (h1 b) = p_next (h b) \<and> p_attributes (h1 b) = p_attributes (h b) \<and> p_pid (h1 b) = p_pid (h b) \<and> p_pipeline (h1 b) = p_pipeline (h b)" for b
    using c by (auto simp: rt_check_def Let_def split: if_splits option.splits)
  have "r = (pl', x) # r2" "h' = h2" using c d Cons.prems by simp_all
  then show ?case using c1 Cons.IH [OF d] by simp
qed simp

lemmas rt_check_all_ok = rt_check_all_same [THEN conjunct1] rt_check_all_same [THEN conjunct2, rule_format]

lemma same_lists:
  assumes "map (\<lambda>x. (pl_first_process x, pl_nof_processes x, pl_id x)) ps = map (\<lambda>x. (pl_first_process x, pl_nof_processes x, pl_id x)) qs" "k < length qs"
  shows "pl_first_process (ps ! k) = pl_first_process (qs ! k) \<and> pl_nof_processes (ps ! k) = pl_nof_processes (qs ! k) \<and> pl_id (ps ! k) = pl_id (qs ! k)"
proof -
  have "length ps = length qs" using assms(1) by (rule map_eq_imp_length_eq)
  moreover have "map (\<lambda>x. (pl_first_process x, pl_nof_processes x, pl_id x)) ps ! k = map (\<lambda>x. (pl_first_process x, pl_nof_processes x, pl_id x)) qs ! k"
    using assms(1) by simp
  ultimately show ?thesis using assms(2) by simp
qed

lemma ctx_ok_lists:
  assumes "ctx_ok c xss" "c_scheduling c' = c_scheduling c"
    and "map (\<lambda>x. (pl_first_process x, pl_nof_processes x, pl_id x)) (c_pipelines c') = map (\<lambda>x. (pl_first_process x, pl_nof_processes x, pl_id x)) (c_pipelines c)"
    and "\<And>b. p_next (c_processes c' b) = p_next (c_processes c b) \<and> p_attributes (c_processes c' b) = p_attributes (c_processes c b)
      \<and> p_pid (c_processes c' b) = p_pid (c_processes c b) \<and> p_pipeline (c_processes c' b) = p_pipeline (c_processes c b)"
  shows "ctx_ok c' xss"
  using assms(1,2) map_eq_imp_length_eq [OF assms(3)] assms(4)
  by (rule ctx_ok_data) (rule same_lists [OF assms(3)], use assms(1) in \<open>simp add: ctx_ok_def\<close>)

lemma map_take_drop: "map f ys = map f (take n xs) \<Longrightarrow> map f (ys @ drop n xs) = map f xs"
  by (metis append_take_drop_id map_append)

lemma rt_control_ok:
  assumes c: "ctx_ok c xss" and r: "kernel_tslot_run_rt_control c = (b, c')"
  shows "ctx_ok c' xss"
proof -
  let ?m = "\<lambda>x. (pl_first_process x, pl_nof_processes x, pl_id x)"
  define n where "n = c_nof_cores c"
  obtain rs h where a: "rt_check_all (c_rt_cfg c) (c_ts_counter c) (c_processes c) (take n (c_pipelines c)) = (rs, h)"
    by (cases "rt_check_all (c_rt_cfg c) (c_ts_counter c) (c_processes c) (take n (c_pipelines c))")
  have m: "map (?m \<circ> fst) rs = map ?m (take n (c_pipelines c))" using rt_check_all_ok(1) [OF a] by (simp add: comp_def)
  define r1 where "r1 = (if miss_correct (c_rt_cfg c) \<and> (\<exists>x \<in> set rs. snd x = 0)
    then map (\<lambda>(pl, x). (if x \<noteq> 0 then pl\<lparr>pl_enable := False\<rparr> else pl, x)) rs else rs)"
  have m1: "map (?m \<circ> fst) r1 = map ?m (take n (c_pipelines c))" unfolding r1_def m [symmetric] by (auto simp: comp_def)
  have m2: "map ?m (map (\<lambda>(pl, x). pl\<lparr>pl_ts_counter := t\<rparr>) r1) = map (?m \<circ> fst) r1" for t by auto
  have "c' = (if exec_correct (c_rt_cfg c) \<and> (\<exists>x \<in> set rs. snd x = 2)
      then c\<lparr>c_processes := h, c_pipelines := map (\<lambda>(pl, x). pl\<lparr>pl_ts_counter := c_ts_counter c\<rparr>) r1 @ drop n (c_pipelines c)\<rparr>
      else c\<lparr>c_processes := h, c_pipelines := map fst r1 @ drop n (c_pipelines c)\<rparr>)"
    using r a unfolding kernel_tslot_run_rt_control_def Let_def n_def [symmetric] r1_def by (auto split: if_splits)
  moreover have "map ?m (map fst r1 @ drop n (c_pipelines c)) = map ?m (c_pipelines c)"
    using m1 by (intro map_take_drop) (simp add: comp_def)
  moreover have "map ?m (map (\<lambda>(pl, x). pl\<lparr>pl_ts_counter := c_ts_counter c\<rparr>) r1 @ drop n (c_pipelines c)) = map ?m (c_pipelines c)"
    using m1 m2 [of "c_ts_counter c"] by (intro map_take_drop) (simp only:)
  ultimately have "c_scheduling c' = c_scheduling c" "c_processes c' = h" "map ?m (c_pipelines c') = map ?m (c_pipelines c)"
    by simp_all
  then show ?thesis using c rt_check_all_ok(2) [OF a] by (intro ctx_ok_lists [OF c]) auto
qed

lemma kernel_tslot_run_ok:
  assumes c: "ctx_ok c xss" and r: "kernel_tslot_run call c e = (b, c', e')"
  shows "ctx_ok c' xss"
proof -
  let ?c1 = "c\<lparr>c_ts_counter := c_ts_counter c + 1\<rparr>"
  have c1: "ctx_ok ?c1 xss" using c by (simp add: ctx_ok_def)
  obtain s c2 where c2: "(if do_rtcontrol (c_rt_cfg ?c1) then kernel_tslot_run_rt_control ?c1 else (False, ?c1)) = (s, c2)"
    by (cases "if do_rtcontrol (c_rt_cfg ?c1) then kernel_tslot_run_rt_control ?c1 else (False, ?c1)")
  have ok2: "ctx_ok c2 xss" using c2 c1 rt_control_ok [OF c1] by (auto split: if_splits)
  have ok3: "ctx_ok (enable_all c2) xss"
    using ok2
  proof (rule ctx_ok_lists)
    have pl: "c_pipelines (enable_all c2) = map (\<lambda>pl. pl\<lparr>pl_enable := True\<rparr>) (take (c_nof_cores c2) (c_pipelines c2))
        @ drop (c_nof_cores c2) (c_pipelines c2)" by (simp add: enable_all_def)
    show "map (\<lambda>x. (pl_first_process x, pl_nof_processes x, pl_id x)) (c_pipelines (enable_all c2))
        = map (\<lambda>x. (pl_first_process x, pl_nof_processes x, pl_id x)) (c_pipelines c2)"
      unfolding pl by (rule map_take_drop) simp
  qed (simp_all add: enable_all_def)
  have p: "ctx_ok (fst (kernel_tslot_run_periodic_callbacks call (enable_all c2) e)) xss"
    using ok3 by (simp add: kernel_tslot_run_periodic_callbacks_def ctx_ok_def split: prod.splits)
  show ?thesis using r c2 ok2 p unfolding kernel_tslot_run_def Let_def by (auto split: if_splits)
qed

lemma slot_list_failed: "fst (slot_list cl xs idx st) = Some a \<Longrightarrow> a \<in> set xs"
proof (induction xs arbitrary: idx st)
  case (Cons x xs)
  then show ?case by (auto simp: Let_def split: if_splits prod.splits)
qed simp

section \<open>Runs of the kernel\<close>

text \<open>The calls of the other components and of the clock, and the turns of the pipeline threads, in
  any order. A step is one call or one turn; the finish callback and the code of the modules
  are calls made between two turns. A process is created on a pipeline that exists.\<close>

record 'e kstate =
  k_c :: rtdal_context_t
  k_env :: 'e
  k_pc :: "nat \<Rightarrow> slot_pc"

inductive kernel_step :: "loader \<Rightarrow> (nat \<Rightarrow> 'e \<Rightarrow> 'e) \<Rightarrow> 'e kstate \<Rightarrow> 'e kstate \<Rightarrow> bool"
  for ld call where
  ks_new: "0 \<le> pipeline_id attr \<Longrightarrow> pipeline_id attr < int (length (c_pipelines (k_c s))) \<Longrightarrow>
    rtdal_process_new ld t attr arg (k_c s) = Some (r, c') \<Longrightarrow> kernel_step ld call s (s\<lparr>k_c := c'\<rparr>)"
| ks_remove: "rtdal_process_remove ld a (k_c s) = Some (n, c') \<Longrightarrow> kernel_step ld call s (s\<lparr>k_c := c'\<rparr>)"
| ks_run: "kernel_step ld call s (s\<lparr>k_c := (k_c s)\<lparr>c_processes := snd (rtdal_process_run a (c_processes (k_c s)))\<rparr>\<rparr>)"
| ks_stop: "kernel_step ld call s (s\<lparr>k_c := (k_c s)\<lparr>c_processes := snd (rtdal_process_stop a (c_processes (k_c s)))\<rparr>\<rparr>)"
| ks_seterror: "kernel_step ld call s (s\<lparr>k_c := (k_c s)\<lparr>c_processes := snd (rtdal_process_seterror a code (c_processes (k_c s)))\<rparr>\<rparr>)"
| ks_notified: "rtdal_process_group_notified a (c_processes (k_c s)) (c_group (k_c s)) = Some (n, grp) \<Longrightarrow>
    kernel_step ld call s (s\<lparr>k_c := (k_c s)\<lparr>c_group := grp\<rparr>\<rparr>)"
| ks_periodic_add: "kernel_step ld call s (s\<lparr>k_c := snd (rtdal_periodic_add f p (k_c s))\<rparr>)"
| ks_periodic_remove: "kernel_step ld call s (s\<lparr>k_c := snd (rtdal_periodic_remove f (k_c s))\<rparr>)"
| ks_tslot: "kernel_tslot_run call (k_c s) (k_env s) = (b, c', e') \<Longrightarrow> kernel_step ld call s (s\<lparr>k_c := c', k_env := e'\<rparr>)"
| ks_turn: "k < length (c_pipelines (k_c s)) \<Longrightarrow> slot_turn r k (k_c s) (k_pc s k) = Some (c', pc) \<Longrightarrow>
    kernel_step ld call s (s\<lparr>k_c := c', k_pc := (k_pc s)(k := pc)\<rparr>)"

lemma rtdal_process_new_inv:
  assumes c: "ctx_ok c xss" and k: "0 \<le> pipeline_id attr" "pipeline_id attr < int (length (c_pipelines c))"
    and new: "rtdal_process_new ld t attr arg c = Some (r, c')"
  shows "\<exists>xss'. ctx_ok c' xss'"
proof (cases "arg = 0 \<or> find_free (c_processes c) = None \<or> process_group_id attr < 0 \<or> MAX_PROCESS_GROUP_ID < process_group_id attr")
  case True
  then have "rtdal_process_new ld t attr arg c = Some (None, c)" by (auto simp: rtdal_process_new_def split: option.splits)
  then show ?thesis using c new by auto
next
  case False
  then obtain i where i: "find_free (c_processes c) = Some i" and arg: "arg \<noteq> 0" by auto
  have k': "pipeline_id attr = int (nat (pipeline_id attr))" "nat (pipeline_id attr) < length xss"
    using k c by (auto simp: ctx_ok_def)
  show ?thesis
  proof (cases "group_ok (process_group_id attr)")
    case True
    from rtdal_process_new_ok [OF c arg i True k', of ld t] show ?thesis using new by (metis option.inject prod.inject)
  next
    case bad: False
    then have "rtdal_process_new ld t attr arg c = None"
      using False i by (auto simp: rtdal_process_new_def group_set_def)
    then show ?thesis using new by simp
  qed
qed

lemma rtdal_process_remove_inv:
  assumes c: "ctx_ok c xss" and "rtdal_process_remove ld a c = Some (r, c')"
  shows "\<exists>xss'. ctx_ok c' xss'"
proof (cases "p_pipeline (c_processes c a)")
  case None
  then show ?thesis using assms by (auto simp: rtdal_process_remove_def process_unschedule_def ctx_ok_def)
next
  case (Some k)
  have "k < length xss"
  proof (rule ccontr)
    assume "\<not> k < length xss"
    then show False using assms Some by (auto simp: rtdal_process_remove_def process_unschedule_def ctx_ok_def)
  qed
  from rtdal_process_remove_ok [OF c Some this, of ld] show ?thesis using assms(2) by (metis option.inject prod.inject)
qed

lemma with_slot_kept:
  assumes c: "ctx_ok c xss" and k: "k < length xss" and st: "lists_kept (slot_of k c e) st"
  shows "ctx_ok (with_slot k st c) xss"
  using c by (rule ctx_ok_data) (use c k st in \<open>auto simp: with_slot_def lists_kept_def nth_list_update ctx_ok_def\<close>)

lemma end_run_inv:
  assumes c: "ctx_ok c xss" and k: "k < length xss" and e: "end_run a r (slot_of k c e) = Some st"
  shows "\<exists>xss'. ctx_ok (with_slot k st c) xss'"
proof -
  let ?st = "slot_of k c e"
  have ok: "pipe_ok (ss_store ?st) (ss_pipe ?st) (xss ! k)" and id: "pl_id (c_pipelines c ! k) = k" using c k by (auto simp: ctx_ok_def)
  consider "r = 0" | "r \<noteq> 0" "a \<notin> set (xss ! k)" | "r \<noteq> 0" "a \<in> set (xss ! k)" by blast
  then show ?thesis
  proof cases
    case 1
    then have "lists_kept ?st st" using e by (auto simp: end_run_def intro!: lists_kept_running)
    then show ?thesis by (intro exI [of _ xss] with_slot_kept [OF c k])
  next
    case 2
    then have "st = set_running False a ?st" using e pipeline_remove_absent [OF ok 2(2)] by (simp add: end_run_def)
    then have "lists_kept ?st st" by (simp add: lists_kept_running)
    then show ?thesis by (intro exI [of _ xss] with_slot_kept [OF c k])
  next
    case 3
    obtain h obj where rem: "pipeline_remove a (ss_store ?st) (ss_pipe ?st) = Some (0, h, obj)"
      "slot_result (xss ! k) (Some a, set_running False a ?st) (set_running False a (?st\<lparr>ss_store := h, ss_pipe := obj\<rparr>))"
      by (rule remove_failed [OF ok 3(2)]) (rule that)
    have st: "st = set_running False a (?st\<lparr>ss_store := h, ss_pipe := obj\<rparr>)" using e 3(1) rem(1) by (simp add: end_run_def)
    have r: "pipe_ok (ss_store st) (ss_pipe st) (remove1 a (xss ! k))" "pl_id (ss_pipe st) = k"
      "\<And>b. view (ss_store st b) = view (ss_store (set_running False a ?st) b)"
      "\<And>b. b \<notin> set (xss ! k) \<Longrightarrow> ss_store st b = ss_store (set_running False a ?st) b"
      using rem(2) id unfolding st [symmetric] by (auto simp: slot_result_def set_running_def)
    have kept: "lists_kept ?st (?st\<lparr>ss_store := ss_store (set_running False a ?st)\<rparr>)"
      by (simp add: lists_kept_def set_running_def)
    have "ctx_ok (c\<lparr>c_processes := ss_store st, c_pipelines := (c_pipelines c)[k := ss_pipe st]\<rparr>) (xss[k := remove1 a (xss ! k)])"
      by (rule ctx_ok_slot [OF c k r(1,2) set_remove1_subset r(3,4) kept])
    then show ?thesis by (intro exI [of _ "xss[k := remove1 a (xss ! k)]"]) (simp add: with_slot_def ctx_ok_def)
  qed
qed

lemma slot_turn_inv:
  assumes c: "ctx_ok c xss" and k: "k < length xss" and t: "slot_turn r k c pc = Some (c', pc')"
  shows "\<exists>xss'. ctx_ok c' xss'"
  using t
proof (cases rule: slot_turn.cases [of "(r, k, c, pc)"])
  case (1 r k' c0)
  let ?st = "(slot_of k c ())\<lparr>ss_pipe := (c_pipelines c ! k)\<lparr>pl_finished := False\<rparr>\<rparr>"
  have "c' = with_slot k ?st c" using 1 t by (auto simp: with_slot_def Let_def)
  moreover have "lists_kept (slot_of k c ()) ?st" by (simp add: lists_kept_def)
  ultimately show ?thesis by (auto intro!: exI [of _ xss] with_slot_kept [OF c k, of "()"])
next
  case (2 r k' c0 idx)
  let ?st = "(slot_of k c ())\<lparr>ss_pipe := (c_pipelines c ! k)\<lparr>pl_ts_counter := c_ts_counter c, pl_finished := True\<rparr>\<rparr>"
  have "c' = with_slot k ?st c" using 2 t by (auto simp: with_slot_def Let_def)
  moreover have "lists_kept (slot_of k c ()) ?st" by (simp add: lists_kept_def)
  ultimately show ?thesis by (auto intro!: exI [of _ xss] with_slot_kept [OF c k, of "()"])
next
  case (3 r k' c0 a idx)
  have "lists_kept (slot_of k c ()) st" if "check_status idle_client a (slot_of k c ()) = Some st" for st
    using that by (auto simp: check_status_def idle_client_def Let_def lists_kept_def split: if_splits option.splits)
  then show ?thesis using t 3 c with_slot_kept [OF c k, of "()"] by (auto split: if_splits)
next
  case (4 r k' c0 a idx)
  then show ?thesis using t c with_slot_kept [OF c k lists_kept_begin [of "slot_of k c ()"]] by (auto split: if_splits)
next
  case (5 r k' c0 a idx)
  then show ?thesis using t end_run_inv [OF c k, of a r "()"] by auto
next
  case (6 r k' c0)
  then show ?thesis using t by simp
qed

lemma kernel_step_inv:
  assumes "kernel_step ld call s s'" "ctx_ok (k_c s) xss"
  shows "\<exists>xss'. ctx_ok (k_c s') xss'"
  using assms
proof (cases rule: kernel_step.cases)
  case (ks_new attr t arg r c')
  then show ?thesis using rtdal_process_new_inv [OF assms(2) ks_new(2-4)] by simp
next
  case (ks_remove a n c')
  then show ?thesis using assms(2) rtdal_process_remove_inv [of "k_c s" xss ld a n c'] by auto
next
  case (ks_run a)
  then show ?thesis using assms(2) by (auto simp: rtdal_process_run_def intro!: exI [of _ xss] ctx_ok_data [of "k_c s" xss])
next
  case (ks_stop a)
  then show ?thesis using assms(2) by (auto simp: rtdal_process_stop_def intro!: exI [of _ xss] ctx_ok_data [of "k_c s" xss])
next
  case (ks_seterror a code)
  then show ?thesis using assms(2) by (auto simp: rtdal_process_seterror_def intro!: exI [of _ xss] ctx_ok_data [of "k_c s" xss])
next
  case (ks_notified a n grp)
  then show ?thesis using assms(2) by (auto simp: ctx_ok_def intro!: exI [of _ xss])
next
  case (ks_periodic_add f p)
  then show ?thesis using assms(2) by (auto simp: rtdal_periodic_add_def ctx_ok_def split: option.splits intro!: exI [of _ xss])
next
  case (ks_periodic_remove f)
  then show ?thesis using assms(2) by (auto simp: rtdal_periodic_remove_def ctx_ok_def split: option.splits intro!: exI [of _ xss])
next
  case (ks_tslot b c' e')
  then show ?thesis using assms(2) kernel_tslot_run_ok [of "k_c s" xss call "k_env s" b c' e'] by auto
next
  case (ks_turn k r c' pc)
  then show ?thesis using assms(2) slot_turn_inv [of "k_c s" xss k r "k_pc s k" c' pc] by (auto simp: ctx_ok_def)
qed

lemma kernel_step_nof_periodic:
  assumes "kernel_step ld call s s'"
  shows "c_nof_periodic (k_c s') = c_nof_periodic (k_c s)"
proof -
  have un: "c_nof_periodic c' = c_nof_periodic c" if "process_unschedule a c = Some (r, c')" for a c r c'
    using that by (auto simp: process_unschedule_def modulethread_remove_def split: scheduling_mode.splits option.splits if_splits)
  have rem: "c_nof_periodic c' = c_nof_periodic c" if r: "rtdal_process_remove ld a c = Some (r, c')" for a c r c'
  proof (cases "process_unschedule a c")
    case (Some x)
    then show ?thesis using r un [of a c] by (cases x) (auto simp: rtdal_process_remove_def split: if_splits)
  qed (use r in \<open>simp add: rtdal_process_remove_def\<close>)
  have sch: "c_nof_periodic c' = c_nof_periodic c" if "process_schedule t a c = Some (r, c')" for t a c r c'
    using that by (auto simp: process_schedule_def Let_def split: scheduling_mode.splits option.splits if_splits)
  have new: "c_nof_periodic c' = c_nof_periodic c" if n: "rtdal_process_new ld t attr arg c = Some (r, c')" for t attr arg c r c'
    using n unfolding rtdal_process_new_def Let_def
    by (auto split: if_splits option.splits bool.splits prod.splits dest!: sch rem)
  have rt: "c_nof_periodic c' = c_nof_periodic c" if "kernel_tslot_run_rt_control c = (b, c')" for c b c'
    using that by (auto simp: kernel_tslot_run_rt_control_def Let_def split: prod.splits if_splits)
  have ts: "c_nof_periodic c' = c_nof_periodic c" if "kernel_tslot_run call c e = (b, c', e')" for c e b c' e'
    using that unfolding kernel_tslot_run_def Let_def
    by (auto simp: kernel_tslot_run_periodic_callbacks_def enable_all_def split: prod.splits if_splits dest!: rt)
  have sl: "c_nof_periodic c' = c_nof_periodic c" if "slot_turn r k c pc = Some (c', pc')" for r k c pc c' pc'
    using that by (cases "(r, k, c, pc)" rule: slot_turn.cases) (auto simp: with_slot_def Let_def split: if_splits)
  show ?thesis using assms
    by (cases rule: kernel_step.cases)
      (auto simp: rtdal_periodic_add_def rtdal_periodic_remove_def split: option.splits dest: new rem ts sl)
qed

text \<open>Another thread removes the first processes of a list, one after the other.\<close>

lemma remove_front:
  assumes "ctx_ok (k_c s) xss" "k < length xss" "xss ! k = us @ ws" "\<forall>b. ld_unlink ld b"
  shows "\<exists>s'. (kernel_step ld call)\<^sup>*\<^sup>* s s' \<and> ctx_ok (k_c s') (xss[k := ws]) \<and> k_pc s' = k_pc s"
  using assms
proof (induction us arbitrary: s xss)
  case Nil
  then show ?case by (metis append_Nil list_update_id rtranclp.rtrancl_refl)
next
  case (Cons b us)
  have b: "p_pipeline (c_processes (k_c s) b) = Some k" using Cons.prems by (auto simp: ctx_ok_def members_ok_def)
  obtain r c' where c': "rtdal_process_remove ld b (k_c s) = Some (r, c')" "ctx_ok c' (xss[k := remove1 b (xss ! k)])"
    by (rule rtdal_process_remove_ok [OF Cons.prems(1) b Cons.prems(2), of ld]) (rule that)
  have st: "kernel_step ld call s (s\<lparr>k_c := c'\<rparr>)" using c'(1) by (rule ks_remove)
  have "ctx_ok (k_c (s\<lparr>k_c := c'\<rparr>)) (xss[k := us @ ws])" using c'(2) Cons.prems(3) by simp
  from Cons.IH [OF this] Cons.prems(2,4) obtain s' where "(kernel_step ld call)\<^sup>*\<^sup>* (s\<lparr>k_c := c'\<rparr>) s'"
    "ctx_ok (k_c s') (xss[k := ws])" "k_pc s' = k_pc s" by auto
  then show ?case using converse_rtranclp_into_rtranclp [of "kernel_step ld call", OF st] by blast
qed

section \<open>Properties\<close>

text \<open>The context after kernel\_initialize\_create\_pipelines: n pipelines, numbered, no process.\<close>

definition zero_pipeline :: "nat \<Rightarrow> pipeline_t" where
  "zero_pipeline i = \<lparr>pl_id = i, pl_first_process = None, pl_finished = False, pl_nof_processes = 0, pl_rtfaults = 0,
     pl_ts_counter = 0, pl_enable = False, pl_running_process = None, pl_running_process_idx = 0\<rparr>"

definition zero_process :: rtdal_process_t where
  "zero_process = \<lparr>p_pid = 0, p_pipeline = None, p_arg = 0,
     p_attributes = \<lparr>pipeline_id = 0, exec_position = 0, process_group_id = 0, finish_callback = False\<rparr>,
     p_is_running = False, p_runnable = False, p_run_point = False, p_finish_code = FINISH_OK, p_next = None\<rparr>"

definition boot_context :: "nat \<Rightarrow> rtfault_cfg \<Rightarrow> rtdal_context_t" where
  "boot_context n cfg = \<lparr>c_processes = (\<lambda>_. zero_process), c_pipelines = map zero_pipeline [0..<n], c_nof_cores = n,
     c_scheduling = SCHEDULING_PIPELINE, c_rt_cfg = cfg,
     c_periodic = replicate rtdal_periodic_MAX \<lparr>pe_callback = None, pe_period = 0, pe_counter = 0\<rparr>,
     c_nof_periodic = 0, c_ts_counter = 0, c_group = (\<lambda>_. False)\<rparr>"

lemma boot_ok: "ctx_ok (boot_context n cfg) (replicate n [])"
  by (simp add: ctx_ok_def boot_context_def pipe_ok_def members_ok_def zero_pipeline_def)

definition boot_state :: "nat \<Rightarrow> rtfault_cfg \<Rightarrow> 'e \<Rightarrow> 'e kstate" where
  "boot_state n cfg e = \<lparr>k_c = boot_context n cfg, k_env = e, k_pc = (\<lambda>_. Idle)\<rparr>"

lemma reachable_ok:
  "(kernel_step ld call)\<^sup>*\<^sup>* (boot_state n cfg e) s \<Longrightarrow> (\<exists>xss. ctx_ok (k_c s) xss) \<and> c_nof_periodic (k_c s) = 0"
proof (induction rule: rtranclp_induct)
  case base
  then show ?case using boot_ok by (auto simp: boot_state_def boot_context_def)
next
  case (step y z)
  then obtain xss where "ctx_ok (k_c y) xss" "c_nof_periodic (k_c y) = 0" by blast
  then show ?case using kernel_step_inv [OF step(2)] kernel_step_nof_periodic [OF step(2)] by simp
qed


definition demo_cfg :: rtfault_cfg where
  "demo_cfg = \<lparr>exec_correct = False, miss_correct = True, exec_kill = True, miss_kill = False, do_rtcontrol = True\<rparr>"

definition demo_client :: "nat list client" where
  "demo_client = \<lparr>cl_run = (\<lambda>x st. (if x = 9 then -1 else 0, st\<lparr>ss_env := ss_env st @ [x]\<rparr>)), cl_finish = (\<lambda>x st. st)\<rparr>"

definition demo_ld :: loader where
  "demo_ld = \<lparr>ld_launch = \<lambda>_. True, ld_unlink = \<lambda>_. True\<rparr>"

definition demo_attr :: rtdal_process_attr where
  "demo_attr = \<lparr>pipeline_id = 1, exec_position = 4, process_group_id = 2, finish_callback = True\<rparr>"

lemma demo_new:
  obtains c' where "rtdal_process_new demo_ld True demo_attr 9 (boot_context 2 demo_cfg) = Some (Some 0, c')" "ctx_ok c' [[], [0]]"
proof -
  have f: "find_free (c_processes (boot_context 2 demo_cfg)) = Some 0"
    by (simp add: find_free_def boot_context_def zero_process_def rtdal_process_MAX_def upt_conv_Cons)
  have b: "ctx_ok (boot_context 2 demo_cfg) [[], []]" using boot_ok [of 2] by (simp add: numeral_2_eq_2)
  have g: "group_ok (process_group_id demo_attr)" by (simp add: demo_attr_def group_ok_def MAX_PROCESS_GROUP_ID_def)
  show thesis
    by (rule rtdal_process_new_ok [OF b _ f g, of 9 1 demo_ld True]) (auto intro: that simp: demo_ld_def demo_attr_def insert_pos_def)
qed


text \<open>Creation of a process on a well-formed context: the handle is the first free entry, the
  process is loaded, not yet runnable, and its pipeline is the old one with the process at its
  execution position; if the binary cannot be loaded the call returns NULL and the pipelines
  are as before.\<close>

theorem process_new_spec:
  assumes "ctx_ok c xss" "arg \<noteq> 0" "find_free (c_processes c) = Some i"
    and "group_ok (process_group_id attr)" "pipeline_id attr = int k" "k < length xss"
  shows "\<exists>c'. rtdal_process_new ld t attr arg c = Some (if ld_launch ld (Suc i) then Some i else None, c')
    \<and> ctx_ok c' (if ld_launch ld (Suc i)
        then xss[k := insert_pos ((c_processes c)(i := new_process i attr arg)) i (xss ! k)] else xss)
    \<and> (ld_launch ld (Suc i) \<longrightarrow> p_attributes (c_processes c' i) = attr \<and> p_arg (c_processes c' i) = arg
        \<and> \<not> p_runnable (c_processes c' i) \<and> p_finish_code (c_processes c' i) = FINISH_OK)"
  by (rule rtdal_process_new_ok [OF assms, of ld t]) blast

theorem process_new_spec_witness:
  "\<exists>c'. rtdal_process_new demo_ld True demo_attr 9 (boot_context 2 demo_cfg) = Some (Some 0, c') \<and> ctx_ok c' [[], [0]]"
proof -
  have f: "find_free (c_processes (boot_context 2 demo_cfg)) = Some 0"
    by (simp add: find_free_def boot_context_def zero_process_def rtdal_process_MAX_def upt_conv_Cons)
  have b: "ctx_ok (boot_context 2 demo_cfg) [[], []]" using boot_ok [of 2] by (simp add: numeral_2_eq_2)
  have g: "group_ok (process_group_id demo_attr)" by (simp add: demo_attr_def group_ok_def MAX_PROCESS_GROUP_ID_def)
  from process_new_spec [OF b _ f g, of 9 1 demo_ld True] show ?thesis
    by (simp add: demo_ld_def demo_attr_def insert_pos_def) blast
qed

text \<open>A process that fails in a time slot stays allocated for ever: the slot has taken it out
  of the pipeline, so rtdal_process_remove does not find it, returns -1 and leaves the entry of
  the process table in use.\<close>

theorem failed_process_leaks:
  assumes "keeps_lists cl" "ctx_ok c xss" "k < length xss" "pl_enable (c_pipelines c ! k)"
    and "fst (slot_spec cl (xss ! k) (slot_of k c e)) = Some a"
  shows "\<exists>c' e'. context_slot cl k c e = Some (Inr (c', e')) \<and> rtdal_process_remove ld a c' = Some (-1, c')
    \<and> p_pid (c_processes c' a) = Suc a"
proof -
  obtain c' e' fail st where sl: "context_slot cl k c e = Some (Inr (c', e'))"
    "slot_spec cl (xss ! k) (slot_of k c e) = (fail, st)"
    and ok0: "ctx_ok c' (case fail of None \<Rightarrow> xss | Some a \<Rightarrow> xss[k := remove1 a (xss ! k)])"
    and v: "\<And>b. p_pid (c_processes c' b) = p_pid (c_processes c b) \<and> p_pipeline (c_processes c' b) = p_pipeline (c_processes c b)"
    by (rule context_slot_ok [OF assms(1-4), of e]) (rule that)
  then have ok: "ctx_ok c' (xss[k := remove1 a (xss ! k)])" using assms(5) by simp
  have "a \<in> set (xss ! k)" using slot_list_failed [of cl "xss ! k" 0] assms(5) by (simp add: slot_spec_def)
  then have a: "p_pid (c_processes c' a) = Suc a" "p_pipeline (c_processes c' a) = Some k"
    using assms(2,3) v [of a] by (auto simp: ctx_ok_def members_ok_def)
  have "distinct (xss ! k)" using assms(2,3) by (simp add: ctx_ok_def pipe_ok_def)
  then have na: "a \<notin> set (xss[k := remove1 a (xss ! k)] ! k)" using assms(3) by simp
  have "k < length (xss[k := remove1 a (xss ! k)])" using assms(3) by simp
  from rtdal_process_remove_ok [OF ok a(2) this, of ld] na have "rtdal_process_remove ld a c' = Some (-1, c')" by metis
  then show ?thesis using sl a by blast
qed

definition demo_one :: rtdal_context_t where
  "demo_one = (boot_context 1 demo_cfg)\<lparr>c_processes := (\<lambda>_. zero_process)(0 := (new_process 0 demo_attr 9)\<lparr>p_pipeline := Some 0, p_runnable := True\<rparr>),
     c_pipelines := [(zero_pipeline 0)\<lparr>pl_first_process := Some 0, pl_nof_processes := 1, pl_enable := True\<rparr>]\<rparr>"

lemma demo_one_ok: "ctx_ok demo_one [[0]]"
  by (simp add: demo_one_def ctx_ok_def pipe_ok_def members_ok_def zero_pipeline_def new_process_def boot_context_def
      rtdal_process_MAX_def demo_attr_def group_ok_def MAX_PROCESS_GROUP_ID_def)

theorem failed_process_leaks_witness:
  "\<exists>c' e'. context_slot demo_client 0 demo_one [] = Some (Inr (c', e'))
    \<and> rtdal_process_remove demo_ld 0 c' = Some (-1, c') \<and> p_pid (c_processes c' 0) = 1"
proof -
  have k: "keeps_lists demo_client" by (simp add: keeps_lists_def demo_client_def lists_kept_def)
  have f: "fst (slot_spec demo_client ([[0]] ! 0) (slot_of 0 demo_one [])) = Some 0"
    by (simp add: slot_spec_def demo_client_def slot_report_def begin_run_def set_running_def demo_one_def new_process_def Let_def)
  have "pl_enable (c_pipelines demo_one ! 0)" by (simp add: demo_one_def)
  from failed_process_leaks [OF k demo_one_ok _ this f, of demo_ld] show ?thesis by simp
qed

text \<open>C0. The test for a corrupted list mistakes a removal for a corruption. Let the thread of a
  pipeline stand in its slot before the process a, with all processes of the list before a
  behind it, and let another thread remove these processes, which are more than those that
  remain: the list is well formed after every removal, yet the next turn of the thread finds
  its index beyond the number of processes and kills the program.\<close>

theorem slot_removal_kills:
  assumes "ctx_ok (k_c s) xss" "k < length xss" "xss ! k = us @ a # vs" "length (a # vs) < length us"
    and "k_pc s k = Loop (Some a) (int (length us))" "\<forall>b. ld_unlink ld b"
  shows "\<exists>s'. (kernel_step ld call)\<^sup>*\<^sup>* s s' \<and> ctx_ok (k_c s') (xss[k := a # vs]) \<and> k_pc s' k = Killed"
proof -
  obtain s1 where s1: "(kernel_step ld call)\<^sup>*\<^sup>* s s1" "ctx_ok (k_c s1) (xss[k := a # vs])" "k_pc s1 = k_pc s"
    using remove_front [OF assms(1-3,6)] by blast
  have "pl_nof_processes (c_pipelines (k_c s1) ! k) = int (length (a # vs))" and kl: "k < length (c_pipelines (k_c s1))"
    using s1(2) assms(2) by (auto simp: ctx_ok_def pipe_ok_def)
  then have "slot_turn 0 k (k_c s1) (k_pc s1 k) = Some (k_c s1, Killed)" using assms(4,5) s1(3) by simp
  from ks_turn [OF kl this] have "kernel_step ld call s1 (s1\<lparr>k_c := k_c s1, k_pc := (k_pc s1)(k := Killed)\<rparr>)" .
  then show ?thesis using s1 by (intro exI [of _ "s1\<lparr>k_c := k_c s1, k_pc := (k_pc s1)(k := Killed)\<rparr>"]) auto
qed

definition demo_three :: "unit kstate" where
  "demo_three = \<lparr>k_c = demo_one\<lparr>c_processes := (\<lambda>i. (new_process i demo_attr 9)\<lparr>p_pipeline := Some 0, p_runnable := True,
       p_next := (if i < 2 then Some (i + 1) else None)\<rparr>),
     c_pipelines := [(zero_pipeline 0)\<lparr>pl_first_process := Some 0, pl_nof_processes := 3, pl_enable := True\<rparr>]\<rparr>,
     k_env = (), k_pc = (\<lambda>_. Loop (Some 2) 2)\<rparr>"

theorem slot_removal_kills_witness:
  "\<exists>s'. (kernel_step demo_ld (\<lambda>_ e. e))\<^sup>*\<^sup>* demo_three s' \<and> ctx_ok (k_c s') [[2]] \<and> k_pc s' 0 = Killed"
proof -
  have "ctx_ok (k_c demo_three) [[0, 1, 2]]"
    by (simp add: demo_three_def demo_one_def ctx_ok_def pipe_ok_def members_ok_def zero_pipeline_def new_process_def boot_context_def
      rtdal_process_MAX_def demo_attr_def group_ok_def MAX_PROCESS_GROUP_ID_def)
  from slot_removal_kills [OF this, of 0 "[0, 1]" 2 "[]" demo_ld "\<lambda>_ e. e"] show ?thesis
    by (simp add: demo_three_def demo_ld_def)
qed

text \<open>Whatever periodic functions are registered, no time slot ever calls one: the number of
  periodic functions that the loop of the kernel uses is zero in every state that is reached.\<close>

theorem periodic_never_called:
  assumes "(kernel_step ld call)\<^sup>*\<^sup>* (boot_state n cfg e) s"
  shows "\<exists>b c'. kernel_tslot_run call (k_c s) (k_env s) = (b, c', k_env s)"
proof -
  define c where "c = k_c s"
  have n: "c_nof_periodic c = 0" using reachable_ok [OF assms] by (simp add: c_def)
  obtain s c2 where c2: "(if do_rtcontrol (c_rt_cfg (c\<lparr>c_ts_counter := c_ts_counter c + 1\<rparr>))
      then kernel_tslot_run_rt_control (c\<lparr>c_ts_counter := c_ts_counter c + 1\<rparr>) else (False, c\<lparr>c_ts_counter := c_ts_counter c + 1\<rparr>)) = (s, c2)"
    by (metis surj_pair)
  then have "c_nof_periodic (enable_all c2) = 0"
    using n by (auto simp: enable_all_def kernel_tslot_run_rt_control_def Let_def split: if_splits prod.splits)
  then show ?thesis using c2 unfolding kernel_tslot_run_def Let_def c_def [symmetric]
    by (auto simp: kernel_tslot_run_periodic_callbacks_def)
qed

theorem periodic_never_called_witness:
  "\<exists>b c'. kernel_tslot_run (\<lambda>f e. e @ [f]) (snd (rtdal_periodic_add 3 5 (boot_context 2 demo_cfg))) [] = (b, c', [])"
proof -
  define s where "s = boot_state 2 demo_cfg ([] :: nat list)"
  have "(kernel_step demo_ld (\<lambda>f e. e @ [f]))\<^sup>*\<^sup>* s (s\<lparr>k_c := snd (rtdal_periodic_add 3 5 (k_c s))\<rparr>)"
    by (rule r_into_rtranclp) (rule ks_periodic_add)
  from periodic_never_called [OF this [unfolded s_def]] show ?thesis by (simp add: boot_state_def)
qed

text \<open>The two outcomes of the start of a time slot. Either the pipelines are to run: the call
  returns 1 and leaves every pipeline of a core enabled, also after the miss correction that
  disables pipelines. Or it returns 0: real-time control with execution correction is on, and
  the time stamp of every pipeline of a core is that of the new slot.\<close>

theorem tslot_outcome:
  "case kernel_tslot_run call c e of (b, c', e') \<Rightarrow>
     c_ts_counter c' = c_ts_counter c + 1 \<and>
     (b = 1 \<and> (\<forall>pl \<in> set (take (c_nof_cores c) (c_pipelines c')). pl_enable pl)
      \<or> b = 0 \<and> e' = e \<and> do_rtcontrol (c_rt_cfg c) \<and> exec_correct (c_rt_cfg c)
        \<and> (\<forall>pl \<in> set (take (c_nof_cores c) (c_pipelines c')). pl_ts_counter pl = c_ts_counter c + 1))"
proof -
  define c1 where "c1 = c\<lparr>c_ts_counter := c_ts_counter c + 1\<rparr>"
  obtain s c2 where c2: "(if do_rtcontrol (c_rt_cfg c1) then kernel_tslot_run_rt_control c1 else (False, c1)) = (s, c2)"
    by (metis surj_pair)
  have len: "length r = length pls" if "rt_check_all cfg now h pls = (r, h')" for cfg now h pls r h'
    using rt_check_all_ok(1) [OF that] by (rule map_eq_imp_length_eq)
  have same: "c_ts_counter c2 = c_ts_counter c + 1" "c_nof_cores c2 = c_nof_cores c"
    using c2 by (auto simp: c1_def kernel_tslot_run_rt_control_def Let_def split: if_splits prod.splits)
  show ?thesis
  proof (cases s)
    case False
    let ?n = "c_nof_cores c"
    have p: "c_pipelines (enable_all c2) = map (\<lambda>pl. pl\<lparr>pl_enable := True\<rparr>) (take ?n (c_pipelines c2)) @ drop ?n (c_pipelines c2)"
      by (simp add: enable_all_def same)
    have "\<forall>pl \<in> set (take ?n (c_pipelines (enable_all c2))). pl_enable pl"
      unfolding p by (cases "length (c_pipelines c2) \<le> ?n") auto
    moreover obtain c3 e3 where c3: "kernel_tslot_run_periodic_callbacks call (enable_all c2) e = (c3, e3)" by (metis surj_pair)
    moreover have "c_pipelines c3 = c_pipelines (enable_all c2)" "c_ts_counter c3 = c_ts_counter c2"
      using c3 by (auto simp: kernel_tslot_run_periodic_callbacks_def enable_all_def split: prod.splits)
    moreover have "kernel_tslot_run call c e = (1, c3, e3)"
      using c2 c3 False by (simp only: kernel_tslot_run_def Let_def c1_def [symmetric] prod.case if_False)
    ultimately show ?thesis using same by simp
  next
    case True
    have d: "do_rtcontrol (c_rt_cfg c)" "kernel_tslot_run_rt_control c1 = (True, c2)"
      using c2 True by (auto simp: c1_def split: if_splits)
    obtain r h where rh: "rt_check_all (c_rt_cfg c1) (c_ts_counter c1) (c_processes c1) (take (c_nof_cores c1) (c_pipelines c1)) = (r, h)"
      by (metis surj_pair)
    define r1 where "r1 = (if miss_correct (c_rt_cfg c1) \<and> (\<exists>x \<in> set r. snd x = 0)
      then map (\<lambda>(pl, x). (if x \<noteq> 0 then pl\<lparr>pl_enable := False\<rparr> else pl, x)) r else r)"
    have "(if exec_correct (c_rt_cfg c1) \<and> (\<exists>x \<in> set r. snd x = 2) then ((\<exists>x \<in> set r. snd x \<noteq> 2),
        c1\<lparr>c_processes := h, c_pipelines := map (\<lambda>(pl, x). pl\<lparr>pl_ts_counter := c_ts_counter c1\<rparr>) r1 @ drop (c_nof_cores c1) (c_pipelines c1)\<rparr>)
      else (False, c1\<lparr>c_processes := h, c_pipelines := map fst r1 @ drop (c_nof_cores c1) (c_pipelines c1)\<rparr>)) = (True, c2)"
      using d(2) rh by (simp only: kernel_tslot_run_rt_control_def Let_def prod.case r1_def)
    then have r1: "exec_correct (c_rt_cfg c)"
      "c_pipelines c2 = map (\<lambda>(pl, x). pl\<lparr>pl_ts_counter := c_ts_counter c + 1\<rparr>) r1 @ drop (c_nof_cores c) (c_pipelines c)"
      by (auto simp: c1_def split: if_splits)
    have l1: "length r1 = length r" by (simp add: r1_def)
    have "length r = min (c_nof_cores c) (length (c_pipelines c))" using len [OF rh] by (simp add: c1_def min.commute)
    then have "\<forall>pl \<in> set (take (c_nof_cores c) (c_pipelines c2)). pl_ts_counter pl = c_ts_counter c + 1"
      using r1(2) l1 by (cases "length (c_pipelines c) \<le> c_nof_cores c") auto
    then show ?thesis using True c2 same d r1 unfolding kernel_tslot_run_def Let_def c1_def [symmetric] by simp
  qed
qed

theorem tslot_outcome_witness:
  "\<exists>c' e'. kernel_tslot_run (\<lambda>_ e. e) (boot_context 2 demo_cfg) () = (1, c', e') \<and> c_ts_counter c' = 1
    \<and> (\<forall>pl \<in> set (take 2 (c_pipelines c')). pl_enable pl)"
proof -
  obtain b c' e' where r: "kernel_tslot_run (\<lambda>_ e. e) (boot_context 2 demo_cfg) () = (b, c', e')" by (metis surj_pair)
  have "c_ts_counter c' = 1 \<and> b = 1 \<and> (\<forall>pl \<in> set (take 2 (c_pipelines c')). pl_enable pl)"
    using tslot_outcome [where call = "\<lambda>_ e. e" and c = "boot_context 2 demo_cfg" and e = "()"] unfolding r by (simp add: boot_context_def demo_cfg_def)
  then show ?thesis using r by blast
qed

text \<open>Converting a time stamp to a time and back gives the time stamp, and the microseconds of
  the time are in range.\<close>

theorem tstamp_roundtrip:
  assumes "0 < ts_len_us" "0 \<le> t" "t < 2 ^ 31" "t * ts_len_us < 2 ^ 31 * 1000000"
  shows "rtdal_time_to_tstamp ts_len_us (tstamp_to_time ts_len_us t) = t
    \<and> 0 \<le> tv_usec (tstamp_to_time ts_len_us t) \<and> tv_usec (tstamp_to_time ts_len_us t) < 1000000"
proof -
  let ?x = "t * ts_len_us"
  have x: "0 \<le> ?x" using assms by simp
  have d: "cdiv ?x 1000000 = ?x div 1000000" using x by (auto simp: cdiv_def sgn_if)
  have s: "int_cast (cdiv ?x 1000000) = ?x div 1000000"
    unfolding d
  proof (rule int_cast_id)
    have "1000000 * (?x div 1000000) \<le> ?x" using mult_div_mod_eq [of 1000000 ?x] pos_mod_sign [of 1000000 ?x] by linarith
    then have "?x div 1000000 < 2 ^ 31" using assms(4) by linarith
    moreover have "0 \<le> ?x div 1000000" using x by (simp add: pos_imp_zdiv_nonneg_iff)
    ultimately show "in_int32 (?x div 1000000)" by (simp add: in_int32_def)
  qed
  have m: "?x - ?x div 1000000 * 1000000 = ?x mod 1000000" by (simp add: minus_div_mult_eq_mod)
  have u: "int_cast (?x mod 1000000) = ?x mod 1000000"
  proof (rule int_cast_id)
    have "0 \<le> ?x mod 1000000" "?x mod 1000000 < 1000000" by simp_all
    then have "-2147483648 \<le> ?x mod 1000000" "?x mod 1000000 < 2147483648" by linarith+
    then show "in_int32 (?x mod 1000000)" by (simp add: in_int32_def)
  qed
  have t: "tstamp_to_time ts_len_us t = \<lparr>tv_sec = ?x div 1000000, tv_usec = ?x mod 1000000\<rparr>"
    by (simp add: tstamp_to_time_def Let_def s m u)
  have "cdiv ?x ts_len_us = t" using assms x by (auto simp: cdiv_def sgn_if)
  moreover have "in_int32 t" using assms by (simp add: in_int32_def)
  ultimately show ?thesis unfolding t rtdal_time_to_tstamp_def by (simp add: int_cast_id)
qed

theorem tstamp_roundtrip_witness:
  "rtdal_time_to_tstamp 1000 (tstamp_to_time 1000 123456) = 123456"
  using tstamp_roundtrip [of 1000 123456] by simp

end
