(* ===== verification/Node.thy ===== *)
theory Node
  imports Serial_Codec Kernel
begin

text \<open>
  The node: modules and waveforms that are loaded on a processor (oesr/src/node/nod_module.c,
  nod_waveform.c), and the entry points through which the kernel runs a module
  (oesr/src/oesr_api_static/oesr_static.c).

  An operation works on one waveform together with the kernel context (nstate); the last
  component of the state belongs to the module code. The record node_os holds what is not
  code of the node: allocation results, log creation, the scheduler of the operating
  system (what the other threads do while the caller sleeps, when a task has ended) and the
  module code itself (Init, Run, Stop). Results are optional, None standing for a call that
  does not return.
\<close>

section \<open>Data\<close>

definition oesr_counter_MAX :: nat where "oesr_counter_MAX = 5"

record oesr_counter_t =
  ct_id :: int
  ct_count :: "timeval list"
  ct_variable :: "nat option"

text \<open>cx_addr is the address of the context, which is the argument of the process.\<close>

record oesr_context_t =
  cx_addr :: nat
  cx_tstamp :: int
  cx_counters :: "oesr_counter_t list"
  cx_error :: int
  cx_closed_resources :: int

record nod_module_t =
  nm_parent :: module_t
  nm_process :: "nat option"
  nm_log_level :: int
  nm_output_stdout :: int
  nm_context :: "oesr_context_t option"
  nm_changing_status :: bool
  nm_time_log :: "nat option"
  nm_log :: "nat option"
  nm_init :: bool
  nm_stop :: bool

record nod_waveform_t =
  nw_modules :: "nod_module_t list option"
  nw_status :: waveform_status_t
  nw_modes :: "waveform_mode_t list"
  nw_nof_modes :: int
  nw_nof_modules :: int
  nw_id :: int
  nw_finishing :: int
  nw_tslot_multiplicity :: int
  nw_precach_pipeline :: int
  nw_name :: bytes

record log_cfg =
  lc_log_to_stdout :: int
  lc_modules_en :: bool
  lc_modules_all :: bool
  lc_modules_time_en :: bool
  lc_modules_time_all :: bool
  lc_log_modules_level :: int

text \<open>ns_multiple is the multiplier of the timers that rtdal_timeslot_set writes.\<close>

record 'e nstate =
  ns_w :: nod_waveform_t
  ns_c :: rtdal_context_t
  ns_multiple :: int
  ns_env :: 'e

record 'e node_os =
  os_calloc :: calloc_fun
  os_context_addr :: "nat \<Rightarrow> nat"
  os_loader :: loader
  os_thread :: bool
  os_logs_cfg :: log_cfg
  os_modules_log :: "nat option"
  os_log_new :: "bytes \<Rightarrow> nat option"
  os_float :: float_ops
  os_ts_len_ns :: int
  os_time :: "'e nstate \<Rightarrow> timeval"
  os_sleep :: "int \<Rightarrow> 'e nstate \<Rightarrow> int \<times> 'e nstate"
  os_task_new :: bool
  os_task_wait :: "nat \<Rightarrow> int"
  os_Init :: "nat \<Rightarrow> 'e nstate \<Rightarrow> int \<times> 'e nstate"
  os_Run :: "nat \<Rightarrow> 'e nstate \<Rightarrow> int \<times> 'e nstate"
  os_Stop :: "nat \<Rightarrow> 'e nstate \<Rightarrow> int \<times> 'e nstate"

type_synonym 's orc_fun = "'s \<Rightarrow> (int \<times> 's) option"

text \<open>A chain of calls that may not return, each followed by an early return of -1.\<close>

fun seq_o :: "'s orc_fun list \<Rightarrow> 's orc_fun" where
  "seq_o [] s = Some (0, s)"
| "seq_o (f # fs) s = (case f s of None \<Rightarrow> None | Some (r, s') \<Rightarrow> if r \<noteq> 0 then Some (-1, s') else seq_o fs s')"

abbreviation total :: "'s rc_fun \<Rightarrow> 's orc_fun" where
  "total f s \<equiv> Some (f s)"

definition nmod :: "nod_waveform_t \<Rightarrow> nat \<Rightarrow> nod_module_t" where
  "nmod w i = get_elem i (nw_modules w)"

definition upd_nmod :: "nat \<Rightarrow> (nod_module_t \<Rightarrow> nod_module_t) \<Rightarrow> nod_waveform_t \<Rightarrow> nod_waveform_t" where
  "upd_nmod i f w = w\<lparr>nw_modules := upd_elem i (f (nmod w i)) (nw_modules w)\<rparr>"

abbreviation smod :: "'e nstate \<Rightarrow> nat \<Rightarrow> nod_module_t" where
  "smod s i \<equiv> nmod (ns_w s) i"

abbreviation sparent :: "'e nstate \<Rightarrow> nat \<Rightarrow> module_t" where
  "sparent s i \<equiv> nm_parent (nmod (ns_w s) i)"

abbreviation nof :: "'e nstate \<Rightarrow> nat" where
  "nof s \<equiv> nat (nw_nof_modules (ns_w s))"

definition upd_smod :: "nat \<Rightarrow> (nod_module_t \<Rightarrow> nod_module_t) \<Rightarrow> 'e nstate \<Rightarrow> 'e nstate" where
  "upd_smod i f s = s\<lparr>ns_w := upd_nmod i f (ns_w s)\<rparr>"

definition set_mstatus :: "waveform_status_enum \<Rightarrow> nod_module_t \<Rightarrow> nod_module_t" where
  "set_mstatus st m = m\<lparr>nm_parent := (nm_parent m)\<lparr>m_status := st\<rparr>\<rparr>"

definition set_wstatus :: "waveform_status_enum \<Rightarrow> 'e nstate \<Rightarrow> 'e nstate" where
  "set_wstatus st s = s\<lparr>ns_w := (ns_w s)\<lparr>nw_status := (nw_status (ns_w s))\<lparr>ws_cur_status := st\<rparr>\<rparr>\<rparr>"

definition rtdal_time_slot :: "'e nstate \<Rightarrow> int" where
  "rtdal_time_slot s = c_ts_counter (ns_c s)"

definition rtdal_timeslot_set :: "int \<Rightarrow> 'e nstate \<Rightarrow> 'e nstate" where
  "rtdal_timeslot_set n s = s\<lparr>ns_multiple := n\<rparr>"

section \<open>Modules\<close>

definition counter_zero :: oesr_counter_t where
  "counter_zero = \<lparr>ct_id = 0, ct_count = replicate 3 timeval_zero, ct_variable = None\<rparr>"

definition oesr_context_init :: "nat \<Rightarrow> nod_module_t rc_fun" where
  "oesr_context_init addr m = (if addr = 0 then (-1, m)
     else (0, m\<lparr>nm_context := Some \<lparr>cx_addr = addr, cx_tstamp = 0, cx_counters = replicate oesr_counter_MAX counter_zero,
                  cx_error = 0, cx_closed_resources = 0\<rparr>, nm_changing_status := False\<rparr>))"

text \<open>The argument is the address that pool_alloc returns for the context, 0 for a failure.\<close>

definition nod_module_alloc :: "nat \<Rightarrow> nod_module_t rc_fun" where
  "nod_module_alloc addr m =
     (if addr = 0 then (-1, m\<lparr>nm_context := None\<rparr>)
      else let (r, m1) = oesr_context_init addr m in
        if r \<noteq> 0 then (-1, m1)
        else (0, m1\<lparr>nm_parent := (nm_parent m1)\<lparr>m_execinfo := execinfo_zero\<rparr>\<rparr>))"

definition nod_module_free :: "nod_module_t rc_fun" where
  "nod_module_free m = (0, m\<lparr>nm_context := None\<rparr>)"

definition context_arg :: "nod_module_t \<Rightarrow> nat" where
  "context_arg m = (case nm_context m of None \<Rightarrow> 0 | Some cx \<Rightarrow> cx_addr cx)"

definition suffixed :: "bytes \<Rightarrow> bytes \<Rightarrow> bytes" where
  "suffixed name ext = take 127 (c_str name @ ext)"

text \<open>The assignment of the log handles at the start of nod_module_load.\<close>

definition nod_module_logs :: "'e node_os \<Rightarrow> nod_module_t \<Rightarrow> nod_module_t" where
  "nod_module_logs os m =
     (let cfg = os_logs_cfg os; en = m_log_enable (nm_parent m); name = m_name (nm_parent m);
          m1 = (if lc_modules_en cfg \<and> (odd en \<or> lc_modules_all cfg)
                then m\<lparr>nm_log := (if os_modules_log os \<noteq> None then os_modules_log os
                                   else os_log_new os (suffixed name [46, 108, 111, 103])),
                       nm_log_level := lc_log_modules_level cfg, nm_output_stdout := lc_log_to_stdout cfg\<rparr>
                else m\<lparr>nm_log := None\<rparr>)
      in if lc_modules_time_en cfg \<and> (odd (en div 2) \<or> lc_modules_all cfg \<or> lc_modules_time_all cfg)
         then m1\<lparr>nm_time_log := os_log_new os (suffixed name [46, 116, 105, 109, 101])\<rparr>
         else m1\<lparr>nm_time_log := None\<rparr>)"

definition nod_module_load :: "'e node_os \<Rightarrow> nat \<Rightarrow> 'e nstate orc_fun" where
  "nod_module_load os i s =
     (let m = smod s i;
          attr = \<lparr>pipeline_id = m_processor_idx (nm_parent m), exec_position = m_exec_position (nm_parent m),
                  process_group_id = nw_id (ns_w s), finish_callback = True\<rparr>;
          m1 = (nod_module_logs os m)\<lparr>nm_init := False, nm_stop := False\<rparr>
      in case rtdal_process_new (os_loader os) (os_thread os) attr (context_arg m) (ns_c s) of
           None \<Rightarrow> None
         | Some (pid, c) \<Rightarrow>
             Some (if pid = None then -1 else 0,
                   (upd_smod i (\<lambda>_. m1\<lparr>nm_process := pid\<rparr>) s)\<lparr>ns_c := c\<rparr>))"

definition nod_module_run :: "bool \<Rightarrow> nat \<Rightarrow> 'e nstate rc_fun" where
  "nod_module_run runnable i s = (case nm_process (smod s i) of
      None \<Rightarrow> (-1, s)
    | Some a \<Rightarrow>
        (let (r, h) = (if runnable then rtdal_process_run a else rtdal_process_stop a) (c_processes (ns_c s))
         in (if r \<noteq> 0 then -1 else 0, s\<lparr>ns_c := (ns_c s)\<lparr>c_processes := h\<rparr>\<rparr>)))"

definition nod_module_remove :: "'e node_os \<Rightarrow> nat \<Rightarrow> 'e nstate orc_fun" where
  "nod_module_remove os i s = seq_o
     [\<lambda>s. (case nm_process (smod s i) of
         None \<Rightarrow> Some (0, s)
       | Some a \<Rightarrow> map_option (\<lambda>(r, c). (r, s\<lparr>ns_c := c\<rparr>)) (rtdal_process_remove (os_loader os) a (ns_c s))),
      total (\<lambda>s. let (r, p) = module_free (sparent s i) in (r, upd_smod i (\<lambda>m. m\<lparr>nm_parent := p\<rparr>) s)),
      total (\<lambda>s. let (r, m) = nod_module_free (smod s i) in (r, upd_smod i (\<lambda>_. m) s)),
      total (\<lambda>s. (0, upd_smod i (\<lambda>m. m\<lparr>nm_changing_status := False, nm_parent := (nm_parent m)\<lparr>m_id := 0\<rparr>\<rparr>) s))] s"

definition call_init :: "'e node_os \<Rightarrow> nat \<Rightarrow> 'e nstate rc_fun" where
  "call_init os i s =
     (let (n, s1) = os_Init os i (upd_smod i (\<lambda>m. m\<lparr>nm_changing_status := True\<rparr>) s) in
      if n < 0 then (-1, s1) else if n = 0 then (0, s1)
      else (1, upd_smod i (\<lambda>m. set_mstatus INIT (m\<lparr>nm_changing_status := False\<rparr>)) s1))"

definition call_stop :: "'e node_os \<Rightarrow> nat \<Rightarrow> 'e nstate rc_fun" where
  "call_stop os i s =
     (let (n, s1) = os_Stop os i (upd_smod i (\<lambda>m. m\<lparr>nm_changing_status := True\<rparr>) s) in
      if n \<noteq> 0 then (-1, s1)
      else (0, upd_smod i (\<lambda>m. set_mstatus STOP (m\<lparr>nm_changing_status := False\<rparr>)) s1))"

definition nod_module_init :: "'e node_os \<Rightarrow> nat \<Rightarrow> 'e nstate rc_fun" where
  "nod_module_init os i s = (if \<not> nm_init (smod s i) then (-1, s) else call_init os i s)"

definition nod_module_stop :: "'e node_os \<Rightarrow> nat \<Rightarrow> 'e nstate rc_fun" where
  "nod_module_stop os i s = (if \<not> nm_stop (smod s i) then (-1, s)
     else let (r, s1) = call_stop os i s in (if r \<noteq> 0 then -1 else 0, s1))"

text \<open>Index of the first variable with the name; the index of the first free variable.\<close>

definition variables_of :: "module_t \<Rightarrow> variable_t list" where
  "variables_of m = elems (m_variables m) (m_nof_variables m)"

definition nod_module_variable_get :: "nod_module_t \<Rightarrow> bytes \<Rightarrow> nat option" where
  "nod_module_variable_get m name =
     (let vs = variables_of (nm_parent m); i = find_idx (\<lambda>v. c_str name = c_str (v_name v)) vs
      in if i = length vs then None else Some i)"

text \<open>strncat(dest, src, n) on a 64 byte array: at most n characters of src and the final zero.\<close>

definition strncat :: "bytes \<Rightarrow> bytes \<Rightarrow> nat \<Rightarrow> bytes" where
  "strncat dst src n = memcpy_at dst (length (c_str dst)) (take n (c_str src) @ [0])"

definition nod_module_variable_create :: "calloc_fun \<Rightarrow> bytes \<Rightarrow> int \<Rightarrow> nod_module_t \<Rightarrow> nat option \<times> nod_module_t" where
  "nod_module_variable_create calloc_ok name sz m =
     (let vs = variables_of (nm_parent m); i = find_idx (\<lambda>v. v_id v = 0) vs in
      if i = length vs then (None, m)
      else let v = vs ! i;
               v1 = (if sz \<noteq> 0 then snd (variable_alloc calloc_ok (m_nof_modes (nm_parent m)) (v\<lparr>v_size := sz\<rparr>)) else v);
               v2 = v1\<lparr>v_id := int i + 1, v_name := strncat (v_name v1) name (STR_LEN - 1 - min STR_LEN (length (c_str name)))\<rparr>
           in (Some i, m\<lparr>nm_parent := (nm_parent m)\<lparr>m_variables := upd_elem i v2 (m_variables (nm_parent m))\<rparr>\<rparr>))"

definition nod_module_execinfo_add_sample :: "float_ops \<Rightarrow> int \<Rightarrow> int \<Rightarrow> int \<Rightarrow> execinfo_t \<Rightarrow> execinfo_t" where
  "nod_module_execinfo_add_sample fo ts_len_ns tstamp ctx_tstamp e =
     (let cpu = int_cast (tv_usec (e_t_exec e ! 0));
          r0 = int_cast (tv_usec (e_t_exec e ! 2)); s0 = int_cast (tv_usec (e_t_exec e ! 1));
          relinquish = (if ts_len_ns \<noteq> 0 then crem r0 (cdiv ts_len_ns 1000) else r0);
          start = (if ts_len_ns \<noteq> 0 then crem s0 (cdiv ts_len_ns 1000) else s0);
          e1 = (if e_start_ts e = 0 then e\<lparr>e_start_ts := tstamp\<rparr> else e);
          e2 = (if cpu > e_max_exec_us e1 \<or> ctx_tstamp > e_max_exec_ts e1 + 100
                then e1\<lparr>e_max_exec_us := cpu, e_max_exec_ts := ctx_tstamp\<rparr> else e1);
          e3 = e2\<lparr>e_module_ts := ctx_tstamp,
                  e_max_rel_us := (if relinquish > e_max_rel_us e2 then relinquish else e_max_rel_us e2),
                  e_max_start_us := (if start > e_max_start_us e2 then start else e_max_start_us e2)\<rparr>;
          k = tstamp - e_start_ts e3 + 1;
          mean = (\<lambda>old x. f_add fo old (f_div fo (f_sub fo (f_of_int fo x) old) (f_of_int fo k)))
      in if k > 0
         then e3\<lparr>e_mean_exec_us := mean (e_mean_exec_us e3) cpu, e_mean_rel_us := mean (e_mean_rel_us e3) relinquish,
                 e_mean_start_us := mean (e_mean_start_us e3) start\<rparr>
         else e3)"

section \<open>Waveforms\<close>

definition nod_module_zero :: nod_module_t where
  "nod_module_zero = \<lparr>nm_parent = module_zero, nm_process = None, nm_log_level = 0, nm_output_stdout = 0, nm_context = None,
     nm_changing_status = False, nm_time_log = None, nm_log = None, nm_init = False, nm_stop = False\<rparr>"

definition sizeof_nod_module_t :: nat where "sizeof_nod_module_t = 512"

definition nod_waveform_alloc :: "calloc_fun \<Rightarrow> int \<Rightarrow> nod_waveform_t rc_fun" where
  "nod_waveform_alloc calloc_ok nof_modules w =
     (case pool_alloc calloc_ok nof_modules sizeof_nod_module_t nod_module_zero of
        None \<Rightarrow> (-1, w\<lparr>nw_modules := None\<rparr>)
      | Some ms \<Rightarrow> (0, w\<lparr>nw_modules := Some ms, nw_nof_modules := nof_modules\<rparr>))"

definition nod_waveform_free :: "nod_waveform_t rc_fun" where
  "nod_waveform_free w = (if pool_free (nw_modules w) \<noteq> 0 then (-1, w) else (0, w\<lparr>nw_modules := None, nw_nof_modules := 0\<rparr>))"

definition nod_waveform_run :: "bool \<Rightarrow> 'e nstate rc_fun" where
  "nod_waveform_run runnable s = seq_rc (map (nod_module_run runnable) [0..<nof s]) s"

definition DEFAULT_SLEEP_US :: int where "DEFAULT_SLEEP_US = 50000"
definition DEFAULT_TIMEOUT :: nat where "DEFAULT_TIMEOUT = 200"

text \<open>The polling loop of nod_waveform_load with n more trials; the result tells whether j stayed -1.\<close>

fun load_wait :: "'e node_os \<Rightarrow> nat \<Rightarrow> 'e nstate \<Rightarrow> bool \<times> 'e nstate" where
  "load_wait os 0 s = (False, s)"
| "load_wait os (Suc n) s =
     (let s1 = snd (os_sleep os DEFAULT_SLEEP_US s) in
      if (\<forall>i < nof s1. m_status (sparent s1 i) = LOADED) then (True, s1)
      else load_wait os n s1)"

definition nod_waveform_load :: "'e node_os \<Rightarrow> 'e nstate orc_fun" where
  "nod_waveform_load os s = seq_o
     (map (nod_module_load os) [0..<nof s] @
      [total (nod_waveform_run True),
       total (\<lambda>s. let (ok, s1) = load_wait os DEFAULT_TIMEOUT s in (if ok then 0 else -1, s1))]) s"

definition nod_waveform_remove :: "'e node_os \<Rightarrow> 'e nstate orc_fun" where
  "nod_waveform_remove os s = seq_o
     (map (\<lambda>i s. if m_id (sparent s i) \<noteq> 0 then nod_module_remove os i s else Some (0, s)) [0..<nof s] @
      [total (\<lambda>s. let (r, w) = nod_waveform_free (ns_w s) in (r, s\<lparr>ns_w := w\<rparr>)),
       total (\<lambda>s. (0, (set_wstatus STOP s)\<lparr>ns_w := (ns_w (set_wstatus STOP s))\<lparr>nw_id := 0\<rparr>\<rparr>))]) s"

text \<open>The thread that stops the modules: whether it ends with a non-null value.\<close>

definition nod_waveform_status_stop_thread :: "'e node_os \<Rightarrow> 'e nstate \<Rightarrow> bool \<times> 'e nstate" where
  "nod_waveform_status_stop_thread os s =
     (let (r, s1) = seq_rc (map (\<lambda>i s. if m_status (sparent s i) \<noteq> STOP then nod_module_stop os i s else (0, s)) [0..<nof s]) s
      in (r = 0, s1))"

text \<open>The polling loop for a task with n more trials. The task runs while the caller sleeps;
  its effect is placed at the sleep after which it is found ended.\<close>

datatype task_end = TaskSleepError | TaskError | TaskTimeout | TaskDone bool

fun task_poll :: "'e node_os \<Rightarrow> bool \<Rightarrow> ('e nstate \<Rightarrow> (bool \<times> 'e nstate) option) \<Rightarrow> nat \<Rightarrow> 'e nstate
    \<Rightarrow> (task_end \<times> 'e nstate) option" where
  "task_poll os strict thread 0 s = Some (TaskTimeout, s)"
| "task_poll os strict thread (Suc n) s =
     (let (r, s1) = os_sleep os DEFAULT_SLEEP_US s; w = os_task_wait os (DEFAULT_TIMEOUT - Suc n) in
      if strict \<and> r \<noteq> 0 then Some (TaskSleepError, s1)
      else if w < 0 then Some (TaskError, s1)
      else if w = 0 then task_poll os strict thread n s1
      else map_option (\<lambda>(b, s2). (TaskDone b, s2)) (thread s1))"

definition nod_waveform_status_stop :: "'e node_os \<Rightarrow> 'e nstate orc_fun" where
  "nod_waveform_status_stop os s = seq_o
     [total (nod_waveform_run False),
      total (\<lambda>s. (0, set_wstatus STOP (snd (os_sleep os DEFAULT_SLEEP_US s)))),
      (\<lambda>s. if \<not> os_task_new os then Some (-1, s)
           else map_option (\<lambda>(e, s1). (0, s1))
             (task_poll os False (\<lambda>s. Some (nod_waveform_status_stop_thread os s)) DEFAULT_TIMEOUT s)),
      nod_waveform_remove os] s"

definition nod_waveform_reset_pipeline :: "('e nstate \<Rightarrow> cptr \<Rightarrow> 'e nstate) \<Rightarrow> 'e node_os \<Rightarrow> 'e nstate \<Rightarrow> 'e nstate" where
  "nod_waveform_reset_pipeline itf_reset os s =
     (let step = (\<lambda>i s.
            let outs = elems (m_outputs (sparent s i)) (m_nof_outputs (sparent s i));
                s1 = foldl itf_reset s (filter (\<lambda>h. h \<noteq> 0) (map i_hw_itf outs));
                s2 = upd_smod i (\<lambda>m. m\<lparr>nm_context := map_option (\<lambda>cx. cx\<lparr>cx_tstamp := 0\<rparr>) (nm_context m)\<rparr>) s1
            in (case nm_process (smod s2 i) of
                  None \<Rightarrow> s2
                | Some a \<Rightarrow> s2\<lparr>ns_c := (ns_c s2)\<lparr>c_processes := snd (rtdal_process_seterror a FINISH_OK (c_processes (ns_c s2)))\<rparr>\<rparr>));
          s1 = fold step [0..<nof s] s
      in snd (nod_waveform_run True (snd (os_sleep os 3000000 s1))))"

text \<open>The thread that initialises the modules; None when it never ends.\<close>

partial_function (option) init_loop ::
  "'e node_os \<Rightarrow> nat \<Rightarrow> nat \<Rightarrow> nat \<Rightarrow> 'e nstate \<Rightarrow> (bool \<times> 'e nstate) option" where
  "init_loop os i nof_trials nof_initiated s =
     (if int nof_initiated < nw_nof_modules (ns_w s) then
        let (n, s1) = (if m_status (sparent s i) \<noteq> INIT then nod_module_init os i s else (0, s));
            k = (if n > 0 then nof_initiated + 1 else nof_initiated)
        in if n < 0 then Some (False, s1)
           else if int i + 1 = nw_nof_modules (ns_w s1)
           then (if nof_trials + 1 = 3 then Some (False, s1) else init_loop os 0 (nof_trials + 1) k s1)
           else init_loop os (i + 1) nof_trials k s1
      else Some (True, s))"

declare init_loop.simps [code]

definition nod_waveform_status_init_thread :: "'e node_os \<Rightarrow> 'e nstate \<Rightarrow> (bool \<times> 'e nstate) option" where
  "nod_waveform_status_init_thread os s = init_loop os 0 0 0 s"

definition nod_waveform_status_init :: "'e node_os \<Rightarrow> 'e nstate orc_fun" where
  "nod_waveform_status_init os s =
     (let s0 = set_wstatus INIT s in
      if \<not> os_task_new os then Some (-1, s0)
      else case task_poll os True (nod_waveform_status_init_thread os) DEFAULT_TIMEOUT s0 of
          None \<Rightarrow> None
        | Some (TaskSleepError, s1) \<Rightarrow> Some (-1, s1)
        | Some (TaskError, s1) \<Rightarrow> Some (-1, s1)
        | Some (TaskTimeout, s1) \<Rightarrow> Some (0, s1)
        | Some (TaskDone True, s1) \<Rightarrow> Some (0, s1)
        | Some (TaskDone False, s1) \<Rightarrow> map_option (\<lambda>(r, s2). (-1, s2)) (nod_waveform_remove os s1))"

definition poke_int :: "int \<Rightarrow> bytes option list \<Rightarrow> bytes option list" where
  "poke_int x vals = vals[0 := map_option (\<lambda>b. int_bytes x @ drop 4 b) (vals ! 0)]"

definition set_source :: "nat \<Rightarrow> int \<Rightarrow> nod_module_t \<Rightarrow> nod_module_t" where
  "set_source k x m = m\<lparr>nm_parent := (nm_parent m)\<lparr>m_variables := upd_elem k
     ((get_elem k (m_variables (nm_parent m)))\<lparr>v_init_value := poke_int x (v_init_value (get_elem k (m_variables (nm_parent m))))\<rparr>)
     (m_variables (nm_parent m))\<rparr>\<rparr>"

definition set_wtime :: "'e nstate \<Rightarrow> 'e nstate" where
  "set_wtime s = s\<lparr>ns_w := (ns_w s)\<lparr>nw_status := (nw_status (ns_w s))\<lparr>ws_next_timeslot := rtdal_time_slot s\<rparr>\<rparr>\<rparr>"

definition nod_waveform_precach_pipeline :: "'e node_os \<Rightarrow> 'e nstate \<Rightarrow> 'e nstate" where
  "nod_waveform_precach_pipeline os s =
     (let s1 = set_wstatus RUN (set_wtime (rtdal_timeslot_set 10 s));
          s2 = snd (os_sleep os 2000000 s1);
          s3 = (case nod_module_variable_get (smod s2 0) [101, 110, 97, 98, 108, 101, 100] of
                  None \<Rightarrow> s2
                | Some k \<Rightarrow> upd_smod 0 (set_source k 1) (snd (os_sleep os 1000000 (upd_smod 0 (set_source k 0) s2))));
          s4 = set_wstatus PAUSE (set_wtime s3)
      in fold (\<lambda>i. upd_smod i (\<lambda>m. m\<lparr>nm_parent := (nm_parent m)\<lparr>m_execinfo := execinfo_zero\<rparr>\<rparr>)) [0..<nof s4] s4)"

definition nod_waveform_status_new :: "'e node_os \<Rightarrow> waveform_status_t \<Rightarrow> 'e nstate orc_fun" where
  "nod_waveform_status_new os st s =
     (let st1 = (if ws_next_timeslot st = 0 then st\<lparr>ws_next_timeslot := rtdal_time_slot s\<rparr> else st) in
      case ws_cur_status st1 of
        INIT \<Rightarrow>
          (case nod_waveform_status_init os s of
             None \<Rightarrow> None
           | Some (r, s1) \<Rightarrow>
               if r \<noteq> 0 then Some (-1, s1)
               else if nw_precach_pipeline (ns_w s1) \<noteq> 0 then Some (0, nod_waveform_precach_pipeline os s1)
               else Some (0, s1))
      | STOP \<Rightarrow> seq_o [total (nod_waveform_run False), nod_waveform_status_stop os] s
      | _ \<Rightarrow>
          (let s1 = rtdal_timeslot_set 1 s;
               s2 = (if ws_cur_status (nw_status (ns_w s1)) = STEP
                     then fold (\<lambda>i. upd_smod i (\<lambda>m. set_mstatus PAUSE (m\<lparr>nm_changing_status := False\<rparr>))) [0..<nof s1] s1
                     else s1);
               s3 = snd (nod_waveform_run True s2);
               s4 = fold (\<lambda>i. upd_smod i (\<lambda>m. m\<lparr>nm_changing_status := False\<rparr>)) [0..<nof s3] s3
           in Some (0, s4\<lparr>ns_w := (ns_w s4)\<lparr>nw_status := st1\<rparr>\<rparr>)))"

definition nmodules_of :: "nod_waveform_t \<Rightarrow> nod_module_t list" where
  "nmodules_of w = elems (nw_modules w) (nw_nof_modules w)"

definition nod_waveform_find_module_id :: "nod_waveform_t \<Rightarrow> int \<Rightarrow> nat option" where
  "nod_waveform_find_module_id w module_id =
     (let ms = nmodules_of w; i = find_idx (\<lambda>m. m_id (nm_parent m) = module_id) ms
      in if i = length ms then None else Some i)"

definition nod_waveform_find_module_name :: "nod_waveform_t \<Rightarrow> bytes \<Rightarrow> nat option" where
  "nod_waveform_find_module_name w name =
     (let ms = nmodules_of w; i = find_idx (\<lambda>m. c_str (m_name (nm_parent m)) = c_str name) ms
      in if i = length ms then None else Some i)"

section \<open>Entry points of a module\<close>

text \<open>The change of the status of a module at the start of a cycle.\<close>

definition cycle_status :: "nat \<Rightarrow> 'e nstate \<Rightarrow> 'e nstate" where
  "cycle_status i s =
     (let st = ws_cur_status (nw_status (ns_w s));
          s1 = (if st = LOADED \<and> m_status (sparent s i) = PARSED
                then upd_smod i (\<lambda>m. set_mstatus LOADED (m\<lparr>nm_init := True, nm_stop := True\<rparr>)) s else s)
      in if \<not> nm_changing_status (smod s1 i) \<and> m_status (sparent s1 i) \<noteq> st
            \<and> ws_next_timeslot (nw_status (ns_w s1)) \<le> rtdal_time_slot s1
         then (case st of
             STEP \<Rightarrow> upd_smod i (set_mstatus (if m_status (sparent s1 i) = RUN then STEP else RUN)) s1
           | PAUSE \<Rightarrow> upd_smod i (set_mstatus PAUSE) s1
           | RUN \<Rightarrow> upd_smod i (set_mstatus RUN) s1
           | _ \<Rightarrow> s1)
         else s1)"

definition upd_execinfo :: "(execinfo_t \<Rightarrow> execinfo_t) \<Rightarrow> nod_module_t \<Rightarrow> nod_module_t" where
  "upd_execinfo f m = m\<lparr>nm_parent := (nm_parent m)\<lparr>m_execinfo := f (m_execinfo (nm_parent m))\<rparr>\<rparr>"

definition proc_do :: "(nat \<Rightarrow> store \<Rightarrow> int \<times> store) \<Rightarrow> nat \<Rightarrow> 'e nstate \<Rightarrow> 'e nstate" where
  "proc_do f i s = (case nm_process (smod s i) of
      None \<Rightarrow> s
    | Some a \<Rightarrow> s\<lparr>ns_c := (ns_c s)\<lparr>c_processes := snd (f a (c_processes (ns_c s)))\<rparr>\<rparr>)"

fun run_times :: "'e node_os \<Rightarrow> nat \<Rightarrow> nat \<Rightarrow> 'e nstate \<Rightarrow> 'e nstate" where
  "run_times os i 0 s = s"
| "run_times os i (Suc n) s =
     (let (r, s1) = os_Run os i s in
      run_times os i n (if r \<noteq> 0 then proc_do (\<lambda>a. rtdal_process_seterror a RUNERROR) i s1 else s1))"

definition exec_interval :: "execinfo_t \<Rightarrow> execinfo_t" where
  "exec_interval e = e\<lparr>e_t_exec := (e_t_exec e)[0 := rtdal_time_interval (e_t_exec e ! 1) (e_t_exec e ! 2)]\<rparr>"

definition run_cycle :: "'e node_os \<Rightarrow> nat \<Rightarrow> 'e nstate rc_fun" where
  "run_cycle os i s =
     (let s1 = cycle_status i s in
      if \<not> nm_changing_status (smod s1 i) \<and> m_status (sparent s1 i) = RUN
      then
        let s2 = upd_smod i (upd_execinfo (\<lambda>e. e\<lparr>e_t_exec := (e_t_exec e)[1 := os_time os s1]\<rparr>)) s1;
            s3 = run_times os i (nat (nw_tslot_multiplicity (ns_w s2))) s2;
            s4 = upd_smod i (upd_execinfo (\<lambda>e. exec_interval (e\<lparr>e_t_exec := (e_t_exec e)[2 := os_time os s3]\<rparr>))) s3;
            s5 = upd_smod i (\<lambda>m. upd_execinfo (nod_module_execinfo_add_sample (os_float os) (os_ts_len_ns os)
                     (rtdal_time_slot s4) (case nm_context m of None \<Rightarrow> 0 | Some cx \<Rightarrow> cx_tstamp cx)) m) s4
        in (0, upd_smod i (\<lambda>m. m\<lparr>nm_context := map_option (\<lambda>cx. cx\<lparr>cx_tstamp := cx_tstamp cx + 1\<rparr>) (nm_context m)\<rparr>) s5)
      else (0, proc_do rtdal_process_stop i s1))"

text \<open>The callback for a module whose process failed. After the waveform is removed the code
  reads the process handle from the released module structure; the model reads the value that
  it held.\<close>

definition nod_module_finish_callback :: "'e node_os \<Rightarrow> nat \<Rightarrow> 'e nstate \<Rightarrow> 'e nstate option" where
  "nod_module_finish_callback os i s = (case nm_process (smod s i) of
      None \<Rightarrow> None
    | Some a \<Rightarrow>
        let code = rtdal_process_geterror a (c_processes (ns_c s)) in
        if code \<notin> {SIG_RECV, RTFAULT, RUNERROR} then Some s
        else let (r, s1) = nod_waveform_run False s in
          if r \<noteq> 0 then Some s1
          else
            let s2 = (if rtdal_process_geterror a (c_processes (ns_c s1)) \<in> {RUNERROR, RTFAULT}
                      then proc_do (\<lambda>a. rtdal_process_seterror a FINISH_OK) i s1 else s1)
            in Option.bind (nod_waveform_status_stop os s2) (\<lambda>(r, s3).
                 map_option (\<lambda>(_, grp). s3\<lparr>ns_c := (ns_c s3)\<lparr>c_group := grp\<rparr>\<rparr>)
                   (rtdal_process_group_notified a (c_processes (ns_c s3)) (c_group (ns_c s3)))))"

end
