(* ===== verification/Node_Life.thy ===== *)
theory Node_Life
  imports Node
begin

text \<open>
  Properties of the life of a waveform on a node: initialisation ends, a step request runs one
  cycle, loading gives every module a process on its pipeline, removal takes the processes out
  again.
\<close>

section \<open>Access to modules\<close>

definition node_wf :: "nod_waveform_t \<Rightarrow> bool" where
  "node_wf w \<longleftrightarrow> (case nw_modules w of None \<Rightarrow> nw_nof_modules w = 0 | Some ms \<Rightarrow> nw_nof_modules w = int (length ms))"

named_theorems node_simps \<open>access to and update of the modules of a waveform\<close>

lemma nmod_upd [node_simps]:
  assumes "node_wf w" "i < nat (nw_nof_modules w)"
  shows "nmod (upd_nmod i f w) j = (if i = j then f (nmod w i) else nmod w j)"
  using assms by (auto simp: nmod_def upd_nmod_def get_elem_def upd_elem_def node_wf_def split: option.splits)

lemma upd_nmod_fields [simp]:
  "nw_status (upd_nmod i f w) = nw_status w" "nw_nof_modules (upd_nmod i f w) = nw_nof_modules w"
  "nw_id (upd_nmod i f w) = nw_id w" "nw_tslot_multiplicity (upd_nmod i f w) = nw_tslot_multiplicity w"
  "nw_modes (upd_nmod i f w) = nw_modes w" "nw_name (upd_nmod i f w) = nw_name w"
  "nw_nof_modes (upd_nmod i f w) = nw_nof_modes w" "nw_precach_pipeline (upd_nmod i f w) = nw_precach_pipeline w"
  by (simp_all add: upd_nmod_def)

lemma node_wf_upd [simp]: "node_wf (upd_nmod i f w) = node_wf w"
  by (auto simp: node_wf_def upd_nmod_def upd_elem_def split: option.splits)

lemma upd_smod_fields [simp]:
  "ns_w (upd_smod i f s) = upd_nmod i f (ns_w s)" "ns_c (upd_smod i f s) = ns_c s"
  "ns_multiple (upd_smod i f s) = ns_multiple s" "ns_env (upd_smod i f s) = ns_env s"
  by (simp_all add: upd_smod_def)

lemma set_mstatus_fields [simp]:
  "m_status (nm_parent (set_mstatus st m)) = st" "nm_init (set_mstatus st m) = nm_init m"
  "nm_stop (set_mstatus st m) = nm_stop m" "nm_process (set_mstatus st m) = nm_process m"
  "m_id (nm_parent (set_mstatus st m)) = m_id (nm_parent m)" "nm_changing_status (set_mstatus st m) = nm_changing_status m"
  "nm_context (set_mstatus st m) = nm_context m"
  by (simp_all add: set_mstatus_def)

section \<open>Initialisation\<close>

text \<open>What the node relies on: module code reaches its module through the API and leaves the
  fields that the node manages as they are.\<close>

definition control :: "nod_module_t \<Rightarrow> waveform_status_enum \<times> bool \<times> bool \<times> nat option \<times> int \<times> bool \<times> int option" where
  "control m = (m_status (nm_parent m), nm_init m, nm_stop m, nm_process m, m_id (nm_parent m), nm_changing_status m,
     map_option cx_tstamp (nm_context m))"

definition same_control :: "'e nstate \<Rightarrow> 'e nstate \<Rightarrow> bool" where
  "same_control s s1 \<longleftrightarrow> nw_nof_modules (ns_w s1) = nw_nof_modules (ns_w s) \<and> nw_status (ns_w s1) = nw_status (ns_w s)
     \<and> node_wf (ns_w s1) \<and> rtdal_time_slot s \<le> rtdal_time_slot s1
     \<and> (\<forall>j < nof s. control (smod s1 j) = control (smod s j))"

definition module_code_ok :: "'e node_os \<Rightarrow> bool" where
  "module_code_ok os \<longleftrightarrow> (\<forall>i s. node_wf (ns_w s) \<longrightarrow> same_control s (snd (os_Init os i s))
     \<and> same_control s (snd (os_Run os i s)) \<and> same_control s (snd (os_Stop os i s)))"

definition initiated :: "'e nstate \<Rightarrow> nat set" where
  "initiated s = {j. j < nof s \<and> m_status (sparent s j) = INIT}"

lemma finite_initiated [simp]: "finite (initiated s)"
  by (simp add: initiated_def)

lemma all_initiated: "card (initiated s) = nof s \<longleftrightarrow> (\<forall>i < nof s. m_status (sparent s i) = INIT)"
proof -
  have sub: "initiated s \<subseteq> {..<nof s}" by (auto simp: initiated_def)
  have "card (initiated s) = card {..<nof s} \<longleftrightarrow> initiated s = {..<nof s}"
    using card_subset_eq [OF finite_lessThan sub] by metis
  moreover have "initiated s = {..<nof s} \<longleftrightarrow> (\<forall>i < nof s. m_status (sparent s i) = INIT)" by (auto simp: initiated_def)
  ultimately show ?thesis by (simp only: card_lessThan)
qed

lemma initiated_le: "card (initiated s) \<le> nof s"
  using card_mono [of "{..<nof s}" "initiated s"] by (auto simp: initiated_def)

lemma module_init_step:
  assumes os: "module_code_ok os" and wf: "node_wf (ns_w s)" and i: "i < nof s" "m_status (sparent s i) \<noteq> INIT"
    and st: "nod_module_init os i s = (n, s1)"
  shows "node_wf (ns_w s1)" "nw_nof_modules (ns_w s1) = nw_nof_modules (ns_w s)"
    "initiated s1 = (if n > 0 then insert i (initiated s) else initiated s)"
proof -
  let ?s = "upd_smod i (\<lambda>m. m\<lparr>nm_changing_status := True\<rparr>) s"
  obtain r s2 where r: "os_Init os i ?s = (r, s2)" by (cases "os_Init os i ?s")
  have wf1: "node_wf (ns_w ?s)" using wf by simp
  have "same_control ?s (snd (os_Init os i ?s))" using os wf1 unfolding module_code_ok_def by blast
  then have c: "same_control ?s s2" by (simp only: r snd_conv)
  have pre: "m_status (sparent ?s j) = m_status (sparent s j)" for j using wf i by (simp add: node_simps)
  have s2: "node_wf (ns_w s2)" "nw_nof_modules (ns_w s2) = nw_nof_modules (ns_w s)"
    and st2: "\<And>j. j < nof s \<Longrightarrow> m_status (sparent s2 j) = m_status (sparent s j)"
    using c pre by (auto simp: same_control_def control_def)
  have eq: "(n, s1) = (if \<not> nm_init (smod s i) then (-1, s) else if r < 0 then (-1, s2) else if r = 0 then (0, s2)
      else (1, upd_smod i (\<lambda>m. set_mstatus INIT (m\<lparr>nm_changing_status := False\<rparr>)) s2))"
    using st unfolding nod_module_init_def call_init_def by (simp only: r prod.case Let_def)
  consider "s1 = s" "n = -1" | "s1 = s2" "n \<le> 0" | "n = 1" "s1 = upd_smod i (\<lambda>m. set_mstatus INIT (m\<lparr>nm_changing_status := False\<rparr>)) s2"
    using eq by (simp split: if_split_asm)
  then show "node_wf (ns_w s1)" "nw_nof_modules (ns_w s1) = nw_nof_modules (ns_w s)"
    "initiated s1 = (if n > 0 then insert i (initiated s) else initiated s)"
    using wf i s2 st2 by (cases; auto simp: initiated_def node_simps)+
qed

lemma init_loop_ends:
  assumes os: "module_code_ok os"
  shows "node_wf (ns_w s) \<Longrightarrow> i < nof s \<or> nof s = 0 \<Longrightarrow> t < 3 \<Longrightarrow> k = card (initiated s) \<Longrightarrow>
    \<exists>b s'. init_loop os i t k s = Some (b, s') \<and> node_wf (ns_w s') \<and> nof s' = nof s
      \<and> (b \<longrightarrow> (\<forall>j < nof s. m_status (sparent s' j) = INIT))"
proof (induction "(3 - t) * nof s - i" arbitrary: i t k s rule: less_induct)
  case less
  show ?case
  proof (cases "int k < nw_nof_modules (ns_w s)")
    case False
    then have "card (initiated s) = nof s" using less.prems initiated_le [of s] by linarith
    then have "\<forall>j < nof s. m_status (sparent s j) = INIT" by (simp only: all_initiated)
    moreover have "init_loop os i t k s = Some (True, s)" using False by (subst init_loop.simps) simp
    ultimately show ?thesis using less.prems by blast
  next
    case True
    then have i: "i < nof s" using less.prems by auto
    define r where "r = (if m_status (sparent s i) \<noteq> INIT then nod_module_init os i s else (0, s))"
    obtain n s1 where n: "r = (n, s1)" by (cases r)
    let ?k = "if n > 0 then k + 1 else k"
    have step: "node_wf (ns_w s1) \<and> nw_nof_modules (ns_w s1) = nw_nof_modules (ns_w s) \<and> ?k = card (initiated s1)"
    proof (cases "m_status (sparent s i) = INIT")
      case True
      then show ?thesis using n less.prems by (simp add: r_def)
    next
      case False
      then have "i \<notin> initiated s" "nod_module_init os i s = (n, s1)" using n by (simp_all add: initiated_def r_def)
      then show ?thesis using module_init_step [OF os less.prems(1) i False] less.prems(4) by simp
    qed
    then have nofs: "nof s1 = nof s" by simp
    have unf: "init_loop os i t k s = (if n < 0 then Some (False, s1)
        else if int i + 1 = nw_nof_modules (ns_w s)
        then (if t + 1 = 3 then Some (False, s1) else init_loop os 0 (t + 1) ?k s1) else init_loop os (i + 1) t ?k s1)"
      using True step n by (subst init_loop.simps) (simp add: r_def [symmetric])
    have i1: "i + 1 = nof s" if "int i + 1 = nw_nof_modules (ns_w s)" using that by simp
    have meas: "(3 - (t + 1)) * nof s < (3 - t) * nof s - i"
    proof -
      have "3 - t = Suc (3 - (t + 1))" using less.prems by simp
      then show ?thesis using i by simp
    qed
    show ?thesis
    proof (cases "n < 0 \<or> int i + 1 = nw_nof_modules (ns_w s) \<and> t + 1 = 3")
      case True
      then have "init_loop os i t k s = Some (False, s1)" using unf by auto
      then show ?thesis using step nofs by blast
    next
      case False
      show ?thesis
      proof (cases "int i + 1 = nw_nof_modules (ns_w s)")
        case True
        then have "init_loop os i t k s = init_loop os 0 (t + 1) ?k s1" using unf False by simp
        moreover have "(3 - (t + 1)) * nof s1 - 0 < (3 - t) * nof s - i" using meas nofs by simp
        ultimately show ?thesis using less.hyps [of "t + 1" s1 0 ?k] step nofs i True False less.prems(3) by auto
      next
        case False2: False
        then have "i + 1 < nof s" using i by linarith
        moreover have "init_loop os i t k s = init_loop os (i + 1) t ?k s1" using unf False False2 by simp
        moreover have "(3 - t) * nof s1 - (i + 1) < (3 - t) * nof s - i" using meas unfolding nofs by linarith
        ultimately show ?thesis using less.hyps [of t s1 "i + 1" ?k] step nofs i False2 less.prems(3) by auto
      qed
    qed
  qed
qed

section \<open>Example\<close>

definition ex_process :: rtdal_process_t where
  "ex_process = \<lparr>p_pid = 0, p_pipeline = None, p_arg = 0,
     p_attributes = \<lparr>pipeline_id = 0, exec_position = 0, process_group_id = 0, finish_callback = False\<rparr>,
     p_is_running = False, p_runnable = False, p_run_point = False, p_finish_code = FINISH_OK, p_next = None\<rparr>"

definition ex_context :: rtdal_context_t where
  "ex_context = \<lparr>c_processes = (\<lambda>_. ex_process),
     c_pipelines = [\<lparr>pl_id = 0, pl_first_process = None, pl_finished = True, pl_nof_processes = 0, pl_rtfaults = 0,
       pl_ts_counter = 0, pl_enable = True, pl_running_process = None, pl_running_process_idx = 0\<rparr>],
     c_nof_cores = 1, c_scheduling = SCHEDULING_PIPELINE,
     c_rt_cfg = \<lparr>exec_correct = False, miss_correct = False, exec_kill = False, miss_kill = False, do_rtcontrol = False\<rparr>,
     c_periodic = replicate rtdal_periodic_MAX \<lparr>pe_callback = None, pe_period = 0, pe_counter = 0\<rparr>,
     c_nof_periodic = 0, c_ts_counter = 5, c_group = (\<lambda>_. False)\<rparr>"

definition nod_waveform_zero :: nod_waveform_t where
  "nod_waveform_zero = \<lparr>nw_modules = None, nw_status = \<lparr>ws_cur_status = STOP, ws_next_timeslot = 0\<rparr>,
     nw_modes = replicate modes_MAX waveform_mode_zero, nw_nof_modes = 0, nw_nof_modules = 0, nw_id = 0,
     nw_finishing = 0, nw_tslot_multiplicity = 0, nw_precach_pipeline = 0, nw_name = str_zero\<rparr>"

text \<open>A platform on which everything succeeds; the list in the state holds the values that the
  next calls of Init return.\<close>

definition ex_os :: "int list node_os" where
  "ex_os = \<lparr>os_calloc = (\<lambda>_ _. True), os_context_addr = Suc, os_loader = \<lparr>ld_launch = (\<lambda>_. True), ld_unlink = (\<lambda>_. True)\<rparr>,
     os_thread = True, os_logs_cfg = \<lparr>lc_log_to_stdout = 0, lc_modules_en = False, lc_modules_all = False,
       lc_modules_time_en = False, lc_modules_time_all = False, lc_log_modules_level = 0\<rparr>,
     os_modules_log = None, os_log_new = (\<lambda>_. None),
     os_float = \<lparr>f_of_int = word_of_int, f_add = (+), f_sub = (-), f_mul = (*), f_div = (\<lambda>x y. x), f_less = (<), f_eq = (=)\<rparr>,
     os_ts_len_ns = 1000000, os_time = (\<lambda>_. timeval_zero), os_sleep = (\<lambda>_ s. (0, s)),
     os_task_new = True, os_task_wait = (\<lambda>_. 1),
     os_Init = (\<lambda>i s. (case ns_env s of [] \<Rightarrow> (1, s) | r # rs \<Rightarrow> (r, s\<lparr>ns_env := rs\<rparr>))),
     os_Run = (\<lambda>i s. (0, s)), os_Stop = (\<lambda>i s. (0, s))\<rparr>"

definition ex_nmodule :: "int \<Rightarrow> nod_module_t" where
  "ex_nmodule k = nod_module_zero\<lparr>nm_parent := module_zero\<lparr>m_id := k, m_status := LOADED\<rparr>, nm_init := True, nm_stop := True\<rparr>"

definition ex_nstate :: "int list \<Rightarrow> int list nstate" where
  "ex_nstate rs = \<lparr>ns_w = nod_waveform_zero\<lparr>nw_id := 4, nw_modules := Some [ex_nmodule 1, ex_nmodule 2], nw_nof_modules := 2,
       nw_status := \<lparr>ws_cur_status = INIT, ws_next_timeslot = 0\<rparr>\<rparr>,
     ns_c = ex_context, ns_multiple = 1, ns_env = rs\<rparr>"

lemma ex_os_code: "module_code_ok ex_os"
  by (auto simp: module_code_ok_def ex_os_def same_control_def rtdal_time_slot_def split: list.splits)

section \<open>Properties of initialisation\<close>

text \<open>C13. The thread that initialises the modules ends for every behaviour of the module code that
  leaves the fields of the node alone, and its success means that every module is
  initialised.\<close>

theorem init_thread_ends:
  assumes "module_code_ok os" "node_wf (ns_w s)" "\<forall>i < nof s. m_status (sparent s i) \<noteq> INIT"
  shows "\<exists>b s'. nod_waveform_status_init_thread os s = Some (b, s') \<and> nof s' = nof s
    \<and> (b \<longrightarrow> (\<forall>i < nof s. m_status (sparent s' i) = INIT))"
proof -
  have "initiated s = {}" using assms(3) by (auto simp: initiated_def)
  then have "0 = card (initiated s)" by simp
  moreover have "0 < nof s \<or> nof s = 0" by linarith
  ultimately show ?thesis unfolding nod_waveform_status_init_thread_def
    using init_loop_ends [OF assms(1,2), of 0 0 0] by (metis zero_less_numeral)
qed

theorem init_thread_ends_witness:
  "\<exists>b s'. nod_waveform_status_init_thread ex_os (ex_nstate [1, 0]) = Some (b, s') \<and> nof s' = 2
    \<and> (b \<longrightarrow> (\<forall>i < 2. m_status (sparent s' i) = INIT))"
proof -
  have "node_wf (ns_w (ex_nstate [1, 0]))" "nof (ex_nstate [1, 0]) = 2"
    "\<forall>i < nof (ex_nstate [1, 0]). m_status (sparent (ex_nstate [1, 0]) i) \<noteq> INIT"
    by (auto simp: ex_nstate_def node_wf_def nmod_def get_elem_def ex_nmodule_def less_Suc_eq numeral_2_eq_2)
  then show ?thesis using init_thread_ends [OF ex_os_code, of "ex_nstate [1, 0]"] by (simp only:)
qed

text \<open>A waveform whose last module completes in the third trial is rejected although every
  module is then initialised.\<close>

theorem init_third_trial_rejected:
  "map_option (\<lambda>(b, s). (b, map (\<lambda>i. m_status (sparent s i)) [0, 1]))
     (nod_waveform_status_init_thread ex_os (ex_nstate [1, 0, 0, 1])) = Some (False, [INIT, INIT])"
  by code_simp

section \<open>Cycles of a module\<close>

lemma same_control_refl: "node_wf (ns_w s) \<Longrightarrow> same_control s s"
  by (simp add: same_control_def)

lemma same_control_trans: "same_control s t \<Longrightarrow> same_control t u \<Longrightarrow> same_control s u"
  by (auto simp: same_control_def)

lemma same_control_upd:
  assumes "node_wf (ns_w s)" "i < nof s" "control (f (smod s i)) = control (smod s i)"
  shows "same_control s (upd_smod i f s)"
  using assms by (simp add: same_control_def node_simps rtdal_time_slot_def)

lemma control_execinfo [simp]: "control (upd_execinfo f m) = control m"
  by (simp add: control_def upd_execinfo_def)

lemma same_control_proc:
  assumes "node_wf (ns_w s)"
  shows "same_control s (proc_do f i s)"
  using assms by (simp add: proc_do_def same_control_def rtdal_time_slot_def split: option.split)

lemma same_control_wf: "same_control s t \<Longrightarrow> node_wf (ns_w t) \<and> nof t = nof s"
  by (simp add: same_control_def)

lemma same_control_run:
  assumes "module_code_ok os"
  shows "node_wf (ns_w s) \<Longrightarrow> same_control s (run_times os i n s)"
proof (induction n arbitrary: s)
  case 0
  then show ?case by (simp add: same_control_refl)
next
  case (Suc n)
  obtain r s1 where r: "os_Run os i s = (r, s1)" by (cases "os_Run os i s")
  let ?s = "if r \<noteq> 0 then proc_do (\<lambda>a. rtdal_process_seterror a RUNERROR) i s1 else s1"
  have "same_control s (snd (os_Run os i s))" using assms Suc.prems unfolding module_code_ok_def by blast
  then have s1: "same_control s s1" by (simp only: r snd_conv)
  then have wf: "node_wf (ns_w s1)" using same_control_wf by blast
  then have "same_control s1 ?s" using same_control_proc [OF wf] same_control_refl [OF wf] by simp
  then have "same_control s ?s" "node_wf (ns_w ?s)" using same_control_trans [OF s1] same_control_wf by blast+
  then show ?case using same_control_trans [OF _ Suc.IH] r by simp
qed

text \<open>A cycle that runs the module code, and one that does not.\<close>

lemma run_cycle_active:
  assumes os: "module_code_ok os" and wf: "node_wf (ns_w s)" and i: "i < nof s"
    and act: "\<not> nm_changing_status (smod (cycle_status i s) i)" "m_status (sparent (cycle_status i s) i) = RUN"
    and cyc: "node_wf (ns_w (cycle_status i s))" "nof (cycle_status i s) = nof s"
  shows "\<exists>t. same_control (cycle_status i s) t \<and> snd (run_cycle os i s) =
    upd_smod i (\<lambda>m. m\<lparr>nm_context := map_option (\<lambda>cx. cx\<lparr>cx_tstamp := cx_tstamp cx + 1\<rparr>) (nm_context m)\<rparr>) t"
proof -
  let ?s1 = "cycle_status i s"
  define s2 where "s2 = upd_smod i (upd_execinfo (\<lambda>e. e\<lparr>e_t_exec := (e_t_exec e)[1 := os_time os ?s1]\<rparr>)) ?s1"
  define s3 where "s3 = run_times os i (nat (nw_tslot_multiplicity (ns_w s2))) s2"
  define s4 where "s4 = upd_smod i (upd_execinfo (\<lambda>e. exec_interval (e\<lparr>e_t_exec := (e_t_exec e)[2 := os_time os s3]\<rparr>))) s3"
  define s5 where "s5 = upd_smod i (\<lambda>m. upd_execinfo (nod_module_execinfo_add_sample (os_float os) (os_ts_len_ns os)
     (rtdal_time_slot s4) (case nm_context m of None \<Rightarrow> 0 | Some cx \<Rightarrow> cx_tstamp cx)) m) s4"
  have 2: "same_control ?s1 s2" unfolding s2_def by (rule same_control_upd) (use cyc i in simp_all)
  then have 3: "same_control s2 s3" unfolding s3_def using same_control_run [OF os] same_control_wf by blast
  have 4: "same_control s3 s4" unfolding s4_def by (rule same_control_upd) (use 2 3 cyc i same_control_wf in \<open>auto dest!: same_control_wf\<close>)
  have 5: "same_control s4 s5" unfolding s5_def by (rule same_control_upd) (use 2 3 4 cyc i in \<open>auto dest!: same_control_wf\<close>)
  have "snd (run_cycle os i s) = upd_smod i (\<lambda>m. m\<lparr>nm_context := map_option (\<lambda>cx. cx\<lparr>cx_tstamp := cx_tstamp cx + 1\<rparr>) (nm_context m)\<rparr>) s5"
    unfolding run_cycle_def Let_def s5_def s4_def s3_def s2_def using act by simp
  moreover have "same_control ?s1 s5" using 2 3 4 5 same_control_trans by blast
  ultimately show ?thesis by blast
qed

lemma run_cycle_idle:
  assumes "node_wf (ns_w (cycle_status i s))"
    and "nm_changing_status (smod (cycle_status i s) i) \<or> m_status (sparent (cycle_status i s) i) \<noteq> RUN"
  shows "same_control (cycle_status i s) (snd (run_cycle os i s))"
  using assms same_control_proc [OF assms(1)] unfolding run_cycle_def Let_def by auto

text \<open>Stepping: the waveform asks for STEP, the time has come and module i is not changing.\<close>

definition stepping :: "nat \<Rightarrow> 'e nstate \<Rightarrow> bool" where
  "stepping i s \<longleftrightarrow> node_wf (ns_w s) \<and> i < nof s \<and> ws_cur_status (nw_status (ns_w s)) = STEP
     \<and> ws_next_timeslot (nw_status (ns_w s)) \<le> rtdal_time_slot s \<and> \<not> nm_changing_status (smod s i)"

abbreviation tstamp_of :: "'e nstate \<Rightarrow> nat \<Rightarrow> int option" where
  "tstamp_of s i \<equiv> map_option cx_tstamp (nm_context (smod s i))"

lemma stepping_same: "stepping i s \<Longrightarrow> same_control s t \<Longrightarrow> stepping i t \<and> control (smod t i) = control (smod s i)"
  by (auto simp: stepping_def same_control_def control_def)

lemma stepping_upd:
  assumes "stepping i s" "\<not> nm_changing_status (f (smod s i))"
  shows "stepping i (upd_smod i f s)"
  using assms by (simp add: stepping_def node_simps rtdal_time_slot_def)

lemma cycle_status_step:
  assumes "stepping i s"
  shows "cycle_status i s = (if m_status (sparent s i) = STEP then s
    else upd_smod i (set_mstatus (if m_status (sparent s i) = RUN then STEP else RUN)) s)"
  using assms by (simp add: cycle_status_def stepping_def)

lemma step_cycle:
  assumes os: "module_code_ok os" and s: "stepping i s"
  shows "stepping i (snd (run_cycle os i s))"
    "m_status (sparent (snd (run_cycle os i s)) i) = (if m_status (sparent s i) \<in> {RUN, STEP} then STEP else RUN)"
    "tstamp_of (snd (run_cycle os i s)) i
      = (if m_status (sparent s i) \<in> {RUN, STEP} then tstamp_of s i else map_option (\<lambda>t. t + 1) (tstamp_of s i))"
proof -
  let ?c = "cycle_status i s"
  have wf: "node_wf (ns_w s)" "i < nof s" using s by (simp_all add: stepping_def)
  have c: "stepping i ?c" using stepping_upd [OF s] s by (simp add: cycle_status_step stepping_def)
  have st: "m_status (sparent ?c i) = (if m_status (sparent s i) \<in> {RUN, STEP} then STEP else RUN)" "tstamp_of ?c i = tstamp_of s i"
    using s wf by (simp_all add: cycle_status_step node_simps)
  have "stepping i (snd (run_cycle os i s)) \<and> m_status (sparent (snd (run_cycle os i s)) i) = m_status (sparent ?c i)
    \<and> tstamp_of (snd (run_cycle os i s)) i = (if m_status (sparent ?c i) = RUN then map_option (\<lambda>t. t + 1) (tstamp_of s i) else tstamp_of s i)"
  proof (cases "m_status (sparent ?c i) = RUN")
    case True
    have pre: "\<not> nm_changing_status (smod ?c i)" "node_wf (ns_w ?c)" "nof ?c = nof s"
      using c s by (simp_all add: stepping_def cycle_status_step)
    obtain t where t: "same_control ?c t" "snd (run_cycle os i s) =
        upd_smod i (\<lambda>m. m\<lparr>nm_context := map_option (\<lambda>cx. cx\<lparr>cx_tstamp := cx_tstamp cx + 1\<rparr>) (nm_context m)\<rparr>) t"
      using run_cycle_active [OF os wf pre(1) True pre(2,3)] by blast
    have t1: "stepping i t" "control (smod t i) = control (smod ?c i)" using stepping_same [OF c t(1)] by simp_all
    then have "node_wf (ns_w t)" "i < nof t" by (simp_all add: stepping_def)
    then show ?thesis using t t1 True st stepping_upd [OF t1(1)]
      by (cases "nm_context (smod t i)"; cases "nm_context (smod s i)") (simp_all add: control_def node_simps stepping_def option.map_comp comp_def)
  next
    case False
    have "node_wf (ns_w ?c)" using c by (simp add: stepping_def)
    from run_cycle_idle [OF this] False have "same_control ?c (snd (run_cycle os i s))" by blast
    from stepping_same [OF c this] show ?thesis using False st by (simp add: control_def)
  qed
  then show "stepping i (snd (run_cycle os i s))"
    "m_status (sparent (snd (run_cycle os i s)) i) = (if m_status (sparent s i) \<in> {RUN, STEP} then STEP else RUN)"
    "tstamp_of (snd (run_cycle os i s)) i
      = (if m_status (sparent s i) \<in> {RUN, STEP} then tstamp_of s i else map_option (\<lambda>t. t + 1) (tstamp_of s i))"
    using st by auto
qed

text \<open>How often a cycle calls the module code, for a client state that counts the calls of Run.\<close>

lemma run_times_count:
  assumes "\<forall>s. cnt (ns_env (snd (os_Run os i s))) = Suc (cnt (ns_env s))"
  shows "cnt (ns_env (run_times os i n s)) = cnt (ns_env s) + n"
proof (induction n arbitrary: s)
  case (Suc n)
  have env: "ns_env (proc_do f i t) = ns_env t" for f t by (simp add: proc_do_def split: option.split)
  obtain r s1 where r: "os_Run os i s = (r, s1)" by (cases "os_Run os i s")
  then have "cnt (ns_env s1) = Suc (cnt (ns_env s))" using assms by (metis snd_conv)
  then show ?case using r by (simp add: Suc.IH env)
qed simp

lemma run_cycle_count:
  assumes "\<forall>s. cnt (ns_env (snd (os_Run os i s))) = Suc (cnt (ns_env s))" "stepping i s"
  shows "cnt (ns_env (snd (run_cycle os i s))) = cnt (ns_env s)
    + (if m_status (sparent s i) \<in> {RUN, STEP} then 0 else nat (nw_tslot_multiplicity (ns_w s)))"
proof -
  let ?c = "cycle_status i s"
  have env: "ns_env (proc_do f i t) = ns_env t" for f t by (simp add: proc_do_def split: option.split)
  have wf: "node_wf (ns_w s)" "i < nof s" using assms(2) by (simp_all add: stepping_def)
  have upd: "ns_env (upd_smod i f t) = ns_env t" "nw_tslot_multiplicity (ns_w (upd_smod i f t)) = nw_tslot_multiplicity (ns_w t)" for f t
    by (simp_all add: upd_smod_def upd_nmod_def)
  have c: "ns_env ?c = ns_env s" "nw_tslot_multiplicity (ns_w ?c) = nw_tslot_multiplicity (ns_w s)"
    using assms(2) by (simp_all add: cycle_status_step upd)
  have a: "\<not> nm_changing_status (smod ?c i)" "m_status (sparent ?c i) = RUN \<longleftrightarrow> m_status (sparent s i) \<notin> {RUN, STEP}"
    using assms(2) wf by (auto simp: cycle_status_step node_simps stepping_def)
  show ?thesis
  proof (cases "m_status (sparent ?c i) = RUN")
    case True
    then show ?thesis using a c by (simp add: run_cycle_def Let_def run_times_count [OF assms(1)] env upd)
  next
    case False
    then show ?thesis using a c by (simp add: run_cycle_def Let_def env)
  qed
qed

text \<open>C15. A step request makes a paused module execute exactly one cycle: however often the
  pipeline calls it afterwards, the code of the module runs as many times as the slot has
  granules (once, for a waveform without granularity), in the first call, and never again; its
  time stamp advances once and it ends in STEP. The count cnt stands for whatever in the state
  of the module counts its runs.\<close>

theorem step_runs_once:
  assumes "module_code_ok os" "stepping i s" "m_status (sparent s i) \<notin> {RUN, STEP}"
    and "\<forall>s. cnt (ns_env (snd (os_Run os i s))) = Suc (cnt (ns_env s))"
  shows "let s' = ((\<lambda>s. snd (run_cycle os i s)) ^^ (n + 2)) s in
    m_status (sparent s' i) = STEP \<and> tstamp_of s' i = map_option (\<lambda>t. t + 1) (tstamp_of s i)
    \<and> cnt (ns_env s') = cnt (ns_env s) + nat (nw_tslot_multiplicity (ns_w s))
    \<and> cnt (ns_env (snd (run_cycle os i s))) = cnt (ns_env s) + nat (nw_tslot_multiplicity (ns_w s))"
proof -
  let ?f = "\<lambda>s. snd (run_cycle os i s)"
  note a = step_cycle [OF assms(1,2)] and count = run_cycle_count [OF assms(4)]
  have "stepping i ((?f ^^ (n + 2)) s) \<and> m_status (sparent ((?f ^^ (n + 2)) s) i) = STEP
      \<and> tstamp_of ((?f ^^ (n + 2)) s) i = map_option (\<lambda>t. t + 1) (tstamp_of s i)
      \<and> cnt (ns_env ((?f ^^ (n + 2)) s)) = cnt (ns_env s) + nat (nw_tslot_multiplicity (ns_w s))"
  proof (induction n)
    case 0
    have two: "(?f ^^ (0 + 2)) s = ?f (?f s)" by (simp add: numeral_2_eq_2)
    note b = step_cycle [OF assms(1) a(1)]
    show ?case unfolding two using a b assms(3) count [OF assms(2)] count [OF a(1)] by simp
  next
    case (Suc n)
    then show ?case using step_cycle [OF assms(1), of i "(?f ^^ (n + 2)) s"] count [of "(?f ^^ (n + 2)) s"] by simp
  qed
  then show ?thesis using count [OF assms(2)] assms(3) by (simp add: Let_def)
qed

definition ex_step :: "int list nstate" where
  "ex_step = (ex_nstate [])\<lparr>ns_w := nod_waveform_zero\<lparr>nw_modules := Some [snd (oesr_context_init 9 (ex_nmodule 1))], nw_nof_modules := 1,
     nw_status := \<lparr>ws_cur_status = STEP, ws_next_timeslot = 3\<rparr>, nw_tslot_multiplicity := 1\<rparr>\<rparr>"

definition ex_count_os :: "int list node_os" where
  "ex_count_os = ex_os\<lparr>os_Run := (\<lambda>i s. (0, s\<lparr>ns_env := 7 # ns_env s\<rparr>))\<rparr>"

theorem step_runs_once_witness:
  "let s' = ((\<lambda>s. snd (run_cycle ex_count_os 0 s)) ^^ 5) ex_step in
    m_status (sparent s' 0) = STEP \<and> tstamp_of s' 0 = Some 1 \<and> length (ns_env s') = 1"
proof -
  have c: "module_code_ok ex_count_os"
    using ex_os_code by (auto simp: module_code_ok_def ex_count_os_def same_control_def rtdal_time_slot_def)
  have "stepping 0 ex_step" "m_status (sparent ex_step 0) \<notin> {RUN, STEP}" "tstamp_of ex_step 0 = Some 0"
    "length (ns_env ex_step) = 0" "nw_tslot_multiplicity (ns_w ex_step) = 1"
    by code_simp+
  then show ?thesis using step_runs_once [OF c, of 0 ex_step length 3] by (auto simp: Let_def ex_count_os_def)
qed

section \<open>Loading and removing\<close>

lemma seq_o_append:
  "seq_o (fs @ gs) s = (case seq_o fs s of None \<Rightarrow> None | Some (r, s') \<Rightarrow> if r \<noteq> 0 then Some (-1, s') else seq_o gs s')"
  by (induction fs arbitrary: s) (auto split: option.splits)

lemma seq_o_loop:
  assumes "\<And>i s. i < n \<Longrightarrow> I i s \<Longrightarrow> \<exists>s'. f i s = Some (0, s') \<and> I (Suc i) s'" and "I 0 s"
  shows "\<exists>s'. seq_o (map f [0..<n]) s = Some (0, s') \<and> I n s'"
  using assms
proof (induction n)
  case (Suc n)
  then obtain s1 where s1: "seq_o (map f [0..<n]) s = Some (0, s1)" "I n s1" by (metis less_Suc_eq)
  moreover obtain s2 where "f n s1 = Some (0, s2)" "I (Suc n) s2" using Suc.prems(1) [of n s1] s1 by blast
  ultimately show ?case by (simp add: seq_o_append)
qed simp

text \<open>Module i of the waveform owns a process on the pipeline that its processor index names.\<close>

definition owns :: "'e nstate \<Rightarrow> nat list list \<Rightarrow> nat \<Rightarrow> bool" where
  "owns s xss i \<longleftrightarrow> (\<exists>a. nm_process (smod s i) = Some a \<and> (\<exists>k < length xss. m_processor_idx (sparent s i) = int k \<and> a \<in> set (xss ! k)))"

definition node_ok :: "'e nstate \<Rightarrow> nat list list \<Rightarrow> bool" where
  "node_ok s xss \<longleftrightarrow> node_wf (ns_w s) \<and> ctx_ok (ns_c s) xss \<and> (\<forall>i < nof s. owns s xss i)
     \<and> inj_on (\<lambda>i. nm_process (smod s i)) {..<nof s}"

lemma remove1_filter:
  assumes c: "ctx_ok c xss" and k: "k < length xss" "a \<in> set (xss ! k)"
  shows "xss[k := remove1 a (xss ! k)] = map (filter (\<lambda>b. b \<noteq> a)) xss"
proof (rule nth_equalityI)
  fix j assume "j < length (xss[k := remove1 a (xss ! k)])"
  then have j: "j < length xss" by simp
  show "xss[k := remove1 a (xss ! k)] ! j = map (filter (\<lambda>b. b \<noteq> a)) xss ! j"
  proof (cases "j = k")
    case True
    have "distinct (xss ! k)" using c k by (simp add: ctx_ok_def pipe_ok_def)
    then have "remove1 a (xss ! k) = filter (\<lambda>b. b \<noteq> a) (xss ! k)" by (simp add: distinct_remove1_removeAll removeAll_filter_not_eq eq_commute)
    then show ?thesis using True j by simp
  next
    case False
    then have "a \<notin> set (xss ! j)" using ctx_ok_disjoint [OF c j k(1)] k(2) by blast
    then have "filter (\<lambda>b. b \<noteq> a) (xss ! j) = xss ! j" by (auto intro!: filter_True)
    then show ?thesis using False j by simp
  qed
qed simp

lemma module_remove_ok:
  assumes wf: "node_wf (ns_w s)" "i < nof s" and c: "ctx_ok (ns_c s) xss"
    and own: "nm_process (smod s i) = Some a" "k < length xss" "a \<in> set (xss ! k)" and un: "\<And>b. ld_unlink (os_loader os) b"
  obtains s' where "nod_module_remove os i s = Some (0, s')" "ctx_ok (ns_c s') (map (filter (\<lambda>b. b \<noteq> a)) xss)"
    "node_wf (ns_w s')" "nof s' = nof s" "\<And>j. j \<noteq> i \<Longrightarrow> smod s' j = smod s j" "nw_status (ns_w s') = nw_status (ns_w s)"
proof -
  have "p_pipeline (c_processes (ns_c s) a) = Some k" using c own by (simp add: ctx_ok_def members_ok_def)
  from rtdal_process_remove_ok [OF c this own(2), of "os_loader os"] obtain r c' where
    rm: "rtdal_process_remove (os_loader os) a (ns_c s) = Some (r, c')" "ctx_ok c' (xss[k := remove1 a (xss ! k)])"
      "r = 0" using own(3) un by metis
  let ?s1 = "s\<lparr>ns_c := c'\<rparr>"
  let ?s4 = "upd_smod i (\<lambda>m. m\<lparr>nm_changing_status := False, nm_parent := (nm_parent m)\<lparr>m_id := 0\<rparr>\<rparr>)
    (upd_smod i (\<lambda>_. snd (nod_module_free (smod (upd_smod i (\<lambda>m. m\<lparr>nm_parent := snd (module_free (sparent ?s1 i))\<rparr>) ?s1) i)))
    (upd_smod i (\<lambda>m. m\<lparr>nm_parent := snd (module_free (sparent ?s1 i))\<rparr>) ?s1))"
  have "nod_module_remove os i s = Some (0, ?s4)"
    using rm own(1) by (simp add: nod_module_remove_def module_free_def nod_module_free_def Let_def)
  moreover have "ctx_ok (ns_c ?s4) (map (filter (\<lambda>b. b \<noteq> a)) xss)" using rm(2) remove1_filter [OF c own(2,3)] by simp
  moreover have "node_wf (ns_w ?s4)" "nof ?s4 = nof s" using wf by simp_all
  moreover have "smod ?s4 j = smod s j" if "j \<noteq> i" for j using wf that by (simp add: node_simps)
  ultimately show thesis by (intro that [of ?s4]) simp_all
qed

definition processes_below :: "'e nstate \<Rightarrow> nat \<Rightarrow> nat set" where
  "processes_below s n = {a. \<exists>i < n. nm_process (smod s i) = Some a}"

lemma map_filter_True [simp]: "map (filter (\<lambda>a. True)) xss = xss"
  by (simp add: map_idI)

lemma filter_lists: "map (filter P) (map (filter Q) xss) = map (filter (\<lambda>b. P b \<and> Q b)) xss"
  by (simp add: conj_commute)

text \<open>C14. Removing a loaded waveform takes exactly its processes out of the pipelines, keeps the
  kernel consistent and leaves a free slot.\<close>

theorem waveform_remove_frees:
  assumes s: "node_ok s xss" and id: "\<forall>i < nof s. m_id (sparent s i) \<noteq> 0" and un: "\<forall>b. ld_unlink (os_loader os) b"
  shows "\<exists>s'. nod_waveform_remove os s = Some (0, s')
    \<and> ctx_ok (ns_c s') (map (filter (\<lambda>a. a \<notin> processes_below s (nof s))) xss)
    \<and> nw_modules (ns_w s') = None \<and> nw_nof_modules (ns_w s') = 0 \<and> nw_id (ns_w s') = 0
    \<and> ws_cur_status (nw_status (ns_w s')) = STOP"
proof -
  let ?f = "\<lambda>i s. if m_id (sparent s i) \<noteq> 0 then nod_module_remove os i s else Some (0, s)"
  let ?I = "\<lambda>i t. node_wf (ns_w t) \<and> nof t = nof s \<and> ctx_ok (ns_c t) (map (filter (\<lambda>a. a \<notin> processes_below s i)) xss)
    \<and> (\<forall>j < nof s. i \<le> j \<longrightarrow> smod t j = smod s j)"
  have "\<exists>t'. ?f i t = Some (0, t') \<and> ?I (Suc i) t'" if i: "i < nof s" and t: "?I i t" for i t
  proof -
    obtain a k where a: "nm_process (smod s i) = Some a" "k < length xss" "a \<in> set (xss ! k)"
      using s i by (auto simp: node_ok_def owns_def)
    have fresh: "a \<notin> processes_below s i"
    proof
      assume "a \<in> processes_below s i"
      then obtain j where "j < i" "nm_process (smod s j) = nm_process (smod s i)" using a by (auto simp: processes_below_def)
      then show False using s i unfolding node_ok_def by (metis inj_onD lessThan_iff less_trans nat_neq_iff)
    qed
    have same: "smod t i = smod s i" using t i by simp
    have k: "k < length (map (filter (\<lambda>a. a \<notin> processes_below s i)) xss)"
      "a \<in> set (map (filter (\<lambda>a. a \<notin> processes_below s i)) xss ! k)" using a fresh by simp_all
    have t1: "node_wf (ns_w t)" "i < nof t" "ctx_ok (ns_c t) (map (filter (\<lambda>a. a \<notin> processes_below s i)) xss)"
      "nm_process (smod t i) = Some a" using t i a same by simp_all
    obtain t' where t': "nod_module_remove os i t = Some (0, t')"
      "ctx_ok (ns_c t') (map (filter (\<lambda>b. b \<noteq> a)) (map (filter (\<lambda>a. a \<notin> processes_below s i)) xss))"
      "node_wf (ns_w t')" "nof t' = nof t" and oth: "\<And>j. j \<noteq> i \<Longrightarrow> smod t' j = smod t j"
      and "nw_status (ns_w t') = nw_status (ns_w t)"
      by (rule module_remove_ok [OF t1 k un [rule_format]]) (rule that)
    have "processes_below s (Suc i) = insert a (processes_below s i)" using a by (auto simp: processes_below_def less_Suc_eq)
    then have "(\<lambda>b. b \<noteq> a \<and> b \<notin> processes_below s i) = (\<lambda>b. b \<notin> processes_below s (Suc i))" by auto
    then have "ctx_ok (ns_c t') (map (filter (\<lambda>a. a \<notin> processes_below s (Suc i))) xss)"
      using t'(2) unfolding filter_lists by simp
    then show ?thesis using t' t oth id i same by auto
  qed
  moreover have "?I 0 s" using s by (simp add: node_ok_def processes_below_def)
  ultimately have "\<exists>t. seq_o (map ?f [0..<nof s]) s = Some (0, t) \<and> ?I (nof s) t" by (rule seq_o_loop [where I = ?I])
  then obtain t where t: "seq_o (map ?f [0..<nof s]) s = Some (0, t)" "?I (nof s) t" by blast
  define w where "w = (ns_w t)\<lparr>nw_modules := None, nw_nof_modules := 0\<rparr>"
  have "nod_waveform_remove os s = Some (0, t\<lparr>ns_w := w\<lparr>nw_status := (nw_status w)\<lparr>ws_cur_status := STOP\<rparr>, nw_id := 0\<rparr>\<rparr>)"
    unfolding nod_waveform_remove_def seq_o_append t(1) w_def
    by (simp add: nod_waveform_free_def pool_free_def set_wstatus_def)
  moreover have "nw_modules w = None" "nw_nof_modules w = 0" by (simp_all add: w_def)
  ultimately show ?thesis using conjunct1 [OF conjunct2 [OF conjunct2 [OF t(2)]]] by simp
qed

definition ex_one :: "int list nstate" where
  "ex_one = (ex_nstate [])\<lparr>ns_w := nod_waveform_zero\<lparr>nw_id := 4, nw_nof_modules := 1,
       nw_modules := Some [(ex_nmodule 1)\<lparr>nm_process := Some 0\<rparr>], nw_status := \<lparr>ws_cur_status = RUN, ws_next_timeslot = 0\<rparr>\<rparr>,
     ns_c := ex_context\<lparr>c_processes := (c_processes ex_context)(0 := ex_process\<lparr>p_pid := 1, p_pipeline := Some 0\<rparr>),
       c_pipelines := [(c_pipelines ex_context ! 0)\<lparr>pl_first_process := Some 0, pl_nof_processes := 1\<rparr>]\<rparr>\<rparr>"

lemma ex_one_ok: "node_ok ex_one [[0]]" "nof ex_one = 1" "m_id (sparent ex_one 0) \<noteq> 0" "processes_below ex_one 1 = {0}"
  by (simp_all add: ex_one_def node_ok_def node_wf_def owns_def ctx_ok_def pipe_ok_def members_ok_def ex_context_def ex_process_def
      nmod_def get_elem_def ex_nmodule_def module_zero_def nod_module_zero_def rtdal_process_MAX_def processes_below_def lessThan_Suc
      group_ok_def MAX_PROCESS_GROUP_ID_def)

theorem waveform_remove_frees_witness:
  "\<exists>s'. nod_waveform_remove ex_os ex_one = Some (0, s') \<and> ctx_ok (ns_c s') [[]] \<and> nw_modules (ns_w s') = None"
proof -
  have "\<forall>b. ld_unlink (os_loader ex_os) b" by (simp add: ex_os_def)
  then show ?thesis using waveform_remove_frees [OF ex_one_ok(1), of ex_os] ex_one_ok(2-4) by auto
qed

subsection \<open>Loading\<close>

text \<open>Free entries of the process table.\<close>

definition free_entries :: "rtdal_context_t \<Rightarrow> nat set" where
  "free_entries c = {a. a < rtdal_process_MAX \<and> p_pid (c_processes c a) = 0}"

lemma finite_free [simp]: "finite (free_entries c)"
  by (simp add: free_entries_def)

lemma find_free_ex: "0 < card (free_entries c) \<Longrightarrow> \<exists>a. find_free (c_processes c) = Some a"
proof (rule ccontr)
  assume "0 < card (free_entries c)" and n: "\<nexists>a. find_free (c_processes c) = Some a"
  then have "free_entries c \<noteq> {}" by auto
  then obtain a where a: "a \<in> free_entries c" by blast
  have "find_free (c_processes c) = None" using n by (cases "find_free (c_processes c)") auto
  then have "\<nexists>x. x \<in> {0..<rtdal_process_MAX} \<and> p_pid (c_processes c x) = 0"
    unfolding find_free_def find_None_iff set_upt .
  moreover have "a \<in> {0..<rtdal_process_MAX} \<and> p_pid (c_processes c a) = 0"
    using a unfolding free_entries_def atLeast0LessThan lessThan_iff mem_Collect_eq .
  ultimately show False by blast
qed

text \<open>What loading a module leaves unchanged in it.\<close>

definition loaded_from :: "nod_module_t \<Rightarrow> nod_module_t \<Rightarrow> bool" where
  "loaded_from m m' \<longleftrightarrow> nm_parent m' = nm_parent m \<and> nm_context m' = nm_context m \<and> nm_changing_status m' = nm_changing_status m"

lemma loaded_from_refl [simp]: "loaded_from m m"
  by (simp add: loaded_from_def)

lemma logs_loaded_from: "loaded_from m ((nod_module_logs os m)\<lparr>nm_init := False, nm_stop := False, nm_process := p\<rparr>)"
  by (simp add: loaded_from_def nod_module_logs_def Let_def)

lemma set_insert_pos: "set (insert_pos h a xs) = insert a (set xs)"
proof -
  let ?P = "\<lambda>x. exec_pos h x \<le> exec_pos h a"
  have "set xs = set (takeWhile ?P xs) \<union> set (dropWhile ?P xs)" by (metis set_append takeWhile_dropWhile_id)
  then show ?thesis by (simp add: insert_pos_def)
qed

lemma module_load_ok:
  assumes wf: "node_wf (ns_w s)" "i < nof s" and c: "ctx_ok (ns_c s) xss" and arg: "context_arg (smod s i) \<noteq> 0"
    and g: "group_ok (nw_id (ns_w s))"
    and k: "m_processor_idx (sparent s i) = int k" "k < length xss"
    and free: "0 < card (free_entries (ns_c s))" and ld: "\<And>b. ld_launch (os_loader os) b"
  obtains s' a ys where "nod_module_load os i s = Some (0, s')" "ctx_ok (ns_c s') ys" "length ys = length xss"
    "\<And>j. j < length xss \<Longrightarrow> set (ys ! j) = (if j = k then insert a (set (xss ! j)) else set (xss ! j))"
    "\<And>j. j < length xss \<Longrightarrow> a \<notin> set (xss ! j)" "nm_process (smod s' i) = Some a" "loaded_from (smod s i) (smod s' i)"
    "\<And>j. j \<noteq> i \<Longrightarrow> smod s' j = smod s j" "node_wf (ns_w s')" "nof s' = nof s" "nw_id (ns_w s') = nw_id (ns_w s)"
    "nw_status (ns_w s') = nw_status (ns_w s)" "card (free_entries (ns_c s)) \<le> Suc (card (free_entries (ns_c s')))"
proof -
  obtain a where a: "find_free (c_processes (ns_c s)) = Some a" using find_free_ex [OF free] by blast
  let ?attr = "\<lparr>pipeline_id = m_processor_idx (sparent s i), exec_position = m_exec_position (sparent s i),
    process_group_id = nw_id (ns_w s), finish_callback = True\<rparr>"
  let ?ys = "xss[k := insert_pos ((c_processes (ns_c s))(a := new_process a ?attr (context_arg (smod s i)))) a (xss ! k)]"
  have ga: "group_ok (process_group_id ?attr)" "pipeline_id ?attr = int k"
    using g k by simp_all
  obtain c' where c0: "rtdal_process_new (os_loader os) (os_thread os) ?attr (context_arg (smod s i)) (ns_c s)
        = Some (if ld_launch (os_loader os) (Suc a) then Some a else None, c')"
      "ctx_ok c' (if ld_launch (os_loader os) (Suc a) then ?ys else xss)"
    and p0: "\<And>b. ld_launch (os_loader os) (Suc a) \<Longrightarrow> p_pid (c_processes c' b) = (if b = a then Suc a else p_pid (c_processes (ns_c s) b))"
    by (rule rtdal_process_new_ok [OF c arg a ga k(2), of "os_loader os" "os_thread os"]) (rule that)
  note pids = p0 [OF ld]
  have c': "rtdal_process_new (os_loader os) (os_thread os) ?attr (context_arg (smod s i)) (ns_c s) = Some (Some a, c')" "ctx_ok c' ?ys"
    using c0 ld by simp_all
  let ?m = "(nod_module_logs os (smod s i))\<lparr>nm_init := False, nm_stop := False, nm_process := Some a\<rparr>"
  let ?s = "(upd_smod i (\<lambda>_. ?m) s)\<lparr>ns_c := c'\<rparr>"
  have "nod_module_load os i s = Some (0, ?s)" using c'(1) by (simp add: nod_module_load_def Let_def)
  moreover have "set (?ys ! j) = (if j = k then insert a (set (xss ! j)) else set (xss ! j))" if "j < length xss" for j
    using that k(2) by (cases "j = k") (simp_all add: set_insert_pos)
  moreover have "a \<notin> set (xss ! j)" if "j < length xss" for j
    using ctx_ok_not_listed [OF c _ that] find_free_SomeD [OF a] by simp
  moreover have "card (free_entries (ns_c s)) \<le> Suc (card (free_entries c'))"
  proof -
    have "free_entries c' = free_entries (ns_c s) - {a}" using pids by (auto simp: free_entries_def)
    then show ?thesis by (simp add: card_Diff_singleton_if) linarith
  qed
  ultimately show thesis using c'(2) wf logs_loaded_from [where m = "smod s i" and os = os and p = "Some a"]
    by (intro that [of ?s ?ys a]) (simp_all add: node_simps)
qed

text \<open>Loading of the first i modules.\<close>

definition loading :: "'e nstate \<Rightarrow> nat list list \<Rightarrow> nat \<Rightarrow> 'e nstate \<Rightarrow> nat list list \<Rightarrow> bool" where
  "loading s xss i t ys \<longleftrightarrow> node_wf (ns_w t) \<and> nof t = nof s \<and> nw_id (ns_w t) = nw_id (ns_w s) \<and> nw_status (ns_w t) = nw_status (ns_w s)
     \<and> ctx_ok (ns_c t) ys \<and> length ys = length xss \<and> (\<forall>k < length xss. set (xss ! k) \<subseteq> set (ys ! k))
     \<and> (\<forall>j < i. owns t ys j) \<and> inj_on (\<lambda>j. nm_process (smod t j)) {..<i} \<and> (\<forall>j < nof s. loaded_from (smod s j) (smod t j))
     \<and> nof s \<le> card (free_entries (ns_c t)) + i"

text \<open>A waveform that can be loaded on a kernel with the process lists xss.\<close>

definition loadable :: "'e node_os \<Rightarrow> 'e nstate \<Rightarrow> nat list list \<Rightarrow> bool" where
  "loadable os s xss \<longleftrightarrow> node_wf (ns_w s) \<and> ctx_ok (ns_c s) xss \<and> nof s \<le> card (free_entries (ns_c s))
     \<and> group_ok (nw_id (ns_w s)) \<and> (\<forall>b. ld_launch (os_loader os) b)
     \<and> (\<forall>i < nof s. context_arg (smod s i) \<noteq> 0 \<and> 0 \<le> m_processor_idx (sparent s i)
          \<and> m_processor_idx (sparent s i) < int (length xss))"

lemma loading_step:
  assumes s: "loadable os s xss" and i: "i < nof s" and t: "loading s xss i t ys"
  shows "\<exists>t' ys'. nod_module_load os i t = Some (0, t') \<and> loading s xss (Suc i) t' ys'"
proof -
  let ?k = "nat (m_processor_idx (sparent s i))"
  have same: "loaded_from (smod s i) (smod t i)" using t i by (simp add: loading_def)
  have si: "context_arg (smod s i) \<noteq> 0" "0 \<le> m_processor_idx (sparent s i)" "m_processor_idx (sparent s i) < int (length xss)"
    using s i by (simp_all add: loadable_def)
  then have kl: "?k < length xss" by linarith
  have pre: "node_wf (ns_w t)" "i < nof t" "ctx_ok (ns_c t) ys" "context_arg (smod t i) \<noteq> 0" "group_ok (nw_id (ns_w t))"
    "m_processor_idx (sparent t i) = int ?k" "?k < length ys" "0 < card (free_entries (ns_c t))"
    using s t i same si kl by (simp_all add: loading_def loadable_def loaded_from_def context_arg_def)
  have ld: "\<And>b. ld_launch (os_loader os) b" using s by (simp add: loadable_def)
  obtain t' a zs where n: "nod_module_load os i t = Some (0, t')" "ctx_ok (ns_c t') zs" "length zs = length ys"
    and zs: "\<And>j. j < length ys \<Longrightarrow> set (zs ! j) = (if j = ?k then insert a (set (ys ! j)) else set (ys ! j))"
    and fresh: "\<And>j. j < length ys \<Longrightarrow> a \<notin> set (ys ! j)" and a: "nm_process (smod t' i) = Some a" "loaded_from (smod t i) (smod t' i)"
    and oth: "\<And>j. j \<noteq> i \<Longrightarrow> smod t' j = smod t j"
    and w: "node_wf (ns_w t')" "nof t' = nof t" "nw_id (ns_w t') = nw_id (ns_w t)" "nw_status (ns_w t') = nw_status (ns_w t)"
    and fr: "card (free_entries (ns_c t)) \<le> Suc (card (free_entries (ns_c t')))"
    by (rule module_load_ok [OF pre ld]) (rule that)
  have own: "owns t' zs j" if "j < Suc i" for j
  proof (cases "j = i")
    case True
    have "m_processor_idx (sparent t' i) = int ?k" using a(2) pre(6) by (simp add: loaded_from_def)
    then show ?thesis using a(1) zs [OF pre(7)] pre(7) n(3) True by (auto simp: owns_def)
  next
    case False
    then have "owns t ys j" using t that by (simp add: loading_def)
    then show ?thesis using oth [OF False] zs n(3) unfolding owns_def by (metis (full_types) insertI2)
  qed
  have "nm_process (smod t' j) \<noteq> nm_process (smod t' i)" if ji: "j < i" for j
  proof -
    have "owns t ys j" using t ji by (simp add: loading_def)
    then obtain b k where "nm_process (smod t j) = Some b" "k < length ys" "b \<in> set (ys ! k)" unfolding owns_def by blast
    then show ?thesis using fresh oth [of j] ji a(1) by auto
  qed
  moreover have "inj_on (\<lambda>j. nm_process (smod t' j)) {..<i}"
  proof (rule inj_on_cong [THEN iffD1])
    show "inj_on (\<lambda>j. nm_process (smod t j)) {..<i}" using t by (simp add: loading_def)
  qed (use oth in simp)
  ultimately have inj: "inj_on (\<lambda>j. nm_process (smod t' j)) {..<Suc i}"
    unfolding lessThan_Suc inj_on_insert by (metis (mono_tags, lifting) DiffD1 imageE lessThan_iff)
  have lf: "loaded_from (smod s j) (smod t' j)" if "j < nof s" for j
    using t that a(2) oth [of j] by (cases "j = i") (simp_all add: loading_def loaded_from_def)
  have sub: "set (xss ! k) \<subseteq> set (zs ! k)" if "k < length xss" for k
    using t that zs [of k] by (auto simp: loading_def)
  have "loading s xss (Suc i) t' zs"
    unfolding loading_def using t n w own inj lf sub fr by (simp add: loading_def)
  then show ?thesis using n(1) by blast
qed

lemma seq_rc_loop:
  assumes "\<And>i s. i < n \<Longrightarrow> I i s \<Longrightarrow> \<exists>s'. f i s = (0, s') \<and> I (Suc i) s'" and "I 0 s"
  shows "\<exists>s'. seq_rc (map f [0..<n]) s = (0, s') \<and> I n s'"
  using assms
proof (induction n)
  case (Suc n)
  then obtain s1 where s1: "seq_rc (map f [0..<n]) s = (0, s1)" "I n s1" by (metis less_Suc_eq)
  moreover obtain s2 where "f n s1 = (0, s2)" "I (Suc n) s2" using Suc.prems(1) [of n s1] s1 by blast
  ultimately show ?case by (simp add: seq_rc_append)
qed simp

lemma ctx_ok_runnable:
  assumes "ctx_ok c xss"
  shows "ctx_ok (c\<lparr>c_processes := snd (rtdal_process_run a (c_processes c))\<rparr>) xss"
    "ctx_ok (c\<lparr>c_processes := snd (rtdal_process_stop a (c_processes c))\<rparr>) xss"
  using assms by (auto simp: rtdal_process_run_def rtdal_process_stop_def intro: ctx_ok_data)

lemma waveform_run_ok:
  assumes "node_ok s xss"
  shows "\<exists>s'. nod_waveform_run b s = (0, s') \<and> node_ok s' xss \<and> ns_w s' = ns_w s"
proof -
  let ?I = "\<lambda>i t. ns_w t = ns_w s \<and> ctx_ok (ns_c t) xss"
  have "\<exists>t'. nod_module_run b i t = (0, t') \<and> ?I (Suc i) t'" if i: "i < nof s" and t: "?I i t" for i t
  proof -
    have "owns s xss i" using assms i by (simp add: node_ok_def)
    then obtain a where "nm_process (smod s i) = Some a" unfolding owns_def by blast
    then have "nod_module_run b i t = (0, t\<lparr>ns_c := (ns_c t)\<lparr>c_processes :=
        snd ((if b then rtdal_process_run a else rtdal_process_stop a) (c_processes (ns_c t)))\<rparr>\<rparr>)"
      using t by (simp add: nod_module_run_def rtdal_process_run_def rtdal_process_stop_def)
    then show ?thesis using t ctx_ok_runnable [of "ns_c t" xss a] by simp
  qed
  moreover have "?I 0 s" using assms by (simp add: node_ok_def)
  ultimately have "\<exists>t. seq_rc (map (nod_module_run b) [0..<nof s]) s = (0, t) \<and> ?I (nof s) t" by (rule seq_rc_loop [where I = ?I])
  then show ?thesis using assms by (auto simp: nod_waveform_run_def node_ok_def owns_def)
qed

text \<open>One cycle of every module, as the pipelines run it while the caller sleeps.\<close>

definition cycles :: "'e node_os \<Rightarrow> 'e nstate \<Rightarrow> 'e nstate" where
  "cycles os s = fold (\<lambda>i s. snd (run_cycle os i s)) [0..<nof s] s"

lemma fold_loop:
  assumes "\<And>i s. i < n \<Longrightarrow> I i s \<Longrightarrow> I (Suc i) (f i s)" and "I 0 s"
  shows "I n (fold f [0..<n] s)"
  using assms by (induction n) simp_all

lemma run_cycle_loaded:
  assumes "node_wf (ns_w s)" "i < nof s" "ws_cur_status (nw_status (ns_w s)) = LOADED" "m_status (sparent s i) = PARSED"
  shows "snd (run_cycle os i s) = proc_do rtdal_process_stop i
    (upd_smod i (\<lambda>m. set_mstatus LOADED (m\<lparr>nm_init := True, nm_stop := True\<rparr>)) s)"
  using assms by (simp add: run_cycle_def cycle_status_def node_simps)

definition module_ready :: "nod_module_t \<Rightarrow> bool" where
  "module_ready m \<longleftrightarrow> m_status (nm_parent m) = LOADED \<and> nm_init m \<and> nm_stop m"

lemma module_ready_upd [simp]: "module_ready (set_mstatus LOADED (m\<lparr>nm_init := True, nm_stop := True\<rparr>))"
  by (simp add: module_ready_def)

lemma set_mstatus_parent [simp]: "nm_parent (set_mstatus st m) = (nm_parent m)\<lparr>m_status := st\<rparr>"
  by (simp add: set_mstatus_def)

lemma cycles_loaded:
  assumes s: "node_ok s xss" and st: "ws_cur_status (nw_status (ns_w s)) = LOADED"
    and par: "\<And>i. i < nof s \<Longrightarrow> m_status (sparent s i) = PARSED"
  shows "node_ok (cycles os s) xss \<and> nof (cycles os s) = nof s \<and> nw_id (ns_w (cycles os s)) = nw_id (ns_w s)
    \<and> (\<forall>i < nof s. module_ready (smod (cycles os s) i) \<and> sparent (cycles os s) i = (sparent s i)\<lparr>m_status := LOADED\<rparr>)"
proof -
  define P where "P = (\<lambda>i w. node_wf w \<and> nw_nof_modules w = nw_nof_modules (ns_w s) \<and> nw_status w = nw_status (ns_w s)
    \<and> nw_id w = nw_id (ns_w s) \<and> (\<forall>j < nof s. nm_process (nmod w j) = nm_process (smod s j)
        \<and> (if j < i then module_ready (nmod w j) \<and> nm_parent (nmod w j) = (sparent s j)\<lparr>m_status := LOADED\<rparr>
           else nm_parent (nmod w j) = sparent s j)))"
  let ?J = "\<lambda>i t. P i (ns_w t) \<and> ctx_ok (ns_c t) xss"
  have "?J (Suc i) (snd (run_cycle os i t))" if i: "i < nof s" and t: "?J i t" for i t
  proof -
    let ?t = "upd_smod i (\<lambda>m. set_mstatus LOADED (m\<lparr>nm_init := True, nm_stop := True\<rparr>)) t"
    have eq: "snd (run_cycle os i t) = proc_do rtdal_process_stop i ?t" using run_cycle_loaded [of t i os] t i st par [OF i] by (simp add: P_def)
    have "P (Suc i) (ns_w ?t)" using t i by (simp add: P_def node_simps less_Suc_eq)
    moreover have "ns_w (proc_do rtdal_process_stop i ?t) = ns_w ?t" by (simp add: proc_do_def split: option.split)
    moreover have "ctx_ok (ns_c (proc_do rtdal_process_stop i ?t)) xss"
      using t ctx_ok_runnable(2) [of "ns_c t" xss] by (simp add: proc_do_def split: option.split)
    ultimately show ?thesis by (simp only: eq)
  qed
  moreover have "?J 0 s" using s par by (simp add: node_ok_def P_def)
  ultimately have J: "?J (nof s) (cycles os s)" unfolding cycles_def by (rule fold_loop [where I = ?J])
  have "inj_on (\<lambda>i. nm_process (smod (cycles os s) i)) {..<nof s}"
    using s J inj_on_cong [of "{..<nof s}" "\<lambda>i. nm_process (smod (cycles os s) i)" "\<lambda>i. nm_process (smod s i)"]
    by (simp add: node_ok_def P_def)
  then show ?thesis using s J by (simp add: node_ok_def owns_def P_def)
qed

lemma waveform_load_ok:
  assumes s: "loadable os s xss" and st: "ws_cur_status (nw_status (ns_w s)) = LOADED"
    and par: "\<And>i. i < nof s \<Longrightarrow> m_status (sparent s i) = PARSED"
    and sleep: "\<And>us t. os_sleep os us t = (0, cycles os t)"
  obtains s' ys where "nod_waveform_load os s = Some (0, s')" "node_ok s' ys" "length ys = length xss" "nof s' = nof s"
    "nw_id (ns_w s') = nw_id (ns_w s)" "\<And>k. k < length xss \<Longrightarrow> set (xss ! k) \<subseteq> set (ys ! k)"
    "\<And>i. i < nof s \<Longrightarrow> module_ready (smod s' i) \<and> sparent s' i = (sparent s i)\<lparr>m_status := LOADED\<rparr>"
proof -
  have "\<exists>t'. nod_module_load os i t = Some (0, t') \<and> (\<exists>ys. loading s xss (Suc i) t' ys)"
    if "i < nof s" "\<exists>ys. loading s xss i t ys" for i t
    using loading_step [OF s that(1)] that(2) by blast
  moreover have "\<exists>ys. loading s xss 0 s ys" using s by (auto simp: loading_def loadable_def intro!: exI [of _ xss])
  ultimately have "\<exists>t. seq_o (map (nod_module_load os) [0..<nof s]) s = Some (0, t) \<and> (\<exists>ys. loading s xss (nof s) t ys)"
    by (rule seq_o_loop [where I = "\<lambda>i t. \<exists>ys. loading s xss i t ys"])
  then obtain t ys where t: "seq_o (map (nod_module_load os) [0..<nof s]) s = Some (0, t)" "loading s xss (nof s) t ys" by blast
  have "node_ok t ys" using t(2) by (simp add: loading_def node_ok_def)
  then obtain u where u: "nod_waveform_run True t = (0, u)" "node_ok u ys" "ns_w u = ns_w t"
    using waveform_run_ok by blast
  have nofs: "nof u = nof s" "ws_cur_status (nw_status (ns_w u)) = LOADED" "nw_id (ns_w u) = nw_id (ns_w s)"
    and pars: "\<And>i. i < nof u \<Longrightarrow> sparent u i = sparent s i"
    using t(2) u(3) st by (auto simp: loading_def loaded_from_def)
  have parsed: "\<And>i. i < nof u \<Longrightarrow> m_status (sparent u i) = PARSED" using pars par nofs by simp
  have c: "node_ok (cycles os u) ys" "nof (cycles os u) = nof u" "nw_id (ns_w (cycles os u)) = nw_id (ns_w u)"
    "\<And>i. i < nof u \<Longrightarrow> module_ready (smod (cycles os u) i) \<and> sparent (cycles os u) i = (sparent u i)\<lparr>m_status := LOADED\<rparr>"
    using cycles_loaded [OF u(2) nofs(2) parsed, of os] by simp_all
  then have "load_wait os (Suc n) u = (True, cycles os u)" for n using sleep by (simp add: module_ready_def)
  moreover have "DEFAULT_TIMEOUT = Suc 199" by (simp add: DEFAULT_TIMEOUT_def)
  ultimately have "load_wait os DEFAULT_TIMEOUT u = (True, cycles os u)" by metis
  then have l: "nod_waveform_load os s = Some (0, cycles os u)"
    unfolding nod_waveform_load_def seq_o_append t(1) by (simp add: u(1))
  show thesis
  proof (rule that [OF l c(1)])
    show "length ys = length xss" "\<And>k. k < length xss \<Longrightarrow> set (xss ! k) \<subseteq> set (ys ! k)" using t(2) by (simp_all add: loading_def)
    show "nof (cycles os u) = nof s" "nw_id (ns_w (cycles os u)) = nw_id (ns_w s)" using c(2,3) nofs by simp_all
    show "\<And>i. i < nof s \<Longrightarrow> module_ready (smod (cycles os u) i) \<and> sparent (cycles os u) i = (sparent s i)\<lparr>m_status := LOADED\<rparr>"
      using c(4) pars nofs(1) by simp
  qed
qed

text \<open>Loading a waveform: when every binary is found, the process table has room and the
  pipelines run the modules while the node waits, the call succeeds, every module has reported
  LOADED, and each has its own process on the pipeline that the mapping chose for it.\<close>

theorem waveform_load_succeeds:
  assumes s: "loadable os s xss" and st: "ws_cur_status (nw_status (ns_w s)) = LOADED"
    and par: "\<forall>i < nof s. m_status (sparent s i) = PARSED"
    and sleep: "\<forall>us t. os_sleep os us t = (0, cycles os t)"
  shows "\<exists>s' ys. nod_waveform_load os s = Some (0, s') \<and> node_ok s' ys \<and> length ys = length xss \<and> nof s' = nof s
    \<and> (\<forall>k < length xss. set (xss ! k) \<subseteq> set (ys ! k)) \<and> (\<forall>i < nof s. module_ready (smod s' i))"
  by (rule waveform_load_ok [OF s st par [rule_format] sleep [rule_format]]) blast+

lemma run_times_sleep: "run_times (os\<lparr>os_sleep := f\<rparr>) i n s = run_times os i n s"
proof (induction n arbitrary: s)
  case (Suc n)
  have "os_Run (os\<lparr>os_sleep := f\<rparr>) = os_Run os" by simp
  then show ?case by (simp only: run_times.simps Suc)
qed simp

lemma run_cycle_sleep: "run_cycle (os\<lparr>os_sleep := f\<rparr>) i s = run_cycle os i s"
proof -
  have "os_time (os\<lparr>os_sleep := f\<rparr>) = os_time os" "os_float (os\<lparr>os_sleep := f\<rparr>) = os_float os"
    "os_ts_len_ns (os\<lparr>os_sleep := f\<rparr>) = os_ts_len_ns os" by simp_all
  then show ?thesis by (simp only: run_cycle_def run_times_sleep)
qed

lemma cycles_sleep: "cycles (os\<lparr>os_sleep := f\<rparr>) s = cycles os s"
  by (simp only: cycles_def run_cycle_sleep)

definition ex_load_os :: "int list node_os" where
  "ex_load_os = ex_os\<lparr>os_sleep := \<lambda>_ s. (0, cycles ex_os s)\<rparr>"

definition ex_parsed :: "int \<Rightarrow> nod_module_t" where
  "ex_parsed k = snd (nod_module_alloc (nat k) (nod_module_zero\<lparr>nm_parent := module_zero\<lparr>m_id := k\<rparr>\<rparr>))"

definition ex_loading :: "int list nstate" where
  "ex_loading = (ex_nstate [])\<lparr>ns_w := nod_waveform_zero\<lparr>nw_id := 4, nw_nof_modules := 2,
     nw_modules := Some [ex_parsed 1, ex_parsed 2], nw_status := \<lparr>ws_cur_status = LOADED, ws_next_timeslot = 0\<rparr>\<rparr>\<rparr>"

lemma ex_loading_ok: "loadable ex_load_os ex_loading [[]]" "nof ex_loading = 2"
  "ws_cur_status (nw_status (ns_w ex_loading)) = LOADED" "\<forall>i < nof ex_loading. m_status (sparent ex_loading i) = PARSED"
proof -
  have "card (free_entries ex_context) = 200"
    by (simp add: free_entries_def ex_context_def ex_process_def rtdal_process_MAX_def)
  then show "loadable ex_load_os ex_loading [[]]"
    by (auto simp: loadable_def ex_loading_def ex_nstate_def node_wf_def ctx_ok_def pipe_ok_def members_ok_def ex_context_def
        group_ok_def MAX_PROCESS_GROUP_ID_def ex_load_os_def ex_os_def nmod_def get_elem_def ex_parsed_def context_arg_def nod_module_alloc_def
        oesr_context_init_def nod_module_zero_def module_zero_def less_Suc_eq numeral_2_eq_2)
  show "nof ex_loading = 2" "ws_cur_status (nw_status (ns_w ex_loading)) = LOADED" by (simp_all add: ex_loading_def)
  show "\<forall>i < nof ex_loading. m_status (sparent ex_loading i) = PARSED"
    by (auto simp: ex_loading_def nmod_def get_elem_def ex_parsed_def nod_module_alloc_def oesr_context_init_def nod_module_zero_def
        module_zero_def less_Suc_eq numeral_2_eq_2)
qed

theorem waveform_load_succeeds_witness:
  "\<exists>s' ys. nod_waveform_load ex_load_os ex_loading = Some (0, s') \<and> node_ok s' ys \<and> length ys = 1
    \<and> (\<forall>i < 2. module_ready (smod s' i))"
proof -
  have "\<forall>us t. os_sleep ex_load_os us t = (0, cycles ex_load_os t)"
    by (simp add: ex_load_os_def cycles_sleep)
  then show ?thesis using waveform_load_succeeds [OF ex_loading_ok(1,3,4)] ex_loading_ok(2) by auto
qed

end
