(* ===== verification/Dispatcher.thy ===== *)
theory Dispatcher
  imports Node_Life
begin

text \<open>
  Packets at the node: the transfer of waveforms (oesr/src/node/nod_waveform.c,
  nod_waveform_serialize and nod_waveform_unserializeTo), the table of loaded waveforms
  (nod_anode.c) and the dispatch of commands (nod_dispatcher.c).

  A load packet read into a free slot rebuilds the waveform that the manager serialised; a
  mode packet sets the next mode of exactly the modules that it names. A result None stands
  for a call that does not return or that reads outside the table of waveforms.
\<close>

section \<open>Transfer of waveforms\<close>

definition nod_waveform_serialize :: "bool \<Rightarrow> variable_serialize_data \<Rightarrow> nod_waveform_t \<Rightarrow> packet_t rc_fun" where
  "nod_waveform_serialize all_module copy_data src = seq_rc
     ([add_i (if all_module then 1 else 0), add_i (nw_nof_modules src)] @
      map (\<lambda>m. seq_rc [add_i (m_id (nm_parent m)),
          if all_module then module_serialize copy_data (nm_parent m) else execinfo_serialize (m_execinfo (nm_parent m))])
        (nmodules_of src))"

definition put_parent :: "nat \<Rightarrow> module_t \<Rightarrow> nod_waveform_t \<Rightarrow> nod_waveform_t" where
  "put_parent i x = upd_nmod i (\<lambda>m. m\<lparr>nm_parent := x\<rparr>)"

definition alloc_module :: "'e node_os \<Rightarrow> nat \<Rightarrow> nod_waveform_t rc_fun" where
  "alloc_module os i w = (let (r, m) = nod_module_alloc (os_context_addr os i) (nmod w i) in (r, upd_nmod i (\<lambda>_. m) w))"

text \<open>The case of a load packet. The code stores the waveform modes in an array of
  modes_MAX entries without testing their number; the model covers packets that respect it.\<close>

definition unserialize_load :: "'e node_os \<Rightarrow> nod_waveform_t reader" where
  "unserialize_load os = read_then get_i (\<lambda>tmp. seq_rc
     [get_into get_i (\<lambda>i d. d\<lparr>nw_id := i\<rparr>),
      get_into get_i (\<lambda>g d. d\<lparr>nw_tslot_multiplicity := (if g \<noteq> 0 then cdiv (cdiv (os_ts_len_ns os) 1000) g else 1)\<rparr>),
      get_into get_i (\<lambda>i d. d\<lparr>nw_precach_pipeline := i\<rparr>),
      get_into (get_struct STR_LEN) (\<lambda>bs d. d\<lparr>nw_name := bs\<rparr>),
      get_into get_i (\<lambda>i d. d\<lparr>nw_nof_modes := i\<rparr>),
      with_dest (\<lambda>d. seq_rc (map (\<lambda>i. focus (\<lambda>d. nw_modes d ! i) (\<lambda>x d. d\<lparr>nw_modes := (nw_modes d)[i := x]\<rparr>)
          waveform_mode_unserializeTo) [0..<nat (nw_nof_modes d)])),
      read_then get_i (\<lambda>nof_modules. seq_rc
        [on_dest (nod_waveform_alloc (os_calloc os) nof_modules),
         with_dest (\<lambda>d. seq_rc (map (\<lambda>i. seq_rc [on_dest (alloc_module os i),
             focus (\<lambda>d. nm_parent (nmod d i)) (put_parent i) (module_unserializeTo (os_calloc os) (copy_of tmp))])
           [0..<nat (nw_nof_modules d)]))]),
      on_dest (\<lambda>d. (0, d\<lparr>nw_status := (nw_status d)\<lparr>ws_cur_status := LOADED\<rparr>\<rparr>))])"

definition set_next_mode :: "module_mode_t \<Rightarrow> nod_module_t \<Rightarrow> nod_module_t" where
  "set_next_mode mode m = m\<lparr>nm_parent := (nm_parent m)\<lparr>m_mode := (m_mode (nm_parent m))
     \<lparr>mm_next_mode := mm_next_mode mode, mm_next_tslot := mm_next_tslot mode\<rparr>\<rparr>\<rparr>"

definition unserialize_mode_entry :: "nod_waveform_t reader" where
  "unserialize_mode_entry = read_then get_i (\<lambda>tmp. with_dest (\<lambda>d.
     let j = find_idx (\<lambda>m. m_id (nm_parent m) = tmp) (nmodules_of d)
     in if j = length (nmodules_of d) then (\<lambda>s. (-1, s))
        else get_into (get_struct sizeof_module_mode_t) (\<lambda>bs. upd_nmod j (set_next_mode (bytes_module_mode bs)))))"

definition unserialize_mode :: "nod_waveform_t reader" where
  "unserialize_mode = read_then get_i (\<lambda>nof_modules. seq_rc (replicate (nat nof_modules) unserialize_mode_entry))"

definition on_waveform :: "nod_waveform_t reader \<Rightarrow> packet_t \<times> 'e nstate \<Rightarrow> int \<times> (packet_t \<times> 'e nstate)" where
  "on_waveform f = focus ns_w (\<lambda>w s. s\<lparr>ns_w := w\<rparr>) f"

definition nod_waveform_unserializeTo :: "'e node_os \<Rightarrow> (packet_t \<times> 'e nstate) orc_fun" where
  "nod_waveform_unserializeTo os ps = (case get_i (fst ps) of
      (None, p) \<Rightarrow> Some (-1, (p, snd ps))
    | (Some tmp, p) \<Rightarrow> (case action_of tmp of
          WAVEFORM_LOAD \<Rightarrow> Some (on_waveform (unserialize_load os) (p, snd ps))
        | WAVEFORM_STATUS \<Rightarrow>
            (case get_struct sizeof_waveform_status_t p of
               (None, p2) \<Rightarrow> Some (-1, (p2, snd ps))
             | (Some bs, p2) \<Rightarrow>
                 (case nod_waveform_status_new os (bytes_status bs) (snd ps) of
                    None \<Rightarrow> None
                  | Some (r, s1) \<Rightarrow>
                      if r \<noteq> 0 then map_option (\<lambda>(r2, s2). (-1, (p2, s2))) (nod_waveform_status_stop os s1)
                      else Some (0, (p2, s1))))
        | WAVEFORM_MODE \<Rightarrow> Some (on_waveform unserialize_mode (p, snd ps))
        | ACTION_OTHER _ \<Rightarrow> Some (0, (p, snd ps))))"

section \<open>Table of waveforms and commands\<close>

record 'e nod_anode_t =
  an_waveforms :: "nod_waveform_t list"
  an_c :: rtdal_context_t
  an_multiple :: int
  an_env :: 'e

definition nod_anode_initialize_waveforms :: "int \<Rightarrow> 'e nod_anode_t \<Rightarrow> 'e nod_anode_t" where
  "nod_anode_initialize_waveforms max_waveforms an = an\<lparr>an_waveforms := replicate (nat max_waveforms) nod_waveform_zero\<rparr>"

definition slot_state :: "nat \<Rightarrow> 'e nod_anode_t \<Rightarrow> 'e nstate" where
  "slot_state i an = \<lparr>ns_w = an_waveforms an ! i, ns_c = an_c an, ns_multiple = an_multiple an, ns_env = an_env an\<rparr>"

definition put_slot :: "nat \<Rightarrow> 'e nod_anode_t \<Rightarrow> 'e nstate \<Rightarrow> 'e nod_anode_t" where
  "put_slot i an s = an\<lparr>an_waveforms := (an_waveforms an)[i := ns_w s], an_c := ns_c s, an_multiple := ns_multiple s,
     an_env := ns_env s\<rparr>"

definition nod_dispatcher_load :: "'e node_os \<Rightarrow> (packet_t \<times> 'e nod_anode_t) orc_fun" where
  "nod_dispatcher_load os pa = (let (p, an) = pa;
       i = find_idx (\<lambda>w. ws_cur_status (nw_status w) = STOP) (an_waveforms an) in
     if i = length (an_waveforms an) then Some (-1, pa)
     else case nod_waveform_unserializeTo os (p, slot_state i an) of
         None \<Rightarrow> None
       | Some (r, (p1, s1)) \<Rightarrow>
           if r \<noteq> 0 then Some (-1, (p1, put_slot i an s1))
           else case nod_waveform_load os s1 of
               None \<Rightarrow> None
             | Some (r, s2) \<Rightarrow>
                 if r \<noteq> 0 then map_option (\<lambda>(_, s3). (-1, (p1, put_slot i an s3))) (nod_waveform_remove os s2)
                 else Some (0, (p1, put_slot i an s2)))"

text \<open>The search for a module as the code writes it: the bound is the number of modules of
  the waveform mi.\<close>

function find_mi :: "nod_waveform_t list \<Rightarrow> nat \<Rightarrow> int \<Rightarrow> nat \<Rightarrow> nat option" where
  "find_mi ws wi module_id mi =
     (if length ws \<le> mi then None
      else if int mi < nw_nof_modules (ws ! mi) then
        (if length (nmodules_of (ws ! wi)) \<le> mi then None
         else if m_id (nm_parent (nmod (ws ! wi) mi)) = module_id then Some mi
         else find_mi ws wi module_id (Suc mi))
      else Some mi)"
  by auto
termination by (relation "measure (\<lambda>(ws, wi, m, mi). length ws - mi)") auto

text \<open>The search for a variable, with the number of variables of module mi of waveform mi.\<close>

definition find_vi :: "nod_waveform_t list \<Rightarrow> nat \<Rightarrow> nat \<Rightarrow> int \<Rightarrow> (nat \<times> nat) option" where
  "find_vi ws wi mi variable_id =
     (if length ws \<le> mi \<or> length (nmodules_of (ws ! mi)) \<le> mi \<or> length (nmodules_of (ws ! wi)) \<le> mi then None
      else let n = nat (m_nof_variables (nm_parent (nmod (ws ! mi) mi)));
               vs = variables_of (nm_parent (nmod (ws ! wi) mi));
               vi = find_idx (\<lambda>v. v_id v = variable_id) (take n vs)
           in if vi = length vs \<and> vi < n then None else Some (vi, n))"

text \<open>The common part of set and get: the addressed object.\<close>

datatype target = Whole nat | Var nat nat nat

definition find_target :: "packet_dest_t \<Rightarrow> nod_waveform_t list \<Rightarrow> target option option" where
  "find_target dest ws =
     (if dst_waveform_id dest = 0 then Some None
      else let wi = find_idx (\<lambda>w. nw_id w = dst_waveform_id dest) ws in
        if wi = length ws then Some None
        else if dst_module_id dest = 0 \<and> dst_variable_id dest = 0 then Some (Some (Whole wi))
        else if dst_module_id dest = 0 then Some None
        else case find_mi ws wi (dst_module_id dest) 0 of
            None \<Rightarrow> None
          | Some mi \<Rightarrow>
              if int mi = nw_nof_modules (ws ! wi) then Some None
              else if dst_variable_id dest = 0 then Some None
              else (case find_vi ws wi mi (dst_variable_id dest) of
                  None \<Rightarrow> None
                | Some (vi, n) \<Rightarrow> if vi = n then Some None else Some (Some (Var wi mi vi))))"

definition focus_var :: "nat \<Rightarrow> nat \<Rightarrow> nat \<Rightarrow> variable_t reader \<Rightarrow> 'e nod_anode_t reader" where
  "focus_var wi mi vi = focus (\<lambda>an. get_elem vi (m_variables (nm_parent (nmod (an_waveforms an ! wi) mi))))
     (\<lambda>v an. an\<lparr>an_waveforms := (an_waveforms an)[wi := upd_nmod mi (\<lambda>m. m\<lparr>nm_parent := (nm_parent m)
        \<lparr>m_variables := upd_elem vi v (m_variables (nm_parent m))\<rparr>\<rparr>) (an_waveforms an ! wi)]\<rparr>)"

definition nod_dispatcher_set :: "'e node_os \<Rightarrow> (packet_t \<times> 'e nod_anode_t) orc_fun" where
  "nod_dispatcher_set os pa = (let (p, an) = pa in
     case packet_get_dest p of
       None \<Rightarrow> None
     | Some dest \<Rightarrow> (case find_target dest (an_waveforms an) of
           None \<Rightarrow> None
         | Some None \<Rightarrow> Some (-1, pa)
         | Some (Some (Whole wi)) \<Rightarrow>
             map_option (\<lambda>(r, (p1, s1)). (if r \<noteq> 0 then -1 else 0, (p1, put_slot wi an s1)))
               (nod_waveform_unserializeTo os (p, slot_state wi an))
         | Some (Some (Var wi mi vi)) \<Rightarrow>
             (let (r, pa1) = focus_var wi mi vi (variable_unserializeTo (os_calloc os) CP_VALUE (nw_nof_modes (an_waveforms an ! mi))) pa
              in Some (if r \<noteq> 0 then -1 else 0, pa1))))"

definition nod_dispatcher_get :: "(packet_t \<times> 'e nod_anode_t) orc_fun" where
  "nod_dispatcher_get pa = (let (p, an) = pa in
     case packet_get_dest p of
       None \<Rightarrow> None
     | Some dest \<Rightarrow> (case find_target dest (an_waveforms an) of
           None \<Rightarrow> None
         | Some None \<Rightarrow> Some (-1, pa)
         | Some (Some (Whole wi)) \<Rightarrow>
             (let (r, p1) = nod_waveform_serialize False NONE (an_waveforms an ! wi) p in Some (if r \<noteq> 0 then -1 else 0, (p1, an)))
         | Some (Some (Var wi mi vi)) \<Rightarrow>
             (let (r, p1) = variable_serialize CP_VALUE (nw_nof_modes (an_waveforms an ! mi))
                  (get_elem vi (m_variables (nm_parent (nmod (an_waveforms an ! wi) mi)))) p
              in Some (if r \<noteq> 0 then -1 else 0, (p1, an)))))"

definition cleared :: "int \<times> (packet_t \<times> 'a) \<Rightarrow> int \<times> (packet_t \<times> 'a)" where
  "cleared x = (case x of (n, (p, an)) \<Rightarrow> (n, (snd (packet_clear p), an)))"

definition nod_anode_dispatch :: "'e node_os \<Rightarrow> (packet_t \<times> 'e nod_anode_t) orc_fun" where
  "nod_anode_dispatch os pa = (case packet_get_cmd (fst pa) of
      Some CMD_LOAD \<Rightarrow> map_option cleared (nod_dispatcher_load os pa)
    | Some CMD_SET \<Rightarrow> map_option cleared (nod_dispatcher_set os pa)
    | Some CMD_GET \<Rightarrow> nod_dispatcher_get pa
    | _ \<Rightarrow> Some (-1, pa))"

end
