(* ===== verification/Waveform_Codec.thy ===== *)
theory Waveform_Codec
  imports Dispatcher
begin

text \<open>
  Round trips of whole waveforms between manager and node, over waveform_serialize and
  waveform_unserializeTo (oesr/src/common/serializable.c) on one side and
  nod_waveform_unserializeTo and nod_waveform_serialize (oesr/src/node/nod_waveform.c) on
  the other: the load packet, the mode packet and the update of the execution data.
\<close>

section \<open>Load packets\<close>

definition waveform_ok :: "int \<Rightarrow> waveform_t \<Rightarrow> bool" where
  "waveform_ok node w \<longleftrightarrow> in_int32 (w_id w) \<and> in_int32 (w_granularity_us w) \<and> in_int32 (w_precach_pipeline w)
     \<and> length (w_name w) = STR_LEN \<and> 0 \<le> w_nof_modes w \<and> w_nof_modes w \<le> int modes_MAX \<and> length (w_modes w) = modes_MAX
     \<and> (\<forall>m \<in> set (take (nat (w_nof_modes w)) (w_modes w)). waveform_mode_ok m)
     \<and> length (node_modules node w) < 2 ^ 31 \<and> (\<forall>m \<in> set (node_modules node w). module_ok m)"

definition load_tail :: "int \<Rightarrow> waveform_t \<Rightarrow> bytes" where
  "load_tail node w = int_bytes (w_id w) @ int_bytes (w_granularity_us w) @ int_bytes (w_precach_pipeline w) @ w_name w
     @ int_bytes (w_nof_modes w) @ concat (map waveform_mode_bytes (take (nat (w_nof_modes w)) (w_modes w)))
     @ int_bytes (int (length (node_modules node w))) @ concat (map module_bytes (node_modules node w))"

definition load_bytes :: "int \<Rightarrow> waveform_t \<Rightarrow> bytes" where
  "load_bytes node w = int_bytes 0 @ int_bytes 2 @ load_tail node w"

lemma emits_add: "emits (seq_rc fs) b \<Longrightarrow> emits (seq_rc (add_i i # fs)) (int_bytes i @ b)"
  by (rule emits_seq_Cons [OF emits_add_i])

lemma emits_block: "int (length bs) = len \<Longrightarrow> emits (seq_rc fs) b \<Longrightarrow> emits (seq_rc (packet_add_data (Some bs) len # fs)) (bs @ b)"
  by (rule emits_seq_Cons [OF emits_packet_add_data])

lemma emits_waveform_load:
  assumes w: "waveform_ok node w"
  shows "emits (waveform_serialize node WAVEFORM_LOAD CP_INIT w) (load_bytes node w)"
proof -
  let ?ms = "node_modules node w"
  have "emits (seq_rc (map waveform_mode_serialize (take (nat (w_nof_modes w)) (w_modes w))))
      (concat (map waveform_mode_bytes (take (nat (w_nof_modes w)) (w_modes w))))"
    using w by (intro emits_seq_map emits_waveform_mode) (auto simp: waveform_ok_def)
  moreover have "emits (seq_rc (map (module_serialize CP_INIT) ?ms)) (concat (map module_bytes ?ms))"
    using w by (intro emits_seq_map emits_module) (auto simp: waveform_ok_def)
  then have "emits (seq_rc ([add_i (int (length ?ms))] @ map (module_serialize CP_INIT) ?ms))
      (int_bytes (int (length ?ms)) @ concat (map module_bytes ?ms))"
    unfolding append.simps by (rule emits_add)
  ultimately have tail: "emits (seq_rc (map waveform_mode_serialize (take (nat (w_nof_modes w)) (w_modes w)) @
        [add_i (int (length ?ms))] @ map (module_serialize CP_INIT) ?ms))
      (concat (map waveform_mode_bytes (take (nat (w_nof_modes w)) (w_modes w)))
        @ int_bytes (int (length ?ms)) @ concat (map module_bytes ?ms))" by (rule emits_seq_append)
  have name: "int (length (w_name w)) = int STR_LEN" using w by (simp add: waveform_ok_def)
  show ?thesis
    unfolding waveform_serialize_def load_bytes_def load_tail_def waveform_serialize_action.case action_code.simps copy_code.simps append.simps
    by (intro emits_add emits_block name tail [unfolded append.simps])
qed

text \<open>The waveform that a node holds after reading the packet into the slot d.\<close>

definition received_module :: "'e node_os \<Rightarrow> nat \<Rightarrow> module_t \<Rightarrow> nod_module_t" where
  "received_module os i m = (snd (nod_module_alloc (os_context_addr os i) nod_module_zero))\<lparr>nm_parent := module_received m\<rparr>"

definition received_modules :: "'e node_os \<Rightarrow> module_t list \<Rightarrow> nod_module_t list" where
  "received_modules os ms = map (\<lambda>i. received_module os i (ms ! i)) [0..<length ms]"

definition waveform_header :: "'e node_os \<Rightarrow> waveform_t \<Rightarrow> nod_waveform_t \<Rightarrow> nod_waveform_t" where
  "waveform_header os w d = d\<lparr>nw_id := w_id w,
     nw_tslot_multiplicity := (if w_granularity_us w \<noteq> 0 then cdiv (cdiv (os_ts_len_ns os) 1000) (w_granularity_us w) else 1),
     nw_precach_pipeline := w_precach_pipeline w, nw_name := w_name w, nw_nof_modes := w_nof_modes w,
     nw_modes := take (nat (w_nof_modes w)) (w_modes w) @ drop (nat (w_nof_modes w)) (nw_modes d)\<rparr>"

definition waveform_received :: "'e node_os \<Rightarrow> int \<Rightarrow> waveform_t \<Rightarrow> nod_waveform_t \<Rightarrow> nod_waveform_t" where
  "waveform_received os node w d = (waveform_header os w d)\<lparr>nw_modules := Some (received_modules os (node_modules node w)),
     nw_nof_modules := int (length (node_modules node w)), nw_status := (nw_status d)\<lparr>ws_cur_status := LOADED\<rparr>\<rparr>"

lemma loads_modes:
  assumes ok: "\<forall>m \<in> set (take n ms). waveform_mode_ok m" and len: "n \<le> length ms" "n \<le> length (nw_modes d)"
  shows "loads (seq_rc (map (\<lambda>i. focus (\<lambda>d. nw_modes d ! i) (\<lambda>x d. d\<lparr>nw_modes := (nw_modes d)[i := x]\<rparr>)
      waveform_mode_unserializeTo) [0..<n])) (concat (map waveform_mode_bytes (take n ms)))
    d (d\<lparr>nw_modes := take n ms @ drop n (nw_modes d)\<rparr>)"
proof -
  let ?D = "\<lambda>i. d\<lparr>nw_modes := take i ms @ drop i (nw_modes d)\<rparr>"
  let ?step = "\<lambda>i. focus (\<lambda>d. nw_modes d ! i) (\<lambda>x d. d\<lparr>nw_modes := (nw_modes d)[i := x]\<rparr>) waveform_mode_unserializeTo"
  have "loads (?step i) (waveform_mode_bytes (ms ! i)) (?D i) (?D (Suc i))" if i: "i < n" for i
  proof (rule loads_focus [OF loads_waveform_mode])
    have "ms ! i \<in> set (take n ms)" using i len by (metis in_set_conv_nth length_take min.absorb2 nth_take)
    then show "waveform_mode_ok (ms ! i)" using ok by blast
    have "(take i ms @ drop i (nw_modes d))[i := ms ! i] = take (Suc i) ms @ drop (Suc i) (nw_modes d)"
      using i len by (simp add: list_update_append min_absorb2 take_Suc_conv_app_nth) (metis Cons_nth_drop_Suc le_trans less_le_trans list_update_code(2) not_less_eq_eq)
    then show "?D (Suc i) = ?D i\<lparr>nw_modes := (nw_modes (?D i))[i := ms ! i]\<rparr>" by simp
  qed
  then have "loads (seq_rc (map ?step [0..<n])) (concat (map (\<lambda>i. waveform_mode_bytes (ms ! i)) [0..<n])) (?D 0) (?D n)"
    by (rule loads_loop)
  moreover have "map (\<lambda>i. waveform_mode_bytes (ms ! i)) [0..<n] = map waveform_mode_bytes (take n ms)"
    using len by (intro nth_equalityI) simp_all
  ultimately show ?thesis by simp
qed

lemma loads_received_modules:
  assumes ok: "\<forall>m \<in> set ms. module_ok m" and mem: "\<And>n sz. os_calloc os n sz" and addr: "\<And>i. os_context_addr os i \<noteq> 0"
    and d: "nw_nof_modules d = int (length ms)"
  shows "loads (seq_rc (map (\<lambda>i. seq_rc [on_dest (alloc_module os i),
             focus (\<lambda>d. nm_parent (nmod d i)) (put_parent i) (module_unserializeTo (os_calloc os) CP_INIT)]) [0..<length ms]))
     (concat (map module_bytes ms)) (d\<lparr>nw_modules := Some (replicate (length ms) nod_module_zero)\<rparr>)
     (d\<lparr>nw_modules := Some (received_modules os ms)\<rparr>)"
proof -
  let ?S = "\<lambda>xs. d\<lparr>nw_modules := Some xs\<rparr>"
  let ?step = "\<lambda>i. seq_rc [on_dest (alloc_module os i),
     focus (\<lambda>d. nm_parent (nmod d i)) (put_parent i) (module_unserializeTo (os_calloc os) CP_INIT)]"
  have step: "loads (?step i) (module_bytes (ms ! i)) (?S xs) (?S (xs[i := received_module os i (ms ! i)]))"
    if i: "i < length ms" "i < length xs" "xs ! i = nod_module_zero" for i xs
  proof (rule loads_seq_on_dest)
    let ?m = "snd (nod_module_alloc (os_context_addr os i) nod_module_zero)"
    have m: "nod_module_alloc (os_context_addr os i) nod_module_zero = (0, ?m)" "nm_parent ?m = module_zero"
      using addr by (simp_all add: nod_module_alloc_def oesr_context_init_def nod_module_zero_def module_zero_def)
    show "alloc_module os i (?S xs) = (0, ?S (xs[i := ?m]))"
      using i arg_cong [OF m(1), of fst] by (simp add: alloc_module_def nmod_def get_elem_def upd_nmod_def upd_elem_def case_prod_beta)
    have zero: "nm_parent (nmod (?S (xs[i := ?m])) i) = module_zero"
      using i m(2) by (simp add: nmod_def get_elem_def)
    have "module_ok (ms ! i)" using ok i by simp
    then have "loads (module_unserializeTo (os_calloc os) CP_INIT) (module_bytes (ms ! i))
        (nm_parent (nmod (?S (xs[i := ?m])) i)) (module_received (ms ! i))" unfolding zero using mem by (rule loads_module)
    moreover have "?S (xs[i := received_module os i (ms ! i)]) = put_parent i (module_received (ms ! i)) (?S (xs[i := ?m]))"
      using i by (simp add: put_parent_def upd_nmod_def nmod_def get_elem_def upd_elem_def received_module_def)
    ultimately show "loads (seq_rc [focus (\<lambda>d. nm_parent (nmod d i)) (put_parent i) (module_unserializeTo (os_calloc os) CP_INIT)])
        (module_bytes (ms ! i)) (?S (xs[i := ?m])) (?S (xs[i := received_module os i (ms ! i)]))"
      by (intro loads_seq_single loads_focus)
  qed
  have "loads (seq_rc (map ?step [0..<length ms])) (concat (map (\<lambda>i. module_bytes (ms ! i)) [0..<length ms]))
      (?S (replicate (length ms) nod_module_zero @ [])) (?S (map (\<lambda>i. received_module os i (ms ! i)) [0..<length ms] @ []))"
    by (rule loads_fill [where S = ?S and y = "\<lambda>i. received_module os i (ms ! i)"]) (rule step)
  then show ?thesis by (simp add: received_modules_def concat_map_nth)
qed

lemma loads_waveform_load:
  assumes w: "waveform_ok node w" and mem: "\<And>n sz. os_calloc os n sz" and addr: "\<And>i. os_context_addr os i \<noteq> 0"
    and d: "length (nw_modes d) = modes_MAX"
  shows "loads (unserialize_load os) (int_bytes 2 @ load_tail node w) d (waveform_received os node w d)"
proof -
  let ?ms = "node_modules node w" and ?n = "nat (w_nof_modes w)"
  have int: "in_int32 2" "in_int32 (w_id w)" "in_int32 (w_granularity_us w)" "in_int32 (w_precach_pipeline w)" "in_int32 (w_nof_modes w)"
    "in_int32 (int (length ?ms))" "length (w_name w) = STR_LEN" "0 < STR_LEN"
    using w by (simp_all add: waveform_ok_def in_int32_def modes_MAX_def STR_LEN_def)
  define h where "h = waveform_header os w d"
  have modes: "\<forall>m \<in> set (take ?n (w_modes w)). waveform_mode_ok m" "?n \<le> length (w_modes w)" "?n \<le> length (nw_modes d)"
    using w d by (auto simp: waveform_ok_def modes_MAX_def)
  have alloc: "nod_waveform_alloc (os_calloc os) (int (length ?ms)) h
      = (0, h\<lparr>nw_nof_modules := int (length ?ms), nw_modules := Some (replicate (length ?ms) nod_module_zero)\<rparr>)"
    using mem w by (simp add: nod_waveform_alloc_def pool_alloc_def size_t_nat waveform_ok_def)
  let ?h1 = "h\<lparr>nw_nof_modules := int (length ?ms)\<rparr>"
  have ms: "loads (with_dest (\<lambda>d. seq_rc (map (\<lambda>i. seq_rc [on_dest (alloc_module os i),
             focus (\<lambda>d. nm_parent (nmod d i)) (put_parent i) (module_unserializeTo (os_calloc os) (copy_of 2))])
           [0..<nat (nw_nof_modules d)]))) (concat (map module_bytes ?ms))
      (?h1\<lparr>nw_modules := Some (replicate (length ?ms) nod_module_zero)\<rparr>) (?h1\<lparr>nw_modules := Some (received_modules os ?ms)\<rparr>)"
    using w mem addr loads_received_modules [of ?ms os ?h1] by (intro loads_with_dest) (simp add: waveform_ok_def copy_of_def)
  have arr: "loads (read_then get_i (\<lambda>nof_modules. seq_rc
        [on_dest (nod_waveform_alloc (os_calloc os) nof_modules),
         with_dest (\<lambda>d. seq_rc (map (\<lambda>i. seq_rc [on_dest (alloc_module os i),
             focus (\<lambda>d. nm_parent (nmod d i)) (put_parent i) (module_unserializeTo (os_calloc os) (copy_of 2))])
           [0..<nat (nw_nof_modules d)]))])) (int_bytes (int (length ?ms)) @ concat (map module_bytes ?ms))
      h (?h1\<lparr>nw_modules := Some (received_modules os ?ms)\<rparr>)"
    by (rule loads_read_then [OF takes_get_i [OF int(6)]], rule loads_seq_on_dest, rule alloc, rule loads_seq_single) (rule ms)
  have "?h1\<lparr>nw_modules := Some (received_modules os ?ms), nw_status := (nw_status ?h1)\<lparr>ws_cur_status := LOADED\<rparr>\<rparr> = waveform_received os node w d"
    by (simp add: waveform_received_def h_def waveform_header_def)
  then have fin: "loads (on_dest (\<lambda>d. (0, d\<lparr>nw_status := (nw_status d)\<lparr>ws_cur_status := LOADED\<rparr>\<rparr>))) []
      (?h1\<lparr>nw_modules := Some (received_modules os ?ms)\<rparr>) (waveform_received os node w d)"
    by (intro loads_on_dest) simp
  note last = loads_seq_Cons [OF arr loads_seq_single [OF fin], unfolded append_Nil2]
  let ?d1 = "d\<lparr>nw_id := w_id w,
     nw_tslot_multiplicity := (if w_granularity_us w \<noteq> 0 then cdiv (cdiv (os_ts_len_ns os) 1000) (w_granularity_us w) else 1),
     nw_precach_pipeline := w_precach_pipeline w, nw_name := w_name w, nw_nof_modes := w_nof_modes w\<rparr>"
  have "h = ?d1\<lparr>nw_modes := take ?n (w_modes w) @ drop ?n (nw_modes ?d1)\<rparr>" by (simp add: h_def waveform_header_def)
  then have md: "loads (with_dest (\<lambda>d. seq_rc (map (\<lambda>i. focus (\<lambda>d. nw_modes d ! i) (\<lambda>x d. d\<lparr>nw_modes := (nw_modes d)[i := x]\<rparr>)
          waveform_mode_unserializeTo) [0..<nat (nw_nof_modes d)])))
      (concat (map waveform_mode_bytes (take ?n (w_modes w)))) ?d1 h"
    using loads_modes [of ?n "w_modes w" ?d1] modes by (intro loads_with_dest) simp
  note rest = loads_seq_Cons [OF md last]
  show ?thesis unfolding unserialize_load_def load_tail_def
    by (rule loads_read_then [OF takes_get_i [OF int(1)]], rule loads_seq_get_i [OF int(2)], rule loads_seq_get_i [OF int(3)],
        rule loads_seq_get_i [OF int(4)], rule loads_seq_get_struct [OF int(7,8)], rule loads_seq_get_i [OF int(5)]) (rule rest)
qed

definition ex_waveform :: waveform_t where
  "ex_waveform = waveform_zero\<lparr>w_id := 7, w_modules := Some [ex_module, ex_module\<lparr>m_id := 4, m_node := 6\<rparr>], w_nof_modules := 2,
     w_nof_modes := 1, w_granularity_us := 500, w_modules_x_node := 1 # replicate 9 0\<rparr>"

lemma ex_node_modules: "node_modules 5 ex_waveform = [ex_module]"
  by (simp add: node_modules_def modules_of_def ex_waveform_def ex_module_def)

lemma ex_waveform_ok: "waveform_ok 5 ex_waveform"
  by (simp add: waveform_ok_def ex_node_modules ex_module_ok)
    (simp add: ex_waveform_def in_int32_def waveform_zero_def str_zero_def modes_MAX_def waveform_mode_ok_def waveform_mode_zero_def)

lemma length_ex_load: "length (load_bytes 5 ex_waveform) = 284 + length (module_bytes ex_module)"
  by (simp add: load_bytes_def load_tail_def ex_node_modules)
    (simp add: ex_waveform_def waveform_zero_def str_zero_def STR_LEN_def modes_MAX_def waveform_mode_zero_def waveform_mode_bytes_def)

text \<open>The node's side of a load packet.\<close>

lemma unserialize_load_packet:
  assumes "waveform_ok node w" "\<And>n sz. os_calloc os n sz" "\<And>i. os_context_addr os i \<noteq> 0" "length (nw_modes (ns_w s)) = modes_MAX"
    and p: "packet_wf p" "packet_unread p = load_bytes node w @ rest"
  shows "nod_waveform_unserializeTo os (p, s)
    = Some (0, (packet_skip (length (load_bytes node w)) p, s\<lparr>ns_w := waveform_received os node w (ns_w s)\<rparr>))"
proof -
  have "in_int32 0" by (simp add: in_int32_def)
  then have g: "get_i p = (Some 0, packet_skip 4 p)"
    using takesD [OF takes_get_i, of 0 p "int_bytes 2 @ load_tail node w @ rest"] p by (simp add: load_bytes_def)
  have "packet_unread (packet_skip 4 p) = (int_bytes 2 @ load_tail node w) @ rest" "packet_wf (packet_skip 4 p)"
    using p by (simp_all add: load_bytes_def)
  then have "unserialize_load os (packet_skip 4 p, ns_w s)
      = (0, (packet_skip (length (int_bytes 2 @ load_tail node w)) (packet_skip 4 p), waveform_received os node w (ns_w s)))"
    using loadsD [OF loads_waveform_load [OF assms(1-4)]] by blast
  then show ?thesis using g
    by (simp add: nod_waveform_unserializeTo_def action_of_def on_waveform_def focus_def load_bytes_def)
qed

text \<open>C8. A waveform survives the transfer to a node: serialising it for the node fits in the packet
  and reading the packet into a slot rebuilds the header, the modes and exactly the modules
  mapped to that node, each with a fresh context.\<close>

theorem waveform_roundtrip:
  assumes "waveform_ok node w" "\<forall>n sz. os_calloc os n sz" "\<forall>i. os_context_addr os i \<noteq> 0" "length (nw_modes (ns_w s)) = modes_MAX"
    and p: "packet_wf p" "packet_unread p = []" "length (load_bytes node w) \<le> packet_room p"
  shows "fst (waveform_serialize node WAVEFORM_LOAD CP_INIT w p) = 0
    \<and> (\<exists>p'. nod_waveform_unserializeTo os (snd (waveform_serialize node WAVEFORM_LOAD CP_INIT w p), s)
          = Some (0, (p', s\<lparr>ns_w := waveform_received os node w (ns_w s)\<rparr>)) \<and> packet_unread p' = [])"
proof -
  have e: "waveform_serialize node WAVEFORM_LOAD CP_INIT w p = (0, packet_append (load_bytes node w) p)"
    using emitsD [OF emits_waveform_load [OF assms(1)] p(1,3)] .
  let ?q = "packet_append (load_bytes node w) p"
  have q: "packet_wf ?q" "packet_unread ?q = load_bytes node w @ []" using p by (simp_all add: packet_unread_append)
  then have "nod_waveform_unserializeTo os (?q, s)
      = Some (0, (packet_skip (length (load_bytes node w)) ?q, s\<lparr>ns_w := waveform_received os node w (ns_w s)\<rparr>))"
    using unserialize_load_packet [OF assms(1) _ _ assms(4)] assms(2,3) by blast
  then show ?thesis using e q by simp
qed

theorem waveform_roundtrip_witness:
  "\<exists>p'. nod_waveform_unserializeTo ex_os (snd (waveform_serialize 5 WAVEFORM_LOAD CP_INIT ex_waveform ex_packet), ex_nstate [])
     = Some (0, (p', (ex_nstate [])\<lparr>ns_w := waveform_received ex_os 5 ex_waveform (ns_w (ex_nstate []))\<rparr>))"
proof -
  have "\<forall>n sz. os_calloc ex_os n sz" "\<forall>i. os_context_addr ex_os i \<noteq> 0" "length (nw_modes (ns_w (ex_nstate []))) = modes_MAX"
    by (simp_all add: ex_os_def ex_nstate_def nod_waveform_zero_def)
  then show ?thesis using waveform_roundtrip [OF ex_waveform_ok, of ex_os "ex_nstate []" ex_packet]
    by (auto simp: ex_packet_facts length_ex_load length_ex_module_bytes)
qed

section \<open>Mode packets\<close>

text \<open>The writer of the mode case ignores the result of one call, so that it reports no lack of
  room; with enough room it writes its bytes.\<close>

definition writes :: "packet_t rc_fun \<Rightarrow> bytes \<Rightarrow> bool" where
  "writes f bs \<longleftrightarrow> (\<forall>p. packet_wf p \<and> length bs \<le> packet_room p \<longrightarrow> f p = (0, packet_append bs p))"

lemma emits_writes: "emits f bs \<Longrightarrow> writes f bs"
  by (auto simp: writes_def intro: emitsD)

lemma writes_forget: "writes f bs \<Longrightarrow> writes (\<lambda>p. (0, snd (f p))) bs"
  by (simp add: writes_def)

lemma writes_Nil: "writes (seq_rc []) []"
  by (simp add: writes_def)

lemma writes_Cons: "writes f a \<Longrightarrow> writes (seq_rc fs) b \<Longrightarrow> writes (seq_rc (f # fs)) (a @ b)"
  by (auto simp: writes_def packet_append_append)

lemma writes_add: "writes (seq_rc fs) b \<Longrightarrow> writes (seq_rc (add_i i # fs)) (int_bytes i @ b)"
  by (rule writes_Cons [OF emits_writes [OF emits_add_i]])

definition mode_bytes :: "module_t \<Rightarrow> bytes" where
  "mode_bytes m = int_bytes (m_id m) @ module_mode_bytes (m_mode m)"

definition mode_packet :: "int \<Rightarrow> waveform_t \<Rightarrow> bytes" where
  "mode_packet node w = int_bytes 2 @ int_bytes (int (length (node_modules node w))) @ concat (map mode_bytes (node_modules node w))"

lemma writes_waveform_mode:
  assumes "\<forall>m \<in> set (node_modules node w). module_mode_ok (m_mode m)"
  shows "writes (waveform_serialize node WAVEFORM_MODE c w) (mode_packet node w)"
proof -
  have "writes (seq_rc (concat (map (\<lambda>m. [add_i (m_id m),
              (\<lambda>p. (0, snd (packet_add_data (Some (module_mode_bytes (m_mode m))) (int sizeof_module_mode_t) p)))]) ms)))
      (concat (map mode_bytes ms))" if "\<forall>m \<in> set ms. module_mode_ok (m_mode m)" for ms
    using that
  proof (induction ms)
    case Nil
    then show ?case by (simp add: writes_Nil del: seq_rc.simps)
  next
    case (Cons m ms)
    have "writes (\<lambda>p. (0, snd (packet_add_data (Some (module_mode_bytes (m_mode m))) (int sizeof_module_mode_t) p))) (module_mode_bytes (m_mode m))"
      using Cons.prems by (intro writes_forget emits_writes mmode.emits_image) simp
    from writes_Cons [OF emits_writes [OF emits_add_i] writes_Cons [OF this Cons.IH]] show ?case
      using Cons.prems by (simp add: mode_bytes_def del: seq_rc.simps)
  qed
  from this [OF assms] show ?thesis
    unfolding waveform_serialize_def mode_packet_def waveform_serialize_action.case action_code.simps
    by (intro writes_add)
qed

definition with_modules :: "nod_waveform_t \<Rightarrow> nod_module_t list \<Rightarrow> nod_waveform_t" where
  "with_modules d xs = d\<lparr>nw_modules := Some xs\<rparr>"

text \<open>Modules xs of the node with the ids of the modules ms, the first i with their new mode.\<close>

definition modes_upto :: "nat \<Rightarrow> module_t list \<Rightarrow> nod_module_t list \<Rightarrow> nod_module_t list" where
  "modes_upto i ms xs = map (\<lambda>j. if j < i then set_next_mode (m_mode (ms ! j)) (xs ! j) else xs ! j) [0..<length xs]"

lemma set_next_mode_id [simp]: "m_id (nm_parent (set_next_mode mo m)) = m_id (nm_parent m)"
  by (simp add: set_next_mode_def)

lemma modes_upto_simps [simp]:
  "length (modes_upto i ms xs) = length xs" "modes_upto 0 ms xs = xs"
  "map (\<lambda>m. m_id (nm_parent m)) (modes_upto i ms xs) = map (\<lambda>m. m_id (nm_parent m)) xs"
  by (auto simp: modes_upto_def map_nth intro: nth_equalityI)

lemma find_idx_map: "find_idx (\<lambda>x. f x = a) xs = find_idx (\<lambda>y. y = a) (map f xs)"
  by (induction xs) simp_all

lemma find_idx_nth: "distinct ys \<Longrightarrow> i < length ys \<Longrightarrow> find_idx (\<lambda>y. y = ys ! i) ys = i"
proof (induction ys arbitrary: i)
  case (Cons y ys)
  then show ?case by (cases i) auto
qed simp

lemma loads_mode_entry:
  assumes ids: "map (\<lambda>m. m_id (nm_parent m)) xs = map m_id ms" "distinct (map m_id ms)" and i: "i < length ms"
    and ok: "in_int32 (m_id (ms ! i))" "module_mode_ok (m_mode (ms ! i))" and d: "nw_nof_modules d = int (length xs)"
  shows "loads unserialize_mode_entry (mode_bytes (ms ! i)) (with_modules d (modes_upto i ms xs)) (with_modules d (modes_upto (Suc i) ms xs))"
proof -
  let ?ys = "modes_upto i ms xs" and ?d = "with_modules d (modes_upto i ms xs)"
  have len: "length xs = length ms" using ids(1) by (rule map_eq_imp_length_eq)
  have nm: "nmodules_of ?d = ?ys" using d by (simp add: nmodules_of_def elems_def with_modules_def)
  have "find_idx (\<lambda>m. m_id (nm_parent m) = m_id (ms ! i)) ?ys = find_idx (\<lambda>y. y = map m_id ms ! i) (map m_id ms)"
    using ids(1) i by (subst find_idx_map) simp
  then have j: "find_idx (\<lambda>m. m_id (nm_parent m) = m_id (ms ! i)) ?ys = i" using find_idx_nth [OF ids(2), of i] i by simp
  have "upd_nmod i (set_next_mode (m_mode (ms ! i))) ?d = with_modules d (modes_upto (Suc i) ms xs)"
  proof -
    have "?ys[i := set_next_mode (m_mode (ms ! i)) (?ys ! i)] = modes_upto (Suc i) ms xs"
      using i len by (intro nth_equalityI) (auto simp: modes_upto_def nth_list_update less_Suc_eq)
    then show ?thesis by (simp add: upd_nmod_def with_modules_def nmod_def get_elem_def upd_elem_def)
  qed
  then have "loads (get_into (get_struct sizeof_module_mode_t) (\<lambda>bs. upd_nmod i (set_next_mode (bytes_module_mode bs))))
      (module_mode_bytes (m_mode (ms ! i))) ?d (with_modules d (modes_upto (Suc i) ms xs))"
    using ok(2) by (intro mmode.loads_image [where upd = "\<lambda>mo. upd_nmod i (set_next_mode mo)"]) simp_all
  then have "loads (with_dest (\<lambda>d. let j = find_idx (\<lambda>m. m_id (nm_parent m) = m_id (ms ! i)) (nmodules_of d)
     in if j = length (nmodules_of d) then (\<lambda>s. (-1, s))
        else get_into (get_struct sizeof_module_mode_t) (\<lambda>bs. upd_nmod j (set_next_mode (bytes_module_mode bs)))))
      (module_mode_bytes (m_mode (ms ! i))) ?d (with_modules d (modes_upto (Suc i) ms xs))"
    using i len by (intro loads_with_dest) (simp add: nm j Let_def)
  then show ?thesis unfolding unserialize_mode_entry_def mode_bytes_def by (rule loads_read_then [OF takes_get_i [OF ok(1)]])
qed

lemma loads_mode:
  assumes ids: "map (\<lambda>m. m_id (nm_parent m)) xs = map m_id ms" "distinct (map m_id ms)"
    and ok: "\<forall>m \<in> set ms. in_int32 (m_id m) \<and> module_mode_ok (m_mode m)" and len: "length ms < 2 ^ 31"
    and d: "nw_nof_modules d = int (length xs)"
  shows "loads unserialize_mode (int_bytes (int (length ms)) @ concat (map mode_bytes ms)) (with_modules d xs)
    (with_modules d (modes_upto (length ms) ms xs))"
proof -
  have "in_int32 (int (length ms))" using len by (simp add: in_int32_def)
  have "loads (seq_rc (map (\<lambda>i. unserialize_mode_entry) [0..<length ms])) (concat (map (\<lambda>i. mode_bytes (ms ! i)) [0..<length ms]))
      (with_modules d (modes_upto 0 ms xs)) (with_modules d (modes_upto (length ms) ms xs))"
    using ok by (intro loads_loop loads_mode_entry [OF ids]) (simp_all add: d)
  then have "loads (seq_rc (replicate (nat (int (length ms))) unserialize_mode_entry)) (concat (map mode_bytes ms))
      (with_modules d xs) (with_modules d (modes_upto (length ms) ms xs))"
    by (simp add: map_replicate_const concat_map_nth)
  then show ?thesis unfolding unserialize_mode_def by (rule loads_read_then [OF takes_get_i [OF \<open>in_int32 (int (length ms))\<close>]])
qed

text \<open>The node's side of a mode packet.\<close>

lemma unserialize_mode_packet:
  assumes ids: "map (\<lambda>m. m_id (nm_parent m)) xs = map m_id (node_modules node w)" "distinct (map m_id (node_modules node w))"
    and ok: "\<forall>m \<in> set (node_modules node w). in_int32 (m_id m) \<and> module_mode_ok (m_mode m)" "length (node_modules node w) < 2 ^ 31"
    and s: "nw_modules (ns_w s) = Some xs" "nw_nof_modules (ns_w s) = int (length xs)"
    and p: "packet_wf p" "packet_unread p = mode_packet node w @ rest"
  shows "nod_waveform_unserializeTo os (p, s) = Some (0, (packet_skip (length (mode_packet node w)) p,
    s\<lparr>ns_w := with_modules (ns_w s) (modes_upto (length xs) (node_modules node w) xs)\<rparr>))"
proof -
  let ?b = "int_bytes (int (length (node_modules node w))) @ concat (map mode_bytes (node_modules node w))"
  have "in_int32 2" by (simp add: in_int32_def)
  then have g: "get_i p = (Some 2, packet_skip 4 p)"
    using takesD [OF takes_get_i, of 2 p "?b @ rest"] p by (simp add: mode_packet_def)
  have w: "ns_w s = with_modules (ns_w s) xs" using s by (simp add: with_modules_def)
  have "length xs = length (node_modules node w)" using ids(1) by (rule map_eq_imp_length_eq)
  have "packet_unread (packet_skip 4 p) = ?b @ rest" "packet_wf (packet_skip 4 p)" using p by (simp_all add: mode_packet_def)
  then have "unserialize_mode (packet_skip 4 p, with_modules (ns_w s) xs)
      = (0, (packet_skip (length ?b) (packet_skip 4 p), with_modules (ns_w s) (modes_upto (length (node_modules node w)) (node_modules node w) xs)))"
    using loadsD [OF loads_mode [OF ids ok s(2)]] by blast
  then show ?thesis using g w \<open>length xs = _\<close>
    by (simp add: nod_waveform_unserializeTo_def action_of_def on_waveform_def focus_def mode_packet_def)
qed

section \<open>Update of the execution data\<close>

definition info_bytes :: "nod_module_t \<Rightarrow> bytes" where
  "info_bytes m = int_bytes (m_id (nm_parent m)) @ execinfo_bytes (m_execinfo (nm_parent m))"

definition info_packet :: "nod_waveform_t \<Rightarrow> bytes" where
  "info_packet d = int_bytes 0 @ int_bytes (nw_nof_modules d) @ concat (map info_bytes (nmodules_of d))"

lemma emits_info:
  assumes "\<forall>m \<in> set (nmodules_of d). execinfo_ok (m_execinfo (nm_parent m))"
  shows "emits (nod_waveform_serialize False c d) (info_packet d)"
proof -
  have "emits (seq_rc [add_i (m_id (nm_parent m)), execinfo_serialize (m_execinfo (nm_parent m))]) (info_bytes m)"
    if "m \<in> set (nmodules_of d)" for m
    using emits_add [OF emits_seq_Cons [OF emits_execinfo emits_seq_Nil]] assms that by (simp add: info_bytes_def del: seq_rc.simps)
  then have "emits (seq_rc (map (\<lambda>m. seq_rc [add_i (m_id (nm_parent m)), execinfo_serialize (m_execinfo (nm_parent m))]) (nmodules_of d)))
      (concat (map info_bytes (nmodules_of d)))" by (rule emits_seq_map)
  then show ?thesis unfolding nod_waveform_serialize_def info_packet_def if_False append.simps by (intro emits_add)
qed

text \<open>The manager's modules xs after the data of the node's modules ms have arrived.\<close>

definition with_info :: "nod_module_t list \<Rightarrow> module_t \<Rightarrow> module_t" where
  "with_info ms x = (case List.find (\<lambda>m. m_id (nm_parent m) = m_id x) ms of
     None \<Rightarrow> x | Some m \<Rightarrow> x\<lparr>m_execinfo := m_execinfo (nm_parent m)\<rparr>)"

lemma with_info_id [simp]: "m_id (with_info ms x) = m_id x"
  by (simp add: with_info_def split: option.split)

lemma with_info_other:
  assumes "m_id x \<notin> (\<lambda>m. m_id (nm_parent m)) ` set ms"
  shows "with_info ms x = x"
proof -
  have "List.find (\<lambda>m. m_id (nm_parent m) = m_id x) ms = None" unfolding find_None_iff using assms by (metis image_eqI)
  then show ?thesis by (simp add: with_info_def)
qed

lemma with_info_snoc:
  assumes "m_id (nm_parent m) \<notin> (\<lambda>m. m_id (nm_parent m)) ` set ms"
  shows "with_info (ms @ [m]) x = (if m_id (nm_parent m) = m_id x then x\<lparr>m_execinfo := m_execinfo (nm_parent m)\<rparr> else with_info ms x)"
proof -
  have none: "List.find (\<lambda>m. m_id (nm_parent m) = m_id x) ms = None" if "m_id (nm_parent m) = m_id x"
    using assms that unfolding find_None_iff by (metis image_eqI)
  have app: "List.find P (ms @ [m]) = (case List.find P ms of None \<Rightarrow> if P m then Some m else None | Some y \<Rightarrow> Some y)" for P
    by (induction ms) simp_all
  show ?thesis using none by (auto simp: with_info_def app split: option.split)
qed

definition man_modules :: "waveform_t \<Rightarrow> module_t list \<Rightarrow> waveform_t" where
  "man_modules w xs = w\<lparr>w_modules := Some xs\<rparr>"

lemma find_idx_less: "\<exists>x \<in> set xs. P x \<Longrightarrow> find_idx P xs < length xs \<and> P (xs ! find_idx P xs)"
  by (induction xs) auto

lemma loads_info_entry:
  assumes m: "in_int32 (m_id (nm_parent m))" "execinfo_ok (m_execinfo (nm_parent m))" and w: "w_nof_modules w = int (length xs)"
    and mem: "m_id (nm_parent m) \<in> m_id ` set xs" and dist: "distinct (map m_id xs)"
    and fresh: "m_id (nm_parent m) \<notin> (\<lambda>m. m_id (nm_parent m)) ` set ms"
  shows "loads (read_then get_i (\<lambda>module_id. with_dest (\<lambda>d.
              let i = find_idx (\<lambda>m. m_id m = module_id) (modules_of d)
              in if i = length (modules_of d) then (\<lambda>s. (-1, s))
                 else if (0 :: int) \<noteq> 0
                 then focus (\<lambda>d. get_elem i (w_modules d)) (set_module i) (module_unserializeTo calloc_ok copy_data)
                 else focus (\<lambda>d. m_execinfo (get_elem i (w_modules d)))
                        (\<lambda>e d. set_module i ((get_elem i (w_modules d))\<lparr>m_execinfo := e\<rparr>) d)
                        execinfo_unserializeTo))) (info_bytes m)
      (man_modules w (map (with_info ms) xs)) (man_modules w (map (with_info (ms @ [m])) xs))"
proof -
  let ?ys = "map (with_info ms) xs" and ?a = "m_id (nm_parent m)"
  let ?d = "man_modules w ?ys" and ?i = "find_idx (\<lambda>m. m_id m = ?a) (map (with_info ms) xs)"
  have mo: "modules_of ?d = ?ys" using w by (simp add: modules_of_def man_modules_def)
  have "\<exists>x \<in> set ?ys. m_id x = ?a" using mem by auto
  from find_idx_less [OF this] have i0: "?i < length ?ys" "m_id (?ys ! ?i) = ?a" by blast+
  then have i: "?i < length xs" by (simp only: length_map)
  with i0 have "m_id (xs ! ?i) = ?a" by (simp only: nth_map with_info_id)
  note i = i this
  have idx: "m_id (xs ! j) = ?a \<longleftrightarrow> j = ?i" if "j < length xs" for j
  proof -
    have "map m_id xs ! j = map m_id xs ! ?i \<longleftrightarrow> j = ?i" using nth_eq_iff_index_eq [OF dist] that i(1) by (simp only: length_map)
    then show ?thesis using that i by simp
  qed
  have eq: "?ys[?i := (?ys ! ?i)\<lparr>m_execinfo := m_execinfo (nm_parent m)\<rparr>] = map (with_info (ms @ [m])) xs"
  proof (rule nth_equalityI)
    fix j assume "j < length (?ys[?i := (?ys ! ?i)\<lparr>m_execinfo := m_execinfo (nm_parent m)\<rparr>])"
    then have j: "j < length xs" by simp
    show "?ys[?i := (?ys ! ?i)\<lparr>m_execinfo := m_execinfo (nm_parent m)\<rparr>] ! j = map (with_info (ms @ [m])) xs ! j"
    proof (cases "j = ?i")
      case True
      have "with_info ms (xs ! ?i) = xs ! ?i" using fresh i(2) by (intro with_info_other) simp
      then show ?thesis using i True by (simp add: with_info_snoc [OF fresh])
    next
      case False
      then have "m_id (xs ! j) \<noteq> ?a" using idx [OF j] by simp
      then show ?thesis using False j by (simp add: with_info_snoc [OF fresh])
    qed
  qed simp
  have "loads (focus (\<lambda>d. m_execinfo (get_elem ?i (w_modules d)))
       (\<lambda>e d. set_module ?i ((get_elem ?i (w_modules d))\<lparr>m_execinfo := e\<rparr>) d) execinfo_unserializeTo)
      (execinfo_bytes (m_execinfo (nm_parent m))) ?d (man_modules w (map (with_info (ms @ [m])) xs))"
  proof (rule loads_focus [OF loads_execinfo [OF m(2)]])
    show "man_modules w (map (with_info (ms @ [m])) xs) = set_module ?i ((get_elem ?i (w_modules ?d))\<lparr>m_execinfo := m_execinfo (nm_parent m)\<rparr>) ?d"
      unfolding eq [symmetric] by (simp add: set_module_def man_modules_def get_elem_def upd_elem_def)
  qed
  then show ?thesis unfolding info_bytes_def
    by (intro loads_read_then [OF takes_get_i [OF m(1)]] loads_with_dest) (use i in \<open>simp add: mo Let_def\<close>)
qed

lemma loads_info:
  assumes ms: "\<forall>m \<in> set ms. in_int32 (m_id (nm_parent m)) \<and> execinfo_ok (m_execinfo (nm_parent m))
      \<and> m_id (nm_parent m) \<in> m_id ` set xs" "length ms < 2 ^ 31" "distinct (map (\<lambda>m. m_id (nm_parent m)) ms)"
    and w: "w_nof_modules w = int (length xs)" "0 < length xs" and dist: "distinct (map m_id xs)"
  shows "loads (waveform_unserializeTo calloc_ok copy_data) (int_bytes 0 @ int_bytes (int (length ms)) @ concat (map info_bytes ms))
    (man_modules w xs) (man_modules w (map (with_info ms) xs))"
proof -
  let ?step = "read_then get_i (\<lambda>module_id. with_dest (\<lambda>d.
              let i = find_idx (\<lambda>m. m_id m = module_id) (modules_of d)
              in if i = length (modules_of d) then (\<lambda>s. (-1, s))
                 else if (0 :: int) \<noteq> 0
                 then focus (\<lambda>d. get_elem i (w_modules d)) (set_module i) (module_unserializeTo calloc_ok copy_data)
                 else focus (\<lambda>d. m_execinfo (get_elem i (w_modules d)))
                        (\<lambda>e d. set_module i ((get_elem i (w_modules d))\<lparr>m_execinfo := e\<rparr>) d)
                        execinfo_unserializeTo))"
  let ?D = "\<lambda>i. man_modules w (map (with_info (take i ms)) xs)"
  have "loads ?step (info_bytes (ms ! i)) (?D i) (?D (Suc i))" if i: "i < length ms" for i
  proof -
    have "m_id (nm_parent (ms ! i)) \<notin> (\<lambda>m. m_id (nm_parent m)) ` set (take i ms)"
      using ms(3) i by (auto simp: in_set_conv_nth distinct_conv_nth)
    then show ?thesis using ms(1) i w dist unfolding take_Suc_conv_app_nth [OF i]
      by (intro loads_info_entry) simp_all
  qed
  then have "loads (seq_rc (map (\<lambda>i. ?step) [0..<length ms])) (concat (map (\<lambda>i. info_bytes (ms ! i)) [0..<length ms])) (?D 0) (?D (length ms))"
    by (rule loads_loop)
  moreover have "with_info [] = (\<lambda>x. x)" by (simp add: with_info_def fun_eq_iff)
  ultimately have "loads (seq_rc (replicate (nat (int (length ms))) ?step)) (concat (map info_bytes ms)) (man_modules w xs) (?D (length ms))"
    by (simp add: map_replicate_const concat_map_nth)
  moreover have "loads (with_dest (\<lambda>d. if w_nof_modules d = 0 then on_dest (waveform_alloc calloc_ok (int (length ms))) else (\<lambda>s. (0, s)))) []
      (man_modules w xs) (man_modules w xs)"
    using w by (intro loads_with_dest loadsI) (simp add: man_modules_def)
  ultimately have "loads (seq_rc (with_dest (\<lambda>d. if w_nof_modules d = 0 then on_dest (waveform_alloc calloc_ok (int (length ms))) else (\<lambda>s. (0, s)))
      # replicate (nat (int (length ms))) ?step)) ([] @ concat (map info_bytes ms)) (man_modules w xs) (?D (length ms))"
    by (intro loads_seq_Cons)
  then have body: "loads (seq_rc (with_dest (\<lambda>d. if w_nof_modules d = 0 then on_dest (waveform_alloc calloc_ok (int (length ms))) else (\<lambda>s. (0, s)))
      # replicate (nat (int (length ms))) ?step)) (concat (map info_bytes ms)) (man_modules w xs) (man_modules w (map (with_info ms) xs))"
    by (simp only: append_Nil take_all order_refl)
  have int: "in_int32 0" "in_int32 (int (length ms))" using ms(2) by (simp_all add: in_int32_def)
  show ?thesis unfolding waveform_unserializeTo_def
    by (rule loads_read_then [OF takes_get_i [OF int(1)]], rule loads_read_then [OF takes_get_i [OF int(2)]]) (rule body)
qed

end
