(* ===== verification/Man_Mapping.thy ===== *)
theory Man_Mapping
  imports Serial
begin

text \<open>
  The mapping of a waveform to the processors of the platform: oesr/src/manager/man_mapping.c.

  The modules that share a stage of the configuration are joined into tasks, the task graph
  gives each module its pipeline stage and each interface its delay, and the result of the
  mapping algorithm (mapper, oesr/src/crm, a parameter here) places the modules. Arrays are
  lists; the arithmetic on float values is a parameter. The theorems say that the stages are
  the layers of the longest paths of the task graph and what a successful mapping assigns.
\<close>

section \<open>Model of the waveform\<close>

record stage_config_t =
  sc_newmodules_matrix :: "nat list list"
  sc_y_len :: "nat list"
  sc_x_len :: nat

definition generate_model_join_function :: "stage_config_t \<Rightarrow> nat \<Rightarrow> nat list" where
  "generate_model_join_function sc M =
     fold (\<lambda>i jf. let row = sc_newmodules_matrix sc ! i; min_i = row ! 0
            in fold (\<lambda>j jf. jf[row ! j := min_i]) [0..<sc_y_len sc ! i] jf)
       [0..<sc_x_len sc] [0..<M]"

definition tmp_c :: "float_ops \<Rightarrow> int \<Rightarrow> nat list \<Rightarrow> module_t list \<Rightarrow> cfloat list" where
  "tmp_c fo multiplicity jf ms =
     fold (\<lambda>i c. c[jf ! i := f_add fo (c ! (jf ! i)) (f_mul fo (m_c_mopts (ms ! i) ! 0) (f_of_int fo multiplicity))])
       [0..<length ms] (replicate (length ms) 0)"

text \<open>The first nof_tasks entries of joined_function, and joined_function_inv.\<close>

definition joined_function :: "float_ops \<Rightarrow> cfloat list \<Rightarrow> nat list" where
  "joined_function fo c = filter (\<lambda>i. \<not> f_eq fo (c ! i) 0) [0..<length c]"

definition joined_function_inv :: "nat list \<Rightarrow> nat list \<Rightarrow> nat list" where
  "joined_function_inv joined jf =
     fold (\<lambda>k jinv. fold (\<lambda>i jinv. if joined ! k = jf ! i then jinv[i := k] else jinv) [0..<length jf] jinv)
       [0..<length joined] (replicate (length jf) 0)"

definition add_b :: "float_ops \<Rightarrow> nat \<Rightarrow> nat \<Rightarrow> cfloat \<Rightarrow> cfloat list list \<Rightarrow> cfloat list list" where
  "add_b fo a b x m = m[a := (m ! a)[b := f_add fo (m ! a ! b) x]]"

definition tmp_b :: "float_ops \<Rightarrow> int \<Rightarrow> nat list \<Rightarrow> module_t list \<Rightarrow> cfloat list list" where
  "tmp_b fo multiplicity jf ms =
     fold (\<lambda>i. fold (\<lambda>j. fold (\<lambda>k m.
              let out = get_elem j (m_outputs (ms ! i)) in
              if i_remote_module_id out = m_id (ms ! k)
              then add_b fo (jf ! i) (jf ! k)
                     (f_div fo (f_mul fo (i_total_mbpts out) (f_of_int fo multiplicity)) (f_of_int fo 1000)) m
              else m) [0..<length ms]) [0..<nat (m_nof_outputs (ms ! i))]) [0..<length ms]
       (replicate (length ms) (replicate (length ms) 0))"

definition generate_model_b_matrix :: "float_ops \<Rightarrow> int \<Rightarrow> nat list \<Rightarrow> nat list \<Rightarrow> module_t list \<Rightarrow> cfloat list list" where
  "generate_model_b_matrix fo multiplicity jf joined ms =
     map (\<lambda>i. map (\<lambda>j. tmp_b fo multiplicity jf ms ! (joined ! i) ! (joined ! j)) [0..<length joined]) [0..<length joined]"

text \<open>pos i j tells whether the entry of the matrix is greater than zero.\<close>

definition stage_row :: "(nat \<Rightarrow> nat \<Rightarrow> bool) \<Rightarrow> nat \<Rightarrow> nat \<Rightarrow> int list \<Rightarrow> int list" where
  "stage_row pos M i s = fold (\<lambda>j s. if pos i j \<and> s ! j \<le> s ! i then s[j := s ! i + 1] else s) [i + 1..<M] s"

definition tmp_stages :: "(nat \<Rightarrow> nat \<Rightarrow> bool) \<Rightarrow> nat \<Rightarrow> int list" where
  "tmp_stages pos M = fold (stage_row pos M) [0..<M - 1] (replicate M 1)"

definition set_delay :: "nat \<Rightarrow> int \<Rightarrow> module_t \<Rightarrow> module_t" where
  "set_delay j x m = m\<lparr>m_outputs := upd_elem j ((get_elem j (m_outputs m))\<lparr>i_delay := x\<rparr>) (m_outputs m)\<rparr>"

definition output_delay :: "nat \<Rightarrow> nat \<Rightarrow> module_t list \<Rightarrow> module_t list" where
  "output_delay i j ms = fold (\<lambda>k ms.
     let out = get_elem j (m_outputs (ms ! i)) in
     if i_remote_module_id out = m_id (ms ! k) \<and> i_delay out = -1
     then ms[i := set_delay j \<bar>m_stage (ms ! i) - m_stage (ms ! k)\<bar> (ms ! i)]
     else ms) [0..<length ms] ms"

text \<open>The array tmp_stages has an entry for each module, those behind the tasks are zero.\<close>

definition generate_model_stages :: "(nat \<Rightarrow> nat \<Rightarrow> bool) \<Rightarrow> nat \<Rightarrow> nat list \<Rightarrow> module_t list \<Rightarrow> module_t list" where
  "generate_model_stages pos nof_tasks jinv ms =
     (let st = tmp_stages pos nof_tasks @ replicate (length ms) 0;
          ms1 = map (\<lambda>i. (ms ! i)\<lparr>m_stage := st ! (jinv ! i)\<rparr>) [0..<length ms]
      in fold (\<lambda>i ms. fold (output_delay i) [0..<nat (m_nof_outputs (ms ! i))] ms) [0..<length ms1] ms1)"

section \<open>Platform and placement\<close>

record man_processor_t =
  mp_node_id :: int
  mp_idx_in_node :: int

record man_platform_t =
  pt_nof_processors :: int
  pt_processors :: "man_processor_t list"
  pt_ts_length_us :: int
  pt_node_ids :: "int list"

text \<open>man_platform_config: one node with id 0, its processors in order.\<close>

definition man_platform_config :: "int \<Rightarrow> int \<Rightarrow> bool \<Rightarrow> man_platform_t" where
  "man_platform_config nof_cores ts_len_ns besteffort =
     (let n = (if besteffort then 1 else nof_cores) in
      \<lparr>pt_nof_processors = n, pt_processors = map (\<lambda>i. \<lparr>mp_node_id = 0, mp_idx_in_node = int i\<rparr>) [0..<nat n],
       pt_ts_length_us = (if besteffort then 1 else cdiv ts_len_ns 1000), pt_node_ids = replicate nodes_MAX 0\<rparr>)"

text \<open>The branch of call_algorithm for a time slot of one microsecond.\<close>

definition map_delays :: "(interface_t \<Rightarrow> int) \<Rightarrow> (interface_t \<Rightarrow> int) \<Rightarrow> module_t \<Rightarrow> module_t" where
  "map_delays f g m = m\<lparr>m_outputs := map_option (map (\<lambda>x. x\<lparr>i_delay := f x\<rparr>)) (m_outputs m),
     m_inputs := map_option (map (\<lambda>x. x\<lparr>i_delay := g x\<rparr>)) (m_inputs m)\<rparr>"

definition mark_feedback :: "nat \<Rightarrow> nat \<Rightarrow> module_t list \<Rightarrow> module_t list" where
  "mark_feedback i j ms = (let x = get_elem j (m_inputs (ms ! i)) in
     if i_remote_module_id x > m_id (ms ! i)
     then map (\<lambda>m. if m_id m = i_remote_module_id x then set_delay (nat (i_remote_port_idx x)) (-2) m else m) ms
     else ms)"

definition call_algorithm ::
  "(module_t list \<Rightarrow> int list option) \<Rightarrow> man_platform_t \<Rightarrow> module_t list \<Rightarrow> (int list \<times> module_t list) option" where
  "call_algorithm mapper pt ms =
     (if pt_ts_length_us pt > 1 then map_option (\<lambda>p. (p, ms)) (mapper ms)
      else let ms1 = map (map_delays (\<lambda>_. -1) (\<lambda>_. -1)) ms
           in Some (replicate (length ms) 0,
                fold (\<lambda>i ms. fold (mark_feedback i) [0..<nat (m_nof_inputs (ms ! i))] ms) [0..<length ms1] ms1))"

text \<open>The final loop of mapping_map: it stops at a module that was given a processor the
  platform does not have. A negative number is not tested: it is an access outside the array
  of the processors, and the result is None.\<close>

fun place :: "man_platform_t \<Rightarrow> int list \<Rightarrow> nat list \<Rightarrow> nat \<Rightarrow> module_t list \<Rightarrow> int list \<Rightarrow> (bool \<times> module_t list \<times> int list) option" where
  "place pt p_res jinv i [] counts = Some (True, [], counts)"
| "place pt p_res jinv i (m # ms) counts =
     (let k = p_res ! (jinv ! i) in
      if k \<ge> pt_nof_processors pt then Some (False, m # ms, counts)
      else if k < 0 then None
      else let p = pt_processors pt ! nat k;
               m' = m\<lparr>m_node := mp_node_id p, m_processor_idx := mp_idx_in_node p, m_exec_position := int i\<rparr>;
               n = nat (mp_node_id p)
           in map_option (\<lambda>(r, ms', counts'). (r, m' # ms', counts'))
                (place pt p_res jinv (Suc i) ms (counts[n := counts ! n + 1])))"

definition generate_model :: "float_ops \<Rightarrow> stage_config_t \<Rightarrow> man_platform_t \<Rightarrow> int \<Rightarrow> module_t list \<Rightarrow> (nat list \<times> module_t list) option" where
  "generate_model fo sc pt granularity_us ms =
     (if granularity_us \<noteq> 0 \<and> crem (pt_ts_length_us pt) granularity_us \<noteq> 0 then None
      else let multiplicity = (if granularity_us \<noteq> 0 then cdiv (pt_ts_length_us pt) granularity_us else 1);
               jf = generate_model_join_function sc (length ms);
               c = tmp_c fo multiplicity jf ms;
               joined = joined_function fo c;
               jinv = joined_function_inv joined jf;
               b = generate_model_b_matrix fo multiplicity jf joined ms
           in Some (jinv, generate_model_stages (\<lambda>i j. f_less fo 0 (b ! i ! j)) (length joined) jinv ms))"

text \<open>Return code, waveform and modules_x_node; the arrays of the mapping are allocated when
  alloc_ok holds.\<close>

definition mapping_map ::
  "bool \<Rightarrow> float_ops \<Rightarrow> (module_t list \<Rightarrow> int list option) \<Rightarrow> stage_config_t \<Rightarrow> man_platform_t \<Rightarrow> int list \<Rightarrow> waveform_t
     \<Rightarrow> (int \<times> waveform_t \<times> int list) option" where
  "mapping_map alloc_ok fo mapper sc pt counts w =
     (if \<not> alloc_ok then Some (-1, w, counts)
      else let put = (\<lambda>ms. w\<lparr>w_modules := Some ms\<rparr>); zero = replicate nodes_MAX 0 in
        case generate_model fo sc pt (w_granularity_us w) (modules_of w) of
          None \<Rightarrow> Some (-1, w, zero)
        | Some (jinv, ms1) \<Rightarrow>
            (case call_algorithm mapper pt ms1 of
               None \<Rightarrow> Some (-1, put ms1, zero)
             | Some (p_res, ms2) \<Rightarrow>
                 map_option (\<lambda>(r, ms3, counts'). (if r then 0 else -1, put ms3, counts'))
                   (place pt p_res jinv 0 ms2 zero)))"

section \<open>Stages\<close>

text \<open>Reference: the layer of a task is one more than the highest layer of the tasks before it
  that feed it.\<close>

function layer :: "(nat \<Rightarrow> nat \<Rightarrow> bool) \<Rightarrow> nat \<Rightarrow> nat" where
  "layer pos j = Suc (foldr max (map (\<lambda>i. if i < j then layer pos i else 0) (filter (\<lambda>i. pos i j) [0..<j])) 0)"
  by auto
termination by (relation "measure snd") auto

declare layer.simps [simp del]

text \<open>The layer when only the tasks below r are taken into account.\<close>

definition layer_upto :: "(nat \<Rightarrow> nat \<Rightarrow> bool) \<Rightarrow> nat \<Rightarrow> nat \<Rightarrow> nat" where
  "layer_upto pos r j = Suc (foldr max (map (layer pos) (filter (\<lambda>i. pos i j) [0..<min r j])) 0)"

lemma foldr_max_append: "foldr max (xs @ ys) (a :: nat) = foldr max xs (foldr max ys a)"
  by simp

lemma foldr_max_start: "foldr max xs (a :: nat) = max a (foldr max xs 0)"
  by (induction xs) auto

lemma layer_upto_all: "j \<le> r \<Longrightarrow> layer_upto pos r j = layer pos j"
proof -
  assume "j \<le> r"
  then have "map (layer pos) (filter (\<lambda>i. pos i j) [0..<min r j]) = map (\<lambda>i. if i < j then layer pos i else 0) (filter (\<lambda>i. pos i j) [0..<j])"
    by (auto simp: min_absorb2)
  then show ?thesis by (subst layer.simps) (simp add: layer_upto_def)
qed

lemma layer_upto_0: "layer_upto pos 0 j = 1"
  by (simp add: layer_upto_def)

lemma layer_upto_Suc:
  "r < j \<Longrightarrow> layer_upto pos (Suc r) j = (if pos r j then max (layer_upto pos r j) (Suc (layer pos r)) else layer_upto pos r j)"
  by (simp add: layer_upto_def min_absorb1) (subst foldr_max_start, simp add: max.commute)

lemma stage_row_nth:
  assumes "length s = M" "j < M"
  shows "stage_row pos M i s ! j = (if i < j \<and> pos i j then max (s ! j) (s ! i + 1) else s ! j)"
proof -
  let ?f = "\<lambda>j s. if pos i j \<and> s ! j \<le> s ! i then s[j := s ! i + 1] else s"
  have "length (fold ?f [i + 1..<i + 1 + n] s) = length s \<and> (\<forall>j < length s. fold ?f [i + 1..<i + 1 + n] s ! j
      = (if i < j \<and> j < i + 1 + n \<and> pos i j then max (s ! j) (s ! i + 1) else s ! j))" if "i + 1 + n \<le> length s \<or> n = 0" for n
    using that
  proof (induction n)
    case (Suc n)
    define t where "t = fold ?f [i + 1..<i + 1 + n] s"
    let ?q = "i + 1 + n"
    have IH: "length t = length s" "\<And>j. j < length s \<Longrightarrow> t ! j = (if i < j \<and> j < ?q \<and> pos i j then max (s ! j) (s ! i + 1) else s ! j)"
      using Suc unfolding t_def by auto
    have q: "?q < length s" using Suc.prems by simp
    then have tq: "t ! ?q = s ! ?q" "t ! i = s ! i" using IH(2) [of ?q] IH(2) [of i] by auto
    have eq: "fold ?f [i + 1..<i + 1 + Suc n] s = ?f ?q t" unfolding t_def by simp
    have "?f ?q t ! j = (if i < j \<and> j < i + 1 + Suc n \<and> pos i j then max (s ! j) (s ! i + 1) else s ! j)" if j: "j < length s" for j
    proof (cases "j = ?q")
      case True
      then show ?thesis using tq q IH(1) by auto
    next
      case False
      then have "?f ?q t ! j = t ! j" by simp
      then show ?thesis using IH(2) [OF j] False by auto
    qed
    moreover have "length (?f ?q t) = length s" using IH(1) by simp
    ultimately show ?case unfolding eq by blast
  qed simp
  from this [of "M - (i + 1)"] assms show ?thesis
    by (cases "i + 1 \<le> M") (auto simp: stage_row_def)
qed

lemma length_stage_row [simp]: "length (stage_row pos M i s) = length s"
proof -
  have "length (fold (\<lambda>j s. if pos i j \<and> s ! j \<le> s ! i then s[j := s ! i + 1] else s) xs s) = length s" for xs
    by (induction xs arbitrary: s) simp_all
  then show ?thesis by (simp add: stage_row_def)
qed

lemma stages_upto:
  "r \<le> M \<Longrightarrow> fold (stage_row pos M) [0..<r] (replicate M 1) = map (\<lambda>j. int (layer_upto pos r j)) [0..<M]"
proof (induction r)
  case 0
  show ?case by (auto simp: layer_upto_0 intro: nth_equalityI)
next
  case (Suc r)
  let ?s = "map (\<lambda>j. int (layer_upto pos r j)) [0..<M]"
  have "stage_row pos M r ?s = map (\<lambda>j. int (layer_upto pos (Suc r) j)) [0..<M]"
  proof (rule nth_equalityI)
    fix j assume "j < length (stage_row pos M r ?s)"
    then have j: "j < M" by simp
    have "layer_upto pos (Suc r) j = layer_upto pos r j" if "\<not> r < j" using that layer_upto_all [of j] by simp
    then show "stage_row pos M r ?s ! j = map (\<lambda>j. int (layer_upto pos (Suc r) j)) [0..<M] ! j"
      using j Suc.prems by (cases "r < j") (simp_all add: stage_row_nth layer_upto_Suc layer_upto_all of_nat_max add.commute)
  qed simp
  then show ?case using Suc by simp
qed

text \<open>C31. The stages computed for the tasks are the layers of the longest paths in the task graph;
  in particular a task that feeds a later one has a lower stage.\<close>

theorem tmp_stages_layers:
  "tmp_stages pos M = map (\<lambda>j. int (layer pos j)) [0..<M]
    \<and> (i < j \<and> j < M \<and> pos i j \<longrightarrow> tmp_stages pos M ! i < tmp_stages pos M ! j)"
proof -
  have eq: "tmp_stages pos M = map (\<lambda>j. int (layer pos j)) [0..<M]"
  proof (rule nth_equalityI)
    show "length (tmp_stages pos M) = length (map (\<lambda>j. int (layer pos j)) [0..<M])"
      by (simp add: tmp_stages_def stages_upto)
    fix j assume "j < length (tmp_stages pos M)"
    then have "j < M" by (simp add: tmp_stages_def stages_upto)
    then show "tmp_stages pos M ! j = map (\<lambda>j. int (layer pos j)) [0..<M] ! j"
      by (simp add: tmp_stages_def stages_upto layer_upto_all)
  qed
  have "layer pos i < layer pos j" if "i < j" "pos i j"
  proof -
    have "Suc (layer pos i) \<le> layer_upto pos (Suc i) j" using layer_upto_Suc [OF that(1), of pos] that(2) by simp
    also have "\<dots> \<le> layer_upto pos j j"
    proof -
      have "layer_upto pos (Suc i) j \<le> layer_upto pos (Suc i + d) j" if "Suc i + d \<le> j" for d
        using that by (induction d) (auto simp: layer_upto_Suc)
      from this [of "j - Suc i"] show ?thesis using that(1) by simp
    qed
    finally show ?thesis by (simp add: layer_upto_all)
  qed
  then show ?thesis unfolding eq by simp
qed

theorem tmp_stages_layers_witness:
  "tmp_stages (\<lambda>i j. (i, j) \<in> {(0, 1), (0, 2), (1, 3)}) 4 ! 1 < tmp_stages (\<lambda>i j. (i, j) \<in> {(0, 1), (0, 2), (1, 3)}) 4 ! 3"
proof -
  let ?pos = "\<lambda>i j :: nat. (i, j) \<in> {(0, 1), (0, 2), (1 :: nat, 3)}"
  have "(1 :: nat) < 3 \<and> (3 :: nat) < 4 \<and> ?pos 1 3" by simp
  then show ?thesis using tmp_stages_layers [of ?pos 4 1 3] by blast
qed

section \<open>Tasks\<close>

lemma inv_row:
  "length (fold (\<lambda>i v. if P i then v[i := k] else v) [0..<n] v) = length v
   \<and> (\<forall>j < length v. fold (\<lambda>i v. if P i then v[i := k] else v) [0..<n] v ! j = (if j < n \<and> P j then k else v ! j))"
proof (induction n)
  case (Suc n)
  define t where "t = fold (\<lambda>i v. if P i then v[i := k] else v) [0..<n] v"
  have "fold (\<lambda>i v. if P i then v[i := k] else v) [0..<Suc n] v = (if P n then t[n := k] else t)" by (simp add: t_def)
  moreover have "(if P n then t[n := k] else t) ! j = (if j < Suc n \<and> P j then k else v ! j)" if "j < length v" for j
    using Suc.IH that unfolding t_def [symmetric] by (cases "j = n") (auto simp: less_Suc_eq)
  ultimately show ?case using Suc.IH unfolding t_def [symmetric] by simp
qed simp

lemma joined_inv_spec:
  assumes "i < length jf" "jf ! i \<in> set joined"
  shows "joined_function_inv joined jf ! i < length joined \<and> joined ! (joined_function_inv joined jf ! i) = jf ! i"
proof -
  let ?row = "\<lambda>k v. fold (\<lambda>i v. if joined ! k = jf ! i then v[i := k] else v) [0..<length jf] v"
  let ?I = "\<lambda>n v. length v = length jf \<and> (\<forall>i < length jf. (\<exists>k < n. joined ! k = jf ! i) \<longrightarrow> v ! i < n \<and> joined ! (v ! i) = jf ! i)"
  have "?I n (fold ?row [0..<n] (replicate (length jf) 0))" for n
  proof (induction n)
    case (Suc n)
    define t where "t = fold ?row [0..<n] (replicate (length jf) 0)"
    have t: "fold ?row [0..<Suc n] (replicate (length jf) 0) = ?row n t" by (simp add: t_def)
    have IH: "?I n t" using Suc unfolding t_def .
    have r: "length (?row n t) = length jf" "\<And>j. j < length jf \<Longrightarrow> ?row n t ! j = (if joined ! n = jf ! j then n else t ! j)"
      using inv_row [where P = "\<lambda>i. joined ! n = jf ! i" and k = n and n = "length jf" and v = t] IH by simp_all
    have "?row n t ! j < Suc n \<and> joined ! (?row n t ! j) = jf ! j" if j: "j < length jf" and e: "\<exists>k < Suc n. joined ! k = jf ! j" for j
    proof (cases "joined ! n = jf ! j")
      case False
      then have "\<exists>k < n. joined ! k = jf ! j" using e less_Suc_eq by auto
      then show ?thesis using IH j r(2) [OF j] False by auto
    qed (use r(2) [OF j] in simp)
    then show ?case unfolding t using r(1) by blast
  qed simp
  then have "?I (length joined) (joined_function_inv joined jf)" unfolding joined_function_inv_def by blast
  moreover have "\<exists>k < length joined. joined ! k = jf ! i" using assms(2) by (simp add: in_set_conv_nth)
  ultimately show ?thesis using assms(1) by blast
qed

section \<open>Placement\<close>

text \<open>What the final loop does to the module at position i.\<close>

definition placed :: "man_platform_t \<Rightarrow> int \<Rightarrow> nat \<Rightarrow> module_t \<Rightarrow> module_t" where
  "placed pt k i m = (let p = pt_processors pt ! nat k in
     m\<lparr>m_node := mp_node_id p, m_processor_idx := mp_idx_in_node p, m_exec_position := int i\<rparr>)"

lemma place_ok:
  assumes "\<forall>j < length ms. 0 \<le> p_res ! (jinv ! (i + j)) \<and> p_res ! (jinv ! (i + j)) < pt_nof_processors pt"
  shows "\<exists>ms' counts'. place pt p_res jinv i ms counts = Some (True, ms', counts')
    \<and> ms' = map (\<lambda>j. placed pt (p_res ! (jinv ! (i + j))) (i + j) (ms ! j)) [0..<length ms]
    \<and> length counts' = length counts
    \<and> (\<forall>n < length counts. counts' ! n = counts ! n + int (length (filter (\<lambda>m. nat (m_node m) = n) ms')))"
  using assms
proof (induction ms arbitrary: i counts)
  case (Cons m ms)
  let ?k = "p_res ! (jinv ! i)" and ?p = "pt_processors pt ! nat (p_res ! (jinv ! i))"
  let ?n = "nat (mp_node_id ?p)"
  have k: "0 \<le> ?k" "?k < pt_nof_processors pt" using Cons.prems [rule_format, of 0] by simp_all
  have rest: "\<forall>j < length ms. 0 \<le> p_res ! (jinv ! (Suc i + j)) \<and> p_res ! (jinv ! (Suc i + j)) < pt_nof_processors pt"
    using Cons.prems [rule_format, of "Suc j" for j] by simp
  obtain ms1 c1 where pl: "place pt p_res jinv (Suc i) ms (counts[?n := counts ! ?n + 1]) = Some (True, ms1, c1)"
    and IH: "ms1 = map (\<lambda>j. placed pt (p_res ! (jinv ! (Suc i + j))) (Suc i + j) (ms ! j)) [0..<length ms]" "length c1 = length counts"
      "\<forall>n < length counts. c1 ! n = counts[?n := counts ! ?n + 1] ! n + int (length (filter (\<lambda>m. nat (m_node m) = n) ms1))"
    using Cons.IH [OF rest, of "counts[?n := counts ! ?n + 1]"] by auto
  have up: "[0..<length (m # ms)] = 0 # map Suc [0..<length ms]" by (simp add: map_Suc_upt upt_conv_Cons del: upt_Suc)
  have "place pt p_res jinv i (m # ms) counts = Some (True, placed pt ?k i m # ms1, c1)"
    using pl k by (simp add: placed_def Let_def)
  moreover have "placed pt ?k i m # ms1 = map (\<lambda>j. placed pt (p_res ! (jinv ! (i + j))) (i + j) ((m # ms) ! j)) [0..<length (m # ms)]"
    unfolding up IH(1) by simp
  moreover have "c1 ! n = counts ! n + int (length (filter (\<lambda>m. nat (m_node m) = n) (placed pt ?k i m # ms1)))" if "n < length counts" for n
    using IH(3) that by (auto simp: placed_def Let_def nth_list_update)
  ultimately show ?case using IH(2) by (intro exI [of _ "placed pt ?k i m # ms1"] exI [of _ c1]) simp
qed simp

text \<open>A module without what the mapping sets.\<close>

definition core :: "module_t \<Rightarrow> module_t" where
  "core m = m\<lparr>m_stage := 0, m_inputs := None, m_outputs := None, m_node := 0, m_processor_idx := 0, m_exec_position := 0\<rparr>"

lemma map_core_update: "core x = core (ms ! i) \<Longrightarrow> map core (ms[i := x]) = map core ms"
  by (metis list_update_id map_update)

lemma fold_keeps:
  assumes "\<And>x s. f (g x s) = f s"
  shows "f (fold g xs s) = f s"
  by (induction xs arbitrary: s) (simp_all add: assms)

lemma core_stages: "length jinv = length ms \<Longrightarrow> map core (generate_model_stages pos t jinv ms) = map core ms"
proof -
  have d: "core (set_delay j x m) = core m" for j x m by (simp add: core_def set_delay_def)
  have o: "map core (output_delay i j ms) = map core ms" for i j ms
    unfolding output_delay_def by (rule fold_keeps) (simp add: Let_def map_core_update d)
  have "map core (fold (\<lambda>i ms. fold (output_delay i) [0..<nat (m_nof_outputs (ms ! i))] ms) ks ms) = map core ms" for ks ms
    by (rule fold_keeps) (rule fold_keeps, rule o)
  moreover have "map core (map (\<lambda>i. (ms ! i)\<lparr>m_stage := h i\<rparr>) [0..<length ms]) = map core ms" for h
    by (rule nth_equalityI) (simp_all add: core_def)
  ultimately show ?thesis by (simp add: generate_model_stages_def Let_def)
qed

lemma core_feedback: "map core (fold (\<lambda>i ms. fold (mark_feedback i) [0..<nat (m_nof_inputs (ms ! i))] ms) ks ms) = map core ms"
proof -
  have "core (set_delay j x m) = core m" for j x m by (simp add: core_def set_delay_def)
  then have "map core (mark_feedback i j ms) = map core ms" for i j ms by (simp add: mark_feedback_def Let_def)
  then show ?thesis by (intro fold_keeps)
qed

text \<open>The tasks of the modules.\<close>

definition multiplicity_of :: "man_platform_t \<Rightarrow> int \<Rightarrow> int" where
  "multiplicity_of pt g = (if g \<noteq> 0 then cdiv (pt_ts_length_us pt) g else 1)"

definition task_of :: "float_ops \<Rightarrow> stage_config_t \<Rightarrow> int \<Rightarrow> module_t list \<Rightarrow> nat list" where
  "task_of fo sc mu ms = (let jf = generate_model_join_function sc (length ms)
     in joined_function_inv (joined_function fo (tmp_c fo mu jf ms)) jf)"

lemma length_join: "length (generate_model_join_function sc n) = n"
proof -
  have "length (fold (\<lambda>i jf. let row = r i; min_i = row ! 0 in fold (\<lambda>j jf. jf[row ! j := min_i]) (t i) jf) ks jf) = length jf"
    for r :: "nat \<Rightarrow> nat list" and t ks and jf :: "nat list"
    by (rule fold_keeps) (simp add: Let_def, rule fold_keeps, simp)
  from this [of "\<lambda>i. sc_newmodules_matrix sc ! i" "\<lambda>i. [0..<sc_y_len sc ! i]" "[0..<sc_x_len sc]" "[0..<n]"]
  show ?thesis by (simp add: generate_model_join_function_def)
qed

lemma joined_inv_same:
  assumes "i < length jf" "j < length jf" "jf ! i = jf ! j"
  shows "joined_function_inv joined jf ! i = joined_function_inv joined jf ! j"
proof -
  let ?row = "\<lambda>k v. fold (\<lambda>i v. if joined ! k = jf ! i then v[i := k] else v) [0..<length jf] v"
  have "length (fold ?row ks (replicate (length jf) 0)) = length jf
      \<and> fold ?row ks (replicate (length jf) 0) ! i = fold ?row ks (replicate (length jf) 0) ! j" for ks
  proof (induction ks rule: rev_induct)
    case Nil
    then show ?case using assms by simp
  next
    case (snoc k ks)
    define v where "v = fold ?row ks (replicate (length jf) 0)"
    have "fold ?row (ks @ [k]) (replicate (length jf) 0) = ?row k v" by (simp add: v_def)
    then show ?case using snoc assms inv_row [where P = "\<lambda>i. joined ! k = jf ! i" and k = k and n = "length jf" and v = v]
      unfolding v_def [symmetric] by simp
  qed
  then show ?thesis by (simp add: joined_function_inv_def)
qed

lemma length_joined_inv: "length (joined_function_inv joined jf) = length jf"
proof -
  have "length (fold (\<lambda>k v. fold (\<lambda>i v. if joined ! k = jf ! i then v[i := k] else v) [0..<length jf] v) ks v) = length v" for ks and v :: "nat list"
    by (rule fold_keeps) (rule fold_keeps, simp)
  then show ?thesis by (simp add: joined_function_inv_def)
qed

lemma length_tmp_c: "length (tmp_c fo mu jf ms) = length ms"
proof -
  have "length (fold (\<lambda>i c. c[jf ! i := f_add fo (c ! (jf ! i)) (f_mul fo (m_c_mopts (ms ! i) ! 0) (f_of_int fo mu))]) ks c) = length c" for ks c
    by (rule fold_keeps) simp
  then show ?thesis by (simp add: tmp_c_def)
qed

text \<open>When nothing is joined and every module has a cost, each module is a task of its own.\<close>

lemma task_of_single:
  assumes "sc_x_len sc = 0" "\<forall>i < length ms. \<not> f_eq fo (tmp_c fo mu [0..<length ms] ms ! i) 0" "i < length ms"
  shows "task_of fo sc mu ms ! i = i"
proof -
  have jf: "generate_model_join_function sc (length ms) = [0..<length ms]" using assms(1) by (simp add: generate_model_join_function_def)
  have j: "joined_function fo (tmp_c fo mu [0..<length ms] ms) = [0..<length ms]"
    using assms(2) by (simp add: joined_function_def length_tmp_c)
  have "joined_function_inv [0..<length ms] [0..<length ms] ! i < length ms"
    "[0..<length ms] ! (joined_function_inv [0..<length ms] [0..<length ms] ! i) = i"
    using joined_inv_spec [of i "[0..<length ms]" "[0..<length ms]"] assms(3) by auto
  then show ?thesis by (simp add: task_of_def jf j Let_def)
qed

text \<open>C32. When the time slot is a multiple of the granularity and the mapping algorithm answers with
  processors of the platform, the mapping succeeds; it changes nothing of the waveform but the
  stage, interfaces and place of its modules; module i gets the execution position i and the
  processor that the algorithm chose for its task (processor 0 in best-effort mode); modules
  that the stage configuration joins share a processor; when it joins none and every module has
  a cost, module i is on the i-th processor of the answer; and modules_x_node counts the
  modules of each node.\<close>

theorem mapping_places:
  assumes n: "n = length (modules_of w)" and mu: "mu = multiplicity_of pt (w_granularity_us w)"
    and gran: "w_granularity_us w = 0 \<or> crem (pt_ts_length_us pt) (w_granularity_us w) = 0"
    and alg: "p = (if pt_ts_length_us pt > 1 then p_res else replicate n 0)" "\<forall>ms. mapper ms = Some p_res"
    and t: "t = task_of fo sc mu (modules_of w)"
    and rng: "\<forall>i < n. 0 \<le> p ! (t ! i) \<and> p ! (t ! i) < pt_nof_processors pt"
  shows "\<exists>ms counts'. mapping_map True fo mapper sc pt counts w = Some (0, w\<lparr>w_modules := Some ms\<rparr>, counts')
    \<and> map core ms = map core (modules_of w)
    \<and> (\<forall>i < n. m_exec_position (ms ! i) = int i \<and> m_node (ms ! i) = mp_node_id (pt_processors pt ! nat (p ! (t ! i)))
         \<and> m_processor_idx (ms ! i) = mp_idx_in_node (pt_processors pt ! nat (p ! (t ! i))))
    \<and> (\<forall>i < n. \<forall>j < n. generate_model_join_function sc n ! i = generate_model_join_function sc n ! j \<longrightarrow> t ! i = t ! j)
    \<and> (sc_x_len sc = 0 \<and> (\<forall>i < n. \<not> f_eq fo (tmp_c fo mu [0..<n] (modules_of w) ! i) 0) \<longrightarrow> (\<forall>i < n. t ! i = i))
    \<and> (\<forall>k < nodes_MAX. counts' ! k = int (length (filter (\<lambda>m. nat (m_node m) = k) ms)))"
proof -
  let ?ms = "modules_of w" and ?jf = "generate_model_join_function sc n"
  have lt: "length t = n" by (simp add: t task_of_def Let_def length_joined_inv length_join n)
  obtain pos nt where gen: "generate_model fo sc pt (w_granularity_us w) ?ms = Some (t, generate_model_stages pos nt t ?ms)"
    using gran by (auto simp: generate_model_def t task_of_def mu multiplicity_of_def n Let_def)
  define ms1 where "ms1 = generate_model_stages pos nt t ?ms"
  have c1: "map core ms1 = map core ?ms" unfolding ms1_def by (rule core_stages) (simp add: lt n)
  then have l1: "length ms1 = n" unfolding n by (rule map_eq_imp_length_eq)
  obtain ms2 where ms2: "call_algorithm mapper pt ms1 = Some (p, ms2)" "map core ms2 = map core ms1"
  proof (cases "pt_ts_length_us pt > 1")
    case True
    then show thesis using that [of ms1] alg by (simp add: call_algorithm_def)
  next
    case False
    define ms0 where "ms0 = map (map_delays (\<lambda>_. -1) (\<lambda>_. -1)) ms1"
    define r where "r = fold (\<lambda>i ms. fold (mark_feedback i) [0..<nat (m_nof_inputs (ms ! i))] ms) [0..<length ms0] ms0"
    have "map core ms0 = map core ms1" by (simp add: ms0_def core_def map_delays_def)
    then have "map core r = map core ms1" unfolding r_def by (simp add: core_feedback)
    moreover have "call_algorithm mapper pt ms1 = Some (p, r)" using False alg(1) l1
      by (simp add: call_algorithm_def r_def ms0_def)
    ultimately show thesis using that by blast
  qed
  have l2: "length ms2 = n" using map_eq_imp_length_eq [OF ms2(2)] l1 by simp
  obtain ms3 c3 where pl: "place pt p t 0 ms2 (replicate nodes_MAX 0) = Some (True, ms3, c3)"
    and ms3: "ms3 = map (\<lambda>j. placed pt (p ! (t ! j)) j (ms2 ! j)) [0..<length ms2]"
    and c3: "\<forall>k < nodes_MAX. c3 ! k = int (length (filter (\<lambda>m. nat (m_node m) = k) ms3))"
    using place_ok [of ms2 p t 0 pt "replicate nodes_MAX 0"] rng l2 by auto
  have "mapping_map True fo mapper sc pt counts w = Some (0, w\<lparr>w_modules := Some ms3\<rparr>, c3)"
    using gen ms2(1) pl by (simp add: mapping_map_def Let_def ms1_def)
  moreover have "map core ms3 = map core ?ms"
  proof -
    have "map core ms3 = map core ms2" by (rule nth_equalityI) (simp_all add: ms3 core_def placed_def Let_def)
    then show ?thesis using ms2(2) c1 by simp
  qed
  moreover have "m_exec_position (ms3 ! i) = int i \<and> m_node (ms3 ! i) = mp_node_id (pt_processors pt ! nat (p ! (t ! i)))
      \<and> m_processor_idx (ms3 ! i) = mp_idx_in_node (pt_processors pt ! nat (p ! (t ! i)))" if "i < n" for i
    using that l2 by (simp add: ms3 placed_def Let_def)
  moreover have "t ! i = t ! j" if "i < n" "j < n" "?jf ! i = ?jf ! j" for i j
    using joined_inv_same [of i ?jf j] that by (simp add: t task_of_def Let_def n length_join)
  moreover have "t ! i = i" if "sc_x_len sc = 0" "\<forall>i < n. \<not> f_eq fo (tmp_c fo mu [0..<n] ?ms ! i) 0" "i < n" for i
    using task_of_single [of sc ?ms fo mu i] that by (simp add: t n)
  ultimately show ?thesis using c3 by blast
qed

definition ex_fops :: float_ops where
  "ex_fops = \<lparr>f_of_int = word_of_int, f_add = (+), f_sub = (-), f_mul = (*), f_div = (\<lambda>x y. x), f_less = (<), f_eq = (=)\<rparr>"

definition ex_mapped :: waveform_t where
  "ex_mapped = waveform_zero\<lparr>w_nof_modules := 2, w_modules := Some [module_zero\<lparr>m_id := 1, m_c_mopts := 5 # replicate 24 0\<rparr>,
     module_zero\<lparr>m_id := 2, m_c_mopts := 6 # replicate 24 0\<rparr>]\<rparr>"

theorem mapping_places_witness:
  "\<exists>ms counts'. mapping_map True ex_fops (\<lambda>_. Some [1, 0]) \<lparr>sc_newmodules_matrix = [], sc_y_len = [], sc_x_len = 0\<rparr>
     (man_platform_config 2 1000000 False) [] ex_mapped = Some (0, ex_mapped\<lparr>w_modules := Some ms\<rparr>, counts')
     \<and> m_processor_idx (ms ! 0) = 1 \<and> m_processor_idx (ms ! 1) = 0 \<and> map m_id (map core ms) = [1, 2]"
proof -
  let ?sc = "\<lparr>sc_newmodules_matrix = [], sc_y_len = [], sc_x_len = 0\<rparr>" and ?pt = "man_platform_config 2 1000000 False"
  have ms: "length (modules_of ex_mapped) = 2" "map m_id (map core (modules_of ex_mapped)) = [1, 2]" by code_simp+
  have g: "w_granularity_us ex_mapped = 0 \<or> crem (pt_ts_length_us ?pt) (w_granularity_us ex_mapped) = 0" by (simp add: ex_mapped_def waveform_zero_def)
  have pt: "pt_ts_length_us ?pt > 1" "pt_nof_processors ?pt = 2" "mp_idx_in_node (pt_processors ?pt ! 0) = 0" "mp_idx_in_node (pt_processors ?pt ! 1) = 1"
    by (simp_all add: man_platform_config_def cdiv_def)
  have t: "task_of ex_fops ?sc (multiplicity_of ?pt (w_granularity_us ex_mapped)) (modules_of ex_mapped) = [0, 1]" by code_simp
  have "\<forall>i < 2. 0 \<le> [1, 0 :: int] ! ([0, 1] ! i) \<and> [1, 0 :: int] ! ([0, 1] ! i) < 2" by (auto simp: less_2_cases_iff)
  then obtain ms counts' where m: "mapping_map True ex_fops (\<lambda>_. Some [1, 0]) ?sc ?pt [] ex_mapped = Some (0, ex_mapped\<lparr>w_modules := Some ms\<rparr>, counts')"
    "map core ms = map core (modules_of ex_mapped)" and pr: "\<forall>i < 2. m_processor_idx (ms ! i) = mp_idx_in_node (pt_processors ?pt ! nat ([1, 0] ! ([0, 1] ! i)))"
    using mapping_places [OF ms(1) [symmetric] refl g refl _ refl, where p_res = "[1, 0]" and mapper = "\<lambda>_. Some [1, 0]" and fo = ex_fops and sc = ?sc and counts = "[]"] pt(1,2) unfolding t by auto
  have "m_processor_idx (ms ! 0) = 1" "m_processor_idx (ms ! 1) = 0" using pr [rule_format, of 0] pr [rule_format, of 1] pt by simp_all
  then show ?thesis using m ms(2) by metis
qed


end
