(* ===== verification/Manager.thy ===== *)
theory Manager
  imports Waveform_Codec Man_Mapping
begin

text \<open>
  The manager's operations on waveforms (oesr/src/manager/man_waveform.c) and the command path
  from the manager to the node: waveform_send over packet_sendto and nod_anode_dispatch.

  The state aloe holds the packet of the platform, the packet of the node and the node; the
  node is None when a command did not return. The theorems follow a command through all
  layers: a waveform that is sent is loaded, a change of mode reaches every module, the
  execution data come back, and the status that the manager keeps moves along the allowed
  transitions.
\<close>

section \<open>Operations\<close>

record 'e aloe =
  al_packet :: packet_t
  al_node_packet :: packet_t
  al_node :: "'e nod_anode_t option"

definition node_recv :: "'e node_os \<Rightarrow> 'e nod_anode_t option \<Rightarrow> packet_t \<Rightarrow> int \<times> 'e nod_anode_t option \<times> packet_t" where
  "node_recv os st np = (case st of
      None \<Rightarrow> (-1, None, np)
    | Some an \<Rightarrow> (case nod_anode_dispatch os (np, an) of
        None \<Rightarrow> (-1, None, np)
      | Some (r, (np1, an1)) \<Rightarrow> (r, Some an1, np1)))"

definition al_sendto :: "'e node_os \<Rightarrow> packet_dest_t \<Rightarrow> 'e aloe rc_fun" where
  "al_sendto os dest s = (let (r, p, np, n) = packet_sendto (node_recv os) dest (al_packet s, al_node_packet s, al_node s)
     in (r, \<lparr>al_packet = p, al_node_packet = np, al_node = n\<rparr>))"

definition on_packet :: "packet_t rc_fun \<Rightarrow> 'e aloe rc_fun" where
  "on_packet f s = (let (r, p) = f (al_packet s) in (r, s\<lparr>al_packet := p\<rparr>))"

definition ignore_rc :: "'s rc_fun \<Rightarrow> 's rc_fun" where
  "ignore_rc f s = (0, snd (f s))"

definition waveform_dest :: "waveform_t \<Rightarrow> nat \<Rightarrow> packet_dest_t" where
  "waveform_dest w i = \<lparr>dst_waveform_id = w_id w, dst_module_id = 0, dst_variable_id = 0, dst_node = word_of_nat i\<rparr>"

definition send_to_node ::
  "'e node_os \<Rightarrow> man_platform_t \<Rightarrow> waveform_t \<Rightarrow> packet_command_t \<Rightarrow> waveform_serialize_action \<Rightarrow> nat \<Rightarrow> 'e aloe rc_fun" where
  "send_to_node os pt w cmd action i s =
     (if w_modules_x_node w ! i = 0 then (0, s)
      else seq_rc [ignore_rc (on_packet packet_clear),
             on_packet (waveform_serialize (pt_node_ids pt ! i) action CP_INIT w),
             ignore_rc (on_packet (packet_set_cmd cmd)),
             al_sendto os (waveform_dest w i),
             (\<lambda>s. (packet_get_ack (al_packet s), s))] s)"

definition waveform_send ::
  "'e node_os \<Rightarrow> man_platform_t \<Rightarrow> waveform_t \<Rightarrow> packet_command_t \<Rightarrow> waveform_serialize_action \<Rightarrow> 'e aloe rc_fun" where
  "waveform_send os pt w cmd action = seq_rc (map (send_to_node os pt w cmd action) [0..<nodes_MAX])"

definition set_cur :: "waveform_status_enum \<Rightarrow> waveform_t \<Rightarrow> waveform_t" where
  "set_cur st w = w\<lparr>w_status := (w_status w)\<lparr>ws_cur_status := st\<rparr>\<rparr>"

text \<open>mp stands for mapping_map on this platform: return code, mapped waveform and the counts of
  modules per node.\<close>

definition waveform_load ::
  "'e node_os \<Rightarrow> man_platform_t \<Rightarrow> (waveform_t \<Rightarrow> int \<times> waveform_t \<times> int list) \<Rightarrow> waveform_t \<times> 'e aloe \<Rightarrow> int \<times> waveform_t \<times> 'e aloe" where
  "waveform_load os pt mp ws = (let (w, s) = ws; (r, w1, counts) = mp (set_cur PARSED w) in
     if r \<noteq> 0 then (-1, w1, s)
     else let w2 = w1\<lparr>w_modules_x_node := take nodes_MAX counts\<rparr>;
              (r, s1) = waveform_send os pt w2 CMD_LOAD WAVEFORM_LOAD s
          in if r \<noteq> 0 then (-1, w2, s1) else (0, set_cur LOADED w2, s1))"

definition waveform_update :: "'e node_os \<Rightarrow> waveform_t \<times> 'e aloe \<Rightarrow> int \<times> waveform_t \<times> 'e aloe" where
  "waveform_update os ws = (let (w, s) = ws;
       s1 = snd (on_packet packet_clear (snd (on_packet (packet_set_cmd CMD_GET) s)));
       (r, s2) = al_sendto os (waveform_dest w 0) s1
     in if r \<noteq> 0 then (-1, w, s2)
        else let (r, (p, w1)) = waveform_unserializeTo (os_calloc os) NONE (al_packet s2, w)
             in (if r \<noteq> 0 then -1 else 0, w1, s2\<lparr>al_packet := p\<rparr>))"

definition waveform_status_is_valid :: "waveform_status_enum \<Rightarrow> waveform_status_enum \<Rightarrow> bool" where
  "waveform_status_is_valid cur new = (case new of
      PARSED \<Rightarrow> False
    | LOADED \<Rightarrow> False
    | INIT \<Rightarrow> cur = LOADED
    | RUN \<Rightarrow> cur = PAUSE \<or> cur = INIT \<or> cur = STEP
    | STEP \<Rightarrow> cur = RUN \<or> cur = INIT \<or> cur = PAUSE \<or> cur = STEP
    | PAUSE \<Rightarrow> cur = RUN \<or> cur = STEP
    | STOP \<Rightarrow> True
    | STATUS_OTHER _ \<Rightarrow> False)"

definition waveform_status_set ::
  "'e node_os \<Rightarrow> man_platform_t \<Rightarrow> waveform_status_t \<Rightarrow> waveform_t \<times> 'e aloe \<Rightarrow> int \<times> waveform_t \<times> 'e aloe" where
  "waveform_status_set os pt new_status ws = (let (w, s) = ws in
     if \<not> waveform_status_is_valid (ws_cur_status (w_status w)) (ws_cur_status new_status) then (-1, w, s)
     else let w1 = w\<lparr>w_status := new_status\<rparr>; (r, s1) = waveform_send os pt w1 CMD_SET WAVEFORM_STATUS s
          in if r \<noteq> 0 then (-1, w1, s1)
             else (0, set_cur (if ws_cur_status new_status = STOP then PARSED else ws_cur_status new_status) w1, s1))"

definition set_next :: "int \<Rightarrow> int \<Rightarrow> module_t \<Rightarrow> module_t" where
  "set_next mode tstamp m = m\<lparr>m_mode := (m_mode m)\<lparr>mm_next_mode := mode, mm_next_tslot := tstamp + 10 + m_stage m\<rparr>\<rparr>"

definition waveform_mode_set ::
  "'e node_os \<Rightarrow> man_platform_t \<Rightarrow> int \<Rightarrow> bytes \<Rightarrow> waveform_t \<times> 'e aloe \<Rightarrow> int \<times> waveform_t \<times> 'e aloe" where
  "waveform_mode_set os pt tstamp name ws = (let (w, s) = ws;
       modes = take (nat (w_nof_modes w)) (w_modes w); i = find_idx (\<lambda>m. c_str (wm_name m) = c_str name) modes in
     if i = length modes then (-1, w, s)
     else let w1 = w\<lparr>w_modules := map_option (\<lambda>ms. map (set_next (int i) tstamp) (take (nat (w_nof_modules w)) ms)
                    @ drop (nat (w_nof_modules w)) ms) (w_modules w)\<rparr>;
              (r, s1) = waveform_send os pt w1 CMD_SET WAVEFORM_MODE s
          in (if r \<noteq> 0 then -1 else 0, w1, s1))"

definition waveform_status_is_loaded :: "waveform_status_enum \<Rightarrow> bool" where
  "waveform_status_is_loaded st \<longleftrightarrow> st = LOADED \<or> st = INIT \<or> st = PAUSE \<or> st = RUN"

definition waveform_status_is_running :: "waveform_status_enum \<Rightarrow> bool" where
  "waveform_status_is_running st \<longleftrightarrow> st = RUN \<or> st = PAUSE"

text \<open>Released blocks are not tracked; the structure is zeroed.\<close>

definition waveform_delete :: "waveform_t \<Rightarrow> waveform_t" where
  "waveform_delete w = waveform_zero"

section \<open>The command path\<close>

text \<open>Both packets are ready for a message of n bytes.\<close>

definition link_ok :: "nat \<Rightarrow> 'e aloe \<Rightarrow> bool" where
  "link_ok n s \<longleftrightarrow> packet_wf (al_packet s) \<and> packet_wf (al_node_packet s)
     \<and> int n \<le> pk_size (al_packet s) \<and> int n \<le> pk_size (al_node_packet s)"

text \<open>The packet as the node finds it.\<close>

definition arrived :: "packet_command_t \<Rightarrow> packet_dest_t \<Rightarrow> bytes \<Rightarrow> packet_t \<Rightarrow> bool" where
  "arrived cmd dest bs np \<longleftrightarrow> packet_wf np \<and> packet_unread np = bs \<and> pk_r_ptr np = 0 \<and> packet_get_cmd np = Some cmd \<and> packet_get_dest np = Some dest"

lemma packet_clear_ok:
  assumes "packet_wf p"
  shows "packet_wf (snd (packet_clear p))" "packet_unread (snd (packet_clear p)) = []"
    "packet_room (snd (packet_clear p)) = nat (pk_size p)" "pk_w_ptr (snd (packet_clear p)) = 0" "pk_r_ptr (snd (packet_clear p)) = 0"
    "pk_size (snd (packet_clear p)) = pk_size p"
  using assms by (auto simp: packet_clear_def packet_wf_def packet_unread_def packet_written_def packet_room_def split: option.splits)

text \<open>packet_sendto delivers the bytes written since the last clear.\<close>

lemma sendto_delivers:
  assumes wf: "packet_wf p" "packet_wf np" and p: "pk_r_ptr p = 0" "packet_unread p = bs" and room: "int (length bs) \<le> pk_size np"
  shows "\<exists>np3. arrived (pk_cmd p) dest bs np3 \<and> pk_size np3 = pk_size np \<and> packet_sendto recv dest (p, np, st)
    = (let (ack, st', np4) = recv st np3; (r', p2) = packet_add_data (pk_buffer np4) (packet_total_size np4) (p\<lparr>pk_ack := ack\<rparr>)
       in (if r' \<noteq> 0 then -1 else 0, p2, np4, st'))"
proof -
  obtain b where b: "pk_buffer p = Some b" "packet_buf p = b" "int (length b) = pk_size p" "0 \<le> pk_w_ptr p" "pk_w_ptr p \<le> pk_size p"
    using wf(1) p(1) by (auto elim!: packet_wfE)
  have bs: "bs = take (nat (pk_w_ptr p)) b" using p b by (simp add: packet_unread_def packet_written_def)
  then have len: "int (length bs) = pk_w_ptr p" using b by simp
  define np2 where "np2 = (snd (packet_set_cmd (pk_cmd p) (snd (packet_clear np))))\<lparr>pk_dest := dest\<rparr>"
  obtain c where c: "pk_buffer np = Some c" "int (length c) = pk_size np" "pk_size np < 2 ^ 31" using wf(2) by (auto elim!: packet_wfE)
  have np2: "np2 = np\<lparr>pk_cmd := pk_cmd p, pk_dest := dest, pk_w_ptr := 0, pk_r_ptr := 0\<rparr>"
    using c by (simp add: np2_def packet_clear_def packet_set_cmd_def)
  define np3 where "np3 = np2\<lparr>pk_buffer := Some (memcpy_at c 0 bs), pk_w_ptr := int (length bs)\<rparr>"
  have nonneg: "\<not> pk_w_ptr p < 0" using b(4) by simp
  have add: "packet_add_data (Some b) (packet_total_size p) np2 = (0, np3)"
    using c b(1) len room bs nonneg packet_wf_cast [OF wf(1) b(4,5)]
    by (simp add: packet_add_data_def packet_total_size_def np3_def np2)
  have fits: "length bs \<le> length c" using room c by simp
  have "arrived (pk_cmd p) dest bs np3"
    using fits c room by (simp add: arrived_def np3_def np2 packet_wf_def packet_unread_def packet_written_def packet_buf_def
        packet_get_cmd_def packet_get_dest_def memcpy_at_def)
  moreover have "pk_size np3 = pk_size np" by (simp add: np3_def np2)
  moreover have "packet_sendto recv dest (p, np, st)
    = (let (ack, st', np4) = recv st np3; (r', p2) = packet_add_data (pk_buffer np4) (packet_total_size np4) (p\<lparr>pk_ack := ack\<rparr>)
       in (if r' \<noteq> 0 then -1 else 0, p2, np4, st'))"
    using b(1) add by (simp add: packet_sendto_def np2_def [symmetric] Let_def)
  ultimately show ?thesis by blast
qed

text \<open>A message to the only node that has modules of the waveform. The node leaves its packet
  empty, so that nothing is copied back.\<close>

definition answers :: "'e node_os \<Rightarrow> packet_command_t \<Rightarrow> packet_dest_t \<Rightarrow> bytes \<Rightarrow> 'e nod_anode_t \<Rightarrow> int \<Rightarrow> 'e nod_anode_t \<Rightarrow> bool" where
  "answers os cmd dest bs an r an' \<longleftrightarrow> (\<forall>np. arrived cmd dest bs np \<longrightarrow>
     (\<exists>np'. nod_anode_dispatch os (np, an) = Some (r, (np', an')) \<and> packet_wf np' \<and> pk_w_ptr np' = 0))"

definition one_node :: "waveform_t \<Rightarrow> bool" where
  "one_node w \<longleftrightarrow> w_modules_x_node w ! 0 \<noteq> 0 \<and> (\<forall>i. 0 < i \<and> i < nodes_MAX \<longrightarrow> w_modules_x_node w ! i = 0)"

lemma packet_cmd_simps [simp]: "packet_wf (p\<lparr>pk_cmd := c\<rparr>) = packet_wf p" "packet_unread (p\<lparr>pk_cmd := c\<rparr>) = packet_unread p"
  by (cases "pk_buffer p"; simp add: packet_wf_def packet_unread_def packet_written_def packet_buf_def)+

lemma send_to_node_ok:
  assumes mx: "w_modules_x_node w ! i \<noteq> 0" and wr: "writes (waveform_serialize (pt_node_ids pt ! i) action CP_INIT w) bs"
    and link: "link_ok (length bs) s" and an: "al_node s = Some an" and ans: "answers os cmd (waveform_dest w i) bs an r an'"
  shows "\<exists>s'. send_to_node os pt w cmd action i s = (if r = 0 then 0 else -1, s') \<and> al_node s' = Some an'"
proof -
  have wf: "packet_wf (al_packet s)" "packet_wf (al_node_packet s)" and sz: "int (length bs) \<le> pk_size (al_packet s)"
    "int (length bs) \<le> pk_size (al_node_packet s)" using link by (simp_all add: link_ok_def)
  define p0 where "p0 = snd (packet_clear (al_packet s))"
  have p0: "packet_wf p0" "packet_unread p0 = []" "length bs \<le> packet_room p0" "pk_r_ptr p0 = 0"
    using packet_clear_ok [OF wf(1)] sz by (simp_all add: p0_def)
  define p1 where "p1 = packet_append bs p0"
  have ser: "waveform_serialize (pt_node_ids pt ! i) action CP_INIT w p0 = (0, p1)"
    using wr p0 by (simp add: writes_def p1_def)
  have p1: "packet_wf p1" "packet_unread p1 = bs" "pk_r_ptr p1 = 0"
    using p0 by (simp_all add: p1_def packet_unread_append, simp add: packet_append_def)
  define p2 where "p2 = p1\<lparr>pk_cmd := cmd\<rparr>"
  have set: "snd (packet_set_cmd cmd p1) = p2" using p1(1) by (auto simp: packet_set_cmd_def p2_def elim!: packet_wfE)
  have p2: "packet_wf p2" "packet_unread p2 = bs" "pk_r_ptr p2 = 0" "pk_cmd p2 = cmd"
    using p1 by (simp_all add: p2_def)
  obtain np3 where np3: "arrived cmd (waveform_dest w i) bs np3" and
    send: "packet_sendto (node_recv os) (waveform_dest w i) (p2, al_node_packet s, al_node s)
      = (let (ack, st', np4) = node_recv os (al_node s) np3;
             (r', p2) = packet_add_data (pk_buffer np4) (packet_total_size np4) (p2\<lparr>pk_ack := ack\<rparr>)
         in (if r' \<noteq> 0 then -1 else 0, p2, np4, st'))"
    using sendto_delivers [OF p2(1) wf(2) p2(3,2) sz(2), of "waveform_dest w i" "node_recv os" "al_node s"] p2(4) by auto
  obtain np4 where np4: "nod_anode_dispatch os (np3, an) = Some (r, (np4, an'))" "packet_wf np4" "pk_w_ptr np4 = 0"
    using ans np3 unfolding answers_def by blast
  obtain b where b: "pk_buffer np4 = Some b" "packet_total_size np4 = 0" using np4 by (auto simp: packet_total_size_def elim!: packet_wfE)
  obtain d where d: "pk_buffer p2 = Some d" "0 \<le> pk_w_ptr p2" "pk_w_ptr p2 \<le> pk_size p2" using p2(1) by (auto elim!: packet_wfE)
  have "packet_add_data (pk_buffer np4) (packet_total_size np4) (p2\<lparr>pk_ack := r\<rparr>) = (0, p2\<lparr>pk_ack := r\<rparr>)"
    using b d packet_wf_cast [OF p2(1) d(2,3)] by (simp add: packet_add_data_def memcpy_at_def)
  then have "packet_sendto (node_recv os) (waveform_dest w i) (p2, al_node_packet s, al_node s) = (0, p2\<lparr>pk_ack := r\<rparr>, np4, Some an')"
    unfolding send by (simp add: node_recv_def an np4(1))
  then have al: "al_sendto os (waveform_dest w i) \<lparr>al_packet = p2, al_node_packet = al_node_packet s, al_node = al_node s\<rparr>
      = (0, \<lparr>al_packet = p2\<lparr>pk_ack := r\<rparr>, al_node_packet = np4, al_node = Some an'\<rparr>)" by (simp add: al_sendto_def)
  have ack: "packet_get_ack (p2\<lparr>pk_ack := r\<rparr>) = r" using d by (simp add: packet_get_ack_def)
  have rec: "s\<lparr>al_packet := q\<rparr> = \<lparr>al_packet = q, al_node_packet = al_node_packet s, al_node = al_node s\<rparr>" for q by simp
  have steps: "ignore_rc (on_packet packet_clear) s = (0, s\<lparr>al_packet := p0\<rparr>)"
    "on_packet (waveform_serialize (pt_node_ids pt ! i) action CP_INIT w) (s\<lparr>al_packet := p0\<rparr>) = (0, s\<lparr>al_packet := p1\<rparr>)"
    "ignore_rc (on_packet (packet_set_cmd cmd)) (s\<lparr>al_packet := p1\<rparr>) = (0, s\<lparr>al_packet := p2\<rparr>)"
    using ser set by (simp_all add: ignore_rc_def on_packet_def case_prod_beta p0_def)
  have "send_to_node os pt w cmd action i s
      = (if r = 0 then 0 else -1, \<lparr>al_packet = p2\<lparr>pk_ack := r\<rparr>, al_node_packet = np4, al_node = Some an'\<rparr>)"
    using mx steps al ack unfolding rec [symmetric] by (simp add: send_to_node_def)
  then show ?thesis by simp
qed

lemma waveform_send_one:
  assumes "one_node w" "writes (waveform_serialize (pt_node_ids pt ! 0) action CP_INIT w) bs" "link_ok (length bs) s"
    "al_node s = Some an" "answers os cmd (waveform_dest w 0) bs an r an'"
  shows "\<exists>s'. waveform_send os pt w cmd action s = (if r = 0 then 0 else -1, s') \<and> al_node s' = Some an'"
proof -
  have up: "[0..<nodes_MAX] = 0 # [1..<nodes_MAX]" by (simp add: nodes_MAX_def upt_rec)
  have rest: "seq_rc (map (send_to_node os pt w cmd action) xs) t = (0, t)" if "set xs \<subseteq> {1..<nodes_MAX}" for xs t
    using that assms(1) by (induction xs) (auto simp: send_to_node_def one_node_def)
  obtain s' where "send_to_node os pt w cmd action 0 s = (if r = 0 then 0 else -1, s')" "al_node s' = Some an'"
    using send_to_node_ok [OF _ assms(2-5)] assms(1) by (auto simp: one_node_def)
  then show ?thesis using rest [of "[1..<nodes_MAX]"] unfolding waveform_send_def up by simp
qed

section \<open>Loading\<close>

lemma find_idx_eq: "i < length xs \<Longrightarrow> P (xs ! i) \<Longrightarrow> (\<And>j. j < i \<Longrightarrow> \<not> P (xs ! j)) \<Longrightarrow> find_idx P xs = i"
proof (induction xs arbitrary: i)
  case (Cons x xs)
  show ?case
  proof (cases i)
    case (Suc k)
    have "\<not> P x" using Cons.prems(3) [of 0] Suc by simp
    moreover have "find_idx P xs = k" using Cons.prems Suc by (intro Cons.IH) force+
    ultimately show ?thesis using Suc by simp
  qed (use Cons.prems in simp)
qed simp

text \<open>The operating system serves every request, and the pipelines run while the node sleeps.\<close>

definition platform_ok :: "'e node_os \<Rightarrow> bool" where
  "platform_ok os \<longleftrightarrow> (\<forall>n sz. os_calloc os n sz) \<and> (\<forall>i. os_context_addr os i \<noteq> 0) \<and> (\<forall>b. ld_launch (os_loader os) b)
     \<and> (\<forall>us t. os_sleep os us t = (0, cycles os t))"

text \<open>Slot i is the first free one and the kernel has room for the waveform.\<close>

definition accepts :: "int \<Rightarrow> waveform_t \<Rightarrow> nat \<Rightarrow> 'e nod_anode_t \<Rightarrow> nat list list \<Rightarrow> bool" where
  "accepts node w i an xss \<longleftrightarrow> i < length (an_waveforms an) \<and> ws_cur_status (nw_status (an_waveforms an ! i)) = STOP
     \<and> (\<forall>j < i. ws_cur_status (nw_status (an_waveforms an ! j)) \<noteq> STOP) \<and> length (nw_modes (an_waveforms an ! i)) = modes_MAX
     \<and> ctx_ok (an_c an) xss \<and> length (node_modules node w) \<le> card (free_entries (an_c an))
     \<and> group_ok (w_id w)
     \<and> (\<forall>m \<in> set (node_modules node w). 0 \<le> m_processor_idx m \<and> m_processor_idx m < int (length xss))"

lemma waveform_received_fields:
  "nw_id (waveform_received os node w d) = w_id w" "nw_nof_modules (waveform_received os node w d) = int (length (node_modules node w))"
  "ws_cur_status (nw_status (waveform_received os node w d)) = LOADED" "node_wf (waveform_received os node w d)"
  by (simp_all add: waveform_received_def waveform_header_def node_wf_def received_modules_def)

lemma nmod_received:
  "i < length (node_modules node w) \<Longrightarrow> nmod (waveform_received os node w d) i = received_module os i (node_modules node w ! i)"
  by (simp add: waveform_received_def nmod_def get_elem_def received_modules_def)

lemma received_module_fields:
  assumes "os_context_addr os i \<noteq> 0"
  shows "nm_parent (received_module os i m) = module_received m" "context_arg (received_module os i m) \<noteq> 0"
    "m_status (module_received m) = PARSED" "m_processor_idx (module_received m) = m_processor_idx m"
  using assms by (simp_all add: received_module_def nod_module_alloc_def oesr_context_init_def context_arg_def module_received_def
      module_with_def module_header_def module_zero_def)

lemma dispatch_load_ok:
  assumes w: "waveform_ok node w" and os: "platform_ok os" and an: "accepts node w i an xss"
  obtains an' ys where "answers os CMD_LOAD dest (load_bytes node w) an 0 an'" "node_ok (slot_state i an') ys" "length ys = length xss"
    "nw_id (an_waveforms an' ! i) = w_id w" "an_waveforms an' = (an_waveforms an)[i := an_waveforms an' ! i]"
    "map nm_parent (nmodules_of (an_waveforms an' ! i)) = map (\<lambda>m. (module_received m)\<lparr>m_status := LOADED\<rparr>) (node_modules node w)"
    "\<And>j. j < length (node_modules node w) \<Longrightarrow> module_ready (nmod (an_waveforms an' ! i) j)"
proof -
  have mem: "\<And>n sz. os_calloc os n sz" "\<And>i. os_context_addr os i \<noteq> 0" and sleep: "\<And>us t. os_sleep os us t = (0, cycles os t)"
    using os by (simp_all add: platform_ok_def)
  have sl: "i < length (an_waveforms an)" "length (nw_modes (an_waveforms an ! i)) = modes_MAX" using an by (simp_all add: accepts_def)
  have idx: "find_idx (\<lambda>w. ws_cur_status (nw_status w) = STOP) (an_waveforms an) = i"
    using an by (intro find_idx_eq) (auto simp: accepts_def)
  let ?s = "slot_state i an"
  let ?s1 = "?s\<lparr>ns_w := waveform_received os node w (ns_w ?s)\<rparr>"
  have modes: "length (nw_modes (ns_w ?s)) = modes_MAX" using sl by (simp add: slot_state_def)
  have n: "nof ?s1 = length (node_modules node w)" by (simp add: waveform_received_fields)
  have mods: "sparent ?s1 j = module_received (node_modules node w ! j)" "context_arg (smod ?s1 j) \<noteq> 0"
    if "j < nof ?s1" for j using that n by (simp_all add: nmod_received received_module_fields [OF mem(2)])
  have pre: "loadable os ?s1 xss" "ws_cur_status (nw_status (ns_w ?s1)) = LOADED"
    using an os n mods by (simp_all add: loadable_def accepts_def waveform_received_fields platform_ok_def slot_state_def received_module_fields [OF mem(2)])
  have parsed: "m_status (sparent ?s1 j) = PARSED" if "j < nof ?s1" for j
    using mods(1) [OF that] received_module_fields(3) [OF mem(2)] by simp
  obtain s2 ys where l: "nod_waveform_load os ?s1 = Some (0, s2)" "node_ok s2 ys" "length ys = length xss" "nof s2 = nof ?s1"
    "nw_id (ns_w s2) = nw_id (ns_w ?s1)" and sub: "\<And>k. k < length xss \<Longrightarrow> set (xss ! k) \<subseteq> set (ys ! k)"
    and rd: "\<And>j. j < nof ?s1 \<Longrightarrow> module_ready (smod s2 j) \<and> sparent s2 j = (sparent ?s1 j)\<lparr>m_status := LOADED\<rparr>"
    by (rule waveform_load_ok [OF pre parsed sleep]) (assumption, rule that)
  let ?an = "put_slot i an s2"
  have slot: "slot_state i ?an = s2" "an_waveforms ?an ! i = ns_w s2" using sl by (simp_all add: slot_state_def put_slot_def)
  have "answers os CMD_LOAD dest (load_bytes node w) an 0 ?an"
    unfolding answers_def
  proof (intro allI impI)
    fix np assume a: "arrived CMD_LOAD dest (load_bytes node w) np"
    then have np: "packet_wf np" "packet_unread np = load_bytes node w @ []" by (simp_all add: arrived_def)
    let ?np = "packet_skip (length (load_bytes node w)) np"
    have "nod_waveform_unserializeTo os (np, ?s) = Some (0, (?np, ?s1))"
      by (rule unserialize_load_packet [OF w mem modes np])
    then have "nod_dispatcher_load os (np, an) = Some (0, (?np, ?an))"
      using idx sl l(1) by (simp add: nod_dispatcher_load_def)
    then have "nod_anode_dispatch os (np, an) = Some (0, (snd (packet_clear ?np), ?an))"
      using a by (simp add: nod_anode_dispatch_def arrived_def cleared_def)
    moreover have "packet_wf ?np" using np by simp
    ultimately show "\<exists>np'. nod_anode_dispatch os (np, an) = Some (0, (np', ?an)) \<and> packet_wf np' \<and> pk_w_ptr np' = 0"
      using packet_clear_ok by blast
  qed
  moreover have "map nm_parent (nmodules_of (ns_w s2)) = map (\<lambda>m. (module_received m)\<lparr>m_status := LOADED\<rparr>) (node_modules node w)"
  proof (rule nth_equalityI)
    have wf: "node_wf (ns_w s2)" using l(2) by (simp add: node_ok_def)
    then show len: "length (map nm_parent (nmodules_of (ns_w s2))) = length (map (\<lambda>m. (module_received m)\<lparr>m_status := LOADED\<rparr>) (node_modules node w))"
      using l(4) n by (auto simp: nmodules_of_def elems_def node_wf_def split: option.splits)
    fix j assume "j < length (map nm_parent (nmodules_of (ns_w s2)))"
    then have j: "j < length (nmodules_of (ns_w s2))" "j < nof ?s1" using len n by simp_all
    then have "nmodules_of (ns_w s2) ! j = smod s2 j"
      by (auto simp: nmodules_of_def elems_def nmod_def get_elem_def split: option.splits)
    then show "map nm_parent (nmodules_of (ns_w s2)) ! j = map (\<lambda>m. (module_received m)\<lparr>m_status := LOADED\<rparr>) (node_modules node w) ! j"
      using j n rd [OF j(2)] mods(1) [OF j(2)] by simp
  qed
  ultimately show thesis using l rd slot n by (intro that [of ?an ys]) (simp_all add: put_slot_def waveform_received_fields)
qed

lemma waveform_load_core:
  assumes mp: "mp (set_cur PARSED w0) = (0, w1, counts)" and w: "w = w1\<lparr>w_modules_x_node := take nodes_MAX counts\<rparr>"
    and node: "node = pt_node_ids pt ! 0" "waveform_ok node w" "one_node w" "platform_ok os"
    and s: "link_ok (length (load_bytes node w)) s" "al_node s = Some an" "accepts node w i an xss"
  shows "\<exists>s' an' ys. waveform_load os pt mp (w0, s) = (0, set_cur LOADED w, s') \<and> al_node s' = Some an'
    \<and> an_waveforms an' = (an_waveforms an)[i := an_waveforms an' ! i] \<and> nw_id (an_waveforms an' ! i) = w_id w
    \<and> node_ok (slot_state i an') ys
    \<and> map nm_parent (nmodules_of (an_waveforms an' ! i)) = map (\<lambda>m. (module_received m)\<lparr>m_status := LOADED\<rparr>) (node_modules node w)
    \<and> (\<forall>j < length (node_modules node w). module_ready (nmod (an_waveforms an' ! i) j))"
proof -
  obtain an' ys where d: "answers os CMD_LOAD (waveform_dest w 0) (load_bytes node w) an 0 an'" "node_ok (slot_state i an') ys"
    "length ys = length xss" "nw_id (an_waveforms an' ! i) = w_id w" "an_waveforms an' = (an_waveforms an)[i := an_waveforms an' ! i]"
    "map nm_parent (nmodules_of (an_waveforms an' ! i)) = map (\<lambda>m. (module_received m)\<lparr>m_status := LOADED\<rparr>) (node_modules node w)"
    and rd: "\<And>j. j < length (node_modules node w) \<Longrightarrow> module_ready (nmod (an_waveforms an' ! i) j)"
    by (rule dispatch_load_ok [OF node(2,4) s(3), of "waveform_dest w 0"]) (rule that)
  have "writes (waveform_serialize (pt_node_ids pt ! 0) WAVEFORM_LOAD CP_INIT w) (load_bytes node w)"
    using emits_writes [OF emits_waveform_load [OF node(2)]] node(1) by simp
  from waveform_send_one [OF node(3) this s(1,2) d(1)] obtain s' where
    s': "waveform_send os pt w CMD_LOAD WAVEFORM_LOAD s = (0, s')" "al_node s' = Some an'" by auto
  then have "waveform_load os pt mp (w0, s) = (0, set_cur LOADED w, s')" using mp w by (simp add: waveform_load_def Let_def)
  then show ?thesis using s'(2) d rd by blast
qed

text \<open>C1. Loading a waveform end to end: the manager maps it, sends it through the two packets and
  marks it LOADED; in the first free slot of the node every module that the mapping gave to the node stands
  with its data, ready to be initialised, and runs as a process of its own on its pipeline.
  The other slots are untouched.\<close>

theorem waveform_load_deploys:
  assumes mp: "mp (set_cur PARSED w0) = (0, w1, counts)" and w: "w = w1\<lparr>w_modules_x_node := take nodes_MAX counts\<rparr>"
    and node: "node = pt_node_ids pt ! 0" "waveform_ok node w" "one_node w" "platform_ok os"
    and s: "link_ok (length (load_bytes node w)) s" "al_node s = Some an" "accepts node w i an xss"
  shows "\<exists>s' an' ys. waveform_load os pt mp (w0, s) = (0, set_cur LOADED w, s') \<and> al_node s' = Some an'
    \<and> an_waveforms an' = (an_waveforms an)[i := an_waveforms an' ! i] \<and> nw_id (an_waveforms an' ! i) = w_id w
    \<and> node_ok (slot_state i an') ys
    \<and> map nm_parent (nmodules_of (an_waveforms an' ! i)) = map (\<lambda>m. (module_received m)\<lparr>m_status := LOADED\<rparr>) (node_modules node w)
    \<and> (\<forall>j < length (node_modules node w). module_ready (nmod (an_waveforms an' ! i) j))"
  using assms by (rule waveform_load_core)

definition ex_platform :: man_platform_t where
  "ex_platform = (man_platform_config 1 1000000 False)\<lparr>pt_node_ids := 5 # replicate 9 0\<rparr>"

definition ex_node :: "int list nod_anode_t" where
  "ex_node = \<lparr>an_waveforms = [nod_waveform_zero\<lparr>nw_status := \<lparr>ws_cur_status = RUN, ws_next_timeslot = 0\<rparr>, nw_id := 9\<rparr>, nod_waveform_zero],
     an_c = ex_context, an_multiple = 1, an_env = []\<rparr>"

definition ex_aloe :: "int list aloe" where
  "ex_aloe = \<lparr>al_packet = ex_packet, al_node_packet = ex_packet, al_node = Some ex_node\<rparr>"

lemma ex_platform_ok: "platform_ok ex_load_os" "one_node ex_waveform" "pt_node_ids ex_platform ! 0 = 5"
  "n \<le> 2048 \<Longrightarrow> link_ok n ex_aloe" "al_node ex_aloe = Some ex_node"
proof -
  have "os_sleep ex_load_os us t = (0, cycles ex_load_os t)" for us t by (simp add: ex_load_os_def cycles_sleep)
  moreover have "os_calloc ex_load_os n sz" "os_context_addr ex_load_os i \<noteq> 0" "ld_launch (os_loader ex_load_os) b" for n sz i b
    by (simp_all add: ex_load_os_def ex_os_def)
  ultimately show "platform_ok ex_load_os" unfolding platform_ok_def by blast
  show "one_node ex_waveform" by (auto simp: one_node_def ex_waveform_def nodes_MAX_def nth_Cons')
  show "pt_node_ids ex_platform ! 0 = 5" by (simp add: ex_platform_def)
  show "al_node ex_aloe = Some ex_node" by (simp add: ex_aloe_def)
  have "pk_size ex_packet = 2048" by (simp add: ex_packet_def)
  then show "n \<le> 2048 \<Longrightarrow> link_ok n ex_aloe" by (simp add: link_ok_def ex_aloe_def ex_packet_facts)
qed

lemma ex_accepts: "accepts 5 ex_waveform 1 ex_node [[]]"
proof -
  have "card (free_entries ex_context) = 200"
    by (simp add: free_entries_def ex_context_def ex_process_def rtdal_process_MAX_def)
  then show ?thesis
    by (simp add: accepts_def ex_node_def ex_node_modules nod_waveform_zero_def)
      (simp add: ctx_ok_def pipe_ok_def members_ok_def ex_context_def ex_waveform_def group_ok_def MAX_PROCESS_GROUP_ID_def ex_module_def module_zero_def)
qed

theorem waveform_load_deploys_witness:
  "\<exists>s' an' ys. waveform_load ex_load_os ex_platform (\<lambda>w. (0, ex_waveform, 1 # replicate 9 0)) (ex_waveform, ex_aloe)
      = (0, set_cur LOADED ex_waveform, s') \<and> al_node s' = Some an' \<and> node_ok (slot_state 1 an') ys \<and> nw_id (an_waveforms an' ! 1) = 7"
proof -
  have w: "ex_waveform = ex_waveform\<lparr>w_modules_x_node := take nodes_MAX (1 # replicate 9 0)\<rparr>"
    by (simp add: ex_waveform_def nodes_MAX_def)
  have id: "w_id ex_waveform = 7" by (simp add: ex_waveform_def)
  have link: "link_ok (length (load_bytes 5 ex_waveform)) ex_aloe"
    by (rule ex_platform_ok(4)) (simp add: length_ex_load length_ex_module_bytes)
  show ?thesis
    using waveform_load_deploys [OF _ w ex_platform_ok(3) [symmetric] ex_waveform_ok ex_platform_ok(2,1) link ex_platform_ok(5) ex_accepts,
        of "\<lambda>w. (0, ex_waveform, 1 # replicate 9 0)" ex_waveform] id by auto
qed

section \<open>Status of a waveform\<close>

text \<open>Readers that leave a part of the destination alone.\<close>

definition leaves :: "('d \<Rightarrow> 'x) \<Rightarrow> 'd reader \<Rightarrow> bool" where
  "leaves f r \<longleftrightarrow> (\<forall>s. f (snd (snd (r s))) = f (snd s))"

lemma leavesD: "leaves f r \<Longrightarrow> f (snd (snd (r s))) = f (snd s)"
  by (simp only: leaves_def)

lemma leaves_seq: "(\<And>r. r \<in> set rs \<Longrightarrow> leaves f r) \<Longrightarrow> leaves f (seq_rc rs)"
proof (induction rs)
  case (Cons r rs)
  have r: "leaves f r" and rs: "leaves f (seq_rc rs)" using Cons by simp_all
  show ?case unfolding leaves_def
  proof
    fix s
    obtain k s1 where "r s = (k, s1)" by (cases "r s")
    then show "f (snd (snd (seq_rc (r # rs) s))) = f (snd s)" using leavesD [OF r, of s] leavesD [OF rs, of s1] by simp
  qed
qed (simp add: leaves_def)

lemma leaves_read: "(\<And>x. leaves f (k x)) \<Longrightarrow> leaves f (read_then g k)"
  by (auto simp: leaves_def read_then_def split: prod.splits option.splits)

lemma leaves_with: "(\<And>d. leaves f (k d)) \<Longrightarrow> leaves f (with_dest k)"
  by (auto simp: leaves_def with_dest_def split: prod.splits)

lemma leaves_focus: "(\<And>x d. f (put x d) = f d) \<Longrightarrow> leaves f (focus get put r)"
  by (auto simp: leaves_def focus_def split: prod.splits)

lemma unserialize_status: "leaves w_status (waveform_unserializeTo calloc_ok cp)"
proof -
  have alloc: "leaves w_status (on_dest (waveform_alloc calloc_ok n))" for n
    by (auto simp: leaves_def on_dest_def waveform_alloc_def Let_def split: prod.splits option.splits)
  show ?thesis unfolding waveform_unserializeTo_def
    by (auto intro!: leaves_read leaves_seq leaves_with leaves_focus alloc simp: set_module_def Let_def split: if_splits)
      (simp_all add: leaves_def)
qed

text \<open>The calls of the manager on a waveform, in any order and with any outcome; the parameters
  of the mapping and the operating system may change from call to call, and a load whose
  mapping is undefined is no step. The flag records whether an initialisation was requested
  since the last load or delete.\<close>

inductive man_step :: "waveform_t \<times> 'e aloe \<times> bool \<Rightarrow> waveform_t \<times> 'e aloe \<times> bool \<Rightarrow> bool" where
  ms_load: "mapping_map alloc_ok fo mapper sc pt counts (set_cur PARSED w) = Some m \<Longrightarrow>
    waveform_load os pt (\<lambda>_. m) (w, s) = (r, w', s') \<Longrightarrow> man_step (w, s, b) (w', s', False)"
| ms_update: "waveform_update os (w, s) = (r, w', s') \<Longrightarrow> man_step (w, s, b) (w', s', b)"
| ms_set: "waveform_status_set os pt st (w, s) = (r, w', s') \<Longrightarrow> man_step (w, s, b)
    (w', s', b \<or> ws_cur_status (w_status w) = LOADED \<and> ws_cur_status st = INIT)"
| ms_mode: "waveform_mode_set os pt t name (w, s) = (r, w', s') \<Longrightarrow> man_step (w, s, b) (w', s', b)"
| ms_delete: "man_step (w, s, b) (waveform_delete w, s, False)"

inductive_cases man_step_cases: "man_step (w, s, b) (w', s', b')"

definition man_inv :: "waveform_t \<times> 'e aloe \<times> bool \<Rightarrow> bool" where
  "man_inv x \<longleftrightarrow> (case x of (w, s, b) \<Rightarrow> (let st = ws_cur_status (w_status w) in
     st \<in> {PARSED, LOADED, INIT, RUN, STEP, PAUSE, STOP} \<and> (st \<in> {INIT, RUN, STEP, PAUSE} \<longrightarrow> b)))"

lemma set_cur_status [simp]: "ws_cur_status (w_status (set_cur st w)) = st"
  by (simp add: set_cur_def)

lemma status_valid_inv:
  assumes "waveform_status_is_valid cur new" "cur \<in> {INIT, RUN, STEP, PAUSE} \<longrightarrow> b"
  shows "new \<in> {INIT, RUN, STEP, PAUSE, STOP}" "new \<in> {INIT, RUN, STEP, PAUSE} \<longrightarrow> b \<or> cur = LOADED \<and> new = INIT"
  using assms by (auto simp: waveform_status_is_valid_def split: waveform_status_enum.splits)

lemma mapping_status: "mapping_map alloc_ok fo mapper sc pt counts w = Some (r, w', c) \<Longrightarrow> w_status w' = w_status w"
  by (auto simp: mapping_map_def Let_def split: if_splits option.splits prod.splits)

lemma update_status:
  assumes "waveform_update os (w, s) = (r, w', s')"
  shows "w_status w' = w_status w"
proof -
  obtain k s2 where a: "al_sendto os (waveform_dest w 0) (snd (on_packet packet_clear (snd (on_packet (packet_set_cmd CMD_GET) s)))) = (k, s2)"
    by (metis surj_pair)
  obtain k' p w1 where u: "waveform_unserializeTo (os_calloc os) NONE (al_packet s2, w) = (k', (p, w1))" by (metis surj_pair)
  have "w_status (snd (snd (waveform_unserializeTo (os_calloc os) NONE (al_packet s2, w)))) = w_status w"
    using unserialize_status by (simp add: leaves_def)
  then have "w_status w1 = w_status w" unfolding u by simp
  then show ?thesis using assms a u by (auto simp: waveform_update_def Let_def split: if_splits)
qed

lemma man_step_inv:
  assumes "man_step x y" "man_inv x"
  shows "man_inv y"
  using assms
proof (cases rule: man_step.cases)
  case (ms_load alloc_ok fo mapper sc pt counts w m os s r w' s' b)
  obtain r1 w1 c where m: "m = (r1, w1, c)" by (cases m)
  then have "ws_cur_status (w_status w1) = PARSED" using mapping_status ms_load(3) by fastforce
  then have "ws_cur_status (w_status w') \<in> {PARSED, LOADED}"
    using ms_load(4) m by (auto simp: waveform_load_def Let_def split: if_splits prod.splits)
  then show ?thesis using ms_load by (auto simp: man_inv_def Let_def)
next
  case (ms_update os w s r w' s' b)
  then show ?thesis using update_status [OF ms_update(3)] assms(2) by (simp add: man_inv_def Let_def)
next
  case (ms_set os pt st w s r w' s' b)
  let ?c = "ws_cur_status (w_status w)" and ?n = "ws_cur_status st"
  have pre: "?c \<in> {INIT, RUN, STEP, PAUSE} \<longrightarrow> b" using assms(2) ms_set by (simp add: man_inv_def Let_def)
  show ?thesis
  proof (cases "waveform_status_is_valid ?c ?n")
    case True
    have "ws_cur_status (w_status w') = ?n \<or> ws_cur_status (w_status w') = PARSED"
      using ms_set(3) True by (auto simp: waveform_status_set_def Let_def split: if_splits prod.splits)
    then show ?thesis using ms_set status_valid_inv [OF True pre] by (auto simp: man_inv_def Let_def)
  next
    case False
    then have "w' = w" using ms_set(3) by (simp add: waveform_status_set_def)
    then show ?thesis using ms_set assms(2) by (auto simp: man_inv_def Let_def)
  qed
next
  case (ms_mode os pt t name w s r w' s' b)
  then have "w_status w' = w_status w"
    by (auto simp: waveform_mode_set_def Let_def split: if_splits prod.splits)
  then show ?thesis using ms_mode assms(2) by (simp add: man_inv_def Let_def)
next
  case (ms_delete w s b)
  then show ?thesis by (simp add: man_inv_def waveform_delete_def waveform_zero_def)
qed

text \<open>C12. Whatever calls of the manager are made on a parsed waveform (load, update, status, mode
  and delete), in whatever order and with whatever outcome, the manager's status of the
  waveform is never INIT, RUN, STEP or PAUSE unless an initialisation was requested after the
  last load or delete, and it is always a value of the enumeration.\<close>

theorem manager_status_reachable:
  assumes "man_step\<^sup>*\<^sup>* (w0, s0, False) (w, s, b)" "ws_cur_status (w_status w0) = PARSED"
  shows "ws_cur_status (w_status w) \<in> {PARSED, LOADED, INIT, RUN, STEP, PAUSE, STOP}
    \<and> (ws_cur_status (w_status w) \<in> {INIT, RUN, STEP, PAUSE} \<longrightarrow> b)"
proof -
  have "man_inv (w, s, b)" using assms(1)
  proof (induction rule: rtranclp_induct)
    case base
    show ?case using assms(2) by (simp add: man_inv_def Let_def)
  qed (rule man_step_inv)
  then show ?thesis by (simp add: man_inv_def Let_def)
qed

text \<open>A waveform with one module on the only node.\<close>

definition ex_single :: waveform_t where
  "ex_single = ex_waveform\<lparr>w_modules := Some [ex_module\<lparr>m_node := 0\<rparr>], w_nof_modules := 1\<rparr>"

definition ex_man_platform :: man_platform_t where
  "ex_man_platform = man_platform_config 1 1000000 False"

lemma ex_single_load:
  "\<exists>s'. waveform_load ex_load_os ex_man_platform (\<lambda>_. (0, ex_single, 1 # replicate 9 0)) (ex_single, ex_aloe) = (0, set_cur LOADED ex_single, s')"
proof -
  have w: "ex_single = ex_single\<lparr>w_modules_x_node := take nodes_MAX (1 # replicate 9 0)\<rparr>"
    by (simp add: ex_single_def ex_waveform_def nodes_MAX_def)
  have nm: "node_modules 0 ex_single = [ex_module\<lparr>m_node := 0\<rparr>]" by (simp add: node_modules_def modules_of_def ex_single_def)
  have mo: "module_ok (ex_module\<lparr>m_node := 0\<rparr>)" using ex_module_ok by (simp add: module_ok_def module_wf_def)
  have mb: "module_bytes (ex_module\<lparr>m_node := 0\<rparr>) = module_bytes ex_module" by (simp add: module_bytes_def)
  have ok: "waveform_ok 0 ex_single" using ex_waveform_ok mo by (simp add: waveform_ok_def nm) (simp add: ex_single_def)
  have one: "one_node ex_single" using ex_platform_ok(2) by (simp add: one_node_def ex_single_def)
  have "length (load_bytes 0 ex_single) = length (load_bytes 5 ex_waveform)"
    by (simp add: load_bytes_def load_tail_def nm ex_node_modules mb) (simp add: ex_single_def)
  then have link: "link_ok (length (load_bytes 0 ex_single)) ex_aloe"
    by (intro ex_platform_ok(4)) (simp add: length_ex_load length_ex_module_bytes)
  have acc: "accepts 0 ex_single 1 ex_node [[]]"
    using ex_accepts by (simp add: accepts_def nm ex_node_modules) (simp add: ex_single_def)
  have node: "0 = pt_node_ids ex_man_platform ! 0" by (simp add: ex_man_platform_def man_platform_config_def nodes_MAX_def)
  show ?thesis
    using waveform_load_core [OF _ w node ok one ex_platform_ok(1) link ex_platform_ok(5) acc, of "\<lambda>_. (0, ex_single, 1 # replicate 9 0)" ex_single]
    by auto
qed

theorem manager_status_reachable_witness:
  "\<exists>w s. man_step\<^sup>*\<^sup>* (ex_single, ex_aloe, False) (set_cur LOADED ex_single, s, False)
    \<and> (\<exists>s' b. man_step\<^sup>*\<^sup>* (ex_single, ex_aloe, False) (w, s', b) \<and> ws_cur_status (w_status w) = INIT \<and> b)"
proof -
  let ?sc = "\<lparr>sc_newmodules_matrix = [], sc_y_len = [], sc_x_len = 0\<rparr>" and ?st = "\<lparr>ws_cur_status = INIT, ws_next_timeslot = 0\<rparr>"
  have m: "mapping_map True ex_fops (\<lambda>_. Some [0]) ?sc ex_man_platform [] (set_cur PARSED ex_single) = Some (0, ex_single, 1 # replicate 9 0)"
    by code_simp
  obtain s1 where l: "waveform_load ex_load_os ex_man_platform (\<lambda>_. (0, ex_single, 1 # replicate 9 0)) (ex_single, ex_aloe) = (0, set_cur LOADED ex_single, s1)"
    using ex_single_load by blast
  have 1: "man_step (ex_single, ex_aloe, False) (set_cur LOADED ex_single, s1, False)" by (rule ms_load [OF m l])
  obtain r w2 s2 where st: "waveform_status_set ex_load_os ex_man_platform ?st (set_cur LOADED ex_single, s1) = (r, w2, s2)" by (metis surj_pair)
  have 2: "man_step (set_cur LOADED ex_single, s1, False) (w2, s2, False \<or> True)" using ms_set [OF st, of False] by simp
  have w2: "ws_cur_status (w_status w2) = INIT"
    using st by (auto simp: waveform_status_set_def waveform_status_is_valid_def Let_def split: if_splits prod.splits)
  have r: "man_step\<^sup>*\<^sup>* (ex_single, ex_aloe, False) (w2, s2, False \<or> True)" using 1 2 by (meson converse_rtranclp_into_rtranclp rtranclp.rtrancl_refl)
  have "ws_cur_status (w_status ex_single) = PARSED" by (simp add: ex_single_def ex_waveform_def waveform_zero_def)
  from manager_status_reachable [OF r this] have "False \<or> True" using w2 by simp
  then show ?thesis using 1 r w2 by blast
qed

text \<open>When the node refuses to initialise a loaded waveform, the call fails but the manager keeps
  the status INIT, so that the next request to run the waveform is not rejected.\<close>

theorem failed_init_can_run:
  assumes "ws_cur_status (w_status w) = LOADED" "ws_cur_status st = INIT"
    and "waveform_send os pt (w\<lparr>w_status := st\<rparr>) CMD_SET WAVEFORM_STATUS s = (r, s1)" "r \<noteq> 0"
  shows "waveform_status_set os pt st (w, s) = (-1, w\<lparr>w_status := st\<rparr>, s1)
    \<and> waveform_status_is_valid (ws_cur_status (w_status (w\<lparr>w_status := st\<rparr>))) RUN"
  using assms by (simp add: waveform_status_set_def waveform_status_is_valid_def)

theorem failed_init_can_run_witness:
  "fst (waveform_status_set ex_os ex_platform \<lparr>ws_cur_status = INIT, ws_next_timeslot = 0\<rparr>
      (set_cur LOADED ex_waveform, ex_aloe\<lparr>al_node := None\<rparr>)) = -1"
proof -
  let ?st = "\<lparr>ws_cur_status = INIT, ws_next_timeslot = 0\<rparr>" and ?w = "set_cur LOADED ex_waveform" and ?s = "ex_aloe\<lparr>al_node := None\<rparr>"
  have ne: "fst (waveform_send ex_os ex_platform (?w\<lparr>w_status := ?st\<rparr>) CMD_SET WAVEFORM_STATUS ?s) \<noteq> 0" by code_simp
  obtain r s1 where r: "waveform_send ex_os ex_platform (?w\<lparr>w_status := ?st\<rparr>) CMD_SET WAVEFORM_STATUS ?s = (r, s1)"
    by (cases "waveform_send ex_os ex_platform (?w\<lparr>w_status := ?st\<rparr>) CMD_SET WAVEFORM_STATUS ?s")
  then have "r \<noteq> 0" using ne by (simp only: fst_conv not_False_eq_True)
  then show ?thesis using failed_init_can_run [OF _ _ r] by simp
qed

section \<open>Change of mode\<close>

text \<open>Slot wi is the one that holds the waveform with the id of w, with the modules xs.\<close>

definition holds :: "nat \<Rightarrow> waveform_t \<Rightarrow> nod_module_t list \<Rightarrow> 'e nod_anode_t \<Rightarrow> bool" where
  "holds wi w xs an \<longleftrightarrow> w_id w \<noteq> 0 \<and> wi < length (an_waveforms an) \<and> nw_id (an_waveforms an ! wi) = w_id w
     \<and> (\<forall>j < wi. nw_id (an_waveforms an ! j) \<noteq> w_id w)
     \<and> nw_modules (an_waveforms an ! wi) = Some xs \<and> nw_nof_modules (an_waveforms an ! wi) = int (length xs)"

lemma find_target_whole:
  assumes "holds wi w xs an"
  shows "find_target (waveform_dest w 0) (an_waveforms an) = Some (Some (Whole wi))"
proof -
  have "find_idx (\<lambda>x. nw_id x = w_id w) (an_waveforms an) = wi" using assms by (intro find_idx_eq) (auto simp: holds_def)
  then show ?thesis using assms by (simp add: find_target_def waveform_dest_def holds_def)
qed

lemma dispatch_mode_ok:
  assumes h: "holds wi w xs an"
    and ids: "map (\<lambda>m. m_id (nm_parent m)) xs = map m_id (node_modules node w)" "distinct (map m_id (node_modules node w))"
    and ok: "\<forall>m \<in> set (node_modules node w). in_int32 (m_id m) \<and> module_mode_ok (m_mode m)" "length (node_modules node w) < 2 ^ 31"
  shows "answers os CMD_SET (waveform_dest w 0) (mode_packet node w) an 0
    (put_slot wi an ((slot_state wi an)\<lparr>ns_w := with_modules (an_waveforms an ! wi) (modes_upto (length xs) (node_modules node w) xs)\<rparr>))"
  unfolding answers_def
proof (intro allI impI)
  let ?an = "put_slot wi an ((slot_state wi an)\<lparr>ns_w := with_modules (an_waveforms an ! wi) (modes_upto (length xs) (node_modules node w) xs)\<rparr>)"
  fix np assume a: "arrived CMD_SET (waveform_dest w 0) (mode_packet node w) np"
  then have np: "packet_wf np" "packet_unread np = mode_packet node w @ []" by (simp_all add: arrived_def)
  let ?np = "packet_skip (length (mode_packet node w)) np"
  have w: "nw_modules (ns_w (slot_state wi an)) = Some xs" "nw_nof_modules (ns_w (slot_state wi an)) = int (length xs)"
    using h by (simp_all add: holds_def slot_state_def)
  have "nod_waveform_unserializeTo os (np, slot_state wi an)
      = Some (0, (?np, (slot_state wi an)\<lparr>ns_w := with_modules (an_waveforms an ! wi) (modes_upto (length xs) (node_modules node w) xs)\<rparr>))"
    using unserialize_mode_packet [OF ids ok w np] by (simp add: slot_state_def)
  then have "nod_dispatcher_set os (np, an) = Some (0, (?np, ?an))"
    using a find_target_whole [OF h] by (simp add: nod_dispatcher_set_def arrived_def)
  then have "nod_anode_dispatch os (np, an) = Some (0, (snd (packet_clear ?np), ?an))"
    using a by (simp add: nod_anode_dispatch_def arrived_def cleared_def)
  moreover have "packet_wf ?np" using np by simp
  ultimately show "\<exists>np'. nod_anode_dispatch os (np, an) = Some (0, (np', ?an)) \<and> packet_wf np' \<and> pk_w_ptr np' = 0"
    using packet_clear_ok by blast
qed

lemma node_modules_set_next:
  assumes "array_ok (w_modules w) (w_nof_modules w)"
  shows "node_modules node (w\<lparr>w_modules := map_option (\<lambda>ms. map (set_next i t) (take (nat (w_nof_modules w)) ms)
      @ drop (nat (w_nof_modules w)) ms) (w_modules w)\<rparr>) = map (set_next i t) (node_modules node w)"
  using assms by (auto simp: node_modules_def modules_of_def array_ok_def filter_map comp_def set_next_def split: option.splits)

text \<open>After a successful call each module at the node has the requested mode as next mode, to be taken
  ten slots and the module's stage later, and nothing else of the node changes.\<close>

lemma mode_set_ok:
  assumes mode: "i < nat (w_nof_modes w)" "nat (w_nof_modes w) \<le> length (w_modes w)" "c_str (wm_name (w_modes w ! i)) = c_str name"
      "\<forall>j < i. c_str (wm_name (w_modes w ! j)) \<noteq> c_str name"
    and w: "array_ok (w_modules w) (w_nof_modules w)" "one_node w" "node = pt_node_ids pt ! 0" "length (node_modules node w) < 2 ^ 31"
      "distinct (map m_id (node_modules node w))"
      "\<forall>m \<in> set (node_modules node w). in_int32 (m_id m) \<and> module_mode_ok (m_mode (set_next (int i) t m))"
    and node: "al_node s = Some an" "holds wi w xs an" "map (\<lambda>m. m_id (nm_parent m)) xs = map m_id (node_modules node w)"
      "link_ok (8 + 16 * length xs) s"
  shows "\<exists>w' s' an'. waveform_mode_set os pt t name (w, s) = (0, w', s') \<and> al_node s' = Some an'
    \<and> an_waveforms an' = (an_waveforms an)[wi := with_modules (an_waveforms an ! wi)
        (map (\<lambda>j. set_next_mode \<lparr>mm_cur_mode = 0, mm_next_mode = int i, mm_next_tslot = t + 10 + m_stage (node_modules node w ! j)\<rparr> (xs ! j))
          [0..<length xs])]
    \<and> an_c an' = an_c an"
proof -
  let ?f = "set_next (int i) t"
  define w1 where "w1 = w\<lparr>w_modules := map_option (\<lambda>ms. map ?f (take (nat (w_nof_modules w)) ms)
      @ drop (nat (w_nof_modules w)) ms) (w_modules w)\<rparr>"
  have nm: "node_modules node w1 = map ?f (node_modules node w)" unfolding w1_def by (rule node_modules_set_next [OF w(1)])
  have id: "m_id (?f m) = m_id m" for m by (simp add: set_next_def)
  have len: "length xs = length (node_modules node w)" using node(3) by (rule map_eq_imp_length_eq)
  have find: "find_idx (\<lambda>m. c_str (wm_name m) = c_str name) (take (nat (w_nof_modes w)) (w_modes w)) = i"
    using mode by (intro find_idx_eq) auto
  have h: "holds wi w1 xs an" using node(2) by (simp add: holds_def w1_def)
  have dest: "waveform_dest w1 0 = waveform_dest w 0" by (simp add: waveform_dest_def w1_def)
  let ?an = "put_slot wi an ((slot_state wi an)\<lparr>ns_w := with_modules (an_waveforms an ! wi) (modes_upto (length xs) (node_modules node w1) xs)\<rparr>)"
  have ids: "map (\<lambda>m. m_id (nm_parent m)) xs = map m_id (node_modules node w1)" "distinct (map m_id (node_modules node w1))"
    using node(3) w(5) by (simp_all add: nm comp_def id)
  have ok: "\<forall>m \<in> set (node_modules node w1). in_int32 (m_id m) \<and> module_mode_ok (m_mode m)" "length (node_modules node w1) < 2 ^ 31"
    using w(4,6) by (simp_all add: nm id)
  have wr: "writes (waveform_serialize (pt_node_ids pt ! 0) WAVEFORM_MODE CP_INIT w1) (mode_packet node w1)"
    unfolding w(3) [symmetric] by (rule writes_waveform_mode) (use ok(1) in blast)
  have "length (mode_packet node w1) = 8 + 16 * length xs"
  proof -
    have "length (concat (map mode_bytes ms)) = 16 * length ms" for ms
      by (induction ms) (simp_all add: mode_bytes_def module_mode_bytes_def)
    then show ?thesis by (simp add: mode_packet_def nm len del: map_map)
  qed
  then have link: "link_ok (length (mode_packet node w1)) s" using node(4) by simp
  have one: "one_node w1" using w(2) by (simp add: one_node_def w1_def)
  obtain s' where s': "waveform_send os pt w1 CMD_SET WAVEFORM_MODE s = (0, s')" "al_node s' = Some ?an"
    using waveform_send_one [OF one wr link node(1) dispatch_mode_ok [OF h ids ok]] by auto
  have "waveform_mode_set os pt t name (w, s) = (0, w1, s')"
    using find mode(1,2) s'(1) by (simp add: waveform_mode_set_def w1_def)
  moreover have "modes_upto (length xs) (node_modules node w1) xs
      = map (\<lambda>j. set_next_mode \<lparr>mm_cur_mode = 0, mm_next_mode = int i, mm_next_tslot = t + 10 + m_stage (node_modules node w ! j)\<rparr> (xs ! j)) [0..<length xs]"
    using len by (simp add: modes_upto_def nm set_next_mode_def set_next_def)
  moreover have "an_c ?an = an_c an" by (simp add: put_slot_def slot_state_def)
  ultimately show ?thesis using s'(2) by (intro exI [of _ w1] exI [of _ s'] exI [of _ ?an]) (simp add: put_slot_def)
qed

definition ex_holding :: "int list aloe" where
  "ex_holding = ex_aloe\<lparr>al_node := Some (ex_node\<lparr>an_waveforms := [nod_waveform_zero\<lparr>nw_id := 9\<rparr>,
     nod_waveform_zero\<lparr>nw_id := 7, nw_modules := Some [ex_nmodule 3], nw_nof_modules := 1\<rparr>]\<rparr>)\<rparr>"

lemma ex_holding_ok:
  "al_node ex_holding = Some (the (al_node ex_holding))" "holds 1 ex_waveform [ex_nmodule 3] (the (al_node ex_holding))"
  "map (\<lambda>m. m_id (nm_parent m)) [ex_nmodule 3] = map m_id (node_modules 5 ex_waveform)" "n \<le> 2048 \<Longrightarrow> link_ok n ex_holding"
proof -
  show "al_node ex_holding = Some (the (al_node ex_holding))" by (simp add: ex_holding_def)
  show "holds 1 ex_waveform [ex_nmodule 3] (the (al_node ex_holding))" by (simp add: holds_def ex_holding_def ex_waveform_def)
  show "map (\<lambda>m. m_id (nm_parent m)) [ex_nmodule 3] = map m_id (node_modules 5 ex_waveform)"
    by (simp add: ex_node_modules ex_nmodule_def ex_module_def)
  show "n \<le> 2048 \<Longrightarrow> link_ok n ex_holding" using ex_platform_ok(4) by (simp add: link_ok_def ex_holding_def)
qed

section \<open>Update\<close>

lemma dispatch_get_ok:
  assumes h: "holds wi w ys an" and ok: "\<forall>m \<in> set ys. execinfo_ok (m_execinfo (nm_parent m))"
    and np: "arrived CMD_GET (waveform_dest w 0) [] np" and room: "int (length (info_packet (an_waveforms an ! wi))) \<le> pk_size np"
  shows "nod_anode_dispatch os (np, an) = Some (0, (packet_append (info_packet (an_waveforms an ! wi)) np, an))"
proof -
  have "nmodules_of (an_waveforms an ! wi) = ys" using h by (simp add: holds_def nmodules_of_def elems_def)
  then have e: "emits (nod_waveform_serialize False NONE (an_waveforms an ! wi)) (info_packet (an_waveforms an ! wi))"
    using ok by (intro emits_info) simp
  have wf: "packet_wf np" using np by (simp add: arrived_def)
  moreover have "pk_w_ptr np = 0" using np length_packet_unread [of np] by (auto simp: arrived_def elim!: packet_wfE)
  then have "length (info_packet (an_waveforms an ! wi)) \<le> packet_room np" using room by (simp add: packet_room_def)
  ultimately have "nod_waveform_serialize False NONE (an_waveforms an ! wi) np = (0, packet_append (info_packet (an_waveforms an ! wi)) np)"
    by (rule emitsD [OF e])
  then show ?thesis using np find_target_whole [OF h]
    by (simp add: nod_anode_dispatch_def nod_dispatcher_get_def arrived_def)
qed

lemma copy_back:
  assumes "packet_wf q" "packet_wf np" "pk_r_ptr np = 0" "pk_w_ptr np = 0" "length bs \<le> packet_room q" "length bs \<le> packet_room np"
  shows "packet_add_data (pk_buffer (packet_append bs np)) (packet_total_size (packet_append bs np)) q = (0, packet_append bs q)"
proof -
  obtain b c where b: "pk_buffer np = Some b" "packet_buf np = b" "int (length b) = pk_size np"
    and c: "pk_buffer q = Some c" "packet_buf q = c" "0 \<le> pk_w_ptr q" "pk_w_ptr q \<le> pk_size q"
    using assms(1,2) by (auto elim!: packet_wfE)
  have "length bs \<le> length b" using assms(4,6) b by (simp add: packet_room_def)
  then have "take (length bs) (memcpy_at b 0 bs) = bs" by (simp add: memcpy_at_def)
  moreover have "int (length bs) \<le> pk_size q - pk_w_ptr q" using assms(5) c by (simp add: packet_room_def)
  moreover have "int_cast (pk_w_ptr q + int (length bs)) = pk_w_ptr q + int (length bs)"
    by (rule packet_wf_cast [OF assms(1)]) (use c calculation in simp_all)
  ultimately show ?thesis using b c assms(4) by (simp add: packet_append_def packet_total_size_def packet_add_data_def)
qed

text \<open>An update brings the execution data of every module of the node back to the manager: the
  manager's modules with the ids of the node's modules get their data, the others and everything else
  stay as they were, and the node is not changed.\<close>

theorem waveform_update_brings:
  assumes h: "al_node s = Some an" "holds wi w ys an"
    and ys: "\<forall>m \<in> set ys. in_int32 (m_id (nm_parent m)) \<and> execinfo_ok (m_execinfo (nm_parent m)) \<and> m_id (nm_parent m) \<in> m_id ` set xs"
      "length ys < 2 ^ 31" "distinct (map (\<lambda>m. m_id (nm_parent m)) ys)"
    and w: "w_modules w = Some xs" "w_nof_modules w = int (length xs)" "0 < length xs" "distinct (map m_id xs)"
    and link: "link_ok (length (info_packet (an_waveforms an ! wi))) s"
  shows "\<exists>s'. waveform_update os (w, s) = (0, w\<lparr>w_modules := Some (map (with_info ys) xs)\<rparr>, s') \<and> al_node s' = Some an"
proof -
  let ?bs = "info_packet (an_waveforms an ! wi)" and ?dest = "waveform_dest w 0"
  have wf: "packet_wf (al_packet s)" "packet_wf (al_node_packet s)" and sz: "int (length ?bs) \<le> pk_size (al_packet s)"
    "int (length ?bs) \<le> pk_size (al_node_packet s)" using link by (simp_all add: link_ok_def)
  obtain b where b: "pk_buffer (al_packet s) = Some b" using wf(1) by (auto elim: packet_wfE)
  define p1 where "p1 = snd (packet_clear ((al_packet s)\<lparr>pk_cmd := CMD_GET\<rparr>))"
  have p1: "packet_wf p1" "packet_unread p1 = []" "packet_room p1 = nat (pk_size (al_packet s))" "pk_r_ptr p1 = 0" "pk_cmd p1 = CMD_GET"
    using packet_clear_ok [of "(al_packet s)\<lparr>pk_cmd := CMD_GET\<rparr>"] wf(1) b by (simp_all add: p1_def packet_clear_def)
  have s1: "snd (on_packet packet_clear (snd (on_packet (packet_set_cmd CMD_GET) s))) = s\<lparr>al_packet := p1\<rparr>"
    using b by (simp add: on_packet_def packet_set_cmd_def p1_def case_prod_beta)
  obtain np3 where np3: "arrived CMD_GET ?dest [] np3" "pk_size np3 = pk_size (al_node_packet s)" and
    send: "packet_sendto (node_recv os) ?dest (p1, al_node_packet s, al_node s)
      = (let (ack, st', np4) = node_recv os (al_node s) np3;
             (r', p2) = packet_add_data (pk_buffer np4) (packet_total_size np4) (p1\<lparr>pk_ack := ack\<rparr>)
         in (if r' \<noteq> 0 then -1 else 0, p2, np4, st'))"
    using sendto_delivers [OF p1(1) wf(2) p1(4,2), of ?dest "node_recv os" "al_node s"] p1(5) sz by auto
  have d: "nod_anode_dispatch os (np3, an) = Some (0, (packet_append ?bs np3, an))"
    using dispatch_get_ok [OF h(2) _ np3(1)] ys(1) np3(2) sz(2) by simp
  have w3: "packet_wf np3" "pk_r_ptr np3 = 0" "pk_w_ptr np3 = 0"
    using np3(1) length_packet_unread [of np3] by (auto simp: arrived_def elim!: packet_wfE)
  let ?p1 = "p1\<lparr>pk_ack := 0\<rparr>"
  have q: "packet_wf ?p1" "packet_unread ?p1 = []" "length ?bs \<le> packet_room ?p1"
    using p1 sz(1) by (cases "pk_buffer p1"; simp add: packet_wf_def packet_unread_def packet_written_def packet_buf_def packet_room_def)+
  have "packet_add_data (pk_buffer (packet_append ?bs np3)) (packet_total_size (packet_append ?bs np3)) ?p1 = (0, packet_append ?bs ?p1)"
    using copy_back [OF q(1) w3 q(3)] sz(2) np3(2) w3 by (simp add: packet_room_def)
  then have "packet_sendto (node_recv os) ?dest (p1, al_node_packet s, al_node s) = (0, packet_append ?bs ?p1, packet_append ?bs np3, Some an)"
    unfolding send using d h(1) by (simp add: node_recv_def)
  then have al: "al_sendto os ?dest (s\<lparr>al_packet := p1\<rparr>)
      = (0, \<lparr>al_packet = packet_append ?bs ?p1, al_node_packet = packet_append ?bs np3, al_node = Some an\<rparr>)" by (simp add: al_sendto_def)
  have ifo: "?bs = int_bytes 0 @ int_bytes (int (length ys)) @ concat (map info_bytes ys)"
    using h(2) by (simp add: info_packet_def holds_def nmodules_of_def elems_def)
  have "w = man_modules w xs" using w(1) by (simp add: man_modules_def)
  have "packet_unread (packet_append ?bs ?p1) = ?bs @ []" "packet_wf (packet_append ?bs ?p1)"
    using q by (simp_all add: packet_unread_append)
  then have "waveform_unserializeTo (os_calloc os) NONE (packet_append ?bs ?p1, man_modules w xs)
      = (0, (packet_skip (length ?bs) (packet_append ?bs ?p1), man_modules w (map (with_info ys) xs)))"
    using loadsD [OF loads_info [OF ys w(2-4)]] unfolding ifo by blast
  then have "waveform_update os (w, s) = (0, w\<lparr>w_modules := Some (map (with_info ys) xs)\<rparr>,
      \<lparr>al_packet = packet_skip (length ?bs) (packet_append ?bs ?p1), al_node_packet = packet_append ?bs np3, al_node = Some an\<rparr>)"
    unfolding waveform_update_def Let_def prod.case s1 al using \<open>w = man_modules w xs\<close> by (simp add: man_modules_def)
  then show ?thesis by simp
qed

theorem waveform_update_brings_witness:
  "\<exists>s'. waveform_update ex_os (ex_waveform, ex_holding)
     = (0, ex_waveform\<lparr>w_modules := Some (map (with_info [ex_nmodule 3]) [ex_module, ex_module\<lparr>m_id := 4, m_node := 6\<rparr>])\<rparr>, s')"
proof -
  let ?an = "the (al_node ex_holding)" and ?ys = "[ex_nmodule 3]" and ?xs = "[ex_module, ex_module\<lparr>m_id := 4, m_node := 6\<rparr>]"
  have ys: "\<forall>m \<in> set ?ys. in_int32 (m_id (nm_parent m)) \<and> execinfo_ok (m_execinfo (nm_parent m)) \<and> m_id (nm_parent m) \<in> m_id ` set ?xs"
    "length ?ys < 2 ^ 31" "distinct (map (\<lambda>m. m_id (nm_parent m)) ?ys)"
    by (simp_all add: ex_nmodule_def ex_module_def in_int32_def module_zero_def execinfo_ok_def execinfo_zero_def timeval_ok_def
        timeval_zero_def in_int64_def nod_module_zero_def)
  have w: "w_modules ex_waveform = Some ?xs" "w_nof_modules ex_waveform = int (length ?xs)" "0 < length ?xs" "distinct (map m_id ?xs)"
    by (simp_all add: ex_waveform_def ex_module_def)
  have "nmodules_of (an_waveforms ?an ! 1) = ?ys" by (simp add: ex_holding_def nmodules_of_def elems_def)
  then have "length (info_packet (an_waveforms ?an ! 1)) = 116"
    by (simp add: info_packet_def info_bytes_def execinfo_bytes_def)
  then have "link_ok (length (info_packet (an_waveforms ?an ! 1))) ex_holding" using ex_holding_ok(4) by simp
  from waveform_update_brings [OF ex_holding_ok(1,2) ys w this, of ex_os] show ?thesis by blast
qed

end
