(* ===== verification/Oesr_Api.thy ===== *)
theory Oesr_Api
  imports Manager Spscq
begin

text \<open>
  The interface that module code calls (oesr/src/oesr_api): parameters (oesr_var.c), data
  interfaces (oesr_itf.c, over rtdal_lnx/src/rtdal_itf.c) and queries on the context
  (oesr_context.c, oesr_error.c).

  The state api holds the waveform of the caller with the kernel context, the queues by their
  address and the table of physical interfaces. The caller is module i of the waveform; its
  context is never null. A handle of a variable is the pair of module and variable index, a
  handle of an interface consists of the direction, the module and the port. The argument now
  is the value of rtdal_time_slot() at the call. None stands for an access outside an array
  or through a pointer that does not refer to an object. Messages of errors and logs of queues
  are not modelled; of an error the code is kept.

  The theorems: the transmitter's and the receiver's handle of a connection refer to one
  queue, which satisfies the contract delay_queue at this level too; a receiver that comes
  first is told to try again; a change of mode that the manager requests reaches the values
  which the modules read, at the slot that it names.
\<close>

section \<open>State\<close>

definition OESR_ERROR_INVAL :: int where "OESR_ERROR_INVAL = 1"
definition OESR_ERROR_RTDAL :: int where "OESR_ERROR_RTDAL = 2"
definition OESR_ERROR_NOTFOUND :: int where "OESR_ERROR_NOTFOUND = 6"
definition OESR_ERROR_MODNOTFOUND :: int where "OESR_ERROR_MODNOTFOUND = 7"
definition OESR_ERROR_NOTREADY :: int where "OESR_ERROR_NOTREADY = 8"
definition OESR_ITF_DEFAULT_MSG :: int where "OESR_ITF_DEFAULT_MSG = 4"

lemmas oesr_errors = OESR_ERROR_INVAL_def OESR_ERROR_RTDAL_def OESR_ERROR_NOTFOUND_def
  OESR_ERROR_MODNOTFOUND_def OESR_ERROR_NOTREADY_def

datatype oesr_itf_mode_t = ITF_READ | ITF_WRITE

type_synonym var_h = "nat \<times> nat"
type_synonym itf_h = "oesr_itf_mode_t \<times> nat \<times> nat"

text \<open>ap_physic lists the addresses and ids of the physical interfaces.\<close>

record 'e api =
  ap_n :: "'e nstate"
  ap_queues :: "cptr \<Rightarrow> rtdal_itfspscq_t option"
  ap_spscq_id :: int
  ap_physic :: "(cptr \<times> int) list"

abbreviation amod :: "'e api \<Rightarrow> nat \<Rightarrow> nod_module_t" where
  "amod s i \<equiv> nmod (ns_w (ap_n s)) i"

abbreviation aparent :: "'e api \<Rightarrow> nat \<Rightarrow> module_t" where
  "aparent s i \<equiv> nm_parent (nmod (ns_w (ap_n s)) i)"

definition upd_amod :: "nat \<Rightarrow> (nod_module_t \<Rightarrow> nod_module_t) \<Rightarrow> 'e api \<Rightarrow> 'e api" where
  "upd_amod i f s = s\<lparr>ap_n := upd_smod i f (ap_n s)\<rparr>"

definition upd_aparent :: "nat \<Rightarrow> (module_t \<Rightarrow> module_t) \<Rightarrow> 'e api \<Rightarrow> 'e api" where
  "upd_aparent i f = upd_amod i (\<lambda>m. m\<lparr>nm_parent := f (nm_parent m)\<rparr>)"

definition oesr_error_set :: "int \<Rightarrow> nat \<Rightarrow> 'e api \<Rightarrow> 'e api" where
  "oesr_error_set code i = upd_amod i (\<lambda>m. m\<lparr>nm_context := map_option (\<lambda>cx. cx\<lparr>cx_error := code\<rparr>) (nm_context m)\<rparr>)"

definition oesr_error_code :: "nat \<Rightarrow> 'e api \<Rightarrow> int option" where
  "oesr_error_code i s = map_option cx_error (nm_context (amod s i))"

section \<open>Context\<close>

definition oesr_module_name :: "nat \<Rightarrow> 'e api \<Rightarrow> bytes" where
  "oesr_module_name i s = m_name (aparent s i)"

definition oesr_module_id :: "nat \<Rightarrow> 'e api \<Rightarrow> int" where
  "oesr_module_id i s = m_id (aparent s i)"

definition oesr_module_idx :: "nat \<Rightarrow> 'e api \<Rightarrow> int" where
  "oesr_module_idx i s = m_index (aparent s i)"

definition oesr_get_module_idx :: "bytes \<Rightarrow> 'e api \<Rightarrow> int" where
  "oesr_get_module_idx name s =
     (let ms = nmodules_of (ns_w (ap_n s)); k = find_idx (\<lambda>m. c_str (m_name (nm_parent m)) = c_str name) ms
      in if k = length ms then -1 else int k)"

definition oesr_get_nofmodules :: "'e api \<Rightarrow> int" where
  "oesr_get_nofmodules s = nw_nof_modules (ns_w (ap_n s))"

definition oesr_get_variable_idx :: "bytes \<Rightarrow> bytes \<Rightarrow> 'e api \<Rightarrow> int" where
  "oesr_get_variable_idx module_name variable_name s =
     (let ms = nmodules_of (ns_w (ap_n s)); k = find_idx (\<lambda>m. c_str (m_name (nm_parent m)) = c_str module_name) ms in
      if k = length ms then -1
      else let vs = variables_of (nm_parent (ms ! k)); l = find_idx (\<lambda>v. c_str (v_name v) = c_str variable_name) vs
           in if l = length vs then -1 else int l)"

definition oesr_tstamp :: "nat \<Rightarrow> 'e api \<Rightarrow> int option" where
  "oesr_tstamp i s = map_option cx_tstamp (nm_context (amod s i))"

definition oesr_tslot_length :: "int \<Rightarrow> int" where
  "oesr_tslot_length ts_len_ns = (if ts_len_ns \<noteq> 0 then cdiv ts_len_ns 1000 else 1)"

definition oesr_exit :: "nat \<Rightarrow> 'e api \<Rightarrow> int \<times> 'e api" where
  "oesr_exit i s = (case nm_process (amod s i) of
      None \<Rightarrow> (-1, s)
    | Some a \<Rightarrow> (let (r, h) = rtdal_process_stop a (c_processes (ns_c (ap_n s)))
                in (if r \<noteq> 0 then -1 else 0, s\<lparr>ap_n := (ap_n s)\<lparr>ns_c := (ns_c (ap_n s))\<lparr>c_processes := h\<rparr>\<rparr>\<rparr>)))"

section \<open>Parameters\<close>

definition avar :: "var_h \<Rightarrow> 'e api \<Rightarrow> variable_t" where
  "avar h s = get_elem (snd h) (m_variables (aparent s (fst h)))"

definition upd_avar :: "var_h \<Rightarrow> (variable_t \<Rightarrow> variable_t) \<Rightarrow> 'e api \<Rightarrow> 'e api" where
  "upd_avar h f s = upd_aparent (fst h) (\<lambda>m. m\<lparr>m_variables := upd_elem (snd h) (f (avar h s)) (m_variables m)\<rparr>) s"

definition oesr_var_param_create_remote :: "calloc_fun \<Rightarrow> int \<Rightarrow> bytes \<Rightarrow> int \<Rightarrow> nat \<Rightarrow> 'e api \<Rightarrow> (var_h option \<times> 'e api) option" where
  "oesr_var_param_create_remote calloc_ok module_idx name sz i s =
     (if module_idx = 0 \<or> sz < 0 then Some (None, oesr_error_set OESR_ERROR_INVAL i s)
      else if module_idx < 0 \<or> nw_nof_modules (ns_w (ap_n s)) \<le> module_idx then None
      else let j = nat module_idx; (k, m) = nod_module_variable_create calloc_ok name sz (amod s j)
           in Some (map_option (\<lambda>k. (j, k)) k, upd_amod j (\<lambda>_. m) s))"

text \<open>The change to the next mode when its slot has come.\<close>

definition switch_mode :: "int \<Rightarrow> module_mode_t \<Rightarrow> module_mode_t" where
  "switch_mode now md = (if mm_next_tslot md \<noteq> 0 \<and> mm_next_tslot md \<le> now
     then md\<lparr>mm_cur_mode := mm_next_mode md, mm_next_tslot := 0\<rparr> else md)"

text \<open>The block that holds the value of a variable in a mode.\<close>

definition mode_block :: "variable_t \<Rightarrow> int \<Rightarrow> bytes option" where
  "mode_block v mode = (if 0 \<le> mode \<and> nat mode < length (v_init_value v) then v_init_value v ! nat mode else None)"

definition oesr_var_param_get_value :: "int \<Rightarrow> var_h \<Rightarrow> int \<Rightarrow> nat \<Rightarrow> 'e api \<Rightarrow> (int \<times> bytes \<times> 'e api) option" where
  "oesr_var_param_get_value now h sz i s =
     (if sz \<le> 0 then Some (-1, [], oesr_error_set OESR_ERROR_INVAL i s)
      else let v = avar h s;
               cpy_sz = (if v_size v > sz then sz else v_size v);
               s1 = upd_aparent i (\<lambda>m. m\<lparr>m_mode := switch_mode now (m_mode m)\<rparr>) s
           in case mode_block v (mm_cur_mode (switch_mode now (m_mode (aparent s i)))) of
                None \<Rightarrow> None
              | Some b \<Rightarrow> if cpy_sz < 0 \<or> int (length b) < cpy_sz then None else Some (cpy_sz, take (nat cpy_sz) b, s1))"

text \<open>The buffer value has size bytes, so size is its length.\<close>

definition oesr_var_param_set_value :: "var_h \<Rightarrow> bytes \<Rightarrow> nat \<Rightarrow> 'e api \<Rightarrow> (int \<times> 'e api) option" where
  "oesr_var_param_set_value h val i s =
     (if val = [] then Some (-1, oesr_error_set OESR_ERROR_INVAL i s)
      else let v = avar h s; sz = int (length val); mode = mm_cur_mode (m_mode (aparent s i));
               cpy_sz = (if sz > v_size v then v_size v else sz)
           in case mode_block v mode of
                None \<Rightarrow> None
              | Some b \<Rightarrow> if cpy_sz < 0 \<or> int (length b) < cpy_sz then None
                  else Some (cpy_sz, upd_avar h (\<lambda>v. v\<lparr>v_init_value := (v_init_value v)
                     [nat mode := Some (memcpy_at b 0 (take (nat cpy_sz) val))]\<rparr>) s))"

definition oesr_var_param_set_value_idx :: "int \<Rightarrow> bytes \<Rightarrow> nat \<Rightarrow> 'e api \<Rightarrow> (int \<times> 'e api) option" where
  "oesr_var_param_set_value_idx idx val i s =
     (if idx < 0 then Some (-1, oesr_error_set OESR_ERROR_INVAL i s)
      else if val = [] then Some (-1, oesr_error_set OESR_ERROR_INVAL i s)
      else if m_nof_variables (aparent s i) \<le> idx then None
      else oesr_var_param_set_value (i, nat idx) val i s)"

definition oesr_var_param_list :: "int \<Rightarrow> nat \<Rightarrow> 'e api \<Rightarrow> int \<times> var_h list \<times> 'e api" where
  "oesr_var_param_list max_elems i s =
     (if max_elems < 0 then (-1, [], oesr_error_set OESR_ERROR_INVAL i s)
      else let n = (if max_elems > m_nof_variables (aparent s i) then m_nof_variables (aparent s i) else max_elems)
           in (n, map (\<lambda>k. (i, k)) [0..<nat n], s))"

definition oesr_var_param_get :: "bytes \<Rightarrow> nat \<Rightarrow> 'e api \<Rightarrow> var_h option \<times> 'e api" where
  "oesr_var_param_get name i s = (case nod_module_variable_get (amod s i) name of
      None \<Rightarrow> (None, oesr_error_set OESR_ERROR_NOTFOUND i s)
    | Some k \<Rightarrow> (Some (i, k), s))"

definition oesr_var_param_type :: "var_h \<Rightarrow> 'e api \<Rightarrow> variable_type_t" where
  "oesr_var_param_type h s = v_type (avar h s)"

definition oesr_var_close :: "var_h \<Rightarrow> 'e api \<Rightarrow> int \<times> 'e api" where
  "oesr_var_close h s = (0, upd_avar h (\<lambda>v. v\<lparr>v_size := 0, v_id := 0, v_cur_value := None\<rparr>) s)"

section \<open>Interfaces of the kernel\<close>

definition rtdal_itfphysic_get_id :: "int \<Rightarrow> 'e api \<Rightarrow> cptr" where
  "rtdal_itfphysic_get_id itf_id s =
     (let k = find_idx (\<lambda>x. snd x = itf_id) (ap_physic s)
      in if itf_id = 0 \<or> k = length (ap_physic s) then 0 else fst (ap_physic s ! k))"

text \<open>The choice by the type of the object; every operation of a physical interface returns
  the default.\<close>

definition itf_call :: "'r \<Rightarrow> (rtdal_itfspscq_t \<Rightarrow> ('r \<times> rtdal_itfspscq_t) outcome) \<Rightarrow> cptr \<Rightarrow> 'e api
     \<Rightarrow> ('r \<times> 'e api) outcome option" where
  "itf_call dflt f obj s = (case ap_queues s obj of
      Some q \<Rightarrow> Some (case f q of Block \<Rightarrow> Block | Ret (r, q') \<Rightarrow> Ret (r, s\<lparr>ap_queues := (ap_queues s)(obj \<mapsto> q')\<rparr>))
    | None \<Rightarrow> if obj \<in> fst ` set (ap_physic s) then Some (Ret (dflt, s)) else None)"

definition rtdal_itf_send :: "int \<Rightarrow> bytes \<Rightarrow> cptr \<Rightarrow> 'e api \<Rightarrow> (int \<times> 'e api) outcome option" where
  "rtdal_itf_send now buffer = itf_call (-1) (rtdal_itfspscq_send now buffer)"

definition rtdal_itf_recv :: "int \<Rightarrow> int \<Rightarrow> nat \<Rightarrow> cptr \<Rightarrow> 'e api \<Rightarrow> ((int \<times> bytes) \<times> 'e api) outcome option" where
  "rtdal_itf_recv now tstamp len = itf_call (-1, []) (\<lambda>q. case rtdal_itfspscq_recv now tstamp len q of
      Block \<Rightarrow> Block | Ret (r, bs, q') \<Rightarrow> Ret ((r, bs), q'))"

definition rtdal_itf_request :: "cptr \<Rightarrow> 'e api \<Rightarrow> ((int \<times> nat option) \<times> 'e api) outcome option" where
  "rtdal_itf_request = itf_call (-1, None) (\<lambda>q. case rtdal_itfspscq_request q of Block \<Rightarrow> Block | Ret x \<Rightarrow> Ret (x, q))"

definition rtdal_itf_push :: "int \<Rightarrow> int \<Rightarrow> cptr \<Rightarrow> 'e api \<Rightarrow> (int \<times> 'e api) outcome option" where
  "rtdal_itf_push now len = itf_call (-1) (\<lambda>q. Ret (rtdal_itfspscq_push now len q))"

definition rtdal_itf_pop :: "int \<Rightarrow> int \<Rightarrow> cptr \<Rightarrow> 'e api \<Rightarrow> ((int \<times> (nat \<times> int) option) \<times> 'e api) outcome option" where
  "rtdal_itf_pop now tstamp = itf_call (-1, None) (\<lambda>q. case rtdal_itfspscq_pop now tstamp q of Block \<Rightarrow> Block | Ret x \<Rightarrow> Ret (x, q))"

definition rtdal_itf_release :: "cptr \<Rightarrow> 'e api \<Rightarrow> (int \<times> 'e api) outcome option" where
  "rtdal_itf_release = itf_call (-1) (\<lambda>q. Ret (rtdal_itfspscq_release q))"

definition rtdal_itf_reset :: "cptr \<Rightarrow> 'e api \<Rightarrow> (int \<times> 'e api) outcome option" where
  "rtdal_itf_reset = itf_call (-1) (\<lambda>q. Ret (rtdal_itfspscq_reset q))"

definition rtdal_itf_remove :: "cptr \<Rightarrow> 'e api \<Rightarrow> (int \<times> 'e api) option" where
  "rtdal_itf_remove obj s = (case ap_queues s obj of
      Some q \<Rightarrow> (let (r, q') = rtdal_itfspscq_remove q in Some (r, s\<lparr>ap_queues := (ap_queues s)(obj := q')\<rparr>))
    | None \<Rightarrow> if obj \<in> fst ` set (ap_physic s) then Some (-1, s) else None)"

section \<open>Interfaces of a module\<close>

definition itf_array :: "oesr_itf_mode_t \<Rightarrow> module_t \<Rightarrow> interface_t list option" where
  "itf_array md m = (case md of ITF_WRITE \<Rightarrow> m_outputs m | ITF_READ \<Rightarrow> m_inputs m)"

definition nof_itf :: "oesr_itf_mode_t \<Rightarrow> module_t \<Rightarrow> int" where
  "nof_itf md m = (case md of ITF_WRITE \<Rightarrow> m_nof_outputs m | ITF_READ \<Rightarrow> m_nof_inputs m)"

definition itf_elem :: "itf_h \<Rightarrow> 'e api \<Rightarrow> interface_t" where
  "itf_elem h s = (case h of (md, i, p) \<Rightarrow> get_elem p (itf_array md (aparent s i)))"

definition upd_itf :: "itf_h \<Rightarrow> (interface_t \<Rightarrow> interface_t) \<Rightarrow> 'e api \<Rightarrow> 'e api" where
  "upd_itf h f s = (case h of (md, i, p) \<Rightarrow> upd_aparent i (\<lambda>m. case md of
      ITF_WRITE \<Rightarrow> m\<lparr>m_outputs := upd_elem p (f (get_elem p (m_outputs m))) (m_outputs m)\<rparr>
    | ITF_READ \<Rightarrow> m\<lparr>m_inputs := upd_elem p (f (get_elem p (m_inputs m))) (m_inputs m)\<rparr>) s)"

abbreviation hw :: "itf_h \<Rightarrow> 'e api \<Rightarrow> cptr" where
  "hw h s \<equiv> i_hw_itf (itf_elem h s)"

definition itf_nof_msg :: "int \<Rightarrow> int \<Rightarrow> int" where
  "itf_nof_msg sz delay =
     (if delay \<ge> 0 then
        (if sz < 4096 then OESR_ITF_DEFAULT_MSG * (delay + 1) + 128 else OESR_ITF_DEFAULT_MSG * (delay + 1))
      else 64)"

text \<open>addr is the address of the queue that rtdal_itfspscq_new creates, 0 when its memory is
  not available.\<close>

definition create_output :: "cptr \<Rightarrow> int \<Rightarrow> itf_h \<Rightarrow> nat \<Rightarrow> 'e api \<Rightarrow> (itf_h option \<times> 'e api) option" where
  "create_output addr sz h i s =
     (let delay = i_delay (itf_elem h s) in
      case rtdal_itfspscq_new (ap_spscq_id s) (addr \<noteq> 0) (nat (itf_nof_msg sz delay)) (nat sz) delay of
        (None, k) \<Rightarrow> Some (None, oesr_error_set OESR_ERROR_RTDAL i (s\<lparr>ap_spscq_id := k\<rparr>))
      | (Some q, k) \<Rightarrow> Some (Some h, upd_itf h (\<lambda>x. x\<lparr>i_hw_itf := addr\<rparr>)
            (s\<lparr>ap_spscq_id := k, ap_queues := (ap_queues s)(addr \<mapsto> q)\<rparr>)))"

text \<open>The code compares the remote port with > where the array has indices below
  nof_outputs; a port equal to it is read beyond the array.\<close>

definition attach_input :: "itf_h \<Rightarrow> nat \<Rightarrow> 'e api \<Rightarrow> (itf_h option \<times> 'e api) option" where
  "attach_input h i s =
     (case nod_waveform_find_module_id (ns_w (ap_n s)) (i_remote_module_id (itf_elem h s)) of
        None \<Rightarrow> Some (None, oesr_error_set OESR_ERROR_MODNOTFOUND i s)
      | Some j \<Rightarrow>
          let n = m_nof_outputs (aparent s j); p = i_remote_port_idx (itf_elem h s) in
          if p > n then Some (None, oesr_error_set OESR_ERROR_NOTFOUND i s)
          else if p < 0 \<or> p = n then None
          else let obj = hw (ITF_WRITE, j, nat p) s in
            if obj = 0 then Some (None, oesr_error_set OESR_ERROR_NOTREADY i s)
            else Some (Some h, upd_itf h (\<lambda>x. x\<lparr>i_hw_itf := obj\<rparr>) s))"

definition oesr_itf_create :: "cptr \<Rightarrow> int \<Rightarrow> oesr_itf_mode_t \<Rightarrow> int \<Rightarrow> nat \<Rightarrow> 'e api \<Rightarrow> (itf_h option \<times> 'e api) option" where
  "oesr_itf_create addr port_idx md sz i s =
     (if port_idx < 0 then Some (None, oesr_error_set OESR_ERROR_INVAL i s)
      else if port_idx \<ge> nof_itf md (aparent s i) then Some (None, oesr_error_set OESR_ERROR_NOTFOUND i s)
      else let h = (md, i, nat port_idx); x = itf_elem h s in
        if i_physic_itf_id x \<noteq> 0 then
          let obj = rtdal_itfphysic_get_id (i_physic_itf_id x) s;
              s1 = (if obj = 0 then oesr_error_set OESR_ERROR_RTDAL i s else s)
          in Some (Some h, upd_itf h (\<lambda>x. x\<lparr>i_hw_itf := obj\<rparr>) s1)
        else case md of
            ITF_WRITE \<Rightarrow> create_output addr sz h i s
          | ITF_READ \<Rightarrow> attach_input h i s)"

definition oesr_itf_nofinputs :: "nat \<Rightarrow> 'e api \<Rightarrow> int" where
  "oesr_itf_nofinputs i s = m_nof_inputs (aparent s i)"

definition oesr_itf_nofoutputs :: "nat \<Rightarrow> 'e api \<Rightarrow> int" where
  "oesr_itf_nofoutputs i s = m_nof_outputs (aparent s i)"

text \<open>The port is not compared with zero: a negative one is an access before the array.\<close>

definition oesr_itf_delay_set :: "int \<Rightarrow> oesr_itf_mode_t \<Rightarrow> int \<Rightarrow> nat \<Rightarrow> 'e api \<Rightarrow> (int \<times> 'e api) option" where
  "oesr_itf_delay_set port_idx md delay i s =
     (if port_idx \<ge> nof_itf md (aparent s i) then Some (-1, oesr_error_set OESR_ERROR_NOTFOUND i s)
      else if port_idx < 0 then None
      else let h = (md, i, nat port_idx)
           in Some (0, if i_delay (itf_elem h s) \<noteq> -1 then upd_itf h (\<lambda>x. x\<lparr>i_delay := delay\<rparr>) s else s))"

definition oesr_itf_close :: "itf_h \<Rightarrow> 'e api \<Rightarrow> (int \<times> 'e api) option" where
  "oesr_itf_close h s = rtdal_itf_remove (hw h s) s"

definition oesr_itf_write :: "int \<Rightarrow> itf_h \<Rightarrow> bytes \<Rightarrow> 'e api \<Rightarrow> (int \<times> 'e api) outcome option" where
  "oesr_itf_write now h buffer s = rtdal_itf_send now buffer (hw h s) s"

definition oesr_itf_read :: "int \<Rightarrow> itf_h \<Rightarrow> nat \<Rightarrow> int \<Rightarrow> 'e api \<Rightarrow> ((int \<times> bytes) \<times> 'e api) outcome option" where
  "oesr_itf_read now h sz tstamp s = rtdal_itf_recv now tstamp sz (hw h s) s"

definition oesr_itf_ptr_request :: "itf_h \<Rightarrow> 'e api \<Rightarrow> ((int \<times> nat option) \<times> 'e api) outcome option" where
  "oesr_itf_ptr_request h s = rtdal_itf_request (hw h s) s"

definition oesr_itf_ptr_release :: "itf_h \<Rightarrow> 'e api \<Rightarrow> (int \<times> 'e api) outcome option" where
  "oesr_itf_ptr_release h s = rtdal_itf_release (hw h s) s"

definition oesr_itf_ptr_put :: "int \<Rightarrow> itf_h \<Rightarrow> int \<Rightarrow> 'e api \<Rightarrow> (int \<times> 'e api) outcome option" where
  "oesr_itf_ptr_put now h len s = rtdal_itf_push now len (hw h s) s"

definition oesr_itf_ptr_get :: "int \<Rightarrow> itf_h \<Rightarrow> int \<Rightarrow> 'e api \<Rightarrow> ((int \<times> (nat \<times> int) option) \<times> 'e api) outcome option" where
  "oesr_itf_ptr_get now h tstamp s = rtdal_itf_pop now tstamp (hw h s) s"

section \<open>Lemmas on the state\<close>

definition valid_itf :: "itf_h \<Rightarrow> 'e api \<Rightarrow> bool" where
  "valid_itf h s = (case h of (md, i, p) \<Rightarrow> (case nw_modules (ns_w (ap_n s)) of
      None \<Rightarrow> False
    | Some ms \<Rightarrow> i < length ms \<and> (case itf_array md (aparent s i) of None \<Rightarrow> False | Some xs \<Rightarrow> p < length xs)))"

text \<open>Output p of module tx feeds input r of module rx, and the arrays have the sizes that
  the counters say.\<close>

definition connected :: "nat \<Rightarrow> nat \<Rightarrow> nat \<Rightarrow> nat \<Rightarrow> 'e api \<Rightarrow> bool" where
  "connected tx p rx r s \<longleftrightarrow> valid_itf (ITF_WRITE, tx, p) s \<and> valid_itf (ITF_READ, rx, r) s
     \<and> array_ok (nw_modules (ns_w (ap_n s))) (nw_nof_modules (ns_w (ap_n s)))
     \<and> array_ok (m_outputs (aparent s tx)) (m_nof_outputs (aparent s tx))
     \<and> array_ok (m_inputs (aparent s rx)) (m_nof_inputs (aparent s rx))
     \<and> i_remote_module_id (itf_elem (ITF_READ, rx, r) s) = m_id (aparent s tx)
     \<and> i_remote_port_idx (itf_elem (ITF_READ, rx, r) s) = int p
     \<and> (\<forall>j < tx. m_id (aparent s j) \<noteq> m_id (aparent s tx))
     \<and> i_physic_itf_id (itf_elem (ITF_WRITE, tx, p) s) = 0 \<and> i_physic_itf_id (itf_elem (ITF_READ, rx, r) s) = 0"

lemma upd_amod_frame [simp]:
  "ap_queues (upd_amod i f s) = ap_queues s" "ap_physic (upd_amod i f s) = ap_physic s" "ap_spscq_id (upd_amod i f s) = ap_spscq_id s"
  "nw_nof_modules (ns_w (ap_n (upd_amod i f s))) = nw_nof_modules (ns_w (ap_n s))"
  "nw_modules (ns_w (ap_n (upd_amod i f s))) = map_option (\<lambda>ms. ms[i := f (amod s i)]) (nw_modules (ns_w (ap_n s)))"
  by (simp_all add: upd_amod_def upd_smod_def upd_nmod_def upd_elem_def)

lemma amod_upd_same:
  "nw_modules (ns_w (ap_n s)) = Some ms \<Longrightarrow> i < length ms \<Longrightarrow> amod (upd_amod i f s) i = f (amod s i)"
  by (simp add: upd_amod_def upd_smod_def upd_nmod_def nmod_def upd_elem_def get_elem_def)

lemma amod_upd_other: "j \<noteq> i \<Longrightarrow> amod (upd_amod i f s) j = amod s j"
  by (cases "nw_modules (ns_w (ap_n s))") (simp_all add: upd_amod_def upd_smod_def upd_nmod_def nmod_def upd_elem_def get_elem_def)

lemma aparent_upd:
  assumes "\<And>m. g (f m) = g m"
  shows "g (aparent (upd_aparent i f s) j) = g (aparent s j)"
proof (cases "j = i \<and> (\<exists>ms. nw_modules (ns_w (ap_n s)) = Some ms \<and> i < length ms)")
  case True
  then show ?thesis using assms by (auto simp: upd_aparent_def amod_upd_same)
next
  case False
  then have "amod (upd_aparent i f s) j = amod s j"
    by (cases "j = i"; cases "nw_modules (ns_w (ap_n s))")
      (simp_all add: upd_aparent_def amod_upd_other, simp_all add: upd_amod_def upd_smod_def upd_nmod_def nmod_def upd_elem_def list_update_beyond)
  then show ?thesis by simp
qed

lemma upd_itf_frame [simp]:
  "ap_queues (upd_itf h f s) = ap_queues s" "ap_physic (upd_itf h f s) = ap_physic s"
  "nw_nof_modules (ns_w (ap_n (upd_itf h f s))) = nw_nof_modules (ns_w (ap_n s))"
  "m_id (aparent (upd_itf h f s) j) = m_id (aparent s j)"
  "m_nof_inputs (aparent (upd_itf h f s) j) = m_nof_inputs (aparent s j)"
  "m_nof_outputs (aparent (upd_itf h f s) j) = m_nof_outputs (aparent s j)"
  by (simp_all add: upd_itf_def aparent_upd split: prod.split oesr_itf_mode_t.split)
    (simp_all add: upd_aparent_def)

lemma itf_elem_upd:
  assumes "valid_itf h s"
  shows "itf_elem h' (upd_itf h f s) = (if h' = h then f (itf_elem h s) else itf_elem h' s)"
proof -
  obtain md i p md' i' p' where h: "h = (md, i, p)" "h' = (md', i', p')" by (cases h; cases h')
  obtain ms where ms: "nw_modules (ns_w (ap_n s)) = Some ms" "i < length ms"
    using assms by (auto simp: valid_itf_def h split: option.splits)
  obtain xs where xs: "itf_array md (aparent s i) = Some xs" "p < length xs"
    using assms by (auto simp: valid_itf_def h split: option.splits)
  show ?thesis
  proof (cases "i' = i")
    case True
    then show ?thesis using xs
      by (cases md; cases md') (auto simp: h itf_elem_def upd_itf_def upd_aparent_def amod_upd_same [OF ms] itf_array_def upd_elem_def get_elem_def)
  next
    case False
    then show ?thesis by (simp add: h itf_elem_def upd_itf_def upd_aparent_def amod_upd_other)
  qed
qed

lemma itf_array_upd:
  assumes "valid_itf h s"
  shows "map_option length (itf_array md (aparent (upd_itf h f s) j)) = map_option length (itf_array md (aparent s j))"
proof -
  obtain md' i p where h: "h = (md', i, p)" by (cases h)
  then show ?thesis
    by (cases md; cases md') (simp_all add: upd_itf_def itf_array_def aparent_upd [where g = "\<lambda>m. map_option length (m_outputs m)"]
        aparent_upd [where g = "\<lambda>m. map_option length (m_inputs m)"] upd_elem_def option.map_comp comp_def)
qed

lemma array_ok_length: "map_option length p = map_option length q \<Longrightarrow> array_ok p n \<longleftrightarrow> array_ok q n"
  by (cases p; cases q) (simp_all add: array_ok_def)

lemma valid_itf_upd:
  assumes "valid_itf h s"
  shows "valid_itf h' (upd_itf h f s) \<longleftrightarrow> valid_itf h' s"
proof -
  obtain md i p md' i' p' where h: "h = (md, i, p)" "h' = (md', i', p')" by (cases h; cases h')
  have "map_option length (nw_modules (ns_w (ap_n (upd_itf h f s)))) = map_option length (nw_modules (ns_w (ap_n s)))"
    by (simp add: h upd_itf_def upd_aparent_def option.map_comp comp_def)
  moreover note itf_array_upd [OF assms, of md' f i']
  ultimately show ?thesis
    by (cases "nw_modules (ns_w (ap_n s))"; cases "nw_modules (ns_w (ap_n (upd_itf h f s)))";
        cases "itf_array md' (aparent s i')"; cases "itf_array md' (aparent (upd_itf h f s) i')") (simp_all add: valid_itf_def h)
qed

text \<open>A change of an interface that keeps its link keeps the connection.\<close>

lemma connected_upd:
  assumes c: "connected tx p rx r s" and h: "valid_itf h s"
    and f: "\<And>x. i_remote_module_id (f x) = i_remote_module_id x" "\<And>x. i_remote_port_idx (f x) = i_remote_port_idx x"
      "\<And>x. i_physic_itf_id (f x) = i_physic_itf_id x"
  shows "connected tx p rx r (upd_itf h f s)"
proof -
  have "map_option length (nw_modules (ns_w (ap_n (upd_itf h f s)))) = map_option length (nw_modules (ns_w (ap_n s)))"
    by (cases h) (simp add: upd_itf_def upd_aparent_def option.map_comp comp_def)
  then have ms: "array_ok (nw_modules (ns_w (ap_n (upd_itf h f s)))) n = array_ok (nw_modules (ns_w (ap_n s))) n" for n
    by (rule array_ok_length)
  have outs: "array_ok (m_outputs (aparent (upd_itf h f s) j)) n = array_ok (m_outputs (aparent s j)) n" for j n
    using itf_array_upd [OF h, of ITF_WRITE f j] by (intro array_ok_length) (simp add: itf_array_def)
  have ins: "array_ok (m_inputs (aparent (upd_itf h f s) j)) n = array_ok (m_inputs (aparent s j)) n" for j n
    using itf_array_upd [OF h, of ITF_READ f j] by (intro array_ok_length) (simp add: itf_array_def)
  show ?thesis
    using c unfolding connected_def by (auto simp: ms outs ins valid_itf_upd [OF h] itf_elem_upd [OF h] f)
qed

lemma find_connected:
  assumes "connected tx p rx r s"
  shows "nod_waveform_find_module_id (ns_w (ap_n s)) (m_id (aparent s tx)) = Some tx"
proof -
  obtain ms where ms: "nw_modules (ns_w (ap_n s)) = Some ms" "tx < length ms" "nw_nof_modules (ns_w (ap_n s)) = int (length ms)"
    using assms by (auto simp: connected_def valid_itf_def array_ok_def split: option.splits)
  then have l: "nmodules_of (ns_w (ap_n s)) = ms" by (simp add: nmodules_of_def elems_def)
  have n: "amod s j = ms ! j" for j using ms by (simp add: nmod_def get_elem_def)
  have "find_idx (\<lambda>m. m_id (nm_parent m) = m_id (aparent s tx)) ms = tx"
    using assms ms by (intro find_idx_eq) (auto simp: connected_def n)
  then show ?thesis using ms l by (simp add: nod_waveform_find_module_id_def)
qed

lemma connected_ports:
  assumes "connected tx p rx r s"
  shows "int p < m_nof_outputs (aparent s tx)" "int r < m_nof_inputs (aparent s rx)"
  using assms by (auto simp: connected_def valid_itf_def array_ok_def itf_array_def split: option.splits)

section \<open>Creation of a connection\<close>

lemma create_write_ok:
  assumes c: "connected tx p rx r s" and a: "addr \<noteq> 0"
  obtains s1 q where "oesr_itf_create addr (int p) ITF_WRITE sz tx s = Some (Some (ITF_WRITE, tx, p), s1)"
    "connected tx p rx r s1" "hw (ITF_WRITE, tx, p) s1 = addr" "ap_queues s1 addr = Some q"
    "rtdal_itfspscq_new (ap_spscq_id s) True (nat (itf_nof_msg sz (i_delay (itf_elem (ITF_WRITE, tx, p) s)))) (nat sz)
       (i_delay (itf_elem (ITF_WRITE, tx, p) s)) = (Some q, ap_spscq_id s + 1)"
proof -
  let ?h = "(ITF_WRITE, tx, p)" let ?d = "i_delay (itf_elem ?h s)"
  obtain q where q: "rtdal_itfspscq_new (ap_spscq_id s) True (nat (itf_nof_msg sz ?d)) (nat sz) ?d = (Some q, ap_spscq_id s + 1)"
    by (simp add: rtdal_itfspscq_new_def)
  define s0 where "s0 = s\<lparr>ap_spscq_id := ap_spscq_id s + 1, ap_queues := (ap_queues s)(addr \<mapsto> q)\<rparr>"
  have c0: "connected tx p rx r s0" using c by (simp add: s0_def connected_def valid_itf_def itf_elem_def cong: option.case_cong)
  then have v: "valid_itf ?h s0" by (simp add: connected_def)
  let ?s1 = "upd_itf ?h (\<lambda>x. x\<lparr>i_hw_itf := addr\<rparr>) s0"
  have "oesr_itf_create addr (int p) ITF_WRITE sz tx s = Some (Some ?h, ?s1)"
    using a q connected_ports [OF c] c by (simp add: oesr_itf_create_def create_output_def nof_itf_def connected_def s0_def Let_def)
  moreover have "connected tx p rx r ?s1" by (rule connected_upd [OF c0 v]) simp_all
  moreover have "hw ?h ?s1 = addr" by (simp add: itf_elem_upd [OF v])
  moreover have "ap_queues ?s1 addr = Some q" by (simp add: s0_def)
  ultimately show ?thesis using that q by blast
qed

lemma create_read_cases:
  assumes c: "connected tx p rx r s"
  shows "hw (ITF_WRITE, tx, p) s = 0 \<Longrightarrow>
      oesr_itf_create addr (int r) ITF_READ sz rx s = Some (None, oesr_error_set OESR_ERROR_NOTREADY rx s)"
    and "hw (ITF_WRITE, tx, p) s \<noteq> 0 \<Longrightarrow>
      \<exists>s1. oesr_itf_create addr (int r) ITF_READ sz rx s = Some (Some (ITF_READ, rx, r), s1)
        \<and> hw (ITF_READ, rx, r) s1 = hw (ITF_WRITE, tx, p) s \<and> hw (ITF_WRITE, tx, p) s1 = hw (ITF_WRITE, tx, p) s
        \<and> ap_queues s1 = ap_queues s \<and> connected tx p rx r s1"
proof -
  let ?h = "(ITF_READ, rx, r)" let ?a = "hw (ITF_WRITE, tx, p) s"
  have v: "valid_itf ?h s" using c by (simp add: connected_def)
  have e: "oesr_itf_create addr (int r) ITF_READ sz rx s = (if ?a = 0 then Some (None, oesr_error_set OESR_ERROR_NOTREADY rx s)
      else Some (Some ?h, upd_itf ?h (\<lambda>x. x\<lparr>i_hw_itf := ?a\<rparr>) s))"
    using c connected_ports [OF c] find_connected [OF c]
    by (simp add: oesr_itf_create_def attach_input_def nof_itf_def connected_def Let_def)
  have "connected tx p rx r (upd_itf ?h (\<lambda>x. x\<lparr>i_hw_itf := ?a\<rparr>) s)" by (rule connected_upd [OF c v]) simp_all
  with e show "?a \<noteq> 0 \<Longrightarrow> \<exists>s1. oesr_itf_create addr (int r) ITF_READ sz rx s = Some (Some ?h, s1)
        \<and> hw ?h s1 = ?a \<and> hw (ITF_WRITE, tx, p) s1 = ?a \<and> ap_queues s1 = ap_queues s \<and> connected tx p rx r s1"
    by (simp add: itf_elem_upd [OF v])
  show "?a = 0 \<Longrightarrow> oesr_itf_create addr (int r) ITF_READ sz rx s = Some (None, oesr_error_set OESR_ERROR_NOTREADY rx s)"
    using e by simp
qed

section \<open>The queue contract at the interface\<close>

definition strict :: "'a outcome option \<Rightarrow> 'a outcome" where
  "strict x = (case x of None \<Rightarrow> Block | Some y \<Rightarrow> y)"

definition itf_send :: "itf_h \<Rightarrow> int \<Rightarrow> bytes \<Rightarrow> 'e api \<Rightarrow> (int \<times> 'e api) outcome" where
  "itf_send h now m s = strict (oesr_itf_write now h m s)"

definition itf_recv :: "itf_h \<Rightarrow> int \<Rightarrow> int \<Rightarrow> nat \<Rightarrow> 'e api \<Rightarrow> (int \<times> bytes \<times> 'e api) outcome" where
  "itf_recv h tstamp now len s = (case strict (oesr_itf_read now h len tstamp s) of
      Block \<Rightarrow> Block | Ret ((r, bs), s') \<Rightarrow> Ret (r, bs, s'))"

definition itf_queue :: "itf_h \<Rightarrow> 'e api \<Rightarrow> rtdal_itfspscq_t" where
  "itf_queue h s = the (ap_queues s (hw h s))"

definition itf_linked :: "itf_h \<Rightarrow> itf_h \<Rightarrow> 'e api \<Rightarrow> bool" where
  "itf_linked wh rh s \<longleftrightarrow> hw rh s = hw wh s \<and> (\<exists>q. ap_queues s (hw wh s) = Some q \<and> spscq_nb q)"

lemma itf_elem_queues [simp]: "itf_elem h (s\<lparr>ap_queues := x\<rparr>) = itf_elem h s"
  by (simp add: itf_elem_def)

lemma recv_tstamp: "spscq_nb q \<Longrightarrow> rtdal_itfspscq_recv now tstamp len q = rtdal_itfspscq_recv now now len q"
  by (simp add: rtdal_itfspscq_recv_def rtdal_itfspscq_pop_def spscq_is_empty_def spscq_nb_def)

lemma itf_send_eq:
  assumes "ap_queues s (hw wh s) = Some q"
  shows "itf_send wh now m s = (case rtdal_itfspscq_send now m q of
     Block \<Rightarrow> Block | Ret (r, q') \<Rightarrow> Ret (r, s\<lparr>ap_queues := (ap_queues s)(hw wh s \<mapsto> q')\<rparr>))"
  using assms by (simp add: itf_send_def oesr_itf_write_def rtdal_itf_send_def itf_call_def strict_def)

lemma itf_recv_eq:
  assumes "ap_queues s (hw rh s) = Some q" "spscq_nb q"
  shows "itf_recv rh tstamp now len s = (case rtdal_itfspscq_recv now now len q of
     Block \<Rightarrow> Block | Ret (r, bs, q') \<Rightarrow> Ret (r, bs, s\<lparr>ap_queues := (ap_queues s)(hw rh s \<mapsto> q')\<rparr>))"
  using assms recv_tstamp [OF assms(2), of now tstamp len]
  by (simp add: itf_recv_def oesr_itf_read_def rtdal_itf_recv_def itf_call_def strict_def split: outcome.split)

interpretation itfq: delay_queue "itf_linked wh rh" "\<lambda>s. spscq_abs (itf_queue wh s)" "\<lambda>s. q_max_msg (itf_queue wh s)"
  "\<lambda>s. q_max_msg_sz (itf_queue wh s)" "\<lambda>s. q_delay (itf_queue wh s)" "itf_send wh" "itf_recv rh tstamp"
  for wh rh tstamp
proof
  fix s :: "'a api" and m :: bytes and now
  assume "itf_linked wh rh s"
  then obtain q where q: "hw rh s = hw wh s" "ap_queues s (hw wh s) = Some q" "spscq_nb q" "itf_queue wh s = q"
    by (auto simp: itf_linked_def itf_queue_def)
  show "\<exists>s'. itf_send wh now m s = Ret (1, s') \<and> itf_linked wh rh s'
      \<and> spscq_abs (itf_queue wh s') = spscq_abs (itf_queue wh s) @ [(now + q_delay (itf_queue wh s), m)]
      \<and> q_max_msg (itf_queue wh s') = q_max_msg (itf_queue wh s) \<and> q_max_msg_sz (itf_queue wh s') = q_max_msg_sz (itf_queue wh s)
      \<and> q_delay (itf_queue wh s') = q_delay (itf_queue wh s)"
    if "m \<noteq> []" "length m \<le> q_max_msg_sz (itf_queue wh s)" "length (spscq_abs (itf_queue wh s)) < q_max_msg (itf_queue wh s)"
    using spq.send_ok [OF q(3), of m now] that q
    by (auto simp: itf_send_eq [OF q(2)] itf_linked_def itf_queue_def)
  show "itf_send wh now m s = Ret (0, s)"
    if "length m \<le> q_max_msg_sz (itf_queue wh s)" "length (spscq_abs (itf_queue wh s)) = q_max_msg (itf_queue wh s)"
    using spq.send_full [OF q(3), of m now] that q by (simp add: itf_send_eq [OF q(2)] fun_upd_idem)
  show "itf_send wh now m s = Ret (-1, s)" if "q_max_msg_sz (itf_queue wh s) < length m"
    using spq.send_large [OF q(3), of m now] that q by (simp add: itf_send_eq [OF q(2)] fun_upd_idem)
  show "length (spscq_abs (itf_queue wh s)) \<le> q_max_msg (itf_queue wh s)"
    using spq.abs_bound [OF q(3)] q by simp
next
  fix s :: "'a api" and m :: bytes and t rest now len
  assume "itf_linked wh rh s"
  then obtain q where q: "hw rh s = hw wh s" "ap_queues s (hw rh s) = Some q" "spscq_nb q" "itf_queue wh s = q"
    by (auto simp: itf_linked_def itf_queue_def)
  show "\<exists>s'. itf_recv rh tstamp now len s = Ret (int (length m), m, s') \<and> itf_linked wh rh s'
      \<and> spscq_abs (itf_queue wh s') = rest
      \<and> q_max_msg (itf_queue wh s') = q_max_msg (itf_queue wh s) \<and> q_max_msg_sz (itf_queue wh s') = q_max_msg_sz (itf_queue wh s)
      \<and> q_delay (itf_queue wh s') = q_delay (itf_queue wh s)"
    if "spscq_abs (itf_queue wh s) = (t, m) # rest" "t \<le> now" "length m \<le> len"
    using spq.recv_ok [OF q(3), of t m rest now len] that q
    by (auto simp: itf_recv_eq [OF q(2,3)] itf_linked_def itf_queue_def)
  show "itf_recv rh tstamp now len s = Ret (0, [], s)"
    if "spscq_abs (itf_queue wh s) = [] \<or> now < fst (hd (spscq_abs (itf_queue wh s)))"
    using spq.recv_none [OF q(3), of now len] that q by (simp add: itf_recv_eq [OF q(2,3)] fun_upd_idem)
qed

section \<open>Properties of connections\<close>

text \<open>C3. A connection between two modules carries a stream. The receiver that asks for its input
  before the transmitter has created the output gets no handle and the error NOTREADY; after the
  transmitter's call the receiver's call succeeds, and then every batch of non-empty messages that
  fits is accepted and read unchanged and in order from the slot of the writing plus the delay
  of the interface on.\<close>

theorem itf_stream:
  assumes c: "connected tx p rx r s" "addr \<noteq> 0" "hw (ITF_WRITE, tx, p) s = 0"
    and cx: "nm_context (amod s rx) \<noteq> None"
    and d: "i_delay (itf_elem (ITF_WRITE, tx, p) s) = d" "0 \<le> d"
  shows "(\<exists>s'. oesr_itf_create addr' (int r) ITF_READ sz' rx s = Some (None, s') \<and> oesr_error_code rx s' = Some OESR_ERROR_NOTREADY)
    \<and> (\<exists>wh rh s1 s2. oesr_itf_create addr (int p) ITF_WRITE sz tx s = Some (Some wh, s1)
        \<and> oesr_itf_create addr' (int r) ITF_READ sz' rx s1 = Some (Some rh, s2)
        \<and> (\<forall>ms now later len tstamp. (\<forall>m \<in> set ms. m \<noteq> [] \<and> int (length m) \<le> sz)
              \<and> int (length ms) \<le> 4 * (d + 1) \<and> sz \<le> int len \<and> now + d \<le> later \<longrightarrow>
            (\<exists>s3 s4. send_all (itf_send wh now) ms s2 = Some s3 \<and> recv_all (itf_recv rh tstamp later len) (length ms) s3 = Some (ms, s4))))"
proof
  have "\<exists>ms. nw_modules (ns_w (ap_n s)) = Some ms \<and> rx < length ms" using c(1) by (auto simp: connected_def valid_itf_def split: option.splits)
  then have "oesr_error_code rx (oesr_error_set OESR_ERROR_NOTREADY rx s) = Some OESR_ERROR_NOTREADY"
    using cx by (auto simp: oesr_error_code_def oesr_error_set_def amod_upd_same)
  then show "\<exists>s'. oesr_itf_create addr' (int r) ITF_READ sz' rx s = Some (None, s') \<and> oesr_error_code rx s' = Some OESR_ERROR_NOTREADY"
    using create_read_cases(1) [OF c(1,3)] by simp
  let ?wh = "(ITF_WRITE, tx, p)" and ?rh = "(ITF_READ, rx, r)"
  obtain s1 q where s1: "oesr_itf_create addr (int p) ITF_WRITE sz tx s = Some (Some ?wh, s1)" "connected tx p rx r s1" "hw ?wh s1 = addr"
    "ap_queues s1 addr = Some q" and q: "rtdal_itfspscq_new (ap_spscq_id s) True (nat (itf_nof_msg sz d)) (nat sz) d = (Some q, ap_spscq_id s + 1)"
    using create_write_ok [OF c(1,2), of sz thesis] d(1) by simp
  obtain s2 where s2: "oesr_itf_create addr' (int r) ITF_READ sz' rx s1 = Some (Some ?rh, s2)" "hw ?rh s2 = addr" "hw ?wh s2 = addr"
    "ap_queues s2 = ap_queues s1" using create_read_cases(2) [OF s1(2), of addr' sz'] s1(3) c(2) by auto
  have cap: "4 * (d + 1) \<le> itf_nof_msg sz d" "0 < nat (itf_nof_msg sz d)" using d(2) by (auto simp: itf_nof_msg_def OESR_ITF_DEFAULT_MSG_def)
  note nq = new_wf [OF q cap(2)]
  have inv: "itf_linked ?wh ?rh s2" using s2 s1(4) nq d(2) by (simp add: itf_linked_def spscq_nb_def)
  have iq: "itf_queue ?wh s2 = q" using s2 s1(4) by (simp add: itf_queue_def)
  have key: "\<exists>s3 s4. send_all (itf_send ?wh now) ms s2 = Some s3 \<and> recv_all (itf_recv ?rh tstamp later len) (length ms) s3 = Some (ms, s4)"
    if a: "(\<forall>m \<in> set ms. m \<noteq> [] \<and> int (length m) \<le> sz) \<and> int (length ms) \<le> 4 * (d + 1) \<and> sz \<le> int len \<and> now + d \<le> later" for ms now later len tstamp
  proof -
    have "\<forall>m \<in> set ms. m \<noteq> [] \<and> length m \<le> nat sz" "length ms \<le> nat (itf_nof_msg sz d)" "nat sz \<le> len"
      using a cap(1) by (auto simp: le_nat_iff)
    then show ?thesis using itfq.batch_roundtrip [OF inv, of ms len now later tstamp] nq iq a by auto
  qed
  show "\<exists>wh rh s1 s2. oesr_itf_create addr (int p) ITF_WRITE sz tx s = Some (Some wh, s1)
        \<and> oesr_itf_create addr' (int r) ITF_READ sz' rx s1 = Some (Some rh, s2)
        \<and> (\<forall>ms now later len tstamp. (\<forall>m \<in> set ms. m \<noteq> [] \<and> int (length m) \<le> sz)
              \<and> int (length ms) \<le> 4 * (d + 1) \<and> sz \<le> int len \<and> now + d \<le> later \<longrightarrow>
            (\<exists>s3 s4. send_all (itf_send wh now) ms s2 = Some s3 \<and> recv_all (itf_recv rh tstamp later len) (length ms) s3 = Some (ms, s4)))"
    by (rule exI [of _ ?wh], rule exI [of _ ?rh], rule exI [of _ s1], rule exI [of _ s2])
      (intro conjI allI impI s1(1) s2(1), rule key)
qed

text \<open>Two modules: the output of the first, with a delay of two slots, feeds the input of the second.\<close>

definition ex_link :: "int list api" where
  "ex_link = \<lparr>ap_n = (ex_nstate [])\<lparr>ns_w := nod_waveform_zero\<lparr>nw_nof_modules := 2, nw_modules := Some
       [nod_module_zero\<lparr>nm_parent := module_zero\<lparr>m_id := 3, m_nof_outputs := 1, m_outputs := Some [interface_zero\<lparr>i_delay := 2\<rparr>]\<rparr>\<rparr>,
        nod_module_zero\<lparr>nm_parent := module_zero\<lparr>m_id := 4, m_nof_inputs := 1,
           m_inputs := Some [interface_zero\<lparr>i_remote_module_id := 3\<rparr>]\<rparr>,
           nm_context := Some \<lparr>cx_addr = 9, cx_tstamp = 0, cx_counters = [], cx_error = 0, cx_closed_resources = 0\<rparr>\<rparr>]\<rparr>\<rparr>,
     ap_queues = (\<lambda>_. None), ap_spscq_id = 1, ap_physic = []\<rparr>"

theorem itf_stream_witness:
  "\<exists>wh rh s1 s2 s3 s4. oesr_itf_create 64 (int 0) ITF_WRITE 8 0 ex_link = Some (Some wh, s1)
     \<and> oesr_itf_create 0 (int 0) ITF_READ 0 1 s1 = Some (Some rh, s2)
     \<and> send_all (itf_send wh 5) [[1, 2], [3]] s2 = Some s3 \<and> recv_all (itf_recv rh 0 7 8) (length [[1, 2], [3 :: byte]]) s3 = Some ([[1, 2], [3]], s4)"
proof -
  have m: "amod ex_link 0 = the (nw_modules (ns_w (ap_n ex_link))) ! 0" "amod ex_link (Suc 0) = the (nw_modules (ns_w (ap_n ex_link))) ! 1"
    by (simp_all add: nmod_def get_elem_def)
  have i: "itf_elem (ITF_WRITE, 0, 0) ex_link = interface_zero\<lparr>i_delay := 2\<rparr>"
    "itf_elem (ITF_READ, Suc 0, 0) ex_link = interface_zero\<lparr>i_remote_module_id := 3\<rparr>"
    by (simp_all add: itf_elem_def m itf_array_def get_elem_def) (simp_all add: ex_link_def)
  have c: "connected 0 0 1 0 ex_link"
    by (simp add: ex_link_def connected_def valid_itf_def nmod_def get_elem_def itf_array_def array_ok_def itf_elem_def interface_zero_def
        cong: option.case_cong)
  have h: "hw (ITF_WRITE, 0, 0) ex_link = 0" "nm_context (amod ex_link 1) \<noteq> None" "i_delay (itf_elem (ITF_WRITE, 0, 0) ex_link) = 2"
    by (simp_all add: i interface_zero_def m) (simp add: ex_link_def)
  have a: "(64 :: cptr) \<noteq> 0" by simp
  obtain wh rh s1 s2 where s: "oesr_itf_create 64 (int 0) ITF_WRITE 8 0 ex_link = Some (Some wh, s1)"
    "oesr_itf_create 0 (int 0) ITF_READ 0 1 s1 = Some (Some rh, s2)" and
    all: "\<And>ms now later len tstamp. (\<forall>m \<in> set ms. m \<noteq> [] \<and> int (length m) \<le> 8) \<and> int (length ms) \<le> 4 * (2 + 1) \<and> 8 \<le> int len \<and> now + 2 \<le> later \<Longrightarrow>
            \<exists>s3 s4. send_all (itf_send wh now) ms s2 = Some s3 \<and> recv_all (itf_recv rh tstamp later len) (length ms) s3 = Some (ms, s4)"
    using itf_stream [OF c a h(1,2) h(3), of 0 0 8] by auto
  have "\<exists>s3 s4. send_all (itf_send wh 5) [[1, 2], [3]] s2 = Some s3
      \<and> recv_all (itf_recv rh 0 7 8) (length [[1, 2], [3 :: byte]]) s3 = Some ([[1, 2], [3]], s4)" by (rule all) simp
  with s show ?thesis by blast
qed

text \<open>A port that is bound to an external interface which the platform does not have yields a
  handle all the same: the error is recorded, the handle of the kernel stays null, and the first
  read through the handle dereferences the null pointer.\<close>

theorem itf_external_missing:
  assumes "valid_itf (md, i, p) s" "int p < nof_itf md (aparent s i)" "i_physic_itf_id (itf_elem (md, i, p) s) = e" "e \<noteq> 0"
    and "e \<notin> snd ` set (ap_physic s)" "0 \<notin> fst ` set (ap_physic s)" "ap_queues s 0 = None"
  shows "\<exists>s'. oesr_itf_create addr (int p) md sz i s = Some (Some (md, i, p), s') \<and> hw (md, i, p) s' = 0
     \<and> oesr_itf_read now (md, i, p) len tstamp s' = None"
proof -
  let ?h = "(md, i, p)" let ?s1 = "oesr_error_set OESR_ERROR_RTDAL i s"
  have "find_idx (\<lambda>x. snd x = e) (ap_physic s) = length (ap_physic s)" using assms(5) by (auto simp: find_idx_eq_length)
  then have g: "rtdal_itfphysic_get_id e s = 0" by (simp add: rtdal_itfphysic_get_id_def)
  obtain ms where ms: "nw_modules (ns_w (ap_n s)) = Some ms" "i < length ms"
    using assms(1) by (auto simp: valid_itf_def split: option.splits)
  have "valid_itf ?h ?s1" using assms(1) ms by (simp add: valid_itf_def oesr_error_set_def amod_upd_same)
  note e = itf_elem_upd [OF this]
  have "oesr_itf_create addr (int p) md sz i s = Some (Some ?h, upd_itf ?h (\<lambda>x. x\<lparr>i_hw_itf := 0\<rparr>) ?s1)"
    using assms(2-4) g by (simp add: oesr_itf_create_def Let_def)
  moreover have "hw ?h (upd_itf ?h (\<lambda>x. x\<lparr>i_hw_itf := 0\<rparr>) ?s1) = 0" by (simp add: e)
  ultimately show ?thesis using assms(6,7)
    by (simp add: oesr_itf_read_def rtdal_itf_recv_def itf_call_def oesr_error_set_def)
qed

definition ex_external :: "int list api" where
  "ex_external = ex_link\<lparr>ap_n := (ap_n ex_link)\<lparr>ns_w := nod_waveform_zero\<lparr>nw_nof_modules := 1, nw_modules := Some
     [nod_module_zero\<lparr>nm_parent := module_zero\<lparr>m_nof_inputs := 1, m_inputs := Some [interface_zero\<lparr>i_physic_itf_id := 5\<rparr>]\<rparr>\<rparr>]\<rparr>\<rparr>\<rparr>"

theorem itf_external_missing_witness:
  "\<exists>s'. oesr_itf_create 64 (int 0) ITF_READ 8 0 ex_external = Some (Some (ITF_READ, 0, 0), s') \<and> hw (ITF_READ, 0, 0) s' = 0
     \<and> oesr_itf_read 0 (ITF_READ, 0, 0) 8 0 s' = None"
  by (rule itf_external_missing [where e = 5])
    (simp_all add: ex_external_def ex_link_def valid_itf_def nmod_def get_elem_def itf_array_def nof_itf_def itf_elem_def)

section \<open>Change of mode\<close>

text \<open>C4. A change of mode that the manager requests reaches the values that the modules read: after
  the call has succeeded, module j that reads its parameter k gets the value of the mode that was
  current before the slot t + 10 + stage, and the value of the requested mode from that slot on.\<close>

theorem mode_change_values:
  assumes mode: "i < nat (w_nof_modes w)" "nat (w_nof_modes w) \<le> length (w_modes w)" "c_str (wm_name (w_modes w ! i)) = c_str name"
      "\<forall>j < i. c_str (wm_name (w_modes w ! j)) \<noteq> c_str name"
    and w: "array_ok (w_modules w) (w_nof_modules w)" "one_node w" "node = pt_node_ids pt ! 0" "length (node_modules node w) < 2 ^ 31"
      "distinct (map m_id (node_modules node w))"
      "\<forall>m \<in> set (node_modules node w). in_int32 (m_id m) \<and> module_mode_ok (m_mode (set_next (int i) t m))"
    and node: "al_node s = Some an" "holds wi w xs an" "map (\<lambda>m. m_id (nm_parent m)) xs = map m_id (node_modules node w)"
      "link_ok (8 + 16 * length xs) s"
    and v: "j < length xs" "v = get_elem k (m_variables (nm_parent (xs ! j)))" "0 < v_size v" "v_size v \<le> sz"
      "mode_block v (mm_cur_mode (m_mode (nm_parent (xs ! j)))) = Some old" "int (length old) = v_size v"
      "mode_block v (int i) = Some new" "int (length new) = v_size v"
    and T: "T = t + 10 + m_stage (node_modules node w ! j)" "T \<noteq> 0"
  shows "\<exists>w' s' an'. waveform_mode_set os pt t name (w, s) = (0, w', s') \<and> al_node s' = Some an'
    \<and> (\<forall>now a. ap_n a = slot_state wi an' \<longrightarrow>
         (\<exists>a'. oesr_var_param_get_value now (j, k) sz j a = Some (v_size v, if now < T then old else new, a')))"
proof -
  let ?f = "\<lambda>j. set_next_mode \<lparr>mm_cur_mode = 0, mm_next_mode = int i, mm_next_tslot = t + 10 + m_stage (node_modules node w ! j)\<rparr> (xs ! j)"
  obtain w' s' an' where r: "waveform_mode_set os pt t name (w, s) = (0, w', s')" "al_node s' = Some an'"
    "an_waveforms an' = (an_waveforms an)[wi := with_modules (an_waveforms an ! wi) (map ?f [0..<length xs])]"
    using mode_set_ok [OF mode w node, of os] by auto
  have wi: "wi < length (an_waveforms an)" using node(2) by (simp add: holds_def)
  have "\<exists>a'. oesr_var_param_get_value now (j, k) sz j a = Some (v_size v, if now < T then old else new, a')"
    if a: "ap_n a = slot_state wi an'" for now and a :: "'a api"
  proof -
    have m: "aparent a j = nm_parent (?f j)" using a v(1) wi r(3) by (simp add: slot_state_def nmod_def with_modules_def get_elem_def)
    have vv: "avar (j, k) a = v" using v(2) by (simp add: avar_def m set_next_mode_def)
    have "mm_cur_mode (switch_mode now (m_mode (aparent a j))) = (if now < T then mm_cur_mode (m_mode (nm_parent (xs ! j))) else int i)"
      using T by (simp add: m switch_mode_def set_next_mode_def)
    then show ?thesis using v by (simp add: oesr_var_param_get_value_def vv)
  qed
  then show ?thesis using r(1,2) by blast
qed

text \<open>A waveform with two modes and a module with one parameter of two bytes.\<close>

definition ex_modes :: waveform_t where
  "ex_modes = ex_waveform\<lparr>w_nof_modes := 2, w_modes := [waveform_mode_zero\<lparr>wm_name := [65, 0]\<rparr>, waveform_mode_zero\<lparr>wm_name := [66, 0]\<rparr>]\<rparr>"

definition ex_param :: nod_module_t where
  "ex_param = (ex_nmodule 3)\<lparr>nm_parent := (nm_parent (ex_nmodule 3))\<lparr>m_nof_variables := 1,
     m_variables := Some [variable_zero\<lparr>v_size := 2, v_init_value := [Some [1, 2], Some [3, 4]]\<rparr>]\<rparr>\<rparr>"

definition ex_running :: "int list aloe" where
  "ex_running = ex_aloe\<lparr>al_node := Some (ex_node\<lparr>an_waveforms := [nod_waveform_zero\<lparr>nw_id := 9\<rparr>,
     nod_waveform_zero\<lparr>nw_id := 7, nw_modules := Some [ex_param], nw_nof_modules := 1\<rparr>]\<rparr>)\<rparr>"

theorem mode_change_values_witness:
  "\<exists>w' s' an'. waveform_mode_set ex_os ex_platform 20 [66, 0] (ex_modes, ex_running) = (0, w', s') \<and> al_node s' = Some an'
    \<and> (\<exists>a'. oesr_var_param_get_value 29 (0, 0) 4 0 (ex_link\<lparr>ap_n := slot_state 1 an'\<rparr>) = Some (2, [1, 2], a'))
    \<and> (\<exists>a'. oesr_var_param_get_value 30 (0, 0) 4 0 (ex_link\<lparr>ap_n := slot_state 1 an'\<rparr>) = Some (2, [3, 4], a'))"
proof -
  have m: "1 < nat (w_nof_modes ex_modes)" "nat (w_nof_modes ex_modes) \<le> length (w_modes ex_modes)"
    "c_str (wm_name (w_modes ex_modes ! 1)) = c_str [66, 0]" "\<forall>j < 1. c_str (wm_name (w_modes ex_modes ! j)) \<noteq> c_str [66, 0]"
    by (simp_all add: ex_modes_def c_str_def)
  have nm: "node_modules 5 ex_modes = [ex_module]" using ex_node_modules by (simp add: ex_modes_def node_modules_def modules_of_def cong: option.case_cong)
  have w: "array_ok (w_modules ex_modes) (w_nof_modules ex_modes)" "one_node ex_modes" "length (node_modules 5 ex_modes) < 2 ^ 31"
    "distinct (map m_id (node_modules 5 ex_modes))"
    "\<forall>m \<in> set (node_modules 5 ex_modes). in_int32 (m_id m) \<and> module_mode_ok (m_mode (set_next (int 1) 20 m))"
    using ex_platform_ok(2) by (simp_all add: nm) (simp_all add: ex_modes_def ex_waveform_def array_ok_def one_node_def ex_module_def in_int32_def
        module_mode_ok_def set_next_def module_zero_def)
  have n: "al_node ex_running = Some (the (al_node ex_running))" "holds 1 ex_modes [ex_param] (the (al_node ex_running))"
    "map (\<lambda>m. m_id (nm_parent m)) [ex_param] = map m_id (node_modules 5 ex_modes)" "link_ok (8 + 16 * length [ex_param]) ex_running"
    using ex_platform_ok(4) [of 24]
    by (simp_all add: nm ex_running_def holds_def link_ok_def) (simp_all add: ex_modes_def ex_waveform_def ex_param_def ex_nmodule_def ex_module_def)
  let ?v = "get_elem 0 (m_variables (nm_parent ([ex_param] ! 0)))"
  have v: "0 < length [ex_param]" "?v = get_elem 0 (m_variables (nm_parent ([ex_param] ! 0)))" "0 < v_size ?v" "v_size ?v \<le> 4"
    "mode_block ?v (mm_cur_mode (m_mode (nm_parent ([ex_param] ! 0)))) = Some [1, 2]" "int (length [1, 2 :: byte]) = v_size ?v"
    "mode_block ?v (int 1) = Some [3, 4]" "int (length [3, 4 :: byte]) = v_size ?v"
    by (simp_all add: ex_param_def get_elem_def mode_block_def ex_nmodule_def nod_module_zero_def module_zero_def)
  have T: "30 = 20 + 10 + m_stage (node_modules 5 ex_modes ! 0)" "(30 :: int) \<noteq> 0" by (simp_all add: nm ex_module_def module_zero_def)
  have sz: "v_size ?v = 2" using v(6) by simp
  obtain w' s' an' where r: "waveform_mode_set ex_os ex_platform 20 [66, 0] (ex_modes, ex_running) = (0, w', s')" "al_node s' = Some an'" and
    read: "\<And>now a. ap_n a = slot_state 1 an' \<Longrightarrow>
      \<exists>a'. oesr_var_param_get_value now (0, 0) 4 0 a = Some (2, if now < 30 then [1, 2] else [3, 4], a')"
    using mode_change_values [OF m w(1,2) ex_platform_ok(3) [symmetric] w(3-5) n v T, of ex_os] unfolding sz by auto
  then show ?thesis using read [of "ex_link\<lparr>ap_n := slot_state 1 an'\<rparr>" 29] read [of "ex_link\<lparr>ap_n := slot_state 1 an'\<rparr>" 30] by simp
qed

end
