(* ===== verification/Skeleton.thy ===== *)
theory Skeleton
  imports Oesr_Api
begin

text \<open>
  The skeleton that turns user code into a module (oesr/src/skeleton/skeleton.c and params.c):
  Init creates the interfaces, Run takes one packet from every input, calls work and sends one
  packet to every output, Stop closes the interfaces.

  Every module is a library of its own, so the static variables of the skeleton exist once per
  module (record skel, one for each module index in the environment menv). The user code is a
  parameter (record user_code): work gets the buffers of the inputs that have a packet, the
  availability of the outputs, and returns its return value, the bytes that it wrote to the
  outputs and the new state; it reaches the skeleton through get_input_samples and
  set_output_samples. The number of user variables is zero throughout skeleton.c, so the
  loops over them have no iterations and are left out, as are counters and logs.

  Results are optional outcomes: None for an access outside an object, Block for a call that
  waits on a queue of negative delay; what such a call does after the wait is not modelled.
\<close>

section \<open>State\<close>

definition MAX_INPUTS :: nat where "MAX_INPUTS = 30"
definition MAX_OUTPUTS :: nat where "MAX_OUTPUTS = 30"
definition CTRL_PKT_VALUE_SZ :: nat where "CTRL_PKT_VALUE_SZ = 80"
definition CTRL_IN_BUFFER_SZ :: nat where "CTRL_IN_BUFFER_SZ = 88"

record skel_cfg =
  nof_input_itf :: nat
  nof_output_itf :: nat
  input_max_samples :: int
  output_max_samples :: int
  input_sample_sz :: int
  output_sample_sz :: int

record skel =
  sk_mem_ok :: bool
  sk_check_ok :: bool
  sk_inputs :: "itf_h option list"
  sk_outputs :: "itf_h option list"
  sk_ctrl_in :: "itf_h option"
  sk_ctrl_buffer :: bytes
  sk_rcv_len :: "int list"
  sk_snd_len :: "int list"

text \<open>The environment of the node state: the interface objects between two calls of module
  code, the skeletons and the state of the user code.\<close>

record 'u menv =
  me_queues :: "cptr \<Rightarrow> rtdal_itfspscq_t option"
  me_spscq_id :: int
  me_physic :: "(cptr \<times> int) list"
  me_skel :: "nat \<Rightarrow> skel"
  me_user :: 'u

type_synonym 'u sk_state = "'u menv api"

definition skel_of :: "nat \<Rightarrow> 'u sk_state \<Rightarrow> skel" where
  "skel_of i s = me_skel (ns_env (ap_n s)) i"

definition upd_skel :: "nat \<Rightarrow> (skel \<Rightarrow> skel) \<Rightarrow> 'u sk_state \<Rightarrow> 'u sk_state" where
  "upd_skel i f s = s\<lparr>ap_n := (ap_n s)\<lparr>ns_env := (ns_env (ap_n s))
     \<lparr>me_skel := (me_skel (ns_env (ap_n s)))(i := f (skel_of i s))\<rparr>\<rparr>\<rparr>"

record 'u user_code =
  uc_initialize :: "nat \<Rightarrow> 'u sk_state \<Rightarrow> int \<times> 'u sk_state"
  uc_work :: "nat \<Rightarrow> bytes option list \<Rightarrow> bool list \<Rightarrow> 'u sk_state \<Rightarrow> int \<times> bytes list \<times> 'u sk_state"
  uc_stop :: "nat \<Rightarrow> 'u sk_state \<Rightarrow> 'u sk_state"

definition bind_oo :: "'a outcome option \<Rightarrow> ('a \<Rightarrow> 'b outcome option) \<Rightarrow> 'b outcome option" where
  "bind_oo x f = (case x of None \<Rightarrow> None | Some Block \<Rightarrow> Some Block | Some (Ret y) \<Rightarrow> f y)"

lemma bind_oo_simps [simp]:
  "bind_oo (Some (Ret y)) f = f y" "bind_oo None f = None" "bind_oo (Some Block) f = Some Block"
  by (simp_all add: bind_oo_def)

section \<open>Initialisation\<close>

definition init_memory :: "skel \<Rightarrow> skel" where
  "init_memory k = k\<lparr>sk_inputs := replicate MAX_INPUTS None, sk_rcv_len := replicate MAX_INPUTS 0,
     sk_outputs := replicate MAX_OUTPUTS None, sk_snd_len := replicate MAX_OUTPUTS 0, sk_ctrl_in := None\<rparr>"

definition check_configuration :: "skel_cfg \<Rightarrow> int" where
  "check_configuration cfg = (if nof_input_itf cfg > MAX_INPUTS then -1 else if nof_output_itf cfg > MAX_OUTPUTS then -1 else 0)"

text \<open>addr gives the address of the memory for a new queue in a state, 0 for a failure.\<close>

fun init_outputs :: "('u sk_state \<Rightarrow> cptr) \<Rightarrow> skel_cfg \<Rightarrow> nat \<Rightarrow> nat list \<Rightarrow> 'u sk_state \<Rightarrow> (int \<times> 'u sk_state) option" where
  "init_outputs addr cfg i [] s = Some (1, s)"
| "init_outputs addr cfg i (p # ps) s =
     (if sk_outputs (skel_of i s) ! p \<noteq> None then init_outputs addr cfg i ps s
      else case oesr_itf_create (addr s) (int p) ITF_WRITE (output_max_samples cfg * output_sample_sz cfg) i s of
          None \<Rightarrow> None
        | Some (h, s1) \<Rightarrow>
            let s2 = upd_skel i (\<lambda>k. k\<lparr>sk_outputs := (sk_outputs k)[p := h]\<rparr>) s1
            in if h = None \<and> oesr_error_code i s2 \<noteq> Some OESR_ERROR_NOTFOUND then Some (-1, s2)
               else init_outputs addr cfg i ps s2)"

definition init_ctrl :: "skel_cfg \<Rightarrow> nat \<Rightarrow> 'u sk_state \<Rightarrow> 'u sk_state option" where
  "init_ctrl cfg i s =
     (if oesr_itf_nofinputs i s > int (nof_input_itf cfg) \<and> sk_ctrl_in (skel_of i s) = None
      then map_option (\<lambda>(h, s1). upd_skel i (\<lambda>k. k\<lparr>sk_ctrl_in := h\<rparr>) s1)
             (oesr_itf_create 0 (oesr_itf_nofinputs i s - 1) ITF_READ (int CTRL_IN_BUFFER_SZ) i s)
      else Some s)"

fun init_inputs :: "skel_cfg \<Rightarrow> nat \<Rightarrow> nat list \<Rightarrow> 'u sk_state \<Rightarrow> (int \<times> 'u sk_state) option" where
  "init_inputs cfg i [] s = Some (1, s)"
| "init_inputs cfg i (p # ps) s =
     (if sk_inputs (skel_of i s) ! p \<noteq> None then init_inputs cfg i ps s
      else case oesr_itf_create 0 (int p) ITF_READ (input_max_samples cfg * input_sample_sz cfg) i s of
          None \<Rightarrow> None
        | Some (h, s1) \<Rightarrow>
            let s2 = upd_skel i (\<lambda>k. k\<lparr>sk_inputs := (sk_inputs k)[p := h]\<rparr>) s1
            in if h = None then Some (if oesr_error_code i s2 = Some OESR_ERROR_NOTREADY then 0 else -1, s2)
               else init_inputs cfg i ps s2)"

definition init_interfaces :: "('u sk_state \<Rightarrow> cptr) \<Rightarrow> skel_cfg \<Rightarrow> nat \<Rightarrow> 'u sk_state \<Rightarrow> (int \<times> 'u sk_state) option" where
  "init_interfaces addr cfg i s = (case init_outputs addr cfg i [0..<nof_output_itf cfg] s of
      None \<Rightarrow> None
    | Some (n, s1) \<Rightarrow>
        if n = -1 then Some (-1, s1)
        else case init_ctrl cfg i s1 of
            None \<Rightarrow> None
          | Some s2 \<Rightarrow> init_inputs cfg i [0..<nof_input_itf cfg] s2)"

definition Init :: "'u user_code \<Rightarrow> ('u sk_state \<Rightarrow> cptr) \<Rightarrow> skel_cfg \<Rightarrow> nat \<Rightarrow> 'u sk_state \<Rightarrow> (int \<times> 'u sk_state) option" where
  "Init uc addr cfg i s =
     (let s1 = (if sk_mem_ok (skel_of i s) then s else upd_skel i (\<lambda>k. (init_memory k)\<lparr>sk_mem_ok := True\<rparr>) s);
          (r, s2) = uc_initialize uc i s1
      in if r \<noteq> 0 then Some (-1, s2)
         else if \<not> sk_check_ok (skel_of i s2) \<and> check_configuration cfg \<noteq> 0 then Some (-1, s2)
         else init_interfaces addr cfg i (upd_skel i (\<lambda>k. k\<lparr>sk_check_ok := True\<rparr>) s2))"

section \<open>End\<close>

fun close_interfaces :: "nat \<Rightarrow> nat list \<Rightarrow> 'u sk_state \<Rightarrow> 'u sk_state option" where
  "close_interfaces i [] s = Some s"
| "close_interfaces i (p # ps) s = (case sk_outputs (skel_of i s) ! p of
      None \<Rightarrow> close_interfaces i ps s
    | Some h \<Rightarrow> (case oesr_itf_close h s of None \<Rightarrow> None | Some (r, s1) \<Rightarrow> close_interfaces i ps s1))"

definition Stop :: "'u user_code \<Rightarrow> skel_cfg \<Rightarrow> nat \<Rightarrow> 'u sk_state \<Rightarrow> (int \<times> 'u sk_state) option" where
  "Stop uc cfg i s = map_option (\<lambda>s1. (0, snd (oesr_exit i s1))) (close_interfaces i [0..<nof_output_itf cfg] (uc_stop uc i s))"

section \<open>Execution\<close>

text \<open>struct ctrl_in_pkt: the index of a parameter, the size of the value and the value.\<close>

definition ctrl_pm_idx :: "bytes \<Rightarrow> int" where "ctrl_pm_idx buf = bytes_int (take 4 buf)"
definition ctrl_size :: "bytes \<Rightarrow> int" where "ctrl_size buf = bytes_int (take 4 (drop 4 buf))"
definition ctrl_value :: "bytes \<Rightarrow> bytes" where "ctrl_value buf = take CTRL_PKT_VALUE_SZ (drop 8 buf)"

text \<open>A size above that of the value is harmless as long as the parameter is not larger than the
  value either.\<close>

definition process_ctrl_packet :: "nat \<Rightarrow> bytes \<Rightarrow> 'u sk_state \<Rightarrow> (int \<times> 'u sk_state) option" where
  "process_ctrl_packet i buf s =
     (if ctrl_size buf > int CTRL_PKT_VALUE_SZ \<and> 0 \<le> ctrl_pm_idx buf
         \<and> ctrl_pm_idx buf < m_nof_variables (aparent s i) \<and> v_size (avar (i, nat (ctrl_pm_idx buf)) s) > int CTRL_PKT_VALUE_SZ
      then None
      else map_option (\<lambda>(r, s1). (if r = -1 then -1 else 0, s1))
             (oesr_var_param_set_value_idx (ctrl_pm_idx buf) (take (nat (ctrl_size buf)) (ctrl_value buf)) i s))"

partial_function (option) read_ctrl :: "nat \<Rightarrow> int \<Rightarrow> itf_h \<Rightarrow> 'u sk_state \<Rightarrow> (int \<times> 'u sk_state) outcome option" where
  "read_ctrl i tstamp h s = (case oesr_itf_read (rtdal_time_slot (ap_n s)) h CTRL_IN_BUFFER_SZ tstamp s of
      None \<Rightarrow> None
    | Some Block \<Rightarrow> Some Block
    | Some (Ret ((n, bs), s1)) \<Rightarrow>
        if n = -1 then Some (Ret (-1, s1))
        else if n > 0 then
          (let s2 = upd_skel i (\<lambda>k. k\<lparr>sk_ctrl_buffer := memcpy_at (sk_ctrl_buffer k) 0 bs\<rparr>) s1
           in case process_ctrl_packet i (sk_ctrl_buffer (skel_of i s2)) s2 of
                None \<Rightarrow> None
              | Some (r, s3) \<Rightarrow> if r \<noteq> 0 then Some (Ret (-1, s3)) else read_ctrl i tstamp h s3)
        else Some (Ret (0, s1)))"

declare read_ctrl.simps [code]

text \<open>The addresses of the input packets (slots of their queues) and the lengths in samples; the
  first component is the return value of Run when it is not 0.\<close>

fun get_inputs :: "skel_cfg \<Rightarrow> nat \<Rightarrow> int \<Rightarrow> nat list \<Rightarrow> 'u sk_state \<Rightarrow> (int \<times> nat option list \<times> 'u sk_state) outcome option" where
  "get_inputs cfg i tstamp [] s = Some (Ret (0, [], s))"
| "get_inputs cfg i tstamp (p # ps) s = (case sk_inputs (skel_of i s) ! p of
      None \<Rightarrow> bind_oo (get_inputs cfg i tstamp ps (upd_skel i (\<lambda>k. k\<lparr>sk_rcv_len := (sk_rcv_len k)[p := 0]\<rparr>) s))
                (\<lambda>(r, ptrs, s'). Some (Ret (r, None # ptrs, s')))
    | Some h \<Rightarrow>
        bind_oo (oesr_itf_ptr_get (rtdal_time_slot (ap_n s)) h tstamp s) (\<lambda>((n, pkt), s1).
          if n = -1 then Some (Ret (-1, [], s1))
          else let len = (case pkt of None \<Rightarrow> 0 | Some (slot, l) \<Rightarrow> l);
                   s2 = upd_skel i (\<lambda>k. k\<lparr>sk_rcv_len := (sk_rcv_len k)[p := (if n = 1 then cdiv len (input_sample_sz cfg) else len)]\<rparr>) s1
               in bind_oo (get_inputs cfg i tstamp ps s2)
                    (\<lambda>(r, ptrs, s'). Some (Ret (r, map_option fst pkt # ptrs, s')))))"

fun request_outputs :: "nat \<Rightarrow> nat list \<Rightarrow> 'u sk_state \<Rightarrow> (int \<times> nat option list \<times> 'u sk_state) outcome option" where
  "request_outputs i [] s = Some (Ret (0, [], s))"
| "request_outputs i (p # ps) s = (case sk_outputs (skel_of i s) ! p of
      None \<Rightarrow> bind_oo (request_outputs i ps s) (\<lambda>(r, ptrs, s'). Some (Ret (r, None # ptrs, s')))
    | Some h \<Rightarrow>
        bind_oo (oesr_itf_ptr_request h s) (\<lambda>((n, slot), s1).
          if n = 0 \<or> n = -1 then Some (Ret (-1, [], s1))
          else bind_oo (request_outputs i ps s1) (\<lambda>(r, ptrs, s'). Some (Ret (r, slot # ptrs, s')))))"

text \<open>What the user code sees of an input and does to an output.\<close>

definition slot_data :: "itf_h \<Rightarrow> nat \<Rightarrow> 'u sk_state \<Rightarrow> bytes" where
  "slot_data h slot s = rp_data (q_packets (itf_queue h s) ! slot)"

definition write_slot :: "itf_h \<Rightarrow> nat \<Rightarrow> bytes \<Rightarrow> 'u sk_state \<Rightarrow> 'u sk_state" where
  "write_slot h slot bs s = s\<lparr>ap_queues := (ap_queues s)(hw h s := map_option (fill_slot slot bs) (ap_queues s (hw h s)))\<rparr>"

fun write_outputs :: "nat \<Rightarrow> (nat \<times> nat option \<times> bytes) list \<Rightarrow> 'u sk_state \<Rightarrow> 'u sk_state" where
  "write_outputs i [] s = s"
| "write_outputs i ((p, ptr, bs) # xs) s = write_outputs i xs
     (case (ptr, sk_outputs (skel_of i s) ! p) of (Some slot, Some h) \<Rightarrow> write_slot h slot bs s | _ \<Rightarrow> s)"

fun release_inputs :: "nat \<Rightarrow> (nat \<times> nat option) list \<Rightarrow> 'u sk_state \<Rightarrow> (int \<times> 'u sk_state) outcome option" where
  "release_inputs i [] s = Some (Ret (0, s))"
| "release_inputs i ((p, ptr) # xs) s = (case (ptr, sk_inputs (skel_of i s) ! p) of
      (Some slot, Some h) \<Rightarrow> bind_oo (oesr_itf_ptr_release h s) (\<lambda>(n, s1). if n = -1 then Some (Ret (-1, s1)) else release_inputs i xs s1)
    | _ \<Rightarrow> release_inputs i xs s)"

fun put_outputs :: "nat \<Rightarrow> (nat \<times> nat option) list \<Rightarrow> 'u sk_state \<Rightarrow> (int \<times> 'u sk_state) outcome option" where
  "put_outputs i [] s = Some (Ret (0, s))"
| "put_outputs i ((p, ptr) # xs) s = (case (ptr, sk_outputs (skel_of i s) ! p) of
      (Some slot, Some h) \<Rightarrow>
        bind_oo (oesr_itf_ptr_put (rtdal_time_slot (ap_n s)) h (sk_snd_len (skel_of i s) ! p) s)
          (\<lambda>(n, s1). if n = -1 then Some (Ret (-1, s1)) else put_outputs i xs s1)
    | _ \<Rightarrow> put_outputs i xs s)"

text \<open>The length of an output that work did not set is its return value.\<close>

definition default_len :: "skel_cfg \<Rightarrow> int \<Rightarrow> nat option list \<Rightarrow> skel \<Rightarrow> skel" where
  "default_len cfg n ptrs k = k\<lparr>sk_snd_len := map (\<lambda>(p, len).
     if p < nof_output_itf cfg \<and> len = 0 \<and> ptrs ! p \<noteq> None then n * output_sample_sz cfg else len) (enumerate 0 (sk_snd_len k))\<rparr>"

definition clear_prefix :: "nat \<Rightarrow> int list \<Rightarrow> int list" where
  "clear_prefix n xs = replicate (min n (length xs)) 0 @ drop n xs"

definition run_work :: "'u user_code \<Rightarrow> skel_cfg \<Rightarrow> nat \<Rightarrow> nat option list \<Rightarrow> nat option list \<Rightarrow> 'u sk_state \<Rightarrow> int \<times> 'u sk_state" where
  "run_work uc cfg i ins outs s =
     (let s1 = upd_skel i (\<lambda>k. k\<lparr>sk_snd_len := clear_prefix (nof_output_itf cfg) (sk_snd_len k)\<rparr>) s;
          bufs = map (\<lambda>(p, ptr). case (ptr, sk_inputs (skel_of i s1) ! p) of
                   (Some slot, Some h) \<Rightarrow> Some (slot_data h slot s1) | _ \<Rightarrow> None) (enumerate 0 ins);
          (n, bss, s2) = uc_work uc i bufs (map (\<lambda>x. x \<noteq> None) outs) s1
      in (n, write_outputs i (zip [0..<length outs] (zip outs bss)) s2))"

definition Run :: "'u user_code \<Rightarrow> skel_cfg \<Rightarrow> nat \<Rightarrow> 'u sk_state \<Rightarrow> (int \<times> 'u sk_state) outcome option" where
  "Run uc cfg i s = (case oesr_tstamp i s of None \<Rightarrow> None | Some tstamp \<Rightarrow>
     bind_oo (case sk_ctrl_in (skel_of i s) of None \<Rightarrow> Some (Ret (0, s)) | Some h \<Rightarrow> read_ctrl i tstamp h s) (\<lambda>(r, s1).
     if r = -1 then Some (Ret (-1, s1))
     else bind_oo (get_inputs cfg i tstamp [0..<nof_input_itf cfg] s1) (\<lambda>(r, ins, s2).
     if r = -1 then Some (Ret (-1, s2))
     else bind_oo (request_outputs i [0..<nof_output_itf cfg] s2) (\<lambda>(r, outs, s3).
     if r = -1 then Some (Ret (-1, s3))
     else let (n, s4) = run_work uc cfg i ins outs s3 in
     if n < 0 then Some (Ret (-1, s4))
     else bind_oo (release_inputs i (enumerate 0 ins) (upd_skel i (default_len cfg n outs) s4)) (\<lambda>(r, s5).
     if r = -1 then Some (Ret (-1, s5))
     else bind_oo (put_outputs i (enumerate 0 outs) s5) (\<lambda>(r, s6).
     if r = -1 then Some (Ret (-1, s6))
     else Some (Ret (0, upd_skel i (\<lambda>k. k\<lparr>sk_rcv_len := clear_prefix (nof_input_itf cfg) (sk_rcv_len k)\<rparr>) s6))))))))"

section \<open>Services for user code\<close>

text \<open>The bounds are tested with > where the arrays of the interfaces in use end at
  nof_input_itf - 1; the arrays are longer, so the access is defined.\<close>

definition get_input_samples :: "skel_cfg \<Rightarrow> nat \<Rightarrow> int \<Rightarrow> 'u sk_state \<Rightarrow> int" where
  "get_input_samples cfg i idx s = (if idx < 0 \<or> idx > int (nof_input_itf cfg) then -1 else sk_rcv_len (skel_of i s) ! nat idx)"

definition set_output_samples :: "skel_cfg \<Rightarrow> nat \<Rightarrow> int \<Rightarrow> int \<Rightarrow> 'u sk_state \<Rightarrow> int \<times> 'u sk_state" where
  "set_output_samples cfg i idx len s = (if idx < 0 \<or> idx > int (nof_output_itf cfg) then (-1, s)
     else (0, upd_skel i (\<lambda>k. k\<lparr>sk_snd_len := (sk_snd_len k)[nat idx := len * output_sample_sz cfg]\<rparr>) s))"

definition param_get :: "int \<Rightarrow> var_h \<Rightarrow> int \<Rightarrow> nat \<Rightarrow> 'u sk_state \<Rightarrow> (int \<times> bytes \<times> variable_type_t \<times> 'u sk_state) option" where
  "param_get now h max_size i s =
     map_option (\<lambda>(n, bs, s1). (n, bs, oesr_var_param_type h s, s1)) (oesr_var_param_get_value now h max_size i s)"

definition param_id :: "bytes \<Rightarrow> nat \<Rightarrow> 'u sk_state \<Rightarrow> var_h option \<times> 'u sk_state" where
  "param_id name i s = oesr_var_param_get name i s"

text \<open>Return code and the value after the call; the old one is kept on every error.\<close>

definition param_get_int :: "int \<Rightarrow> var_h \<Rightarrow> int \<Rightarrow> nat \<Rightarrow> 'u sk_state \<Rightarrow> (int \<times> int \<times> 'u sk_state) option" where
  "param_get_int now h v i s = (case param_get now h 4 i s of
      None \<Rightarrow> None
    | Some (n, bs, ty, s1) \<Rightarrow>
        if n = -1 then Some (-1, v, s1) else if n \<noteq> 4 then Some (0, v, s1)
        else if ty \<noteq> VAR_TYPE_INT then Some (0, v, s1) else Some (1, bytes_int bs, s1))"

definition param_get_int_name :: "int \<Rightarrow> bytes \<Rightarrow> int \<Rightarrow> nat \<Rightarrow> 'u sk_state \<Rightarrow> (int \<times> int \<times> 'u sk_state) option" where
  "param_get_int_name now name v i s = (case param_id name i s of
      (None, s1) \<Rightarrow> Some (-1, v, s1)
    | (Some h, s1) \<Rightarrow> map_option (\<lambda>(r, v1, s2). (if r = -1 then -1 else 0, v1, s2)) (param_get_int now h v i s1))"

text \<open>param_remote_set_ptr on the buffer of an output; the result is the number of bytes.\<close>

definition param_remote_set_ptr :: "bytes option \<Rightarrow> int \<Rightarrow> bytes \<Rightarrow> int \<times> bytes option" where
  "param_remote_set_ptr out_ptr param_idx val =
     (if length val > CTRL_PKT_VALUE_SZ then (-1, out_ptr)
      else case out_ptr of
          None \<Rightarrow> (-1, None)
        | Some b \<Rightarrow> (int CTRL_IN_BUFFER_SZ, Some (memcpy_at b 0 (int_bytes param_idx @ int_bytes (int (length val)) @ val))))"

end
