(* ===== verification/Skeleton_Init.thy ===== *)
theory Skeleton_Init
  imports Skeleton
begin

text \<open>
  Initialisation of a waveform of skeleton modules: the entry points of the skeleton as the
  module code of the node (the return codes of skeleton.c, Init, seen by
  nod_waveform_status_init_thread), and the proof that the initialisation thread of the node
  succeeds in at most two passes over the modules, in whatever order they stand, when every
  input is linked to an output that its module creates.

  The locale two_pass states what the thread of the node needs from module code; its lemma
  holds for every module code of this kind, and the interpretation shows that the skeleton is one.
\<close>

section \<open>Skeleton modules in the node\<close>

definition api_of :: "'u menv nstate \<Rightarrow> 'u sk_state" where
  "api_of s = \<lparr>ap_n = s, ap_queues = me_queues (ns_env s), ap_spscq_id = me_spscq_id (ns_env s), ap_physic = me_physic (ns_env s)\<rparr>"

definition of_api :: "'u sk_state \<Rightarrow> 'u menv nstate" where
  "of_api a = (ap_n a)\<lparr>ns_env := (ns_env (ap_n a))\<lparr>me_queues := ap_queues a, me_spscq_id := ap_spscq_id a, me_physic := ap_physic a\<rparr>\<rparr>"

text \<open>Init as the node calls it. An access outside an object ends the module with a signal;
  the node sees a failure.\<close>

definition skel_os :: "(nat \<Rightarrow> 'u user_code) \<Rightarrow> ('u sk_state \<Rightarrow> cptr) \<Rightarrow> (nat \<Rightarrow> skel_cfg) \<Rightarrow> 'u menv node_os \<Rightarrow> 'u menv node_os" where
  "skel_os uc addr cfg os = os\<lparr>os_Init := \<lambda>i s. case Init (uc i) addr (cfg i) i (api_of s) of
      None \<Rightarrow> (-1, s)
    | Some (r, a) \<Rightarrow> (r, of_api a)\<rparr>"

section \<open>The initialisation thread\<close>

text \<open>made i: module i has done what the others wait for; ready i: module i has what it needs.\<close>

locale two_pass =
  fixes os :: "'e node_os" and inv :: "'e nstate \<Rightarrow> bool" and made ready :: "nat \<Rightarrow> 'e nstate \<Rightarrow> bool"
  assumes inv_wf: "inv s \<Longrightarrow> node_wf (ns_w s)"
    and inv_flag: "inv s \<Longrightarrow> i < nof s \<Longrightarrow> inv (upd_smod i (\<lambda>m. m\<lparr>nm_changing_status := b\<rparr>) s)"
    and made_flag: "inv s \<Longrightarrow> i < nof s \<Longrightarrow> made j (upd_smod i (\<lambda>m. m\<lparr>nm_changing_status := b\<rparr>) s) = made j s"
    and ready_flag: "inv s \<Longrightarrow> i < nof s \<Longrightarrow> ready j (upd_smod i (\<lambda>m. m\<lparr>nm_changing_status := b\<rparr>) s) = ready j s"
    and inv_status: "inv s \<Longrightarrow> i < nof s \<Longrightarrow> inv (upd_smod i (\<lambda>m. set_mstatus st (m\<lparr>nm_changing_status := b\<rparr>)) s)"
    and made_status: "inv s \<Longrightarrow> i < nof s \<Longrightarrow> made j (upd_smod i (\<lambda>m. set_mstatus st (m\<lparr>nm_changing_status := b\<rparr>)) s) = made j s"
    and ready_status: "inv s \<Longrightarrow> i < nof s \<Longrightarrow> ready j (upd_smod i (\<lambda>m. set_mstatus st (m\<lparr>nm_changing_status := b\<rparr>)) s) = ready j s"
    and Init_ok: "inv s \<Longrightarrow> i < nof s \<Longrightarrow> os_Init os i s = (n, s1) \<Longrightarrow>
      inv s1 \<and> same_control s s1 \<and> (n = 0 \<or> n = 1) \<and> made i s1 \<and> (n = 1 \<longrightarrow> ready i s1) \<and> ((\<forall>j < nof s. made j s) \<longrightarrow> n = 1)
      \<and> (\<forall>j. made j s \<longrightarrow> made j s1) \<and> (\<forall>j. ready j s \<longrightarrow> ready j s1)"
begin

text \<open>What holds while the thread is at module i in trial t.\<close>

definition pass :: "nat \<Rightarrow> nat \<Rightarrow> nat \<Rightarrow> 'e nstate \<Rightarrow> bool" where
  "pass i t k s \<longleftrightarrow> inv s \<and> i < nof s \<and> k = card (initiated s) \<and> (\<forall>j < nof s. nm_init (smod s j)) \<and> (\<forall>j < i. made j s)
     \<and> (\<forall>j < nof s. m_status (sparent s j) = INIT \<longrightarrow> ready j s \<and> made j s)
     \<and> (t = 0 \<or> t = 1 \<and> (\<forall>j < nof s. made j s) \<and> (\<forall>j < i. m_status (sparent s j) = INIT))"

lemma module_init_two:
  assumes "inv s" "i < nof s" "nm_init (smod s i)" "m_status (sparent s i) \<noteq> INIT" "nod_module_init os i s = (n, s1)"
  shows "inv s1 \<and> nw_nof_modules (ns_w s1) = nw_nof_modules (ns_w s) \<and> (n = 0 \<or> n = 1) \<and> made i s1 \<and> (n = 1 \<longrightarrow> ready i s1)
    \<and> ((\<forall>j < nof s. made j s) \<longrightarrow> n = 1) \<and> (\<forall>j. made j s \<longrightarrow> made j s1) \<and> (\<forall>j. ready j s \<longrightarrow> ready j s1)
    \<and> (\<forall>j < nof s. nm_init (smod s1 j) = nm_init (smod s j))
    \<and> (\<forall>j < nof s. m_status (sparent s1 j) = (if j = i \<and> n = 1 then INIT else m_status (sparent s j)))"
proof -
  let ?s = "upd_smod i (\<lambda>m. m\<lparr>nm_changing_status := True\<rparr>) s"
  obtain r s2 where r: "os_Init os i ?s = (r, s2)" by (cases "os_Init os i ?s")
  have i: "inv ?s" "i < nof ?s" using inv_flag [OF assms(1,2)] assms(2) by simp_all
  note ok = Init_ok [OF i r]
  have wf: "node_wf (ns_w s)" "node_wf (ns_w s2)" using inv_wf assms(1) ok by auto
  have pre: "control (smod ?s j) = (if j = i then control ((smod s i)\<lparr>nm_changing_status := True\<rparr>) else control (smod s j))" for j
    using wf(1) assms(2) by (simp add: node_simps)
  have nof: "nw_nof_modules (ns_w s2) = nw_nof_modules (ns_w s)" "\<And>j. j < nof s \<Longrightarrow> control (smod s2 j) = control (smod ?s j)"
    using ok by (auto simp: same_control_def)
  have c2: "m_status (sparent s2 j) = m_status (sparent s j)" "nm_init (smod s2 j) = nm_init (smod s j)" if "j < nof s" for j
    using nof(2) [OF that] pre [of j] by (auto simp: control_def split: if_splits)
  have mm: "made j ?s = made j s" "ready j ?s = ready j s" for j using made_flag ready_flag assms(1,2) by blast+
  have i2: "i < nof s2" using nof assms(2) by simp
  have eq: "(n, s1) = (if r < 0 then (-1, s2) else if r = 0 then (0, s2)
      else (1, upd_smod i (\<lambda>m. set_mstatus INIT (m\<lparr>nm_changing_status := False\<rparr>)) s2))"
    using assms(3,5) unfolding nod_module_init_def call_init_def by (simp only: r prod.case Let_def if_True if_False not_True_eq_False)
  consider "r = 0" "n = 0" "s1 = s2" | "r = 1" "n = 1" "s1 = upd_smod i (\<lambda>m. set_mstatus INIT (m\<lparr>nm_changing_status := False\<rparr>)) s2"
    using ok eq by auto
  then show ?thesis
  proof cases
    case 1
    then show ?thesis using ok mm nof(1) c2 by auto
  next
    case 2
    have "inv s1" "\<And>j. made j s1 = made j s2" "\<And>j. ready j s1 = ready j s2"
      using inv_status made_status ready_status ok i2 2 by blast+
    moreover have "m_status (sparent s1 j) = (if j = i then INIT else m_status (sparent s j))" "nm_init (smod s1 j) = nm_init (smod s j)"
      if "j < nof s" for j using 2 wf(2) i2 c2 [OF that] by (simp_all add: node_simps)
    ultimately show ?thesis using ok mm nof(1) 2 by auto
  qed
qed

lemma pass_step:
  assumes p: "pass i t k s" and e: "(if m_status (sparent s i) \<noteq> INIT then nod_module_init os i s else (0, s)) = (n, s1)"
  shows "0 \<le> n" "nw_nof_modules (ns_w s1) = nw_nof_modules (ns_w s)"
    "i + 1 < nof s \<Longrightarrow> pass (i + 1) t (if n > 0 then k + 1 else k) s1"
    "i + 1 = nof s \<Longrightarrow> t = 0 \<Longrightarrow> pass 0 1 (if n > 0 then k + 1 else k) s1"
    "i + 1 = nof s \<Longrightarrow> t = 1 \<Longrightarrow> inv s1 \<and> (\<forall>j < nof s. ready j s1 \<and> m_status (sparent s1 j) = INIT) \<and> (if n > 0 then k + 1 else k) = nof s1"
proof -
  let ?k = "if n > 0 then k + 1 else k"
  have q: "inv s1 \<and> nw_nof_modules (ns_w s1) = nw_nof_modules (ns_w s) \<and> 0 \<le> n \<and> made i s1 \<and> ?k = card (initiated s1)
    \<and> (\<forall>j. made j s \<longrightarrow> made j s1) \<and> (\<forall>j < nof s. nm_init (smod s1 j))
    \<and> (\<forall>j < nof s. m_status (sparent s1 j) = INIT \<longrightarrow> ready j s1 \<and> made j s1)
    \<and> (\<forall>j < nof s. m_status (sparent s j) = INIT \<longrightarrow> m_status (sparent s1 j) = INIT)
    \<and> ((\<forall>j < nof s. made j s) \<longrightarrow> m_status (sparent s1 i) = INIT)"
  proof (cases "m_status (sparent s i) = INIT")
    case True
    then show ?thesis using p e by (auto simp: pass_def)
  next
    case False
    have i: "inv s" "i < nof s" "nm_init (smod s i)" using p by (auto simp: pass_def)
    have r: "nod_module_init os i s = (n, s1)" using e False by simp
    note m = module_init_two [OF i False r]
    have "initiated s1 = (if n = 1 then insert i (initiated s) else initiated s)" using m i by (auto simp: initiated_def)
    moreover have "i \<notin> initiated s" using False by (simp add: initiated_def)
    ultimately have k: "?k = card (initiated s1)" using p m by (auto simp: pass_def)
    have j: "ready j s1 \<and> made j s1" if "j < nof s" "m_status (sparent s1 j) = INIT" for j
      using m p that by (cases "j = i"; cases "n = 1") (auto simp: pass_def)
    show ?thesis using m p k j i False by (auto simp: pass_def)
  qed
  show "0 \<le> n" "nw_nof_modules (ns_w s1) = nw_nof_modules (ns_w s)" using q by auto
  have lt: "j < i + 1 \<longleftrightarrow> j < i \<or> j = i" for j by auto
  show "pass (i + 1) t ?k s1" if "i + 1 < nof s" unfolding pass_def lt using that q p by (auto simp: pass_def)
  show "pass 0 1 ?k s1" if "i + 1 = nof s" "t = 0"
  proof -
    have "made j s1" if "j < nof s" for j using that \<open>i + 1 = nof s\<close> q p by (cases "j = i") (auto simp: pass_def)
    then show ?thesis using that q by (auto simp: pass_def)
  qed
  show "inv s1 \<and> (\<forall>j < nof s. ready j s1 \<and> m_status (sparent s1 j) = INIT) \<and> ?k = nof s1" if "i + 1 = nof s" "t = 1"
  proof -
    have "m_status (sparent s1 j) = INIT" if "j < nof s" for j using that \<open>i + 1 = nof s\<close> \<open>t = 1\<close> q p by (cases "j = i") (auto simp: pass_def)
    then show ?thesis using q all_initiated [of s1] by auto
  qed
qed

lemma init_loop_two:
  "pass i t k s \<Longrightarrow> \<exists>s'. init_loop os i t k s = Some (True, s') \<and> inv s' \<and> nof s' = nof s
    \<and> (\<forall>j < nof s. ready j s' \<and> m_status (sparent s' j) = INIT)"
proof (induction "(2 - t) * nof s - i" arbitrary: i t k s rule: less_induct)
  case less
  obtain n s1 where e: "(if m_status (sparent s i) \<noteq> INIT then nod_module_init os i s else (0, s)) = (n, s1)"
    by (cases "if m_status (sparent s i) \<noteq> INIT then nod_module_init os i s else (0, s)")
  let ?k = "if n > 0 then k + 1 else k"
  note st = pass_step [OF less.prems e]
  have p: "i < nof s" "k = card (initiated s)" "inv s" "t = 0 \<or> t = 1" using less.prems by (auto simp: pass_def)
  have unf: "init_loop os i t k s = (if int k < nw_nof_modules (ns_w s) then
      (if i + 1 = nof s then init_loop os 0 (t + 1) ?k s1 else init_loop os (i + 1) t ?k s1) else Some (True, s))"
    using st(1,2) p(1,4) e by (subst init_loop.simps) auto
  show ?case
  proof (cases "int k < nw_nof_modules (ns_w s)")
    case False
    then have "card (initiated s) = nof s" using p initiated_le [of s] by linarith
    then show ?thesis using False unf p less.prems by (auto simp: all_initiated pass_def)
  next
    case k: True
    have m: "(2 - t) * nof s1 - (i + 1) < (2 - t) * nof s - i" "t = 0 \<Longrightarrow> (2 - (t + 1)) * nof s1 < (2 - t) * nof s - i"
      using p st(2) by auto
    consider "i + 1 < nof s" | "i + 1 = nof s" "t = 0" | "i + 1 = nof s" "t = 1" using p by linarith
    then show ?thesis
    proof cases
      case 1
      then show ?thesis using less.hyps [OF m(1) st(3)] unf k st(2) by auto
    next
      case 2
      then show ?thesis using less.hyps [of 1 s1 0 ?k] m(2) st(4) unf k st(2) by auto
    next
      case 3
      then have "init_loop os 0 (t + 1) ?k s1 = Some (True, s1)" using st(2,5) by (subst init_loop.simps) auto
      then show ?thesis using 3 unf k st(2,5) by auto
    qed
  qed
qed

lemma init_thread_two:
  assumes "inv s" "\<forall>j < nof s. nm_init (smod s j) \<and> m_status (sparent s j) \<noteq> INIT"
  shows "\<exists>s'. nod_waveform_status_init_thread os s = Some (True, s') \<and> inv s' \<and> nof s' = nof s
    \<and> (\<forall>j < nof s. ready j s' \<and> m_status (sparent s' j) = INIT)"
proof (cases "nof s = 0")
  case True
  then show ?thesis using assms unfolding nod_waveform_status_init_thread_def by (subst init_loop.simps) auto
next
  case False
  then have "pass 0 0 0 s" using assms by (auto simp: pass_def initiated_def)
  then show ?thesis unfolding nod_waveform_status_init_thread_def by (rule init_loop_two)
qed

end

section \<open>Wiring\<close>

text \<open>What the creation of interfaces depends on and keeps: of the interfaces all but the
  address of the queue.\<close>

definition shape :: "interface_t list option \<Rightarrow> interface_t list option" where
  "shape = map_option (map (\<lambda>x. x\<lparr>i_hw_itf := 0\<rparr>))"

definition core :: "nod_module_t \<Rightarrow> int \<times> interface_t list option \<times> interface_t list option \<times> int \<times> int \<times> bool" where
  "core m = (m_id (nm_parent m), shape (m_inputs (nm_parent m)), shape (m_outputs (nm_parent m)), m_nof_inputs (nm_parent m),
     m_nof_outputs (nm_parent m), nm_context m = None)"

definition frame :: "'e api \<Rightarrow> 'e api \<Rightarrow> bool" where
  "frame a b \<longleftrightarrow> map_option length (nw_modules (ns_w (ap_n b))) = map_option length (nw_modules (ns_w (ap_n a)))
     \<and> nw_nof_modules (ns_w (ap_n b)) = nw_nof_modules (ns_w (ap_n a)) \<and> (\<forall>j. core (amod b j) = core (amod a j))"

text \<open>Every input of a module is fed by an output that the skeleton of another module creates.\<close>

definition wired :: "(nat \<Rightarrow> skel_cfg) \<Rightarrow> 'e api \<Rightarrow> bool" where
  "wired cfg a \<longleftrightarrow> node_wf (ns_w (ap_n a)) \<and> (\<forall>i < nof (ap_n a). \<not> nm_context (amod a i) = None
     \<and> check_configuration (cfg i) = 0 \<and> m_nof_inputs (aparent a i) = int (nof_input_itf (cfg i))
     \<and> (\<forall>p < nof_output_itf (cfg i). valid_itf (ITF_WRITE, i, p) a \<and> int p < m_nof_outputs (aparent a i)
          \<and> i_physic_itf_id (itf_elem (ITF_WRITE, i, p) a) = 0)
     \<and> (\<forall>r < nof_input_itf (cfg i). \<exists>tx p. tx < nof (ap_n a) \<and> p < nof_output_itf (cfg tx) \<and> connected tx p i r a))"

lemma frame_refl [simp]: "frame a a"
  by (simp add: frame_def)

lemma frame_trans: "frame a b \<Longrightarrow> frame b c \<Longrightarrow> frame a c"
  by (simp add: frame_def)

lemma shape_length: "shape x = shape y \<Longrightarrow> map_option length x = map_option length y"
  by (cases x; cases y) (auto simp: shape_def dest: map_eq_imp_length_eq)

lemma shape_elem:
  assumes "shape x = shape y" "y = Some ys" "p < length ys"
  shows "(get_elem p x)\<lparr>i_hw_itf := 0\<rparr> = (get_elem p y)\<lparr>i_hw_itf := 0\<rparr>"
proof -
  obtain xs where x: "x = Some xs" "map (\<lambda>x. x\<lparr>i_hw_itf := 0\<rparr>) xs = map (\<lambda>x. x\<lparr>i_hw_itf := 0\<rparr>) ys"
    using assms by (auto simp: shape_def)
  then have "length xs = length ys" by (metis length_map)
  then show ?thesis using assms x(1) nth_map [of p xs "\<lambda>x. x\<lparr>i_hw_itf := 0\<rparr>"] nth_map [of p ys "\<lambda>x. x\<lparr>i_hw_itf := 0\<rparr>"] x(2)
    by (simp add: get_elem_def)
qed

lemma itf_array_frame: "frame a b \<Longrightarrow> shape (itf_array md (aparent b i)) = shape (itf_array md (aparent a i))"
  by (cases md) (auto simp: frame_def core_def itf_array_def)

lemma valid_itf_frame:
  assumes "frame a b"
  shows "valid_itf h b = valid_itf h a"
proof -
  obtain md i p where h: "h = (md, i, p)" by (cases h)
  have "map_option length (itf_array md (aparent b i)) = map_option length (itf_array md (aparent a i))"
    by (rule shape_length [OF itf_array_frame [OF assms]])
  then show ?thesis using assms
    by (cases "nw_modules (ns_w (ap_n a))"; cases "nw_modules (ns_w (ap_n b))"; cases "itf_array md (aparent a i)"; cases "itf_array md (aparent b i)")
      (simp_all add: h frame_def valid_itf_def)
qed

lemma itf_elem_frame:
  assumes "frame a b" "valid_itf h a"
  shows "i_remote_module_id (itf_elem h b) = i_remote_module_id (itf_elem h a)" "i_remote_port_idx (itf_elem h b) = i_remote_port_idx (itf_elem h a)"
    "i_physic_itf_id (itf_elem h b) = i_physic_itf_id (itf_elem h a)" "i_delay (itf_elem h b) = i_delay (itf_elem h a)"
proof -
  obtain md i p where h: "h = (md, i, p)" by (cases h)
  obtain xs where x: "itf_array md (aparent a i) = Some xs" "p < length xs" using assms(2) by (auto simp: valid_itf_def h split: option.splits)
  have "(itf_elem h b)\<lparr>i_hw_itf := 0\<rparr> = (itf_elem h a)\<lparr>i_hw_itf := 0\<rparr>"
    using shape_elem [OF itf_array_frame [OF assms(1), of md i] x] by (simp add: h itf_elem_def)
  then show "i_remote_module_id (itf_elem h b) = i_remote_module_id (itf_elem h a)" "i_remote_port_idx (itf_elem h b) = i_remote_port_idx (itf_elem h a)"
    "i_physic_itf_id (itf_elem h b) = i_physic_itf_id (itf_elem h a)" "i_delay (itf_elem h b) = i_delay (itf_elem h a)"
    by (metis interface_t.select_convs interface_t.surjective interface_t.update_convs)+
qed

lemma connected_frame:
  assumes "frame a b"
  shows "connected tx p rx r b = connected tx p rx r a"
proof -
  have m: "array_ok (nw_modules (ns_w (ap_n b))) n = array_ok (nw_modules (ns_w (ap_n a))) n" for n
    using assms by (intro array_ok_length) (simp add: frame_def)
  have o: "array_ok (m_outputs (aparent b j)) n = array_ok (m_outputs (aparent a j)) n" for j n
    using shape_length [OF itf_array_frame [OF assms, of ITF_WRITE j]] by (intro array_ok_length) (simp add: itf_array_def)
  have i: "array_ok (m_inputs (aparent b j)) n = array_ok (m_inputs (aparent a j)) n" for j n
    using shape_length [OF itf_array_frame [OF assms, of ITF_READ j]] by (intro array_ok_length) (simp add: itf_array_def)
  have c: "m_id (aparent b j) = m_id (aparent a j)" "m_nof_outputs (aparent b j) = m_nof_outputs (aparent a j)"
    "m_nof_inputs (aparent b j) = m_nof_inputs (aparent a j)" "nw_nof_modules (ns_w (ap_n b)) = nw_nof_modules (ns_w (ap_n a))" for j
    using assms by (auto simp: frame_def core_def)
  show ?thesis
  proof (cases "valid_itf (ITF_WRITE, tx, p) a \<and> valid_itf (ITF_READ, rx, r) a")
    case True
    then show ?thesis using itf_elem_frame [OF assms] by (simp add: connected_def valid_itf_frame [OF assms] m o i c)
  next
    case False
    then show ?thesis by (auto simp: connected_def valid_itf_frame [OF assms])
  qed
qed

lemma wired_frame:
  assumes "frame a b" "wired cfg a"
  shows "wired cfg b"
proof -
  have n: "node_wf (ns_w (ap_n b)) = node_wf (ns_w (ap_n a))"
    using assms(1) by (cases "nw_modules (ns_w (ap_n a))"; cases "nw_modules (ns_w (ap_n b))") (simp_all add: frame_def node_wf_def)
  have c: "m_nof_outputs (aparent b j) = m_nof_outputs (aparent a j)" "nm_context (amod b j) = None \<longleftrightarrow> nm_context (amod a j) = None"
    "m_nof_inputs (aparent b j) = m_nof_inputs (aparent a j)" "nof (ap_n b) = nof (ap_n a)" for j
    using assms(1) by (auto simp: frame_def core_def)
  have e: "i_physic_itf_id (itf_elem (ITF_WRITE, i, p) b) = 0"
    if "valid_itf (ITF_WRITE, i, p) a" "i_physic_itf_id (itf_elem (ITF_WRITE, i, p) a) = 0" for i p
    using itf_elem_frame(3) [OF assms(1) that(1)] that by simp
  show ?thesis
    using assms(2) unfolding wired_def c n connected_frame [OF assms(1)] valid_itf_frame [OF assms(1)] by (meson e)
qed

lemma wired_context: "wired cfg a \<Longrightarrow> i < nof (ap_n a) \<Longrightarrow> \<exists>cx. nm_context (amod a i) = Some cx"
  by (simp add: wired_def)

lemma wired_input: "wired cfg a \<Longrightarrow> i < nof (ap_n a) \<Longrightarrow> r < nof_input_itf (cfg i) \<Longrightarrow>
    \<exists>tx p. tx < nof (ap_n a) \<and> p < nof_output_itf (cfg tx) \<and> connected tx p i r a"
  by (simp add: wired_def)

text \<open>The operations on the state that Init uses are frames.\<close>

lemma amod_skel [simp]:
  "ns_w (ap_n (upd_skel i f s)) = ns_w (ap_n s)" "ap_queues (upd_skel i f s) = ap_queues s"
  "ap_spscq_id (upd_skel i f s) = ap_spscq_id s" "ap_physic (upd_skel i f s) = ap_physic s"
  "skel_of j (upd_skel i f s) = (if j = i then f (skel_of i s) else skel_of j s)"
  "ns_c (ap_n (upd_skel i f s)) = ns_c (ap_n s)"
  by (simp_all add: upd_skel_def skel_of_def)

lemma skel_of_upds [simp]:
  "skel_of j (upd_itf h f s) = skel_of j s" "skel_of j (oesr_error_set e i s) = skel_of j s"
  "skel_of j (s\<lparr>ap_queues := x\<rparr>) = skel_of j s" "skel_of j (s\<lparr>ap_spscq_id := y\<rparr>) = skel_of j s"
  by (simp_all add: skel_of_def upd_itf_def oesr_error_set_def upd_aparent_def upd_amod_def upd_smod_def split: prod.split)

lemma itf_elem_skel [simp]: "itf_elem h (upd_skel i f s) = itf_elem h s"
  by (simp add: itf_elem_def)

lemma frame_skel [simp]: "frame s (upd_skel i f s)"
  by (simp add: frame_def)

lemma frame_queues [simp]: "frame s (s\<lparr>ap_queues := x\<rparr>)" "frame s (s\<lparr>ap_spscq_id := y\<rparr>)"
  by (simp_all add: frame_def)

lemma amod_upd_keep:
  assumes "\<And>m. g (f m) = g m"
  shows "g (amod (upd_amod i f s) j) = g (amod s j)"
proof (cases "j = i \<and> (\<exists>ms. nw_modules (ns_w (ap_n s)) = Some ms \<and> i < length ms)")
  case True
  then show ?thesis using assms by (auto simp: amod_upd_same)
next
  case False
  then have "amod (upd_amod i f s) j = amod s j"
    by (cases "j = i"; cases "nw_modules (ns_w (ap_n s))")
      (simp_all add: amod_upd_other, simp_all add: upd_amod_def upd_smod_def upd_nmod_def nmod_def upd_elem_def list_update_beyond)
  then show ?thesis by simp
qed

lemma frame_upd_amod: "(\<And>m. core (f m) = core m) \<Longrightarrow> frame s (upd_amod i f s)"
  by (simp add: frame_def option.map_comp comp_def amod_upd_keep)

lemma control_upd_amod:
  assumes "node_wf (ns_w (ap_n s))" "\<And>m. control (f m) = control m"
  shows "same_control (ap_n s) (ap_n (upd_amod i f s))"
  using assms amod_upd_keep [of control f i s] by (simp add: same_control_def rtdal_time_slot_def upd_amod_def)

lemma frame_error [simp]: "frame s (oesr_error_set e i s)"
  unfolding oesr_error_set_def by (rule frame_upd_amod) (simp add: core_def)

lemma shape_upd: "shape (upd_elem p ((get_elem p x)\<lparr>i_hw_itf := v\<rparr>) x) = shape x"
proof (cases x)
  case (Some xs)
  then show ?thesis
    by (cases "p < length xs") (simp_all add: shape_def upd_elem_def get_elem_def map_update list_update_beyond, metis list_update_id nth_map)
qed (simp add: shape_def upd_elem_def)

lemma frame_hw [simp]: "frame s (upd_itf h (\<lambda>x. x\<lparr>i_hw_itf := v\<rparr>) s)"
proof -
  obtain md i p where h: "h = (md, i, p)" by (cases h)
  show ?thesis unfolding h upd_itf_def upd_aparent_def prod.case
    by (cases md) (rule frame_upd_amod, simp add: core_def shape_upd)+
qed

section \<open>The invariant of initialisation\<close>

text \<open>The handles of the skeleton of module i, once its memory is initialised.\<close>

definition eout :: "nat \<Rightarrow> nat \<Rightarrow> 'u sk_state \<Rightarrow> itf_h option" where
  "eout i p a = (if sk_mem_ok (skel_of i a) then sk_outputs (skel_of i a) ! p else None)"

definition ein :: "nat \<Rightarrow> nat \<Rightarrow> 'u sk_state \<Rightarrow> itf_h option" where
  "ein i r a = (if sk_mem_ok (skel_of i a) then sk_inputs (skel_of i a) ! r else None)"

definition outs_ok :: "(nat \<Rightarrow> skel_cfg) \<Rightarrow> 'u sk_state \<Rightarrow> bool" where
  "outs_ok cfg a \<longleftrightarrow> (\<forall>i < nof (ap_n a). \<forall>p < nof_output_itf (cfg i).
     (eout i p a = None \<and> hw (ITF_WRITE, i, p) a = 0)
     \<or> (eout i p a = Some (ITF_WRITE, i, p) \<and> hw (ITF_WRITE, i, p) a \<noteq> 0 \<and> hw (ITF_WRITE, i, p) a \<in> dom (ap_queues a)))"

definition outs_inj :: "(nat \<Rightarrow> skel_cfg) \<Rightarrow> 'u sk_state \<Rightarrow> bool" where
  "outs_inj cfg a \<longleftrightarrow> (\<forall>i < nof (ap_n a). \<forall>p < nof_output_itf (cfg i). \<forall>j < nof (ap_n a). \<forall>q < nof_output_itf (cfg j).
     hw (ITF_WRITE, i, p) a = hw (ITF_WRITE, j, q) a \<longrightarrow> hw (ITF_WRITE, i, p) a = 0 \<or> i = j \<and> p = q)"

definition fed :: "(nat \<Rightarrow> skel_cfg) \<Rightarrow> nat \<Rightarrow> nat \<Rightarrow> 'u sk_state \<Rightarrow> bool" where
  "fed cfg i r a \<longleftrightarrow> (\<exists>tx < nof (ap_n a). \<exists>p < nof_output_itf (cfg tx). connected tx p i r a
     \<and> hw (ITF_READ, i, r) a = hw (ITF_WRITE, tx, p) a \<and> hw (ITF_WRITE, tx, p) a \<noteq> 0)"

definition ins_ok :: "(nat \<Rightarrow> skel_cfg) \<Rightarrow> 'u sk_state \<Rightarrow> bool" where
  "ins_ok cfg a \<longleftrightarrow> (\<forall>i < nof (ap_n a). \<forall>r < nof_input_itf (cfg i).
     ein i r a = None \<or> ein i r a = Some (ITF_READ, i, r) \<and> fed cfg i r a)"

definition sizes_ok :: "'u sk_state \<Rightarrow> bool" where
  "sizes_ok a \<longleftrightarrow> (\<forall>i < nof (ap_n a). sk_mem_ok (skel_of i a) \<longrightarrow>
     length (sk_inputs (skel_of i a)) = MAX_INPUTS \<and> length (sk_outputs (skel_of i a)) = MAX_OUTPUTS)"

text \<open>There is memory for M queues, counting those that exist and the outputs without one.\<close>

definition unmade :: "(nat \<Rightarrow> skel_cfg) \<Rightarrow> 'u sk_state \<Rightarrow> (nat \<times> nat) set" where
  "unmade cfg a = {(i, p). i < nof (ap_n a) \<and> p < nof_output_itf (cfg i) \<and> eout i p a = None}"

definition room :: "nat \<Rightarrow> (nat \<Rightarrow> skel_cfg) \<Rightarrow> 'u sk_state \<Rightarrow> bool" where
  "room M cfg a \<longleftrightarrow> card (dom (ap_queues a)) + card (unmade cfg a) \<le> M"

definition init_inv :: "nat \<Rightarrow> (nat \<Rightarrow> skel_cfg) \<Rightarrow> 'u sk_state \<Rightarrow> bool" where
  "init_inv M cfg a \<longleftrightarrow> wired cfg a \<and> room M cfg a \<and> outs_ok cfg a \<and> outs_inj cfg a \<and> ins_ok cfg a \<and> sizes_ok a"

definition outs_made :: "(nat \<Rightarrow> skel_cfg) \<Rightarrow> nat \<Rightarrow> 'u sk_state \<Rightarrow> bool" where
  "outs_made cfg i a \<longleftrightarrow> (\<forall>p < nof_output_itf (cfg i). eout i p a \<noteq> None)"

definition ins_made :: "(nat \<Rightarrow> skel_cfg) \<Rightarrow> nat \<Rightarrow> 'u sk_state \<Rightarrow> bool" where
  "ins_made cfg i a \<longleftrightarrow> (\<forall>r < nof_input_itf (cfg i). ein i r a \<noteq> None)"

text \<open>What a step of Init keeps: the wiring, the fields that the node manages and the handles
  that exist.\<close>

definition grow :: "(nat \<Rightarrow> skel_cfg) \<Rightarrow> 'u sk_state \<Rightarrow> 'u sk_state \<Rightarrow> bool" where
  "grow cfg a b \<longleftrightarrow> frame a b \<and> same_control (ap_n a) (ap_n b)
     \<and> (\<forall>i. sk_mem_ok (skel_of i a) \<longrightarrow> sk_mem_ok (skel_of i b))
     \<and> (\<forall>i p. p < nof_output_itf (cfg i) \<longrightarrow> eout i p a \<noteq> None \<longrightarrow> eout i p b \<noteq> None)
     \<and> (\<forall>i r. r < nof_input_itf (cfg i) \<longrightarrow> ein i r a \<noteq> None \<longrightarrow> ein i r b \<noteq> None)"

lemma frame_nof [simp]: "frame a b \<Longrightarrow> nof (ap_n b) = nof (ap_n a)"
  by (simp add: frame_def)

lemma grow_refl: "wired cfg a \<Longrightarrow> grow cfg a a"
  by (simp add: grow_def same_control_refl wired_def)

lemma grow_trans: "grow cfg a b \<Longrightarrow> grow cfg b c \<Longrightarrow> grow cfg a c"
  unfolding grow_def by (meson frame_trans same_control_trans)

lemma grow_nof: "grow cfg a b \<Longrightarrow> nof (ap_n b) = nof (ap_n a)"
  by (simp add: grow_def)

lemma queues_error [simp]: "ap_queues (oesr_error_set e i s) = ap_queues s"
  by (simp add: oesr_error_set_def)

lemma hw_error [simp]: "itf_elem h (oesr_error_set e i s) = itf_elem h s"
  by (cases h) (simp add: itf_elem_def oesr_error_set_def amod_upd_keep [where g = nm_parent])

text \<open>Steps that leave the interfaces alone.\<close>

definition handles_same :: "(nat \<Rightarrow> skel_cfg) \<Rightarrow> 'u sk_state \<Rightarrow> 'u sk_state \<Rightarrow> bool" where
  "handles_same cfg a b \<longleftrightarrow> (\<forall>i < nof (ap_n a). (\<forall>p < nof_output_itf (cfg i). eout i p b = eout i p a) \<and> (\<forall>r < nof_input_itf (cfg i). ein i r b = ein i r a))"

lemma unmade_same: "handles_same cfg a b \<Longrightarrow> frame a b \<Longrightarrow> unmade cfg b = unmade cfg a"
  by (auto simp: unmade_def handles_same_def)

lemma finite_unmade [simp]: "finite (unmade cfg a)"
proof -
  have "unmade cfg a \<subseteq> (SIGMA i : {..<nof (ap_n a)}. {..<nof_output_itf (cfg i)})" by (auto simp: unmade_def)
  then show ?thesis by (rule finite_subset) simp
qed

lemma init_inv_same:
  assumes "init_inv M cfg a" "frame a b" "\<And>h. itf_elem h b = itf_elem h a" "ap_queues b = ap_queues a" "handles_same cfg a b" "sizes_ok b"
  shows "init_inv M cfg b"
  using assms wired_frame [OF assms(2)] unmade_same [OF assms(5,2)]
  by (simp add: init_inv_def room_def outs_ok_def outs_inj_def ins_ok_def fed_def connected_frame handles_same_def)

section \<open>Outputs\<close>

definition addr_ok :: "nat \<Rightarrow> ('u sk_state \<Rightarrow> cptr) \<Rightarrow> bool" where
  "addr_ok M addr \<longleftrightarrow> (\<forall>s. card (dom (ap_queues s)) < M \<longrightarrow> addr s \<noteq> 0 \<and> addr s \<notin> dom (ap_queues s))"

lemma config_max: "wired cfg a \<Longrightarrow> i < nof (ap_n a) \<Longrightarrow> nof_input_itf (cfg i) \<le> MAX_INPUTS \<and> nof_output_itf (cfg i) \<le> MAX_OUTPUTS"
  by (auto simp: wired_def check_configuration_def split: if_splits)

lemma control_upd_itf:
  "node_wf (ns_w (ap_n s)) \<Longrightarrow> same_control (ap_n s) (ap_n (upd_itf h (\<lambda>x. x\<lparr>i_hw_itf := v\<rparr>) s))"
  by (cases h) (auto simp: upd_itf_def upd_aparent_def control_def intro!: control_upd_amod split: oesr_itf_mode_t.split)

lemma create_output_step:
  assumes inv: "init_inv M cfg a" and i: "i < nof (ap_n a)" "p < nof_output_itf (cfg i)" "sk_mem_ok (skel_of i a)" "eout i p a = None"
    and v: "v \<noteq> 0" "v \<notin> dom (ap_queues a)"
  obtains b c where "oesr_itf_create v (int p) ITF_WRITE sz i a = Some (Some (ITF_WRITE, i, p), b)"
    "c = upd_skel i (\<lambda>k. k\<lparr>sk_outputs := (sk_outputs k)[p := Some (ITF_WRITE, i, p)]\<rparr>) b"
    "init_inv M cfg c" "grow cfg a c" "eout i p c \<noteq> None"
proof -
  let ?h = "(ITF_WRITE, i, p)" let ?d = "i_delay (itf_elem ?h a)"
  obtain q where q: "rtdal_itfspscq_new (ap_spscq_id a) True (nat (itf_nof_msg sz ?d)) (nat sz) ?d = (Some q, ap_spscq_id a + 1)"
    by (simp add: rtdal_itfspscq_new_def)
  define a0 where "a0 = a\<lparr>ap_spscq_id := ap_spscq_id a + 1, ap_queues := (ap_queues a)(v \<mapsto> q)\<rparr>"
  define b where "b = upd_itf ?h (\<lambda>x. x\<lparr>i_hw_itf := v\<rparr>) a0"
  have w: "wired cfg a" and wf: "node_wf (ns_w (ap_n a))" using inv by (simp_all add: init_inv_def wired_def)
  have va: "valid_itf ?h a" "int p < m_nof_outputs (aparent a i)" "i_physic_itf_id (itf_elem ?h a) = 0"
    using w i by (simp_all add: wired_def)
  have create: "oesr_itf_create v (int p) ITF_WRITE sz i a = Some (Some ?h, b)"
    using va q v(1) by (simp add: oesr_itf_create_def nof_itf_def create_output_def a0_def b_def Let_def)
  have e0: "itf_elem h a0 = itf_elem h a" for h by (simp add: a0_def itf_elem_def)
  have "valid_itf ?h a0" using va(1) by (simp add: a0_def valid_itf_def cong: option.case_cong)
  note elem = itf_elem_upd [OF this]
  define c where "c = upd_skel i (\<lambda>k. k\<lparr>sk_outputs := (sk_outputs k)[p := Some ?h]\<rparr>) b"
  have hw: "hw h c = (if h = ?h then v else hw h a)" for h
    using elem [of h "\<lambda>x. x\<lparr>i_hw_itf := v\<rparr>"] by (simp add: b_def c_def e0)
  have fr: "frame a c" using frame_trans [of a a0 b] frame_trans [of a b c] frame_trans [of a "a\<lparr>ap_spscq_id := ap_spscq_id a + 1\<rparr>" a0]
    by (simp add: a0_def b_def c_def)
  have qs: "ap_queues c = (ap_queues a)(v \<mapsto> q)" by (simp add: c_def b_def a0_def)
  have k: "skel_of j b = skel_of j a" for j by (simp add: b_def a0_def)
  have len: "p < length (sk_outputs (skel_of i a))" using inv i config_max [OF w i(1)] by (simp add: init_inv_def sizes_ok_def)
  have eo: "eout j p' c = (if j = i \<and> p' = p then Some ?h else eout j p' a)" for j p' using i(3) len by (auto simp: eout_def c_def k nth_list_update)
  have ei: "ein j r c = ein j r a" for j r by (auto simp: ein_def c_def k)
  have ctl: "same_control (ap_n a) (ap_n c)"
    using wf control_upd_itf [of a0 ?h v] by (simp add: c_def b_def a0_def same_control_def rtdal_time_slot_def)
  have nofc: "nof (ap_n c) = nof (ap_n a)" using fr by simp
  have out: "eout j p' a = None \<and> hw (ITF_WRITE, j, p') a = 0
     \<or> eout j p' a = Some (ITF_WRITE, j, p') \<and> hw (ITF_WRITE, j, p') a \<noteq> 0 \<and> hw (ITF_WRITE, j, p') a \<in> dom (ap_queues a)"
    if "j < nof (ap_n a)" "p' < nof_output_itf (cfg j)" for j p' using inv that by (simp add: init_inv_def outs_ok_def)
  have h0: "hw ?h a = 0" using out [OF i(1,2)] i(4) by simp
  have fed: "fed cfg j r c" if f: "fed cfg j r a" for j r
  proof -
    obtain tx p' where t: "tx < nof (ap_n a)" "p' < nof_output_itf (cfg tx)" "connected tx p' j r a"
      "hw (ITF_READ, j, r) a = hw (ITF_WRITE, tx, p') a" "hw (ITF_WRITE, tx, p') a \<noteq> 0" using f by (auto simp: fed_def)
    then have "(ITF_WRITE, tx, p') \<noteq> ?h" using h0 by auto
    then show ?thesis using t unfolding fed_def nofc connected_frame [OF fr] by (auto simp: hw)
  qed
  have "outs_ok cfg c" unfolding outs_ok_def nofc
  proof (intro allI impI, goal_cases)
    case (1 j p')
    then show ?case using out [OF 1] v(1) by (cases "j = i \<and> p' = p") (auto simp: eo hw qs)
  qed
  moreover have "outs_inj cfg c" unfolding outs_inj_def nofc
  proof (intro allI impI, goal_cases)
    case (1 j p' j' q')
    have "hw (ITF_WRITE, j, p') a = hw (ITF_WRITE, j', q') a \<longrightarrow> hw (ITF_WRITE, j, p') a = 0 \<or> j = j' \<and> p' = q'"
      using inv 1 by (simp add: init_inv_def outs_inj_def)
    then show ?case using 1 out [OF 1(1,2)] out [OF 1(3,4)] v by (auto simp: hw split: if_splits)
  qed
  moreover have "ins_ok cfg c" using inv fed unfolding init_inv_def ins_ok_def nofc ei by blast
  moreover have "sizes_ok c" using inv unfolding sizes_ok_def nofc by (auto simp: init_inv_def sizes_ok_def c_def k)
  moreover have "room M cfg c"
  proof -
    have "unmade cfg c = unmade cfg a - {(i, p)}" using nofc by (auto simp: unmade_def eo)
    moreover have "(i, p) \<in> unmade cfg a" using i by (simp add: unmade_def)
    ultimately have "Suc (card (unmade cfg c)) = card (unmade cfg a)" using card_Suc_Diff1 [of "unmade cfg a" "(i, p)"] by simp
    moreover have "card (dom (ap_queues c)) = Suc (card (dom (ap_queues a)))" using v(2) by (simp add: qs)
    ultimately show ?thesis using inv by (simp add: init_inv_def room_def)
  qed
  ultimately have "init_inv M cfg c" using wired_frame [OF fr w] by (simp add: init_inv_def)
  moreover have "grow cfg a c" using fr ctl by (auto simp: grow_def eo ei) (auto simp: c_def k)
  moreover have "eout i p c \<noteq> None" by (simp add: eo)
  ultimately show ?thesis using that create c_def by blast
qed

lemma init_outputs_ok:
  assumes "addr_ok M addr"
  shows "init_inv M cfg a \<Longrightarrow> i < nof (ap_n a) \<Longrightarrow> sk_mem_ok (skel_of i a) \<Longrightarrow> set ps \<subseteq> {..<nof_output_itf (cfg i)} \<Longrightarrow>
    \<exists>b. init_outputs addr (cfg i) i ps a = Some (1, b) \<and> init_inv M cfg b \<and> grow cfg a b \<and> (\<forall>p \<in> set ps. eout i p b \<noteq> None)"
proof (induction ps arbitrary: a)
  case Nil
  then show ?case by (simp add: grow_refl init_inv_def)
next
  case (Cons p ps)
  have e: "eout i p a = sk_outputs (skel_of i a) ! p" using Cons.prems by (simp add: eout_def)
  obtain b where b: "init_outputs addr (cfg i) i (p # ps) a = init_outputs addr (cfg i) i ps b" "init_inv M cfg b" "grow cfg a b" "eout i p b \<noteq> None"
  proof (cases "eout i p a = None")
    case True
    have v: "addr a \<noteq> 0" "addr a \<notin> dom (ap_queues a)" if "card (dom (ap_queues a)) < M" using assms that by (simp_all add: addr_ok_def)
    have p: "p < nof_output_itf (cfg i)" using Cons.prems(4) by simp
    have "(i, p) \<in> unmade cfg a" using Cons.prems(2) p True by (simp add: unmade_def)
    then have "0 < card (unmade cfg a)" using card_gt_0_iff [of "unmade cfg a"] by auto
    then have "card (dom (ap_queues a)) < M" using Cons.prems(1) by (simp add: init_inv_def room_def)
    note v = v [OF this]
    obtain b c where c: "oesr_itf_create (addr a) (int p) ITF_WRITE (output_max_samples (cfg i) * output_sample_sz (cfg i)) i a
        = Some (Some (ITF_WRITE, i, p), b)" "c = upd_skel i (\<lambda>k. k\<lparr>sk_outputs := (sk_outputs k)[p := Some (ITF_WRITE, i, p)]\<rparr>) b"
      "init_inv M cfg c" "grow cfg a c" "eout i p c \<noteq> None"
      by (rule create_output_step [OF Cons.prems(1,2) p Cons.prems(3) True v])
    then have "init_outputs addr (cfg i) i (p # ps) a = init_outputs addr (cfg i) i ps c" using e True by simp
    then show ?thesis using that c by blast
  next
    case False
    then have "init_outputs addr (cfg i) i (p # ps) a = init_outputs addr (cfg i) i ps a" using e by simp
    then show ?thesis using that [OF _ Cons.prems(1)] False grow_refl Cons.prems(1) by (auto simp: init_inv_def)
  qed
  have pre: "i < nof (ap_n b)" "sk_mem_ok (skel_of i b)" "set ps \<subseteq> {..<nof_output_itf (cfg i)}"
    using Cons.prems b(3) grow_nof by (auto simp: grow_def)
  obtain d where d: "init_outputs addr (cfg i) i ps b = Some (1, d)" "init_inv M cfg d" "grow cfg b d" "\<forall>p \<in> set ps. eout i p d \<noteq> None"
    using Cons.IH [OF b(2) pre] by blast
  moreover have "eout i p d \<noteq> None" using d(3) b(4) Cons.prems(4) by (simp add: grow_def)
  ultimately show ?case using b(1) grow_trans [OF b(3) d(3)] by simp
qed

section \<open>Inputs\<close>

lemma attach_input_step:
  assumes inv: "init_inv M cfg a" and i: "i < nof (ap_n a)" "r < nof_input_itf (cfg i)" "sk_mem_ok (skel_of i a)"
    and t: "tx < nof (ap_n a)" "p < nof_output_itf (cfg tx)" "connected tx p i r a" "hw (ITF_WRITE, tx, p) a \<noteq> 0"
  obtains b c where "oesr_itf_create 0 (int r) ITF_READ sz i a = Some (Some (ITF_READ, i, r), b)"
    "c = upd_skel i (\<lambda>k. k\<lparr>sk_inputs := (sk_inputs k)[r := Some (ITF_READ, i, r)]\<rparr>) b"
    "init_inv M cfg c" "grow cfg a c" "ein i r c \<noteq> None" "ap_queues c = ap_queues a"
proof -
  let ?h = "(ITF_READ, i, r)" let ?v = "hw (ITF_WRITE, tx, p) a"
  define b where "b = upd_itf ?h (\<lambda>x. x\<lparr>i_hw_itf := ?v\<rparr>) a"
  define c where "c = upd_skel i (\<lambda>k. k\<lparr>sk_inputs := (sk_inputs k)[r := Some ?h]\<rparr>) b"
  have w: "wired cfg a" and wf: "node_wf (ns_w (ap_n a))" using inv by (simp_all add: init_inv_def wired_def)
  have va: "valid_itf ?h a" using t(3) by (simp add: connected_def)
  have create: "oesr_itf_create 0 (int r) ITF_READ sz i a = Some (Some ?h, b)"
    using t connected_ports [OF t(3)] find_connected [OF t(3)]
    by (simp add: oesr_itf_create_def attach_input_def nof_itf_def connected_def Let_def b_def)
  have hw: "hw h c = (if h = ?h then ?v else hw h a)" for h
    using itf_elem_upd [OF va, of h "\<lambda>x. x\<lparr>i_hw_itf := ?v\<rparr>"] by (simp add: b_def c_def)
  have fr: "frame a c" using frame_trans [of a b c] by (simp add: b_def c_def)
  have qs: "ap_queues c = ap_queues a" by (simp add: c_def b_def)
  have k: "skel_of j b = skel_of j a" for j by (simp add: b_def)
  have len: "r < length (sk_inputs (skel_of i a))" using inv i config_max [OF w i(1)] by (simp add: init_inv_def sizes_ok_def)
  have ei: "ein j r' c = (if j = i \<and> r' = r then Some ?h else ein j r' a)" for j r' using i(3) len by (auto simp: ein_def c_def k nth_list_update)
  have eo: "eout j r c = eout j r a" for j r by (auto simp: eout_def c_def k)
  have ctl: "same_control (ap_n a) (ap_n c)"
    using wf control_upd_itf [of a ?h ?v] by (simp add: c_def b_def same_control_def rtdal_time_slot_def)
  have nofc: "nof (ap_n c) = nof (ap_n a)" using fr by simp
  have new: "fed cfg i r c" using t unfolding fed_def nofc connected_frame [OF fr] by (auto simp: hw)
  have fed: "fed cfg j r' c" if f: "fed cfg j r' a" for j r'
  proof (cases "j = i \<and> r' = r")
    case True
    then show ?thesis using new by simp
  next
    case False
    then show ?thesis using f unfolding fed_def nofc connected_frame [OF fr] by (auto simp: hw)
  qed
  have "outs_ok cfg c" "outs_inj cfg c" using inv unfolding outs_ok_def outs_inj_def nofc by (simp_all add: init_inv_def outs_ok_def outs_inj_def eo hw qs)
  moreover have "ins_ok cfg c" unfolding ins_ok_def nofc
  proof (intro allI impI, goal_cases)
    case (1 j r')
    then have "ein j r' a = None \<or> ein j r' a = Some (ITF_READ, j, r') \<and> fed cfg j r' a" using inv by (simp add: init_inv_def ins_ok_def)
    then show ?case using new fed by (cases "j = i \<and> r' = r") (auto simp: ei)
  qed
  moreover have "sizes_ok c" using inv unfolding sizes_ok_def nofc by (auto simp: init_inv_def sizes_ok_def c_def k)
  moreover have "room M cfg c" using inv nofc by (simp add: qs init_inv_def room_def unmade_def eo)
  ultimately have "init_inv M cfg c" using wired_frame [OF fr w] by (simp add: init_inv_def)
  moreover have "grow cfg a c" using fr ctl by (auto simp: grow_def eo ei) (auto simp: c_def k)
  moreover have "ein i r c \<noteq> None" by (simp add: ei)
  ultimately show ?thesis using that create c_def qs by blast
qed

lemma not_ready_step:
  assumes inv: "init_inv M cfg a" and i: "i < nof (ap_n a)" "r < nof_input_itf (cfg i)" "sk_mem_ok (skel_of i a)" "ein i r a = None"
    and t: "connected tx p i r a" "hw (ITF_WRITE, tx, p) a = 0"
  obtains b c where "oesr_itf_create 0 (int r) ITF_READ sz i a = Some (None, b)"
    "c = upd_skel i (\<lambda>k. k\<lparr>sk_inputs := (sk_inputs k)[r := None]\<rparr>) b"
    "init_inv M cfg c" "grow cfg a c" "oesr_error_code i c = Some OESR_ERROR_NOTREADY"
proof -
  define b where "b = oesr_error_set OESR_ERROR_NOTREADY i a"
  define c where "c = upd_skel i (\<lambda>k. k\<lparr>sk_inputs := (sk_inputs k)[r := None]\<rparr>) b"
  have w: "wired cfg a" and wf: "node_wf (ns_w (ap_n a))" using inv by (simp_all add: init_inv_def wired_def)
  have fr: "frame a c" using frame_trans [of a b c] by (simp add: b_def c_def)
  have nofc: "nof (ap_n c) = nof (ap_n a)" using fr by simp
  have k: "skel_of j b = skel_of j a" for j by (simp add: b_def)
  have "(sk_inputs (skel_of i a))[r := None] = sk_inputs (skel_of i a)" using i(3,4) by (metis ein_def list_update_id)
  then have ei: "ein j r' c = ein j r' a" for j r' by (simp add: ein_def c_def k)
  have eo: "eout j r c = eout j r a" for j r by (auto simp: eout_def c_def k)
  have "init_inv M cfg c"
  proof (rule init_inv_same [OF inv fr])
    show "sizes_ok c" using inv unfolding sizes_ok_def nofc by (auto simp: init_inv_def sizes_ok_def c_def k)
  qed (simp_all add: handles_same_def ei eo, simp_all add: c_def b_def)
  moreover have "same_control (ap_n a) (ap_n c)"
    using wf control_upd_amod [of a "\<lambda>m. m\<lparr>nm_context := map_option (\<lambda>cx. cx\<lparr>cx_error := OESR_ERROR_NOTREADY\<rparr>) (nm_context m)\<rparr>" i]
    by (simp add: c_def b_def same_control_def rtdal_time_slot_def oesr_error_set_def control_def option.map_comp comp_def)
  then have "grow cfg a c" using fr by (auto simp: grow_def eo ei) (auto simp: c_def k)
  moreover have "oesr_error_code i c = Some OESR_ERROR_NOTREADY"
  proof -
    have "\<exists>ms. nw_modules (ns_w (ap_n a)) = Some ms \<and> i < length ms" using t(1) by (auto simp: connected_def valid_itf_def split: option.splits)
    then have "oesr_error_code i b = Some OESR_ERROR_NOTREADY"
      using wired_context [OF w i(1)] by (auto simp: b_def oesr_error_code_def oesr_error_set_def amod_upd_same)
    then show ?thesis by (simp add: c_def oesr_error_code_def)
  qed
  ultimately show ?thesis using that create_read_cases(1) [OF t, of 0 sz] b_def c_def by blast
qed

lemma init_inputs_ok:
  "init_inv M cfg a \<Longrightarrow> i < nof (ap_n a) \<Longrightarrow> sk_mem_ok (skel_of i a) \<Longrightarrow> set rs \<subseteq> {..<nof_input_itf (cfg i)} \<Longrightarrow>
    \<exists>n b. init_inputs (cfg i) i rs a = Some (n, b) \<and> (n = 0 \<or> n = 1) \<and> init_inv M cfg b \<and> grow cfg a b
      \<and> (n = 1 \<longrightarrow> (\<forall>r \<in> set rs. ein i r b \<noteq> None)) \<and> ((\<forall>j < nof (ap_n a). outs_made cfg j a) \<longrightarrow> n = 1)"
proof (induction rs arbitrary: a)
  case Nil
  then show ?case by (simp add: grow_refl init_inv_def)
next
  case (Cons r rs)
  have e: "ein i r a = sk_inputs (skel_of i a) ! r" and r: "r < nof_input_itf (cfg i)" using Cons.prems by (simp_all add: ein_def)
  obtain tx p where t: "tx < nof (ap_n a)" "p < nof_output_itf (cfg tx)" "connected tx p i r a"
    using wired_input [of cfg a i r] Cons.prems(1,2) r by (auto simp: init_inv_def)
  let ?sz = "input_max_samples (cfg i) * input_sample_sz (cfg i)"
  show ?case
  proof (cases "ein i r a = None \<and> hw (ITF_WRITE, tx, p) a = 0")
    case True
    then have n: "ein i r a = None" "hw (ITF_WRITE, tx, p) a = 0" by simp_all
    obtain b c where c: "oesr_itf_create 0 (int r) ITF_READ ?sz i a = Some (None, b)"
      "c = upd_skel i (\<lambda>k. k\<lparr>sk_inputs := (sk_inputs k)[r := None]\<rparr>) b"
      "init_inv M cfg c" "grow cfg a c" "oesr_error_code i c = Some OESR_ERROR_NOTREADY"
      by (rule not_ready_step [OF Cons.prems(1,2) r Cons.prems(3) n(1) t(3) n(2)])
    have "init_inputs (cfg i) i (r # rs) a = Some (0, c)" using c(1,2,5) e n(1) by simp
    moreover have "eout tx p a = None" using Cons.prems(1) t n(2) by (auto simp: init_inv_def outs_ok_def)
    then have "\<not> outs_made cfg tx a" using t(2) unfolding outs_made_def by blast
    ultimately show ?thesis using c(3,4) t(1) by auto
  next
    case False
    obtain b where b: "init_inputs (cfg i) i (r # rs) a = init_inputs (cfg i) i rs b" "init_inv M cfg b" "grow cfg a b" "ein i r b \<noteq> None"
    proof (cases "ein i r a = None")
      case True
      then have hw: "hw (ITF_WRITE, tx, p) a \<noteq> 0" using False by simp
      obtain b c where c: "oesr_itf_create 0 (int r) ITF_READ ?sz i a = Some (Some (ITF_READ, i, r), b)"
        "c = upd_skel i (\<lambda>k. k\<lparr>sk_inputs := (sk_inputs k)[r := Some (ITF_READ, i, r)]\<rparr>) b"
        "init_inv M cfg c" "grow cfg a c" "ein i r c \<noteq> None" "ap_queues c = ap_queues a"
        by (rule attach_input_step [OF Cons.prems(1,2) r Cons.prems(3) t hw])
      then have "init_inputs (cfg i) i (r # rs) a = init_inputs (cfg i) i rs c" using e True by simp
      then show ?thesis using that c by blast
    next
      case False
      then have "init_inputs (cfg i) i (r # rs) a = init_inputs (cfg i) i rs a" using e by simp
      then show ?thesis using that [OF _ Cons.prems(1)] False grow_refl Cons.prems(1) by (auto simp: init_inv_def)
    qed
    have pre: "i < nof (ap_n b)" "sk_mem_ok (skel_of i b)" "set rs \<subseteq> {..<nof_input_itf (cfg i)}"
      using Cons.prems b(3) grow_nof by (auto simp: grow_def)
    obtain n d where d: "init_inputs (cfg i) i rs b = Some (n, d)" "n = 0 \<or> n = 1" "init_inv M cfg d" "grow cfg b d"
      "n = 1 \<longrightarrow> (\<forall>r \<in> set rs. ein i r d \<noteq> None)" "(\<forall>j < nof (ap_n b). outs_made cfg j b) \<longrightarrow> n = 1"
      using Cons.IH [OF b(2) pre] by blast
    moreover have "ein i r d \<noteq> None" using d(4) b(4) r by (simp add: grow_def)
    moreover have "outs_made cfg j b" if "outs_made cfg j a" for j using that b(3) by (simp add: grow_def outs_made_def)
    ultimately show ?thesis using b(1) grow_trans [OF b(3) d(4)] grow_nof [OF b(3)] by auto
  qed
qed

section \<open>Init\<close>

text \<open>User code that returns success and leaves the interfaces and the skeleton to Init.\<close>

definition quiet :: "'u sk_state \<Rightarrow> 'u sk_state \<Rightarrow> bool" where
  "quiet s t \<longleftrightarrow> frame s t \<and> same_control (ap_n s) (ap_n t) \<and> (\<forall>h. itf_elem h t = itf_elem h s) \<and> ap_queues t = ap_queues s
     \<and> (\<forall>j. skel_of j t = skel_of j s)"

definition user_ok :: "'u user_code \<Rightarrow> bool" where
  "user_ok uc \<longleftrightarrow> (\<forall>i s. node_wf (ns_w (ap_n s)) \<longrightarrow> fst (uc_initialize uc i s) = 0 \<and> quiet s (snd (uc_initialize uc i s)))"

lemma handles_grow:
  assumes "frame a b" "same_control (ap_n a) (ap_n b)" "\<And>j. sk_mem_ok (skel_of j a) \<Longrightarrow> skel_of j b = skel_of j a"
  shows "grow cfg a b"
  using assms by (auto simp: grow_def eout_def ein_def split: if_splits)

lemma Init_memory_step:
  assumes inv: "init_inv M cfg a" and i: "i < nof (ap_n a)"
  defines "b \<equiv> if sk_mem_ok (skel_of i a) then a else upd_skel i (\<lambda>k. (init_memory k)\<lparr>sk_mem_ok := True\<rparr>) a"
  shows "init_inv M cfg b" "grow cfg a b" "sk_mem_ok (skel_of i b)" "same_control (ap_n a) (ap_n b)"
proof -
  have w: "wired cfg a" and wf: "node_wf (ns_w (ap_n a))" using inv by (simp_all add: init_inv_def wired_def)
  have fr: "frame a b" by (simp add: b_def)
  show m: "sk_mem_ok (skel_of i b)" by (simp add: b_def)
  show ctl: "same_control (ap_n a) (ap_n b)" using wf by (simp add: b_def same_control_def rtdal_time_slot_def)
  show "grow cfg a b" by (rule handles_grow [OF fr ctl]) (auto simp: b_def)
  have h: "handles_same cfg a b"
    using config_max [OF w i] by (auto simp: handles_same_def b_def eout_def ein_def init_memory_def)
  have "sizes_ok b" using inv by (auto simp: init_inv_def sizes_ok_def b_def init_memory_def)
  then show "init_inv M cfg b" using init_inv_same [OF inv fr _ _ h] by (simp add: b_def)
qed

lemma init_inv_quiet:
  assumes "init_inv M cfg a" "quiet a b"
  shows "init_inv M cfg b" "grow cfg a b" "skel_of i b = skel_of i a"
proof -
  have q: "frame a b" "same_control (ap_n a) (ap_n b)" "\<And>h. itf_elem h b = itf_elem h a" "ap_queues b = ap_queues a" "\<And>j. skel_of j b = skel_of j a"
    using assms(2) by (auto simp: quiet_def)
  have "sizes_ok b" using assms(1) frame_nof [OF q(1)] by (simp add: init_inv_def sizes_ok_def q(5))
  then show "init_inv M cfg b" by (intro init_inv_same [OF assms(1) q(1,3,4)]) (simp_all add: handles_same_def eout_def ein_def q(5))
  show "grow cfg a b" by (rule handles_grow [OF q(1,2)]) (simp add: q(5))
  show "skel_of i b = skel_of i a" by (rule q(5))
qed

lemma Init_step:
  assumes inv: "init_inv M cfg a" and i: "i < nof (ap_n a)" and ad: "addr_ok M addr" and uc: "user_ok uc"
  obtains n b where "Init uc addr (cfg i) i a = Some (n, b)" "n = 0 \<or> n = 1" "init_inv M cfg b" "grow cfg a b"
    "outs_made cfg i b" "n = 1 \<longrightarrow> ins_made cfg i b" "(\<forall>j < nof (ap_n a). outs_made cfg j a) \<longrightarrow> n = 1"
proof -
  define a1 where "a1 = (if sk_mem_ok (skel_of i a) then a else upd_skel i (\<lambda>k. (init_memory k)\<lparr>sk_mem_ok := True\<rparr>) a)"
  note s1 = Init_memory_step [OF inv i, folded a1_def]
  have wf: "node_wf (ns_w (ap_n a1))" using s1(1) by (simp add: init_inv_def wired_def)
  obtain r a2 where r: "uc_initialize uc i a1 = (r, a2)" by (cases "uc_initialize uc i a1")
  then have q: "r = 0" "quiet a1 a2" using uc wf by (auto simp: user_ok_def dest!: spec [of _ i] spec [of _ a1])
  note s2 = init_inv_quiet [OF s1(1) q(2)]
  define a3 where "a3 = upd_skel i (\<lambda>k. k\<lparr>sk_check_ok := True\<rparr>) a2"
  have fr: "frame a2 a3" by (simp add: a3_def)
  have eq: "eout j p a3 = eout j p a2" "ein j p a3 = ein j p a2" for j p by (simp_all add: a3_def eout_def ein_def)
  have s3: "init_inv M cfg a3"
  proof (rule init_inv_same [OF s2(1) fr])
    show "sizes_ok a3" using s2(1) by (simp add: init_inv_def sizes_ok_def a3_def)
  qed (simp_all add: handles_same_def eq, simp_all add: a3_def)
  have "same_control (ap_n a2) (ap_n a3)" using s2(1) by (simp add: a3_def same_control_def rtdal_time_slot_def init_inv_def wired_def)
  then have "grow cfg a2 a3" using fr by (simp add: grow_def eq) (simp add: a3_def)
  then have g3: "grow cfg a a3" by (rule grow_trans [OF grow_trans [OF s1(2) s2(2)]])
  have m3: "sk_mem_ok (skel_of i a3)" using s1(3) s2(3) [of i] by (simp add: a3_def)
  have i3: "i < nof (ap_n a3)" using i grow_nof [OF g3] by simp
  obtain a4 where a4: "init_outputs addr (cfg i) i [0..<nof_output_itf (cfg i)] a3 = Some (1, a4)" "init_inv M cfg a4" "grow cfg a3 a4"
    "\<forall>p < nof_output_itf (cfg i). eout i p a4 \<noteq> None" 
    using init_outputs_ok [where ps = "[0..<nof_output_itf (cfg i)]", OF ad s3 i3 m3] by (force simp del: not_None_eq)
  have g4: "grow cfg a a4" by (rule grow_trans [OF g3 a4(3)])
  have i4: "i < nof (ap_n a4)" "sk_mem_ok (skel_of i a4)" using i grow_nof [OF g4] m3 a4(3) by (simp_all add: grow_def)
  obtain n b where b: "init_inputs (cfg i) i [0..<nof_input_itf (cfg i)] a4 = Some (n, b)" "n = 0 \<or> n = 1" "init_inv M cfg b" "grow cfg a4 b"
    "n = 1 \<longrightarrow> (\<forall>r < nof_input_itf (cfg i). ein i r b \<noteq> None)" "(\<forall>j < nof (ap_n a4). outs_made cfg j a4) \<longrightarrow> n = 1"
    using init_inputs_ok [where rs = "[0..<nof_input_itf (cfg i)]", OF a4(2) i4] by (force simp del: not_None_eq)
  have w4: "check_configuration (cfg i) = 0" "m_nof_inputs (aparent a4 i) = int (nof_input_itf (cfg i))"
    using a4(2) i4(1) by (simp_all add: init_inv_def wired_def)
  have "init_interfaces addr (cfg i) i a3 = Some (n, b)"
    using a4(1) b(1) w4(2) by (simp add: init_interfaces_def init_ctrl_def oesr_itf_nofinputs_def)
  then have "Init uc addr (cfg i) i a = Some (n, b)"
    unfolding Init_def a1_def [symmetric] using r q(1) w4(1) by (simp add: a3_def)
  moreover have "outs_made cfg i b" using a4(4) b(4) by (simp add: outs_made_def grow_def)
  moreover have "outs_made cfg j a4" if "outs_made cfg j a" for j using that g4 by (simp add: outs_made_def grow_def)
  ultimately show ?thesis using that b grow_trans [OF g4 b(4)] grow_nof [OF g4] by (auto simp: ins_made_def)
qed

section \<open>The skeleton in the initialisation thread\<close>

lemma api_of_upd: "api_of (upd_smod i f s) = upd_amod i f (api_of s)"
  by (simp add: api_of_def upd_amod_def)

lemma init_inv_upd_amod:
  assumes "init_inv M cfg a" "\<And>m. core (f m) = core m" "\<And>m. m_inputs (nm_parent (f m)) = m_inputs (nm_parent m)"
    "\<And>m. m_outputs (nm_parent (f m)) = m_outputs (nm_parent m)"
  shows "init_inv M cfg (upd_amod i f a)" "eout j p (upd_amod i f a) = eout j p a" "ein j r (upd_amod i f a) = ein j r a"
proof -
  let ?b = "upd_amod i f a"
  have k: "skel_of j ?b = skel_of j a" for j by (simp add: skel_of_def upd_amod_def)
  have arr: "itf_array md (aparent ?b j) = itf_array md (aparent a j)" for md j
    using amod_upd_keep [of "\<lambda>m. m_inputs (nm_parent m)" f i a j] amod_upd_keep [of "\<lambda>m. m_outputs (nm_parent m)" f i a j] assms(3,4)
    by (cases md) (simp_all add: itf_array_def)
  have "itf_elem h ?b = itf_elem h a" for h by (cases h) (simp add: itf_elem_def arr)
  moreover have fr: "frame a ?b" by (rule frame_upd_amod) (rule assms(2))
  moreover have "sizes_ok ?b" using assms(1) frame_nof [OF fr] by (simp add: init_inv_def sizes_ok_def k)
  ultimately show "init_inv M cfg ?b" by (intro init_inv_same [OF assms(1) fr]) (simp_all add: handles_same_def eout_def ein_def k)
  show "eout j p ?b = eout j p a" "ein j r ?b = ein j r a" by (simp_all add: eout_def ein_def k)
qed

lemma of_api_simps [simp]:
  "ns_w (of_api a) = ns_w (ap_n a)" "ns_c (of_api a) = ns_c (ap_n a)" "ap_queues (api_of (of_api a)) = ap_queues a"
  "ap_n (api_of s) = s" "skel_of j (api_of (of_api a)) = skel_of j a" "itf_elem h (api_of (of_api a)) = itf_elem h a"
  by (simp_all add: of_api_def api_of_def skel_of_def itf_elem_def)

lemma frame_of_api: "frame a (api_of (of_api b)) = frame a b"
  by (simp add: frame_def)

lemma init_inv_of_api: "init_inv M cfg a \<Longrightarrow> init_inv M cfg (api_of (of_api a))"
  by (rule init_inv_same [of M cfg a]) (simp_all add: frame_def handles_same_def eout_def ein_def, simp add: init_inv_def sizes_ok_def)

definition skel_inv :: "nat \<Rightarrow> (nat \<Rightarrow> 'u user_code) \<Rightarrow> ('u sk_state \<Rightarrow> cptr) \<Rightarrow> (nat \<Rightarrow> skel_cfg) \<Rightarrow> 'u sk_state \<Rightarrow> 'u menv nstate \<Rightarrow> bool" where
  "skel_inv M uc addr cfg a0 s \<longleftrightarrow> frame a0 (api_of s) \<and> (\<forall>i. user_ok (uc i)) \<and> addr_ok M addr \<and> init_inv M cfg (api_of s)"

definition skel_made :: "(nat \<Rightarrow> skel_cfg) \<Rightarrow> nat \<Rightarrow> 'u menv nstate \<Rightarrow> bool" where
  "skel_made cfg i s = outs_made cfg i (api_of s)"

definition skel_ready :: "(nat \<Rightarrow> skel_cfg) \<Rightarrow> nat \<Rightarrow> 'u menv nstate \<Rightarrow> bool" where
  "skel_ready cfg i s \<longleftrightarrow> outs_made cfg i (api_of s) \<and> ins_made cfg i (api_of s)"

lemma skel_inv_upd:
  assumes "skel_inv M uc addr cfg a0 s" "\<And>m. core (f m) = core m" "\<And>m. m_inputs (nm_parent (f m)) = m_inputs (nm_parent m)"
    "\<And>m. m_outputs (nm_parent (f m)) = m_outputs (nm_parent m)"
  shows "skel_inv M uc addr cfg a0 (upd_smod i f s)" "skel_made cfg j (upd_smod i f s) = skel_made cfg j s"
    "skel_ready cfg j (upd_smod i f s) = skel_ready cfg j s"
  using assms(1) init_inv_upd_amod [where a = "api_of s" and f = f and i = i and cfg = cfg and M = M, OF _ assms(2-4)]
    frame_trans [OF _ frame_upd_amod [OF assms(2), of "api_of s" i], of a0]
  by (simp_all add: skel_inv_def skel_made_def skel_ready_def outs_made_def ins_made_def api_of_upd)

lemma core_flags [simp]:
  "core (m\<lparr>nm_changing_status := b\<rparr>) = core m" "core (set_mstatus st m) = core m"
  "m_inputs (nm_parent (set_mstatus st m)) = m_inputs (nm_parent m)" "m_outputs (nm_parent (set_mstatus st m)) = m_outputs (nm_parent m)"
  by (simp_all add: core_def set_mstatus_def)

interpretation skeleton_init: two_pass "skel_os uc addr cfg os" "skel_inv M uc addr cfg a0" "skel_made cfg" "skel_ready cfg"
  for M uc addr cfg a0 os
proof
  fix s :: "'a menv nstate" and i n s1
  assume a: "skel_inv M uc addr cfg a0 s" "i < nof s" "os_Init (skel_os uc addr cfg os) i s = (n, s1)"
  then have ok: "init_inv M cfg (api_of s)" "i < nof (ap_n (api_of s))" "addr_ok M addr" "user_ok (uc i)" by (simp_all add: skel_inv_def)
  obtain r b where b: "Init (uc i) addr (cfg i) i (api_of s) = Some (r, b)" "r = 0 \<or> r = 1" "init_inv M cfg b" "grow cfg (api_of s) b"
    "outs_made cfg i b" "r = 1 \<longrightarrow> ins_made cfg i b" "(\<forall>j < nof (ap_n (api_of s)). outs_made cfg j (api_of s)) \<longrightarrow> r = 1"
    by (rule Init_step [OF ok])
  have e: "n = r" "s1 = of_api b" using a(3) b(1) by (simp_all add: skel_os_def)
  have m: "outs_made cfg j (api_of s1) = outs_made cfg j b" "ins_made cfg j (api_of s1) = ins_made cfg j b" for j
    by (simp_all add: outs_made_def ins_made_def eout_def ein_def e)
  have g: "outs_made cfg j (api_of s) \<longrightarrow> outs_made cfg j b" "ins_made cfg j (api_of s) \<longrightarrow> ins_made cfg j b" for j
    using b(4) unfolding outs_made_def ins_made_def grow_def by blast+
  have "same_control s s1" using b(4) by (simp add: grow_def same_control_def e rtdal_time_slot_def)
  moreover have "skel_inv M uc addr cfg a0 s1" using a(1) init_inv_of_api [OF b(3)] frame_trans [of a0 "api_of s" b] b(4)
    by (simp add: skel_inv_def e grow_def frame_of_api)
  ultimately show "skel_inv M uc addr cfg a0 s1 \<and> same_control s s1 \<and> (n = 0 \<or> n = 1) \<and> skel_made cfg i s1 \<and> (n = 1 \<longrightarrow> skel_ready cfg i s1)
      \<and> ((\<forall>j < nof s. skel_made cfg j s) \<longrightarrow> n = 1) \<and> (\<forall>j. skel_made cfg j s \<longrightarrow> skel_made cfg j s1)
      \<and> (\<forall>j. skel_ready cfg j s \<longrightarrow> skel_ready cfg j s1)"
    using b(2,5-7) g unfolding skel_made_def skel_ready_def m e(1) by simp
qed (simp_all add: skel_inv_upd, simp add: skel_inv_def init_inv_def wired_def)

lemma connected_unique: "connected tx p i r a \<Longrightarrow> connected tx' p' i r a \<Longrightarrow> tx = tx' \<and> p = p'"
  unfolding connected_def by (metis linorder_neqE_nat of_nat_eq_iff)

lemma init_inv_handle:
  assumes "init_inv M cfg a" "i < nof (ap_n a)"
  shows "p < nof_output_itf (cfg i) \<Longrightarrow> eout i p a \<noteq> None \<Longrightarrow> sk_outputs (skel_of i a) ! p = Some (ITF_WRITE, i, p)
      \<and> hw (ITF_WRITE, i, p) a \<in> dom (ap_queues a) - {0}"
    and "r < nof_input_itf (cfg i) \<Longrightarrow> ein i r a \<noteq> None \<Longrightarrow> sk_inputs (skel_of i a) ! r = Some (ITF_READ, i, r) \<and> fed cfg i r a"
proof -
  have e: "sk_outputs (skel_of i a) ! p = eout i p a" if "eout i p a \<noteq> None" using that by (simp add: eout_def split: if_splits)
  have d: "sk_inputs (skel_of i a) ! r = ein i r a" if "ein i r a \<noteq> None" using that by (simp add: ein_def split: if_splits)
  have o: "outs_ok cfg a" "ins_ok cfg a" using assms(1) by (simp_all add: init_inv_def)
  show "p < nof_output_itf (cfg i) \<Longrightarrow> eout i p a \<noteq> None \<Longrightarrow> sk_outputs (skel_of i a) ! p = Some (ITF_WRITE, i, p)
      \<and> hw (ITF_WRITE, i, p) a \<in> dom (ap_queues a) - {0}"
    using o(1) [unfolded outs_ok_def, rule_format, OF assms(2), of p] e by auto
  show "r < nof_input_itf (cfg i) \<Longrightarrow> ein i r a \<noteq> None \<Longrightarrow> sk_inputs (skel_of i a) ! r = Some (ITF_READ, i, r) \<and> fed cfg i r a"
    using o(2) [unfolded ins_ok_def, rule_format, OF assms(2), of r] d by auto
qed

lemma init_inv_start:
  assumes w: "wired cfg a" and m: "card (dom (ap_queues a)) + (\<Sum>i < nof (ap_n a). nof_output_itf (cfg i)) \<le> M"
    and f: "\<forall>i < nof (ap_n a). \<not> sk_mem_ok (skel_of i a) \<and> (\<forall>p < nof_output_itf (cfg i). hw (ITF_WRITE, i, p) a = 0)"
  shows "init_inv M cfg a"
proof -
  have "unmade cfg a \<subseteq> (SIGMA i : {..<nof (ap_n a)}. {..<nof_output_itf (cfg i)})" by (auto simp: unmade_def)
  then have "card (unmade cfg a) \<le> (\<Sum>i < nof (ap_n a). nof_output_itf (cfg i))"
    using card_mono [of "SIGMA i : {..<nof (ap_n a)}. {..<nof_output_itf (cfg i)}" "unmade cfg a"] by (simp add: card_SigmaI)
  then show ?thesis using w m f by (simp add: init_inv_def room_def outs_ok_def outs_inj_def ins_ok_def sizes_ok_def eout_def ein_def)
qed

section \<open>Start of a waveform\<close>

text \<open>C5. A waveform of skeleton modules starts. When every input of every module is linked to an
  output that its module creates, in whatever order the modules stand and also when links form
  a circle, and there is memory for the queues, the initialisation thread of the node reports success:
  every module is initialised, every output of a module has a queue of its own and every input
  refers to the queue of the output that it is linked to.\<close>

theorem skeleton_waveform_starts:
  assumes w: "wired cfg (api_of s)" and uc: "\<forall>i. user_ok (uc i)" and ad: "addr_ok M addr"
    and m: "card (dom (me_queues (ns_env s))) + (\<Sum>i < nof s. nof_output_itf (cfg i)) \<le> M"
    and f: "\<forall>i < nof s. nm_init (smod s i) \<and> m_status (sparent s i) \<noteq> INIT \<and> \<not> sk_mem_ok (me_skel (ns_env s) i)
       \<and> (\<forall>p < nof_output_itf (cfg i). hw (ITF_WRITE, i, p) (api_of s) = 0)"
  shows "\<exists>s'. nod_waveform_status_init_thread (skel_os uc addr cfg os) s = Some (True, s')
     \<and> (\<forall>i < nof s. m_status (sparent s' i) = INIT
        \<and> (\<forall>p < nof_output_itf (cfg i). sk_outputs (me_skel (ns_env s') i) ! p = Some (ITF_WRITE, i, p)
             \<and> hw (ITF_WRITE, i, p) (api_of s') \<in> dom (me_queues (ns_env s')) - {0})
        \<and> (\<forall>r < nof_input_itf (cfg i). sk_inputs (me_skel (ns_env s') i) ! r = Some (ITF_READ, i, r)))
     \<and> (\<forall>i < nof s. \<forall>r < nof_input_itf (cfg i). \<forall>tx p. connected tx p i r (api_of s) \<longrightarrow>
          hw (ITF_READ, i, r) (api_of s') = hw (ITF_WRITE, tx, p) (api_of s'))
     \<and> (\<forall>i < nof s. \<forall>p < nof_output_itf (cfg i). \<forall>j < nof s. \<forall>q < nof_output_itf (cfg j).
          hw (ITF_WRITE, i, p) (api_of s') = hw (ITF_WRITE, j, q) (api_of s') \<longrightarrow> i = j \<and> p = q)"
proof -
  let ?a = "api_of s"
  have m': "card (dom (ap_queues ?a)) + (\<Sum>i < nof (ap_n ?a). nof_output_itf (cfg i)) \<le> M" using m by (simp add: api_of_def)
  have f': "\<forall>i < nof (ap_n ?a). \<not> sk_mem_ok (skel_of i ?a) \<and> (\<forall>p < nof_output_itf (cfg i). hw (ITF_WRITE, i, p) ?a = 0)"
    using f by (simp add: skel_of_def)
  have "skel_inv M uc addr cfg ?a s" using uc ad init_inv_start [OF w m' f'] by (simp add: skel_inv_def)
  then obtain s' where s': "nod_waveform_status_init_thread (skel_os uc addr cfg os) s = Some (True, s')" "skel_inv M uc addr cfg ?a s'"
    "nof s' = nof s" "\<forall>j < nof s. skel_ready cfg j s' \<and> m_status (sparent s' j) = INIT"
    using skeleton_init.init_thread_two [of M uc addr cfg ?a s os] f by blast
  let ?b = "api_of s'"
  have inv: "init_inv M cfg ?b" "frame ?a ?b" using s'(2) by (simp_all add: skel_inv_def)
  have q: "ap_queues ?b = me_queues (ns_env s')" "skel_of i ?b = me_skel (ns_env s') i" for i by (simp_all add: api_of_def skel_of_def)
  have out: "sk_outputs (me_skel (ns_env s') i) ! p = Some (ITF_WRITE, i, p) \<and> hw (ITF_WRITE, i, p) ?b \<in> dom (me_queues (ns_env s')) - {0}"
    if "i < nof s" "p < nof_output_itf (cfg i)" for i p
  proof -
    have "eout i p ?b \<noteq> None" using s'(4) that unfolding skel_ready_def outs_made_def by blast
    then show ?thesis using init_inv_handle(1) [OF inv(1), of i p] that s'(3) by (simp add: q)
  qed
  have inp: "sk_inputs (me_skel (ns_env s') i) ! r = Some (ITF_READ, i, r) \<and> fed cfg i r ?b"
    if "i < nof s" "r < nof_input_itf (cfg i)" for i r
  proof -
    have "ein i r ?b \<noteq> None" using s'(4) that unfolding skel_ready_def ins_made_def by blast
    then show ?thesis using init_inv_handle(2) [OF inv(1), of i r] that s'(3) by (simp add: q)
  qed
  have link: "hw (ITF_READ, i, r) ?b = hw (ITF_WRITE, tx, p) ?b" if l: "i < nof s" "r < nof_input_itf (cfg i)" "connected tx p i r ?a" for i r tx p
  proof -
    obtain tx' p' where t: "connected tx' p' i r ?b" "hw (ITF_READ, i, r) ?b = hw (ITF_WRITE, tx', p') ?b"
      using inp [OF l(1,2)] unfolding fed_def by blast
    have "connected tx p i r ?b" using l(3) by (simp only: connected_frame [OF inv(2)])
    then have "tx = tx' \<and> p = p'" by (rule connected_unique [OF _ t(1)])
    then show ?thesis using t(2) by simp
  qed
  have inj: "i = j \<and> p = q" if "i < nof s" "p < nof_output_itf (cfg i)" "j < nof s" "q < nof_output_itf (cfg j)"
      "hw (ITF_WRITE, i, p) ?b = hw (ITF_WRITE, j, q) ?b" for i p j q
  proof -
    have "outs_inj cfg ?b" using inv(1) by (simp add: init_inv_def)
    from this [unfolded outs_inj_def, rule_format, of i p j q] show ?thesis using that out [OF that(1,2)] s'(3) by simp
  qed
  show ?thesis
  proof (intro exI [of _ s'] conjI s'(1) allI impI)
    show "m_status (sparent s' i) = INIT" if "i < nof s" for i using s'(4) that by blast
  qed (use out inp link inj in blast)+
qed

text \<open>Two modules in the wrong order: the first reads what the second writes.\<close>

definition ex_cx :: oesr_context_t where
  "ex_cx = \<lparr>cx_addr = 9, cx_tstamp = 0, cx_counters = [], cx_error = 0, cx_closed_resources = 0\<rparr>"

definition ex_cfg :: "nat \<Rightarrow> skel_cfg" where
  "ex_cfg i = \<lparr>nof_input_itf = (if i = 0 then 1 else 0), nof_output_itf = (if i = 1 then 1 else 0), input_max_samples = 10,
     output_max_samples = 10, input_sample_sz = 4, output_sample_sz = 4\<rparr>"

definition ex_skel :: skel where
  "ex_skel = \<lparr>sk_mem_ok = False, sk_check_ok = False, sk_inputs = [], sk_outputs = [], sk_ctrl_in = None, sk_ctrl_buffer = replicate 88 0,
     sk_rcv_len = [], sk_snd_len = []\<rparr>"

definition ex_user :: "unit user_code" where
  "ex_user = \<lparr>uc_initialize = (\<lambda>i s. (0, s)), uc_work = (\<lambda>i ins outs s. (0, [], s)), uc_stop = (\<lambda>i s. s)\<rparr>"

definition ex_pair :: "unit menv nstate" where
  "ex_pair = \<lparr>ns_w = nod_waveform_zero\<lparr>nw_nof_modules := 2, nw_modules := Some
       [(ex_nmodule 4)\<lparr>nm_parent := module_zero\<lparr>m_id := 4, m_status := LOADED, m_nof_inputs := 1,
           m_inputs := Some [interface_zero\<lparr>i_remote_module_id := 3\<rparr>]\<rparr>, nm_context := Some ex_cx\<rparr>,
        (ex_nmodule 3)\<lparr>nm_parent := module_zero\<lparr>m_id := 3, m_status := LOADED, m_nof_outputs := 1, m_outputs := Some [interface_zero]\<rparr>,
           nm_context := Some ex_cx\<rparr>]\<rparr>,
     ns_c = ex_context, ns_multiple = 1,
     ns_env = \<lparr>me_queues = (\<lambda>_. None), me_spscq_id = 1, me_physic = [], me_skel = (\<lambda>_. ex_skel), me_user = ()\<rparr>\<rparr>"

definition ex_addr :: "unit sk_state \<Rightarrow> cptr" where
  "ex_addr s = (if ap_queues s 64 = None then 64 else 0)"

definition ex_menv_os :: "unit menv node_os" where
  "ex_menv_os = \<lparr>os_calloc = os_calloc ex_os, os_context_addr = os_context_addr ex_os, os_loader = os_loader ex_os, os_thread = True,
     os_logs_cfg = os_logs_cfg ex_os, os_modules_log = None, os_log_new = (\<lambda>_. None), os_float = os_float ex_os, os_ts_len_ns = 1000000,
     os_time = (\<lambda>_. timeval_zero), os_sleep = (\<lambda>_ s. (0, s)), os_task_new = True, os_task_wait = (\<lambda>_. 1),
     os_Init = (\<lambda>i s. (1, s)), os_Run = (\<lambda>i s. (0, s)), os_Stop = (\<lambda>i s. (0, s))\<rparr>"

theorem skeleton_waveform_starts_witness:
  "\<exists>s'. nod_waveform_status_init_thread (skel_os (\<lambda>_. ex_user) ex_addr ex_cfg ex_menv_os) ex_pair = Some (True, s')
     \<and> hw (ITF_READ, 0, 0) (api_of s') = hw (ITF_WRITE, 1, 0) (api_of s') \<and> hw (ITF_WRITE, 1, 0) (api_of s') \<noteq> 0"
proof -
  have n: "nof ex_pair = 2" "i < 2 \<longleftrightarrow> i = 0 \<or> i = 1" for i :: nat by (auto simp: ex_pair_def)
  have c: "connected 1 0 0 0 (api_of ex_pair)"
    by (simp add: api_of_def ex_pair_def connected_def valid_itf_def nmod_def get_elem_def itf_array_def array_ok_def itf_elem_def
        interface_zero_def ex_nmodule_def module_zero_def cong: option.case_cong)
  have w: "wired ex_cfg (api_of ex_pair)"
    unfolding wired_def of_api_simps n
  proof (intro conjI allI impI)
    fix i r :: nat assume "i = 0 \<or> i = 1" "r < nof_input_itf (ex_cfg i)"
    then show "\<exists>tx p. (tx = 0 \<or> tx = 1) \<and> p < nof_output_itf (ex_cfg tx) \<and> connected tx p i r (api_of ex_pair)"
      using c by (intro exI [of _ 1] exI [of _ 0]) (auto simp: ex_cfg_def split: if_splits)
  qed (auto simp: api_of_def ex_pair_def ex_cfg_def node_wf_def check_configuration_def MAX_INPUTS_def MAX_OUTPUTS_def nmod_def get_elem_def
      valid_itf_def itf_array_def itf_elem_def interface_zero_def ex_nmodule_def module_zero_def nod_module_zero_def split: if_splits)
  have u: "\<forall>i. user_ok ((\<lambda>_. ex_user) i)" by (simp add: user_ok_def ex_user_def quiet_def same_control_refl)
  have a: "addr_ok 1 ex_addr" by (simp add: addr_ok_def ex_addr_def)
  have m: "card (dom (me_queues (ns_env ex_pair))) + (\<Sum>i < nof ex_pair. nof_output_itf (ex_cfg i)) \<le> 1"
    unfolding n(1) by (simp add: ex_pair_def ex_cfg_def numeral_2_eq_2)
  have f: "\<forall>i < nof ex_pair. nm_init (smod ex_pair i) \<and> m_status (sparent ex_pair i) \<noteq> INIT \<and> \<not> sk_mem_ok (me_skel (ns_env ex_pair) i)
       \<and> (\<forall>p < nof_output_itf (ex_cfg i). hw (ITF_WRITE, i, p) (api_of ex_pair) = 0)"
    unfolding n by (auto simp: ex_pair_def nmod_def get_elem_def ex_nmodule_def ex_skel_def ex_cfg_def api_of_def itf_elem_def itf_array_def interface_zero_def
        split: if_splits)
  show ?thesis using skeleton_waveform_starts [OF w u a m f, of ex_menv_os]
  proof (elim exE conjE, goal_cases)
    case (1 s')
    have "hw (ITF_WRITE, 1, 0) (api_of s') \<noteq> 0" using spec [OF 1(2), of 1] n(1) by (simp add: ex_cfg_def)
    moreover have "hw (ITF_READ, 0, 0) (api_of s') = hw (ITF_WRITE, 1, 0) (api_of s')"
      using 1(3) [rule_format, OF _ _ c] n(1) by (simp add: ex_cfg_def)
    ultimately show ?case using 1(1) by blast
  qed
qed

end
