(* ===== verification/Skeleton_Run.thy ===== *)
theory Skeleton_Run
  imports Skeleton_Init
begin

text \<open>
  Execution of a skeleton module (Run of oesr/src/skeleton/skeleton.c) against its contract: a
  module whose work function computes a function f of the messages at its inputs takes the
  oldest message that is due from every input, and appends what f yields to its outputs.
\<close>

section \<open>Updates at addresses\<close>

text \<open>The loops of Run change the queues of their ports one by one.\<close>

definition upd_at :: "('x \<Rightarrow> 'k option) \<Rightarrow> ('x \<Rightarrow> 'v \<Rightarrow> 'v) \<Rightarrow> 'x \<Rightarrow> ('k \<Rightarrow> 'v option) \<Rightarrow> 'k \<Rightarrow> 'v option" where
  "upd_at key f x Q = (case key x of None \<Rightarrow> Q | Some a \<Rightarrow> Q(a := map_option (f x) (Q a)))"

lemma fold_upd_other: "\<forall>x \<in> set xs. key x \<noteq> Some a \<Longrightarrow> fold (upd_at key f) xs Q a = Q a"
  by (induction xs arbitrary: Q) (simp_all add: upd_at_def split: option.split)

lemma fold_upd_at:
  assumes "x \<in> set xs" "key x = Some a" "distinct xs" "\<forall>y \<in> set xs. key y = Some a \<longrightarrow> y = x"
  shows "fold (upd_at key f) xs Q a = map_option (f x) (Q a)"
  using assms
proof (induction xs arbitrary: Q)
  case (Cons y ys)
  show ?case
  proof (cases "y = x")
    case True
    then have "\<forall>z \<in> set ys. key z \<noteq> Some a" using Cons.prems(3,4) by (metis distinct.simps(2) list.set_intros(2))
    then have "fold (upd_at key f) ys (upd_at key f x Q) a = upd_at key f x Q a" by (rule fold_upd_other)
    also have "\<dots> = map_option (f x) (Q a)" unfolding upd_at_def Cons.prems(2) by simp
    finally show ?thesis unfolding True by simp
  next
    case False
    then have "upd_at key f y Q a = Q a" using Cons.prems(4) by (cases "key y") (auto simp: upd_at_def)
    moreover have "x \<in> set ys" "distinct ys" using Cons.prems(1,3) False by auto
    moreover have "\<forall>z \<in> set ys. key z = Some a \<longrightarrow> z = x" using Cons.prems(4) by (metis list.set_intros(2))
    ultimately show ?thesis using Cons.IH [OF _ Cons.prems(2), of "upd_at key f y Q"] by (metis comp_apply fold_simps(2))
  qed
qed simp

lemma upd_at_dom: "dom (upd_at key f x Q) = dom Q"
  by (auto simp: upd_at_def split: option.splits if_splits)

section \<open>The parts of Run\<close>

lemma time_slot_skel [simp]: "rtdal_time_slot (ap_n (upd_skel i f s)) = rtdal_time_slot (ap_n s)"
  by (simp add: rtdal_time_slot_def)

lemma upd_skel_upd_skel: "upd_skel i f (upd_skel i g s) = upd_skel i (\<lambda>k. f (g k)) s"
  by (simp add: upd_skel_def skel_of_def)

lemma upd_skel_id: "upd_skel i (\<lambda>k. k) s = s"
  by (simp add: upd_skel_def skel_of_def)

text \<open>What pop finds at an input.\<close>

definition due :: "int \<Rightarrow> (int \<times> bytes) list \<Rightarrow> bytes option" where
  "due now q = (case q of [] \<Rightarrow> None | (t, m) # _ \<Rightarrow> if now < t then None else Some m)"

definition in_abs :: "nat \<Rightarrow> nat \<Rightarrow> 'u sk_state \<Rightarrow> (int \<times> bytes) list" where
  "in_abs i r s = (case sk_inputs (skel_of i s) ! r of None \<Rightarrow> [] | Some h \<Rightarrow> spscq_abs (itf_queue h s))"

definition out_abs :: "nat \<Rightarrow> nat \<Rightarrow> 'u sk_state \<Rightarrow> (int \<times> bytes) list" where
  "out_abs i p s = (case sk_outputs (skel_of i s) ! p of None \<Rightarrow> [] | Some h \<Rightarrow> spscq_abs (itf_queue h s))"

text \<open>The slot of a message that is due.\<close>

definition in_slot :: "nat \<Rightarrow> nat \<Rightarrow> 'u sk_state \<Rightarrow> nat option" where
  "in_slot i r s = (case due (rtdal_time_slot (ap_n s)) (in_abs i r s) of None \<Rightarrow> None
     | Some m \<Rightarrow> map_option (\<lambda>h. q_read (itf_queue h s)) (sk_inputs (skel_of i s) ! r))"

definition out_slot :: "nat \<Rightarrow> nat \<Rightarrow> 'u sk_state \<Rightarrow> nat option" where
  "out_slot i p s = map_option (\<lambda>h. q_write (itf_queue h s)) (sk_outputs (skel_of i s) ! p)"

definition in_samples :: "skel_cfg \<Rightarrow> nat \<Rightarrow> nat \<Rightarrow> 'u sk_state \<Rightarrow> int" where
  "in_samples cfg i r s = (case due (rtdal_time_slot (ap_n s)) (in_abs i r s) of None \<Rightarrow> 0
     | Some m \<Rightarrow> cdiv (int (length m)) (input_sample_sz cfg))"

text \<open>The port has no handle or its queue exists, is well formed and does not block.\<close>

definition port_ok :: "itf_h option \<Rightarrow> 'u sk_state \<Rightarrow> bool" where
  "port_ok x s = (case x of None \<Rightarrow> True | Some h \<Rightarrow> (case ap_queues s (hw h s) of None \<Rightarrow> False | Some q \<Rightarrow> spscq_nb q))"

definition set_lens :: "(nat \<Rightarrow> int) \<Rightarrow> nat list \<Rightarrow> int list \<Rightarrow> int list" where
  "set_lens f ps xs = fold (\<lambda>p xs. xs[p := f p]) ps xs"

lemma port_okE:
  assumes "port_ok (Some h) s"
  obtains q where "ap_queues s (hw h s) = Some q" "itf_queue h s = q" "spscq_nb q" "spscq_wf q" "0 \<le> q_delay q"
  using assms by (auto simp: port_ok_def itf_queue_def spscq_nb_def split: option.splits)

lemma views_skel [simp]:
  "itf_queue h (upd_skel i f s) = itf_queue h s" "port_ok x (upd_skel i f s) = port_ok x s"
  by (simp_all add: itf_queue_def port_ok_def split: option.split)

lemma ptr_get_cases:
  assumes "port_ok (Some h) s"
  shows "oesr_itf_ptr_get now h tstamp s = Some (Ret (case due now (spscq_abs (itf_queue h s)) of
      None \<Rightarrow> ((0, None), s) | Some m \<Rightarrow> ((1, Some (q_read (itf_queue h s), int (length m))), s)))"
proof -
  obtain q where q: "ap_queues s (hw h s) = Some q" "itf_queue h s = q" "spscq_wf q" "0 \<le> q_delay q" using assms by (rule port_okE)
  have "s\<lparr>ap_queues := (ap_queues s)(hw h s \<mapsto> q)\<rparr> = s" using q(1) by (simp add: fun_upd_idem)
  then show ?thesis using q
    by (auto simp: oesr_itf_ptr_get_def rtdal_itf_pop_def itf_call_def pop_cases due_def split: list.split)
qed

lemma get_inputs_ok:
  assumes "\<forall>r \<in> set rs. port_ok (sk_inputs (skel_of i s) ! r) s"
  shows "get_inputs cfg i tstamp rs s = Some (Ret (0, map (\<lambda>r. in_slot i r s) rs,
     upd_skel i (\<lambda>k. k\<lparr>sk_rcv_len := set_lens (\<lambda>r. in_samples cfg i r s) rs (sk_rcv_len k)\<rparr>) s))"
  using assms
proof (induction rs arbitrary: s)
  case Nil
  then show ?case by (simp add: set_lens_def upd_skel_id)
next
  case (Cons r rs)
  let ?f = "\<lambda>k. k\<lparr>sk_rcv_len := (sk_rcv_len k)[r := in_samples cfg i r s]\<rparr>"
  let ?s = "upd_skel i ?f s"
  have v: "in_slot i q ?s = in_slot i q s" "in_samples cfg i q ?s = in_samples cfg i q s" for q
    by (simp_all add: in_slot_def in_samples_def in_abs_def cong: option.case_cong)
  have ih: "get_inputs cfg i tstamp rs ?s = Some (Ret (0, map (\<lambda>r. in_slot i r s) rs,
     upd_skel i (\<lambda>k. k\<lparr>sk_rcv_len := set_lens (\<lambda>r. in_samples cfg i r s) (r # rs) (sk_rcv_len k)\<rparr>) s))"
    using Cons.IH [of ?s] Cons.prems by (simp add: v upd_skel_upd_skel set_lens_def)
  show ?case
  proof (cases "sk_inputs (skel_of i s) ! r")
    case None
    then have "in_samples cfg i r s = 0" "in_slot i r s = None" by (simp_all add: in_samples_def in_slot_def in_abs_def due_def)
    then show ?thesis using None ih by simp
  next
    case (Some h)
    then have p: "port_ok (Some h) s" using Cons.prems by simp
    have a: "in_abs i r s = spscq_abs (itf_queue h s)" using Some by (simp add: in_abs_def)
    show ?thesis using ptr_get_cases [OF p] Some ih
      by (cases "due (rtdal_time_slot (ap_n s)) (in_abs i r s)") (simp_all add: a in_samples_def in_slot_def Let_def)
  qed
qed

lemma request_outputs_ok:
  assumes "\<forall>p \<in> set ps. port_ok (sk_outputs (skel_of i s) ! p) s
     \<and> (\<forall>h. sk_outputs (skel_of i s) ! p = Some h \<longrightarrow> length (spscq_abs (itf_queue h s)) < q_max_msg (itf_queue h s))"
  shows "request_outputs i ps s = Some (Ret (0, map (\<lambda>p. out_slot i p s) ps, s))"
  using assms
proof (induction ps)
  case (Cons p ps)
  then have ih: "request_outputs i ps s = Some (Ret (0, map (\<lambda>p. out_slot i p s) ps, s))" by simp
  show ?case
  proof (cases "sk_outputs (skel_of i s) ! p")
    case None
    then show ?thesis using ih by (simp add: out_slot_def)
  next
    case (Some h)
    then have p: "port_ok (Some h) s" and room: "length (spscq_abs (itf_queue h s)) < q_max_msg (itf_queue h s)"
      using Cons.prems by (metis list.set_intros(1))+
    obtain q where q: "ap_queues s (hw h s) = Some q" "itf_queue h s = q" "spscq_wf q" "0 \<le> q_delay q" using p by (rule port_okE)
    have "s\<lparr>ap_queues := (ap_queues s)(hw h s \<mapsto> q)\<rparr> = s" using q(1) by (simp add: fun_upd_idem)
    then have "oesr_itf_ptr_request h s = Some (Ret ((1, Some (q_write q)), s))"
      using q room by (simp add: oesr_itf_ptr_request_def rtdal_itf_request_def itf_call_def request_cases)
    then show ?thesis using ih Some q(2) by (simp add: out_slot_def)
  qed
qed simp

text \<open>The address of the queue at a port whose buffer was taken.\<close>

definition okey :: "nat \<Rightarrow> 'u sk_state \<Rightarrow> nat \<times> nat option \<Rightarrow> cptr option" where
  "okey i s x = (case snd x of None \<Rightarrow> None | Some _ \<Rightarrow> map_option (\<lambda>h. hw h s) (sk_outputs (skel_of i s) ! fst x))"

definition ikey :: "nat \<Rightarrow> 'u sk_state \<Rightarrow> nat \<times> nat option \<Rightarrow> cptr option" where
  "ikey i s x = (case snd x of None \<Rightarrow> None | Some _ \<Rightarrow> map_option (\<lambda>h. hw h s) (sk_inputs (skel_of i s) ! fst x))"

lemma keys_queues [simp]: "okey i (s\<lparr>ap_queues := Q\<rparr>) = okey i s" "ikey i (s\<lparr>ap_queues := Q\<rparr>) = ikey i s"
  by (simp_all add: fun_eq_iff okey_def ikey_def split: option.split)

lemma keys_dom:
  "port_ok (sk_inputs (skel_of i s) ! fst x) s \<Longrightarrow> ikey i s x = Some a \<Longrightarrow> a \<in> dom (ap_queues s)"
  "port_ok (sk_outputs (skel_of i s) ! fst x) s \<Longrightarrow> okey i s x = Some a \<Longrightarrow> a \<in> dom (ap_queues s)"
  by (auto simp: ikey_def okey_def port_ok_def split: option.splits)

lemma write_outputs_eq:
  "write_outputs i xs s = s\<lparr>ap_queues := fold (upd_at (\<lambda>(p, ptr, bs). okey i s (p, ptr)) (\<lambda>(p, ptr, bs). fill_slot (the ptr) bs)) xs (ap_queues s)\<rparr>"
proof (induction xs arbitrary: s)
  case (Cons x xs)
  obtain p ptr bs where x: "x = (p, ptr, bs)" by (cases x)
  let ?s = "s\<lparr>ap_queues := upd_at (\<lambda>(p, ptr, bs). okey i s (p, ptr)) (\<lambda>(p, ptr, bs). fill_slot (the ptr) bs) x (ap_queues s)\<rparr>"
  have "write_outputs i (x # xs) s = write_outputs i xs ?s"
    by (auto simp: x write_slot_def upd_at_def okey_def split: option.split)
  then show ?case by (simp add: Cons.IH)
qed simp

lemma release_inputs_eq:
  assumes "\<forall>x \<in> set xs. \<forall>a. ikey i s x = Some a \<longrightarrow> a \<in> dom (ap_queues s)"
  shows "release_inputs i xs s = Some (Ret (0, s\<lparr>ap_queues := fold (upd_at (ikey i s) (\<lambda>_ q. snd (rtdal_itfspscq_release q))) xs (ap_queues s)\<rparr>))"
  using assms
proof (induction xs arbitrary: s)
  case (Cons x xs)
  obtain p ptr where x: "x = (p, ptr)" by (cases x)
  let ?s = "s\<lparr>ap_queues := upd_at (ikey i s) (\<lambda>_ q. snd (rtdal_itfspscq_release q)) x (ap_queues s)\<rparr>"
  have "\<forall>a. ikey i s x = Some a \<longrightarrow> (\<exists>q. ap_queues s a = Some q)" using Cons.prems by auto
  then have "release_inputs i (x # xs) s = release_inputs i xs ?s"
    by (auto simp: x oesr_itf_ptr_release_def rtdal_itf_release_def itf_call_def rtdal_itfspscq_release_def upd_at_def ikey_def split: option.split)
  then show ?case using Cons by (simp add: upd_at_dom)
qed simp

lemma put_outputs_eq:
  assumes "\<forall>x \<in> set xs. \<forall>a. okey i s x = Some a \<longrightarrow> a \<in> dom (ap_queues s)"
  shows "put_outputs i xs s = Some (Ret (0, s\<lparr>ap_queues := fold (upd_at (okey i s)
     (\<lambda>x q. snd (rtdal_itfspscq_push (rtdal_time_slot (ap_n s)) (sk_snd_len (skel_of i s) ! fst x) q))) xs (ap_queues s)\<rparr>))"
  using assms
proof (induction xs arbitrary: s)
  case (Cons x xs)
  obtain p ptr where x: "x = (p, ptr)" by (cases x)
  let ?f = "\<lambda>x q. snd (rtdal_itfspscq_push (rtdal_time_slot (ap_n s)) (sk_snd_len (skel_of i s) ! fst x) q)"
  let ?s = "s\<lparr>ap_queues := upd_at (okey i s) ?f x (ap_queues s)\<rparr>"
  have d: "\<forall>a. okey i s x = Some a \<longrightarrow> (\<exists>q. ap_queues s a = Some q)" using Cons.prems by auto
  have one: "fst (rtdal_itfspscq_push now len q) = 1" for now len q by (simp add: rtdal_itfspscq_push_def)
  have "put_outputs i (x # xs) s = put_outputs i xs ?s"
    using d by (auto simp: x oesr_itf_ptr_put_def rtdal_itf_push_def itf_call_def upd_at_def okey_def one split: option.split prod.split)
      (metis fst_conv one one_neq_neg_one)
  then show ?case using Cons by (simp add: upd_at_dom)
qed simp

lemma fold_upd_ports:
  assumes "p < n" "key (h p) = Some a" "\<forall>q < n. key (h q) = Some a \<longrightarrow> q = p"
  shows "fold (upd_at key f) (map h [0..<n]) Q a = map_option (f (h p)) (Q a)"
proof -
  have "upd_at key f (h p) = upd_at (\<lambda>p. key (h p)) (\<lambda>p. f (h p)) p" for p by (simp add: fun_eq_iff upd_at_def)
  then have e: "fold (upd_at key f) (map h [0..<n]) Q = fold (upd_at (\<lambda>p. key (h p)) (\<lambda>p. f (h p))) [0..<n] Q"
    by (simp add: fold_map comp_def)
  show ?thesis unfolding e
  proof (rule fold_upd_at [where x = p and key = "\<lambda>p. key (h p)"])
    show "key (h p) = Some a" by (rule assms(2))
    show "\<forall>q \<in> set [0..<n]. key (h q) = Some a \<longrightarrow> q = p" using assms(3) by (metis atLeastLessThan_iff set_upt)
  qed (simp_all add: assms(1))
qed

lemma fold_upd_no_port: "\<forall>q < n. key (h q) \<noteq> Some a \<Longrightarrow> fold (upd_at key f) (map h [0..<n]) Q a = Q a"
  by (rule fold_upd_other) auto

lemma fold_upd_dom: "dom (fold (upd_at key f) xs Q) = dom Q"
  by (induction xs arbitrary: Q) (simp_all add: upd_at_dom)

lemma fold_upd_cong:
  assumes "\<forall>x \<in> set xs. key x \<noteq> None \<longrightarrow> f x = g x"
  shows "fold (upd_at key f) xs Q = fold (upd_at key g) xs Q"
proof (intro fold_cong refl ext, goal_cases)
  case (1 x Q' a)
  then show ?case using assms by (cases "key x") (simp_all add: upd_at_def)
qed

lemma enumerate_map_upt: "enumerate 0 (map g [0..<n]) = map (\<lambda>p. (p, g p)) [0..<n]"
  by (simp add: enumerate_eq_zip zip_map2 zip_same_conv_map)

lemma zip_ports:
  assumes "length bss = n"
  shows "zip [0..<n] (zip (map g [0..<n]) bss) = map (\<lambda>p. (p, g p, bss ! p)) [0..<n]"
  by (rule nth_equalityI) (simp_all add: assms)

section \<open>The contract of a module\<close>

definition in_addr :: "nat \<Rightarrow> nat \<Rightarrow> 'u sk_state \<Rightarrow> cptr option" where
  "in_addr i r s = map_option (\<lambda>h. hw h s) (sk_inputs (skel_of i s) ! r)"

definition out_addr :: "nat \<Rightarrow> nat \<Rightarrow> 'u sk_state \<Rightarrow> cptr option" where
  "out_addr i p s = map_option (\<lambda>h. hw h s) (sk_outputs (skel_of i s) ! p)"

text \<open>The ports of a module refer to different queues that do not block, and the outputs have room.\<close>

definition run_ready :: "skel_cfg \<Rightarrow> nat \<Rightarrow> 'u sk_state \<Rightarrow> bool" where
  "run_ready cfg i s \<longleftrightarrow> (\<exists>cx. nm_context (amod s i) = Some cx) \<and> sk_ctrl_in (skel_of i s) = None
     \<and> nof_input_itf cfg \<le> length (sk_rcv_len (skel_of i s)) \<and> nof_output_itf cfg \<le> length (sk_snd_len (skel_of i s))
     \<and> (\<forall>r < nof_input_itf cfg. port_ok (sk_inputs (skel_of i s) ! r) s
          \<and> (\<forall>q < nof_input_itf cfg. \<forall>a. in_addr i r s = Some a \<longrightarrow> in_addr i q s = Some a \<longrightarrow> q = r)
          \<and> (\<forall>p < nof_output_itf cfg. \<forall>a. in_addr i r s = Some a \<longrightarrow> out_addr i p s \<noteq> Some a))
     \<and> (\<forall>p < nof_output_itf cfg. port_ok (sk_outputs (skel_of i s) ! p) s
          \<and> (\<forall>h. sk_outputs (skel_of i s) ! p = Some h \<longrightarrow> length (spscq_abs (itf_queue h s)) < q_max_msg (itf_queue h s))
          \<and> (\<forall>q < nof_output_itf cfg. \<forall>a. out_addr i p s = Some a \<longrightarrow> out_addr i q s = Some a \<longrightarrow> q = p))"

text \<open>The arguments and the state in which work is called show the messages ms.\<close>

definition shows_msgs :: "skel_cfg \<Rightarrow> nat \<Rightarrow> bytes option list \<Rightarrow> 'u sk_state \<Rightarrow> bytes option list \<Rightarrow> bool" where
  "shows_msgs cfg i bufs t ms \<longleftrightarrow> length bufs = nof_input_itf cfg \<and> length ms = nof_input_itf cfg
     \<and> (\<forall>r < nof_input_itf cfg. (case ms ! r of
          None \<Rightarrow> bufs ! r = None \<and> get_input_samples cfg i (int r) t = 0
        | Some m \<Rightarrow> get_input_samples cfg i (int r) t = cdiv (int (length m)) (input_sample_sz cfg)
            \<and> (\<exists>buf. bufs ! r = Some buf \<and> take (length m) buf = m)))"

text \<open>Work leaves the queues and handles to Run and ends in the slot in which it was called.\<close>

definition work_keeps :: "nat \<Rightarrow> 'u sk_state \<Rightarrow> 'u sk_state \<Rightarrow> bool" where
  "work_keeps i t t' \<longleftrightarrow> ap_queues t' = ap_queues t \<and> (\<forall>h. itf_elem h t' = itf_elem h t)
     \<and> sk_inputs (skel_of i t') = sk_inputs (skel_of i t) \<and> sk_outputs (skel_of i t') = sk_outputs (skel_of i t)
     \<and> length (sk_snd_len (skel_of i t')) = length (sk_snd_len (skel_of i t))
     \<and> rtdal_time_slot (ap_n t') = rtdal_time_slot (ap_n t)"

text \<open>The number of bytes that Run sends to output p after work has returned n.\<close>

definition sent_len :: "skel_cfg \<Rightarrow> nat \<Rightarrow> int \<Rightarrow> nat \<Rightarrow> 'u sk_state \<Rightarrow> int" where
  "sent_len cfg i n p t = (if sk_snd_len (skel_of i t) ! p = 0 then n * output_sample_sz cfg else sk_snd_len (skel_of i t) ! p)"

definition implements :: "'u user_code \<Rightarrow> skel_cfg \<Rightarrow> nat \<Rightarrow> (bytes option list \<Rightarrow> bytes list) \<Rightarrow> bool" where
  "implements uc cfg i f \<longleftrightarrow> (\<forall>bufs outs t ms. shows_msgs cfg i bufs t ms \<and> nof_output_itf cfg \<le> length (sk_snd_len (skel_of i t))
       \<and> (\<forall>p < nof_output_itf cfg. sk_snd_len (skel_of i t) ! p = 0) \<longrightarrow>
     (\<exists>n t'. uc_work uc i bufs outs t = (n, f ms, t') \<and> 0 \<le> n \<and> work_keeps i t t' \<and> length (f ms) = nof_output_itf cfg
        \<and> (\<forall>p < nof_output_itf cfg. sent_len cfg i n p t' = int (length (f ms ! p)))))"

definition due_msgs :: "skel_cfg \<Rightarrow> nat \<Rightarrow> 'u sk_state \<Rightarrow> bytes option list" where
  "due_msgs cfg i s = map (\<lambda>r. due (rtdal_time_slot (ap_n s)) (in_abs i r s)) [0..<nof_input_itf cfg]"

lemma set_lens_length [simp]: "length (set_lens f ps xs) = length xs"
  unfolding set_lens_def by (induction ps arbitrary: xs) simp_all

lemma set_lens_nth: "p < n \<Longrightarrow> n \<le> length xs \<Longrightarrow> set_lens f [0..<n] xs ! p = f p"
  unfolding set_lens_def by (induction n) (auto simp: nth_list_update less_Suc_eq set_lens_length [unfolded set_lens_def])

lemma shows_due:
  fixes s :: "'u sk_state"
  assumes ready: "run_ready cfg i s"
    and t: "t = upd_skel i (\<lambda>k. k\<lparr>sk_rcv_len := set_lens (\<lambda>r. in_samples cfg i r s) [0..<nof_input_itf cfg] (sk_rcv_len k), sk_snd_len := x k\<rparr>) s"
  shows "shows_msgs cfg i (map (\<lambda>(p, ptr). case (ptr, sk_inputs (skel_of i t) ! p) of
       (Some slot, Some h) \<Rightarrow> Some (slot_data h slot t) | _ \<Rightarrow> None) (enumerate 0 (map (\<lambda>r. in_slot i r s) [0..<nof_input_itf cfg]))) t (due_msgs cfg i s)"
    (is "shows_msgs cfg i ?bufs t _")
proof -
  let ?n = "nof_input_itf cfg"
  have len: "?n \<le> length (sk_rcv_len (skel_of i s))" using ready by (simp add: run_ready_def)
  have b: "?bufs ! r = (case (in_slot i r s, sk_inputs (skel_of i s) ! r) of (Some slot, Some h) \<Rightarrow> Some (slot_data h slot t) | _ \<Rightarrow> None)"
    if "r < ?n" for r using that by (simp add: enumerate_map_upt t)
  have smp: "get_input_samples cfg i (int r) t = in_samples cfg i r s" if "r < ?n" for r
    using that len by (simp add: get_input_samples_def t set_lens_nth)
  show ?thesis unfolding shows_msgs_def
  proof (intro conjI allI impI)
    show "length ?bufs = ?n" "length (due_msgs cfg i s) = ?n" by (simp_all add: due_msgs_def)
    fix r assume r: "r < ?n"
    have e: "due_msgs cfg i s ! r = due (rtdal_time_slot (ap_n s)) (in_abs i r s)" using r by (simp add: due_msgs_def)
    show "case due_msgs cfg i s ! r of
          None \<Rightarrow> ?bufs ! r = None \<and> get_input_samples cfg i (int r) t = 0
        | Some m \<Rightarrow> get_input_samples cfg i (int r) t = cdiv (int (length m)) (input_sample_sz cfg)
            \<and> (\<exists>buf. ?bufs ! r = Some buf \<and> take (length m) buf = m)"
    proof (cases "due (rtdal_time_slot (ap_n s)) (in_abs i r s)")
      case None
      then show ?thesis using e b [OF r] smp [OF r] by (simp add: in_slot_def in_samples_def)
    next
      case (Some m)
      then obtain tm rest h where q: "in_abs i r s = (tm, m) # rest" "sk_inputs (skel_of i s) ! r = Some h"
        by (auto simp: due_def in_abs_def split: list.splits if_splits option.splits)
      then have "port_ok (Some h) s" using ready r by (simp add: run_ready_def) metis
      then obtain q where "itf_queue h s = q" "spscq_wf q" by (rule port_okE)
      then have "take (length m) (rp_data (q_packets (itf_queue h s) ! q_read (itf_queue h s))) = m"
        using read_data q by (simp add: in_abs_def)
      then show ?thesis using Some q(2) e b [OF r] smp [OF r] by (simp add: in_slot_def in_samples_def slot_data_def t)
    qed
  qed
qed

text \<open>The queues after Run, when work has written outs to the outputs.\<close>

definition run_map :: "skel_cfg \<Rightarrow> nat \<Rightarrow> 'u sk_state \<Rightarrow> bytes list \<Rightarrow> cptr \<Rightarrow> rtdal_itfspscq_t option" where
  "run_map cfg i s outs =
     fold (upd_at (okey i s) (\<lambda>x q. snd (rtdal_itfspscq_push (rtdal_time_slot (ap_n s)) (int (length (outs ! fst x))) q)))
         (map (\<lambda>p. (p, out_slot i p s)) [0..<nof_output_itf cfg])
       (fold (upd_at (ikey i s) (\<lambda>_ q. snd (rtdal_itfspscq_release q))) (map (\<lambda>r. (r, in_slot i r s)) [0..<nof_input_itf cfg])
       (fold (upd_at (\<lambda>(p, ptr, bs). okey i s (p, ptr)) (\<lambda>(p, ptr, bs). fill_slot (the ptr) bs))
         (map (\<lambda>p. (p, out_slot i p s, outs ! p)) [0..<nof_output_itf cfg]) (ap_queues s)))"

lemma Run_queues:
  assumes ready: "run_ready cfg i s" and uc: "implements uc cfg i f" and ms: "ms = due_msgs cfg i s"
  defines "now \<equiv> rtdal_time_slot (ap_n s)"
  obtains s' where "Run uc cfg i s = Some (Ret (0, s'))" "length (f ms) = nof_output_itf cfg"
    "\<And>h. itf_elem h s' = itf_elem h s" "sk_inputs (skel_of i s') = sk_inputs (skel_of i s)" "sk_outputs (skel_of i s') = sk_outputs (skel_of i s)"
    "ap_queues s' = run_map cfg i s (f ms)"
proof -
  let ?ni = "nof_input_itf cfg" and ?no = "nof_output_itf cfg"
  let ?ins = "map (\<lambda>r. in_slot i r s) [0..<?ni]" and ?outs = "map (\<lambda>p. out_slot i p s) [0..<?no]"
  define s2 where "s2 = upd_skel i (\<lambda>k. k\<lparr>sk_rcv_len := set_lens (\<lambda>r. in_samples cfg i r s) [0..<?ni] (sk_rcv_len k)\<rparr>) s"
  define t where "t = upd_skel i (\<lambda>k. k\<lparr>sk_snd_len := clear_prefix ?no (sk_snd_len k)\<rparr>) s2"
  define bufs where "bufs = map (\<lambda>(p, ptr). case (ptr, sk_inputs (skel_of i t) ! p) of
       (Some slot, Some h) \<Rightarrow> Some (slot_data h slot t) | _ \<Rightarrow> None) (enumerate 0 ?ins)"
  obtain cx where cx: "nm_context (amod s i) = Some cx" and ctrl: "sk_ctrl_in (skel_of i s) = None"
    and pin: "\<forall>r \<in> set [0..<?ni]. port_ok (sk_inputs (skel_of i s) ! r) s"
    and pout: "\<forall>p \<in> set [0..<?no]. port_ok (sk_outputs (skel_of i s) ! p) s
     \<and> (\<forall>h. sk_outputs (skel_of i s) ! p = Some h \<longrightarrow> length (spscq_abs (itf_queue h s)) < q_max_msg (itf_queue h s))"
    and ln: "?no \<le> length (sk_snd_len (skel_of i s))"
    using ready by (auto simp: run_ready_def)
  have g: "get_inputs cfg i (cx_tstamp cx) [0..<?ni] s = Some (Ret (0, ?ins, s2))" using get_inputs_ok [OF pin] by (simp add: s2_def)
  have "out_slot i p s2 = out_slot i p s" for p by (simp add: out_slot_def s2_def)
  then have r: "request_outputs i [0..<?no] s2 = Some (Ret (0, ?outs, s2))"
    using request_outputs_ok [of "[0..<?no]" i s2] pout by (simp add: s2_def)
  have "shows_msgs cfg i bufs t ms" unfolding bufs_def ms
    by (rule shows_due [OF ready, where x = "\<lambda>k. clear_prefix ?no (sk_snd_len k)"]) (simp add: t_def s2_def upd_skel_upd_skel)
  moreover have "?no \<le> length (sk_snd_len (skel_of i t))" "\<forall>p < ?no. sk_snd_len (skel_of i t) ! p = 0"
    using ln by (simp_all add: t_def s2_def clear_prefix_def nth_append min_def)
  ultimately obtain n t' where w: "uc_work uc i bufs (map (\<lambda>x. x \<noteq> None) ?outs) t = (n, f ms, t')" "0 \<le> n" "work_keeps i t t'"
    "length (f ms) = ?no" "\<forall>p < ?no. sent_len cfg i n p t' = int (length (f ms ! p))"
    using uc unfolding implements_def by blast
  have el: "itf_elem h t' = itf_elem h s" for h using w(3) by (cases h) (simp add: work_keeps_def t_def s2_def)
  have k: "ap_queues t' = ap_queues s" "sk_inputs (skel_of i t') = sk_inputs (skel_of i s)"
    "sk_outputs (skel_of i t') = sk_outputs (skel_of i s)" "rtdal_time_slot (ap_n t') = now" "?no \<le> length (sk_snd_len (skel_of i t'))"
    using w(3) ln by (simp_all add: work_keeps_def t_def s2_def clear_prefix_def now_def)
  have keys: "okey i t' = okey i s" "ikey i t' = ikey i s" by (simp_all add: fun_eq_iff okey_def ikey_def k el split: option.split)
  define Q1 where "Q1 = fold (upd_at (\<lambda>(p, ptr, bs). okey i s (p, ptr)) (\<lambda>(p, ptr, bs). fill_slot (the ptr) bs))
         (map (\<lambda>p. (p, out_slot i p s, f ms ! p)) [0..<?no]) (ap_queues s)"
  have wr: "run_work uc cfg i ?ins ?outs s2 = (n, t'\<lparr>ap_queues := Q1\<rparr>)"
    unfolding run_work_def Let_def t_def [symmetric] bufs_def [symmetric] w(1)
    by (simp add: write_outputs_eq zip_ports [OF w(4)] keys k(1) Q1_def)
  have din: "\<forall>x \<in> set (enumerate 0 ?ins). \<forall>a. ikey i s x = Some a \<longrightarrow> a \<in> dom (ap_queues s)"
    using pin keys_dom(1) by (fastforce simp: enumerate_map_upt)
  have dout: "\<forall>x \<in> set (enumerate 0 ?outs). \<forall>a. okey i s x = Some a \<longrightarrow> a \<in> dom (ap_queues s)"
    using pout keys_dom(2) by (fastforce simp: enumerate_map_upt)
  define s4 where "s4 = upd_skel i (default_len cfg n ?outs) (t'\<lparr>ap_queues := Q1\<rparr>)"
  have s4: "sk_inputs (skel_of i s4) = sk_inputs (skel_of i s)" "sk_outputs (skel_of i s4) = sk_outputs (skel_of i s)"
    "ap_queues s4 = Q1" "itf_elem h s4 = itf_elem h s" "rtdal_time_slot (ap_n s4) = now" for h
    by (simp_all add: s4_def default_len_def k el)
  have keys4: "okey i s4 = okey i s" "ikey i s4 = ikey i s" by (simp_all add: fun_eq_iff okey_def ikey_def s4 split: option.split)
  define Q2 where "Q2 = fold (upd_at (ikey i s) (\<lambda>_ q. snd (rtdal_itfspscq_release q))) (map (\<lambda>r. (r, in_slot i r s)) [0..<?ni]) Q1"
  have rel: "release_inputs i (enumerate 0 ?ins) s4 = Some (Ret (0, s4\<lparr>ap_queues := Q2\<rparr>))"
    using din by (subst release_inputs_eq) (simp_all add: keys4 s4 Q1_def fold_upd_dom Q2_def enumerate_map_upt)
  have snd: "sk_snd_len (skel_of i s4) ! p = int (length (f ms ! p))" if "p < ?no" "out_slot i p s \<noteq> None" for p
  proof -
    have "sk_snd_len (skel_of i s4) ! p = sent_len cfg i n p t'"
      using that k(5) by (simp add: s4_def default_len_def nth_enumerate_eq sent_len_def)
    then show ?thesis using w(5) that by simp
  qed
  define Q3 where "Q3 = fold (upd_at (okey i s) (\<lambda>x q. snd (rtdal_itfspscq_push now (int (length (f ms ! fst x))) q)))
         (map (\<lambda>p. (p, out_slot i p s)) [0..<?no]) Q2"
  have "Q3 = fold (upd_at (okey i s) (\<lambda>x q. snd (rtdal_itfspscq_push now (sk_snd_len (skel_of i s4) ! fst x) q)))
         (map (\<lambda>p. (p, out_slot i p s)) [0..<?no]) Q2" unfolding Q3_def
    by (rule fold_upd_cong) (auto simp: okey_def snd split: option.splits)
  then have put: "put_outputs i (enumerate 0 ?outs) (s4\<lparr>ap_queues := Q2\<rparr>) = Some (Ret (0, s4\<lparr>ap_queues := Q3\<rparr>))"
    using dout by (subst put_outputs_eq) (simp_all add: keys4 s4 Q1_def Q2_def fold_upd_dom enumerate_map_upt)
  define s' where "s' = upd_skel i (\<lambda>k. k\<lparr>sk_rcv_len := clear_prefix ?ni (sk_rcv_len k)\<rparr>) (s4\<lparr>ap_queues := Q3\<rparr>)"
  have "Run uc cfg i s = Some (Ret (0, s'))"
    unfolding Run_def oesr_tstamp_def cx using w(2) put rel g r wr ctrl by (simp add: s4_def [symmetric] s'_def)
  then show ?thesis
  proof (rule that)
    show "itf_elem h s' = itf_elem h s" for h by (simp add: s'_def s4)
  qed (simp_all add: w(4) s'_def s4 Q1_def Q2_def Q3_def run_map_def now_def)
qed

lemma key_addr:
  "out_slot i p s = None \<longleftrightarrow> out_addr i p s = None" "okey i s (p, out_slot i p s) = out_addr i p s"
  "ikey i s (r, in_slot i r s) = (if due (rtdal_time_slot (ap_n s)) (in_abs i r s) = None then None else in_addr i r s)"
  by (auto simp: out_slot_def out_addr_def okey_def ikey_def in_slot_def in_addr_def split: option.splits)

section \<open>Run\<close>

definition msg_out :: "int \<Rightarrow> bytes \<Rightarrow> (int \<times> bytes) list" where
  "msg_out t m = (if m = [] then [] else [(t, m)])"

lemma fill_push_any:
  assumes "spscq_nb q" "length (spscq_abs q) < q_max_msg q" "length m \<le> q_max_msg_sz q"
  shows "spscq_abs (snd (rtdal_itfspscq_push now (int (length m)) (fill_slot (q_write q) m q))) = spscq_abs q @ msg_out (now + q_delay q) m
    \<and> spscq_nb (snd (rtdal_itfspscq_push now (int (length m)) (fill_slot (q_write q) m q)))"
proof (cases "m = []")
  case True
  then have "fill_slot (q_write q) m q = q" by (simp add: fill_slot_def)
  then show ?thesis using True assms(1) by (simp add: rtdal_itfspscq_push_def msg_out_def)
next
  case False
  then show ?thesis using fill_push [OF _ assms(2) False assms(3) refl, of now] assms(1) by (simp add: spscq_nb_def msg_out_def)
qed

text \<open>The effect on the queue of an input, of an output and of no port.\<close>

lemma run_map_in:
  assumes ready: "run_ready cfg i s" and r: "r < nof_input_itf cfg" "sk_inputs (skel_of i s) ! r = Some h" and q: "ap_queues s (hw h s) = Some q"
  shows "run_map cfg i s outs (hw h s) = Some (if due (rtdal_time_slot (ap_n s)) (in_abs i r s) = None then q else snd (rtdal_itfspscq_release q))"
proof -
  let ?a = "hw h s"
  have a: "in_addr i r s = Some ?a" using r by (simp add: in_addr_def)
  have dist: "\<forall>p < nof_output_itf cfg. out_addr i p s \<noteq> Some ?a" "\<forall>q < nof_input_itf cfg. in_addr i q s = Some ?a \<longrightarrow> q = r"
    using ready r a unfolding run_ready_def by metis+
  have wr: "fold (upd_at (\<lambda>(p, ptr, bs). okey i s (p, ptr)) g) (map (\<lambda>p. (p, out_slot i p s, outs ! p)) [0..<nof_output_itf cfg]) Q ?a = Q ?a" for g and Q :: "cptr \<Rightarrow> rtdal_itfspscq_t option"
    using dist(1) by (intro fold_upd_no_port) (simp add: key_addr)
  have put: "fold (upd_at (okey i s) g) (map (\<lambda>p. (p, out_slot i p s)) [0..<nof_output_itf cfg]) Q ?a = Q ?a" for g and Q :: "cptr \<Rightarrow> rtdal_itfspscq_t option"
    using dist(1) by (intro fold_upd_no_port) (simp add: key_addr)
  show ?thesis
  proof (cases "due (rtdal_time_slot (ap_n s)) (in_abs i r s) = None")
    case True
    then have "\<forall>q < nof_input_itf cfg. ikey i s (q, in_slot i q s) \<noteq> Some ?a" using dist(2) by (auto simp: key_addr)
    then have "fold (upd_at (ikey i s) g) (map (\<lambda>r. (r, in_slot i r s)) [0..<nof_input_itf cfg]) Q ?a = Q ?a" for g and Q :: "cptr \<Rightarrow> rtdal_itfspscq_t option"
      by (rule fold_upd_no_port)
    then show ?thesis using True q by (simp add: run_map_def wr put)
  next
    case False
    have "fold (upd_at (ikey i s) g) (map (\<lambda>r. (r, in_slot i r s)) [0..<nof_input_itf cfg]) Q ?a = map_option (g (r, in_slot i r s)) (Q ?a)" for g and Q :: "cptr \<Rightarrow> rtdal_itfspscq_t option"
    proof (rule fold_upd_ports [OF r(1)])
      show "ikey i s (r, in_slot i r s) = Some ?a" using False a by (simp add: key_addr)
      show "\<forall>q < nof_input_itf cfg. ikey i s (q, in_slot i q s) = Some ?a \<longrightarrow> q = r" using dist(2) by (auto simp: key_addr)
    qed
    then show ?thesis using False q by (auto simp: run_map_def wr put)
  qed
qed

lemma run_map_out:
  assumes ready: "run_ready cfg i s" and p: "p < nof_output_itf cfg" "sk_outputs (skel_of i s) ! p = Some h" and q: "ap_queues s (hw h s) = Some q"
  shows "run_map cfg i s outs (hw h s) = Some (snd (rtdal_itfspscq_push (rtdal_time_slot (ap_n s)) (int (length (outs ! p))) (fill_slot (q_write q) (outs ! p) q)))"
proof -
  let ?a = "hw h s"
  have a: "out_addr i p s = Some ?a" using p by (simp add: out_addr_def)
  have dist: "\<forall>r < nof_input_itf cfg. in_addr i r s \<noteq> Some ?a" "\<forall>q < nof_output_itf cfg. out_addr i q s = Some ?a \<longrightarrow> q = p"
    using ready p a unfolding run_ready_def by metis+
  have key: "okey i s (p, out_slot i p s) = Some ?a" "\<forall>q < nof_output_itf cfg. okey i s (q, out_slot i q s) = Some ?a \<longrightarrow> q = p"
    using a dist(2) by (simp_all add: key_addr)
  have "fold (upd_at (\<lambda>(p, ptr, bs). okey i s (p, ptr)) g) (map (\<lambda>p. (p, out_slot i p s, outs ! p)) [0..<nof_output_itf cfg]) Q ?a
      = map_option (g (p, out_slot i p s, outs ! p)) (Q ?a)" for g and Q :: "cptr \<Rightarrow> rtdal_itfspscq_t option"
    by (rule fold_upd_ports [OF p(1)]) (simp_all add: key)
  moreover have "fold (upd_at (ikey i s) g) (map (\<lambda>r. (r, in_slot i r s)) [0..<nof_input_itf cfg]) Q ?a = Q ?a" for g and Q :: "cptr \<Rightarrow> rtdal_itfspscq_t option"
    using dist(1) by (intro fold_upd_no_port) (simp add: key_addr)
  moreover have "fold (upd_at (okey i s) g) (map (\<lambda>p. (p, out_slot i p s)) [0..<nof_output_itf cfg]) Q ?a = map_option (g (p, out_slot i p s)) (Q ?a)" for g and Q :: "cptr \<Rightarrow> rtdal_itfspscq_t option"
    by (rule fold_upd_ports [where h = "\<lambda>p. (p, out_slot i p s)", OF p(1) key])
  ultimately show ?thesis using q p(2) by (simp add: run_map_def out_slot_def itf_queue_def)
qed

lemma run_map_other:
  assumes "\<forall>r < nof_input_itf cfg. in_addr i r s \<noteq> Some a" "\<forall>p < nof_output_itf cfg. out_addr i p s \<noteq> Some a"
  shows "run_map cfg i s outs a = ap_queues s a"
  unfolding run_map_def using assms by (subst fold_upd_no_port; simp add: key_addr)+

text \<open>C6. Run executes the contract of a module. When work computes f from the messages that it is shown, and the
  queues of the ports are different, do not block and have room, Run returns 0; it takes the
  oldest message from exactly the inputs where one is due in the current slot, appends the messages that f yields
  for them to the queues of the outputs, to be read after the delay of each queue, and leaves
  every other queue alone.\<close>

theorem Run_refines:
  assumes ready: "run_ready cfg i s" and uc: "implements uc cfg i f" and ms: "ms = due_msgs cfg i s" and now: "now = rtdal_time_slot (ap_n s)"
    and fits: "\<forall>p < nof_output_itf cfg. \<forall>h. sk_outputs (skel_of i s) ! p = Some h \<longrightarrow> length (f ms ! p) \<le> q_max_msg_sz (itf_queue h s)"
  shows "\<exists>s'. Run uc cfg i s = Some (Ret (0, s'))
     \<and> (\<forall>r < nof_input_itf cfg. in_abs i r s' = (if ms ! r = None then in_abs i r s else tl (in_abs i r s)) \<and> port_ok (sk_inputs (skel_of i s') ! r) s')
     \<and> (\<forall>p < nof_output_itf cfg. \<forall>h. sk_outputs (skel_of i s) ! p = Some h \<longrightarrow>
          out_abs i p s' = out_abs i p s @ msg_out (now + q_delay (itf_queue h s)) (f ms ! p) \<and> port_ok (sk_outputs (skel_of i s') ! p) s')
     \<and> (\<forall>a. (\<forall>r < nof_input_itf cfg. in_addr i r s \<noteq> Some a) \<and> (\<forall>p < nof_output_itf cfg. out_addr i p s \<noteq> Some a) \<longrightarrow> ap_queues s' a = ap_queues s a)"
proof -
  let ?ni = "nof_input_itf cfg" and ?no = "nof_output_itf cfg"
  obtain s' where s': "Run uc cfg i s = Some (Ret (0, s'))" "\<And>h. itf_elem h s' = itf_elem h s" "sk_inputs (skel_of i s') = sk_inputs (skel_of i s)"
    "sk_outputs (skel_of i s') = sk_outputs (skel_of i s)" "ap_queues s' = run_map cfg i s (f ms)"
    by (rule Run_queues [OF ready uc ms]) (simp only:)
  have at_in: "in_abs i r s' = (if ms ! r = None then in_abs i r s else tl (in_abs i r s)) \<and> port_ok (sk_inputs (skel_of i s') ! r) s'"
    if r: "r < ?ni" for r
  proof (cases "sk_inputs (skel_of i s) ! r")
    case None
    then show ?thesis using r by (simp add: in_abs_def s'(3) ms due_msgs_def due_def port_ok_def)
  next
    case (Some h)
    then have "port_ok (Some h) s" using ready r unfolding run_ready_def by metis
    then obtain q where q: "ap_queues s (hw h s) = Some q" "itf_queue h s = q" "spscq_nb q" "spscq_wf q" "0 \<le> q_delay q" by (auto elim: port_okE)
    have abs: "in_abs i r s = spscq_abs q" "ms ! r = due now (spscq_abs q)" using Some q r by (simp_all add: in_abs_def ms due_msgs_def now)
    have "spscq_abs q \<noteq> []" if "ms ! r \<noteq> None" using that abs(2) by (auto simp: due_def)
    then show ?thesis using run_map_in [OF ready r Some q(1), of "f ms"] q(2-5) release [OF q(4) _ refl] abs Some now
      by (simp add: in_abs_def s' itf_queue_def port_ok_def spscq_nb_def)
  qed
  have at_out: "out_abs i p s' = out_abs i p s @ msg_out (now + q_delay (itf_queue h s)) (f ms ! p) \<and> port_ok (sk_outputs (skel_of i s') ! p) s'"
    if p: "p < ?no" "sk_outputs (skel_of i s) ! p = Some h" for p h
  proof -
    have ok: "port_ok (Some h) s" and room: "length (spscq_abs (itf_queue h s)) < q_max_msg (itf_queue h s)"
      using ready p unfolding run_ready_def by metis+
    obtain q where q: "ap_queues s (hw h s) = Some q" "itf_queue h s = q" "spscq_nb q" using ok by (auto elim: port_okE)
    have "length (f ms ! p) \<le> q_max_msg_sz q" using fits p q(2) by blast
    then show ?thesis using run_map_out [OF ready p q(1), of "f ms"] fill_push_any [OF q(3), of "f ms ! p" now] room p q(2) now
      by (simp add: out_abs_def s'(2-5) itf_queue_def port_ok_def)
  qed
  have rest: "ap_queues s' a = ap_queues s a" if "\<forall>r < ?ni. in_addr i r s \<noteq> Some a" "\<forall>p < ?no. out_addr i p s \<noteq> Some a" for a
    unfolding s'(5) using that by (rule run_map_other)
  show ?thesis using s'(1) at_in at_out rest by (intro exI [of _ s'] conjI allI impI) auto
qed

text \<open>A module that copies its input to its output; a message that is due waits in the queue of the
  input.\<close>

definition ex_copy_cfg :: skel_cfg where
  "ex_copy_cfg = \<lparr>nof_input_itf = 1, nof_output_itf = 1, input_max_samples = 4, output_max_samples = 4, input_sample_sz = 1, output_sample_sz = 1\<rparr>"

definition ex_copy :: "unit user_code" where
  "ex_copy = ex_user\<lparr>uc_work := (\<lambda>i bufs outs t. let n = get_input_samples ex_copy_cfg i 0 t
     in (n, [case bufs ! 0 of None \<Rightarrow> [] | Some b \<Rightarrow> take (nat n) b], t))\<rparr>"

definition ex_pkt_queue :: rtdal_itfspscq_t where
  "ex_pkt_queue = the (fst (rtdal_itfspscq_new 1 True 2 4 0))"

definition ex_copy_state :: "unit sk_state" where
  "ex_copy_state = \<lparr>ap_n = ex_pair\<lparr>ns_w := nod_waveform_zero\<lparr>nw_nof_modules := 1, nw_modules := Some
       [nod_module_zero\<lparr>nm_parent := module_zero\<lparr>m_nof_inputs := 1, m_inputs := Some [interface_zero\<lparr>i_hw_itf := 64\<rparr>],
          m_nof_outputs := 1, m_outputs := Some [interface_zero\<lparr>i_hw_itf := 128\<rparr>]\<rparr>, nm_context := Some ex_cx\<rparr>]\<rparr>,
       ns_env := (ns_env ex_pair)\<lparr>me_skel := (\<lambda>_. ex_skel\<lparr>sk_inputs := [Some (ITF_READ, 0, 0)], sk_outputs := [Some (ITF_WRITE, 0, 0)],
          sk_rcv_len := [0], sk_snd_len := [0]\<rparr>)\<rparr>\<rparr>,
     ap_queues = [64 \<mapsto> snd (rtdal_itfspscq_push 5 2 (fill_slot 0 [7, 8] ex_pkt_queue)), 128 \<mapsto> ex_pkt_queue], ap_spscq_id = 3, ap_physic = []\<rparr>"

lemma ex_pkt_ok:
  "spscq_nb ex_pkt_queue" "spscq_abs ex_pkt_queue = []" "q_max_msg ex_pkt_queue = 2" "q_max_msg_sz ex_pkt_queue = 4" "q_delay ex_pkt_queue = 0" "q_write ex_pkt_queue = 0"
proof -
  have "rtdal_itfspscq_new 1 True 2 4 0 = (Some ex_pkt_queue, 2)" by (simp add: ex_pkt_queue_def rtdal_itfspscq_new_def)
  note w = new_wf [OF this, simplified]
  show "spscq_nb ex_pkt_queue" "spscq_abs ex_pkt_queue = []" "q_max_msg ex_pkt_queue = 2" "q_max_msg_sz ex_pkt_queue = 4" "q_delay ex_pkt_queue = 0" "q_write ex_pkt_queue = 0"
    using w by (simp_all add: spscq_nb_def) (simp add: ex_pkt_queue_def rtdal_itfspscq_new_def)
qed

lemma ex_copy_implements: "implements ex_copy ex_copy_cfg 0 (\<lambda>ms. [case ms ! 0 of None \<Rightarrow> [] | Some m \<Rightarrow> m])"
  unfolding implements_def
proof (intro allI impI, elim conjE)
  fix bufs outs and t :: "unit sk_state" and ms
  assume s: "shows_msgs ex_copy_cfg 0 bufs t ms" and z: "\<forall>p < nof_output_itf ex_copy_cfg. sk_snd_len (skel_of 0 t) ! p = 0"
  let ?n = "get_input_samples ex_copy_cfg 0 0 t" let ?f = "[case ms ! 0 of None \<Rightarrow> [] | Some m \<Rightarrow> m]"
  have one: "(0 :: nat) < nof_input_itf ex_copy_cfg" "nof_output_itf ex_copy_cfg = 1" "output_sample_sz ex_copy_cfg = 1" "input_sample_sz ex_copy_cfg = 1"
    by (simp_all add: ex_copy_cfg_def)
  have d: "cdiv (int k) 1 = int k" for k by (cases k) (simp_all add: cdiv_def)
  have m: "?n = int (length (?f ! 0)) \<and> (case bufs ! 0 of None \<Rightarrow> [] | Some b \<Rightarrow> take (nat ?n) b) = ?f ! 0"
    using s [unfolded shows_msgs_def, THEN conjunct2, THEN conjunct2, rule_format, OF one(1)] by (cases "ms ! 0") (auto simp: one d)
  have "uc_work ex_copy 0 bufs outs t = (?n, ?f, t)" using m by (simp add: ex_copy_def Let_def)
  moreover have "work_keeps 0 t t" by (simp add: work_keeps_def)
  moreover have "sent_len ex_copy_cfg 0 ?n p t = int (length (?f ! p))" if "p < nof_output_itf ex_copy_cfg" for p
    using that z m by (simp add: one sent_len_def)
  ultimately show "\<exists>n t'. uc_work ex_copy 0 bufs outs t = (n, ?f, t') \<and> 0 \<le> n \<and> work_keeps 0 t t' \<and> length ?f = nof_output_itf ex_copy_cfg
      \<and> (\<forall>p < nof_output_itf ex_copy_cfg. sent_len ex_copy_cfg 0 n p t' = int (length (?f ! p)))"
    using m one(2) by (intro exI [of _ ?n] exI [of _ t]) simp
qed

theorem Run_refines_witness:
  "\<exists>s'. Run ex_copy ex_copy_cfg 0 ex_copy_state = Some (Ret (0, s')) \<and> in_abs 0 0 ex_copy_state = [(5, [7, 8])] \<and> in_abs 0 0 s' = []
     \<and> out_abs 0 0 s' = [(5, [7, 8])]"
proof -
  let ?s = ex_copy_state let ?q = "snd (rtdal_itfspscq_push 5 2 (fill_slot 0 [7, 8] ex_pkt_queue))"
  have q: "spscq_nb ?q" "spscq_abs ?q = [(5, [7, 8])]" using fill_push_any [of ex_pkt_queue "[7, 8]" 5] ex_pkt_ok by (simp_all add: msg_out_def)
  have k: "skel_of 0 ?s = ex_skel\<lparr>sk_inputs := [Some (ITF_READ, 0, 0)], sk_outputs := [Some (ITF_WRITE, 0, 0)], sk_rcv_len := [0], sk_snd_len := [0]\<rparr>"
    by (simp add: skel_of_def ex_copy_state_def)
  have h: "hw (ITF_READ, 0, 0) ?s = 64" "hw (ITF_WRITE, 0, 0) ?s = 128"
    by (simp_all add: ex_copy_state_def itf_elem_def nmod_def get_elem_def itf_array_def)
  have qs: "itf_queue (ITF_READ, 0, 0) ?s = ?q" "itf_queue (ITF_WRITE, 0, 0) ?s = ex_pkt_queue"
    by (simp_all add: itf_queue_def h) (simp_all add: ex_copy_state_def)
  have t: "rtdal_time_slot (ap_n ?s) = 5" by (simp add: rtdal_time_slot_def ex_copy_state_def ex_pair_def ex_context_def)
  have ports: "port_ok (Some (ITF_READ, 0, 0)) ?s" "port_ok (Some (ITF_WRITE, 0, 0)) ?s"
    using q(1) ex_pkt_ok(1) by (simp_all add: port_ok_def h) (simp_all add: ex_copy_state_def)
  have "valid_slots ex_pkt_queue = []" using ex_pkt_ok(2) by (simp add: spscq_abs_def)
  then have r: "run_ready ex_copy_cfg 0 ?s"
    using ports ex_pkt_ok by (simp add: run_ready_def k in_addr_def out_addr_def h qs ex_copy_cfg_def)
      (simp add: ex_copy_state_def nmod_def get_elem_def ex_skel_def)
  have i: "in_abs 0 0 ?s = [(5, [7, 8])]" "out_abs 0 0 ?s = []" using q ex_pkt_ok by (simp_all add: in_abs_def out_abs_def k qs)
  have ms: "due_msgs ex_copy_cfg 0 ?s = [Some [7, 8]]" by (simp add: due_msgs_def ex_copy_cfg_def t i due_def)
  have fits: "\<forall>p < nof_output_itf ex_copy_cfg. \<forall>h. sk_outputs (skel_of 0 ?s) ! p = Some h \<longrightarrow>
      length ([case [Some [7, 8 :: byte]] ! 0 of None \<Rightarrow> [] | Some m \<Rightarrow> m] ! p) \<le> q_max_msg_sz (itf_queue h ?s)"
    using ex_pkt_ok by (simp add: k qs ex_copy_cfg_def)
  show ?thesis using Run_refines [OF r ex_copy_implements ms [symmetric] t [symmetric] fits] i k ex_pkt_ok
    by (elim exE conjE) (auto simp: ex_copy_cfg_def qs msg_out_def)
qed

end
