(* ===== verification/Ctrl_Skeleton.thy ===== *)
theory Ctrl_Skeleton
  imports Skeleton_Run
begin

text \<open>
  The skeleton of control modules (oesr/src/skeleton/ctrl_skeleton.c): modules without data
  ports that set parameters of other modules through control packets.

  The static variables are the record cskel, passed along with the state of the module
  interface. The table remote_params_db has a value for each parameter in memory of the user
  code; the model keeps the bytes in the table. The table local_params_db is a list that ends
  where the code finds a null name. ctrl_init and ctrl_work are parameters. None stands for an
  access outside an object or a failed assertion.

  The theorems: a value of at most 8 bytes that a control module sends is the value that the
  destination reads once its Run has read the control port; a longer value is always refused.
\<close>

section \<open>State\<close>

definition CS_MAX_OUTPUTS :: nat where "CS_MAX_OUTPUTS = 100"
definition CS_MAX_VARIABLES :: nat where "CS_MAX_VARIABLES = 200"
definition MAX_INPUT_PACKETS :: nat where "MAX_INPUT_PACKETS = 20"
definition CTRL_PKT_HEADER_SZ :: nat where "CTRL_PKT_HEADER_SZ = 80"

record remote_params_db_t =
  rd_module_name :: bytes
  rd_variable_name :: bytes
  rd_value :: bytes
  rd_size :: int

record my_params_db_t =
  ld_name :: bytes
  ld_value :: bytes
  ld_size :: int

record mod_addr_t =
  ma_module_idx :: int
  ma_itf :: "itf_h option"

text \<open>pa_addr is the index of the entry of outputs that the pointer addr refers to.\<close>

record pm_addr_t =
  pa_module_idx :: int
  pa_variable_idx :: int
  pa_addr :: "nat option"

record cskel =
  ck_ctrl_in :: "itf_h option"
  ck_remote_db :: "remote_params_db_t list"
  ck_local_db :: "my_params_db_t list"
  ck_outputs :: "mod_addr_t list"
  ck_remote :: "pm_addr_t list"
  ck_local :: "var_h option list"
  ck_nof_remote :: nat
  ck_nof_local :: int
  ck_nof_remote_itf :: int
  ck_in_buffer :: bytes
  ck_out_buffer :: bytes
  ck_nof_output_data_itf :: int
  ck_send_always :: bool

type_synonym 'u ck_state = "cskel \<times> 'u sk_state"

text \<open>The entries up to the one with a null name.\<close>

fun set_remote_params :: "remote_params_db_t list \<Rightarrow> cskel \<Rightarrow> int \<times> cskel" where
  "set_remote_params [] k = (0, k)"
| "set_remote_params (p # ps) k =
     (if ck_nof_remote k < CS_MAX_VARIABLES
      then let (i, k1) = set_remote_params ps (k\<lparr>ck_remote_db := (ck_remote_db k)[ck_nof_remote k := p], ck_nof_remote := ck_nof_remote k + 1\<rparr>)
           in (i + 1, k1)
      else (0, k))"

definition cs_init_memory :: "cskel \<Rightarrow> cskel" where
  "cs_init_memory k = k\<lparr>ck_outputs := replicate CS_MAX_OUTPUTS \<lparr>ma_module_idx = 0, ma_itf = None\<rparr>,
     ck_remote := replicate CS_MAX_VARIABLES \<lparr>pa_module_idx = 0, pa_variable_idx = 0, pa_addr = None\<rparr>,
     ck_local := replicate CS_MAX_VARIABLES None\<rparr>"

section \<open>Sending\<close>

text \<open>The buffer val has size bytes. The bytes behind ctrl_out_buffer are read only when the queue
  accepts a message that is longer than the buffer.\<close>

definition ctrl_skeleton_send_idx :: "int \<Rightarrow> bytes \<Rightarrow> 'u ck_state \<Rightarrow> (int \<times> 'u ck_state) outcome option" where
  "ctrl_skeleton_send_idx dest_idx val = (\<lambda>(k, s).
     if dest_idx < 0 \<or> dest_idx > int (ck_nof_remote k) then Some (Ret (-1, k, s))
     else if nat dest_idx \<ge> CS_MAX_VARIABLES \<or> length val > CTRL_PKT_VALUE_SZ then None
     else let a = ck_remote k ! nat dest_idx;
              k1 = k\<lparr>ck_out_buffer := memcpy_at (ck_out_buffer k) 0 (int_bytes (pa_variable_idx a) @ int_bytes (int (length val)) @ val)\<rparr>;
              len = length val + CTRL_PKT_HEADER_SZ;
              buf = take len (ck_out_buffer k1 @ replicate len 0)
          in case Option.bind (pa_addr a) (\<lambda>j. ma_itf (ck_outputs k ! j)) of
               None \<Rightarrow> None
             | Some h \<Rightarrow> bind_oo (oesr_itf_write (rtdal_time_slot (ap_n s)) h buf s) (\<lambda>(n, s1).
                 if n = -1 then Some (Ret (-1, k1, s1))
                 else if len > CTRL_IN_BUFFER_SZ then None
                 else if n = 0 then Some (Ret (-1, k1, s1)) else Some (Ret (0, k1, s1))))"

text \<open>The loop ends at the first entry whose module name or variable name matches.\<close>

definition ctrl_skeleton_send_name :: "bytes \<Rightarrow> bytes \<Rightarrow> bytes \<Rightarrow> 'u ck_state \<Rightarrow> (int \<times> 'u ck_state) outcome option" where
  "ctrl_skeleton_send_name module_name variable_name val = (\<lambda>(k, s).
     let i = find_idx (\<lambda>x. c_str (rd_module_name x) = c_str module_name \<or> c_str (rd_variable_name x) = c_str variable_name)
               (take (ck_nof_remote k) (ck_remote_db k))
     in if i = ck_nof_remote k then Some (Ret (-1, k, s)) else ctrl_skeleton_send_idx (int i) val (k, s))"

fun remote_parameters_sendall :: "nat list \<Rightarrow> 'u ck_state \<Rightarrow> (int \<times> 'u ck_state) outcome option" where
  "remote_parameters_sendall [] ks = Some (Ret (0, ks))"
| "remote_parameters_sendall (i # is) ks =
     (let x = ck_remote_db (fst ks) ! i in
      if rd_size x < 0 \<or> int (length (rd_value x)) < rd_size x then None
      else bind_oo (ctrl_skeleton_send_idx (int i) (take (nat (rd_size x)) (rd_value x)) ks)
        (\<lambda>(n, ks1). if n \<noteq> 0 then Some (Ret (-1, ks1)) else remote_parameters_sendall is ks1))"

section \<open>Initialisation\<close>

definition init_ctrl_input :: "nat \<Rightarrow> 'u ck_state \<Rightarrow> (int \<times> 'u ck_state) option" where
  "init_ctrl_input i = (\<lambda>(k, s). map_option (\<lambda>(h, s1). (case h of
       None \<Rightarrow> if oesr_error_code i s1 = Some OESR_ERROR_NOTREADY then 0 else -1
     | Some _ \<Rightarrow> 1, k\<lparr>ck_ctrl_in := h\<rparr>, s1)) (oesr_itf_create 0 0 ITF_READ (int CTRL_IN_BUFFER_SZ) i s))"

fun init_remote_variables :: "calloc_fun \<Rightarrow> nat \<Rightarrow> nat list \<Rightarrow> 'u ck_state \<Rightarrow> (int \<times> 'u ck_state) option" where
  "init_remote_variables calloc_ok i [] ks = Some (int (ck_nof_remote (fst ks)), ks)"
| "init_remote_variables calloc_ok i (v # vs) (k, s) =
     (let x = ck_remote_db k ! v; m = oesr_get_module_idx (rd_module_name x) s;
          k1 = k\<lparr>ck_remote := (ck_remote k)[v := (ck_remote k ! v)\<lparr>pa_module_idx := m\<rparr>]\<rparr> in
      if m = -1 then Some (-1, k1, s)
      else let w = oesr_get_variable_idx (rd_module_name x) (rd_variable_name x) s;
               k2 = k1\<lparr>ck_remote := (ck_remote k1)[v := (ck_remote k1 ! v)\<lparr>pa_variable_idx := w\<rparr>]\<rparr> in
        if w \<noteq> -1 then init_remote_variables calloc_ok i vs (k2, s)
        else case oesr_var_param_create_remote calloc_ok m (rd_variable_name x) (rd_size x) i s of
            None \<Rightarrow> None
          | Some (None, s1) \<Rightarrow> Some (-1, k2, s1)
          | Some (Some h, s1) \<Rightarrow> init_remote_variables calloc_ok i vs
              (k2\<lparr>ck_remote := (ck_remote k2)[v := (ck_remote k2 ! v)\<lparr>pa_variable_idx := v_id (avar h s1) - 1\<rparr>]\<rparr>, s1))"

text \<open>The entry of outputs for a module: the first one that belongs to the module, else the
  first free one.\<close>

definition find_output :: "int \<Rightarrow> mod_addr_t list \<Rightarrow> nat option" where
  "find_output m outs =
     (let j = find_idx (\<lambda>x. ma_module_idx x = m) outs; k = find_idx (\<lambda>x. ma_module_idx x = -1) outs
      in if j < length outs then Some j else if k < length outs then Some k else None)"

fun scan_variables :: "nat list \<Rightarrow> cskel \<Rightarrow> bool \<times> cskel" where
  "scan_variables [] k = (True, k)"
| "scan_variables (v # vs) k = (case find_output (pa_module_idx (ck_remote k ! v)) (ck_outputs k) of
      None \<Rightarrow> (False, k)
    | Some j \<Rightarrow> scan_variables vs (k\<lparr>ck_remote := (ck_remote k)[v := (ck_remote k ! v)\<lparr>pa_addr := Some j\<rparr>],
         ck_outputs := (ck_outputs k)[j := (ck_outputs k ! j)\<lparr>ma_module_idx := pa_module_idx (ck_remote k ! v)\<rparr>]\<rparr>))"

text \<open>The number of entries in use, or -1.\<close>

definition scan_remote_itf :: "nat \<Rightarrow> cskel \<Rightarrow> int \<times> cskel" where
  "scan_remote_itf nof_variables k =
     (let (ok, k1) = scan_variables [0..<nof_variables] (k\<lparr>ck_outputs := map (\<lambda>x. x\<lparr>ma_module_idx := -1\<rparr>) (ck_outputs k)\<rparr>)
      in (if ok then int (length (filter (\<lambda>x. ma_module_idx x \<noteq> -1) (ck_outputs k1))) else -1, k1))"

fun init_local_variables :: "nat \<Rightarrow> nat list \<Rightarrow> 'u ck_state \<Rightarrow> int \<times> 'u ck_state" where
  "init_local_variables i [] (k, s) = (int (min (length (ck_local_db k)) CS_MAX_VARIABLES), k, s)"
| "init_local_variables i (v # vs) (k, s) =
     (let (h, s1) = oesr_var_param_get (ld_name (ck_local_db k ! v)) i s; k1 = k\<lparr>ck_local := (ck_local k)[v := h]\<rparr>
      in if h = None then (-1, k1, s1) else init_local_variables i vs (k1, s1))"

fun close_local_variables :: "nat list \<Rightarrow> 'u ck_state \<Rightarrow> 'u ck_state" where
  "close_local_variables [] ks = ks"
| "close_local_variables (v # vs) (k, s) = close_local_variables vs
     (k, case ck_local k ! v of None \<Rightarrow> s | Some h \<Rightarrow> snd (oesr_var_close h s))"

text \<open>snprintf of ''delay_'' and a name into 64 bytes; the result ends with a null byte.\<close>

definition delay_name :: "bytes \<Rightarrow> bytes" where
  "delay_name name = take 63 (map (\<lambda>c. word_of_nat (of_char c)) ''delay_'' @ c_str name) @ [0]"

text \<open>The variable delay is not initialised: it keeps the value of the last parameter that was
  read.\<close>

fun init_remote_itf :: "('u sk_state \<Rightarrow> cptr) \<Rightarrow> nat \<Rightarrow> nat list \<Rightarrow> int \<Rightarrow> 'u ck_state \<Rightarrow> (int \<times> 'u ck_state) option" where
  "init_remote_itf addr i [] delay ks = Some (0, ks)"
| "init_remote_itf addr i (o' # os) delay (k, s) =
     (let m = ma_module_idx (ck_outputs k ! o'); port = m - oesr_module_id i s + ck_nof_output_data_itf k in
      if port < 0 then Some (-1, k, s)
      else let j = find_idx (\<lambda>x. pa_module_idx x = m) (take (ck_nof_remote k) (ck_remote k));
               r = (if j < ck_nof_remote k
                    then case param_get_int_name (rtdal_time_slot (ap_n s)) (delay_name (rd_module_name (ck_remote_db k ! j))) delay i s of
                           None \<Rightarrow> None
                         | Some (n, d, s1) \<Rightarrow> if n = 0 then map_option (\<lambda>(e, s2). (e, d, s2)) (oesr_itf_delay_set port ITF_WRITE d i s1)
                             else Some (0, d, s1)
                    else Some (0, delay, s))
           in case r of
                None \<Rightarrow> None
              | Some (e, d, s1) \<Rightarrow>
                  if e \<noteq> 0 then Some (-1, k, s1)
                  else case oesr_itf_create (addr s1) port ITF_WRITE (int CTRL_IN_BUFFER_SZ) i s1 of
                      None \<Rightarrow> None
                    | Some (h, s2) \<Rightarrow>
                        let k1 = k\<lparr>ck_outputs := (ck_outputs k)[o' := (ck_outputs k ! o')\<lparr>ma_itf := h\<rparr>]\<rparr>
                        in if h = None \<and> oesr_error_code i s2 \<noteq> Some OESR_ERROR_NOTFOUND then Some (-1, k1, s2)
                           else init_remote_itf addr i os d (k1, s2))"

fun close_remote_itf :: "nat list \<Rightarrow> 'u ck_state \<Rightarrow> 'u ck_state option" where
  "close_remote_itf [] ks = Some ks"
| "close_remote_itf (o' # os) (k, s) = (case ma_itf (ck_outputs k ! o') of
      None \<Rightarrow> None
    | Some h \<Rightarrow> (case oesr_itf_close h s of None \<Rightarrow> None | Some (r, s1) \<Rightarrow> close_remote_itf os (k, s1)))"

text \<open>An error of the control input (-1) is not zero and does not end Init.\<close>

definition Ctrl_Init :: "('u ck_state \<Rightarrow> int \<times> 'u ck_state) \<Rightarrow> calloc_fun \<Rightarrow> ('u sk_state \<Rightarrow> cptr) \<Rightarrow> int \<Rightarrow> nat \<Rightarrow> 'u ck_state \<Rightarrow> (int \<times> 'u ck_state) option" where
  "Ctrl_Init ctrl_init calloc_ok addr delay i ks =
     (let (c, k0, s0) = ctrl_init ks in
      if c = -1 then Some (-1, k0, s0) else if c = 0 then Some (0, k0, s0)
      else case init_ctrl_input i ((cs_init_memory k0)\<lparr>ck_ctrl_in := None\<rparr>, s0) of
          None \<Rightarrow> None
        | Some (n, k1, s1) \<Rightarrow>
            if n = 0 then Some (0, k1, s1)
            else case param_get_int_name (rtdal_time_slot (ap_n s1)) (map (\<lambda>c. word_of_nat (of_char c)) ''nof_output_data_itf'' @ [0]) 0 i s1 of
                None \<Rightarrow> None
              | Some (e, d, s2) \<Rightarrow>
                  let k2 = k1\<lparr>ck_nof_output_data_itf := d\<rparr> in
                  case init_remote_variables calloc_ok i [0..<ck_nof_remote k2] (k2, s2) of
                    None \<Rightarrow> None
                  | Some (n, k3, s3) \<Rightarrow>
                      if n = -1 then Some (-1, k3, s3)
                      else let (m, k4) = scan_remote_itf (ck_nof_remote k3) k3; k5 = k4\<lparr>ck_nof_remote_itf := m\<rparr> in
                        if m = -1 then Some (-1, k5, s3)
                        else let (l, k6, s6) = init_local_variables i [0..<min (length (ck_local_db k5)) CS_MAX_VARIABLES] (k5, s3);
                                 k7 = k6\<lparr>ck_nof_local := l\<rparr> in
                          if l = -1 then Some (-1, k7, s6)
                          else map_option (\<lambda>(r, ks'). (if r \<noteq> 0 then -1 else 1, ks'))
                            (init_remote_itf addr i [0..<nat m] delay (k7, s6)))"

section \<open>Execution\<close>

fun local_parameters_update :: "nat \<Rightarrow> nat list \<Rightarrow> 'u ck_state \<Rightarrow> (int \<times> 'u ck_state) option" where
  "local_parameters_update i [] ks = Some (0, ks)"
| "local_parameters_update i (v # vs) (k, s) = (case ck_local k ! v of
      None \<Rightarrow> None
    | Some h \<Rightarrow> (let x = ck_local_db k ! v in
        case oesr_var_param_get_value (rtdal_time_slot (ap_n s)) h (ld_size x) i s of
          None \<Rightarrow> None
        | Some (n, bs, s1) \<Rightarrow>
            if n = -1 then Some (-1, k, s1)
            else local_parameters_update i vs (k\<lparr>ck_local_db := (ck_local_db k)[v := x\<lparr>ld_value := memcpy_at (ld_value x) 0 bs\<rparr>]\<rparr>, s1)))"

text \<open>process_ctrl_packet is the same function as in skeleton.c.\<close>

fun process_packets :: "nat \<Rightarrow> bytes \<Rightarrow> nat list \<Rightarrow> 'u sk_state \<Rightarrow> (int \<times> 'u sk_state) option" where
  "process_packets i buf [] s = Some (0, s)"
| "process_packets i buf (j # js) s = (case process_ctrl_packet i (take CTRL_IN_BUFFER_SZ (drop (j * CTRL_IN_BUFFER_SZ) buf)) s of
      None \<Rightarrow> None
    | Some (n, s1) \<Rightarrow> if n \<noteq> 0 then Some (-1, s1) else process_packets i buf js s1)"

partial_function (option) process_ctrl_packets :: "nat \<Rightarrow> itf_h \<Rightarrow> 'u ck_state \<Rightarrow> (int \<times> 'u ck_state) outcome option" where
  "process_ctrl_packets i h ks = (case oesr_tstamp i (snd ks) of None \<Rightarrow> None | Some tstamp \<Rightarrow>
     (case oesr_itf_read (rtdal_time_slot (ap_n (snd ks))) h (CTRL_IN_BUFFER_SZ * MAX_INPUT_PACKETS) tstamp (snd ks) of
        None \<Rightarrow> None
      | Some Block \<Rightarrow> Some Block
      | Some (Ret ((n, bs), s1)) \<Rightarrow>
          if n = -1 then Some (Ret (-1, fst ks, s1))
          else if n > 0 then
            (let k1 = (fst ks)\<lparr>ck_in_buffer := memcpy_at (ck_in_buffer (fst ks)) 0 bs\<rparr>
             in case process_packets i (ck_in_buffer k1) [0..<nat n div CTRL_IN_BUFFER_SZ] s1 of
                  None \<Rightarrow> None
                | Some (r, s2) \<Rightarrow> if r \<noteq> 0 then Some (Ret (-1, k1, s2)) else process_ctrl_packets i h (k1, s2))
          else Some (Ret (0, fst ks, s1))))"

declare process_ctrl_packets.simps [code]

definition Ctrl_Run :: "(int \<Rightarrow> 'u ck_state \<Rightarrow> int \<times> 'u ck_state) \<Rightarrow> nat \<Rightarrow> 'u ck_state \<Rightarrow> (int \<times> 'u ck_state) outcome option" where
  "Ctrl_Run ctrl_work i ks = (case oesr_tstamp i (snd ks) of None \<Rightarrow> None | Some tslot \<Rightarrow>
     bind_oo (case ck_ctrl_in (fst ks) of None \<Rightarrow> Some (Ret (0, ks)) | Some h \<Rightarrow> process_ctrl_packets i h ks) (\<lambda>(r, ks1).
     if r \<noteq> 0 then Some (Ret (-1, ks1))
     else case local_parameters_update i [0..<nat (ck_nof_local (fst ks1))] ks1 of None \<Rightarrow> None | Some (r, ks2) \<Rightarrow>
     if r \<noteq> 0 then Some (Ret (-1, ks2))
     else let (r, ks3) = ctrl_work tslot ks2 in
     if r \<noteq> 0 then Some (Ret (-1, ks3))
     else if ck_send_always (fst ks3)
     then bind_oo (remote_parameters_sendall [0..<ck_nof_remote (fst ks3)] ks3) (\<lambda>(r, ks4). Some (Ret (if r \<noteq> 0 then -1 else 0, ks4)))
     else Some (Ret (0, ks3))))"

definition Ctrl_Stop :: "'u ck_state \<Rightarrow> (int \<times> 'u ck_state) option" where
  "Ctrl_Stop ks = map_option (\<lambda>ks1. (0, ks1)) (close_remote_itf [0..<nat (ck_nof_remote_itf (fst ks))] ks)"

section \<open>Parameters of the destination\<close>

text \<open>The value of parameter v of module i in the current mode.\<close>

definition var_value :: "nat \<Rightarrow> int \<Rightarrow> 'e api \<Rightarrow> bytes option" where
  "var_value i v s = mode_block (avar (i, nat v) s) (mm_cur_mode (m_mode (aparent s i)))"

definition variable_ok :: "nat \<Rightarrow> int \<Rightarrow> nat \<Rightarrow> 'e api \<Rightarrow> bool" where
  "variable_ok i v L s \<longleftrightarrow> 0 \<le> v \<and> v < m_nof_variables (aparent s i) \<and> v_size (avar (i, nat v) s) = int L
     \<and> (\<exists>b. var_value i v s = Some b \<and> length b = L)
     \<and> (\<exists>ms xs. nw_modules (ns_w (ap_n s)) = Some ms \<and> i < length ms \<and> m_variables (aparent s i) = Some xs \<and> nat v < length xs)"

text \<open>States that differ in parameters only by the value of parameter v of module i.\<close>

definition sets_var :: "nat \<Rightarrow> int \<Rightarrow> bytes \<Rightarrow> 'u sk_state \<Rightarrow> 'u sk_state \<Rightarrow> bool" where
  "sets_var i v val s t \<longleftrightarrow> var_value i v t = Some val \<and> (\<forall>w \<ge> 0. w \<noteq> v \<longrightarrow> var_value i w t = var_value i w s)
     \<and> (\<forall>w L. variable_ok i w L s \<longrightarrow> variable_ok i w L t) \<and> ap_queues t = ap_queues s \<and> (\<forall>h. itf_elem h t = itf_elem h s)
     \<and> (\<forall>j. skel_of j t = skel_of j s) \<and> ns_c (ap_n t) = ns_c (ap_n s)"

lemma upd_avar_frame:
  "ap_queues (upd_avar h f s) = ap_queues s" "itf_elem h' (upd_avar h f s) = itf_elem h' s" "skel_of j (upd_avar h f s) = skel_of j s"
  "ns_c (ap_n (upd_avar h f s)) = ns_c (ap_n s)" "m_mode (aparent (upd_avar h f s) j) = m_mode (aparent s j)"
  "m_nof_variables (aparent (upd_avar h f s) j) = m_nof_variables (aparent s j)"
proof -
  show "itf_elem h' (upd_avar h f s) = itf_elem h' s"
    by (cases h'; cases "fst h'") (simp_all add: itf_elem_def itf_array_def upd_avar_def
        aparent_upd [where g = m_inputs] aparent_upd [where g = m_outputs])
qed (simp_all add: upd_avar_def aparent_upd [where g = m_mode] aparent_upd [where g = m_nof_variables],
     simp_all add: upd_aparent_def skel_of_def, simp_all add: upd_amod_def)

lemma avar_upd:
  assumes "nw_modules (ns_w (ap_n s)) = Some ms" "i < length ms" "m_variables (aparent s i) = Some xs" "k < length xs"
  shows "avar (i, l) (upd_avar (i, k) f s) = (if l = k then f (avar (i, k) s) else avar (i, l) s)"
    "m_variables (aparent (upd_avar (i, k) f s) i) = Some (xs[k := f (avar (i, k) s)])"
  using assms by (auto simp: avar_def upd_avar_def upd_aparent_def amod_upd_same upd_elem_def get_elem_def)

lemma set_value_sets:
  assumes v: "variable_ok i v (length val) s" and val: "val \<noteq> []"
  obtains t where "oesr_var_param_set_value_idx v val i s = Some (int (length val), t)" "sets_var i v val s t"
proof -
  obtain ms xs b where x: "nw_modules (ns_w (ap_n s)) = Some ms" "i < length ms" "m_variables (aparent s i) = Some xs" "nat v < length xs"
    and b: "var_value i v s = Some b" "length b = length val"
    and o: "0 \<le> v" "v < m_nof_variables (aparent s i)" "v_size (avar (i, nat v) s) = int (length val)"
    using v by (auto simp: variable_ok_def)
  let ?mode = "mm_cur_mode (m_mode (aparent s i))"
  let ?f = "\<lambda>x. x\<lparr>v_init_value := (v_init_value x)[nat ?mode := Some (memcpy_at b 0 (take (length val) val))]\<rparr>"
  define t where "t = upd_avar (i, nat v) ?f s"
  have mb: "mode_block (avar (i, nat v) s) ?mode = Some b" using b by (simp add: var_value_def)
  have set: "oesr_var_param_set_value_idx v val i s = Some (int (length val), t)"
    using o val mb b(2) by (simp add: oesr_var_param_set_value_idx_def oesr_var_param_set_value_def t_def Let_def)
  have mc: "memcpy_at b 0 (take (length val) val) = val" using b(2) by (simp add: memcpy_at_def)
  note av = avar_upd [OF x, where f = ?f, folded t_def]
  have ln: "0 \<le> ?mode \<and> nat ?mode < length (v_init_value (avar (i, nat v) s))" using mb by (simp add: mode_block_def split: if_splits)
  have new: "var_value i v t = Some val" using ln mc by (simp add: var_value_def av upd_avar_frame(5) t_def [symmetric] mode_block_def) (simp add: t_def upd_avar_frame)
  have old: "var_value i w t = var_value i w s" if "0 \<le> w" "w \<noteq> v" for w
    using that o(1) by (simp add: var_value_def av t_def [symmetric] eq_nat_nat_iff) (simp add: t_def upd_avar_frame)
  have ok: "variable_ok i w L t" if w: "variable_ok i w L s" for w L
  proof -
    have "\<exists>ms ys. nw_modules (ns_w (ap_n t)) = Some ms \<and> i < length ms \<and> m_variables (aparent t i) = Some ys \<and> nat w < length ys"
      using x w av(2) by (simp add: variable_ok_def) (simp add: t_def upd_avar_def upd_aparent_def)
    moreover have "v_size (avar (i, nat w) t) = int L" using w by (auto simp: variable_ok_def av)
    moreover have "\<exists>b. var_value i w t = Some b \<and> length b = L"
      using w old [of w] new o(3) by (cases "w = v") (auto simp: variable_ok_def)
    ultimately show ?thesis using w by (simp add: variable_ok_def) (simp add: t_def upd_avar_frame)
  qed
  have "sets_var i v val s t" unfolding sets_var_def using new old ok by (simp add: t_def upd_avar_frame)
  with set show ?thesis by (rule that)
qed

section \<open>Packets\<close>

text \<open>The bytes that a control module sends for value val of parameter v.\<close>

definition ctrl_msg :: "int \<Rightarrow> bytes \<Rightarrow> bytes \<Rightarrow> bool" where
  "ctrl_msg v val m \<longleftrightarrow> in_int32 v \<and> 0 < length val \<and> length val \<le> 8
     \<and> (\<exists>ob. length ob = 88 \<and> m = take (length val + 80) (memcpy_at ob 0 (int_bytes v @ int_bytes (int (length val)) @ val)))"

lemma ctrl_msg_length: "ctrl_msg v val m \<Longrightarrow> length m = length val + 80"
  by (auto simp: ctrl_msg_def memcpy_at_def)

lemma ctrl_msg_parse:
  assumes "ctrl_msg v val m" "length buf = 88"
  defines "b \<equiv> memcpy_at buf 0 m"
  shows "ctrl_pm_idx b = v" "ctrl_size b = int (length val)" "take (length val) (ctrl_value b) = val" "length b = 88"
proof -
  obtain ob where m: "length ob = 88" "m = take (length val + 80) (memcpy_at ob 0 (int_bytes v @ int_bytes (int (length val)) @ val))"
    and v: "in_int32 v" "length val \<le> 8" using assms(1) by (auto simp: ctrl_msg_def)
  have l: "in_int32 (int (length val))" using v(2) by (simp add: in_int32_def)
  have e: "b = int_bytes v @ int_bytes (int (length val)) @ val @ take 72 (drop (8 + length val) ob) @ drop (length val + 80) buf"
    using m v(2) by (simp add: b_def memcpy_at_def add.commute)
  show "length b = 88" using e m(1) assms(2) v(2) by simp
  show "ctrl_pm_idx b = v" using v(1) by (simp add: ctrl_pm_idx_def e)
  show "ctrl_size b = int (length val)" using l by (simp add: ctrl_size_def e)
  show "take (length val) (ctrl_value b) = val" using v(2) by (simp add: ctrl_value_def e CTRL_PKT_VALUE_SZ_def)
qed

lemma process_sets:
  assumes m: "ctrl_msg v val m" "length buf = 88" and ok: "variable_ok i v (length val) s"
  obtains t where "process_ctrl_packet i (memcpy_at buf 0 m) s = Some (0, t)" "sets_var i v val s t"
proof -
  have v: "val \<noteq> []" "length val \<le> 8" using m(1) by (auto simp: ctrl_msg_def)
  obtain t where t: "oesr_var_param_set_value_idx v val i s = Some (int (length val), t)" "sets_var i v val s t"
    using ok v(1) by (rule set_value_sets)
  have "process_ctrl_packet i (memcpy_at buf 0 m) s = Some (0, t)"
    using t(1) v by (simp add: process_ctrl_packet_def ctrl_msg_parse [OF m] CTRL_PKT_VALUE_SZ_def)
  then show ?thesis using t(2) by (rule that)
qed

text \<open>One packet is taken from the queue of the control port and applied.\<close>

lemma read_ctrl_step:
  assumes q: "ap_queues s (hw h s) = Some q" "spscq_nb q" "spscq_abs q = (t, m) # rest" "t \<le> rtdal_time_slot (ap_n s)"
    and m: "ctrl_msg v val m" "variable_ok i v (length val) s" "length (sk_ctrl_buffer (skel_of i s)) = 88"
  obtains s' q' where "read_ctrl i ts h s = read_ctrl i ts h s'" "ap_queues s' (hw h s') = Some q'" "spscq_nb q'" "spscq_abs q' = rest"
    "rtdal_time_slot (ap_n s') = rtdal_time_slot (ap_n s)" "length (sk_ctrl_buffer (skel_of i s')) = 88"
    "var_value i v s' = Some val" "\<forall>w \<ge> 0. w \<noteq> v \<longrightarrow> var_value i w s' = var_value i w s" "\<forall>w L. variable_ok i w L s \<longrightarrow> variable_ok i w L s'"
proof -
  let ?now = "rtdal_time_slot (ap_n s)"
  have len: "length m \<le> 88" "0 < length m" using ctrl_msg_length [OF m(1)] m(1) by (auto simp: ctrl_msg_def)
  obtain q' where q': "rtdal_itfspscq_recv ?now ?now CTRL_IN_BUFFER_SZ q = Ret (int (length m), m, q')" "spscq_nb q'" "spscq_abs q' = rest"
    using spq.recv_ok [OF q(2,3,4), of CTRL_IN_BUFFER_SZ] len by (auto simp: CTRL_IN_BUFFER_SZ_def)
  let ?s1 = "s\<lparr>ap_queues := (ap_queues s)(hw h s \<mapsto> q')\<rparr>"
  let ?s2 = "upd_skel i (\<lambda>k. k\<lparr>sk_ctrl_buffer := memcpy_at (sk_ctrl_buffer k) 0 m\<rparr>) ?s1"
  have rd: "oesr_itf_read ?now h CTRL_IN_BUFFER_SZ ts s = Some (Ret ((int (length m), m), ?s1))"
    using q(1) q'(1) recv_tstamp [OF q(2), of ?now ts] by (simp add: oesr_itf_read_def rtdal_itf_recv_def itf_call_def)
  have same: "var_value j w ?s2 = var_value j w s" "variable_ok j w L ?s2 = variable_ok j w L s" for j w L
    by (simp_all add: var_value_def variable_ok_def avar_def)
  obtain t' where t': "process_ctrl_packet i (memcpy_at (sk_ctrl_buffer (skel_of i s)) 0 m) ?s2 = Some (0, t')" "sets_var i v val ?s2 t'"
    using process_sets [OF m(1,3), of i ?s2] m(2) same by auto
  have "read_ctrl i ts h s = read_ctrl i ts h t'"
    using rd t'(1) len(2) by (subst read_ctrl.simps) simp
  then show ?thesis
  proof (rule that)
    show "ap_queues t' (hw h t') = Some q'" using t'(2) by (cases h) (simp add: sets_var_def)
    show "rtdal_time_slot (ap_n t') = ?now" using t'(2) by (simp add: sets_var_def rtdal_time_slot_def)
    show "length (sk_ctrl_buffer (skel_of i t')) = 88" using t'(2) ctrl_msg_parse(4) [OF m(1,3)] by (simp add: sets_var_def)
    show "var_value i v t' = Some val" "\<forall>w \<ge> 0. w \<noteq> v \<longrightarrow> var_value i w t' = var_value i w s" "\<forall>w L. variable_ok i w L s \<longrightarrow> variable_ok i w L t'"
      using t'(2) same unfolding sets_var_def by simp_all
  qed (use q' in auto)
qed

lemma read_ctrl_all:
  assumes "ap_queues s (hw h s) = Some q" "spscq_nb q"
    "list_all2 (\<lambda>(v, val) (t, m). ctrl_msg v val m \<and> t \<le> rtdal_time_slot (ap_n s)) pks (spscq_abs q)"
    "\<forall>(v, val) \<in> set pks. variable_ok i v (length val) s" "length (sk_ctrl_buffer (skel_of i s)) = 88"
  shows "\<exists>s'. read_ctrl i ts h s = Some (Ret (0, s'))
     \<and> (\<forall>v \<ge> 0. var_value i v s' = (case map_of (rev pks) v of None \<Rightarrow> var_value i v s | Some val \<Rightarrow> Some val))"
  using assms
proof (induction pks arbitrary: s q)
  case Nil
  let ?now = "rtdal_time_slot (ap_n s)"
  have "rtdal_itfspscq_recv ?now ?now CTRL_IN_BUFFER_SZ q = Ret (0, [], q)" using spq.recv_none Nil.prems by simp
  then have "oesr_itf_read ?now h CTRL_IN_BUFFER_SZ ts s = Some (Ret ((0, []), s))"
    using Nil.prems(1,2) recv_tstamp [OF Nil.prems(2), of ?now ts] by (simp add: oesr_itf_read_def rtdal_itf_recv_def itf_call_def fun_upd_idem)
  then show ?case by (subst read_ctrl.simps) simp
next
  case (Cons p pks)
  obtain v val where p: "p = (v, val)" by (cases p)
  obtain t m rest where q: "spscq_abs q = (t, m) # rest" "ctrl_msg v val m" "t \<le> rtdal_time_slot (ap_n s)"
    "list_all2 (\<lambda>(v, val) (t, m). ctrl_msg v val m \<and> t \<le> rtdal_time_slot (ap_n s)) pks rest"
    using Cons.prems(3) by (auto simp: p list_all2_Cons1)
  have ok: "variable_ok i v (length val) s" using Cons.prems(4) by (simp add: p)
  obtain s' q' where s': "read_ctrl i ts h s = read_ctrl i ts h s'" "ap_queues s' (hw h s') = Some q'" "spscq_nb q'" "spscq_abs q' = rest"
    "rtdal_time_slot (ap_n s') = rtdal_time_slot (ap_n s)" "length (sk_ctrl_buffer (skel_of i s')) = 88"
    "var_value i v s' = Some val" "\<forall>w \<ge> 0. w \<noteq> v \<longrightarrow> var_value i w s' = var_value i w s" "\<forall>w L. variable_ok i w L s \<longrightarrow> variable_ok i w L s'"
    by (rule read_ctrl_step [OF Cons.prems(1,2) q(1,3,2) ok Cons.prems(5)])
  have "\<forall>(v, val) \<in> set pks. variable_ok i v (length val) s'" using Cons.prems(4) s'(9) by auto
  then obtain s'' where s'': "read_ctrl i ts h s' = Some (Ret (0, s''))"
    "\<forall>v \<ge> 0. var_value i v s'' = (case map_of (rev pks) v of None \<Rightarrow> var_value i v s' | Some val \<Rightarrow> Some val)"
    using Cons.IH [OF s'(2,3)] q(4) s'(4-6) by auto
  then show ?case using s'(1,7,8) by (auto simp: p map_add_def split: option.split)
qed

section \<open>Control values\<close>

text \<open>The output through which remote parameter d is sent.\<close>

definition dest_itf :: "cskel \<Rightarrow> nat \<Rightarrow> itf_h option" where
  "dest_itf k d = Option.bind (pa_addr (ck_remote k ! d)) (\<lambda>j. ma_itf (ck_outputs k ! j))"

fun send_vals :: "(nat \<times> bytes) list \<Rightarrow> 'u ck_state \<Rightarrow> 'u ck_state option" where
  "send_vals [] ks = Some ks"
| "send_vals ((d, val) # ds) ks = (case ctrl_skeleton_send_idx (int d) val ks of
      Some (Ret (n, ks1)) \<Rightarrow> if n = 0 then send_vals ds ks1 else None
    | _ \<Rightarrow> None)"

definition at_slot :: "int \<Rightarrow> 'u sk_state \<Rightarrow> 'u sk_state" where
  "at_slot t s = s\<lparr>ap_n := (ap_n s)\<lparr>ns_c := (ns_c (ap_n s))\<lparr>c_ts_counter := t\<rparr>\<rparr>\<rparr>"

lemma write_eq:
  assumes "ap_queues s (hw h s) = Some q"
  shows "oesr_itf_write now h buf s = Some (case rtdal_itfspscq_send now buf q of Block \<Rightarrow> Block
     | Ret (r, q') \<Rightarrow> Ret (r, s\<lparr>ap_queues := (ap_queues s)(hw h s \<mapsto> q')\<rparr>))"
  using assms by (simp add: oesr_itf_write_def rtdal_itf_send_def itf_call_def)

lemma send_idx_ok:
  assumes d: "d < ck_nof_remote k" "ck_nof_remote k \<le> CS_MAX_VARIABLES" "dest_itf k d = Some h" "length (ck_out_buffer k) = 88"
    and val: "0 < length val" "length val \<le> 8" "in_int32 (pa_variable_idx (ck_remote k ! d))"
    and q: "ap_queues s (hw h s) = Some q" "spscq_nb q" "q_max_msg_sz q = 88" "length (spscq_abs q) < q_max_msg q"
  obtains ob m q' where "ctrl_skeleton_send_idx (int d) val (k, s) = Some (Ret (0, k\<lparr>ck_out_buffer := ob\<rparr>, s\<lparr>ap_queues := (ap_queues s)(hw h s \<mapsto> q')\<rparr>))"
    "length ob = 88" "ctrl_msg (pa_variable_idx (ck_remote k ! d)) val m" "spscq_nb q'" "spscq_abs q' = spscq_abs q @ [(rtdal_time_slot (ap_n s) + q_delay q, m)]"
    "q_max_msg q' = q_max_msg q" "q_max_msg_sz q' = 88" "q_delay q' = q_delay q"
proof -
  let ?v = "pa_variable_idx (ck_remote k ! d)" let ?now = "rtdal_time_slot (ap_n s)"
  define ob where "ob = memcpy_at (ck_out_buffer k) 0 (int_bytes ?v @ int_bytes (int (length val)) @ val)"
  define m where "m = take (length val + 80) ob"
  have ob: "length ob = 88" using d(4) val(2) by (simp add: ob_def memcpy_at_def)
  have m: "ctrl_msg ?v val m" using val d(4) by (auto simp: ctrl_msg_def m_def ob_def)
  have lm: "length m = length val + 80" "m \<noteq> []" using ctrl_msg_length [OF m] by auto
  obtain q' where q': "rtdal_itfspscq_send ?now m q = Ret (1, q')" "spscq_nb q'" "spscq_abs q' = spscq_abs q @ [(?now + q_delay q, m)]"
    "q_max_msg q' = q_max_msg q" "q_max_msg_sz q' = 88" "q_delay q' = q_delay q"
    using spq.send_ok [OF q(2), of m ?now] lm val(2) q(3,4) by auto
  have b: "take (length val + 80) (ob @ replicate (length val + 80) 0) = m" using ob val(2) by (simp add: m_def)
  have "ctrl_skeleton_send_idx (int d) val (k, s) = Some (Ret (0, k\<lparr>ck_out_buffer := ob\<rparr>, s\<lparr>ap_queues := (ap_queues s)(hw h s \<mapsto> q')\<rparr>))"
    using d(1-3) val(2) q'(1) b
    by (simp add: ctrl_skeleton_send_idx_def Let_def dest_itf_def ob_def [symmetric] CTRL_PKT_HEADER_SZ_def CTRL_PKT_VALUE_SZ_def CTRL_IN_BUFFER_SZ_def write_eq [OF q(1)])
  then show ?thesis using that ob m q'(2-6) by blast
qed

lemma send_vals_ok:
  assumes "\<forall>(d, val) \<in> set ds. d < ck_nof_remote k \<and> dest_itf k d = Some h \<and> 0 < length val \<and> length val \<le> 8 \<and> in_int32 (pa_variable_idx (ck_remote k ! d))"
    and "ck_nof_remote k \<le> CS_MAX_VARIABLES" "length (ck_out_buffer k) = 88"
    and "ap_queues s (hw h s) = Some q" "spscq_nb q" "q_max_msg_sz q = 88" "length (spscq_abs q) + length ds \<le> q_max_msg q"
  shows "\<exists>k1 q' ms. send_vals ds (k, s) = Some (k1, s\<lparr>ap_queues := (ap_queues s)(hw h s \<mapsto> q')\<rparr>) \<and> spscq_nb q'
     \<and> spscq_abs q' = spscq_abs q @ ms
     \<and> list_all2 (\<lambda>(d, val) (t, m). ctrl_msg (pa_variable_idx (ck_remote k ! d)) val m \<and> t = rtdal_time_slot (ap_n s) + q_delay q) ds ms"
  using assms
proof (induction ds arbitrary: k s q)
  case Nil
  then show ?case by (intro exI [of _ k] exI [of _ q] exI [of _ "[]"]) (simp add: fun_upd_idem)
next
  case (Cons x ds)
  obtain d val where x: "x = (d, val)" by (cases x)
  have d: "d < ck_nof_remote k" "dest_itf k d = Some h" "0 < length val" "length val \<le> 8" "in_int32 (pa_variable_idx (ck_remote k ! d))"
    "length (spscq_abs q) < q_max_msg q" using Cons.prems(1,7) by (auto simp: x)
  obtain ob m q1 where 1: "ctrl_skeleton_send_idx (int d) val (k, s) = Some (Ret (0, k\<lparr>ck_out_buffer := ob\<rparr>, s\<lparr>ap_queues := (ap_queues s)(hw h s \<mapsto> q1)\<rparr>))"
    "length ob = 88" "ctrl_msg (pa_variable_idx (ck_remote k ! d)) val m" "spscq_nb q1" "spscq_abs q1 = spscq_abs q @ [(rtdal_time_slot (ap_n s) + q_delay q, m)]"
    "q_max_msg q1 = q_max_msg q" "q_max_msg_sz q1 = 88" "q_delay q1 = q_delay q"
    by (rule send_idx_ok [OF d(1) Cons.prems(2) d(2) Cons.prems(3) d(3-5) Cons.prems(4-6) d(6)])
  let ?k = "k\<lparr>ck_out_buffer := ob\<rparr>" let ?s = "s\<lparr>ap_queues := (ap_queues s)(hw h s \<mapsto> q1)\<rparr>"
  have k: "dest_itf ?k = dest_itf k" by (simp add: fun_eq_iff dest_itf_def)
  have "\<exists>k1 q' ms. send_vals ds (?k, ?s) = Some (k1, ?s\<lparr>ap_queues := (ap_queues ?s)(hw h ?s \<mapsto> q')\<rparr>) \<and> spscq_nb q'
     \<and> spscq_abs q' = spscq_abs q1 @ ms
     \<and> list_all2 (\<lambda>(d, val) (t, m). ctrl_msg (pa_variable_idx (ck_remote ?k ! d)) val m \<and> t = rtdal_time_slot (ap_n ?s) + q_delay q1) ds ms"
    by (rule Cons.IH) (use Cons.prems 1 in \<open>auto simp: x k\<close>)
  then obtain k1 q' ms where 2: "send_vals ds (?k, ?s) = Some (k1, s\<lparr>ap_queues := (ap_queues s)(hw h s \<mapsto> q')\<rparr>)" "spscq_nb q'"
    "spscq_abs q' = spscq_abs q1 @ ms"
    "list_all2 (\<lambda>(d, val) (t, m). ctrl_msg (pa_variable_idx (ck_remote k ! d)) val m \<and> t = rtdal_time_slot (ap_n s) + q_delay q) ds ms"
    using 1(8) by auto
  have "send_vals (x # ds) (k, s) = Some (k1, s\<lparr>ap_queues := (ap_queues s)(hw h s \<mapsto> q')\<rparr>)" using 1(1) 2(1) by (simp add: x)
  moreover have "spscq_abs q' = spscq_abs q @ (rtdal_time_slot (ap_n s) + q_delay q, m) # ms" using 1(5) 2(3) by simp
  moreover have "list_all2 (\<lambda>(d, val) (t, m). ctrl_msg (pa_variable_idx (ck_remote k ! d)) val m \<and> t = rtdal_time_slot (ap_n s) + q_delay q)
      (x # ds) ((rtdal_time_slot (ap_n s) + q_delay q, m) # ms)" using 1(3) 2(4) by (simp add: x)
  ultimately show ?case using 2(2) by blast
qed

text \<open>C7. Control values arrive. The values of at most 8 bytes that a control module sends to the parameters
  of one module are accepted; when the destination reads its control port in a slot that is not
  before the slot of the sending plus the delay of the connection, it applies all of them in
  the order in which they were sent: each parameter that was sent has the last value sent, each
  other parameter its old value.\<close>

theorem ctrl_values_arrive:
  assumes ds: "\<forall>(d, val) \<in> set ds. d < ck_nof_remote k \<and> dest_itf k d = Some wh \<and> 0 < length val \<and> length val \<le> 8
       \<and> in_int32 (pa_variable_idx (ck_remote k ! d)) \<and> variable_ok i (pa_variable_idx (ck_remote k ! d)) (length val) s"
    and k: "ck_nof_remote k \<le> CS_MAX_VARIABLES" "length (ck_out_buffer k) = 88" "length (sk_ctrl_buffer (skel_of i s)) = 88"
    and q: "itf_linked wh rh s" "q = itf_queue wh s" "q_max_msg_sz q = 88" "spscq_abs q = []" "length ds \<le> q_max_msg q"
    and t: "rtdal_time_slot (ap_n s) + q_delay q \<le> later"
  shows "\<exists>k1 s1 s2. send_vals ds (k, s) = Some (k1, s1) \<and> read_ctrl i ts rh (at_slot later s1) = Some (Ret (0, s2))
     \<and> (\<forall>v \<ge> 0. var_value i v s2 = (case map_of (rev (map (\<lambda>(d, val). (pa_variable_idx (ck_remote k ! d), val)) ds)) v of
          None \<Rightarrow> var_value i v s | Some val \<Rightarrow> Some val))"
proof -
  let ?pks = "map (\<lambda>(d, val). (pa_variable_idx (ck_remote k ! d), val)) ds"
  have lq: "ap_queues s (hw wh s) = Some q" "spscq_nb q" "hw rh s = hw wh s" using q(1,2) by (auto simp: itf_linked_def itf_queue_def)
  have "\<forall>(d, val) \<in> set ds. d < ck_nof_remote k \<and> dest_itf k d = Some wh \<and> 0 < length val \<and> length val \<le> 8 \<and> in_int32 (pa_variable_idx (ck_remote k ! d))"
    using ds by auto
  then obtain k1 q' ms where s1: "send_vals ds (k, s) = Some (k1, s\<lparr>ap_queues := (ap_queues s)(hw wh s \<mapsto> q')\<rparr>)" "spscq_nb q'" "spscq_abs q' = ms"
    "list_all2 (\<lambda>(d, val) (t, m). ctrl_msg (pa_variable_idx (ck_remote k ! d)) val m \<and> t = rtdal_time_slot (ap_n s) + q_delay q) ds ms"
    using send_vals_ok [of ds k wh s q] k(1,2) lq(1,2) q(3-5) by auto
  define s1 where "s1 = s\<lparr>ap_queues := (ap_queues s)(hw wh s \<mapsto> q')\<rparr>"
  define s2 where "s2 = at_slot later s1"
  have same: "hw h s2 = hw h s" "skel_of j s2 = skel_of j s" "var_value j v s2 = var_value j v s" "variable_ok j v L s2 = variable_ok j v L s"
    "rtdal_time_slot (ap_n s2) = later" for h j v L
    by (simp_all add: s2_def s1_def at_slot_def itf_elem_def skel_of_def var_value_def variable_ok_def avar_def rtdal_time_slot_def)
  have "list_all2 (\<lambda>(v, val) (t, m). ctrl_msg v val m \<and> t \<le> rtdal_time_slot (ap_n s2)) ?pks (spscq_abs q')"
    unfolding s1(3) list_all2_map1 using s1(4) by (rule list_all2_mono) (use t same(5) in auto)
  moreover have "ap_queues s2 (hw rh s2) = Some q'" by (simp add: same lq(3)) (simp add: s2_def at_slot_def s1_def)
  moreover have "\<forall>(v, val) \<in> set ?pks. variable_ok i v (length val) s2" using ds by (auto simp: same)
  ultimately obtain s3 where s3: "read_ctrl i ts rh s2 = Some (Ret (0, s3))"
    "\<forall>v \<ge> 0. var_value i v s3 = (case map_of (rev ?pks) v of None \<Rightarrow> var_value i v s2 | Some val \<Rightarrow> Some val)"
    using read_ctrl_all [of s2 rh q' ?pks i ts] s1(2) k(3) same by auto
  have "send_vals ds (k, s) = Some (k1, s1)" using s1(1) by (simp add: s1_def)
  then show ?thesis using s3 unfolding s2_def [symmetric] same(3) [of i, symmetric] by (metis s2_def)
qed

text \<open>A control module (index 1) that is connected to a module with two parameters.\<close>

definition ex_ctrl_queue :: rtdal_itfspscq_t where
  "ex_ctrl_queue = the (fst (rtdal_itfspscq_new 1 True 4 88 2))"

definition ex_ck :: cskel where
  "ex_ck = \<lparr>ck_ctrl_in = None, ck_remote_db = [], ck_local_db = [], ck_outputs = [\<lparr>ma_module_idx = 0, ma_itf = Some (ITF_WRITE, 1, 0)\<rparr>],
     ck_remote = [\<lparr>pa_module_idx = 0, pa_variable_idx = 0, pa_addr = Some 0\<rparr>, \<lparr>pa_module_idx = 0, pa_variable_idx = 1, pa_addr = Some 0\<rparr>],
     ck_local = [], ck_nof_remote = 2, ck_nof_local = 0, ck_nof_remote_itf = 1, ck_in_buffer = replicate 1760 0,
     ck_out_buffer = replicate 88 0, ck_nof_output_data_itf = 0, ck_send_always = False\<rparr>"

definition ex_ctrl_state :: "unit sk_state" where
  "ex_ctrl_state = \<lparr>ap_n = ex_pair\<lparr>ns_w := nod_waveform_zero\<lparr>nw_nof_modules := 2, nw_modules := Some
       [nod_module_zero\<lparr>nm_parent := module_zero\<lparr>m_nof_inputs := 1, m_inputs := Some [interface_zero\<lparr>i_hw_itf := 64\<rparr>], m_nof_variables := 2,
          m_variables := Some [variable_zero\<lparr>v_size := 2, v_init_value := [Some [0, 0]]\<rparr>, variable_zero\<lparr>v_size := 1, v_init_value := [Some [9]]\<rparr>]\<rparr>\<rparr>,
        nod_module_zero\<lparr>nm_parent := module_zero\<lparr>m_nof_outputs := 1, m_outputs := Some [interface_zero\<lparr>i_hw_itf := 64\<rparr>]\<rparr>\<rparr>]\<rparr>\<rparr>,
     ap_queues = [64 \<mapsto> ex_ctrl_queue], ap_spscq_id = 3, ap_physic = []\<rparr>"

lemma ex_ctrl_queue_ok:
  "spscq_nb ex_ctrl_queue" "spscq_abs ex_ctrl_queue = []" "q_max_msg ex_ctrl_queue = 4" "q_max_msg_sz ex_ctrl_queue = 88" "q_delay ex_ctrl_queue = 2"
proof -
  have "rtdal_itfspscq_new 1 True 4 88 2 = (Some ex_ctrl_queue, 2)" by (simp add: ex_ctrl_queue_def rtdal_itfspscq_new_def)
  from new_wf [OF this] show "spscq_nb ex_ctrl_queue" "spscq_abs ex_ctrl_queue = []" "q_max_msg ex_ctrl_queue = 4" "q_max_msg_sz ex_ctrl_queue = 88"
    "q_delay ex_ctrl_queue = 2" by (simp_all add: spscq_nb_def)
qed

lemma ex_ctrl_hw: "hw (ITF_READ, 0, 0) ex_ctrl_state = 64" "hw (ITF_WRITE, 1, 0) ex_ctrl_state = 64"
  "ap_queues ex_ctrl_state 64 = Some ex_ctrl_queue" "rtdal_time_slot (ap_n ex_ctrl_state) = 5" "length (sk_ctrl_buffer (skel_of 0 ex_ctrl_state)) = 88"
  by (simp_all add: ex_ctrl_state_def itf_elem_def nmod_def get_elem_def itf_array_def rtdal_time_slot_def skel_of_def ex_pair_def ex_skel_def ex_context_def)

lemma ex_ctrl_vars: "variable_ok 0 0 2 ex_ctrl_state" "variable_ok 0 1 1 ex_ctrl_state"
  by (simp_all add: variable_ok_def ex_ctrl_state_def nmod_def get_elem_def avar_def var_value_def mode_block_def module_zero_def)

theorem ctrl_values_arrive_witness:
  "\<exists>k1 s1 s2. send_vals [(0, [1, 2]), (1, [3]), (0, [4, 5])] (ex_ck, ex_ctrl_state) = Some (k1, s1)
     \<and> read_ctrl 0 0 (ITF_READ, 0, 0) (at_slot 7 s1) = Some (Ret (0, s2)) \<and> var_value 0 0 s2 = Some [4, 5] \<and> var_value 0 1 s2 = Some [3]"
proof -
  let ?ds = "[(0, [1, 2]), (1, [3]), (0, [4, 5 :: byte])] :: (nat \<times> bytes) list"
  have d: "\<forall>(d, val) \<in> set ?ds. d < ck_nof_remote ex_ck \<and> dest_itf ex_ck d = Some (ITF_WRITE, 1, 0) \<and> 0 < length val \<and> length val \<le> 8
       \<and> in_int32 (pa_variable_idx (ck_remote ex_ck ! d)) \<and> variable_ok 0 (pa_variable_idx (ck_remote ex_ck ! d)) (length val) ex_ctrl_state"
    using ex_ctrl_vars by (simp add: ex_ck_def dest_itf_def in_int32_def numeral_2_eq_2)
  have k: "ck_nof_remote ex_ck \<le> CS_MAX_VARIABLES" "length (ck_out_buffer ex_ck) = 88" by (simp_all add: ex_ck_def CS_MAX_VARIABLES_def)
  have q: "itf_linked (ITF_WRITE, 1, 0) (ITF_READ, 0, 0) ex_ctrl_state" "ex_ctrl_queue = itf_queue (ITF_WRITE, 1, 0) ex_ctrl_state"
    using ex_ctrl_queue_ok(1) ex_ctrl_hw by (simp_all add: itf_linked_def itf_queue_def)
  have l: "length ?ds \<le> q_max_msg ex_ctrl_queue" "rtdal_time_slot (ap_n ex_ctrl_state) + q_delay ex_ctrl_queue \<le> 7"
    using ex_ctrl_queue_ok ex_ctrl_hw by simp_all
  obtain k1 s1 s2 where s: "send_vals ?ds (ex_ck, ex_ctrl_state) = Some (k1, s1)" "read_ctrl 0 0 (ITF_READ, 0, 0) (at_slot 7 s1) = Some (Ret (0, s2))"
    "\<forall>v \<ge> 0. var_value 0 v s2 = (case map_of (rev (map (\<lambda>(d, val). (pa_variable_idx (ck_remote ex_ck ! d), val)) ?ds)) v of
          None \<Rightarrow> var_value 0 v ex_ctrl_state | Some val \<Rightarrow> Some val)"
    using ctrl_values_arrive [OF d k ex_ctrl_hw(5) q ex_ctrl_queue_ok(4,2) l, of 0] by blast
  have "var_value 0 0 s2 = Some [4, 5]" "var_value 0 1 s2 = Some [3]" using s(3) by (simp_all add: ex_ck_def)
  with s(1,2) show ?thesis by blast
qed

text \<open>A value of more than 8 bytes is never sent, although a packet has room for 80: the
  size that is passed to the queue counts the header with 80 bytes instead of 8, which exceeds the message
  size of the queue, and the call returns an error.\<close>

theorem ctrl_large_refused:
  assumes "d < ck_nof_remote k" "ck_nof_remote k \<le> CS_MAX_VARIABLES" "dest_itf k d = Some h" "8 < length val" "length val \<le> CTRL_PKT_VALUE_SZ"
    and "ap_queues s (hw h s) = Some q" "q_max_msg_sz q = CTRL_IN_BUFFER_SZ" "length (ck_out_buffer k) = 88"
  shows "\<exists>k1. ctrl_skeleton_send_idx (int d) val (k, s) = Some (Ret (-1, k1, s))"
proof -
  have "rtdal_itfspscq_send now buf q = Ret (-1, q)" if "length buf = length val + 80" for now buf
    using that assms(4,7) by (simp add: rtdal_itfspscq_send_def CTRL_IN_BUFFER_SZ_def)
  then have "oesr_itf_write now h buf s = Some (Ret (-1, s))" if "length buf = length val + 80" for now buf
    using that assms(6) by (simp add: write_eq fun_upd_idem)
  then show ?thesis using assms(1-3,5)
    by (simp add: ctrl_skeleton_send_idx_def Let_def dest_itf_def CTRL_PKT_HEADER_SZ_def min_def)
qed

theorem ctrl_large_refused_witness:
  "\<exists>k1. ctrl_skeleton_send_idx (int 0) (replicate 9 1) (ex_ck, ex_ctrl_state) = Some (Ret (-1, k1, ex_ctrl_state))"
  by (rule ctrl_large_refused [where h = "(ITF_WRITE, 1, 0)" and q = ex_ctrl_queue])
    (simp_all add: ex_ctrl_hw [simplified] ex_ctrl_queue_ok CTRL_IN_BUFFER_SZ_def CTRL_PKT_VALUE_SZ_def CS_MAX_VARIABLES_def, simp_all add: ex_ck_def dest_itf_def)

section \<open>Outputs of a control module\<close>

text \<open>The modules in the order of their first parameter.\<close>

fun first_uses :: "int list \<Rightarrow> int list \<Rightarrow> int list" where
  "first_uses ms [] = ms"
| "first_uses ms (m # xs) = first_uses (if m \<in> set ms then ms else ms @ [m]) xs"

lemma first_uses_set: "set (first_uses ms xs) = set ms \<union> set xs"
  by (induction ms xs rule: first_uses.induct) auto

lemma first_uses_distinct: "distinct ms \<Longrightarrow> distinct (first_uses ms xs)"
  by (induction ms xs rule: first_uses.induct) auto

lemma first_uses_prefix: "\<exists>ys. first_uses ms xs = ms @ ys"
proof (induction ms xs rule: first_uses.induct)
  case (2 ms m xs)
  then show ?case by (cases "m \<in> set ms") auto
qed simp

lemma find_idx_image: "find_idx (\<lambda>x. P (f x)) xs = find_idx P (map f xs)"
  by (induction xs) simp_all

lemma find_idx_append: "find_idx P (xs @ ys) = (if \<exists>x \<in> set xs. P x then find_idx P xs else length xs + find_idx P ys)"
  by (induction xs) auto

lemma find_idx_in: "\<exists>x \<in> set xs. P x \<Longrightarrow> find_idx P xs < length xs \<and> P (xs ! find_idx P xs)"
  by (induction xs) auto

text \<open>The entries of outputs in use are the modules met so far, in order, without gaps.\<close>

definition outs_of :: "int list \<Rightarrow> mod_addr_t list \<Rightarrow> bool" where
  "outs_of ms outs \<longleftrightarrow> map ma_module_idx outs = ms @ replicate (CS_MAX_OUTPUTS - length ms) (-1)
     \<and> length ms \<le> CS_MAX_OUTPUTS \<and> distinct ms \<and> -1 \<notin> set ms"

lemma find_output_cases:
  assumes "outs_of ms outs" "m \<noteq> -1"
  shows "m \<in> set ms \<Longrightarrow> \<exists>j < length ms. find_output m outs = Some j \<and> ms ! j = m"
    and "m \<notin> set ms \<Longrightarrow> length ms < CS_MAX_OUTPUTS \<Longrightarrow> find_output m outs = Some (length ms)"
    and "m \<notin> set ms \<Longrightarrow> length ms = CS_MAX_OUTPUTS \<Longrightarrow> find_output m outs = None"
proof -
  have o: "map ma_module_idx outs = ms @ replicate (CS_MAX_OUTPUTS - length ms) (-1)" "length ms \<le> CS_MAX_OUTPUTS" "-1 \<notin> set ms"
    using assms(1) by (simp_all add: outs_of_def)
  have len: "length outs = CS_MAX_OUTPUTS" using arg_cong [OF o(1), of length] o(2) by simp
  have f: "find_idx (\<lambda>x. ma_module_idx x = v) outs = find_idx (\<lambda>y. y = v) (ms @ replicate (CS_MAX_OUTPUTS - length ms) (-1))" for v
    using find_idx_image [of "\<lambda>y. y = v" ma_module_idx outs] o(1) by simp
  have r: "find_idx (\<lambda>y. y = v) (replicate n w) = (if v = w then 0 else n)" for v w :: int and n
    by (induction n) auto
  show "\<exists>j < length ms. find_output m outs = Some j \<and> ms ! j = m" if "m \<in> set ms"
  proof -
    have "find_idx (\<lambda>y. y = m) ms < length ms \<and> ms ! find_idx (\<lambda>y. y = m) ms = m" using find_idx_in [of ms "\<lambda>y. y = m"] that by auto
    then show ?thesis using that o(2) len by (auto simp: find_output_def f find_idx_append Let_def)
  qed
  have none: "find_idx (\<lambda>x. ma_module_idx x = m) outs = length outs" if "m \<notin> set ms"
    using that o(2) assms(2) len by (auto simp: f find_idx_append r)
  have free: "find_idx (\<lambda>x. ma_module_idx x = -1) outs = length ms" using o(3) by (auto simp: f find_idx_append r)
  show "find_output m outs = Some (length ms)" if "m \<notin> set ms" "length ms < CS_MAX_OUTPUTS"
    using none [OF that(1)] free that(2) len by (simp add: find_output_def Let_def)
  show "find_output m outs = None" if "m \<notin> set ms" "length ms = CS_MAX_OUTPUTS"
    using none [OF that(1)] free that(2) len by (simp add: find_output_def Let_def)
qed

lemma scan_variables_spec:
  assumes "outs_of ms (ck_outputs k)" "distinct vs" "\<forall>v \<in> set vs. v < length (ck_remote k) \<and> pa_module_idx (ck_remote k ! v) \<noteq> -1"
    and "ns = first_uses ms (map (\<lambda>v. pa_module_idx (ck_remote k ! v)) vs)"
  shows "(length ns > CS_MAX_OUTPUTS \<longrightarrow> fst (scan_variables vs k) = False)
    \<and> (length ns \<le> CS_MAX_OUTPUTS \<longrightarrow> (\<exists>k1. scan_variables vs k = (True, k1) \<and> outs_of ns (ck_outputs k1)
         \<and> map pa_module_idx (ck_remote k1) = map pa_module_idx (ck_remote k)
         \<and> (\<forall>v. v \<notin> set vs \<longrightarrow> ck_remote k1 ! v = ck_remote k ! v)
         \<and> (\<forall>v \<in> set vs. \<exists>j < length ns. pa_addr (ck_remote k1 ! v) = Some j \<and> ns ! j = pa_module_idx (ck_remote k ! v))))"
  using assms
proof (induction vs arbitrary: ms k)
  case Nil
  then show ?case by (auto simp: outs_of_def)
next
  case (Cons v vs)
  let ?m = "pa_module_idx (ck_remote k ! v)" let ?ms = "if ?m \<in> set ms then ms else ms @ [?m]"
  have m: "?m \<noteq> -1" "v < length (ck_remote k)" "v \<notin> set vs" using Cons.prems by simp_all
  note f = find_output_cases [OF Cons.prems(1) m(1)]
  have ms: "length ms \<le> CS_MAX_OUTPUTS" "map ma_module_idx (ck_outputs k) = ms @ replicate (CS_MAX_OUTPUTS - length ms) (-1)" "distinct ms" "-1 \<notin> set ms"
    using Cons.prems(1) by (simp_all add: outs_of_def)
  have ns: "ns = first_uses ?ms (map (\<lambda>v. pa_module_idx (ck_remote k ! v)) vs)" using Cons.prems(4) by simp
  obtain ys where ys: "ns = ?ms @ ys" using first_uses_prefix ns by metis
  show ?case
  proof (cases "?m \<notin> set ms \<and> length ms = CS_MAX_OUTPUTS")
    case True
    then have "fst (scan_variables (v # vs) k) = False" "length ns > CS_MAX_OUTPUTS" using f(3) ys by auto
    then show ?thesis by simp
  next
    case False
    obtain j where j: "find_output ?m (ck_outputs k) = Some j" "j < length ?ms" "?ms ! j = ?m"
    proof (cases "?m \<in> set ms")
      case True
      then show ?thesis using f(1) that by auto
    next
      case False2: False
      then have "length ms < CS_MAX_OUTPUTS" using False ms(1) by linarith
      then show ?thesis using f(2) False2 that [of "length ms"] by simp
    qed
    let ?k = "k\<lparr>ck_remote := (ck_remote k)[v := (ck_remote k ! v)\<lparr>pa_addr := Some j\<rparr>],
         ck_outputs := (ck_outputs k)[j := (ck_outputs k ! j)\<lparr>ma_module_idx := ?m\<rparr>]\<rparr>"
    have sc: "scan_variables (v # vs) k = scan_variables vs ?k" using j(1) by simp
    have outs: "outs_of ?ms (ck_outputs ?k)"
    proof (cases "?m \<in> set ms")
      case True
      then have "(map ma_module_idx (ck_outputs k))[j := ?m] = map ma_module_idx (ck_outputs k)"
        unfolding ms(2) using j(2,3) by (simp add: list_update_append) (metis list_update_id)
      then show ?thesis using True Cons.prems(1) by (simp add: outs_of_def map_update)
    next
      case new: False
      then have lt: "length ms < CS_MAX_OUTPUTS" using False ms(1) by linarith
      have "j = length ms"
      proof (rule ccontr)
        assume "j \<noteq> length ms"
        then have "j < length ms" "ms ! j = ?m" using j(2,3) new by (simp_all add: nth_append less_Suc_eq)
        then show False using new nth_mem by metis
      qed
      moreover have "replicate (CS_MAX_OUTPUTS - length ms) (-1 :: int) = -1 # replicate (CS_MAX_OUTPUTS - Suc (length ms)) (-1)"
        using lt by (metis Suc_diff_Suc replicate_Suc)
      ultimately show ?thesis using new lt m(1) ms by (simp add: outs_of_def map_update list_update_append)
    qed
    have mod: "map pa_module_idx (ck_remote ?k) = map pa_module_idx (ck_remote k)"
      using m(2) by (simp add: map_update) (metis list_update_id nth_map)
    have mod_at: "pa_module_idx (ck_remote ?k ! w) = pa_module_idx (ck_remote k ! w)" if "w < length (ck_remote k)" for w
      using that by (cases "w = v") simp_all
    have eq: "map (\<lambda>v. pa_module_idx (ck_remote ?k ! v)) vs = map (\<lambda>v. pa_module_idx (ck_remote k ! v)) vs"
      using Cons.prems(3) mod_at by (intro map_cong refl) simp
    have "ns = first_uses ?ms (map (\<lambda>v. pa_module_idx (ck_remote ?k ! v)) vs)" unfolding eq by (rule ns)
    moreover have "\<forall>w \<in> set vs. w < length (ck_remote ?k) \<and> pa_module_idx (ck_remote ?k ! w) \<noteq> -1" using Cons.prems(3) mod_at by simp
    ultimately have ih: "(length ns > CS_MAX_OUTPUTS \<longrightarrow> fst (scan_variables vs ?k) = False)
      \<and> (length ns \<le> CS_MAX_OUTPUTS \<longrightarrow> (\<exists>k1. scan_variables vs ?k = (True, k1) \<and> outs_of ns (ck_outputs k1)
         \<and> map pa_module_idx (ck_remote k1) = map pa_module_idx (ck_remote ?k)
         \<and> (\<forall>v. v \<notin> set vs \<longrightarrow> ck_remote k1 ! v = ck_remote ?k ! v)
         \<and> (\<forall>v \<in> set vs. \<exists>j < length ns. pa_addr (ck_remote k1 ! v) = Some j \<and> ns ! j = pa_module_idx (ck_remote ?k ! v))))"
      using Cons.IH [OF outs] Cons.prems(2) by simp
    show ?thesis
    proof (cases "length ns \<le> CS_MAX_OUTPUTS")
      case True
      then obtain k1 where k1: "scan_variables vs ?k = (True, k1)" "outs_of ns (ck_outputs k1)" "map pa_module_idx (ck_remote k1) = map pa_module_idx (ck_remote ?k)"
        "\<forall>v. v \<notin> set vs \<longrightarrow> ck_remote k1 ! v = ck_remote ?k ! v"
        "\<forall>v \<in> set vs. \<exists>j < length ns. pa_addr (ck_remote k1 ! v) = Some j \<and> ns ! j = pa_module_idx (ck_remote ?k ! v)" using ih by blast
      have "\<forall>w \<in> set vs. \<exists>j < length ns. pa_addr (ck_remote k1 ! w) = Some j \<and> ns ! j = pa_module_idx (ck_remote k ! w)"
        using k1(5) mod_at Cons.prems(3) by simp
      moreover have "pa_addr (ck_remote k1 ! v) = Some j" "j < length ns" "ns ! j = ?m" using k1(4) m(2,3) ys j(2,3) by (simp_all add: nth_append)
      moreover have "\<forall>w. w \<notin> set (v # vs) \<longrightarrow> ck_remote k1 ! w = ck_remote k ! w" using k1(4) by simp
      ultimately show ?thesis using True sc k1(1-3) mod by (intro conjI impI exI [of _ k1]) auto
    next
      case False
      then show ?thesis using ih sc by auto
    qed
  qed
qed

text \<open>The outputs of a control module. When the parameters belong to at most 100 modules, the scan succeeds and returns the number of these modules:
  the entries of outputs below that number are the modules, each once, and every parameter
  refers to the entry of its module. For more modules the scan fails.\<close>

theorem scan_remote_itf_spec:
  assumes "length (ck_outputs k) = CS_MAX_OUTPUTS" "n \<le> length (ck_remote k)" "\<forall>v < n. pa_module_idx (ck_remote k ! v) \<noteq> -1"
    and M: "M = (\<lambda>v. pa_module_idx (ck_remote k ! v)) ` {..<n}"
  shows "(card M \<le> CS_MAX_OUTPUTS \<longrightarrow> (\<exists>k1. scan_remote_itf n k = (int (card M), k1)
       \<and> distinct (map ma_module_idx (take (card M) (ck_outputs k1))) \<and> ma_module_idx ` set (take (card M) (ck_outputs k1)) = M
       \<and> (\<forall>v < n. \<exists>j < card M. pa_addr (ck_remote k1 ! v) = Some j \<and> ma_module_idx (ck_outputs k1 ! j) = pa_module_idx (ck_remote k ! v))))
    \<and> (card M > CS_MAX_OUTPUTS \<longrightarrow> fst (scan_remote_itf n k) = -1)"
proof -
  let ?k = "k\<lparr>ck_outputs := map (\<lambda>x. x\<lparr>ma_module_idx := -1\<rparr>) (ck_outputs k)\<rparr>"
  define ns where "ns = first_uses [] (map (\<lambda>v. pa_module_idx (ck_remote k ! v)) [0..<n])"
  have ns: "set ns = M" "distinct ns" by (simp_all add: ns_def first_uses_set first_uses_distinct M lessThan_atLeast0)
  then have card: "card M = length ns" using distinct_card by metis
  have "map ma_module_idx (ck_outputs ?k) = replicate CS_MAX_OUTPUTS (-1)" by (simp add: comp_def map_replicate_const assms(1))
  then have o: "outs_of [] (ck_outputs ?k)" by (simp add: outs_of_def)
  note sp = scan_variables_spec [OF o, of "[0..<n]" ns]
  show ?thesis
  proof (cases "card M \<le> CS_MAX_OUTPUTS")
    case True
    then obtain k1 where k1: "scan_variables [0..<n] ?k = (True, k1)" "outs_of ns (ck_outputs k1)"
      "\<forall>v < n. \<exists>j < length ns. pa_addr (ck_remote k1 ! v) = Some j \<and> ns ! j = pa_module_idx (ck_remote k ! v)"
      using sp assms card by (force simp: ns_def)
    have idx: "map ma_module_idx (ck_outputs k1) = ns @ replicate (CS_MAX_OUTPUTS - length ns) (-1)" "-1 \<notin> set ns"
      using k1(2) by (simp_all add: outs_of_def)
    have tk: "map ma_module_idx (take (card M) (ck_outputs k1)) = ns"
      using arg_cong [OF idx(1), of "take (length ns)"] by (simp add: take_map card)
    have at: "ma_module_idx (ck_outputs k1 ! j) = ns ! j" if "j < length ns" for j
      using arg_cong [OF idx(1), of "\<lambda>xs. xs ! j"] that arg_cong [OF idx(1), of length] by (simp add: nth_append)
    have "length (filter (\<lambda>x. ma_module_idx x \<noteq> -1) (ck_outputs k1)) = length (filter (\<lambda>y. y \<noteq> -1) (map ma_module_idx (ck_outputs k1)))"
      by (simp add: filter_map comp_def)
    also have "\<dots> = length ns" unfolding idx(1) using idx(2) by (simp add: filter_id_conv) (metis (mono_tags) filter_True)
    finally have "scan_remote_itf n k = (int (card M), k1)" using k1(1) by (simp add: scan_remote_itf_def card)
    moreover have "distinct (map ma_module_idx (take (card M) (ck_outputs k1)))" "ma_module_idx ` set (take (card M) (ck_outputs k1)) = M"
      using tk ns by (simp_all flip: set_map)
    ultimately show ?thesis using True k1(3) at card by (intro conjI impI exI [of _ k1]) auto
  next
    case False
    then have "fst (scan_variables [0..<n] ?k) = False" using sp assms(2,3) card by (auto simp: ns_def)
    then show ?thesis using False by (simp add: scan_remote_itf_def case_prod_beta)
  qed
qed

theorem scan_remote_itf_spec_witness:
  "\<exists>k1. scan_remote_itf 2 (cs_init_memory ex_ck) = (1, k1) \<and> pa_addr (ck_remote k1 ! 0) = Some 0 \<and> pa_addr (ck_remote k1 ! 1) = Some 0"
proof -
  let ?k = "cs_init_memory ex_ck"
  have a: "length (ck_outputs ?k) = CS_MAX_OUTPUTS" "2 \<le> length (ck_remote ?k)" "\<forall>v < 2. pa_module_idx (ck_remote ?k ! v) \<noteq> -1"
    "{0} = (\<lambda>v. pa_module_idx (ck_remote ?k ! v)) ` {..<2}"
    by (simp_all add: cs_init_memory_def CS_MAX_VARIABLES_def image_def) (auto intro: exI [of _ 0])
  have c: "card {0 :: int} \<le> CS_MAX_OUTPUTS" by (simp add: CS_MAX_OUTPUTS_def)
  obtain k1 where k1: "scan_remote_itf 2 ?k = (int (card {0 :: int}), k1)" "\<forall>v < 2. \<exists>j < card {0 :: int}. pa_addr (ck_remote k1 ! v) = Some j"
    using scan_remote_itf_spec [OF a] c by blast
  then have "pa_addr (ck_remote k1 ! 0) = Some 0" "pa_addr (ck_remote k1 ! 1) = Some 0" by auto
  with k1(1) show ?thesis by auto
qed

end
