(* ===== verification/C_Arrays.thy ===== *)
theory C_Arrays
  imports Prelude "HOL-Library.Monad_Syntax"
begin

text \<open>
  Arrays and loops of the C code that moves samples between buffers.

  An access outside an array is the result None. A pointer into a buffer is the buffer with an
  index. The routines of the resource grid copy elements between two buffers; every such
  routine is characterised by its list of moves, which name for each element written its index
  and where the value comes from. The lemmas derive from this list what the target holds
  afterwards and that reading the elements back returns what was written.
\<close>

section \<open>Accesses and loops\<close>

definition peek :: "'a list \<Rightarrow> int \<Rightarrow> 'a option" where
  "peek xs i = (if 0 \<le> i \<and> i < int (length xs) then Some (xs ! nat i) else None)"

definition poke :: "'a list \<Rightarrow> int \<Rightarrow> 'a \<Rightarrow> 'a list option" where
  "poke xs i v = (if 0 \<le> i \<and> i < int (length xs) then Some (xs[nat i := v]) else None)"

text \<open>The values of i in "for (i=0;i<n;i++)".\<close>

definition below :: "int \<Rightarrow> int list" where
  "below n = map int [0..<nat n]"

fun each :: "('a \<Rightarrow> 's \<Rightarrow> 's option) \<Rightarrow> 'a list \<Rightarrow> 's \<Rightarrow> 's option" where
  "each f [] s = Some s"
| "each f (x # xs) s = Option.bind (f x s) (each f xs)"

text \<open>A loop whose body may return from the function with a return code.\<close>

fun each_rc :: "('a \<Rightarrow> 's \<Rightarrow> (int \<times> 's) option) \<Rightarrow> 'a list \<Rightarrow> 's \<Rightarrow> (int \<times> 's) option" where
  "each_rc f [] s = Some (0, s)"
| "each_rc f (x # xs) s = Option.bind (f x s) (\<lambda>(r, s1). if r \<noteq> 0 then Some (-1, s1) else each_rc f xs s1)"

text \<open>memcpy of n elements from inp at ip to out at op, and memset to v.\<close>

definition memcpy_c :: "'a list \<Rightarrow> int \<Rightarrow> 'a list \<Rightarrow> int \<Rightarrow> int \<Rightarrow> 'a list option" where
  "memcpy_c out op inp ip n = (if n < 0 then None
     else each (\<lambda>i o1. Option.bind (peek inp (ip + i)) (poke o1 (op + i))) (below n) out)"

definition memset_c :: "'a list \<Rightarrow> int \<Rightarrow> 'a \<Rightarrow> int \<Rightarrow> 'a list option" where
  "memset_c out op v n = (if n < 0 then None else each (\<lambda>i o1. poke o1 (op + i) v) (below n) out)"

section \<open>Moves\<close>

datatype 'a src = Src int | Val 'a

type_synonym 'a move = "int \<times> 'a src"

fun src_val :: "'a list \<Rightarrow> 'a src \<Rightarrow> 'a option" where
  "src_val inp (Src p) = peek inp p"
| "src_val inp (Val v) = Some v"

fun moves :: "'a list \<Rightarrow> 'a move list \<Rightarrow> 'a list \<Rightarrow> 'a list option" where
  "moves inp [] out = Some out"
| "moves inp ((q, s) # ms) out =
     Option.bind (src_val inp s) (\<lambda>v. Option.bind (poke out q v) (moves inp ms))"

text \<open>The moves of a list do not contradict each other, and stay inside the two buffers.\<close>

definition moves_fit :: "'a move list \<Rightarrow> int \<Rightarrow> int \<Rightarrow> bool" where
  "moves_fit ms n m \<longleftrightarrow> (\<forall>(q, s) \<in> set ms. 0 \<le> q \<and> q < m
     \<and> (case s of Src p \<Rightarrow> 0 \<le> p \<and> p < n | Val v \<Rightarrow> True))"

definition consistent :: "'a move list \<Rightarrow> bool" where
  "consistent ms \<longleftrightarrow> (\<forall>(q, s) \<in> set ms. \<forall>(q', s') \<in> set ms. q = q' \<longrightarrow> s = s')"

definition targets :: "'a move list \<Rightarrow> int set" where
  "targets ms = fst ` set ms"

text \<open>The moves that read back what ms wrote: only elements of the source, with the indices
  exchanged.\<close>

fun readback :: "'a move \<Rightarrow> 'a move list" where
  "readback (q, Src p) = [(p, Src q)]"
| "readback (q, Val v) = []"

section \<open>Lemmas\<close>

lemma cdiv_nonneg: "0 \<le> a \<Longrightarrow> 0 < b \<Longrightarrow> cdiv a b = a div b"
  by (cases "a = 0") (simp_all add: cdiv_def)

lemma crem_nonneg: "0 \<le> a \<Longrightarrow> 0 < b \<Longrightarrow> crem a b = a mod b"
  by (simp add: crem_def cdiv_nonneg minus_div_mult_eq_mod)

lemma peek_Some: "0 \<le> i \<Longrightarrow> i < int (length xs) \<Longrightarrow> peek xs i = Some (xs ! nat i)"
  by (simp add: peek_def)

lemma poke_Some: "0 \<le> i \<Longrightarrow> i < int (length xs) \<Longrightarrow> poke xs i v = Some (xs[nat i := v])"
  by (simp add: poke_def)

lemma poke_length: "poke xs i v = Some ys \<Longrightarrow> length ys = length xs"
  by (auto simp: poke_def split: if_splits)

lemma set_below [simp]: "set (below n) = {i. 0 \<le> i \<and> i < n}"
proof -
  have "i \<in> int ` {0..<nat n}" if "0 \<le> i" "i < n" for i
    using that by (intro image_eqI [of _ _ "nat i"]) auto
  then show ?thesis by (auto simp: below_def)
qed

lemma below_neg [simp]: "n \<le> 0 \<Longrightarrow> below n = []"
  by (simp add: below_def)

lemma length_below [simp]: "length (below n) = nat n"
  by (simp add: below_def)

lemma below_Suc: "below (int (Suc n)) = below (int n) @ [int n]"
  by (simp add: below_def nat_add_distrib)

lemma each_Nil [simp]: "each f [] = Some"
  by (rule ext) simp

lemma moves_Nil [simp]: "moves inp [] = Some"
  by (rule ext) simp

lemma each_append: "each f (xs @ ys) s = Option.bind (each f xs s) (each f ys)"
proof (induction xs arbitrary: s)
  case (Cons x xs)
  then show ?case by (cases "f x s") simp_all
qed simp

lemma each_cong [fundef_cong]:
  "xs = ys \<Longrightarrow> s = t \<Longrightarrow> (\<And>x u. x \<in> set ys \<Longrightarrow> f x u = g x u) \<Longrightarrow> each f xs s = each g ys t"
proof (induction xs arbitrary: ys s t)
  case (Cons x xs)
  then show ?case by (cases "f x s") auto
qed simp

lemma moves_append: "moves inp (ms @ ns) out = Option.bind (moves inp ms out) (moves inp ns)"
  by (induction ms arbitrary: out) (auto split: bind_splits)

lemma each_moves:
  assumes "\<And>x o1. x \<in> set xs \<Longrightarrow> f x o1 = moves inp (g x) o1"
  shows "each f xs out = moves inp (concat (map g xs)) out"
  using assms
proof (induction xs arbitrary: out)
  case (Cons x xs)
  then have "each f xs = moves inp (concat (map g xs))" by (intro ext) simp
  with Cons.prems show ?case by (simp add: moves_append)
qed simp

text \<open>A loop that also advances an index by a fixed amount in each turn.\<close>

lemma each_moves_step:
  assumes "\<And>i r o1. i \<in> {0..<n} \<Longrightarrow> f (int i) (r, o1) = map_option (Pair (r + d)) (moves inp (g r (int i)) o1)"
  shows "each f (map int [0..<n]) (r, out)
    = map_option (Pair (r + int n * d)) (moves inp (concat (map (\<lambda>i. g (r + int i * d) (int i)) [0..<n])) out)"
  using assms
proof (induction n)
  case (Suc n)
  then have IH: "each f (map int [0..<n]) (r, out)
      = map_option (Pair (r + int n * d)) (moves inp (concat (map (\<lambda>i. g (r + int i * d) (int i)) [0..<n])) out)"
    by simp
  have "each f (map int [0..<Suc n]) (r, out)
      = Option.bind (each f (map int [0..<n]) (r, out)) (f (int n))"
    by (cases "each f (map int [0..<n]) (r, out)") (simp_all add: each_append)
  also have "\<dots> = map_option (Pair (r + int (Suc n) * d))
      (moves inp (concat (map (\<lambda>i. g (r + int i * d) (int i)) [0..<n]) @ g (r + int n * d) (int n)) out)"
    by (simp only: IH moves_append)
      (cases "moves inp (concat (map (\<lambda>i. g (r + int i * d) (int i)) [0..<n])) out",
        simp_all add: Suc.prems algebra_simps)
  finally show ?case by simp
qed simp

lemma memcpy_moves:
  "0 \<le> n \<Longrightarrow> memcpy_c out op inp ip n
     = moves inp (map (\<lambda>i. (op + i, Src (ip + i))) (below n)) out"
  unfolding memcpy_c_def
  by (subst each_moves [where g = "\<lambda>i. [(op + i, Src (ip + i))]" and inp = inp])
    (auto split: bind_splits simp: concat_map_singleton)

lemma memset_moves:
  "0 \<le> n \<Longrightarrow> memset_c out op v n = moves inp (map (\<lambda>i. (op + i, Val v)) (below n)) out"
  unfolding memset_c_def
  by (subst each_moves [where g = "\<lambda>i. [(op + i, Val v)]" and inp = inp])
    (auto split: bind_splits simp: concat_map_singleton)

lemma moves_length: "moves inp ms out = Some out' \<Longrightarrow> length out' = length out"
  by (induction inp ms out rule: moves.induct) (auto split: bind_splits dest: poke_length)

lemma src_val_fit:
  "(case s of Src p \<Rightarrow> 0 \<le> p \<and> p < int (length inp) | Val v \<Rightarrow> True) \<Longrightarrow> src_val inp s \<noteq> None"
  by (cases s) (simp_all add: peek_def)

lemma moves_Some:
  assumes "moves_fit ms (int (length inp)) (int (length out))"
  shows "\<exists>out'. moves inp ms out = Some out' \<and> length out' = length out"
  using assms
proof (induction inp ms out rule: moves.induct)
  case (2 inp q s ms out)
  from "2.prems" have q: "0 \<le> q" "q < int (length out)" and s: "src_val inp s \<noteq> None"
    and ms: "moves_fit ms (int (length inp)) (int (length out))"
    using src_val_fit [of inp s] by (auto simp: moves_fit_def simp del: not_None_eq)
  then obtain v where v: "src_val inp s = Some v" by blast
  then show ?case
    using "2.IH" [of v "out[nat q := v]"] q ms by (simp add: poke_Some)
qed simp

lemma moves_frame:
  "moves inp ms out = Some out' \<Longrightarrow> 0 \<le> q \<Longrightarrow> q \<notin> targets ms \<Longrightarrow> out' ! nat q = out ! nat q"
proof (induction inp ms out rule: moves.induct)
  case (2 inp r s ms out)
  then show ?case
    by (auto simp: targets_def poke_def split: bind_splits if_splits)
qed simp

lemma moves_value:
  assumes "moves inp ms out = Some out'" "consistent ms" "(q, s) \<in> set ms"
  shows "src_val inp s = Some (out' ! nat q)" and "0 \<le> q" and "q < int (length out)"
proof -
  have "src_val inp s = Some (out' ! nat q) \<and> 0 \<le> q \<and> q < int (length out)"
    using assms
  proof (induction inp ms out rule: moves.induct)
    case (2 inp r t ms out)
    from "2.prems"(1) obtain v o1 where v: "src_val inp t = Some v" and o1: "poke out r v = Some o1"
      and rest: "moves inp ms o1 = Some out'" by (auto split: bind_splits)
    have len: "length o1 = length out" using o1 by (rule poke_length)
    have cons: "consistent ms" using "2.prems"(2) by (auto simp: consistent_def)
    show ?case
    proof (cases "(q, s) \<in> set ms")
      case True
      then show ?thesis using "2.IH" [OF v o1 rest cons] len by simp
    next
      case False
      with "2.prems"(3) have qs: "q = r" "s = t" by auto
      have "q \<notin> targets ms"
      proof
        assume "q \<in> targets ms"
        then obtain s' where "(q, s') \<in> set ms" by (auto simp: targets_def)
        moreover from this have "s' = s" using "2.prems"(2) qs by (auto simp: consistent_def)
        ultimately show False using False by simp
      qed
      then have "out' ! nat q = o1 ! nat q" using moves_frame [OF rest] o1 qs
        by (auto simp: poke_def split: if_splits)
      then show ?thesis using o1 v qs by (auto simp: poke_def split: if_splits)
    qed
  qed simp
  then show "src_val inp s = Some (out' ! nat q)" and "0 \<le> q" and "q < int (length out)" by auto
qed

text \<open>Reading the elements back.\<close>

lemma moves_back_value:
  assumes "moves x (concat (map readback ms)) y = Some y'"
    and "\<And>q p. (q, Src p) \<in> set ms \<Longrightarrow> peek x q = Some (v p)"
    and "(q, Src p) \<in> set ms"
  shows "y' ! nat p = v p"
  using assms
proof (induction ms arbitrary: y q)
  case (Cons m ms)
  obtain y1 where y1: "moves x (readback m) y = Some y1"
    and rest: "moves x (concat (map readback ms)) y1 = Some y'"
    using Cons.prems(1) by (auto simp: moves_append split: bind_splits)
  show ?case
  proof (cases "\<exists>q'. (q', Src p) \<in> set ms")
    case True
    then show ?thesis using Cons.IH [OF rest] Cons.prems(2) by auto
  next
    case False
    with Cons.prems(3) have m: "m = (q, Src p)" by auto
    have "p \<notin> targets (concat (map readback ms))"
    proof
      assume "p \<in> targets (concat (map readback ms))"
      then obtain m' t where "m' \<in> set ms" "(p, t) \<in> set (readback m')" by (auto simp: targets_def)
      then show False using False by (cases m' rule: readback.cases) auto
    qed
    then have "y' ! nat p = y1 ! nat p"
      using moves_frame [OF rest] y1 m by (auto simp: poke_def split: bind_splits if_splits)
    moreover have "y1 ! nat p = v p"
      using y1 m Cons.prems(2) [of q p] by (auto simp: poke_def split: bind_splits if_splits)
    ultimately show ?thesis by simp
  qed
qed simp

end
