(* ===== verification/Lte_Grid.thy ===== *)
theory Lte_Grid
  imports C_Arrays
begin

unbundle bit_operations_syntax

text \<open>
  The LTE resource grid (modrep_osld/lte_lib/grid): the configuration of a cell, the resource
  element groups (REG) of the control region, and the routines that put the symbols of a
  channel into the grid of a subframe and get them out again.

  A sample is the pair of the bit patterns of its real and imaginary part. The grid of a
  subframe is one buffer of nof_osymb_x_subf times fft_size samples; a pointer into it is an
  index. A pointer to a REG is its index in the table regs (PRB, symbol, number), the null
  pointer is None. The argument pg is param_get_int_name of the skeleton: the value of a
  parameter, or None when the call returns an error and leaves the variable as it is. Results
  are optional, None standing for an access outside an array, a division by zero or a null
  pointer that is followed. Messages are not modelled.
\<close>

section \<open>Data (base.h and the headers of the channels)\<close>

type_synonym complex_t = "cfloat \<times> cfloat"

abbreviation c_zero :: complex_t where "c_zero \<equiv> (0, 0)"

abbreviation (input) "NOF_RE_X_OSYMB \<equiv> 12 :: int"
abbreviation (input) "NOF_SUBFRAMES_X_FRAME \<equiv> 10 :: int"
abbreviation (input) "MAX_PORTS \<equiv> 4 :: int"
abbreviation (input) "MAX_NPRB \<equiv> 110 :: int"
abbreviation (input) "MAX_CTRL_SYMB \<equiv> 4 :: int"
abbreviation (input) "MAX_REGS_X_PRB \<equiv> 3 :: int"
abbreviation (input) "NOF_RE_X_REG \<equiv> 4 :: int"
abbreviation (input) "NOF_REGS_X_CCE \<equiv> 9 :: int"
abbreviation (input) "MAX_PDCCH \<equiv> 20 :: int"
abbreviation (input) "MAX_CCE \<equiv> 8 :: int"
abbreviation (input) "MAX_PDSCH \<equiv> 10 :: int"
abbreviation (input) "MAX_RBG \<equiv> 25 :: int"
abbreviation (input) "PCFICH_REG \<equiv> 4 :: int"
abbreviation (input) "PHICH_REG_MAX \<equiv> 28 :: int"
abbreviation (input) "PBCH_RE \<equiv> 4*6*NOF_RE_X_OSYMB-8*6 :: int"
abbreviation (input) "PSS_LEN \<equiv> 62 :: int"
abbreviation (input) "SSS_LEN \<equiv> 62 :: int"
abbreviation (input) "PSS_RE \<equiv> 6*NOF_RE_X_OSYMB :: int"

abbreviation (input) "CH_PBCH \<equiv> 0 :: int"
abbreviation (input) "CH_PSS \<equiv> 1 :: int"
abbreviation (input) "CH_SSS \<equiv> 2 :: int"
abbreviation (input) "CH_PCFICH \<equiv> 3 :: int"
abbreviation (input) "CH_PHICH \<equiv> 4 :: int"
abbreviation (input) "CH_PDCCH \<equiv> 5 :: int"
abbreviation (input) "CH_PDSCH \<equiv> 6 :: int"
abbreviation (input) "NOF_PHCH \<equiv> 7 :: int"
abbreviation (input) "CH_REF \<equiv> 8 :: int"

record lte_phch_config =
  ch_name :: string
  symbol_mask :: "16 word list"
  nof_re_x_sf :: "int list"

record lte_symbol =
  subframe_id :: int
  symbol_id :: int

record lte_reg =
  rg_k :: "int list"
  rg_k0 :: int
  rg_k3 :: int
  rg_k_ref :: "int list"
  rg_symbol :: int
  rg_id :: int
  rg_assigned :: int

type_synonym reg_ref = "nat \<times> nat \<times> nat"

record lte_grid_regs =
  pdcch_nregs :: int
  pcfich_nregs :: int
  cr_pcfich :: "reg_ref option list"
  phich_nregs :: int
  cr_phich :: "reg_ref option list"
  total_nregs :: int
  cr_regs :: "reg_ref \<Rightarrow> lte_reg"

record lte_pdcch =
  pc_id :: int
  pc_nof_cce :: int
  pc_nof_regs :: int
  pc_nof_re :: int
  pc_nof_bits :: int
  pc_cce :: "reg_ref option list list"

record lte_pdsch =
  rbg_mask :: int
  ps_nof_re :: "int list"
  nof_rbg :: int
  nof_rb :: int
  ps_rbg :: "int list list"

record lte_grid_config =
  g_fft_size :: int
  g_pre_guard :: int
  g_post_guard :: int
  g_nof_re_symb :: int
  g_nof_prb :: int
  g_nof_osymb :: int
  g_nof_ports :: int
  g_cfi :: int
  g_cell_id :: int
  g_phich_duration :: int
  g_phich_ngroups :: int
  g_nof_control_symbols :: int
  g_nof_rs_x_symb :: int
  g_nof_pdcch :: int
  g_nof_pdsch :: int
  g_debug :: int
  g_verbose :: int
  g_refsig_cfg :: "lte_phch_config list"
  g_phch :: "lte_phch_config list"
  g_pdcch :: "lte_pdcch list"
  g_pdsch :: "lte_pdsch list"
  g_control :: lte_grid_regs

text \<open>Static objects start as zero.\<close>

definition phch_zero :: lte_phch_config where
  "phch_zero = \<lparr>ch_name = '''', symbol_mask = replicate 10 0, nof_re_x_sf = replicate 10 0\<rparr>"

definition reg_zero :: lte_reg where
  "reg_zero = \<lparr>rg_k = replicate 4 0, rg_k0 = 0, rg_k3 = 0, rg_k_ref = replicate 2 0, rg_symbol = 0,
     rg_id = 0, rg_assigned = 0\<rparr>"

definition grid_zero :: lte_grid_config where
  "grid_zero = \<lparr>g_fft_size = 0, g_pre_guard = 0, g_post_guard = 0, g_nof_re_symb = 0, g_nof_prb = 0,
     g_nof_osymb = 0, g_nof_ports = 0, g_cfi = 0, g_cell_id = 0, g_phich_duration = 0, g_phich_ngroups = 0,
     g_nof_control_symbols = 0, g_nof_rs_x_symb = 0, g_nof_pdcch = 0, g_nof_pdsch = 0, g_debug = 0,
     g_verbose = 0, g_refsig_cfg = replicate 4 phch_zero, g_phch = replicate 7 phch_zero,
     g_pdcch = replicate 20 \<lparr>pc_id = 0, pc_nof_cce = 0, pc_nof_regs = 0, pc_nof_re = 0, pc_nof_bits = 0,
       pc_cce = replicate 8 (replicate 9 None)\<rparr>,
     g_pdsch = replicate 10 \<lparr>rbg_mask = 0, ps_nof_re = replicate 10 0, nof_rbg = 0, nof_rb = 0,
       ps_rbg = replicate 25 (replicate 4 0)\<rparr>,
     g_control = \<lparr>pdcch_nregs = 0, pcfich_nregs = 0, cr_pcfich = replicate 4 None, phich_nregs = 0,
       cr_phich = replicate 28 None, total_nregs = 0, cr_regs = (\<lambda>_. reg_zero)\<rparr>\<rparr>"

definition RBG_SZ :: "int \<Rightarrow> int" where
  "RBG_SZ a = (if a < 10 then 1 else if a < 26 then 2 else if a < 63 then 3 else 4)"

section \<open>Reference signals (refsig.c)\<close>

definition lte_refsig_symbolmask :: "int \<Rightarrow> lte_grid_config \<Rightarrow> int" where
  "lte_refsig_symbolmask port_id c =
     (let h = cdiv (g_nof_osymb c) 2;
          m = (if g_nof_ports c = 4 \<and> port_id \<ge> 2 then 2 else 1 OR push_bit (nat (h - 3)) 1);
          m1 = (if g_nof_ports c = 4 \<and> port_id = -1 then m OR 2 else m)
      in push_bit (nat h) m1 OR m1)"

definition lte_refsig_or_resv_voffset :: "int \<Rightarrow> lte_grid_config \<Rightarrow> int" where
  "lte_refsig_or_resv_voffset sid c =
     (if g_nof_ports c = 1 \<and> crem sid (cdiv (g_nof_osymb c) 2) \<noteq> 0
      then crem (g_cell_id c + 3) 6 else crem (g_cell_id c) 6)"

definition lte_symbol_has_refsig_or_resv :: "lte_symbol \<Rightarrow> lte_grid_config \<Rightarrow> int" where
  "lte_symbol_has_refsig_or_resv sy c =
     (let h = cdiv (g_nof_osymb c) 2; sid = symbol_id sy in
      if subframe_id sy = 0 \<and> (sid = h \<or> sid = h + 1) then 4
      else if lte_refsig_symbolmask (-1) c AND push_bit (nat sid) 1 = 0 then 0
      else if g_nof_ports c = 1 \<and> sid > 0 then
        (if g_nof_osymb c = 12 \<and> sid = h - 3 then 4 else 2)
      else 4)"

definition lte_symbol_has_refsig :: "int \<Rightarrow> int \<Rightarrow> lte_grid_config \<Rightarrow> int" where
  "lte_symbol_has_refsig port_id sid c = lte_refsig_symbolmask port_id c AND push_bit (nat sid) 1"

definition lte_re_has_refsig_or_resv :: "int \<Rightarrow> int \<Rightarrow> lte_grid_config \<Rightarrow> bool" where
  "lte_re_has_refsig_or_resv k sid c =
     (let n = lte_symbol_has_refsig_or_resv \<lparr>subframe_id = 0, symbol_id = sid\<rparr> c in
      if n = 0 then False
      else crem k (cdiv NOF_RE_X_OSYMB n) = lte_refsig_or_resv_voffset sid c)"

definition lte_refsig_init :: "int \<Rightarrow> lte_phch_config \<Rightarrow> lte_grid_config \<Rightarrow> int \<times> lte_phch_config" where
  "lte_refsig_init port_id ch c = (0, ch\<lparr>ch_name := ''REFSIG'',
     symbol_mask := replicate 10 (word_of_int (lte_refsig_symbolmask port_id c)),
     nof_re_x_sf := replicate 10 (if port_id < 4 then 8 * g_nof_prb c else 4 * g_nof_prb c)\<rparr>)"

definition lte_refsig_l :: "int \<Rightarrow> lte_grid_config \<Rightarrow> int" where
  "lte_refsig_l sid c = (let n = g_nof_osymb c in
     if sid = 0 \<or> sid = cdiv n 2 then 0 else if sid = cdiv n 2 - 3 \<or> sid = n - 3 then 1 else 2)"

definition lte_refsig_v :: "int \<Rightarrow> int \<Rightarrow> int \<Rightarrow> lte_grid_config \<Rightarrow> int" where
  "lte_refsig_v port_id ns sid c = (let z = (sid = 0 \<or> sid = cdiv (g_nof_osymb c) 2) in
     if port_id = 0 then (if z then 0 else 3)
     else if port_id = 1 then (if z then 3 else 0)
     else if port_id = 2 then 3 * crem ns 2
     else if port_id = 3 then 3 + 3 * crem ns 2 else -1)"

definition lte_refsig_k :: "int \<Rightarrow> int \<Rightarrow> lte_grid_config \<Rightarrow> int" where
  "lte_refsig_k m v c = 6 * m + crem (v + crem (g_cell_id c) 6) 6"

definition lte_refsig_mp :: "int \<Rightarrow> lte_grid_config \<Rightarrow> int" where
  "lte_refsig_mp m c = m + MAX_NPRB - g_nof_prb c"

definition lte_get_ns :: "lte_symbol \<Rightarrow> lte_grid_config \<Rightarrow> int" where
  "lte_get_ns sy c = subframe_id sy * 2 + (if symbol_id sy < cdiv (g_nof_osymb c) 2 then 0 else 1)"

text \<open>The arrays signal and k of refsignal_t, of 3 times 20 times 220 elements.\<close>

record refsignal_t =
  port_id :: int
  rs_signal :: "int \<times> int \<times> int \<Rightarrow> complex_t"
  rs_k :: "int \<times> int \<times> int \<Rightarrow> int"

definition ref_in :: "int \<times> int \<times> int \<Rightarrow> bool" where
  "ref_in i = (case i of (l, ns, m) \<Rightarrow> 0 \<le> l \<and> l < 3 \<and> 0 \<le> ns \<and> ns < 20 \<and> 0 \<le> m \<and> m < 220)"

definition lte_refsig_put :: "refsignal_t \<Rightarrow> complex_t list \<Rightarrow> int \<Rightarrow> lte_symbol \<Rightarrow> lte_grid_config
    \<Rightarrow> (int \<times> complex_t list) option" where
  "lte_refsig_put rs out op loc c =
     (if lte_symbol_has_refsig (port_id rs) (symbol_id loc) c = 0 then Some (0, out)
      else let l = lte_refsig_l (symbol_id loc) c; ns = lte_get_ns loc c; n = 2 * g_nof_prb c in
        map_option (Pair (max 0 n)) (each (\<lambda>m o1. let i = (l, ns, lte_refsig_mp m c) in
          if ref_in i then poke o1 (op + rs_k rs i) (rs_signal rs i) else None) (below n) out))"

definition lte_refsig_get :: "complex_t list \<Rightarrow> int \<Rightarrow> refsignal_t \<Rightarrow> lte_symbol \<Rightarrow> lte_grid_config
    \<Rightarrow> (int \<times> refsignal_t) option" where
  "lte_refsig_get inp ip rs loc c =
     (if lte_symbol_has_refsig (port_id rs) (symbol_id loc) c = 0 then Some (0, rs)
      else let l = lte_refsig_l (symbol_id loc) c; ns = lte_get_ns loc c; n = 2 * g_nof_prb c in
        map_option (Pair (max 0 n)) (each (\<lambda>m rs1. let i = (l, ns, lte_refsig_mp m c) in
          if ref_in i then map_option (\<lambda>v. rs1\<lparr>rs_signal := (rs_signal rs1)(i := v)\<rparr>) (peek inp (ip + rs_k rs1 i))
          else None) (below n) rs))"

definition generate_cref_k :: "refsignal_t \<Rightarrow> lte_grid_config \<Rightarrow> refsignal_t option" where
  "generate_cref_k rs c = (let lp = (\<lambda>l. if l = 0 then 0 else if l = 1 then cdiv (g_nof_osymb c) 2 - 3 else 1) in
     each (\<lambda>l. each (\<lambda>ns. let v = lte_refsig_v (port_id rs) ns (lp l) c in
       each (\<lambda>m rs1. let i = (l, ns, lte_refsig_mp m c) in
         if ref_in i then Some (rs1\<lparr>rs_k := (rs_k rs1)(i := lte_refsig_k m v c + g_pre_guard c)\<rparr>) else None)
         (below (2 * g_nof_prb c))) (below 20)) (below 3) rs)"

section \<open>Common routines (base.c)\<close>

definition lte_get_fft_size_idx :: "int \<Rightarrow> int" where
  "lte_get_fft_size_idx n = (if n = 128 then 0 else if n = 256 then 1 else if n = 512 then 2
     else if n = 1024 then 3 else if n = 1536 then 4 else if n = 2048 then 5 else -1)"

definition fft_size :: "int \<Rightarrow> int" where
  "fft_size n = (if n \<le> 0 then -1 else if n \<le> 6 then 128 else if n \<le> 15 then 256 else if n \<le> 25 then 512
     else if n \<le> 50 then 1024 else if n \<le> 75 then 1536 else if n \<le> 100 then 2048 else -1)"

definition tb_2_cb :: "int \<Rightarrow> int" where
  "tb_2_cb x = 3 * (x + 16) + 12"

definition lte_sf_has_ch :: "int \<Rightarrow> lte_phch_config \<Rightarrow> bool option" where
  "lte_sf_has_ch sf ch = map_option (\<lambda>m. m \<noteq> 0) (peek (symbol_mask ch) sf)"

definition lte_symbol_has_ch :: "lte_symbol \<Rightarrow> lte_phch_config \<Rightarrow> bool option" where
  "lte_symbol_has_ch sy ch = map_option (\<lambda>m. push_bit (nat (symbol_id sy)) 1 AND uint m \<noteq> 0)
     (peek (symbol_mask ch) (subframe_id sy))"

definition lte_ch_put_ref_one :: "complex_t list \<Rightarrow> int \<Rightarrow> complex_t list \<Rightarrow> int \<Rightarrow> int \<Rightarrow> complex_t list option" where
  "lte_ch_put_ref_one inp ip out op data_len = do {
     out1 \<leftarrow> poke out op c_zero;
     memcpy_c out1 (op + 1) inp ip data_len }"

definition lte_ch_put_ref :: "complex_t list \<Rightarrow> int \<Rightarrow> complex_t list \<Rightarrow> int \<Rightarrow> int \<Rightarrow> int \<Rightarrow> int
    \<Rightarrow> complex_t list option" where
  "lte_ch_put_ref inp ip out op nof_prb offset ref_interval = (
     let n = cdiv NOF_RE_X_OSYMB ref_interval * nof_prb - 1 in do {
     out1 \<leftarrow> memcpy_c out op inp ip offset;
     (rp, out2) \<leftarrow> each (\<lambda>i (rp, o1). do {
         o2 \<leftarrow> lte_ch_put_ref_one inp (ip + rp) o1 (op + (ref_interval * i + offset)) (ref_interval - 1);
         Some (rp + (ref_interval - 1), o2) }) (below n) (offset, out1);
     if ref_interval - offset - 1 > 0
     then lte_ch_put_ref_one inp (ip + rp) out2 (op + (ref_interval * max 0 n + offset)) (ref_interval - offset - 1)
     else Some out2 })"

definition lte_ch_cp_noref :: "complex_t list \<Rightarrow> int \<Rightarrow> complex_t list \<Rightarrow> int \<Rightarrow> int \<Rightarrow> complex_t list option" where
  "lte_ch_cp_noref inp ip out op nof_prb = each (\<lambda>i o1.
     memcpy_c o1 (op + i * NOF_RE_X_OSYMB) inp (ip + i * NOF_RE_X_OSYMB) NOF_RE_X_OSYMB) (below nof_prb) out"

definition lte_ch_get_ref_one :: "complex_t list \<Rightarrow> int \<Rightarrow> complex_t list \<Rightarrow> int \<Rightarrow> int \<Rightarrow> complex_t list option" where
  "lte_ch_get_ref_one inp ip out op data_len = memcpy_c out op inp (ip + 1) data_len"

definition lte_ch_get_ref :: "complex_t list \<Rightarrow> int \<Rightarrow> complex_t list \<Rightarrow> int \<Rightarrow> int \<Rightarrow> int \<Rightarrow> int
    \<Rightarrow> complex_t list option" where
  "lte_ch_get_ref inp ip out op nof_prb offset ref_interval = (
     let n = cdiv NOF_RE_X_OSYMB ref_interval * nof_prb - 1 in do {
     out1 \<leftarrow> memcpy_c out op inp ip offset;
     (wp, out2) \<leftarrow> each (\<lambda>i (wp, o1). do {
         o2 \<leftarrow> lte_ch_get_ref_one inp (ip + (ref_interval * i + offset)) o1 (op + wp) (ref_interval - 1);
         Some (wp + (ref_interval - 1), o2) }) (below n) (offset, out1);
     if ref_interval - offset - 1 > 0
     then lte_ch_get_ref_one inp (ip + (ref_interval * max 0 n + offset)) out2 (op + wp) (ref_interval - offset - 1)
     else Some out2 })"

definition lte_set_guard_symbol :: "complex_t list \<Rightarrow> int \<Rightarrow> lte_grid_config \<Rightarrow> complex_t list option" where
  "lte_set_guard_symbol out op c = do {
     o1 \<leftarrow> memset_c out op c_zero (g_pre_guard c);
     memset_c o1 (op + (g_fft_size c - g_post_guard c)) c_zero (g_post_guard c) }"

definition lte_set_guard_sf :: "complex_t list \<Rightarrow> lte_grid_config \<Rightarrow> complex_t list option" where
  "lte_set_guard_sf out c = each (\<lambda>i o1. lte_set_guard_symbol o1 (i * g_fft_size c) c) (below (g_nof_osymb c)) out"

definition lte_set_refsign_sf :: "refsignal_t \<Rightarrow> complex_t list \<Rightarrow> int \<Rightarrow> lte_grid_config \<Rightarrow> complex_t list option" where
  "lte_set_refsign_sf rs out sf c = each (\<lambda>i o1.
     map_option snd (lte_refsig_put rs o1 (i * g_fft_size c) \<lparr>subframe_id = sf, symbol_id = i\<rparr> c))
     (below (g_nof_osymb c)) out"

end
