(* ===== verification/Grid_Channels.thy ===== *)
theory Grid_Channels
  imports Lte_Grid
begin

unbundle bit_operations_syntax

text \<open>
  The physical channels of the LTE resource grid (modrep_osld/lte_lib/grid): the broadcast
  channel (pbch.c), the shared channel (pdsch.c), the synchronisation signals (sync.c), the
  resource element groups (regs.c) with the channels of the control region (pcfich.c, phich.c,
  pdcch.c), and the dispatch and initialisation of base.c.
\<close>

section \<open>PBCH (pbch.c)\<close>

definition set_sf :: "int \<Rightarrow> 16 word \<Rightarrow> int \<Rightarrow> lte_phch_config \<Rightarrow> lte_phch_config option" where
  "set_sf i m n ch = do {
     ms \<leftarrow> poke (symbol_mask ch) i m;
     ns \<leftarrow> poke (nof_re_x_sf ch) i n;
     Some (ch\<lparr>symbol_mask := ms, nof_re_x_sf := ns\<rparr>) }"

definition lte_pbch_init :: "lte_phch_config \<Rightarrow> lte_grid_config \<Rightarrow> (int \<times> lte_phch_config) option" where
  "lte_pbch_init ch c = map_option (Pair 0)
     (set_sf 0 (word_of_int (push_bit (nat (cdiv (g_nof_osymb c) 2)) 15)) PBCH_RE (ch\<lparr>ch_name := ''PBCH''\<rparr>))"

definition phch_at :: "lte_grid_config \<Rightarrow> int \<Rightarrow> lte_phch_config option" where
  "phch_at c t = peek (g_phch c) t"

definition lte_pbch_put :: "complex_t list \<Rightarrow> int \<Rightarrow> complex_t list \<Rightarrow> int \<Rightarrow> lte_symbol \<Rightarrow> lte_grid_config
    \<Rightarrow> (int \<times> complex_t list) option" where
  "lte_pbch_put inp ip out op loc c = do {
     ch \<leftarrow> phch_at c CH_PBCH;
     has \<leftarrow> lte_symbol_has_ch loc ch;
     if \<not> has then Some (0, out)
     else let k = cdiv (g_nof_prb c * NOF_RE_X_OSYMB) 2 - 36; n = lte_symbol_has_refsig_or_resv loc c in
       if n \<noteq> 0 then map_option (Pair (6 * NOF_RE_X_OSYMB - n * 6))
         (lte_ch_put_ref inp ip out (op + k) 6 (lte_refsig_or_resv_voffset (symbol_id loc) c) (cdiv NOF_RE_X_OSYMB n))
       else map_option (Pair (6 * NOF_RE_X_OSYMB)) (lte_ch_cp_noref inp ip out (op + k) 6) }"

definition lte_pbch_get :: "complex_t list \<Rightarrow> int \<Rightarrow> complex_t list \<Rightarrow> int \<Rightarrow> lte_symbol \<Rightarrow> lte_grid_config
    \<Rightarrow> (int \<times> complex_t list) option" where
  "lte_pbch_get inp ip out op loc c = do {
     ch \<leftarrow> phch_at c CH_PBCH;
     has \<leftarrow> lte_symbol_has_ch loc ch;
     if \<not> has then Some (0, out)
     else let k = cdiv (g_nof_prb c * NOF_RE_X_OSYMB) 2 - 36; n = lte_symbol_has_refsig_or_resv loc c in
       if n \<noteq> 0 then map_option (Pair (6 * NOF_RE_X_OSYMB - n * 6))
         (lte_ch_get_ref inp (ip + k) out op 6 (lte_refsig_or_resv_voffset (symbol_id loc) c) (cdiv NOF_RE_X_OSYMB n))
       else map_option (Pair (6 * NOF_RE_X_OSYMB)) (lte_ch_cp_noref inp (ip + k) out op 6) }"

section \<open>PDSCH (pdsch.c)\<close>

definition lte_pdsch_fill_rbg :: "int list \<Rightarrow> lte_pdsch \<Rightarrow> lte_grid_config \<Rightarrow> (int \<times> int list) option" where
  "lte_pdsch_fill_rbg v ch c = (let n = cdiv (g_nof_prb c) (RBG_SZ (g_nof_prb c)) in
     map_option (Pair (max 0 n)) (each (\<lambda>i v1.
       poke v1 i (if rbg_mask ch AND push_bit (nat i) 1 \<noteq> 0 then 1 else 0)) (below n) v))"

definition rbg_store :: "int \<Rightarrow> int \<Rightarrow> lte_pdsch \<Rightarrow> lte_pdsch option" where
  "rbg_store j v ch = do {
     row \<leftarrow> peek (ps_rbg ch) (nof_rbg ch);
     row1 \<leftarrow> poke row j v;
     rows \<leftarrow> poke (ps_rbg ch) (nof_rbg ch) row1;
     Some (ch\<lparr>ps_rbg := rows, nof_rbg := nof_rbg ch + 1\<rparr>) }"

definition lte_pdsch_setup_rbgmask :: "lte_pdsch \<Rightarrow> lte_grid_config \<Rightarrow> lte_pdsch option" where
  "lte_pdsch_setup_rbgmask ch c = (let N = g_nof_prb c; sz = RBG_SZ N in do {
     ch1 \<leftarrow> each (\<lambda>i h. if rbg_mask h AND push_bit (nat i) 1 \<noteq> 0
         then each (\<lambda>j. rbg_store j (sz * i + j)) (below sz) h else Some h)
       (below (cdiv N sz)) (ch\<lparr>nof_rbg := 0\<rparr>);
     let ch2 = ch1\<lparr>nof_rb := sz * nof_rbg ch1\<rparr>;
     if N = 0 then None else do {
     ph \<leftarrow> phch_at c CH_PDSCH;
     each (\<lambda>i h. do {
       n \<leftarrow> peek (nof_re_x_sf ph) i;
       re \<leftarrow> poke (ps_nof_re h) i (nof_rb h * cdiv n N);
       Some (h\<lparr>ps_nof_re := re\<rparr>) }) (below NOF_SUBFRAMES_X_FRAME) ch2 } })"

text \<open>Decimal digits, as printf writes them for the numbers of channels.\<close>

fun dec_str :: "nat \<Rightarrow> string" where
  "dec_str n = (if n < 10 then [char_of (48 + n)] else dec_str (n div 10) @ [char_of (48 + n mod 10)])"

declare dec_str.simps [simp del]

type_synonym pget = "string \<Rightarrow> int option"

definition set_pdsch :: "int \<Rightarrow> lte_pdsch \<Rightarrow> lte_grid_config \<Rightarrow> lte_grid_config option" where
  "set_pdsch i h c = map_option (\<lambda>l. c\<lparr>g_pdsch := l\<rparr>) (poke (g_pdsch c) i h)"

definition lte_pdsch_init_params_ch :: "pget \<Rightarrow> int \<Rightarrow> lte_grid_config \<Rightarrow> (int \<times> lte_grid_config) option" where
  "lte_pdsch_init_params_ch pg i c = do {
     h \<leftarrow> peek (g_pdsch c) i;
     c1 \<leftarrow> set_pdsch i (case pg (''pdsch_rbgmask_'' @ dec_str (nat i)) of
         None \<Rightarrow> h | Some v \<Rightarrow> h\<lparr>rbg_mask := v\<rparr>) c;
     Some (0, c1) }"

definition lte_pdsch_init_params :: "pget \<Rightarrow> lte_grid_config \<Rightarrow> (int \<times> lte_grid_config) option" where
  "lte_pdsch_init_params pg c = (
     let c1 = (case pg ''nof_pdsch'' of None \<Rightarrow> c | Some v \<Rightarrow> c\<lparr>g_nof_pdsch := v\<rparr>) in
     if g_nof_pdsch c1 > MAX_PDSCH then Some (-1, c1)
     else map_option (Pair 0) (each (\<lambda>i k. map_option snd (lte_pdsch_init_params_ch pg i k))
       (below (g_nof_pdsch c1)) c1))"

definition pdsch_ref_prb :: "(int \<times> int) list" where
  "pdsch_ref_prb = [(4, 6), (8, 12), (4, 8), (4, 16)]"

definition pdsch_used_symbols :: "int list" where
  "pdsch_used_symbols = [6, 0, 0, 0, 0, 2, 0, 0, 0, 0]"

definition lte_pdsch_re_x_prb :: "int \<Rightarrow> lte_grid_config \<Rightarrow> int option" where
  "lte_pdsch_re_x_prb sf c = (
     case (if g_nof_ports c = 1 then Some 0 else if g_nof_ports c = 2 then Some 1
           else if g_nof_ports c = 4 then Some (2 :: nat) else None) of
       None \<Rightarrow> Some (-1)
     | Some i \<Rightarrow> map_option (\<lambda>u. NOF_RE_X_OSYMB * (g_nof_osymb c - g_nof_control_symbols c - u)
         - (if sf = 0 then fst (pdsch_ref_prb ! i) else snd (pdsch_ref_prb ! i))) (peek pdsch_used_symbols sf))"

definition flip_bits :: "int list \<Rightarrow> 16 word \<Rightarrow> 16 word" where
  "flip_bits js m = fold (\<lambda>j w. w XOR push_bit (nat j) 1) js m"

definition lte_pdsch_init_sf :: "int \<Rightarrow> lte_phch_config \<Rightarrow> lte_grid_config \<Rightarrow> (int \<times> lte_phch_config) option" where
  "lte_pdsch_init_sf sf ch c =
     (if sf < 0 \<or> sf > NOF_SUBFRAMES_X_FRAME then Some (-1, ch)
      else let h = cdiv (g_nof_osymb c) 2;
        m0 = word_of_int (push_bit (nat (g_nof_osymb c + 1)) 1 - 1);
        m1 = flip_bits (below (g_nof_control_symbols c)) m0;
        m2 = (if g_nof_prb c = 6 \<and> sf = 0 then flip_bits (map (\<lambda>j. h + j) (below 4)) m1 else m1);
        m3 = (if g_nof_prb c = 6 \<and> (sf = 0 \<or> sf = 5) then flip_bits [h - 1, h - 2] m2 else m2)
      in do {
        x \<leftarrow> lte_pdsch_re_x_prb sf c;
        ch1 \<leftarrow> set_sf sf m3 (g_nof_prb c * x) ch;
        Some (if g_nof_prb c * x < 0 then -1 else 0, ch1) })"

definition set_phch :: "int \<Rightarrow> lte_phch_config \<Rightarrow> lte_grid_config \<Rightarrow> lte_grid_config option" where
  "set_phch i ch c = map_option (\<lambda>l. c\<lparr>g_phch := l\<rparr>) (poke (g_phch c) i ch)"

text \<open>lte_pdsch_init works on the channel t of the configuration itself.\<close>

definition lte_pdsch_init :: "pget \<Rightarrow> int \<Rightarrow> lte_grid_config \<Rightarrow> (int \<times> lte_grid_config) option" where
  "lte_pdsch_init pg t c = do {
     ch \<leftarrow> phch_at c t;
     c1 \<leftarrow> set_phch t (ch\<lparr>ch_name := ''PDSCH''\<rparr>) c;
     (r, c2) \<leftarrow> lte_pdsch_init_params pg c1;
     if r \<noteq> 0 then Some (-1, c2)
     else if g_nof_pdsch c2 = 0 then Some (0, c2)
     else do {
       c3 \<leftarrow> each (\<lambda>i k. do {
         h \<leftarrow> phch_at k t;
         (r, h1) \<leftarrow> lte_pdsch_init_sf i h k;
         set_phch t h1 k }) (below NOF_SUBFRAMES_X_FRAME) c2;
       map_option (Pair 0) (each (\<lambda>i k. do {
         h \<leftarrow> peek (g_pdsch k) i;
         h1 \<leftarrow> lte_pdsch_setup_rbgmask h k;
         set_pdsch i h1 k }) (below (g_nof_pdsch c3)) c3) } }"

definition lte_pdsch_get_re :: "int \<Rightarrow> int \<Rightarrow> lte_grid_config \<Rightarrow> int option" where
  "lte_pdsch_get_re i sf c =
     (if i < 0 \<or> i > g_nof_pdsch c then Some (-1)
      else if sf < 0 \<or> sf > NOF_SUBFRAMES_X_FRAME then Some (-1)
      else do { h \<leftarrow> peek (g_pdsch c) i; peek (ps_nof_re h) sf })"

text \<open>The PRB of group i, position j, of a shared channel.\<close>

definition prb_of :: "lte_pdsch \<Rightarrow> int \<Rightarrow> int \<Rightarrow> int option" where
  "prb_of h i j = do { row \<leftarrow> peek (ps_rbg h) i; peek row j }"

definition pdsch_pairs :: "lte_pdsch \<Rightarrow> lte_grid_config \<Rightarrow> (int \<times> int) list" where
  "pdsch_pairs h c = [(i, j). i \<leftarrow> below (nof_rbg h), j \<leftarrow> below (RBG_SZ (g_nof_prb c))]"

definition lte_pdsch_put :: "complex_t list \<Rightarrow> int \<Rightarrow> complex_t list \<Rightarrow> int \<Rightarrow> int \<Rightarrow> lte_symbol \<Rightarrow> lte_grid_config
    \<Rightarrow> (int \<times> complex_t list) option" where
  "lte_pdsch_put inp ip out op idx loc c = do {
     ch \<leftarrow> phch_at c CH_PDSCH;
     has \<leftarrow> lte_symbol_has_ch loc ch;
     if \<not> has then Some (0, out)
     else let n = lte_symbol_has_refsig_or_resv loc c in do {
       h \<leftarrow> peek (g_pdsch c) idx;
       each (\<lambda>(i, j) (rp, o1). do {
         prb \<leftarrow> prb_of h i j;
         let wp = NOF_RE_X_OSYMB * prb;
         if n \<noteq> 0 then map_option (Pair (rp + (NOF_RE_X_OSYMB - n * g_nof_ports c)))
           (lte_ch_put_ref inp (ip + rp) o1 (op + wp) 1 (lte_refsig_or_resv_voffset (symbol_id loc) c) (cdiv NOF_RE_X_OSYMB n))
         else map_option (Pair (rp + NOF_RE_X_OSYMB)) (lte_ch_cp_noref inp (ip + rp) o1 (op + wp) 1) })
         (pdsch_pairs h c) (0, out) } }"

definition lte_pdsch_get :: "complex_t list \<Rightarrow> int \<Rightarrow> complex_t list \<Rightarrow> int \<Rightarrow> int \<Rightarrow> lte_symbol \<Rightarrow> lte_grid_config
    \<Rightarrow> (int \<times> complex_t list) option" where
  "lte_pdsch_get inp ip out op idx loc c = do {
     ch \<leftarrow> phch_at c CH_PDSCH;
     has \<leftarrow> lte_symbol_has_ch loc ch;
     if \<not> has then Some (0, out)
     else let n = lte_symbol_has_refsig_or_resv loc c in do {
       h \<leftarrow> peek (g_pdsch c) idx;
       each (\<lambda>(i, j) (wp, o1). do {
         prb \<leftarrow> prb_of h i j;
         let rp = NOF_RE_X_OSYMB * prb;
         if n \<noteq> 0 then map_option (Pair (wp + (NOF_RE_X_OSYMB - n * g_nof_ports c)))
           (lte_ch_get_ref inp (ip + rp) o1 (op + wp) 1 (lte_refsig_or_resv_voffset (symbol_id loc) c) (cdiv NOF_RE_X_OSYMB n))
         else map_option (Pair (wp + NOF_RE_X_OSYMB)) (lte_ch_cp_noref inp (ip + rp) o1 (op + wp) 1) })
         (pdsch_pairs h c) (0, out) } }"

section \<open>Synchronisation signals (sync.c)\<close>

definition lte_pss_init :: "lte_phch_config \<Rightarrow> lte_grid_config \<Rightarrow> (int \<times> lte_phch_config) option" where
  "lte_pss_init ch c = (let m = word_of_int (push_bit (nat (cdiv (g_nof_osymb c) 2 - 1)) 1) in do {
     ch1 \<leftarrow> set_sf 0 m PSS_RE (ch\<lparr>ch_name := ''PSS''\<rparr>);
     ch2 \<leftarrow> set_sf 5 m PSS_RE ch1;
     Some (0, ch2) })"

definition lte_sss_init :: "lte_phch_config \<Rightarrow> lte_grid_config \<Rightarrow> (int \<times> lte_phch_config) option" where
  "lte_sss_init ch c = (let m = word_of_int (push_bit (nat (cdiv (g_nof_osymb c) 2 - 2)) 1) in do {
     ch1 \<leftarrow> set_sf 0 m PSS_RE (ch\<lparr>ch_name := ''SSS''\<rparr>);
     ch2 \<leftarrow> set_sf 5 m PSS_RE ch1;
     Some (0, ch2) })"

definition lte_pss_put :: "complex_t list \<Rightarrow> complex_t list \<Rightarrow> int \<Rightarrow> lte_symbol \<Rightarrow> lte_grid_config
    \<Rightarrow> (int \<times> complex_t list) option" where
  "lte_pss_put pss out op loc c = do {
     ch \<leftarrow> phch_at c CH_PSS;
     has \<leftarrow> lte_symbol_has_ch loc ch;
     if \<not> has then Some (0, out)
     else let k = cdiv (g_nof_prb c * NOF_RE_X_OSYMB) 2 - 31 in do {
       o1 \<leftarrow> memset_c out (op + k - 5) c_zero 5;
       o2 \<leftarrow> memcpy_c o1 (op + k) pss 0 PSS_LEN;
       o3 \<leftarrow> memset_c o2 (op + k + PSS_LEN) c_zero 5;
       Some (PSS_LEN, o3) } }"

definition lte_sss_put :: "cfloat list \<Rightarrow> int \<Rightarrow> complex_t list \<Rightarrow> int \<Rightarrow> lte_symbol \<Rightarrow> lte_grid_config
    \<Rightarrow> (int \<times> complex_t list) option" where
  "lte_sss_put sss sp out op loc c = do {
     ch \<leftarrow> phch_at c CH_SSS;
     has \<leftarrow> lte_symbol_has_ch loc ch;
     if \<not> has then Some (0, out)
     else let k = cdiv (g_nof_prb c * NOF_RE_X_OSYMB) 2 - 31 in do {
       o1 \<leftarrow> memset_c out (op + k - 5) c_zero 5;
       o2 \<leftarrow> each (\<lambda>i o1. do { v \<leftarrow> peek sss (sp + i); poke o1 (op + k + i) (v, 0) }) (below SSS_LEN) o1;
       o3 \<leftarrow> memset_c o2 (op + k + SSS_LEN) c_zero 5;
       Some (SSS_LEN, o3) } }"

section \<open>Resource element groups (regs.c)\<close>

definition lte_reg_num :: "int \<Rightarrow> lte_grid_config \<Rightarrow> int" where
  "lte_reg_num sid c = (if lte_symbol_has_refsig_or_resv \<lparr>subframe_id = 0, symbol_id = sid\<rparr> c \<noteq> 0 then 2 else 3)"

definition reg_fill :: "int list \<Rightarrow> int \<times> int list \<Rightarrow> (int \<times> int list) option" where
  "reg_fill vs s = each (\<lambda>v (j, k). map_option (Pair (j + 1)) (poke k j v)) vs s"

definition lte_reg_indices :: "int \<Rightarrow> int \<Rightarrow> int \<Rightarrow> int \<Rightarrow> lte_reg \<Rightarrow> (int \<times> lte_reg) option" where
  "lte_reg_indices nreg kp maxreg vo reg =
     (if maxreg = 2 then (let b = kp + nreg * 6 in do {
        (j1, k1) \<leftarrow> reg_fill (map (\<lambda>i. b + i) (below vo)) (0, rg_k reg);
        (j2, k2) \<leftarrow> reg_fill (map (\<lambda>i. b + i + vo + 1) (below 2)) (j1, k1);
        (j3, k3) \<leftarrow> reg_fill (map (\<lambda>i. b + vo + 3 + i + 1) (below (4 - j2))) (j2, k2);
        let reg1 = reg\<lparr>rg_k := k3, rg_k_ref := [b + vo, b + vo + 3]\<rparr>;
        Some (if j3 \<noteq> 4 then (-1, reg1) else (0, reg1\<lparr>rg_k0 := b, rg_k3 := b + 6\<rparr>)) })
      else if maxreg = 3 then (let b = kp + nreg * 4 in
        Some (0, reg\<lparr>rg_k := map (\<lambda>i. b + i) (below 4), rg_k_ref := [-1, -1], rg_k0 := b, rg_k3 := b + 4\<rparr>))
      else Some (0, reg))"

definition reg_at :: "int \<Rightarrow> int \<Rightarrow> int \<Rightarrow> reg_ref option" where
  "reg_at p l r = (if 0 \<le> p \<and> p < MAX_NPRB \<and> 0 \<le> l \<and> l < MAX_CTRL_SYMB \<and> 0 \<le> r \<and> r < MAX_REGS_X_PRB
     then Some (nat p, nat l, nat r) else None)"

abbreviation g_regs :: "lte_grid_config \<Rightarrow> reg_ref \<Rightarrow> lte_reg" where
  "g_regs c \<equiv> cr_regs (g_control c)"

definition set_reg :: "reg_ref \<Rightarrow> lte_reg \<Rightarrow> lte_grid_config \<Rightarrow> lte_grid_config" where
  "set_reg a reg c = c\<lparr>g_control := (g_control c)\<lparr>cr_regs := (g_regs c)(a := reg)\<rparr>\<rparr>"

definition lte_grid_init_reg :: "lte_grid_config \<Rightarrow> int \<Rightarrow> (int \<times> lte_grid_config) option" where
  "lte_grid_init_reg c nof_ctrl_symbols = (
     let vo = crem (g_cell_id c) 3;
         total = (\<Sum>i\<leftarrow>below nof_ctrl_symbols. g_nof_prb c * lte_reg_num i c);
         c1 = c\<lparr>g_control := (g_control c)\<lparr>total_nregs := total\<rparr>\<rparr>
     in each_rc (\<lambda>i. each_rc (\<lambda>p. each_rc (\<lambda>j k. do {
          a \<leftarrow> reg_at p i j;
          (r, reg) \<leftarrow> lte_reg_indices j (p * NOF_RE_X_OSYMB) (lte_reg_num i c) vo (g_regs k a);
          if r \<noteq> 0 then Some (-1, set_reg a reg k)
          else Some (0, set_reg a (reg\<lparr>rg_symbol := i, rg_id := j, rg_assigned := 1\<rparr>) k) })
        (below (lte_reg_num i c))) (below (g_nof_prb c))) (below nof_ctrl_symbols) c1)"

text \<open>Some None is the null pointer.\<close>

fun reg_search :: "int list \<Rightarrow> int \<Rightarrow> int \<Rightarrow> int \<Rightarrow> lte_grid_config \<Rightarrow> reg_ref option option" where
  "reg_search [] prb k l c = Some None"
| "reg_search (i # is) prb k l c = (case reg_at prb l i of None \<Rightarrow> None
     | Some a \<Rightarrow> if rg_k0 (g_regs c a) \<le> k \<and> k < rg_k3 (g_regs c a) then Some (Some a)
         else reg_search is prb k l c)"

definition lte_reg_get_k :: "int \<Rightarrow> int \<Rightarrow> lte_grid_config \<Rightarrow> reg_ref option option" where
  "lte_reg_get_k k l c = (if l < 0 \<or> l > MAX_CTRL_SYMB then Some None
     else reg_search (below MAX_REGS_X_PRB) (cdiv k NOF_RE_X_OSYMB) k l c)"

definition lte_reg_put_sf_pos :: "int \<Rightarrow> int \<Rightarrow> lte_grid_config \<Rightarrow> int" where
  "lte_reg_put_sf_pos k l c = l * g_fft_size c + g_pre_guard c + k"

definition lte_reg_put :: "complex_t list \<Rightarrow> int \<Rightarrow> complex_t list \<Rightarrow> reg_ref option \<Rightarrow> lte_grid_config
    \<Rightarrow> complex_t list option" where
  "lte_reg_put inp ip out a c = do {
     b \<leftarrow> a;
     let reg = g_regs c b;
     o1 \<leftarrow> each (\<lambda>i o1. do {
       k \<leftarrow> peek (rg_k reg) i;
       v \<leftarrow> peek inp (ip + i);
       poke o1 (lte_reg_put_sf_pos k (rg_symbol reg) c) v }) (below NOF_RE_X_REG) out;
     each (\<lambda>i o1. do {
       k \<leftarrow> peek (rg_k_ref reg) i;
       if k \<ge> 0 then poke o1 (lte_reg_put_sf_pos k (rg_symbol reg) c) c_zero else Some o1 }) (below 2) o1 }"

definition lte_reg_get :: "complex_t list \<Rightarrow> complex_t list \<Rightarrow> int \<Rightarrow> reg_ref option \<Rightarrow> lte_grid_config
    \<Rightarrow> complex_t list option" where
  "lte_reg_get inp out op a c = do {
     b \<leftarrow> a;
     let reg = g_regs c b;
     each (\<lambda>i o1. do {
       k \<leftarrow> peek (rg_k reg) i;
       v \<leftarrow> peek inp (lte_reg_put_sf_pos k (rg_symbol reg) c);
       poke o1 (op + i) v }) (below NOF_RE_X_REG) out }"

section \<open>PCFICH (pcfich.c)\<close>

definition set_assigned :: "reg_ref \<Rightarrow> lte_grid_config \<Rightarrow> lte_grid_config" where
  "set_assigned a c = set_reg a ((g_regs c a)\<lparr>rg_assigned := 2\<rparr>) c"

definition set_pcfich :: "int \<Rightarrow> reg_ref option \<Rightarrow> lte_grid_config \<Rightarrow> lte_grid_config option" where
  "set_pcfich i a c = map_option (\<lambda>l. c\<lparr>g_control := (g_control c)\<lparr>cr_pcfich := l\<rparr>\<rparr>) (poke (cr_pcfich (g_control c)) i a)"

definition lte_grid_init_reg_pcfich :: "lte_grid_config \<Rightarrow> (int \<times> lte_grid_config) option" where
  "lte_grid_init_reg_pcfich c0 = (let N = g_nof_prb c0; modulo = N * NOF_RE_X_OSYMB in
     if 2 * N = 0 then None
     else let kh = cdiv NOF_RE_X_OSYMB 2 * crem (g_cell_id c0) (2 * N) in
     each_rc (\<lambda>i c. do {
       let k = crem (kh + cdiv (i * N) 2 * cdiv NOF_RE_X_OSYMB 2) modulo;
       a \<leftarrow> lte_reg_get_k k 0 c;
       c1 \<leftarrow> set_pcfich i a c;
       case a of None \<Rightarrow> Some (-1, c1)
       | Some b \<Rightarrow> Some (if rg_assigned (g_regs c1 b) \<noteq> 1 then (-1, c1) else (0, set_assigned b c1)) })
       (below (pcfich_nregs (g_control c0))) c0)"

definition lte_pcfich_init :: "int \<Rightarrow> lte_grid_config \<Rightarrow> (int \<times> lte_grid_config) option" where
  "lte_pcfich_init t c = do {
     ch \<leftarrow> phch_at c t;
     c1 \<leftarrow> set_phch t (ch\<lparr>ch_name := ''PCFICH''\<rparr>) c;
     (r, c2) \<leftarrow> lte_grid_init_reg_pcfich (c1\<lparr>g_control := (g_control c1)\<lparr>pcfich_nregs := PCFICH_REG\<rparr>\<rparr>);
     if r \<noteq> 0 then Some (-1, c2)
     else do {
       ch1 \<leftarrow> phch_at c2 t;
       c3 \<leftarrow> set_phch t (ch1\<lparr>symbol_mask := replicate 10 1,
         nof_re_x_sf := replicate 10 (pcfich_nregs (g_control c2) * NOF_RE_X_REG)\<rparr>) c2;
       Some (0, c3) } }"

definition lte_pcfich_put :: "complex_t list \<Rightarrow> complex_t list \<Rightarrow> lte_grid_config \<Rightarrow> (int \<times> complex_t list) option" where
  "lte_pcfich_put inp out c = (let n = pcfich_nregs (g_control c) in
     map_option (Pair (max 0 n * NOF_RE_X_REG)) (each (\<lambda>i o1. do {
       a \<leftarrow> peek (cr_pcfich (g_control c)) i;
       lte_reg_put inp (4 * i) o1 a c }) (below n) out))"

definition lte_pcfich_get :: "complex_t list \<Rightarrow> complex_t list \<Rightarrow> lte_grid_config \<Rightarrow> (int \<times> complex_t list) option" where
  "lte_pcfich_get inp out c = (let n = pcfich_nregs (g_control c) in
     map_option (Pair (max 0 n * NOF_RE_X_REG)) (each (\<lambda>i o1. do {
       a \<leftarrow> peek (cr_pcfich (g_control c)) i;
       lte_reg_get inp o1 (4 * i) a c }) (below n) out))"

section \<open>PHICH (phich.c)\<close>

definition lte_phich_put :: "complex_t list \<Rightarrow> complex_t list \<Rightarrow> lte_grid_config \<Rightarrow> (int \<times> complex_t list) option" where
  "lte_phich_put inp out c = (let n = phich_nregs (g_control c) in
     map_option (Pair (max 0 n * NOF_RE_X_REG)) (each (\<lambda>i o1. do {
       a \<leftarrow> peek (cr_phich (g_control c)) i;
       lte_reg_put inp (4 * i) o1 a c }) (below n) out))"

definition lte_phich_get :: "complex_t list \<Rightarrow> complex_t list \<Rightarrow> lte_grid_config \<Rightarrow> (int \<times> complex_t list) option" where
  "lte_phich_get inp out c = (let n = phich_nregs (g_control c) in
     map_option (Pair (max 0 n * NOF_RE_X_REG)) (each (\<lambda>i o1. do {
       a \<leftarrow> peek (cr_phich (g_control c)) i;
       lte_reg_get inp o1 (4 * i) a c }) (below n) out))"

definition lte_grid_init_reg_phich_countfree :: "int \<Rightarrow> lte_grid_config \<Rightarrow> int option" where
  "lte_grid_init_reg_phich_countfree l c = each (\<lambda>p. each (\<lambda>r n. do {
     a \<leftarrow> reg_at p l r;
     Some (if rg_assigned (g_regs c a) = 1 then n + 1 else n) }) (below MAX_REGS_X_PRB)) (below (g_nof_prb c)) 0"

fun phich_search :: "(int \<times> int) list \<Rightarrow> int \<Rightarrow> int \<Rightarrow> int \<Rightarrow> lte_grid_config \<Rightarrow> reg_ref option option" where
  "phich_search [] l ni nip c = Some None"
| "phich_search ((p, r) # prs) l ni nip c = (case reg_at p l r of None \<Rightarrow> None
     | Some a \<Rightarrow> if rg_assigned (g_regs c a) = 1
         then (if ni = nip then Some (Some a) else phich_search prs l ni (nip + 1) c)
         else phich_search prs l ni nip c)"

definition lte_grid_init_reg_phich_ni :: "int \<Rightarrow> int \<Rightarrow> lte_grid_config \<Rightarrow> reg_ref option option" where
  "lte_grid_init_reg_phich_ni l ni c =
     phich_search [(p, r). p \<leftarrow> below (g_nof_prb c), r \<leftarrow> below (lte_reg_num l c)] l ni 0 c"

definition set_phich :: "int \<Rightarrow> reg_ref option \<Rightarrow> lte_grid_config \<Rightarrow> lte_grid_config option" where
  "set_phich i a c = map_option (\<lambda>l. c\<lparr>g_control := (g_control c)\<lparr>cr_phich := l\<rparr>\<rparr>) (poke (cr_phich (g_control c)) i a)"

text \<open>The free groups of the first three symbols.\<close>

definition phich_counts :: "lte_grid_config \<Rightarrow> int list option" where
  "phich_counts c = (if g_phich_ngroups c \<noteq> 0 then do {
       n0 \<leftarrow> lte_grid_init_reg_phich_countfree 0 c;
       n1 \<leftarrow> lte_grid_init_reg_phich_countfree 1 c;
       n2 \<leftarrow> lte_grid_init_reg_phich_countfree 2 c;
       Some [n0, n1, n2] } else Some [0, 0, 0])"

text \<open>The group that the loop looks up for PHICH group mi and symbol i; the product of the cell identity is a C int.\<close>

definition phich_find :: "int list \<Rightarrow> int \<times> int \<Rightarrow> lte_grid_config \<Rightarrow> reg_ref option option" where
  "phich_find n = (\<lambda>(mi, i) c. let li = (if g_phich_duration c > 1 then nat i else 0) in
     if n ! 0 = 0 \<or> n ! li = 0 then None
     else lte_grid_init_reg_phich_ni (int li)
       (crem (int_cast (cdiv (int_cast (g_cell_id c * n ! li)) (n ! 0) + mi + cdiv (i * n ! li) 3)) (n ! li)) c)"

definition phich_step :: "int list \<Rightarrow> int \<times> int \<Rightarrow> int \<times> lte_grid_config \<Rightarrow> (int \<times> int \<times> lte_grid_config) option" where
  "phich_step n x = (\<lambda>(nreg, c). do {
     a \<leftarrow> phich_find n x c;
     c1 \<leftarrow> set_phich nreg a c;
     Some (if a = None then (-1, nreg, c1) else (0, nreg + 1, c1)) })"

definition phich_items :: "int \<Rightarrow> (int \<times> int) list" where
  "phich_items g = [(mi, i). mi \<leftarrow> below g, i \<leftarrow> below 3]"

definition lte_grid_init_reg_phich :: "lte_grid_config \<Rightarrow> (int \<times> lte_grid_config) option" where
  "lte_grid_init_reg_phich c0 = do {
     n \<leftarrow> phich_counts c0;
     (r, nreg, c1) \<leftarrow> each_rc (phich_step n) (phich_items (g_phich_ngroups c0)) (0, c0);
     if r \<noteq> 0 then Some (-1, c1)
     else map_option (Pair 0) (each (\<lambda>i c. do {
       a \<leftarrow> peek (cr_phich (g_control c)) i;
       b \<leftarrow> a;
       Some (set_assigned b c) }) (below nreg) c1) }"

text \<open>phich_ngfactor is 1.0, and the quotient by 8 is exact in the type float; its truncation is the
  integer quotient.\<close>

definition lte_phich_init_params :: "lte_grid_config \<Rightarrow> int \<times> lte_grid_config" where
  "lte_phich_init_params c = (0, c\<lparr>g_phich_duration := 1,
     g_phich_ngroups := (if g_nof_control_symbols c \<noteq> 0 then cdiv (g_nof_prb c - 1 + 8) 8 else 0)\<rparr>)"

definition lte_phich_init :: "int \<Rightarrow> lte_grid_config \<Rightarrow> (int \<times> lte_grid_config) option" where
  "lte_phich_init t c = do {
     ch \<leftarrow> phch_at c t;
     c1 \<leftarrow> set_phch t (ch\<lparr>ch_name := ''PHICH''\<rparr>) c;
     let (r, c2) = lte_phich_init_params c1;
     if r \<noteq> 0 then Some (-1, c2)
     else do {
       (r, c3) \<leftarrow> lte_grid_init_reg_phich
         (c2\<lparr>g_control := (g_control c2)\<lparr>phich_nregs := g_phich_ngroups c2 * 3\<rparr>\<rparr>);
       if r \<noteq> 0 then Some (-1, c3)
       else do {
         ch1 \<leftarrow> phch_at c3 t;
         let d = g_phich_duration c3;
         c4 \<leftarrow> set_phch t (ch1\<lparr>symbol_mask := (if d = 1 then replicate 10 1 else if d = 3 then replicate 10 3
             else symbol_mask ch1),
           nof_re_x_sf := replicate 10 (phich_nregs (g_control c3) * NOF_RE_X_REG)\<rparr>) c3;
         Some (0, c4) } } }"

section \<open>PDCCH (pdcch.c)\<close>

text \<open>The loop that looks for the next free REG; Some None is the return of -1. The loop ends:
  each turn moves to a later symbol or subcarrier of the table.\<close>

function pdcch_find :: "int \<Rightarrow> int \<Rightarrow> lte_grid_config \<Rightarrow> (reg_ref \<times> int \<times> int) option option" where
  "pdcch_find k l c = (case lte_reg_get_k k l c of
     None \<Rightarrow> None
   | Some None \<Rightarrow> Some None
   | Some (Some a) \<Rightarrow>
       if rg_assigned (g_regs c a) \<noteq> 1
       then (if l + 1 = g_nof_control_symbols c
         then (if k + 1 = g_nof_prb c * NOF_RE_X_OSYMB then Some None else pdcch_find (k + 1) 0 c)
         else pdcch_find k (l + 1) c)
       else Some (Some (a, k, l)))"
  by pat_completeness auto

lemma reg_search_bounds:
  "reg_search is prb k l c = Some (Some a) \<Longrightarrow> 0 \<le> prb \<and> prb < MAX_NPRB \<and> 0 \<le> l \<and> l < MAX_CTRL_SYMB"
  by (induction "is" prb k l c rule: reg_search.induct)
    (auto simp: reg_at_def split: option.splits if_splits)

lemma lte_reg_get_k_bounds:
  assumes "lte_reg_get_k k l c = Some (Some a)"
  shows "k < 1320 \<and> 0 \<le> l \<and> l < 4"
proof -
  from assms have s: "reg_search (below MAX_REGS_X_PRB) (cdiv k NOF_RE_X_OSYMB) k l c = Some (Some a)"
    by (auto simp: lte_reg_get_k_def split: if_splits)
  note b = reg_search_bounds [OF s]
  then have "k < 1320"
    by (cases "0 \<le> k") (auto simp: cdiv_nonneg)
  with b show ?thesis by simp
qed

termination pdcch_find
proof (relation "measure (\<lambda>(k, l, c). nat (1320 - k) * 10 + nat (5 - l))")
  fix k l :: int and c :: lte_grid_config and x a
  assume "lte_reg_get_k k l c = Some x" "x = Some a"
  then have "k < 1320" "0 \<le> l" "l < 4" using lte_reg_get_k_bounds by auto
  then show "((k + 1, 0, c), k, l, c) \<in> measure (\<lambda>(k, l, c). nat (1320 - k) * 10 + nat (5 - l))"
    and "((k, l + 1, c), k, l, c) \<in> measure (\<lambda>(k, l, c). nat (1320 - k) * 10 + nat (5 - l))"
    by auto
qed simp

declare pdcch_find.simps [simp del]

definition set_cce :: "int \<Rightarrow> int \<Rightarrow> reg_ref \<Rightarrow> lte_pdcch \<Rightarrow> lte_pdcch option" where
  "set_cce i j a h = do {
     row \<leftarrow> peek (pc_cce h) i;
     row1 \<leftarrow> poke row j (Some a);
     rows \<leftarrow> poke (pc_cce h) i row1;
     Some (h\<lparr>pc_cce := rows\<rparr>) }"

text \<open>The channel is element idx of the array pdcch of the configuration.\<close>

definition set_pdcch :: "int \<Rightarrow> lte_pdcch \<Rightarrow> lte_grid_config \<Rightarrow> lte_grid_config option" where
  "set_pdcch i h c = map_option (\<lambda>l. c\<lparr>g_pdcch := l\<rparr>) (poke (g_pdcch c) i h)"

definition lte_grid_init_reg_pdcch :: "int \<Rightarrow> lte_grid_config \<Rightarrow> (int \<times> lte_grid_config) option" where
  "lte_grid_init_reg_pdcch idx c0 = do {
     h0 \<leftarrow> peek (g_pdcch c0) idx;
     let nr = NOF_REGS_X_CCE * pc_nof_cce h0;
     c1 \<leftarrow> set_pdcch idx (h0\<lparr>pc_nof_regs := nr, pc_nof_re := NOF_RE_X_REG * nr, pc_nof_bits := NOF_RE_X_REG * nr * 2\<rparr>) c0;
     (r, k, l, c2) \<leftarrow> each_rc (\<lambda>(i, j) (k, l, c). do {
       f \<leftarrow> pdcch_find k l c;
       case f of None \<Rightarrow> Some (-1, k, l, c)
       | Some (a, k1, l1) \<Rightarrow> do {
           let c' = set_assigned a c;
           h \<leftarrow> peek (g_pdcch c') idx;
           h1 \<leftarrow> set_cce i j a h;
           c'' \<leftarrow> set_pdcch idx h1 c';
           Some (0, k1, l1, c'') } })
       [(i, j). i \<leftarrow> below (pc_nof_cce h0), j \<leftarrow> below NOF_REGS_X_CCE] (0, 0, c1);
     Some (r, c2) }"

definition lte_pdcch_init_params :: "pget \<Rightarrow> lte_grid_config \<Rightarrow> (int \<times> lte_grid_config) option" where
  "lte_pdcch_init_params pg c = (
     let c1 = (case pg ''nof_pdcch'' of None \<Rightarrow> c | Some v \<Rightarrow> c\<lparr>g_nof_pdcch := v\<rparr>) in
     if g_nof_pdcch c1 > MAX_PDCCH \<or> g_nof_pdcch c1 < 0 then Some (-1, c1)
     else map_option (Pair 0) (each (\<lambda>i k. do {
       h \<leftarrow> peek (g_pdcch k) i;
       set_pdcch i ((case pg (''pdcch_nofcce_'' @ dec_str (nat i)) of None \<Rightarrow> h | Some v \<Rightarrow> h\<lparr>pc_nof_cce := v\<rparr>)
         \<lparr>pc_id := i\<rparr>) k }) (below (g_nof_pdcch c1)) c1))"

definition lte_pdcch_init :: "pget \<Rightarrow> int \<Rightarrow> lte_grid_config \<Rightarrow> (int \<times> lte_grid_config) option" where
  "lte_pdcch_init pg t c = do {
     ch \<leftarrow> phch_at c t;
     c1 \<leftarrow> set_phch t (ch\<lparr>ch_name := ''PDCCH''\<rparr>) c;
     (r, c2) \<leftarrow> lte_pdcch_init_params pg c1;
     if r \<noteq> 0 then Some (-1, c2)
     else if g_nof_pdcch c2 = 0 then Some (0, c2)
     else do {
       let n = total_nregs (g_control c2) - pcfich_nregs (g_control c2) - phich_nregs (g_control c2);
       (r, c3) \<leftarrow> each_rc lte_grid_init_reg_pdcch (below (g_nof_pdcch c2))
         (c2\<lparr>g_control := (g_control c2)\<lparr>pdcch_nregs := n\<rparr>\<rparr>);
       if r \<noteq> 0 then Some (-1, c3)
       else do {
         ch1 \<leftarrow> phch_at c3 t;
         c4 \<leftarrow> set_phch t (ch1\<lparr>
           symbol_mask := map (\<lambda>m. fold (\<lambda>_ w. push_bit 1 w OR 1) (below (g_nof_control_symbols c3)) m) (symbol_mask ch1),
           nof_re_x_sf := replicate 10 ((total_nregs (g_control c3) - phich_nregs (g_control c3)
             - pcfich_nregs (g_control c3)) * NOF_RE_X_REG)\<rparr>) c3;
         Some (0, c4) } } }"

definition lte_pdcch_get_bits :: "int \<Rightarrow> lte_grid_config \<Rightarrow> int option" where
  "lte_pdcch_get_bits i c = (if i < 0 \<or> i > g_nof_pdcch c then Some (-1)
     else map_option pc_nof_bits (peek (g_pdcch c) i))"

definition lte_pdcch_get_re :: "int \<Rightarrow> lte_grid_config \<Rightarrow> int option" where
  "lte_pdcch_get_re i c = (if i < 0 \<or> i > g_nof_pdcch c then Some (-1)
     else map_option pc_nof_re (peek (g_pdcch c) i))"

definition cce_reg :: "lte_pdcch \<Rightarrow> int \<Rightarrow> int \<Rightarrow> reg_ref option option" where
  "cce_reg h i j = do { row \<leftarrow> peek (pc_cce h) i; peek row j }"

definition lte_pdcch_put :: "complex_t list \<Rightarrow> complex_t list \<Rightarrow> int \<Rightarrow> lte_grid_config \<Rightarrow> (int \<times> complex_t list) option" where
  "lte_pdcch_put inp out idx c =
     (if idx < 0 \<or> idx > g_nof_pdcch c then Some (-1, out)
      else do {
        h \<leftarrow> peek (g_pdcch c) idx;
        o1 \<leftarrow> each (\<lambda>(cc, i) o1. do {
          a \<leftarrow> cce_reg h cc i;
          lte_reg_put inp (cc * NOF_REGS_X_CCE + 4 * i) o1 a c })
          [(cc, i). cc \<leftarrow> below (pc_nof_cce h), i \<leftarrow> below NOF_REGS_X_CCE] out;
        Some (pc_nof_bits h, o1) })"

definition lte_pdcch_get :: "complex_t list \<Rightarrow> complex_t list \<Rightarrow> int \<Rightarrow> lte_grid_config \<Rightarrow> (int \<times> complex_t list) option" where
  "lte_pdcch_get inp out idx c =
     (if idx < 0 \<or> idx > g_nof_pdcch c then Some (-1, out)
      else do {
        h \<leftarrow> peek (g_pdcch c) idx;
        o1 \<leftarrow> each (\<lambda>(cc, i) o1. do {
          a \<leftarrow> cce_reg h cc i;
          lte_reg_get inp o1 (cc * NOF_REGS_X_CCE + 4 * i) a c })
          [(cc, i). cc \<leftarrow> below (pc_nof_cce h), i \<leftarrow> below NOF_REGS_X_CCE] out;
        Some (pc_nof_re h, o1) })"

section \<open>Dispatch and initialisation (base.c)\<close>

definition lte_ch_init :: "pget \<Rightarrow> int \<Rightarrow> lte_grid_config \<Rightarrow> (int \<times> lte_grid_config) option" where
  "lte_ch_init pg code c0 = do {
     ch0 \<leftarrow> phch_at c0 code;
     let ch = ch0\<lparr>symbol_mask := replicate 10 0, nof_re_x_sf := replicate 10 0\<rparr>;
     c \<leftarrow> set_phch code ch c0;
     let own = (\<lambda>f. do { (r, h) \<leftarrow> f ch c; c1 \<leftarrow> set_phch code h c; Some (r, c1) });
     if code = CH_PDSCH then lte_pdsch_init pg code c
     else if code = CH_PDCCH then lte_pdcch_init pg code c
     else if code = CH_PCFICH then lte_pcfich_init code c
     else if code = CH_PHICH then lte_phich_init code c
     else if code = CH_PBCH then own lte_pbch_init
     else if code = CH_PSS then own lte_pss_init
     else if code = CH_SSS then own lte_sss_init
     else Some (-1, c) }"

definition lte_ch_get_re :: "int \<Rightarrow> int \<Rightarrow> int \<Rightarrow> lte_grid_config \<Rightarrow> int option" where
  "lte_ch_get_re ch_id ch_type sf c =
     (if sf < 0 \<or> sf > NOF_SUBFRAMES_X_FRAME then Some (-1)
      else if ch_type \<noteq> CH_REF \<and> (ch_type < 0 \<or> ch_type > NOF_PHCH) then Some (-1)
      else if ch_type = CH_PDSCH then lte_pdsch_get_re ch_id sf c
      else if ch_type = CH_PDCCH then lte_pdcch_get_re ch_id c
      else if ch_type = CH_REF then
        (if ch_id < 0 \<or> ch_id > g_nof_ports c then Some (-1)
         else do { h \<leftarrow> peek (g_refsig_cfg c) ch_id; peek (nof_re_x_sf h) sf })
      else do { h \<leftarrow> phch_at c ch_type; peek (nof_re_x_sf h) sf })"

definition lte_ch_put_symbol :: "complex_t list \<Rightarrow> int \<Rightarrow> complex_t list \<Rightarrow> int \<Rightarrow> int \<Rightarrow> int \<Rightarrow> lte_symbol
    \<Rightarrow> lte_grid_config \<Rightarrow> (int \<times> complex_t list) option" where
  "lte_ch_put_symbol inp ip out op ch_type idx loc c =
     (if ch_type < 0 \<or> ch_type > NOF_PHCH then Some (-1, out)
      else if ch_type = CH_PDSCH then lte_pdsch_put inp ip out (op + g_pre_guard c) idx loc c
      else if ch_type = CH_PDCCH then lte_pdcch_put inp out idx c
      else if ch_type = CH_PCFICH then lte_pcfich_put inp out c
      else if ch_type = CH_PHICH then lte_phich_put inp out c
      else if ch_type = CH_PBCH then lte_pbch_put inp ip out (op + g_pre_guard c) loc c
      else Some (-1, out))"

text \<open>The loop over the symbols of a subframe; in the other channels the symbol is not read.\<close>

definition lte_ch_put_sf :: "complex_t list \<Rightarrow> complex_t list \<Rightarrow> int \<Rightarrow> int \<Rightarrow> int \<Rightarrow> lte_grid_config
    \<Rightarrow> (int \<times> complex_t list) option" where
  "lte_ch_put_sf inp out ch_type idx sf c =
     (if ch_type = CH_PDSCH \<or> ch_type = CH_PBCH then do {
        (r, rp, o1) \<leftarrow> each_rc (\<lambda>i (rp, o1). do {
          (n, o2) \<leftarrow> lte_ch_put_symbol inp rp o1 (i * g_fft_size c) ch_type idx \<lparr>subframe_id = sf, symbol_id = i\<rparr> c;
          Some (if n < 0 then -1 else 0, if n < 0 then rp else rp + n, o2) }) (below (g_nof_osymb c)) (0, out);
        Some (if r \<noteq> 0 then -1 else rp, o1) }
      else do {
        (n, o1) \<leftarrow> lte_ch_put_symbol inp 0 out 0 ch_type idx \<lparr>subframe_id = sf, symbol_id = 0\<rparr> c;
        Some (0, o1) })"

definition lte_ch_get_symbol :: "complex_t list \<Rightarrow> int \<Rightarrow> complex_t list \<Rightarrow> int \<Rightarrow> int \<Rightarrow> int \<Rightarrow> lte_symbol
    \<Rightarrow> lte_grid_config \<Rightarrow> (int \<times> complex_t list) option" where
  "lte_ch_get_symbol inp ip out op ch_type idx loc c =
     (if ch_type < 0 \<or> ch_type > NOF_PHCH then Some (-1, out)
      else if ch_type = CH_PDSCH then lte_pdsch_get inp (ip + g_pre_guard c) out op idx loc c
      else if ch_type = CH_PDCCH then lte_pdcch_get inp out idx c
      else if ch_type = CH_PCFICH then lte_pcfich_get inp out c
      else if ch_type = CH_PHICH then lte_phich_get inp out c
      else if ch_type = CH_PBCH then lte_pbch_get inp (ip + g_pre_guard c) out op loc c
      else Some (-1, out))"

definition lte_ch_get_sf :: "complex_t list \<Rightarrow> complex_t list \<Rightarrow> int \<Rightarrow> int \<Rightarrow> int \<Rightarrow> lte_grid_config
    \<Rightarrow> (int \<times> complex_t list) option" where
  "lte_ch_get_sf inp out ch_type idx sf c =
     (if ch_type = CH_PDSCH \<or> ch_type = CH_PBCH then do {
        (r, wp, o1) \<leftarrow> each_rc (\<lambda>i (wp, o1). do {
          (n, o2) \<leftarrow> lte_ch_get_symbol inp (i * g_fft_size c) o1 wp ch_type idx \<lparr>subframe_id = sf, symbol_id = i\<rparr> c;
          Some (if n < 0 then -1 else 0, if n < 0 then wp else wp + n, o2) }) (below (g_nof_osymb c)) (0, out);
        Some (if r \<noteq> 0 then -1 else wp, o1) }
      else lte_ch_get_symbol inp 0 out 0 ch_type idx \<lparr>subframe_id = sf, symbol_id = 0\<rparr> c)"

text \<open>A parameter that is read: the count of parameters found and the value.\<close>

definition par_int :: "pget \<Rightarrow> string \<Rightarrow> (int \<Rightarrow> lte_grid_config \<Rightarrow> lte_grid_config) \<Rightarrow> int \<times> lte_grid_config
    \<Rightarrow> int \<times> lte_grid_config" where
  "par_int pg name upd s = (case pg name of None \<Rightarrow> s | Some v \<Rightarrow> (fst s + 1, upd v (snd s)))"

definition lte_grid_init_params :: "pget \<Rightarrow> lte_grid_config \<Rightarrow> int \<times> lte_grid_config" where
  "lte_grid_init_params pg c = (
     let (n1, c1) = par_int pg ''nof_prb'' (\<lambda>v k. k\<lparr>g_nof_prb := v\<rparr>) (0, c);
         c2 = c1\<lparr>g_fft_size := fft_size (g_nof_prb c1)\<rparr>
     in if g_fft_size c2 = -1 then (0, c2)
     else let s3 = par_int pg ''debug'' (\<lambda>v k. k\<lparr>g_debug := v\<rparr>) (n1, c2\<lparr>g_debug := 0\<rparr>);
         s4 = par_int pg ''verbose'' (\<lambda>v k. k\<lparr>g_verbose := v\<rparr>) s3;
         s5 = par_int pg ''nof_osymb_x_subf'' (\<lambda>v k. k\<lparr>g_nof_osymb := v\<rparr>) s4;
         s6 = par_int pg ''nof_ports'' (\<lambda>v k. k\<lparr>g_nof_ports := v\<rparr>) s5;
         s7 = par_int pg ''cfi'' (\<lambda>v k. k\<lparr>g_cfi := v\<rparr>) s6;
         (n, c8) = par_int pg ''cell_id'' (\<lambda>v k. k\<lparr>g_cell_id := v\<rparr>) s7;
         N = g_nof_prb c8;
         pre = cdiv (g_fft_size c8 - N * NOF_RE_X_OSYMB) 2;
         c9 = c8\<lparr>g_nof_re_symb := N * NOF_RE_X_OSYMB, g_pre_guard := pre, g_post_guard := pre, g_nof_rs_x_symb := 2 * N\<rparr>
     in if N < 6 \<or> N > 110 then (-1, c9)
     else (n + 1, c9\<lparr>g_nof_control_symbols :=
       (if g_cfi c9 = -1 then 0 else if N \<le> 10 then g_cfi c9 + 1 else g_cfi c9)\<rparr>))"

definition lte_grid_init_channels :: "pget \<Rightarrow> lte_grid_config \<Rightarrow> (int \<times> lte_grid_config) option" where
  "lte_grid_init_channels pg c = do {
     c1 \<leftarrow> each (\<lambda>i k. do {
       h \<leftarrow> peek (g_refsig_cfg k) i;
       hs \<leftarrow> poke (g_refsig_cfg k) i (snd (lte_refsig_init i h k));
       Some (k\<lparr>g_refsig_cfg := hs\<rparr>) }) (below (g_nof_ports c)) c;
     each_rc (lte_ch_init pg) (below NOF_PHCH) c1 }"

definition lte_grid_init :: "pget \<Rightarrow> lte_grid_config \<Rightarrow> (int \<times> lte_grid_config) option" where
  "lte_grid_init pg c = (case lte_grid_init_params pg c of (n, c1) \<Rightarrow>
     if n = -1 then Some (-1, c1)
     else if n = 0 then Some (0, c1)
     else do {
       (r, c2) \<leftarrow> lte_grid_init_reg c1 (if g_cfi c1 = -1 then 1 else g_nof_control_symbols c1);
       if r \<noteq> 0 then Some (-1, c2)
       else do {
         (r, c3) \<leftarrow> lte_grid_init_channels pg c2;
         Some (if r \<noteq> 0 then -1 else 0, c3) } })"

end
