(* ===== verification/Grid_Regs.thy ===== *)
theory Grid_Regs
  imports Grid_Channels
begin

text \<open>
  The allocation of the control region of the LTE resource grid. lte_grid_init_reg cuts the
  control symbols into resource element groups; PCFICH, PHICH and the PDCCHs then take groups
  from this table. The lemmas give the table in closed form, the groups of each channel and the
  conditions under which the allocation succeeds. The theorem says that no group is given to two
  channels.
\<close>

section \<open>The table of groups\<close>

text \<open>The fields of the configuration on which the layout depends. The operations below leave
  them alone.\<close>

definition geom :: "lte_grid_config \<Rightarrow> int \<times> int \<times> int \<times> int \<times> int \<times> int \<times> int" where
  "geom c = (g_nof_prb c, g_nof_osymb c, g_nof_ports c, g_cell_id c, g_nof_control_symbols c, g_fft_size c, g_pre_guard c)"

lemma geom_eq:
  "geom c = geom d \<Longrightarrow> g_nof_prb c = g_nof_prb d" "geom c = geom d \<Longrightarrow> g_nof_osymb c = g_nof_osymb d"
  "geom c = geom d \<Longrightarrow> g_nof_ports c = g_nof_ports d" "geom c = geom d \<Longrightarrow> g_cell_id c = g_cell_id d"
  "geom c = geom d \<Longrightarrow> g_nof_control_symbols c = g_nof_control_symbols d"
  "geom c = geom d \<Longrightarrow> g_fft_size c = g_fft_size d" "geom c = geom d \<Longrightarrow> g_pre_guard c = g_pre_guard d"
  by (simp_all add: geom_def)

lemma has_refsig_geom:
  "geom c = geom d \<Longrightarrow> lte_symbol_has_refsig_or_resv sy c = lte_symbol_has_refsig_or_resv sy d"
  by (simp add: lte_symbol_has_refsig_or_resv_def lte_refsig_symbolmask_def geom_eq [of c d] Let_def)

lemma reg_num_geom: "geom c = geom d \<Longrightarrow> lte_reg_num l c = lte_reg_num l d"
  by (simp add: lte_reg_num_def has_refsig_geom [of c d])

lemma reg_num_cases: "lte_reg_num l c = 2 \<or> lte_reg_num l c = 3"
  by (simp add: lte_reg_num_def)

lemma geom_set_reg [simp]: "geom (set_reg a r c) = geom c"
  by (simp add: geom_def set_reg_def)

lemma geom_set_assigned [simp]: "geom (set_assigned a c) = geom c"
  by (simp add: set_assigned_def)

lemma regs_set_reg [simp]: "g_regs (set_reg a r c) = (g_regs c)(a := r)"
  by (simp add: set_reg_def)

lemma regs_set_assigned: "g_regs (set_assigned a c) = (g_regs c)(a := (g_regs c a)\<lparr>rg_assigned := 2\<rparr>)"
  by (simp add: set_assigned_def)

text \<open>The width of a group in symbol l and the group at a place of the table.\<close>

definition reg_width :: "nat \<Rightarrow> lte_grid_config \<Rightarrow> int" where
  "reg_width l c = (if lte_reg_num (int l) c = 2 then 6 else 4)"

definition reg_start :: "reg_ref \<Rightarrow> lte_grid_config \<Rightarrow> int" where
  "reg_start a c = (case a of (p, l, r) \<Rightarrow> 12 * int p + int r * reg_width l c)"

definition new_reg :: "lte_grid_config \<Rightarrow> reg_ref \<Rightarrow> lte_reg" where
  "new_reg c a = (case a of (p, l, r) \<Rightarrow> let b = reg_start a c; vo = g_cell_id c mod 3 in
     \<lparr>rg_k = (if reg_width l c = 6 then map (\<lambda>i. if i < vo then b + i else if i < vo + 2 then b + i + 1 else b + i + 2) [0, 1, 2, 3]
        else [b, b + 1, b + 2, b + 3]),
      rg_k0 = b, rg_k3 = b + reg_width l c,
      rg_k_ref = (if reg_width l c = 6 then [b + vo, b + vo + 3] else [-1, -1]),
      rg_symbol = int l, rg_id = int r, rg_assigned = 1\<rparr>)"

definition in_region :: "nat \<Rightarrow> lte_grid_config \<Rightarrow> reg_ref \<Rightarrow> bool" where
  "in_region nc c a = (case a of (p, l, r) \<Rightarrow>
     int p < g_nof_prb c \<and> l < nc \<and> int r < lte_reg_num (int l) c)"

definition region_list :: "nat \<Rightarrow> lte_grid_config \<Rightarrow> reg_ref list" where
  "region_list nc c = [(p, l, r). l \<leftarrow> [0..<nc], p \<leftarrow> [0..<nat (g_nof_prb c)], r \<leftarrow> [0..<nat (lte_reg_num (int l) c)]]"

lemma set_region_list: "set (region_list nc c) = {a. in_region nc c a}"
  by (fastforce simp: region_list_def in_region_def image_iff)

text \<open>Loops whose body never fails.\<close>

lemma each_rc_ok:
  assumes "\<And>x s. x \<in> set xs \<Longrightarrow> P s \<Longrightarrow> f x s = Some (0, h x s) \<and> P (h x s)" and "P s"
  shows "each_rc f xs s = Some (0, fold h xs s) \<and> P (fold h xs s)"
  using assms by (induction xs arbitrary: s) auto

definition regs_shaped :: "lte_grid_config \<Rightarrow> bool" where
  "regs_shaped c \<longleftrightarrow> (\<forall>a. length (rg_k (g_regs c a)) = 4)"

lemma length4: "length xs = 4 \<Longrightarrow> \<exists>a b c d. xs = [a, b, c, d]"
  by (cases xs; cases "tl xs"; cases "tl (tl xs)"; cases "tl (tl (tl xs))") auto

lemmas below_unfold = below_def upt_rec nat_eq_iff

lemma reg_indices_new:
  assumes "length (rg_k reg) = 4" "0 \<le> g_cell_id c"
  shows "\<exists>reg'. lte_reg_indices (int r) (int p * 12) (lte_reg_num (int l) c) (crem (g_cell_id c) 3) reg = Some (0, reg')
    \<and> reg'\<lparr>rg_symbol := int l, rg_id := int r, rg_assigned := 1\<rparr> = new_reg c (p, l, r)"
proof -
  obtain w x y z where k: "rg_k reg = [w, x, y, z]" using length4 [OF assms(1)] by blast
  have vo: "crem (g_cell_id c) 3 = g_cell_id c mod 3" using assms(2) by (simp add: crem_nonneg)
  have "g_cell_id c mod 3 \<in> {0, 1, 2}" by auto
  then consider "g_cell_id c mod 3 = 0" | "g_cell_id c mod 3 = 1" | "g_cell_id c mod 3 = 2" by auto
  then show ?thesis
    using reg_num_cases [of "int l" c]
    by cases (auto simp: lte_reg_indices_def vo k reg_fill_def below_unfold poke_def new_reg_def reg_start_def
      reg_width_def Let_def algebra_simps)
qed

lemma length_new_reg: "length (rg_k (new_reg c a)) = 4"
  by (cases a) (simp add: new_reg_def Let_def)

text \<open>The state after lte_grid_init_reg.\<close>

definition with_regs :: "(reg_ref \<Rightarrow> lte_reg) \<Rightarrow> lte_grid_config \<Rightarrow> lte_grid_config" where
  "with_regs f c = c\<lparr>g_control := (g_control c)\<lparr>cr_regs := f\<rparr>\<rparr>"

lemma fold_set_reg:
  "fold (\<lambda>a. set_reg a (f a)) as c = with_regs (\<lambda>a. if a \<in> set as then f a else g_regs c a) c"
proof (induction "as" arbitrary: c)
  case Nil
  show ?case by (simp add: with_regs_def)
next
  case (Cons a as)
  show ?case
    unfolding fold_Cons comp_def Cons.IH
    by (auto simp: with_regs_def set_reg_def intro!: lte_grid_config.fold_congs lte_grid_regs.fold_congs)
qed

lemma fold_concat_map: "fold f (concat (map g xs)) = fold (\<lambda>x. fold f (g x)) xs"
  by (induction xs) simp_all

definition init_regs :: "nat \<Rightarrow> lte_grid_config \<Rightarrow> lte_grid_config" where
  "init_regs nc c = (let c1 = c\<lparr>g_control := (g_control c)\<lparr>total_nregs :=
       (\<Sum>i\<leftarrow>below (int nc). g_nof_prb c * lte_reg_num i c)\<rparr>\<rparr>
     in with_regs (\<lambda>a. if in_region nc c a then new_reg c a else g_regs c a) c1)"

lemma fold_regions:
  "fold (\<lambda>i. fold (\<lambda>p. fold (\<lambda>j. set_reg (nat p, nat i, nat j) (f (nat p, nat i, nat j)))
     (below (lte_reg_num i c))) (below (g_nof_prb c))) (below (int nc)) s
   = fold (\<lambda>a. set_reg a (f a)) (region_list nc c) s"
  by (simp add: below_def fold_map comp_def region_list_def fold_concat_map)

lemma lte_grid_init_reg_eq:
  assumes "0 \<le> g_cell_id c" "g_nof_prb c \<le> 110" "nc \<le> 4" "regs_shaped c"
  shows "lte_grid_init_reg c (int nc) = Some (0, init_regs nc c)"
proof -
  let ?h = "\<lambda>i p j. set_reg (nat p, nat i, nat j) (new_reg c (nat p, nat i, nat j))"
  define P where "P = (\<lambda>k. geom k = geom c \<and> regs_shaped k)"
  define body where "body = (\<lambda>i p j k. do {
          a \<leftarrow> reg_at p i j;
          (r, reg) \<leftarrow> lte_reg_indices j (p * NOF_RE_X_OSYMB) (lte_reg_num i c) (crem (g_cell_id c) 3) (g_regs k a);
          if r \<noteq> 0 then Some (-1, set_reg a reg k)
          else Some (0 :: int, set_reg a (reg\<lparr>rg_symbol := i, rg_id := j, rg_assigned := 1\<rparr>) k) })"
  have step: "body i p j k = Some (0, ?h i p j k) \<and> P (?h i p j k)"
    if "i \<in> set (below (int nc))" "p \<in> set (below (g_nof_prb c))" "j \<in> set (below (lte_reg_num i c))" "P k" for i p j k
  proof -
    note k = that(4)
    from that have b: "0 \<le> i" "i < 4" "0 \<le> p" "p < 110" "0 \<le> j" "j < 3"
      using assms reg_num_cases [of i c] by auto
    let ?a = "(nat p, nat i, nat j)"
    obtain reg' where "lte_reg_indices j (p * 12) (lte_reg_num i c) (crem (g_cell_id c) 3) (g_regs k ?a) = Some (0, reg')"
      and "reg'\<lparr>rg_symbol := i, rg_id := j, rg_assigned := 1\<rparr> = new_reg c ?a"
      using reg_indices_new [of "g_regs k ?a" c "nat j" "nat p" "nat i"] assms(1) k b
      by (auto simp: P_def regs_shaped_def)
    then have "body i p j k = Some (0, ?h i p j k)"
      using b by (simp add: body_def reg_at_def)
    then show ?thesis using k by (simp add: P_def regs_shaped_def length_new_reg)
  qed
  let ?c1 = "c\<lparr>g_control := (g_control c)\<lparr>total_nregs := (\<Sum>i\<leftarrow>below (int nc). g_nof_prb c * lte_reg_num i c)\<rparr>\<rparr>"
  have P1: "P ?c1" using assms(4) by (simp add: P_def geom_def regs_shaped_def)
  have main: "each_rc (\<lambda>i. each_rc (\<lambda>p. each_rc (body i p) (below (lte_reg_num i c))) (below (g_nof_prb c))) (below (int nc)) ?c1
    = Some (0, fold (\<lambda>i. fold (\<lambda>p. fold (?h i p) (below (lte_reg_num i c))) (below (g_nof_prb c))) (below (int nc)) ?c1)"
    by (rule each_rc_ok [where P = P, THEN conjunct1], rule each_rc_ok [where P = P], rule each_rc_ok [where P = P])
      (use step P1 in auto)
  show ?thesis
    unfolding lte_grid_init_reg_def Let_def main [unfolded body_def]
    by (simp add: fold_regions fold_set_reg set_region_list init_regs_def cong: if_cong)
qed

section \<open>Allocation\<close>

text \<open>The state of the table when the groups refs were given to channels. The code counts three
  groups for every PRB, so the unused third place of the first symbol must not look free.\<close>

definition alloc :: "nat \<Rightarrow> lte_grid_config \<Rightarrow> reg_ref list \<Rightarrow> bool" where
  "alloc nc c refs \<longleftrightarrow> distinct refs \<and> (\<forall>a\<in>set refs. in_region nc c a)
     \<and> (\<forall>a. in_region nc c a \<longrightarrow> g_regs c a = (new_reg c a)\<lparr>rg_assigned := (if a \<in> set refs then 2 else 1)\<rparr>)
     \<and> (\<forall>p. rg_assigned (g_regs c (p, 0, 2)) \<noteq> 1)"

lemma in_region_geom: "geom c = geom d \<Longrightarrow> in_region nc c a = in_region nc d a"
  by (cases a) (simp add: in_region_def geom_eq [of c d] reg_num_geom [of c d])

lemma new_reg_geom: "geom c = geom d \<Longrightarrow> new_reg c a = new_reg d a"
  by (cases a) (simp add: new_reg_def reg_start_def reg_width_def geom_eq [of c d] reg_num_geom [of c d])

lemma alloc_geom: "geom c = geom d \<Longrightarrow> g_regs c = g_regs d \<Longrightarrow> alloc nc c refs = alloc nc d refs"
  by (simp add: alloc_def in_region_geom [of c d] new_reg_geom [of c d])

lemma alloc_take:
  assumes "alloc nc c refs" "in_region nc c a" "a \<notin> set refs" "lte_reg_num 0 c = 2"
  shows "alloc nc (set_assigned a c) (refs @ [a])"
proof -
  have "a \<noteq> (p, 0, 2)" for p using assms(2,4) by (auto simp: in_region_def)
  then show ?thesis
    using assms(1-3)
    by (auto simp: alloc_def in_region_geom [of "set_assigned a c" c] new_reg_geom [of "set_assigned a c" c]
        regs_set_assigned)
qed

lemma alloc_assigned:
  "alloc nc c refs \<Longrightarrow> in_region nc c a \<Longrightarrow> rg_assigned (g_regs c a) = (if a \<in> set refs then 2 else 1)"
  by (cases a) (simp add: alloc_def)

lemma alloc_init:
  assumes "\<And>p. rg_assigned (g_regs c (p, 0, 2)) \<noteq> 1" "lte_reg_num 0 c = 2"
  shows "alloc nc (init_regs nc c) []"
proof -
  have g: "geom (init_regs nc c) = geom c"
    by (simp add: init_regs_def with_regs_def geom_def)
  have r: "g_regs (init_regs nc c) = (\<lambda>a. if in_region nc c a then new_reg c a else g_regs c a)"
    by (simp add: init_regs_def with_regs_def)
  have "\<not> in_region nc c (p, 0, 2)" for p using assms(2) by (simp add: in_region_def)
  moreover have "(new_reg c a)\<lparr>rg_assigned := 1\<rparr> = new_reg c a" for a
    by (cases a) (simp add: new_reg_def Let_def)
  ultimately show ?thesis
    using assms(1) by (simp add: alloc_def in_region_geom [OF g] new_reg_geom [OF g] r)
qed

text \<open>The group that covers subcarrier k of symbol l.\<close>

definition reg_cover :: "int \<Rightarrow> nat \<Rightarrow> lte_grid_config \<Rightarrow> reg_ref" where
  "reg_cover k l c = (nat (k div 12), l, nat (k mod 12 div reg_width l c))"

lemma reg_cover_region:
  assumes "0 \<le> k" "k < 12 * g_nof_prb c" "l < nc"
  shows "in_region nc c (reg_cover k l c)"
  using assms reg_num_cases [of "int l" c]
  by (auto simp: in_region_def reg_cover_def reg_width_def)

lemma alloc_range:
  assumes "alloc nc c refs" "in_region nc c a"
  shows "rg_k0 (g_regs c a) = reg_start a c" "rg_k3 (g_regs c a) = reg_start a c + reg_width (fst (snd a)) c"
  using assms by (cases a; simp add: alloc_def new_reg_def Let_def)+

lemma lte_reg_get_k_alloc:
  assumes "alloc nc c refs" "0 \<le> k" "k < 12 * g_nof_prb c" "g_nof_prb c \<le> 110" "l < nc" "nc \<le> 4"
  shows "lte_reg_get_k k (int l) c = Some (Some (reg_cover k l c))"
proof -
  let ?p = "nat (k div 12)" and ?w = "reg_width l c"
  have p: "0 \<le> k div 12" "k div 12 < g_nof_prb c" using assms by auto
  have at: "reg_at (cdiv k 12) (int l) r = Some (?p, l, nat r)" if "0 \<le> r" "r < 3" for r
    using that assms p by (simp add: reg_at_def cdiv_nonneg)
  have k: "0 \<le> k mod 12" "k mod 12 < 12" by simp_all
  have rg: "in_region nc c (?p, l, r)" if "int r < lte_reg_num (int l) c" for r
    using that p assms(5) by (simp add: in_region_def)
  have iv: "(rg_k0 (g_regs c (?p, l, r)) \<le> k \<and> k < rg_k3 (g_regs c (?p, l, r)))
      = (int r * ?w \<le> k mod 12 \<and> k mod 12 < int r * ?w + ?w)" if "int r < lte_reg_num (int l) c" for r
  proof -
    have "12 * int ?p = k - k mod 12" using p(1) by (simp add: minus_mod_eq_mult_div)
    then show ?thesis
      using alloc_range [OF assms(1) rg [OF that]] by (auto simp: reg_start_def)
  qed
  define hit where "hit r \<longleftrightarrow> rg_k0 (g_regs c (?p, l, r)) \<le> k \<and> k < rg_k3 (g_regs c (?p, l, r))" for r
  have search: "reg_search [0, 1, 2] (cdiv k 12) k (int l) c = Some (if hit 0 then Some (?p, l, 0)
      else if hit 1 then Some (?p, l, 1) else if hit 2 then Some (?p, l, 2) else None)"
    by (simp add: at hit_def)
  define m where "m = k mod 12"
  have m: "0 \<le> m" "m < 12" using k by (simp_all add: m_def)
  note iv' = iv [folded hit_def m_def]
  have "reg_search [0, 1, 2] (cdiv k 12) k (int l) c = Some (Some (reg_cover k l c))"
    using reg_num_cases [of "int l" c]
  proof
    assume n: "lte_reg_num (int l) c = 2"
    then have w: "?w = 6" by (simp add: reg_width_def)
    have "m div 6 = (if m < 6 then 0 else 1)" using m by auto
    moreover have "hit 0 = (m < 6)" "hit 1 = (6 \<le> m)"
      using iv' [of 0] iv' [of 1] n w m by auto
    ultimately show ?thesis
      unfolding search reg_cover_def w m_def [symmetric] by simp
  next
    assume n: "lte_reg_num (int l) c = 3"
    then have w: "?w = 4" by (simp add: reg_width_def)
    have "m div 4 = (if m < 4 then 0 else if m < 8 then 1 else 2)" using m by auto
    moreover have "hit 0 = (m < 4)" "hit 1 = (4 \<le> m \<and> m < 8)" "hit 2 = (8 \<le> m)"
      using iv' [of 0] iv' [of 1] iv' [of 2] n w m by auto
    ultimately show ?thesis
      unfolding search reg_cover_def w m_def [symmetric] by simp
  qed
  moreover have "below 3 = [0, 1, 2]" by (simp add: below_unfold)
  ultimately show ?thesis using assms(5,6) by (simp add: lte_reg_get_k_def)
qed

subsection \<open>PCFICH\<close>

lemma each_rc_append:
  "each_rc f (xs @ ys) s = (case each_rc f xs s of None \<Rightarrow> None
     | Some (r, s1) \<Rightarrow> if r \<noteq> 0 then Some (-1, s1) else each_rc f ys s1)"
proof (induction xs arbitrary: s)
  case (Cons x xs)
  then show ?case by (cases "f x s") auto
qed simp

definition pcfich_slot :: "lte_grid_config \<Rightarrow> nat \<Rightarrow> int" where
  "pcfich_slot c i = (g_cell_id c mod (2 * g_nof_prb c) + int i * g_nof_prb c div 2) mod (2 * g_nof_prb c)"

definition pcfich_ref :: "lte_grid_config \<Rightarrow> nat \<Rightarrow> reg_ref" where
  "pcfich_ref c i = (nat (pcfich_slot c i div 2), 0, nat (pcfich_slot c i mod 2))"

lemma pcfich_slot_range:
  assumes "6 \<le> g_nof_prb c"
  shows "0 \<le> pcfich_slot c i" "pcfich_slot c i < 2 * g_nof_prb c"
  using assms by (simp_all add: pcfich_slot_def)

lemma mod_add_inj:
  fixes a b x y n :: int
  assumes "(a + x) mod n = (a + y) mod n" "0 \<le> x" "x < n" "0 \<le> y" "y < n"
  shows "x = y"
proof -
  have "(a + x - a) mod n = (a + y - a) mod n" using assms(1) by (rule mod_diff_cong) simp
  then show ?thesis using assms by simp
qed

lemma pcfich_slot_inj:
  assumes "6 \<le> g_nof_prb c" "i < 4" "j < 4" "pcfich_slot c i = pcfich_slot c j"
  shows "i = j"
proof -
  let ?N = "g_nof_prb c"
  have "int i * ?N div 2 = int j * ?N div 2"
    by (rule mod_add_inj [OF assms(4) [unfolded pcfich_slot_def]]) (use assms in \<open>auto simp: less_Suc_eq numeral_eq_Suc\<close>)
  moreover have "i \<in> {0, 1, 2, 3}" "j \<in> {0, 1, 2, 3}" using assms(2,3) by auto
  ultimately show ?thesis using assms(1) by auto
qed

lemma pcfich_ref_inj:
  assumes "6 \<le> g_nof_prb c" "i < 4" "j < 4" "pcfich_ref c i = pcfich_ref c j"
  shows "i = j"
proof -
  let ?s = "pcfich_slot c i" and ?t = "pcfich_slot c j"
  have "?s div 2 = ?t div 2" "?s mod 2 = ?t mod 2"
    using assms(4) pcfich_slot_range [OF assms(1)] by (auto simp: pcfich_ref_def eq_nat_nat_iff)
  then have "?s = ?t" by (metis div_mult_mod_eq)
  then show ?thesis using pcfich_slot_inj assms by blast
qed

lemma pcfich_ref_region:
  assumes "6 \<le> g_nof_prb c" "0 < nc" "lte_reg_num 0 c = 2"
  shows "in_region nc c (pcfich_ref c i)"
  using assms pcfich_slot_range [OF assms(1), of i] by (auto simp: in_region_def pcfich_ref_def)

lemma pcfich_cover:
  assumes "6 \<le> g_nof_prb c" "lte_reg_num 0 c = 2"
  shows "reg_cover (6 * pcfich_slot c i) 0 c = pcfich_ref c i"
proof -
  define t where "t = pcfich_slot c i"
  have "6 * t div 12 = t div 2" using div_mult_mult1 [of 6 t 2] by simp
  moreover have "6 * t mod 12 = 6 * (t mod 2)" using mod_mult_mult1 [of 6 t 2] by simp
  ultimately show ?thesis
    using assms(2) by (simp add: reg_cover_def pcfich_ref_def reg_width_def t_def [symmetric])
qed

text \<open>A state that differs in the control region only.\<close>

definition ctl_only :: "lte_grid_config \<Rightarrow> lte_grid_config \<Rightarrow> bool" where
  "ctl_only c d \<longleftrightarrow> (\<exists>x. d = c\<lparr>g_control := x\<rparr>)"

lemma ctl_only_upd [simp]: "ctl_only c (c\<lparr>g_control := x\<rparr>)"
  by (auto simp: ctl_only_def)

lemma ctl_only_refl [simp]: "ctl_only c c"
  unfolding ctl_only_def by (rule exI [of _ "g_control c"]) simp

lemma ctl_only_trans: "ctl_only c d \<Longrightarrow> ctl_only d e \<Longrightarrow> ctl_only c e"
  by (auto simp: ctl_only_def)

lemma ctl_only_geom: "ctl_only c d \<Longrightarrow> geom d = geom c"
  by (auto simp: ctl_only_def geom_def)

lemma set_reg_ctl: "ctl_only c (set_reg a r c)"
  by (simp add: set_reg_def)

lemma set_assigned_ctl: "ctl_only c (set_assigned a c)"
  by (simp add: set_assigned_def set_reg_ctl)

lemma set_assigned_control:
  "cr_pcfich (g_control (set_assigned a c)) = cr_pcfich (g_control c)"
  "cr_phich (g_control (set_assigned a c)) = cr_phich (g_control c)"
  "pcfich_nregs (g_control (set_assigned a c)) = pcfich_nregs (g_control c)"
  "phich_nregs (g_control (set_assigned a c)) = phich_nregs (g_control c)"
  by (simp_all add: set_assigned_def set_reg_def)

text \<open>What the steps of the allocation rely on.\<close>

definition cell_ok :: "nat \<Rightarrow> lte_grid_config \<Rightarrow> bool" where
  "cell_ok nc c \<longleftrightarrow> 6 \<le> g_nof_prb c \<and> g_nof_prb c \<le> 110 \<and> 0 \<le> g_cell_id c \<and> g_cell_id c < 2 ^ 22 \<and> 0 < nc \<and> nc \<le> 4
     \<and> lte_reg_num 0 c = 2"

lemma cell_ok_geom: "geom c = geom d \<Longrightarrow> cell_ok nc c = cell_ok nc d"
  by (simp add: cell_ok_def geom_eq [of c d] reg_num_geom [of c d])

lemma pcfich_ref_geom: "geom c = geom d \<Longrightarrow> pcfich_ref c i = pcfich_ref d i"
  by (simp add: pcfich_ref_def pcfich_slot_def geom_eq [of c d])

lemma pcfich_loop:
  assumes c: "cell_ok nc c" "alloc nc c []" "length (cr_pcfich (g_control c)) = 4"
    and f: "f = (\<lambda>i d. do {
       let k = crem (6 * (g_cell_id c mod (2 * g_nof_prb c)) + cdiv (i * g_nof_prb c) 2 * 6) (g_nof_prb c * 12);
       a \<leftarrow> lte_reg_get_k k 0 d;
       c1 \<leftarrow> set_pcfich i a d;
       case a of None \<Rightarrow> Some (-1 :: int, c1)
       | Some b \<Rightarrow> Some (if rg_assigned (g_regs c1 b) \<noteq> 1 then (-1, c1) else (0, set_assigned b c1)) })"
    and "n \<le> 4"
  shows "\<exists>d. each_rc f (below (int n)) c = Some (0, d) \<and> ctl_only c d
    \<and> alloc nc d (map (pcfich_ref c) [0..<n])
    \<and> length (cr_pcfich (g_control d)) = 4
    \<and> take n (cr_pcfich (g_control d)) = map (\<lambda>i. Some (pcfich_ref c i)) [0..<n]
    \<and> pcfich_nregs (g_control d) = pcfich_nregs (g_control c)
    \<and> cr_phich (g_control d) = cr_phich (g_control c)"
  using \<open>n \<le> 4\<close>
proof (induction n)
  case 0
  then show ?case using c by simp
next
  case (Suc n)
  then obtain d where d: "each_rc f (below (int n)) c = Some (0, d)" "ctl_only c d"
      "alloc nc d (map (pcfich_ref c) [0..<n])" "length (cr_pcfich (g_control d)) = 4"
      "take n (cr_pcfich (g_control d)) = map (\<lambda>i. Some (pcfich_ref c i)) [0..<n]"
      "pcfich_nregs (g_control d) = pcfich_nregs (g_control c)" "cr_phich (g_control d) = cr_phich (g_control c)"
    by auto
  note g = ctl_only_geom [OF d(2)]
  let ?N = "g_nof_prb c" and ?a = "pcfich_ref c n"
  have N: "6 \<le> ?N" "?N \<le> 110" and r0: "lte_reg_num 0 c = 2" "lte_reg_num 0 d = 2" and nc: "0 < nc" "nc \<le> 4"
    using c(1) reg_num_geom [OF g] by (simp_all add: cell_ok_def)
  have "6 * (g_cell_id c mod (2 * ?N)) + int n * ?N div 2 * 6
      = 6 * (g_cell_id c mod (2 * ?N) + int n * ?N div 2)" by simp
  also have "\<dots> mod (6 * (2 * ?N)) = 6 * pcfich_slot c n"
    unfolding mod_mult_mult1 pcfich_slot_def ..
  finally have k: "crem (6 * (g_cell_id c mod (2 * ?N)) + cdiv (int n * ?N) 2 * 6) (?N * 12) = 6 * pcfich_slot c n"
    using N by (simp add: crem_nonneg cdiv_nonneg mult.commute)
  have get: "lte_reg_get_k (6 * pcfich_slot c n) 0 d = Some (Some ?a)"
    using lte_reg_get_k_alloc [OF d(3), of "6 * pcfich_slot c n" 0] pcfich_slot_range [OF N(1), of n]
      pcfich_cover [of c n] N nc r0 geom_eq(1) [OF g]
    by (simp add: reg_cover_def reg_width_def)
  have reg: "in_region nc d ?a" using pcfich_ref_region [OF N(1) nc(1) r0(1)] in_region_geom [OF g] by simp
  have new: "?a \<notin> set (map (pcfich_ref c) [0..<n])"
  proof
    assume "?a \<in> set (map (pcfich_ref c) [0..<n])"
    then obtain j where "j < n" "?a = pcfich_ref c j" by auto
    then show False using pcfich_ref_inj [OF N(1), of n j] Suc.prems by simp
  qed
  define d1 where "d1 = d\<lparr>g_control := (g_control d)\<lparr>cr_pcfich := (cr_pcfich (g_control d))[n := Some ?a]\<rparr>\<rparr>"
  have g1: "geom d1 = geom d" and regs1: "g_regs d1 = g_regs d" by (simp_all add: d1_def geom_def)
  have al1: "alloc nc d1 (map (pcfich_ref c) [0..<n])"
    using d(3) alloc_geom [OF g1 regs1] by simp
  have free: "rg_assigned (g_regs d1 ?a) = 1"
    using alloc_assigned [OF d(3) reg] new regs1 by simp
  have step: "f (int n) d = Some (0, set_assigned ?a d1)"
    using free d(4) Suc.prems by (simp add: f k get set_pcfich_def poke_def d1_def [symmetric])
  have "alloc nc (set_assigned ?a d1) (map (pcfich_ref c) [0..<Suc n])"
    using alloc_take [OF al1 _ new] reg in_region_geom [OF g1] r0(2) reg_num_geom [OF g1] by simp
  moreover have "ctl_only c (set_assigned ?a d1)"
    using ctl_only_trans [OF ctl_only_trans [OF d(2), of d1] set_assigned_ctl] by (simp add: d1_def)
  moreover have "take (Suc n) (cr_pcfich (g_control (set_assigned ?a d1))) = map (\<lambda>i. Some (pcfich_ref c i)) [0..<Suc n]"
    using d(4,5) Suc.prems by (simp add: set_assigned_control d1_def take_Suc_conv_app_nth)
  ultimately show ?case
    using step d(1,4,6,7) by (simp add: below_Suc each_rc_append set_assigned_control d1_def del: of_nat_Suc)
qed

text \<open>The channel entries of the configuration are arrays of fixed size.\<close>

definition shape_ok :: "lte_grid_config \<Rightarrow> bool" where
  "shape_ok c \<longleftrightarrow> length (g_phch c) = 7 \<and> length (cr_pcfich (g_control c)) = 4 \<and> length (cr_phich (g_control c)) = 28"

lemma phch_set:
  assumes "length (g_phch c) = 7" "0 \<le> t" "t < 7"
  shows "phch_at c t = Some (g_phch c ! nat t)" "set_phch t h c = Some (c\<lparr>g_phch := (g_phch c)[nat t := h]\<rparr>)"
  using assms by (simp_all add: phch_at_def set_phch_def peek_def poke_def)

text \<open>A state that differs in the control region, the table of channels and the PHICH parameters only.\<close>

definition ch_only :: "lte_grid_config \<Rightarrow> lte_grid_config \<Rightarrow> bool" where
  "ch_only c d \<longleftrightarrow> (\<exists>u v x y. d = c\<lparr>g_phich_duration := u, g_phich_ngroups := v, g_control := x, g_phch := y\<rparr>)
     \<and> length (g_phch d) = length (g_phch c)"

lemma ch_onlyI:
  "d = c\<lparr>g_phich_duration := u, g_phich_ngroups := v, g_control := x, g_phch := y\<rparr>
     \<Longrightarrow> length y = length (g_phch c) \<Longrightarrow> ch_only c d"
  unfolding ch_only_def by (intro conjI exI [of _ u] exI [of _ v] exI [of _ x] exI [of _ y]) simp_all

lemma ch_onlyE:
  assumes "ch_only c d"
  obtains u v x y where "d = c\<lparr>g_phich_duration := u, g_phich_ngroups := v, g_control := x, g_phch := y\<rparr>"
    "length y = length (g_phch c)"
  using assms by (auto simp: ch_only_def)

lemma ch_only_same: "d = c\<lparr>g_control := x, g_phch := y\<rparr> \<Longrightarrow> length y = length (g_phch c) \<Longrightarrow> ch_only c d"
  by (rule ch_onlyI [where u = "g_phich_duration c" and v = "g_phich_ngroups c" and x = x and y = y]) simp_all

lemma ch_only_refl [simp]: "ch_only c c"
  by (rule ch_only_same [where x = "g_control c" and y = "g_phch c"]) simp_all

lemma ch_only_trans:
  assumes "ch_only c d" "ch_only d e"
  shows "ch_only c e"
proof -
  from assms obtain u v x y u' v' x' y' where
    "d = c\<lparr>g_phich_duration := u, g_phich_ngroups := v, g_control := x, g_phch := y\<rparr>" "length y = length (g_phch c)"
    "e = d\<lparr>g_phich_duration := u', g_phich_ngroups := v', g_control := x', g_phch := y'\<rparr>" "length y' = length (g_phch d)"
    by (elim ch_onlyE)
  then show ?thesis by (intro ch_onlyI [where u = u' and v = v' and x = x' and y = y']) simp_all
qed

lemma ctl_ch_only: "ctl_only c d \<Longrightarrow> ch_only c d"
  unfolding ctl_only_def by (elim exE) (rule ch_only_same [where y = "g_phch c"], simp_all)

lemma ch_only_phch: "ch_only c (c\<lparr>g_phch := (g_phch c)[i := h]\<rparr>)"
  by (rule ch_only_same [where x = "g_control c" and y = "(g_phch c)[i := h]"]) simp_all

lemma ch_only_geom: "ch_only c d \<Longrightarrow> geom d = geom c"
  by (auto simp: ch_only_def geom_def)

lemma ch_only_fields:
  "ch_only c d \<Longrightarrow> g_pdcch d = g_pdcch c" "ch_only c d \<Longrightarrow> g_nof_pdcch d = g_nof_pdcch c"
  "ch_only c d \<Longrightarrow> g_pdsch d = g_pdsch c" "ch_only c d \<Longrightarrow> g_nof_pdsch d = g_nof_pdsch c"
  "ch_only c d \<Longrightarrow> g_cfi d = g_cfi c" "ch_only c d \<Longrightarrow> length (g_phch d) = length (g_phch c)"
  "ch_only c d \<Longrightarrow> g_post_guard d = g_post_guard c"
  by (auto simp: ch_only_def)

lemma lte_pcfich_init_alloc:
  assumes "cell_ok nc c" "alloc nc c []" "shape_ok c"
  shows "\<exists>d. lte_pcfich_init 3 c = Some (0, d) \<and> ch_only c d \<and> shape_ok d
    \<and> alloc nc d (map (pcfich_ref c) [0..<4])
    \<and> cr_pcfich (g_control d) = map (\<lambda>i. Some (pcfich_ref c i)) [0..<4] \<and> pcfich_nregs (g_control d) = 4
    \<and> g_phch d = (g_phch c)[3 := (g_phch c ! 3)\<lparr>ch_name := ''PCFICH'', symbol_mask := replicate 10 1, nof_re_x_sf := replicate 10 16\<rparr>]"
proof -
  have len: "length (g_phch c) = 7" using assms(3) by (simp add: shape_ok_def)
  define c1 where "c1 = c\<lparr>g_phch := (g_phch c)[3 := (g_phch c ! 3)\<lparr>ch_name := ''PCFICH''\<rparr>],
    g_control := (g_control c)\<lparr>pcfich_nregs := 4\<rparr>\<rparr>"
  have g: "geom c1 = geom c" and r: "g_regs c1 = g_regs c" by (simp_all add: c1_def geom_def)
  have ok: "cell_ok nc c1" "alloc nc c1 []" "length (cr_pcfich (g_control c1)) = 4"
    using assms cell_ok_geom [OF g] alloc_geom [OF g r] by (simp_all add: c1_def shape_ok_def)
  obtain d where d: "lte_grid_init_reg_pcfich c1 = Some (0, d)" "ctl_only c1 d" "alloc nc d (map (pcfich_ref c1) [0..<4])"
      "length (cr_pcfich (g_control d)) = 4" "cr_pcfich (g_control d) = map (\<lambda>i. Some (pcfich_ref c1 i)) [0..<4]"
      "pcfich_nregs (g_control d) = 4" "cr_phich (g_control d) = cr_phich (g_control c1)"
    using pcfich_loop [OF ok refl, of 4] ok(1)
    unfolding lte_grid_init_reg_pcfich_def Let_def cell_ok_def
    by (auto simp: crem_nonneg cdiv_nonneg c1_def)
  have gd: "geom d = geom c" using ctl_only_geom [OF d(2)] g by simp
  define e where "e = d\<lparr>g_phch := (g_phch d)[3 := (g_phch d ! 3)\<lparr>symbol_mask := replicate 10 1, nof_re_x_sf := replicate 10 16\<rparr>]\<rparr>"
  have ph: "g_phch d = g_phch c1" using d(2) by (auto simp: ctl_only_def)
  have init: "lte_pcfich_init 3 c = Some (0, e)"
    using len d(1,6) ph by (simp add: lte_pcfich_init_def phch_set c1_def [symmetric] e_def)
      (simp add: phch_set c1_def)
  have ge: "geom e = geom d" and re: "g_regs e = g_regs d" by (simp_all add: e_def geom_def)
  have "ch_only c c1" unfolding c1_def
    by (rule ch_only_same [where x = "g_control c1" and y = "g_phch c1"]) (simp_all add: c1_def)
  then have "ch_only c e"
    using ctl_ch_only [OF d(2)] ch_only_phch [of d] ch_only_trans unfolding e_def by blast
  moreover have "g_phch e = (g_phch c)[3 := (g_phch c ! 3)\<lparr>ch_name := ''PCFICH'', symbol_mask := replicate 10 1, nof_re_x_sf := replicate 10 16\<rparr>]"
    using len by (simp add: e_def ph c1_def)
  moreover have "pcfich_ref c1 = pcfich_ref c" using pcfich_ref_geom [OF g] by (rule ext)
  moreover have "shape_ok e"
    using d(4,7) len assms(3) by (simp add: shape_ok_def e_def ph) (simp add: c1_def)
  ultimately show ?thesis
    using init d(3-7) alloc_geom [OF ge re] by (intro exI [of _ e]) (simp add: e_def)
qed

subsection \<open>PHICH\<close>

lemma each_pure:
  assumes "\<And>x s. x \<in> set xs \<Longrightarrow> f x s = Some (h x s)"
  shows "each f xs s = Some (fold h xs s)"
  using assms by (induction xs arbitrary: s) auto

lemma fold_count: "fold (\<lambda>x n. if P x then n + 1 else n) xs (m :: int) = m + int (length (filter P xs))"
  by (induction xs arbitrary: m) auto

definition is_free :: "lte_grid_config \<Rightarrow> reg_ref \<Rightarrow> bool" where
  "is_free c a \<longleftrightarrow> rg_assigned (g_regs c a) = 1"

lemma countfree_eq:
  assumes "g_nof_prb c \<le> 110" "l < 4"
  shows "lte_grid_init_reg_phich_countfree (int l) c
    = Some (int (length (filter (is_free c) [(p, l, r). p \<leftarrow> [0..<nat (g_nof_prb c)], r \<leftarrow> [0..<3]])))"
proof -
  let ?h = "\<lambda>p r n. if is_free c (nat p, l, nat r) then n + 1 else (n :: int)"
  have at: "reg_at p (int l) r = Some (nat p, l, nat r)" if "0 \<le> p" "p < g_nof_prb c" "0 \<le> r" "r < 3" for p r
    using that assms by (simp add: reg_at_def)
  have "each (\<lambda>r n. do { a \<leftarrow> reg_at p (int l) r; Some (if rg_assigned (g_regs c a) = 1 then n + 1 else n) }) (below 3) n
      = Some (fold (?h p) (below 3) n)" if "p \<in> set (below (g_nof_prb c))" for p n
    by (rule each_pure) (use that in \<open>simp add: at is_free_def\<close>)
  then have "lte_grid_init_reg_phich_countfree (int l) c = Some (fold (\<lambda>p. fold (?h p) (below 3)) (below (g_nof_prb c)) 0)"
    unfolding lte_grid_init_reg_phich_countfree_def by (rule each_pure)
  also have "fold (\<lambda>p. fold (?h p) (below 3)) (below (g_nof_prb c)) 0
      = fold (\<lambda>a n. if is_free c a then n + 1 else (n :: int)) [(p, l, r). p \<leftarrow> [0..<nat (g_nof_prb c)], r \<leftarrow> [0..<3]] 0"
    by (simp add: below_def fold_map comp_def fold_concat_map)
  finally show ?thesis by (simp add: fold_count)
qed

lemma phich_search_eq:
  assumes "\<And>p r. (p, r) \<in> set prs \<Longrightarrow> reg_at p (int l) r = Some (nat p, l, nat r)"
  shows "phich_search prs (int l) (int ni) (int nip) c = Some
    (let F = filter (is_free c) (map (\<lambda>(p, r). (nat p, l, nat r)) prs)
     in if nip \<le> ni \<and> ni - nip < length F then Some (F ! (ni - nip)) else None)"
  using assms
proof (induction prs arbitrary: nip)
  case (Cons pr prs)
  obtain p r where pr: "pr = (p, r)" by (cases pr)
  have IH: "phich_search prs (int l) (int ni) (int m) c = Some
    (let F = filter (is_free c) (map (\<lambda>(p, r). (nat p, l, nat r)) prs)
     in if m \<le> ni \<and> ni - m < length F then Some (F ! (ni - m)) else None)" for m
    using Cons by simp
  have at: "reg_at p (int l) r = Some (nat p, l, nat r)" using Cons.prems pr by simp
  show ?case
  proof (cases "is_free c (nat p, l, nat r)")
    case True
    have "int nip + 1 = int (Suc nip)" by simp
    then have "phich_search (pr # prs) (int l) (int ni) (int nip) c
      = (if ni = nip then Some (Some (nat p, l, nat r)) else phich_search prs (int l) (int ni) (int (Suc nip)) c)"
      using True at pr by (simp add: is_free_def add.commute)
    then show ?thesis
      using True pr unfolding IH by (auto simp: Let_def nth_Cons' Suc_diff_Suc)
  next
    case False
    then have "phich_search (pr # prs) (int l) (int ni) (int nip) c = phich_search prs (int l) (int ni) (int nip) c"
      using at pr by (simp add: is_free_def)
    then show ?thesis using False pr unfolding IH by simp
  qed
qed simp

text \<open>The groups of the first symbol in the order of the search, and those that are free.\<close>

definition row0 :: "lte_grid_config \<Rightarrow> reg_ref list" where
  "row0 c = [(p, 0, r). p \<leftarrow> [0..<nat (g_nof_prb c)], r \<leftarrow> [0..<2]]"

definition free0 :: "lte_grid_config \<Rightarrow> reg_ref list" where
  "free0 c = filter (is_free c) (row0 c)"

lemma row0_props: "set (row0 c) = {(p, 0, r) | p r. int p < g_nof_prb c \<and> r < 2}" "distinct (row0 c)"
    "length (row0 c) = 2 * nat (g_nof_prb c)"
proof -
  show "set (row0 c) = {(p, 0, r) | p r. int p < g_nof_prb c \<and> r < 2}"
    by (fastforce simp: row0_def image_iff)
  have "distinct [(p, 0 :: nat, r). p \<leftarrow> [0..<n], r \<leftarrow> [0..<m]]"
     "length [(p, 0 :: nat, r). p \<leftarrow> [0..<n], r \<leftarrow> [0..<m]] = n * m" for n m :: nat
    by (induction n) (auto simp: distinct_map inj_on_def)
  then show "distinct (row0 c)" "length (row0 c) = 2 * nat (g_nof_prb c)"
    by (simp_all add: row0_def mult.commute)
qed

lemma free0_count:
  assumes "cell_ok nc c" "alloc nc c refs"
  shows "free0 c = filter (\<lambda>a. a \<notin> set refs) (row0 c)"
    and "lte_grid_init_reg_phich_countfree 0 c = Some (int (length (free0 c)))"
proof -
  have "is_free c a = (a \<notin> set refs)" if "a \<in> set (row0 c)" for a
    using that assms alloc_assigned [OF assms(2), of a]
    by (auto simp: row0_props in_region_def cell_ok_def is_free_def)
  then show "free0 c = filter (\<lambda>a. a \<notin> set refs) (row0 c)"
    unfolding free0_def by (rule filter_cong [OF refl])
  have "\<not> is_free c (p, 0, 2)" for p using assms(2) by (simp add: alloc_def is_free_def)
  then have "filter (is_free c) [(p, 0, r). p \<leftarrow> ps, r \<leftarrow> [0..<3]] = filter (is_free c) [(p, 0, r). p \<leftarrow> ps, r \<leftarrow> [0..<2]]" for ps
    by (induction ps) (simp_all add: upt_rec numeral_2_eq_2)
  then show "lte_grid_init_reg_phich_countfree 0 c = Some (int (length (free0 c)))"
    using countfree_eq [of c 0] assms(1) by (simp add: cell_ok_def free0_def row0_def)
qed

lemma length_filter_notin:
  assumes "distinct refs" "set refs \<subseteq> set xs" "distinct xs"
  shows "length (filter (\<lambda>a. a \<notin> set refs) xs) = length xs - length refs"
proof -
  have "length (filter (\<lambda>a. a \<notin> set refs) xs) = card (set xs - set refs)"
    using assms(3) by (metis distinct_card distinct_filter set_diff_eq set_filter)
  then show ?thesis using assms by (simp add: card_Diff_subset distinct_card)
qed

text \<open>The number of the free group that PHICH group mi takes at position i.\<close>

definition phich_ni :: "lte_grid_config \<Rightarrow> int \<Rightarrow> int \<times> int \<Rightarrow> nat" where
  "phich_ni c n = (\<lambda>(mi, i). nat ((g_cell_id c + mi + i * n div 3) mod n))"

lemma phich_items_props: "set (phich_items g) = {(mi, i). 0 \<le> mi \<and> mi < g \<and> 0 \<le> i \<and> i < 3}"
  "distinct (phich_items g)" "length (phich_items g) = 3 * nat g"
proof -
  show "set (phich_items g) = {(mi, i). 0 \<le> mi \<and> mi < g \<and> 0 \<le> i \<and> i < 3}"
    by (auto simp: phich_items_def)
  have "distinct [(x, y). x \<leftarrow> map int [0..<n], y \<leftarrow> below 3]"
     "length [(x, y). x \<leftarrow> map int [0..<n], y \<leftarrow> below 3] = n * 3" for n :: nat
    by (induction n) (auto simp: distinct_map inj_on_def below_def)
  then show "distinct (phich_items g)" "length (phich_items g) = 3 * nat g"
    by (simp_all add: phich_items_def mult.commute below_def [of g])
qed

lemma phich_offset_inj:
  fixes n g mi mi' i i' :: int
  assumes "g \<le> n div 3" "0 \<le> mi" "mi < g" "0 \<le> mi'" "mi' < g" "0 \<le> i" "i < 3" "0 \<le> i'" "i' < 3"
    "mi + i * n div 3 = mi' + i' * n div 3"
  shows "mi = mi' \<and> i = i'"
proof -
  have "i = 0 \<or> i = 1 \<or> i = 2" "i' = 0 \<or> i' = 1 \<or> i' = 2" using assms by auto
  moreover have "n div 3 + n div 3 \<le> 2 * n div 3" by auto
  ultimately show ?thesis using assms by auto
qed

lemma phich_ni_inj:
  assumes "0 < n" "g \<le> n div 3" "x \<in> set (phich_items g)" "y \<in> set (phich_items g)" "phich_ni c n x = phich_ni c n y"
  shows "x = y"
proof -
  obtain mi i mi' i' where xy: "x = (mi, i)" "y = (mi', i')" by (cases x, cases y)
  have b: "0 \<le> mi" "mi < g" "0 \<le> i" "i < 3" "0 \<le> mi'" "mi' < g" "0 \<le> i'" "i' < 3"
    using assms(3,4) xy by (auto simp: phich_items_props)
  have lt: "mi + i * n div 3 < n" if "mi < g" "0 \<le> i" "i < 3" for mi i
  proof -
    have "i = 0 \<or> i = 1 \<or> i = 2" using that by auto
    moreover have "n div 3 + 2 * n div 3 \<le> n" "n div 3 + n div 3 \<le> n" using assms(1) by auto
    ultimately show ?thesis using that assms(1,2) by auto
  qed
  have "(g_cell_id c + (mi + i * n div 3)) mod n = (g_cell_id c + (mi' + i' * n div 3)) mod n"
    using assms(1,5) by (simp add: phich_ni_def xy add.assoc eq_nat_nat_iff)
  then have "mi + i * n div 3 = mi' + i' * n div 3"
    by (rule mod_add_inj) (use b lt assms(1) in \<open>auto simp: pos_imp_zdiv_nonneg_iff\<close>)
  then show ?thesis using phich_offset_inj [OF assms(2), of mi mi' i i'] b xy by simp
qed

lemma phich_ni_get:
  assumes "cell_ok nc c" "ni < length (free0 c)"
  shows "lte_grid_init_reg_phich_ni 0 (int ni) c = Some (Some (free0 c ! ni))"
proof -
  let ?prs = "[(p, r). p \<leftarrow> below (g_nof_prb c), r \<leftarrow> below 2]"
  have at: "reg_at p (int 0) r = Some (nat p, 0, nat r)" if "(p, r) \<in> set ?prs" for p r
    using that assms(1) by (auto simp: reg_at_def cell_ok_def)
  have "map (\<lambda>(p, r). (nat p, 0, nat r)) ?prs = row0 c"
    by (simp add: row0_def below_def map_concat comp_def)
  then show ?thesis
    using phich_search_eq [of ?prs 0 ni 0 c] at assms
    by (simp add: lte_grid_init_reg_phich_ni_def cell_ok_def free0_def [symmetric])
qed

definition phich_regs :: "lte_grid_config \<Rightarrow> int \<Rightarrow> reg_ref list" where
  "phich_regs c g = map (\<lambda>x. free0 c ! phich_ni c (int (length (free0 c))) x) (phich_items g)"

definition with_phich :: "reg_ref option list \<Rightarrow> lte_grid_config \<Rightarrow> lte_grid_config" where
  "with_phich l c = c\<lparr>g_control := (g_control c)\<lparr>cr_phich := l\<rparr>\<rparr>"

lemma with_phich_simps [simp]:
  "geom (with_phich l c) = geom c" "g_regs (with_phich l c) = g_regs c" "g_phich_duration (with_phich l c) = g_phich_duration c"
  "cr_phich (g_control (with_phich l c)) = l" "with_phich k (with_phich l c) = with_phich k c"
  "with_phich (cr_phich (g_control c)) c = c"
  by (simp_all add: with_phich_def geom_def)

lemma free0_geom: "geom c = geom d \<Longrightarrow> g_regs c = g_regs d \<Longrightarrow> free0 c = free0 d"
  by (simp add: free0_def row0_def is_free_def [abs_def] geom_eq [of c d])

lemma free0_le: "cell_ok nc c \<Longrightarrow> length (free0 c) \<le> 220"
proof -
  assume "cell_ok nc c"
  then have "2 * nat (g_nof_prb c) \<le> 220" by (auto simp: cell_ok_def)
  then show ?thesis using length_filter_le [of "is_free c" "row0 c"] row0_props(3) [of c] unfolding free0_def by linarith
qed

lemma phich_index:
  assumes "cell_ok nc c" "n = int (length (free0 c))" "0 < n" "0 \<le> mi" "mi < 2 ^ 16" "0 \<le> i" "i < 3"
  shows "crem (int_cast (cdiv (int_cast (g_cell_id c * n)) n + mi + cdiv (i * n) 3)) n = int (phich_ni c n (mi, i))"
proof -
  have cell: "0 \<le> g_cell_id c" "g_cell_id c < 2 ^ 22" using assms(1) by (simp_all add: cell_ok_def)
  have n: "n \<le> 220" using free0_le [OF assms(1)] assms(2) by simp
  have "g_cell_id c * n \<le> 2 ^ 22 * 220" using cell n assms(3) by (intro mult_mono) simp_all
  then have p: "int_cast (g_cell_id c * n) = g_cell_id c * n" using cell assms(3) by (intro int_cast_nonneg) simp_all
  have "i * n \<le> 3 * 220" using n assms(3,6,7) by (intro mult_mono) simp_all
  then have "i * n div 3 \<le> 220" "0 \<le> i * n div 3" using assms(3,6) zdiv_mono1 [of "i * n" "3 * 220" 3] by (simp_all add: pos_imp_zdiv_nonneg_iff)
  then have "int_cast (g_cell_id c + mi + i * n div 3) = g_cell_id c + mi + i * n div 3"
    using cell assms(4,5) by (intro int_cast_nonneg) simp_all
  then show ?thesis
    using assms(3-7) cell by (simp add: p cdiv_nonneg crem_nonneg phich_ni_def pos_imp_zdiv_nonneg_iff)
qed

lemma phich_find_eq:
  assumes c: "cell_ok nc c" "g_phich_duration c = 1" "0 < length (free0 c)" and n0: "ns ! 0 = int (length (free0 c))"
    and x: "x \<in> set (phich_items g)" "g \<le> 2 ^ 16"
  shows "phich_find ns x (with_phich l c) = Some (Some (free0 c ! phich_ni c (int (length (free0 c))) x))"
proof -
  let ?n = "int (length (free0 c))"
  obtain mi i where xi: "x = (mi, i)" by (cases x)
  have mi: "0 \<le> mi" "mi < 2 ^ 16" "0 \<le> i" "i < 3" using x by (auto simp: xi phich_items_props)
  have g': "g_cell_id (with_phich l c) = g_cell_id c" by (simp add: with_phich_def)
  have F: "free0 (with_phich l c) = free0 c" by (rule free0_geom) simp_all
  have ok: "cell_ok nc (with_phich l c)" using c(1) cell_ok_geom [of "with_phich l c" c] by simp
  have lt: "phich_ni c ?n x < length (free0 c)" using c(3) by (simp add: xi phich_ni_def nat_less_iff)
  have "lte_grid_init_reg_phich_ni 0 (int (phich_ni c ?n x)) (with_phich l c) = Some (Some (free0 c ! phich_ni c ?n x))"
    using phich_ni_get [OF ok, of "phich_ni c ?n x"] lt F by simp
  moreover have "crem (int_cast (cdiv (int_cast (g_cell_id c * ?n)) ?n + mi + cdiv (i * ?n) 3)) ?n = int (phich_ni c ?n x)"
    unfolding xi using phich_index [OF c(1) refl _ mi] c(3) by simp
  ultimately show ?thesis using c(2,3) n0 by (simp add: phich_find_def xi g')
qed

lemma phich_loop:
  assumes c: "cell_ok nc c" "g_phich_duration c = 1" "0 < length (free0 c)" "length (cr_phich (g_control c)) = 28"
    and n0: "ns ! 0 = int (length (free0 c))" and "g \<le> 2 ^ 16" and "k \<le> length (phich_items g)" "k \<le> 28"
  shows "each_rc (phich_step ns) (take k (phich_items g)) (0, c)
    = Some (0, int k, with_phich (map Some (take k (phich_regs c g)) @ drop k (cr_phich (g_control c))) c)"
  using \<open>k \<le> length (phich_items g)\<close> \<open>k \<le> 28\<close>
proof (induction k)
  case (Suc k)
  define l where "l = map Some (take k (phich_regs c g)) @ drop k (cr_phich (g_control c))"
  have k: "k < 28" "length (phich_regs c g) = length (phich_items g)"
    using Suc.prems by (auto simp: phich_regs_def)
  have len: "length l = 28" using k c(4) Suc.prems by (simp add: l_def)
  have "phich_find ns (phich_items g ! k) (with_phich l c) = Some (Some (phich_regs c g ! k))"
    using phich_find_eq [OF c(1-3) n0 nth_mem \<open>g \<le> 2 ^ 16\<close>] Suc.prems by (simp add: phich_regs_def)
  moreover have "l[k := Some (phich_regs c g ! k)] = map Some (take (Suc k) (phich_regs c g)) @ drop (Suc k) (cr_phich (g_control c))"
    using k c(4) Suc.prems
    by (simp add: l_def list_update_append take_Suc_conv_app_nth Cons_nth_drop_Suc [symmetric] min_absorb2)
  ultimately have "phich_step ns (phich_items g ! k) (int k, with_phich l c)
      = Some (0, int (Suc k), with_phich (map Some (take (Suc k) (phich_regs c g)) @ drop (Suc k) (cr_phich (g_control c))) c)"
    using k len by (simp add: phich_step_def set_phich_def poke_def) (simp add: with_phich_def)
  moreover have "each_rc (phich_step ns) (take k (phich_items g)) (0, c) = Some (0, int k, with_phich l c)"
    using Suc by (simp add: l_def)
  ultimately show ?case
    using Suc.prems by (simp add: take_Suc_conv_app_nth each_rc_append)
qed simp

text \<open>The table has 28 places: with more groups the loop fills them and then writes beyond the table.\<close>

lemma phich_loop_overflow:
  assumes c: "cell_ok nc c" "g_phich_duration c = 1" "0 < length (free0 c)" "length (cr_phich (g_control c)) = 28"
    and n0: "ns ! 0 = int (length (free0 c))" and g: "28 < 3 * nat g" "g \<le> 2 ^ 16"
  shows "\<exists>f a. each_rc (phich_step ns) (take 28 (phich_items g)) (0, c) = Some (0, 28, f) \<and> length (cr_phich (g_control f)) = 28
    \<and> phich_find ns (phich_items g ! 28) f = Some (Some a) \<and> set_phich 28 (Some a) f = None"
    "each_rc (phich_step ns) (phich_items g) (0, c) = None"
proof -
  let ?l = "map Some (take 28 (phich_regs c g)) @ drop 28 (cr_phich (g_control c))"
  let ?a = "free0 c ! phich_ni c (int (length (free0 c))) (phich_items g ! 28)"
  have len: "28 < length (phich_items g)" using g by (simp add: phich_items_props)
  then have l: "length ?l = 28" using c(4) by (simp add: phich_regs_def)
  have find: "phich_find ns (phich_items g ! 28) (with_phich ?l c) = Some (Some ?a)"
    using phich_find_eq [OF c(1-3) n0 nth_mem g(2)] len by simp
  have set: "set_phich 28 (Some ?a) (with_phich ?l c) = None" using l by (simp add: set_phich_def poke_def)
  have loop: "each_rc (phich_step ns) (take 28 (phich_items g)) (0, c) = Some (0, 28, with_phich ?l c)"
    using phich_loop [OF c n0 g(2), of 28] len by simp
  show "\<exists>f a. each_rc (phich_step ns) (take 28 (phich_items g)) (0, c) = Some (0, 28, f) \<and> length (cr_phich (g_control f)) = 28
    \<and> phich_find ns (phich_items g ! 28) f = Some (Some a) \<and> set_phich 28 (Some a) f = None"
    using loop l find set by (intro exI [of _ "with_phich ?l c"] exI [of _ ?a]) simp
  have "phich_step ns (phich_items g ! 28) (28, with_phich ?l c) = None" using find set by (simp add: phich_step_def)
  then have none: "each_rc (phich_step ns) (take 28 (phich_items g) @ phich_items g ! 28 # drop 29 (phich_items g)) (0, c) = None"
    unfolding each_rc_append loop by simp
  have eq: "phich_items g = take 28 (phich_items g) @ phich_items g ! 28 # drop 29 (phich_items g)"
    using id_take_nth_drop [OF len] by simp
  show "each_rc (phich_step ns) (phich_items g) (0, c) = None" by (subst eq) (rule none)
qed

lemma mark_loop:
  assumes d: "alloc nc d refs" "lte_reg_num 0 d = 2" "cr_phich (g_control d) = map Some new @ rest"
    "distinct (refs @ new)" "\<forall>a\<in>set new. in_region nc d a" and "n \<le> length new"
  shows "\<exists>e. each (\<lambda>i c. do { a \<leftarrow> peek (cr_phich (g_control c)) i; b \<leftarrow> a; Some (set_assigned b c) }) (below (int n)) d = Some e
    \<and> ctl_only d e \<and> alloc nc e (refs @ take n new) \<and> cr_phich (g_control e) = cr_phich (g_control d)
    \<and> cr_pcfich (g_control e) = cr_pcfich (g_control d) \<and> pcfich_nregs (g_control e) = pcfich_nregs (g_control d)
    \<and> phich_nregs (g_control e) = phich_nregs (g_control d)"
  using \<open>n \<le> length new\<close>
proof (induction n)
  case 0
  then show ?case using d by simp
next
  case (Suc n)
  let ?f = "\<lambda>i c. do { a \<leftarrow> peek (cr_phich (g_control c)) i; b \<leftarrow> a; Some (set_assigned b c) }"
  from Suc obtain e where e: "each ?f (below (int n)) d = Some e" "ctl_only d e" "alloc nc e (refs @ take n new)"
      "cr_phich (g_control e) = cr_phich (g_control d)" "cr_pcfich (g_control e) = cr_pcfich (g_control d)"
      "pcfich_nregs (g_control e) = pcfich_nregs (g_control d)" "phich_nregs (g_control e) = phich_nregs (g_control d)"
    by auto
  note g = ctl_only_geom [OF e(2)]
  have step: "?f (int n) e = Some (set_assigned (new ! n) e)"
    using Suc.prems e(4) d(3) by (simp add: peek_def nth_append)
  have "new ! n \<notin> set (refs @ take n new)"
    using Suc.prems d(4) id_take_nth_drop [of n new] by (metis (no_types, lifting) Suc_le_lessD UnE UnI2 disjoint_iff
        distinct_append in_set_conv_nth not_distinct_conv_prefix nth_mem set_append take_Suc_conv_app_nth append_Nil2 append_assoc)
  then have "alloc nc (set_assigned (new ! n) e) ((refs @ take n new) @ [new ! n])"
    using alloc_take [OF e(3)] d(2,5) Suc.prems reg_num_geom [OF g] in_region_geom [OF g] by simp
  then show ?case
    using step e Suc.prems ctl_only_trans [OF e(2) set_assigned_ctl]
    by (simp add: below_Suc each_append set_assigned_control take_Suc_conv_app_nth del: of_nat_Suc)
qed

lemma phich_regs_props:
  assumes "cell_ok nc c" "alloc nc c refs" "length refs = 4" "set refs \<subseteq> set (row0 c)" "g = (g_nof_prb c + 7) div 8"
  shows "length (free0 c) = 2 * nat (g_nof_prb c) - 4" "distinct (refs @ phich_regs c g)"
    "\<forall>a\<in>set (phich_regs c g). in_region nc c a" "length (phich_regs c g) = 3 * nat g"
proof -
  let ?n = "int (length (free0 c))"
  have N: "6 \<le> g_nof_prb c" using assms(1) by (simp add: cell_ok_def)
  have F: "free0 c = filter (\<lambda>a. a \<notin> set refs) (row0 c)" using free0_count [OF assms(1,2)] by simp
  show len: "length (free0 c) = 2 * nat (g_nof_prb c) - 4"
    using length_filter_notin [of refs "row0 c"] assms(2-4) row0_props [of c] F by (simp add: alloc_def)
  then have n: "?n = 2 * g_nof_prb c - 4" using N by simp
  then have n3: "0 < ?n" "g \<le> ?n div 3" using N assms(5) by auto
  have lt: "phich_ni c ?n x < length (free0 c)" for x
    using n3(1) by (cases x) (simp add: phich_ni_def nat_less_iff)
  have "inj_on (\<lambda>x. free0 c ! phich_ni c ?n x) (set (phich_items g))"
  proof (rule inj_onI)
    fix x y
    assume xy: "x \<in> set (phich_items g)" "y \<in> set (phich_items g)" "free0 c ! phich_ni c ?n x = free0 c ! phich_ni c ?n y"
    have "distinct (free0 c)" using row0_props(2) by (simp add: F)
    then have "phich_ni c ?n x = phich_ni c ?n y" using xy(3) lt by (simp add: nth_eq_iff_index_eq)
    then show "x = y" using phich_ni_inj [OF n3] xy by blast
  qed
  then have "distinct (phich_regs c g)" by (simp add: phich_regs_def distinct_map phich_items_props)
  moreover have sub: "set (phich_regs c g) \<subseteq> set (free0 c)" using lt by (auto simp: phich_regs_def)
  ultimately show "distinct (refs @ phich_regs c g)" using assms(2) F by (auto simp: alloc_def)
  have "in_region nc c a" if "a \<in> set (row0 c)" for a
    using that assms(1) by (auto simp: row0_props in_region_def cell_ok_def)
  then show "\<forall>a\<in>set (phich_regs c g). in_region nc c a" using sub F by auto
  show "length (phich_regs c g) = 3 * nat g" by (simp add: phich_regs_def phich_items_props)
qed

lemma lte_grid_init_reg_phich_alloc:
  assumes "cell_ok nc c" "alloc nc c refs" "length refs = 4" "set refs \<subseteq> set (row0 c)" "g_nof_prb c \<le> 72"
    "g_phich_ngroups c = (g_nof_prb c + 7) div 8" "g_phich_duration c = 1" "shape_ok c"
  shows "\<exists>d. lte_grid_init_reg_phich c = Some (0, d) \<and> ctl_only c d \<and> shape_ok d
    \<and> alloc nc d (refs @ phich_regs c (g_phich_ngroups c))
    \<and> cr_phich (g_control d) = map Some (phich_regs c (g_phich_ngroups c)) @ drop (length (phich_regs c (g_phich_ngroups c))) (cr_phich (g_control c))
    \<and> cr_pcfich (g_control d) = cr_pcfich (g_control c) \<and> pcfich_nregs (g_control d) = pcfich_nregs (g_control c)
    \<and> phich_nregs (g_control d) = phich_nregs (g_control c)"
proof -
  let ?g = "g_phich_ngroups c" and ?new = "phich_regs c (g_phich_ngroups c)"
  note pr = phich_regs_props [OF assms(1-4,6)]
  have N: "6 \<le> g_nof_prb c" "g_nof_prb c \<le> 110" using assms(1) by (simp_all add: cell_ok_def)
  have g: "0 < ?g" "3 * ?g \<le> 28"
    using N assms(5,6) zdiv_mono1 [of "g_nof_prb c + 7" 79 8] by auto
  obtain n1 where n1: "lte_grid_init_reg_phich_countfree 1 c = Some n1" using countfree_eq [of c 1] N by simp
  obtain n2 where n2: "lte_grid_init_reg_phich_countfree 2 c = Some n2" using countfree_eq [of c 2] N by simp
  have n0: "lte_grid_init_reg_phich_countfree 0 c = Some (int (length (free0 c)))"
    using free0_count [OF assms(1,2)] by simp
  have pos: "0 < length (free0 c)" using pr(1) N by simp
  define c1 where "c1 = with_phich (map Some ?new @ drop (length ?new) (cr_phich (g_control c))) c"
  have len: "length ?new = length (phich_items ?g)" by (simp add: phich_regs_def)
  have i28: "length (phich_items ?g) \<le> 28" using g by (simp add: phich_items_props)
  have g16: "?g \<le> 2 ^ 16" using g(2) by simp
  note loop = phich_loop [OF assms(1,7) pos _ _ g16, of "[int (length (free0 c)), n1, n2]" "length ?new",
      unfolded len take_all_iff [THEN iffD2, OF order_refl]]
  have g1: "geom c1 = geom c" by (simp add: c1_def)
  have al: "alloc nc c1 refs" using alloc_geom [OF g1] assms(2) by (simp add: c1_def)
  obtain d where d: "each (\<lambda>i c. do { a \<leftarrow> peek (cr_phich (g_control c)) i; b \<leftarrow> a; Some (set_assigned b c) }) (below (int (length ?new))) c1 = Some d"
    "ctl_only c1 d" "alloc nc d (refs @ ?new)" "cr_phich (g_control d) = cr_phich (g_control c1)"
    "cr_pcfich (g_control d) = cr_pcfich (g_control c1)" "pcfich_nregs (g_control d) = pcfich_nregs (g_control c1)"
    "phich_nregs (g_control d) = phich_nregs (g_control c1)"
    using mark_loop [OF al, of ?new "drop (length ?new) (cr_phich (g_control c))" "length ?new"] pr(2,3) assms(1)
      reg_num_geom [OF g1] in_region_geom [OF g1] by (auto simp: c1_def cell_ok_def)
  have "lte_grid_init_reg_phich c = Some (0, d)"
    using loop [OF _ _ order_refl i28] g(1) assms(8) d(1) len
    by (simp add: lte_grid_init_reg_phich_def phich_counts_def n0 n1 n2 shape_ok_def c1_def)
  moreover have "ctl_only c d" using ctl_only_trans [OF _ d(2)] by (simp add: c1_def with_phich_def)
  moreover have "shape_ok d"
    using d(2,4,5) assms(8) g(2) len
    by (auto simp: shape_ok_def c1_def with_phich_def ctl_only_def phich_items_props)
  ultimately show ?thesis using d(3-7) by (auto simp: c1_def with_phich_def)
qed

end
