(* ===== verification/Grid_Alloc.thy ===== *)
theory Grid_Alloc
  imports Grid_Regs
begin

text \<open>
  The PDCCHs take the free groups in the order of their first subcarrier; the search succeeds as
  long as groups are left. Together with PCFICH and PHICH this gives the theorem on the
  allocation of the control region by lte_grid_init.
\<close>

section \<open>PHICH\<close>

definition phich_groups :: "lte_grid_config \<Rightarrow> int" where
  "phich_groups c = (g_nof_prb c + 7) div 8"

lemma phich_regs_geom:
  assumes "geom c = geom d" "g_regs c = g_regs d"
  shows "phich_regs c g = phich_regs d g"
  by (simp add: phich_regs_def free0_geom [OF assms] phich_ni_def geom_eq(4) [OF assms(1)])

lemma lte_phich_init_alloc:
  assumes "cell_ok nc c" "alloc nc c refs" "length refs = 4" "set refs \<subseteq> set (row0 c)" "g_nof_prb c \<le> 72"
    "g_nof_control_symbols c \<noteq> 0" "shape_ok c"
  shows "\<exists>d. lte_phich_init 4 c = Some (0, d) \<and> ch_only c d \<and> shape_ok d
    \<and> alloc nc d (refs @ phich_regs c (phich_groups c))
    \<and> take (3 * nat (phich_groups c)) (cr_phich (g_control d)) = map Some (phich_regs c (phich_groups c))
    \<and> cr_pcfich (g_control d) = cr_pcfich (g_control c) \<and> pcfich_nregs (g_control d) = pcfich_nregs (g_control c)
    \<and> phich_nregs (g_control d) = 3 * phich_groups c
    \<and> (\<exists>h. g_phch d = (g_phch c)[4 := h])"
proof -
  let ?g = "phich_groups c"
  have len: "length (g_phch c) = 7" using assms(7) by (simp add: shape_ok_def)
  define c1 where "c1 = c\<lparr>g_phch := (g_phch c)[4 := (g_phch c ! 4)\<lparr>ch_name := ''PHICH''\<rparr>],
    g_phich_duration := 1, g_phich_ngroups := ?g, g_control := (g_control c)\<lparr>phich_nregs := ?g * 3\<rparr>\<rparr>"
  have g: "geom c1 = geom c" and r: "g_regs c1 = g_regs c" by (simp_all add: c1_def geom_def)
  have row: "row0 c1 = row0 c" by (simp add: row0_def geom_eq(1) [OF g])
  have N: "0 \<le> g_nof_prb c" using assms(1) by (simp add: cell_ok_def)
  have par: "lte_phich_init_params (c\<lparr>g_phch := (g_phch c)[4 := (g_phch c ! 4)\<lparr>ch_name := ''PHICH''\<rparr>]\<rparr>)
      = (0, c\<lparr>g_phch := (g_phch c)[4 := (g_phch c ! 4)\<lparr>ch_name := ''PHICH''\<rparr>], g_phich_duration := 1, g_phich_ngroups := ?g\<rparr>)"
    using N assms(6) by (simp add: lte_phich_init_params_def phich_groups_def cdiv_nonneg add.commute)
  obtain d where d: "lte_grid_init_reg_phich c1 = Some (0, d)" "ctl_only c1 d" "shape_ok d"
    "alloc nc d (refs @ phich_regs c1 ?g)"
    "cr_phich (g_control d) = map Some (phich_regs c1 ?g) @ drop (length (phich_regs c1 ?g)) (cr_phich (g_control c1))"
    "cr_pcfich (g_control d) = cr_pcfich (g_control c1)" "pcfich_nregs (g_control d) = pcfich_nregs (g_control c1)"
    "phich_nregs (g_control d) = phich_nregs (g_control c1)"
    using lte_grid_init_reg_phich_alloc [of nc c1 refs] assms cell_ok_geom [OF g] alloc_geom [OF g r] row geom_eq(1) [OF g]
    by (auto simp: c1_def phich_groups_def shape_ok_def)
  have pr: "phich_regs c1 ?g = phich_regs c ?g" by (rule phich_regs_geom [OF g r])
  have ph: "g_phch d = g_phch c1" and dur: "g_phich_duration d = 1" using d(2) by (auto simp: ctl_only_def c1_def)
  define h where "h = (g_phch d ! 4)\<lparr>symbol_mask := replicate 10 1, nof_re_x_sf := replicate 10 (phich_nregs (g_control d) * 4)\<rparr>"
  define e where "e = d\<lparr>g_phch := (g_phch d)[4 := h]\<rparr>"
  have lend: "length (g_phch d) = 7" using d(3) by (simp add: shape_ok_def)
  have init: "lte_phich_init 4 c = Some (0, e)"
    using len d(1) lend dur
    by (simp add: lte_phich_init_def phch_set par c1_def [symmetric] e_def h_def)
  have ge: "geom e = geom d" and re: "g_regs e = g_regs d" by (simp_all add: e_def geom_def)
  have "ch_only c c1" unfolding c1_def
    by (rule ch_onlyI [where u = 1 and v = "?g" and x = "g_control c1" and y = "g_phch c1"]) (simp_all add: c1_def)
  then have only: "ch_only c e"
    using ctl_ch_only [OF d(2)] ch_only_phch [of d] ch_only_trans unfolding e_def by blast
  have phl: "g_phch e = (g_phch c)[4 := h]" by (simp add: e_def ph c1_def)
  have lp: "length (phich_regs c ?g) = 3 * nat ?g" by (simp add: phich_regs_def phich_items_props)
  show ?thesis
    using init only d(3-8) pr lp phl len alloc_geom [OF ge re]
    by (intro exI [of _ e]) (auto simp: e_def c1_def shape_ok_def)
qed

text \<open>From 73 PRB on the channel has more groups than its table has places.\<close>

lemma lte_grid_init_reg_phich_overflow:
  assumes "cell_ok nc c" "alloc nc c refs" "length refs = 4" "set refs \<subseteq> set (row0 c)" "73 \<le> g_nof_prb c"
    "g_phich_ngroups c = phich_groups c" "g_phich_duration c = 1" "shape_ok c"
  shows "\<exists>n f a. phich_counts c = Some n \<and> each_rc (phich_step n) (take 28 (phich_items (g_phich_ngroups c))) (0, c) = Some (0, 28, f)
    \<and> length (cr_phich (g_control f)) = 28 \<and> phich_find n (phich_items (g_phich_ngroups c) ! 28) f = Some (Some a)
    \<and> set_phich 28 (Some a) f = None \<and> lte_grid_init_reg_phich c = None"
proof -
  let ?g = "g_phich_ngroups c"
  have N: "6 \<le> g_nof_prb c" "g_nof_prb c \<le> 110" using assms(1) by (simp_all add: cell_ok_def)
  have g: "10 \<le> ?g" using zdiv_mono1 [of 80 "g_nof_prb c + 7" 8] assms(5,6) by (simp add: phich_groups_def)
  obtain n1 where n1: "lte_grid_init_reg_phich_countfree 1 c = Some n1" using countfree_eq [of c 1] N by simp
  obtain n2 where n2: "lte_grid_init_reg_phich_countfree 2 c = Some n2" using countfree_eq [of c 2] N by simp
  have n0: "lte_grid_init_reg_phich_countfree 0 c = Some (int (length (free0 c)))"
    using free0_count [OF assms(1,2)] by simp
  have pos: "0 < length (free0 c)"
    using phich_regs_props(1) [OF assms(1-4) refl] N by simp
  have c28: "length (cr_phich (g_control c)) = 28" using assms(8) by (simp add: shape_ok_def)
  have ns: "[int (length (free0 c)), n1, n2] ! 0 = int (length (free0 c))" by simp
  have g28: "28 < 3 * nat ?g" using g by simp
  have g16: "?g \<le> 2 ^ 16" using N(2) assms(6) zdiv_mono1 [of "g_nof_prb c + 7" 117 8] by (simp add: phich_groups_def)
  note loop = phich_loop_overflow [OF assms(1,7) pos c28 ns g28 g16]
  have cnt: "phich_counts c = Some [int (length (free0 c)), n1, n2]" using g by (simp add: phich_counts_def n0 n1 n2)
  have "lte_grid_init_reg_phich c = None" using loop(2) by (simp add: lte_grid_init_reg_phich_def cnt)
  then show ?thesis using loop(1) cnt by blast
qed

text \<open>The configuration with which lte_phich_init calls lte_grid_init_reg_phich.\<close>

definition phich_entry :: "lte_grid_config \<Rightarrow> lte_grid_config" where
  "phich_entry c = c\<lparr>g_phch := (g_phch c)[4 := (g_phch c ! 4)\<lparr>ch_name := ''PHICH''\<rparr>],
    g_phich_duration := 1, g_phich_ngroups := phich_groups c, g_control := (g_control c)\<lparr>phich_nregs := phich_groups c * 3\<rparr>\<rparr>"

lemma lte_phich_init_overflow:
  assumes "cell_ok nc c" "alloc nc c refs" "length refs = 4" "set refs \<subseteq> set (row0 c)" "73 \<le> g_nof_prb c"
    "g_nof_control_symbols c \<noteq> 0" "shape_ok c"
  shows "lte_phich_init 4 c = None"
    "\<exists>n f a. phich_counts (phich_entry c) = Some n
      \<and> each_rc (phich_step n) (take 28 (phich_items (phich_groups c))) (0, phich_entry c) = Some (0, 28, f)
      \<and> length (cr_phich (g_control f)) = 28 \<and> phich_find n (phich_items (phich_groups c) ! 28) f = Some (Some a)
      \<and> set_phich 28 (Some a) f = None"
proof -
  let ?g = "phich_groups c"
  have len: "length (g_phch c) = 7" using assms(7) by (simp add: shape_ok_def)
  define c1 where "c1 = phich_entry c"
  note c1' = c1_def [unfolded phich_entry_def]
  have g: "geom c1 = geom c" and r: "g_regs c1 = g_regs c" by (simp_all add: c1' geom_def)
  have row: "row0 c1 = row0 c" by (simp add: row0_def geom_eq(1) [OF g])
  have N: "0 \<le> g_nof_prb c" using assms(1) by (simp add: cell_ok_def)
  have par: "lte_phich_init_params (c\<lparr>g_phch := (g_phch c)[4 := (g_phch c ! 4)\<lparr>ch_name := ''PHICH''\<rparr>]\<rparr>)
      = (0, c\<lparr>g_phch := (g_phch c)[4 := (g_phch c ! 4)\<lparr>ch_name := ''PHICH''\<rparr>], g_phich_duration := 1, g_phich_ngroups := ?g\<rparr>)"
    using N assms(6) by (simp add: lte_phich_init_params_def phich_groups_def cdiv_nonneg add.commute)
  have ng: "g_phich_ngroups c1 = phich_groups c1" "g_phich_ngroups c1 = ?g" "g_phich_duration c1 = 1" "shape_ok c1"
    using assms(7) by (simp_all add: c1' phich_groups_def shape_ok_def)
  have "cell_ok nc c1" "alloc nc c1 refs" "set refs \<subseteq> set (row0 c1)" "73 \<le> g_nof_prb c1"
    using assms(1,2,4,5) cell_ok_geom [OF g] alloc_geom [OF g r] row geom_eq(1) [OF g] by simp_all
  then obtain n f a where over: "phich_counts c1 = Some n" "each_rc (phich_step n) (take 28 (phich_items ?g)) (0, c1) = Some (0, 28, f)"
      "length (cr_phich (g_control f)) = 28" "phich_find n (phich_items ?g ! 28) f = Some (Some a)" "set_phich 28 (Some a) f = None"
      "lte_grid_init_reg_phich c1 = None"
    using lte_grid_init_reg_phich_overflow [OF _ _ assms(3) _ _ ng(1,3,4)] unfolding ng(2) by blast
  then show "\<exists>n f a. phich_counts (phich_entry c) = Some n
      \<and> each_rc (phich_step n) (take 28 (phich_items ?g)) (0, phich_entry c) = Some (0, 28, f)
      \<and> length (cr_phich (g_control f)) = 28 \<and> phich_find n (phich_items ?g ! 28) f = Some (Some a)
      \<and> set_phich 28 (Some a) f = None" unfolding c1_def by blast
  show "lte_phich_init 4 c = None"
    using len over(6) by (simp add: lte_phich_init_def phch_set par c1' [symmetric])
qed

section \<open>PDCCH\<close>

text \<open>The groups whose search position lies before (k, l) are taken.\<close>

definition scanned :: "nat \<Rightarrow> reg_ref list \<Rightarrow> int \<Rightarrow> int \<Rightarrow> lte_grid_config \<Rightarrow> bool" where
  "scanned nc refs k l c \<longleftrightarrow> (\<forall>k' l'. 0 \<le> k' \<and> k' < 12 * g_nof_prb c \<and> l' < nc \<and> (k' < k \<or> k' = k \<and> int l' < l)
     \<longrightarrow> reg_cover k' l' c \<in> set refs)"

lemma reg_cover_start:
  assumes "in_region nc c (p, l, r)"
  shows "reg_cover (reg_start (p, l, r) c) l c = (p, l, r)" "0 \<le> reg_start (p, l, r) c"
    "reg_start (p, l, r) c < 12 * g_nof_prb c" "l < nc"
proof -
  let ?w = "reg_width l c"
  have w: "0 < ?w" "int r * ?w + ?w \<le> 12" "0 \<le> int r * ?w"
    using assms reg_num_cases [of "int l" c] by (auto simp: in_region_def reg_width_def)
  define b where "b = int r * ?w"
  have "(12 * int p + b) div 12 = int p" "(12 * int p + b) mod 12 = b" using w by (simp_all add: b_def)
  moreover have "b div ?w = int r" using w(1) by (simp add: b_def)
  ultimately show "reg_cover (reg_start (p, l, r) c) l c = (p, l, r)"
    by (simp add: reg_cover_def reg_start_def b_def)
  show "0 \<le> reg_start (p, l, r) c" "reg_start (p, l, r) c < 12 * g_nof_prb c" "l < nc"
    using assms w by (auto simp: reg_start_def in_region_def)
qed

lemma scanned_all:
  assumes "scanned nc refs (12 * g_nof_prb c) 0 c" "in_region nc c a"
  shows "a \<in> set refs"
proof -
  obtain p l r where a: "a = (p, l, r)" by (cases a)
  show ?thesis using assms(1) reg_cover_start [of nc c p l r] assms(2) unfolding a scanned_def by metis
qed

lemma scanned_next:
  assumes "scanned nc refs k (int l) c" "reg_cover k l c \<in> set refs"
  shows "scanned nc refs k (int (Suc l)) c" and "Suc l = nc \<Longrightarrow> scanned nc refs (k + 1) 0 c"
proof -
  show *: "scanned nc refs k (int (Suc l)) c"
    using assms unfolding scanned_def by (metis less_Suc_eq of_nat_less_iff)
  show "scanned nc refs (k + 1) 0 c" if "Suc l = nc"
    using * that unfolding scanned_def by (smt (verit) of_nat_less_iff of_nat_less_0_iff)
qed

lemma pdcch_find_free:
  assumes "alloc nc c refs" "cell_ok nc c" "g_nof_control_symbols c = int nc"
    "in_region nc c b" "b \<notin> set refs"
  shows "0 \<le> k \<Longrightarrow> k < 12 * g_nof_prb c \<Longrightarrow> 0 \<le> l \<Longrightarrow> l < int nc \<Longrightarrow> scanned nc refs k l c
    \<Longrightarrow> \<exists>a k1 l1. pdcch_find k l c = Some (Some (a, k1, l1)) \<and> in_region nc c a \<and> a \<notin> set refs
      \<and> 0 \<le> k1 \<and> k1 < 12 * g_nof_prb c \<and> 0 \<le> l1 \<and> l1 < int nc \<and> scanned nc refs k1 l1 c"
proof (induction "nat (12 * g_nof_prb c - k) * (nc + 1) + nat (int nc - l)" arbitrary: k l rule: less_induct)
  case less
  let ?a = "reg_cover k (nat l) c"
  have nc: "nc \<le> 4" "g_nof_prb c \<le> 110" using assms(2) by (simp_all add: cell_ok_def)
  have get: "lte_reg_get_k k l c = Some (Some ?a)"
    using lte_reg_get_k_alloc [OF assms(1) less.prems(1,2) nc(2) _ nc(1), of "nat l"] less.prems by simp
  have reg: "in_region nc c ?a" using reg_cover_region less.prems by simp
  note asg = alloc_assigned [OF assms(1) reg]
  show ?case
  proof (cases "?a \<in> set refs")
    case False
    then show ?thesis using get asg reg less.prems by (subst pdcch_find.simps) simp
  next
    case True
    note nx = scanned_next [of nc refs k "nat l" c, OF _ True]
    have s: "scanned nc refs k (int (nat l)) c" using less.prems by simp
    show ?thesis
    proof (cases "l + 1 = int nc")
      case False
      have "pdcch_find k l c = pdcch_find k (l + 1) c"
        using get asg True False assms(3) by (subst pdcch_find.simps) simp
      moreover have "scanned nc refs k (l + 1) c" using nx(1) [OF s] less.prems(3) by (simp add: add.commute)
      ultimately show ?thesis using less.hyps [of k "l + 1"] less.prems False by simp
    next
      case l: True
      then have sc: "scanned nc refs (k + 1) 0 c" using nx(2) [OF s] less.prems(3) by (simp add: nat_eq_iff)
      have k: "k + 1 \<noteq> g_nof_prb c * 12"
        using scanned_all [of nc refs c b] sc assms(4,5) by (metis mult.commute)
      then have "pdcch_find k l c = pdcch_find (k + 1) 0 c"
        using get asg True l assms(3) by (subst pdcch_find.simps) simp
      moreover have "nat (12 * g_nof_prb c - (k + 1)) * (nc + 1) + nat (int nc - 0)
          < nat (12 * g_nof_prb c - k) * (nc + 1) + nat (int nc - l)"
      proof -
        have "nat (12 * g_nof_prb c - k) = Suc (nat (12 * g_nof_prb c - (k + 1)))" using less.prems by simp
        then show ?thesis using less.prems by simp
      qed
      ultimately show ?thesis using less.hyps [of "k + 1" 0] less.prems k sc by simp
    qed
  qed
qed

definition pdcch_items :: "int \<Rightarrow> (int \<times> int) list" where
  "pdcch_items m = [(i, j). i \<leftarrow> below m, j \<leftarrow> below 9]"

lemma pdcch_items_props: "set (pdcch_items m) = {(i, j). 0 \<le> i \<and> i < m \<and> 0 \<le> j \<and> j < 9}"
  "distinct (pdcch_items m)" "length (pdcch_items m) = 9 * nat m"
proof -
  show "set (pdcch_items m) = {(i, j). 0 \<le> i \<and> i < m \<and> 0 \<le> j \<and> j < 9}"
    by (auto simp: pdcch_items_def)
  have "distinct [(x, y). x \<leftarrow> map int [0..<n], y \<leftarrow> below 9]"
     "length [(x, y). x \<leftarrow> map int [0..<n], y \<leftarrow> below 9] = n * 9" for n :: nat
    by (induction n) (auto simp: distinct_map inj_on_def below_def)
  then show "distinct (pdcch_items m)" "length (pdcch_items m) = 9 * nat m"
    by (simp_all add: pdcch_items_def mult.commute below_def [of m])
qed

definition cce_shaped :: "lte_pdcch \<Rightarrow> bool" where
  "cce_shaped h \<longleftrightarrow> length (pc_cce h) = 8 \<and> (\<forall>row\<in>set (pc_cce h). length row = 9)"

lemma set_cce_eq:
  assumes "cce_shaped h" "0 \<le> i" "i < 8" "0 \<le> j" "j < 9"
  shows "\<exists>h'. set_cce i j a h = Some h' \<and> cce_shaped h' \<and> h' = h\<lparr>pc_cce := pc_cce h'\<rparr>
    \<and> (\<forall>i' j'. cce_reg h' i' j' = (if i' = i \<and> j' = j then Some (Some a) else cce_reg h i' j'))"
proof -
  let ?rows = "(pc_cce h)[nat i := (pc_cce h ! nat i)[nat j := Some a]]"
  let ?h' = "h\<lparr>pc_cce := ?rows\<rparr>"
  have len: "length (pc_cce h) = 8" "length (pc_cce h ! nat i) = 9" using assms by (auto simp: cce_shaped_def)
  have "set_cce i j a h = Some ?h'"
    using assms len by (simp add: set_cce_def peek_def poke_def)
  moreover have "cce_shaped ?h'"
    using assms(1) len by (auto simp: cce_shaped_def dest!: set_update_subset_insert [THEN subsetD])
  moreover have "cce_reg ?h' i' j' = (if i' = i \<and> j' = j then Some (Some a) else cce_reg h i' j')" for i' j'
    using assms len by (auto simp: cce_reg_def peek_def nth_list_update eq_nat_nat_iff split: bind_splits)
  ultimately show ?thesis by (intro exI [of _ ?h']) simp
qed

text \<open>A state that differs in the control region and the control channels only.\<close>

definition pd_only :: "lte_grid_config \<Rightarrow> lte_grid_config \<Rightarrow> bool" where
  "pd_only c d \<longleftrightarrow> (\<exists>x y. d = c\<lparr>g_control := x, g_pdcch := y\<rparr>)
     \<and> cr_pcfich (g_control d) = cr_pcfich (g_control c) \<and> cr_phich (g_control d) = cr_phich (g_control c)
     \<and> pcfich_nregs (g_control d) = pcfich_nregs (g_control c) \<and> phich_nregs (g_control d) = phich_nregs (g_control c)
     \<and> length (g_pdcch d) = length (g_pdcch c)"

lemma pd_only_refl [simp]: "pd_only c c"
  unfolding pd_only_def by (intro conjI exI [of _ "g_control c"] exI [of _ "g_pdcch c"]) simp_all

lemma pd_onlyI:
  "d = c\<lparr>g_control := x, g_pdcch := y\<rparr> \<Longrightarrow> length y = length (g_pdcch c)
    \<Longrightarrow> cr_pcfich x = cr_pcfich (g_control c) \<Longrightarrow> cr_phich x = cr_phich (g_control c)
    \<Longrightarrow> pcfich_nregs x = pcfich_nregs (g_control c) \<Longrightarrow> phich_nregs x = phich_nregs (g_control c) \<Longrightarrow> pd_only c d"
  unfolding pd_only_def by (intro conjI exI [of _ x] exI [of _ y]) simp_all

lemma pd_only_trans:
  assumes "pd_only c d" "pd_only d e"
  shows "pd_only c e"
proof -
  from assms obtain x y x' y' where "d = c\<lparr>g_control := x, g_pdcch := y\<rparr>" "e = d\<lparr>g_control := x', g_pdcch := y'\<rparr>"
    by (auto simp: pd_only_def)
  then show ?thesis using assms by (intro pd_onlyI [where x = x' and y = y']) (simp_all add: pd_only_def)
qed

lemma pd_only_geom: "pd_only c d \<Longrightarrow> geom d = geom c"
  by (auto simp: pd_only_def geom_def)

lemma pd_only_fields:
  "pd_only c d \<Longrightarrow> g_nof_pdcch d = g_nof_pdcch c" "pd_only c d \<Longrightarrow> g_phch d = g_phch c"
  "pd_only c d \<Longrightarrow> g_pdsch d = g_pdsch c" "pd_only c d \<Longrightarrow> g_nof_pdsch d = g_nof_pdsch c"
  "pd_only c d \<Longrightarrow> g_cfi d = g_cfi c" "pd_only c d \<Longrightarrow> length (g_pdcch d) = length (g_pdcch c)"
  "pd_only c d \<Longrightarrow> g_post_guard d = g_post_guard c"
  "pd_only c d \<Longrightarrow> cr_pcfich (g_control d) = cr_pcfich (g_control c)"
  "pd_only c d \<Longrightarrow> cr_phich (g_control d) = cr_phich (g_control c)"
  "pd_only c d \<Longrightarrow> pcfich_nregs (g_control d) = pcfich_nregs (g_control c)"
  "pd_only c d \<Longrightarrow> phich_nregs (g_control d) = phich_nregs (g_control c)"
  by (auto simp: pd_only_def)

definition region_size :: "nat \<Rightarrow> lte_grid_config \<Rightarrow> nat" where
  "region_size nc c = card {a. in_region nc c a}"

lemma alloc_free:
  assumes "alloc nc c refs" "length refs < region_size nc c"
  shows "\<exists>b. in_region nc c b \<and> b \<notin> set refs"
proof (rule ccontr)
  assume "\<not> ?thesis"
  then have "{a. in_region nc c a} \<subseteq> set refs" by auto
  then have "region_size nc c \<le> card (set refs)" unfolding region_size_def by (rule card_mono [rotated]) simp
  also have "\<dots> \<le> length refs" by (rule card_length)
  finally show False using assms(2) by simp
qed

lemma region_size_geom: "geom c = geom d \<Longrightarrow> region_size nc c = region_size nc d"
  by (simp add: region_size_def in_region_geom [of c d])

lemma scanned_more: "scanned nc refs k l c \<Longrightarrow> geom c = geom d \<Longrightarrow> scanned nc (refs @ new) k l d"
  by (simp add: scanned_def reg_cover_def reg_width_def geom_eq [of c d] reg_num_geom [of c d])

definition pdcch_step :: "int \<Rightarrow> int \<times> int \<Rightarrow> int \<times> int \<times> lte_grid_config \<Rightarrow> (int \<times> int \<times> int \<times> lte_grid_config) option" where
  "pdcch_step idx = (\<lambda>(i, j) (k, l, c). do {
       f \<leftarrow> pdcch_find k l c;
       case f of None \<Rightarrow> Some (-1, k, l, c)
       | Some (a, k1, l1) \<Rightarrow> do {
           let c' = set_assigned a c;
           h \<leftarrow> peek (g_pdcch c') idx;
           h1 \<leftarrow> set_cce i j a h;
           c'' \<leftarrow> set_pdcch idx h1 c';
           Some (0, k1, l1, c'') } })"

text \<open>What holds after n groups were given to channel idx.\<close>

definition pdcch_inv :: "nat \<Rightarrow> lte_grid_config \<Rightarrow> reg_ref list \<Rightarrow> nat \<Rightarrow> int \<Rightarrow> int \<Rightarrow> int \<Rightarrow> lte_grid_config \<Rightarrow> reg_ref list \<Rightarrow> bool" where
  "pdcch_inv nc c refs idx m k l d new \<longleftrightarrow>
     pd_only c d \<and> alloc nc d (refs @ new) \<and> 0 \<le> k \<and> k < 12 * g_nof_prb c \<and> 0 \<le> l \<and> l < int nc
     \<and> scanned nc (refs @ new) k l d \<and> cce_shaped (g_pdcch d ! idx)
     \<and> (\<forall>t<length new. case pdcch_items m ! t of (i, j) \<Rightarrow> cce_reg (g_pdcch d ! idx) i j = Some (Some (new ! t)))
     \<and> g_pdcch d ! idx = (g_pdcch c ! idx)\<lparr>pc_cce := pc_cce (g_pdcch d ! idx)\<rparr>
     \<and> (\<forall>i. i \<noteq> idx \<longrightarrow> g_pdcch d ! i = g_pdcch c ! i)"

lemma pdcch_step_inv:
  assumes c: "cell_ok nc c" "g_nof_control_symbols c = int nc" "idx < length (g_pdcch c)" "m \<le> 8"
      "length refs + length (pdcch_items m) \<le> region_size nc c"
    and inv: "pdcch_inv nc c refs idx m k l d new" and n: "length new < length (pdcch_items m)"
  shows "\<exists>a k' l' d'. pdcch_step (int idx) (pdcch_items m ! length new) (k, l, d) = Some (0, k', l', d')
    \<and> pdcch_inv nc c refs idx m k' l' d' (new @ [a])"
proof -
  let ?n = "length new" and ?h = "g_pdcch d ! idx"
  from inv have only: "pd_only c d" and al: "alloc nc d (refs @ new)" and sc: "scanned nc (refs @ new) k l d"
    and kl: "0 \<le> k" "k < 12 * g_nof_prb c" "0 \<le> l" "l < int nc" and sh: "cce_shaped ?h"
    and ptr: "\<forall>t<?n. case pdcch_items m ! t of (i, j) \<Rightarrow> cce_reg ?h i j = Some (Some (new ! t))"
    and hh: "?h = (g_pdcch c ! idx)\<lparr>pc_cce := pc_cce ?h\<rparr>" and oth: "\<forall>i. i \<noteq> idx \<longrightarrow> g_pdcch d ! i = g_pdcch c ! i"
    unfolding pdcch_inv_def by - (elim conjE, assumption)+
  note g = pd_only_geom [OF only]
  have ok: "cell_ok nc d" "g_nof_control_symbols d = int nc" "g_nof_prb d = g_nof_prb c" "lte_reg_num 0 d = 2"
    using c(1,2) geom_eq [OF g] reg_num_geom [OF g] by (simp_all add: cell_ok_def)
  obtain b where b: "in_region nc d b" "b \<notin> set (refs @ new)"
    using alloc_free [OF al] c(5) n region_size_geom [OF g] by auto
  obtain a k' l' where f: "pdcch_find k l d = Some (Some (a, k', l'))" "in_region nc d a" "a \<notin> set (refs @ new)"
      "0 \<le> k'" "k' < 12 * g_nof_prb d" "0 \<le> l'" "l' < int nc" "scanned nc (refs @ new) k' l' d"
    using pdcch_find_free [OF al ok(1,2) b, of k l] kl sc ok(3) by auto
  obtain i j where ij: "pdcch_items m ! ?n = (i, j)" by (cases "pdcch_items m ! ?n")
  have ijb: "0 \<le> i" "i < 8" "0 \<le> j" "j < 9"
    using nth_mem [OF n] ij c(4) by (auto simp: pdcch_items_props)
  obtain h' where h': "set_cce i j a ?h = Some h'" "cce_shaped h'" "h' = ?h\<lparr>pc_cce := pc_cce h'\<rparr>"
      "\<And>i' j'. cce_reg h' i' j' = (if i' = i \<and> j' = j then Some (Some a) else cce_reg ?h i' j')"
    using set_cce_eq [OF sh ijb] by metis
  define d' where "d' = (set_assigned a d)\<lparr>g_pdcch := (g_pdcch d)[idx := h']\<rparr>"
  have len: "idx < length (g_pdcch d)" using pd_only_fields(6) [OF only] c(3) by simp
  have pdk: "g_pdcch (set_assigned a d) = g_pdcch d" by (simp add: set_assigned_def set_reg_def)
  have step: "pdcch_step (int idx) (pdcch_items m ! ?n) (k, l, d) = Some (0, k', l', d')"
    using f(1) h'(1) len by (simp add: pdcch_step_def ij pdk peek_def set_pdcch_def poke_def d'_def)
  have gd': "geom d' = geom (set_assigned a d)" and rd': "g_regs d' = g_regs (set_assigned a d)"
    by (simp_all add: d'_def geom_def)
  have "alloc nc d' (refs @ new @ [a])"
    using alloc_take [OF al f(2,3) ok(4)] alloc_geom [OF gd' rd'] by simp
  moreover have "pd_only d d'"
    by (rule pd_onlyI [where x = "g_control (set_assigned a d)" and y = "(g_pdcch d)[idx := h']"])
      (simp_all add: d'_def set_assigned_control, simp add: set_assigned_def set_reg_def)
  then have "pd_only c d'" using only pd_only_trans by blast
  moreover have "scanned nc (refs @ new @ [a]) k' l' d'"
    using scanned_more [OF f(8), of d' "[a]"] gd' by simp
  moreover have "g_pdcch d' ! idx = h'" "\<And>i. i \<noteq> idx \<Longrightarrow> g_pdcch d' ! i = g_pdcch c ! i"
    using len oth by (simp_all add: d'_def)
  moreover have "case pdcch_items m ! t of (i', j') \<Rightarrow> cce_reg h' i' j' = Some (Some ((new @ [a]) ! t))" if "t < Suc ?n" for t
  proof (cases "t = ?n")
    case True
    then show ?thesis using ij h'(4) by simp
  next
    case False
    then have t: "t < ?n" using that by simp
    then have "pdcch_items m ! t \<noteq> pdcch_items m ! ?n"
      using n by (simp add: nth_eq_iff_index_eq [OF pdcch_items_props(2)])
    then show ?thesis using ptr [rule_format, OF t] t ij h'(4) by (auto simp: nth_append split: prod.splits)
  qed
  moreover have "h' = (g_pdcch c ! idx)\<lparr>pc_cce := pc_cce h'\<rparr>"
    by (subst h'(3), subst hh) simp
  ultimately have "pdcch_inv nc c refs idx m k' l' d' (new @ [a])"
    unfolding pdcch_inv_def using f(4-7) h'(2) ok(3) by simp
  then show ?thesis using step by blast
qed

lemma pdcch_loop:
  assumes c: "alloc nc c refs" "cell_ok nc c" "g_nof_control_symbols c = int nc" "idx < length (g_pdcch c)" "m \<le> 8"
      "length refs + length (pdcch_items m) \<le> region_size nc c" "cce_shaped (g_pdcch c ! idx)"
    and "n \<le> length (pdcch_items m)"
  shows "\<exists>k l d new. each_rc (pdcch_step (int idx)) (take n (pdcch_items m)) (0, 0, c) = Some (0, k, l, d)
    \<and> length new = n \<and> pdcch_inv nc c refs idx m k l d new"
  using \<open>n \<le> length (pdcch_items m)\<close>
proof (induction n)
  case 0
  have "pdcch_inv nc c refs idx m 0 0 c []"
    using c(1,2,7) by (auto simp: pdcch_inv_def cell_ok_def scanned_def)
  then show ?case by (intro exI [of _ "[]"] exI conjI) simp_all
next
  case (Suc n)
  then obtain k l d new where IH: "each_rc (pdcch_step (int idx)) (take n (pdcch_items m)) (0, 0, c) = Some (0, k, l, d)"
    "length new = n" "pdcch_inv nc c refs idx m k l d new" by auto
  obtain a k' l' d' where st: "pdcch_step (int idx) (pdcch_items m ! n) (k, l, d) = Some (0, k', l', d')"
    "pdcch_inv nc c refs idx m k' l' d' (new @ [a])"
    using pdcch_step_inv [OF c(2-6) IH(3)] IH(2) Suc.prems by auto
  have "each_rc (pdcch_step (int idx)) (take (Suc n) (pdcch_items m)) (0, 0, c) = Some (0, k', l', d')"
    using Suc.prems IH(1) st(1) by (simp add: take_Suc_conv_app_nth each_rc_append)
  then show ?case using st(2) IH(2) by (intro exI [of _ "new @ [a]"] exI conjI) simp_all
qed

text \<open>Channel h holds the groups new, nine for each CCE.\<close>

definition pdcch_holds :: "lte_pdcch \<Rightarrow> reg_ref list \<Rightarrow> bool" where
  "pdcch_holds h new \<longleftrightarrow> length new = 9 * nat (pc_nof_cce h) \<and> pc_nof_re h = 36 * pc_nof_cce h
     \<and> pc_nof_bits h = 72 * pc_nof_cce h
     \<and> (\<forall>t<length new. case pdcch_items (pc_nof_cce h) ! t of (i, j) \<Rightarrow> cce_reg h i j = Some (Some (new ! t)))"

lemma lte_grid_init_reg_pdcch_steps:
  "lte_grid_init_reg_pdcch idx c0 = do {
     h0 \<leftarrow> peek (g_pdcch c0) idx;
     let nr = 9 * pc_nof_cce h0;
     c1 \<leftarrow> set_pdcch idx (h0\<lparr>pc_nof_regs := nr, pc_nof_re := 4 * nr, pc_nof_bits := 4 * nr * 2\<rparr>) c0;
     (r, k, l, c2) \<leftarrow> each_rc (pdcch_step idx) (pdcch_items (pc_nof_cce h0)) (0, 0, c1);
     Some (r, c2) }"
  unfolding lte_grid_init_reg_pdcch_def pdcch_step_def pdcch_items_def ..

lemma lte_grid_init_reg_pdcch_alloc:
  assumes c: "alloc nc c refs" "cell_ok nc c" "g_nof_control_symbols c = int nc" "idx < length (g_pdcch c)"
      "cce_shaped (g_pdcch c ! idx)" "pc_nof_cce (g_pdcch c ! idx) \<le> 8"
      "length refs + 9 * nat (pc_nof_cce (g_pdcch c ! idx)) \<le> region_size nc c"
  shows "\<exists>d new. lte_grid_init_reg_pdcch (int idx) c = Some (0, d) \<and> pd_only c d \<and> alloc nc d (refs @ new)
    \<and> pdcch_holds (g_pdcch d ! idx) new \<and> cce_shaped (g_pdcch d ! idx)
    \<and> pc_nof_cce (g_pdcch d ! idx) = pc_nof_cce (g_pdcch c ! idx) \<and> (\<forall>i. i \<noteq> idx \<longrightarrow> g_pdcch d ! i = g_pdcch c ! i)"
proof -
  let ?m = "pc_nof_cce (g_pdcch c ! idx)"
  define h where "h = (g_pdcch c ! idx)\<lparr>pc_nof_regs := 9 * ?m, pc_nof_re := 4 * (9 * ?m), pc_nof_bits := 4 * (9 * ?m) * 2\<rparr>"
  define c1 where "c1 = c\<lparr>g_pdcch := (g_pdcch c)[idx := h]\<rparr>"
  have g: "geom c1 = geom c" and r: "g_regs c1 = g_regs c" by (simp_all add: c1_def geom_def)
  have h1: "g_pdcch c1 ! idx = h" using c(4) by (simp add: c1_def)
  have ok: "alloc nc c1 refs" "cell_ok nc c1" "g_nof_control_symbols c1 = int nc" "idx < length (g_pdcch c1)" "?m \<le> 8"
      "length refs + length (pdcch_items ?m) \<le> region_size nc c1" "cce_shaped (g_pdcch c1 ! idx)"
    using c alloc_geom [OF g r] cell_ok_geom [OF g] region_size_geom [OF g]
    by (simp_all add: c1_def pdcch_items_props cce_shaped_def h_def)
  obtain k l d new where loop: "each_rc (pdcch_step (int idx)) (take (length (pdcch_items ?m)) (pdcch_items ?m)) (0, 0, c1) = Some (0, k, l, d)"
      "length new = length (pdcch_items ?m)" "pdcch_inv nc c1 refs idx ?m k l d new"
    using pdcch_loop [OF ok order_refl] by blast
  have init: "lte_grid_init_reg_pdcch (int idx) c = Some (0, d)"
    using loop(1) c(4)
    by (simp add: lte_grid_init_reg_pdcch_steps peek_def set_pdcch_def poke_def h_def c1_def)
  have only: "pd_only c c1"
    by (rule pd_onlyI [where x = "g_control c" and y = "(g_pdcch c)[idx := h]"]) (simp_all add: c1_def)
  have inv: "pd_only c1 d" "alloc nc d (refs @ new)" "cce_shaped (g_pdcch d ! idx)"
      "\<forall>t<length new. case pdcch_items ?m ! t of (i, j) \<Rightarrow> cce_reg (g_pdcch d ! idx) i j = Some (Some (new ! t))"
      "g_pdcch d ! idx = h\<lparr>pc_cce := pc_cce (g_pdcch d ! idx)\<rparr>" "\<forall>i. i \<noteq> idx \<longrightarrow> g_pdcch d ! i = g_pdcch c1 ! i"
    using loop(3) unfolding pdcch_inv_def h1 by - (elim conjE, assumption)+
  have f: "pc_nof_cce (g_pdcch d ! idx) = ?m" "pc_nof_re (g_pdcch d ! idx) = 36 * ?m" "pc_nof_bits (g_pdcch d ! idx) = 72 * ?m"
    by (subst inv(5), simp add: h_def)+
  have "pdcch_holds (g_pdcch d ! idx) new"
    using loop(2) inv(4) unfolding pdcch_holds_def f by (simp add: pdcch_items_props)
  moreover have "\<forall>i. i \<noteq> idx \<longrightarrow> g_pdcch d ! i = g_pdcch c ! i" using inv(6) by (simp add: c1_def)
  ultimately show ?thesis using init pd_only_trans [OF only inv(1)] inv(2,3) f(1) by blast
qed

lemma pdcch_channels:
  assumes c: "alloc nc c refs" "cell_ok nc c" "g_nof_control_symbols c = int nc" "P \<le> length (g_pdcch c)"
      "\<forall>i<P. cce_shaped (g_pdcch c ! i) \<and> pc_nof_cce (g_pdcch c ! i) \<le> 8"
      "length refs + (\<Sum>i<P. 9 * nat (pc_nof_cce (g_pdcch c ! i))) \<le> region_size nc c"
    and "p \<le> P"
  shows "\<exists>d news. each_rc lte_grid_init_reg_pdcch (below (int p)) c = Some (0, d) \<and> pd_only c d \<and> length news = p
    \<and> alloc nc d (refs @ concat news) \<and> (\<forall>i<p. pdcch_holds (g_pdcch d ! i) (news ! i))
    \<and> (\<forall>i. pc_nof_cce (g_pdcch d ! i) = pc_nof_cce (g_pdcch c ! i))
    \<and> (\<forall>i. p \<le> i \<longrightarrow> g_pdcch d ! i = g_pdcch c ! i)
    \<and> length (concat news) = (\<Sum>i<p. 9 * nat (pc_nof_cce (g_pdcch c ! i)))"
  using \<open>p \<le> P\<close>
proof (induction p)
  case 0
  then show ?case using c(1) by (intro exI [of _ "[]"] exI [of _ c]) simp
next
  case (Suc p)
  let ?s = "\<lambda>p. \<Sum>i<p. 9 * nat (pc_nof_cce (g_pdcch c ! i))"
  from Suc obtain d news where d: "each_rc lte_grid_init_reg_pdcch (below (int p)) c = Some (0, d)" "pd_only c d" "length news = p"
    "alloc nc d (refs @ concat news)" "\<forall>i<p. pdcch_holds (g_pdcch d ! i) (news ! i)"
    "\<forall>i. pc_nof_cce (g_pdcch d ! i) = pc_nof_cce (g_pdcch c ! i)"
    "\<forall>i. p \<le> i \<longrightarrow> g_pdcch d ! i = g_pdcch c ! i" "length (concat news) = ?s p" by auto
  note g = pd_only_geom [OF d(2)]
  have "?s (Suc p) \<le> ?s P" using Suc.prems by (intro sum_mono2) auto
  then have room: "length (refs @ concat news) + 9 * nat (pc_nof_cce (g_pdcch d ! p)) \<le> region_size nc d"
    using c(6) d(6,8) region_size_geom [OF g] by simp
  have "cce_shaped (g_pdcch d ! p)" "pc_nof_cce (g_pdcch d ! p) \<le> 8" using c(5) d(7) Suc.prems by auto
  then obtain e new where e: "lte_grid_init_reg_pdcch (int p) d = Some (0, e)" "pd_only d e" "alloc nc e ((refs @ concat news) @ new)"
    "pdcch_holds (g_pdcch e ! p) new" "pc_nof_cce (g_pdcch e ! p) = pc_nof_cce (g_pdcch d ! p)"
    "\<forall>i. i \<noteq> p \<longrightarrow> g_pdcch e ! i = g_pdcch d ! i"
    using lte_grid_init_reg_pdcch_alloc [OF d(4), of p] room Suc.prems c(2-4) cell_ok_geom [OF g] geom_eq(5) [OF g]
      pd_only_fields(6) [OF d(2)] by auto
  have "length new = 9 * nat (pc_nof_cce (g_pdcch c ! p))" using e(4,5) d(6) by (simp add: pdcch_holds_def)
  moreover have "pdcch_holds (g_pdcch e ! i) ((news @ [new]) ! i)" if "i < Suc p" for i
    using that d(3,5) e(4,6) by (auto simp: nth_append less_Suc_eq)
  moreover have "pc_nof_cce (g_pdcch e ! i) = pc_nof_cce (g_pdcch c ! i)" for i
    using e(5,6) d(6) by (cases "i = p") auto
  moreover have "g_pdcch e ! i = g_pdcch c ! i" if "Suc p \<le> i" for i using that e(6) d(7) by auto
  moreover have "each_rc lte_grid_init_reg_pdcch (below (int (Suc p))) c = Some (0, e)"
    using d(1) e(1) unfolding below_Suc by (simp add: each_rc_append)
  ultimately show ?case
    using pd_only_trans [OF d(2) e(2)] e(3) d(3,8) by (intro exI [of _ e] exI [of _ "news @ [new]"]) simp
qed

section \<open>Initialisation of the channels before PDSCH\<close>

text \<open>The value of a parameter: the one given, or the one of the configuration.\<close>

definition param :: "pget \<Rightarrow> string \<Rightarrow> int \<Rightarrow> int" where
  "param pg name v = (case pg name of None \<Rightarrow> v | Some w \<Rightarrow> w)"

definition pdcchs :: "pget \<Rightarrow> lte_grid_config \<Rightarrow> nat" where
  "pdcchs pg c = nat (param pg ''nof_pdcch'' (g_nof_pdcch c))"

definition cces :: "pget \<Rightarrow> lte_grid_config \<Rightarrow> nat \<Rightarrow> int" where
  "cces pg c i = param pg (''pdcch_nofcce_'' @ dec_str i) (pc_nof_cce (g_pdcch c ! i))"

definition pdcch_params_ok :: "pget \<Rightarrow> lte_grid_config \<Rightarrow> bool" where
  "pdcch_params_ok pg c \<longleftrightarrow> 0 \<le> param pg ''nof_pdcch'' (g_nof_pdcch c) \<and> pdcchs pg c \<le> 20
     \<and> length (g_pdcch c) = 20 \<and> (\<forall>i<20. cce_shaped (g_pdcch c ! i)) \<and> (\<forall>i<pdcchs pg c. 0 \<le> cces pg c i \<and> cces pg c i \<le> 8)"

definition mid_only :: "lte_grid_config \<Rightarrow> lte_grid_config \<Rightarrow> bool" where
  "mid_only c d \<longleftrightarrow> (\<exists>u v w x y z. d = c\<lparr>g_phich_duration := u, g_phich_ngroups := v, g_control := x, g_phch := y, g_pdcch := z, g_nof_pdcch := w\<rparr>)"

lemma mid_onlyI:
  "d = c\<lparr>g_phich_duration := u, g_phich_ngroups := v, g_control := x, g_phch := y, g_pdcch := z, g_nof_pdcch := w\<rparr> \<Longrightarrow> mid_only c d"
  unfolding mid_only_def by (intro exI [of _ u] exI [of _ v] exI [of _ w] exI [of _ x] exI [of _ y] exI [of _ z])

lemma mid_only_trans:
  assumes "mid_only c d" "mid_only d e"
  shows "mid_only c e"
proof -
  from assms obtain u v w x y z u' v' w' x' y' z' where
    "d = c\<lparr>g_phich_duration := u, g_phich_ngroups := v, g_control := x, g_phch := y, g_pdcch := z, g_nof_pdcch := w\<rparr>"
    "e = d\<lparr>g_phich_duration := u', g_phich_ngroups := v', g_control := x', g_phch := y', g_pdcch := z', g_nof_pdcch := w'\<rparr>"
    unfolding mid_only_def by blast
  then show ?thesis by (intro mid_onlyI [where u = u' and v = v' and w = w' and x = x' and y = y' and z = z']) simp
qed

lemma ch_mid_only: "ch_only c d \<Longrightarrow> mid_only c d"
  by (erule ch_onlyE, rule mid_onlyI [where z = "g_pdcch c" and w = "g_nof_pdcch c"]) simp

lemma pd_mid_only: "pd_only c d \<Longrightarrow> mid_only c d"
  unfolding pd_only_def
  by (elim conjE exE, rule mid_onlyI [where u = "g_phich_duration c" and v = "g_phich_ngroups c" and y = "g_phch c" and w = "g_nof_pdcch c"]) simp

lemma mid_only_fields:
  "mid_only c d \<Longrightarrow> geom d = geom c" "mid_only c d \<Longrightarrow> g_pdsch d = g_pdsch c"
  "mid_only c d \<Longrightarrow> g_nof_pdsch d = g_nof_pdsch c"
  "mid_only c d \<Longrightarrow> g_post_guard d = g_post_guard c" "mid_only c d \<Longrightarrow> g_cfi d = g_cfi c"
  by (auto simp: mid_only_def geom_def)

definition half :: "lte_grid_config \<Rightarrow> nat" where
  "half c = nat (cdiv (g_nof_osymb c) 2)"

definition pbch_cfg :: "lte_grid_config \<Rightarrow> lte_phch_config" where
  "pbch_cfg c = \<lparr>ch_name = ''PBCH'', symbol_mask = (replicate 10 0)[0 := word_of_int (push_bit (half c) 15)],
     nof_re_x_sf = (replicate 10 0)[0 := 240]\<rparr>"

definition sync_cfg :: "string \<Rightarrow> nat \<Rightarrow> lte_grid_config \<Rightarrow> lte_phch_config" where
  "sync_cfg n i c = \<lparr>ch_name = n, symbol_mask = (replicate 10 0)[0 := word_of_int (push_bit (nat (cdiv (g_nof_osymb c) 2 - int i)) 1),
     5 := word_of_int (push_bit (nat (cdiv (g_nof_osymb c) 2 - int i)) 1)], nof_re_x_sf = (replicate 10 0)[0 := 72, 5 := 72]\<rparr>"

lemma phch_all:
  fixes h :: lte_phch_config
  shows "h\<lparr>ch_name := n, symbol_mask := m, nof_re_x_sf := r\<rparr> = \<lparr>ch_name = n, symbol_mask = m, nof_re_x_sf = r\<rparr>"
  by (cases h) simp

lemma lte_ch_init_plain:
  assumes "length (g_phch c) = 7"
  shows "lte_ch_init pg 0 c = Some (0, c\<lparr>g_phch := (g_phch c)[0 := pbch_cfg c]\<rparr>)"
    "lte_ch_init pg 1 c = Some (0, c\<lparr>g_phch := (g_phch c)[1 := sync_cfg ''PSS'' 1 c]\<rparr>)"
    "lte_ch_init pg 2 c = Some (0, c\<lparr>g_phch := (g_phch c)[2 := sync_cfg ''SSS'' 2 c]\<rparr>)"
  using assms
  by (simp_all add: lte_ch_init_def phch_set lte_pbch_init_def lte_pss_init_def lte_sss_init_def set_sf_def poke_def
      pbch_cfg_def sync_cfg_def half_def Let_def phch_all)

lemma lte_pdcch_init_params_eq:
  assumes "pdcch_params_ok pg c"
  shows "\<exists>y. lte_pdcch_init_params pg c = Some (0, c\<lparr>g_nof_pdcch := int (pdcchs pg c), g_pdcch := y\<rparr>) \<and> length y = 20
    \<and> (\<forall>i<20. cce_shaped (y ! i)) \<and> (\<forall>i<pdcchs pg c. pc_nof_cce (y ! i) = cces pg c i)"
proof -
  let ?f = "\<lambda>i k. do {
       h \<leftarrow> peek (g_pdcch k) i;
       set_pdcch i ((case pg (''pdcch_nofcce_'' @ dec_str (nat i)) of None \<Rightarrow> h | Some v \<Rightarrow> h\<lparr>pc_nof_cce := v\<rparr>)
         \<lparr>pc_id := i\<rparr>) k }"
  define c1 where "c1 = c\<lparr>g_nof_pdcch := int (pdcchs pg c)\<rparr>"
  have c1: "(case pg ''nof_pdcch'' of None \<Rightarrow> c | Some v \<Rightarrow> c\<lparr>g_nof_pdcch := v\<rparr>) = c1"
    using assms by (cases "pg ''nof_pdcch''") (simp_all add: pdcch_params_ok_def param_def pdcchs_def c1_def)
  have n20: "pdcchs pg c \<le> 20" and len: "length (g_pdcch c) = 20" using assms by (simp_all add: pdcch_params_ok_def)
  have main: "\<exists>y. each ?f (below (int n)) c1 = Some (c1\<lparr>g_pdcch := y\<rparr>) \<and> length y = 20
    \<and> (\<forall>i<20. cce_shaped (y ! i)) \<and> (\<forall>i<n. pc_nof_cce (y ! i) = cces pg c i) \<and> (\<forall>i. n \<le> i \<longrightarrow> y ! i = g_pdcch c ! i)"
    if "n \<le> pdcchs pg c" for n
    using that
  proof (induction n)
    case 0
    then show ?case using assms by (intro exI [of _ "g_pdcch c"]) (simp add: pdcch_params_ok_def c1_def)
  next
    case (Suc n)
    then obtain y where d: "each ?f (below (int n)) c1 = Some (c1\<lparr>g_pdcch := y\<rparr>)" "length y = 20"
      "\<forall>i<20. cce_shaped (y ! i)" "\<forall>i<n. pc_nof_cce (y ! i) = cces pg c i" "\<forall>i. n \<le> i \<longrightarrow> y ! i = g_pdcch c ! i" by auto
    have n: "n < 20" using Suc.prems n20 by simp
    let ?h = "(g_pdcch c ! n)\<lparr>pc_nof_cce := cces pg c n, pc_id := int n\<rparr>"
    have step: "?f (int n) (c1\<lparr>g_pdcch := y\<rparr>) = Some (c1\<lparr>g_pdcch := y[n := ?h]\<rparr>)"
      using n d(2,5) by (cases "pg (''pdcch_nofcce_'' @ dec_str n)") (simp_all add: peek_def set_pdcch_def poke_def cces_def param_def)
    have "each ?f (below (int (Suc n))) c1 = Some (c1\<lparr>g_pdcch := y[n := ?h]\<rparr>)"
      unfolding below_Suc each_append d(1) using step by simp
    moreover have "cce_shaped (g_pdcch c ! n)" using d(3,5) n by force
    then have "cce_shaped ?h" by (simp add: cce_shaped_def)
    then have "cce_shaped (y[n := ?h] ! i)" if "i < 20" for i using d(2,3) that by (cases "i = n") simp_all
    ultimately show ?case
      using d(2,4,5) n by (intro exI [of _ "y[n := ?h]"]) (simp add: less_Suc_eq)
  qed
  obtain y where y: "each ?f (below (int (pdcchs pg c))) c1 = Some (c1\<lparr>g_pdcch := y\<rparr>)" "length y = 20"
    "\<forall>i<20. cce_shaped (y ! i)" "\<forall>i<pdcchs pg c. pc_nof_cce (y ! i) = cces pg c i"
    using main [OF order_refl] by blast
  have "lte_pdcch_init_params pg c = Some (0, c1\<lparr>g_pdcch := y\<rparr>)"
    unfolding lte_pdcch_init_params_def c1 Let_def using y(1) n20 by (simp add: c1_def)
  then show ?thesis using y(2-4) by (intro exI [of _ y]) (simp add: c1_def)
qed

definition cleared :: "nat \<Rightarrow> lte_grid_config \<Rightarrow> lte_grid_config" where
  "cleared t c = c\<lparr>g_phch := (g_phch c)[t := (g_phch c ! t)\<lparr>symbol_mask := replicate 10 0, nof_re_x_sf := replicate 10 0\<rparr>]\<rparr>"

lemma cleared_simps [simp]:
  "ch_only c (cleared t c)" "geom (cleared t c) = geom c" "g_control (cleared t c) = g_control c"
  "shape_ok (cleared t c) = shape_ok c" "g_pdcch (cleared t c) = g_pdcch c" "g_nof_pdcch (cleared t c) = g_nof_pdcch c"
  "alloc nc (cleared t c) refs = alloc nc c refs" "(g_phch (cleared t c))[t := h] = (g_phch c)[t := h]"
proof -
  show "ch_only c (cleared t c)" unfolding cleared_def by (rule ch_only_phch)
  show g: "geom (cleared t c) = geom c" by (simp add: cleared_def geom_def)
  show "alloc nc (cleared t c) refs = alloc nc c refs"
    by (rule alloc_geom [OF g]) (simp add: cleared_def)
qed (simp_all add: cleared_def shape_ok_def)

lemma lte_ch_init_cleared:
  assumes "length (g_phch c) = 7"
  shows "lte_ch_init pg 3 c = lte_pcfich_init 3 (cleared 3 c)" "lte_ch_init pg 4 c = lte_phich_init 4 (cleared 4 c)"
    "lte_ch_init pg 5 c = lte_pdcch_init pg 5 (cleared 5 c)" "lte_ch_init pg 6 c = lte_pdsch_init pg 6 (cleared 6 c)"
  using assms by (simp_all add: lte_ch_init_def phch_set Let_def cleared_def)

lemma lte_pdcch_init_alloc:
  assumes c: "cell_ok nc c" "alloc nc c refs" "shape_ok c" "g_nof_control_symbols c = int nc" "pdcch_params_ok pg c"
    "length refs + (\<Sum>i<pdcchs pg c. 9 * nat (cces pg c i)) \<le> region_size nc c"
  shows "\<exists>d news. lte_pdcch_init pg 5 c = Some (0, d) \<and> mid_only c d \<and> alloc nc d (refs @ concat news)
    \<and> cr_pcfich (g_control d) = cr_pcfich (g_control c) \<and> cr_phich (g_control d) = cr_phich (g_control c)
    \<and> pcfich_nregs (g_control d) = pcfich_nregs (g_control c) \<and> phich_nregs (g_control d) = phich_nregs (g_control c)
    \<and> length news = pdcchs pg c \<and> (\<forall>i<length news. pdcch_holds (g_pdcch d ! i) (news ! i))
    \<and> (\<forall>i<pdcchs pg c. pc_nof_cce (g_pdcch d ! i) = cces pg c i) \<and> length (g_pdcch d) = 20 \<and> g_nof_pdcch d = int (pdcchs pg c)
    \<and> (\<exists>h. g_phch d = (g_phch c)[5 := h])"
proof -
  have len: "length (g_phch c) = 7" using c(3) by (simp add: shape_ok_def)
  let ?n = "(g_phch c ! 5)\<lparr>ch_name := ''PDCCH''\<rparr>" and ?P = "pdcchs pg c"
  define c1 where "c1 = c\<lparr>g_phch := (g_phch c)[5 := ?n]\<rparr>"
  have ok1: "pdcch_params_ok pg c1" using c(5) by (simp add: pdcch_params_ok_def c1_def pdcchs_def cces_def)
  have eq1: "pdcchs pg c1 = ?P" "cces pg c1 = cces pg c" by (simp add: pdcchs_def c1_def, rule ext, simp add: cces_def c1_def)
  obtain y where y: "lte_pdcch_init_params pg c1 = Some (0, c1\<lparr>g_nof_pdcch := int ?P, g_pdcch := y\<rparr>)" "length y = 20"
    "\<forall>i<20. cce_shaped (y ! i)" "\<forall>i<?P. pc_nof_cce (y ! i) = cces pg c i"
    using lte_pdcch_init_params_eq [OF ok1, unfolded eq1] by blast
  have n20: "?P \<le> 20" using c(5) by (simp add: pdcch_params_ok_def)
  have set1: "phch_at c 5 = Some (g_phch c ! 5)" "set_phch 5 ?n c = Some c1"
    using phch_set [OF len, of 5] by (simp_all add: c1_def)
  show ?thesis
  proof (cases "?P = 0")
    case True
    define d where "d = c1\<lparr>g_nof_pdcch := int ?P, g_pdcch := y\<rparr>"
    have g: "geom d = geom c" by (simp add: d_def c1_def geom_def)
    have "lte_pdcch_init pg 5 c = Some (0, d)"
      using y(1) True by (simp add: lte_pdcch_init_def set1 d_def)
    moreover have "mid_only c d" unfolding d_def
      by (rule mid_onlyI [where u = "g_phich_duration c" and v = "g_phich_ngroups c" and w = "int ?P" and x = "g_control c" and y = "g_phch c1" and z = y])
        (simp add: c1_def)
    moreover have "alloc nc d refs" using c(2) alloc_geom [OF g] by (simp add: d_def c1_def)
    ultimately show ?thesis
      using True y(2) by (intro exI [of _ d] exI [of _ "[]"]) (auto simp: d_def c1_def)
  next
    case False
    define c2 where "c2 = c1\<lparr>g_nof_pdcch := int ?P, g_pdcch := y, g_control := (g_control c)\<lparr>pdcch_nregs :=
      total_nregs (g_control c) - pcfich_nregs (g_control c) - phich_nregs (g_control c)\<rparr>\<rparr>"
    have g: "geom c2 = geom c" and r: "g_regs c2 = g_regs c" by (simp_all add: c2_def c1_def geom_def)
    have sum: "(\<Sum>i<?P. 9 * nat (pc_nof_cce (g_pdcch c2 ! i))) = (\<Sum>i<?P. 9 * nat (cces pg c i))"
      using y(4) by (intro sum.cong) (simp_all add: c2_def)
    have pre: "alloc nc c2 refs" "cell_ok nc c2" "g_nof_control_symbols c2 = int nc" "?P \<le> length (g_pdcch c2)"
      "\<forall>i<?P. cce_shaped (g_pdcch c2 ! i) \<and> pc_nof_cce (g_pdcch c2 ! i) \<le> 8"
      "length refs + (\<Sum>i<?P. 9 * nat (pc_nof_cce (g_pdcch c2 ! i))) \<le> region_size nc c2"
      subgoal using c(2) alloc_geom [OF g r] by simp
      subgoal using c(1) cell_ok_geom [OF g] by simp
      subgoal using c(4) geom_eq(5) [OF g] by simp
      subgoal using y(2) n20 by (simp add: c2_def)
      subgoal using c(5) y(3,4) n20 by (simp add: pdcch_params_ok_def c2_def)
      subgoal using c(6) sum region_size_geom [OF g] by simp
      done
    obtain d news where d: "each_rc lte_grid_init_reg_pdcch (below (int ?P)) c2 = Some (0, d)" "pd_only c2 d" "length news = ?P"
      "alloc nc d (refs @ concat news)" "\<forall>i<?P. pdcch_holds (g_pdcch d ! i) (news ! i)"
      "\<forall>i. pc_nof_cce (g_pdcch d ! i) = pc_nof_cce (g_pdcch c2 ! i)"
      using pdcch_channels [OF pre order_refl] by blast
    define h where "h = (g_phch d ! 5)\<lparr>
           symbol_mask := map (\<lambda>m. fold (\<lambda>_ w. or (push_bit 1 w) 1) (below (g_nof_control_symbols d)) m) (symbol_mask (g_phch d ! 5)),
           nof_re_x_sf := replicate 10 ((total_nregs (g_control d) - phich_nregs (g_control d)
             - pcfich_nregs (g_control d)) * 4)\<rparr>"
    define e where "e = d\<lparr>g_phch := (g_phch d)[5 := h]\<rparr>"
    have ph: "g_phch d = (g_phch c)[5 := ?n]" using pd_only_fields(2) [OF d(2)] by (simp add: c2_def c1_def)
    have nd: "g_nof_pdcch d = int ?P" using d(2) unfolding pd_only_def c2_def by auto
    have "lte_pdcch_init pg 5 c = Some (0, e)"
      using y(1) False d(1) ph len
      by (simp add: lte_pdcch_init_def set1 Let_def c2_def phch_set h_def e_def)
       (simp add: c1_def phch_set)
    moreover have ge: "geom e = geom d" and re: "g_regs e = g_regs d" by (simp_all add: e_def geom_def)
    moreover have "mid_only c c2" unfolding c2_def
      by (rule mid_onlyI [where u = "g_phich_duration c" and v = "g_phich_ngroups c" and w = "int ?P" and x = "g_control c2" and y = "g_phch c1" and z = y])
        (simp add: c1_def c2_def)
    then have "mid_only c e"
      using mid_only_trans pd_mid_only [OF d(2)] ch_mid_only [OF ch_only_phch [of d]] unfolding e_def by blast
    moreover have "g_phch e = (g_phch c)[5 := h]" by (simp add: e_def ph)
    moreover have "g_pdcch e = g_pdcch d" "g_control e = g_control d" "g_nof_pdcch e = int ?P" using nd by (simp_all add: e_def)
    moreover have "\<forall>i<?P. pc_nof_cce (g_pdcch d ! i) = cces pg c i" using d(6) y(4) by (simp add: c2_def)
    ultimately show ?thesis
      using d(3-5) alloc_geom [OF ge re] pd_only_fields [OF d(2)] y(2)
      by (intro exI [of _ e] exI [of _ news]) (auto simp: c2_def c1_def)
  qed
qed

lemma pcfich_row0:
  assumes "cell_ok nc c"
  shows "set (map (pcfich_ref c) [0..<4]) \<subseteq> set (row0 c)"
proof
  fix a
  assume "a \<in> set (map (pcfich_ref c) [0..<4])"
  then obtain i where a: "a = pcfich_ref c i" by auto
  show "a \<in> set (row0 c)"
    using pcfich_ref_region [of c nc i] assms by (auto simp: a row0_props in_region_def cell_ok_def pcfich_ref_def)
qed

text \<open>PCFICH, PHICH and the PDCCHs together.\<close>

lemma lte_ch_init_control:
  assumes c: "cell_ok nc c" "alloc nc c []" "shape_ok c" "g_nof_prb c \<le> 72" "g_nof_control_symbols c = int nc"
    "pdcch_params_ok pg c"
    "4 + 3 * nat (phich_groups c) + (\<Sum>i<pdcchs pg c. 9 * nat (cces pg c i)) \<le> region_size nc c"
  shows "\<exists>d ph news h3 h4 h5. each_rc (lte_ch_init pg) [3, 4, 5] c = Some (0, d) \<and> mid_only c d
    \<and> alloc nc d (map (pcfich_ref c) [0..<4] @ ph @ concat news)
    \<and> cr_pcfich (g_control d) = map (\<lambda>i. Some (pcfich_ref c i)) [0..<4] \<and> pcfich_nregs (g_control d) = 4
    \<and> take (length ph) (cr_phich (g_control d)) = map Some ph \<and> phich_nregs (g_control d) = int (length ph)
    \<and> length ph = 3 * nat (phich_groups c)
    \<and> length news = pdcchs pg c \<and> (\<forall>i<length news. pdcch_holds (g_pdcch d ! i) (news ! i))
    \<and> (\<forall>i<pdcchs pg c. pc_nof_cce (g_pdcch d ! i) = cces pg c i) \<and> length (g_pdcch d) = 20 \<and> g_nof_pdcch d = int (pdcchs pg c)
    \<and> g_phch d = (g_phch c)[3 := h3, 4 := h4, 5 := h5]"
proof -
  let ?pc = "map (pcfich_ref c) [0..<4]"
  have len: "length (g_phch c) = 7" using c(3) by (simp add: shape_ok_def)
  have ref: "pcfich_ref (cleared 3 c) = pcfich_ref c" by (rule ext) (simp add: pcfich_ref_geom [of "cleared 3 c" c])
  obtain d1 h3 where d1: "lte_ch_init pg 3 c = Some (0, d1)" "ch_only (cleared 3 c) d1" "shape_ok d1" "alloc nc d1 ?pc"
    "cr_pcfich (g_control d1) = map (\<lambda>i. Some (pcfich_ref c i)) [0..<4]" "pcfich_nregs (g_control d1) = 4" "g_phch d1 = (g_phch c)[3 := h3]"
    using lte_pcfich_init_alloc [of nc "cleared 3 c"] c(1-3) cell_ok_geom [of "cleared 3 c" c] lte_ch_init_cleared(1) [OF len]
    by (auto simp: ref)
  have o1: "ch_only c d1" using ch_only_trans [OF _ d1(2)] by simp
  note g1 = ch_only_geom [OF o1]
  have len1: "length (g_phch d1) = 7" using d1(3) by (simp add: shape_ok_def)
  let ?e1 = "cleared 4 d1"
  have pg1: "phich_groups ?e1 = phich_groups c" by (simp add: phich_groups_def geom_eq(1) [of ?e1 c] g1)
  have row1: "row0 ?e1 = row0 c" by (simp add: row0_def geom_eq(1) [of ?e1 c] g1)
  define ph where "ph = phich_regs ?e1 (phich_groups ?e1)"
  have ok1: "cell_ok nc ?e1" using c(1) cell_ok_geom [of ?e1 c] g1 by simp
  have nz: "0 < nc" using c(1) by (simp add: cell_ok_def)
  have "\<exists>d. lte_phich_init 4 ?e1 = Some (0, d) \<and> ch_only ?e1 d \<and> shape_ok d
    \<and> alloc nc d (?pc @ ph)
    \<and> take (3 * nat (phich_groups ?e1)) (cr_phich (g_control d)) = map Some ph
    \<and> cr_pcfich (g_control d) = cr_pcfich (g_control ?e1) \<and> pcfich_nregs (g_control d) = pcfich_nregs (g_control ?e1)
    \<and> phich_nregs (g_control d) = 3 * phich_groups ?e1
    \<and> (\<exists>h. g_phch d = (g_phch ?e1)[4 := h])"
    unfolding ph_def
    by (rule lte_phich_init_alloc) (use c(4,5) ok1 nz d1(3,4) pcfich_row0 [OF c(1)] row1 geom_eq(1,5) [of ?e1 c] g1 in
      \<open>simp_all\<close>)
  then obtain d2 h4 where d2: "lte_ch_init pg 4 d1 = Some (0, d2)" "ch_only ?e1 d2" "shape_ok d2" "alloc nc d2 (?pc @ ph)"
    "take (3 * nat (phich_groups c)) (cr_phich (g_control d2)) = map Some ph"
    "cr_pcfich (g_control d2) = cr_pcfich (g_control d1)" "pcfich_nregs (g_control d2) = pcfich_nregs (g_control d1)"
    "phich_nregs (g_control d2) = 3 * phich_groups c" "g_phch d2 = (g_phch d1)[4 := h4]"
    using lte_ch_init_cleared(2) [OF len1] pg1 by (auto simp: cleared_def)
  have o2: "ch_only c d2" using ch_only_trans [OF o1] ch_only_trans [OF _ d2(2)] by simp
  note g2 = ch_only_geom [OF o2]
  have N: "0 \<le> phich_groups c" using c(1) by (simp add: cell_ok_def phich_groups_def pos_imp_zdiv_nonneg_iff)
  have lph: "length ph = 3 * nat (phich_groups c)" by (simp add: ph_def phich_regs_def phich_items_props pg1)
  have len2: "length (g_phch d2) = 7" using d2(3) by (simp add: shape_ok_def)
  let ?e2 = "cleared 5 d2"
  have f2: "g_pdcch ?e2 = g_pdcch c" "g_nof_pdcch ?e2 = g_nof_pdcch c" using ch_only_fields [OF o2] by simp_all
  then have f3: "pdcchs pg ?e2 = pdcchs pg c" "cces pg ?e2 = cces pg c" by (simp add: pdcchs_def, intro ext, simp add: cces_def)
  have "\<exists>d news. lte_pdcch_init pg 5 ?e2 = Some (0, d) \<and> mid_only ?e2 d \<and> alloc nc d ((?pc @ ph) @ concat news)
    \<and> cr_pcfich (g_control d) = cr_pcfich (g_control ?e2) \<and> cr_phich (g_control d) = cr_phich (g_control ?e2)
    \<and> pcfich_nregs (g_control d) = pcfich_nregs (g_control ?e2) \<and> phich_nregs (g_control d) = phich_nregs (g_control ?e2)
    \<and> length news = pdcchs pg ?e2 \<and> (\<forall>i<length news. pdcch_holds (g_pdcch d ! i) (news ! i))
    \<and> (\<forall>i<pdcchs pg ?e2. pc_nof_cce (g_pdcch d ! i) = cces pg ?e2 i) \<and> length (g_pdcch d) = 20 \<and> g_nof_pdcch d = int (pdcchs pg ?e2)
    \<and> (\<exists>h. g_phch d = (g_phch ?e2)[5 := h])"
    by (rule lte_pdcch_init_alloc) (use c d2(3,4) f2 f3 lph cell_ok_geom [of ?e2 c] geom_eq(5) [of ?e2 c] region_size_geom [of ?e2 c] g2 in
      \<open>simp_all add: pdcch_params_ok_def\<close>)
  then obtain d news h5 where d: "lte_ch_init pg 5 d2 = Some (0, d)" "mid_only ?e2 d" "alloc nc d ((?pc @ ph) @ concat news)"
    "cr_pcfich (g_control d) = cr_pcfich (g_control d2)" "cr_phich (g_control d) = cr_phich (g_control d2)"
    "pcfich_nregs (g_control d) = pcfich_nregs (g_control d2)" "phich_nregs (g_control d) = phich_nregs (g_control d2)"
    "length news = pdcchs pg c" "\<forall>i<length news. pdcch_holds (g_pdcch d ! i) (news ! i)"
    "\<forall>i<pdcchs pg c. pc_nof_cce (g_pdcch d ! i) = cces pg c i" "length (g_pdcch d) = 20" "g_nof_pdcch d = int (pdcchs pg c)"
    "g_phch d = (g_phch d2)[5 := h5]"
    using lte_ch_init_cleared(3) [OF len2] f3 by (auto simp: cleared_def)
  have "mid_only c d" using mid_only_trans [OF mid_only_trans [OF ch_mid_only [OF o2] ch_mid_only] d(2)] by simp
  then show ?thesis
    using d1 d2 d lph N
    by (intro exI [of _ d] exI [of _ ph] exI [of _ news] exI [of _ h3] exI [of _ h4] exI [of _ h5]) simp
qed

text \<open>The table of PHICH does not have the places that a wide cell needs.\<close>

lemma lte_ch_init_wide:
  assumes c: "cell_ok nc c" "alloc nc c []" "shape_ok c" "73 \<le> g_nof_prb c" "g_nof_control_symbols c = int nc"
  shows "\<exists>d n f a. lte_ch_init pg 3 c = Some (0, d) \<and> phich_counts (phich_entry (cleared 4 d)) = Some n
    \<and> each_rc (phich_step n) (take 28 (phich_items (phich_groups c))) (0, phich_entry (cleared 4 d)) = Some (0, 28, f)
    \<and> length (cr_phich (g_control f)) = 28 \<and> phich_find n (phich_items (phich_groups c) ! 28) f = Some (Some a)
    \<and> set_phich 28 (Some a) f = None \<and> lte_ch_init pg 4 d = None"
proof -
  let ?pc = "map (pcfich_ref c) [0..<4]"
  have len: "length (g_phch c) = 7" using c(3) by (simp add: shape_ok_def)
  have ref: "pcfich_ref (cleared 3 c) = pcfich_ref c" by (rule ext) (simp add: pcfich_ref_geom [of "cleared 3 c" c])
  obtain d1 where d1: "lte_ch_init pg 3 c = Some (0, d1)" "ch_only (cleared 3 c) d1" "shape_ok d1" "alloc nc d1 ?pc"
    using lte_pcfich_init_alloc [of nc "cleared 3 c"] c(1-3) cell_ok_geom [of "cleared 3 c" c] lte_ch_init_cleared(1) [OF len]
    by (auto simp: ref)
  have o1: "ch_only c d1" using ch_only_trans [OF _ d1(2)] by simp
  note g1 = ch_only_geom [OF o1]
  have len1: "length (g_phch d1) = 7" using d1(3) by (simp add: shape_ok_def)
  let ?e1 = "cleared 4 d1"
  have row1: "row0 ?e1 = row0 c" by (simp add: row0_def geom_eq(1) [of ?e1 c] g1)
  have ok1: "cell_ok nc ?e1" "0 < nc" using c(1) cell_ok_geom [of ?e1 c] g1 by (simp, simp add: cell_ok_def)
  have pg1: "phich_groups ?e1 = phich_groups c" by (simp add: phich_groups_def geom_eq(1) [of ?e1 c] g1)
  have "length ?pc = 4" "set ?pc \<subseteq> set (row0 ?e1)" "73 \<le> g_nof_prb ?e1" "g_nof_control_symbols ?e1 \<noteq> 0" "shape_ok ?e1" "alloc nc ?e1 ?pc"
    using c(4,5) ok1 g1 d1(3,4) pcfich_row0 [OF c(1)] row1 geom_eq(1,5) [of ?e1 c] by simp_all
  note over = lte_phich_init_overflow [OF ok1(1) this(6,1,2,3,4,5)]
  have "lte_ch_init pg 4 d1 = None" using over(1) lte_ch_init_cleared(2) [OF len1] by simp
  then show ?thesis using d1(1) over(2) unfolding pg1 by blast
qed

end
