(* ===== verification/Grid_Moves.thy ===== *)
theory Grid_Moves
  imports Grid_Alloc
begin

text \<open>
  The routines that put a channel into the resource grid and get it out again, as lists of
  moves. A routine that gets a channel reads back the moves of the routine that puts it, so
  that the round trip of every channel follows from the lemmas of C_Arrays once the targets of
  its moves are known. The interface of such a pair of routines is the locale channel_moves.
\<close>

lemma moves_fit_mono:
  assumes "moves_fit ms n m" "n \<le> n'" "m \<le> m'"
  shows "moves_fit ms n' m'"
  unfolding moves_fit_def
proof (rule ballI)
  fix x
  assume "x \<in> set ms"
  then show "case x of (q, s) \<Rightarrow> 0 \<le> q \<and> q < m' \<and> (case s of Src p \<Rightarrow> 0 \<le> p \<and> p < n' | Val v \<Rightarrow> True)"
    using assms unfolding moves_fit_def by (force split: src.splits)
qed

section \<open>The contract of a pair of routines\<close>

locale channel_moves =
  fixes put :: "complex_t list \<Rightarrow> complex_t list \<Rightarrow> complex_t list option"
    and get :: "complex_t list \<Rightarrow> complex_t list \<Rightarrow> complex_t list option"
    and ms :: "complex_t move list" and len :: int and grid_len :: int
  assumes put_moves: "put inp out = moves inp ms out"
    and get_moves: "get grid buf = moves grid (concat (map readback ms)) buf"
    and fit: "moves_fit ms len grid_len"
    and cons: "consistent ms"
    and covered: "0 \<le> p \<Longrightarrow> p < len \<Longrightarrow> \<exists>q. (q, Src p) \<in> set ms"
begin

text \<open>Elements that other routines do not touch come out as they went in.\<close>

lemma put_total:
  assumes "len \<le> int (length inp)" "int (length out) = grid_len"
  shows "\<exists>out'. put inp out = Some out' \<and> length out' = length out"
  using moves_Some [OF moves_fit_mono [OF fit assms(1)], of out] assms by (simp add: put_moves)

lemma put_value:
  assumes "put inp out = Some out'" "(q, Src p) \<in> set ms"
  shows "peek inp p = Some (out' ! nat q)"
  using moves_value(1) [OF assms(1) [unfolded put_moves] cons assms(2)] by simp

lemma readback_fit: "moves_fit (concat (map readback ms)) grid_len len"
  unfolding moves_fit_def
proof (clarify)
  fix r s
  assume "(r, s) \<in> set (concat (map readback ms))"
  then obtain m where m: "m \<in> set ms" "(r, s) \<in> set (readback m)" by auto
  show "0 \<le> r \<and> r < len \<and> (case s of Src p \<Rightarrow> 0 \<le> p \<and> p < grid_len | Val v \<Rightarrow> True)"
    using fit m by (cases m rule: readback.cases) (auto simp: moves_fit_def)
qed

lemma get_value:
  assumes val: "\<And>q p. (q, Src p) \<in> set ms \<Longrightarrow> peek inp p = Some (grid ! nat q)"
    and len: "len \<le> int (length inp)" "int (length grid) = grid_len" "len \<le> int (length buf)"
  shows "\<exists>buf'. get grid buf = Some buf' \<and> length buf' = length buf \<and> take (nat len) buf' = take (nat len) inp"
proof -
  have "moves_fit (concat (map readback ms)) (int (length grid)) (int (length buf))"
    using readback_fit len by (elim moves_fit_mono) simp_all
  then obtain buf' where buf': "moves grid (concat (map readback ms)) buf = Some buf'" "length buf' = length buf"
    using moves_Some by blast
  have back_val: "peek grid q = Some (inp ! nat p)" if "(q, Src p) \<in> set ms" for q p
  proof -
    have "0 \<le> p" "p < len" "0 \<le> q" "q < grid_len" using fit that by (auto simp: moves_fit_def)
    then show ?thesis using val [OF that] len by (simp add: peek_def)
  qed
  have "buf' ! i = inp ! i" if i: "i < nat len" for i
  proof -
    obtain q where q: "(q, Src (int i)) \<in> set ms" using covered [of "int i"] i by (auto simp: zless_nat_eq_int_zless)
    show ?thesis using moves_back_value [OF buf'(1) back_val q] by simp
  qed
  then have "take (nat len) buf' = take (nat len) inp" using buf'(2) len by (intro nth_equalityI) auto
  then show ?thesis using buf' by (simp add: get_moves)
qed

lemma roundtrip:
  assumes put: "put inp out = Some out'" and len: "len \<le> int (length inp)" "int (length out) = grid_len" "len \<le> int (length buf)"
  shows "\<exists>buf'. get out' buf = Some buf' \<and> length buf' = length buf \<and> take (nat len) buf' = take (nat len) inp"
proof (rule get_value)
  show "peek inp p = Some (out' ! nat q)" if "(q, Src p) \<in> set ms" for q p using put_value [OF put that] .
  show "int (length out') = grid_len" using moves_length [OF put [unfolded put_moves]] len(2) by simp
qed (use len in simp_all)

end

section \<open>Blocks of consecutive elements\<close>

text \<open>A list of moves that writes consecutive elements from op on and takes its values from
  consecutive elements from ip on, n written and m taken.\<close>

definition block :: "complex_t move list \<Rightarrow> int \<Rightarrow> int \<Rightarrow> int \<Rightarrow> int \<Rightarrow> bool" where
  "block ms ip op m n \<longleftrightarrow> map fst ms = map (\<lambda>j. op + j) (below n)
     \<and> (\<forall>p. (\<exists>q. (q, Src p) \<in> set ms) \<longleftrightarrow> ip \<le> p \<and> p < ip + m) \<and> 0 \<le> n \<and> 0 \<le> m"

lemma block_Nil: "block [] ip op 0 0"
  by (simp add: block_def)

lemma below_add: "0 \<le> m \<Longrightarrow> 0 \<le> n \<Longrightarrow> below (m + n) = below m @ map (\<lambda>j. m + j) (below n)"
proof -
  assume "0 \<le> m" "0 \<le> n"
  then obtain a b where "m = int a" "n = int b" by (metis nonneg_int_cases)
  moreover have "below (int a + int b) = below (int a) @ map (\<lambda>j. int a + j) (below (int b))" for a b
    by (induction b) (simp_all add: below_def nat_add_distrib nat_int_add)
  ultimately show ?thesis by simp
qed

lemma block_append:
  assumes "block ms ip op m n" "block ms' (ip + m) (op + n) m' n'"
  shows "block (ms @ ms') ip op (m + m') (n + n')"
proof -
  have "map fst (ms @ ms') = map (\<lambda>j. op + j) (below (n + n'))"
    using assms by (simp add: block_def below_add comp_def add.assoc)
  moreover have "(\<exists>q. (q, Src p) \<in> set (ms @ ms')) \<longleftrightarrow> ip \<le> p \<and> p < ip + (m + m')" for p
  proof -
    have "(\<exists>q. (q, Src p) \<in> set (ms @ ms')) \<longleftrightarrow> (ip \<le> p \<and> p < ip + m) \<or> (ip + m \<le> p \<and> p < ip + m + m')"
      using assms unfolding block_def by auto
    then show ?thesis using assms unfolding block_def by auto
  qed
  ultimately show ?thesis using assms by (simp add: block_def)
qed

lemma block_copy: "0 \<le> n \<Longrightarrow> block (map (\<lambda>i. (op + i, Src (ip + i))) (below n)) ip op n n"
proof -
  assume n: "0 \<le> n"
  have "(\<exists>q. (q, Src p) \<in> set (map (\<lambda>i. (op + i, Src (ip + i))) (below n))) \<longleftrightarrow> ip \<le> p \<and> p < ip + n" for p
  proof
    assume "ip \<le> p \<and> p < ip + n"
    then have "(op + (p - ip), Src p) \<in> set (map (\<lambda>i. (op + i, Src (ip + i))) (below n))"
      by (auto intro!: image_eqI [of _ _ "p - ip"])
    then show "\<exists>q. (q, Src p) \<in> set (map (\<lambda>i. (op + i, Src (ip + i))) (below n))" by blast
  qed auto
  then show ?thesis unfolding block_def using n by (intro conjI allI) (simp_all add: comp_def)
qed

lemma block_val: "block [(op, Val v)] ip op 0 1"
  by (simp add: block_def below_def)

lemma block_targets: "block ms ip op m n \<Longrightarrow> targets ms = {q. op \<le> q \<and> q < op + n}"
proof -
  assume "block ms ip op m n"
  then have "map fst ms = map (\<lambda>j. op + j) (below n)" by (simp add: block_def)
  then have "set (map fst ms) = set (map (\<lambda>j. op + j) (below n))" by (rule arg_cong)
  then have "targets ms = (\<lambda>j. op + j) ` {j. 0 \<le> j \<and> j < n}" by (simp add: targets_def)
  also have "\<dots> = {q. op \<le> q \<and> q < op + n}"
  proof (intro equalityI subsetI)
    fix q assume "q \<in> {q. op \<le> q \<and> q < op + n}"
    then show "q \<in> (\<lambda>j. op + j) ` {j. 0 \<le> j \<and> j < n}" by (intro image_eqI [of _ _ "q - op"]) simp_all
  qed auto
  finally show ?thesis .
qed

lemma distinct_consistent: "distinct (map fst ms) \<Longrightarrow> consistent ms"
  by (force simp: consistent_def distinct_map inj_on_def)

lemma distinct_below: "distinct (map (\<lambda>j. a + j) (below n))"
  by (auto simp: below_def distinct_map inj_on_def)

lemma block_distinct: "block ms ip op m n \<Longrightarrow> distinct (map fst ms)"
  by (simp add: block_def distinct_below)

section \<open>Symbols with and without reference positions\<close>

definition cp_moves :: "int \<Rightarrow> int \<Rightarrow> int \<Rightarrow> complex_t move list" where
  "cp_moves ip op n = map (\<lambda>i. (op + i, Src (ip + i))) (below n)"

definition ref_one_moves :: "int \<Rightarrow> int \<Rightarrow> int \<Rightarrow> complex_t move list" where
  "ref_one_moves ip op n = (op, Val c_zero) # cp_moves ip (op + 1) n"

definition ref_count :: "int \<Rightarrow> int \<Rightarrow> nat" where
  "ref_count nof_prb d = nat (12 div d * nof_prb - 1)"

definition ref_moves :: "int \<Rightarrow> int \<Rightarrow> int \<Rightarrow> int \<Rightarrow> int \<Rightarrow> complex_t move list" where
  "ref_moves ip op nof_prb off d = (let n = ref_count nof_prb d in
     cp_moves ip op off
     @ concat (map (\<lambda>i. ref_one_moves (ip + (off + int i * (d - 1))) (op + (d * int i + off)) (d - 1)) [0..<n])
     @ (if d - off - 1 > 0 then ref_one_moves (ip + (off + int n * (d - 1))) (op + (d * int n + off)) (d - off - 1) else []))"

lemma memcpy_cp: "0 \<le> n \<Longrightarrow> memcpy_c out op inp ip n = moves inp (cp_moves ip op n) out"
  by (simp add: memcpy_moves cp_moves_def)

lemma put_ref_one: "0 \<le> n \<Longrightarrow> lte_ch_put_ref_one inp ip out op n = moves inp (ref_one_moves ip op n) out"
  by (simp add: lte_ch_put_ref_one_def memcpy_moves ref_one_moves_def cp_moves_def cong: option.case_cong)

lemma readback_cp: "concat (map readback (cp_moves ip op n)) = cp_moves op ip n"
  by (simp add: cp_moves_def concat_map_singleton comp_def)

lemma get_ref_one: "0 \<le> n \<Longrightarrow> lte_ch_get_ref_one inp ip out op n = moves inp (concat (map readback (ref_one_moves op ip n))) out"
  by (simp add: lte_ch_get_ref_one_def memcpy_moves ref_one_moves_def readback_cp) (simp add: cp_moves_def)

lemma moves_append_fun: "moves inp (ms @ ns) = (\<lambda>out. Option.bind (moves inp ms out) (moves inp ns))"
  by (rule ext) (rule moves_append)

lemma bind_map_Pair: "Option.bind (map_option (Pair a) x) f = Option.bind x (\<lambda>y. f (a, y))"
  by (cases x) simp_all

lemma bind_Pair: "Option.bind x (\<lambda>y. Some (a, y)) = map_option (Pair a) x"
  by (cases x) simp_all

lemma readback_concat: "concat (map readback (concat (map g xs))) = concat (map (\<lambda>x. concat (map readback (g x))) xs)"
  by (induction xs) simp_all

lemma put_ref_moves:
  assumes "0 \<le> off" "0 < d" "0 < 12 div d * nof_prb"
  shows "lte_ch_put_ref inp ip out op nof_prb off d = moves inp (ref_moves ip op nof_prb off d) out"
proof -
  let ?n = "ref_count nof_prb d"
  have n: "cdiv 12 d * nof_prb - 1 = int ?n" using assms by (simp add: cdiv_nonneg ref_count_def)
  have loop: "each (\<lambda>i (rp, o1). do {
         o2 \<leftarrow> lte_ch_put_ref_one inp (ip + rp) o1 (op + (d * i + off)) (d - 1);
         Some (rp + (d - 1), o2) }) (below (int ?n)) (off, o0)
    = map_option (Pair (off + int ?n * (d - 1)))
        (moves inp (concat (map (\<lambda>i. ref_one_moves (ip + (off + int i * (d - 1))) (op + (d * int i + off)) (d - 1)) [0..<?n])) o0)" for o0
    using assms(2) unfolding below_def nat_int by (subst each_moves_step [where g = "\<lambda>r i. ref_one_moves (ip + r) (op + (d * i + off)) (d - 1)"])
      (auto simp: put_ref_one split: bind_splits)
  have "lte_ch_put_ref inp ip out op nof_prb off d = do {
     out1 \<leftarrow> moves inp (cp_moves ip op off) out;
     out2 \<leftarrow> moves inp (concat (map (\<lambda>i. ref_one_moves (ip + (off + int i * (d - 1))) (op + (d * int i + off)) (d - 1)) [0..<?n])) out1;
     moves inp (if d - off - 1 > 0 then ref_one_moves (ip + (off + int ?n * (d - 1))) (op + (d * int ?n + off)) (d - off - 1) else []) out2 }"
    using assms(1) unfolding lte_ch_put_ref_def n Let_def
    by (simp add: memcpy_cp loop bind_map_Pair put_ref_one)
  then show ?thesis by (simp add: ref_moves_def Let_def moves_append_fun)
qed

lemma get_ref_moves:
  assumes "0 \<le> off" "0 < d" "0 < 12 div d * nof_prb"
  shows "lte_ch_get_ref inp ip out op nof_prb off d = moves inp (concat (map readback (ref_moves op ip nof_prb off d))) out"
proof -
  let ?n = "ref_count nof_prb d" and ?rb = "\<lambda>ms. concat (map readback ms)"
  have n: "cdiv 12 d * nof_prb - 1 = int ?n" using assms by (simp add: cdiv_nonneg ref_count_def)
  have loop: "each (\<lambda>i (wp, o1). do {
         o2 \<leftarrow> lte_ch_get_ref_one inp (ip + (d * i + off)) o1 (op + wp) (d - 1);
         Some (wp + (d - 1), o2) }) (below (int ?n)) (off, o0)
    = map_option (Pair (off + int ?n * (d - 1)))
        (moves inp (concat (map (\<lambda>i. ?rb (ref_one_moves (op + (off + int i * (d - 1))) (ip + (d * int i + off)) (d - 1))) [0..<?n])) o0)" for o0
    using assms(2) unfolding below_def nat_int by (subst each_moves_step [where g = "\<lambda>r i. ?rb (ref_one_moves (op + r) (ip + (d * i + off)) (d - 1))"])
      (auto simp: get_ref_one split: bind_splits)
  have "lte_ch_get_ref inp ip out op nof_prb off d = do {
     out1 \<leftarrow> moves inp (?rb (cp_moves op ip off)) out;
     out2 \<leftarrow> moves inp (concat (map (\<lambda>i. ?rb (ref_one_moves (op + (off + int i * (d - 1))) (ip + (d * int i + off)) (d - 1))) [0..<?n])) out1;
     moves inp (?rb (if d - off - 1 > 0 then ref_one_moves (op + (off + int ?n * (d - 1))) (ip + (d * int ?n + off)) (d - off - 1) else [])) out2 }"
    using assms(1) unfolding lte_ch_get_ref_def n Let_def
    by (simp add: memcpy_cp loop bind_map_Pair get_ref_one readback_cp)
  then show ?thesis by (simp add: ref_moves_def Let_def moves_append_fun readback_concat)
qed

lemma cp_noref_moves:
  "lte_ch_cp_noref inp ip out op nof_prb = moves inp (concat (map (\<lambda>i. cp_moves (ip + i * 12) (op + i * 12) 12) (below nof_prb))) out"
  unfolding lte_ch_cp_noref_def by (rule each_moves) (simp add: memcpy_cp)

definition noref_moves :: "int \<Rightarrow> int \<Rightarrow> int \<Rightarrow> complex_t move list" where
  "noref_moves ip op nof_prb = concat (map (\<lambda>i. cp_moves (ip + i * 12) (op + i * 12) 12) (below nof_prb))"

lemma put_noref: "lte_ch_cp_noref inp ip out op nof_prb = moves inp (noref_moves ip op nof_prb) out"
  by (simp add: cp_noref_moves noref_moves_def)

lemma get_noref: "lte_ch_cp_noref inp ip out op nof_prb = moves inp (concat (map readback (noref_moves op ip nof_prb))) out"
  by (simp add: cp_noref_moves noref_moves_def readback_concat readback_cp)

subsection \<open>Targets and sources\<close>

lemma block_cp: "0 \<le> n \<Longrightarrow> block (cp_moves ip op n) ip op n n"
  by (simp add: cp_moves_def block_copy)

lemma block_ref_one: "0 \<le> n \<Longrightarrow> block (ref_one_moves ip op n) ip op n (n + 1)"
  using block_append [OF block_val [of op c_zero ip], of "cp_moves ip (op + 1) n" n n] block_cp [of n ip "op + 1"]
  by (simp add: ref_one_moves_def add.commute)

lemma block_loop:
  assumes "\<And>i. i < n \<Longrightarrow> block (g i) (ip + int i * a) (op + int i * b) a b"
  shows "block (concat (map g [0..<n])) ip op (int n * a) (int n * b)"
  using assms
proof (induction n)
  case (Suc n)
  then have "block (concat (map g [0..<n])) ip op (int n * a) (int n * b)" by simp
  then have "block (concat (map g [0..<n]) @ g n) ip op (int n * a + a) (int n * b + b)"
    by (rule block_append) (rule Suc.prems, simp)
  then show ?case by (simp add: algebra_simps)
qed (simp add: block_Nil)

lemma block_noref: "0 \<le> n \<Longrightarrow> block (noref_moves ip op n) ip op (12 * n) (12 * n)"
  using block_loop [of "nat n" "\<lambda>i. cp_moves (ip + int i * 12) (op + int i * 12) 12" ip 12 op 12] block_cp [of 12]
  by (simp add: noref_moves_def below_def comp_def mult.commute)

lemma block_ref:
  assumes "0 \<le> off" "0 < d" "0 < 12 div d * nof_prb"
  defines "n \<equiv> 12 div d * nof_prb - 1"
  shows "block (ref_moves ip op nof_prb off d) ip op
    (off + n * (d - 1) + max 0 (d - off - 1)) (off + n * d + (if d - off - 1 > 0 then d - off else 0))"
proof -
  have n: "int (ref_count nof_prb d) = n" using assms by (simp add: ref_count_def)
  have "block (concat (map (\<lambda>i. ref_one_moves (ip + (off + int i * (d - 1))) (op + (d * int i + off)) (d - 1)) [0..<ref_count nof_prb d]))
      (ip + off) (op + off) (n * (d - 1)) (n * d)"
    unfolding n [symmetric]
  proof (rule block_loop)
    fix i
    show "block (ref_one_moves (ip + (off + int i * (d - 1))) (op + (d * int i + off)) (d - 1))
        (ip + off + int i * (d - 1)) (op + off + int i * d) (d - 1) d"
      using block_ref_one [of "d - 1" "ip + (off + int i * (d - 1))" "op + (d * int i + off)"] assms(2)
      by (simp add: algebra_simps)
  qed
  note b2 = block_append [OF block_cp [OF assms(1)] this]
  show ?thesis
  proof (cases "d - off - 1 > 0")
    case True
    have "block (ref_one_moves (ip + (off + n * (d - 1))) (op + (d * n + off)) (d - off - 1))
        (ip + (off + n * (d - 1))) (op + (off + n * d)) (d - off - 1) (d - off)"
      using block_ref_one [of "d - off - 1" "ip + (off + n * (d - 1))" "op + (d * n + off)"] True
      by (simp add: algebra_simps)
    from block_append [OF b2 this] show ?thesis
      using True by (simp add: ref_moves_def Let_def n)
  next
    case False
    then show ?thesis using b2 by (simp add: ref_moves_def Let_def n)
  qed
qed

text \<open>A block from the start of the buffers meets the contract.\<close>

lemma block_channel:
  assumes "block ms 0 0 m n" "n \<le> grid_len"
    and "\<And>inp out. put inp out = moves inp ms out" "\<And>grid buf. get grid buf = moves grid (concat (map readback ms)) buf"
  shows "channel_moves put get ms m grid_len"
proof
  show "put inp out = moves inp ms out" "get grid buf = moves grid (concat (map readback ms)) buf" for inp out grid buf
    by (rule assms)+
  show "consistent ms" by (rule distinct_consistent) (rule block_distinct [OF assms(1)])
  have src: "(\<exists>q. (q, Src p) \<in> set ms) \<longleftrightarrow> 0 \<le> p \<and> p < m" for p using assms(1) by (simp add: block_def)
  then show "0 \<le> p \<Longrightarrow> p < m \<Longrightarrow> \<exists>q. (q, Src p) \<in> set ms" for p by simp
  show "moves_fit ms m grid_len"
    unfolding moves_fit_def
  proof (clarify)
    fix q s
    assume qs: "(q, s) \<in> set ms"
    then have "q \<in> targets ms" by (force simp: targets_def)
    then have "0 \<le> q \<and> q < grid_len" using block_targets [OF assms(1)] assms(2) by simp
    moreover have "case s of Src p \<Rightarrow> 0 \<le> p \<and> p < m | Val v \<Rightarrow> True"
    proof (cases s)
      case (Src p)
      then have "\<exists>q. (q, Src p) \<in> set ms" using qs by (intro exI [of _ q]) simp
      then show ?thesis using src Src by simp
    qed simp
    ultimately show "0 \<le> q \<and> q < grid_len \<and> (case s of Src p \<Rightarrow> 0 \<le> p \<and> p < m | Val v \<Rightarrow> True)" by simp
  qed
qed

text \<open>Copies of whole PRBs, and PRBs with two or four reference positions each.\<close>

interpretation noref: channel_moves "\<lambda>inp out. lte_ch_cp_noref inp 0 out 0 (int n)" "\<lambda>grid buf. lte_ch_cp_noref grid 0 buf 0 (int n)"
  "noref_moves 0 0 (int n)" "12 * int n" "12 * int n" for n :: nat
  by (rule block_channel [OF block_noref order_refl], simp, rule put_noref, rule get_noref)

interpretation ref2: channel_moves "\<lambda>inp out. lte_ch_put_ref inp 0 out 0 (int (Suc n)) (int (off mod 6)) 6"
  "\<lambda>grid buf. lte_ch_get_ref grid 0 buf 0 (int (Suc n)) (int (off mod 6)) 6"
  "ref_moves 0 0 (int (Suc n)) (int (off mod 6)) 6" "10 * int (Suc n)" "12 * int (Suc n)" for n off :: nat
proof (rule block_channel)
  let ?o = "int (off mod 6)" and ?w = "\<lambda>o1::int. o1 + (12 div 6 * int (Suc n) - 1) * 6 + (if 6 - o1 - 1 > 0 then 6 - o1 else 0)"
  have o: "0 \<le> ?o" "?o < 6" by simp_all
  show "block (ref_moves 0 0 (int (Suc n)) ?o 6) 0 0 (10 * int (Suc n)) (?w ?o)"
    using block_ref [of ?o 6 "int (Suc n)" 0 0] o by (simp add: max_def algebra_simps)
  show "?w ?o \<le> 12 * int (Suc n)" using o by (simp add: algebra_simps)
qed (simp_all add: put_ref_moves get_ref_moves)

interpretation ref4: channel_moves "\<lambda>inp out. lte_ch_put_ref inp 0 out 0 (int (Suc n)) (int (off mod 3)) 3"
  "\<lambda>grid buf. lte_ch_get_ref grid 0 buf 0 (int (Suc n)) (int (off mod 3)) 3"
  "ref_moves 0 0 (int (Suc n)) (int (off mod 3)) 3" "8 * int (Suc n)" "12 * int (Suc n)" for n off :: nat
proof (rule block_channel)
  let ?o = "int (off mod 3)" and ?w = "\<lambda>o1::int. o1 + (12 div 3 * int (Suc n) - 1) * 3 + (if 3 - o1 - 1 > 0 then 3 - o1 else 0)"
  have o: "0 \<le> ?o" "?o < 3" by simp_all
  show "block (ref_moves 0 0 (int (Suc n)) ?o 3) 0 0 (8 * int (Suc n)) (?w ?o)"
    using block_ref [of ?o 3 "int (Suc n)" 0 0] o by (simp add: max_def algebra_simps)
  show "?w ?o \<le> 12 * int (Suc n)" using o by (simp add: algebra_simps)
qed (simp_all add: put_ref_moves get_ref_moves)

text \<open>Data never lies on the reference positions of antenna port 0.\<close>

lemma ref_one_data: "(q, Src p) \<in> set (ref_one_moves ip op n) \<Longrightarrow> \<exists>j. 0 \<le> j \<and> j < n \<and> q = op + 1 + j"
  by (auto simp: ref_one_moves_def cp_moves_def)

lemma ref_data_mod:
  fixes d :: int
  assumes "d dvd 6" "0 \<le> off" "off < 6" "0 \<le> j" "j < d - 1" "x = d * i + off + 1 + j"
  shows "x mod 6 \<noteq> off"
proof
  assume "x mod 6 = off"
  then have "x mod 6 = off mod 6" using assms(2,3) by simp
  then have "6 dvd x - off" by (simp only: mod_eq_dvd_iff)
  then have "d dvd x - off" using assms(1) dvd_trans by blast
  moreover have "x - off = d * i + (1 + j)" using assms(6) by simp
  ultimately have "d dvd d * i + (1 + j)" by simp
  then have "d dvd 1 + j" by (simp add: dvd_add_right_iff)
  then show False using assms(4,5) zdvd_not_zless by fastforce
qed

lemma ref_data:
  assumes "(q, Src p) \<in> set (ref_moves ip op nof_prb off d)" "d dvd 6" "0 < d" "0 \<le> off" "off < 6"
  shows "(q - op) mod 6 \<noteq> off"
proof -
  let ?n = "ref_count nof_prb d"
  consider "(q, Src p) \<in> set (cp_moves ip op off)"
    | i where "(q, Src p) \<in> set (ref_one_moves (ip + (off + int i * (d - 1))) (op + (d * int i + off)) (d - 1))"
    | "d - off - 1 > 0" "(q, Src p) \<in> set (ref_one_moves (ip + (off + int ?n * (d - 1))) (op + (d * int ?n + off)) (d - off - 1))"
    using assms(1) by (auto simp: ref_moves_def Let_def split: if_splits)
  then show ?thesis
  proof cases
    case 1
    then show ?thesis using assms(4,5) by (auto simp: cp_moves_def)
  next
    case (2 i)
    then obtain j where "0 \<le> j" "j < d - 1" "q - op = d * int i + off + 1 + j" using ref_one_data by fastforce
    then show ?thesis using ref_data_mod [OF assms(2,4,5)] by blast
  next
    case 3
    then obtain j where "0 \<le> j" "j < d - 1" "q - op = d * int ?n + off + 1 + j"
      using ref_one_data [OF 3(2)] assms(4) by fastforce
    then show ?thesis using ref_data_mod [OF assms(2,4,5)] by blast
  qed
qed

section \<open>Loops over the symbols of a subframe\<close>

lemma each_rc_moves:
  assumes "\<And>i r o1. i < n \<Longrightarrow> f (int i) (r, o1) = map_option (\<lambda>o2. (0, r + len i, o2)) (moves inp (g i r) o1)"
  shows "each_rc f (map int [0..<n]) (0, out)
    = map_option (\<lambda>o2. (0, (\<Sum>i<n. len i), o2)) (moves inp (concat (map (\<lambda>i. g i (\<Sum>j<i. len j)) [0..<n])) out)"
  using assms
proof (induction n)
  case (Suc n)
  let ?ms = "concat (map (\<lambda>i. g i (\<Sum>j<i. len j)) [0..<n])"
  have IH: "each_rc f (map int [0..<n]) (0, out) = map_option (\<lambda>o2. (0, (\<Sum>i<n. len i), o2)) (moves inp ?ms out)"
    using Suc by simp
  show ?case
  proof (cases "moves inp ?ms out")
    case None
    then show ?thesis using IH by (simp add: each_rc_append moves_append)
  next
    case (Some o1)
    then show ?thesis
      using IH Suc.prems [of n "\<Sum>i<n. len i" o1]
      by (cases "moves inp (g n (\<Sum>i<n. len i)) o1") (simp_all add: each_rc_append moves_append)
  qed
qed simp

lemma each_map: "each f (map g xs) s = each (\<lambda>x. f (g x)) xs s"
  by (induction xs arbitrary: s) (auto split: bind_splits)

section \<open>Resource element groups\<close>

definition reg_moves :: "lte_grid_config \<Rightarrow> reg_ref \<Rightarrow> int \<Rightarrow> complex_t move list" where
  "reg_moves c a ip = (let reg = g_regs c a; pos = (\<lambda>k. lte_reg_put_sf_pos k (rg_symbol reg) c) in
     map (\<lambda>i. (pos (rg_k reg ! i), Src (ip + int i))) [0..<4]
     @ map (\<lambda>k. (pos k, Val c_zero)) (filter (\<lambda>k. k \<ge> 0) (rg_k_ref reg)))"

lemma each_Cons_fun: "each f (x # xs) = (\<lambda>s. Option.bind (f x s) (each f xs))"
  by (rule ext) simp

lemma moves_Cons_fun: "moves inp ((q, s) # ms) = (\<lambda>out. Option.bind (src_val inp s) (\<lambda>v. Option.bind (poke out q v) (moves inp ms)))"
  by (rule ext) simp

lemma below4: "below 4 = [0, 1, 2, 3]" "below 2 = [0, 1]"
  by (simp_all add: below_unfold)

lemma length2: "length xs = 2 \<Longrightarrow> \<exists>a b. xs = [a, b]"
  by (cases xs; cases "tl xs") auto

lemma reg_put_moves:
  assumes "length (rg_k (g_regs c a)) = 4" "length (rg_k_ref (g_regs c a)) = 2"
  shows "lte_reg_put inp ip out (Some a) c = moves inp (reg_moves c a ip) out"
proof -
  obtain k0 k1 k2 k3 where k: "rg_k (g_regs c a) = [k0, k1, k2, k3]" using length4 [OF assms(1)] by blast
  obtain r0 r1 where r: "rg_k_ref (g_regs c a) = [r0, r1]" using length2 [OF assms(2)] by blast
  show ?thesis
    by (simp add: lte_reg_put_def reg_moves_def Let_def below4 k r peek_def upt_rec split: bind_splits)
qed

lemma reg_get_moves:
  assumes "length (rg_k (g_regs c a)) = 4" "length (rg_k_ref (g_regs c a)) = 2"
  shows "lte_reg_get inp out op (Some a) c = moves inp (concat (map readback (reg_moves c a op))) out"
proof -
  obtain k0 k1 k2 k3 where k: "rg_k (g_regs c a) = [k0, k1, k2, k3]" using length4 [OF assms(1)] by blast
  obtain r0 r1 where r: "rg_k_ref (g_regs c a) = [r0, r1]" using length2 [OF assms(2)] by blast
  show ?thesis
    unfolding lte_reg_get_def Let_def below4 k
    by (simp add: reg_moves_def Let_def k r upt_rec peek_def [of "[k0, k1, k2, k3]"] each_Cons_fun moves_Cons_fun)
qed

text \<open>The subcarriers fit between the guard bands.\<close>

definition guards_ok :: "lte_grid_config \<Rightarrow> bool" where
  "guards_ok c \<longleftrightarrow> 0 \<le> g_pre_guard c \<and> g_pre_guard c + 12 * g_nof_prb c \<le> g_fft_size c"

lemma pos_inj:
  assumes "guards_ok c" "lte_reg_put_sf_pos k (int l) c = lte_reg_put_sf_pos k' (int l') c"
    "0 \<le> k" "k < 12 * g_nof_prb c" "0 \<le> k'" "k' < 12 * g_nof_prb c"
  shows "k = k' \<and> l = l'"
proof -
  let ?F = "g_fft_size c" and ?P = "g_pre_guard c"
  have b: "0 \<le> ?P + k" "?P + k < ?F" "0 \<le> ?P + k'" "?P + k' < ?F" using assms by (auto simp: guards_ok_def)
  have eq: "int l * ?F + (?P + k) = int l' * ?F + (?P + k')"
    using assms(2) by (simp add: lte_reg_put_sf_pos_def add.assoc)
  then have "(int l * ?F + (?P + k)) div ?F = (int l' * ?F + (?P + k')) div ?F" by (rule arg_cong)
  then have "int l = int l'" using b by simp
  then show ?thesis using eq by simp
qed

lemma alloc_reg:
  assumes "alloc nc c refs" "a \<in> set refs"
  shows "g_regs c a = (new_reg c a)\<lparr>rg_assigned := 2\<rparr>" "in_region nc c a"
    "length (rg_k (g_regs c a)) = 4" "length (rg_k_ref (g_regs c a)) = 2"
proof -
  show r: "g_regs c a = (new_reg c a)\<lparr>rg_assigned := 2\<rparr>" and "in_region nc c a"
    using assms by (cases a; simp add: alloc_def)+
  show "length (rg_k (g_regs c a)) = 4" "length (rg_k_ref (g_regs c a)) = 2"
    unfolding r by (cases a; simp add: new_reg_def Let_def)+
qed

text \<open>The subcarriers that a group writes, relative to its first one.\<close>

definition reg_cells :: "lte_grid_config \<Rightarrow> reg_ref \<Rightarrow> (int \<times> bool) list" where
  "reg_cells c a = (let vo = g_cell_id c mod 3 in
     if reg_width (fst (snd a)) c = 6
     then map (\<lambda>i. (if i < vo then i else if i < vo + 2 then i + 1 else i + 2, True)) [0, 1, 2, 3] @ [(vo, False), (vo + 3, False)]
     else [(0, True), (1, True), (2, True), (3, True)])"

lemma mod3_cases: "(x :: int) mod 3 = 0 \<or> x mod 3 = 1 \<or> x mod 3 = 2"
  by auto

lemma reg_moves_cells:
  assumes "alloc nc c refs" "(p, l, r) \<in> set refs"
  shows "map (\<lambda>(q, s). (q, case s of Src _ \<Rightarrow> True | Val _ \<Rightarrow> False)) (reg_moves c (p, l, r) ip)
      = map (\<lambda>(x, b). (lte_reg_put_sf_pos (reg_start (p, l, r) c + x) (int l) c, b)) (reg_cells c (p, l, r))"
proof -
  have st: "0 \<le> reg_start (p, l, r) c" using reg_cover_start(2) [OF alloc_reg(2) [OF assms]] .
  have w: "reg_width l c = 6 \<or> reg_width l c = 4" by (simp add: reg_width_def)
  show ?thesis
    using mod3_cases [of "g_cell_id c"] w st
    by (elim disjE) (simp_all add: reg_moves_def alloc_reg(1) [OF assms] new_reg_def Let_def reg_cells_def upt_rec add.commute)
qed

lemma reg_cells_props:
  assumes "in_region nc c (p, l, r)"
  shows "distinct (map fst (reg_cells c (p, l, r)))"
    and "(x, b) \<in> set (reg_cells c (p, l, r)) \<Longrightarrow> 0 \<le> x \<and> x < reg_width l c"
    and "(x, True) \<in> set (reg_cells c (p, l, r)) \<Longrightarrow> reg_width l c = 6 \<Longrightarrow> x mod 3 \<noteq> g_cell_id c mod 3"
proof -
  have w: "reg_width l c = 6 \<or> reg_width l c = 4" by (simp add: reg_width_def)
  show "distinct (map fst (reg_cells c (p, l, r)))"
    using mod3_cases [of "g_cell_id c"] w by (elim disjE) (simp_all add: reg_cells_def Let_def)
  show "0 \<le> x \<and> x < reg_width l c" if "(x, b) \<in> set (reg_cells c (p, l, r))"
    using that mod3_cases [of "g_cell_id c"] w by (elim disjE) (auto simp: reg_cells_def Let_def)
  show "x mod 3 \<noteq> g_cell_id c mod 3" if "(x, True) \<in> set (reg_cells c (p, l, r))" "reg_width l c = 6"
    using that mod3_cases [of "g_cell_id c"] by (elim disjE) (auto simp: reg_cells_def Let_def)
qed

lemma reg_moves_cell:
  assumes "alloc nc c refs" "(p, l, r) \<in> set refs" "(q, s) \<in> set (reg_moves c (p, l, r) ip)"
  shows "\<exists>x b. (x, b) \<in> set (reg_cells c (p, l, r)) \<and> q = lte_reg_put_sf_pos (reg_start (p, l, r) c + x) (int l) c
    \<and> b = (case s of Src _ \<Rightarrow> True | Val _ \<Rightarrow> False)"
proof -
  have "(q, case s of Src _ \<Rightarrow> True | Val _ \<Rightarrow> False)
      \<in> set (map (\<lambda>(q, s). (q, case s of Src _ \<Rightarrow> True | Val _ \<Rightarrow> False)) (reg_moves c (p, l, r) ip))"
    using assms(3) by (force intro!: image_eqI [of _ _ "(q, s)"])
  then show ?thesis unfolding reg_moves_cells [OF assms(1,2)] by auto
qed

lemma reg_cell_cover:
  assumes "in_region nc c (p, l, r)" "0 \<le> x" "x < reg_width l c"
  shows "reg_cover (reg_start (p, l, r) c + x) l c = (p, l, r)"
    "0 \<le> reg_start (p, l, r) c + x" "reg_start (p, l, r) c + x < 12 * g_nof_prb c"
proof -
  let ?w = "reg_width l c"
  have w: "0 < ?w" "int r * ?w + ?w \<le> 12" "0 \<le> int r * ?w" "int p + 1 \<le> g_nof_prb c"
    using assms reg_num_cases [of "int l" c] by (auto simp: in_region_def reg_width_def)
  define b where "b = int r * ?w + x"
  have b: "0 \<le> b" "b < 12" using w assms by (auto simp: b_def)
  have s: "reg_start (p, l, r) c + x = 12 * int p + b" by (simp add: reg_start_def b_def)
  have "(12 * int p + b) div 12 = int p" "(12 * int p + b) mod 12 = b" using b by simp_all
  moreover have "b div ?w = int r" using w(1) assms(2,3) by (simp add: b_def)
  ultimately show "reg_cover (reg_start (p, l, r) c + x) l c = (p, l, r)"
    unfolding s by (simp add: reg_cover_def)
  show "0 \<le> reg_start (p, l, r) c + x" "reg_start (p, l, r) c + x < 12 * g_nof_prb c"
    using s b w(4) by auto
qed

lemma reg_moves_disjoint:
  assumes "alloc nc c refs" "guards_ok c" "a \<in> set refs" "a' \<in> set refs"
    "q \<in> targets (reg_moves c a ip)" "q \<in> targets (reg_moves c a' ip')"
  shows "a = a'"
proof -
  obtain p l r p' l' r' where a: "a = (p, l, r)" "a' = (p', l', r')" by (cases a, cases a')
  obtain s s' where s: "(q, s) \<in> set (reg_moves c a ip)" "(q, s') \<in> set (reg_moves c a' ip')"
    using assms(5,6) by (auto simp: targets_def)
  note reg = alloc_reg(2) [OF assms(1), OF assms(3) [unfolded a]] alloc_reg(2) [OF assms(1), OF assms(4) [unfolded a]]
  obtain x x' where x: "0 \<le> x" "x < reg_width l c" "q = lte_reg_put_sf_pos (reg_start (p, l, r) c + x) (int l) c"
      "0 \<le> x'" "x' < reg_width l' c" "q = lte_reg_put_sf_pos (reg_start (p', l', r') c + x') (int l') c"
    using reg_moves_cell [OF assms(1), OF assms(3) [unfolded a], OF s(1) [unfolded a]]
      reg_moves_cell [OF assms(1), OF assms(4) [unfolded a], OF s(2) [unfolded a]]
      reg_cells_props(2) [OF reg(1)] reg_cells_props(2) [OF reg(2)] by metis
  note c1 = reg_cell_cover [OF reg(1) x(1,2)] and c2 = reg_cell_cover [OF reg(2) x(4,5)]
  have "reg_start (p, l, r) c + x = reg_start (p', l', r') c + x' \<and> l = l'"
    using pos_inj [OF assms(2)] x(3,6) c1(2,3) c2(2,3) by metis
  then show ?thesis using c1(1) c2(1) a by metis
qed

lemma reg_moves_distinct:
  assumes "alloc nc c refs" "guards_ok c" "a \<in> set refs"
  shows "distinct (map fst (reg_moves c a ip))"
proof -
  obtain p l r where a: "a = (p, l, r)" by (cases a)
  note reg = alloc_reg(2) [OF assms(1), OF assms(3) [unfolded a]]
  have "map fst (reg_moves c a ip) = map fst (map (\<lambda>(q, s). (q, case s of Src _ \<Rightarrow> True | Val _ \<Rightarrow> False)) (reg_moves c a ip))"
    by (simp add: comp_def case_prod_unfold)
  also have "\<dots> = map (\<lambda>x. lte_reg_put_sf_pos (reg_start a c + x) (int l) c) (map fst (reg_cells c a))"
    unfolding a reg_moves_cells [OF assms(1), OF assms(3) [unfolded a]] by (simp add: comp_def case_prod_unfold)
  finally show ?thesis
    using reg_cells_props(1) [OF reg] by (simp add: a distinct_map inj_on_def lte_reg_put_sf_pos_def)
qed

end
