(* ===== verification/Grid_Control.thy ===== *)
theory Grid_Control
  imports Grid_Moves
begin

text \<open>
  The channels of the control region as lists of moves: each channel writes and reads the
  groups that lte_grid_init gave to it. A PDCCH with several CCEs takes the symbols of CCE c
  from index 9 c on, so that the moves of its CCEs share symbols.
\<close>

definition ctl_moves :: "lte_grid_config \<Rightarrow> (int \<times> reg_ref) list \<Rightarrow> complex_t move list" where
  "ctl_moves c ps = concat (map (\<lambda>(ip, a). reg_moves c a ip) ps)"

definition grid_size :: "lte_grid_config \<Rightarrow> int" where
  "grid_size c = g_nof_osymb c * g_fft_size c"

lemma ctl_moves_mem: "m \<in> set (ctl_moves c ps) \<longleftrightarrow> (\<exists>ip a. (ip, a) \<in> set ps \<and> m \<in> set (reg_moves c a ip))"
  unfolding ctl_moves_def by fastforce

lemma ctl_moves_targets: "q \<in> targets (ctl_moves c ps) \<longleftrightarrow> (\<exists>ip a. (ip, a) \<in> set ps \<and> q \<in> targets (reg_moves c a ip))"
  unfolding targets_def image_iff Bex_def ctl_moves_mem by blast

lemma ctl_moves_distinct:
  assumes "alloc nc c refs" "guards_ok c" "distinct (map snd ps)" "snd ` set ps \<subseteq> set refs"
  shows "distinct (map fst (ctl_moves c ps))"
  using assms(3,4)
proof (induction ps)
  case (Cons x ps)
  obtain ip a where x: "x = (ip, a)" by (cases x)
  have "q \<notin> targets (ctl_moves c ps)" if "q \<in> targets (reg_moves c a ip)" for q
  proof
    assume "q \<in> targets (ctl_moves c ps)"
    then obtain ip' a' where "(ip', a') \<in> set ps" "q \<in> targets (reg_moves c a' ip')"
      unfolding ctl_moves_targets by blast
    moreover from this have "a \<in> set refs" "a' \<in> set refs" using Cons.prems(2) x by (auto simp: image_subset_iff)
    then have "a = a'" using reg_moves_disjoint [OF assms(1,2) _ _ that] calculation(2) by blast
    moreover have "a \<notin> snd ` set ps" using Cons.prems(1) x by simp
    ultimately show False by (metis image_eqI snd_conv)
  qed
  then have "set (map fst (reg_moves c a ip)) \<inter> set (map fst (ctl_moves c ps)) = {}"
    by (auto simp: targets_def)
  then show ?case
    using Cons reg_moves_distinct [OF assms(1,2), of a ip] x by (simp add: ctl_moves_def)
qed (simp add: ctl_moves_def)

lemma reg_moves_sources: "(q, Src p) \<in> set (reg_moves c a ip) \<Longrightarrow> ip \<le> p \<and> p < ip + 4"
  by (auto simp: reg_moves_def Let_def)

lemma reg_moves_source_ex: "ip \<le> p \<Longrightarrow> p < ip + 4 \<Longrightarrow> \<exists>q. (q, Src p) \<in> set (reg_moves c a ip)"
proof -
  assume p: "ip \<le> p" "p < ip + 4"
  then have "(lte_reg_put_sf_pos (rg_k (g_regs c a) ! nat (p - ip)) (rg_symbol (g_regs c a)) c, Src p) \<in> set (reg_moves c a ip)"
    by (auto simp: reg_moves_def Let_def intro!: image_eqI [of _ _ "nat (p - ip)"])
  then show ?thesis by blast
qed

lemma reg_moves_range:
  assumes "alloc nc c refs" "guards_ok c" "a \<in> set refs" "int nc \<le> g_nof_osymb c" "(q, s) \<in> set (reg_moves c a ip)"
  shows "0 \<le> q \<and> q < grid_size c"
proof -
  obtain p l r where a: "a = (p, l, r)" by (cases a)
  note reg = alloc_reg(2) [OF assms(1), OF assms(3) [unfolded a]]
  obtain x where x: "0 \<le> x" "x < reg_width l c" "q = lte_reg_put_sf_pos (reg_start (p, l, r) c + x) (int l) c"
    using reg_moves_cell [OF assms(1), OF assms(3) [unfolded a], OF assms(5) [unfolded a]] reg_cells_props(2) [OF reg] by metis
  define k where "k = g_pre_guard c + (reg_start (p, l, r) c + x)"
  have k: "0 \<le> k" "k < g_fft_size c" using reg_cell_cover(2,3) [OF reg x(1,2)] assms(2) by (auto simp: k_def guards_ok_def)
  have l: "int l + 1 \<le> g_nof_osymb c" using reg assms(4) by (simp add: in_region_def)
  have q: "q = int l * g_fft_size c + k" by (simp add: x(3) k_def lte_reg_put_sf_pos_def)
  have "(int l + 1) * g_fft_size c \<le> grid_size c"
    unfolding grid_size_def using l k by (intro mult_right_mono) auto
  moreover have "0 \<le> int l * g_fft_size c" using k by simp
  ultimately show ?thesis using q k by (auto simp: algebra_simps)
qed

text \<open>A channel that uses the groups ps, with four symbols from the given index on for each group.\<close>

lemma ctl_channel:
  assumes "alloc nc c refs" "guards_ok c" "distinct (map snd ps)" "snd ` set ps \<subseteq> set refs" "int nc \<le> g_nof_osymb c"
    and put: "\<And>inp out. put inp out = moves inp (ctl_moves c ps) out"
    and get: "\<And>grid buf. get grid buf = moves grid (concat (map readback (ctl_moves c ps))) buf"
    and len: "\<And>ip a. (ip, a) \<in> set ps \<Longrightarrow> 0 \<le> ip \<and> ip + 4 \<le> len"
    and cov: "\<And>p. 0 \<le> p \<Longrightarrow> p < len \<Longrightarrow> \<exists>(ip, a) \<in> set ps. ip \<le> p \<and> p < ip + 4"
  shows "channel_moves put get (ctl_moves c ps) len (grid_size c)"
proof
  show "put inp out = moves inp (ctl_moves c ps) out" for inp out by (rule put)
  show "get grid buf = moves grid (concat (map readback (ctl_moves c ps))) buf" for grid buf by (rule get)
  show "consistent (ctl_moves c ps)" using distinct_consistent ctl_moves_distinct [OF assms(1-4)] by blast
  show "\<exists>q. (q, Src p) \<in> set (ctl_moves c ps)" if p: "0 \<le> p" "p < len" for p
  proof -
    obtain ip a where "(ip, a) \<in> set ps" "ip \<le> p" "p < ip + 4" using cov [OF p] by auto
    moreover from this obtain q where "(q, Src p) \<in> set (reg_moves c a ip)" using reg_moves_source_ex by blast
    ultimately show ?thesis unfolding ctl_moves_mem by blast
  qed
  show "moves_fit (ctl_moves c ps) len (grid_size c)"
    unfolding moves_fit_def
  proof (clarify)
    fix q s
    assume "(q, s) \<in> set (ctl_moves c ps)"
    then obtain ip a where a: "(ip, a) \<in> set ps" "(q, s) \<in> set (reg_moves c a ip)"
      unfolding ctl_moves_mem by blast
    have "a \<in> set refs" using a assms(4) by force
    then have "0 \<le> q \<and> q < grid_size c" using reg_moves_range [OF assms(1,2) _ assms(5) a(2)] by simp
    moreover have "case s of Src p \<Rightarrow> 0 \<le> p \<and> p < len | Val v \<Rightarrow> True"
      using a len [OF a(1)] reg_moves_sources by (cases s) fastforce+
    ultimately show "0 \<le> q \<and> q < grid_size c \<and> (case s of Src p \<Rightarrow> 0 \<le> p \<and> p < len | Val v \<Rightarrow> True)" by simp
  qed
qed

section \<open>The three channels\<close>

text \<open>The control region after a successful initialisation: the groups of PCFICH, of PHICH and of
  each PDCCH.\<close>

definition control_ok :: "nat \<Rightarrow> lte_grid_config \<Rightarrow> reg_ref list \<Rightarrow> reg_ref list \<Rightarrow> reg_ref list list \<Rightarrow> bool" where
  "control_ok nc c pc ph news \<longleftrightarrow> alloc nc c (pc @ ph @ concat news) \<and> guards_ok c \<and> int nc \<le> g_nof_osymb c
     \<and> cr_pcfich (g_control c) = map Some pc \<and> pcfich_nregs (g_control c) = int (length pc)
     \<and> take (length ph) (cr_phich (g_control c)) = map Some ph \<and> phich_nregs (g_control c) = int (length ph)
     \<and> length news = nat (g_nof_pdcch c) \<and> 0 \<le> g_nof_pdcch c \<and> length news \<le> length (g_pdcch c)
     \<and> (\<forall>i<length news. pdcch_holds (g_pdcch c ! i) (news ! i) \<and> 0 \<le> pc_nof_cce (g_pdcch c ! i))"

definition quad :: "reg_ref list \<Rightarrow> (int \<times> reg_ref) list" where
  "quad as = map (\<lambda>i. (4 * int i, as ! i)) [0..<length as]"

definition cce_pairs :: "int \<Rightarrow> reg_ref list \<Rightarrow> (int \<times> reg_ref) list" where
  "cce_pairs m as = map (\<lambda>t. case pdcch_items m ! t of (cc, i) \<Rightarrow> (cc * 9 + 4 * i, as ! t)) [0..<length as]"

lemma snd_quad: "map snd (quad as) = as"
  by (simp add: quad_def comp_def map_nth)

lemma snd_cce_pairs: "map snd (cce_pairs m as) = as"
  by (simp add: cce_pairs_def comp_def case_prod_unfold map_nth)

lemma each_quad:
  assumes "\<And>i. i < length as \<Longrightarrow> peek l (int i) = Some (Some (as ! i))"
    and "\<And>i o1. i < length as \<Longrightarrow> f (int i) (Some (as ! i)) o1 = moves inp (g (as ! i) (4 * int i)) o1"
  shows "each (\<lambda>i o1. do { a \<leftarrow> peek l i; f i a o1 }) (below (int (length as))) out
    = moves inp (concat (map (\<lambda>(ip, a). g a ip) (quad as))) out"
proof -
  have "each (\<lambda>i o1. do { a \<leftarrow> peek l i; f i a o1 }) (below (int (length as))) out
      = moves inp (concat (map (\<lambda>i. g (as ! nat i) (4 * i)) (below (int (length as))))) out"
    by (rule each_moves) (auto simp: below_def assms)
  also have "map (\<lambda>i. g (as ! nat i) (4 * i)) (below (int (length as))) = map (\<lambda>(ip, a). g a ip) (quad as)"
    by (simp add: quad_def below_def comp_def)
  finally show ?thesis .
qed

lemma rb_ctl: "concat (map readback (ctl_moves c ps)) = concat (map (\<lambda>(ip, a). concat (map readback (reg_moves c a ip))) ps)"
  unfolding ctl_moves_def by (induction ps) auto

lemma pcfich_moves:
  assumes "control_ok nc c pc ph news"
  shows "lte_pcfich_put inp out c = map_option (Pair (4 * int (length pc))) (moves inp (ctl_moves c (quad pc)) out)"
    "lte_pcfich_get inp out c = map_option (Pair (4 * int (length pc))) (moves inp (concat (map readback (ctl_moves c (quad pc)))) out)"
proof -
  have al: "alloc nc c (pc @ ph @ concat news)" and n: "pcfich_nregs (g_control c) = int (length pc)"
    and l: "cr_pcfich (g_control c) = map Some pc" using assms by (simp_all add: control_ok_def)
  have pk: "peek (cr_pcfich (g_control c)) (int i) = Some (Some (pc ! i))" if "i < length pc" for i
    using that by (simp add: l peek_def)
  have reg: "length (rg_k (g_regs c (pc ! i))) = 4" "length (rg_k_ref (g_regs c (pc ! i))) = 2" if "i < length pc" for i
    using alloc_reg(3,4) [OF al] that by simp_all
  show "lte_pcfich_put inp out c = map_option (Pair (4 * int (length pc))) (moves inp (ctl_moves c (quad pc)) out)"
    unfolding lte_pcfich_put_def n Let_def ctl_moves_def
    by (subst each_quad [where as = pc and g = "\<lambda>a ip. reg_moves c a ip"]) (use pk reg in \<open>simp_all add: reg_put_moves mult.commute\<close>)
  show "lte_pcfich_get inp out c = map_option (Pair (4 * int (length pc))) (moves inp (concat (map readback (ctl_moves c (quad pc)))) out)"
    unfolding lte_pcfich_get_def n Let_def rb_ctl
    by (subst each_quad [where as = pc and g = "\<lambda>a ip. concat (map readback (reg_moves c a ip))"])
      (use pk reg in \<open>simp_all add: reg_get_moves mult.commute\<close>)
qed

lemma phich_moves:
  assumes "control_ok nc c pc ph news"
  shows "lte_phich_put inp out c = map_option (Pair (4 * int (length ph))) (moves inp (ctl_moves c (quad ph)) out)"
    "lte_phich_get inp out c = map_option (Pair (4 * int (length ph))) (moves inp (concat (map readback (ctl_moves c (quad ph)))) out)"
proof -
  have al: "alloc nc c (pc @ ph @ concat news)" and n: "phich_nregs (g_control c) = int (length ph)"
    and l: "take (length ph) (cr_phich (g_control c)) = map Some ph" using assms by (simp_all add: control_ok_def)
  have pk: "peek (cr_phich (g_control c)) (int i) = Some (Some (ph ! i))" if "i < length ph" for i
  proof -
    have "i < length (cr_phich (g_control c))" using arg_cong [OF l, of length] that by simp
    moreover have "cr_phich (g_control c) ! i = Some (ph ! i)" using arg_cong [OF l, of "\<lambda>x. x ! i"] that by simp
    ultimately show ?thesis by (simp add: peek_def)
  qed
  have reg: "length (rg_k (g_regs c (ph ! i))) = 4" "length (rg_k_ref (g_regs c (ph ! i))) = 2" if "i < length ph" for i
    using alloc_reg(3,4) [OF al] that by simp_all
  show "lte_phich_put inp out c = map_option (Pair (4 * int (length ph))) (moves inp (ctl_moves c (quad ph)) out)"
    unfolding lte_phich_put_def n Let_def ctl_moves_def
    by (subst each_quad [where as = ph and g = "\<lambda>a ip. reg_moves c a ip"]) (use pk reg in \<open>simp_all add: reg_put_moves mult.commute\<close>)
  show "lte_phich_get inp out c = map_option (Pair (4 * int (length ph))) (moves inp (concat (map readback (ctl_moves c (quad ph)))) out)"
    unfolding lte_phich_get_def n Let_def rb_ctl
    by (subst each_quad [where as = ph and g = "\<lambda>a ip. concat (map readback (reg_moves c a ip))"])
      (use pk reg in \<open>simp_all add: reg_get_moves mult.commute\<close>)
qed

lemma each_nth:
  assumes "\<And>t o1. t < length xs \<Longrightarrow> f (xs ! t) o1 = moves inp (g t) o1"
  shows "each f xs out = moves inp (concat (map g [0..<length xs])) out"
proof -
  have "each f xs out = each (\<lambda>t. f (xs ! t)) [0..<length xs] out"
    using each_map [of f "\<lambda>t. xs ! t" "[0..<length xs]" out] by (simp add: map_nth)
  then show ?thesis using each_moves [of "[0..<length xs]" "\<lambda>t. f (xs ! t)" inp g out] assms by simp
qed

lemma pdcch_moves:
  assumes "control_ok nc c pc ph news" "i < length news"
  defines "m \<equiv> pc_nof_cce (g_pdcch c ! i)"
  shows "lte_pdcch_put inp out (int i) c = map_option (Pair (72 * m)) (moves inp (ctl_moves c (cce_pairs m (news ! i))) out)"
    "lte_pdcch_get inp out (int i) c = map_option (Pair (36 * m)) (moves inp (concat (map readback (ctl_moves c (cce_pairs m (news ! i))))) out)"
proof -
  let ?as = "news ! i" and ?h = "g_pdcch c ! i"
  have al: "alloc nc c (pc @ ph @ concat news)" and h: "pdcch_holds ?h ?as" and idx: "\<not> (int i < 0 \<or> int i > g_nof_pdcch c)"
    and pk: "peek (g_pdcch c) (int i) = Some ?h"
    using assms by (auto simp: control_ok_def peek_def)
  have len: "length (pdcch_items m) = length ?as" using h by (simp add: pdcch_holds_def pdcch_items_props m_def)
  have reg: "length (rg_k (g_regs c (?as ! t))) = 4" "length (rg_k_ref (g_regs c (?as ! t))) = 2" if "t < length ?as" for t
    using alloc_reg(3,4) [OF al, of "?as ! t"] assms(2) that by (auto intro: nth_mem)
  have cce: "cce_reg ?h (fst (pdcch_items m ! t)) (snd (pdcch_items m ! t)) = Some (Some (?as ! t))" if "t < length ?as" for t
    using h that by (auto simp: pdcch_holds_def m_def split: prod.splits)
  have n: "pc_nof_bits ?h = 72 * m" "pc_nof_re ?h = 36 * m" using h by (simp_all add: pdcch_holds_def m_def)
  have eq: "[(cc, i). cc \<leftarrow> below (pc_nof_cce ?h), i \<leftarrow> below 9] = pdcch_items m" by (simp add: pdcch_items_def m_def)
  have "each (\<lambda>(cc, i) o1. do { a \<leftarrow> cce_reg ?h cc i; lte_reg_put inp (cc * 9 + 4 * i) o1 a c }) (pdcch_items m) out
      = moves inp (concat (map (\<lambda>t. reg_moves c (?as ! t) (fst (pdcch_items m ! t) * 9 + 4 * snd (pdcch_items m ! t))) [0..<length (pdcch_items m)])) out"
    by (rule each_nth) (simp add: case_prod_unfold cce len reg reg_put_moves)
  then show "lte_pdcch_put inp out (int i) c = map_option (Pair (72 * m)) (moves inp (ctl_moves c (cce_pairs m (news ! i))) out)"
    using idx unfolding lte_pdcch_put_def
    by (simp add: pk eq n ctl_moves_def cce_pairs_def len case_prod_unfold comp_def bind_Pair)
  have "each (\<lambda>(cc, i) o1. do { a \<leftarrow> cce_reg ?h cc i; lte_reg_get inp o1 (cc * 9 + 4 * i) a c }) (pdcch_items m) out
      = moves inp (concat (map (\<lambda>t. concat (map readback (reg_moves c (?as ! t) (fst (pdcch_items m ! t) * 9 + 4 * snd (pdcch_items m ! t))))) [0..<length (pdcch_items m)])) out"
    by (rule each_nth) (simp add: case_prod_unfold cce len reg reg_get_moves)
  then show "lte_pdcch_get inp out (int i) c = map_option (Pair (36 * m)) (moves inp (concat (map readback (ctl_moves c (cce_pairs m (news ! i))))) out)"
    using idx unfolding lte_pdcch_get_def
    by (simp add: pk eq n rb_ctl cce_pairs_def len case_prod_unfold comp_def bind_Pair)
qed

text \<open>A channel of consecutive groups of four symbols.\<close>

lemma quad_channel:
  assumes "alloc nc c refs" "guards_ok c" "int nc \<le> g_nof_osymb c" "distinct as" "set as \<subseteq> set refs"
    and put: "\<And>inp out. put inp out = moves inp (ctl_moves c (quad as)) out"
    and get: "\<And>grid buf. get grid buf = moves grid (concat (map readback (ctl_moves c (quad as)))) buf"
  shows "channel_moves put get (ctl_moves c (quad as)) (4 * int (length as)) (grid_size c)"
proof (rule ctl_channel [OF assms(1,2) _ _ assms(3) put get])
  show "distinct (map snd (quad as))" using assms(4) by (simp add: snd_quad)
  show "snd ` set (quad as) \<subseteq> set refs" unfolding set_map [symmetric] snd_quad by (rule assms(5))
  show "0 \<le> ip \<and> ip + 4 \<le> 4 * int (length as)" if "(ip, a) \<in> set (quad as)" for ip a using that by (auto simp: quad_def)
  show "\<exists>(ip, a)\<in>set (quad as). ip \<le> p \<and> p < ip + 4" if "0 \<le> p" "p < 4 * int (length as)" for p
  proof -
    have "(4 * int (nat (p div 4)), as ! nat (p div 4)) \<in> set (quad as)"
      using that by (auto simp: quad_def intro!: image_eqI [of _ _ "nat (p div 4)"])
    moreover have "4 * int (nat (p div 4)) \<le> p" "p < 4 * int (nat (p div 4)) + 4" using that by auto
    ultimately show ?thesis by blast
  qed
qed

lemma pcfich_channel:
  assumes "control_ok nc c pc ph news"
  shows "channel_moves (\<lambda>inp out. map_option snd (lte_pcfich_put inp out c)) (\<lambda>grid buf. map_option snd (lte_pcfich_get grid buf c))
    (ctl_moves c (quad pc)) (4 * int (length pc)) (grid_size c)"
  by (rule quad_channel [where nc = nc and refs = "pc @ ph @ concat news"])
    (use assms in \<open>auto simp: control_ok_def alloc_def pcfich_moves [OF assms] option.map_comp comp_def option.map_ident\<close>)

lemma phich_channel:
  assumes "control_ok nc c pc ph news"
  shows "channel_moves (\<lambda>inp out. map_option snd (lte_phich_put inp out c)) (\<lambda>grid buf. map_option snd (lte_phich_get grid buf c))
    (ctl_moves c (quad ph)) (4 * int (length ph)) (grid_size c)"
  by (rule quad_channel [where nc = nc and refs = "pc @ ph @ concat news"])
    (use assms in \<open>auto simp: control_ok_def alloc_def phich_moves [OF assms] option.map_comp comp_def option.map_ident\<close>)

text \<open>Only the first 9 m + 27 symbols of a PDCCH with m CCEs take part.\<close>

definition cce_symbols :: "int \<Rightarrow> int" where
  "cce_symbols m = (if m > 0 then 9 * m + 27 else 0)"

lemma pdcch_channel:
  assumes "control_ok nc c pc ph news" "i < length news"
  defines "m \<equiv> pc_nof_cce (g_pdcch c ! i)"
  shows "channel_moves (\<lambda>inp out. map_option snd (lte_pdcch_put inp out (int i) c)) (\<lambda>grid buf. map_option snd (lte_pdcch_get grid buf (int i) c))
    (ctl_moves c (cce_pairs m (news ! i))) (cce_symbols m) (grid_size c)"
proof (rule ctl_channel)
  show al: "alloc nc c (pc @ ph @ concat news)" and "guards_ok c" "int nc \<le> g_nof_osymb c" using assms by (simp_all add: control_ok_def)
  have h: "length (news ! i) = 9 * nat m" using assms by (simp add: control_ok_def pdcch_holds_def)
  have it: "length (pdcch_items m) = length (news ! i)" by (simp add: h pdcch_items_props)
  have "distinct (concat news)" using al by (simp add: alloc_def)
  then show "distinct (map snd (cce_pairs m (news ! i)))" using assms(2) by (auto simp: snd_cce_pairs distinct_concat_iff)
  show "snd ` set (cce_pairs m (news ! i)) \<subseteq> set (pc @ ph @ concat news)"
    unfolding set_map [symmetric] snd_cce_pairs using assms(2) by (auto intro: nth_mem)
  show "map_option snd (lte_pdcch_put inp out (int i) c) = moves inp (ctl_moves c (cce_pairs m (news ! i))) out" for inp out
    by (simp add: pdcch_moves [OF assms(1,2)] option.map_comp comp_def option.map_ident m_def)
  show "map_option snd (lte_pdcch_get grid buf (int i) c) = moves grid (concat (map readback (ctl_moves c (cce_pairs m (news ! i))))) buf" for grid buf
    by (simp add: pdcch_moves [OF assms(1,2)] option.map_comp comp_def option.map_ident m_def)
  show "0 \<le> ip \<and> ip + 4 \<le> cce_symbols m" if mem: "(ip, a) \<in> set (cce_pairs m (news ! i))" for ip a
  proof -
    obtain t where t: "t < length (pdcch_items m)" "case pdcch_items m ! t of (cc, j) \<Rightarrow> ip = cc * 9 + 4 * j"
      using mem unfolding cce_pairs_def it [symmetric] by (auto simp: case_prod_unfold)
    obtain cc j where cj: "pdcch_items m ! t = (cc, j)" by (cases "pdcch_items m ! t")
    then have "0 \<le> cc" "cc < m" "0 \<le> j" "j < 9" using nth_mem [OF t(1)] by (auto simp: pdcch_items_props)
    then show ?thesis using t(2) cj by (simp add: cce_symbols_def)
  qed
  show "\<exists>(ip, a)\<in>set (cce_pairs m (news ! i)). ip \<le> p \<and> p < ip + 4" if p: "0 \<le> p" "p < cce_symbols m" for p
  proof -
    have m: "0 < m" using p by (simp add: cce_symbols_def split: if_splits)
    define cc where "cc = min (p div 9) (m - 1)"
    define j where "j = (p - cc * 9) div 4"
    have "0 \<le> p div 9" "p div 9 * 9 \<le> p" "p < p div 9 * 9 + 9" using p by auto
    then have cc: "0 \<le> cc" "cc < m" "cc * 9 \<le> p" "p - cc * 9 < 36" using p m by (auto simp: cc_def cce_symbols_def min_def)
    then have j: "0 \<le> j" "j < 9" "4 * j \<le> p - cc * 9" "p - cc * 9 < 4 * j + 4" by (auto simp: j_def)
    have "(cc, j) \<in> set (pdcch_items m)" using cc j by (auto simp: pdcch_items_props)
    then obtain t where t: "t < length (pdcch_items m)" "pdcch_items m ! t = (cc, j)" by (auto simp: in_set_conv_nth)
    then have "(cc * 9 + 4 * j, news ! i ! t) \<in> set (cce_pairs m (news ! i))"
      by (auto simp: cce_pairs_def it intro!: image_eqI [of _ _ t])
    moreover have "cc * 9 + 4 * j \<le> p" "p < cc * 9 + 4 * j + 4" using j by auto
    ultimately show ?thesis by blast
  qed
qed

section \<open>Several channels in one subframe\<close>

text \<open>Channels with groups of their own do not disturb each other.\<close>

lemma ctl_disjoint:
  assumes "alloc nc c refs" "guards_ok c" "set as \<subseteq> set refs" "set bs \<subseteq> set refs" "set as \<inter> set bs = {}"
    "map snd ps = as" "map snd qs = bs"
  shows "targets (ctl_moves c ps) \<inter> targets (ctl_moves c qs) = {}"
proof (intro equals0I)
  fix q
  assume "q \<in> targets (ctl_moves c ps) \<inter> targets (ctl_moves c qs)"
  then obtain ip a iq b where a: "(ip, a) \<in> set ps" "q \<in> targets (reg_moves c a ip)" and b: "(iq, b) \<in> set qs" "q \<in> targets (reg_moves c b iq)"
    by (auto simp: ctl_moves_targets)
  have "a \<in> set as" "b \<in> set bs" using a(1) b(1) assms(6,7) by force+
  moreover from this have "a = b" using reg_moves_disjoint [OF assms(1,2) _ _ a(2) b(2)] assms(3,4) by blast
  ultimately show False using assms(5) by blast
qed

definition put_all :: "(complex_t list \<times> complex_t move list) list \<Rightarrow> complex_t list \<Rightarrow> complex_t list option" where
  "put_all = each (\<lambda>x. moves (fst x) (snd x))"

lemma put_all_simps [simp]: "put_all [] out = Some out" "put_all (x # xs) out = Option.bind (moves (fst x) (snd x) out) (put_all xs)"
  by (simp_all add: put_all_def)

lemma put_all_frame:
  "put_all xs out = Some g \<Longrightarrow> 0 \<le> q \<Longrightarrow> \<forall>x\<in>set xs. q \<notin> targets (snd x) \<Longrightarrow> g ! nat q = out ! nat q"
proof (induction xs arbitrary: out)
  case (Cons x xs)
  then obtain o1 where o1: "moves (fst x) (snd x) out = Some o1" "put_all xs o1 = Some g" by (auto split: bind_splits)
  then have "g ! nat q = o1 ! nat q" using Cons by simp
  then show ?case using moves_frame [OF o1(1) Cons.prems(2)] Cons.prems(3) by simp
qed simp

lemma put_all_values:
  assumes "put_all xs out = Some g" "sorted_wrt (\<lambda>x y. targets (snd x) \<inter> targets (snd y) = {}) xs"
    "x \<in> set xs" "(q, Src p) \<in> set (snd x)" "\<forall>x\<in>set xs. consistent (snd x)"
  shows "peek (fst x) p = Some (g ! nat q)"
  using assms
proof (induction xs arbitrary: out)
  case (Cons y xs)
  then obtain o1 where o1: "moves (fst y) (snd y) out = Some o1" "put_all xs o1 = Some g" by (auto split: bind_splits)
  show ?case
  proof (cases "x \<in> set xs")
    case True
    then show ?thesis using Cons.IH [OF o1(2)] Cons.prems by simp
  next
    case False
    then have x: "y = x" using Cons.prems(3) by simp
    then have "consistent (snd y)" using Cons.prems(5) by simp
    note v = moves_value [OF o1(1) this, of q "Src p"]
    have "q \<in> targets (snd y)" using Cons.prems(4) x by (force simp: targets_def)
    then have "\<forall>z\<in>set xs. q \<notin> targets (snd z)" using Cons.prems(2) by auto
    then have "g ! nat q = o1 ! nat q" using put_all_frame [OF o1(2)] v(2) Cons.prems(4) x by simp
    then show ?thesis using v(1) Cons.prems(4) x by simp
  qed
qed simp

lemma put_all_total:
  assumes "\<forall>x\<in>set xs. moves_fit (snd x) (int (length (fst x))) (int (length out))"
  shows "\<exists>g. put_all xs out = Some g \<and> length g = length out"
  using assms
proof (induction xs arbitrary: out)
  case (Cons x xs)
  then obtain o1 where "moves (fst x) (snd x) out = Some o1" "length o1 = length out" using moves_Some by fastforce
  then show ?case using Cons.IH [of o1] Cons.prems by simp
qed simp

end
