(* ===== verification/Grid_Pdsch.thy ===== *)
theory Grid_Pdsch
  imports Grid_Control
begin

unbundle bit_operations_syntax

text \<open>
  The shared channel: its symbols, the number of its resource elements and the blocks of its
  resource block groups. lte_pdsch_setup_rbgmask advances the number of groups for every PRB
  instead of every group, so that the entry of a group holds one PRB only; the lemmas state
  what the table holds. With groups of one PRB, that is below 10 PRB, the table is right.
\<close>

section \<open>Resource block groups\<close>

definition pdsch_shaped :: "lte_pdsch \<Rightarrow> bool" where
  "pdsch_shaped h \<longleftrightarrow> length (ps_rbg h) = 25 \<and> (\<forall>row\<in>set (ps_rbg h). length row = 4) \<and> length (ps_nof_re h) = 10"

text \<open>The groups that the mask selects among the first n.\<close>

definition groups :: "lte_pdsch \<Rightarrow> nat \<Rightarrow> nat list" where
  "groups h n = filter (\<lambda>i. rbg_mask h AND push_bit i 1 \<noteq> 0) [0..<n]"

lemma rbg_store_eq:
  fixes v :: int
  assumes "pdsch_shaped h" "0 \<le> nof_rbg h" "nof_rbg h < 25" "j < 4"
  defines "h' \<equiv> h\<lparr>ps_rbg := (ps_rbg h)[nat (nof_rbg h) := (ps_rbg h ! nat (nof_rbg h))[j := v]], nof_rbg := nof_rbg h + 1\<rparr>"
  shows "rbg_store (int j) v h = Some h'" "pdsch_shaped h'"
proof -
  have "length (ps_rbg h ! nat (nof_rbg h)) = 4" using assms by (auto simp: pdsch_shaped_def)
  then show "rbg_store (int j) v h = Some h'" "pdsch_shaped h'"
    using assms by (auto simp: rbg_store_def peek_def poke_def pdsch_shaped_def
        dest!: set_update_subset_insert [THEN subsetD])
qed

lemma rbg_inner:
  assumes h: "pdsch_shaped h" "0 \<le> nof_rbg h" "nof_rbg h + int k \<le> 25" "k \<le> 4"
  shows "\<exists>h'. each (\<lambda>j. rbg_store j (x + j)) (below (int k)) h = Some h' \<and> pdsch_shaped h'
    \<and> nof_rbg h' = nof_rbg h + int k \<and> rbg_mask h' = rbg_mask h \<and> ps_nof_re h' = ps_nof_re h \<and> nof_rb h' = nof_rb h
    \<and> (\<forall>j<k. ps_rbg h' ! (nat (nof_rbg h) + j) ! j = x + int j)
    \<and> (\<forall>t<nat (nof_rbg h). ps_rbg h' ! t = ps_rbg h ! t)"
  using h(3,4)
proof (induction k)
  case 0
  then show ?case using h(1) by simp
next
  case (Suc k)
  then obtain h' where IH: "each (\<lambda>j. rbg_store j (x + j)) (below (int k)) h = Some h'" "pdsch_shaped h'"
    "nof_rbg h' = nof_rbg h + int k" "rbg_mask h' = rbg_mask h" "ps_nof_re h' = ps_nof_re h" "nof_rb h' = nof_rb h"
    "\<forall>j<k. ps_rbg h' ! (nat (nof_rbg h) + j) ! j = x + int j" "\<forall>t<nat (nof_rbg h). ps_rbg h' ! t = ps_rbg h ! t" by auto
  have pre: "0 \<le> nof_rbg h'" "nof_rbg h' < 25" "k < 4" using IH(3) h(2) Suc.prems by auto
  note st = rbg_store_eq [OF IH(2) pre, where v = "x + int k"]
  have n: "nat (nof_rbg h') = nat (nof_rbg h) + k" "nat (nof_rbg h) + k < length (ps_rbg h')" "length (ps_rbg h' ! (nat (nof_rbg h) + k)) = 4"
    using IH(2,3) h(2) pre by (auto simp: pdsch_shaped_def nat_add_distrib)
  have "each (\<lambda>j. rbg_store j (x + j)) (below (int (Suc k))) h
    = Some (h'\<lparr>ps_rbg := (ps_rbg h')[nat (nof_rbg h') := (ps_rbg h' ! nat (nof_rbg h'))[k := x + int k]], nof_rbg := nof_rbg h' + 1\<rparr>)"
    unfolding below_Suc using IH(1) st(1) by (simp add: each_append)
  then show ?case
    using st(2) IH(3-8) n pre by (auto simp: less_Suc_eq nth_list_update)
qed

definition rbg_inv :: "nat \<Rightarrow> lte_pdsch \<Rightarrow> nat \<Rightarrow> lte_pdsch \<Rightarrow> bool" where
  "rbg_inv sz h0 n h \<longleftrightarrow> pdsch_shaped h \<and> rbg_mask h = rbg_mask h0 \<and> ps_nof_re h = ps_nof_re h0
     \<and> nof_rbg h = int (sz * length (groups h0 n))
     \<and> (\<forall>t<length (groups h0 n). \<forall>j < sz. ps_rbg h ! (sz * t + j) ! j = int sz * int (groups h0 n ! t) + int j)"

lemma length_groups: "length (groups h n) \<le> n"
  unfolding groups_def by (metis length_filter_le length_upt minus_nat.diff_0)

lemma rbg_outer:
  assumes h: "pdsch_shaped h0" "0 < sz" "sz \<le> 4" "sz * n \<le> 25"
  shows "\<exists>h'. each (\<lambda>i h. if rbg_mask h AND push_bit (nat i) 1 \<noteq> 0
         then each (\<lambda>j. rbg_store j (int sz * i + j)) (below (int sz)) h else Some h) (below (int n)) (h0\<lparr>nof_rbg := 0\<rparr>) = Some h'
    \<and> rbg_inv sz h0 n h'"
  using h(4)
proof (induction n)
  case 0
  then show ?case using h(1) by (simp add: rbg_inv_def groups_def pdsch_shaped_def)
next
  case (Suc n)
  let ?f = "\<lambda>i h. if rbg_mask h AND push_bit (nat i) 1 \<noteq> 0
         then each (\<lambda>j. rbg_store j (int sz * i + j)) (below (int sz)) h else Some h"
  from Suc obtain h' where IH: "each ?f (below (int n)) (h0\<lparr>nof_rbg := 0\<rparr>) = Some h'" and inv: "rbg_inv sz h0 n h'" by auto
  have loop: "each ?f (below (int (Suc n))) (h0\<lparr>nof_rbg := 0\<rparr>) = ?f (int n) h'"
    unfolding below_Suc using IH by (simp add: each_append)
  let ?g = "groups h0 n"
  show ?case
  proof (cases "rbg_mask h0 AND push_bit n 1 \<noteq> 0")
    case False
    then have "groups h0 (Suc n) = ?g" by (simp add: groups_def)
    then show ?thesis using loop inv False by (simp add: rbg_inv_def)
  next
    case True
    then have g: "groups h0 (Suc n) = ?g @ [n]" by (simp add: groups_def)
    have nn: "nof_rbg h' = int (sz * length ?g)" "nat (nof_rbg h') = sz * length ?g"
      using inv by (simp_all add: rbg_inv_def nat_mult_distrib)
    have "sz * length ?g \<le> sz * n" by (rule mult_le_mono2) (rule length_groups)
    then have "sz * length ?g + sz \<le> sz * n + sz" by (rule add_right_mono)
    also have "\<dots> = sz * Suc n" by simp
    finally have "sz * length ?g + sz \<le> 25" using Suc.prems by (rule order_trans)
    then have "int (sz * length ?g + sz) \<le> int 25" by (rule of_nat_mono)
    then have pre: "0 \<le> nof_rbg h'" "nof_rbg h' + int sz \<le> 25" using nn(1) by simp_all
    obtain h2 where h2: "each (\<lambda>j. rbg_store j (int sz * int n + j)) (below (int sz)) h' = Some h2" "pdsch_shaped h2"
      "nof_rbg h2 = nof_rbg h' + int sz" "rbg_mask h2 = rbg_mask h'" "ps_nof_re h2 = ps_nof_re h'"
      "\<forall>j < sz. ps_rbg h2 ! (nat (nof_rbg h') + j) ! j = int sz * int n + int j"
      "\<forall>t<nat (nof_rbg h'). ps_rbg h2 ! t = ps_rbg h' ! t"
      using rbg_inner [of h' sz "int sz * int n"] inv pre h(3) by (auto simp: rbg_inv_def)
    have "each ?f (below (int (Suc n))) (h0\<lparr>nof_rbg := 0\<rparr>) = Some h2"
      using loop True h2(1) inv by (simp add: rbg_inv_def)
    moreover have "ps_rbg h2 ! (sz * t + j) ! j = int sz * int ((?g @ [n]) ! t) + int j"
      if "t < Suc (length ?g)" "j < sz" for t j
    proof (cases "t = length ?g")
      case True
      then show ?thesis using h2(6) nn that by simp
    next
      case False
      then have t: "t < length ?g" using that by simp
      then have "sz * t + j < sz * length ?g" using that(2) by (metis add.commute mult_Suc_right nat_add_left_cancel_less less_le_trans Suc_leI mult_le_mono2)
      then have "ps_rbg h2 ! (sz * t + j) = ps_rbg h' ! (sz * t + j)" using h2(7) nn by simp
      then show ?thesis using inv t that by (simp add: rbg_inv_def nth_append)
    qed
    ultimately show ?thesis
      using h2(2-5) inv nn by (simp add: rbg_inv_def g)
  qed
qed

lemma nof_re_loop:
  assumes "length (ps_nof_re h) = 10" "length (nof_re_x_sf ph) = 10" "n \<le> 10"
  shows "\<exists>l. each (\<lambda>i h. do {
       n \<leftarrow> peek (nof_re_x_sf ph) i;
       re \<leftarrow> poke (ps_nof_re h) i (nof_rb h * cdiv n N);
       Some (h\<lparr>ps_nof_re := re\<rparr>) }) (below (int n)) h = Some (h\<lparr>ps_nof_re := l\<rparr>) \<and> length l = 10
    \<and> (\<forall>i<n. l ! i = nof_rb h * cdiv (nof_re_x_sf ph ! i) N)"
  using assms(3)
proof (induction n)
  case 0
  then show ?case using assms(1) by (intro exI [of _ "ps_nof_re h"]) simp
next
  case (Suc n)
  let ?f = "\<lambda>i h. do {
       n \<leftarrow> peek (nof_re_x_sf ph) i;
       re \<leftarrow> poke (ps_nof_re h) i (nof_rb h * cdiv n N);
       Some (h\<lparr>ps_nof_re := re\<rparr>) }"
  from Suc obtain l where l: "each ?f (below (int n)) h = Some (h\<lparr>ps_nof_re := l\<rparr>)" "length l = 10"
    "\<forall>i<n. l ! i = nof_rb h * cdiv (nof_re_x_sf ph ! i) N" by auto
  let ?l = "l[n := nof_rb h * cdiv (nof_re_x_sf ph ! n) N]"
  have "each ?f (below (int (Suc n))) h = Some (h\<lparr>ps_nof_re := ?l\<rparr>)"
    unfolding below_Suc using l(1,2) assms(2) Suc.prems by (simp add: each_append peek_def poke_def)
  moreover have "\<forall>i<Suc n. ?l ! i = nof_rb h * cdiv (nof_re_x_sf ph ! i) N" using l(2,3) Suc.prems by (simp add: less_Suc_eq)
  ultimately show ?case using l(2) by (intro exI [of _ ?l]) simp
qed

lemma RBG_SZ_bounds: "0 < RBG_SZ N" "RBG_SZ N \<le> 4"
  by (simp_all add: RBG_SZ_def)

lemma setup_rbgmask_eq:
  assumes "pdsch_shaped h" "0 < g_nof_prb c" "g_nof_prb c \<le> 25" "length (g_phch c) = 7" "length (nof_re_x_sf (g_phch c ! 6)) = 10"
  defines "N \<equiv> g_nof_prb c" and "sz \<equiv> nat (RBG_SZ (g_nof_prb c))"
  shows "\<exists>h'. lte_pdsch_setup_rbgmask h c = Some h' \<and> pdsch_shaped h' \<and> rbg_mask h' = rbg_mask h
    \<and> nof_rbg h' = int (sz * length (groups h (nat N div sz))) \<and> nof_rb h' = int sz * nof_rbg h'
    \<and> (\<forall>t<length (groups h (nat N div sz)). \<forall>j < sz. ps_rbg h' ! (sz * t + j) ! j = int sz * int (groups h (nat N div sz) ! t) + int j)
    \<and> (\<forall>i<10. ps_nof_re h' ! i = nof_rb h' * cdiv (nof_re_x_sf (g_phch c ! 6) ! i) N)"
proof -
  let ?n = "nat N div sz"
  have sz: "0 < sz" "sz \<le> 4" "int sz = RBG_SZ N" using RBG_SZ_bounds [of N] by (simp_all add: sz_def N_def)
  have n: "cdiv N (int sz) = int ?n" using assms(2) sz by (simp add: cdiv_nonneg N_def zdiv_int)
  have le: "sz * ?n \<le> 25" using order_trans [OF times_div_less_eq_dividend [of sz "nat N"]] assms(3) by (simp add: N_def)
  obtain h1 where h1: "each (\<lambda>i h. if rbg_mask h AND push_bit (nat i) 1 \<noteq> 0
         then each (\<lambda>j. rbg_store j (int sz * i + j)) (below (int sz)) h else Some h) (below (int ?n)) (h\<lparr>nof_rbg := 0\<rparr>) = Some h1"
    "rbg_inv sz h ?n h1" using rbg_outer [OF assms(1) sz(1,2) le] by blast
  let ?h2 = "h1\<lparr>nof_rb := int sz * nof_rbg h1\<rparr>"
  obtain l where l: "each (\<lambda>i h. do {
       n \<leftarrow> peek (nof_re_x_sf (g_phch c ! 6)) i;
       re \<leftarrow> poke (ps_nof_re h) i (nof_rb h * cdiv n N);
       Some (h\<lparr>ps_nof_re := re\<rparr>) }) (below (int 10)) ?h2 = Some (?h2\<lparr>ps_nof_re := l\<rparr>)" "length l = 10"
    "\<forall>i<10. l ! i = nof_rb ?h2 * cdiv (nof_re_x_sf (g_phch c ! 6) ! i) N"
    using nof_re_loop [of ?h2 "g_phch c ! 6" 10 N] h1(2) assms(5) by (auto simp: rbg_inv_def pdsch_shaped_def)
  have "lte_pdsch_setup_rbgmask h c = Some (?h2\<lparr>ps_nof_re := l\<rparr>)"
    unfolding lte_pdsch_setup_rbgmask_def Let_def N_def [symmetric] sz(3) [symmetric] n h1(1) Option.bind.bind_lunit
    using l(1) assms(2,4) by (simp add: phch_at_def peek_def [of "g_phch c"] N_def)
  then show ?thesis using h1(2) l(2,3) by (auto simp: rbg_inv_def pdsch_shaped_def)
qed

section \<open>Initialisation\<close>

definition pdsch_table_ok :: "lte_grid_config \<Rightarrow> bool" where
  "pdsch_table_ok c \<longleftrightarrow> length (g_pdsch c) = 10 \<and> (\<forall>h\<in>set (g_pdsch c). pdsch_shaped h) \<and> length (g_phch c) = 7
     \<and> length (symbol_mask (g_phch c ! 6)) = 10 \<and> length (nof_re_x_sf (g_phch c ! 6)) = 10"

text \<open>The shared channel changes its own tables only.\<close>

definition ps_only :: "lte_grid_config \<Rightarrow> lte_grid_config \<Rightarrow> bool" where
  "ps_only c d \<longleftrightarrow> pdsch_table_ok d \<and> (\<exists>h z. d = c\<lparr>g_phch := (g_phch c)[6 := h], g_pdsch := z\<rparr>)"

lemma ps_only_trans: "ps_only c d \<Longrightarrow> ps_only d e \<Longrightarrow> ps_only c e"
  by (auto simp: ps_only_def) blast

lemma ps_only_fields:
  assumes "ps_only c d"
  shows "pdsch_table_ok d" "g_nof_prb d = g_nof_prb c" "g_nof_pdsch d = g_nof_pdsch c" "geom d = geom c"
  using assms by (auto simp: ps_only_def geom_def)

lemma ps_only_refl: "pdsch_table_ok c \<Longrightarrow> ps_only c c"
  unfolding ps_only_def by (intro conjI exI [of _ "g_phch c ! 6"] exI [of _ "g_pdsch c"]) simp_all

lemma ps_only_pdsch:
  assumes "pdsch_table_ok c" "pdsch_shaped h" "i < 10"
  shows "set_pdsch (int i) h c = Some (c\<lparr>g_pdsch := (g_pdsch c)[i := h]\<rparr>)" "ps_only c (c\<lparr>g_pdsch := (g_pdsch c)[i := h]\<rparr>)"
proof -
  show "set_pdsch (int i) h c = Some (c\<lparr>g_pdsch := (g_pdsch c)[i := h]\<rparr>)"
    using assms by (simp add: set_pdsch_def poke_def pdsch_table_ok_def)
  have "\<forall>x\<in>set ((g_pdsch c)[i := h]). pdsch_shaped x"
    using assms by (auto simp: pdsch_table_ok_def dest!: set_update_subset_insert [THEN subsetD])
  then show "ps_only c (c\<lparr>g_pdsch := (g_pdsch c)[i := h]\<rparr>)"
    using assms(1) unfolding ps_only_def pdsch_table_ok_def
    by (intro conjI exI [of _ "g_phch c ! 6"] exI [of _ "(g_pdsch c)[i := h]"]) simp_all
qed

lemma ps_only_phch:
  assumes "pdsch_table_ok c" "length (symbol_mask h) = 10" "length (nof_re_x_sf h) = 10"
  shows "ps_only c (c\<lparr>g_phch := (g_phch c)[6 := h]\<rparr>)"
  using assms unfolding ps_only_def pdsch_table_ok_def
  by (intro conjI exI [of _ h] exI [of _ "g_pdsch c"]) simp_all

lemma each_ps_only:
  assumes "\<And>i k. i \<in> set xs \<Longrightarrow> ps_only c k \<Longrightarrow> \<exists>k'. f i k = Some k' \<and> ps_only k k'" "ps_only c d"
  shows "\<exists>e. each f xs d = Some e \<and> ps_only c e"
  using assms
proof (induction xs arbitrary: d)
  case (Cons x xs)
  then obtain k' where "f x d = Some k'" "ps_only d k'" by fastforce
  then show ?case using Cons ps_only_trans [of c d k'] by simp
qed simp

lemma lte_pdsch_init_sf_total:
  assumes "0 \<le> i" "i < 10" "length (symbol_mask h) = 10" "length (nof_re_x_sf h) = 10"
  shows "\<exists>r h'. lte_pdsch_init_sf i h k = Some (r, h') \<and> length (symbol_mask h') = 10 \<and> length (nof_re_x_sf h') = 10"
proof -
  have "\<exists>x. lte_pdsch_re_x_prb i k = Some x"
    using assms(1,2) by (simp add: lte_pdsch_re_x_prb_def peek_def pdsch_used_symbols_def)
  then obtain x where "lte_pdsch_re_x_prb i k = Some x" ..
  then show ?thesis using assms by (simp add: lte_pdsch_init_sf_def Let_def set_sf_def poke_def)
qed

lemma peek_pdsch:
  assumes "pdsch_table_ok k" "0 \<le> i" "i < 10"
  shows "peek (g_pdsch k) i = Some (g_pdsch k ! nat i)" "pdsch_shaped (g_pdsch k ! nat i)"
  using assms by (auto simp: pdsch_table_ok_def peek_def)

lemma lte_pdsch_init_total:
  assumes c0: "pdsch_table_ok c0" "param pg ''nof_pdsch'' (g_nof_pdsch c0) \<le> 10" "0 < g_nof_prb c0" "g_nof_prb c0 \<le> 25"
  shows "\<exists>d. lte_pdsch_init pg 6 c0 = Some (0, d) \<and> ps_only (c0\<lparr>g_nof_pdsch := param pg ''nof_pdsch'' (g_nof_pdsch c0)\<rparr>) d"
proof -
  define c where "c = c0\<lparr>g_nof_pdsch := param pg ''nof_pdsch'' (g_nof_pdsch c0)\<rparr>"
  let ?h = "(g_phch c0 ! 6)\<lparr>ch_name := ''PDSCH''\<rparr>"
  let ?c0 = "c0\<lparr>g_phch := (g_phch c0)[6 := ?h]\<rparr>" and ?c1 = "c\<lparr>g_phch := (g_phch c)[6 := ?h]\<rparr>"
  have c: "pdsch_table_ok c" "g_nof_pdsch c \<le> 10" "0 < g_nof_prb c" "g_nof_prb c \<le> 25" using c0 by (simp_all add: c_def pdsch_table_ok_def)
  have len: "length (g_phch c0) = 7" using c0(1) by (simp add: pdsch_table_ok_def)
  have o1: "ps_only c ?c1" by (rule ps_only_phch) (use c(1) in \<open>simp_all add: pdsch_table_ok_def c_def\<close>)
  have par: "(case pg ''nof_pdsch'' of None \<Rightarrow> ?c0 | Some v \<Rightarrow> ?c0\<lparr>g_nof_pdsch := v\<rparr>) = ?c1"
    by (cases "pg ''nof_pdsch''") (simp_all add: c_def param_def)
  have "\<exists>e. each (\<lambda>i k. map_option snd (lte_pdsch_init_params_ch pg i k)) (below (g_nof_pdsch c)) ?c1 = Some e \<and> ps_only c e"
  proof (rule each_ps_only [OF _ o1])
    fix i k
    assume i: "i \<in> set (below (g_nof_pdsch c))" and k: "ps_only c k"
    let ?g = "case pg (''pdsch_rbgmask_'' @ dec_str (nat i)) of None \<Rightarrow> g_pdsch k ! nat i | Some v \<Rightarrow> (g_pdsch k ! nat i)\<lparr>rbg_mask := v\<rparr>"
    have i': "0 \<le> i" "i < 10" using i c(2) by auto
    note p = peek_pdsch [OF ps_only_fields(1) [OF k] i']
    have "pdsch_shaped ?g" using p(2) by (simp add: pdsch_shaped_def split: option.splits)
    then show "\<exists>k'. map_option snd (lte_pdsch_init_params_ch pg i k) = Some k' \<and> ps_only k k'"
      using ps_only_pdsch [OF ps_only_fields(1) [OF k], of ?g "nat i"] i' p(1) by (simp add: lte_pdsch_init_params_ch_def)
  qed
  then obtain c2 where c2: "lte_pdsch_init_params pg ?c0 = Some (0, c2)" "ps_only c c2"
    using c(2) unfolding lte_pdsch_init_params_def par Let_def by auto
  have "\<exists>e. each (\<lambda>i k. do { h \<leftarrow> phch_at k 6; (r, h1) \<leftarrow> lte_pdsch_init_sf i h k; set_phch 6 h1 k }) (below 10) c2 = Some e \<and> ps_only c e"
  proof (rule each_ps_only [OF _ c2(2)])
    fix i k
    assume i: "i \<in> set (below 10)" and k: "ps_only c k"
    note t = ps_only_fields(1) [OF k]
    obtain r h' where h': "lte_pdsch_init_sf i (g_phch k ! 6) k = Some (r, h')" "length (symbol_mask h') = 10" "length (nof_re_x_sf h') = 10"
      using lte_pdsch_init_sf_total [of i "g_phch k ! 6" k] i t by (auto simp: pdsch_table_ok_def)
    then show "\<exists>k'. (do { h \<leftarrow> phch_at k 6; (r, h1) \<leftarrow> lte_pdsch_init_sf i h k; set_phch 6 h1 k }) = Some k' \<and> ps_only k k'"
      using ps_only_phch [OF t h'(2,3)] t phch_set [of k 6] by (simp add: pdsch_table_ok_def)
  qed
  then obtain c3 where c3: "each (\<lambda>i k. do { h \<leftarrow> phch_at k 6; (r, h1) \<leftarrow> lte_pdsch_init_sf i h k; set_phch 6 h1 k }) (below 10) c2 = Some c3"
    "ps_only c c3" by blast
  have "\<exists>e. each (\<lambda>i k. do { h \<leftarrow> peek (g_pdsch k) i; h1 \<leftarrow> lte_pdsch_setup_rbgmask h k; set_pdsch i h1 k }) (below (g_nof_pdsch c)) c3 = Some e \<and> ps_only c e"
  proof (rule each_ps_only [OF _ c3(2)])
    fix i k
    assume i: "i \<in> set (below (g_nof_pdsch c))" and k: "ps_only c k"
    note t = ps_only_fields [OF k]
    have i': "0 \<le> i" "i < 10" using i c(2) by auto
    note p = peek_pdsch [OF t(1) i']
    obtain h' where h': "lte_pdsch_setup_rbgmask (g_pdsch k ! nat i) k = Some h'" "pdsch_shaped h'"
      using setup_rbgmask_eq [OF p(2), of k] c(3,4) t(1,2) by (auto simp: pdsch_table_ok_def)
    then show "\<exists>k'. (do { h \<leftarrow> peek (g_pdsch k) i; h1 \<leftarrow> lte_pdsch_setup_rbgmask h k; set_pdsch i h1 k }) = Some k' \<and> ps_only k k'"
      using ps_only_pdsch [OF t(1) h'(2), of "nat i"] i' p(1) by simp
  qed
  then obtain d where d: "each (\<lambda>i k. do { h \<leftarrow> peek (g_pdsch k) i; h1 \<leftarrow> lte_pdsch_setup_rbgmask h k; set_pdsch i h1 k }) (below (g_nof_pdsch c3)) c3 = Some d"
    "ps_only c d" using ps_only_fields(3) [OF c3(2)] by auto
  show ?thesis
    unfolding lte_pdsch_init_def phch_set [OF len, of 6, simplified]
    using c2 c3(1) d by (auto simp: phch_set [OF len, of 6, simplified] c_def)
qed

end
