(* ===== verification/Grid_Init.thy ===== *)
theory Grid_Init
  imports Grid_Pdsch
begin

unbundle bit_operations_syntax

text \<open>
  The initialisation of the resource grid as a whole (lte_grid_init of base.c, on the zeroed
  static configuration): with the parameters of a cell of 6 to 25 PRB it succeeds whenever the
  control region has room for the requested PDCCHs, and gives PCFICH, PHICH and every PDCCH
  groups of their own. What the channels of the control region put into a subframe can then be
  got out of it again.
\<close>

section \<open>The size of the control region\<close>

text \<open>The groups of a symbol in one PRB: two where the symbol has reference positions, else three.\<close>

definition symbol_groups :: "int \<Rightarrow> int \<Rightarrow> nat \<Rightarrow> nat" where
  "symbol_groups osymb ports l = (if l = 0 \<or> l = 1 \<and> ports = 4 \<or> l = 3 \<and> osymb = 12 then 2 else 3)"

lemma reg_num_groups:
  assumes "g_nof_osymb c = 12 \<or> g_nof_osymb c = 14" "g_nof_ports c = 1 \<or> g_nof_ports c = 2 \<or> g_nof_ports c = 4" "l < 4"
  shows "lte_reg_num (int l) c = int (symbol_groups (g_nof_osymb c) (g_nof_ports c) l)"
proof -
  have mask: "lte_refsig_symbolmask (-1) c = (if g_nof_osymb c = 12 then 585 else 2193) + (if g_nof_ports c = 4 then if g_nof_osymb c = 12 then 130 else 258 else 0)"
    using assms(1,2) by (elim disjE) (simp_all add: lte_refsig_symbolmask_def Let_def cdiv_nonneg)
  consider "l = 0" | "l = 1" | "l = 2" | "l = 3" using assms(3) by linarith
  then show ?thesis
    by cases (use assms(1,2) in \<open>elim disjE; simp add: lte_reg_num_def lte_symbol_has_refsig_or_resv_def mask symbol_groups_def Let_def cdiv_nonneg\<close>)+
qed

lemma region_size_eq:
  "region_size nc c = nat (g_nof_prb c) * (\<Sum>l<nc. nat (lte_reg_num (int l) c))"
proof -
  have "{a. in_region nc c a} = {..<nat (g_nof_prb c)} \<times> (SIGMA l : {..<nc}. {..<nat (lte_reg_num (int l) c)})"
    by (auto simp: in_region_def)
  then show ?thesis by (simp add: region_size_def card_cartesian_product)
qed

section \<open>The parameters of a cell\<close>

text \<open>The standard has cell identities up to 503; below 2 ^ 22 no product of one overflows an int.\<close>

definition cell_params :: "pget \<Rightarrow> int \<Rightarrow> int \<Rightarrow> int \<Rightarrow> int \<Rightarrow> int \<Rightarrow> bool" where
  "cell_params pg N s q k cid \<longleftrightarrow> pg ''nof_prb'' = Some N \<and> pg ''nof_osymb_x_subf'' = Some s \<and> pg ''nof_ports'' = Some q
     \<and> pg ''cfi'' = Some k \<and> pg ''cell_id'' = Some cid
     \<and> 6 \<le> N \<and> N \<le> 25 \<and> (s = 12 \<or> s = 14) \<and> (q = 1 \<or> q = 2 \<or> q = 4) \<and> 1 \<le> k \<and> k \<le> 3 \<and> 0 \<le> cid \<and> cid < 2 ^ 22"

definition control_symbols :: "int \<Rightarrow> int \<Rightarrow> nat" where
  "control_symbols N k = nat (if N \<le> 10 then k + 1 else k)"

definition channel_params :: "pget \<Rightarrow> nat \<Rightarrow> (nat \<Rightarrow> nat) \<Rightarrow> bool" where
  "channel_params pg P m \<longleftrightarrow> pg ''nof_pdcch'' = Some (int P) \<and> P \<le> 20
     \<and> (\<forall>i<P. pg (''pdcch_nofcce_'' @ dec_str i) = Some (int (m i)) \<and> m i \<le> 8)
     \<and> param pg ''nof_pdsch'' 0 \<le> 10"

definition control_room :: "int \<Rightarrow> int \<Rightarrow> int \<Rightarrow> int \<Rightarrow> nat \<Rightarrow> (nat \<Rightarrow> nat) \<Rightarrow> bool" where
  "control_room N s q k P m \<longleftrightarrow> 4 + 3 * ((nat N + 7) div 8) + (\<Sum>i<P. 9 * m i)
     \<le> nat N * (\<Sum>l<control_symbols N k. symbol_groups s q l)"

text \<open>The configuration before the channels are set up.\<close>

definition grid_ready :: "nat \<Rightarrow> pget \<Rightarrow> lte_grid_config \<Rightarrow> bool" where
  "grid_ready nc pg c \<longleftrightarrow> cell_ok nc c \<and> g_nof_prb c \<le> 25 \<and> g_nof_control_symbols c = int nc \<and> int nc \<le> g_nof_osymb c
     \<and> guards_ok c \<and> shape_ok c \<and> pdcch_params_ok pg c \<and> pdsch_table_ok c \<and> param pg ''nof_pdsch'' (g_nof_pdsch c) \<le> 10
     \<and> length (g_refsig_cfg c) = 4 \<and> g_nof_ports c \<le> 4
     \<and> 4 + 3 * nat (phich_groups c) + (\<Sum>i<pdcchs pg c. 9 * nat (cces pg c i)) \<le> region_size nc c"

lemma grid_readyD:
  assumes "grid_ready nc pg c"
  shows "cell_ok nc c" "g_nof_prb c \<le> 25" "g_nof_control_symbols c = int nc" "int nc \<le> g_nof_osymb c" "guards_ok c" "shape_ok c"
    "pdcch_params_ok pg c" "pdsch_table_ok c" "param pg ''nof_pdsch'' (g_nof_pdsch c) \<le> 10" "length (g_refsig_cfg c) = 4"
    "g_nof_ports c \<le> 4" "4 + 3 * nat (phich_groups c) + (\<Sum>i<pdcchs pg c. 9 * nat (cces pg c i)) \<le> region_size nc c"
  using assms unfolding grid_ready_def by - (elim conjE, assumption)+

lemma fft_guards:
  assumes "6 \<le> N" "N \<le> 25"
  defines "f \<equiv> fft_size N"
  shows "12 * N \<le> f" "0 \<le> cdiv (f - N * 12) 2" "cdiv (f - N * 12) 2 + 12 * N \<le> f"
proof -
  show le: "12 * N \<le> f" using assms by (auto simp: fft_size_def)
  then have "cdiv (f - N * 12) 2 = (f - N * 12) div 2" by (simp add: cdiv_nonneg)
  then show "0 \<le> cdiv (f - N * 12) 2" "cdiv (f - N * 12) 2 + 12 * N \<le> f" using le by auto
qed

text \<open>The static configuration with the parameters read.\<close>

definition cell_config :: "int \<Rightarrow> int \<Rightarrow> int \<Rightarrow> int \<Rightarrow> int \<Rightarrow> int \<Rightarrow> int \<Rightarrow> lte_grid_config" where
  "cell_config N s q k cid dbg vb = grid_zero\<lparr>g_nof_prb := N, g_fft_size := fft_size N, g_debug := dbg, g_verbose := vb,
    g_nof_osymb := s, g_nof_ports := q, g_cfi := k, g_cell_id := cid, g_nof_re_symb := N * 12,
    g_pre_guard := cdiv (fft_size N - N * 12) 2, g_post_guard := cdiv (fft_size N - N * 12) 2, g_nof_rs_x_symb := 2 * N,
    g_nof_control_symbols := int (control_symbols N k)\<rparr>"

lemma par_int_ex:
  assumes "upd w c = c" "0 < n"
  shows "\<exists>n' v. par_int pg name upd (n, c) = (n', upd v c) \<and> 0 < n'"
proof (cases "pg name")
  case None
  then show ?thesis using assms by (intro exI [of _ n] exI [of _ w]) (simp add: par_int_def)
next
  case (Some v)
  then show ?thesis using assms by (intro exI [of _ "n + 1"] exI [of _ v]) (simp add: par_int_def)
qed

lemma lte_grid_init_params_cell:
  assumes p: "cell_params pg N s q k cid"
  shows "\<exists>n dbg vb. lte_grid_init_params pg grid_zero = (n, cell_config N s q k cid dbg vb) \<and> 0 < n"
proof -
  have f: "pg ''nof_prb'' = Some N" "pg ''nof_osymb_x_subf'' = Some s" "pg ''nof_ports'' = Some q" "pg ''cfi'' = Some k" "pg ''cell_id'' = Some cid"
    using p unfolding cell_params_def by - (elim conjE, assumption)+
  have b: "6 \<le> N" "N \<le> 25" "1 \<le> k" using p by (simp_all add: cell_params_def)
  define c2 where "c2 = grid_zero\<lparr>g_nof_prb := N, g_fft_size := fft_size N\<rparr>"
  obtain n3 dbg where s3: "par_int pg ''debug'' (\<lambda>v k. k\<lparr>g_debug := v\<rparr>) (1, c2\<lparr>g_debug := 0\<rparr>) = (n3, c2\<lparr>g_debug := dbg\<rparr>)" "0 < n3"
    using par_int_ex [of "\<lambda>v k. k\<lparr>g_debug := v\<rparr>" 0 "c2\<lparr>g_debug := 0\<rparr>" 1 pg "''debug''"] by auto
  obtain n4 vb where s4: "par_int pg ''verbose'' (\<lambda>v k. k\<lparr>g_verbose := v\<rparr>) (n3, c2\<lparr>g_debug := dbg\<rparr>) = (n4, c2\<lparr>g_debug := dbg, g_verbose := vb\<rparr>)" "0 < n4"
    using par_int_ex [of "\<lambda>v k. k\<lparr>g_verbose := v\<rparr>" "g_verbose c2" "c2\<lparr>g_debug := dbg\<rparr>" n3 pg "''verbose''"] s3(2) by auto
  have f0: "fft_size N \<noteq> -1" using b fft_guards(1) [of N] by simp
  have cs: "int (control_symbols N k) = (if N \<le> 10 then k + 1 else k)" using b by (simp add: control_symbols_def)
  have c2': "par_int pg ''nof_prb'' (\<lambda>v k. k\<lparr>g_nof_prb := v\<rparr>) (0, grid_zero) = (1, grid_zero\<lparr>g_nof_prb := N\<rparr>)" by (simp add: par_int_def f)
  show ?thesis
    unfolding lte_grid_init_params_def c2' Let_def prod.case cell_config_def cs
    by (rule exI [of _ "n4 + 5"], rule exI [of _ dbg], rule exI [of _ vb])
      (use f0 b s4(2) in \<open>simp add: s3(1) [unfolded c2_def] s4(1) [unfolded c2_def] par_int_def [of pg "''nof_osymb_x_subf''"]
        par_int_def [of pg "''nof_ports''"] par_int_def [of pg "''cfi''"] par_int_def [of pg "''cell_id''"] f\<close>)
qed

section \<open>The channels\<close>

lemma below_nat: "below (int (nat n)) = below n"
  by (simp add: below_def)

lemma refsig_loop:
  assumes "length (g_refsig_cfg c) = 4" "n \<le> 4"
  shows "\<exists>hs. each (\<lambda>i k. do {
       h \<leftarrow> peek (g_refsig_cfg k) i;
       hs \<leftarrow> poke (g_refsig_cfg k) i (snd (lte_refsig_init i h k));
       Some (k\<lparr>g_refsig_cfg := hs\<rparr>) }) (below (int n)) c = Some (c\<lparr>g_refsig_cfg := hs\<rparr>) \<and> length hs = 4"
  using assms(2)
proof (induction n)
  case 0
  then show ?case using assms(1) by (intro exI [of _ "g_refsig_cfg c"]) simp
next
  case (Suc n)
  then obtain hs where "each (\<lambda>i k. do {
       h \<leftarrow> peek (g_refsig_cfg k) i;
       hs \<leftarrow> poke (g_refsig_cfg k) i (snd (lte_refsig_init i h k));
       Some (k\<lparr>g_refsig_cfg := hs\<rparr>) }) (below (int n)) c = Some (c\<lparr>g_refsig_cfg := hs\<rparr>)" "length hs = 4" by auto
  then show ?case using Suc.prems unfolding below_Suc
    by (intro exI [of _ "hs[n := snd (lte_refsig_init (int n) (hs ! n) (c\<lparr>g_refsig_cfg := hs\<rparr>))]"])
      (simp add: each_append peek_def poke_def)
qed

text \<open>Changes that the allocation does not see.\<close>

lemma ready_phch:
  assumes "grid_ready nc pg c" "alloc nc c []" "length y = 7" "y ! 6 = g_phch c ! 6"
  shows "grid_ready nc pg (c\<lparr>g_phch := y, g_refsig_cfg := hs\<rparr>) \<or> length hs \<noteq> 4" "alloc nc (c\<lparr>g_phch := y, g_refsig_cfg := hs\<rparr>) []"
proof -
  let ?c = "c\<lparr>g_phch := y, g_refsig_cfg := hs\<rparr>"
  have g: "geom ?c = geom c" by (simp add: geom_def)
  have eq: "pdcchs pg ?c = pdcchs pg c" "cces pg ?c = cces pg c" by (simp add: pdcchs_def, intro ext, simp add: cces_def)
  show "alloc nc ?c []" using assms(2) alloc_geom [OF g] by simp
  show "grid_ready nc pg ?c \<or> length hs \<noteq> 4"
    using assms(1,3,4) cell_ok_geom [OF g] region_size_geom [OF g] eq
    by (auto simp: grid_ready_def guards_ok_def shape_ok_def pdcch_params_ok_def pdsch_table_ok_def phich_groups_def)
qed

lemma lte_grid_init_channels_ok:
  assumes "grid_ready nc pg c" "alloc nc c []"
  shows "\<exists>d pc ph news. lte_grid_init_channels pg c = Some (0, d) \<and> control_ok nc d pc ph news \<and> geom d = geom c
    \<and> length pc = 4 \<and> length ph = 3 * nat (phich_groups c) \<and> length news = pdcchs pg c
    \<and> (\<forall>i<length news. pc_nof_cce (g_pdcch d ! i) = cces pg c i)"
proof -
  note r = grid_readyD [OF assms(1)]
  have "nat (g_nof_ports c) \<le> 4" using r(11) by simp
  then obtain hs where hs: "each (\<lambda>i k. do {
       h \<leftarrow> peek (g_refsig_cfg k) i;
       hs \<leftarrow> poke (g_refsig_cfg k) i (snd (lte_refsig_init i h k));
       Some (k\<lparr>g_refsig_cfg := hs\<rparr>) }) (below (g_nof_ports c)) c = Some (c\<lparr>g_refsig_cfg := hs\<rparr>)" "length hs = 4"
    using refsig_loop [OF r(10), of "nat (g_nof_ports c)"] unfolding below_nat by blast
  define y where "y = (g_phch c)[0 := pbch_cfg c, 1 := sync_cfg ''PSS'' 1 c, 2 := sync_cfg ''SSS'' 2 c]"
  define c0 where "c0 = c\<lparr>g_phch := y, g_refsig_cfg := hs\<rparr>"
  have len: "length (g_phch c) = 7" using r(6) by (simp add: shape_ok_def)
  have plain: "each_rc (lte_ch_init pg) [0, 1, 2] (c\<lparr>g_refsig_cfg := hs\<rparr>) = Some (0, c0)"
    using len by (simp add: lte_ch_init_plain c0_def y_def pbch_cfg_def sync_cfg_def half_def)
  have c0: "grid_ready nc pg c0" "alloc nc c0 []" and g0: "geom c0 = geom c"
    using ready_phch [OF assms, of y hs] hs(2) len by (simp_all add: c0_def y_def geom_def)
  note r0 = grid_readyD [OF c0(1)]
  have prb: "g_nof_prb c0 \<le> 72" using r0(2) by simp
  obtain d ph news h3 h4 h5 where d: "each_rc (lte_ch_init pg) [3, 4, 5] c0 = Some (0, d)" "mid_only c0 d"
    "alloc nc d (map (pcfich_ref c0) [0..<4] @ ph @ concat news)"
    "cr_pcfich (g_control d) = map (\<lambda>i. Some (pcfich_ref c0 i)) [0..<4]" "pcfich_nregs (g_control d) = 4"
    "take (length ph) (cr_phich (g_control d)) = map Some ph" "phich_nregs (g_control d) = int (length ph)" "length ph = 3 * nat (phich_groups c0)"
    "length news = pdcchs pg c0" "\<forall>i<length news. pdcch_holds (g_pdcch d ! i) (news ! i)"
    "\<forall>i<pdcchs pg c0. pc_nof_cce (g_pdcch d ! i) = cces pg c0 i" "length (g_pdcch d) = 20" "g_nof_pdcch d = int (pdcchs pg c0)"
    "g_phch d = (g_phch c0)[3 := h3, 4 := h4, 5 := h5]"
    using lte_ch_init_control [OF r0(1) c0(2) r0(6) prb r0(3,7,12)] by blast
  note gd = mid_only_fields [OF d(2)]
  have lend: "length (g_phch d) = 7" using d(14) r0(6) by (simp add: shape_ok_def)
  have "pdsch_table_ok (cleared 6 d)" using r0(8) gd(2) d(14) lend by (simp add: pdsch_table_ok_def cleared_def)
  moreover have "param pg ''nof_pdsch'' (g_nof_pdsch (cleared 6 d)) \<le> 10" using r0(9) gd(3) by (simp add: cleared_def)
  moreover have "0 < g_nof_prb (cleared 6 d)" "g_nof_prb (cleared 6 d) \<le> 25"
    using r0(1,2) geom_eq(1) [OF gd(1)] by (simp_all add: cleared_def cell_ok_def)
  ultimately obtain e where e: "lte_ch_init pg 6 d = Some (0, e)"
    "ps_only ((cleared 6 d)\<lparr>g_nof_pdsch := param pg ''nof_pdsch'' (g_nof_pdsch (cleared 6 d))\<rparr>) e"
    using lte_pdsch_init_total [of "cleared 6 d" pg] lte_ch_init_cleared(4) [OF lend] by auto
  have same: "g_control e = g_control d" "g_pdcch e = g_pdcch d" "g_nof_pdcch e = g_nof_pdcch d" "geom e = geom d"
    using e(2) by (auto simp: ps_only_def cleared_def geom_def)
  have eq: "pdcchs pg c0 = pdcchs pg c" "cces pg c0 = cces pg c" "phich_groups c0 = phich_groups c"
    by (simp add: pdcchs_def c0_def, intro ext, simp_all add: cces_def c0_def phich_groups_def)
  define T where "T = [3, 4, 5] @ [6 :: int]"
  have t: "each_rc (lte_ch_init pg) T c0 = Some (0, e)"
    unfolding T_def each_rc_append d(1) using e(1) by simp
  have all: "below 7 = [0, 1, 2] @ T" by (simp add: below_def upt_rec T_def)
  have "lte_grid_init_channels pg c = Some (0, e)"
    unfolding lte_grid_init_channels_def hs(1) all Option.bind.bind_lunit each_rc_append plain using t by simp
  moreover have "geom e = geom c" using same(4) gd(1) g0 by simp
  moreover have "alloc nc e (map (pcfich_ref c0) [0..<4] @ ph @ concat news)"
    using d(3) alloc_geom [OF same(4)] same(1) by simp
  moreover have "guards_ok e" "int nc \<le> g_nof_osymb e"
    using r(4,5) geom_eq [OF \<open>geom e = geom c\<close>] by (simp_all add: guards_ok_def)
  moreover have "0 \<le> pc_nof_cce (g_pdcch d ! i)" if "i < length news" for i
    using d(9,11) that r0(7) by (simp add: pdcch_params_ok_def)
  moreover have "length news \<le> 20" using d(9) r0(7) by (simp add: pdcch_params_ok_def)
  ultimately show ?thesis
    using d(4-13) by (intro exI [of _ e] exI [of _ "map (pcfich_ref c0) [0..<4]"] exI [of _ ph] exI [of _ news])
      (simp add: control_ok_def same eq)
qed

section \<open>The whole initialisation\<close>

lemma cell_ready:
  fixes N s q k cid dbg vb :: int
  assumes p: "cell_params pg N s q k cid" "channel_params pg P m" "control_room N s q k P m"
  defines "nc \<equiv> control_symbols N k" and "c1 \<equiv> cell_config N s q k cid dbg vb"
  shows "lte_grid_init_reg c1 (int nc) = Some (0, init_regs nc c1)" "grid_ready nc pg (init_regs nc c1)"
    "alloc nc (init_regs nc c1) []" "pdcchs pg (init_regs nc c1) = P" "i < P \<Longrightarrow> cces pg (init_regs nc c1) i = int (m i)"
    "geom (init_regs nc c1) = geom c1"
proof -
  have b: "6 \<le> N" "N \<le> 25" "s = 12 \<or> s = 14" "q = 1 \<or> q = 2 \<or> q = 4" "1 \<le> k" "k \<le> 3" "0 \<le> cid"
    using p(1) unfolding cell_params_def by - (elim conjE, assumption)+
  have nc: "0 < nc" "nc \<le> 4" using b by (auto simp: nc_def control_symbols_def)
  have f1: "g_nof_prb c1 = N" "g_cell_id c1 = cid" "g_nof_osymb c1 = s" "g_nof_ports c1 = q" "g_nof_control_symbols c1 = int nc"
    "g_fft_size c1 = fft_size N" "g_pre_guard c1 = cdiv (fft_size N - N * 12) 2" "g_regs c1 = (\<lambda>_. reg_zero)" "g_phch c1 = replicate 7 phch_zero"
    "g_pdcch c1 = g_pdcch grid_zero" "g_pdsch c1 = g_pdsch grid_zero" "g_nof_pdcch c1 = 0" "g_nof_pdsch c1 = 0" "g_refsig_cfg c1 = replicate 4 phch_zero"
    "length (cr_pcfich (g_control c1)) = 4" "length (cr_phich (g_control c1)) = 28"
    by (simp_all add: c1_def cell_config_def nc_def grid_zero_def)
  have groups: "lte_reg_num (int l) c1 = int (symbol_groups s q l)" if "l < 4" for l
    using reg_num_groups [of c1 l] that b(3,4) by (simp add: f1)
  have num0: "lte_reg_num 0 c1 = 2" using groups [of 0] by (simp add: symbol_groups_def)
  have shaped: "regs_shaped c1" by (simp add: regs_shaped_def f1 reg_zero_def)
  show "lte_grid_init_reg c1 (int nc) = Some (0, init_regs nc c1)"
    by (rule lte_grid_init_reg_eq) (use b nc shaped f1 in simp_all)
  show alloc: "alloc nc (init_regs nc c1) []" by (rule alloc_init) (simp_all add: f1 reg_zero_def num0)
  let ?c = "init_regs nc c1"
  show g: "geom ?c = geom c1" by (simp add: init_regs_def with_regs_def geom_def)
  have same: "g_phch ?c = g_phch c1" "g_pdcch ?c = g_pdcch c1" "g_pdsch ?c = g_pdsch c1" "g_nof_pdcch ?c = 0" "g_nof_pdsch ?c = 0"
    "g_refsig_cfg ?c = g_refsig_cfg c1" "length (cr_pcfich (g_control ?c)) = 4" "length (cr_phich (g_control ?c)) = 28"
    by (simp_all add: init_regs_def with_regs_def f1)
  show P: "pdcchs pg ?c = P" using p(2) by (simp add: pdcchs_def param_def channel_params_def)
  have cces: "cces pg ?c i = int (m i)" if "i < P" for i using p(2) that by (simp add: cces_def param_def channel_params_def)
  then show "i < P \<Longrightarrow> cces pg ?c i = int (m i)" by simp
  have pd: "length (g_pdcch c1) = 20" "\<forall>i<20. cce_shaped (g_pdcch c1 ! i)" by (simp_all add: f1 grid_zero_def cce_shaped_def)
  have ps: "pdsch_table_ok ?c" by (auto simp: pdsch_table_ok_def same f1 grid_zero_def pdsch_shaped_def phch_zero_def)
  have "nat ((N + 7) div 8) = (nat N + 7) div 8" using b(1) by (simp add: nat_div_distrib nat_add_distrib)
  then have room: "4 + 3 * nat (phich_groups ?c) + (\<Sum>i<pdcchs pg ?c. 9 * nat (cces pg ?c i)) \<le> region_size nc ?c"
    using p(3) nc(2) cces groups unfolding control_room_def region_size_eq P nc_def [symmetric]
    by (simp add: phich_groups_def geom_eq(1) [OF g] reg_num_geom [OF g] f1)
  have par: "pdcch_params_ok pg ?c"
    using p(2) pd cces unfolding pdcch_params_ok_def P by (simp add: same channel_params_def param_def)
  have cell: "cell_ok nc ?c" unfolding cell_ok_geom [OF g] using b nc num0 p(1) by (simp add: cell_ok_def f1 cell_params_def)
  have "guards_ok ?c" using fft_guards [OF b(1,2)] by (simp add: guards_ok_def geom_eq [OF g] f1)
  moreover have "int nc \<le> s" using nc(2) b(3) by auto
  moreover have "param pg ''nof_pdsch'' 0 \<le> 10" using p(2) by (simp add: channel_params_def)
  ultimately show "grid_ready nc pg ?c"
    using cell par ps room b(2,4) unfolding grid_ready_def geom_eq [OF g] by (auto simp: f1 same shape_ok_def)
qed

lemma lte_grid_init_control:
  assumes p: "cell_params pg N s q k cid" "channel_params pg P m" "control_room N s q k P m"
  shows "\<exists>d pc ph news. lte_grid_init pg grid_zero = Some (0, d) \<and> control_ok (control_symbols N k) d pc ph news
    \<and> length pc = 4 \<and> length ph = 3 * ((nat N + 7) div 8) \<and> length news = P \<and> (\<forall>i<P. length (news ! i) = 9 * m i)
    \<and> (\<forall>i<P. pc_nof_cce (g_pdcch d ! i) = int (m i)) \<and> g_nof_osymb d = s \<and> g_fft_size d = fft_size N"
proof -
  let ?nc = "control_symbols N k"
  obtain n dbg vb where par: "lte_grid_init_params pg grid_zero = (n, cell_config N s q k cid dbg vb)" (is "_ = (n, ?c1)") "0 < n"
    using lte_grid_init_params_cell [OF p(1)] by blast
  note r = cell_ready [OF p, where dbg = dbg and vb = vb]
  let ?c = "init_regs ?nc ?c1"
  obtain d pc ph news where d: "lte_grid_init_channels pg ?c = Some (0, d)" "control_ok ?nc d pc ph news" "geom d = geom ?c"
    "length pc = 4" "length ph = 3 * nat (phich_groups ?c)" "length news = pdcchs pg ?c"
    "\<forall>i<length news. pc_nof_cce (g_pdcch d ! i) = cces pg ?c i"
    using lte_grid_init_channels_ok [OF r(2,3)] by blast
  have k: "1 \<le> k" "6 \<le> N" using p(1) by (simp_all add: cell_params_def)
  have "lte_grid_init pg grid_zero = Some (0, d)"
    unfolding lte_grid_init_def par prod.case using par(2) k(1) r(1) d(1) by (simp add: cell_config_def)
  moreover have "nat (phich_groups ?c) = (nat N + 7) div 8"
    using k(2) geom_eq(1) [OF r(6)] by (simp add: cell_config_def phich_groups_def nat_div_distrib nat_add_distrib)
  moreover have "g_nof_osymb d = s" "g_fft_size d = fft_size N" using geom_eq(2,6) [OF trans [OF d(3) r(6)]] by (simp_all add: cell_config_def)
  moreover have "length (news ! i) = 9 * m i" if "i < P" for i
    using d(2,6,7) r(4,5) that by (simp add: control_ok_def pdcch_holds_def)
  ultimately show ?thesis using d(2,4-7) r(4,5) by (intro exI [of _ d] exI [of _ pc] exI [of _ ph] exI [of _ news]) simp
qed

section \<open>Round trip of the control channels\<close>

text \<open>The channels of the control region put into a subframe one after the other.\<close>

definition put_control :: "complex_t list \<Rightarrow> complex_t list \<Rightarrow> (nat \<Rightarrow> complex_t list) \<Rightarrow> nat \<Rightarrow> int \<Rightarrow> lte_grid_config
    \<Rightarrow> complex_t list \<Rightarrow> complex_t list option" where
  "put_control x y z P sf c out = do {
     (r1, o1) \<leftarrow> lte_ch_put_sf x out CH_PCFICH 0 sf c;
     (r2, o2) \<leftarrow> lte_ch_put_sf y o1 CH_PHICH 0 sf c;
     each (\<lambda>i o3. map_option snd (lte_ch_put_sf (z (nat i)) o3 CH_PDCCH i sf c)) (below (int P)) o2 }"

definition control_list :: "complex_t list \<Rightarrow> complex_t list \<Rightarrow> (nat \<Rightarrow> complex_t list) \<Rightarrow> lte_grid_config
    \<Rightarrow> reg_ref list \<Rightarrow> reg_ref list \<Rightarrow> reg_ref list list \<Rightarrow> (complex_t list \<times> complex_t move list) list" where
  "control_list x y z c pc ph news = (x, ctl_moves c (quad pc)) # (y, ctl_moves c (quad ph))
     # map (\<lambda>i. (z i, ctl_moves c (cce_pairs (pc_nof_cce (g_pdcch c ! i)) (news ! i)))) [0..<length news]"

lemma sf_control:
  "lte_ch_put_sf x out CH_PCFICH k sf c = map_option (\<lambda>r. (0, snd r)) (lte_pcfich_put x out c)"
  "lte_ch_put_sf x out CH_PHICH k sf c = map_option (\<lambda>r. (0, snd r)) (lte_phich_put x out c)"
  "lte_ch_put_sf x out CH_PDCCH k sf c = map_option (\<lambda>r. (0, snd r)) (lte_pdcch_put x out k c)"
  "lte_ch_get_sf x out CH_PCFICH k sf c = lte_pcfich_get x out c"
  "lte_ch_get_sf x out CH_PHICH k sf c = lte_phich_get x out c"
  "lte_ch_get_sf x out CH_PDCCH k sf c = lte_pdcch_get x out k c"
  by (simp_all add: lte_ch_put_sf_def lte_ch_put_symbol_def lte_ch_get_sf_def lte_ch_get_symbol_def map_option_case split: option.splits)

lemma put_control_eq:
  assumes "control_ok nc c pc ph news"
  shows "put_control x y z (length news) sf c out = put_all (control_list x y z c pc ph news) out"
proof -
  have "each (\<lambda>i o3. map_option snd (lte_ch_put_sf (z (nat i)) o3 CH_PDCCH i sf c)) (below (int (length news))) o2
    = put_all (map (\<lambda>i. (z i, ctl_moves c (cce_pairs (pc_nof_cce (g_pdcch c ! i)) (news ! i)))) [0..<length news]) o2" for o2
    unfolding put_all_def each_map below_def nat_int
    by (rule each_cong) (simp_all add: sf_control pdcch_moves [OF assms] option.map_comp comp_def option.map_ident)
  then show ?thesis
    by (simp add: put_control_def control_list_def sf_control pcfich_moves [OF assms] phich_moves [OF assms] option.map_comp comp_def map_option_case
        split: option.splits)
qed

lemma control_list_fit:
  assumes ok: "control_ok nc c pc ph news"
    and len: "4 * length pc \<le> length x" "4 * length ph \<le> length y" "\<forall>i<length news. cce_symbols (pc_nof_cce (g_pdcch c ! i)) \<le> int (length (z i))"
  shows "\<forall>e\<in>set (control_list x y z c pc ph news). consistent (snd e) \<and> moves_fit (snd e) (int (length (fst e))) (grid_size c)"
proof -
  have "moves_fit ms (int (length inp)) (grid_size c) \<and> consistent ms"
    if "channel_moves put get ms l (grid_size c)" "l \<le> int (length inp)" for put get ms l and inp :: "complex_t list"
    using channel_moves.fit [OF that(1)] channel_moves.cons [OF that(1)] moves_fit_mono [OF _ that(2) order_refl] by blast
  note fit = this
  show ?thesis
    using fit [OF pcfich_channel [OF ok], of x] fit [OF phich_channel [OF ok], of y] fit [OF pdcch_channel [OF ok]] len
    by (auto simp: control_list_def)
qed

lemma distinct_concat_nth:
  "distinct (concat xs) \<Longrightarrow> i < j \<Longrightarrow> j < length xs \<Longrightarrow> set (xs ! i) \<inter> set (xs ! j) = {}"
proof (induction xs arbitrary: i j)
  case (Cons x xs)
  obtain j' where j: "j = Suc j'" "j' < length xs" using Cons.prems by (cases j) auto
  show ?case
  proof (cases i)
    case 0
    have "set (xs ! j') \<subseteq> set (concat xs)" using j(2) by (force intro: nth_mem)
    then show ?thesis using Cons.prems(1) 0 j by auto
  next
    case (Suc i')
    then show ?thesis using Cons.IH [of i' j'] Cons.prems j by simp
  qed
qed simp

lemma control_list_disjoint:
  assumes ok: "control_ok nc c pc ph news"
  shows "sorted_wrt (\<lambda>e f. targets (snd e) \<inter> targets (snd f) = {}) (control_list x y z c pc ph news)"
proof -
  let ?refs = "pc @ ph @ concat news"
  have al: "alloc nc c ?refs" "guards_ok c" using ok by (simp_all add: control_ok_def)
  have dist: "distinct ?refs" using al(1) by (simp add: alloc_def)
  note dj = ctl_disjoint [OF al]
  have sub: "set (news ! i) \<subseteq> set (concat news)" if "i < length news" for i using that by (force intro: nth_mem)
  have pd: "targets (ctl_moves c (cce_pairs m (news ! i))) \<inter> targets (ctl_moves c (cce_pairs m' (news ! j))) = {}"
    if "i < j" "j < length news" for i j m m'
    using dj [OF _ _ _ snd_cce_pairs snd_cce_pairs, of "news ! i" "news ! j" m m'] distinct_concat_nth [of news i j] dist sub [of i] sub [of j] that by auto
  have own: "targets (ctl_moves c (quad as)) \<inter> targets (ctl_moves c (cce_pairs m (news ! i))) = {}"
    if "i < length news" "as = pc \<or> as = ph" for i m as
    using dj [OF _ _ _ snd_quad snd_cce_pairs, of as "news ! i" m] dist sub [OF that(1)] that(2) by fastforce
  have "targets (ctl_moves c (quad pc)) \<inter> targets (ctl_moves c (quad ph)) = {}"
    using dj [OF _ _ _ snd_quad snd_quad, of pc ph] dist by auto
  then show ?thesis using own pd by (auto simp: control_list_def sorted_wrt_iff_nth_less [of _ "map _ _"])
qed

text \<open>What a channel put into the subframe can be got out of it again.\<close>

lemma channel_back:
  assumes ok: "control_ok nc c pc ph news" and g: "put_all (control_list x y z c pc ph news) out = Some g" "int (length g) = grid_size c"
    and len: "4 * length pc \<le> length x" "4 * length ph \<le> length y" "\<forall>i<length news. cce_symbols (pc_nof_cce (g_pdcch c ! i)) \<le> int (length (z i))"
    and ch: "(inp, ms) \<in> set (control_list x y z c pc ph news)" "channel_moves put get ms l (grid_size c)" "l \<le> int (length inp)" "l \<le> int (length b)"
  shows "\<exists>b'. get g b = Some b' \<and> take (nat l) b' = take (nat l) inp"
proof -
  have "peek inp p = Some (g ! nat q)" if "(q, Src p) \<in> set ms" for q p
    using put_all_values [OF g(1) control_list_disjoint [OF ok] ch(1)] control_list_fit [OF ok len] that by simp
  then show ?thesis using channel_moves.get_value [OF ch(2) _ ch(3) g(2) ch(4)] by blast
qed

lemma control_roundtrip:
  assumes ok: "control_ok nc c pc ph news"
    and len: "4 * length pc \<le> length x" "4 * length ph \<le> length y" "\<forall>i<length news. cce_symbols (pc_nof_cce (g_pdcch c ! i)) \<le> int (length (z i))"
      "int (length out) = grid_size c"
  shows "\<exists>g. put_control x y z (length news) sf c out = Some g \<and> length g = length out
    \<and> (\<forall>b. 4 * length pc \<le> length b \<longrightarrow> (\<exists>b'. lte_ch_get_sf g b CH_PCFICH 0 sf c = Some (4 * int (length pc), b')
        \<and> take (4 * length pc) b' = take (4 * length pc) x))
    \<and> (\<forall>b. 4 * length ph \<le> length b \<longrightarrow> (\<exists>b'. lte_ch_get_sf g b CH_PHICH 0 sf c = Some (4 * int (length ph), b')
        \<and> take (4 * length ph) b' = take (4 * length ph) y))
    \<and> (\<forall>i<length news. \<forall>b. let m = pc_nof_cce (g_pdcch c ! i); n = nat (cce_symbols m) in
        n \<le> length b \<longrightarrow> (\<exists>b'. lte_ch_get_sf g b CH_PDCCH (int i) sf c = Some (36 * m, b') \<and> take n b' = take n (z i)))"
proof -
  let ?xs = "control_list x y z c pc ph news"
  have "\<forall>e\<in>set ?xs. moves_fit (snd e) (int (length (fst e))) (int (length out))"
    using control_list_fit [OF ok len(1-3)] len(4) by simp
  then obtain g where g: "put_all ?xs out = Some g" "length g = length out" using put_all_total by blast
  have lg: "int (length g) = grid_size c" using g(2) len(4) by simp
  note rb = channel_back [OF ok g(1) lg len(1-3)]
  have "\<exists>b'. lte_ch_get_sf g b CH_PCFICH 0 sf c = Some (4 * int (length pc), b') \<and> take (4 * length pc) b' = take (4 * length pc) x"
    if "4 * length pc \<le> length b" for b
    using rb [OF _ pcfich_channel [OF ok], of x b] that len(1)
    by (auto simp: control_list_def sf_control pcfich_moves [OF ok] nat_mult_distrib)
  moreover have "\<exists>b'. lte_ch_get_sf g b CH_PHICH 0 sf c = Some (4 * int (length ph), b') \<and> take (4 * length ph) b' = take (4 * length ph) y"
    if "4 * length ph \<le> length b" for b
    using rb [OF _ phich_channel [OF ok], of y b] that len(2)
    by (auto simp: control_list_def sf_control phich_moves [OF ok] nat_mult_distrib)
  moreover have "let m = pc_nof_cce (g_pdcch c ! i); n = nat (cce_symbols m) in
        n \<le> length b \<longrightarrow> (\<exists>b'. lte_ch_get_sf g b CH_PDCCH (int i) sf c = Some (36 * m, b') \<and> take n b' = take n (z i))"
    if "i < length news" for i b
    using rb [OF _ pdcch_channel [OF ok that], of "z i" b] that len(3)
    by (auto simp: control_list_def sf_control pdcch_moves [OF ok that] Let_def)
  ultimately show ?thesis using g put_control_eq [OF ok] by (intro exI [of _ g]) simp
qed

text \<open>A cell of 6 PRB with one port and one PDCCH of two CCEs.\<close>

definition cell6 :: pget where
  "cell6 = map_of [(''nof_prb'', 6), (''nof_osymb_x_subf'', 14), (''nof_ports'', 1), (''cfi'', 1), (''cell_id'', 0),
     (''nof_pdcch'', 1), (''pdcch_nofcce_0'', 2)]"

lemma cell6_params: "cell_params cell6 6 14 1 1 0" "channel_params cell6 1 (\<lambda>_. 2)" "control_room 6 14 1 1 1 (\<lambda>_. 2)"
proof -
  have d: "dec_str 0 = ''0''" by (subst dec_str.simps) (simp add: char_of_def bit_0)
  show "cell_params cell6 6 14 1 1 0" by (simp add: cell_params_def cell6_def)
  show "channel_params cell6 1 (\<lambda>_. 2)" by (simp add: channel_params_def cell6_def param_def d)
  have "control_symbols 6 1 = 2" by (simp add: control_symbols_def)
  then show "control_room 6 14 1 1 1 (\<lambda>_. 2)"
    by (simp add: control_room_def symbol_groups_def lessThan_nat_numeral)
qed





lemma moves_inp_cong:
  "(\<And>q p. (q, Src p) \<in> set ms \<Longrightarrow> peek inp p = peek inp' p) \<Longrightarrow> moves inp ms out = moves inp' ms out"
proof (induction ms arbitrary: out)
  case (Cons m ms)
  obtain q s where m: "m = (q, s)" by (cases m)
  have "src_val inp s = src_val inp' s" using Cons.prems m by (cases s) auto
  moreover have "moves inp ms = moves inp' ms" using Cons by auto
  ultimately show ?case by (simp add: m)
qed simp

text \<open>C37. A PDCCH carries less than it has room for: lte_pdcch_put takes the symbols of CCE c from
  index 9 c on, where it has 36 for each CCE, so that of the 36 m symbols of a channel with m CCEs
  only the first 9 m + 27 are read; two inputs that agree on them give the same subframe.\<close>

theorem pdcch_symbols_ignored:
  assumes "cell_params pg N s q k cid" "channel_params pg P m" "control_room N s q k P m" "lte_grid_init pg grid_zero = Some (r, d)"
    and "i < P" "n = nat (cce_symbols (int (m i)))" "n \<le> length x" "n \<le> length y" "take n x = take n y"
  shows "lte_pdcch_put x out (int i) d = lte_pdcch_put y out (int i) d"
proof -
  obtain pc ph news where d: "control_ok (control_symbols N k) d pc ph news" "length news = P" "pc_nof_cce (g_pdcch d ! i) = int (m i)"
    using lte_grid_init_control [OF assms(1-3)] assms(4,5) by auto
  have i: "i < length news" using d(2) assms(5) by simp
  note fit = channel_moves.fit [OF pdcch_channel [OF d(1) i], unfolded d(3)]
  have "peek x p = peek y p" if "(u, Src p) \<in> set (ctl_moves d (cce_pairs (int (m i)) (news ! i)))" for u p
  proof -
    have p: "0 \<le> p" "nat p < n" using fit that assms(6) by (auto simp: moves_fit_def)
    then have "x ! nat p = y ! nat p" using arg_cong [OF assms(9), of "\<lambda>l. l ! nat p"] by simp
    moreover have "p < int (length x)" "p < int (length y)" using p assms(7,8) by linarith+
    ultimately show ?thesis using p(1) by (simp add: peek_def)
  qed
  then show ?thesis using moves_inp_cong [of "ctl_moves d (cce_pairs (int (m i)) (news ! i))" x y] by (simp add: pdcch_moves [OF d(1) i] d(3))
qed

theorem pdcch_symbols_ignored_witness:
  "\<exists>d. lte_grid_init cell6 grid_zero = Some (0, d)
    \<and> lte_pdcch_put (replicate 72 (1, 0)) (replicate 1792 (0, 0)) 0 d = lte_pdcch_put (replicate 45 (1, 0) @ replicate 27 (0, 1)) (replicate 1792 (0, 0)) 0 d"
proof -
  obtain d where d: "lte_grid_init cell6 grid_zero = Some (0, d)" using lte_grid_init_control [OF cell6_params] by blast
  have "cce_symbols 2 = 45" by (simp add: cce_symbols_def)
  then show ?thesis
    using pdcch_symbols_ignored [OF cell6_params d, of 0 45 "replicate 72 (1, 0)" "replicate 45 (1, 0) @ replicate 27 (0, 1)" "replicate 1792 (0, 0)"] d by simp
qed

text \<open>C38. The table of the groups of PHICH has 28 places, and a cell of 73 PRB or more needs 30: on such a
  configuration, with a cell identity below 2 ^ 22, for which the groups of the control region are set up and no group
  is assigned, the initialisation of PCFICH succeeds; then the loop of lte_grid_init_reg_phich fills the 28 places of
  the table with its first 28 turns and finds a group in the next one, which it writes to place 28, beyond the end of
  the table.\<close>

theorem phich_table_overflow:
  assumes "cell_ok nc c" "alloc nc c []" "shape_ok c" "73 \<le> g_nof_prb c" "g_nof_control_symbols c = int nc"
  shows "\<exists>d n f a. lte_ch_init pg CH_PCFICH c = Some (0, d) \<and> phich_counts (phich_entry (cleared 4 d)) = Some n
    \<and> each_rc (phich_step n) (take 28 (phich_items (phich_groups c))) (0, phich_entry (cleared 4 d)) = Some (0, 28, f)
    \<and> length (cr_phich (g_control f)) = 28 \<and> phich_find n (phich_items (phich_groups c) ! 28) f = Some (Some a)
    \<and> set_phich 28 (Some a) f = None \<and> lte_ch_init pg CH_PHICH d = None"
  using lte_ch_init_wide [OF assms] by simp

theorem phich_table_overflow_witness:
  "\<exists>d f. lte_ch_init cell6 CH_PCFICH (init_regs 1 (cell_config 100 14 1 1 0 0 0)) = Some (0, d)
    \<and> (\<exists>n a. phich_counts (phich_entry (cleared 4 d)) = Some n
      \<and> each_rc (phich_step n) (take 28 (phich_items 13)) (0, phich_entry (cleared 4 d)) = Some (0, 28, f)
      \<and> phich_find n (phich_items 13 ! 28) f = Some (Some a) \<and> set_phich 28 (Some a) f = None)"
proof -
  let ?c = "cell_config 100 14 1 1 0 0 0"
  have f: "g_nof_osymb ?c = 14" "g_nof_ports ?c = 1" "g_regs ?c = (\<lambda>_. reg_zero)" by (simp_all add: cell_config_def grid_zero_def)
  have num: "lte_reg_num 0 ?c = 2" using reg_num_groups [of ?c 0] f by (simp add: symbol_groups_def)
  have g: "geom (init_regs 1 ?c) = geom ?c" by (simp add: init_regs_def with_regs_def geom_def)
  have "cell_ok 1 ?c" using num by (simp add: cell_ok_def cell_config_def)
  then have "cell_ok 1 (init_regs 1 ?c)" unfolding cell_ok_geom [OF g] .
  moreover have "alloc 1 (init_regs 1 ?c) []" by (rule alloc_init) (simp_all add: f num reg_zero_def)
  moreover have "shape_ok (init_regs 1 ?c)" by (simp add: shape_ok_def init_regs_def with_regs_def cell_config_def grid_zero_def)
  moreover have n: "g_nof_prb (init_regs 1 ?c) = 100" "g_nof_control_symbols (init_regs 1 ?c) = 1"
    by (simp_all add: init_regs_def with_regs_def cell_config_def control_symbols_def)
  moreover have "phich_groups (init_regs 1 ?c) = 13" unfolding phich_groups_def n by simp
  ultimately show ?thesis using phich_table_overflow [of 1 "init_regs 1 ?c" cell6] by auto
qed

text \<open>C36. What lte_pdsch_setup_rbgmask stores, up to 25 PRB: it succeeds; the number of groups it counts
  is the number of groups that the mask selects times the PRBs of a group, since it advances for
  every PRB, and it multiplies that by the PRBs of a group once more for the number of resource
  blocks; the first PRB of the t-th group selected is where the t-th group of the table starts. With
  groups of one PRB, below 10 PRB, the table is exact.\<close>

theorem pdsch_rbg_table:
  assumes "pdsch_shaped h" "0 < g_nof_prb c" "g_nof_prb c \<le> 25" "length (g_phch c) = 7" "length (nof_re_x_sf (g_phch c ! 6)) = 10"
    and "sz = nat (RBG_SZ (g_nof_prb c))" "gs = groups h (nat (g_nof_prb c) div sz)"
  shows "\<exists>h'. lte_pdsch_setup_rbgmask h c = Some h' \<and> pdsch_shaped h' \<and> rbg_mask h' = rbg_mask h
    \<and> nof_rbg h' = int (sz * length gs) \<and> nof_rb h' = int (sz * sz * length gs)
    \<and> (\<forall>t<length gs. \<forall>j < sz. ps_rbg h' ! (sz * t + j) ! j = int (sz * (gs ! t) + j))
    \<and> (\<forall>i<10. ps_nof_re h' ! i = nof_rb h' * cdiv (nof_re_x_sf (g_phch c ! 6) ! i) (g_nof_prb c))
    \<and> (g_nof_prb c < 10 \<longrightarrow> map (\<lambda>t. ps_rbg h' ! t ! 0) [0..<nat (nof_rbg h')] = map int gs \<and> nof_rb h' = int (length gs))"
proof -
  have sz: "g_nof_prb c < 10 \<Longrightarrow> sz = 1" by (simp add: assms(6) RBG_SZ_def)
  obtain h' where "lte_pdsch_setup_rbgmask h c = Some h'" "pdsch_shaped h'" "rbg_mask h' = rbg_mask h"
    "nof_rbg h' = int (sz * length gs)" "nof_rb h' = int sz * nof_rbg h'"
    "\<forall>t<length gs. \<forall>j < sz. ps_rbg h' ! (sz * t + j) ! j = int sz * int (gs ! t) + int j"
    "\<forall>i<10. ps_nof_re h' ! i = nof_rb h' * cdiv (nof_re_x_sf (g_phch c ! 6) ! i) (g_nof_prb c)"
    using setup_rbgmask_eq [OF assms(1-5)] unfolding assms(6,7) by blast
  then show ?thesis using sz by (intro exI [of _ h']) (auto intro!: nth_equalityI)
qed

theorem pdsch_rbg_table_witness:
  "\<exists>h'. lte_pdsch_setup_rbgmask ((g_pdsch grid_zero ! 0)\<lparr>rbg_mask := 5\<rparr>) (cell_config 20 14 1 1 0 0 0) = Some h'
    \<and> nof_rbg h' = 4 \<and> nof_rb h' = 8"
proof -
  let ?h = "(g_pdsch grid_zero ! 0)\<lparr>rbg_mask := 5\<rparr>" and ?c = "cell_config 20 14 1 1 0 0 0"
  have "pdsch_shaped ?h" by (simp add: pdsch_shaped_def grid_zero_def)
  moreover have f: "g_nof_prb ?c = 20" "length (g_phch ?c) = 7" "length (nof_re_x_sf (g_phch ?c ! 6)) = 10"
    by (simp_all add: cell_config_def grid_zero_def phch_zero_def)
  moreover have "nat (RBG_SZ 20) = 2" by (simp add: RBG_SZ_def)
  moreover have "groups ?h 10 = [0, 2]" by (simp add: groups_def upt_rec)
  ultimately show ?thesis using pdsch_rbg_table [of ?h ?c 2 "[0, 2]"] by auto
qed

end
