(* ===== verification/Lte_Messages.thy ===== *)
theory Lte_Messages
  imports Coding Scrambling Skeleton Grid_Channels
begin

unbundle bit_operations_syntax

text \<open>
  The messages of the LTE control channels (modrep_osld): downlink control information
  (lte_dci_pack), the broadcast channel (lte_bch_pack, lte_bch_demux), the control format
  indicator (lte_cfi_coding, lte_cfi_decoding, lte_lib/cfi_coding_table.c) and the scrambling of
  checksums (lte_crc_scrambling).

  A buffer of bits has one bit per byte. A routine that packs returns the bytes it wrote; None is
  an access outside an array. The argument pg is param_get_int_name: the value of a parameter,
  None when there is none. The modules are built for ALOE (_COMPILE_ALOE).
\<close>

section \<open>Downlink control information (dci_formats.c)\<close>

datatype ra_type_t = NA | TYPE0 | TYPE1

record dci_format1 =
  carrier_indicator :: "8 word"
  carrier_indicator_len :: int
  ra_type :: ra_type_t
  dci_rbg_mask :: "32 word list"
  dci_nof_rbg :: int
  dci_mcs :: "32 word"
  harq_pnum :: "32 word"
  harq_pnum_len :: int
  new_data :: "32 word"
  redundancy_version :: "32 word"
  tpc_command :: "32 word"

definition ambiguous_sizes :: "int list" where
  "ambiguous_sizes = [12, 14, 16, 20, 24, 26, 32, 40, 44, 56]"

text \<open>The size, and the bits that are appended.\<close>

definition check_ambiguous_size :: "int \<Rightarrow> int \<times> bytes" where
  "check_ambiguous_size nof_bits =
     (if nof_bits \<in> set ambiguous_sizes then (nof_bits + 1, pack_bits 0 1) else (nof_bits, []))"

definition dci_format1_pack :: "dci_format1 \<Rightarrow> (int \<times> bytes) option" where
  "dci_format1_pack d =
     (if carrier_indicator_len d < 0 \<or> carrier_indicator_len d > 3 then Some (-1, [])
      else if harq_pnum_len d \<noteq> 3 \<and> harq_pnum_len d \<noteq> 4 then Some (-1, [])
      else let b1 = (if carrier_indicator_len d \<noteq> 0
               then pack_bits (scast (carrier_indicator d)) (nat (carrier_indicator_len d)) else []);
             b2 = b1 @ (case ra_type d of NA \<Rightarrow> [] | TYPE0 \<Rightarrow> pack_bits 0 1 | TYPE1 \<Rightarrow> pack_bits 1 1)
        in if ra_type d = TYPE1 then Some (-1, b2)
        else do {
          b3 \<leftarrow> each (\<lambda>i b. map_option (\<lambda>v. b @ pack_bits v 1) (peek (dci_rbg_mask d) i)) (below (dci_nof_rbg d)) b2;
          let b = b3 @ pack_bits (dci_mcs d) 5 @ pack_bits (harq_pnum d) (nat (harq_pnum_len d)) @ pack_bits (new_data d) 1
                @ pack_bits (redundancy_version d) 2 @ pack_bits (tpc_command d) 2;
          let (n, z) = check_ambiguous_size (int (length b));
          Some (n, b @ z) })"

definition dci_packet_space :: "int \<Rightarrow> int \<Rightarrow> int" where
  "dci_packet_space pos packet_len = \<bar>pos - packet_len\<bar>"

text \<open>unpack_bits at a position of the packet: the value and the next position.\<close>

definition unpack_at :: "bytes \<Rightarrow> int \<Rightarrow> nat \<Rightarrow> (32 word \<times> int) option" where
  "unpack_at p pos n = (if 0 \<le> pos \<and> pos + int n \<le> int (length p)
     then Some (fst (unpack_bits (drop (nat pos) p) n), pos + int n) else None)"

definition unpack_mask :: "bytes \<Rightarrow> int \<Rightarrow> int \<Rightarrow> 32 word list \<Rightarrow> (32 word list \<times> int) option" where
  "unpack_mask p pos n msk = each (\<lambda>i (m, k). do {
     (v, k1) \<leftarrow> unpack_at p k 1;
     m1 \<leftarrow> poke m i v;
     Some (m1, k1) }) (below n) (msk, pos)"

text \<open>The last fields, from mcs on. The appended bit of an ambiguous size is written into the packet.\<close>

definition unpack_tail :: "bytes \<Rightarrow> int \<Rightarrow> int \<Rightarrow> dci_format1 \<Rightarrow> (int \<times> bytes \<times> dci_format1) option" where
  "unpack_tail p packet_len k d =
     (if dci_packet_space k packet_len < 5 then Some (-1, p, d)
      else do {
        (v1, k1) \<leftarrow> unpack_at p k 5;
        let d1 = d\<lparr>dci_mcs := v1\<rparr>;
        if dci_packet_space k1 packet_len < harq_pnum_len d then Some (-1, p, d1)
        else do {
          (v2, k2) \<leftarrow> unpack_at p k1 (nat (harq_pnum_len d));
          let d2 = d1\<lparr>harq_pnum := v2\<rparr>;
          if dci_packet_space k2 packet_len < 5 then Some (-1, p, d2)
          else do {
            (v3, k3) \<leftarrow> unpack_at p k2 1;
            (v4, k4) \<leftarrow> unpack_at p k3 2;
            (v5, k5) \<leftarrow> unpack_at p k4 2;
            let d5 = d2\<lparr>new_data := v3, redundancy_version := v4, tpc_command := v5\<rparr>;
            let (n, z) = check_ambiguous_size k5;
            p1 \<leftarrow> (if z = [] then Some p else poke p k5 0);
            Some (n, p1, d5) } } })"

definition dci_format1_unpack :: "bytes \<Rightarrow> int \<Rightarrow> dci_format1 \<Rightarrow> (int \<times> bytes \<times> dci_format1) option" where
  "dci_format1_unpack p packet_len d =
     (if carrier_indicator_len d < 0 \<or> carrier_indicator_len d > 3 then Some (-1, p, d)
      else if harq_pnum_len d \<noteq> 3 \<and> harq_pnum_len d \<noteq> 4 then Some (-1, p, d)
      else if dci_packet_space 0 packet_len < carrier_indicator_len d then Some (-1, p, d)
      else do {
        (d1, k1) \<leftarrow> (if carrier_indicator_len d \<noteq> 0
          then map_option (\<lambda>(v, k). (d\<lparr>carrier_indicator := ucast v\<rparr>, k)) (unpack_at p 0 (nat (carrier_indicator_len d)))
          else Some (d, 0));
        if dci_packet_space k1 packet_len < 1 then Some (-1, p, d1)
        else do {
          (d2, k2) \<leftarrow> (if ra_type d1 \<noteq> NA
            then map_option (\<lambda>(v, k). (d1\<lparr>ra_type := (if v \<noteq> 0 then TYPE1 else TYPE0)\<rparr>, k)) (unpack_at p k1 1)
            else Some (d1, k1));
          if dci_packet_space k2 packet_len < dci_nof_rbg d then Some (-1, p, d2)
          else if ra_type d2 = TYPE1 then Some (-1, p, d2)
          else do {
            (m, k3) \<leftarrow> unpack_mask p k2 (dci_nof_rbg d) (dci_rbg_mask d2);
            unpack_tail p packet_len k3 (d2\<lparr>dci_rbg_mask := m\<rparr>) } } })"

section \<open>The module lte_dci_pack\<close>

definition dci_zero :: dci_format1 where
  "dci_zero = \<lparr>carrier_indicator = 0, carrier_indicator_len = 0, ra_type = NA, dci_rbg_mask = replicate 25 0, dci_nof_rbg = 0,
     dci_mcs = 0, harq_pnum = 0, harq_pnum_len = 0, new_data = 0, redundancy_version = 0, tpc_command = 0\<rparr>"

definition the_par :: "pget \<Rightarrow> string \<Rightarrow> int \<Rightarrow> int" where
  "the_par pg name v = (case pg name of None \<Rightarrow> v | Some w \<Rightarrow> w)"

text \<open>The bits of the packet and its length; nothing is sent unless the channel is enabled.\<close>

definition send_dci :: "pget \<Rightarrow> (int \<times> bytes) option" where
  "send_dci pg =
     (if the_par pg ''enable'' 0 = 0 then Some (0, [])
      else let msk = the_par pg ''rbg_mask'' 0;
          dci = dci_zero\<lparr>dci_mcs := word_of_int (the_par pg ''mcs'' 0), dci_nof_rbg := the_par pg ''nof_rbg'' 0,
            dci_rbg_mask := map (\<lambda>i. if msk AND push_bit i 1 \<noteq> 0 then 1 else 0) [0..<25],
            ra_type := NA, harq_pnum_len := 3, carrier_indicator_len := 2\<rparr>
        in map_option (\<lambda>(len, b). if len < 0 then (-1, b) else (len, b)) (dci_format1_pack dci))"

text \<open>A packet for a remote parameter, written at a position of the output.\<close>

definition remote_at :: "bytes option \<Rightarrow> int \<Rightarrow> int \<Rightarrow> int \<Rightarrow> int \<times> bytes option" where
  "remote_at out pos idx val =
     (case param_remote_set_ptr (map_option (drop (nat pos)) out) idx (int_bytes val) of
        (n, None) \<Rightarrow> (n, out)
      | (n, Some b) \<Rightarrow> (n, map_option (\<lambda>o1. take (nat pos) o1 @ b) out))"

text \<open>The values go to the remote parameters idx one after the other; the first failure ends the call.\<close>

fun remote_all :: "bytes option \<Rightarrow> int \<Rightarrow> (int \<times> int) list \<Rightarrow> int \<times> bytes option" where
  "remote_all out len [] = (len, out)"
| "remote_all out len ((idx, v) # ivs) = (case remote_at out len idx v of (n, out1) \<Rightarrow>
     if n = -1 then (-1, out1) else remote_all out1 (len + n) ivs)"

definition recv_dci :: "pget \<Rightarrow> int \<times> int \<times> int \<Rightarrow> bytes \<Rightarrow> bytes option \<Rightarrow> int \<Rightarrow> (int \<times> bytes option) option" where
  "recv_dci pg rx inp out len = (case rx of (mcs_rx, nof_rbg_rx, rbg_mask_rx) \<Rightarrow>
     if len = 0 then Some (0, out)
     else do {
       (n, p, dci) \<leftarrow> dci_format1_unpack inp len
         (dci_zero\<lparr>harq_pnum_len := 3, carrier_indicator_len := 2, dci_nof_rbg := the_par pg ''nof_rbg'' 0\<rparr>);
       if n < 0 then Some (-1, out)
       else let msk = fold (\<lambda>i r. r OR push_bit i (dci_rbg_mask dci ! i AND 1)) [0..<25] (0 :: 32 word)
         in Some (remote_all out 0 [(mcs_rx, sint (dci_mcs dci)), (nof_rbg_rx, dci_nof_rbg dci), (rbg_mask_rx, sint msk)]) })"

text \<open>The output buffer after a call: the bytes written, then what it held.\<close>

definition written :: "bytes \<Rightarrow> bytes \<Rightarrow> bytes" where
  "written b out = b @ drop (length b) out"

text \<open>The call of set_output_samples (0, n) that a receiver makes at its end, when it got there (its result is
  the positive number of bytes).\<close>

definition samples_set :: "int \<Rightarrow> int option" where
  "samples_set n = (if n > 0 then Some n else None)"

text \<open>A work function: the result, the argument of set_output_samples if it was called, the output.\<close>

definition dci_work :: "int \<Rightarrow> pget \<Rightarrow> int \<times> int \<times> int \<Rightarrow> bytes \<Rightarrow> int \<Rightarrow> bytes option \<Rightarrow> (int \<times> int option \<times> bytes option) option" where
  "dci_work direction pg rx inp len out =
     (if direction = 0 then (case out of
          None \<Rightarrow> Some (0, None, None)
        | Some o1 \<Rightarrow> map_option (\<lambda>(n, b). (n, None, Some (written b o1))) (send_dci pg))
      else map_option (\<lambda>(n, o1). (0, samples_set n, o1)) (recv_dci pg rx inp out len))"

section \<open>The module lte_bch_pack\<close>

definition bw_bits :: "int \<Rightarrow> bytes option" where
  "bw_bits nof_prb = (if nof_prb \<le> 6 then Some [0, 0, 0] else if nof_prb \<le> 15 then Some [0, 0, 1]
     else if nof_prb \<le> 25 then Some [0, 1, 0] else if nof_prb \<le> 50 then Some [0, 1, 1]
     else if nof_prb \<le> 75 then Some [1, 0, 0] else if nof_prb \<le> 100 then Some [1, 0, 1] else None)"

definition set_bw :: "bytes \<Rightarrow> int \<Rightarrow> bytes" where
  "set_bw out nof_prb = (case bw_bits nof_prb of None \<Rightarrow> out | Some b \<Rightarrow> written b out)"

definition get_bw :: "bytes \<Rightarrow> int" where
  "get_bw inp = (if take 3 inp = [0, 0, 0] then 6 else if take 3 inp = [0, 0, 1] then 15
     else if take 3 inp = [0, 1, 0] then 25 else if take 3 inp = [0, 1, 1] then 50
     else if take 3 inp = [1, 0, 0] then 75 else if take 3 inp = [1, 0, 1] then 100 else -1)"

text \<open>A parameter that is missing leaves its variable without a value.\<close>

definition send_bch :: "pget \<Rightarrow> bytes \<Rightarrow> (int \<times> bytes) option" where
  "send_bch pg out =
     (if the_par pg ''enable'' 0 = 0 then Some (0, out)
      else do {
        nof_prb \<leftarrow> pg ''nof_prb'';
        sfn \<leftarrow> pg ''sfn'';
        if length out < 24 then None
        else let o1 = (set_bw out nof_prb)[3 := 0, 4 := 0, 5 := 0]
          in Some (24, take 6 o1 @ pack_bits (word_of_int sfn) 8 @ replicate 10 0 @ drop 24 out) })"

definition recv_bch :: "int \<times> int \<Rightarrow> bytes \<Rightarrow> bytes option \<Rightarrow> int \<Rightarrow> int \<times> bytes option" where
  "recv_bch rx inp out len = (case rx of (nof_prb_rx, sfn_rx) \<Rightarrow>
     if len < 24 then (0, out)
     else remote_all out 0 [(nof_prb_rx, get_bw inp), (sfn_rx, sint (fst (unpack_bits (drop 6 inp) 8)))])"

definition bch_work :: "int \<Rightarrow> pget \<Rightarrow> int \<times> int \<Rightarrow> bytes \<Rightarrow> int \<Rightarrow> bytes option \<Rightarrow> (int \<times> int option \<times> bytes option) option" where
  "bch_work direction pg rx inp len out =
     (if direction = 0 then (case out of
          None \<Rightarrow> Some (0, None, None)
        | Some o1 \<Rightarrow> map_option (\<lambda>(n, o2). (n, None, Some o2)) (send_bch pg o1))
      else Some (case recv_bch rx inp out len of (n, o1) \<Rightarrow> (0, samples_set n, o1)))"

section \<open>The module lte_bch_demux\<close>

record bch_demux =
  bd_subframe :: int
  bd_frame :: int
  bd_empty :: bool
  bd_spp :: int
  bd_outi :: "bytes list"

definition bch_demux_zero :: bch_demux where
  "bch_demux_zero = \<lparr>bd_subframe = 0, bd_frame = 0, bd_empty = True, bd_spp = 0, bd_outi = replicate 4 (replicate 480 0)\<rparr>"

text \<open>The input is split; Inl is the return of an error.\<close>

definition bch_demux_load :: "bytes \<Rightarrow> bch_demux \<Rightarrow> bch_demux + bch_demux" where
  "bch_demux_load inp s =
     (let rcv = int (length inp); spp = cdiv rcv 4; s1 = s\<lparr>bd_spp := spp\<rparr> in
      if rcv > 1920 then Inl s1
      else if spp > 480 then Inl s1
      else if spp * 4 < rcv then Inl s1
      else Inr (s1\<lparr>bd_empty := False, bd_subframe := 0, bd_frame := 0,
        bd_outi := map (\<lambda>i. written (take (nat spp) (drop (i * nat spp) inp)) (bd_outi s ! i)) [0..<4]\<rparr>))"

definition bch_demux_emit :: "bch_demux \<Rightarrow> (int \<times> bytes \<times> bch_demux) option" where
  "bch_demux_emit s = do {
     (snd_samples, out, frame) \<leftarrow> (if bd_subframe s = 10 * bd_frame s
       then map_option (\<lambda>b. (bd_spp s, take (nat (bd_spp s)) b, bd_frame s + 1)) (peek (bd_outi s) (bd_frame s))
       else Some (0, [], bd_frame s));
     Some (snd_samples, out, s\<lparr>bd_subframe := bd_subframe s + 1, bd_frame := frame,
       bd_empty := (if frame = 4 then True else bd_empty s)\<rparr>) }"

definition bch_demux_work :: "bytes \<Rightarrow> bch_demux \<Rightarrow> (int \<times> bytes \<times> bch_demux) option" where
  "bch_demux_work inp s =
     (if inp = [] \<and> bd_empty s then Some (0, [], s)
      else case (if inp \<noteq> [] then bch_demux_load inp s else Inr s) of
          Inl s1 \<Rightarrow> Some (-1, [], s1)
        | Inr s1 \<Rightarrow> bch_demux_emit s1)"

section \<open>Control format indicator (cfi_coding_table.c, lte_cfi_coding, lte_cfi_decoding)\<close>

definition coding_table :: "bytes list" where
  "coding_table = [fold (\<lambda>j r. r[3 * j := 0]) [0..<11] (replicate 32 1),
     fold (\<lambda>j r. r[3 * j + 1 := 0]) [0..<11] (replicate 32 1),
     fold (\<lambda>j r. r[3 * j + 2 := 0]) [0..<10] (replicate 32 1),
     replicate 32 0]"

text \<open>The samples to send and the output; inp is the first input sample where there is an input.\<close>

definition cfi_coding_work :: "int \<Rightarrow> pget \<Rightarrow> int \<Rightarrow> int \<Rightarrow> bytes \<Rightarrow> int \<times> bytes" where
  "cfi_coding_work itfs pg rcv_samples inp out =
     (let code = (\<lambda>cfi. if cfi > 0 \<and> cfi < 5 then (32, written (coding_table ! nat (cfi - 1)) out) else (-1, out)) in
      if itfs = 0 then (case pg ''cfi'' of None \<Rightarrow> (-1, out)
        | Some cfi \<Rightarrow> if cfi = -1 then (0, out) else code cfi)
      else if rcv_samples = 0 then (0, out) else code inp)"

definition hamming :: "bytes \<Rightarrow> bytes \<Rightarrow> nat" where
  "hamming xs ys = length (filter (\<lambda>j. xs ! j \<noteq> ys ! j) [0..<32])"

text \<open>The best index and its number of errors.\<close>

definition cfi_decoding :: "bytes \<Rightarrow> bytes list \<Rightarrow> int \<times> nat" where
  "cfi_decoding inp table = fold (\<lambda>i (index, m). let n = hamming inp (table ! i) in
     if n < m then (int i, n) else (index, m)) [0..<4] (-1, 32)"

text \<open>The samples of the output have four bytes; err_th is the threshold when the module has that parameter.\<close>

definition cfi_decoding_work :: "int option \<Rightarrow> int \<Rightarrow> bytes \<Rightarrow> bytes option \<Rightarrow> int \<times> int option \<times> bytes option" where
  "cfi_decoding_work err_th cfi_pm_idx inp out =
     (if inp = [] then (0, None, out)
      else if length inp \<noteq> 32 then (-1, None, out)
      else case cfi_decoding inp coding_table of (index, nof_errors) \<Rightarrow>
        if int nof_errors < (case err_th of None \<Rightarrow> 32 | Some t \<Rightarrow> t)
        then (case remote_at out 0 cfi_pm_idx (index + 1) of (n, o1) \<Rightarrow> (if n = -1 then -1 else 0, samples_set (cdiv n 4), o1))
        else (0, None, out))"

section \<open>Scrambling of checksums (lte_crc_scrambling)\<close>

record pdcch_params =
  rnti :: int
  antenna_selection :: int
  ue_port :: int
  dci_format :: int

definition pdcch_sequence_gen :: "pdcch_params \<Rightarrow> bytes" where
  "pdcch_sequence_gen p =
     (let c = (if antenna_selection p = 0 \<or> dci_format p = 0
         then map (\<lambda>i. word_of_int (rnti p div 2 ^ (15 - i) AND 1)) [0..<16] else replicate 16 0)
      in if antenna_selection p > 0 \<and> dci_format p = 0
         then c[15 := (if c ! 15 = word_of_int (ue_port p AND 1) then 0 else 1)] else c)"

definition pbch_sequence_gen :: "int \<Rightarrow> bytes" where
  "pbch_sequence_gen nof_ports = (if nof_ports = 2 then replicate 16 1
     else if nof_ports = 4 then map (\<lambda>i. if odd i then 1 else 0) [0..<16] else replicate 16 0)"

definition srambling :: "bytes \<Rightarrow> bytes \<Rightarrow> bytes" where
  "srambling inp c = map (\<lambda>i. if inp ! i = c ! i then 0 else 1) [0..<length inp]"

definition desrambling :: "cfloat list \<Rightarrow> bytes \<Rightarrow> cfloat list" where
  "desrambling inp c = map (\<lambda>i. if (f_pos (inp ! i) \<and> c ! i = 0) \<or> (f_nonpos (inp ! i) \<and> c ! i = 1)
     then f_neg (inp ! i) else inp ! i) [0..<length inp]"

definition verify_initialization_parameters :: "int \<Rightarrow> int \<Rightarrow> int" where
  "verify_initialization_parameters Lcrc channel =
     (if Lcrc < 1 \<or> Lcrc > 32 then -1 else if channel < 0 \<or> channel > 1 then -1 else 0)"

text \<open>rnti is unsigned in this routine.\<close>

definition verify_runtime_parameters :: "int \<Rightarrow> 32 word \<Rightarrow> int \<Rightarrow> int" where
  "verify_runtime_parameters Lcrc r port =
     (if Lcrc \<noteq> 16 then -1 else if r > 0xFFFF then -1 else if port < 0 \<or> port > 1 then -1 else 0)"

text \<open>The sequence of a call; Some None is the return of -1, None a sequence that was not set. pp gives the
  parameters by handle.\<close>

definition crc_sequence :: "int \<Rightarrow> int \<Rightarrow> pget \<Rightarrow> bytes option option" where
  "crc_sequence channel Lcrc pp =
     (if channel = 0 then
        let p = \<lparr>rnti = the_par pp ''rnti'' 0, antenna_selection = the_par pp ''antenna_selection'' 0,
          ue_port = the_par pp ''ue_port'' 0, dci_format = the_par pp ''dci_format'' 0\<rparr>
        in Some (if verify_runtime_parameters Lcrc (word_of_int (rnti p)) (ue_port p) \<noteq> 0 then None
          else Some (pdcch_sequence_gen p))
      else case pp ''nof_ports'' of
          None \<Rightarrow> None
        | Some n \<Rightarrow> Some (if n = 1 \<or> n = 2 \<or> n = 4 then Some (pbch_sequence_gen n) else None))"

text \<open>The transmitter: the bits before the checksum are copied. The receiver copies as many bytes as there
  are such samples, although a sample has four.\<close>

definition crc_scrambling_tx :: "int \<Rightarrow> int \<Rightarrow> pget \<Rightarrow> bytes \<Rightarrow> (int \<times> bytes) option" where
  "crc_scrambling_tx channel Lcrc pp inp =
     (if inp = [] then Some (0, [])
      else do {
        sq \<leftarrow> crc_sequence channel Lcrc pp;
        case sq of None \<Rightarrow> Some (-1, [])
        | Some c \<Rightarrow> if int (length inp) < Lcrc \<or> int (length c) < Lcrc then None
          else let k = length inp - nat Lcrc in Some (int (length inp), take k inp @ srambling (drop k inp) c) })"

definition copy_bytes :: "nat \<Rightarrow> cfloat list \<Rightarrow> cfloat list \<Rightarrow> cfloat list" where
  "copy_bytes n xs ys = (let bs = take n (concat (map word32_bytes xs)) @ drop n (concat (map word32_bytes ys)) in
     map (\<lambda>i. bytes_word32 (take 4 (drop (4 * i) bs))) [0..<length ys])"

definition crc_scrambling_rx :: "int \<Rightarrow> int \<Rightarrow> pget \<Rightarrow> cfloat list \<Rightarrow> cfloat list \<Rightarrow> (int \<times> cfloat list) option" where
  "crc_scrambling_rx channel Lcrc pp inp out =
     (if inp = [] then Some (0, out)
      else do {
        sq \<leftarrow> crc_sequence channel Lcrc pp;
        case sq of None \<Rightarrow> Some (-1, out)
        | Some c \<Rightarrow> if int (length inp) < Lcrc \<or> int (length c) < Lcrc \<or> length out < length inp then None
          else let k = length inp - nat Lcrc; o1 = copy_bytes k inp out
            in Some (int (length inp), take k o1 @ desrambling (drop k inp) c @ drop (length inp) o1) })"

section \<open>Lemmas on the control information\<close>

text \<open>The rest of a packet from a position on.\<close>

definition rest_at :: "bytes \<Rightarrow> int \<Rightarrow> bytes \<Rightarrow> bool" where
  "rest_at p pos rest \<longleftrightarrow> 0 \<le> pos \<and> nat pos \<le> length p \<and> drop (nat pos) p = rest"

lemma rest_at_length: "rest_at p pos rest \<Longrightarrow> int (length p) = pos + int (length rest)"
  by (auto simp: rest_at_def)

lemma unpack_at_pack:
  assumes "rest_at p pos (pack_bits v n @ rest)" "n \<le> 32"
  shows "unpack_at p pos n = Some (take_bit n v, pos + int n)" "rest_at p (pos + int n) rest"
proof -
  have d: "drop (nat pos) p = pack_bits v n @ rest" and pos: "0 \<le> pos" using assms(1) by (simp_all add: rest_at_def)
  have len: "int (length p) = pos + int (length (pack_bits v n @ rest))" by (rule rest_at_length [OF assms(1)])
  then show "unpack_at p pos n = Some (take_bit n v, pos + int n)"
    using pos by (simp add: unpack_at_def d unpack_pack [OF assms(2)])
  have "drop (nat (pos + int n)) p = drop n (drop (nat pos) p)" using pos by (simp add: nat_add_distrib add.commute)
  then show "rest_at p (pos + int n) rest" using pos len by (simp add: rest_at_def d)
qed

lemma unpack_mask_pack:
  assumes "rest_at p pos (concat (map (\<lambda>v. pack_bits v 1) vs) @ rest)" "length vs \<le> length msk"
  shows "unpack_mask p pos (int (length vs)) msk = Some (map (take_bit 1) vs @ drop (length vs) msk, pos + int (length vs))
    \<and> rest_at p (pos + int (length vs)) rest"
  using assms
proof (induction vs arbitrary: rest rule: rev_induct)
  case Nil
  then show ?case by (simp add: unpack_mask_def)
next
  case (snoc v vs)
  let ?n = "length vs"
  have IH: "unpack_mask p pos (int ?n) msk = Some (map (take_bit 1) vs @ drop ?n msk, pos + int ?n)"
    "rest_at p (pos + int ?n) (pack_bits v 1 @ rest)" using snoc.IH [of "pack_bits v 1 @ rest"] snoc.prems by simp_all
  note u = unpack_at_pack [OF IH(2)]
  have dr: "drop ?n msk = msk ! ?n # drop (Suc ?n) msk" using snoc.prems(2) by (simp add: Cons_nth_drop_Suc)
  have "poke (map (take_bit 1) vs @ drop ?n msk) (int ?n) (take_bit 1 v) = Some (map (take_bit 1) (vs @ [v]) @ drop (Suc ?n) msk)"
    using snoc.prems(2) by (simp add: poke_def dr list_update_append)
  then show ?case
    using IH(1) u unfolding unpack_mask_def by (simp add: below_Suc [unfolded of_nat_Suc] each_append add.commute add.left_commute)
qed

lemma pack_mask_loop:
  assumes "n \<le> length msk"
  shows "each (\<lambda>i b. map_option (\<lambda>v. b @ pack_bits v 1) (peek msk i)) (below (int n)) b0
    = Some (b0 @ concat (map (\<lambda>v. pack_bits v 1) (take n msk)))"
  using assms by (induction n) (simp_all add: below_Suc [unfolded of_nat_Suc] each_append peek_def take_Suc_conv_app_nth)

text \<open>A format 1 message that the code supports.\<close>

definition dci_ok :: "dci_format1 \<Rightarrow> bool" where
  "dci_ok d \<longleftrightarrow> 0 \<le> carrier_indicator_len d \<and> carrier_indicator_len d \<le> 3 \<and> (harq_pnum_len d = 3 \<or> harq_pnum_len d = 4)
     \<and> ra_type d \<noteq> TYPE1 \<and> 0 \<le> dci_nof_rbg d \<and> dci_nof_rbg d \<le> 25 \<and> length (dci_rbg_mask d) = 25"

definition dci_bits :: "dci_format1 \<Rightarrow> bytes" where
  "dci_bits d = (if carrier_indicator_len d \<noteq> 0 then pack_bits (scast (carrier_indicator d)) (nat (carrier_indicator_len d)) else [])
     @ (if ra_type d = TYPE0 then pack_bits 0 1 else [])
     @ concat (map (\<lambda>v. pack_bits v 1) (take (nat (dci_nof_rbg d)) (dci_rbg_mask d)))
     @ pack_bits (dci_mcs d) 5 @ pack_bits (harq_pnum d) (nat (harq_pnum_len d)) @ pack_bits (new_data d) 1
     @ pack_bits (redundancy_version d) 2 @ pack_bits (tpc_command d) 2"

lemma dci_pack_bits:
  assumes "dci_ok d"
  shows "dci_format1_pack d = Some (case check_ambiguous_size (int (length (dci_bits d))) of (n, z) \<Rightarrow> (n, dci_bits d @ z))"
proof -
  have n: "int (nat (dci_nof_rbg d)) = dci_nof_rbg d" "nat (dci_nof_rbg d) \<le> length (dci_rbg_mask d)" using assms by (auto simp: dci_ok_def)
  note loop = pack_mask_loop [OF n(2), unfolded n(1)]
  have c: "(carrier_indicator_len d < 0 \<or> carrier_indicator_len d > 3) = False" "(harq_pnum_len d \<noteq> 3 \<and> harq_pnum_len d \<noteq> 4) = False" "(ra_type d = TYPE1) = False"
    using assms by (auto simp: dci_ok_def)
  show ?thesis
    unfolding dci_format1_pack_def Let_def c if_False loop Option.bind.bind_lunit
    using c(3) by (cases "ra_type d") (simp_all add: dci_bits_def case_prod_unfold)
qed

text \<open>The message that the receiver holds after it unpacked one.\<close>

definition dci_read :: "dci_format1 \<Rightarrow> dci_format1 \<Rightarrow> dci_format1" where
  "dci_read d e = e\<lparr>carrier_indicator := (if carrier_indicator_len d \<noteq> 0
       then ucast (take_bit (nat (carrier_indicator_len d)) (scast (carrier_indicator d) :: 32 word)) else carrier_indicator e),
     ra_type := ra_type d,
     dci_rbg_mask := map (take_bit 1) (take (nat (dci_nof_rbg d)) (dci_rbg_mask d)) @ drop (nat (dci_nof_rbg d)) (dci_rbg_mask e),
     dci_mcs := take_bit 5 (dci_mcs d), harq_pnum := take_bit (nat (harq_pnum_len d)) (harq_pnum d),
     new_data := take_bit 1 (new_data d), redundancy_version := take_bit 2 (redundancy_version d),
     tpc_command := take_bit 2 (tpc_command d)\<rparr>"

lemma check_ambiguous_cases:
  "check_ambiguous_size n = (n, []) \<or> check_ambiguous_size n = (n + 1, [0])"
  by (simp add: check_ambiguous_size_def pack_bits_def)

lemma unpack_tail_pack:
  assumes r: "rest_at p k (pack_bits v1 5 @ pack_bits v2 (nat (harq_pnum_len e)) @ pack_bits v3 1 @ pack_bits v4 2 @ pack_bits v5 2 @ z)"
    and h: "harq_pnum_len e = 3 \<or> harq_pnum_len e = 4" and len: "packet_len = int (length p) - int (length rest)" "z = z1 @ rest"
    and z: "check_ambiguous_size (k + 10 + harq_pnum_len e) = (n, z1)"
  shows "unpack_tail p packet_len k e = Some (n, p, e\<lparr>dci_mcs := take_bit 5 v1, harq_pnum := take_bit (nat (harq_pnum_len e)) v2,
    new_data := take_bit 1 v3, redundancy_version := take_bit 2 v4, tpc_command := take_bit 2 v5\<rparr>)"
proof -
  let ?h = "harq_pnum_len e"
  have h32: "nat ?h \<le> 32" "int (nat ?h) = ?h" using h by auto
  note u1 = unpack_at_pack [OF r]
  note u2 = unpack_at_pack [OF u1(2)]
  note u3 = unpack_at_pack [OF u2(2) ]
  note u4 = unpack_at_pack [OF u3(2)]
  note u5 = unpack_at_pack [OF u4(2)]
  have k5: "rest_at p (k + 10 + ?h) z" using u5(2) h32 by (simp add: algebra_simps)
  have pl: "packet_len = k + 10 + ?h + int (length z1)" using rest_at_length [OF k5] len by simp
  have same: "poke p (k + 10 + ?h) 0 = Some p" if "z1 = [0]"
  proof -
    have "drop (nat (k + 10 + ?h)) p = 0 # rest" using k5 len(2) that by (simp add: rest_at_def)
    then have "nat (k + 10 + ?h) < length p" "p ! nat (k + 10 + ?h) = 0"
      by (metis drop_all leI list.distinct(1), metis nth_via_drop)
    moreover from this have "p[nat (k + 10 + ?h) := 0] = p" by (metis list_update_id)
    ultimately show ?thesis using k5 by (simp add: poke_def rest_at_def nat_less_iff)
  qed
  have zc: "z1 = [] \<or> z1 = [0]" using check_ambiguous_cases [of "k + 10 + ?h"] z by auto
  have a: "unpack_at p k 5 = Some (take_bit 5 v1, k + 5)" "unpack_at p (k + 5) (nat ?h) = Some (take_bit (nat ?h) v2, k + 5 + ?h)"
    "unpack_at p (k + 5 + ?h) 1 = Some (take_bit 1 v3, k + 6 + ?h)" "unpack_at p (k + 6 + ?h) 2 = Some (take_bit 2 v4, k + 8 + ?h)"
    "unpack_at p (k + 8 + ?h) 2 = Some (take_bit 2 v5, k + 10 + ?h)"
    using u1(1) u2(1) u3(1) u4(1) u5(1) h32 by (simp_all add: algebra_simps)
  have s: "(dci_packet_space k packet_len < 5) = False" "(dci_packet_space (k + 5) packet_len < ?h) = False"
    "(dci_packet_space (k + 5 + ?h) packet_len < 5) = False" using pl h by (auto simp: dci_packet_space_def)
  show ?thesis
    unfolding unpack_tail_def s if_False a Option.bind.bind_lunit prod.case Let_def z
    using zc same by auto
qed

lemma dci_unpack_bits:
  assumes d: "dci_ok d" and e: "carrier_indicator_len e = carrier_indicator_len d" "harq_pnum_len e = harq_pnum_len d"
      "ra_type e = NA \<longleftrightarrow> ra_type d = NA" "dci_nof_rbg e = dci_nof_rbg d" "length (dci_rbg_mask e) = 25"
    and z: "check_ambiguous_size (int (length (dci_bits d))) = (n, z1)" and p: "p = dci_bits d @ z1 @ rest"
  shows "dci_format1_unpack p n e = Some (n, p, dci_read d e)"
proof -
  let ?cl = "carrier_indicator_len d" and ?vs = "take (nat (dci_nof_rbg d)) (dci_rbg_mask d)"
  let ?tail = "pack_bits (dci_mcs d) 5 @ pack_bits (harq_pnum d) (nat (harq_pnum_len d)) @ pack_bits (new_data d) 1
     @ pack_bits (redundancy_version d) 2 @ pack_bits (tpc_command d) 2 @ z1 @ rest"
  let ?b2 = "(if ra_type d = TYPE0 then pack_bits 0 1 else []) @ concat (map (\<lambda>v. pack_bits v 1) ?vs) @ ?tail"
  have cl: "0 \<le> ?cl" "?cl \<le> 3" and hl: "harq_pnum_len d = 3 \<or> harq_pnum_len d = 4" and ra: "ra_type d \<noteq> TYPE1"
    and nr: "0 \<le> dci_nof_rbg d" "dci_nof_rbg d \<le> 25" "length ?vs = nat (dci_nof_rbg d)" using d by (auto simp: dci_ok_def)
  have len1: "length (concat (map (\<lambda>v. pack_bits v 1) vs)) = length vs" for vs by (induction vs) simp_all
  define h where "h = harq_pnum_len d"
  define k1 where "k1 = ?cl"
  define k2 where "k2 = k1 + (if ra_type d = TYPE0 then 1 else 0)"
  define k3 where "k3 = k2 + dci_nof_rbg d"
  have total: "int (length (dci_bits d)) = k3 + 10 + h"
    using cl hl nr len1 [of ?vs] by (auto simp: dci_bits_def k1_def k2_def k3_def h_def)
  have n: "n = k3 + 10 + h + int (length z1)" "n = int (length p) - int (length rest)"
    using check_ambiguous_cases [of "k3 + 10 + h"] z total by (auto simp: p)
  have r0: "rest_at p 0 (dci_bits d @ z1 @ rest)" by (simp add: rest_at_def p)
  obtain e1 where e1: "(if ?cl \<noteq> 0 then map_option (\<lambda>(v, k). (e\<lparr>carrier_indicator := ucast v\<rparr>, k)) (unpack_at p 0 (nat ?cl)) else Some (e, 0)) = Some (e1, k1)"
    "rest_at p k1 ?b2" "e1 = e\<lparr>carrier_indicator := (if ?cl \<noteq> 0
       then ucast (take_bit (nat ?cl) (scast (carrier_indicator d) :: 32 word)) else carrier_indicator e)\<rparr>"
  proof (cases "?cl = 0")
    case True
    then show thesis using that [of e] r0 by (simp add: dci_bits_def k1_def)
  next
    case False
    then have "rest_at p 0 (pack_bits (scast (carrier_indicator d)) (nat ?cl) @ ?b2)" using r0 by (simp add: dci_bits_def)
    from unpack_at_pack [OF this] show thesis using that False cl by (simp add: k1_def)
  qed
  obtain e2 where e2: "(if ra_type e1 \<noteq> NA then map_option (\<lambda>(v, k). (e1\<lparr>ra_type := (if v \<noteq> 0 then TYPE1 else TYPE0)\<rparr>, k)) (unpack_at p k1 1) else Some (e1, k1)) = Some (e2, k2)"
    "rest_at p k2 (concat (map (\<lambda>v. pack_bits v 1) ?vs) @ ?tail)" "e2 = e1\<lparr>ra_type := ra_type d\<rparr>"
  proof (cases "ra_type d")
    case NA
    then show thesis using that [of e1] e1(2,3) e(3) by (simp add: k2_def)
  next
    case TYPE0
    then have "rest_at p k1 (pack_bits 0 1 @ concat (map (\<lambda>v. pack_bits v 1) ?vs) @ ?tail)" using e1(2) by simp
    from unpack_at_pack [OF this] show thesis using that TYPE0 e1(3) e(3) by (simp add: k2_def)
  qed (use ra in simp)
  have "length ?vs \<le> length (dci_rbg_mask e2)" using nr e(5) e1(3) e2(3) by simp
  note m = unpack_mask_pack [OF e2(2) this, unfolded nr(3)]
  have m1: "unpack_mask p k2 (dci_nof_rbg d) (dci_rbg_mask e2)
      = Some (map (take_bit 1) ?vs @ drop (nat (dci_nof_rbg d)) (dci_rbg_mask e2), k3)" and m2: "rest_at p k3 ?tail"
    using m nr(1) by (simp_all add: k3_def)
  define e3 where "e3 = e2\<lparr>dci_rbg_mask := map (take_bit 1) ?vs @ drop (nat (dci_nof_rbg d)) (dci_rbg_mask e2)\<rparr>"
  have e3: "harq_pnum_len e3 = h" using e(2) e1(3) e2(3) by (simp add: e3_def h_def)
  have t: "unpack_tail p n k3 e3 = Some (n, p, e3\<lparr>dci_mcs := take_bit 5 (dci_mcs d), harq_pnum := take_bit (nat (harq_pnum_len e3)) (harq_pnum d),
    new_data := take_bit 1 (new_data d), redundancy_version := take_bit 2 (redundancy_version d), tpc_command := take_bit 2 (tpc_command d)\<rparr>)"
    by (rule unpack_tail_pack [where rest = rest and z = "z1 @ rest" and ?z1.0 = z1]) (use m2 e3 hl n(2) z total in \<open>simp_all add: h_def\<close>)
  have sp: "\<not> dci_packet_space 0 n < ?cl" "\<not> dci_packet_space k1 n < 1" "\<not> dci_packet_space k2 n < dci_nof_rbg d"
    using n(1) hl cl nr by (auto simp: dci_packet_space_def k1_def k2_def k3_def h_def)
  have "dci_format1_unpack p n e = unpack_tail p n k3 e3"
    unfolding dci_format1_unpack_def e(1,2,4) using sp cl hl e1(1) e2(1) m1 ra e2(3) by (simp add: e3_def) (use hl in blast)
  then show ?thesis unfolding t e3 using e1(3) e2(3) by (simp add: e3_def dci_read_def h_def)
qed

lemma fold_or_bits:
  assumes "n \<le> 32"
  shows "bit (fold (\<lambda>i r. r OR push_bit i (l ! i AND 1)) [0..<n] (0 :: 32 word)) k \<longleftrightarrow> k < n \<and> odd (l ! k)"
  using assms
proof (induction n)
  case (Suc n)
  have "l ! n AND 1 = of_bool (odd (l ! n))" by (simp add: and_one_eq mod_2_eq_odd)
  then have "bit (push_bit n (l ! n AND 1)) k \<longleftrightarrow> odd (l ! n) \<and> k = n"
    using Suc.prems by (cases "odd (l ! n)") (auto simp: bit_exp_iff)
  then show ?case using Suc by (auto simp: bit_or_iff less_Suc_eq)
qed simp

lemma sint_take_bit:
  assumes "n < 32"
  shows "sint (take_bit n (w :: 32 word)) = take_bit n (uint w)"
proof -
  have u: "uint (take_bit n w) = take_bit n (uint w)" by (simp add: unsigned_take_bit_eq)
  have "take_bit n (uint w) < 2 ^ 31"
    using assms take_bit_int_less_exp [of n "uint w"] power_increasing [of n 31 "2 :: int"] by linarith
  moreover have "- (2 ^ 31) \<le> take_bit n (uint w)" by (rule order_trans [of _ 0]) simp_all
  ultimately have "signed_take_bit 31 (take_bit n (uint w)) = take_bit n (uint w)" by (intro signed_take_bit_int_eq_self)
  then show ?thesis using u by (simp add: sint_uint)
qed

text \<open>The message that lte_dci_pack sends.\<close>

definition dci_of :: "int \<Rightarrow> int \<Rightarrow> int \<Rightarrow> dci_format1" where
  "dci_of mcs n msk = dci_zero\<lparr>dci_mcs := word_of_int mcs, dci_nof_rbg := n,
     dci_rbg_mask := map (\<lambda>i. if msk AND push_bit i 1 \<noteq> 0 then 1 else 0) [0..<25],
     ra_type := NA, harq_pnum_len := 3, carrier_indicator_len := 2\<rparr>"

lemma dci_of_ok: "0 \<le> n \<Longrightarrow> n \<le> 25 \<Longrightarrow> dci_ok (dci_of mcs n msk)"
  by (simp add: dci_ok_def dci_of_def dci_zero_def)

lemma dci_link_eq:
  assumes "the_par pg ''enable'' 0 \<noteq> 0" "n = the_par pg ''nof_rbg'' 0" "0 \<le> n" "n \<le> 25" "the_par pg2 ''nof_rbg'' 0 = n"
  shows "\<exists>len b. send_dci pg = Some (len, b) \<and> len = int (length b) \<and> 0 < len
    \<and> (\<forall>rest. recv_dci pg2 (i1, i2, i3) (b @ rest) out len
      = Some (remote_all out 0 [(i1, the_par pg ''mcs'' 0 mod 32), (i2, n), (i3, the_par pg ''rbg_mask'' 0 mod 2 ^ nat n)]))"
proof -
  define msk where "msk = the_par pg ''rbg_mask'' 0"
  define mcs where "mcs = the_par pg ''mcs'' 0"
  let ?d = "dci_of mcs n msk"
  let ?e = "dci_zero\<lparr>harq_pnum_len := 3, carrier_indicator_len := 2, dci_nof_rbg := n\<rparr>"
  note ok = dci_of_ok [OF assms(3,4), of mcs msk]
  obtain len z where z: "check_ambiguous_size (int (length (dci_bits ?d))) = (len, z)" by fastforce
  have len: "len = int (length (dci_bits ?d @ z))" "0 < len"
    using check_ambiguous_cases [of "int (length (dci_bits ?d))"] z by (auto simp: dci_bits_def)
  have send: "send_dci pg = Some (len, dci_bits ?d @ z)"
    unfolding send_dci_def Let_def msk_def [symmetric] mcs_def [symmetric] assms(2) [symmetric] dci_of_def [symmetric]
    using assms(1) dci_pack_bits [OF ok] z len by simp
  have un: "dci_format1_unpack (dci_bits ?d @ z @ rest) len ?e = Some (len, dci_bits ?d @ z @ rest, dci_read ?d ?e)" for rest
    by (rule dci_unpack_bits [OF ok _ _ _ _ _ z refl]) (simp_all add: dci_of_def dci_zero_def)
  have mcs: "sint (dci_mcs (dci_read ?d ?e)) = mcs mod 32"
    by (simp add: dci_read_def dci_of_def sint_take_bit uint_word_of_int_eq take_bit_take_bit) (simp add: take_bit_eq_mod)
  let ?l = "dci_rbg_mask (dci_read ?d ?e)"
  have odd: "odd (?l ! i) \<longleftrightarrow> int i < n \<and> bit msk i" if "i < 25" for i
    using that assms(3,4)
    by (auto simp: dci_read_def dci_of_def dci_zero_def nth_append take_map and_exp_eq_0_iff_not_bit zless_nat_eq_int_zless take_bit_eq_mod)
  have "fold (\<lambda>i r. r OR push_bit i (?l ! i AND 1)) [0..<25] (0 :: 32 word) = take_bit (nat n) (word_of_int msk)"
  proof (rule bit_eqI)
    fix k
    show "bit (fold (\<lambda>i r. r OR push_bit i (?l ! i AND 1)) [0..<25] (0 :: 32 word)) k = bit (take_bit (nat n) (word_of_int msk :: 32 word)) k"
      by (subst fold_or_bits, simp) (cases "k < 25"; use odd [of k] assms(3,4) in \<open>auto simp: bit_take_bit_iff bit_word_of_int_iff zless_nat_eq_int_zless\<close>)
  qed
  moreover have "sint (take_bit (nat n) (word_of_int msk :: 32 word)) = msk mod 2 ^ nat n"
    using assms(3,4) by (simp add: sint_take_bit uint_word_of_int_eq take_bit_take_bit) (simp add: take_bit_eq_mod)
  ultimately have m: "sint (fold (\<lambda>i r. r OR push_bit i (?l ! i AND 1)) [0..<25] (0 :: 32 word)) = msk mod 2 ^ nat n" by simp
  have nr: "dci_nof_rbg (dci_read ?d ?e) = n" by (simp add: dci_read_def)
  have "recv_dci pg2 (i1, i2, i3) ((dci_bits ?d @ z) @ rest) out len
      = Some (remote_all out 0 [(i1, mcs mod 32), (i2, n), (i3, msk mod 2 ^ nat n)])" for rest
    unfolding recv_dci_def prod.case assms(5) append_assoc un Option.bind.bind_lunit Let_def mcs nr m using len(2) by simp
  then show ?thesis using send len by (simp add: msk_def mcs_def)
qed

section \<open>Lemmas on the broadcast channel\<close>

text \<open>The bandwidth of the standard that has room for a number of PRB.\<close>

definition bandwidth :: "int \<Rightarrow> int" where
  "bandwidth n = (if n \<le> 6 then 6 else if n \<le> 15 then 15 else if n \<le> 25 then 25 else if n \<le> 50 then 50 else if n \<le> 75 then 75 else 100)"

lemma bch_link_eq:
  assumes "the_par pg ''enable'' 0 \<noteq> 0" "pg ''nof_prb'' = Some n" "n \<le> 100" "pg ''sfn'' = Some f" "24 \<le> length buf"
  shows "\<exists>b. send_bch pg buf = Some (24, b) \<and> length b = length buf
    \<and> recv_bch (i1, i2) b out 24 = remote_all out 0 [(i1, bandwidth n), (i2, f mod 256)]"
proof -
  let ?o = "(set_bw buf n)[3 := 0, 4 := 0, 5 := 0]"
  let ?b = "take 6 ?o @ pack_bits (word_of_int f) 8 @ replicate 10 0 @ drop 24 buf"
  have "\<exists>w. bw_bits n = Some w \<and> length w = 3 \<and> (\<forall>r. get_bw (w @ r) = bandwidth n)"
    using assms(3) by (simp add: bw_bits_def bandwidth_def get_bw_def)
  then obtain w where w: "bw_bits n = Some w" "length w = 3" "\<And>r. get_bw (w @ r) = bandwidth n" by blast
  have lo: "length ?o = length buf" using w(1,2) assms(5) by (simp add: set_bw_def written_def)
  have "take 3 ?b = w" using w(1,2) assms(5) by (simp add: set_bw_def written_def take_update_swap list_update_beyond)
  then have "?b = w @ drop 3 ?b" by (metis append_take_drop_id)
  then have bw: "get_bw ?b = bandwidth n" using w(3) by metis
  have d: "drop 6 ?b = pack_bits (word_of_int f) 8 @ replicate 10 0 @ drop 24 buf" using lo assms(5) by simp
  have "unpack_bits (drop 6 ?b) 8 = (take_bit 8 (word_of_int f), replicate 10 0 @ drop 24 buf)" unfolding d by (rule unpack_pack) simp
  then have sfn: "sint (fst (unpack_bits (drop 6 ?b) 8)) = f mod 256"
    by (simp add: sint_take_bit uint_word_of_int_eq take_bit_take_bit) (simp add: take_bit_eq_mod)
  have "recv_bch (i1, i2) ?b out 24 = remote_all out 0 [(i1, bandwidth n), (i2, f mod 256)]"
    unfolding recv_bch_def prod.case bw sfn by simp
  moreover have "send_bch pg buf = Some (24, ?b)" using assms by (simp add: send_bch_def Let_def)
  moreover have "length ?b = length buf" using lo assms(5) by simp
  ultimately show ?thesis by blast
qed

text \<open>Calls of lte_bch_demux with the given inputs: the number of samples that each of them returns, which is
  what the skeleton sends, and what it writes to its output buffer.\<close>

fun bch_calls :: "bytes list \<Rightarrow> bch_demux \<Rightarrow> ((int \<times> bytes) list \<times> bch_demux) option" where
  "bch_calls [] s = Some ([], s)"
| "bch_calls (x # xs) s = do {
     (n, out, s1) \<leftarrow> bch_demux_work x s;
     (outs, s2) \<leftarrow> bch_calls xs s1;
     Some ((n, out) # outs, s2) }"

definition quarter :: "bytes \<Rightarrow> nat \<Rightarrow> bytes" where
  "quarter x i = (let n = length x div 4 in take n (drop (i * n) x))"

text \<open>What the call number j after an input has to send.\<close>

definition bch_sent :: "bytes \<Rightarrow> nat \<Rightarrow> int \<times> bytes" where
  "bch_sent x j = (if j \<le> 30 \<and> j mod 10 = 0 then (int (length x div 4), quarter x (j div 10)) else (0, []))"

text \<open>The state after k calls that follow an input.\<close>

definition bch_after :: "bch_demux \<Rightarrow> nat \<Rightarrow> bch_demux" where
  "bch_after s k = s\<lparr>bd_subframe := int k, bd_frame := int ((k + 9) div 10), bd_empty := (30 < k)\<rparr>"

definition bch_loaded :: "bytes \<Rightarrow> bch_demux \<Rightarrow> bool" where
  "bch_loaded x s \<longleftrightarrow> bd_spp s = int (length x div 4) \<and> length (bd_outi s) = 4
     \<and> (\<forall>i<4. take (length x div 4) (bd_outi s ! i) = quarter x i)"

lemma bch_emit_step:
  assumes "bch_loaded x s" "k \<le> 30"
  shows "bch_demux_emit (bch_after s k) = Some (fst (bch_sent x k), snd (bch_sent x k), bch_after s (Suc k))"
proof (cases "k mod 10 = 0")
  case True
  then obtain j where k: "k = 10 * j" by (metis mult_div_mod_eq add_0_right)
  have j: "j < 4" using assms(2) k by simp
  have d: "(k + 9) div 10 = j" "(Suc k + 9) div 10 = Suc j" "k div 10 = j" using k by auto
  have "bch_demux_emit (bch_after s k) = Some (bd_spp s, quarter x j, bch_after s (Suc k))"
    unfolding bch_demux_emit_def bch_after_def d using assms j k by (auto simp: bch_loaded_def peek_def)
  then show ?thesis using True d assms by (simp add: bch_sent_def bch_loaded_def)
next
  case False
  obtain q r where k: "k = 10 * q + r" "0 < r" "r < 10" using False mult_div_mod_eq [of 10 k] by (metis gr0I mod_less_divisor zero_less_numeral)
  have q: "(k + 9) div 10 = Suc q" "(Suc k + 9) div 10 = Suc q" by (rule div_nat_eqI; use k in simp)+
  then have d: "(Suc k + 9) div 10 = (k + 9) div 10" "(k + 9) div 10 \<noteq> 4" using k assms(2) by auto
  have "int k \<noteq> 10 * int ((k + 9) div 10)" using q k by auto
  moreover have "Suc k \<le> 30" using False assms(2) by (cases "k = 30") simp_all
  ultimately have "bch_demux_emit (bch_after s k) = Some (0, [], bch_after s (Suc k))"
    unfolding bch_demux_emit_def bch_after_def d(1) using d(2) assms(2) by auto
  then show ?thesis using False by (simp add: bch_sent_def)
qed

lemma bch_idle:
  assumes "bch_loaded x s" "1 \<le> k"
  shows "\<exists>s'. bch_calls (replicate m []) (bch_after s k)
      = Some (map (bch_sent x) [k..<k + m], s')
    \<and> (30 < k + m \<longrightarrow> bd_empty s')"
  using assms(2)
proof (induction m arbitrary: k)
  case 0
  then show ?case by (simp add: bch_after_def)
next
  case (Suc m)
  have up: "[k..<Suc (k + m)] = k # [Suc k..<Suc (k + m)]" by (simp add: upt_conv_Cons del: upt_Suc)
  show ?case
  proof (cases "k \<le> 30")
    case True
    note n = bch_emit_step [OF assms(1) True]
    have "bch_demux_work [] (bch_after s k) = bch_demux_emit (bch_after s k)" using True by (simp add: bch_demux_work_def bch_after_def)
    then show ?thesis using n True Suc.IH [of "Suc k"] by (auto simp: up simp del: upt_Suc)
  next
    case False
    then have e: "bd_empty (bch_after s k)" by (simp add: bch_after_def)
    then have "bch_calls (replicate m' []) (bch_after s k) = Some (replicate m' (0, []), bch_after s k)" for m'
      by (induction m') (simp_all add: bch_demux_work_def)
    moreover have "map (bch_sent x) [k..<k + Suc m] = replicate (Suc m) (0, [])"
      using False by (intro replicate_eqI) (auto simp: bch_sent_def)
    ultimately show ?thesis using e by metis
  qed
qed

lemma bch_load:
  assumes "length x = 4 * n" "0 < n" "n \<le> 480" "length (bd_outi s) = 4"
  shows "\<exists>s1. bch_demux_load x s = Inr (bch_after s1 0) \<and> bch_loaded x s1"
proof -
  let ?s1 = "s\<lparr>bd_spp := int n, bd_outi := map (\<lambda>i. written (take n (drop (i * n) x)) (bd_outi s ! i)) [0..<4]\<rparr>"
  have "bch_demux_load x s = Inr (bch_after ?s1 0)"
    using assms by (simp add: bch_demux_load_def Let_def cdiv_nonneg bch_after_def)
  moreover have fits: "n \<le> 4 * n - i * n" if "i < 4" for i
    using mult_le_mono1 [of "Suc i" 4 n] that unfolding mult_Suc by linarith
  then have "\<forall>i<4. min n (4 * n - i * n) = n" by (simp add: min_absorb1)
  then have "bch_loaded x ?s1"
    using assms by (simp add: bch_loaded_def quarter_def written_def Let_def min_absorb1 fits)
  ultimately show ?thesis by blast
qed

lemma bch_demux_quarters:
  assumes "length x = 4 * n" "0 < n" "n \<le> 480" "length (bd_outi s) = 4"
  shows "\<exists>s'. bch_calls (x # replicate 39 []) s = Some (map (bch_sent x) [0..<40], s') \<and> bd_empty s'"
proof -
  obtain s1 where s1: "bch_demux_load x s = Inr (bch_after s1 0)" "bch_loaded x s1" using bch_load [OF assms] by blast
  have "x \<noteq> []" using assms(1,2) by auto
  then have w: "bch_demux_work x s = Some (fst (bch_sent x 0), snd (bch_sent x 0), bch_after s1 1)"
    using s1(1) bch_emit_step [OF s1(2), of 0] by (simp add: bch_demux_work_def)
  obtain s' where s': "bch_calls (replicate 39 []) (bch_after s1 1) = Some (map (bch_sent x) [1..<40], s')" "bd_empty s'"
    using bch_idle [OF s1(2), of 1 39] by auto
  have "[0..<40] = 0 # [1..<40]" by (simp add: upt_conv_Cons)
  then show ?thesis using w s' by simp
qed

lemma bch_sent_period: "j < 40 \<Longrightarrow> bch_sent x j = (if j mod 10 = 0 then (int (length x div 4), quarter x (j div 10)) else (0, []))"
proof -
  assume "j < 40"
  then have "j mod 10 = 0 \<longrightarrow> j \<le> 30" by presburger
  then show ?thesis by (simp add: bch_sent_def)
qed

section \<open>Lemmas on the control format indicator\<close>

lemma length_filter_or:
  "(\<And>j. j \<in> set xs \<Longrightarrow> P j \<Longrightarrow> Q j \<or> R j) \<Longrightarrow> length (filter P xs) \<le> length (filter Q xs) + length (filter R xs)"
proof (induction xs)
  case (Cons x xs)
  then have "length (filter P xs) \<le> length (filter Q xs) + length (filter R xs)" by simp
  then show ?case using Cons.prems [of x] by auto
qed simp

lemma hamming_triangle: "hamming x y \<le> hamming x z + hamming y z"
  unfolding hamming_def by (rule length_filter_or) auto

lemma coding_table_length: "i < 4 \<Longrightarrow> length (coding_table ! i) = 32"
proof -
  assume "i < 4"
  moreover have "\<forall>i\<in>set [0..<4]. length (coding_table ! i) = 32" by code_simp
  ultimately show ?thesis by simp
qed

lemma coding_table_distance: "i < 4 \<Longrightarrow> j < 4 \<Longrightarrow> i \<noteq> j \<Longrightarrow> 21 \<le> hamming (coding_table ! i) (coding_table ! j)"
proof -
  assume ij: "i < 4" "j < 4" "i \<noteq> j"
  have "\<forall>i\<in>set [0..<4]. \<forall>j\<in>set [0..<4]. i = j \<or> 21 \<le> hamming (coding_table ! i) (coding_table ! j)" by code_simp
  moreover have "i \<in> set [0..<4]" "j \<in> set [0..<4]" using ij by simp_all
  ultimately show ?thesis using ij(3) by blast
qed

lemma cfi_decoding_nearest:
  assumes "i < 4" "hamming x (coding_table ! i) \<le> 10"
  shows "cfi_decoding x coding_table = (int i, hamming x (coding_table ! i))"
proof -
  have far: "11 \<le> hamming x (coding_table ! j)" if "j < 4" "j \<noteq> i" for j
    using coding_table_distance [OF that(1) assms(1) that(2)] hamming_triangle [of "coding_table ! j" "coding_table ! i" x] assms(2)
    by (simp add: hamming_def eq_commute)
  have i: "i = 0 \<or> i = 1 \<or> i = 2 \<or> i = 3" using assms(1) by auto
  have up: "[0..<4] = [0, 1, 2, 3 :: nat]" by (simp add: upt_rec)
  show ?thesis
    unfolding cfi_decoding_def up
    using i far [of 0] far [of 1] far [of 2] far [of 3] assms(2) by (elim disjE) (simp_all add: Let_def)
qed

section \<open>Lemmas on the scrambling of checksums\<close>

definition bits01 :: "bytes \<Rightarrow> bool" where
  "bits01 xs \<longleftrightarrow> set xs \<subseteq> {0, 1}"

lemma srambling_twice:
  assumes "bits01 xs" "bits01 c" "length xs \<le> length c"
  shows "srambling (srambling xs c) c = xs" "bits01 (srambling xs c)" "length (srambling xs c) = length xs"
proof -
  have b: "xs ! i = 0 \<or> xs ! i = 1" "c ! i = 0 \<or> c ! i = 1" if "i < length xs" for i
    using subsetD [OF assms(1) [unfolded bits01_def] nth_mem [OF that]]
      subsetD [OF assms(2) [unfolded bits01_def] nth_mem, of i] assms(3) that by simp_all
  show "srambling (srambling xs c) c = xs"
    by (rule nth_equalityI) (use b in \<open>fastforce simp: srambling_def\<close>)+
  show "bits01 (srambling xs c)" "length (srambling xs c) = length xs" by (auto simp: srambling_def bits01_def)
qed

lemma crc_sequence_bits: "crc_sequence channel Lcrc pp = Some (Some c) \<Longrightarrow> bits01 c \<and> length c = 16"
proof -
  have "bits01 (pdcch_sequence_gen p) \<and> length (pdcch_sequence_gen p) = 16" for p
  proof -
    have "bits01 (map (\<lambda>i. word_of_int (rnti p div 2 ^ (15 - i) AND 1)) [0..<16])"
      by (auto simp: bits01_def and_one_eq mod_2_eq_odd)
    moreover have "bits01 (l[15 := if Q then 0 else 1])" if "bits01 l" for l :: bytes and Q
      using that set_update_subset_insert [of l 15] by (auto simp: bits01_def)
    moreover have "bits01 (replicate 16 0)" by (simp add: bits01_def)
    ultimately show ?thesis by (simp add: pdcch_sequence_gen_def Let_def)
  qed
  moreover have "bits01 (pbch_sequence_gen n) \<and> length (pbch_sequence_gen n) = 16" for n
    by (auto simp: pbch_sequence_gen_def bits01_def)
  ultimately show "crc_sequence channel Lcrc pp = Some (Some c) \<Longrightarrow> bits01 c \<and> length c = 16"
    by (auto simp: crc_sequence_def Let_def split: if_splits option.splits)
qed

lemma desrambling_sign:
  assumes "bits01 c" "length xs \<le> length c" "length ys = length xs"
    "\<forall>i<length xs. \<not> f_nan (xs ! i) \<and> take_bit 31 (xs ! i) \<noteq> 0 \<and> (ys ! i = xs ! i \<or> ys ! i = f_neg (xs ! i))"
  shows "desrambling ys c = desrambling xs c"
proof -
  have "(if (f_pos (ys ! i) \<and> c ! i = 0) \<or> (f_nonpos (ys ! i) \<and> c ! i = 1) then f_neg (ys ! i) else ys ! i)
      = (if (f_pos (xs ! i) \<and> c ! i = 0) \<or> (f_nonpos (xs ! i) \<and> c ! i = 1) then f_neg (xs ! i) else xs ! i)" if "i < length xs" for i
  proof -
    let ?x = "xs ! i" and ?y = "ys ! i"
    have c: "c ! i = 0 \<or> c ! i = 1"
      using subsetD [OF assms(1) [unfolded bits01_def] nth_mem, of i] assms(2) that by simp
    have x: "\<not> f_nan ?x" "take_bit 31 ?x \<noteq> 0" and y: "?y = ?x \<or> ?y = f_neg ?x" using assms(4) that by blast+
    have inv: "f_neg (f_neg ?x) = ?x" by (rule f_neg_neg)
    have n: "\<not> f_nan (f_neg ?x)" "bit (f_neg ?x) 31 \<longleftrightarrow> \<not> bit ?x 31" "take_bit 31 (f_neg ?x) = take_bit 31 ?x"
      using x(1) by (simp, simp_all add: f_neg_def bit_flip_bit_iff take_bit_flip_bit_eq)
    have "f_neg ?x \<noteq> 0" "?x \<noteq> 0" using n(3) x(2) by auto
    then show ?thesis using c y x n inv by (auto simp: f_pos_def f_nonpos_def)
  qed
  then show ?thesis unfolding desrambling_def assms(3) by (intro map_cong) simp_all
qed

lemma crc_rx_same:
  assumes "desrambling ys c = desrambling xs c" "length ys = length xs" "crc_sequence channel Lcrc pp = Some (Some c)"
    "Lcrc = int (length xs)" "xs \<noteq> []"
  shows "crc_scrambling_rx channel Lcrc pp (a @ ys) out = crc_scrambling_rx channel Lcrc pp (a @ xs) out"
proof -
  have "copy_bytes (length a) (a @ ys) out = copy_bytes (length a) (a @ xs) out"
    by (simp add: copy_bytes_def Let_def length_concat comp_def sum_list_triv)
  moreover have "ys \<noteq> []" using assms(2,5) by auto
  ultimately show ?thesis using assms by (simp add: crc_scrambling_rx_def Let_def)
qed

section \<open>Properties\<close>

text \<open>C21. What lte_dci_pack sends in one node arrives in the other: with the channel enabled, at most 25
  resource block groups and the same number of them at both ends, the sender writes a packet of the length
  that it returns, padded where the size is ambiguous, and the receiver unpacks it without an access outside
  an array and hands the modulation and coding scheme (modulo 32), the number of groups and the mask of the
  groups to its remote parameters, whatever the buffers held.\<close>

theorem dci_link:
  assumes "the_par pg ''enable'' 0 \<noteq> 0" "0 \<le> the_par pg ''nof_rbg'' 0" "the_par pg ''nof_rbg'' 0 \<le> 25"
    "the_par pg2 ''nof_rbg'' 0 = the_par pg ''nof_rbg'' 0"
  shows "\<exists>len b. dci_work 0 pg rx0 inp len0 (Some buf) = Some (len, None, Some b) \<and> 0 < len
    \<and> dci_work 1 pg2 (i1, i2, i3) b len out
      = Some (case remote_all out 0 [(i1, the_par pg ''mcs'' 0 mod 32), (i2, the_par pg ''nof_rbg'' 0),
          (i3, the_par pg ''rbg_mask'' 0 mod 2 ^ nat (the_par pg ''nof_rbg'' 0))] of (n, o1) \<Rightarrow> (0, samples_set n, o1))"
proof -
  obtain len b where lb: "send_dci pg = Some (len, b)" "len = int (length b)" "0 < len"
    "recv_dci pg2 (i1, i2, i3) (b @ drop (length b) buf) out len
      = Some (remote_all out 0 [(i1, the_par pg ''mcs'' 0 mod 32), (i2, the_par pg ''nof_rbg'' 0),
          (i3, the_par pg ''rbg_mask'' 0 mod 2 ^ nat (the_par pg ''nof_rbg'' 0))])"
    using dci_link_eq [OF assms(1) refl assms(2,3,4)] by blast
  have "dci_work 0 pg rx0 inp len0 (Some buf) = Some (len, None, Some (b @ drop (length b) buf))"
    by (simp add: dci_work_def lb(1) written_def)
  moreover have "dci_work 1 pg2 (i1, i2, i3) (b @ drop (length b) buf) len out
      = Some (case remote_all out 0 [(i1, the_par pg ''mcs'' 0 mod 32), (i2, the_par pg ''nof_rbg'' 0),
          (i3, the_par pg ''rbg_mask'' 0 mod 2 ^ nat (the_par pg ''nof_rbg'' 0))] of (n, o1) \<Rightarrow> (0, samples_set n, o1))"
    unfolding dci_work_def lb(4) by (simp add: case_prod_unfold)
  ultimately show ?thesis using lb(3) by blast
qed

definition dci_pars :: pget where
  "dci_pars = [''enable'' \<mapsto> 1, ''mcs'' \<mapsto> 9, ''nof_rbg'' \<mapsto> 13, ''rbg_mask'' \<mapsto> 4661]"

theorem dci_link_witness:
  "\<exists>len b. dci_work 0 dci_pars (0, 0, 0) [] 0 (Some []) = Some (len, None, Some b) \<and> 0 < len
    \<and> dci_work 1 dci_pars (0, 1, 2) b len (Some (replicate 264 0))
      = Some (case remote_all (Some (replicate 264 0)) 0 [(0, 9), (1, 13), (2, 4661)] of (n, o1) \<Rightarrow> (0, samples_set n, o1))"
  using dci_link [of dci_pars dci_pars "(0, 0, 0)" "[]" 0 "[]" 0 1 2 "Some (replicate 264 0)"]
  by (simp add: the_par_def dci_pars_def)

text \<open>What lte_bch_pack broadcasts arrives at the receiver: for at most 100 resource blocks the receiver hands
  the bandwidth of the standard that has room for them and the low eight bits of the frame number to its remote
  parameters.\<close>

theorem bch_link:
  assumes "the_par pg ''enable'' 0 \<noteq> 0" "pg ''nof_prb'' = Some n" "n \<le> 100" "pg ''sfn'' = Some f" "24 \<le> length buf"
  shows "\<exists>b. bch_work 0 pg rx0 inp len0 (Some buf) = Some (24, None, Some b) \<and> length b = length buf
    \<and> bch_work 1 pg2 (i1, i2) b 24 out = Some (case remote_all out 0 [(i1, bandwidth n), (i2, f mod 256)] of (k, o1) \<Rightarrow> (0, samples_set k, o1))"
proof -
  obtain b where b: "send_bch pg buf = Some (24, b)" "length b = length buf"
    "recv_bch (i1, i2) b out 24 = remote_all out 0 [(i1, bandwidth n), (i2, f mod 256)]"
    using bch_link_eq [OF assms] by blast
  then show ?thesis by (intro exI [of _ b]) (simp add: bch_work_def)
qed

theorem bch_link_witness:
  "\<exists>b. bch_work 0 [''enable'' \<mapsto> 1, ''nof_prb'' \<mapsto> 20, ''sfn'' \<mapsto> 300] (0, 0) [] 0 (Some (replicate 24 7)) = Some (24, None, Some b)
    \<and> length b = 24 \<and> bch_work 1 Map.empty (0, 1) b 24 (Some (replicate 264 0))
      = Some (case remote_all (Some (replicate 264 0)) 0 [(0, 25), (1, 44)] of (k, o1) \<Rightarrow> (0, samples_set k, o1))"
  using bch_link [of "[''enable'' \<mapsto> 1, ''nof_prb'' \<mapsto> 20, ''sfn'' \<mapsto> 300]" 20 300 "replicate 24 7" "(0, 0)" "[]" 0 Map.empty 0 1 "Some (replicate 264 0)"]
  by (simp add: the_par_def bandwidth_def)

text \<open>C22. lte_bch_demux spreads a broadcast block over forty subframes: after an input of 4 n samples and 39 calls
  without input, exactly the calls 0, 10, 20 and 30 return n and write the first, second, third and last quarter of
  the block, every other call returns 0 and writes nothing, no call has an access outside an array, and at the end
  the module waits for the next block.\<close>

theorem bch_demux_period:
  assumes "length x = 4 * n" "0 < n" "n \<le> 480" "length (bd_outi s) = 4"
  shows "\<exists>s'. bch_calls (x # replicate 39 []) s
      = Some (map (\<lambda>j. if j mod 10 = 0 then (int n, take n (drop (j div 10 * n) x)) else (0, [])) [0..<40], s') \<and> bd_empty s'"
proof -
  have "length x div 4 = n" using assms(1) by simp
  then have "map (bch_sent x) [0..<40] = map (\<lambda>j. if j mod 10 = 0 then (int n, take n (drop (j div 10 * n) x)) else (0, [])) [0..<40]"
    by (intro map_cong) (simp_all add: bch_sent_period quarter_def)
  then show ?thesis using bch_demux_quarters [OF assms] by metis
qed

theorem bch_demux_period_witness:
  "\<exists>s'. bch_calls ([1, 2, 3, 4, 5, 6, 7, 8] # replicate 39 []) bch_demux_zero
      = Some ([(2, [1, 2])] @ replicate 9 (0, []) @ [(2, [3, 4])] @ replicate 9 (0, []) @ [(2, [5, 6])] @ replicate 9 (0, [])
          @ [(2, [7, 8])] @ replicate 9 (0, []), s') \<and> bd_empty s'"
proof -
  have "map (\<lambda>j. if j mod 10 = 0 then (int 2, take 2 (drop (j div 10 * 2) [1, 2, 3, 4, 5, 6, 7, 8])) else (0, [])) [0..<40]
      = [(2, [1, 2])] @ replicate 9 (0, []) @ [(2, [3, 4])] @ replicate 9 (0, []) @ [(2, [5, 6])] @ replicate 9 (0, [])
          @ [(2, [7, 8 :: 8 word])] @ replicate 9 (0, [])" by code_simp
  moreover have "length [1, 2, 3, 4, 5, 6, 7, 8 :: 8 word] = 4 * 2" "length (bd_outi bch_demux_zero) = 4"
    by (simp_all add: bch_demux_zero_def)
  ultimately show ?thesis using bch_demux_period [of "[1, 2, 3, 4, 5, 6, 7, 8]" 2 bch_demux_zero] by fastforce
qed

text \<open>C23. The control format indicator survives ten wrong bits: the 32 bits that lte_cfi_coding sends for a value
  from 1 to 4, with at most ten of them changed, make lte_cfi_decoding, with no threshold configured, send that
  value to the remote parameter.\<close>

theorem cfi_corrects_ten_errors:
  assumes "0 < cfi" "cfi < 5" "cfi_coding_work 0 [''cfi'' \<mapsto> cfi] 0 0 o1 = (n, w)" "length x = 32" "hamming x w \<le> 10"
  shows "n = 32 \<and> cfi_decoding_work None idx x out = (case remote_at out 0 idx cfi of (m, o2) \<Rightarrow> (if m = -1 then -1 else 0, samples_set (cdiv m 4), o2))"
proof -
  define i where "i = nat (cfi - 1)"
  have i: "i < 4" "int i + 1 = cfi" using assms(1,2) by (auto simp: i_def)
  have w: "n = 32" "w = written (coding_table ! i) o1" using assms(1-3) by (simp_all add: cfi_coding_work_def i_def)
  have "length (coding_table ! i) = 32" by (rule coding_table_length [OF i(1)])
  then have "hamming x w = hamming x (coding_table ! i)"
    unfolding w(2) hamming_def written_def by (intro arg_cong [where f = length] filter_cong) (simp_all add: nth_append)
  then have h: "hamming x (coding_table ! i) \<le> 10" using assms(5) by simp
  show ?thesis
    unfolding cfi_decoding_work_def cfi_decoding_nearest [OF i(1) h] prod.case i(2) using w(1) assms(4) h by auto
qed

definition cfi_noisy :: bytes where
  "cfi_noisy = fold (\<lambda>j r. r[j := 1 - r ! j]) [3..<13] (coding_table ! 1)"

theorem cfi_corrects_ten_errors_witness:
  "cfi_decoding_work None 0 cfi_noisy (Some (replicate 264 0))
     = (case remote_at (Some (replicate 264 0)) 0 0 2 of (m, o2) \<Rightarrow> (if m = -1 then -1 else 0, samples_set (cdiv m 4), o2))"
proof -
  have "cfi_coding_work 0 [''cfi'' \<mapsto> 2] 0 0 [] = (32, coding_table ! 1)"
    by (simp add: cfi_coding_work_def written_def)
  moreover have "length cfi_noisy = 32" "hamming cfi_noisy (coding_table ! 1) \<le> 10" by code_simp+
  ultimately show ?thesis using cfi_corrects_ten_errors [of 2 "[]" 32 "coding_table ! 1" cfi_noisy 0 "Some (replicate 264 0)"] by simp
qed

text \<open>C39. The receiver of lte_crc_scrambling loses the checksum: any of the samples of the checksum may have the
  opposite sign (none of them zero or not a number), and the output is the same. The sign of an output sample
  depends on the scrambling sequence only.\<close>

theorem crc_descrambling_ignores_input:
  assumes "crc_sequence channel 16 pp = Some (Some c)" "length xs = 16" "length ys = 16"
    "\<forall>i<16. \<not> f_nan (xs ! i) \<and> take_bit 31 (xs ! i) \<noteq> 0 \<and> (ys ! i = xs ! i \<or> ys ! i = f_neg (xs ! i))"
  shows "crc_scrambling_rx channel 16 pp (a @ ys) out = crc_scrambling_rx channel 16 pp (a @ xs) out"
proof -
  have c: "bits01 c" "length c = 16" using crc_sequence_bits [OF assms(1)] by auto
  have "desrambling ys c = desrambling xs c"
    by (rule desrambling_sign) (use c assms in simp_all)
  then show ?thesis by (rule crc_rx_same) (use assms in auto)
qed

theorem crc_descrambling_ignores_input_witness:
  "crc_scrambling_rx 0 16 [''rnti'' \<mapsto> 4660] (replicate 3 0x3F800000 @ map (\<lambda>i. if i < 5 then 0xBF800000 else 0x3F800000) [0..<16]) (replicate 19 0)
   = crc_scrambling_rx 0 16 [''rnti'' \<mapsto> 4660] (replicate 3 0x3F800000 @ replicate 16 0x3F800000) (replicate 19 0)"
proof -
  have "crc_sequence 0 16 [''rnti'' \<mapsto> 4660] = Some (Some (pdcch_sequence_gen \<lparr>rnti = 4660, antenna_selection = 0, ue_port = 0, dci_format = 0\<rparr>))"
    by (simp add: crc_sequence_def the_par_def verify_runtime_parameters_def)
  moreover have "\<not> f_nan 0x3F800000" "take_bit 31 (0x3F800000 :: cfloat) \<noteq> 0" "f_neg 0x3F800000 = 0xBF800000" by code_simp+
  ultimately show ?thesis by (intro crc_descrambling_ignores_input) simp_all
qed

end
