(* ===== verification/Ctrl_Rate_Matching.thy ===== *)
theory Ctrl_Rate_Matching
  imports Lte_Messages "HOL-Library.FuncSet"
begin

unbundle bit_operations_syntax

text \<open>
  Rate matching of the control channels (modrep_osld/lte_ctrl_ratematching): transmitter
  (ctrl_ratematching_tx.c), receiver (ctrl_ratematching_rx.c) and the module
  (lte_ctrl_ratematching.c).

  The static buffers are lists that hold what a call wrote; no call reads what an earlier one left
  there. None is an access outside a buffer or a call that does not return. A float is a word
  with its bits.
\<close>

section \<open>Transmitter\<close>

definition ctrl_PERM :: "nat list" where
  "ctrl_PERM = [1, 17, 9, 25, 5, 21, 13, 29, 3, 19, 11, 27, 7, 23, 15, 31,
     0, 16, 8, 24, 4, 20, 12, 28, 2, 18, 10, 26, 6, 22, 14, 30]"

text \<open>The rows of the matrix, intceil (in_l, COLS).\<close>

definition ctrl_rows :: "nat \<Rightarrow> nat" where
  "ctrl_rows in_l = nat (cdiv (int in_l - 1) 32 + 1)"

definition ctrl_char_unwrap :: "bytes \<Rightarrow> bytes list" where
  "ctrl_char_unwrap inp = map (\<lambda>s. map (\<lambda>i. inp ! (3 * i + s)) [0..<length inp div 3]) [0..<3]"

text \<open>Row i of the matrix m.\<close>

definition rm_row :: "bytes \<Rightarrow> nat \<Rightarrow> bytes" where
  "rm_row xs i = (let dummies = ctrl_rows (length xs) * 32 - length xs in
     if i = 0 then replicate dummies 2 @ take (32 - dummies) xs
     else take 32 (drop (i * 32 - dummies) xs))"

definition subblock_interleaver :: "bytes \<Rightarrow> bytes" where
  "subblock_interleaver xs = (let rows = ctrl_rows (length xs); m = map (rm_row xs) [0..<rows] in
     map (\<lambda>k. m ! (k mod rows) ! (ctrl_PERM ! (k div rows))) [0..<rows * 32])"

text \<open>One run of the loop over the input; True when the function returned inside it.\<close>

fun select_pass :: "bytes \<Rightarrow> nat \<Rightarrow> bytes \<Rightarrow> bytes \<times> bool" where
  "select_pass [] out_l out = (out, False)"
| "select_pass (x # xs) out_l out =
     (if x \<noteq> 2 then if Suc (length out) = out_l then (out @ [x], True) else select_pass xs out_l (out @ [x])
      else select_pass xs out_l out)"

partial_function (option) bit_selection :: "bytes \<Rightarrow> nat \<Rightarrow> bytes \<Rightarrow> bytes option" where
  "bit_selection inp out_l out =
     (if length out < out_l
      then (case select_pass inp out_l out of (o1, r) \<Rightarrow> if r then Some o1 else bit_selection inp out_l o1)
      else Some out)"

declare bit_selection.simps [code]

text \<open>The rows of v have 1537 places, w has 4639.\<close>

definition rate_matching :: "bytes \<Rightarrow> int \<Rightarrow> bytes option" where
  "rate_matching inp E = (let n = length inp div 3; Kp = ctrl_rows n * 32 in
     if n > 1537 \<or> Kp > 1537 \<or> 3 * Kp > 4639 then None
     else bit_selection (concat (map subblock_interleaver (ctrl_char_unwrap inp))) (nat E) [])"

section \<open>Receiver\<close>

definition Pd :: "nat list" where
  "Pd = [16, 0, 24, 8, 20, 4, 28, 12, 18, 2, 26, 10, 22, 6, 30, 14,
     17, 1, 25, 9, 21, 5, 29, 13, 19, 3, 27, 11, 23, 7, 31, 15]"

definition f_two :: cfloat where
  "f_two = 0x40000000"

definition f_zero :: "cfloat \<Rightarrow> bool" where
  "f_zero x \<longleftrightarrow> take_bit 31 x = 0"

definition ctrl_float_wrap :: "cfloat list \<Rightarrow> cfloat list \<Rightarrow> cfloat list \<Rightarrow> nat \<Rightarrow> cfloat list" where
  "ctrl_float_wrap in0 in1 in2 insize = concat (map (\<lambda>i. [in0 ! i, in1 ! i, in2 ! i]) [0..<insize])"

text \<open>The loop that copies the samples around the dummies of vv; j is the place, idx the number of dummies seen.\<close>

fun insert_samples :: "cfloat list \<Rightarrow> cfloat list \<Rightarrow> nat \<Rightarrow> nat \<Rightarrow> cfloat list" where
  "insert_samples [] xs j idx = []"
| "insert_samples (v # vs) xs j idx =
     (if f_zero v then xs ! (j - idx) # insert_samples vs xs (Suc j) idx
      else v # insert_samples vs xs (Suc j) (Suc idx))"

definition dummy_marks :: "nat \<Rightarrow> nat \<Rightarrow> cfloat list" where
  "dummy_marks rows dummies = fold (\<lambda>i vv. vv[Pd ! i * rows := f_two]) [0..<dummies] (replicate (rows * 32) 0)"

text \<open>The matrix m_f, row after row, filled column by column.\<close>

definition fill_matrix :: "nat \<Rightarrow> cfloat list \<Rightarrow> cfloat list" where
  "fill_matrix rows vv = fold (\<lambda>k m. m[k mod rows * 32 + ctrl_PERM ! (k div rows) := vv ! k]) [0..<rows * 32] (replicate (rows * 32) 0)"

definition subblock_deinterleaver :: "cfloat list \<Rightarrow> cfloat list" where
  "subblock_deinterleaver xs = (let in_l = length xs; rows = ctrl_rows in_l; dummies = rows * 32 - in_l;
     vv = (if dummies > 0 then insert_samples (dummy_marks rows dummies) xs 0 0 else xs)
   in take in_l (drop dummies (fill_matrix rows vv)))"

text \<open>w_f has 4608 places.\<close>

definition rate_unmatching :: "cfloat list \<Rightarrow> int \<Rightarrow> cfloat list option" where
  "rate_unmatching inp S =
     (if S < 0 \<or> length inp > 4608 \<or> S > 4608 then None
      else let Kw = nat S div 3; w = inp @ replicate (nat S - length inp) 0;
          v = map (\<lambda>i. subblock_deinterleaver (take Kw (drop (i * Kw) w))) [0..<3]
        in Some (ctrl_float_wrap (v ! 0) (v ! 1) (v ! 2) Kw))"

section \<open>The module\<close>

text \<open>E and S are the parameters, None when they cannot be read; ready is whether there is an output buffer.
  The result is the number of samples and what was written.\<close>

definition ctrl_rm_work_tx :: "int option \<Rightarrow> bool \<Rightarrow> bytes \<Rightarrow> (int \<times> bytes) option" where
  "ctrl_rm_work_tx E ready inp =
     (if inp = [] \<or> \<not> ready \<or> length inp > 3 * 6114 then Some (0, [])
      else case E of
          None \<Rightarrow> Some (-1, [])
        | Some e \<Rightarrow> if e > 4608 then Some (-1, []) else map_option (\<lambda>b. (e, b)) (rate_matching inp e))"

definition ctrl_rm_work_rx :: "int option \<Rightarrow> bool \<Rightarrow> cfloat list \<Rightarrow> (int \<times> cfloat list) option" where
  "ctrl_rm_work_rx S ready inp =
     (if inp = [] \<or> \<not> ready \<or> length inp > 3 * 6114 then Some (0, [])
      else case S of
          None \<Rightarrow> Some (-1, [])
        | Some s \<Rightarrow> if s > 4608 then Some (-1, [])
          else if crem s 3 > 0 then Some (-1, [])
          else map_option (\<lambda>b. (int (length b), b)) (rate_unmatching inp s))"

section \<open>Lemmas on the transmitter\<close>

lemma ctrl_rows_bounds: "0 < ctrl_rows n" "n \<le> ctrl_rows n * 32" "0 < n \<Longrightarrow> ctrl_rows n * 32 < n + 32"
proof -
  have "ctrl_rows n = (if n = 0 then 1 else Suc ((n - 1) div 32))"
  proof (cases "n = 0")
    case True
    then show ?thesis by (simp add: ctrl_rows_def cdiv_def)
  next
    case False
    then have "int n - 1 = int (n - 1)" by simp
    then show ?thesis using False by (simp add: ctrl_rows_def cdiv_nonneg zdiv_int [symmetric] nat_add_distrib)
  qed
  then show "0 < ctrl_rows n" "n \<le> ctrl_rows n * 32" "0 < n \<Longrightarrow> ctrl_rows n * 32 < n + 32"
    using mult_div_mod_eq [of 32 "n - 1"] mod_less_divisor [of 32 "n - 1"] by (auto simp: algebra_simps)
qed

text \<open>The place of the matrix that is read at position k.\<close>

definition ctrl_index :: "nat \<Rightarrow> nat \<Rightarrow> nat" where
  "ctrl_index rows k = k mod rows * 32 + ctrl_PERM ! (k div rows)"

lemma ctrl_PERM_perm: "j < 32 \<Longrightarrow> ctrl_PERM ! j < 32" "i < 32 \<Longrightarrow> Pd ! i < 32 \<and> ctrl_PERM ! (Pd ! i) = i" "j < 32 \<Longrightarrow> Pd ! (ctrl_PERM ! j) = j"
proof -
  have a: "\<forall>j\<in>set [0..<32]. ctrl_PERM ! j < 32 \<and> Pd ! j < 32 \<and> ctrl_PERM ! (Pd ! j) = j \<and> Pd ! (ctrl_PERM ! j) = j" by code_simp
  then have b: "ctrl_PERM ! j < 32 \<and> Pd ! j < 32 \<and> ctrl_PERM ! (Pd ! j) = j \<and> Pd ! (ctrl_PERM ! j) = j" if "j < 32" for j using that by simp
  show "j < 32 \<Longrightarrow> ctrl_PERM ! j < 32" "i < 32 \<Longrightarrow> Pd ! i < 32 \<and> ctrl_PERM ! (Pd ! i) = i" "j < 32 \<Longrightarrow> Pd ! (ctrl_PERM ! j) = j"
    using b by blast+
qed

lemma ctrl_index_bij: "0 < rows \<Longrightarrow> bij_betw (ctrl_index rows) {..<rows * 32} {..<rows * 32}"
proof (rule bij_betwI [where g = "\<lambda>p. Pd ! (p mod 32) * rows + p div 32"])
  assume r: "0 < rows"
  have kd: "k div rows < 32" if "k < rows * 32" for k using that by (simp add: less_mult_imp_div_less mult.commute)
  show "ctrl_index rows \<in> {..<rows * 32} \<rightarrow> {..<rows * 32}"
  proof (rule funcsetI)
    fix k
    assume "k \<in> {..<rows * 32}"
    then have "ctrl_PERM ! (k div rows) < 32" using kd ctrl_PERM_perm(1) by simp
    moreover have "Suc (k mod rows) * 32 \<le> rows * 32" using r by (intro mult_le_mono1) (simp add: Suc_leI)
    ultimately show "ctrl_index rows k \<in> {..<rows * 32}" by (simp add: ctrl_index_def)
  qed
  show "(\<lambda>p. Pd ! (p mod 32) * rows + p div 32) \<in> {..<rows * 32} \<rightarrow> {..<rows * 32}"
  proof (rule funcsetI)
    fix p
    assume "p \<in> {..<rows * 32}"
    then have "p div 32 < rows" by (simp add: less_mult_imp_div_less)
    moreover have "Suc (Pd ! (p mod 32)) * rows \<le> 32 * rows" using ctrl_PERM_perm(2) [of "p mod 32"] by (intro mult_le_mono1) (simp add: Suc_leI)
    ultimately have "Pd ! (p mod 32) * rows + p div 32 < rows * 32" unfolding mult_Suc by linarith
    then show "Pd ! (p mod 32) * rows + p div 32 \<in> {..<rows * 32}" by simp
  qed
  show "Pd ! (ctrl_index rows k mod 32) * rows + ctrl_index rows k div 32 = k" if "k \<in> {..<rows * 32}" for k
    using that kd ctrl_PERM_perm(1,3) [of "k div rows"] by (simp add: ctrl_index_def)
  show "ctrl_index rows (Pd ! (p mod 32) * rows + p div 32) = p" if "p \<in> {..<rows * 32}" for p
  proof -
    have "p div 32 < rows" using that by (simp add: less_mult_imp_div_less)
    then show ?thesis using ctrl_PERM_perm(2) [of "p mod 32"] by (simp add: ctrl_index_def)
  qed
qed

definition padded :: "bytes \<Rightarrow> bytes" where
  "padded xs = replicate (ctrl_rows (length xs) * 32 - length xs) 2 @ xs"

lemma interleaver_index:
  assumes "0 < length xs"
  shows "subblock_interleaver xs = map (\<lambda>k. padded xs ! ctrl_index (ctrl_rows (length xs)) k) [0..<ctrl_rows (length xs) * 32]"
proof -
  let ?r = "ctrl_rows (length xs)"
  define d where "d = ?r * 32 - length xs"
  note b = ctrl_rows_bounds [of "length xs"]
  have d: "d < 32" "d + length xs = ?r * 32" using b assms by (auto simp: d_def)
  have row: "rm_row xs i ! c = padded xs ! (i * 32 + c)" if "i < ?r" "c < 32" for i c
  proof (cases i)
    case 0
    then show ?thesis using that d by (auto simp: rm_row_def padded_def Let_def nth_append simp flip: d_def)
  next
    case (Suc i')
    have "Suc i * 32 \<le> ?r * 32" using that by (intro mult_le_mono1) simp
    then have l: "i * 32 - d + c < length xs" using that(2) d Suc by simp
    have e: "i * 32 + c - d = i * 32 - d + c" "\<not> i * 32 + c < d" "i \<noteq> 0" "i * 32 - d \<le> length xs" using d(1) Suc l by simp_all
    show ?thesis using that(2) l by (simp add: rm_row_def padded_def Let_def nth_append e flip: d_def)
  qed
  show ?thesis
    unfolding subblock_interleaver_def Let_def
  proof (rule map_cong)
    fix k
    assume "k \<in> set [0..<?r * 32]"
    then have "k div ?r < 32" "k mod ?r < ?r" using b(1) by (simp_all add: less_mult_imp_div_less mult.commute)
    then show "map (rm_row xs) [0..<?r] ! (k mod ?r) ! (ctrl_PERM ! (k div ?r)) = padded xs ! ctrl_index ?r k"
      using row ctrl_PERM_perm(1) by (simp add: ctrl_index_def)
  qed simp
qed

lemma select_pass_take:
  "length out < out_l \<Longrightarrow> select_pass inp out_l out
    = (take out_l (out @ filter (\<lambda>x. x \<noteq> 2) inp), out_l \<le> length out + length (filter (\<lambda>x. x \<noteq> 2) inp))"
  by (induction inp out_l out rule: select_pass.induct) (auto simp: take_Cons')

text \<open>The selection repeats the bits of its input.\<close>

definition cyclic :: "bytes \<Rightarrow> nat \<Rightarrow> bytes" where
  "cyclic fs n = map (\<lambda>k. fs ! (k mod length fs)) [0..<n]"

lemma cyclic_more: "n mod length fs = 0 \<Longrightarrow> cyclic fs n @ fs = cyclic fs (n + length fs)"
proof (rule nth_equalityI)
  assume n: "n mod length fs = 0"
  fix i
  assume i: "i < length (cyclic fs n @ fs)"
  have "i mod length fs = i - n" if "\<not> i < n"
  proof -
    have "i mod length fs = (n + (i - n)) mod length fs" using that by simp
    also have "\<dots> = (i - n) mod length fs" using n by (simp flip: mod_add_left_eq)
    finally show ?thesis using i that by (simp add: cyclic_def)
  qed
  then show "(cyclic fs n @ fs) ! i = cyclic fs (n + length fs) ! i" using i by (simp add: cyclic_def nth_append)
qed (simp add: cyclic_def)

lemma bit_selection_cyclic:
  assumes fs: "fs = filter (\<lambda>x. x \<noteq> 2) inp" "fs \<noteq> []" and "n mod length fs = 0" "n \<le> out_l"
  shows "bit_selection inp out_l (cyclic fs n) = Some (cyclic fs out_l)"
  using assms(3,4)
proof (induction "out_l - n" arbitrary: n rule: less_induct)
  case less
  show ?case
  proof (cases "n = out_l")
    case True
    then show ?thesis by (subst bit_selection.simps) (simp add: cyclic_def)
  next
    case False
    then have n: "length (cyclic fs n) < out_l" using less.prems by (simp add: cyclic_def)
    have p: "select_pass inp out_l (cyclic fs n) = (take out_l (cyclic fs (n + length fs)), out_l \<le> n + length fs)"
      unfolding select_pass_take [OF n] fs(1) [symmetric] cyclic_more [OF less.prems(1)] by (simp add: cyclic_def)
    have t: "take out_l (cyclic fs m) = cyclic fs (min out_l m)" for m by (simp add: cyclic_def take_map min_def)
    show ?thesis
    proof (cases "out_l \<le> n + length fs")
      case True
      then show ?thesis using n p t by (subst bit_selection.simps) (simp add: min_def)
    next
      case more: False
      have "0 < length fs" using fs(2) by simp
      then have "bit_selection inp out_l (cyclic fs (n + length fs)) = Some (cyclic fs out_l)"
        using less.prems more False by (intro less.hyps) (simp_all add: diff_less_mono2)
      then show ?thesis using n p t more by (subst bit_selection.simps) (simp add: min_def)
    qed
  qed
qed

lemma bit_selection_stuck:
  assumes "set inp \<subseteq> {2}" "0 < out_l"
  shows "bit_selection inp out_l [] = None"
proof -
  have f: "filter (\<lambda>x. x \<noteq> 2) inp = []" using assms(1) by (auto simp: filter_empty_conv)
  have "filter (\<lambda>x. x \<noteq> 2) inp = [] \<longrightarrow> n \<le> length out" if "bit_selection inp n out = Some y" for inp n out y
    using that
  proof (rule bit_selection.raw_induct [rotated])
    fix sel inp n out y
    assume IH: "\<And>inp n out y. sel inp n out = Some y \<Longrightarrow> filter (\<lambda>x. x \<noteq> 2) inp = [] \<longrightarrow> n \<le> length out"
      and step: "(if length out < n then case select_pass inp n out of (o1, r) \<Rightarrow> if r then Some o1 else sel inp n o1 else Some out) = Some y"
    show "filter (\<lambda>x. x \<noteq> 2) inp = [] \<longrightarrow> n \<le> length out"
    proof (rule impI, rule ccontr)
      assume f: "filter (\<lambda>x. x \<noteq> 2) inp = []" and "\<not> n \<le> length out"
      then have l: "length out < n" by simp
      then have "select_pass inp n out = (out, False)" using select_pass_take [OF l, of inp] f by simp
      then show False using step IH [of inp n out y] l f by simp
    qed
  qed
  from this [of inp out_l "[]"] show ?thesis using assms(2) f by (cases "bit_selection inp out_l []") auto
qed

section \<open>Lemmas on the receiver\<close>

lemma fold_update_length: "length (fold (\<lambda>x m. m[key x := val x]) xs m0) = length m0"
  by (induction xs arbitrary: m0) simp_all

lemma fold_update_nth:
  assumes "inj_on key (set xs)" "distinct xs" "\<forall>x\<in>set xs. key x < length m0" "p < length m0"
  shows "fold (\<lambda>x m. m[key x := val x]) xs m0 ! p = (if p \<in> key ` set xs then val (the_inv_into (set xs) key p) else m0 ! p)"
  using assms(1-3)
proof (induction xs rule: rev_induct)
  case (snoc x xs)
  have inj: "inj_on key (set xs)" using snoc.prems(1) by (simp add: inj_on_Un)
  note IH = snoc.IH [OF inj] 
  have same: "the_inv_into (set (xs @ [x])) key (key z) = z" if "z \<in> set (xs @ [x])" for z
    by (rule the_inv_into_f_f [OF snoc.prems(1) that])
  have same': "the_inv_into (set xs) key (key z) = z" if "z \<in> set xs" for z by (rule the_inv_into_f_f [OF inj that])
  show ?case
  proof (cases "p = key x")
    case True
    then show ?thesis using same [of x] assms(4) by (simp add: fold_update_length)
  next
    case False
    then show ?thesis using IH snoc.prems same same' by (auto simp: nth_list_update_neq)
  qed
qed simp

lemma fill_matrix_nth:
  assumes "0 < rows" "k < rows * 32"
  shows "fill_matrix rows vv ! ctrl_index rows k = vv ! k"
proof -
  have bij: "bij_betw (ctrl_index rows) (set [0..<rows * 32]) {..<rows * 32}"
    using ctrl_index_bij [OF assms(1)] by (simp add: lessThan_atLeast0)
  have inj: "inj_on (ctrl_index rows) (set [0..<rows * 32])" and im: "ctrl_index rows ` set [0..<rows * 32] = {..<rows * 32}"
    using bij by (simp_all add: bij_betw_def)
  have k: "k \<in> set [0..<rows * 32]" using assms(2) by simp
  have lt: "ctrl_index rows x < rows * 32" if "x \<in> set [0..<rows * 32]" for x using im that by blast
  have "fill_matrix rows vv ! ctrl_index rows k = (if ctrl_index rows k \<in> ctrl_index rows ` set [0..<rows * 32]
      then vv ! the_inv_into (set [0..<rows * 32]) (ctrl_index rows) (ctrl_index rows k) else replicate (rows * 32) 0 ! ctrl_index rows k)"
    unfolding fill_matrix_def ctrl_index_def [symmetric] by (rule fold_update_nth [OF inj]) (use lt k in simp_all)
  then show ?thesis unfolding the_inv_into_f_f [OF inj k] if_P [OF imageI [OF k]] .
qed

lemma fill_matrix_all:
  assumes "0 < rows" "length m = rows * 32" "\<forall>k<rows * 32. vv ! k = m ! ctrl_index rows k"
  shows "fill_matrix rows vv = m"
proof (rule nth_equalityI)
  show "length (fill_matrix rows vv) = length m" by (simp add: fill_matrix_def fold_update_length assms(2))
  fix p
  assume "p < length (fill_matrix rows vv)"
  then have "p \<in> {..<rows * 32}" by (simp add: fill_matrix_def fold_update_length)
  then obtain k where "k < rows * 32" "p = ctrl_index rows k" using ctrl_index_bij [OF assms(1)] unfolding bij_betw_def by blast
  then show "fill_matrix rows vv ! p = m ! p" using fill_matrix_nth [OF assms(1)] assms(3) by simp
qed

lemma insert_samples_map:
  assumes "\<forall>k\<in>set ks. f_zero (g k) \<longleftrightarrow> P k" "idx \<le> j"
  shows "drop (j - idx) xs = map h (filter P ks) \<Longrightarrow> insert_samples (map g ks) xs j idx = map (\<lambda>k. if P k then h k else g k) ks"
  using assms
proof (induction ks arbitrary: j idx)
  case (Cons k ks)
  show ?case
  proof (cases "P k")
    case True
    then have d: "drop (j - idx) xs = h k # map h (filter P ks)" using Cons.prems by simp
    then have "xs ! (j - idx) = h k" by (metis nth_via_drop)
    moreover have "drop (Suc j - idx) xs = map h (filter P ks)" using d Cons.prems(3) by (metis Suc_diff_le drop_Suc list.sel(3) tl_drop)
    ultimately show ?thesis using Cons.IH [of "Suc j" idx] Cons.prems True by simp
  next
    case False
    then show ?thesis using Cons.IH [of "Suc j" "Suc idx"] Cons.prems by simp
  qed
qed simp

lemma dummy_marks_nth:
  assumes "0 < rows" "dummies < 32" "k < rows * 32"
  shows "dummy_marks rows dummies ! k = (if ctrl_index rows k < dummies then f_two else 0)"
proof -
  let ?key = "\<lambda>i. Pd ! i * rows"
  have inj: "inj_on ?key (set [0..<dummies])"
  proof (rule inj_onI)
    fix a b
    assume ab: "a \<in> set [0..<dummies]" "b \<in> set [0..<dummies]" "Pd ! a * rows = Pd ! b * rows"
    then have "Pd ! a = Pd ! b" using assms(1) by simp
    then show "a = b" using ctrl_PERM_perm(2) [of a] ctrl_PERM_perm(2) [of b] ab(1,2) assms(2) by (metis atLeastLessThan_iff less_trans set_upt)
  qed
  have "\<forall>i\<in>set [0..<dummies]. ?key i < length (replicate (rows * 32) (0 :: cfloat))"
    using ctrl_PERM_perm(2) assms(1,2) by (auto simp: mult.commute)
  from fold_update_nth [OF inj _ this, of k "\<lambda>i. f_two"] assms(3)
  have "dummy_marks rows dummies ! k = (if k \<in> ?key ` {0..<dummies} then f_two else 0)" by (simp add: dummy_marks_def)
  moreover have "k \<in> ?key ` {0..<dummies} \<longleftrightarrow> ctrl_index rows k < dummies"
  proof
    assume "k \<in> ?key ` {0..<dummies}"
    then obtain i where "i < dummies" "k = Pd ! i * rows" by auto
    then show "ctrl_index rows k < dummies" using assms ctrl_PERM_perm(2) [of i] by (simp add: ctrl_index_def)
  next
    assume a: "ctrl_index rows k < dummies"
    then have "k mod rows = 0" using assms(2) by (auto simp: ctrl_index_def)
    moreover have "k div rows < 32" using assms(3) by (simp add: less_mult_imp_div_less mult.commute)
    ultimately have "k = Pd ! ctrl_index rows k * rows" using ctrl_PERM_perm(3) [of "k div rows"] by (auto simp: ctrl_index_def)
    then show "k \<in> ?key ` {0..<dummies}" using a by (intro image_eqI [of _ _ "ctrl_index rows k"]) simp_all
  qed
  ultimately show ?thesis by simp
qed

lemma ctrl_deinterleave_interleave:
  assumes "2 \<notin> set xs" "xs \<noteq> []"
  shows "subblock_deinterleaver (map f (filter (\<lambda>x. x \<noteq> 2) (subblock_interleaver xs))) = map f xs"
    "length (filter (\<lambda>x. x \<noteq> 2) (subblock_interleaver xs)) = length xs"
proof -
  let ?n = "length xs" and ?r = "ctrl_rows (length xs)"
  define d where "d = ?r * 32 - ?n"
  note b = ctrl_rows_bounds [of ?n]
  have d: "d < 32" "d + ?n = ?r * 32" using b assms(2) by (auto simp: d_def)
  let ?P = "\<lambda>k. \<not> ctrl_index ?r k < d" and ?h = "\<lambda>k. f (padded xs ! ctrl_index ?r k)"
  have pad: "padded xs ! p = (if p < d then 2 else xs ! (p - d))" for p by (simp add: padded_def nth_append d_def)
  have range: "ctrl_index ?r k < ?r * 32" if "k < ?r * 32" for k using ctrl_index_bij [OF b(1)] that by (auto simp: bij_betw_def)
  have not2: "padded xs ! ctrl_index ?r k \<noteq> 2 \<longleftrightarrow> ?P k" if "k < ?r * 32" for k
  proof -
    have "xs ! (ctrl_index ?r k - d) \<in> set xs" if "?P k" using range [OF \<open>k < ?r * 32\<close>] d(2) that by (intro nth_mem) simp
    then show ?thesis using assms(1) by (auto simp: pad)
  qed
  have sel: "map f (filter (\<lambda>x. x \<noteq> 2) (subblock_interleaver xs)) = map ?h (filter ?P [0..<?r * 32])" (is "?ys = _")
    unfolding interleaver_index [OF assms(2) [folded length_greater_0_conv]] filter_map map_map comp_def
    by (intro map_cong filter_cong) (simp_all add: not2)
  have len: "length ?ys = ?n"
  proof -
    have "length (filter ?P [0..<?r * 32]) = card {k. k < ?r * 32 \<and> ?P k}"
      by (simp add: length_filter_conv_card cong: conj_cong)
    also have "\<dots> = card (ctrl_index ?r ` {k. k < ?r * 32 \<and> ?P k})"
      using ctrl_index_bij [OF b(1)] by (intro card_image [symmetric]) (auto simp: bij_betw_def inj_on_def)
    also have "ctrl_index ?r ` {k. k < ?r * 32 \<and> ?P k} = ctrl_index ?r ` {..<?r * 32} - {..<d}" by auto
    also have "\<dots> = {d..<?r * 32}" using bij_betw_imp_surj_on [OF ctrl_index_bij [OF b(1)]] by auto
    finally show ?thesis using sel d by simp
  qed
  define m where "m = replicate d f_two @ map f xs"
  define vv where "vv = (if d > 0 then insert_samples (dummy_marks ?r d) ?ys 0 0 else ?ys)"
  have vv: "vv ! k = m ! ctrl_index ?r k" if k: "k < ?r * 32" for k
  proof (cases "d > 0")
    case True
    have "dummy_marks ?r d = map (\<lambda>k. if ctrl_index ?r k < d then f_two else 0) [0..<?r * 32]"
      using dummy_marks_nth [OF b(1) d(1)] by (intro nth_equalityI) (simp_all add: dummy_marks_def fold_update_length)
    then have "vv = map (\<lambda>k. if ?P k then ?h k else (if ctrl_index ?r k < d then f_two else 0)) [0..<?r * 32]"
      unfolding vv_def using True by (simp only: if_True) (rule insert_samples_map, use sel in \<open>auto simp: f_zero_def f_two_def\<close>)
    then show ?thesis using k range [OF k] d(2) by (auto simp: m_def nth_append pad)
  next
    case False
    then have "vv = map ?h [0..<?r * 32]" unfolding vv_def using sel by simp
    then show ?thesis using k range [OF k] d(2) False by (simp add: m_def pad)
  qed
  have "fill_matrix ?r vv = m" by (rule fill_matrix_all) (use b vv d in \<open>simp_all add: m_def\<close>)
  then show "subblock_deinterleaver ?ys = map f xs"
    unfolding subblock_deinterleaver_def Let_def len d_def [symmetric] vv_def [symmetric] by (simp add: m_def)
  show "length (filter (\<lambda>x. x \<noteq> 2) (subblock_interleaver xs)) = ?n" using len by simp
qed

lemma float_wrap_streams:
  assumes "length xs = 3 * n"
  shows "ctrl_float_wrap (map f (map (\<lambda>i. xs ! (3 * i)) [0..<n])) (map f (map (\<lambda>i. xs ! (3 * i + 1)) [0..<n]))
    (map f (map (\<lambda>i. xs ! (3 * i + 2)) [0..<n])) n = map f xs"
proof -
  have "concat (map (\<lambda>i. [f (xs ! (3 * i)), f (xs ! (3 * i + 1)), f (xs ! (3 * i + 2))]) [0..<k]) = map f (take (3 * k) xs)" if "k \<le> n" for k
    using that
  proof (induction k)
    case (Suc k)
    then have "take (3 * Suc k) xs = take (3 * k) xs @ [xs ! (3 * k), xs ! (3 * k + 1), xs ! (3 * k + 2)]"
      using assms by (simp add: take_Suc_conv_app_nth numeral_eq_Suc)
    then show ?case using Suc by simp
  qed simp
  from this [of n] show ?thesis
    unfolding ctrl_float_wrap_def using assms by (auto intro!: arg_cong [where f = concat] map_cong elim!: trans [rotated])
qed

lemma rate_matching_prefix:
  assumes "length xs = 3 * n" "0 < n" "n \<le> 1536" "2 \<notin> set xs" "int (3 * n) \<le> E"
  shows "\<exists>ys zs. rate_matching xs E = Some (ys @ zs) \<and> length ys = 3 * n \<and> length (ys @ zs) = nat E
    \<and> (\<forall>f rest. rate_unmatching (map f ys @ rest) (int (3 * n)) = (if length rest \<le> 4608 - 3 * n then Some (map f xs) else None))"
proof -
  define st where "st s = map (\<lambda>i. xs ! (3 * i + s)) [0..<n]" for s
  define F where "F s = filter (\<lambda>x. x \<noteq> 2) (subblock_interleaver (st s))" for s
  have st: "2 \<notin> set (st s)" "st s \<noteq> []" "length (st s) = n" if "s < 3" for s
  proof -
    have "xs ! (3 * i + s) \<in> set xs" if "i < n" for i using that \<open>s < 3\<close> assms(1) by (intro nth_mem) simp
    then show "2 \<notin> set (st s)" using assms(4) by (force simp: st_def)
    show "st s \<noteq> []" "length (st s) = n" using assms(2) by (simp_all add: st_def)
  qed
  have F: "length (F s) = n" "subblock_deinterleaver (map f (F s)) = map f (st s)" if "s < 3" for f s
    unfolding F_def using ctrl_deinterleave_interleave [OF st(1,2) [OF that]] st(3) [OF that] by simp_all
  let ?w = "concat (map subblock_interleaver (ctrl_char_unwrap xs))"
  have up: "[0..<3] = [0, 1, 2 :: nat]" by (simp add: upt_rec)
  have fs: "filter (\<lambda>x. x \<noteq> 2) ?w = F 0 @ F 1 @ F 2" using assms(1) by (simp add: ctrl_char_unwrap_def up F_def st_def)
  have l: "length (F 0 @ F 1 @ F 2) = 3 * n" using F(1) by simp
  have "bit_selection ?w (nat E) (cyclic (F 0 @ F 1 @ F 2) 0) = Some (cyclic (F 0 @ F 1 @ F 2) (nat E))"
    by (rule bit_selection_cyclic [OF fs [symmetric]]) (use l assms(2) in auto)
  moreover have "ctrl_rows n * 32 \<le> 1536" using ctrl_rows_bounds(3) [OF assms(2)] assms(3) by presburger
  ultimately have tx: "rate_matching xs E = Some (cyclic (F 0 @ F 1 @ F 2) (nat E))"
    using assms(1,3) by (simp add: rate_matching_def Let_def cyclic_def)
  have t: "take (3 * n) (cyclic (F 0 @ F 1 @ F 2) (nat E)) = F 0 @ F 1 @ F 2"
    by (rule nth_equalityI) (use l assms(5) in \<open>auto simp: cyclic_def\<close>)
  have "rate_unmatching (map f (F 0 @ F 1 @ F 2) @ rest) (int (3 * n)) = (if length rest \<le> 4608 - 3 * n then Some (map f xs) else None)" for f rest
  proof -
    have "length (F 0) = n" "length (F (Suc 0)) = n" "length (F 2) = n" using F(1) by simp_all
    then have a: "map (\<lambda>i. subblock_deinterleaver (take n (drop (i * n) (map f (F 0 @ F 1 @ F 2) @ rest)))) [0..<3] = [map f (st 0), map f (st 1), map f (st 2)]"
      using F(2) [of 0 f] F(2) [of 1 f] F(2) [of 2 f] by (simp add: up)
    have b: "ctrl_float_wrap (map f (st 0)) (map f (st 1)) (map f (st 2)) n = map f xs"
      using float_wrap_streams [OF assms(1), of f] by (simp add: st_def)
    have c: "3 * n - length (map f (F 0 @ F 1 @ F 2) @ rest) = 0" "3 * n div 3 = n" using l by simp_all
    have g: "int (3 * n) < 0 \<or> length (map f (F 0 @ F 1 @ F 2) @ rest) > 4608 \<or> int (3 * n) > 4608 \<longleftrightarrow> \<not> length rest \<le> 4608 - 3 * n"
      using l assms(3) by auto
    show ?thesis unfolding rate_unmatching_def Let_def nat_int c replicate_0 append_Nil2 a g using b by simp
  qed
  moreover obtain zs where "cyclic (F 0 @ F 1 @ F 2) (nat E) = (F 0 @ F 1 @ F 2) @ zs" using t by (metis append_take_drop_id)
  moreover from this have "length ((F 0 @ F 1 @ F 2) @ zs) = nat E" by (metis cyclic_def diff_zero length_map length_upt)
  ultimately show ?thesis using tx l by (intro exI [of _ "F 0 @ F 1 @ F 2"] exI [of _ zs]) simp
qed

section \<open>Properties\<close>

text \<open>C27. Rate matching of the control channels loses nothing when every bit is sent: for a block of three streams
  of n bits (at most 1536) and E at least 3 n, the transmitter returns E samples, and the receiver, told S = 3 n,
  recovers the soft value of every bit of the block in its order, whatever the values f of the bits are; repeated bits
  are ignored.\<close>

theorem ctrl_rm_roundtrip:
  assumes "length xs = 3 * n" "0 < n" "2 \<notin> set xs" "int (3 * n) \<le> E" "E \<le> 4608"
  shows "\<exists>ys. ctrl_rm_work_tx (Some E) True xs = Some (E, ys) \<and> int (length ys) = E
    \<and> ctrl_rm_work_rx (Some (int (3 * n))) True (map f ys) = Some (int (3 * n), map f xs)"
proof -
  have "n \<le> 1536" using assms(4,5) by simp
  then obtain ys zs where y: "rate_matching xs E = Some (ys @ zs)" "length ys = 3 * n" "length (ys @ zs) = nat E"
    "\<And>f rest. rate_unmatching (map f ys @ rest) (int (3 * n)) = (if length rest \<le> 4608 - 3 * n then Some (map f xs) else None)"
    using rate_matching_prefix [OF assms(1,2) _ assms(3,4)] by blast
  have "length zs \<le> 4608 - 3 * n" using y(2,3) assms(5) by simp
  then have "rate_unmatching (map f (ys @ zs)) (int (3 * n)) = Some (map f xs)" using y(4) [of f "map f zs"] by simp
  moreover have "crem (int (3 * n)) 3 = 0" by (simp add: crem_def cdiv_nonneg)
  ultimately show ?thesis
    using y assms by (intro exI [of _ "ys @ zs"]) (auto simp: ctrl_rm_work_tx_def ctrl_rm_work_rx_def)
qed

definition soft_of :: "byte \<Rightarrow> cfloat" where
  "soft_of b = (if b = 1 then 0x3F800000 else 0xBF800000)"

theorem ctrl_rm_roundtrip_witness:
  "\<exists>ys. ctrl_rm_work_tx (Some 20) True [1, 0, 0, 1, 1, 1, 0, 1, 0, 0, 0, 1] = Some (20, ys) \<and> length ys = 20
    \<and> ctrl_rm_work_rx (Some 12) True (map soft_of ys)
      = Some (12, map soft_of [1, 0, 0, 1, 1, 1, 0, 1, 0, 0, 0, 1])"
  using ctrl_rm_roundtrip [of "[1, 0, 0, 1, 1, 1, 0, 1, 0, 0, 0, 1]" 4 20 soft_of] by simp

text \<open>C40. The transmitter does not return for an input of one or two samples: there is no bit to select, and the loop
  of bit_selection runs over dummies for ever.\<close>

theorem ctrl_rm_short_input_loops:
  assumes "0 < length xs" "length xs < 3" "0 < E" "E \<le> 4608"
  shows "bit_selection (concat (map subblock_interleaver (ctrl_char_unwrap xs))) (nat E) [] = None
    \<and> ctrl_rm_work_tx (Some E) True xs = None"
proof -
  have "subblock_interleaver [] = replicate 32 2" by code_simp
  moreover have "ctrl_char_unwrap xs = [[], [], []]" using assms(2) by (simp add: ctrl_char_unwrap_def upt_rec)
  ultimately have "set (concat (map subblock_interleaver (ctrl_char_unwrap xs))) \<subseteq> {2}" by simp
  then have "bit_selection (concat (map subblock_interleaver (ctrl_char_unwrap xs))) (nat E) [] = None"
    by (rule bit_selection_stuck) (use assms in simp)
  then show ?thesis using assms by (auto simp: ctrl_rm_work_tx_def rate_matching_def Let_def)
qed

theorem ctrl_rm_short_input_loops_witness: "ctrl_rm_work_tx (Some 72) True [1, 0] = None"
  using ctrl_rm_short_input_loops [of "[1, 0]" 72] by simp

end
