(* ===== verification/Ofdm_Framing.thy ===== *)
theory Ofdm_Framing
  imports Prelude C_Arrays
begin

text \<open>
  Framing of samples (modrep_osld): the cyclic prefix of OFDM symbols is inserted (gen_cyclic) and
  removed (gen_remcyclic), packets are padded and cut (gen_padding).

  Samples have any type. A work function returns its result, the argument of set_output_samples
  if it called it, and what it wrote to the output; cap is the size of the output buffer. None is
  an access outside a buffer, a division by zero or a call that does not return.
\<close>

section \<open>Cyclic prefix\<close>

text \<open>The samples at a position of a buffer, the argument of memcpy.\<close>

definition slice_at :: "'a list \<Rightarrow> int \<Rightarrow> int \<Rightarrow> 'a list option" where
  "slice_at xs pos n = (if 0 \<le> pos \<and> 0 \<le> n \<and> pos + n \<le> int (length xs) then Some (take (nat n) (drop (nat pos) xs)) else None)"

text \<open>The prefix of symbol j and the next k.\<close>

definition prefix_of :: "int \<Rightarrow> int \<Rightarrow> int \<Rightarrow> int \<Rightarrow> int \<Rightarrow> int \<times> int" where
  "prefix_of per first cp j k = (if j = k * per then (first, k + 1) else (cp, k))"

definition symbols_per_slot :: "int \<Rightarrow> int \<Rightarrow> int" where
  "symbols_per_slot first cp = (if first = cp then 6 else 7)"

fun cyclic_loop :: "int \<Rightarrow> int \<Rightarrow> int \<Rightarrow> int \<Rightarrow> nat \<Rightarrow> int \<Rightarrow> int \<Rightarrow> 'a list \<Rightarrow> 'a list option" where
  "cyclic_loop per dft first cp 0 j k inp = Some []"
| "cyclic_loop per dft first cp (Suc n) j k inp = (case prefix_of per first cp j k of (cpy, k1) \<Rightarrow> do {
     a \<leftarrow> slice_at inp (dft - cpy) cpy;
     b \<leftarrow> slice_at inp 0 dft;
     rest \<leftarrow> cyclic_loop per dft first cp n (j + 1) k1 (drop (nat dft) inp);
     Some (a @ b @ rest) })"

text \<open>The first parameter is None when the module has none, Some None when it cannot be read.\<close>

definition first_prefix :: "int option option \<Rightarrow> int \<Rightarrow> int option" where
  "first_prefix fst_par cp = (case fst_par of None \<Rightarrow> Some cp | Some v \<Rightarrow> v)"

definition cyclic_work :: "int option \<Rightarrow> int option \<Rightarrow> int option option \<Rightarrow> nat \<Rightarrow> 'a list \<Rightarrow> (int \<times> int option \<times> 'a list) option" where
  "cyclic_work dft_par cp_par fst_par cap inp =
     (let dft = (case dft_par of None \<Rightarrow> int (length inp) | Some d \<Rightarrow> d) in
      if dft = 0 then Some (0, None, [])
      else case cp_par of None \<Rightarrow> Some (-1, None, [])
      | Some cp \<Rightarrow> (case first_prefix fst_par cp of None \<Rightarrow> Some (-1, None, [])
        | Some first \<Rightarrow>
          if first > dft \<or> cp > dft then Some (-1, None, [])
          else if crem (int (length inp)) dft \<noteq> 0 then Some (-1, None, [])
          else let n = cdiv (int (length inp)) dft in
            if n = 0 then Some (0, None, [])
            else do {
              b \<leftarrow> cyclic_loop (symbols_per_slot first cp) dft first cp (nat n) 0 0 inp;
              if length b > cap then None else Some (0, Some (int (length b)), b) }))"

text \<open>The loop over the received samples: the number of symbols, the samples used and the output.\<close>

partial_function (option) remcyclic_loop ::
    "int \<Rightarrow> int \<Rightarrow> int \<Rightarrow> int \<Rightarrow> int \<Rightarrow> nat \<Rightarrow> 'a list \<Rightarrow> int \<Rightarrow> int \<Rightarrow> int \<Rightarrow> 'a list \<Rightarrow> (int \<times> int \<times> 'a list) option" where
  "remcyclic_loop per dft first cp rcv cap inp j k cnt out =
     (if cnt < rcv then case prefix_of per first cp j k of (cpy, k1) \<Rightarrow> do {
          b \<leftarrow> slice_at inp (cnt + cpy) dft;
          if length out + length b > cap then None
          else remcyclic_loop per dft first cp rcv cap inp (j + 1) k1 (cnt + dft + cpy) (out @ b) }
      else Some (j, cnt, out))"

text \<open>inp is the input buffer, rcv the number of samples received.\<close>

definition remcyclic_work ::
    "int option \<Rightarrow> int option \<Rightarrow> int option option \<Rightarrow> nat \<Rightarrow> 'a list \<Rightarrow> int \<Rightarrow> (int \<times> int option \<times> 'a list) option" where
  "remcyclic_work dft_par cp_par fst_par cap inp rcv =
     (case cp_par of None \<Rightarrow> Some (-1, None, [])
      | Some cp \<Rightarrow> (case first_prefix fst_par cp of None \<Rightarrow> Some (-1, None, [])
        | Some first \<Rightarrow>
          let dft = (case dft_par of None \<Rightarrow> rcv - cp | Some d \<Rightarrow> d) in
          if dft \<le> 0 then Some (0, None, [])
          else if first > dft \<or> cp > dft then Some (-1, None, [])
          else if rcv > 0 then do {
            (j, cnt, out) \<leftarrow> remcyclic_loop (symbols_per_slot first cp) dft first cp rcv cap inp 0 0 0 [];
            if rcv \<noteq> cnt then Some (-1, None, out) else Some (0, Some (j * dft), out) }
          else Some (0, None, [])))"

section \<open>Padding\<close>

definition get_input_sample_sz :: "int \<Rightarrow> int" where
  "get_input_sample_sz data_type = (if data_type = 0 then 8 else if data_type = 1 then 4 else if data_type = 2 then 1 else -1)"

text \<open>The packet j of the output; z is the sample whose bytes are zero.\<close>

definition pad_packet :: "'a \<Rightarrow> int \<Rightarrow> int \<Rightarrow> int \<Rightarrow> 'a list \<Rightarrow> int \<Rightarrow> 'a list option" where
  "pad_packet z pre post in_len inp j =
     (if pre < 0 \<or> post < 0 then None
      else map_option (\<lambda>b. replicate (nat pre) z @ b @ replicate (nat post) z) (slice_at inp (j * in_len) in_len))"

definition padding_work :: "int \<Rightarrow> 'a \<Rightarrow> int \<Rightarrow> int \<Rightarrow> int \<Rightarrow> nat \<Rightarrow> 'a list \<Rightarrow> (int \<times> int option \<times> 'a list) option" where
  "padding_work direction z pre post nof_packets cap inp =
     (if inp = [] then Some (0, None, [])
      else if nof_packets = 0 then None
      else if crem (int (length inp)) nof_packets \<noteq> 0 then Some (-1, None, [])
      else let in_len = cdiv (int (length inp)) nof_packets;
          out_len = (if direction \<noteq> 0 then in_len - pre - post else in_len + pre + post) in
        if in_len = 0 then Some (0, None, [])
        else do {
          out \<leftarrow> each (\<lambda>j out. map_option (\<lambda>b. out @ b)
              (if direction \<noteq> 0 then slice_at inp (j * in_len + pre) out_len else pad_packet z pre post in_len inp j)) (below nof_packets) [];
          if length out > cap then None else Some (0, Some (out_len * nof_packets), out) })"

section \<open>Lemmas\<close>

lemma slice_at_append: "length a = nat pos \<Longrightarrow> length b = nat n \<Longrightarrow> 0 \<le> pos \<Longrightarrow> 0 \<le> n \<Longrightarrow> slice_at (a @ b @ c) pos n = Some b"
  by (simp add: slice_at_def)

text \<open>The frame of n symbols, symbol by symbol.\<close>

fun framed :: "int \<Rightarrow> nat \<Rightarrow> int \<Rightarrow> int \<Rightarrow> nat \<Rightarrow> int \<Rightarrow> int \<Rightarrow> 'a list \<Rightarrow> 'a list" where
  "framed per dft first cp 0 j k inp = []"
| "framed per dft first cp (Suc n) j k inp = (case prefix_of per first cp j k of (cpy, k1) \<Rightarrow>
     drop (dft - nat cpy) (take dft inp) @ take dft inp @ framed per dft first cp n (j + 1) k1 (drop dft inp))"

definition prefixes_ok :: "nat \<Rightarrow> int \<Rightarrow> int \<Rightarrow> bool" where
  "prefixes_ok dft first cp \<longleftrightarrow> 0 < dft \<and> 0 \<le> first \<and> 0 \<le> cp \<and> first \<le> int dft \<and> cp \<le> int dft"

lemma prefix_range: "prefixes_ok dft first cp \<Longrightarrow> prefix_of per first cp j k = (c, k1) \<Longrightarrow> 0 \<le> c \<and> nat c \<le> dft"
  by (auto simp: prefixes_ok_def prefix_of_def split: if_splits)

lemma cyclic_loop_framed:
  assumes "prefixes_ok dft first cp" "n * dft \<le> length inp"
  shows "cyclic_loop per (int dft) first cp n j k inp = Some (framed per dft first cp n j k inp)"
  using assms(2)
proof (induction n arbitrary: j k inp)
  case (Suc n)
  obtain c k1 where p: "prefix_of per first cp j k = (c, k1)" by fastforce
  note c = prefix_range [OF assms(1) p]
  have l: "dft \<le> length inp" using Suc.prems by simp
  have "nat (int dft - c) = dft - nat c" using c by (simp add: nat_diff_distrib nat_le_iff)
  then have "slice_at inp (int dft - c) c = Some (drop (dft - nat c) (take dft inp))"
    using c l by (simp add: slice_at_def drop_take nat_le_iff)
  moreover have "slice_at inp 0 (int dft) = Some (take dft inp)" using l by (simp add: slice_at_def)
  ultimately show ?case using Suc p by simp
qed simp

lemma remcyclic_framed:
  assumes ok: "prefixes_ok dft first cp" and "n * dft \<le> length inp" "rcv = int (length pre + length (framed per dft first cp n j k inp))"
    "length out + n * dft \<le> cap"
  shows "remcyclic_loop per (int dft) first cp rcv cap (pre @ framed per dft first cp n j k inp @ post) j k (int (length pre)) out
    = Some (j + int n, rcv, out @ take (n * dft) inp)"
  using assms(2-4)
proof (induction n arbitrary: j k inp pre out)
  case 0
  then show ?case by (subst remcyclic_loop.simps) simp
next
  case (Suc n)
  obtain c k1 where p: "prefix_of per first cp j k = (c, k1)" by fastforce
  note c = prefix_range [OF ok p]
  have l: "dft \<le> length inp" "0 < dft" using Suc.prems ok by (simp_all add: prefixes_ok_def)
  let ?a = "drop (dft - nat c) (take dft inp)" and ?b = "take dft inp" and ?r = "framed per dft first cp n (j + 1) k1 (drop dft inp)"
  have f: "framed per dft first cp (Suc n) j k inp = ?a @ ?b @ ?r" by (simp add: p)
  have la: "int (length ?a) = c" "length ?b = dft" using c l by simp_all
  have lp: "length (pre @ ?a) = nat (int (length pre) + c)" using la(1) by simp
  have s: "slice_at (pre @ (?a @ ?b @ ?r) @ post) (int (length pre) + c) (int dft) = Some ?b"
    using slice_at_append [OF lp, of ?b "int dft" "?r @ post"] la(2) c by simp
  have lt: "int (length pre) < rcv" using Suc.prems(2) l la unfolding f by simp
  have IH: "remcyclic_loop per (int dft) first cp rcv cap ((pre @ ?a @ ?b) @ ?r @ post) (j + 1) k1 (int (length (pre @ ?a @ ?b))) (out @ ?b)
      = Some (j + 1 + int n, rcv, (out @ ?b) @ take (n * dft) (drop dft inp))"
    by (rule Suc.IH) (use Suc.prems(1,3) Suc.prems(2) [unfolded f] la in \<open>simp_all\<close>)
  have e: "int (length pre) + int dft + c = int (length (pre @ ?a @ ?b))" using la by simp
  have t: "?b @ take (n * dft) (drop dft inp) = take (Suc n * dft) inp" by (simp add: take_add)
  have cap: "\<not> length out + length ?b > cap" using Suc.prems(3) la(2) by simp
  have "remcyclic_loop per (int dft) first cp rcv cap (pre @ (?a @ ?b @ ?r) @ post) j k (int (length pre)) out
      = remcyclic_loop per (int dft) first cp rcv cap (pre @ (?a @ ?b @ ?r) @ post) (j + 1) k1 (int (length pre) + int dft + c) (out @ ?b)"
    by (subst remcyclic_loop.simps) (simp only: lt p s cap prod.case if_True if_False Option.bind.bind_lunit)
  also have "\<dots> = Some (j + 1 + int n, rcv, out @ ?b @ take (n * dft) (drop dft inp))" unfolding e using IH by simp
  finally show ?case unfolding f t by simp
qed

lemma framed_length: "prefixes_ok dft first cp \<Longrightarrow> length inp = n * dft \<Longrightarrow> n * dft \<le> length (framed per dft first cp n j k inp)"
  by (induction per dft first cp n j k inp rule: framed.induct) (auto simp: prefix_of_def)

lemma framed_le: "prefixes_ok dft first cp \<Longrightarrow> length inp = n * dft \<Longrightarrow> length (framed per dft first cp n j k inp) \<le> 2 * (n * dft)"
  by (induction per dft first cp n j k inp rule: framed.induct) (fastforce simp: prefix_of_def prefixes_ok_def)+

text \<open>Packets of the given length, one after the other.\<close>

lemma each_packets:
  assumes "\<forall>j<n. g (int j) = Some (f j)"
  shows "each (\<lambda>j out. map_option (\<lambda>b. out @ b) (g j)) (below (int n)) out = Some (out @ concat (map f [0..<n]))"
  using assms by (induction n) (simp_all add: below_Suc [unfolded of_nat_Suc] each_append)

lemma concat_chunks: "length xs = n * m \<Longrightarrow> concat (map (\<lambda>j. take m (drop (j * m) xs)) [0..<n]) = xs"
proof -
  have "concat (map (\<lambda>j. take m (drop (j * m) xs)) [0..<n]) = take (n * m) xs" for n
    by (induction n) (simp_all add: take_add add.commute [of m])
  then show "length xs = n * m \<Longrightarrow> concat (map (\<lambda>j. take m (drop (j * m) xs)) [0..<n]) = xs" by simp
qed

lemma chunks_length: "\<forall>j<n. length (f j) = m \<Longrightarrow> k \<le> n \<Longrightarrow> length (concat (map f [0..<k])) = k * m"
  by (induction k) simp_all

lemma chunk_of_concat:
  assumes "\<forall>j<n. length (f j) = m" "j < n"
  shows "take m (drop (j * m) (concat (map f [0..<n]))) = f j"
proof -
  note len = chunks_length [OF assms(1)]
  have "[0..<n] = [0..<j] @ j # [Suc j..<n]" using assms(2) by (metis less_imp_add_positive upt_add_eq_append upt_conv_Cons add_0 le0 less_imp_le)
  then show ?thesis using len [of j] assms by simp
qed

section \<open>Properties\<close>

text \<open>C28. gen_remcyclic undoes gen_cyclic: for n symbols of dft samples and prefixes between 0 and dft samples, with
  room in the output buffers, the symbols that the transmitter framed are recovered in order, whatever follows
  them in the buffer of the receiver.\<close>

theorem cyclic_prefix_roundtrip:
  assumes "0 < dft" "0 < n" "length xs = n * dft" "0 \<le> cp" "cp \<le> int dft" "0 \<le> first" "first \<le> int dft" "2 * n * dft \<le> cap" "n * dft \<le> cap2"
  shows "\<exists>ys. cyclic_work (Some (int dft)) (Some cp) (Some (Some first)) cap xs = Some (0, Some (int (length ys)), ys)
    \<and> remcyclic_work (Some (int dft)) (Some cp) (Some (Some first)) cap2 (ys @ rest) (int (length ys)) = Some (0, Some (int (n * dft)), xs)"
proof -
  let ?per = "symbols_per_slot first cp"
  let ?ys = "framed ?per dft first cp n 0 0 xs"
  have ok: "prefixes_ok dft first cp" using assms by (simp add: prefixes_ok_def)
  have loop: "cyclic_loop ?per (int dft) first cp n 0 0 xs = Some ?ys" by (rule cyclic_loop_framed [OF ok]) (simp add: assms(3))
  have len: "n * dft \<le> length ?ys" "length ?ys \<le> 2 * n * dft"
    using framed_length [OF ok assms(3)] framed_le [OF ok assms(3)] by (simp_all add: mult.assoc)
  have nz: "?ys \<noteq> []" using assms(1,2) len(1) by auto
  have dv: "cdiv (int (length xs)) (int dft) = int n" "crem (int (length xs)) (int dft) = 0"
    using assms(1,3) by (simp_all add: crem_def cdiv_nonneg)
  have "cyclic_work (Some (int dft)) (Some cp) (Some (Some first)) cap xs = Some (0, Some (int (length ?ys)), ?ys)"
    unfolding cyclic_work_def first_prefix_def option.case Let_def dv nat_int loop using assms len by simp
  moreover have "remcyclic_loop ?per (int dft) first cp (int (length ?ys)) cap2 (?ys @ rest) 0 0 0 [] = Some (int n, int (length ?ys), xs)"
    using remcyclic_framed [OF ok, of n xs "int (length ?ys)" "[]" ?per 0 0 "[]" cap2 rest] assms(3,9) by simp
  then have "remcyclic_work (Some (int dft)) (Some cp) (Some (Some first)) cap2 (?ys @ rest) (int (length ?ys)) = Some (0, Some (int (n * dft)), xs)"
    unfolding remcyclic_work_def first_prefix_def option.case Let_def using assms len(1) nz by simp
  ultimately show ?thesis by blast
qed

theorem cyclic_prefix_roundtrip_witness:
  "\<exists>ys. cyclic_work (Some 4) (Some 1) (Some (Some 2)) 2048 [1 :: int, 2, 3, 4, 5, 6, 7, 8] = Some (0, Some (int (length ys)), ys)
    \<and> remcyclic_work (Some 4) (Some 1) (Some (Some 2)) 2048 (ys @ [9]) (int (length ys)) = Some (0, Some 8, [1, 2, 3, 4, 5, 6, 7, 8])"
  using cyclic_prefix_roundtrip [of 4 2 "[1 :: int, 2, 3, 4, 5, 6, 7, 8]" 1 2 2048 2048 "[9]"] by simp

text \<open>gen_padding cuts what it padded: nof_packets packets of m samples, padded with pre samples before and post
  samples behind each of them, are recovered when the receiver has the same parameters.\<close>

theorem padding_roundtrip:
  assumes "0 < np" "0 < m" "length xs = np * m" "0 \<le> pre" "0 \<le> post" "np * (m + nat pre + nat post) \<le> cap"
  shows "\<exists>ys. padding_work 0 z pre post (int np) cap xs = Some (0, Some (int (length ys)), ys) \<and> length ys = np * (m + nat pre + nat post)
    \<and> padding_work 1 z' pre post (int np) cap ys = Some (0, Some (int (np * m)), xs)"
proof -
  let ?f = "\<lambda>j. replicate (nat pre) z @ take m (drop (j * m) xs) @ replicate (nat post) z"
  let ?M = "m + nat pre + nat post"
  let ?ys = "concat (map ?f [0..<np])"
  have fit: "j * m + m \<le> np * m" if "j < np" for j using mult_le_mono1 [of "Suc j" np m] that by simp
  have lf: "\<forall>j<np. length (?f j) = ?M" using fit assms(3) by (auto simp: min_def) (metis add_le_imp_le_diff add.commute le_antisym)
  have ly: "length ?ys = np * ?M" using chunks_length [OF lf] by simp
  have ne: "xs \<noteq> []" "?ys \<noteq> []" using assms(1,2,3) ly by auto
  have dv: "cdiv (int (length xs)) (int np) = int m" "crem (int (length xs)) (int np) = 0"
    "cdiv (int (length ?ys)) (int np) = int ?M" "crem (int (length ?ys)) (int np) = 0"
    using assms(1) unfolding assms(3) ly by (simp_all add: crem_def cdiv_nonneg)
  have "\<forall>j<np. pad_packet z pre post (int m) xs (int j) = Some (?f j)"
    using assms(3,4,5) fit by (auto simp: pad_packet_def slice_at_def nat_mult_distrib simp flip: of_nat_mult of_nat_add)
  from each_packets [OF this, of "[]"]
  have "padding_work 0 z pre post (int np) cap xs = Some (0, Some (int (length ?ys)), ?ys)"
    unfolding padding_work_def Let_def dv using ne(1) assms ly by (simp add: algebra_simps)
  moreover
  have "slice_at ?ys (int j * int ?M + pre) (int m) = Some (take m (drop (j * m) xs))" if "j < np" for j
  proof -
    have c: "take ?M (drop (j * ?M) ?ys) = ?f j" by (rule chunk_of_concat [OF lf that])
    have "j * ?M + ?M \<le> np * ?M" using mult_le_mono1 [of "Suc j" np ?M] that by simp
    then have "int (j * ?M + ?M) \<le> int (length ?ys)" unfolding ly by (simp only: of_nat_le_iff)
    then have "int j * int ?M + pre + int m \<le> int (length ?ys)" using assms(4,5) unfolding of_nat_add of_nat_mult by simp
    moreover have "take m (drop (nat pre) (take ?M (drop (j * ?M) ?ys))) = take m (drop (j * m) xs)" unfolding c using lf that by simp
    then have "take m (drop (j * ?M + nat pre) ?ys) = take m (drop (j * m) xs)" unfolding drop_take drop_drop take_take by (simp add: add.commute)
    moreover have "nat (int j * int ?M + pre) = j * ?M + nat pre" using assms(4) by (simp add: nat_add_distrib nat_mult_distrib)
    moreover have "0 \<le> int j * int ?M + pre" using assms(4) by simp
    ultimately show ?thesis unfolding slice_at_def by (simp only: nat_int of_nat_0_le_iff simp_thms if_True)
  qed
  then have "\<forall>j<np. slice_at ?ys (int j * int ?M + pre) (int m) = Some (take m (drop (j * m) xs))" by blast
  from each_packets [OF this, of "[]"]
  have "padding_work 1 z' pre post (int np) cap ?ys = Some (0, Some (int (np * m)), xs)"
    unfolding padding_work_def Let_def dv using ne(2) assms ly by (simp add: concat_chunks algebra_simps)
  ultimately show ?thesis using ly by blast
qed

theorem padding_roundtrip_witness:
  "\<exists>ys. padding_work 0 (0 :: int) 2 1 3 64 [1, 2, 3, 4, 5, 6] = Some (0, Some (int (length ys)), ys) \<and> length ys = 15
    \<and> padding_work 1 0 2 1 3 64 ys = Some (0, Some 6, [1, 2, 3, 4, 5, 6])"
  using padding_roundtrip [of 3 2 "[1, 2, 3, 4, 5, 6 :: int]" 2 1 64 0 0] by simp

text \<open>The output buffer of gen_cyclic is too small for the input that its interface admits: with 2048 samples, the
  size of both buffers, any positive prefix makes the module write beyond the output.\<close>

theorem cyclic_overflow:
  assumes "0 < dft" "length xs = 2048" "2048 mod dft = 0" "0 < cp" "cp \<le> int dft"
  shows "cyclic_work (Some (int dft)) (Some cp) None 2048 xs = None"
proof -
  obtain n where n: "2048 = n * dft" using assms(3) by (metis add_0_right div_mult_mod_eq)
  have ok: "prefixes_ok dft cp cp" using assms by (simp add: prefixes_ok_def)
  have loop: "cyclic_loop 6 (int dft) cp cp n 0 0 xs = Some (framed 6 dft cp cp n 0 0 xs)"
    by (rule cyclic_loop_framed [OF ok]) (simp add: assms(2) n)
  obtain m where m: "n = Suc m" using n by (cases n) simp_all
  have "m * dft \<le> length (framed 6 dft cp cp m 1 1 (drop dft xs))"
    by (rule framed_length [OF ok]) (use assms(2) n m in simp)
  then have "2048 < length (framed 6 dft cp cp n 0 0 xs)"
    using n m assms by (simp add: prefix_of_def)
  moreover have "cdiv (int (length xs)) (int dft) = int n" "crem (int (length xs)) (int dft) = 0"
    using assms(1) unfolding assms(2) n by (simp_all add: crem_def cdiv_nonneg)
  moreover have "symbols_per_slot cp cp = 6" "\<not> cp > int dft" "int dft \<noteq> 0" "int n \<noteq> 0" using assms m by (simp_all add: symbols_per_slot_def)
  ultimately show ?thesis
    unfolding cyclic_work_def first_prefix_def option.case Let_def by (simp del: cyclic_loop.simps framed.simps add: loop)
qed

theorem cyclic_overflow_witness: "cyclic_work (Some 2048) (Some 144) None 2048 (replicate 2048 (0 :: int)) = None"
  using cyclic_overflow [of 2048 "replicate 2048 (0 :: int)" 144] by simp

end
