(* ===== verification/Spec2Isabelle.thy ===== *)
theory Spec2Isabelle
  imports Serial_Codec Spscq Crc Coding Turbo Rate_Matching Scrambling Segmentation Barrier Ctrl_Skeleton Grid_Init Ctrl_Rate_Matching Ofdm_Framing
begin

text \<open>
  ALOE is an execution environment for software radio: a real-time kernel runs signal
  processing modules as processes in pipelines, one pass of every pipeline per time slot; a
  manager maps the modules of a waveform to the processors and commands the node that runs
  them; modules exchange packets through queues and read parameters that depend on the mode.

  \<^bold>\<open>The parts and how they interact.\<close> The manager (oesr/src/manager) computes a mapping, writes
  the waveform into a packet (oesr/src/common) and hands it to the node. The dispatcher of the
  node (oesr/src/node) reads the packet, the node creates one kernel process for each module
  (rtdal_lnx/src), and the kernel calls the module once per time slot through the run point of
  oesr_static.c. The module code is linked with a skeleton (oesr/src/skeleton) that creates the
  queues of its ports, moves packets and applies control packets through the module interface
  (oesr/src/oesr_api). The LTE modules (modrep_osld) compute on the packets.

  \<^bold>\<open>Theories and sources.\<close>

  \<^item> Prelude: C integers, byte images, chains of calls with early returns, list and option
    lemmas that the other theories share.
  \<^item> Packet (common/packet.c): operations on the byte buffer, the invariant packet_wf, the
    predicates emits and takes. Waveform (waveform.c, mempool.c): records of waveforms,
    modules, variables and interfaces, allocation and search. Serial, Serial_Codec,
    Waveform_Codec (serializable.c): writers and readers; what is written is what is read.
  \<^item> Spscq (rtdal_itfspscq.c): the single producer single consumer queue. Lemmas: a FIFO of
    messages with delivery times under any interleaving.
  \<^item> Barrier (barrier.c): threads of a round as a step relation; safety and progress.
  \<^item> Pipeline (pipeline.c, rtdal_process.c): the linked list of processes and a time slot. It
    refines an ordered list. Kernel (rtdal_base.c, rtdal_kernel_thread.c, rtdal_time.c):
    creation and removal of processes, the work at the start of a slot; the reachable states
    keep the pipelines well formed.
  \<^item> Node, Node_Life (nod_module.c, nod_waveform.c, oesr_static.c): loading, initialisation,
    status changes, one cycle of a module, removal. Dispatcher (nod_dispatcher.c, nod_anode.c):
    commands from packets.
  \<^item> Man_Mapping (man_mapping.c): tasks, stages, delays, placement. Manager (man_waveform.c):
    the operations of the manager and the command path to the node. The lemmas follow a command
    through all layers: load, mode change, update, status.
  \<^item> Oesr_Api (oesr_var.c, oesr_itf.c, oesr_context.c, oesr_error.c, rtdal_itf.c): parameters
    and data interfaces as module code sees them.
  \<^item> Skeleton, Skeleton_Init, Skeleton_Run (skeleton.c, params.c): Init, Run and Stop of a
    module; a waveform of skeleton modules starts in any order of the modules, and Run meets its
    contract on the message queues. Ctrl_Skeleton (ctrl_skeleton.c): control modules, their
    outputs and the values they send.
  \<^item> Crc (gen_crc), Coding (pack.c, conv_encode.c, mux.c), Turbo (permute.c, turbocoder.c),
    Rate_Matching, Scrambling, Segmentation: the channel coding chain. Each routine is related
    to a bit level reference or to its inverse.
  \<^item> C_Arrays: bounded accesses, loops with return codes and copies between buffers as lists of
    moves. Lte_Grid, Grid_Channels (lte_lib/grid): the configuration of an LTE cell, the
    resource element groups of the control region, the channels that are put into the grid of a
    subframe and got out of it, and the initialisation. Grid_Regs, Grid_Alloc, Grid_Pdsch,
    Grid_Init: the allocation of the groups; no group is given to two channels, and the
    initialisation succeeds when there is room. Grid_Moves, Grid_Control: the routines that put
    and get a channel are inverse to each other, and channels do not disturb each other.
  \<^item> Lte_Messages (lte_dci_pack, lte_bch_pack, lte_bch_demux, lte_cfi_coding, lte_cfi_decoding,
    lte_crc_scrambling): the messages of the control channels; what is packed arrives at the
    receiver, the block of the broadcast channel is spread over forty subframes, ten wrong bits
    of the format indicator are corrected. Ctrl_Rate_Matching (lte_ctrl_ratematching): the
    receiver undoes the transmitter, and the inputs for which the transmitter does not return.
  \<^item> Ofdm_Framing (gen_cyclic, gen_remcyclic, gen_padding): cyclic prefixes and padding are
    removed as they were inserted, and an input for which the output buffer is too small.

  \<^bold>\<open>Interfaces.\<close> Locales state what a client relies on and are interpreted on the model:
  struct_image (copies of structures through packets), the queue contract of Spscq, the list
  contract of Pipeline, channel_moves (routines that put a channel into the grid and get it out
  again), the two-pass initialisation of Skeleton_Init and others; each is
  interpreted in the theory that provides the operations.

  \<^bold>\<open>Conventions.\<close> A C integer is an int with a range predicate where overflow matters, else a
  word of its width; pointers into arrays are indices; errors are the return codes of the
  source. A result None stands for a call that does not return, an access outside an object or
  a failed assertion, as the theory says. Loops that need not end are partial functions into
  option: walks over linked lists, the trials of nod_waveform_init, the reading loops of the
  skeletons, the bit selection of the control channels, the removal of cyclic prefixes. Their theorems state that a result
  exists, or for which inputs there is none. The loop of char_ratematching takes
  fuel, and enough fuel is proved to exist. Other recursion is structural or has a measure.

  \<^bold>\<open>Parameters.\<close> Code outside the repository and code of the user is an argument: threads,
  sleeping, dlopen and allocation results (node_os, the loader of Kernel), the Init, Run, Stop
  and work functions of modules, ctrl_init and ctrl_work, float arithmetic of the mapping cost
  and the search of the mapper. What a theorem needs of a parameter is a hypothesis with a
  witness.

  \<^bold>\<open>Not modelled.\<close> Floating point signal processing (turbo and Viterbi decoders, modulation,
  transforms, synchronisation) and the search of the mapper, which HOL words and integers do
  not describe; files, logs, signals, timers, thread creation and radio hardware, which are
  system calls; parsers over libconfig, gnuplot and the ring buffer, which are third-party
  code or drive it. Public variables and counters of oesr_api alias memory of the module.
  The modules that only read parameters and call modelled routines (the wrappers of the coding
  routines, the LTE mapper, demapper and link control) are left out.
\<close>

end
